(* ===== verification/Home_Prelude.thy ===== *)
theory Home_Prelude
  imports Complex_Main "HOL-Library.AList" "HOL-Library.List_Lexorder" "HOL-Library.Char_ord"
    "HOL-Library.Multiset"
begin

section \<open>Go values shared by every component\<close>

text \<open>
  The prelude of the development: how the Go values the components share are represented, with
  the lemmas about them that carry the component proofs.

  \<^item> A Go string is the list of its runes, for runes up to U+00FF (a \<^typ>\<open>char\<close> each).  On these
    runes the tables of the Go package \<^verbatim>\<open>unicode\<close> (white space, letters, digits, lower case) are
    written out exactly.
  \<^item> A Go map is an association list with distinct keys; the list order is the order in which one
    \<^verbatim>\<open>range\<close> over the map visits it.  Go leaves that order open, so a theorem about every list covers
    every visiting order.
  \<^item> \<^verbatim>\<open>time.Time\<close> is the number of nanoseconds since the zero time, so that \<^verbatim>\<open>IsZero\<close> is \<open>t = 0\<close>;
    \<^verbatim>\<open>time.Duration\<close> is a signed 64-bit number of nanoseconds.
  \<^item> \<^verbatim>\<open>int64\<close> (and \<^verbatim>\<open>int\<close>, on the 64-bit platforms the program is built for) is an \<^typ>\<open>int\<close> in
    the range of \<open>is_i64\<close>; an operation that may leave the range wraps with \<open>wrap64\<close>.
\<close>

named_theorems i64_simps \<open>the numerals of the 64-bit range\<close>
named_theorems gomap_simps \<open>lookup after an update or a deletion\<close>

subsection \<open>64-bit integers\<close>

definition max_i64 :: int where
  "max_i64 = 9223372036854775807"

definition min_i64 :: int where
  "min_i64 = - 9223372036854775808"

definition is_i64 :: "int \<Rightarrow> bool" where
  "is_i64 x \<longleftrightarrow> min_i64 \<le> x \<and> x \<le> max_i64"

text \<open>Two's complement: the representative of \<open>x\<close> modulo \<open>2 ^ 64\<close> in the signed range.\<close>

definition wrap64 :: "int \<Rightarrow> int" where
  "wrap64 x = (x + 9223372036854775808) mod 18446744073709551616 - 9223372036854775808"

lemmas [i64_simps] = max_i64_def min_i64_def is_i64_def

lemma is_i64_wrap64 [simp]: "is_i64 (wrap64 x)"
proof -
  have "0 \<le> (x + 9223372036854775808) mod 18446744073709551616"
    "(x + 9223372036854775808) mod 18446744073709551616 < 18446744073709551616"
    by simp_all
  then show ?thesis
    unfolding wrap64_def i64_simps by linarith
qed

lemma wrap64_id [simp]: "is_i64 x \<Longrightarrow> wrap64 x = x"
  by (simp add: wrap64_def i64_simps)

lemma is_i64_0 [simp]: "is_i64 0"
  by (simp add: i64_simps)

subsection \<open>Times and durations\<close>

type_synonym gotime = int
type_synonym duration = int

definition second :: duration where
  "second = 1000000000"

definition minute :: duration where
  "minute = 60 * second"

definition hour :: duration where
  "hour = 60 * minute"

lemmas duration_defs = second_def minute_def hour_def

text \<open>\<^verbatim>\<open>Time.Sub\<close> saturates at the bounds of a duration.\<close>

definition time_sub :: "gotime \<Rightarrow> gotime \<Rightarrow> duration" where
  "time_sub t u = max min_i64 (min max_i64 (t - u))"

lemma time_sub_le_iff: "d < max_i64 \<Longrightarrow> min_i64 \<le> d \<Longrightarrow> time_sub t u \<le> d \<longleftrightarrow> t - u \<le> d"
  by (auto simp: time_sub_def)

lemma time_sub_nonneg: "u \<le> t \<Longrightarrow> 0 \<le> time_sub t u"
  by (simp add: time_sub_def i64_simps)

text \<open>\<^verbatim>\<open>Time.UnixNano\<close>: nanoseconds since 1970, as an \<^verbatim>\<open>int64\<close>.\<close>

definition unix_epoch :: gotime where
  "unix_epoch = 62135596800 * second"

definition unix_nano :: "gotime \<Rightarrow> int" where
  "unix_nano t = wrap64 (t - unix_epoch)"

text \<open>The earlier of two instants, where the zero time stands for "none yet".\<close>

definition earlier :: "gotime \<Rightarrow> gotime \<Rightarrow> gotime" where
  "earlier e t = (if t \<noteq> 0 \<and> (e = 0 \<or> t < e) then t else e)"

lemma earlier_zero_right [simp]: "earlier e 0 = e"
  by (simp add: earlier_def)

lemma earlier_zero_left [simp]: "earlier 0 t = t"
  by (simp add: earlier_def)

lemma earlier_eq_zero_iff: "earlier e t = 0 \<longleftrightarrow> e = 0 \<and> t = 0"
  by (auto simp: earlier_def)

lemma earlier_left_commute: "earlier (earlier e s) t = earlier (earlier e t) s"
  by (auto simp: earlier_def)

lemma earlier_le: "t \<noteq> 0 \<Longrightarrow> earlier e t \<le> t"
  by (auto simp: earlier_def)

lemma earlier_le_left: "e \<noteq> 0 \<Longrightarrow> earlier e t \<le> e"
  by (auto simp: earlier_def)

lemma earlier_cases: "earlier e t = e \<or> earlier e t = t"
  by (auto simp: earlier_def)

lemma foldl_earlier_Min:
  assumes "\<forall>t\<in>set ts. t \<noteq> 0"
  shows "foldl earlier e ts = (if ts = [] then e else if e = 0 then Min (set ts)
     else Min (insert e (set ts)))"
  using assms
proof (induction ts arbitrary: e)
  case (Cons t ts)
  then show ?case
    by (cases "ts = []") (auto simp: earlier_def min_def Min_insert2 intro!: Min_eqI [symmetric])
qed simp

lemma foldl_earlier_perm:
  assumes "mset xs = mset ys"
  shows "foldl earlier e xs = foldl earlier e ys"
proof -
  have "fold (\<lambda>t e. earlier e t) xs = fold (\<lambda>t e. earlier e t) ys"
    by (rule fold_multiset_equiv [OF _ assms]) (auto simp: fun_eq_iff earlier_left_commute)
  then show ?thesis
    by (simp add: foldl_conv_fold)
qed

lemma sort_Nil_iff [simp]: "sort_key f xs = [] \<longleftrightarrow> xs = []"
  by (metis set_empty set_sort)

subsection \<open>Strings\<close>

definition go_space :: "char \<Rightarrow> bool" where
  "go_space c \<longleftrightarrow> List.member [9, 10, 11, 12, 13, 32, 133, 160] (of_char c :: nat)"

definition trim_space :: "string \<Rightarrow> string" where
  "trim_space s = rev (dropWhile go_space (rev (dropWhile go_space s)))"

definition lower_char :: "char \<Rightarrow> char" where
  "lower_char c =
     (let n = (of_char c :: nat)
      in if (65 \<le> n \<and> n \<le> 90) \<or> (192 \<le> n \<and> n \<le> 222 \<and> n \<noteq> 215) then char_of (n + 32) else c)"

definition to_lower :: "string \<Rightarrow> string" where
  "to_lower s = map lower_char s"

definition equal_fold :: "string \<Rightarrow> string \<Rightarrow> bool" where
  "equal_fold s t \<longleftrightarrow> to_lower s = to_lower t"

text \<open>\<^verbatim>\<open>len(s)\<close> counts the bytes of the UTF-8 encoding.\<close>

definition go_len :: "string \<Rightarrow> nat" where
  "go_len s = sum_list (map (\<lambda>c. if (of_char c :: nat) < 128 then 1 else 2) s)"

definition has_prefix :: "string \<Rightarrow> string \<Rightarrow> bool" where
  "has_prefix s p \<longleftrightarrow> take (length p) s = p"

definition has_suffix :: "string \<Rightarrow> string \<Rightarrow> bool" where
  "has_suffix s p \<longleftrightarrow> has_prefix (rev s) (rev p)"

fun contains :: "string \<Rightarrow> string \<Rightarrow> bool" where
  "contains [] p \<longleftrightarrow> p = []"
| "contains (c # s) p \<longleftrightarrow> has_prefix (c # s) p \<or> contains s p"

lemma go_len_append [simp]: "go_len (s @ t) = go_len s + go_len t"
  by (simp add: go_len_def)

lemma trim_space_Nil [simp]: "trim_space [] = []"
  by (simp add: trim_space_def)

lemma trim_space_prefix: "\<exists>u. dropWhile go_space s = trim_space s @ u"
  unfolding trim_space_def
  by (metis rev_append rev_rev_ident takeWhile_dropWhile_id)

lemma trim_space_hd: "trim_space s = c # t \<Longrightarrow> \<not> go_space c"
proof -
  assume "trim_space s = c # t"
  then obtain u where "dropWhile go_space s = c # t @ u"
    using trim_space_prefix [of s] by auto
  then show ?thesis
    using hd_dropWhile [of go_space s] by (metis list.discI list.sel(1))
qed

lemma trim_space_idem [simp]: "trim_space (trim_space s) = trim_space s"
proof (cases "trim_space s")
  case (Cons c t)
  then have "dropWhile go_space (trim_space s) = trim_space s"
    by (simp add: trim_space_hd)
  moreover have "dropWhile go_space (rev (trim_space s)) = rev (trim_space s)"
    by (simp add: trim_space_def)
  ultimately show ?thesis
    by (simp add: trim_space_def [of "trim_space s"])
qed simp

subsection \<open>Maps\<close>

type_synonym ('k, 'v) gomap = "('k \<times> 'v) list"

abbreviation gomap_wf :: "('k, 'v) gomap \<Rightarrow> bool" where
  "gomap_wf m \<equiv> distinct (map fst m)"

text \<open>\<^verbatim>\<open>m[k]\<close> yields the zero value of the element type where the key is absent.\<close>

definition gomap_get :: "'v \<Rightarrow> ('k, 'v) gomap \<Rightarrow> 'k \<Rightarrow> 'v" where
  "gomap_get z m k = (case map_of m k of None \<Rightarrow> z | Some v \<Rightarrow> v)"

lemma map_of_update [simp, gomap_simps]:
  "map_of (AList.update k v m) k' = (if k' = k then Some v else map_of m k')"
  by (simp add: update_conv')

lemma map_of_delete [simp, gomap_simps]:
  "map_of (AList.delete k m) k' = (if k' = k then None else map_of m k')"
  by (simp add: delete_conv')

lemma gomap_wf_update [simp]: "gomap_wf m \<Longrightarrow> gomap_wf (AList.update k v m)"
  by (rule distinct_update)

lemma gomap_wf_delete [simp]: "gomap_wf m \<Longrightarrow> gomap_wf (AList.delete k m)"
  by (rule distinct_delete)

lemma gomap_get_update [simp, gomap_simps]:
  "gomap_get z (AList.update k v m) k' = (if k' = k then v else gomap_get z m k')"
  by (simp add: gomap_get_def)

lemma gomap_get_delete [simp, gomap_simps]:
  "gomap_get z (AList.delete k m) k' = (if k' = k then z else gomap_get z m k')"
  by (simp add: gomap_get_def)

lemma gomap_get_Nil [simp]: "gomap_get z [] k = z"
  by (simp add: gomap_get_def)

subsection \<open>Numbers in text\<close>

definition is_digit :: "char \<Rightarrow> bool" where
  "is_digit c \<longleftrightarrow> 48 \<le> (of_char c :: nat) \<and> (of_char c :: nat) \<le> 57"

definition digits_val :: "string \<Rightarrow> int" where
  "digits_val s = foldl (\<lambda>n c. 10 * n + (int (of_char c) - 48)) 0 s"

text \<open>
  \<^verbatim>\<open>strconv.ParseInt(s, 10, 64)\<close> and \<^verbatim>\<open>strconv.Atoi\<close>: an optional sign, at least one decimal digit, and
  nothing else; a value outside the 64-bit range is an error too.
\<close>

definition parse_int64 :: "string \<Rightarrow> int option" where
  "parse_int64 s =
     (let neg = (s \<noteq> [] \<and> hd s = CHR ''-'');
          body = (if s \<noteq> [] \<and> (hd s = CHR ''-'' \<or> hd s = CHR ''+'') then tl s else s);
          v = (if neg then - digits_val body else digits_val body)
      in if body = [] \<or> \<not> list_all is_digit body then None
         else if is_i64 v then Some v else None)"

lemma parse_int64_range: "parse_int64 s = Some v \<Longrightarrow> is_i64 v"
  by (auto simp: parse_int64_def Let_def split: if_splits)

text \<open>\<^verbatim>\<open>strconv.ParseBool\<close>.\<close>

definition parse_bool :: "string \<Rightarrow> bool option" where
  "parse_bool s =
     (if List.member [''1'', ''t'', ''T'', ''TRUE'', ''true'', ''True''] s then Some True
      else if List.member [''0'', ''f'', ''F'', ''FALSE'', ''false'', ''False''] s then Some False
      else None)"

subsection \<open>Dynamically typed values\<close>

text \<open>
  \<^verbatim>\<open>any\<close> as the metadata of a credential or of a request holds it.  A finite \<^verbatim>\<open>float64\<close> is the
  rational number it denotes; comparisons, truncation and the conversion to an integer are exact
  on it.
\<close>

datatype gofloat = FNaN | FInf bool | FFin rat

datatype int_kind = KInt | KInt8 | KInt16 | KInt32 | KInt64
  | KUint | KUint8 | KUint16 | KUint32 | KUint64

datatype goval =
    VNil
  | VBool bool
  | VInt int_kind int
  | VFloat64 gofloat
  | VFloat32 gofloat
  | VNumber string \<comment> \<open>\<^verbatim>\<open>json.Number\<close>\<close>
  | VString string
  | VStrings "string list" \<comment> \<open>\<^verbatim>\<open>[]string\<close>\<close>
  | VList "goval list" \<comment> \<open>\<^verbatim>\<open>[]any\<close>\<close>
  | VSet "string list" \<comment> \<open>\<^verbatim>\<open>map[string]struct{}\<close>\<close>
  | VBoolMap "(string \<times> bool) list" \<comment> \<open>\<^verbatim>\<open>map[string]bool\<close>\<close>
  | VStringMap "(string \<times> string) list" \<comment> \<open>\<^verbatim>\<open>map[string]string\<close>\<close>
  | VMap "(string \<times> goval) list" \<comment> \<open>\<^verbatim>\<open>map[string]any\<close>\<close>
  | VExcluded "(string \<times> string) list" \<comment> \<open>\<^verbatim>\<open>[]ExcludedConcurrencyCandidate\<close>\<close>
  | VOther

end
