(* ===== verification/Credential_Weight.thy ===== *)
theory Credential_Weight
  imports Home_Prelude
begin

section \<open>Credential weights\<close>

text \<open>
  The package \<^verbatim>\<open>internal/credentialweight\<close>: \<open>Normalize\<close>, \<open>ParseString\<close> and \<open>ParseValue\<close>, with the
  error texts as constructors.  The lemmas bound every accepted weight by \<open>weight_max\<close> and say which
  inputs are rejected.
\<close>

datatype weight_error = WeightTooLarge | WeightNotInteger

definition weight_default :: int where
  "weight_default = 1"

definition weight_max :: int where
  "weight_max = 1000000"

definition Normalize :: "int \<Rightarrow> weight_error + int" where
  "Normalize weight =
     (if weight \<le> 0 then Inr 0
      else if weight > weight_max then Inl WeightTooLarge
      else Inr weight)"

definition ParseString :: "string \<Rightarrow> weight_error + int" where
  "ParseString raw0 =
     (let raw = trim_space raw0
      in if raw = [] then Inr weight_default
         else (case parse_int64 raw of
             None \<Rightarrow> Inl WeightNotInteger
           | Some weight \<Rightarrow> Normalize weight))"

text \<open>
  The unsigned kinds are checked against the bound and returned as they are; a \<^verbatim>\<open>uint8\<close> or a
  \<^verbatim>\<open>uint16\<close> fits below the bound by its width.  \<^verbatim>\<open>math.Trunc(x) != x\<close> holds of the finite floats
  with a fractional part.
\<close>

fun ParseFloat :: "gofloat \<Rightarrow> weight_error + int" where
  "ParseFloat FNaN = Inl WeightNotInteger"
| "ParseFloat (FInf neg) = Inl WeightNotInteger"
| "ParseFloat (FFin r) =
     (if of_int (floor r) \<noteq> r then Inl WeightNotInteger
      else if r \<le> 0 then Inr 0
      else if r > of_int weight_max then Inl WeightTooLarge
      else Inr (floor r))"

fun ParseInt :: "int_kind \<Rightarrow> int \<Rightarrow> weight_error + int" where
  "ParseInt KUint n = (if n > weight_max then Inl WeightTooLarge else Inr n)"
| "ParseInt KUint8 n = Inr n"
| "ParseInt KUint16 n = Inr n"
| "ParseInt KUint32 n = (if n > weight_max then Inl WeightTooLarge else Inr n)"
| "ParseInt KUint64 n = (if n > weight_max then Inl WeightTooLarge else Inr n)"
| "ParseInt k n = Normalize n"

fun ParseValue :: "goval \<Rightarrow> weight_error + int" where
  "ParseValue (VInt k n) = ParseInt k n"
| "ParseValue (VFloat64 f) = ParseFloat f"
| "ParseValue (VFloat32 f) = ParseFloat f"
| "ParseValue (VNumber s) =
     (case parse_int64 s of None \<Rightarrow> Inl WeightNotInteger | Some n \<Rightarrow> Normalize n)"
| "ParseValue (VString s) = ParseString s"
| "ParseValue _ = Inl WeightNotInteger"

text \<open>A value of an integer kind lies in the range of that kind.\<close>

fun kind_range :: "int_kind \<Rightarrow> int \<Rightarrow> bool" where
  "kind_range KInt8 n \<longleftrightarrow> - 128 \<le> n \<and> n \<le> 127"
| "kind_range KInt16 n \<longleftrightarrow> - 32768 \<le> n \<and> n \<le> 32767"
| "kind_range KInt32 n \<longleftrightarrow> - 2147483648 \<le> n \<and> n \<le> 2147483647"
| "kind_range KUint8 n \<longleftrightarrow> 0 \<le> n \<and> n \<le> 255"
| "kind_range KUint16 n \<longleftrightarrow> 0 \<le> n \<and> n \<le> 65535"
| "kind_range KUint32 n \<longleftrightarrow> 0 \<le> n \<and> n \<le> 4294967295"
| "kind_range KUint n \<longleftrightarrow> 0 \<le> n \<and> n \<le> 18446744073709551615"
| "kind_range KUint64 n \<longleftrightarrow> 0 \<le> n \<and> n \<le> 18446744073709551615"
| "kind_range k n \<longleftrightarrow> is_i64 n"

fun goval_wf :: "goval \<Rightarrow> bool" where
  "goval_wf (VInt k n) = kind_range k n"
| "goval_wf _ = True"

lemma Normalize_range: "Normalize n = Inr w \<Longrightarrow> 0 \<le> w \<and> w \<le> weight_max"
  by (auto simp: Normalize_def weight_max_def split: if_splits)

lemma ParseString_range: "ParseString s = Inr w \<Longrightarrow> 0 \<le> w \<and> w \<le> weight_max"
  by (auto simp: ParseString_def Let_def weight_default_def weight_max_def
      dest: Normalize_range split: if_splits option.splits)

lemma ParseFloat_range: "ParseFloat f = Inr w \<Longrightarrow> 0 \<le> w \<and> w \<le> weight_max"
  by (cases f) (auto simp: weight_max_def floor_le_iff split: if_splits)

lemma ParseInt_range: "ParseInt k n = Inr w \<Longrightarrow> kind_range k n \<Longrightarrow> 0 \<le> w \<and> w \<le> weight_max"
  by (cases k) (auto simp: weight_max_def dest: Normalize_range split: if_splits)

lemma ParseValue_range: "ParseValue v = Inr w \<Longrightarrow> goval_wf v \<Longrightarrow> 0 \<le> w \<and> w \<le> weight_max"
  by (cases v) (auto dest: ParseInt_range ParseFloat_range ParseString_range Normalize_range
      split: option.splits)

end
