(* ===== verification/Auth_Model.thy ===== *)
theory Auth_Model
  imports Credential_Weight
begin

section \<open>Credentials and their runtime state\<close>

text \<open>
  The data of \<^verbatim>\<open>internal/cliproxy/auth\<close> (\<^verbatim>\<open>types.go\<close>, \<^verbatim>\<open>status.go\<close>, \<^verbatim>\<open>errors.go\<close>, \<^verbatim>\<open>model_suffix.go\<close>,
  and the helpers of \<^verbatim>\<open>selector.go\<close> and \<^verbatim>\<open>manager.go\<close> that every component reads): errors, quota and
  model states, the credential record, the ring of recent requests, model keys, and the check that
  decides whether a credential is blocked for a model.  A pointer that may be nil is an option; the
  fields of \<^verbatim>\<open>Auth\<close> that no modelled operation reads (labels, storage handles, proxy settings,
  creation time) are left out of the record.
\<close>

subsection \<open>Status, errors, quota\<close>

text \<open>\<^verbatim>\<open>Status\<close> is a string type with named constants; any other text is \<open>StatusOther\<close>.\<close>

datatype auth_status = StatusUnknown | StatusActive | StatusPending | StatusRefreshing
  | StatusError | StatusDisabled | StatusOther string

record upstream_response =
  ur_Status :: int
  ur_Body :: string

record auth_error =
  err_Code :: string
  err_Message :: string
  err_Diagnostic :: string
  err_Retryable :: bool
  err_HTTPStatus :: int
  err_Upstream :: "upstream_response option"

record quota_state =
  q_Exceeded :: bool
  q_Scope :: string
  q_Reason :: string
  q_NextRecoverAt :: gotime
  q_BackoffLevel :: int

record model_state =
  ms_Status :: auth_status
  ms_StatusMessage :: string
  ms_Unavailable :: bool
  ms_NextRetryAfter :: gotime
  ms_LastError :: "auth_error option"
  ms_Quota :: quota_state
  ms_UpdatedAt :: gotime
  ms_QuotaResetAt :: gotime

definition no_quota :: quota_state where
  "no_quota = \<lparr>q_Exceeded = False, q_Scope = [], q_Reason = [], q_NextRecoverAt = 0,
     q_BackoffLevel = 0\<rparr>"

definition ErrorCodeStreamTruncated :: string where
  "ErrorCodeStreamTruncated = ''stream_truncated''"

definition ErrorCodeRequestScoped :: string where
  "ErrorCodeRequestScoped = ''request_scoped''"

fun StatusCode :: "auth_error option \<Rightarrow> int" where
  "StatusCode None = 0"
| "StatusCode (Some e) = err_HTTPStatus e"

definition statusCodeFromResult :: "auth_error option \<Rightarrow> int" where
  "statusCodeFromResult err = (case err of None \<Rightarrow> 0 | Some e \<Rightarrow> StatusCode (Some e))"

text \<open>\<^verbatim>\<open>cloneError\<close> copies every field, the upstream body included: a value is its own copy.\<close>

definition cloneError :: "auth_error option \<Rightarrow> auth_error option" where
  "cloneError err =
     (case err of
        None \<Rightarrow> None
      | Some e \<Rightarrow> Some \<lparr>err_Code = err_Code e, err_Message = err_Message e,
          err_Diagnostic = err_Diagnostic e, err_Retryable = err_Retryable e,
          err_HTTPStatus = err_HTTPStatus e,
          err_Upstream = map_option (\<lambda>u. \<lparr>ur_Status = ur_Status u, ur_Body = ur_Body u\<rparr>)
            (err_Upstream e)\<rparr>)"

lemma cloneError_id [simp]: "cloneError err = err"
proof -
  have "(\<lambda>u. \<lparr>ur_Status = ur_Status u, ur_Body = ur_Body u\<rparr>) = (\<lambda>u. u)"
    by (intro ext upstream_response.equality) simp_all
  then show ?thesis
    by (auto simp: cloneError_def option.map_ident split: option.splits)
qed

definition error_text :: "auth_error option \<Rightarrow> string" where
  "error_text err =
     (case err of
        None \<Rightarrow> []
      | Some e \<Rightarrow>
          (case err_Upstream e of
             Some u \<Rightarrow> ur_Body u
           | None \<Rightarrow> if err_Code e = [] then err_Message e
               else err_Code e @ '': '' @ err_Message e))"

subsection \<open>The ring of recent requests\<close>

record request_bucket =
  rb_bucketID :: int
  rb_success :: int
  rb_failed :: int

definition recentRequestBucketSeconds :: int where
  "recentRequestBucketSeconds = 600"

definition recentRequestBucketCount :: nat where
  "recentRequestBucketCount = 20"

definition empty_ring :: "request_bucket list" where
  "empty_ring = replicate recentRequestBucketCount \<lparr>rb_bucketID = 0, rb_success = 0, rb_failed = 0\<rparr>"

text \<open>\<^verbatim>\<open>Time.Unix\<close> rounds down; Go's \<^verbatim>\<open>/\<close> and \<^verbatim>\<open>%\<close> truncate towards zero.\<close>

definition go_div :: "int \<Rightarrow> int \<Rightarrow> int" where
  "go_div a b = sgn a * sgn b * (\<bar>a\<bar> div \<bar>b\<bar>)"

definition go_mod :: "int \<Rightarrow> int \<Rightarrow> int" where
  "go_mod a b = a - b * go_div a b"

definition unix_seconds :: "gotime \<Rightarrow> int" where
  "unix_seconds t = (t - unix_epoch) div second"

definition recentRequestBucketID :: "gotime \<Rightarrow> int" where
  "recentRequestBucketID now =
     (if now = 0 then 0 else go_div (unix_seconds now) recentRequestBucketSeconds)"

definition recentRequestBucketIndex :: "int \<Rightarrow> nat" where
  "recentRequestBucketIndex bucketID =
     (let m = go_mod bucketID (int recentRequestBucketCount);
          m' = (if m < 0 then m + int recentRequestBucketCount else m)
      in nat m')"

definition recordRecentRequest :: "gotime \<Rightarrow> bool \<Rightarrow> request_bucket list \<Rightarrow> request_bucket list" where
  "recordRecentRequest now ok buckets =
     (let bucketID = recentRequestBucketID now;
          idx = recentRequestBucketIndex bucketID;
          b0 = buckets ! idx;
          b = (if rb_bucketID b0 \<noteq> bucketID
               then \<lparr>rb_bucketID = bucketID, rb_success = 0, rb_failed = 0\<rparr> else b0)
      in buckets[idx := (if ok then b\<lparr>rb_success := wrap64 (rb_success b + 1)\<rparr>
                         else b\<lparr>rb_failed := wrap64 (rb_failed b + 1)\<rparr>)])"

text \<open>\<^verbatim>\<open>RecentRequestsSnapshot\<close> without the clock labels: oldest bucket first.\<close>

definition RecentRequestsSnapshot :: "gotime \<Rightarrow> request_bucket list \<Rightarrow> (int \<times> int \<times> int) list" where
  "RecentRequestsSnapshot now buckets =
     map (\<lambda>i. let bucketID = recentRequestBucketID now - int i;
                  bucket = buckets ! recentRequestBucketIndex bucketID
              in if rb_bucketID bucket = bucketID
                 then (bucketID, rb_success bucket, rb_failed bucket) else (bucketID, 0, 0))
       (rev [0..<recentRequestBucketCount])"

lemma go_div_nonneg: "0 \<le> a \<Longrightarrow> 0 < b \<Longrightarrow> go_div a b = a div b"
  by (auto simp: go_div_def sgn_if)

lemma go_div_neg: "a < 0 \<Longrightarrow> 0 < b \<Longrightarrow> go_div a b = - ((- a) div b)"
  by (auto simp: go_div_def sgn_if)

lemma recentRequestBucketIndex_mod: "int (recentRequestBucketIndex b) = b mod 20"
proof (cases "b < 0")
  case True
  then have "go_mod b 20 = - ((- b) mod 20)"
    by (simp add: go_mod_def go_div_neg) (metis add.inverse_inverse add_uminus_conv_diff
        minus_add_distrib minus_mult_div_eq_mod)
  moreover have "b mod 20 = (if (- b) mod 20 = 0 then 0 else 20 - (- b) mod 20)"
    using zmod_zminus1_eq_if [of "- b" 20] by simp
  moreover have "0 \<le> (- b) mod 20" "(- b) mod 20 < 20"
    by simp_all
  ultimately show ?thesis
    unfolding recentRequestBucketIndex_def recentRequestBucketCount_def Let_def
    by (cases "(- b) mod 20 = 0") auto
next
  case False
  then have "go_mod b 20 = b mod 20"
    by (simp add: go_mod_def go_div_nonneg minus_mult_div_eq_mod)
  then show ?thesis
    by (auto simp: recentRequestBucketIndex_def recentRequestBucketCount_def Let_def)
qed

lemma recentRequestBucketIndex_bound: "recentRequestBucketIndex b < recentRequestBucketCount"
  using recentRequestBucketIndex_mod [of b] by (simp add: recentRequestBucketCount_def)

subsection \<open>The credential\<close>

record auth =
  au_ID :: string
  au_Index :: string
  au_Provider :: string
  au_Prefix :: string
  au_FileName :: string
  au_Status :: auth_status
  au_StatusMessage :: string
  au_Disabled :: bool
  au_Unavailable :: bool
  au_Attributes :: "(string, string) gomap"
  au_Metadata :: "(string, goval) gomap"
  au_RuntimeDisableCooling :: "bool option"
  au_RuntimeRefreshBlocked :: bool
  au_Quota :: quota_state
  au_LastError :: "auth_error option"
  au_LastRefreshError :: "auth_error option"
  au_UpdatedAt :: gotime
  au_LastRefreshedAt :: gotime
  au_NextRefreshAfter :: gotime
  au_NextRetryAfter :: gotime
  au_ModelStates :: "(string, model_state option) gomap"
  au_StateVersion :: int
  au_Success :: int
  au_Failed :: int
  au_recentRequests :: "request_bucket list"

text \<open>
  The lookup of a model state: a key that is absent and a key that holds a nil pointer both read as
  nil.
\<close>

definition model_state_at :: "auth \<Rightarrow> string \<Rightarrow> model_state option" where
  "model_state_at a m = gomap_get None (au_ModelStates a) m"

subsection \<open>Model keys\<close>

record suffix_result =
  sr_ModelName :: string
  sr_HasSuffix :: bool
  sr_RawSuffix :: string

fun last_index :: "char \<Rightarrow> string \<Rightarrow> nat option" where
  "last_index c [] = None"
| "last_index c (x # xs) =
     (case last_index c xs of
        Some i \<Rightarrow> Some (Suc i)
      | None \<Rightarrow> if x = c then Some 0 else None)"

definition parseModelSuffix :: "string \<Rightarrow> suffix_result" where
  "parseModelSuffix model =
     (case last_index (CHR ''('') model of
        None \<Rightarrow> \<lparr>sr_ModelName = model, sr_HasSuffix = False, sr_RawSuffix = []\<rparr>
      | Some lastOpen \<Rightarrow>
          if \<not> has_suffix model '')''
          then \<lparr>sr_ModelName = model, sr_HasSuffix = False, sr_RawSuffix = []\<rparr>
          else \<lparr>sr_ModelName = take lastOpen model, sr_HasSuffix = True,
                sr_RawSuffix = drop (Suc lastOpen) (butlast model)\<rparr>)"

definition canonicalModelKey :: "string \<Rightarrow> string" where
  "canonicalModelKey model0 =
     (let model = trim_space model0
      in if model = [] then []
         else let modelName = trim_space (sr_ModelName (parseModelSuffix model))
              in if modelName = [] then model else modelName)"

lemma canonicalModelKey_Nil [simp]: "canonicalModelKey [] = []"
  by (simp add: canonicalModelKey_def)

lemma canonicalModelKey_eq_Nil_iff: "canonicalModelKey m = [] \<longleftrightarrow> trim_space m = []"
  by (auto simp: canonicalModelKey_def Let_def)

lemma last_index_Some:
  "last_index c xs = Some i \<Longrightarrow> i < length xs \<and> xs ! i = c \<and> c \<notin> set (drop (Suc i) xs)"
proof (induction xs arbitrary: i)
  case (Cons x xs)
  show ?case
  proof (cases "last_index c xs")
    case None
    then have "c \<notin> set xs"
      by (induction xs) (auto split: option.splits if_splits)
    with None Cons.prems show ?thesis
      by (auto split: if_splits)
  next
    case (Some j)
    with Cons show ?thesis
      by auto
  qed
qed simp

subsection \<open>Priority, refresh blocks and model blocks\<close>

definition authPriority :: "auth option \<Rightarrow> int" where
  "authPriority auth =
     (case auth of
        None \<Rightarrow> 0
      | Some a \<Rightarrow>
          let raw = trim_space (gomap_get [] (au_Attributes a) ''priority'')
          in if raw = [] then 0
             else (case parse_int64 raw of None \<Rightarrow> 0 | Some p \<Rightarrow> p))"

definition refreshTransientErrorCode :: string where
  "refreshTransientErrorCode = ''refresh_temporarily_unavailable''"

definition RefreshBlocksDispatch :: "auth option \<Rightarrow> bool" where
  "RefreshBlocksDispatch auth =
     (case auth of
        None \<Rightarrow> False
      | Some a \<Rightarrow>
          if \<not> au_Unavailable a then False
          else if au_RuntimeRefreshBlocked a then True
          else (case au_LastError a of
              None \<Rightarrow> False
            | Some e \<Rightarrow> equal_fold (trim_space (err_Code e)) refreshTransientErrorCode))"

datatype block_reason = BlockReasonNone | BlockReasonCooldown | BlockReasonDisabled | BlockReasonOther

definition state_for_model :: "auth \<Rightarrow> string \<Rightarrow> model_state option" where
  "state_for_model a model =
     (case model_state_at a model of
        Some state \<Rightarrow> Some state
      | None \<Rightarrow>
          let baseModel = canonicalModelKey model
          in if baseModel \<noteq> [] \<and> baseModel \<noteq> model then model_state_at a baseModel else None)"

definition model_state_blocks :: "model_state \<Rightarrow> gotime \<Rightarrow> bool \<times> block_reason \<times> gotime" where
  "model_state_blocks state now =
     (if ms_Status state = StatusDisabled then (True, BlockReasonDisabled, 0)
      else if ms_Unavailable state \<and> ms_NextRetryAfter state \<noteq> 0 \<and> ms_NextRetryAfter state > now
      then let next0 =
                 (if q_NextRecoverAt (ms_Quota state) \<noteq> 0 \<and> q_NextRecoverAt (ms_Quota state) > now
                  then q_NextRecoverAt (ms_Quota state) else ms_NextRetryAfter state);
               next = (if next0 < now then now else next0)
           in if q_Exceeded (ms_Quota state) then (True, BlockReasonCooldown, next)
              else (True, BlockReasonOther, next)
      else (False, BlockReasonNone, 0))"

definition isAuthBlockedForModel ::
    "auth option \<Rightarrow> string \<Rightarrow> gotime \<Rightarrow> bool \<times> block_reason \<times> gotime" where
  "isAuthBlockedForModel auth model now =
     (case auth of
        None \<Rightarrow> (True, BlockReasonOther, 0)
      | Some a \<Rightarrow>
          if au_Disabled a \<or> au_Status a = StatusDisabled then (True, BlockReasonDisabled, 0)
          else if RefreshBlocksDispatch (Some a) then (True, BlockReasonOther, au_NextRetryAfter a)
          else if model \<noteq> []
          then (case state_for_model a model of
              Some state \<Rightarrow> model_state_blocks state now
            | None \<Rightarrow> (False, BlockReasonNone, 0))
          else (False, BlockReasonNone, 0))"

abbreviation blocked_for :: "auth \<Rightarrow> string \<Rightarrow> gotime \<Rightarrow> bool" where
  "blocked_for a model now \<equiv> fst (isAuthBlockedForModel (Some a) model now)"

lemma blocked_None [simp]: "fst (isAuthBlockedForModel None model now)"
  by (simp add: isAuthBlockedForModel_def)

text \<open>A block with a recovery time recovers no earlier than now.\<close>

lemma model_state_blocks_next:
  "model_state_blocks state now = (b, r, next) \<Longrightarrow> next = 0 \<or> now \<le> next"
  by (auto simp: model_state_blocks_def Let_def split: if_splits)

lemma cooldown_next_future:
  "isAuthBlockedForModel auth model now = (b, BlockReasonCooldown, next) \<Longrightarrow> b \<and> now < next"
  by (auto simp: isAuthBlockedForModel_def model_state_blocks_def Let_def
      split: option.splits if_splits)

lemma cooldown_next_nonzero:
  "isAuthBlockedForModel auth model now = (b, BlockReasonCooldown, next) \<Longrightarrow> next \<noteq> 0"
  by (auto simp: isAuthBlockedForModel_def model_state_blocks_def Let_def
      split: option.splits if_splits)

text \<open>A fresh active credential, for examples.\<close>

definition plain_auth :: "string \<Rightarrow> auth" where
  "plain_auth ID = \<lparr>au_ID = ID, au_Index = [], au_Provider = ''codex'', au_Prefix = [],
     au_FileName = [], au_Status = StatusActive, au_StatusMessage = [], au_Disabled = False,
     au_Unavailable = False, au_Attributes = [], au_Metadata = [], au_RuntimeDisableCooling = None,
     au_RuntimeRefreshBlocked = False, au_Quota = no_quota, au_LastError = None,
     au_LastRefreshError = None, au_UpdatedAt = 0, au_LastRefreshedAt = 0, au_NextRefreshAfter = 0,
     au_NextRetryAfter = 0, au_ModelStates = [], au_StateVersion = 0, au_Success = 0,
     au_Failed = 0, au_recentRequests = empty_ring\<rparr>"

end
