(* ===== verification/Dispatch_Options.thy ===== *)
theory Dispatch_Options
  imports Auth_Model
begin

section \<open>Request options and dispatch filters\<close>

text \<open>
  \<^verbatim>\<open>options.go\<close>, \<^verbatim>\<open>dispatch_filter.go\<close>, \<^verbatim>\<open>credential_policy.go\<close> and the model key of
  \<^verbatim>\<open>internal/concurrency\<close>: the allow and exclusion lists a request carries in its metadata, the retry
  round, and the predicates that apply them to a credential.  A Go set is a list without duplicates,
  a nil set is \<open>None\<close>.
\<close>

record options =
  opt_Headers :: "(string, string list) gomap"
  opt_OriginalRequest :: string
  opt_Metadata :: "(string, goval) gomap"
  opt_SessionAffinity :: bool \<comment> \<open>a selection slot was supplied\<close>

definition no_options :: options where
  "no_options = \<lparr>opt_Headers = [], opt_OriginalRequest = [], opt_Metadata = [], opt_SessionAffinity = False\<rparr>"

definition metadata_at :: "options \<Rightarrow> string \<Rightarrow> goval option" where
  "metadata_at opts key = map_of (opt_Metadata opts) key"

definition RequestedModelMetadataKey :: string where
  "RequestedModelMetadataKey = ''requested_model''"

definition AllowedAuthIDsMetadataKey :: string where
  "AllowedAuthIDsMetadataKey = ''allowed_auth_ids''"

definition AllowedModelIDsMetadataKey :: string where
  "AllowedModelIDsMetadataKey = ''allowed_model_ids''"

definition ExcludedAuthIDsMetadataKey :: string where
  "ExcludedAuthIDsMetadataKey = ''excluded_auth_ids''"

definition RequestRetryRoundMetadataKey :: string where
  "RequestRetryRoundMetadataKey = ''request_retry_round''"

definition requestRetryDefaultMetadataKey :: string where
  "requestRetryDefaultMetadataKey = ''request_retry_default''"

definition ExcludedConcurrencyCandidatesMetadataKey :: string where
  "ExcludedConcurrencyCandidatesMetadataKey = ''excluded_concurrency_candidates''"

definition CredentialPolicyMetadataKey :: string where
  "CredentialPolicyMetadataKey = ''credential_policy''"

lemmas metadata_keys = RequestedModelMetadataKey_def AllowedAuthIDsMetadataKey_def
  AllowedModelIDsMetadataKey_def ExcludedAuthIDsMetadataKey_def RequestRetryRoundMetadataKey_def
  requestRetryDefaultMetadataKey_def ExcludedConcurrencyCandidatesMetadataKey_def
  CredentialPolicyMetadataKey_def

subsection \<open>String sets in the metadata\<close>

fun toString :: "goval \<Rightarrow> string" where
  "toString (VString s) = s"
| "toString _ = []"

text \<open>The strings a set-like metadata value lists, before normalization.\<close>

fun listed_strings :: "goval \<Rightarrow> string list" where
  "listed_strings (VStrings values) = values"
| "listed_strings (VList values) = map toString values"
| "listed_strings (VSet values) = values"
| "listed_strings (VBoolMap values) = map fst (filter snd values)"
| "listed_strings _ = []"

definition nonempty_set :: "(string \<Rightarrow> string) \<Rightarrow> string list \<Rightarrow> string list" where
  "nonempty_set normf values = remdups (filter (\<lambda>s. s \<noteq> []) (map normf values))"

definition normalizedAllowedModelID :: "string \<Rightarrow> string" where
  "normalizedAllowedModelID modelID0 =
     (let modelID = canonicalModelKey modelID0
      in if modelID = [] then [] else to_lower modelID)"

definition allowedAuthIDsFromOptions :: "options \<Rightarrow> string list option" where
  "allowedAuthIDsFromOptions opts =
     (case metadata_at opts AllowedAuthIDsMetadataKey of
        None \<Rightarrow> None
      | Some raw \<Rightarrow> Some (nonempty_set trim_space (listed_strings raw)))"

definition allowedModelIDsFromOptions :: "options \<Rightarrow> string list option" where
  "allowedModelIDsFromOptions opts =
     (case metadata_at opts AllowedModelIDsMetadataKey of
        None \<Rightarrow> None
      | Some raw \<Rightarrow> Some (nonempty_set normalizedAllowedModelID (listed_strings raw)))"

definition excludedAuthIDsFromOptions :: "options \<Rightarrow> string list option" where
  "excludedAuthIDsFromOptions opts =
     (case metadata_at opts ExcludedAuthIDsMetadataKey of
        None \<Rightarrow> None
      | Some raw \<Rightarrow>
          let excluded = nonempty_set trim_space (listed_strings raw)
          in if excluded = [] then None else Some excluded)"

definition authAllowedByID :: "string \<Rightarrow> string list option \<Rightarrow> bool" where
  "authAllowedByID authID0 allowed =
     (case allowed of
        None \<Rightarrow> True
      | Some ids \<Rightarrow>
          let authID = trim_space authID0 in authID \<noteq> [] \<and> List.member ids authID)"

definition modelAllowedByID :: "string \<Rightarrow> string list option \<Rightarrow> bool" where
  "modelAllowedByID modelID0 allowed =
     (case allowed of
        None \<Rightarrow> True
      | Some ids \<Rightarrow>
          let modelID = normalizedAllowedModelID modelID0
          in modelID \<noteq> [] \<and> List.member ids modelID)"

subsection \<open>Concurrency model keys\<close>

definition ascii_whitespace :: "char \<Rightarrow> bool" where
  "ascii_whitespace c \<longleftrightarrow> List.member [32, 9, 13, 10, 11, 12] (of_char c :: nat)"

definition trim_ascii :: "string \<Rightarrow> string" where
  "trim_ascii s = rev (dropWhile ascii_whitespace (rev (dropWhile ascii_whitespace s)))"

definition MaxCanonicalModelKeyBytes :: nat where
  "MaxCanonicalModelKeyBytes = 256"

text \<open>The digits loop of \<^verbatim>\<open>recognizedConcurrencySuffix\<close>: at most a 31-bit number.\<close>

fun suffix_number :: "string \<Rightarrow> int \<Rightarrow> bool" where
  "suffix_number [] parsed = True"
| "suffix_number (c # value) parsed =
     (if \<not> is_digit c then False
      else let parsed' = parsed * 10 + (int (of_char c) - 48)
           in if parsed' > 2147483647 then False else suffix_number value parsed')"

definition recognizedConcurrencySuffix :: "string \<Rightarrow> bool" where
  "recognizedConcurrencySuffix value =
     (if value = ''-1'' then True
      else if List.member [''none'', ''auto'', ''minimal'', ''low'', ''medium'', ''high'', ''xhigh'',
                ''max''] (to_lower value) then True
      else if value = [] \<or> go_len value > 10 then False
      else suffix_number value 0)"

definition CanonicalConcurrencyModelKey :: "string \<Rightarrow> string" where
  "CanonicalConcurrencyModelKey model =
     (let trimmed = to_lower (trim_ascii model)
      in if \<not> has_suffix trimmed '')'' then trimmed
         else (case last_index (CHR ''('') trimmed of
             None \<Rightarrow> trimmed
           | Some open_at \<Rightarrow>
               let suffix = drop (Suc open_at) (butlast trimmed)
               in if \<not> recognizedConcurrencySuffix suffix then trimmed
                  else let base = trim_ascii (take open_at trimmed)
                       in if base = [] then trimmed else base))"

definition ValidCanonicalConcurrencyModelKey :: "string \<Rightarrow> string \<times> bool" where
  "ValidCanonicalConcurrencyModelKey model =
     (let key = CanonicalConcurrencyModelKey model
      in (key, key \<noteq> [] \<and> go_len key \<le> MaxCanonicalModelKeyBytes))"

subsection \<open>Concurrency exclusions\<close>

definition excludedConcurrencyCandidatesFromOptions :: "options \<Rightarrow> (string \<times> string) list" where
  "excludedConcurrencyCandidatesFromOptions opts =
     (case metadata_at opts ExcludedConcurrencyCandidatesMetadataKey of
        Some (VExcluded candidates) \<Rightarrow> candidates
      | _ \<Rightarrow> [])"

fun candidate_excludes :: "string \<Rightarrow> string \<Rightarrow> string \<times> string \<Rightarrow> bool" where
  "candidate_excludes credentialID model (candID, candModel) =
     (if trim_space candID \<noteq> credentialID then False
      else let rawModel = trim_space candModel
           in if rawModel = [] then True
              else let (excludedModel, valid) = ValidCanonicalConcurrencyModelKey rawModel
                   in valid \<and> excludedModel = model)"

definition concurrencyCandidateExcluded :: "options \<Rightarrow> string \<Rightarrow> string \<Rightarrow> bool" where
  "concurrencyCandidateExcluded opts credentialID0 model0 =
     (let credentialID = trim_space credentialID0;
          (model, validModel) = ValidCanonicalConcurrencyModelKey model0
      in if \<not> validModel then False
         else list_ex (candidate_excludes credentialID model)
           (excludedConcurrencyCandidatesFromOptions opts))"

definition filterConcurrencyExcludedAuths ::
    "auth option list \<Rightarrow> string \<Rightarrow> options \<Rightarrow> auth option list" where
  "filterConcurrencyExcludedAuths auths model opts =
     (if excludedConcurrencyCandidatesFromOptions opts = [] then auths
      else filter (\<lambda>auth. case auth of None \<Rightarrow> False
             | Some a \<Rightarrow> \<not> concurrencyCandidateExcluded opts (au_ID a) model) auths)"

lemma concurrency_excluded_none [simp]:
  "excludedConcurrencyCandidatesFromOptions opts = [] \<Longrightarrow>
   \<not> concurrencyCandidateExcluded opts ID model"
  by (auto simp: concurrencyCandidateExcluded_def split: prod.splits)

lemma filterConcurrencyExcludedAuths_iff:
  "Some a \<in> set (filterConcurrencyExcludedAuths auths model opts) \<longleftrightarrow>
   Some a \<in> set auths \<and> \<not> concurrencyCandidateExcluded opts (au_ID a) model"
  by (auto simp: filterConcurrencyExcludedAuths_def)

subsection \<open>Request retry rounds and overrides\<close>

text \<open>
  \<^verbatim>\<open>float64(int(v))\<close> is \<open>v\<close> exactly for integral \<open>v\<close> in the 64-bit range; outside it the conversion is
  left open by the language, and no such retry count reaches this code.
\<close>

definition positive_int_value :: "goval option \<Rightarrow> int" where
  "positive_int_value v =
     (case v of
        Some (VInt KInt n) \<Rightarrow> if n > 0 then n else 0
      | Some (VInt KInt64 n) \<Rightarrow> if n > 0 then n else 0
      | Some (VFloat64 (FFin r)) \<Rightarrow> if r > 0 \<and> of_int (floor r) = r then floor r else 0
      | _ \<Rightarrow> 0)"

definition requestRetryRoundFromOptions :: "options \<Rightarrow> int" where
  "requestRetryRoundFromOptions opts =
     positive_int_value (metadata_at opts RequestRetryRoundMetadataKey)"

definition requestRetryDefaultFromOptions :: "options \<Rightarrow> int" where
  "requestRetryDefaultFromOptions opts =
     positive_int_value (metadata_at opts requestRetryDefaultMetadataKey)"

text \<open>\<^verbatim>\<open>int(x)\<close> of a float truncates towards zero; of a NaN or an infinity it is left open, \<open>conv\<close>.\<close>

definition trunc_rat :: "rat \<Rightarrow> int" where
  "trunc_rat r = (if r < 0 then - floor (- r) else floor r)"

fun parseIntAny :: "(gofloat \<Rightarrow> int) \<Rightarrow> goval \<Rightarrow> int option" where
  "parseIntAny conv (VInt KInt n) = Some n"
| "parseIntAny conv (VInt KInt32 n) = Some n"
| "parseIntAny conv (VInt KInt64 n) = Some n"
| "parseIntAny conv (VFloat64 (FFin r)) =
     (if is_i64 (trunc_rat r) then Some (trunc_rat r) else Some (conv (FFin r)))"
| "parseIntAny conv (VFloat64 f) = Some (conv f)"
| "parseIntAny conv (VNumber s) = parse_int64 s"
| "parseIntAny conv (VString s) =
     (let trimmed = trim_space s in if trimmed = [] then None else parse_int64 trimmed)"
| "parseIntAny conv _ = None"

fun parseBoolAny :: "goval \<Rightarrow> bool option" where
  "parseBoolAny (VBool b) = Some b"
| "parseBoolAny (VString s) =
     (let trimmed = trim_space s in if trimmed = [] then None else parse_bool trimmed)"
| "parseBoolAny (VFloat64 (FFin r)) = Some (r \<noteq> 0)"
| "parseBoolAny (VFloat64 f) = Some True"
| "parseBoolAny (VNumber s) =
     (case parse_int64 s of None \<Rightarrow> None | Some n \<Rightarrow> Some (n \<noteq> 0))"
| "parseBoolAny _ = None"

text \<open>The override: a parsed value under the first key that parses decides, a negative one is unset.\<close>

definition RequestRetryOverride :: "(gofloat \<Rightarrow> int) \<Rightarrow> auth \<Rightarrow> int option" where
  "RequestRetryOverride conv a =
     (case Option.bind (map_of (au_Metadata a) ''request_retry'') (parseIntAny conv) of
        Some parsed \<Rightarrow> if parsed < 0 then None else Some parsed
      | None \<Rightarrow>
          (case Option.bind (map_of (au_Metadata a) ''request-retry'') (parseIntAny conv) of
             Some parsed \<Rightarrow> if parsed < 0 then None else Some parsed
           | None \<Rightarrow> None))"

definition effectiveRequestRetry :: "(gofloat \<Rightarrow> int) \<Rightarrow> auth \<Rightarrow> int \<Rightarrow> int" where
  "effectiveRequestRetry conv a defaultRequestRetry0 =
     (let defaultRequestRetry = (if defaultRequestRetry0 < 0 then 0 else defaultRequestRetry0)
      in case RequestRetryOverride conv a of Some override \<Rightarrow> override | None \<Rightarrow> defaultRequestRetry)"

definition requestRetryRoundAllowed :: "(gofloat \<Rightarrow> int) \<Rightarrow> auth \<Rightarrow> int \<Rightarrow> int \<Rightarrow> bool" where
  "requestRetryRoundAllowed conv a retryRound defaultRequestRetry =
     (if retryRound \<le> 0 then True
      else effectiveRequestRetry conv a defaultRequestRetry \<ge> retryRound)"

definition DisableCoolingOverride :: "auth option \<Rightarrow> bool option" where
  "DisableCoolingOverride auth =
     (case auth of
        None \<Rightarrow> None
      | Some a \<Rightarrow>
          (case au_RuntimeDisableCooling a of
             Some b \<Rightarrow> Some b
           | None \<Rightarrow>
               (case Option.bind (map_of (au_Metadata a) ''disable_cooling'') parseBoolAny of
                  Some parsed \<Rightarrow> Some parsed
                | None \<Rightarrow> Option.bind (map_of (au_Metadata a) ''disable-cooling'') parseBoolAny)))"

subsection \<open>Credential policies\<close>

definition CredentialPolicyCodexAlphaSearchV1 :: string where
  "CredentialPolicyCodexAlphaSearchV1 = ''codex_alpha_search_v1''"

definition NormalizeCredentialPolicy :: "string \<Rightarrow> string \<times> bool" where
  "NormalizeCredentialPolicy policy0 =
     (let policy = trim_space policy0
      in (policy, policy = [] \<or> policy = CredentialPolicyCodexAlphaSearchV1))"

definition authAttributeValue :: "auth \<Rightarrow> string \<Rightarrow> string" where
  "authAttributeValue a key = trim_space (gomap_get [] (au_Attributes a) key)"

definition authMetadataStringValue :: "auth \<Rightarrow> string \<Rightarrow> string" where
  "authMetadataStringValue a key =
     trim_space (case map_of (au_Metadata a) key of Some (VString s) \<Rightarrow> s | _ \<Rightarrow> [])"

definition normalizeCredentialAuthKind :: "string \<Rightarrow> string" where
  "normalizeCredentialAuthKind kind =
     (let k = to_lower (trim_space kind)
      in if List.member [''apikey'', ''api_key'', ''api-key''] k then ''apikey''
         else if List.member [''oauth'', ''oauth2''] k then ''oauth''
         else [])"

definition authHasOAuthMetadata :: "auth \<Rightarrow> bool" where
  "authHasOAuthMetadata a \<longleftrightarrow>
     list_ex (\<lambda>key. authMetadataStringValue a key \<noteq> [])
       [''access_token'', ''refresh_token'', ''id_token'', ''email'', ''token_type'', ''expires_at'',
        ''expired'']
     \<or> (case map_of (au_Metadata a) ''token'' of Some (VMap token) \<Rightarrow> token \<noteq> [] | _ \<Rightarrow> False)"

definition AuthKind :: "auth \<Rightarrow> string" where
  "AuthKind a =
     (let k1 = normalizeCredentialAuthKind (authAttributeValue a ''auth_kind'');
          k2 = normalizeCredentialAuthKind (authMetadataStringValue a ''auth_kind'')
      in if k1 \<noteq> [] then k1
         else if k2 \<noteq> [] then k2
         else if authAttributeValue a ''api_key'' \<noteq> [] then ''apikey''
         else if authHasOAuthMetadata a then ''oauth''
         else [])"

definition credentialPolicyFromOptions :: "options \<Rightarrow> string" where
  "credentialPolicyFromOptions opts =
     trim_space (case metadata_at opts CredentialPolicyMetadataKey of Some (VString s) \<Rightarrow> s | _ \<Rightarrow> [])"

definition credentialPolicyAllows :: "string \<Rightarrow> auth option \<Rightarrow> bool" where
  "credentialPolicyAllows policy auth =
     (if policy = [] then True
      else case auth of
        None \<Rightarrow> False
      | Some a \<Rightarrow>
          if policy \<noteq> CredentialPolicyCodexAlphaSearchV1
             \<or> \<not> equal_fold (trim_space (au_Provider a)) ''codex'' then False
          else if AuthKind a = ''oauth'' then True
          else if AuthKind a = ''apikey''
          then equal_fold (authAttributeValue a ''codex_alpha_search'') ''true''
          else False)"

end
