(* ===== verification/Session_IDs.thy ===== *)
theory Session_IDs
  imports Dispatch_Options "HOL-Library.Word" "HOL-Library.Multiset"
begin

section \<open>Session identifiers\<close>

text \<open>
  The part of \<^verbatim>\<open>selector.go\<close> that derives the session of a request from its headers and its payload:
  \<open>NormalizeExplicitID\<close>, \<open>formatSessionID\<close>, \<open>sessionHeaderValue\<close>, \<open>extractSessionIDs\<close> and the hash of
  the first messages.  The JSON library \<^verbatim>\<open>gjson\<close> is a parameter: a record of the lookups the code
  makes.  Runes are turned into the bytes of their UTF-8 encoding where the code slices or hashes.
\<close>

subsection \<open>Explicit identifiers\<close>

definition is_control :: "char \<Rightarrow> bool" where
  "is_control c \<longleftrightarrow> (of_char c :: nat) < 32 \<or> (127 \<le> (of_char c :: nat) \<and> (of_char c :: nat) < 160)"

definition NormalizeExplicitID :: "string \<Rightarrow> string" where
  "NormalizeExplicitID raw0 =
     (let raw = trim_space raw0
      in if raw = [] \<or> go_len raw > 256 then []
         else if list_ex is_control raw then []
         else raw)"

definition knownSessionPrefixes :: "string list" where
  "knownSessionPrefixes =
     [''claude:'', ''codex:'', ''header:'', ''slot:'', ''affinity:'', ''agy:'', ''thread:'', ''conv:'',
      ''user:'', ''clientreq:'', ''ctx:'', ''geminicache:'', ''session:'', ''lcp:'']"

definition hasKnownSessionPrefix :: "string \<Rightarrow> bool" where
  "hasKnownSessionPrefix ID = list_ex (has_prefix ID) knownSessionPrefixes"

definition formatSessionID :: "string \<Rightarrow> string \<Rightarrow> string" where
  "formatSessionID raw0 defaultPrefix =
     (let raw = NormalizeExplicitID raw0
      in if raw = [] then []
         else if hasKnownSessionPrefix raw then raw
         else defaultPrefix @ raw)"

subsection \<open>Headers\<close>

definition upper_ascii :: "char \<Rightarrow> char" where
  "upper_ascii c =
     (let n = (of_char c :: nat) in if 97 \<le> n \<and> n \<le> 122 then char_of (n - 32) else c)"

definition lower_ascii :: "char \<Rightarrow> char" where
  "lower_ascii c =
     (let n = (of_char c :: nat) in if 65 \<le> n \<and> n \<le> 90 then char_of (n + 32) else c)"

text \<open>The canonical form of a header name; the names asked for are all valid tokens.\<close>

fun canonical_header :: "bool \<Rightarrow> string \<Rightarrow> string" where
  "canonical_header up [] = []"
| "canonical_header up (c # s) =
     (if up then upper_ascii c else lower_ascii c) # canonical_header (c = CHR ''-'') s"

definition header_get :: "(string, string list) gomap \<Rightarrow> string \<Rightarrow> string" where
  "header_get headers name =
     (case gomap_get [] headers (canonical_header True name) of [] \<Rightarrow> [] | v # _ \<Rightarrow> v)"

text \<open>The first value that normalizes to something, over the values in order.\<close>

fun first_explicit :: "string list \<Rightarrow> string" where
  "first_explicit [] = []"
| "first_explicit (v # vs) =
     (let trimmed = NormalizeExplicitID v in if trimmed \<noteq> [] then trimmed else first_explicit vs)"

fun header_fold_loop :: "(string, string list) gomap \<Rightarrow> string \<Rightarrow> string" where
  "header_fold_loop [] name = []"
| "header_fold_loop ((key, values) # headers) name =
     (if equal_fold key name \<and> first_explicit values \<noteq> [] then first_explicit values
      else header_fold_loop headers name)"

fun sessionHeaderValue :: "(string, string list) gomap \<Rightarrow> string list \<Rightarrow> string" where
  "sessionHeaderValue headers [] = []"
| "sessionHeaderValue headers (name # names) =
     (let val = NormalizeExplicitID (header_get headers name)
      in if val \<noteq> [] then val
         else let folded = header_fold_loop headers name
              in if folded \<noteq> [] then folded else sessionHeaderValue headers names)"

subsection \<open>The payload\<close>

text \<open>
  \<^verbatim>\<open>gjson\<close>: \<open>gj_Get r path\<close> is \<^verbatim>\<open>r.Get(path)\<close>, \<open>gj_Each r\<close> lists the values \<^verbatim>\<open>ForEach\<close> visits.
\<close>

record 'j gjson =
  gj_Parse :: "string \<Rightarrow> 'j"
  gj_Get :: "'j \<Rightarrow> string \<Rightarrow> 'j"
  gj_String :: "'j \<Rightarrow> string"
  gj_Exists :: "'j \<Rightarrow> bool"
  gj_IsArray :: "'j \<Rightarrow> bool"
  gj_IsString :: "'j \<Rightarrow> bool"
  gj_Each :: "'j \<Rightarrow> 'j list"
  gj_GetBytes :: "string \<Rightarrow> string \<Rightarrow> 'j"

definition text_at :: "'j gjson \<Rightarrow> 'j \<Rightarrow> string \<Rightarrow> string" where
  "text_at J r path = gj_String J (gj_Get J r path)"

text \<open>A payload as \<open>extractSessionIDs\<close> sees it: empty, or its root with the nested request, if any.\<close>

datatype 'j payload_view = NoPayload | Payload 'j "'j option"

definition payload_view :: "'j gjson \<Rightarrow> string \<Rightarrow> 'j payload_view" where
  "payload_view J payload =
     (if payload = [] then NoPayload
      else let doc = gj_Parse J payload;
               req = gj_Get J doc ''request''
           in Payload doc
                (if gj_Exists J req \<and> \<not> gj_Exists J (gj_Get J doc ''contents'') then Some req
                 else None))"

text \<open>The text at a path that \<open>f\<close> accepts, in the root or else in the nested request.\<close>

definition in_payload :: "'j gjson \<Rightarrow> (string \<Rightarrow> string) \<Rightarrow> 'j payload_view \<Rightarrow> string \<Rightarrow> string" where
  "in_payload J f view path =
     (case view of
        NoPayload \<Rightarrow> []
      | Payload doc req \<Rightarrow>
          let v = f (text_at J doc path)
          in if v \<noteq> [] then v
             else (case req of None \<Rightarrow> [] | Some r \<Rightarrow> f (text_at J r path)))"

fun first_path :: "(string \<Rightarrow> string) \<Rightarrow> string list \<Rightarrow> string" where
  "first_path look [] = []"
| "first_path look (path # paths) =
     (let v = look path in if v \<noteq> [] then v else first_path look paths)"

definition parent_paths :: "string list" where
  "parent_paths =
     [''parent_session_id'', ''parentSessionId'', ''parent_thread_id'', ''parentThreadId'',
      ''forked_from_thread_id'', ''forked_from_id'', ''parent_conversation_id'',
      ''parentConversationId'', ''metadata.parent_session_id'', ''metadata.parent_thread_id'',
      ''extra_body.parent_session_id'', ''extra_body.parent_thread_id'']"

definition parentCandidate :: "'j gjson \<Rightarrow> 'j payload_view \<Rightarrow> string" where
  "parentCandidate J view = first_path (in_payload J NormalizeExplicitID view) parent_paths"

text \<open>\<^verbatim>\<open>_session_([a-f0-9-]+)$\<close>: the leftmost match.\<close>

definition session_char :: "char \<Rightarrow> bool" where
  "session_char c \<longleftrightarrow> List.member ''abcdef0123456789-'' c"

fun session_match :: "string \<Rightarrow> string option" where
  "session_match [] = None"
| "session_match (c # s) =
     (let rest = drop 9 (c # s)
      in if has_prefix (c # s) ''_session_'' \<and> rest \<noteq> [] \<and> list_all session_char rest
         then Some rest else session_match s)"

subsection \<open>Extraction\<close>

text \<open>The primary ID and, where the parent differs from the session, the parent's ID.\<close>

definition with_parent :: "string \<Rightarrow> string \<Rightarrow> string \<Rightarrow> string \<times> string" where
  "with_parent prefix sid parent =
     (formatSessionID sid prefix,
      if parent \<noteq> [] \<and> parent \<noteq> sid then formatSessionID parent prefix else [])"

definition or_else :: "string \<Rightarrow> string \<Rightarrow> string" where
  "or_else s t = (if s = [] then t else s)"

definition claude_headers :: "(string, string list) gomap \<Rightarrow> string \<Rightarrow> (string \<times> string) option" where
  "claude_headers headers parent =
     (let sid = sessionHeaderValue headers [''X-Claude-Code-Session-Id'']
      in if sid = [] then None
         else
           let agentID = sessionHeaderValue headers [''X-Claude-Code-Agent-Id''];
               parentAgentID = sessionHeaderValue headers [''X-Claude-Code-Parent-Agent-Id'']
           in if agentID \<noteq> [] \<and> agentID \<noteq> ''main''
              then Some (formatSessionID (sid @ '':agent:'' @ agentID) ''claude:'',
                if parentAgentID \<noteq> [] \<and> parentAgentID \<noteq> ''main'' \<and> parentAgentID \<noteq> agentID
                then formatSessionID (sid @ '':agent:'' @ parentAgentID) ''claude:''
                else if parent \<noteq> [] \<and> parent \<noteq> sid then formatSessionID parent ''claude:''
                else formatSessionID sid ''claude:'')
              else Some (with_parent ''claude:'' sid parent))"

definition claude_user_object :: "'j gjson \<Rightarrow> string \<Rightarrow> string \<Rightarrow> (string \<times> string) option" where
  "claude_user_object J userID parent =
     (if hd userID \<noteq> CHR ''{'' then None
      else
        let parsed = gj_Parse J userID;
            sid = NormalizeExplicitID (text_at J parsed ''session_id'')
        in if sid = [] then None
           else
             let agentID = NormalizeExplicitID (text_at J parsed ''agent_id'');
                 parentSID = or_else (NormalizeExplicitID (text_at J parsed ''parent_session_id'')) parent
             in if agentID \<noteq> [] \<and> agentID \<noteq> ''main''
                then Some (formatSessionID (sid @ '':agent:'' @ agentID) ''claude:'',
                  if parentSID \<noteq> [] \<and> parentSID \<noteq> sid then formatSessionID parentSID ''claude:''
                  else formatSessionID sid ''claude:'')
                else Some (with_parent ''claude:'' sid parentSID))"

definition claude_user :: "'j gjson \<Rightarrow> 'j payload_view \<Rightarrow> string \<Rightarrow> (string \<times> string) option" where
  "claude_user J view parent =
     (let userID = in_payload J trim_space view ''metadata.user_id''
      in if userID = [] then None
         else (case claude_user_object J userID parent of
             Some ids \<Rightarrow> Some ids
           | None \<Rightarrow>
               (case session_match userID of
                  None \<Rightarrow> None
                | Some match \<Rightarrow>
                    let sid = NormalizeExplicitID match
                    in if sid = [] then None else Some (with_parent ''claude:'' sid parent))))"

text \<open>One header rule: the header names, the names of the parent's headers, and the prefix.\<close>

definition parent_headers :: "string list" where
  "parent_headers = [''X-Parent-Session-ID'', ''X-Parent-Session-Id'']"

definition header_rules :: "(string list \<times> string list \<times> string) list" where
  "header_rules =
     [([''Session-Id'', ''Session_id''],
       [''x-codex-parent-thread-id'', ''X-Codex-Parent-Thread-Id''] @ parent_headers, ''codex:''),
      ([''X-Http-Session-Id''], parent_headers, ''agy:''),
      ([''X-Session-ID''], parent_headers, ''header:''),
      ([''X-Session-Affinity''], ''X-Parent-Session-Affinity'' # parent_headers, ''affinity:''),
      ([''X-Slot-Session-Id''], parent_headers, ''slot:''),
      ([''X-Conversation-Id'', ''X-Conversation-ID''], parent_headers, ''conv:''),
      ([''X-Thread-Id'', ''X-Thread-ID'', ''Thread-Id''], parent_headers, ''thread:'')]"

fun apply_header_rules :: "(string list \<times> string list \<times> string) list \<Rightarrow> (string, string list) gomap
    \<Rightarrow> string \<Rightarrow> (string \<times> string) option" where
  "apply_header_rules [] headers parent = None"
| "apply_header_rules ((names, parents, prefix) # rules) headers parent =
     (let sid = sessionHeaderValue headers names
      in if sid \<noteq> []
         then Some (with_parent prefix sid (or_else (sessionHeaderValue headers parents) parent))
         else apply_header_rules rules headers parent)"

definition payload_ids :: "'j gjson \<Rightarrow> 'j payload_view \<Rightarrow> string \<Rightarrow> (string \<times> string) option" where
  "payload_ids J view parent =
     (let look = in_payload J NormalizeExplicitID view;
          sid = first_path look [''session_id'', ''sessionId''];
          rawUserID = look ''metadata.user_id'';
          convID = look ''conversation_id''
      in if sid \<noteq> [] then Some (with_parent ''header:'' sid parent)
         else if rawUserID \<noteq> [] then Some (formatSessionID rawUserID ''user:'', [])
         else if convID \<noteq> [] then Some (with_parent ''conv:'' convID parent)
         else None)"

subsection \<open>The hash of the first messages\<close>

definition utf8 :: "string \<Rightarrow> 8 word list" where
  "utf8 s = concat (map (\<lambda>c. let n = (of_char c :: nat)
     in if n < 128 then [of_nat n] else [of_nat (192 + n div 64), of_nat (128 + n mod 64)]) s)"

definition truncate_text :: "string \<Rightarrow> 8 word list" where
  "truncate_text s = take 100 (utf8 s)"

text \<open>The three texts: system prompt, first user message, first assistant message.\<close>

record first_texts =
  ft_system :: "8 word list"
  ft_user :: "8 word list"
  ft_assistant :: "8 word list"

definition no_texts :: first_texts where
  "no_texts = \<lparr>ft_system = [], ft_user = [], ft_assistant = []\<rparr>"

definition note_system :: "string \<Rightarrow> first_texts \<Rightarrow> first_texts" where
  "note_system t f = (if ft_system f = [] then f\<lparr>ft_system := truncate_text t\<rparr> else f)"

definition note_user :: "string \<Rightarrow> first_texts \<Rightarrow> first_texts" where
  "note_user t f = (if ft_user f = [] then f\<lparr>ft_user := truncate_text t\<rparr> else f)"

definition note_assistant :: "string \<Rightarrow> first_texts \<Rightarrow> first_texts" where
  "note_assistant t f = (if ft_assistant f = [] then f\<lparr>ft_assistant := truncate_text t\<rparr> else f)"

fun join_space :: "string list \<Rightarrow> string" where
  "join_space [] = []"
| "join_space [t] = t"
| "join_space (t # ts) = t @ '' '' @ join_space ts"

definition texts_of_type :: "'j gjson \<Rightarrow> string list \<Rightarrow> 'j \<Rightarrow> string" where
  "texts_of_type J types content =
     join_space (filter (\<lambda>t. t \<noteq> []) (map (\<lambda>part. text_at J part ''text'')
       (filter (\<lambda>part. List.member types (text_at J part ''type'')) (gj_Each J content))))"

definition extractMessageContent :: "'j gjson \<Rightarrow> 'j \<Rightarrow> string" where
  "extractMessageContent J content =
     (if gj_IsString J content then gj_String J content
      else if gj_IsArray J content then texts_of_type J [''text''] content
      else [])"

definition extractResponsesAPIContent :: "'j gjson \<Rightarrow> 'j \<Rightarrow> string" where
  "extractResponsesAPIContent J content =
     (if \<not> gj_IsArray J content then []
      else texts_of_type J [''input_text'', ''output_text'', ''text''] content)"

fun messages_loop :: "'j gjson \<Rightarrow> 'j list \<Rightarrow> first_texts \<Rightarrow> first_texts" where
  "messages_loop J [] f = f"
| "messages_loop J (msg # msgs) f =
     (let role = text_at J msg ''role'';
          content = extractMessageContent J (gj_Get J msg ''content'')
      in if content = [] then messages_loop J msgs f
         else let f' = (if role = ''system'' then note_system content f
                        else if role = ''user'' then note_user content f
                        else if role = ''assistant'' then note_assistant content f else f)
              in if ft_system f' \<noteq> [] \<and> ft_user f' \<noteq> [] \<and> ft_assistant f' \<noteq> [] then f'
                 else messages_loop J msgs f')"

text \<open>The first part with a text becomes the system prompt; called while there is none.\<close>

fun system_parts :: "'j gjson \<Rightarrow> 'j list \<Rightarrow> first_texts \<Rightarrow> first_texts" where
  "system_parts J [] f = f"
| "system_parts J (part # parts) f =
     (let text = text_at J part ''text''
      in if text \<noteq> [] \<and> ft_system f = [] then note_system text f else system_parts J parts f)"

definition top_system :: "'j gjson \<Rightarrow> string \<Rightarrow> first_texts \<Rightarrow> first_texts" where
  "top_system J payload f =
     (if ft_system f \<noteq> [] then f
      else let sys = gj_GetBytes J payload ''system''
           in if \<not> gj_Exists J sys then f
              else if gj_IsArray J sys then system_parts J (gj_Each J sys) f
              else if gj_IsString J sys then f\<lparr>ft_system := truncate_text (gj_String J sys)\<rparr>
              else f)"

fun gemini_parts :: "'j gjson \<Rightarrow> string \<Rightarrow> 'j list \<Rightarrow> first_texts \<Rightarrow> first_texts" where
  "gemini_parts J role [] f = f"
| "gemini_parts J role (part # parts) f =
     (let text = text_at J part ''text''
      in if text = [] then gemini_parts J role parts f
         else if role = ''user'' then note_user text f
         else if role = ''model'' then note_assistant text f else f)"

fun gemini_contents :: "'j gjson \<Rightarrow> 'j list \<Rightarrow> first_texts \<Rightarrow> first_texts" where
  "gemini_contents J [] f = f"
| "gemini_contents J (msg # msgs) f =
     (let f' = gemini_parts J (text_at J msg ''role'') (gj_Each J (gj_Get J msg ''parts'')) f
      in if ft_user f' \<noteq> [] \<and> ft_assistant f' \<noteq> [] then f' else gemini_contents J msgs f')"

definition gemini_texts :: "'j gjson \<Rightarrow> string \<Rightarrow> first_texts \<Rightarrow> first_texts" where
  "gemini_texts J payload f =
     (if ft_system f \<noteq> [] \<or> ft_user f \<noteq> [] then f
      else let sys = gj_GetBytes J payload ''systemInstruction.parts'';
               f' = (if gj_Exists J sys \<and> gj_IsArray J sys then system_parts J (gj_Each J sys) f
                     else f);
               contents = gj_GetBytes J payload ''contents''
           in if gj_Exists J contents \<and> gj_IsArray J contents
              then gemini_contents J (gj_Each J contents) f' else f')"

fun responses_items :: "'j gjson \<Rightarrow> 'j list \<Rightarrow> first_texts \<Rightarrow> first_texts" where
  "responses_items J [] f = f"
| "responses_items J (item # items) f =
     (let itemType = text_at J item ''type'';
          role = text_at J item ''role'';
          content = gj_Get J item ''content'';
          text = (if gj_IsString J content then gj_String J content
                  else extractResponsesAPIContent J content)
      in if itemType = ''reasoning'' then responses_items J items f
         else if itemType \<noteq> [] \<and> itemType \<noteq> ''message'' then responses_items J items f
         else if itemType = [] \<and> role = [] then responses_items J items f
         else if text = [] then responses_items J items f
         else let f' = (if role = ''developer'' \<or> role = ''system'' then note_system text f
                        else if role = ''user'' then note_user text f
                        else if role = ''assistant'' then note_assistant text f else f)
              in if ft_user f' \<noteq> [] \<and> ft_assistant f' \<noteq> [] then f'
                 else responses_items J items f')"

definition responses_texts :: "'j gjson \<Rightarrow> string \<Rightarrow> first_texts \<Rightarrow> first_texts" where
  "responses_texts J payload f =
     (if ft_system f \<noteq> [] \<or> ft_user f \<noteq> [] then f
      else let instr = gj_String J (gj_GetBytes J payload ''instructions'');
               f' = (if instr \<noteq> [] then f\<lparr>ft_system := truncate_text instr\<rparr> else f);
               input = gj_GetBytes J payload ''input''
           in if gj_Exists J input \<and> gj_IsArray J input
              then responses_items J (gj_Each J input) f' else f')"

definition message_texts :: "'j gjson \<Rightarrow> string \<Rightarrow> first_texts" where
  "message_texts J payload =
     (let messages = gj_GetBytes J payload ''messages'';
          f = (if gj_Exists J messages \<and> gj_IsArray J messages
               then messages_loop J (gj_Each J messages) no_texts else no_texts)
      in responses_texts J payload (gemini_texts J payload (top_system J payload f)))"

text \<open>\<^verbatim>\<open>hash/fnv\<close>, 64-bit FNV-1a: exclusive or with the byte, then multiplication by the prime.\<close>

definition fnv_step :: "64 word \<Rightarrow> 8 word \<Rightarrow> 64 word" where
  "fnv_step h b = (xor h (ucast b)) * 1099511628211"

definition fnv1a :: "8 word list \<Rightarrow> 64 word" where
  "fnv1a bytes = foldl fnv_step 14695981039346656037 bytes"

definition hex_digit :: "nat \<Rightarrow> char" where
  "hex_digit d = ''0123456789abcdef'' ! d"

definition hex16 :: "64 word \<Rightarrow> string" where
  "hex16 h = map (\<lambda>i. hex_digit ((unat h div 16 ^ (15 - i)) mod 16)) [0..<16]"

definition computeSessionHash :: "8 word list \<Rightarrow> 8 word list \<Rightarrow> 8 word list \<Rightarrow> string" where
  "computeSessionHash systemPrompt userMsg assistantMsg =
     (let part = (\<lambda>label text. if text \<noteq> [] then utf8 label @ text @ [10] else [])
      in ''msg:'' @ hex16 (fnv1a (part ''sys:'' systemPrompt @ part ''usr:'' userMsg
           @ part ''ast:'' assistantMsg)))"

definition extractMessageHashIDs :: "'j gjson \<Rightarrow> string \<Rightarrow> string \<times> string" where
  "extractMessageHashIDs J payload =
     (let f = message_texts J payload
      in if ft_system f = [] \<and> ft_user f = [] then ([], [])
         else let shortHash = computeSessionHash (ft_system f) (ft_user f) []
              in if ft_assistant f = [] then (shortHash, [])
                 else (computeSessionHash (ft_system f) (ft_user f) (ft_assistant f), shortHash))"

definition extractSessionIDs ::
    "'j gjson \<Rightarrow> (string, string list) gomap \<Rightarrow> string \<Rightarrow> string \<times> string" where
  "extractSessionIDs J headers payload =
     (let view = payload_view J payload;
          parent = parentCandidate J view;
          rid = sessionHeaderValue headers [''X-Client-Request-Id'']
      in case claude_headers headers parent of
           Some ids \<Rightarrow> ids
         | None \<Rightarrow>
             (case claude_user J view parent of
                Some ids \<Rightarrow> ids
              | None \<Rightarrow>
                  (case apply_header_rules header_rules headers parent of
                     Some ids \<Rightarrow> ids
                   | None \<Rightarrow>
                       if rid \<noteq> [] then (formatSessionID rid ''clientreq:'', [])
                       else if payload = [] then ([], [])
                       else (case payload_ids J view parent of
                           Some ids \<Rightarrow> ids
                         | None \<Rightarrow> extractMessageHashIDs J payload))))"

subsection \<open>Header order does not matter\<close>

text \<open>Names that differ by more than their case: then no two headers compete for one value.\<close>

definition fold_distinct :: "(string, string list) gomap \<Rightarrow> bool" where
  "fold_distinct headers \<longleftrightarrow> distinct (map (\<lambda>h. to_lower (fst h)) headers)"

lemma fold_distinct_wf: "fold_distinct headers \<Longrightarrow> gomap_wf headers"
proof (induction headers)
  case (Cons h headers)
  then have "to_lower (fst h) \<notin> (\<lambda>h. to_lower (fst h)) ` set headers"
    by (simp add: fold_distinct_def)
  then have "\<forall>h'\<in>set headers. fst h' \<noteq> fst h"
    by (metis image_eqI)
  with Cons show ?case
    by (auto simp: fold_distinct_def)
qed simp

lemma fold_distinct_perm: "mset hs = mset hs' \<Longrightarrow> fold_distinct hs \<Longrightarrow> fold_distinct hs'"
  unfolding fold_distinct_def
  by (metis (no_types, lifting) mset_eq_imp_distinct_iff mset_map)

lemma header_fold_loop_Some:
  assumes "fold_distinct headers" "v \<noteq> []"
  shows "header_fold_loop headers name = v \<longleftrightarrow>
    (\<exists>h\<in>set headers. equal_fold (fst h) name \<and> first_explicit (snd h) = v)"
  using assms
proof (induction headers)
  case (Cons h headers)
  obtain key vs where h: "h = (key, vs)"
    by (cases h)
  from Cons.prems have tail: "fold_distinct headers"
    and "to_lower key \<notin> (\<lambda>h. to_lower (fst h)) ` set headers"
    by (simp_all add: fold_distinct_def h)
  then have other: "\<forall>h\<in>set headers. to_lower (fst h) \<noteq> to_lower key"
    by (metis image_eqI)
  show ?case
  proof (cases "equal_fold key name \<and> first_explicit vs \<noteq> []")
    case True
    with other have "\<forall>h\<in>set headers. \<not> equal_fold (fst h) name"
      by (simp add: equal_fold_def)
    with True show ?thesis
      by (auto simp: h)
  next
    case False
    with Cons.IH [OF tail Cons.prems(2)] Cons.prems(2) show ?thesis
      by (auto simp: h)
  qed
qed auto

lemma header_fold_loop_perm:
  assumes "mset hs = mset hs'" "fold_distinct hs"
  shows "header_fold_loop hs name = header_fold_loop hs' name"
proof -
  have set: "set hs = set hs'"
    using assms(1) by (rule mset_eq_setD)
  note d' = fold_distinct_perm [OF assms]
  have "header_fold_loop hs name = v \<longleftrightarrow> header_fold_loop hs' name = v" if "v \<noteq> []" for v
    using header_fold_loop_Some [OF assms(2) that, of name] header_fold_loop_Some [OF d' that, of name]
      set by simp
  then show ?thesis
    by metis
qed

lemma header_get_perm:
  assumes "mset hs = mset hs'" "fold_distinct hs"
  shows "header_get hs name = header_get hs' name"
proof -
  have "map_of hs = map_of hs'"
    using fold_distinct_wf [OF assms(2)] fold_distinct_wf [OF fold_distinct_perm [OF assms]]
      mset_eq_setD [OF assms(1)] map_of_inject_set by blast
  then show ?thesis
    by (simp add: header_get_def gomap_get_def)
qed

lemma sessionHeaderValue_perm:
  "mset hs = mset hs' \<Longrightarrow> fold_distinct hs \<Longrightarrow> sessionHeaderValue hs names = sessionHeaderValue hs' names"
  by (induction names)
    (simp_all add: header_get_perm [of hs hs'] header_fold_loop_perm [of hs hs'] Let_def)

lemma apply_header_rules_perm:
  assumes "mset hs = mset hs'" "fold_distinct hs"
  shows "apply_header_rules rules hs parent = apply_header_rules rules hs' parent"
proof (induction rules)
  case (Cons r rules)
  obtain names parents p where "r = (names, parents, p)"
    by (cases r)
  with Cons show ?case
    by (simp add: sessionHeaderValue_perm [OF assms] Let_def)
qed simp

subsection \<open>What an identifier looks like\<close>

definition session_id_ok :: "string \<Rightarrow> bool" where
  "session_id_ok ID \<longleftrightarrow> ID = []
     \<or> (hasKnownSessionPrefix ID \<and> \<not> list_ex is_control ID \<and> go_len ID \<le> 266)
     \<or> (has_prefix ID ''msg:'' \<and> length ID = 20 \<and> \<not> list_ex is_control ID)"

lemma session_id_ok_Nil [simp]: "session_id_ok []"
  by (simp add: session_id_ok_def)

lemma NormalizeExplicitID_ok:
  "NormalizeExplicitID raw = [] \<or>
   \<not> list_ex is_control (NormalizeExplicitID raw) \<and> go_len (NormalizeExplicitID raw) \<le> 256"
  by (auto simp: NormalizeExplicitID_def Let_def)

definition used_prefixes :: "string list" where
  "used_prefixes = [''claude:'', ''codex:'', ''agy:'', ''header:'', ''affinity:'', ''slot:'', ''conv:'',
     ''thread:'', ''clientreq:'', ''user:'']"

lemma used_prefix_ok:
  assumes "List.member used_prefixes p"
  shows "go_len p \<le> 10" "\<not> list_ex is_control p" "hasKnownSessionPrefix (p @ s)"
proof -
  have "list_all (\<lambda>p. go_len p \<le> 10 \<and> \<not> list_ex is_control p
      \<and> List.member knownSessionPrefixes p) used_prefixes"
    by code_simp
  with assms show "go_len p \<le> 10" "\<not> list_ex is_control p" "hasKnownSessionPrefix (p @ s)"
    by (auto simp: list_all_iff hasKnownSessionPrefix_def list_ex_iff has_prefix_def intro: bexI [of _ p])
qed

lemma formatSessionID_ok:
  assumes "List.member used_prefixes p"
  shows "session_id_ok (formatSessionID raw p)"
  using used_prefix_ok [OF assms] NormalizeExplicitID_ok [of raw]
  by (auto simp: formatSessionID_def session_id_ok_def Let_def)

lemma with_parent_ok:
  assumes "List.member used_prefixes p"
  shows "session_id_ok (fst (with_parent p sid parent))" "session_id_ok (snd (with_parent p sid parent))"
  using formatSessionID_ok [OF assms] by (simp_all add: with_parent_def)

lemma claude_prefix: "List.member used_prefixes ''claude:''"
  by code_simp

lemma claude_headers_ok:
  "claude_headers headers parent = Some ids \<Longrightarrow> session_id_ok (fst ids) \<and> session_id_ok (snd ids)"
  using formatSessionID_ok [OF claude_prefix] with_parent_ok [OF claude_prefix]
  by (auto simp: claude_headers_def Let_def split: if_splits)

lemma claude_user_object_ok:
  "claude_user_object J u parent = Some ids \<Longrightarrow> session_id_ok (fst ids) \<and> session_id_ok (snd ids)"
  using formatSessionID_ok [OF claude_prefix] with_parent_ok [OF claude_prefix]
  by (auto simp: claude_user_object_def Let_def split: if_splits)

lemma claude_user_ok:
  "claude_user J view parent = Some ids \<Longrightarrow> session_id_ok (fst ids) \<and> session_id_ok (snd ids)"
  using with_parent_ok [OF claude_prefix]
  by (auto simp: claude_user_def Let_def dest: claude_user_object_ok split: if_splits option.splits)

lemma apply_header_rules_ok:
  assumes "list_all (\<lambda>(_, _, p). List.member used_prefixes p) rules"
    "apply_header_rules rules headers parent = Some ids"
  shows "session_id_ok (fst ids) \<and> session_id_ok (snd ids)"
  using assms
proof (induction rules)
  case (Cons r rules)
  obtain names parents p where r: "r = (names, parents, p)"
    by (cases r)
  from Cons r with_parent_ok [of p] show ?case
    by (auto simp: Let_def split: if_splits)
qed simp

lemma header_rules_prefixes: "list_all (\<lambda>(_, _, p). List.member used_prefixes p) header_rules"
  by code_simp

lemma payload_ids_ok:
  "payload_ids J view parent = Some ids \<Longrightarrow> session_id_ok (fst ids) \<and> session_id_ok (snd ids)"
proof -
  have "List.member used_prefixes ''header:''" "List.member used_prefixes ''user:''"
    "List.member used_prefixes ''conv:''"
    by code_simp+
  then show "payload_ids J view parent = Some ids \<Longrightarrow> ?thesis"
    using with_parent_ok formatSessionID_ok by (auto simp: payload_ids_def Let_def split: if_splits)
qed

lemma hex_digit_plain: "d < 16 \<Longrightarrow> \<not> is_control (hex_digit d)"
proof -
  assume "d < 16"
  then have "hex_digit d \<in> set ''0123456789abcdef''"
    unfolding hex_digit_def by (intro nth_mem) simp
  moreover have "list_all (\<lambda>c. \<not> is_control c) ''0123456789abcdef''"
    by code_simp
  ultimately show ?thesis
    unfolding list_all_iff by blast
qed

lemma computeSessionHash_ok: "session_id_ok (computeSessionHash a b c)"
proof -
  have "list_all (\<lambda>c. \<not> is_control c) (hex16 h)" for h
    by (simp add: hex16_def list_all_iff hex_digit_plain)
  moreover have "\<not> list_ex is_control ''msg:''"
    by code_simp
  ultimately show ?thesis
    by (simp add: session_id_ok_def computeSessionHash_def Let_def has_prefix_def hex16_def
        list_all_iff list_ex_iff)
qed

lemma extractMessageHashIDs_ok:
  "session_id_ok (fst (extractMessageHashIDs J payload))"
  "session_id_ok (snd (extractMessageHashIDs J payload))"
  by (simp_all add: extractMessageHashIDs_def Let_def computeSessionHash_ok)

lemma extract_ok:
  "session_id_ok (fst (extractSessionIDs J headers payload)) \<and>
   session_id_ok (snd (extractSessionIDs J headers payload))"
proof -
  let ?view = "payload_view J payload"
  let ?parent = "parentCandidate J ?view"
  have "List.member used_prefixes ''clientreq:''"
    by code_simp
  note client = formatSessionID_ok [OF this]
  consider ids where "claude_headers headers ?parent = Some ids"
    | ids where "claude_headers headers ?parent = None" "claude_user J ?view ?parent = Some ids"
    | ids where "claude_headers headers ?parent = None" "claude_user J ?view ?parent = None"
        "apply_header_rules header_rules headers ?parent = Some ids"
    | "claude_headers headers ?parent = None" "claude_user J ?view ?parent = None"
        "apply_header_rules header_rules headers ?parent = None"
    by fastforce
  then show ?thesis
  proof cases
    case 1
    then show ?thesis
      by (simp add: extractSessionIDs_def Let_def claude_headers_ok)
  next
    case 2
    then show ?thesis
      by (simp add: extractSessionIDs_def Let_def claude_user_ok)
  next
    case 3
    then show ?thesis
      using apply_header_rules_ok [OF header_rules_prefixes]
      by (simp add: extractSessionIDs_def Let_def)
  next
    case 4
    then show ?thesis
      using client extractMessageHashIDs_ok [of J payload] payload_ids_ok [of J ?view ?parent]
      by (cases "payload_ids J ?view ?parent")
        (simp_all add: extractSessionIDs_def Let_def del: sessionHeaderValue.simps)
  qed
qed

subsection \<open>Properties\<close>

text \<open>
  Every session identifier derived from a request, primary or parent, is empty, or carries one of
  the known prefixes, has no control character and is at most 266 bytes long, or is a 16-digit message
  hash.
\<close>

theorem extractSessionIDs_wellformed:
  "session_id_ok (fst (extractSessionIDs J headers payload)) \<and>
   session_id_ok (snd (extractSessionIDs J headers payload))"
  by (rule extract_ok)

text \<open>
  The identifiers do not depend on the order in which the header map is visited, for headers whose
  names differ by more than their case.
\<close>

theorem extractSessionIDs_header_order:
  assumes "mset headers = mset headers'" "fold_distinct headers"
  shows "extractSessionIDs J headers payload = extractSessionIDs J headers' payload"
  unfolding extractSessionIDs_def claude_headers_def
  by (simp only: sessionHeaderValue_perm [OF assms] apply_header_rules_perm [OF assms])

definition no_json :: "unit gjson" where
  "no_json = \<lparr>gj_Parse = \<lambda>_. (), gj_Get = \<lambda>_ _. (), gj_String = \<lambda>_. [], gj_Exists = \<lambda>_. False,
     gj_IsArray = \<lambda>_. False, gj_IsString = \<lambda>_. False, gj_Each = \<lambda>_. [], gj_GetBytes = \<lambda>_ _. ()\<rparr>"

theorem extractSessionIDs_header_order_witness:
  "extractSessionIDs no_json [(''Session-Id'', [''s1'']), (''X-Thread-Id'', [''t''])] [] =
   extractSessionIDs no_json [(''X-Thread-Id'', [''t'']), (''Session-Id'', [''s1''])] []"
  by (rule extractSessionIDs_header_order) (simp, code_simp)

end
