(* ===== verification/Selectors.thy ===== *)
theory Selectors
  imports Dispatch_Options "HOL-Library.Multiset"
begin

section \<open>Credential selection\<close>

text \<open>
  \<^verbatim>\<open>selector.go\<close>: the pool of available credentials (\<open>collectAvailableByPriority\<close>,
  \<open>getAvailableAuths\<close>), the cooldown error, and the round-robin and fill-first selectors.  The
  locale \<open>dispatch_selector\<close> is the contract of the Go interface \<^verbatim>\<open>Selector\<close>: what a caller may rely
  on about a picked credential whichever selector picked it.  A \<open>Pick\<close> runs its stateful part under
  the selector's mutex, so one call is one step of the state.
\<close>

subsection \<open>Errors\<close>

record cooldown_error =
  ce_model :: string
  ce_resetIn :: duration
  ce_provider :: string
  ce_requestRetry :: int
  ce_hasRequestRetry :: bool

datatype dispatch_error = PlainError string string | ModelCooldown cooldown_error

definition newModelCooldownError :: "string \<Rightarrow> string \<Rightarrow> duration \<Rightarrow> cooldown_error" where
  "newModelCooldownError model provider resetIn0 =
     (let resetIn = (if resetIn0 < 0 then 0 else resetIn0)
      in \<lparr>ce_model = model, ce_resetIn = resetIn, ce_provider = provider, ce_requestRetry = 0,
          ce_hasRequestRetry = False\<rparr>)"

definition ErrorMessage :: "cooldown_error option \<Rightarrow> string" where
  "ErrorMessage err =
     (case err of
        None \<Rightarrow> ''all credentials are cooling down''
      | Some e \<Rightarrow>
          let modelName = (if ce_model e = [] then ''requested model'' else ce_model e);
              message = ''All credentials for model '' @ modelName @ '' are cooling down''
          in if ce_provider e \<noteq> [] then message @ '' via provider '' @ ce_provider e else message)"

definition RetryAfter :: "cooldown_error option \<Rightarrow> duration option" where
  "RetryAfter err =
     (case err of
        None \<Rightarrow> None
      | Some e \<Rightarrow> if ce_resetIn e \<le> 0 then None else Some (ce_resetIn e))"

definition RequestRetryLimit :: "cooldown_error option \<Rightarrow> int \<times> bool" where
  "RequestRetryLimit err =
     (case err of
        None \<Rightarrow> (0, False)
      | Some e \<Rightarrow> if \<not> ce_hasRequestRetry e then (0, False) else (ce_requestRetry e, True))"

subsection \<open>The pool of available credentials\<close>

fun collect_loop :: "auth option list \<Rightarrow> string \<Rightarrow> gotime \<Rightarrow> (int, auth list) gomap \<Rightarrow> int \<Rightarrow> gotime
    \<Rightarrow> (int, auth list) gomap \<times> int \<times> gotime" where
  "collect_loop [] model now available cooldownCount earliest =
     (available, cooldownCount, earliest)"
| "collect_loop (candidate # auths) model now available cooldownCount earliest =
     (let (blocked, reason, next) = isAuthBlockedForModel candidate model now
      in case (blocked, candidate) of
           (False, Some a) \<Rightarrow>
             let priority = authPriority candidate
             in collect_loop auths model now
                  (AList.update priority (gomap_get [] available priority @ [a]) available)
                  cooldownCount earliest
         | _ \<Rightarrow>
             if reason = BlockReasonCooldown
             then collect_loop auths model now available (cooldownCount + 1)
                    (if next \<noteq> 0 \<and> (earliest = 0 \<or> next < earliest) then next else earliest)
             else collect_loop auths model now available cooldownCount earliest)"

definition collectAvailableByPriority ::
    "auth option list \<Rightarrow> string \<Rightarrow> gotime \<Rightarrow> (int, auth list) gomap \<times> int \<times> gotime" where
  "collectAvailableByPriority auths model now = collect_loop auths model now [] 0 0"

fun best_priority :: "int list \<Rightarrow> bool \<Rightarrow> int \<Rightarrow> int" where
  "best_priority [] found bestPriority = bestPriority"
| "best_priority (priority # ps) found bestPriority =
     (if \<not> found \<or> priority > bestPriority then best_priority ps True priority
      else best_priority ps found bestPriority)"

text \<open>\<^verbatim>\<open>sort.Slice\<close> by ID: for distinct IDs the sorted order is unique.\<close>

definition getAvailableAuths ::
    "auth option list \<Rightarrow> string \<Rightarrow> string \<Rightarrow> gotime \<Rightarrow> dispatch_error + auth list" where
  "getAvailableAuths auths provider model now =
     (if auths = [] then Inl (PlainError ''auth_not_found'' ''no auth candidates'')
      else
        let (availableByPriority, cooldownCount, earliest) =
              collectAvailableByPriority auths model now
        in if availableByPriority = []
           then (if cooldownCount = int (length auths) \<and> earliest \<noteq> 0
                 then let providerForError = (if provider = ''mixed'' then [] else provider);
                          resetIn0 = time_sub earliest now;
                          resetIn = (if resetIn0 < 0 then 0 else resetIn0)
                      in Inl (ModelCooldown (newModelCooldownError model providerForError resetIn))
                 else Inl (PlainError ''auth_unavailable'' ''no auth available''))
           else let bestPriority = best_priority (map fst availableByPriority) False 0;
                    available = gomap_get [] availableByPriority bestPriority
                in Inr (if length available > 1 then sort_key au_ID available else available))"

subsection \<open>What the pool is\<close>

definition usable_auths :: "auth option list \<Rightarrow> string \<Rightarrow> gotime \<Rightarrow> auth list" where
  "usable_auths auths model now =
     filter (\<lambda>a. \<not> blocked_for a model now) (List.map_filter (\<lambda>x. x) auths)"

definition in_cooldown :: "auth option \<Rightarrow> string \<Rightarrow> gotime \<Rightarrow> bool" where
  "in_cooldown auth model now \<longleftrightarrow>
     fst (snd (isAuthBlockedForModel auth model now)) = BlockReasonCooldown"

definition recovery_of :: "auth option \<Rightarrow> string \<Rightarrow> gotime \<Rightarrow> gotime" where
  "recovery_of auth model now = snd (snd (isAuthBlockedForModel auth model now))"

definition best_auths :: "auth list \<Rightarrow> auth list" where
  "best_auths as =
     filter (\<lambda>a. authPriority (Some a) = Max ((\<lambda>a. authPriority (Some a)) ` set as)) as"

text \<open>The specification: the usable credentials of the highest priority, or one of three errors.\<close>

definition available_spec ::
    "auth option list \<Rightarrow> string \<Rightarrow> string \<Rightarrow> gotime \<Rightarrow> dispatch_error + auth list" where
  "available_spec auths provider model now =
     (if usable_auths auths model now \<noteq> []
      then Inr (sort_key au_ID (best_auths (usable_auths auths model now)))
      else if auths = [] then Inl (PlainError ''auth_not_found'' ''no auth candidates'')
      else if list_all (\<lambda>auth. in_cooldown auth model now) auths
      then Inl (ModelCooldown
        \<lparr>ce_model = model,
         ce_resetIn = time_sub (Min ((\<lambda>auth. recovery_of auth model now) ` set auths)) now,
         ce_provider = (if provider = ''mixed'' then [] else provider),
         ce_requestRetry = 0, ce_hasRequestRetry = False\<rparr>)
      else Inl (PlainError ''auth_unavailable'' ''no auth available''))"

lemma usable_auths_simps [simp]:
  "usable_auths [] model now = []"
  "usable_auths (None # auths) model now = usable_auths auths model now"
  "usable_auths (Some a # auths) model now =
     (if blocked_for a model now then usable_auths auths model now
      else a # usable_auths auths model now)"
  by (auto simp: usable_auths_def)

lemma set_usable_auths:
  "a \<in> set (usable_auths auths model now) \<longleftrightarrow> Some a \<in> set auths \<and> \<not> blocked_for a model now"
  by (induction auths) (auto simp: usable_auths_def List.map_filter_def split: option.splits)

lemma usable_auths_append:
  "usable_auths (as @ bs) model now = usable_auths as model now @ usable_auths bs model now"
  by (auto simp: usable_auths_def List.map_filter_def)

lemma collect_loop_step:
  "collect_loop (candidate # auths) model now available cooldownCount earliest' =
     (if fst (isAuthBlockedForModel candidate model now)
      then collect_loop auths model now available
             (cooldownCount + (if in_cooldown candidate model now then 1 else 0))
             (if in_cooldown candidate model now
              then earlier earliest' (recovery_of candidate model now) else earliest')
      else collect_loop auths model now
             (AList.update (authPriority candidate)
               (gomap_get [] available (authPriority candidate) @ [the candidate]) available)
             cooldownCount earliest')"
  by (cases candidate)
    (auto simp: in_cooldown_def recovery_of_def earlier_def Let_def isAuthBlockedForModel_def [of None]
      split: prod.splits bool.splits)

declare collect_loop.simps(2) [simp del]

lemma in_cooldownD:
  assumes "in_cooldown auth model now"
  shows "fst (isAuthBlockedForModel auth model now)" "now < recovery_of auth model now"
    "recovery_of auth model now \<noteq> 0"
proof -
  obtain b r t where bl: "isAuthBlockedForModel auth model now = (b, r, t)"
    by (metis prod_cases3)
  with assms have "r = BlockReasonCooldown"
    by (simp add: in_cooldown_def)
  with bl cooldown_next_future [of auth model now b t] cooldown_next_nonzero [of auth model now b t]
  show "fst (isAuthBlockedForModel auth model now)" "now < recovery_of auth model now"
    "recovery_of auth model now \<noteq> 0"
    by (auto simp: recovery_of_def)
qed

lemma usable_auths_Cons:
  "usable_auths (candidate # auths) model now =
     (if fst (isAuthBlockedForModel candidate model now) then [] else [the candidate])
     @ usable_auths auths model now"
  by (cases candidate) auto

text \<open>The loop appends each usable credential to the list of its priority, and counts cooldowns.\<close>

lemma collect_loop_map:
  "gomap_get [] (fst (collect_loop auths model now av c e)) p =
   gomap_get [] av p @ filter (\<lambda>a. authPriority (Some a) = p) (usable_auths auths model now)"
proof (induction auths arbitrary: av c e)
  case (Cons candidate auths)
  then show ?case
    by (cases candidate) (auto simp: collect_loop_step)
qed simp

lemma collect_loop_keys:
  "fst ` set (fst (collect_loop auths model now av c e)) =
   fst ` set av \<union> (\<lambda>a. authPriority (Some a)) ` set (usable_auths auths model now)"
proof (induction auths arbitrary: av c e)
  case (Cons candidate auths)
  then show ?case
    by (cases candidate) (auto simp: collect_loop_step dom_update dom_map_of_conv_image_fst [symmetric])
qed simp

lemma collect_loop_cooldown:
  "snd (collect_loop auths model now av c e) =
   (c + int (length (filter (\<lambda>x. in_cooldown x model now) auths)),
    foldl earlier e (map (\<lambda>x. recovery_of x model now) (filter (\<lambda>x. in_cooldown x model now) auths)))"
proof (induction auths arbitrary: av c e)
  case (Cons candidate auths)
  then show ?case
    by (auto simp: collect_loop_step dest: in_cooldownD(1))
qed simp

lemma best_priority_Max:
  "best_priority ps found b = (if found then Max (insert b (set ps))
     else if ps = [] then b else Max (set ps))"
proof (induction ps arbitrary: found b)
  case (Cons p ps)
  then show ?case
    by (cases "ps = []") (auto simp: max_def insert_commute)
qed simp

lemma in_cooldown_all_iff:
  "length (filter P xs) = length xs \<longleftrightarrow> list_all P xs"
  by (induction xs) (auto simp: le_imp_less_Suc [THEN less_imp_neq] length_filter_le)

lemma usable_none_if_cooldown:
  "list_all (\<lambda>auth. in_cooldown auth model now) auths \<Longrightarrow> usable_auths auths model now = []"
  by (induction auths) (auto simp: usable_auths_Cons dest: in_cooldownD(1))

lemma getAvailableAuths_error:
  assumes "usable_auths auths model now = []"
  shows "getAvailableAuths auths provider model now = available_spec auths provider model now"
proof (cases "auths = []")
  case False
  let ?cool = "filter (\<lambda>x. in_cooldown x model now) auths"
  let ?times = "map (\<lambda>x. recovery_of x model now) ?cool"
  obtain av c e where loop: "collect_loop auths model now [] 0 0 = (av, c, e)"
    by (metis prod_cases3)
  then have c: "c = int (length ?cool)" and e: "e = foldl earlier 0 ?times"
    using collect_loop_cooldown [of auths model now "[]" 0 0] by simp_all
  have "av = []"
    using collect_loop_keys [of auths model now "[]" 0 0] loop assms by simp
  have e': "e = (if ?times = [] then 0 else Min (set ?times))"
    unfolding e by (rule trans [OF foldl_earlier_Min]) (auto dest: in_cooldownD)
  show ?thesis
  proof (cases "list_all (\<lambda>auth. in_cooldown auth model now) auths")
    case True
    then have all: "?cool = auths"
      by (simp add: list_all_iff)
    then have "e = Min ((\<lambda>auth. recovery_of auth model now) ` set auths)"
      using e' False by simp
    moreover from this have "e \<in> (\<lambda>auth. recovery_of auth model now) ` set auths"
      using False by simp
    then have "e \<noteq> 0" "now < e"
      using True in_cooldownD by (auto simp: list_all_iff)
    moreover have "\<not> time_sub e now < 0"
      using \<open>now < e\<close> time_sub_nonneg [of now e] by simp
    ultimately show ?thesis
      using False loop \<open>av = []\<close> True all c assms
      by (simp add: getAvailableAuths_def available_spec_def collectAvailableByPriority_def
          newModelCooldownError_def Let_def)
  next
    case False
    then have "c \<noteq> int (length auths)"
      using c in_cooldown_all_iff [of "\<lambda>x. in_cooldown x model now" auths] by simp
    then show ?thesis
      using \<open>auths \<noteq> []\<close> loop \<open>av = []\<close> False assms
      by (simp add: getAvailableAuths_def available_spec_def collectAvailableByPriority_def)
  qed
qed (simp add: getAvailableAuths_def available_spec_def)

lemma getAvailableAuths_usable:
  assumes "usable_auths auths model now \<noteq> []"
  shows "getAvailableAuths auths provider model now = available_spec auths provider model now"
proof -
  let ?us = "usable_auths auths model now"
  let ?prio = "\<lambda>a. authPriority (Some a)"
  obtain av c e where loop: "collect_loop auths model now [] 0 0 = (av, c, e)"
    by (metis prod_cases3)
  then have keys: "fst ` set av = ?prio ` set ?us"
    and get: "gomap_get [] av p = filter (\<lambda>a. ?prio a = p) ?us" for p
    using collect_loop_keys [of auths model now "[]" 0 0]
      collect_loop_map [of auths model now "[]" 0 0] by simp_all
  have "auths \<noteq> []" "av \<noteq> []"
    using assms keys by auto
  then have "best_priority (map fst av) False 0 = Max (?prio ` set ?us)"
    by (simp add: best_priority_Max keys)
  then have best: "gomap_get [] av (best_priority (map fst av) False 0) = best_auths ?us"
    by (simp add: get best_auths_def)
  have "length as \<le> 1 \<Longrightarrow> sort_key au_ID as = as" for as :: "auth list"
    by (cases as) auto
  then show ?thesis
    using loop assms \<open>auths \<noteq> []\<close> \<open>av \<noteq> []\<close>
    by (auto simp: getAvailableAuths_def available_spec_def collectAvailableByPriority_def best Let_def)
qed

lemma getAvailableAuths_eq_spec:
  "getAvailableAuths auths provider model now = available_spec auths provider model now"
  using getAvailableAuths_error getAvailableAuths_usable by blast

lemma best_auths_nonempty: "as \<noteq> [] \<Longrightarrow> best_auths as \<noteq> []"
proof -
  assume "as \<noteq> []"
  then have "Max ((\<lambda>a. authPriority (Some a)) ` set as) \<in> (\<lambda>a. authPriority (Some a)) ` set as"
    by simp
  then show ?thesis
    by (force simp: best_auths_def filter_empty_conv)
qed

lemma getAvailableAuths_eq:
  "getAvailableAuths auths provider model now = Inr xs \<longleftrightarrow>
   usable_auths auths model now \<noteq> [] \<and>
   xs = sort_key au_ID (best_auths (usable_auths auths model now))"
  unfolding getAvailableAuths_eq_spec by (auto simp: available_spec_def)

subsection \<open>The selectors\<close>

record round_robin =
  rr_cursors :: "(string, int) gomap"
  rr_maxKeys :: int

definition rr_limit :: "round_robin \<Rightarrow> int" where
  "rr_limit s = (if rr_maxKeys s \<le> 0 then 4096 else rr_maxKeys s)"

definition ensureCursorKey :: "(string, int) gomap \<Rightarrow> string \<Rightarrow> int \<Rightarrow> (string, int) gomap" where
  "ensureCursorKey cursors key limit =
     (if map_of cursors key = None \<and> int (length cursors) \<ge> limit then [] else cursors)"

definition selector_key :: "string \<Rightarrow> string \<Rightarrow> string" where
  "selector_key provider model = provider @ '':'' @ canonicalModelKey model"

definition RoundRobin_Pick :: "round_robin \<Rightarrow> string \<Rightarrow> string \<Rightarrow> options \<Rightarrow> auth option list \<Rightarrow> gotime
    \<Rightarrow> round_robin \<times> (dispatch_error + auth)" where
  "RoundRobin_Pick s provider model opts auths now =
     (case getAvailableAuths (filterConcurrencyExcludedAuths auths model opts) provider model now of
        Inl err \<Rightarrow> (s, Inl err)
      | Inr available \<Rightarrow>
          let key = selector_key provider model;
              cursors = ensureCursorKey (rr_cursors s) key (rr_limit s);
              index0 = gomap_get 0 cursors key;
              index = (if index0 \<ge> 2147483640 then 0 else index0);
              cursors' = AList.update key (index + 1) cursors
          in (s\<lparr>rr_cursors := cursors'\<rparr>,
              Inr (available ! nat (index mod int (length available)))))"

definition FillFirst_Pick :: "unit \<Rightarrow> string \<Rightarrow> string \<Rightarrow> options \<Rightarrow> auth option list \<Rightarrow> gotime
    \<Rightarrow> unit \<times> (dispatch_error + auth)" where
  "FillFirst_Pick s provider model opts auths now =
     (s, case getAvailableAuths (filterConcurrencyExcludedAuths auths model opts) provider model now of
        Inl err \<Rightarrow> Inl err
      | Inr available \<Rightarrow> Inr (hd available))"

text \<open>The credentials a request may be given: usable, not excluded, of the highest usable priority.\<close>

definition eligible :: "string \<Rightarrow> options \<Rightarrow> auth option list \<Rightarrow> gotime \<Rightarrow> auth list" where
  "eligible model opts auths now =
     usable_auths (filterConcurrencyExcludedAuths auths model opts) model now"

lemma set_eligible:
  "a \<in> set (eligible model opts auths now) \<longleftrightarrow>
   Some a \<in> set auths \<and> \<not> concurrencyCandidateExcluded opts (au_ID a) model
   \<and> \<not> blocked_for a model now"
  by (auto simp: eligible_def set_usable_auths filterConcurrencyExcludedAuths_iff)

lemma best_auths_subset: "set (best_auths as) \<subseteq> set as"
  by (auto simp: best_auths_def)

lemma best_auths_max: "a \<in> set (best_auths as) \<Longrightarrow> b \<in> set as \<Longrightarrow>
    authPriority (Some b) \<le> authPriority (Some a)"
  by (auto simp: best_auths_def)

subsection \<open>The contract of a selector\<close>

text \<open>
  \<open>pick s provider model opts auths now\<close> returns the next state and an error or a credential.  The
  laws: a picked credential is one of the candidates, is not excluded and is not blocked.
\<close>

locale dispatch_selector =
  fixes pick :: "'s \<Rightarrow> string \<Rightarrow> string \<Rightarrow> options \<Rightarrow> auth option list \<Rightarrow> gotime
      \<Rightarrow> 's \<times> (dispatch_error + auth)"
  assumes pick_eligible:
    "pick s provider model opts auths now = (s', Inr a) \<Longrightarrow> a \<in> set (eligible model opts auths now)"
begin

lemma pick_candidate:
  "pick s provider model opts auths now = (s', Inr a) \<Longrightarrow> Some a \<in> set auths"
  using pick_eligible set_eligible by blast

lemma pick_unblocked:
  "pick s provider model opts auths now = (s', Inr a) \<Longrightarrow> \<not> blocked_for a model now"
  using pick_eligible set_eligible by blast

lemma pick_not_disabled:
  "pick s provider model opts auths now = (s', Inr a) \<Longrightarrow>
   \<not> au_Disabled a \<and> au_Status a \<noteq> StatusDisabled"
  using pick_unblocked [of s provider model opts auths now s' a]
  by (auto simp: isAuthBlockedForModel_def split: if_splits)

lemma pick_not_excluded:
  "pick s provider model opts auths now = (s', Inr a) \<Longrightarrow>
   \<not> concurrencyCandidateExcluded opts (au_ID a) model"
  using pick_eligible set_eligible by blast

lemma pick_none_eligible:
  "eligible model opts auths now = [] \<Longrightarrow>
   \<exists>err. snd (pick s provider model opts auths now) = Inl err"
  using pick_eligible [of s provider model opts auths now]
  by (cases "pick s provider model opts auths now"; cases "snd (pick s provider model opts auths now)")
    auto

end

text \<open>A selector that never fails on an eligible candidate, and picks one of the highest priority.\<close>

locale complete_selector = dispatch_selector pick
  for pick :: "'s \<Rightarrow> string \<Rightarrow> string \<Rightarrow> options \<Rightarrow> auth option list \<Rightarrow> gotime
      \<Rightarrow> 's \<times> (dispatch_error + auth)" +
  assumes pick_complete:
    "eligible model opts auths now \<noteq> [] \<Longrightarrow>
     \<exists>s' a. pick s provider model opts auths now = (s', Inr a)
       \<and> a \<in> set (best_auths (eligible model opts auths now))"
begin

lemma pick_iff:
  "(\<exists>s' a. pick s provider model opts auths now = (s', Inr a)) \<longleftrightarrow>
   eligible model opts auths now \<noteq> []"
proof
  show "\<exists>s' a. pick s provider model opts auths now = (s', Inr a) \<Longrightarrow>
      eligible model opts auths now \<noteq> []"
    using pick_eligible [of s provider model opts auths now] by force
qed (use pick_complete in blast)

lemma pick_priority:
  assumes "pick s provider model opts auths now = (s', Inr a)"
    "b \<in> set (eligible model opts auths now)"
  shows "authPriority (Some b) \<le> authPriority (Some a)"
proof -
  have "eligible model opts auths now \<noteq> []"
    using assms(2) by auto
  from pick_complete [OF this, of s provider] assms(1)
  have "a \<in> set (best_auths (eligible model opts auths now))"
    by auto
  then show ?thesis
    using best_auths_max assms(2) by blast
qed

end

subsection \<open>Both selectors keep the contract\<close>

lemma available_eq_eligible:
  "getAvailableAuths (filterConcurrencyExcludedAuths auths model opts) provider model now = Inr xs \<longleftrightarrow>
   eligible model opts auths now \<noteq> [] \<and> xs = sort_key au_ID (best_auths (eligible model opts auths now))"
  by (simp add: eligible_def getAvailableAuths_eq)

lemma available_nonempty:
  "getAvailableAuths auths provider model now = Inr xs \<Longrightarrow> xs \<noteq> []"
  using best_auths_nonempty [of "usable_auths auths model now"]
  by (simp add: getAvailableAuths_eq)

lemma nth_mod_mem: "xs \<noteq> [] \<Longrightarrow> xs ! nat (i mod int (length xs)) \<in> set xs"
  by (simp add: nat_less_iff)

interpretation rr: complete_selector RoundRobin_Pick
proof
  fix s s' provider model opts auths now a
  assume "RoundRobin_Pick s provider model opts auths now = (s', Inr a)"
  then obtain xs i where xs: "getAvailableAuths (filterConcurrencyExcludedAuths auths model opts)
      provider model now = Inr xs" and a: "a = xs ! nat (i mod int (length xs))"
    by (auto simp: RoundRobin_Pick_def Let_def split: sum.splits)
  then have "a \<in> set xs"
    using nth_mod_mem [OF available_nonempty [OF xs]] by simp
  with xs best_auths_subset show "a \<in> set (eligible model opts auths now)"
    by (auto simp: available_eq_eligible)
next
  fix s provider model opts auths now
  assume ne: "eligible model opts auths now \<noteq> []"
  let ?xs = "sort_key au_ID (best_auths (eligible model opts auths now))"
  have xs: "getAvailableAuths (filterConcurrencyExcludedAuths auths model opts) provider model now
      = Inr ?xs"
    using ne available_eq_eligible by blast
  have "?xs ! nat (i mod int (length ?xs)) \<in> set (best_auths (eligible model opts auths now))" for i
    using nth_mod_mem [OF available_nonempty [OF xs]] by (metis set_sort)
  with xs show "\<exists>s' a. RoundRobin_Pick s provider model opts auths now = (s', Inr a)
      \<and> a \<in> set (best_auths (eligible model opts auths now))"
    unfolding RoundRobin_Pick_def xs Let_def by auto
qed

interpretation ff: complete_selector FillFirst_Pick
proof
  fix s s' provider model opts auths now a
  assume "FillFirst_Pick s provider model opts auths now = (s', Inr a)"
  then obtain xs where xs: "getAvailableAuths (filterConcurrencyExcludedAuths auths model opts)
      provider model now = Inr xs" and a: "a = hd xs"
    by (auto simp: FillFirst_Pick_def split: sum.splits)
  then have "a \<in> set xs"
    using available_nonempty [OF xs] by simp
  with xs best_auths_subset show "a \<in> set (eligible model opts auths now)"
    by (auto simp: available_eq_eligible)
next
  fix s provider model opts auths now
  assume ne: "eligible model opts auths now \<noteq> []"
  let ?xs = "sort_key au_ID (best_auths (eligible model opts auths now))"
  have xs: "getAvailableAuths (filterConcurrencyExcludedAuths auths model opts) provider model now
      = Inr ?xs"
    using ne available_eq_eligible by blast
  have "hd ?xs \<in> set (best_auths (eligible model opts auths now))"
    using available_nonempty [OF xs] by (metis list.set_sel(1) set_sort)
  with xs show "\<exists>s' a. FillFirst_Pick s provider model opts auths now = (s', Inr a)
      \<and> a \<in> set (best_auths (eligible model opts auths now))"
    unfolding FillFirst_Pick_def xs by auto
qed

subsection \<open>The cursor of round robin\<close>

definition rr_wf :: "round_robin \<Rightarrow> bool" where
  "rr_wf s \<longleftrightarrow> gomap_wf (rr_cursors s) \<and> int (length (rr_cursors s)) \<le> rr_limit s
     \<and> (\<forall>(key, i)\<in>set (rr_cursors s). 0 \<le> i \<and> i \<le> 2147483640)"

lemma rr_limit_pos: "0 < rr_limit s"
  by (simp add: rr_limit_def)

lemma rr_limit_update [simp]: "rr_limit (s\<lparr>rr_cursors := m\<rparr>) = rr_limit s"
  by (simp add: rr_limit_def)

lemma length_update_le:
  "length (AList.update k v m) \<le> (if map_of m k = None then Suc (length m) else length m)"
  by (induction m) (auto split: if_splits)

lemma set_update_subset: "set (AList.update k v m) \<subseteq> insert (k, v) (set m)"
  by (induction m) auto

lemma ensureCursorKey_length:
  assumes "int (length m) \<le> limit" "0 < limit"
  shows "int (length (AList.update k v (ensureCursorKey m k limit))) \<le> limit"
proof (cases "map_of m k = None \<and> int (length m) \<ge> limit")
  case False
  then have "ensureCursorKey m k limit = m" "map_of m k = None \<longrightarrow> int (length m) < limit"
    by (auto simp: ensureCursorKey_def)
  with assms length_update_le [of k v m] show ?thesis
    by (auto split: if_splits)
qed (use assms in \<open>auto simp: ensureCursorKey_def Suc_le_eq\<close>)

lemma rr_wf_step:
  assumes wf: "rr_wf s"
  shows "rr_wf (fst (RoundRobin_Pick s provider model opts auths now))"
proof (cases "getAvailableAuths (filterConcurrencyExcludedAuths auths model opts) provider model now")
  case (Inr available)
  let ?key = "selector_key provider model"
  let ?m = "ensureCursorKey (rr_cursors s) ?key (rr_limit s)"
  let ?i = "gomap_get 0 ?m ?key"
  have m: "gomap_wf ?m" "\<forall>(key, i)\<in>set ?m. 0 \<le> i \<and> i \<le> 2147483640"
    using wf by (auto simp: ensureCursorKey_def rr_wf_def)
  then have i: "0 \<le> ?i" "?i \<le> 2147483640"
    by (auto simp: gomap_get_def split: option.splits dest: map_of_SomeD)
  have "int (length (AList.update ?key v ?m)) \<le> rr_limit s" for v
    using wf ensureCursorKey_length rr_limit_pos by (auto simp: rr_wf_def)
  moreover have "\<forall>(key, i)\<in>set (AList.update ?key v ?m). 0 \<le> i \<and> i \<le> 2147483640"
    if "0 \<le> v" "v \<le> 2147483640" for v
    using set_update_subset [of ?key v ?m] m(2) that by fastforce
  ultimately have "rr_wf (s\<lparr>rr_cursors := AList.update ?key v ?m\<rparr>)"
    if "0 \<le> v" "v \<le> 2147483640" for v
    using m(1) that by (simp add: rr_wf_def)
  from this [of "(if ?i \<ge> 2147483640 then 0 else ?i) + 1"] show ?thesis
    using Inr i by (auto simp: RoundRobin_Pick_def Let_def)
qed (use wf in \<open>simp add: RoundRobin_Pick_def\<close>)

text \<open>A run of picks of the same request at successive instants.\<close>

fun rr_run :: "round_robin \<Rightarrow> string \<Rightarrow> string \<Rightarrow> options \<Rightarrow> auth option list \<Rightarrow> gotime list
    \<Rightarrow> round_robin \<times> (dispatch_error + auth) list" where
  "rr_run s provider model opts auths [] = (s, [])"
| "rr_run s provider model opts auths (now # instants) =
     (let (s', r) = RoundRobin_Pick s provider model opts auths now;
          (s'', rs) = rr_run s' provider model opts auths instants
      in (s'', r # rs))"

lemma cursor_after_ensure [simp]:
  "gomap_get 0 (ensureCursorKey m key limit) key = gomap_get 0 m key"
  by (auto simp: ensureCursorKey_def gomap_get_def)

lemma rr_step:
  assumes "getAvailableAuths (filterConcurrencyExcludedAuths auths model opts) provider model now
      = Inr xs"
    "gomap_get 0 (rr_cursors s) (selector_key provider model) = c" "c < 2147483640"
  shows "\<exists>s'. RoundRobin_Pick s provider model opts auths now
      = (s', Inr (xs ! nat (c mod int (length xs))))
    \<and> gomap_get 0 (rr_cursors s') (selector_key provider model) = c + 1"
  using assms unfolding RoundRobin_Pick_def Let_def by simp

lemma rr_run_cycle:
  assumes "\<forall>now\<in>set instants. getAvailableAuths (filterConcurrencyExcludedAuths auths model opts)
      provider model now = Inr xs"
    "gomap_get 0 (rr_cursors s) (selector_key provider model) = c"
    "c + int (length instants) \<le> 2147483640"
  shows "snd (rr_run s provider model opts auths instants)
    = map (\<lambda>i. Inr (xs ! nat ((c + int i) mod int (length xs)))) [0..<length instants]"
  using assms
proof (induction instants arbitrary: s c)
  case (Cons now instants)
  then obtain s' where s': "RoundRobin_Pick s provider model opts auths now
        = (s', Inr (xs ! nat (c mod int (length xs))))"
      "gomap_get 0 (rr_cursors s') (selector_key provider model) = c + 1"
    using rr_step [of auths model opts provider now xs s c] by auto
  then have "snd (rr_run s' provider model opts auths instants)
      = map (\<lambda>i. Inr (xs ! nat ((c + 1 + int i) mod int (length xs)))) [0..<length instants]"
    using Cons by simp
  moreover have "[0..<length (now # instants)] = 0 # map Suc [0..<length instants]"
    by (simp only: length_Cons map_Suc_upt upt_conv_Cons)
  ultimately show ?case
    using s'(1) by (simp add: split_beta add.assoc add.commute [of 1] del: upt_Suc)
qed simp

text \<open>A block of \<open>n\<close> consecutive indices modulo \<open>n\<close> meets every position once.\<close>

lemma image_mod_block:
  assumes "0 < n"
  shows "mset (map (\<lambda>i. nat ((c + int i) mod int n)) [0..<n]) = mset [0..<n]"
proof -
  let ?f = "\<lambda>i. nat ((c + int i) mod int n)"
  have "inj_on ?f {..<n}"
  proof (rule inj_onI)
    fix i j
    assume ij: "i \<in> {..<n}" "j \<in> {..<n}" "?f i = ?f j"
    then have "(c + int i) mod int n = (c + int j) mod int n"
      using assms by (simp add: eq_nat_nat_iff)
    then have "int n dvd (c + int i) - (c + int j)"
      by (simp only: mod_eq_dvd_iff)
    then have "int n dvd int i - int j"
      by simp
    moreover have "\<bar>int i - int j\<bar> < int n"
      using ij by auto
    ultimately show "i = j"
      using zdvd_imp_le [of "int n" "\<bar>int i - int j\<bar>"] by fastforce
  qed
  moreover have "?f ` {..<n} \<subseteq> {..<n}"
    using assms by (auto simp: nat_less_iff)
  ultimately have "?f ` {..<n} = {..<n}"
    by (simp add: endo_inj_surj)
  moreover have "distinct (map ?f [0..<n])"
    using \<open>inj_on ?f {..<n}\<close> by (simp add: distinct_map atLeast_upt)
  ultimately show ?thesis
    using set_eq_iff_mset_eq_distinct [of "map ?f [0..<n]" "[0..<n]"]
    by (simp add: atLeast_upt [symmetric] lessThan_atLeast0)
qed

subsection \<open>Properties\<close>

text \<open>
  C1. The dispatch pool is exactly the usable credentials of the highest usable priority, ordered by
  ID; there is no pool exactly when no credential is usable, and then the error is a cooldown error
  with the earliest recovery among the candidates exactly when every candidate is in cooldown.
\<close>

theorem getAvailableAuths_spec:
  "getAvailableAuths auths provider model now = available_spec auths provider model now"
  by (rule getAvailableAuths_eq_spec)

text \<open>
  C2. Round robin is fair: while the pool stays \<open>xs\<close> and the cursor does not wrap, as many consecutive
  picks as there are credentials give every credential of the pool exactly once.
\<close>

theorem round_robin_fair:
  assumes "\<forall>now\<in>set instants. getAvailableAuths (filterConcurrencyExcludedAuths auths model opts)
      provider model now = Inr xs"
    "gomap_get 0 (rr_cursors s) (selector_key provider model) + int (length xs) \<le> 2147483640"
    "length instants = length xs"
  shows "mset (snd (rr_run s provider model opts auths instants)) = mset (map Inr xs)"
proof (cases "xs = []")
  case False
  let ?c = "gomap_get 0 (rr_cursors s) (selector_key provider model)"
  let ?f = "\<lambda>i. nat ((?c + int i) mod int (length xs))"
  have "snd (rr_run s provider model opts auths instants)
      = map (\<lambda>j. Inr (xs ! j)) (map ?f [0..<length xs])"
    using rr_run_cycle [OF assms(1) refl, of s] assms(2,3) by simp
  moreover have "mset (map ?f [0..<length xs]) = mset [0..<length xs]"
    using image_mod_block False by blast
  ultimately have "mset (snd (rr_run s provider model opts auths instants))
      = image_mset (\<lambda>j. Inr (xs ! j)) (mset [0..<length xs])"
    by (simp only: mset_map)
  also have "\<dots> = mset (map Inr (map ((!) xs) [0..<length xs]))"
    by (simp only: mset_map [symmetric] map_map comp_def)
  finally show ?thesis
    by (simp only: map_nth)
qed (use assms in simp)

theorem round_robin_fair_witness:
  "mset (snd (rr_run \<lparr>rr_cursors = [], rr_maxKeys = 0\<rparr> ''codex'' ''m'' no_options
      [Some (plain_auth ''b''), Some (plain_auth ''a'')] [1, 2]))
   = mset (map Inr [plain_auth ''a'', plain_auth ''b''])"
proof (rule round_robin_fair)
  have pool: "getAvailableAuths (filterConcurrencyExcludedAuths
      [Some (plain_auth ''b''), Some (plain_auth ''a'')] ''m'' no_options) ''codex'' ''m'' now
    = Inr [plain_auth ''a'', plain_auth ''b'']" if "now = 1 \<or> now = 2" for now
    using that by (elim disjE; hypsubst; code_simp)
  then show "\<forall>now\<in>set [1, 2]. getAvailableAuths (filterConcurrencyExcludedAuths
      [Some (plain_auth ''b''), Some (plain_auth ''a'')] ''m'' no_options) ''codex'' ''m'' now
    = Inr [plain_auth ''a'', plain_auth ''b'']"
    by simp
qed simp_all

text \<open>
  The cursor table of round robin stays within its key limit, with distinct keys and cursors that
  index without wrapping, whatever sequence of requests is served.
\<close>

theorem round_robin_bounded:
  assumes "rr_wf s"
  shows "rr_wf (fst (RoundRobin_Pick s provider model opts auths now))"
  using assms by (rule rr_wf_step)

theorem round_robin_bounded_witness:
  "rr_wf (fst (RoundRobin_Pick \<lparr>rr_cursors = [], rr_maxKeys = 0\<rparr> ''codex'' ''m'' no_options
      [Some (plain_auth ''b'')] 1))"
  by (rule round_robin_bounded) (simp add: rr_wf_def rr_limit_def)

end
