(* ===== verification/Smooth_Weighted.thy ===== *)
theory Smooth_Weighted
  imports Selectors
begin

section \<open>Smooth weighted round robin\<close>

text \<open>
  \<^verbatim>\<open>selector_weighted.go\<close>.  The abstract scheme comes first: every round each credential earns its
  weight, and the chosen one pays the total.  The locale \<open>weighted_choice\<close> says what the scheme needs
  of the choice (it takes a largest credit), and proves fairness from it.  The code's loop with its
  saturating additions is then shown to run that scheme, with the choice \<open>first_max\<close>.
\<close>

subsection \<open>The scheme\<close>

definition total_weight :: "('a \<Rightarrow> int) \<Rightarrow> 'a list \<Rightarrow> int" where
  "total_weight w xs = sum_list (map w xs)"

definition credit_round :: "(('a \<Rightarrow> int) \<Rightarrow> 'a list \<Rightarrow> 'a) \<Rightarrow> ('a \<Rightarrow> int) \<Rightarrow> 'a list \<Rightarrow> ('a \<Rightarrow> int)
    \<Rightarrow> ('a \<Rightarrow> int) \<times> 'a" where
  "credit_round sel w xs c =
     (let earned = (\<lambda>x. c x + w x); p = sel earned xs
      in (earned(p := earned p - total_weight w xs), p))"

fun credit_run :: "(('a \<Rightarrow> int) \<Rightarrow> 'a list \<Rightarrow> 'a) \<Rightarrow> ('a \<Rightarrow> int) \<Rightarrow> 'a list \<Rightarrow> nat \<Rightarrow> ('a \<Rightarrow> int)
    \<Rightarrow> ('a \<Rightarrow> int) \<times> 'a list" where
  "credit_run sel w xs 0 c = (c, [])"
| "credit_run sel w xs (Suc n) c =
     (let (c', p) = credit_round sel w xs c;
          (c'', ps) = credit_run sel w xs n c'
      in (c'', p # ps))"

text \<open>Credits that sum to zero, none below minus the total.\<close>

definition balanced :: "('a \<Rightarrow> int) \<Rightarrow> 'a list \<Rightarrow> ('a \<Rightarrow> int) \<Rightarrow> bool" where
  "balanced w xs c \<longleftrightarrow>
     sum_list (map c xs) = 0 \<and> (\<forall>x\<in>set xs. - total_weight w xs < c x)"

lemma total_weight_pos:
  "\<forall>x\<in>set xs. 0 < w x \<Longrightarrow> xs \<noteq> [] \<Longrightarrow> 0 < total_weight w xs"
proof (induction xs)
  case (Cons x xs)
  then show ?case
    by (cases "xs = []") (auto simp: total_weight_def)
qed simp

lemma sum_list_add: "sum_list (map (\<lambda>x. f x + g x) xs) = sum_list (map f xs) + sum_list (map g xs)"
  for f :: "'a \<Rightarrow> int"
  by (induction xs) auto

lemma sum_list_upd:
  "distinct xs \<Longrightarrow> p \<in> set xs \<Longrightarrow> sum_list (map (f(p := v)) xs) = sum_list (map f xs) + v - f p"
  for f :: "'a \<Rightarrow> int"
proof (induction xs)
  case (Cons x xs)
  show ?case
  proof (cases "x = p")
    case True
    with Cons.prems have "map (f(p := v)) xs = map f xs"
      by auto
    then have "sum_list (map (f(p := v)) xs) = sum_list (map f xs)"
      by (rule arg_cong)
    with True show ?thesis
      by (simp del: fun_upd_apply) (simp add: fun_upd_same)
  next
    case False
    with Cons show ?thesis
      by simp
  qed
qed simp

lemma sum_list_le_max:
  "\<forall>x\<in>set xs. f x \<le> m \<Longrightarrow> sum_list (map f xs) \<le> int (length xs) * m" for f :: "'a \<Rightarrow> int"
  by (induction xs) (auto simp: algebra_simps)

lemma sum_count_list:
  "distinct xs \<Longrightarrow> set ps \<subseteq> set xs \<Longrightarrow>
   sum_list (map (\<lambda>x. int (count_list ps x)) xs) = int (length ps)"
proof (induction ps)
  case (Cons p ps)
  let ?f = "\<lambda>x. int (count_list ps x)"
  have "(\<lambda>x. int (count_list (p # ps) x)) = ?f(p := ?f p + 1)"
    by auto
  with Cons sum_list_upd [of xs p ?f "?f p + 1"] show ?case
    by simp
qed (simp add: map_replicate_const sum_list_replicate)

lemma sum_list_le_eq:
  "\<forall>x\<in>set xs. f x \<le> g x \<Longrightarrow> sum_list (map f xs) = sum_list (map g xs) \<Longrightarrow> x \<in> set xs \<Longrightarrow>
   f x = g x" for f g :: "'a \<Rightarrow> int"
proof (induction xs)
  case (Cons y ys)
  then have "sum_list (map f ys) \<le> sum_list (map g ys)"
    by (intro sum_list_mono) simp
  with Cons show ?case
    by auto
qed simp

lemma count_list_map_Inr: "count_list (map Inr ps) (Inr a) = count_list ps a"
  by (induction ps) auto

locale weighted_choice =
  fixes sel :: "('a \<Rightarrow> int) \<Rightarrow> 'a list \<Rightarrow> 'a"
  assumes choose_mem: "xs \<noteq> [] \<Longrightarrow> sel c xs \<in> set xs"
    and choose_max: "x \<in> set xs \<Longrightarrow> c x \<le> c (sel c xs)"
    and choose_cong: "\<forall>x\<in>set xs. c x = c' x \<Longrightarrow> sel c xs = sel c' xs"
begin

lemma round_cong:
  assumes "\<forall>x\<in>set xs. c x = c' x"
  shows "snd (credit_round sel w xs c) = snd (credit_round sel w xs c')"
    "\<forall>x\<in>set xs. fst (credit_round sel w xs c) x = fst (credit_round sel w xs c') x"
  using assms choose_cong [of xs "\<lambda>x. c x + w x" "\<lambda>x. c' x + w x"]
  by (simp_all add: credit_round_def Let_def)

lemma choose_positive:
  assumes "xs \<noteq> []" "0 < sum_list (map c xs)"
  shows "0 < c (sel c xs)"
proof (rule ccontr)
  assume "\<not> 0 < c (sel c xs)"
  then have "\<forall>x\<in>set xs. c x \<le> 0"
    using choose_max [of _ xs c] by force
  then show False
    using sum_list_le_max [of xs c 0] assms by auto
qed

lemma round_balanced:
  assumes "balanced w xs c" "distinct xs" "xs \<noteq> []" "\<forall>x\<in>set xs. 0 < w x"
  shows "balanced w xs (fst (credit_round sel w xs c))"
proof -
  let ?W = "total_weight w xs" and ?e = "\<lambda>x. c x + w x"
  let ?p = "sel ?e xs"
  have sum: "sum_list (map ?e xs) = ?W"
    using assms(1) by (simp add: balanced_def total_weight_def sum_list_add)
  have "?p \<in> set xs"
    using choose_mem assms(3) by blast
  then have "sum_list (map (?e(?p := ?e ?p - ?W)) xs) = 0"
    using sum sum_list_upd [of xs ?p ?e "?e ?p - ?W"] assms(2) by simp
  moreover have "0 < ?e ?p"
    using choose_positive [of xs ?e] sum total_weight_pos [of xs w] assms(3,4) by simp
  then have "\<forall>x\<in>set xs. - ?W < (?e(?p := ?e ?p - ?W)) x"
    using assms(1,4) by (fastforce simp: balanced_def)
  ultimately show ?thesis
    by (simp add: balanced_def credit_round_def Let_def)
qed

lemma run_cong:
  assumes "\<forall>x\<in>set xs. c x = c' x"
  shows "snd (credit_run sel w xs n c) = snd (credit_run sel w xs n c')"
  using assms
proof (induction n arbitrary: c c')
  case (Suc n)
  show ?case
    using round_cong(1) [OF Suc.prems, of w] Suc.IH [OF round_cong(2) [OF Suc.prems, of w]]
    by (simp add: split_beta)
qed simp

lemma run_balanced:
  assumes "balanced w xs c" "distinct xs" "xs \<noteq> []" "\<forall>x\<in>set xs. 0 < w x"
  shows "balanced w xs (fst (credit_run sel w xs n c))"
  using assms(1)
proof (induction n arbitrary: c)
  case (Suc n)
  then show ?case
    using round_balanced [OF _ assms(2-4)] by (auto simp: split_beta)
qed simp

lemma run_picks: "xs \<noteq> [] \<Longrightarrow> set (snd (credit_run sel w xs n c)) \<subseteq> set xs"
proof (induction n arbitrary: c)
  case (Suc n)
  then show ?case
    using choose_mem by (auto simp: split_beta credit_round_def Let_def)
qed simp

lemma run_length: "length (snd (credit_run sel w xs n c)) = n"
  by (induction n arbitrary: c) (auto simp: split_beta)

lemma run_credit:
  "fst (credit_run sel w xs n c) x = c x + int n * w x
     - total_weight w xs * int (count_list (snd (credit_run sel w xs n c)) x)"
proof (induction n arbitrary: c)
  case (Suc n)
  let ?c' = "fst (credit_round sel w xs c)" and ?p = "snd (credit_round sel w xs c)"
  have "?c' x = c x + w x - (if x = ?p then total_weight w xs else 0)"
    by (simp add: credit_round_def Let_def)
  then show ?case
    using Suc [of ?c'] by (auto simp: split_beta algebra_simps)
qed simp

text \<open>At no point is a candidate a full pick ahead of its share.\<close>

lemma run_share:
  assumes "distinct xs" "\<forall>x\<in>set xs. 0 < w x" "x \<in> set xs"
  shows "total_weight w xs * (int (count_list (snd (credit_run sel w xs n (\<lambda>_. 0))) x) - 1)
    < int n * w x"
proof -
  have "xs \<noteq> []"
    using assms(3) by auto
  moreover from this have "0 < total_weight w xs"
    using assms(2) total_weight_pos by blast
  ultimately have "xs \<noteq> []" "0 < total_weight w xs"
    by simp_all
  then have "balanced w xs (\<lambda>_. 0)"
    by (simp add: balanced_def map_replicate_const sum_list_replicate)
  then have "- total_weight w xs < fst (credit_run sel w xs n (\<lambda>_. 0)) x"
    using run_balanced [of w xs "\<lambda>_. 0" n] assms \<open>xs \<noteq> []\<close> by (auto simp: balanced_def)
  then show ?thesis
    unfolding run_credit by (simp add: algebra_simps)
qed

text \<open>After as many rounds as the total weight, each candidate was picked as often as it weighs.\<close>

lemma run_cycle:
  assumes "distinct xs" "\<forall>x\<in>set xs. 0 < w x" "x \<in> set xs"
  shows "int (count_list (snd (credit_run sel w xs (nat (total_weight w xs)) (\<lambda>_. 0))) x) = w x"
proof -
  let ?W = "total_weight w xs"
  let ?ps = "snd (credit_run sel w xs (nat ?W) (\<lambda>_. 0))"
  have "xs \<noteq> []"
    using assms(3) by auto
  then have W: "0 < ?W" "xs \<noteq> []"
    using total_weight_pos [OF assms(2)] by blast+
  have le: "int (count_list ?ps y) \<le> w y" if "y \<in> set xs" for y
  proof -
    have "?W * (int (count_list ?ps y) - 1) < ?W * w y"
      using run_share [of xs w y "nat ?W"] assms(1,2) that W(1) by (simp only: nat_0_le [OF less_imp_le])
    then have "int (count_list ?ps y) - 1 < w y"
      using W(1) by (simp only: mult_less_cancel_left_pos)
    then show ?thesis
      by simp
  qed
  have "sum_list (map (\<lambda>y. int (count_list ?ps y)) xs) = int (length ?ps)"
    using sum_count_list [OF assms(1) run_picks [OF W(2)]] by simp
  also have "\<dots> = sum_list (map w xs)"
    using W(1) by (simp add: run_length) (simp add: total_weight_def)
  finally show ?thesis
    by (rule sum_list_le_eq [rotated]) (use le assms(3) in auto)
qed

end

subsection \<open>Weights of credentials\<close>

definition saturatingAddInt64 :: "int \<Rightarrow> int \<Rightarrow> int" where
  "saturatingAddInt64 value delta =
     (if delta > 0 \<and> value > wrap64 (max_i64 - delta) then max_i64
      else if delta < 0 \<and> value < wrap64 (min_i64 - delta) then min_i64
      else wrap64 (value + delta))"

lemma saturatingAddInt64_clamp:
  assumes "is_i64 value" "is_i64 delta"
  shows "saturatingAddInt64 value delta = max min_i64 (min max_i64 (value + delta))"
proof -
  have "delta > 0 \<Longrightarrow> is_i64 (max_i64 - delta)" "delta < 0 \<Longrightarrow> is_i64 (min_i64 - delta)"
    using assms by (auto simp: i64_simps)
  moreover have "\<not> (delta > 0 \<and> value > max_i64 - delta) \<Longrightarrow>
      \<not> (delta < 0 \<and> value < min_i64 - delta) \<Longrightarrow> is_i64 (value + delta)"
    using assms by (auto simp: i64_simps)
  ultimately show ?thesis
    using assms unfolding saturatingAddInt64_def is_i64_def by (auto simp: is_i64_def)
qed

definition authWeight :: "auth option \<Rightarrow> int" where
  "authWeight auth =
     (case auth of
        None \<Rightarrow> weight_default
      | Some a \<Rightarrow>
          let rawAttr = map_of (au_Attributes a) ''weight'';
              rawMeta = map_of (au_Metadata a) ''weight''
          in if rawAttr \<noteq> None \<and> trim_space (the rawAttr) \<noteq> []
             then (case ParseString (the rawAttr) of Inl err \<Rightarrow> 0 | Inr weight \<Rightarrow> weight)
             else if rawMeta \<noteq> None \<and> the rawMeta \<noteq> VNil
             then (case ParseValue (the rawMeta) of Inl err \<Rightarrow> 0 | Inr weight \<Rightarrow> weight)
             else weight_default)"

definition positiveWeightAuths :: "auth option list \<Rightarrow> auth option list" where
  "positiveWeightAuths auths = filter (\<lambda>auth. authWeight auth > 0) auths"

fun weight_vector_loop :: "auth option list \<Rightarrow> (string, int) gomap \<Rightarrow> (string, int) gomap" where
  "weight_vector_loop [] weights = weights"
| "weight_vector_loop (None # auths) weights = weight_vector_loop auths weights"
| "weight_vector_loop (Some a # auths) weights =
     weight_vector_loop auths
       (let weight = authWeight (Some a)
        in if weight > 0 then AList.update (au_ID a) weight weights else weights)"

definition authWeightVector :: "auth option list \<Rightarrow> (string, int) gomap" where
  "authWeightVector auths = weight_vector_loop auths []"

subsection \<open>The state of one accumulator\<close>

text \<open>A nil map reads like an empty one, and \<open>prepare\<close> allocates it before the first write.\<close>

record smooth_state =
  sw_current :: "(string, int) gomap"
  sw_weights :: "(string, int) gomap"

definition maxSmoothWeightedStateEntries :: nat where
  "maxSmoothWeightedStateEntries = 1024"

definition weightsConfigChanged :: "(string, int) gomap \<Rightarrow> (string, int) gomap \<Rightarrow> bool" where
  "weightsConfigChanged left right =
     (if left = [] then False
      else list_ex (\<lambda>(authID, weight).
             case map_of left authID of None \<Rightarrow> False | Some previous \<Rightarrow> previous \<noteq> weight) right)"

definition pruneStale :: "smooth_state \<Rightarrow> (string, int) gomap \<Rightarrow> smooth_state" where
  "pruneStale s weights =
     (if length (sw_current s) \<le> maxSmoothWeightedStateEntries
         \<and> length (sw_weights s) \<le> maxSmoothWeightedStateEntries
      then s
      else \<lparr>sw_current = filter (\<lambda>(authID, _). map_of weights authID \<noteq> None) (sw_current s),
            sw_weights = filter (\<lambda>(authID, _). map_of weights authID \<noteq> None) (sw_weights s)\<rparr>)"

definition prepare :: "smooth_state \<Rightarrow> (string, int) gomap \<Rightarrow> smooth_state" where
  "prepare s weights =
     (let current = (if weightsConfigChanged (sw_weights s) weights then [] else sw_current s);
          recorded = fold (\<lambda>(authID, weight). AList.update authID weight) weights (sw_weights s)
      in pruneStale \<lparr>sw_current = current, sw_weights = recorded\<rparr> weights)"

subsection \<open>One pick\<close>

fun smooth_loop :: "auth option list \<Rightarrow> (string, int) gomap \<Rightarrow> auth option \<Rightarrow> int \<Rightarrow> int
    \<Rightarrow> (string, int) gomap \<times> auth option \<times> int" where
  "smooth_loop [] current picked pickedCurrent totalWeight = (current, picked, totalWeight)"
| "smooth_loop (auth # auths) current picked pickedCurrent totalWeight =
     (case auth of
        None \<Rightarrow> smooth_loop auths current picked pickedCurrent totalWeight
      | Some a \<Rightarrow>
          let weight = authWeight auth
          in if weight \<le> 0 then smooth_loop auths current picked pickedCurrent totalWeight
             else let credit = saturatingAddInt64 (gomap_get 0 current (au_ID a)) weight;
                      current' = AList.update (au_ID a) credit current;
                      totalWeight' = saturatingAddInt64 totalWeight weight
                  in if picked = None \<or> credit > pickedCurrent
                     then smooth_loop auths current' (Some a) credit totalWeight'
                     else smooth_loop auths current' picked pickedCurrent totalWeight')"

definition pickSmoothWeightedAuth ::
    "auth option list \<Rightarrow> (string, int) gomap \<Rightarrow> (string, int) gomap \<times> auth option" where
  "pickSmoothWeightedAuth auths current =
     (case smooth_loop auths current None 0 0 of
        (current', None, totalWeight) \<Rightarrow> (current', None)
      | (current', Some picked, totalWeight) \<Rightarrow>
          (AList.update (au_ID picked)
             (saturatingAddInt64 (gomap_get 0 current' (au_ID picked)) (- totalWeight)) current',
           Some picked))"

subsection \<open>The selector\<close>

record weighted_selector =
  ws_states :: "(string, smooth_state) gomap"
  ws_maxKeys :: int

definition fresh_state :: smooth_state where
  "fresh_state = \<lparr>sw_current = [], sw_weights = []\<rparr>"

definition weighted_state_model :: "options \<Rightarrow> string \<Rightarrow> string" where
  "weighted_state_model opts model =
     (case metadata_at opts RequestedModelMetadataKey of
        Some (VString requested) \<Rightarrow> if trim_space requested \<noteq> [] then requested else model
      | _ \<Rightarrow> model)"

definition Weighted_Pick :: "weighted_selector \<Rightarrow> string \<Rightarrow> string \<Rightarrow> options \<Rightarrow> auth option list \<Rightarrow> gotime
    \<Rightarrow> weighted_selector \<times> (dispatch_error + auth)" where
  "Weighted_Pick s provider model opts auths now =
     (case getAvailableAuths (positiveWeightAuths (filterConcurrencyExcludedAuths auths model opts))
             provider model now of
        Inl err \<Rightarrow> (s, Inl err)
      | Inr available \<Rightarrow>
          let key = selector_key provider (weighted_state_model opts model);
              limit = (if ws_maxKeys s \<le> 0 then 4096 else ws_maxKeys s);
              states = (if map_of (ws_states s) key = None \<and> int (length (ws_states s)) \<ge> limit
                        then [] else ws_states s);
              state = prepare (gomap_get fresh_state states key)
                        (authWeightVector (map Some available));
              (current, picked) = pickSmoothWeightedAuth (map Some available) (sw_current state);
              s' = s\<lparr>ws_states := AList.update key (state\<lparr>sw_current := current\<rparr>) states\<rparr>
          in (s', case picked of
                None \<Rightarrow> Inl (PlainError ''auth_unavailable'' ''no auth available with positive weight'')
              | Some a \<Rightarrow> Inr a))"

subsection \<open>The loop runs the scheme\<close>

fun first_max_loop :: "('a \<Rightarrow> int) \<Rightarrow> 'a list \<Rightarrow> 'a \<Rightarrow> 'a" where
  "first_max_loop f [] best = best"
| "first_max_loop f (x # xs) best = first_max_loop f xs (if f x > f best then x else best)"

definition first_max :: "('a \<Rightarrow> int) \<Rightarrow> 'a list \<Rightarrow> 'a" where
  "first_max f xs = first_max_loop f (tl xs) (hd xs)"

lemma first_max_loop_mem: "first_max_loop f xs best \<in> insert best (set xs)"
proof (induction xs arbitrary: best)
  case (Cons x xs)
  from Cons [of "if f x > f best then x else best"] show ?case
    by (auto split: if_splits)
qed simp

lemma first_max_loop_max: "y \<in> insert best (set xs) \<Longrightarrow> f y \<le> f (first_max_loop f xs best)"
proof (induction xs arbitrary: best y)
  case (Cons x xs)
  let ?b = "if f x > f best then x else best"
  have "f ?b \<le> f (first_max_loop f xs ?b)"
    using Cons.IH by blast
  with Cons.prems Cons.IH [of y ?b] show ?case
    by (auto split: if_splits)
qed simp

lemma first_max_loop_cong:
  "\<forall>x\<in>insert best (set xs). f x = g x \<Longrightarrow> first_max_loop f xs best = first_max_loop g xs best"
  by (induction xs arbitrary: best) auto

interpretation first_max: weighted_choice first_max
proof
  fix c c' :: "'a \<Rightarrow> int" and xs :: "'a list" and x
  show "xs \<noteq> [] \<Longrightarrow> first_max c xs \<in> set xs"
    using first_max_loop_mem [of c "tl xs" "hd xs"] by (cases xs) (auto simp: first_max_def)
  show "x \<in> set xs \<Longrightarrow> c x \<le> c (first_max c xs)"
    using first_max_loop_max [of x "hd xs" "tl xs" c] by (cases xs) (auto simp: first_max_def)
  show "\<forall>x\<in>set xs. c x = c' x \<Longrightarrow> first_max c xs = first_max c' xs"
    using first_max_loop_cong [of "hd xs" "tl xs" c c']
    by (cases "xs = []") (auto simp: first_max_def list.set_sel)
qed

abbreviation weight_of :: "auth \<Rightarrow> int" where
  "weight_of a \<equiv> authWeight (Some a)"

definition credit_of :: "(string, int) gomap \<Rightarrow> auth \<Rightarrow> int" where
  "credit_of current a = gomap_get 0 current (au_ID a)"

definition earn :: "auth \<Rightarrow> (string, int) gomap \<Rightarrow> (string, int) gomap" where
  "earn a current = AList.update (au_ID a) (credit_of current a + weight_of a) current"

lemma saturating_exact: "is_i64 v \<Longrightarrow> is_i64 d \<Longrightarrow> is_i64 (v + d) \<Longrightarrow> saturatingAddInt64 v d = v + d"
  by (simp add: saturatingAddInt64_clamp) (simp add: is_i64_def)

lemma credit_of_update [simp]:
  "credit_of (AList.update k v m) a = (if au_ID a = k then v else credit_of m a)"
  by (simp add: credit_of_def)

lemma credit_of_earn [simp]:
  "credit_of (earn x m) a = (if au_ID a = au_ID x then credit_of m x + weight_of x else credit_of m a)"
  by (simp add: earn_def)

lemma credit_of_earns_other [simp]:
  "au_ID a \<notin> au_ID ` set xs \<Longrightarrow> credit_of (fold earn xs m) a = credit_of m a"
  by (induction xs arbitrary: m) auto

lemma credit_of_earns:
  assumes "distinct (map au_ID xs)" "a \<in> set xs"
  shows "credit_of (fold earn xs m) a = credit_of m a + weight_of a"
  using assms
proof (induction xs arbitrary: m)
  case (Cons x xs)
  show ?case
  proof (cases "a = x")
    case False
    with Cons.prems have "a \<in> set xs" "au_ID a \<noteq> au_ID x"
      by (auto simp: image_iff)
    with Cons show ?thesis
      by simp
  qed (use Cons.prems in simp)
qed simp

lemma smooth_loop_refines:
  assumes "distinct (map au_ID xs)"
    "\<forall>a\<in>set xs. 0 < weight_of a \<and> f a = credit_of cur a + weight_of a \<and> is_i64 (credit_of cur a)
       \<and> is_i64 (f a)"
    "0 \<le> tw" "tw + total_weight weight_of xs \<le> max_i64" "\<forall>p. picked = Some p \<longrightarrow> pc = f p"
  shows "smooth_loop (map Some xs) cur picked pc tw =
    (fold earn xs cur,
     (case picked of Some p \<Rightarrow> Some (first_max_loop f xs p)
        | None \<Rightarrow> if xs = [] then None else Some (first_max f xs)),
     tw + total_weight weight_of xs)"
  using assms
proof (induction xs arbitrary: cur picked pc tw)
  case Nil
  then show ?case
    by (simp add: total_weight_def split: option.splits)
next
  case (Cons x xs)
  let ?w = "weight_of x"
  have rest: "0 \<le> total_weight weight_of xs"
    unfolding total_weight_def using Cons.prems(2)
    by (intro sum_list_nonneg) (auto intro: less_imp_le)
  have tw: "tw + ?w + total_weight weight_of xs \<le> max_i64"
    using Cons.prems(4) by (simp add: total_weight_def)
  have w: "0 < ?w" "is_i64 ?w" "is_i64 tw" "is_i64 (tw + ?w)"
    using Cons.prems(2,3) tw rest by (auto simp: is_i64_def min_i64_def)
  have f: "f x = credit_of cur x + ?w" "is_i64 (credit_of cur x)" "is_i64 (f x)"
    using Cons.prems(2) by auto
  have credit: "saturatingAddInt64 (gomap_get 0 cur (au_ID x)) ?w = f x"
    using f w saturating_exact [of "credit_of cur x" ?w] by (simp add: credit_of_def)
  have total: "saturatingAddInt64 tw ?w = tw + ?w"
    using w saturating_exact by blast
  have earn: "earn x cur = AList.update (au_ID x) (f x) cur"
    by (simp add: earn_def f(1))
  have later: "\<forall>a\<in>set xs. 0 < weight_of a \<and> f a = credit_of (earn x cur) a + weight_of a
      \<and> is_i64 (credit_of (earn x cur) a) \<and> is_i64 (f a)"
  proof
    fix a
    assume "a \<in> set xs"
    moreover from this have "au_ID a \<noteq> au_ID x"
      using Cons.prems(1) by (auto simp: image_iff)
    moreover have "0 < weight_of a \<and> f a = credit_of cur a + weight_of a \<and> is_i64 (credit_of cur a)
        \<and> is_i64 (f a)"
      by (rule bspec [OF Cons.prems(2)]) (simp add: \<open>a \<in> set xs\<close>)
    ultimately show "0 < weight_of a \<and> f a = credit_of (earn x cur) a + weight_of a
        \<and> is_i64 (credit_of (earn x cur) a) \<and> is_i64 (f a)"
      by auto
  qed
  have step: "smooth_loop (map Some (x # xs)) cur picked pc tw =
      smooth_loop (map Some xs) (earn x cur) (if picked = None \<or> f x > pc then Some x else picked)
        (if picked = None \<or> f x > pc then f x else pc) (tw + ?w)"
    using w(1) by (auto simp: credit total earn Let_def)
  have "smooth_loop (map Some xs) (earn x cur) (if picked = None \<or> f x > pc then Some x else picked)
        (if picked = None \<or> f x > pc then f x else pc) (tw + ?w) =
    (fold earn xs (earn x cur),
     (case (if picked = None \<or> f x > pc then Some x else picked) of
        Some p \<Rightarrow> Some (first_max_loop f xs p)
      | None \<Rightarrow> if xs = [] then None else Some (first_max f xs)),
     tw + ?w + total_weight weight_of xs)"
    using Cons.prems(1,3,5) later tw w(1) by (intro Cons.IH) auto
  then show ?case
    unfolding step using Cons.prems(5)
    by (cases picked) (auto simp: first_max_def total_weight_def)
qed

text \<open>One pick is one round of the scheme, when no addition saturates.\<close>

lemma pickSmooth_refines:
  assumes "distinct (map au_ID xs)" "xs \<noteq> []"
    "\<forall>a\<in>set xs. 0 < weight_of a \<and> is_i64 (credit_of cur a) \<and> is_i64 (credit_of cur a + weight_of a)
       \<and> is_i64 (credit_of cur a + weight_of a - total_weight weight_of xs)"
    "total_weight weight_of xs \<le> max_i64"
    "pickSmoothWeightedAuth (map Some xs) cur = (cur', picked)"
  shows "picked = Some (snd (credit_round first_max weight_of xs (credit_of cur)))"
    "\<forall>a\<in>set xs. credit_of cur' a = fst (credit_round first_max weight_of xs (credit_of cur)) a"
proof -
  let ?f = "\<lambda>a. credit_of cur a + weight_of a" and ?W = "total_weight weight_of xs"
  let ?p = "first_max ?f xs"
  have p: "?p \<in> set xs"
    using first_max.choose_mem assms(2) by blast
  have W: "0 < ?W" "is_i64 (- ?W)"
    using total_weight_pos [of xs weight_of] assms(2-4) by (auto simp: is_i64_def min_i64_def max_i64_def)
  have "smooth_loop (map Some xs) cur None 0 0 = (fold earn xs cur, Some ?p, ?W)"
    using smooth_loop_refines [of xs ?f cur 0 None 0] assms by simp
  moreover have "saturatingAddInt64 (credit_of (fold earn xs cur) ?p) (- ?W) = ?f ?p - ?W"
    using saturating_exact [of "?f ?p" "- ?W"] credit_of_earns [OF assms(1) p] assms(3) p W by simp
  ultimately have pick: "pickSmoothWeightedAuth (map Some xs) cur =
      (AList.update (au_ID ?p) (?f ?p - ?W) (fold earn xs cur), Some ?p)"
    by (simp add: pickSmoothWeightedAuth_def credit_of_def)
  then show "picked = Some (snd (credit_round first_max weight_of xs (credit_of cur)))"
    using assms(5) by (simp add: credit_round_def Let_def)
  have "a = ?p" if "a \<in> set xs" "au_ID a = au_ID ?p" for a
    using assms(1) p that by (simp add: distinct_map inj_on_def)
  then show "\<forall>a\<in>set xs. credit_of cur' a
      = fst (credit_round first_max weight_of xs (credit_of cur)) a"
    using pick assms(5) credit_of_earns [OF assms(1)] by (auto simp: credit_round_def Let_def)
qed

text \<open>A pool the accumulators cannot saturate on: at most a million candidates of legal weight.\<close>

definition weighted_pool :: "auth list \<Rightarrow> bool" where
  "weighted_pool xs \<longleftrightarrow> xs \<noteq> [] \<and> length xs \<le> 1000000 \<and> distinct (map au_ID xs)
     \<and> list_all (\<lambda>a. 0 < weight_of a \<and> weight_of a \<le> weight_max) xs"

lemma balanced_upper:
  assumes "balanced w xs c" "distinct xs" "x \<in> set xs" "\<forall>x\<in>set xs. 0 < w x"
  shows "c x < int (length xs) * total_weight w xs + 1"
proof -
  let ?W = "total_weight w xs"
  have "0 \<le> ?W"
    using total_weight_pos [OF assms(4)] assms(3) by (cases xs) auto
  then have "sum_list (map ((\<lambda>y. - c y)(x := 0)) xs) \<le> int (length xs) * ?W"
    using assms(1) by (intro sum_list_le_max) (auto simp: balanced_def)
  moreover have "sum_list (map (\<lambda>y. - c y) xs) = - sum_list (map c xs)"
    by (induction xs) auto
  ultimately show ?thesis
    using sum_list_upd [OF assms(2,3), of "\<lambda>y. - c y" 0] assms(1) by (simp add: balanced_def)
qed

lemma weighted_poolD:
  assumes "weighted_pool xs"
  shows "xs \<noteq> []" "distinct (map au_ID xs)" "distinct xs" "\<forall>a\<in>set xs. 0 < weight_of a"
    "total_weight weight_of xs \<le> 1000000000000"
    "int (length xs) * total_weight weight_of xs \<le> 1000000000000000000"
proof -
  show basic: "xs \<noteq> []" "distinct (map au_ID xs)" "\<forall>a\<in>set xs. 0 < weight_of a"
    using assms by (auto simp: weighted_pool_def list_all_iff)
  then show "distinct xs"
    by (simp add: distinct_map)
  have n: "int (length xs) \<le> 1000000"
    using assms by (simp add: weighted_pool_def)
  have "total_weight weight_of xs \<le> int (length xs) * 1000000"
    unfolding total_weight_def using assms
    by (intro sum_list_le_max) (auto simp: weighted_pool_def list_all_iff weight_max_def)
  with n show W: "total_weight weight_of xs \<le> 1000000000000"
    by linarith
  have "0 \<le> total_weight weight_of xs"
    using total_weight_pos [OF basic(3) basic(1)] by simp
  then have "int (length xs) * total_weight weight_of xs \<le> 1000000 * 1000000000000"
    using n W by (intro mult_mono) auto
  then show "int (length xs) * total_weight weight_of xs \<le> 1000000000000000000"
    by simp
qed

lemma pool_pick:
  assumes pool: "weighted_pool xs" and bal: "balanced weight_of xs (credit_of cur)"
    and pick: "pickSmoothWeightedAuth (map Some xs) cur = (cur', picked)"
  shows "picked = Some (snd (credit_round first_max weight_of xs (credit_of cur)))"
    "\<forall>a\<in>set xs. credit_of cur' a = fst (credit_round first_max weight_of xs (credit_of cur)) a"
    "balanced weight_of xs (credit_of cur')"
proof -
  note poolD = weighted_poolD [OF pool]
  let ?W = "total_weight weight_of xs"
  have range: "0 < weight_of a \<and> is_i64 (credit_of cur a) \<and> is_i64 (credit_of cur a + weight_of a)
       \<and> is_i64 (credit_of cur a + weight_of a - ?W)" if a: "a \<in> set xs" for a
  proof -
    have "- ?W < credit_of cur a" "credit_of cur a \<le> 1000000000000000000"
      using bal balanced_upper [OF bal poolD(3) a poolD(4)] a poolD(6) by (auto simp: balanced_def)
    moreover have "0 < weight_of a" "weight_of a \<le> 1000000"
      using pool a by (auto simp: weighted_pool_def list_all_iff weight_max_def)
    ultimately show ?thesis
      using poolD(5) by (simp add: i64_simps)
  qed
  have "?W \<le> max_i64"
    using poolD(5) by (simp add: max_i64_def)
  with pickSmooth_refines [OF poolD(2,1) _ _ pick] range
  show picked: "picked = Some (snd (credit_round first_max weight_of xs (credit_of cur)))"
    and credits: "\<forall>a\<in>set xs. credit_of cur' a
      = fst (credit_round first_max weight_of xs (credit_of cur)) a"
    by blast+
  have "map (credit_of cur') xs = map (fst (credit_round first_max weight_of xs (credit_of cur))) xs"
    using credits by simp
  with first_max.round_balanced [OF bal poolD(3,1,4)] credits
  show "balanced weight_of xs (credit_of cur')"
    unfolding balanced_def by metis
qed

subsection \<open>The state between picks\<close>

lemma weight_vector_get:
  assumes "distinct (map au_ID xs)" "\<forall>a\<in>set xs. 0 < weight_of a"
  shows "map_of (weight_vector_loop (map Some xs) m) k =
    (case find (\<lambda>a. au_ID a = k) xs of Some a \<Rightarrow> Some (weight_of a) | None \<Rightarrow> map_of m k)"
  using assms
proof (induction xs arbitrary: m)
  case (Cons x xs)
  show ?case
  proof (cases "au_ID x = k")
    case True
    with Cons.prems have "find (\<lambda>a. au_ID a = k) xs = None"
      by (auto simp: find_None_iff image_iff)
    with True Cons show ?thesis
      by simp
  next
    case False
    with Cons have "map_of (weight_vector_loop (map Some xs) (AList.update (au_ID x) (weight_of x) m)) k
        = (case find (\<lambda>a. au_ID a = k) xs of Some a \<Rightarrow> Some (weight_of a) | None \<Rightarrow> map_of m k)"
      by (simp split: option.splits)
    with False Cons.prems show ?thesis
      by simp
  qed
qed simp

lemma weight_vector_of_pool:
  assumes "distinct (map au_ID xs)" "\<forall>a\<in>set xs. 0 < weight_of a" "a \<in> set xs"
  shows "map_of (authWeightVector (map Some xs)) (au_ID a) = Some (weight_of a)"
proof -
  have "find (\<lambda>b. au_ID b = au_ID a) xs = Some a"
    using assms(1,3)
  proof (induction xs)
    case (Cons x xs)
    then show ?case
      by (auto simp: image_iff)
  qed simp
  then show ?thesis
    using weight_vector_get [OF assms(1,2), of "[]" "au_ID a"] by (simp add: authWeightVector_def)
qed

lemma weight_vector_entry:
  assumes "distinct (map au_ID xs)" "\<forall>a\<in>set xs. 0 < weight_of a"
    "map_of (authWeightVector (map Some xs)) k = Some w"
  shows "\<exists>a\<in>set xs. au_ID a = k \<and> weight_of a = w"
  using weight_vector_get [OF assms(1,2), of "[]" k] assms(3)
  by (auto simp: authWeightVector_def find_Some_iff split: option.splits)

lemma weight_vector_wf: "gomap_wf m \<Longrightarrow> gomap_wf (weight_vector_loop auths m)"
proof (induction auths arbitrary: m)
  case (Cons auth auths)
  then show ?case
    by (cases auth) (auto simp: Let_def)
qed simp

lemma map_of_filter_key:
  "map_of (filter (\<lambda>(k, _). P k) m) k = (if P k then map_of m k else None)"
  by (induction m) auto

lemma map_of_record_weights:
  "gomap_wf ws \<Longrightarrow> map_of (fold (\<lambda>(k, v). AList.update k v) ws m) k =
    (case map_of ws k of Some v \<Rightarrow> Some v | None \<Rightarrow> map_of m k)"
proof (induction ws arbitrary: m)
  case (Cons kv ws)
  obtain k' v where kv: "kv = (k', v)"
    by (cases kv)
  with Cons.prems have "map_of ws k' = None"
    by (simp add: map_of_eq_None_iff)
  with Cons kv show ?case
    by (auto split: option.splits)
qed simp

text \<open>The recorded weights do not contradict the candidates': there is no configuration change.\<close>

definition weights_agree :: "smooth_state \<Rightarrow> auth list \<Rightarrow> bool" where
  "weights_agree s xs \<longleftrightarrow>
     list_all (\<lambda>a. map_of (sw_weights s) (au_ID a) = None
       \<or> map_of (sw_weights s) (au_ID a) = Some (weight_of a)) xs"

lemma prepare_keeps:
  assumes "distinct (map au_ID xs)" "\<forall>a\<in>set xs. 0 < weight_of a" "weights_agree s xs"
  defines "v \<equiv> authWeightVector (map Some xs)"
  shows "weights_agree (prepare s v) xs"
    "\<forall>a\<in>set xs. credit_of (sw_current (prepare s v)) a = credit_of (sw_current s) a"
proof -
  have wf: "gomap_wf v"
    by (simp add: v_def authWeightVector_def weight_vector_wf)
  have same: "\<not> weightsConfigChanged (sw_weights s) v"
  proof
    assume "weightsConfigChanged (sw_weights s) v"
    then obtain k w p where "(k, w) \<in> set v" "map_of (sw_weights s) k = Some p" "p \<noteq> w"
      by (auto simp: weightsConfigChanged_def list_ex_iff split: if_splits option.splits)
    moreover from this wf have "map_of v k = Some w"
      by simp
    ultimately show False
      using weight_vector_entry [OF assms(1,2), of k w] assms(3)
      by (auto simp: v_def weights_agree_def list_all_iff)
  qed
  have vget: "map_of v (au_ID a) = Some (weight_of a)" if "a \<in> set xs" for a
    using weight_vector_of_pool assms(1,2) that v_def by blast
  let ?s = "\<lparr>sw_current = sw_current s,
    sw_weights = fold (\<lambda>(authID, weight). AList.update authID weight) v (sw_weights s)\<rparr>"
  have prep: "prepare s v = pruneStale ?s v"
    using same by (simp add: prepare_def)
  have "map_of (sw_weights (prepare s v)) (au_ID a) = Some (weight_of a)" if "a \<in> set xs" for a
    using vget [OF that]
    by (simp add: prep pruneStale_def map_of_filter_key map_of_record_weights [OF wf])
  then show "weights_agree (prepare s v) xs"
    by (simp add: weights_agree_def list_all_iff)
  show "\<forall>a\<in>set xs. credit_of (sw_current (prepare s v)) a = credit_of (sw_current s) a"
    using vget by (simp add: prep pruneStale_def credit_of_def gomap_get_def map_of_filter_key)
qed

abbreviation weighted_available ::
    "string \<Rightarrow> string \<Rightarrow> options \<Rightarrow> auth option list \<Rightarrow> gotime \<Rightarrow> dispatch_error + auth list" where
  "weighted_available provider model opts auths now \<equiv>
     getAvailableAuths (positiveWeightAuths (filterConcurrencyExcludedAuths auths model opts))
       provider model now"

abbreviation weighted_state :: "weighted_selector \<Rightarrow> string \<Rightarrow> smooth_state" where
  "weighted_state s key \<equiv> gomap_get fresh_state (ws_states s) key"

lemma weighted_step:
  assumes "weighted_available provider model opts auths now = Inr xs" "weighted_pool xs"
    and key: "key = selector_key provider (weighted_state_model opts model)"
    and "weights_agree (weighted_state s key) xs"
    and bal: "balanced weight_of xs (credit_of (sw_current (weighted_state s key)))"
  defines "rnd \<equiv> credit_round first_max weight_of xs (credit_of (sw_current (weighted_state s key)))"
  shows "\<exists>s'. Weighted_Pick s provider model opts auths now = (s', Inr (snd rnd))
    \<and> weights_agree (weighted_state s' key) xs
    \<and> (\<forall>a\<in>set xs. credit_of (sw_current (weighted_state s' key)) a = fst rnd a)
    \<and> balanced weight_of xs (credit_of (sw_current (weighted_state s' key)))"
proof -
  note poolD = weighted_poolD [OF assms(2)]
  let ?st = "weighted_state s key"
  let ?p = "prepare ?st (authWeightVector (map Some xs))"
  let ?limit = "if ws_maxKeys s \<le> 0 then 4096 else ws_maxKeys s"
  let ?states = "if map_of (ws_states s) key = None \<and> int (length (ws_states s)) \<ge> ?limit
    then [] else ws_states s"
  have states: "gomap_get fresh_state ?states key = ?st"
    by (simp add: gomap_get_def)
  note keep = prepare_keeps [OF poolD(2,4) assms(4)]
  have "map (credit_of (sw_current ?p)) xs = map (credit_of (sw_current ?st)) xs"
    using keep(2) by simp
  with bal keep(2) have bal': "balanced weight_of xs (credit_of (sw_current ?p))"
    unfolding balanced_def by metis
  obtain cur picked where pick: "pickSmoothWeightedAuth (map Some xs) (sw_current ?p) = (cur, picked)"
    by (cases "pickSmoothWeightedAuth (map Some xs) (sw_current ?p)")
  note result = pool_pick [OF assms(2) bal' pick]
  have cong: "snd (credit_round first_max weight_of xs (credit_of (sw_current ?p))) = snd rnd"
    "\<forall>a\<in>set xs. fst (credit_round first_max weight_of xs (credit_of (sw_current ?p))) a = fst rnd a"
    using first_max.round_cong [OF keep(2)] by (simp_all add: rnd_def)
  let ?s' = "s\<lparr>ws_states := AList.update key (?p\<lparr>sw_current := cur\<rparr>) ?states\<rparr>"
  have "Weighted_Pick s provider model opts auths now = (?s', Inr (snd rnd))"
    using assms(1) pick result(1) cong(1)
    by (simp add: Weighted_Pick_def key [symmetric] states Let_def del: if_split)
  moreover have "weighted_state ?s' key = ?p\<lparr>sw_current := cur\<rparr>"
    by simp
  ultimately show ?thesis
    using keep(1) result cong(2) by (simp add: weights_agree_def)
qed

text \<open>A run of picks of the same request at successive instants.\<close>

fun weighted_run :: "weighted_selector \<Rightarrow> string \<Rightarrow> string \<Rightarrow> options \<Rightarrow> auth option list \<Rightarrow> gotime list
    \<Rightarrow> weighted_selector \<times> (dispatch_error + auth) list" where
  "weighted_run s provider model opts auths [] = (s, [])"
| "weighted_run s provider model opts auths (now # instants) =
     (let (s', r) = Weighted_Pick s provider model opts auths now;
          (s'', rs) = weighted_run s' provider model opts auths instants
      in (s'', r # rs))"

lemma weighted_run_refines:
  assumes "\<forall>now\<in>set instants. weighted_available provider model opts auths now = Inr xs"
    "weighted_pool xs" and key: "key = selector_key provider (weighted_state_model opts model)"
    and "weights_agree (weighted_state s key) xs"
    "balanced weight_of xs (credit_of (sw_current (weighted_state s key)))"
  shows "snd (weighted_run s provider model opts auths instants) =
    map Inr (snd (credit_run first_max weight_of xs (length instants)
      (credit_of (sw_current (weighted_state s key)))))"
  using assms(1,4,5)
proof (induction instants arbitrary: s)
  case (Cons now instants)
  let ?c = "credit_of (sw_current (weighted_state s key))"
  let ?r = "credit_round first_max weight_of xs ?c"
  obtain s' where s': "Weighted_Pick s provider model opts auths now = (s', Inr (snd ?r))"
      "weights_agree (weighted_state s' key) xs"
      "\<forall>a\<in>set xs. credit_of (sw_current (weighted_state s' key)) a = fst ?r a"
      "balanced weight_of xs (credit_of (sw_current (weighted_state s' key)))"
    using weighted_step [OF _ assms(2) key Cons.prems(2,3), of auths now] Cons.prems(1) by auto
  have "snd (weighted_run s' provider model opts auths instants) =
      map Inr (snd (credit_run first_max weight_of xs (length instants) (fst ?r)))"
    using Cons.IH [OF _ s'(2,4)] Cons.prems(1) first_max.run_cong [OF s'(3)] by simp
  with s'(1) show ?case
    by (simp add: split_beta)
qed simp

lemma fresh_weighted_state:
  assumes "map_of (ws_states s) key = None"
  shows "weights_agree (weighted_state s key) xs"
    "credit_of (sw_current (weighted_state s key)) = (\<lambda>_. 0)"
  using assms
  by (auto simp: gomap_get_def fresh_state_def weights_agree_def list_all_iff credit_of_def)

lemma balanced_zero: "xs \<noteq> [] \<Longrightarrow> \<forall>a\<in>set xs. 0 < w a \<Longrightarrow> balanced w xs (\<lambda>_. 0)"
  using total_weight_pos [of xs w] by (simp add: balanced_def map_replicate_const sum_list_replicate)

subsection \<open>Weighted selection keeps the contract\<close>

lemma positiveWeightAuths_iff:
  "auth \<in> set (positiveWeightAuths auths) \<longleftrightarrow> auth \<in> set auths \<and> 0 < authWeight auth"
  by (auto simp: positiveWeightAuths_def)

lemma smooth_loop_picked:
  "smooth_loop (map Some xs) cur picked pc tw = (cur', p, W) \<Longrightarrow> p \<in> {picked} \<union> Some ` set xs"
proof (induction xs arbitrary: cur picked pc tw)
  case (Cons x xs)
  then show ?case
    by (fastforce simp: Let_def split: if_splits)
qed simp

interpretation weighted: dispatch_selector Weighted_Pick
proof
  fix s s' provider model opts auths now a
  assume "Weighted_Pick s provider model opts auths now = (s', Inr a)"
  then obtain xs cur where xs: "weighted_available provider model opts auths now = Inr xs"
    and a: "\<exists>cur'. pickSmoothWeightedAuth (map Some xs) cur = (cur', Some a)"
    by (auto simp: Weighted_Pick_def Let_def split: sum.splits prod.splits option.splits)
  then have "a \<in> set xs"
    using smooth_loop_picked [of xs cur None 0 0]
    by (fastforce simp: pickSmoothWeightedAuth_def split: prod.splits option.splits)
  with xs best_auths_subset
  have "a \<in> set (usable_auths (positiveWeightAuths (filterConcurrencyExcludedAuths auths model opts))
      model now)"
    by (auto simp: getAvailableAuths_eq)
  then show "a \<in> set (eligible model opts auths now)"
    by (simp add: set_usable_auths positiveWeightAuths_iff eligible_def)
qed

subsection \<open>Properties\<close>

text \<open>
  C3. Weighted selection is exactly proportional: while the pool stays \<open>xs\<close>, from a fresh accumulator,
  a run of as many picks as the weights add up to picks every credential exactly as often as it
  weighs (for pools of up to a million credentials, on which no addition saturates).
\<close>

theorem weighted_exact_share:
  assumes "\<forall>now\<in>set instants. weighted_available provider model opts auths now = Inr xs"
    "weighted_pool xs"
    "map_of (ws_states s) (selector_key provider (weighted_state_model opts model)) = None"
    "int (length instants) = total_weight weight_of xs" "a \<in> set xs"
  shows "int (count_list (snd (weighted_run s provider model opts auths instants)) (Inr a))
    = weight_of a"
proof -
  let ?key = "selector_key provider (weighted_state_model opts model)"
  let ?ps = "snd (credit_run first_max weight_of xs (length instants) (\<lambda>_. 0))"
  note poolD = weighted_poolD [OF assms(2)]
  have "snd (weighted_run s provider model opts auths instants) = map Inr ?ps"
    using weighted_run_refines [OF assms(1,2) refl, of s] fresh_weighted_state [OF assms(3)]
      balanced_zero [OF poolD(1,4)] by simp
  moreover have "length instants = nat (total_weight weight_of xs)"
    using assms(4) by simp
  ultimately show ?thesis
    using first_max.run_cycle [OF poolD(3,4) assms(5)] by (simp add: count_list_map_Inr)
qed

text \<open>Two credentials of weights 2 and 1, for examples.\<close>

definition heavy :: auth where
  "heavy = (plain_auth ''h'')\<lparr>au_Attributes := [(''weight'', ''2'')]\<rparr>"

definition light :: auth where
  "light = plain_auth ''l''"

lemma example_pool:
  "\<forall>now\<in>set [1, 2, 3]. weighted_available ''codex'' ''m'' no_options [Some light, Some heavy] now
    = Inr [heavy, light]"
proof -
  have "weighted_available ''codex'' ''m'' no_options [Some light, Some heavy] now
      = Inr [heavy, light]" if "now = 1 \<or> now = 2 \<or> now = 3" for now
    using that by (elim disjE; hypsubst; code_simp)
  then show ?thesis
    by simp
qed

lemma example_weights: "weight_of heavy = 2" "weight_of light = 1"
  by code_simp+

lemma example_weighted_pool: "weighted_pool [heavy, light]"
  by (simp add: weighted_pool_def example_weights weight_max_def) (simp add: heavy_def light_def plain_auth_def)

theorem weighted_exact_share_witness:
  "int (count_list (snd (weighted_run \<lparr>ws_states = [], ws_maxKeys = 0\<rparr> ''codex'' ''m'' no_options
      [Some light, Some heavy] [1, 2, 3])) (Inr heavy)) = weight_of heavy"
  by (rule weighted_exact_share [OF example_pool example_weighted_pool])
    (simp_all add: total_weight_def example_weights)

text \<open>
  Weighted selection is smooth: at every point of such a run of \<open>n\<close> picks, no credential has been
  picked a whole pick more often than its share \<open>n\<close> times its weight over the total weight.
\<close>

theorem weighted_never_ahead:
  assumes "\<forall>now\<in>set instants. weighted_available provider model opts auths now = Inr xs"
    "weighted_pool xs"
    "map_of (ws_states s) (selector_key provider (weighted_state_model opts model)) = None"
    "a \<in> set xs"
  shows "total_weight weight_of xs *
      (int (count_list (snd (weighted_run s provider model opts auths instants)) (Inr a)) - 1)
    < int (length instants) * weight_of a"
proof -
  let ?key = "selector_key provider (weighted_state_model opts model)"
  note poolD = weighted_poolD [OF assms(2)]
  have "snd (weighted_run s provider model opts auths instants)
      = map Inr (snd (credit_run first_max weight_of xs (length instants) (\<lambda>_. 0)))"
    using weighted_run_refines [OF assms(1,2) refl, of s] fresh_weighted_state [OF assms(3)]
      balanced_zero [OF poolD(1,4)] by simp
  then show ?thesis
    using first_max.run_share [OF poolD(3,4) assms(4)] by (simp add: count_list_map_Inr)
qed

theorem weighted_never_ahead_witness:
  "total_weight weight_of [heavy, light] *
      (int (count_list (snd (weighted_run \<lparr>ws_states = [], ws_maxKeys = 0\<rparr> ''codex'' ''m'' no_options
        [Some light, Some heavy] [1, 2, 3])) (Inr light)) - 1)
    < int (length [1 :: int, 2, 3]) * weight_of light"
  by (rule weighted_never_ahead [OF example_pool example_weighted_pool]) simp_all

text \<open>
  The 64-bit additions of the weighted accumulator saturate: on 64-bit operands the routine is the
  mathematical sum clamped to the 64-bit range, its own overflow checks never wrapping.
\<close>

theorem saturatingAddInt64_spec:
  assumes "is_i64 value" "is_i64 delta"
  shows "saturatingAddInt64 value delta = max min_i64 (min max_i64 (value + delta))"
  using assms by (rule saturatingAddInt64_clamp)

theorem saturatingAddInt64_spec_witness:
  "saturatingAddInt64 9223372036854775806 5 = max min_i64 (min max_i64 (9223372036854775806 + 5))"
  by (rule saturatingAddInt64_spec) (simp_all add: i64_simps)

end
