(* ===== verification/Session_Affinity.thy ===== *)
theory Session_Affinity
  imports Session_IDs Smooth_Weighted
begin

section \<open>Session affinity\<close>

text \<open>
  \<^verbatim>\<open>session_cache.go\<close>, \<^verbatim>\<open>session_affinity_store.go\<close> and the \<open>SessionAffinitySelector\<close> of
  \<^verbatim>\<open>selector.go\<close>.  The store is an interface: the locale \<open>session_store\<close> states what its two operations
  promise, and the local cache is shown to keep the promise.  The selector's loop reads a binding,
  selects, and commits with a compare-and-swap; an \<open>attempt\<close> is one turn of that loop with everything
  it meets from outside: the clock, the context, the fresh UUID, and what other requests do to the
  store and to the fallback selector in between.
\<close>

subsection \<open>Bindings and the local cache\<close>

record session_binding =
  sb_AuthID :: string
  sb_Revision :: string
  sb_ExpiresAt :: gotime

record session_commit =
  sc_Key :: string
  sc_ExpectedRevision :: string
  sc_ExpiredAt :: gotime
  sc_AuthID :: string
  sc_TTL :: duration

record session_cache =
  sk_entries :: "(string, session_binding) gomap"
  sk_ttl :: duration

definition no_binding :: session_binding where
  "no_binding = \<lparr>sb_AuthID = [], sb_Revision = [], sb_ExpiresAt = 0\<rparr>"

definition defaultMaxSessionCacheEntries :: nat where
  "defaultMaxSessionCacheEntries = 65536"

definition NewSessionCache :: "duration \<Rightarrow> session_cache" where
  "NewSessionCache ttl =
     \<lparr>sk_entries = [], sk_ttl = (if ttl < second then 30 * minute else ttl)\<rparr>"

definition cache_Get :: "session_cache \<Rightarrow> string \<Rightarrow> gotime \<Rightarrow> gotime \<Rightarrow> session_cache \<times> string \<times> bool" where
  "cache_Get c sessionID now now2 =
     (if sessionID = [] then (c, [], False)
      else case map_of (sk_entries c) sessionID of
        None \<Rightarrow> (c, [], False)
      | Some entry \<Rightarrow>
          if now > sb_ExpiresAt entry
          then (if now2 > sb_ExpiresAt entry
                then c\<lparr>sk_entries := AList.delete sessionID (sk_entries c)\<rparr> else c, [], False)
          else (c, sb_AuthID entry, True))"

definition cache_GetAndRefresh :: "session_cache \<Rightarrow> string \<Rightarrow> gotime \<Rightarrow> session_cache \<times> string \<times> bool" where
  "cache_GetAndRefresh c sessionID now =
     (if sessionID = [] then (c, [], False)
      else case map_of (sk_entries c) sessionID of
        None \<Rightarrow> (c, [], False)
      | Some entry \<Rightarrow>
          if now > sb_ExpiresAt entry
          then (c\<lparr>sk_entries := AList.delete sessionID (sk_entries c)\<rparr>, [], False)
          else (c\<lparr>sk_entries := AList.update sessionID (entry\<lparr>sb_ExpiresAt := now + sk_ttl c\<rparr>)
                   (sk_entries c)\<rparr>, sb_AuthID entry, True))"

text \<open>The eviction loop: it stops once an eighth of the capacity has been pruned.\<close>

fun prune_loop :: "(string, session_binding) gomap \<Rightarrow> nat \<Rightarrow> (string, session_binding) gomap" where
  "prune_loop [] pruned = []"
| "prune_loop (e # entries) pruned =
     (let pruned' = pruned + 1
      in if pruned' \<ge> defaultMaxSessionCacheEntries div 8 then entries
         else prune_loop entries pruned')"

definition pruneLocked :: "(string, session_binding) gomap \<Rightarrow> gotime \<Rightarrow> (string, session_binding) gomap" where
  "pruneLocked entries now =
     (if length entries \<ge> defaultMaxSessionCacheEntries
      then let live = filter (\<lambda>(sid, entry). \<not> now > sb_ExpiresAt entry) entries;
               pruned = length entries - length live
           in if length live \<ge> defaultMaxSessionCacheEntries then prune_loop live pruned else live
      else entries)"

definition cache_Set :: "session_cache \<Rightarrow> string \<Rightarrow> string \<Rightarrow> gotime \<Rightarrow> gotime \<Rightarrow> string \<Rightarrow> session_cache" where
  "cache_Set c sessionID authID now prune_now uuid =
     (if sessionID = [] \<or> authID = [] then c
      else c\<lparr>sk_entries := AList.update sessionID
               \<lparr>sb_AuthID = authID, sb_Revision = uuid, sb_ExpiresAt = now + sk_ttl c\<rparr>
               (pruneLocked (sk_entries c) prune_now)\<rparr>)"

definition LoadSessionBinding :: "session_cache \<Rightarrow> bool \<Rightarrow> string \<Rightarrow> unit + session_binding" where
  "LoadSessionBinding c cancelled key =
     (if cancelled then Inl () else Inr (gomap_get no_binding (sk_entries c) key))"

definition CompareAndSwapSessionBinding ::
    "session_cache \<Rightarrow> bool \<Rightarrow> session_commit \<Rightarrow> gotime \<Rightarrow> gotime \<Rightarrow> string
     \<Rightarrow> session_cache \<times> (unit + bool)" where
  "CompareAndSwapSessionBinding c cancelled commit now prune_now uuid =
     (if cancelled then (c, Inl ())
      else let current = gomap_get no_binding (sk_entries c) (sc_Key commit)
           in if sb_Revision current \<noteq> sc_ExpectedRevision commit then (c, Inr False)
              else if sc_ExpiredAt commit \<noteq> 0 \<and> sb_ExpiresAt current \<noteq> sc_ExpiredAt commit
              then (c, Inr False)
              else let revision = (if sb_Revision current = [] \<or> sb_AuthID current \<noteq> sc_AuthID commit
                                      \<or> \<not> now < sb_ExpiresAt current
                                   then uuid else sb_Revision current)
                   in (c\<lparr>sk_entries := AList.update (sc_Key commit)
                          \<lparr>sb_AuthID = sc_AuthID commit, sb_Revision = revision,
                           sb_ExpiresAt = now + sc_TTL commit\<rparr>
                          (pruneLocked (sk_entries c) prune_now)\<rparr>, Inr True))"

definition cache_Invalidate :: "session_cache \<Rightarrow> string \<Rightarrow> session_cache" where
  "cache_Invalidate c sessionID =
     (if sessionID = [] then c else c\<lparr>sk_entries := AList.delete sessionID (sk_entries c)\<rparr>)"

definition cache_InvalidateAuth :: "session_cache \<Rightarrow> string \<Rightarrow> session_cache" where
  "cache_InvalidateAuth c authID =
     (if authID = [] then c
      else c\<lparr>sk_entries := filter (\<lambda>(sid, entry). sb_AuthID entry \<noteq> authID) (sk_entries c)\<rparr>)"

definition cache_cleanup :: "session_cache \<Rightarrow> gotime \<Rightarrow> session_cache" where
  "cache_cleanup c now =
     c\<lparr>sk_entries := filter (\<lambda>(sid, entry). \<not> now > sb_ExpiresAt entry) (sk_entries c)\<rparr>"

subsection \<open>The cache stays bounded\<close>

definition cache_wf :: "session_cache \<Rightarrow> bool" where
  "cache_wf c \<longleftrightarrow> gomap_wf (sk_entries c) \<and> length (sk_entries c) \<le> defaultMaxSessionCacheEntries"

lemma prune_loop_suffix: "\<exists>d. entries = d @ prune_loop entries pruned"
proof (induction entries arbitrary: pruned)
  case (Cons e entries)
  from Cons [of "pruned + 1"] obtain d where "entries = d @ prune_loop entries (pruned + 1)"
    by blast
  then have "\<exists>d'. e # entries = d' @ prune_loop entries (pruned + 1)" "\<exists>d'. e # entries = d' @ entries"
    by (metis append_Cons, metis append_Cons append_Nil)
  then show ?case
    by (cases "pruned + 1 \<ge> defaultMaxSessionCacheEntries div 8") (auto simp: Let_def simp del: append_Cons)
qed simp

lemma prune_loop_less: "entries \<noteq> [] \<Longrightarrow> length (prune_loop entries pruned) < length entries"
proof (induction entries arbitrary: pruned)
  case (Cons e entries)
  show ?case
    using Cons.IH [of "pruned + 1"] by (cases "entries = []") (auto simp: Let_def)
qed simp

lemma gomap_wf_filter: "gomap_wf m \<Longrightarrow> gomap_wf (filter P m)"
  by (simp add: distinct_map_filter)

lemma prune_loop_wf: "gomap_wf entries \<Longrightarrow> gomap_wf (prune_loop entries pruned)"
  using prune_loop_suffix [of entries pruned] by (metis distinct_append map_append)

lemma pruneLocked_wf: "gomap_wf entries \<Longrightarrow> gomap_wf (pruneLocked entries now)"
  by (simp add: pruneLocked_def gomap_wf_filter prune_loop_wf Let_def)

lemma pruneLocked_room:
  assumes "length entries \<le> defaultMaxSessionCacheEntries"
  shows "length (pruneLocked entries now) < defaultMaxSessionCacheEntries"
proof -
  let ?live = "filter (\<lambda>(sid, entry). \<not> now > sb_ExpiresAt entry) entries"
  have "length (prune_loop ?live p) < defaultMaxSessionCacheEntries"
    if "length ?live \<ge> defaultMaxSessionCacheEntries" for p
  proof -
    have "?live \<noteq> []"
      using that by (auto simp: defaultMaxSessionCacheEntries_def)
    then have "length (prune_loop ?live p) < length ?live"
      by (rule prune_loop_less)
    also have "\<dots> \<le> length entries"
      by (rule length_filter_le)
    finally show ?thesis
      using assms by simp
  qed
  then show ?thesis
    using assms unfolding pruneLocked_def Let_def by (simp add: not_le)
qed

lemma cache_insert_wf:
  assumes "cache_wf c"
  shows "cache_wf (c\<lparr>sk_entries := AList.update k v (pruneLocked (sk_entries c) now)\<rparr>)"
  using assms pruneLocked_room [of "sk_entries c" now]
    length_update_le [of k v "pruneLocked (sk_entries c) now"]
  by (auto simp: cache_wf_def pruneLocked_wf split: if_splits)

lemma length_delete_le: "length (AList.delete k m) \<le> length m"
  by (simp add: AList.delete_eq)

lemma cache_filter_wf: "cache_wf c \<Longrightarrow> cache_wf (c\<lparr>sk_entries := filter P (sk_entries c)\<rparr>)"
  by (auto simp: cache_wf_def gomap_wf_filter intro: le_trans [OF length_filter_le])

lemma cache_delete_wf: "cache_wf c \<Longrightarrow> cache_wf (c\<lparr>sk_entries := AList.delete k (sk_entries c)\<rparr>)"
  by (auto simp: cache_wf_def intro: le_trans [OF length_delete_le])

lemma cache_refresh_wf:
  assumes "cache_wf c" "map_of (sk_entries c) k = Some e"
  shows "cache_wf (c\<lparr>sk_entries := AList.update k v (sk_entries c)\<rparr>)"
  using assms length_update_le [of k v "sk_entries c"] by (simp add: cache_wf_def)

lemma cache_op_wf:
  assumes "cache_wf c"
  shows "cache_wf (fst (cache_Get c sid now now2))" "cache_wf (fst (cache_GetAndRefresh c sid now))"
    "cache_wf (cache_Set c sid authID now pnow uuid)"
    "cache_wf (fst (CompareAndSwapSessionBinding c cancelled commit now pnow uuid))"
    "cache_wf (cache_Invalidate c sid)" "cache_wf (cache_InvalidateAuth c authID)"
    "cache_wf (cache_cleanup c now)"
  using assms
  by (simp_all add: cache_Get_def cache_GetAndRefresh_def cache_Set_def cache_insert_wf
      CompareAndSwapSessionBinding_def cache_Invalidate_def cache_InvalidateAuth_def cache_cleanup_def
      cache_filter_wf cache_delete_wf cache_refresh_wf Let_def split: option.splits)

subsection \<open>The contract of a binding store\<close>

text \<open>
  \<open>load \<sigma> cancelled key\<close> and \<open>cas \<sigma> cancelled commit now prune_now uuid\<close>; \<open>Inl\<close> is an error of the
  store.  A successful swap binds the key to the committed credential until its TTL ends; a refused one
  changes nothing; a commit that names the current revision (and, where it is based on an expired
  binding, its expiry) is not refused, one that names another revision never succeeds.  \<open>sound\<close> is what
  the store keeps of its state, \<open>admissible\<close> the commits it does not reject as malformed.
\<close>

definition commit_current :: "session_commit \<Rightarrow> session_binding \<Rightarrow> bool" where
  "commit_current c b \<longleftrightarrow> sb_Revision b = sc_ExpectedRevision c
     \<and> (sc_ExpiredAt c = 0 \<or> sb_Revision b \<noteq> [] \<and> sb_ExpiresAt b = sc_ExpiredAt c)"

locale session_store =
  fixes load :: "'st \<Rightarrow> bool \<Rightarrow> string \<Rightarrow> unit + session_binding"
    and cas :: "'st \<Rightarrow> bool \<Rightarrow> session_commit \<Rightarrow> gotime \<Rightarrow> gotime \<Rightarrow> string \<Rightarrow> 'st \<times> (unit + bool)"
    and sound :: "'st \<Rightarrow> bool"
    and admissible :: "session_commit \<Rightarrow> bool"
  assumes load_ok: "\<exists>b. load s False key = Inr b"
    and cas_inv: "sound s \<Longrightarrow> uuid \<noteq> [] \<Longrightarrow> sound (fst (cas s cancelled c now pnow uuid))"
    and cas_binds: "cas s cancelled c now pnow uuid = (s', Inr True) \<Longrightarrow>
      \<exists>b. load s' False (sc_Key c) = Inr b \<and> sb_AuthID b = sc_AuthID c
        \<and> sb_ExpiresAt b = now + sc_TTL c"
    and cas_refused: "cas s cancelled c now pnow uuid = (s', r) \<Longrightarrow> r \<noteq> Inr True \<Longrightarrow> s' = s"
    and cas_current: "sound s \<Longrightarrow> load s False (sc_Key c) = Inr b \<Longrightarrow> commit_current c b \<Longrightarrow>
      snd (cas s False c now pnow uuid) \<noteq> Inr False"
    and cas_accepts: "sound s \<Longrightarrow> load s False (sc_Key c) = Inr b \<Longrightarrow> commit_current c b \<Longrightarrow>
      admissible c \<Longrightarrow> snd (cas s False c now pnow uuid) = Inr True"
    and cas_stale: "load s False (sc_Key c) = Inr b \<Longrightarrow> sb_Revision b \<noteq> sc_ExpectedRevision c \<Longrightarrow>
      snd (cas s cancelled c now pnow uuid) \<noteq> Inr True"

interpretation local_cache: session_store LoadSessionBinding CompareAndSwapSessionBinding
    "\<lambda>c. True" "\<lambda>c. True"
  by unfold_locales
    (auto simp: CompareAndSwapSessionBinding_def LoadSessionBinding_def commit_current_def Let_def
      split: if_splits)

subsection \<open>The selector\<close>

record ('f, 'st) attempt =
  at_ctx :: bool
  at_ctx_load :: bool
  at_ctx_parent :: bool
  at_ctx_commit :: bool
  at_now :: gotime
  at_parent_now :: gotime
  at_pick_now :: gotime
  at_commit_now :: gotime
  at_prune_now :: gotime
  at_uuid :: string
  at_before :: "'st \<Rightarrow> 'st"
  at_before_parent :: "'st \<Rightarrow> 'st"
  at_before_commit :: "'st \<Rightarrow> 'st"
  at_fallback :: "'f \<Rightarrow> 'f"

datatype affinity_error = SelectorError dispatch_error | ContextDone | LoadFailed | ParentLoadFailed
  | CommitFailed

datatype affinity_result = Selected auth "session_commit option" | Failed affinity_error | Unfinished

type_synonym 'f pick_fun =
  "'f \<Rightarrow> string \<Rightarrow> string \<Rightarrow> options \<Rightarrow> auth option list \<Rightarrow> gotime \<Rightarrow> 'f \<times> (dispatch_error + auth)"

text \<open>What one request fixes before its loop.\<close>

record affinity_request =
  ar_provider :: string
  ar_model :: string
  ar_opts :: options
  ar_auths :: "auth option list"
  ar_available :: "auth list"
  ar_key :: string
  ar_parent_key :: "string option" \<comment> \<open>set when the parent's ID is another one than the session's\<close>
  ar_ttl :: duration

definition bound_auth :: "auth list \<Rightarrow> session_binding \<Rightarrow> gotime \<Rightarrow> auth option" where
  "bound_auth available b now =
     (if now < sb_ExpiresAt b then find (\<lambda>a. au_ID a = sb_AuthID b) available else None)"

text \<open>The parent's binding is read only for a cold session: \<open>Inl\<close> is an error of that read.\<close>

definition parent_auth :: "('st \<Rightarrow> bool \<Rightarrow> string \<Rightarrow> unit + session_binding) \<Rightarrow> affinity_request
    \<Rightarrow> ('f, 'st) attempt \<Rightarrow> 'st \<Rightarrow> auth option \<Rightarrow> bool \<Rightarrow> unit + auth option" where
  "parent_auth load req turn st selected active =
     (case ar_parent_key req of
        None \<Rightarrow> Inr selected
      | Some pkey \<Rightarrow>
          if selected \<noteq> None \<or> active then Inr selected
          else (case load st (at_ctx_parent turn) pkey of
              Inl e \<Rightarrow> Inl e
            | Inr parent \<Rightarrow> Inr (bound_auth (ar_available req) parent (at_parent_now turn))))"

definition affinity_commit :: "affinity_request \<Rightarrow> session_binding \<Rightarrow> bool \<Rightarrow> auth \<Rightarrow> session_commit" where
  "affinity_commit req binding active selected =
     \<lparr>sc_Key = ar_key req, sc_ExpectedRevision = sb_Revision binding,
      sc_ExpiredAt = (if \<not> active \<and> sb_Revision binding \<noteq> [] then sb_ExpiresAt binding else 0),
      sc_AuthID = au_ID selected, sc_TTL = ar_ttl req\<rparr>"

text \<open>One turn of the loop; no result means that another request won the binding.\<close>

definition affinity_attempt :: "'f pick_fun \<Rightarrow> ('st \<Rightarrow> bool \<Rightarrow> string \<Rightarrow> unit + session_binding)
    \<Rightarrow> ('st \<Rightarrow> bool \<Rightarrow> session_commit \<Rightarrow> gotime \<Rightarrow> gotime \<Rightarrow> string \<Rightarrow> 'st \<times> (unit + bool))
    \<Rightarrow> affinity_request \<Rightarrow> ('f, 'st) attempt \<Rightarrow> 'f \<Rightarrow> 'st \<Rightarrow> 'f \<times> 'st \<times> affinity_result option" where
  "affinity_attempt fb load cas req turn f st =
     (let st0 = at_before turn st
      in if at_ctx turn then (f, st0, Some (Failed ContextDone))
         else case load st0 (at_ctx_load turn) (ar_key req) of
           Inl e \<Rightarrow> (f, st0, Some (Failed LoadFailed))
         | Inr binding \<Rightarrow>
             let active = at_now turn < sb_ExpiresAt binding;
                 own = bound_auth (ar_available req) binding (at_now turn);
                 st1 = at_before_parent turn st0
             in case parent_auth load req turn st1 own active of
               Inl e \<Rightarrow> (f, st1, Some (Failed ParentLoadFailed))
             | Inr selected \<Rightarrow>
                 let f0 = at_fallback turn f;
                     (f1, pick) =
                       (case selected of
                          Some a \<Rightarrow> (f0, Inr a)
                        | None \<Rightarrow> fb f0 (ar_provider req) (ar_model req) (ar_opts req) (ar_auths req)
                                    (at_pick_now turn))
                 in case pick of
                   Inl err \<Rightarrow> (f1, st1, Some (Failed (SelectorError err)))
                 | Inr a \<Rightarrow>
                     let commit = affinity_commit req binding active a
                     in if opt_SessionAffinity (ar_opts req)
                        then (f1, st1, Some (Selected a (Some commit)))
                        else case cas (at_before_commit turn st1) (at_ctx_commit turn) commit
                                    (at_commit_now turn) (at_prune_now turn) (at_uuid turn) of
                          (st2, Inl e) \<Rightarrow> (f1, st2, Some (Failed CommitFailed))
                        | (st2, Inr swapped) \<Rightarrow>
                            (f1, st2, if swapped then Some (Selected a None) else None))"

fun affinity_loop :: "'f pick_fun \<Rightarrow> ('st \<Rightarrow> bool \<Rightarrow> string \<Rightarrow> unit + session_binding)
    \<Rightarrow> ('st \<Rightarrow> bool \<Rightarrow> session_commit \<Rightarrow> gotime \<Rightarrow> gotime \<Rightarrow> string \<Rightarrow> 'st \<times> (unit + bool))
    \<Rightarrow> affinity_request \<Rightarrow> ('f, 'st) attempt list \<Rightarrow> 'f \<Rightarrow> 'st \<Rightarrow> 'f \<times> 'st \<times> affinity_result" where
  "affinity_loop fb load cas req [] f st = (f, st, Unfinished)"
| "affinity_loop fb load cas req (turn # attempts) f st =
     (case affinity_attempt fb load cas req turn f st of
        (f', st', Some r) \<Rightarrow> (f', st', r)
      | (f', st', None) \<Rightarrow> affinity_loop fb load cas req attempts f' st')"

definition affinity_request_of :: "(string \<Rightarrow> string \<Rightarrow> string \<Rightarrow> string) \<Rightarrow> duration \<Rightarrow> string \<Rightarrow> string
    \<Rightarrow> options \<Rightarrow> auth option list \<Rightarrow> auth list \<Rightarrow> string \<times> string \<Rightarrow> affinity_request" where
  "affinity_request_of binding_key ttl provider model opts auths available ids =
     \<lparr>ar_provider = provider, ar_model = model, ar_opts = opts, ar_auths = auths,
      ar_available = available, ar_key = binding_key provider (fst ids) model,
      ar_parent_key = (if snd ids \<noteq> [] \<and> snd ids \<noteq> fst ids
                       then Some (binding_key provider (snd ids) model) else None),
      ar_ttl = ttl\<rparr>"

text \<open>
  \<open>SessionAffinity_Pick\<close>: \<open>binding_key\<close> is the SHA-256 digest of the JSON encoding of the tuple, \<open>J\<close> the
  JSON lookups.
\<close>

definition SessionAffinity_Pick :: "'f pick_fun \<Rightarrow> ('st \<Rightarrow> bool \<Rightarrow> string \<Rightarrow> unit + session_binding)
    \<Rightarrow> ('st \<Rightarrow> bool \<Rightarrow> session_commit \<Rightarrow> gotime \<Rightarrow> gotime \<Rightarrow> string \<Rightarrow> 'st \<times> (unit + bool))
    \<Rightarrow> 'j gjson \<Rightarrow> (string \<Rightarrow> string \<Rightarrow> string \<Rightarrow> string) \<Rightarrow> bool \<Rightarrow> duration
    \<Rightarrow> string \<Rightarrow> string \<Rightarrow> options \<Rightarrow> auth option list \<Rightarrow> gotime \<Rightarrow> ('f, 'st) attempt list
    \<Rightarrow> 'f \<Rightarrow> 'st \<Rightarrow> 'f \<times> 'st \<times> affinity_result" where
  "SessionAffinity_Pick fb load cas J binding_key weighted ttl provider model opts auths0 now attempts f st =
     (let (primaryID, fallbackID) = extractSessionIDs J (opt_Headers opts) (opt_OriginalRequest opts)
      in if primaryID = []
         then (case fb f provider model opts auths0 now of
             (f', Inl err) \<Rightarrow> (f', st, Failed (SelectorError err))
           | (f', Inr a) \<Rightarrow> (f', st, Selected a None))
         else
           let filtered = filterConcurrencyExcludedAuths auths0 model opts;
               auths = (if weighted then positiveWeightAuths filtered else filtered)
           in case getAvailableAuths auths provider model now of
                Inl err \<Rightarrow> (f, st, Failed (SelectorError err))
              | Inr available \<Rightarrow>
                  affinity_loop fb load cas
                    (affinity_request_of binding_key ttl provider model opts auths available
                       (primaryID, fallbackID)) attempts f st)"

subsection \<open>The selector over any fallback and any store\<close>

lemma bound_authD:
  "bound_auth available b now = Some a \<Longrightarrow>
   a \<in> set available \<and> au_ID a = sb_AuthID b \<and> now < sb_ExpiresAt b"
  by (auto simp: bound_auth_def find_Some_iff split: if_splits)

lemma parent_auth_mem:
  "parent_auth load req turn st (bound_auth (ar_available req) b now) active = Inr (Some a) \<Longrightarrow>
   a \<in> set (ar_available req)"
  by (auto simp: parent_auth_def dest: bound_authD split: option.splits if_splits sum.splits)

text \<open>A turn on which nobody touches the binding of the request between its load and its commit.\<close>

definition undisturbed :: "('st \<Rightarrow> bool \<Rightarrow> string \<Rightarrow> unit + session_binding) \<Rightarrow> string
    \<Rightarrow> ('f, 'st) attempt \<Rightarrow> bool" where
  "undisturbed load key turn \<longleftrightarrow> \<not> at_ctx_load turn \<and> \<not> at_ctx_commit turn
     \<and> (\<forall>st. load (at_before_commit turn (at_before_parent turn st)) False key = load st False key)"

lemma attempt_result:
  "affinity_attempt fb load cas req turn f st = (f', st', Some r) \<Longrightarrow> r \<noteq> Unfinished"
  by (auto simp: affinity_attempt_def Let_def split: if_splits sum.splits prod.splits option.splits)

lemma SessionAffinity_Pick_loop:
  assumes "fst (extractSessionIDs J (opt_Headers opts) (opt_OriginalRequest opts)) \<noteq> []"
    "getAvailableAuths (if weighted
       then positiveWeightAuths (filterConcurrencyExcludedAuths auths model opts)
       else filterConcurrencyExcludedAuths auths model opts) provider model now = Inr available"
  shows "SessionAffinity_Pick fb load cas J bk weighted ttl provider model opts auths now attempts f st =
    affinity_loop fb load cas (affinity_request_of bk ttl provider model opts
      (if weighted then positiveWeightAuths (filterConcurrencyExcludedAuths auths model opts)
       else filterConcurrencyExcludedAuths auths model opts) available
      (extractSessionIDs J (opt_Headers opts) (opt_OriginalRequest opts))) attempts f st"
  using assms
  by (cases "extractSessionIDs J (opt_Headers opts) (opt_OriginalRequest opts)")
    (simp add: SessionAffinity_Pick_def Let_def)

lemma affinity_commit_current: "commit_current (affinity_commit req b active a) b"
  by (simp add: commit_current_def affinity_commit_def)

text \<open>What the requests around a turn keep of the store.\<close>

definition steady :: "('st \<Rightarrow> bool) \<Rightarrow> ('f, 'st) attempt \<Rightarrow> bool" where
  "steady sound turn \<longleftrightarrow> at_uuid turn \<noteq> []
     \<and> (\<forall>st. sound st \<longrightarrow> sound (at_before turn st) \<and> sound (at_before_parent turn st)
          \<and> sound (at_before_commit turn st))"

locale affinity_client = dispatch_selector fb + session_store load cas sound admissible
  for fb :: "'f pick_fun"
    and load :: "'st \<Rightarrow> bool \<Rightarrow> string \<Rightarrow> unit + session_binding"
    and cas :: "'st \<Rightarrow> bool \<Rightarrow> session_commit \<Rightarrow> gotime \<Rightarrow> gotime \<Rightarrow> string \<Rightarrow> 'st \<times> (unit + bool)"
    and sound :: "'st \<Rightarrow> bool" and admissible :: "session_commit \<Rightarrow> bool"
begin

lemma attempt_sound:
  assumes "affinity_attempt fb load cas req turn f st = (f', st', Some (Selected a c))"
  shows "a \<in> set (ar_available req)
    \<or> a \<in> set (eligible (ar_model req) (ar_opts req) (ar_auths req) (at_pick_now turn))"
  using assms
  by (auto simp: affinity_attempt_def Let_def dest: parent_auth_mem pick_eligible
      split: if_splits sum.splits prod.splits option.splits)

lemma loop_sound:
  "affinity_loop fb load cas req attempts f st = (f', st', Selected a c) \<Longrightarrow>
   a \<in> set (ar_available req)
   \<or> (\<exists>turn\<in>set attempts. a \<in> set (eligible (ar_model req) (ar_opts req) (ar_auths req) (at_pick_now turn)))"
proof (induction attempts arbitrary: f st)
  case (Cons turn attempts)
  show ?case
  proof (cases "affinity_attempt fb load cas req turn f st")
    case (fields f1 st1 r)
    show ?thesis
    proof (cases r)
      case None
      with Cons fields show ?thesis
        by auto
    next
      case (Some r')
      with Cons.prems fields have "r' = Selected a c"
        by simp
      with fields Some attempt_sound show ?thesis
        by fastforce
    qed
  qed
qed simp

text \<open>A selection that is committed by the selector itself leaves the session bound to it.\<close>

lemma attempt_commits:
  assumes "affinity_attempt fb load cas req turn f st = (f', st', Some (Selected a None))"
  shows "\<exists>b. load st' False (ar_key req) = Inr b \<and> sb_AuthID b = au_ID a
    \<and> sb_ExpiresAt b = at_commit_now turn + ar_ttl req"
proof -
  from assms obtain binding active st1 where
    "cas st1 (at_ctx_commit turn) (affinity_commit req binding active a) (at_commit_now turn)
       (at_prune_now turn) (at_uuid turn) = (st', Inr True)"
    by (auto simp: affinity_attempt_def Let_def
        split: if_splits sum.splits prod.splits option.splits)
  from cas_binds [OF this] show ?thesis
    by (simp add: affinity_commit_def)
qed

lemma loop_commits:
  "affinity_loop fb load cas req attempts f st = (f', st', Selected a None) \<Longrightarrow>
   \<exists>b. load st' False (ar_key req) = Inr b \<and> sb_AuthID b = au_ID a"
proof (induction attempts arbitrary: f st)
  case (Cons turn attempts)
  show ?case
  proof (cases "affinity_attempt fb load cas req turn f st")
    case (fields f1 st1 r)
    with Cons attempt_commits [of req turn f st f1 st1 a] show ?thesis
      by (cases r) auto
  qed
qed simp

lemma attempt_progress:
  assumes "undisturbed load (ar_key req) turn"
    "sound (at_before_commit turn (at_before_parent turn (at_before turn st)))"
  shows "snd (snd (affinity_attempt fb load cas req turn f st)) \<noteq> None"
proof -
  let ?st0 = "at_before turn st"
  let ?st2 = "at_before_commit turn (at_before_parent turn ?st0)"
  obtain b where b: "load ?st0 False (ar_key req) = Inr b"
    using load_ok by blast
  with assms have b2: "load ?st2 False (ar_key req) = Inr b"
    by (simp add: undisturbed_def)
  let ?active = "at_now turn < sb_ExpiresAt b"
  have swap: "r \<noteq> Inr False" if "cas ?st2 (at_ctx_commit turn) (affinity_commit req b ?active a) now pnow uuid
      = (st', r)" for a now pnow uuid st' r
    using cas_current [OF assms(2), of "affinity_commit req b ?active a" b now pnow uuid] b2 assms(1)
      affinity_commit_current [of req b ?active a] that
    by (simp add: affinity_commit_def undisturbed_def)
  show ?thesis
    using b assms(1) swap unfolding affinity_attempt_def Let_def
    by (fastforce simp: undisturbed_def split: sum.splits prod.splits option.splits)
qed

text \<open>The selector itself keeps what the store keeps.\<close>

lemma attempt_steady:
  assumes "sound st" "steady sound turn"
  shows "sound (fst (snd (affinity_attempt fb load cas req turn f st)))"
proof -
  let ?st1 = "at_before_parent turn (at_before turn st)"
  have "sound (at_before turn st)" "sound ?st1" and st2: "sound (at_before_commit turn ?st1)"
    using assms by (simp_all add: steady_def)
  moreover have "sound st'" if "cas (at_before_commit turn ?st1) c0 c now pnow (at_uuid turn) = (st', r)"
    for c0 c now pnow st' r
    using cas_inv [OF st2, of "at_uuid turn" c0 c now pnow] assms(2) that by (simp add: steady_def)
  ultimately show ?thesis
    unfolding affinity_attempt_def Let_def
    by (fastforce split: sum.splits prod.splits option.splits)
qed

lemma loop_progress:
  assumes "sound st"
    "\<forall>turn\<in>set attempts. \<forall>st. sound st \<longrightarrow>
       sound (at_before_commit turn (at_before_parent turn (at_before turn st)))"
    "\<forall>turn\<in>set attempts. \<forall>f st. sound st \<longrightarrow>
       sound (fst (snd (affinity_attempt fb load cas req turn f st)))"
    "\<exists>turn\<in>set attempts. undisturbed load (ar_key req) turn"
  shows "snd (snd (affinity_loop fb load cas req attempts f st)) \<noteq> Unfinished"
  using assms
proof (induction attempts arbitrary: f st)
  case (Cons turn attempts)
  show ?case
  proof (cases "affinity_attempt fb load cas req turn f st")
    case (fields f1 st1 r)
    have st1: "sound st1"
      using Cons.prems(1,3) fields by (metis fst_conv list.set_intros(1) snd_conv)
    have "sound (at_before_commit turn (at_before_parent turn (at_before turn st)))"
      using Cons.prems(1,2) by simp
    then have "r = None \<Longrightarrow> \<not> undisturbed load (ar_key req) turn"
      using attempt_progress [of req turn st f] fields by auto
    with Cons.IH [OF st1] Cons.prems fields attempt_result [of fb load cas req turn f st f1 st1]
    show ?thesis
      by (cases r) auto
  qed
qed simp

text \<open>An active binding to an available credential is followed.\<close>

lemma attempt_sticky:
  assumes "undisturbed load (ar_key req) turn" "\<not> at_ctx turn" "\<not> opt_SessionAffinity (ar_opts req)"
    "load (at_before turn st) False (ar_key req) = Inr b"
    "bound_auth (ar_available req) b (at_now turn) = Some a"
    "sound (at_before_commit turn (at_before_parent turn (at_before turn st)))"
    "admissible (affinity_commit req b True a)"
  shows "\<exists>f' st'. affinity_attempt fb load cas req turn f st = (f', st', Some (Selected a None))"
proof -
  let ?st2 = "at_before_commit turn (at_before_parent turn (at_before turn st))"
  let ?c = "affinity_commit req b (at_now turn < sb_ExpiresAt b) a"
  have "snd (cas ?st2 False ?c (at_commit_now turn) (at_prune_now turn) (at_uuid turn)) = Inr True"
    using cas_accepts [OF assms(6), of ?c b] assms(1,4,7) affinity_commit_current [of req b True a]
      bound_authD [OF assms(5)] by (simp add: affinity_commit_def undisturbed_def)
  then obtain st2 where "cas ?st2 False ?c (at_commit_now turn) (at_prune_now turn) (at_uuid turn)
      = (st2, Inr True)"
    by (metis prod.collapse)
  moreover have "parent_auth load req turn st1 (Some a) active = Inr (Some a)" for st1 active
    by (simp add: parent_auth_def split: option.splits)
  ultimately show ?thesis
    using assms by (simp add: affinity_attempt_def Let_def undisturbed_def)
qed

end

subsection \<open>The selector as the program builds it\<close>

interpretation rr_affinity: affinity_client RoundRobin_Pick LoadSessionBinding CompareAndSwapSessionBinding
    "\<lambda>c. True" "\<lambda>c. True"
  by unfold_locales

interpretation weighted_affinity: affinity_client Weighted_Pick LoadSessionBinding
    CompareAndSwapSessionBinding "\<lambda>c. True" "\<lambda>c. True"
  by unfold_locales

lemma available_eligible:
  assumes "getAvailableAuths (filterConcurrencyExcludedAuths auths model opts) provider model now = Inr xs"
    "a \<in> set xs"
  shows "a \<in> set (eligible model opts auths now)"
  using assms best_auths_subset by (auto simp: available_eq_eligible)

lemma eligible_filtered:
  "eligible model opts (filterConcurrencyExcludedAuths auths model opts) now = eligible model opts auths now"
  by (simp add: eligible_def filterConcurrencyExcludedAuths_def)

abbreviation affinity_pick_rr where
  "affinity_pick_rr \<equiv>
     SessionAffinity_Pick RoundRobin_Pick LoadSessionBinding CompareAndSwapSessionBinding"

lemma affinity_rr_eligible:
  assumes "affinity_pick_rr J bk False ttl provider model opts auths now attempts f st
    = (f', st', Selected a c)"
  shows "\<exists>t\<in>set (now # map at_pick_now attempts). a \<in> set (eligible model opts auths t)"
proof (cases "fst (extractSessionIDs J (opt_Headers opts) (opt_OriginalRequest opts)) = []")
  case True
  then obtain f1 where "RoundRobin_Pick f provider model opts auths now = (f1, Inr a)"
    using assms by (auto simp: SessionAffinity_Pick_def split: prod.splits sum.splits)
  then show ?thesis
    using rr.pick_eligible by auto
next
  case False
  let ?auths = "filterConcurrencyExcludedAuths auths model opts"
  obtain available where av: "getAvailableAuths ?auths provider model now = Inr available"
    using assms False by (auto simp: SessionAffinity_Pick_def Let_def split: prod.splits sum.splits)
  let ?req = "affinity_request_of bk ttl provider model opts ?auths available
    (extractSessionIDs J (opt_Headers opts) (opt_OriginalRequest opts))"
  have loop: "affinity_loop RoundRobin_Pick LoadSessionBinding CompareAndSwapSessionBinding ?req
      attempts f st = (f', st', Selected a c)"
    using assms by (simp add: SessionAffinity_Pick_loop [OF False, where weighted = False and auths = auths and provider = provider
        and now = now and available = available] av)
  have req: "ar_available ?req = available" "ar_auths ?req = ?auths" "ar_model ?req = model"
      "ar_opts ?req = opts"
    by (simp_all add: affinity_request_of_def)
  from rr_affinity.loop_sound [OF loop] show ?thesis
    using available_eligible [OF av] by (auto simp: req eligible_filtered)
qed

lemma find_same_id:
  assumes "distinct (map au_ID xs)" "a \<in> set xs" "au_ID a = k"
  shows "find (\<lambda>x. au_ID x = k) xs = Some a"
  using assms
proof (induction xs)
  case (Cons x xs)
  then show ?case
    by (auto simp: image_iff)
qed simp

lemma affinity_rr_sticky:
  assumes first: "affinity_pick_rr J bk False ttl provider model opts auths now attempts f st
      = (f1, st1, Selected a None)"
    and session: "fst (extractSessionIDs J (opt_Headers opts) (opt_OriginalRequest opts)) \<noteq> []"
    and slot: "\<not> opt_SessionAffinity opts"
    and active: "turn_now < sb_ExpiresAt (gomap_get no_binding (sk_entries st1)
      (bk provider (fst (extractSessionIDs J (opt_Headers opts) (opt_OriginalRequest opts))) model))"
    and pool: "getAvailableAuths (filterConcurrencyExcludedAuths auths2 model opts) provider model pool_now
      = Inr xs" "distinct (map au_ID xs)" "b \<in> set xs" "au_ID b = au_ID a"
    and turn: "undisturbed LoadSessionBinding
      (bk provider (fst (extractSessionIDs J (opt_Headers opts) (opt_OriginalRequest opts))) model) turn"
      "\<not> at_ctx turn" "at_before turn st1 = st1" "at_now turn = turn_now"
  shows "snd (snd (affinity_pick_rr J bk False ttl provider model opts auths2 pool_now (turn # later) f2 st1))
    = Selected b None"
proof -
  let ?ids = "extractSessionIDs J (opt_Headers opts) (opt_OriginalRequest opts)"
  let ?auths = "filterConcurrencyExcludedAuths auths model opts"
  let ?auths2 = "filterConcurrencyExcludedAuths auths2 model opts"
  obtain ys where ys: "getAvailableAuths ?auths provider model now = Inr ys"
    using first session by (auto simp: SessionAffinity_Pick_def Let_def split: prod.splits sum.splits)
  let ?req = "affinity_request_of bk ttl provider model opts ?auths ys ?ids"
  let ?req2 = "affinity_request_of bk ttl provider model opts ?auths2 xs ?ids"
  have key: "ar_key ?req = bk provider (fst ?ids) model" "ar_key ?req2 = bk provider (fst ?ids) model"
    and req2: "ar_available ?req2 = xs" "ar_opts ?req2 = opts"
    by (simp_all add: affinity_request_of_def)
  have "affinity_loop RoundRobin_Pick LoadSessionBinding CompareAndSwapSessionBinding ?req attempts f st
      = (f1, st1, Selected a None)"
    using first by (simp add: SessionAffinity_Pick_loop [OF session, where weighted = False and auths = auths
        and provider = provider and now = now and available = ys] ys)
  from rr_affinity.loop_commits [OF this] obtain bind where
    bind: "LoadSessionBinding st1 False (ar_key ?req2) = Inr bind" "sb_AuthID bind = au_ID a"
    unfolding key by blast
  then have "bound_auth xs bind (at_now turn) = Some b"
    using active pool turn find_same_id [of xs b "au_ID a"] key
    by (simp add: bound_auth_def LoadSessionBinding_def)
  then obtain f' st' where "affinity_attempt RoundRobin_Pick LoadSessionBinding
      CompareAndSwapSessionBinding ?req2 turn f2 st1 = (f', st', Some (Selected b None))"
    using rr_affinity.attempt_sticky [of ?req2 turn st1 bind b f2] turn slot bind(1) key req2 by auto
  then show ?thesis
    by (simp add: SessionAffinity_Pick_loop [OF session, where weighted = False and auths = auths2
        and provider = provider and now = pool_now and available = xs] pool(1))
qed

subsection \<open>Properties\<close>

definition quiet_turn :: "gotime \<Rightarrow> string \<Rightarrow> (round_robin, session_cache) attempt" where
  "quiet_turn now uuid = \<lparr>at_ctx = False, at_ctx_load = False, at_ctx_parent = False,
     at_ctx_commit = False, at_now = now, at_parent_now = now, at_pick_now = now,
     at_commit_now = now, at_prune_now = now, at_uuid = uuid, at_before = (\<lambda>st. st),
     at_before_parent = (\<lambda>st. st), at_before_commit = (\<lambda>st. st), at_fallback = (\<lambda>f. f)\<rparr>"

definition session_options :: options where
  "session_options = \<lparr>opt_Headers = [(''Session-Id'', [''s1''])], opt_OriginalRequest = [],
     opt_Metadata = [], opt_SessionAffinity = False\<rparr>"

definition example_key :: "string \<Rightarrow> string \<Rightarrow> string \<Rightarrow> string" where
  "example_key provider sid model = provider @ '' '' @ sid @ '' '' @ model"

definition example_rr :: round_robin where
  "example_rr = \<lparr>rr_cursors = [], rr_maxKeys = 0\<rparr>"

definition two_auths :: "auth option list" where
  "two_auths = [Some (plain_auth ''a''), Some (plain_auth ''b'')]"

lemma undisturbed_quiet: "undisturbed LoadSessionBinding key (quiet_turn now uuid)"
  by (simp add: undisturbed_def quiet_turn_def)

lemma example_first_pick:
  "affinity_pick_rr no_json example_key False hour ''codex'' ''m'' session_options two_auths 1
     [quiet_turn 1 ''u''] example_rr (NewSessionCache hour)
   = (\<lparr>rr_cursors = [(''codex:m'', 1)], rr_maxKeys = 0\<rparr>,
      \<lparr>sk_entries = [(''codex codex:s1 m'',
         \<lparr>sb_AuthID = ''a'', sb_Revision = ''u'', sb_ExpiresAt = 1 + hour\<rparr>)], sk_ttl = hour\<rparr>,
      Selected (plain_auth ''a'') None)"
proof -
  have ids: "extractSessionIDs no_json (opt_Headers session_options)
      (opt_OriginalRequest session_options) = (''codex:s1'', [])"
    by code_simp
  have pool: "getAvailableAuths (filterConcurrencyExcludedAuths two_auths ''m'' session_options)
      ''codex'' ''m'' 1 = Inr [plain_auth ''a'', plain_auth ''b'']"
    by code_simp
  have pick: "RoundRobin_Pick example_rr ''codex'' ''m'' session_options
      (filterConcurrencyExcludedAuths two_auths ''m'' session_options) 1 =
      (\<lparr>rr_cursors = [(''codex:m'', 1)], rr_maxKeys = 0\<rparr>, Inr (plain_auth ''a''))"
    by code_simp
  have small: "\<not> defaultMaxSessionCacheEntries \<le> length []"
    by (simp add: defaultMaxSessionCacheEntries_def)
  let ?req = "affinity_request_of example_key hour ''codex'' ''m'' session_options
    (filterConcurrencyExcludedAuths two_auths ''m'' session_options)
    [plain_auth ''a'', plain_auth ''b''] (''codex:s1'', [])"
  have req: "ar_provider ?req = ''codex''" "ar_model ?req = ''m''" "ar_opts ?req = session_options"
    "ar_auths ?req = filterConcurrencyExcludedAuths two_auths ''m'' session_options"
    "ar_key ?req = ''codex codex:s1 m''" "ar_parent_key ?req = None" "ar_ttl ?req = hour"
    by (simp_all add: affinity_request_of_def example_key_def)
  have load: "LoadSessionBinding (NewSessionCache hour) False k = Inr no_binding" for k
    by (simp add: LoadSessionBinding_def NewSessionCache_def)
  have bound: "bound_auth xs no_binding 1 = None" for xs
    by (simp add: bound_auth_def no_binding_def)
  have ID: "au_ID (plain_auth ''a'') = ''a''"
    by (simp add: plain_auth_def)
  have "affinity_attempt RoundRobin_Pick LoadSessionBinding CompareAndSwapSessionBinding ?req
      (quiet_turn 1 ''u'') example_rr (NewSessionCache hour) =
    (\<lparr>rr_cursors = [(''codex:m'', 1)], rr_maxKeys = 0\<rparr>,
      \<lparr>sk_entries = [(''codex codex:s1 m'',
         \<lparr>sb_AuthID = ''a'', sb_Revision = ''u'', sb_ExpiresAt = 1 + hour\<rparr>)], sk_ttl = hour\<rparr>,
      Some (Selected (plain_auth ''a'') None))"
    using small
    by (simp add: affinity_attempt_def Let_def quiet_turn_def req load bound parent_auth_def pick
        affinity_commit_def CompareAndSwapSessionBinding_def ID session_options_def [THEN arg_cong, of opt_SessionAffinity])
      (simp add: NewSessionCache_def no_binding_def pruneLocked_def duration_defs)
  moreover have "fst (extractSessionIDs no_json (opt_Headers session_options)
      (opt_OriginalRequest session_options)) \<noteq> []"
    by (simp only: ids) simp
  ultimately show ?thesis
    using SessionAffinity_Pick_loop [where weighted = False and J = no_json and opts = session_options
        and auths = two_auths and model = "''m''" and provider = "''codex''" and now = 1
        and available = "[plain_auth ''a'', plain_auth ''b'']"
        and fb = RoundRobin_Pick and load = LoadSessionBinding and cas = CompareAndSwapSessionBinding
        and bk = example_key and ttl = hour and attempts = "[quiet_turn 1 ''u'']" and f = example_rr
        and st = "NewSessionCache hour"]
    by (simp add: ids pool)
qed

text \<open>
  C26. Session affinity sticks: after a request of a session was given a credential and bound to it, the
  next request of the session gets a credential with the same ID as long as the binding has not
  expired, the credential is in the pool and no other request changes the binding meanwhile.
\<close>

theorem session_affinity_sticks:
  assumes "affinity_pick_rr J bk False ttl provider model opts auths now attempts f st
      = (f1, st1, Selected a None)"
    "fst (extractSessionIDs J (opt_Headers opts) (opt_OriginalRequest opts)) \<noteq> []"
    "\<not> opt_SessionAffinity opts"
    "turn_now < sb_ExpiresAt (gomap_get no_binding (sk_entries st1)
      (bk provider (fst (extractSessionIDs J (opt_Headers opts) (opt_OriginalRequest opts))) model))"
    "getAvailableAuths (filterConcurrencyExcludedAuths auths2 model opts) provider model pool_now = Inr xs"
    "distinct (map au_ID xs)" "b \<in> set xs" "au_ID b = au_ID a"
    "undisturbed LoadSessionBinding
      (bk provider (fst (extractSessionIDs J (opt_Headers opts) (opt_OriginalRequest opts))) model) turn"
    "\<not> at_ctx turn" "at_before turn st1 = st1" "at_now turn = turn_now"
  shows "snd (snd (affinity_pick_rr J bk False ttl provider model opts auths2 pool_now (turn # later) f2 st1))
    = Selected b None"
  using assms by (rule affinity_rr_sticky)

theorem session_affinity_sticks_witness:
  "snd (snd (affinity_pick_rr no_json example_key False hour ''codex'' ''m'' session_options two_auths 2
      [quiet_turn 2 ''v''] example_rr
      \<lparr>sk_entries = [(''codex codex:s1 m'',
         \<lparr>sb_AuthID = ''a'', sb_Revision = ''u'', sb_ExpiresAt = 1 + hour\<rparr>)], sk_ttl = hour\<rparr>))
    = Selected (plain_auth ''a'') None"
proof (rule session_affinity_sticks [OF example_first_pick, where turn_now = 2 and
      xs = "[plain_auth ''a'', plain_auth ''b'']"])
  have ids: "extractSessionIDs no_json (opt_Headers session_options)
      (opt_OriginalRequest session_options) = (''codex:s1'', [])"
    by code_simp
  then show "fst (extractSessionIDs no_json (opt_Headers session_options)
      (opt_OriginalRequest session_options)) \<noteq> []"
    by simp
  show "2 < sb_ExpiresAt (gomap_get no_binding (sk_entries
      \<lparr>sk_entries = [(''codex codex:s1 m'',
         \<lparr>sb_AuthID = ''a'', sb_Revision = ''u'', sb_ExpiresAt = 1 + hour\<rparr>)], sk_ttl = hour\<rparr>)
      (example_key ''codex'' (fst (extractSessionIDs no_json (opt_Headers session_options)
        (opt_OriginalRequest session_options))) ''m''))"
    by (simp add: ids example_key_def gomap_get_def duration_defs)
  show "getAvailableAuths (filterConcurrencyExcludedAuths two_auths ''m'' session_options)
      ''codex'' ''m'' 2 = Inr [plain_auth ''a'', plain_auth ''b'']"
    by code_simp
qed (simp_all add: undisturbed_quiet, simp_all add: session_options_def quiet_turn_def plain_auth_def)

text \<open>
  Session affinity never gives a request a credential it may not use: whatever other requests do to
  the bindings and to the selector meanwhile, the selected credential is one of the candidates, not
  excluded, and was not blocked at an instant of the call.
\<close>

theorem session_affinity_eligible:
  assumes "affinity_pick_rr J bk False ttl provider model opts auths now attempts f st
    = (f', st', Selected a c)"
  shows "\<exists>t\<in>set (now # map at_pick_now attempts). a \<in> set (eligible model opts auths t)"
  using assms by (rule affinity_rr_eligible)

theorem session_affinity_eligible_witness:
  "\<exists>t\<in>set (1 # map at_pick_now [quiet_turn 1 ''u'']).
     plain_auth ''a'' \<in> set (eligible ''m'' session_options two_auths t)"
  by (rule session_affinity_eligible [OF example_first_pick])

text \<open>
  The loop of session affinity ends: it returns a selection or an error no later than on the first
  turn on which no other request changes the session's binding between its load and its commit.
\<close>

theorem session_affinity_returns:
  assumes "\<exists>turn\<in>set attempts. undisturbed LoadSessionBinding (ar_key req) turn"
  shows "snd (snd (affinity_loop RoundRobin_Pick LoadSessionBinding CompareAndSwapSessionBinding req
    attempts f st)) \<noteq> Unfinished"
  by (rule rr_affinity.loop_progress) (simp_all add: assms)

theorem session_affinity_returns_witness:
  "snd (snd (affinity_loop RoundRobin_Pick LoadSessionBinding CompareAndSwapSessionBinding
    (affinity_request_of example_key hour ''codex'' ''m'' session_options two_auths [plain_auth ''a'']
      (''codex:s1'', []))
    [quiet_turn 1 ''u''] example_rr (NewSessionCache hour))) \<noteq> Unfinished"
  by (rule session_affinity_returns) (simp add: undisturbed_quiet)

text \<open>
  Of two requests that start from the same snapshot of a binding the first to commit wins: when its
  commit changes the binding (none before, another credential, or an expired one) and its UUID is
  fresh, the second commit is refused and changes nothing, so that request reads the binding again.
\<close>

theorem session_cas_first_wins:
  assumes "CompareAndSwapSessionBinding c False first now pnow uuid = (c', Inr True)"
    "sc_Key later = sc_Key first" "sc_ExpectedRevision later = sc_ExpectedRevision first"
    "uuid \<noteq> sc_ExpectedRevision first"
    "sc_ExpectedRevision first = []
      \<or> sb_AuthID (gomap_get no_binding (sk_entries c) (sc_Key first)) \<noteq> sc_AuthID first
      \<or> sb_ExpiresAt (gomap_get no_binding (sk_entries c) (sc_Key first)) \<le> now"
  shows "CompareAndSwapSessionBinding c' False later now2 pnow2 uuid2 = (c', Inr False)"
  using assms
  by (auto simp: CompareAndSwapSessionBinding_def Let_def split: if_splits)

theorem session_cas_first_wins_witness:
  "CompareAndSwapSessionBinding
     (fst (CompareAndSwapSessionBinding (NewSessionCache hour) False
        \<lparr>sc_Key = ''k'', sc_ExpectedRevision = [], sc_ExpiredAt = 0, sc_AuthID = ''a'', sc_TTL = 5\<rparr>
        1 1 ''u'')) False
     \<lparr>sc_Key = ''k'', sc_ExpectedRevision = [], sc_ExpiredAt = 0, sc_AuthID = ''b'', sc_TTL = 5\<rparr>
     2 2 ''v''
   = (fst (CompareAndSwapSessionBinding (NewSessionCache hour) False
        \<lparr>sc_Key = ''k'', sc_ExpectedRevision = [], sc_ExpiredAt = 0, sc_AuthID = ''a'', sc_TTL = 5\<rparr>
        1 1 ''u''), Inr False)"
proof (rule session_cas_first_wins)
  show "CompareAndSwapSessionBinding (NewSessionCache hour) False
      \<lparr>sc_Key = ''k'', sc_ExpectedRevision = [], sc_ExpiredAt = 0, sc_AuthID = ''a'', sc_TTL = 5\<rparr>
      1 1 ''u''
    = (fst (CompareAndSwapSessionBinding (NewSessionCache hour) False
        \<lparr>sc_Key = ''k'', sc_ExpectedRevision = [], sc_ExpiredAt = 0, sc_AuthID = ''a'', sc_TTL = 5\<rparr>
        1 1 ''u''), Inr True)"
    by (simp add: CompareAndSwapSessionBinding_def NewSessionCache_def no_binding_def)
qed simp_all

text \<open>
  The local binding cache stays bounded: every operation keeps at most 65536 entries with distinct
  keys.
\<close>

theorem session_cache_bounded:
  assumes "cache_wf c"
  shows "cache_wf (fst (cache_Get c sid now now2)) \<and> cache_wf (fst (cache_GetAndRefresh c sid now))
    \<and> cache_wf (cache_Set c sid authID now pnow uuid)
    \<and> cache_wf (fst (CompareAndSwapSessionBinding c cancelled commit now pnow uuid))
    \<and> cache_wf (cache_Invalidate c sid) \<and> cache_wf (cache_InvalidateAuth c authID)
    \<and> cache_wf (cache_cleanup c now)"
  using cache_op_wf [OF assms] by blast

theorem session_cache_bounded_witness:
  "cache_wf (fst (cache_Get (NewSessionCache hour) ''k'' 1 1))
    \<and> cache_wf (fst (cache_GetAndRefresh (NewSessionCache hour) ''k'' 1))
    \<and> cache_wf (cache_Set (NewSessionCache hour) ''k'' ''a'' 1 1 ''u'')
    \<and> cache_wf (fst (CompareAndSwapSessionBinding (NewSessionCache hour) False
        \<lparr>sc_Key = ''k'', sc_ExpectedRevision = [], sc_ExpiredAt = 0, sc_AuthID = ''a'', sc_TTL = 5\<rparr>
        1 1 ''u''))
    \<and> cache_wf (cache_Invalidate (NewSessionCache hour) ''k'')
    \<and> cache_wf (cache_InvalidateAuth (NewSessionCache hour) ''a'')
    \<and> cache_wf (cache_cleanup (NewSessionCache hour) 1)"
  by (rule session_cache_bounded) (simp add: cache_wf_def NewSessionCache_def)

end
