(* ===== verification/Result_Machine.thy ===== *)
theory Result_Machine
  imports Dispatch_Options "HOL-Library.Multiset"
begin

section \<open>The result state machine\<close>

text \<open>
  \<^verbatim>\<open>result.go\<close>: how a reported execution result changes the state of a credential and of one of its
  models, and what it asks of the model registry.  A model state is reached through its map entry:
  \<open>with_model_state\<close> writes back what the code does through the pointer.  The SHA-256 digest of an
  access token, in hexadecimal, is the parameter \<open>sha\<close>.
\<close>

record usage_result =
  re_AuthID :: string
  re_AuthIndex :: string
  re_Provider :: string
  re_Model :: string
  re_Success :: bool
  re_Error :: "auth_error option"
  re_RetryAfter :: "duration option"
  re_ResetAt :: "gotime option"
  re_AccessTokenSHA256 :: string

record mark_transition =
  mt_shouldResumeModel :: bool
  mt_shouldSuspendModel :: bool
  mt_suspendReason :: string
  mt_clearModelQuota :: bool
  mt_setModelQuota :: bool

definition no_transition :: mark_transition where
  "no_transition = \<lparr>mt_shouldResumeModel = False, mt_shouldSuspendModel = False,
     mt_suspendReason = [], mt_clearModelQuota = False, mt_setModelQuota = False\<rparr>"

definition quotaBackoffBase :: duration where
  "quotaBackoffBase = second"

definition quotaBackoffMax :: duration where
  "quotaBackoffMax = 30 * minute"

definition unauthorizedRetryBackoff :: duration where
  "unauthorizedRetryBackoff = minute"

definition quotaScopeModel :: string where
  "quotaScopeModel = ''model''"

definition providerQuotaHintMaxHorizon :: duration where
  "providerQuotaHintMaxHorizon = 60 * 24 * hour"

lemmas quota_defs = quotaBackoffBase_def quotaBackoffMax_def unauthorizedRetryBackoff_def
  providerQuotaHintMaxHorizon_def duration_defs

subsection \<open>Quota windows\<close>

definition nextQuotaCooldown :: "int \<Rightarrow> bool \<Rightarrow> duration \<times> int" where
  "nextQuotaCooldown prevLevel0 disableCooling =
     (let prevLevel = (if prevLevel0 < 0 then 0 else prevLevel0)
      in if disableCooling then (0, prevLevel)
         else if prevLevel \<ge> 11 then (quotaBackoffMax, prevLevel)
         else
           let cooldown0 = quotaBackoffBase * 2 ^ nat prevLevel;
               cooldown = (if cooldown0 < quotaBackoffBase then quotaBackoffBase else cooldown0)
           in if cooldown \<ge> quotaBackoffMax then (quotaBackoffMax, prevLevel)
              else (cooldown, prevLevel + 1))"

definition quota_window_open :: "quota_state \<Rightarrow> gotime \<Rightarrow> bool" where
  "quota_window_open quota now \<longleftrightarrow>
     q_NextRecoverAt quota > now \<and> time_sub (q_NextRecoverAt quota) now \<le> providerQuotaHintMaxHorizon"

definition later_than :: "gotime \<Rightarrow> gotime \<Rightarrow> gotime" where
  "later_than deadline t = (if t > deadline then t else deadline)"

definition quotaCooldownAfterFailure :: "quota_state \<Rightarrow> gotime \<Rightarrow> usage_result \<Rightarrow> gotime \<times> int" where
  "quotaCooldownAfterFailure quota now result =
     (let windowOpen = quota_window_open quota now;
          (deadline, nextLevel) =
            (if \<not> windowOpen
             then let (cooldown, level) = nextQuotaCooldown (q_BackoffLevel quota) False
                  in (now + cooldown, level)
             else (q_NextRecoverAt quota, q_BackoffLevel quota));
          provider = to_lower (trim_space (re_Provider result));
          by_delay = (case re_RetryAfter result of
              Some delay \<Rightarrow>
                if delay > 0 \<and> delay \<le> providerQuotaHintMaxHorizon then later_than deadline (now + delay)
                else deadline
            | None \<Rightarrow> deadline)
      in if provider \<noteq> ''antigravity'' \<and> provider \<noteq> ''codex'' then (deadline, nextLevel)
         else (case re_ResetAt result of
             Some resetAt \<Rightarrow>
               if resetAt > now \<and> time_sub resetAt now \<le> providerQuotaHintMaxHorizon
               then (later_than deadline resetAt, nextLevel)
               else (by_delay, nextLevel)
           | None \<Rightarrow> (by_delay, nextLevel)))"

subsection \<open>Which results count\<close>

definition model_support_patterns :: "string list" where
  "model_support_patterns =
     [''model_not_supported'', ''requested model is not supported'',
      ''requested model is unsupported'', ''requested model is unavailable'',
      ''model is not supported'', ''model not supported'', ''unsupported model'',
      ''model unavailable'', ''not available for your plan'', ''not available for your account'']"

definition isModelSupportErrorMessage :: "string \<Rightarrow> bool" where
  "isModelSupportErrorMessage message =
     (let lower = to_lower (trim_space message)
      in if lower = [] then False else list_ex (contains lower) model_support_patterns)"

definition isModelSupportResultError :: "auth_error option \<Rightarrow> bool" where
  "isModelSupportResultError err =
     (case err of
        None \<Rightarrow> False
      | Some e \<Rightarrow>
          let status = statusCodeFromResult (Some e)
          in if status \<noteq> 400 \<and> status \<noteq> 422 then False else isModelSupportErrorMessage (err_Message e))"

definition isRequestScopedNotFoundMessage :: "string \<Rightarrow> bool" where
  "isRequestScopedNotFoundMessage message =
     (if message = [] then False
      else let lower = to_lower message
           in contains lower ''item with id'' \<and> contains lower ''not found''
              \<and> contains lower ''items are not persisted when `store` is set to false'')"

definition isRequestScopedNotFoundResultError :: "auth_error option \<Rightarrow> bool" where
  "isRequestScopedNotFoundResultError err =
     (case err of
        None \<Rightarrow> False
      | Some e \<Rightarrow> if statusCodeFromResult (Some e) \<noteq> 404 then False
          else isRequestScopedNotFoundMessage (err_Message e))"

definition isStreamTruncatedResultError :: "auth_error option \<Rightarrow> bool" where
  "isStreamTruncatedResultError err =
     (case err of None \<Rightarrow> False | Some e \<Rightarrow> err_Code e = ErrorCodeStreamTruncated)"

definition is_hex_digit :: "char \<Rightarrow> bool" where
  "is_hex_digit c \<longleftrightarrow> List.member ''0123456789abcdefABCDEF'' c"

definition normalizeSHA256Hex :: "string \<Rightarrow> string \<times> bool" where
  "normalizeSHA256Hex value0 =
     (let value = to_lower (trim_space value0)
      in if go_len value \<noteq> 64 then ([], False)
         else if \<not> list_all is_hex_digit value then ([], False)
         else (value, True))"

fun token_in_map :: "(string \<Rightarrow> string option) \<Rightarrow> string list \<Rightarrow> string option" where
  "token_in_map look [] = None"
| "token_in_map look (key # keys) =
     (case look key of
        Some value \<Rightarrow> if trim_space value \<noteq> [] then Some (trim_space value) else token_in_map look keys
      | None \<Rightarrow> token_in_map look keys)"

definition string_at :: "(string, goval) gomap \<Rightarrow> string \<Rightarrow> string option" where
  "string_at m key = (case map_of m key of Some (VString s) \<Rightarrow> Some s | _ \<Rightarrow> None)"

definition token_in_value :: "goval option \<Rightarrow> string option" where
  "token_in_value v =
     (case v of
        Some (VMap token) \<Rightarrow> token_in_map (string_at token) [''access_token'', ''accessToken'']
      | Some (VStringMap token) \<Rightarrow> token_in_map (map_of token) [''access_token'', ''accessToken'']
      | _ \<Rightarrow> None)"

definition accessTokenForFingerprint :: "auth option \<Rightarrow> string" where
  "accessTokenForFingerprint auth =
     (case auth of
        None \<Rightarrow> []
      | Some a \<Rightarrow>
          (case token_in_map (string_at (au_Metadata a)) [''access_token'', ''accessToken''] of
             Some token \<Rightarrow> token
           | None \<Rightarrow>
               (case token_in_value (map_of (au_Metadata a) ''token'') of
                  Some token \<Rightarrow> token
                | None \<Rightarrow>
                    (case token_in_value (map_of (au_Metadata a) ''Token'') of
                       Some token \<Rightarrow> token
                     | None \<Rightarrow> []))))"

definition AccessTokenSHA256 :: "(string \<Rightarrow> string) \<Rightarrow> auth option \<Rightarrow> string" where
  "AccessTokenSHA256 sha auth =
     (let accessToken = accessTokenForFingerprint auth
      in if accessToken = [] then [] else sha accessToken)"

definition AuthIsNewerThanObserved :: "(string \<Rightarrow> string) \<Rightarrow> auth option \<Rightarrow> string \<Rightarrow> bool" where
  "AuthIsNewerThanObserved sha auth observed =
     (let (observedHash, okObserved) = normalizeSHA256Hex observed;
          (currentHash, okCurrent) = normalizeSHA256Hex (AccessTokenSHA256 sha auth)
      in okObserved \<and> okCurrent \<and> currentHash \<noteq> observedHash)"

definition isTokenVersionedSuccessResult :: "usage_result \<Rightarrow> bool" where
  "isTokenVersionedSuccessResult result =
     (snd (normalizeSHA256Hex (re_AccessTokenSHA256 result)) \<and> re_Success result)"

definition isTokenVersionFencedResult :: "usage_result \<Rightarrow> bool" where
  "isTokenVersionFencedResult result =
     (snd (normalizeSHA256Hex (re_AccessTokenSHA256 result))
      \<and> (re_Success result \<or> statusCodeFromResult (re_Error result) = 401))"

subsection \<open>Model states\<close>

definition active_state :: model_state where
  "active_state = \<lparr>ms_Status = StatusActive, ms_StatusMessage = [], ms_Unavailable = False,
     ms_NextRetryAfter = 0, ms_LastError = None, ms_Quota = no_quota, ms_UpdatedAt = 0,
     ms_QuotaResetAt = 0\<rparr>"

definition ensured_state :: "auth \<Rightarrow> string \<Rightarrow> model_state" where
  "ensured_state a model =
     (case model_state_at a model of Some state \<Rightarrow> state | None \<Rightarrow> active_state)"

text \<open>\<open>ensureModelState\<close> and the writes through the pointer it returns; a nil pointer for an empty model.\<close>

definition ensureModelState :: "auth \<Rightarrow> string \<Rightarrow> auth \<times> model_state option" where
  "ensureModelState a model =
     (if model = [] then (a, None)
      else (a\<lparr>au_ModelStates := AList.update model (Some (ensured_state a model)) (au_ModelStates a)\<rparr>,
            Some (ensured_state a model)))"

definition with_model_state :: "string \<Rightarrow> model_state \<Rightarrow> auth \<Rightarrow> auth" where
  "with_model_state model state a =
     a\<lparr>au_ModelStates := AList.update model (Some state) (au_ModelStates a)\<rparr>"

definition resetModelState :: "model_state \<Rightarrow> gotime \<Rightarrow> model_state" where
  "resetModelState state now =
     state\<lparr>ms_Unavailable := False, ms_Status := StatusActive, ms_StatusMessage := [],
       ms_NextRetryAfter := 0, ms_LastError := None, ms_Quota := no_quota, ms_UpdatedAt := now,
       ms_QuotaResetAt := 0\<rparr>"

fun aggregate_quota_loop :: "(string, model_state option) gomap \<Rightarrow> bool \<Rightarrow> gotime \<Rightarrow> int
    \<Rightarrow> bool \<times> gotime \<times> int" where
  "aggregate_quota_loop [] exceeded recover level = (exceeded, recover, level)"
| "aggregate_quota_loop ((model, state) # states) exceeded recover level =
     (case state of
        None \<Rightarrow> aggregate_quota_loop states exceeded recover level
      | Some s \<Rightarrow>
          if \<not> q_Exceeded (ms_Quota s) then aggregate_quota_loop states exceeded recover level
          else aggregate_quota_loop states True
            (if recover = 0 \<or> (q_NextRecoverAt (ms_Quota s) \<noteq> 0 \<and> q_NextRecoverAt (ms_Quota s) < recover)
             then q_NextRecoverAt (ms_Quota s) else recover)
            (if q_BackoffLevel (ms_Quota s) > level then q_BackoffLevel (ms_Quota s) else level))"

definition aggregateModelQuota :: "(string, model_state option) gomap \<Rightarrow> quota_state" where
  "aggregateModelQuota states =
     (let (exceeded, recover, level) = aggregate_quota_loop states False 0 0
      in if \<not> exceeded then no_quota
         else \<lparr>q_Exceeded = True, q_Scope = quotaScopeModel, q_Reason = ''quota'',
               q_NextRecoverAt = recover, q_BackoffLevel = level\<rparr>)"

definition clearAggregatedAvailability :: "auth \<Rightarrow> auth" where
  "clearAggregatedAvailability a =
     a\<lparr>au_Unavailable := False, au_NextRetryAfter := 0, au_Quota := no_quota\<rparr>"

text \<open>
  The loop of \<open>updateAggregatedAvailability\<close>: the states as it leaves them (an expired block is
  dropped), whether all are unavailable, the earliest retry, and whether there was a state.
\<close>

fun availability_loop :: "(string, model_state option) gomap \<Rightarrow> gotime \<Rightarrow> bool \<Rightarrow> gotime \<Rightarrow> bool
    \<Rightarrow> (string, model_state option) gomap \<times> bool \<times> gotime \<times> bool" where
  "availability_loop [] now allUnavailable earliestRetry hasState =
     ([], allUnavailable, earliestRetry, hasState)"
| "availability_loop ((model, state) # states) now allUnavailable earliestRetry hasState =
     (case state of
        None \<Rightarrow>
          (let (states', r) = availability_loop states now allUnavailable earliestRetry hasState
           in ((model, None) # states', r))
      | Some s \<Rightarrow>
          let (s', stateUnavailable, earliestRetry') =
                (if ms_Status s = StatusDisabled then (s, True, earliestRetry)
                 else if ms_Unavailable s
                 then (if ms_NextRetryAfter s = 0 then (s, False, earliestRetry)
                       else if ms_NextRetryAfter s > now
                       then (s, True,
                             if earliestRetry = 0 \<or> ms_NextRetryAfter s < earliestRetry
                             then ms_NextRetryAfter s else earliestRetry)
                       else (s\<lparr>ms_Unavailable := False, ms_NextRetryAfter := 0\<rparr>, False, earliestRetry))
                 else (s, False, earliestRetry));
              (states', r) = availability_loop states now
                (if \<not> stateUnavailable then False else allUnavailable) earliestRetry' True
          in ((model, Some s') # states', r))"

definition updateAggregatedAvailability :: "auth \<Rightarrow> gotime \<Rightarrow> auth" where
  "updateAggregatedAvailability a now =
     (if au_ModelStates a = [] then clearAggregatedAvailability a
      else
        let (states, allUnavailable, earliestRetry, hasState) =
              availability_loop (au_ModelStates a) now True 0 False;
            a' = a\<lparr>au_ModelStates := states\<rparr>
        in if \<not> hasState then clearAggregatedAvailability a'
           else a'\<lparr>au_Unavailable := allUnavailable,
                   au_NextRetryAfter := (if allUnavailable then earliestRetry else 0),
                   au_Quota := aggregateModelQuota states\<rparr>)"

definition state_has_error :: "gotime \<Rightarrow> model_state option \<Rightarrow> bool" where
  "state_has_error now state =
     (case state of
        None \<Rightarrow> False
      | Some s \<Rightarrow>
          ms_LastError s \<noteq> None
          \<or> (ms_Status s = StatusError \<and> ms_Unavailable s
             \<and> (ms_NextRetryAfter s = 0 \<or> ms_NextRetryAfter s > now)))"

definition hasModelError :: "auth \<Rightarrow> gotime \<Rightarrow> bool" where
  "hasModelError a now = list_ex (\<lambda>(model, state). state_has_error now state) (au_ModelStates a)"

subsection \<open>The transition\<close>

definition record_error :: "auth_error option \<Rightarrow> model_state \<Rightarrow> model_state" where
  "record_error err state =
     (case err of
        None \<Rightarrow> state
      | Some e \<Rightarrow> state\<lparr>ms_LastError := cloneError (Some e), ms_StatusMessage := err_Message e\<rparr>)"

definition record_auth_error :: "auth_error option \<Rightarrow> auth \<Rightarrow> auth" where
  "record_auth_error err a =
     (case err of
        None \<Rightarrow> a
      | Some e \<Rightarrow> a\<lparr>au_LastError := cloneError (Some e), au_StatusMessage := err_Message e\<rparr>)"

definition suspend_for :: "string \<Rightarrow> mark_transition" where
  "suspend_for reason = no_transition\<lparr>mt_suspendReason := reason, mt_shouldSuspendModel := True\<rparr>"

text \<open>What a failure that counts does to the state of its model.\<close>

definition failure_state :: "usage_result \<Rightarrow> gotime \<Rightarrow> bool \<Rightarrow> model_state \<Rightarrow> model_state \<times> mark_transition" where
  "failure_state result now disableCooling state0 =
     (let state = record_error (re_Error result)
            (state0\<lparr>ms_Unavailable := True, ms_Status := StatusError, ms_UpdatedAt := now\<rparr>);
          statusCode = statusCodeFromResult (re_Error result);
          retry_at = (\<lambda>t. state\<lparr>ms_NextRetryAfter := t\<rparr>)
      in if isModelSupportResultError (re_Error result)
         then (retry_at (now + 12 * hour), suspend_for ''model_not_supported'')
         else if statusCode = 401 then (retry_at (now + unauthorizedRetryBackoff), no_transition)
         else if statusCode = 402 \<or> statusCode = 403
         then (if disableCooling then (retry_at 0, no_transition)
               else (retry_at (now + 30 * minute), suspend_for ''payment_required''))
         else if statusCode = 404
         then (if disableCooling then (retry_at 0, no_transition)
               else (retry_at (now + 12 * hour), suspend_for ''not_found''))
         else if statusCode = 429
         then (if disableCooling
               then (state\<lparr>ms_Unavailable := False, ms_NextRetryAfter := 0, ms_QuotaResetAt := 0,
                       ms_Quota := no_quota\<lparr>q_Scope := quotaScopeModel, q_Reason := ''quota'',
                         q_BackoffLevel := q_BackoffLevel (ms_Quota state)\<rparr>\<rparr>,
                     no_transition\<lparr>mt_clearModelQuota := True, mt_shouldResumeModel := True\<rparr>)
               else let (next, nextBackoffLevel) = quotaCooldownAfterFailure (ms_Quota state) now result
                    in (state\<lparr>ms_NextRetryAfter := next, ms_QuotaResetAt := 0,
                          ms_Quota := \<lparr>q_Exceeded = True, q_Scope = quotaScopeModel, q_Reason = ''quota'',
                            q_NextRecoverAt = next, q_BackoffLevel = nextBackoffLevel\<rparr>\<rparr>,
                        (suspend_for ''quota'')\<lparr>mt_setModelQuota := True\<rparr>))
         else if List.member [408, 500, 502, 503, 504] statusCode
         then (if disableCooling then (retry_at 0, no_transition)
               else (retry_at (now + minute), no_transition))
         else (retry_at 0, no_transition))"

text \<open>A refresh block in force before the result is kept as it was.\<close>

definition keep_refresh_block :: "auth \<Rightarrow> auth \<Rightarrow> auth" where
  "keep_refresh_block before a =
     a\<lparr>au_Status := au_Status before, au_StatusMessage := au_StatusMessage before,
       au_LastError := cloneError (au_LastError before), au_Unavailable := True,
       au_NextRetryAfter := au_NextRetryAfter before,
       au_RuntimeRefreshBlocked := au_RuntimeRefreshBlocked before\<rparr>"

definition success_transition :: "auth \<Rightarrow> string \<Rightarrow> gotime \<Rightarrow> auth" where
  "success_transition a resultModel now =
     (let a1 = (case ensureModelState a resultModel of
                  (a', None) \<Rightarrow> a'
                | (a', Some state) \<Rightarrow> with_model_state resultModel (resetModelState state now) a');
          a2 = updateAggregatedAvailability a1 now;
          a3 = (if RefreshBlocksDispatch (Some a) then keep_refresh_block a a2
                else if \<not> hasModelError a2 now
                then a2\<lparr>au_LastError := None, au_StatusMessage := [], au_Status := StatusActive\<rparr>
                else a2)
      in a3\<lparr>au_UpdatedAt := now\<rparr>)"

definition failure_transition ::
    "auth \<Rightarrow> usage_result \<Rightarrow> string \<Rightarrow> gotime \<Rightarrow> bool \<Rightarrow> model_state \<Rightarrow> auth \<times> mark_transition" where
  "failure_transition a result resultModel now disableCooling state0 =
     (let (state, transition) = failure_state result now disableCooling state0;
          a1 = record_auth_error (re_Error result) (with_model_state resultModel state a);
          a2 = updateAggregatedAvailability (a1\<lparr>au_Status := StatusError, au_UpdatedAt := now\<rparr>) now
      in (if RefreshBlocksDispatch (Some a) then keep_refresh_block a a2 else a2, transition))"

text \<open>
  \<open>None\<close> is the nil dereference of a failure reported for the empty model; the callers drop such
  results, and pass a credential that is not nil.
\<close>

definition applyResultTransition :: "(string \<Rightarrow> string) \<Rightarrow> auth \<Rightarrow> usage_result \<Rightarrow> string \<Rightarrow> gotime \<Rightarrow> bool
    \<Rightarrow> (auth \<times> mark_transition) option" where
  "applyResultTransition sha a result resultModel now disableCooling =
     (if isTokenVersionFencedResult result
         \<and> AuthIsNewerThanObserved sha (Some a) (re_AccessTokenSHA256 result)
      then Some (a, no_transition)
      else if re_Success result
      then Some (success_transition a resultModel now,
             no_transition\<lparr>mt_shouldResumeModel := True, mt_clearModelQuota := True\<rparr>)
      else if (case re_Error result of None \<Rightarrow> False | Some e \<Rightarrow> err_Code e = ErrorCodeRequestScoped)
              \<or> isRequestScopedNotFoundResultError (re_Error result)
      then Some (a, no_transition)
      else case ensureModelState a resultModel of
          (a', None) \<Rightarrow> None
        | (a', Some state) \<Rightarrow>
            if isStreamTruncatedResultError (re_Error result)
            then Some ((record_auth_error (re_Error result)
                     (with_model_state resultModel
                       (record_error (re_Error result)
                         (state\<lparr>ms_Status := StatusError, ms_UpdatedAt := now\<rparr>)) a'))
                   \<lparr>au_UpdatedAt := now\<rparr>, no_transition)
            else (let (a2, transition) = failure_transition a' result resultModel now disableCooling state
                  in Some (a2, transition)))"

subsection \<open>Which node applies it\<close>

record quota_fingerprint =
  qf_exceeded :: bool
  qf_scope :: string
  qf_reason :: string
  qf_recoverUnix :: int
  qf_level :: int

record availability_fingerprint =
  af_status :: auth_status
  af_disabled :: bool
  af_unavailable :: bool
  af_nextRetryUnix :: int
  af_quota :: quota_fingerprint
  af_model :: "(auth_status \<times> bool \<times> int \<times> int \<times> quota_fingerprint) option"

definition fingerprintUnix :: "gotime \<Rightarrow> int" where
  "fingerprintUnix t = (if t = 0 then 0 else unix_nano t)"

definition fingerprintQuota :: "quota_state \<Rightarrow> quota_fingerprint" where
  "fingerprintQuota quota =
     \<lparr>qf_exceeded = q_Exceeded quota, qf_scope = q_Scope quota, qf_reason = q_Reason quota,
      qf_recoverUnix = fingerprintUnix (q_NextRecoverAt quota), qf_level = q_BackoffLevel quota\<rparr>"

definition availabilityFingerprint :: "auth \<Rightarrow> string \<Rightarrow> availability_fingerprint" where
  "availabilityFingerprint a resultModel =
     \<lparr>af_status = au_Status a, af_disabled = au_Disabled a, af_unavailable = au_Unavailable a,
      af_nextRetryUnix = fingerprintUnix (au_NextRetryAfter a), af_quota = fingerprintQuota (au_Quota a),
      af_model = (if resultModel = [] then None
        else map_option (\<lambda>state. (ms_Status state, ms_Unavailable state,
               fingerprintUnix (ms_NextRetryAfter state), fingerprintUnix (ms_QuotaResetAt state),
               fingerprintQuota (ms_Quota state))) (model_state_at a resultModel))\<rparr>"

definition disabledQuotaStateAlreadyApplied :: "auth \<Rightarrow> string \<Rightarrow> bool" where
  "disabledQuotaStateAlreadyApplied a resultModel =
     (if resultModel = [] \<or> au_Status a \<noteq> StatusError \<or> au_Unavailable a \<or> au_NextRetryAfter a \<noteq> 0
         \<or> fingerprintQuota (au_Quota a) \<noteq> fingerprintQuota (aggregateModelQuota (au_ModelStates a))
      then False
      else case model_state_at a resultModel of
          None \<Rightarrow> False
        | Some state \<Rightarrow>
            ms_Status state = StatusError \<and> \<not> ms_Unavailable state \<and> ms_NextRetryAfter state = 0
            \<and> ms_QuotaResetAt state = 0 \<and> \<not> q_Exceeded (ms_Quota state)
            \<and> q_Scope (ms_Quota state) = quotaScopeModel \<and> q_Reason (ms_Quota state) = ''quota''
            \<and> q_NextRecoverAt (ms_Quota state) = 0)"

definition authQuotaWindowOpen :: "auth \<Rightarrow> string \<Rightarrow> gotime \<Rightarrow> bool" where
  "authQuotaWindowOpen a resultModel now =
     (if resultModel = [] then False
      else case model_state_at a resultModel of
          None \<Rightarrow> False
        | Some state \<Rightarrow> q_Exceeded (ms_Quota state) \<and> quota_window_open (ms_Quota state) now)"

definition authHasClearableAvailabilityState :: "auth \<Rightarrow> string \<Rightarrow> gotime \<Rightarrow> bool" where
  "authHasClearableAvailabilityState a resultModel now =
     (if resultModel = [] then False
      else if (case model_state_at a resultModel of
                 None \<Rightarrow> False
               | Some state \<Rightarrow> ms_Unavailable state \<or> q_Exceeded (ms_Quota state)
                   \<or> ms_NextRetryAfter state \<noteq> 0 \<or> ms_Status state = StatusError
                   \<or> ms_QuotaResetAt state \<noteq> 0)
      then True
      else au_Status a = StatusError \<and> \<not> hasModelError a now)"

definition resultNeedsGlobalTransition :: "auth \<Rightarrow> usage_result \<Rightarrow> string \<Rightarrow> gotime \<Rightarrow> bool \<Rightarrow> bool" where
  "resultNeedsGlobalTransition a result resultModel now disableCooling =
     (let statusCode = statusCodeFromResult (re_Error result)
      in if re_Success result then authHasClearableAvailabilityState a resultModel now
         else if statusCode = 401 then True
         else if statusCode \<noteq> 429 then False
         else if isModelSupportResultError (re_Error result) then False
         else if disableCooling then \<not> disabledQuotaStateAlreadyApplied a resultModel
         else
           let state = model_state_at a resultModel;
               quota = (case state of Some s \<Rightarrow> ms_Quota s | None \<Rightarrow> no_quota);
               (next, nextBackoffLevel) = quotaCooldownAfterFailure quota now result
           in if \<not> authQuotaWindowOpen a resultModel now then True
              else (case state of
                  None \<Rightarrow> True
                | Some s \<Rightarrow> ms_NextRetryAfter s \<noteq> next \<or> q_NextRecoverAt (ms_Quota s) \<noteq> next
                    \<or> q_BackoffLevel (ms_Quota s) \<noteq> nextBackoffLevel))"

definition disableAuthAfterUnauthorized ::
    "auth \<Rightarrow> model_state option \<Rightarrow> auth_error option \<Rightarrow> gotime \<Rightarrow> auth \<times> model_state option" where
  "disableAuthAfterUnauthorized a state resultErr now =
     (let unauthorized = \<lparr>err_Code = [], err_Message = ''Unauthorized'', err_Diagnostic = [],
            err_Retryable = False, err_HTTPStatus = 401, err_Upstream = None\<rparr>;
          last = (\<lambda>old. case resultErr of
                      Some e \<Rightarrow> cloneError (Some e)
                    | None \<Rightarrow> if old = None then Some unauthorized else old)
      in (a\<lparr>au_Disabled := True, au_Unavailable := True, au_RuntimeRefreshBlocked := False,
            au_Status := StatusDisabled, au_StatusMessage := ''unauthorized'', au_NextRetryAfter := 0,
            au_NextRefreshAfter := 0, au_LastRefreshError := None, au_Quota := no_quota,
            au_UpdatedAt := now, au_LastError := last (au_LastError a)\<rparr>,
          map_option (\<lambda>s. s\<lparr>ms_Unavailable := True, ms_Status := StatusDisabled,
            ms_StatusMessage := ''unauthorized'', ms_NextRetryAfter := 0, ms_Quota := no_quota,
            ms_UpdatedAt := now, ms_LastError := last (ms_LastError s)\<rparr>) state))"

subsection \<open>The backoff ladder and the window\<close>

lemma nextQuotaCooldown_eq:
  "nextQuotaCooldown level False =
    (if level < 11 then (second * 2 ^ nat level, max 0 level + 1) else (30 * minute, level))"
proof (cases "level < 11")
  case True
  let ?l = "if level < 0 then 0 else level"
  have "nat ?l < 11" "nat ?l = nat level"
    using True by auto
  then have "(2::int) ^ nat ?l \<le> 2 ^ 10" "(1::int) \<le> 2 ^ nat ?l"
    by (intro power_increasing) auto
  then have "second \<le> second * 2 ^ nat ?l" "second * 2 ^ nat ?l < 30 * minute"
    by (simp_all add: duration_defs)
  then show ?thesis
    using True \<open>nat ?l = nat level\<close>
    by (simp add: nextQuotaCooldown_def quotaBackoffBase_def quotaBackoffMax_def Let_def max_def)
qed (simp add: nextQuotaCooldown_def quotaBackoffMax_def)

lemma ladder_bounds:
  "0 < fst (nextQuotaCooldown level False)" "fst (nextQuotaCooldown level False) \<le> 30 * minute"
proof -
  have "(2::int) ^ nat level \<le> 1024" if "level < 11"
    using power_increasing [of "nat level" 10 "2::int"] that by simp
  then show "fst (nextQuotaCooldown level False) \<le> 30 * minute"
    by (force simp: nextQuotaCooldown_eq duration_defs)
  show "0 < fst (nextQuotaCooldown level False)"
    by (simp add: nextQuotaCooldown_eq duration_defs)
qed

lemma quota_window_open_iff:
  "quota_window_open q now \<longleftrightarrow>
   now < q_NextRecoverAt q \<and> q_NextRecoverAt q \<le> now + providerQuotaHintMaxHorizon"
  by (auto simp: quota_window_open_def time_sub_le_iff quota_defs max_i64_def min_i64_def)

lemma hint_in_horizon_iff:
  "now < t \<and> time_sub t now \<le> providerQuotaHintMaxHorizon \<longleftrightarrow>
   now < t \<and> t \<le> now + providerQuotaHintMaxHorizon"
  by (auto simp: time_sub_le_iff quota_defs max_i64_def min_i64_def)

text \<open>The base of a window: the open one, or the next step of the ladder.\<close>

definition window_base :: "quota_state \<Rightarrow> gotime \<Rightarrow> gotime \<times> int" where
  "window_base quota now =
     (if quota_window_open quota now then (q_NextRecoverAt quota, q_BackoffLevel quota)
      else (now + fst (nextQuotaCooldown (q_BackoffLevel quota) False),
            snd (nextQuotaCooldown (q_BackoffLevel quota) False)))"

lemma window_base_bounds:
  "now < fst (window_base q now)" "fst (window_base q now) \<le> now + providerQuotaHintMaxHorizon"
proof -
  have "30 * minute \<le> providerQuotaHintMaxHorizon"
    by (simp add: quota_defs)
  then show "now < fst (window_base q now)"
    "fst (window_base q now) \<le> now + providerQuotaHintMaxHorizon"
    using ladder_bounds [of "q_BackoffLevel q"]
    by (auto simp: window_base_def quota_window_open_iff)
qed

definition hinted :: "gotime \<Rightarrow> usage_result \<Rightarrow> gotime \<Rightarrow> gotime" where
  "hinted now result d =
     (let by_delay = (case re_RetryAfter result of
            None \<Rightarrow> d
          | Some delay \<Rightarrow> if delay > 0 \<and> delay \<le> providerQuotaHintMaxHorizon
              then later_than d (now + delay) else d)
      in if to_lower (trim_space (re_Provider result)) \<noteq> ''antigravity''
            \<and> to_lower (trim_space (re_Provider result)) \<noteq> ''codex'' then d
         else case re_ResetAt result of
             None \<Rightarrow> by_delay
           | Some resetAt \<Rightarrow>
               if resetAt > now \<and> time_sub resetAt now \<le> providerQuotaHintMaxHorizon
               then later_than d resetAt else by_delay)"

lemma quotaCooldownAfterFailure_eq:
  "quotaCooldownAfterFailure q now r = (hinted now r (fst (window_base q now)), snd (window_base q now))"
proof (cases "quota_window_open q now")
  case True
  then show ?thesis
    by (simp add: quotaCooldownAfterFailure_def window_base_def hinted_def Let_def split: option.split)
next
  case False
  then show ?thesis
    by (cases "nextQuotaCooldown (q_BackoffLevel q) False")
      (simp add: quotaCooldownAfterFailure_def window_base_def hinted_def Let_def split: option.split)
qed

lemma hinted_bounds:
  "d \<le> hinted now r d"
  "d \<le> now + providerQuotaHintMaxHorizon \<Longrightarrow> hinted now r d \<le> now + providerQuotaHintMaxHorizon"
  by (auto simp: hinted_def Let_def later_than_def hint_in_horizon_iff split: option.split)

lemma quotaCooldown_level: "snd (quotaCooldownAfterFailure q now r) = snd (window_base q now)"
  by (simp add: quotaCooldownAfterFailure_eq)

lemma quotaCooldown_deadline:
  "fst (window_base q now) \<le> fst (quotaCooldownAfterFailure q now r)"
  "fst (quotaCooldownAfterFailure q now r) \<le> now + providerQuotaHintMaxHorizon"
  using hinted_bounds window_base_bounds(2) [of q now] by (simp_all add: quotaCooldownAfterFailure_eq)

lemma quotaCooldown_future: "now < fst (quotaCooldownAfterFailure q now r)"
  using quotaCooldown_deadline(1) [of q now r] window_base_bounds(1) [of now q] by linarith

subsection \<open>Aggregation settles expired blocks and nothing else\<close>

definition settle :: "gotime \<Rightarrow> model_state \<Rightarrow> model_state" where
  "settle now s =
     (if ms_Status s \<noteq> StatusDisabled \<and> ms_Unavailable s \<and> ms_NextRetryAfter s \<noteq> 0
         \<and> \<not> ms_NextRetryAfter s > now
      then s\<lparr>ms_Unavailable := False, ms_NextRetryAfter := 0\<rparr> else s)"

definition is_down :: "gotime \<Rightarrow> model_state \<Rightarrow> bool" where
  "is_down now s \<longleftrightarrow> ms_Status s = StatusDisabled
     \<or> (ms_Unavailable s \<and> ms_NextRetryAfter s \<noteq> 0 \<and> ms_NextRetryAfter s > now)"

definition live_states :: "(string, model_state option) gomap \<Rightarrow> model_state list" where
  "live_states states = List.map_filter snd states"

definition pending_retries :: "gotime \<Rightarrow> (string, model_state option) gomap \<Rightarrow> gotime list" where
  "pending_retries now states =
     map ms_NextRetryAfter (filter (\<lambda>s. ms_Status s \<noteq> StatusDisabled \<and> is_down now s) (live_states states))"

lemma live_states_simps [simp]:
  "live_states [] = []"
  "live_states ((m, None) # states) = live_states states"
  "live_states ((m, Some s) # states) = s # live_states states"
  by (simp_all add: live_states_def)

lemma live_states_mem: "s \<in> set (live_states states) \<longleftrightarrow> (\<exists>m. (m, Some s) \<in> set states)"
proof (induction states)
  case (Cons ms states)
  then show ?case
    by (cases ms; cases "snd ms") auto
qed simp

lemma availability_loop_eq:
  "availability_loop states now allUnav e has =
    (map (\<lambda>(m, s). (m, map_option (settle now) s)) states,
     allUnav \<and> list_all (is_down now) (live_states states),
     foldl earlier e (pending_retries now states),
     has \<or> live_states states \<noteq> [])"
proof (induction states arbitrary: allUnav e has)
  case (Cons ms states)
  obtain m s where ms: "ms = (m, s)"
    by (cases ms)
  show ?case
  proof (cases s)
    case (Some st)
    then show ?thesis
      by (auto simp: ms Cons pending_retries_def settle_def is_down_def earlier_def Let_def)
  qed (simp add: ms Cons pending_retries_def)
qed (simp add: pending_retries_def)

definition settle_all :: "gotime \<Rightarrow> auth \<Rightarrow> auth" where
  "settle_all now a =
     a\<lparr>au_ModelStates := map (\<lambda>(m, s). (m, map_option (settle now) s)) (au_ModelStates a)\<rparr>"

text \<open>The aggregate: what the loop computes, without its order.\<close>

lemma updateAggregatedAvailability_eq:
  "updateAggregatedAvailability a now =
    (let down = list_all (is_down now) (live_states (au_ModelStates a));
         some = live_states (au_ModelStates a) \<noteq> []
     in (settle_all now a)
       \<lparr>au_Unavailable := some \<and> down,
        au_NextRetryAfter := (if some \<and> down
          then foldl earlier 0 (pending_retries now (au_ModelStates a)) else 0),
        au_Quota := (if some then aggregateModelQuota (au_ModelStates (settle_all now a))
                     else no_quota)\<rparr>)"
proof (cases "au_ModelStates a = []")
  case True
  then show ?thesis
    by (simp add: updateAggregatedAvailability_def clearAggregatedAvailability_def settle_all_def)
next
  case False
  then show ?thesis
    by (auto simp: updateAggregatedAvailability_def clearAggregatedAvailability_def settle_all_def
        availability_loop_eq Let_def)
qed

lemma map_of_map_option: "map_of (map (\<lambda>(m, s). (m, f s)) ms) k = map_option f (map_of ms k)"
  by (induction ms) auto

lemma model_state_at_settle [simp]:
  "model_state_at (settle_all now a) m = map_option (settle now) (model_state_at a m)"
  by (simp add: model_state_at_def settle_all_def gomap_get_def map_of_map_option split: option.splits)

lemma model_state_at_aggregate [simp]:
  "model_state_at (updateAggregatedAvailability a now) m
    = map_option (settle now) (model_state_at a m)"
  unfolding updateAggregatedAvailability_eq Let_def by (simp add: model_state_at_def)
    (simp add: model_state_at_def [symmetric])

lemma aggregate_keeps [simp]:
  "au_ID (updateAggregatedAvailability a now) = au_ID a"
  "au_Status (updateAggregatedAvailability a now) = au_Status a"
  "au_StatusMessage (updateAggregatedAvailability a now) = au_StatusMessage a"
  "au_Disabled (updateAggregatedAvailability a now) = au_Disabled a"
  "au_LastError (updateAggregatedAvailability a now) = au_LastError a"
  "au_RuntimeRefreshBlocked (updateAggregatedAvailability a now) = au_RuntimeRefreshBlocked a"
  "au_UpdatedAt (updateAggregatedAvailability a now) = au_UpdatedAt a"
  by (simp_all add: updateAggregatedAvailability_eq settle_all_def Let_def)

lemma settle_blocks: "now \<le> t \<Longrightarrow> model_state_blocks (settle now s) t = model_state_blocks s t"
  by (auto simp: settle_def model_state_blocks_def)

subsection \<open>What a result leaves behind\<close>

lemma blocked_by_state:
  assumes "\<not> au_Disabled a" "au_Status a \<noteq> StatusDisabled" "\<not> RefreshBlocksDispatch (Some a)"
    "model \<noteq> []" "model_state_at a model = Some s"
  shows "isAuthBlockedForModel (Some a) model t = model_state_blocks s t"
  using assms by (simp add: isAuthBlockedForModel_def state_for_model_def)

lemma model_state_at_with [simp]:
  "model_state_at (with_model_state m s a) k = (if k = m then Some s else model_state_at a k)"
  by (simp add: with_model_state_def model_state_at_def)

lemma with_model_state_keeps [simp]:
  "au_Status (with_model_state m s a) = au_Status a"
  "au_Disabled (with_model_state m s a) = au_Disabled a"
  "au_LastError (with_model_state m s a) = au_LastError a"
  "au_RuntimeRefreshBlocked (with_model_state m s a) = au_RuntimeRefreshBlocked a"
  "au_Unavailable (with_model_state m s a) = au_Unavailable a"
  by (simp_all add: with_model_state_def)

lemma ensureModelState_eq:
  "model \<noteq> [] \<Longrightarrow> ensureModelState a model
    = (with_model_state model (ensured_state a model) a, Some (ensured_state a model))"
  by (simp add: ensureModelState_def with_model_state_def)

lemma live_state_at:
  "model_state_at a m = Some s \<Longrightarrow> s \<in> set (live_states (au_ModelStates a))"
  by (auto simp: model_state_at_def gomap_get_def live_states_def List.map_filter_def
      split: option.splits dest!: map_of_SomeD intro!: rev_image_eqI)

lemma aggregate_available:
  assumes "model_state_at a m = Some s" "\<not> is_down now s"
  shows "\<not> au_Unavailable (updateAggregatedAvailability a now)"
    "au_NextRetryAfter (updateAggregatedAvailability a now) = 0"
  using live_state_at [OF assms(1)] assms(2)
  by (auto simp: updateAggregatedAvailability_eq Let_def list_all_iff)

lemma not_refresh_blocked_available:
  "\<not> au_Unavailable a \<Longrightarrow> \<not> RefreshBlocksDispatch (Some a)"
  by (simp add: RefreshBlocksDispatch_def)

text \<open>A failure that counts: not fenced by a newer token, not scoped to its request, not a truncation.\<close>

definition counted_failure :: "(string \<Rightarrow> string) \<Rightarrow> auth \<Rightarrow> usage_result \<Rightarrow> auth_error \<Rightarrow> bool" where
  "counted_failure sha a result e \<longleftrightarrow>
     \<not> (isTokenVersionFencedResult result
        \<and> AuthIsNewerThanObserved sha (Some a) (re_AccessTokenSHA256 result))
     \<and> \<not> re_Success result \<and> re_Error result = Some e
     \<and> err_Code e \<noteq> ErrorCodeRequestScoped \<and> err_Code e \<noteq> ErrorCodeStreamTruncated
     \<and> \<not> isRequestScopedNotFoundResultError (Some e)"

definition dispatchable :: "auth \<Rightarrow> bool" where
  "dispatchable a \<longleftrightarrow> \<not> au_Disabled a \<and> \<not> au_RuntimeRefreshBlocked a \<and> \<not> RefreshBlocksDispatch (Some a)"

lemma RefreshBlocksDispatch_with [simp]:
  "RefreshBlocksDispatch (Some (with_model_state m s a)) = RefreshBlocksDispatch (Some a)"
  by (simp add: RefreshBlocksDispatch_def with_model_state_def)

lemma record_auth_error_keeps [simp]:
  "model_state_at (record_auth_error err a) m = model_state_at a m"
  "au_Disabled (record_auth_error err a) = au_Disabled a"
  "au_RuntimeRefreshBlocked (record_auth_error err a) = au_RuntimeRefreshBlocked a"
  by (auto simp: record_auth_error_def model_state_at_def split: option.split)

lemma model_state_at_fields [simp]:
  "model_state_at (a\<lparr>au_Status := x\<rparr>) m = model_state_at a m"
  "model_state_at (a\<lparr>au_UpdatedAt := y\<rparr>) m = model_state_at a m"
  by (simp_all add: model_state_at_def)

text \<open>The credential after a counted failure, when no refresh block is in force.\<close>

lemma counted_failure_result:
  assumes "counted_failure sha a result e" "model \<noteq> []" "\<not> RefreshBlocksDispatch (Some a)"
    "applyResultTransition sha a result model now disableCooling = Some (a', tr)"
  defines "st \<equiv> fst (failure_state result now disableCooling (ensured_state a model))"
  shows "model_state_at a' model = Some (settle now st)" "au_Disabled a' = au_Disabled a"
    "au_Status a' = StatusError" "au_LastError a' = Some e"
    "au_RuntimeRefreshBlocked a' = au_RuntimeRefreshBlocked a"
    "\<not> is_down now st \<Longrightarrow> \<not> au_Unavailable a'"
    "tr = snd (failure_state result now disableCooling (ensured_state a model))"
proof -
  let ?a1 = "(record_auth_error (Some e) (with_model_state model st
      (with_model_state model (ensured_state a model) a)))\<lparr>au_Status := StatusError, au_UpdatedAt := now\<rparr>"
  have "a' = updateAggregatedAvailability ?a1 now
      \<and> tr = snd (failure_state result now disableCooling (ensured_state a model))"
    using assms unfolding counted_failure_def
    by (auto simp: applyResultTransition_def ensureModelState_eq isStreamTruncatedResultError_def
        failure_transition_def Let_def split: prod.splits if_splits)
  then have a': "a' = updateAggregatedAvailability ?a1 now"
    and tr: "tr = snd (failure_state result now disableCooling (ensured_state a model))"
    by simp_all
  have at: "model_state_at ?a1 model = Some st"
    by simp
  show "model_state_at a' model = Some (settle now st)" "au_Disabled a' = au_Disabled a"
    "au_Status a' = StatusError" "au_LastError a' = Some e"
    "au_RuntimeRefreshBlocked a' = au_RuntimeRefreshBlocked a"
    by (simp_all add: a') (simp_all add: record_auth_error_def)
  show "\<not> is_down now st \<Longrightarrow> \<not> au_Unavailable a'"
    unfolding a' by (rule aggregate_available(1) [OF at])
  show "tr = snd (failure_state result now disableCooling (ensured_state a model))"
    by (rule tr)
qed

lemma counted_failure_blocks:
  assumes "counted_failure sha a result e" "model \<noteq> []" "dispatchable a"
    "\<not> equal_fold (trim_space (err_Code e)) refreshTransientErrorCode"
    "applyResultTransition sha a result model now disableCooling = Some (a', tr)" "now \<le> t"
  shows "isAuthBlockedForModel (Some a') model t
    = model_state_blocks (fst (failure_state result now disableCooling (ensured_state a model))) t"
proof -
  note r = counted_failure_result [OF assms(1,2) _ assms(5)]
  have nb: "\<not> RefreshBlocksDispatch (Some a)" "\<not> au_RuntimeRefreshBlocked a" "\<not> au_Disabled a"
    using assms(3) by (simp_all add: dispatchable_def)
  have "\<not> RefreshBlocksDispatch (Some a')"
    using r(4,5) nb assms(4) by (simp add: RefreshBlocksDispatch_def)
  then show ?thesis
    using blocked_by_state [of a' model] r(1-3) nb assms(2,6) by (simp add: settle_blocks)
qed

lemma failure_state_429:
  assumes "re_Error result = Some e" "err_HTTPStatus e = 429"
  shows "fst (failure_state result now False s) =
    (record_error (Some e) (s\<lparr>ms_Unavailable := True, ms_Status := StatusError, ms_UpdatedAt := now\<rparr>))
    \<lparr>ms_NextRetryAfter := fst (quotaCooldownAfterFailure (ms_Quota s) now result), ms_QuotaResetAt := 0,
     ms_Quota := \<lparr>q_Exceeded = True, q_Scope = quotaScopeModel, q_Reason = ''quota'',
       q_NextRecoverAt = fst (quotaCooldownAfterFailure (ms_Quota s) now result),
       q_BackoffLevel = snd (quotaCooldownAfterFailure (ms_Quota s) now result)\<rparr>\<rparr>"
  using assms
  by (simp add: failure_state_def record_error_def statusCodeFromResult_def
      isModelSupportResultError_def Let_def split: prod.split)

lemma quota_failure_blocks:
  assumes "counted_failure sha a result e" "err_HTTPStatus e = 429" "model \<noteq> []" "dispatchable a"
    "\<not> equal_fold (trim_space (err_Code e)) refreshTransientErrorCode"
    "applyResultTransition sha a result model now False = Some (a', tr)" "now \<le> t" "0 \<le> now"
  defines "d \<equiv> fst (quotaCooldownAfterFailure (ms_Quota (ensured_state a model)) now result)"
  shows "isAuthBlockedForModel (Some a') model t =
    (if t < d then (True, BlockReasonCooldown, d) else (False, BlockReasonNone, 0))"
proof -
  have e: "re_Error result = Some e"
    using assms(1) by (simp add: counted_failure_def)
  have "now < d"
    unfolding d_def by (rule quotaCooldown_future)
  then have "d \<noteq> 0"
    using assms(8) by simp
  then show ?thesis
    unfolding counted_failure_blocks [OF assms(1,3,4,5,6,7)] failure_state_429 [OF e assms(2)]
    by (simp add: model_state_blocks_def record_error_def d_def [symmetric])
qed

lemma model_state_blocks_no_retry:
  "ms_NextRetryAfter s = 0 \<Longrightarrow> ms_Status s \<noteq> StatusDisabled \<Longrightarrow>
   model_state_blocks s t = (False, BlockReasonNone, 0)"
  by (simp add: model_state_blocks_def)

lemma failure_state_no_cooling:
  assumes "statusCodeFromResult (re_Error result) \<noteq> 401" "\<not> isModelSupportResultError (re_Error result)"
  shows "ms_NextRetryAfter (fst (failure_state result now True s)) = 0"
    "ms_Status (fst (failure_state result now True s)) = StatusError"
  using assms by (auto simp: failure_state_def record_error_def Let_def split: option.split)

lemma settle_no_retry: "ms_NextRetryAfter s = 0 \<Longrightarrow> settle now s = s"
  by (simp add: settle_def)

lemma is_down_no_retry: "ms_NextRetryAfter s = 0 \<Longrightarrow> ms_Status s \<noteq> StatusDisabled \<Longrightarrow> \<not> is_down now s"
  by (simp add: is_down_def)

lemma no_cooling_unblocked:
  assumes "counted_failure sha a result e" "model \<noteq> []" "\<not> au_Disabled a"
    "\<not> RefreshBlocksDispatch (Some a)" "err_HTTPStatus e \<noteq> 401" "\<not> isModelSupportResultError (Some e)"
    "applyResultTransition sha a result model now True = Some (a', tr)"
  shows "isAuthBlockedForModel (Some a') model t = (False, BlockReasonNone, 0)"
proof -
  let ?s = "fst (failure_state result now True (ensured_state a model))"
  note r = counted_failure_result [OF assms(1,2,4,7)]
  have s: "ms_NextRetryAfter ?s = 0" "ms_Status ?s = StatusError"
    using failure_state_no_cooling [of result now] assms(1,5,6)
    by (simp_all add: counted_failure_def statusCodeFromResult_def)
  then have "\<not> au_Unavailable a'"
    by (intro r(6) is_down_no_retry) simp_all
  moreover have "model_state_at a' model = Some ?s"
    using r(1) settle_no_retry [OF s(1)] by simp
  ultimately show ?thesis
    using blocked_by_state [of a' model ?s t] r(2,3) assms(2,3) s
    by (simp add: not_refresh_blocked_available model_state_blocks_no_retry)
qed

subsection \<open>Success\<close>

lemma success_result:
  assumes "re_Success result" "\<not> (isTokenVersionFencedResult result
      \<and> AuthIsNewerThanObserved sha (Some a) (re_AccessTokenSHA256 result))"
    "model \<noteq> []" "\<not> RefreshBlocksDispatch (Some a)"
    "applyResultTransition sha a result model now disableCooling = Some (a', tr)"
  shows "model_state_at a' model = Some (resetModelState (ensured_state a model) now)"
    "au_Disabled a' = au_Disabled a" "au_Status a' = au_Status a \<or> au_Status a' = StatusActive"
    "\<not> au_Unavailable a'" "k \<noteq> model \<Longrightarrow> model_state_at a' k = map_option (settle now) (model_state_at a k)"
    "mt_shouldResumeModel tr" "mt_clearModelQuota tr" "\<not> mt_setModelQuota tr" "\<not> mt_shouldSuspendModel tr"
proof -
  let ?s = "resetModelState (ensured_state a model) now"
  let ?a1 = "with_model_state model ?s (with_model_state model (ensured_state a model) a)"
  let ?a2 = "updateAggregatedAvailability ?a1 now"
  let ?a3 = "if \<not> hasModelError ?a2 now
    then ?a2\<lparr>au_LastError := None, au_StatusMessage := [], au_Status := StatusActive\<rparr> else ?a2"
  have a': "a' = ?a3\<lparr>au_UpdatedAt := now\<rparr>"
    and tr: "tr = no_transition\<lparr>mt_shouldResumeModel := True, mt_clearModelQuota := True\<rparr>"
    using assms by (auto simp: applyResultTransition_def success_transition_def ensureModelState_eq Let_def)
  have s: "ms_NextRetryAfter ?s = 0" "ms_Status ?s = StatusActive"
    by (simp_all add: resetModelState_def)
  have "model_state_at a' k = model_state_at ?a2 k" for k
    by (simp add: a' model_state_at_def)
  then show "model_state_at a' model = Some ?s"
    "k \<noteq> model \<Longrightarrow> model_state_at a' k = map_option (settle now) (model_state_at a k)"
    using settle_no_retry [OF s(1)] by simp_all
  show "au_Disabled a' = au_Disabled a" "au_Status a' = au_Status a \<or> au_Status a' = StatusActive"
    by (simp_all add: a')
  have "\<not> au_Unavailable ?a2"
    by (rule aggregate_available(1) [of _ model ?s]) (simp_all add: is_down_no_retry s)
  then show "\<not> au_Unavailable a'"
    by (simp add: a')
  show "mt_shouldResumeModel tr" "mt_clearModelQuota tr" "\<not> mt_setModelQuota tr" "\<not> mt_shouldSuspendModel tr"
    by (simp_all add: tr no_transition_def)
qed

lemma success_unblocked:
  assumes "re_Success result" "\<not> (isTokenVersionFencedResult result
      \<and> AuthIsNewerThanObserved sha (Some a) (re_AccessTokenSHA256 result))"
    "model \<noteq> []" "\<not> RefreshBlocksDispatch (Some a)" "\<not> au_Disabled a" "au_Status a \<noteq> StatusDisabled"
    "applyResultTransition sha a result model now disableCooling = Some (a', tr)"
  shows "isAuthBlockedForModel (Some a') model t = (False, BlockReasonNone, 0)"
proof -
  note r = success_result [OF assms(1-4,7)]
  let ?s = "resetModelState (ensured_state a model) now"
  have "model_state_blocks ?s t = (False, BlockReasonNone, 0)"
    by (rule model_state_blocks_no_retry) (simp_all add: resetModelState_def)
  then show ?thesis
    using blocked_by_state [of a' model ?s t] r(1-4) assms(3,5,6)
    by (auto simp: not_refresh_blocked_available)
qed

subsection \<open>The aggregate does not depend on the order of the map\<close>

lemma live_states_perm: "mset xs = mset ys \<Longrightarrow> mset (live_states xs) = mset (live_states ys)"
  by (simp add: live_states_def List.map_filter_def mset_map [symmetric] mset_filter)

lemma aggregate_quota_loop_eq:
  "aggregate_quota_loop states b e l =
    (let qs = map ms_Quota (filter (\<lambda>s. q_Exceeded (ms_Quota s)) (live_states states))
     in (b \<or> qs \<noteq> [], foldl earlier e (map q_NextRecoverAt qs), foldl max l (map q_BackoffLevel qs)))"
proof (induction states arbitrary: b e l)
  case (Cons ms states)
  obtain m s where ms: "ms = (m, s)"
    by (cases ms)
  show ?case
  proof (cases s)
    case (Some st)
    have recover: "(if e = 0 \<or> q_NextRecoverAt (ms_Quota st) \<noteq> 0 \<and> q_NextRecoverAt (ms_Quota st) < e
        then q_NextRecoverAt (ms_Quota st) else e) = earlier e (q_NextRecoverAt (ms_Quota st))"
      by (auto simp: earlier_def)
    have level: "(if q_BackoffLevel (ms_Quota st) > l then q_BackoffLevel (ms_Quota st) else l)
        = max l (q_BackoffLevel (ms_Quota st))"
      by (simp add: max_def)
    show ?thesis
      using Some by (simp add: ms recover level Cons Let_def)
  qed (simp add: ms Cons)
qed simp

lemma foldl_max_perm: "mset xs = mset ys \<Longrightarrow> foldl max l xs = foldl max l ys" for l :: int
proof -
  assume "mset xs = mset ys"
  then have "fold (\<lambda>t e. max e t) xs = fold (\<lambda>t e. max e t) ys"
    by (intro fold_multiset_equiv) (auto simp: fun_eq_iff max.assoc max.commute max.left_commute)
  then show ?thesis
    by (simp add: foldl_conv_fold)
qed

lemma aggregateModelQuota_perm:
  assumes "mset xs = mset ys"
  shows "aggregateModelQuota xs = aggregateModelQuota ys"
proof -
  let ?qs = "\<lambda>xs. map ms_Quota (filter (\<lambda>s. q_Exceeded (ms_Quota s)) (live_states xs))"
  have "mset (?qs xs) = mset (?qs ys)"
    using live_states_perm [OF assms] by (simp add: mset_map mset_filter)
  from this have r: "mset (map q_NextRecoverAt (?qs xs)) = mset (map q_NextRecoverAt (?qs ys))"
    and l: "mset (map q_BackoffLevel (?qs xs)) = mset (map q_BackoffLevel (?qs ys))"
    by (simp_all only: mset_map)
  have n: "?qs xs = [] \<longleftrightarrow> ?qs ys = []"
    using arg_cong [OF \<open>mset (?qs xs) = mset (?qs ys)\<close>, of size] by (simp only: size_mset length_0_conv [symmetric])
  show ?thesis
    unfolding aggregateModelQuota_def aggregate_quota_loop_eq Let_def foldl_earlier_perm [OF r]
      foldl_max_perm [OF l] n by simp
qed

lemma aggregate_perm:
  assumes "mset states = mset (au_ModelStates a)"
  defines "b \<equiv> a\<lparr>au_ModelStates := states\<rparr>"
  shows "au_Unavailable (updateAggregatedAvailability b now) = au_Unavailable (updateAggregatedAvailability a now)"
    "au_NextRetryAfter (updateAggregatedAvailability b now)
      = au_NextRetryAfter (updateAggregatedAvailability a now)"
    "au_Quota (updateAggregatedAvailability b now) = au_Quota (updateAggregatedAvailability a now)"
proof -
  have live: "mset (live_states states) = mset (live_states (au_ModelStates a))"
    by (rule live_states_perm [OF assms(1)])
  then have "mset (pending_retries now states) = mset (pending_retries now (au_ModelStates a))"
    unfolding pending_retries_def by (simp only: mset_map mset_filter)
  then have retry: "foldl earlier 0 (pending_retries now states)
      = foldl earlier 0 (pending_retries now (au_ModelStates a))"
    by (rule foldl_earlier_perm)
  have down: "list_all P (live_states states) = list_all P (live_states (au_ModelStates a))" for P
    using mset_eq_setD [OF live] by (simp add: list_all_iff)
  have some: "live_states states = [] \<longleftrightarrow> live_states (au_ModelStates a) = []"
    using live by (metis mset_zero_iff)
  have "mset (au_ModelStates (settle_all now b)) = mset (au_ModelStates (settle_all now a))"
    using assms(1) by (simp add: b_def settle_all_def)
  then have "aggregateModelQuota (au_ModelStates (settle_all now b))
      = aggregateModelQuota (au_ModelStates (settle_all now a))"
    by (rule aggregateModelQuota_perm)
  then show "au_Unavailable (updateAggregatedAvailability b now) = au_Unavailable (updateAggregatedAvailability a now)"
    "au_NextRetryAfter (updateAggregatedAvailability b now)
      = au_NextRetryAfter (updateAggregatedAvailability a now)"
    "au_Quota (updateAggregatedAvailability b now) = au_Quota (updateAggregatedAvailability a now)"
    using retry down [of "is_down now"] some
    by (simp_all add: updateAggregatedAvailability_eq Let_def b_def)
qed

subsection \<open>Results that need no shared write\<close>

definition exceeded_quotas :: "(string, model_state option) gomap \<Rightarrow> quota_state list" where
  "exceeded_quotas states = map ms_Quota (filter (\<lambda>s. q_Exceeded (ms_Quota s)) (live_states states))"

lemma aggregateModelQuota_cong:
  "exceeded_quotas xs = exceeded_quotas ys \<Longrightarrow> aggregateModelQuota xs = aggregateModelQuota ys"
  by (simp add: aggregateModelQuota_def aggregate_quota_loop_eq exceeded_quotas_def Let_def)

lemma exceeded_quotas_settle:
  "exceeded_quotas (map (\<lambda>(m, s). (m, map_option (settle now) s)) states) = exceeded_quotas states"
proof (induction states)
  case (Cons ms states)
  have "ms_Quota (settle now s) = ms_Quota s" for s
    by (simp add: settle_def)
  with Cons show ?case
    by (cases ms; cases "snd ms") (auto simp: exceeded_quotas_def)
qed simp

lemma exceeded_quotas_update:
  assumes "map_of states m = Some (Some s)" "\<not> q_Exceeded (ms_Quota s)" "\<not> q_Exceeded (ms_Quota s')"
  shows "exceeded_quotas (AList.update m (Some s') states) = exceeded_quotas states"
  using assms(1)
proof (induction states)
  case (Cons ks states)
  obtain k st where ks: "ks = (k, st)"
    by (cases ks)
  show ?case
  proof (cases "k = m")
    case True
    with Cons.prems assms(2,3) show ?thesis
      by (simp add: ks exceeded_quotas_def)
  next
    case False
    with Cons show ?thesis
      by (cases st) (simp_all add: ks exceeded_quotas_def)
  qed
qed simp

lemma update_twice: "AList.update k v (AList.update k w m) = AList.update k v m"
  by (induction m) auto

lemma aggregate_quota_fields:
  "au_Quota (updateAggregatedAvailability (a\<lparr>au_Status := x, au_UpdatedAt := y\<rparr>) now)
    = au_Quota (updateAggregatedAvailability a now)"
  by (cases "live_states (au_ModelStates a) = []")
    (simp_all add: updateAggregatedAvailability_eq settle_all_def Let_def)

lemma aggregate_quota_unchanged:
  assumes "model_state_at a m = Some s" "\<not> q_Exceeded (ms_Quota s)" "\<not> q_Exceeded (ms_Quota s')"
  shows "au_Quota (updateAggregatedAvailability (record_auth_error err (with_model_state m s' a)) now)
    = aggregateModelQuota (au_ModelStates a)"
proof -
  let ?b = "record_auth_error err (with_model_state m s' a)"
  have states: "au_ModelStates ?b = AList.update m (Some s') (au_ModelStates a)"
    by (simp add: record_auth_error_def with_model_state_def split: option.split)
  have m: "map_of (au_ModelStates a) m = Some (Some s)"
    using assms(1) by (simp add: model_state_at_def gomap_get_def split: option.splits)
  have "model_state_at ?b m = Some s'"
    by simp
  then have "live_states (au_ModelStates ?b) \<noteq> []"
    using live_state_at by fastforce
  then have "au_Quota (updateAggregatedAvailability ?b now)
      = aggregateModelQuota (map (\<lambda>(m, s). (m, map_option (settle now) s)) (au_ModelStates ?b))"
    by (simp add: updateAggregatedAvailability_eq settle_all_def Let_def)
  also have "\<dots> = aggregateModelQuota (au_ModelStates a)"
    by (rule aggregateModelQuota_cong)
      (simp only: exceeded_quotas_settle states exceeded_quotas_update [OF m assms(2,3)])
  finally show ?thesis .
qed

lemma failure_state_429_no_cooling:
  assumes "re_Error result = Some e" "err_HTTPStatus e = 429"
  shows "fst (failure_state result now True s) =
    (record_error (Some e) (s\<lparr>ms_Unavailable := True, ms_Status := StatusError, ms_UpdatedAt := now\<rparr>))
    \<lparr>ms_Unavailable := False, ms_NextRetryAfter := 0, ms_QuotaResetAt := 0,
     ms_Quota := no_quota\<lparr>q_Scope := quotaScopeModel, q_Reason := ''quota'',
       q_BackoffLevel := q_BackoffLevel (ms_Quota s)\<rparr>\<rparr>"
  using assms
  by (simp add: failure_state_def record_error_def statusCodeFromResult_def
      isModelSupportResultError_def Let_def)

lemma disabled_quota_fingerprint:
  assumes applied: "disabledQuotaStateAlreadyApplied a model" and "err_HTTPStatus e = 429"
    and cf: "counted_failure sha a result e"
    and res: "applyResultTransition sha a result model now True = Some (a', tr)"
  shows "availabilityFingerprint a' model = availabilityFingerprint a model"
proof -
  from applied obtain s where s: "model_state_at a model = Some s" "ms_Status s = StatusError"
      "\<not> ms_Unavailable s" "ms_NextRetryAfter s = 0" "ms_QuotaResetAt s = 0"
      "\<not> q_Exceeded (ms_Quota s)" "q_Scope (ms_Quota s) = quotaScopeModel"
      "q_Reason (ms_Quota s) = ''quota''" "q_NextRecoverAt (ms_Quota s) = 0"
    and a: "model \<noteq> []" "au_Status a = StatusError" "\<not> au_Unavailable a" "au_NextRetryAfter a = 0"
      "fingerprintQuota (au_Quota a) = fingerprintQuota (aggregateModelQuota (au_ModelStates a))"
    by (auto simp: disabledQuotaStateAlreadyApplied_def split: if_splits option.splits)
  have nb: "\<not> RefreshBlocksDispatch (Some a)"
    using a(3) by (rule not_refresh_blocked_available)
  have e: "re_Error result = Some e"
    using cf by (simp add: counted_failure_def)
  have en: "ensured_state a model = s"
    by (simp add: ensured_state_def s(1))
  let ?st = "fst (failure_state result now True s)"
  note st = failure_state_429_no_cooling [OF e assms(2), of now s]
  note r = counted_failure_result [OF cf a(1) nb res, unfolded en]
  have retry: "ms_NextRetryAfter ?st = 0" "ms_Status ?st = StatusError"
    by (simp_all add: st record_error_def)
  have down: "\<not> is_down now ?st"
    by (rule is_down_no_retry) (simp_all add: retry)
  let ?a1 = "(record_auth_error (Some e) (with_model_state model ?st
      (with_model_state model s a)))\<lparr>au_Status := StatusError, au_UpdatedAt := now\<rparr>"
  have a': "a' = updateAggregatedAvailability ?a1 now"
    using cf res a(1) nb e unfolding counted_failure_def
    by (auto simp: applyResultTransition_def ensureModelState_eq isStreamTruncatedResultError_def
        failure_transition_def Let_def en split: prod.splits if_splits)
  have "with_model_state model ?st (with_model_state model s a) = with_model_state model ?st a"
    by (simp add: with_model_state_def update_twice)
  moreover have "\<not> q_Exceeded (ms_Quota ?st)"
    by (simp add: st no_quota_def)
  then have "au_Quota (updateAggregatedAvailability
      (record_auth_error (Some e) (with_model_state model ?st a)) now) = aggregateModelQuota (au_ModelStates a)"
    by (rule aggregate_quota_unchanged [OF s(1,6)])
  ultimately have quota: "au_Quota a' = aggregateModelQuota (au_ModelStates a)"
    unfolding a' aggregate_quota_fields by simp
  have "au_NextRetryAfter a' = 0"
    unfolding a' by (rule aggregate_available(2) [of _ model ?st]) (use down in simp_all)
  moreover have "model_state_at a' model = Some ?st"
    using r(1) settle_no_retry [OF retry(1)] by simp
  moreover have "fingerprintQuota (ms_Quota ?st) = fingerprintQuota (ms_Quota s)"
    using s by (simp add: st fingerprintQuota_def no_quota_def)
  moreover have "\<not> ms_Unavailable ?st" "ms_QuotaResetAt ?st = 0"
    by (simp_all add: st)
  ultimately show ?thesis
    using r(2,3) r(6) [OF down] a s retry quota by (simp add: availabilityFingerprint_def)
qed

lemma local_quota_window:
  assumes local: "\<not> resultNeedsGlobalTransition a result model now False" and "err_HTTPStatus e = 429"
    and cf: "counted_failure sha a result e" and "model \<noteq> []" and nb: "\<not> RefreshBlocksDispatch (Some a)"
    and res: "applyResultTransition sha a result model now False = Some (a', tr)"
  shows "map_option (\<lambda>s. (ms_NextRetryAfter s, ms_Quota s)) (model_state_at a' model)
    = map_option (\<lambda>s. (ms_NextRetryAfter s,
        (ms_Quota s)\<lparr>q_Scope := quotaScopeModel, q_Reason := ''quota''\<rparr>)) (model_state_at a model)"
proof -
  have e: "re_Error result = Some e" "\<not> re_Success result"
    using cf by (simp_all add: counted_failure_def)
  obtain next_at level where q: "quotaCooldownAfterFailure (ms_Quota (ensured_state a model)) now result
      = (next_at, level)"
    by fastforce
  from local e assms(2,4) obtain s where s: "model_state_at a model = Some s"
    and w: "ms_NextRetryAfter s = next_at" "q_NextRecoverAt (ms_Quota s) = next_at"
      "q_BackoffLevel (ms_Quota s) = level" "q_Exceeded (ms_Quota s)"
    using q by (auto simp: resultNeedsGlobalTransition_def statusCodeFromResult_def ensured_state_def
        isModelSupportResultError_def authQuotaWindowOpen_def Let_def split: if_splits option.splits)
  have en: "ensured_state a model = s"
    by (simp add: ensured_state_def s)
  have "now < next_at"
    using quotaCooldown_future [of now "ms_Quota s" result] q en by simp
  moreover note counted_failure_result(1) [OF cf assms(4) nb res, unfolded en failure_state_429 [OF e(1) assms(2)]]
  ultimately show ?thesis
    using q w en s by (simp add: settle_def)
qed

subsection \<open>Properties\<close>

text \<open>
  The backoff ladder: below level 11 the cooldown is two to the power of the level in seconds and
  the level goes up by one (a negative level counts as 0); from level 11 on it is 30 minutes and the
  level stays.
\<close>

theorem backoff_ladder:
  "nextQuotaCooldown level False =
    (if level < 11 then (second * 2 ^ nat level, max 0 level + 1) else (30 * minute, level))"
  by (rule nextQuotaCooldown_eq)

text \<open>
  A quota failure always sets a recovery time in the future and at most 60 days ahead; it never
  shortens an open window nor raises its backoff level, and outside a window it waits at least the
  ladder's cooldown and takes the ladder's next level.
\<close>

theorem quota_window_bounds:
  "now < fst (quotaCooldownAfterFailure q now r)
   \<and> fst (quotaCooldownAfterFailure q now r) \<le> now + 60 * 24 * hour
   \<and> (if quota_window_open q now
      then q_NextRecoverAt q \<le> fst (quotaCooldownAfterFailure q now r)
        \<and> snd (quotaCooldownAfterFailure q now r) = q_BackoffLevel q
      else now + fst (nextQuotaCooldown (q_BackoffLevel q) False) \<le> fst (quotaCooldownAfterFailure q now r)
        \<and> snd (quotaCooldownAfterFailure q now r) = snd (nextQuotaCooldown (q_BackoffLevel q) False))"
  using quotaCooldown_future [of now q r] quotaCooldown_deadline [of q now r] quotaCooldown_level [of q now r]
  by (auto simp: window_base_def providerQuotaHintMaxHorizon_def)

definition quota_error :: auth_error where
  "quota_error = \<lparr>err_Code = [], err_Message = ''limit'', err_Diagnostic = [], err_Retryable = False,
     err_HTTPStatus = 429, err_Upstream = None\<rparr>"

definition quota_result :: usage_result where
  "quota_result = \<lparr>re_AuthID = ''a'', re_AuthIndex = [], re_Provider = ''codex'', re_Model = ''m'',
     re_Success = False, re_Error = Some quota_error, re_RetryAfter = None, re_ResetAt = None,
     re_AccessTokenSHA256 = []\<rparr>"

definition ok_result :: usage_result where
  "ok_result = quota_result\<lparr>re_Success := True, re_Error := None\<rparr>"

lemma quota_result_counts: "counted_failure sha a quota_result quota_error"
  by (simp add: counted_failure_def isTokenVersionFencedResult_def quota_result_def quota_error_def
      normalizeSHA256Hex_def isRequestScopedNotFoundResultError_def statusCodeFromResult_def go_len_def
      ErrorCodeRequestScoped_def ErrorCodeStreamTruncated_def)

lemma plain_dispatchable: "dispatchable (plain_auth ID)"
  by (simp add: dispatchable_def plain_auth_def RefreshBlocksDispatch_def)

lemma quota_code_plain: "\<not> equal_fold (trim_space (err_Code quota_error)) refreshTransientErrorCode"
  by (simp add: quota_error_def equal_fold_def to_lower_def refreshTransientErrorCode_def)

lemma transition_defined:
  "model \<noteq> [] \<Longrightarrow> applyResultTransition sha a result model now dc
    = Some (the (applyResultTransition sha a result model now dc))"
  by (auto simp: applyResultTransition_def ensureModelState_def split: prod.split)

text \<open>
  After a 429 that counts, the credential is in cooldown for the model until exactly the recovery
  time the quota rule gives, and dispatchable for it again from that instant on.
\<close>

theorem quota_failure_cools_down:
  assumes "counted_failure sha a result e" "err_HTTPStatus e = 429" "model \<noteq> []" "dispatchable a"
    "\<not> equal_fold (trim_space (err_Code e)) refreshTransientErrorCode"
    "applyResultTransition sha a result model now False = Some (a', tr)" "now \<le> t" "0 \<le> now"
  shows "isAuthBlockedForModel (Some a') model t =
    (if t < fst (quotaCooldownAfterFailure (ms_Quota (ensured_state a model)) now result)
     then (True, BlockReasonCooldown,
           fst (quotaCooldownAfterFailure (ms_Quota (ensured_state a model)) now result))
     else (False, BlockReasonNone, 0))"
  using assms by (rule quota_failure_blocks)

theorem quota_failure_cools_down_witness:
  "isAuthBlockedForModel
      (Some (fst (the (applyResultTransition id (plain_auth ''a'') quota_result ''m'' 100 False)))) ''m'' 200 =
    (if 200 < fst (quotaCooldownAfterFailure (ms_Quota (ensured_state (plain_auth ''a'') ''m'')) 100 quota_result)
     then (True, BlockReasonCooldown,
       fst (quotaCooldownAfterFailure (ms_Quota (ensured_state (plain_auth ''a'') ''m'')) 100 quota_result))
     else (False, BlockReasonNone, 0))"
proof (rule quota_failure_cools_down [OF quota_result_counts _ _ plain_dispatchable quota_code_plain])
  show "applyResultTransition id (plain_auth ''a'') quota_result ''m'' 100 False
    = Some (fst (the (applyResultTransition id (plain_auth ''a'') quota_result ''m'' 100 False)),
        snd (the (applyResultTransition id (plain_auth ''a'') quota_result ''m'' 100 False)))"
    using transition_defined [of "''m''" id "plain_auth ''a''" quota_result 100 False] by simp
qed (simp_all add: quota_error_def)

text \<open>
  With cooling disabled no failure blocks the model: unless it is a 401 or a model-support error,
  the credential stays dispatchable for the model at every instant.
\<close>

theorem disabled_cooling_never_blocks:
  assumes "counted_failure sha a result e" "model \<noteq> []" "\<not> au_Disabled a"
    "\<not> RefreshBlocksDispatch (Some a)" "err_HTTPStatus e \<noteq> 401" "\<not> isModelSupportResultError (Some e)"
    "applyResultTransition sha a result model now True = Some (a', tr)"
  shows "isAuthBlockedForModel (Some a') model t = (False, BlockReasonNone, 0)"
  using assms by (rule no_cooling_unblocked)

theorem disabled_cooling_never_blocks_witness:
  "isAuthBlockedForModel
      (Some (fst (the (applyResultTransition id (plain_auth ''a'') quota_result ''m'' 100 True)))) ''m'' 101
   = (False, BlockReasonNone, 0)"
proof (rule disabled_cooling_never_blocks [OF quota_result_counts])
  show "applyResultTransition id (plain_auth ''a'') quota_result ''m'' 100 True
    = Some (fst (the (applyResultTransition id (plain_auth ''a'') quota_result ''m'' 100 True)),
        snd (the (applyResultTransition id (plain_auth ''a'') quota_result ''m'' 100 True)))"
    using transition_defined [of "''m''" id "plain_auth ''a''" quota_result 100 True] by simp
qed (simp_all add: quota_error_def plain_auth_def RefreshBlocksDispatch_def
    isModelSupportResultError_def statusCodeFromResult_def)

text \<open>
  A success clears the model: whatever cooldown it was in, the credential is dispatchable for it
  afterwards, the registry is asked to resume the model and clear its quota, and no other model's
  state changes except that blocks that have expired are dropped.
\<close>

theorem success_clears_model:
  assumes "re_Success result" "\<not> (isTokenVersionFencedResult result
      \<and> AuthIsNewerThanObserved sha (Some a) (re_AccessTokenSHA256 result))"
    "model \<noteq> []" "\<not> RefreshBlocksDispatch (Some a)" "\<not> au_Disabled a" "au_Status a \<noteq> StatusDisabled"
    "applyResultTransition sha a result model now disableCooling = Some (a', tr)" "k \<noteq> model"
  shows "isAuthBlockedForModel (Some a') model t = (False, BlockReasonNone, 0)
    \<and> mt_shouldResumeModel tr \<and> mt_clearModelQuota tr \<and> \<not> mt_setModelQuota tr \<and> \<not> mt_shouldSuspendModel tr
    \<and> model_state_at a' k = map_option (settle now) (model_state_at a k)"
  using success_unblocked [OF assms(1-7)] success_result [OF assms(1-4,7)] assms(8) by blast

theorem success_clears_model_witness:
  "isAuthBlockedForModel
      (Some (fst (the (applyResultTransition id (plain_auth ''a'') ok_result ''m'' 100 False)))) ''m'' 101
      = (False, BlockReasonNone, 0)
    \<and> mt_shouldResumeModel (snd (the (applyResultTransition id (plain_auth ''a'') ok_result ''m'' 100 False)))
    \<and> mt_clearModelQuota (snd (the (applyResultTransition id (plain_auth ''a'') ok_result ''m'' 100 False)))
    \<and> \<not> mt_setModelQuota (snd (the (applyResultTransition id (plain_auth ''a'') ok_result ''m'' 100 False)))
    \<and> \<not> mt_shouldSuspendModel (snd (the (applyResultTransition id (plain_auth ''a'') ok_result ''m'' 100 False)))
    \<and> model_state_at (fst (the (applyResultTransition id (plain_auth ''a'') ok_result ''m'' 100 False))) ''k''
      = map_option (settle 100) (model_state_at (plain_auth ''a'') ''k'')"
proof (rule success_clears_model)
  show "applyResultTransition id (plain_auth ''a'') ok_result ''m'' 100 False
    = Some (fst (the (applyResultTransition id (plain_auth ''a'') ok_result ''m'' 100 False)),
        snd (the (applyResultTransition id (plain_auth ''a'') ok_result ''m'' 100 False)))"
    using transition_defined [of "''m''" id "plain_auth ''a''" ok_result 100 False] by simp
qed (simp_all add: plain_auth_def RefreshBlocksDispatch_def ok_result_def quota_result_def
    isTokenVersionFencedResult_def normalizeSHA256Hex_def go_len_def to_lower_def Let_def)

text \<open>
  The credential-level view (unavailable, retry time, quota) is a function of the set of model
  states: it does not depend on the order in which the map is visited.
\<close>

theorem aggregation_order_independent:
  assumes "mset states = mset (au_ModelStates a)"
  shows "au_Unavailable (updateAggregatedAvailability (a\<lparr>au_ModelStates := states\<rparr>) now)
      = au_Unavailable (updateAggregatedAvailability a now)
    \<and> au_NextRetryAfter (updateAggregatedAvailability (a\<lparr>au_ModelStates := states\<rparr>) now)
      = au_NextRetryAfter (updateAggregatedAvailability a now)
    \<and> au_Quota (updateAggregatedAvailability (a\<lparr>au_ModelStates := states\<rparr>) now)
      = au_Quota (updateAggregatedAvailability a now)"
  using aggregate_perm [OF assms] by blast

theorem aggregation_order_independent_witness:
  "au_Unavailable (updateAggregatedAvailability ((plain_auth ''a'')
        \<lparr>au_ModelStates := [(''x'', Some active_state), (''y'', None)],
         au_ModelStates := [(''y'', None), (''x'', Some active_state)]\<rparr>) 5)
      = au_Unavailable (updateAggregatedAvailability ((plain_auth ''a'')
        \<lparr>au_ModelStates := [(''x'', Some active_state), (''y'', None)]\<rparr>) 5)
    \<and> au_NextRetryAfter (updateAggregatedAvailability ((plain_auth ''a'')
        \<lparr>au_ModelStates := [(''x'', Some active_state), (''y'', None)],
         au_ModelStates := [(''y'', None), (''x'', Some active_state)]\<rparr>) 5)
      = au_NextRetryAfter (updateAggregatedAvailability ((plain_auth ''a'')
        \<lparr>au_ModelStates := [(''x'', Some active_state), (''y'', None)]\<rparr>) 5)
    \<and> au_Quota (updateAggregatedAvailability ((plain_auth ''a'')
        \<lparr>au_ModelStates := [(''x'', Some active_state), (''y'', None)],
         au_ModelStates := [(''y'', None), (''x'', Some active_state)]\<rparr>) 5)
      = au_Quota (updateAggregatedAvailability ((plain_auth ''a'')
        \<lparr>au_ModelStates := [(''x'', Some active_state), (''y'', None)]\<rparr>) 5)"
  by (rule aggregation_order_independent) simp

text \<open>
  A disabled-cooling 429 whose state is already applied is free of shared writes: the local check
  that skips the shared store is right, since applying the result leaves the availability fingerprint
  as it was.
\<close>

theorem disabled_quota_write_free:
  assumes "disabledQuotaStateAlreadyApplied a model" "err_HTTPStatus e = 429"
    "counted_failure sha a result e"
    "applyResultTransition sha a result model now True = Some (a', tr)"
  shows "availabilityFingerprint a' model = availabilityFingerprint a model"
  using assms by (rule disabled_quota_fingerprint)

definition drained_auth :: auth where
  "drained_auth = (plain_auth ''a'')\<lparr>au_Status := StatusError, au_ModelStates := [(''m'', Some
     (active_state\<lparr>ms_Status := StatusError,
        ms_Quota := no_quota\<lparr>q_Scope := quotaScopeModel, q_Reason := ''quota''\<rparr>\<rparr>))]\<rparr>"

theorem disabled_quota_write_free_witness:
  "availabilityFingerprint
      (fst (the (applyResultTransition id drained_auth quota_result ''m'' 100 True))) ''m''
   = availabilityFingerprint drained_auth ''m''"
proof (rule disabled_quota_write_free [OF _ _ quota_result_counts])
  show "disabledQuotaStateAlreadyApplied drained_auth ''m''"
    by code_simp
  show "applyResultTransition id drained_auth quota_result ''m'' 100 True
    = Some (fst (the (applyResultTransition id drained_auth quota_result ''m'' 100 True)),
        snd (the (applyResultTransition id drained_auth quota_result ''m'' 100 True)))"
    using transition_defined [of "''m''" id drained_auth quota_result 100 True] by simp
qed (simp add: quota_error_def)

text \<open>
  A 429 that the node decides to apply locally only (an open window that the failure would not
  move) leaves the recovery time, the retry time and the backoff level of the model as they were.
\<close>

theorem local_quota_keeps_window:
  assumes "\<not> resultNeedsGlobalTransition a result model now False" "err_HTTPStatus e = 429"
    "counted_failure sha a result e" "model \<noteq> []" "\<not> RefreshBlocksDispatch (Some a)"
    "applyResultTransition sha a result model now False = Some (a', tr)"
  shows "map_option (\<lambda>s. (ms_NextRetryAfter s, ms_Quota s)) (model_state_at a' model)
    = map_option (\<lambda>s. (ms_NextRetryAfter s,
        (ms_Quota s)\<lparr>q_Scope := quotaScopeModel, q_Reason := ''quota''\<rparr>)) (model_state_at a model)"
  using assms by (rule local_quota_window)

definition cooling_auth :: auth where
  "cooling_auth = (plain_auth ''a'')\<lparr>au_Status := StatusError, au_ModelStates := [(''m'', Some
     (active_state\<lparr>ms_Status := StatusError, ms_Unavailable := True, ms_NextRetryAfter := 5000,
        ms_Quota := \<lparr>q_Exceeded = True, q_Scope = quotaScopeModel, q_Reason = ''quota'',
          q_NextRecoverAt = 5000, q_BackoffLevel = 2\<rparr>\<rparr>))]\<rparr>"

theorem local_quota_keeps_window_witness:
  "map_option (\<lambda>s. (ms_NextRetryAfter s, ms_Quota s)) (model_state_at
      (fst (the (applyResultTransition id cooling_auth quota_result ''m'' 100 False))) ''m'')
   = map_option (\<lambda>s. (ms_NextRetryAfter s,
        (ms_Quota s)\<lparr>q_Scope := quotaScopeModel, q_Reason := ''quota''\<rparr>)) (model_state_at cooling_auth ''m'')"
proof (rule local_quota_keeps_window [OF _ _ quota_result_counts])
  show "\<not> resultNeedsGlobalTransition cooling_auth quota_result ''m'' 100 False"
    by code_simp
  show "applyResultTransition id cooling_auth quota_result ''m'' 100 False
    = Some (fst (the (applyResultTransition id cooling_auth quota_result ''m'' 100 False)),
        snd (the (applyResultTransition id cooling_auth quota_result ''m'' 100 False)))"
    using transition_defined [of "''m''" id cooling_auth quota_result 100 False] by simp
qed (simp_all add: quota_error_def cooling_auth_def plain_auth_def RefreshBlocksDispatch_def)

end
