(* ===== verification/Cooldown_State.thy ===== *)
theory Cooldown_State
  imports Result_Machine
begin

section \<open>Clearing and merging cooldowns\<close>

text \<open>
  The state functions of \<^verbatim>\<open>cooldown.go\<close>, and the adoption of a persisted credential from
  \<^verbatim>\<open>result.go\<close>: what an operator reset or a disable-cooling switch removes, and how one node
  merges the shared state of a credential with what it has seen itself.  \<open>Clone\<close> copies a value, and a
  value is its own copy.
\<close>

subsection \<open>Covered cooldowns\<close>

definition isRequestErrorCooldownStatus :: "int \<Rightarrow> bool" where
  "isRequestErrorCooldownStatus status = List.member [402, 403, 404, 408, 500, 502, 503, 504] status"

definition has_quota :: "quota_state \<Rightarrow> bool" where
  "has_quota q \<longleftrightarrow> q_Exceeded q \<or> q_NextRecoverAt q \<noteq> 0"

text \<open>A retry time owned by a request error (or by an error of unknown status), not by a quota.\<close>

definition request_error_retry :: "auth_error option \<Rightarrow> quota_state \<Rightarrow> gotime \<Rightarrow> bool" where
  "request_error_retry err quota retryAt =
     (let status = statusCodeFromResult err;
          legacyRequestError = (status = 0 \<and> \<not> q_Exceeded quota);
          quotaOwnsRetry = (q_Exceeded quota \<and> retryAt = q_NextRecoverAt quota)
      in retryAt \<noteq> 0 \<and> \<not> quotaOwnsRetry \<and> (legacyRequestError \<or> isRequestErrorCooldownStatus status))"

definition state_has_cooldown :: "model_state \<Rightarrow> bool" where
  "state_has_cooldown s =
     (if has_quota (ms_Quota s) then True
      else if ms_Status s = StatusDisabled then False
      else request_error_retry (ms_LastError s) (ms_Quota s) (ms_NextRetryAfter s))"

definition hasDisabledCooldownState :: "auth \<Rightarrow> bool" where
  "hasDisabledCooldownState a =
     (if list_ex (\<lambda>(m, s). case s of None \<Rightarrow> False | Some st \<Rightarrow> state_has_cooldown st) (au_ModelStates a)
      then True
      else if has_quota (au_Quota a) then True
      else if au_Disabled a \<or> au_Status a = StatusDisabled \<or> au_ModelStates a \<noteq> [] then False
      else if RefreshBlocksDispatch (Some a) then False
      else request_error_retry (au_LastError a) (au_Quota a) (au_NextRetryAfter a))"

definition clearModelQuotaState :: "model_state \<Rightarrow> gotime \<Rightarrow> model_state \<times> bool" where
  "clearModelQuotaState s now =
     (if \<not> has_quota (ms_Quota s) then (s, False)
      else (s\<lparr>ms_Quota := no_quota, ms_QuotaResetAt := now\<rparr>, True))"

definition clearModelQuotaCooldown :: "model_state option \<Rightarrow> gotime \<Rightarrow> model_state option \<times> bool" where
  "clearModelQuotaCooldown state now =
     (case state of
        None \<Rightarrow> (None, False)
      | Some s \<Rightarrow>
          if \<not> has_quota (ms_Quota s) then (Some s, False)
          else
            let quotaOwnsAvailability =
                  (ms_LastError s = None \<or> statusCodeFromResult (ms_LastError s) = 429);
                s1 = fst (clearModelQuotaState s now)
            in (Some (if ms_Status s1 \<noteq> StatusDisabled \<and> quotaOwnsAvailability
                      then s1\<lparr>ms_Status := StatusActive, ms_StatusMessage := [], ms_LastError := None,
                              ms_Unavailable := False, ms_NextRetryAfter := 0\<rparr>
                      else s1), True))"

text \<open>The loop over the model quotas is the one of \<open>aggregateModelQuota\<close>.\<close>

definition hasLegacyCredentialQuota :: "auth \<Rightarrow> bool" where
  "hasLegacyCredentialQuota a =
     (if \<not> q_Exceeded (au_Quota a) then False
      else
        let scope = to_lower (trim_space (q_Scope (au_Quota a)))
        in if scope = ''credential'' then True
           else if scope = quotaScopeModel then False
           else let (hasModelQuota, recoverAt, maxBackoffLevel) =
                      aggregate_quota_loop (au_ModelStates a) False 0 0
                in \<not> hasModelQuota \<or> \<not> equal_fold (trim_space (q_Reason (au_Quota a))) ''quota''
                   \<or> q_NextRecoverAt (au_Quota a) \<noteq> recoverAt
                   \<or> q_BackoffLevel (au_Quota a) \<noteq> maxBackoffLevel)"

definition same_error :: "auth_error \<Rightarrow> auth_error \<Rightarrow> bool" where
  "same_error e f \<longleftrightarrow> err_HTTPStatus e = err_HTTPStatus f
     \<and> trim_space (err_Code e) = trim_space (err_Code f)
     \<and> trim_space (err_Message e) = trim_space (err_Message f)"

definition authErrorMirroredByModel :: "auth \<Rightarrow> bool" where
  "authErrorMirroredByModel a =
     (case au_LastError a of
        None \<Rightarrow> False
      | Some e \<Rightarrow>
          list_ex (\<lambda>(m, s). case s of
              None \<Rightarrow> False
            | Some st \<Rightarrow> (case ms_LastError st of None \<Rightarrow> False | Some f \<Rightarrow> same_error f e)) (au_ModelStates a))"

text \<open>The state with the latest \<open>UpdatedAt\<close> among those that satisfy \<open>P\<close>, the first of equals.\<close>

fun latest_loop :: "(model_state \<Rightarrow> bool) \<Rightarrow> (string, model_state option) gomap \<Rightarrow> model_state option
    \<Rightarrow> model_state option" where
  "latest_loop P [] latest = latest"
| "latest_loop P ((m, state) # states) latest =
     (case state of
        None \<Rightarrow> latest_loop P states latest
      | Some s \<Rightarrow>
          if \<not> P s then latest_loop P states latest
          else latest_loop P states
            (case latest of
               None \<Rightarrow> Some s
             | Some l \<Rightarrow> if ms_UpdatedAt s > ms_UpdatedAt l then Some s else latest))"

definition reconcileAuthErrorAfterQuotaClear :: "auth \<Rightarrow> auth" where
  "reconcileAuthErrorAfterQuotaClear a =
     (if au_Disabled a \<or> au_Status a = StatusDisabled \<or> q_Exceeded (au_Quota a) \<or> au_LastError a = None
         \<or> statusCodeFromResult (au_LastError a) \<noteq> 429 then a
      else case latest_loop (\<lambda>s. ms_LastError s \<noteq> None \<and> \<not> q_Exceeded (ms_Quota s)) (au_ModelStates a) None of
          None \<Rightarrow> a
        | Some latest \<Rightarrow>
            a\<lparr>au_Status := (if ms_Status latest = StatusActive \<or> ms_Status latest = StatusDisabled
                            then StatusError else ms_Status latest),
              au_StatusMessage := ms_StatusMessage latest,
              au_LastError := cloneError (ms_LastError latest)\<rparr>)"

subsection \<open>Clearing quota\<close>

record cooldown_clear =
  cc_clearedModels :: "string list"
  cc_clearedCredential :: bool

definition clear_changed :: "cooldown_clear \<Rightarrow> bool" where
  "clear_changed t \<longleftrightarrow> cc_clearedCredential t \<or> cc_clearedModels t \<noteq> []"

text \<open>The loop over the named models, each canonical key once.\<close>

fun clear_models_loop :: "string list \<Rightarrow> string list \<Rightarrow> gotime \<Rightarrow> auth \<Rightarrow> string list \<Rightarrow> auth \<times> string list" where
  "clear_models_loop [] seen now a cleared = (a, cleared)"
| "clear_models_loop (m # models) seen now a cleared =
     (let modelID = canonicalModelKey m
      in if modelID = [] \<or> List.member seen modelID then clear_models_loop models seen now a cleared
         else case clearModelQuotaCooldown (model_state_at a modelID) now of
             (Some s, True) \<Rightarrow>
               clear_models_loop models (modelID # seen) now (with_model_state modelID s a) (cleared @ [modelID])
           | _ \<Rightarrow> clear_models_loop models (modelID # seen) now a cleared)"

definition clear_all_models :: "gotime \<Rightarrow> auth \<Rightarrow> auth \<times> string list" where
  "clear_all_models now a =
     (a\<lparr>au_ModelStates := map (\<lambda>(m, s). (m, fst (clearModelQuotaCooldown s now))) (au_ModelStates a)\<rparr>,
      sort (map fst (filter (\<lambda>(m, s). snd (clearModelQuotaCooldown s now)) (au_ModelStates a))))"

definition keep_availability :: "auth \<Rightarrow> auth \<Rightarrow> auth" where
  "keep_availability before a =
     a\<lparr>au_Status := au_Status before, au_StatusMessage := au_StatusMessage before,
       au_LastError := cloneError (au_LastError before), au_Unavailable := au_Unavailable before,
       au_NextRetryAfter := au_NextRetryAfter before\<rparr>"

definition clearQuotaCooldownState ::
    "auth \<Rightarrow> string list \<Rightarrow> gotime \<Rightarrow> bool \<Rightarrow> auth \<times> cooldown_clear" where
  "clearQuotaCooldownState a models now clearCredentialQuota =
     (let wasDisabled = (au_Disabled a \<or> au_Status a = StatusDisabled);
          preserveLegacyCredentialQuota = (\<not> clearCredentialQuota \<and> hasLegacyCredentialQuota a);
          clearLegacyCredentialQuota = (clearCredentialQuota \<and> has_quota (au_Quota a));
          preserveNonQuotaAuthError = (au_LastError a \<noteq> None
            \<and> statusCodeFromResult (au_LastError a) \<noteq> 429 \<and> \<not> authErrorMirroredByModel a);
          (a1, cleared0) = (if models \<noteq> [] then clear_models_loop models [] now a []
                            else clear_all_models now a);
          cleared = (if models \<noteq> [] then sort cleared0 else cleared0);
          a2 = (if clearLegacyCredentialQuota then a1\<lparr>au_Quota := no_quota\<rparr> else a1);
          transition = \<lparr>cc_clearedModels = cleared, cc_clearedCredential = clearLegacyCredentialQuota\<rparr>
      in if \<not> clear_changed transition then (a2, transition)
         else
           let a3 = updateAggregatedAvailability a2 now;
               a4 = (if preserveLegacyCredentialQuota then a3\<lparr>au_Quota := au_Quota a\<rparr> else a3);
               a5 = (if wasDisabled then (keep_availability a a4)\<lparr>au_Disabled := True\<rparr>
                     else if preserveLegacyCredentialQuota then keep_availability a a4
                     else if preserveNonQuotaAuthError then keep_availability a a4
                     else if \<not> q_Exceeded (au_Quota a4) \<and> \<not> hasModelError a4 now
                     then a4\<lparr>au_Status := StatusActive, au_StatusMessage := [], au_LastError := None,
                             au_Unavailable := False, au_NextRetryAfter := 0\<rparr>
                     else a4)
           in ((reconcileAuthErrorAfterQuotaClear a5)\<lparr>au_UpdatedAt := now\<rparr>, transition))"

subsection \<open>Clearing what disabled cooling covers\<close>

definition clear_request_retry :: "gotime \<Rightarrow> model_state \<Rightarrow> model_state \<times> bool" where
  "clear_request_retry now s =
     (if ms_Status s = StatusDisabled
         \<or> \<not> request_error_retry (ms_LastError s) (ms_Quota s) (ms_NextRetryAfter s) then (s, False)
      else if q_Exceeded (ms_Quota s) \<and> q_NextRecoverAt (ms_Quota s) > now
      then (s\<lparr>ms_Unavailable := True, ms_NextRetryAfter := q_NextRecoverAt (ms_Quota s)\<rparr>, True)
      else (s\<lparr>ms_Unavailable := False, ms_NextRetryAfter := 0\<rparr>, True))"

definition clear_request_retries :: "gotime \<Rightarrow> auth \<Rightarrow> auth \<times> bool" where
  "clear_request_retries now a =
     (a\<lparr>au_ModelStates := map (\<lambda>(m, s). (m, map_option (\<lambda>st. fst (clear_request_retry now st)) s))
          (au_ModelStates a)\<rparr>,
      list_ex (\<lambda>(m, s). case s of None \<Rightarrow> False | Some st \<Rightarrow> snd (clear_request_retry now st))
        (au_ModelStates a))"

definition clearDisabledCooldownState :: "auth \<Rightarrow> gotime \<Rightarrow> auth \<times> bool" where
  "clearDisabledCooldownState a now =
     (let preserveRefreshAcquisition =
            (\<not> au_Disabled a \<and> au_Status a \<noteq> StatusDisabled \<and> RefreshBlocksDispatch (Some a));
          (a1, quotaTransition) = clearQuotaCooldownState a [] now True;
          wasDisabled = (au_Disabled a1 \<or> au_Status a1 = StatusDisabled);
          preserveAuthState = (au_LastError a1 \<noteq> None
            \<and> \<not> isRequestErrorCooldownStatus (statusCodeFromResult (au_LastError a1))
            \<and> \<not> authErrorMirroredByModel a1);
          (a2, changed2) = clear_request_retries now a1;
          clearAuthRetry = (\<not> wasDisabled \<and> \<not> preserveRefreshAcquisition \<and> au_ModelStates a2 = []
            \<and> request_error_retry (au_LastError a1) (au_Quota a2) (au_NextRetryAfter a2));
          a3 = (if clearAuthRetry
                then (if q_Exceeded (au_Quota a2) \<and> q_NextRecoverAt (au_Quota a2) > now
                      then a2\<lparr>au_Unavailable := True, au_NextRetryAfter := q_NextRecoverAt (au_Quota a2),
                              au_UpdatedAt := now\<rparr>
                      else a2\<lparr>au_Unavailable := False, au_NextRetryAfter := 0, au_UpdatedAt := now\<rparr>)
                else a2);
          changed = (clear_changed quotaTransition \<or> changed2 \<or> clearAuthRetry)
      in if \<not> changed then (a3, False)
         else
           let a4 = (if au_ModelStates a3 \<noteq> [] then updateAggregatedAvailability a3 now else a3);
               a5 = (if wasDisabled
                     then (keep_availability a1 a4)\<lparr>au_Disabled := True, au_Quota := au_Quota a1\<rparr>
                     else if preserveAuthState
                     then a4\<lparr>au_Unavailable := au_Unavailable a1, au_NextRetryAfter := au_NextRetryAfter a1\<rparr>
                     else a4);
               a6 = (if preserveRefreshAcquisition
                     then (keep_availability a a5)
                       \<lparr>au_RuntimeRefreshBlocked := au_RuntimeRefreshBlocked a\<rparr>
                     else a5)
           in (a6\<lparr>au_UpdatedAt := now\<rparr>, True))"

subsection \<open>Merging a persisted state with the local one\<close>

definition modelHasNonQuotaState :: "model_state \<Rightarrow> bool" where
  "modelHasNonQuotaState s =
     (if ms_Status s = StatusDisabled then True
      else if ms_LastError s \<noteq> None then statusCodeFromResult (ms_LastError s) \<noteq> 429
      else ms_Status s = StatusError \<and> \<not> q_Exceeded (ms_Quota s))"

definition mergePersistedQuotaIntoLocalState :: "model_state \<Rightarrow> model_state \<Rightarrow> model_state" where
  "mergePersistedQuotaIntoLocalState persisted local =
     (let merged = local\<lparr>ms_Quota := ms_Quota persisted, ms_QuotaResetAt := ms_QuotaResetAt persisted\<rparr>
      in if \<not> q_Exceeded (ms_Quota persisted) then merged
         else
           let persistedRetry = later_than (ms_NextRetryAfter persisted) (q_NextRecoverAt (ms_Quota persisted))
           in merged\<lparr>ms_Unavailable := True,
                     ms_NextRetryAfter := later_than (ms_NextRetryAfter merged) persistedRetry\<rparr>)"

definition MergePersistedModelState :: "model_state option \<Rightarrow> model_state option \<Rightarrow> model_state option" where
  "MergePersistedModelState persistedState localState =
     (case persistedState of
        None \<Rightarrow> localState
      | Some p \<Rightarrow>
          (case localState of
             None \<Rightarrow> Some p
           | Some l \<Rightarrow>
               if ms_QuotaResetAt p \<noteq> 0
               then (if modelHasNonQuotaState l then Some (mergePersistedQuotaIntoLocalState p l) else Some p)
               else if q_Exceeded (ms_Quota p)
               then (if ms_UpdatedAt l > ms_UpdatedAt p \<and> modelHasNonQuotaState l
                     then Some (mergePersistedQuotaIntoLocalState p l) else Some p)
               else if ms_UpdatedAt l > ms_UpdatedAt p then Some l
               else Some p))"

text \<open>A nil map is the empty one.\<close>

fun merge_local_states :: "(string, model_state option) gomap \<Rightarrow> (string, model_state option) gomap
    \<Rightarrow> (string, model_state option) gomap" where
  "merge_local_states [] merged = merged"
| "merge_local_states ((m, localState) # locals) merged =
     (case localState of
        None \<Rightarrow> merge_local_states locals merged
      | Some l \<Rightarrow> merge_local_states locals
          (AList.update m (MergePersistedModelState (gomap_get None merged m) (Some l)) merged))"

definition mergePersistedCooldownModelStates ::
    "(string, model_state option) gomap \<Rightarrow> (string, model_state option) gomap
     \<Rightarrow> (string, model_state option) gomap" where
  "mergePersistedCooldownModelStates persisted locals = merge_local_states locals persisted"

subsection \<open>Adopting a persisted credential\<close>

text \<open>
  \<open>adoptPersistedCredentialLocked\<close> on the credential itself (the manager also moves its entry of the
  index map): everything is taken from the persisted row except what only this process has.
\<close>

definition adoptPersistedCredential :: "auth \<Rightarrow> auth \<Rightarrow> auth" where
  "adoptPersistedCredential local persisted =
     persisted
       \<lparr>au_Index := (if trim_space (au_Index persisted) = [] then au_Index local else au_Index persisted),
        au_FileName := (if trim_space (au_FileName persisted) = [] then au_FileName local
                        else au_FileName persisted),
        au_ModelStates := au_ModelStates local, au_Success := au_Success local,
        au_Failed := au_Failed local, au_recentRequests := au_recentRequests local\<rparr>"

definition adopt_model_error :: "auth \<Rightarrow> gotime \<Rightarrow> auth" where
  "adopt_model_error a now =
     (case latest_loop (\<lambda>s. state_has_error now (Some s)) (au_ModelStates a) None of
        None \<Rightarrow> a
      | Some latest \<Rightarrow>
          let err = cloneError (ms_LastError latest)
          in a\<lparr>au_Status := StatusError, au_LastError := err,
               au_StatusMessage := (case err of
                   Some e \<Rightarrow> if ms_StatusMessage latest = [] then err_Message e else ms_StatusMessage latest
                 | None \<Rightarrow> ms_StatusMessage latest)\<rparr>)"

text \<open>
  \<open>adoptPersistedResultState\<close> for the local and the persisted credential; the flag says whether the
  snapshot was current enough to apply its registry effects.
\<close>

definition adoptPersistedResultState :: "(string \<Rightarrow> string) \<Rightarrow> usage_result \<Rightarrow> string \<Rightarrow> auth \<Rightarrow> auth
    \<Rightarrow> gotime \<Rightarrow> auth \<times> bool" where
  "adoptPersistedResultState sha result resultModel local persisted now =
     (if au_StateVersion local > 0 \<and> au_StateVersion persisted > 0
         \<and> au_StateVersion local > au_StateVersion persisted then (local, False)
      else if isTokenVersionFencedResult result
         \<and> AuthIsNewerThanObserved sha (Some local) (re_AccessTokenSHA256 result) then (local, False)
      else
        let localRefreshBlocked = (au_RuntimeRefreshBlocked local
              \<or> (case au_LastError local of None \<Rightarrow> False
                 | Some e \<Rightarrow> equal_fold (trim_space (err_Code e)) refreshTransientErrorCode));
            adoptCredential =
              ((au_StateVersion persisted > 0 \<and> au_StateVersion persisted > au_StateVersion local)
               \<or> (isTokenVersionFencedResult result
                  \<and> AuthIsNewerThanObserved sha (Some persisted) (re_AccessTokenSHA256 result)));
            l1 = (if adoptCredential
                  then (adoptPersistedCredential local persisted)\<lparr>au_ModelStates :=
                         mergePersistedCooldownModelStates (au_ModelStates persisted) (au_ModelStates local)\<rparr>
                  else local);
            l2 = l1\<lparr>au_Disabled := au_Disabled persisted, au_UpdatedAt := au_UpdatedAt persisted,
                    au_StateVersion := au_StateVersion persisted,
                    au_LastRefreshError := cloneError (au_LastRefreshError persisted),
                    au_NextRefreshAfter := au_NextRefreshAfter persisted,
                    au_ModelStates := (case model_state_at persisted resultModel of
                        Some state \<Rightarrow> AList.update resultModel (Some state) (au_ModelStates l1)
                      | None \<Rightarrow> AList.delete resultModel (au_ModelStates l1))\<rparr>;
            l3 = updateAggregatedAvailability l2 now;
            persistedRefreshBlocked = RefreshBlocksDispatch (Some persisted);
            l4 = l3\<lparr>au_RuntimeRefreshBlocked := persistedRefreshBlocked\<rparr>;
            l5 = (if localRefreshBlocked \<and> \<not> persistedRefreshBlocked
                  then adopt_model_error (l4\<lparr>au_StatusMessage := [], au_LastError := None\<rparr>) now
                  else l4);
            l6 = (if au_Status persisted \<noteq> StatusActive \<or> \<not> hasModelError l5 now
                  then l5\<lparr>au_Status := au_Status persisted, au_StatusMessage := au_StatusMessage persisted,
                          au_LastError := cloneError (au_LastError persisted)\<rparr>
                  else l5);
            l7 = (if persistedRefreshBlocked
                  then l6\<lparr>au_Unavailable := True, au_NextRetryAfter := au_NextRetryAfter persisted\<rparr>
                  else l6)
        in (l7, True))"

definition adopt_availability :: "auth \<Rightarrow> auth \<Rightarrow> auth" where
  "adopt_availability persisted a =
     a\<lparr>au_Status := au_Status persisted, au_StatusMessage := au_StatusMessage persisted,
       au_LastError := cloneError (au_LastError persisted), au_Unavailable := au_Unavailable persisted,
       au_NextRetryAfter := au_NextRetryAfter persisted\<rparr>"

definition adoptPersistedCooldownState :: "auth \<Rightarrow> auth \<Rightarrow> gotime \<Rightarrow> auth \<times> bool" where
  "adoptPersistedCooldownState local persisted now =
     (if au_StateVersion local > 0 \<and> au_StateVersion persisted > 0
         \<and> au_StateVersion local > au_StateVersion persisted then (local, False)
      else
        let persistedLegacyCredentialQuota = hasLegacyCredentialQuota persisted;
            persistedGlobalError = (au_LastError persisted \<noteq> None
              \<and> statusCodeFromResult (au_LastError persisted) \<noteq> 429 \<and> \<not> authErrorMirroredByModel persisted);
            l1 = (if au_StateVersion persisted > 0 \<and> au_StateVersion persisted > au_StateVersion local
                  then adoptPersistedCredential local persisted else local);
            l2 = (adopt_availability persisted l1)
                   \<lparr>au_StateVersion := au_StateVersion persisted, au_Disabled := au_Disabled persisted,
                    au_LastRefreshError := cloneError (au_LastRefreshError persisted),
                    au_RuntimeRefreshBlocked := RefreshBlocksDispatch (Some persisted),
                    au_NextRefreshAfter := au_NextRefreshAfter persisted, au_Quota := au_Quota persisted,
                    au_ModelStates :=
                      mergePersistedCooldownModelStates (au_ModelStates persisted) (au_ModelStates l1),
                    au_UpdatedAt := au_UpdatedAt persisted\<rparr>
        in if au_Disabled l2 \<or> au_Status l2 = StatusDisabled then (l2, True)
           else
             let l3 = updateAggregatedAvailability l2 now;
                 l4 = (if persistedLegacyCredentialQuota
                       then (adopt_availability persisted l3)\<lparr>au_Quota := au_Quota persisted\<rparr>
                       else if persistedGlobalError then adopt_availability persisted l3
                       else l3)
             in (reconcileAuthErrorAfterQuotaClear l4, True))"

subsection \<open>The clearing detects exactly what is there\<close>

lemma clearModelQuotaCooldown_flag:
  "snd (clearModelQuotaCooldown s now) \<longleftrightarrow> (\<exists>st. s = Some st \<and> has_quota (ms_Quota st))"
  by (auto simp: clearModelQuotaCooldown_def Let_def split: option.split)

lemma no_quota_clean [simp]: "\<not> has_quota no_quota"
  by (simp add: has_quota_def no_quota_def)

lemma clearModelQuotaCooldown_clean:
  "fst (clearModelQuotaCooldown s now) = Some st \<Longrightarrow> \<not> has_quota (ms_Quota st)"
  by (auto simp: clearModelQuotaCooldown_def clearModelQuotaState_def Let_def split: option.splits if_splits)

lemma clear_all_none:
  assumes "snd (clear_all_models now a) = []"
  shows "clear_all_models now a = (a, [])"
    "list_all (\<lambda>s. \<not> has_quota (ms_Quota s)) (live_states (au_ModelStates a))"
proof -
  have none: "\<not> snd (clearModelQuotaCooldown s now)" if "(m, s) \<in> set (au_ModelStates a)" for m s
  proof
    assume "snd (clearModelQuotaCooldown s now)"
    with that have "(m, s) \<in> set (filter (\<lambda>(m, s). snd (clearModelQuotaCooldown s now)) (au_ModelStates a))"
      by simp
    with assms show False
      by (auto simp: clear_all_models_def filter_empty_conv)
  qed
  then have "fst (clearModelQuotaCooldown s now) = s" if "(m, s) \<in> set (au_ModelStates a)" for m s
    using that by (force simp: clearModelQuotaCooldown_def Let_def split: option.splits)
  then have "map (\<lambda>(m, s). (m, fst (clearModelQuotaCooldown s now))) (au_ModelStates a) = au_ModelStates a"
    by (intro map_idI) auto
  with assms show "clear_all_models now a = (a, [])"
    by (simp add: clear_all_models_def)
  show "list_all (\<lambda>s. \<not> has_quota (ms_Quota s)) (live_states (au_ModelStates a))"
    using none clearModelQuotaCooldown_flag by (auto simp: list_all_iff live_states_mem)
qed

lemma clear_all_some:
  assumes "snd (clear_all_models now a) \<noteq> []"
  shows "list_ex (\<lambda>s. has_quota (ms_Quota s)) (live_states (au_ModelStates a))"
proof -
  from assms obtain m s where "(m, s) \<in> set (au_ModelStates a)" "snd (clearModelQuotaCooldown s now)"
    by (auto simp: clear_all_models_def filter_empty_conv)
  then show ?thesis
    using clearModelQuotaCooldown_flag [of s now]
    by (auto simp: list_ex_iff Bex_def live_states_mem)
qed

text \<open>Clearing the quotas of a credential, all models: what is left has none, and it reports change truly.\<close>

abbreviation clear_quota :: "auth \<Rightarrow> gotime \<Rightarrow> auth \<times> cooldown_clear" where
  "clear_quota a now \<equiv> clearQuotaCooldownState a [] now True"

definition quota_free :: "auth \<Rightarrow> bool" where
  "quota_free a \<longleftrightarrow> \<not> has_quota (au_Quota a)
     \<and> list_all (\<lambda>s. \<not> has_quota (ms_Quota s)) (live_states (au_ModelStates a))"

lemma clear_quota_unchanged:
  assumes "\<not> clear_changed (snd (clear_quota a now))"
  shows "clear_quota a now = (a, \<lparr>cc_clearedModels = [], cc_clearedCredential = False\<rparr>)" "quota_free a"
proof -
  have none: "snd (clear_all_models now a) = []" "\<not> has_quota (au_Quota a)"
    using assms by (auto simp: clearQuotaCooldownState_def clear_changed_def Let_def
        split: prod.splits if_splits)
  note c = clear_all_none [OF none(1)]
  show "quota_free a"
    using c(2) none(2) by (simp add: quota_free_def)
  show "clear_quota a now = (a, \<lparr>cc_clearedModels = [], cc_clearedCredential = False\<rparr>)"
    using c(1) none(2) by (simp add: clearQuotaCooldownState_def clear_changed_def)
qed

lemma clear_quota_changed:
  assumes "clear_changed (snd (clear_quota a now))"
  shows "\<not> quota_free a"
proof -
  have "snd (clear_all_models now a) \<noteq> [] \<or> has_quota (au_Quota a)"
    using assms by (auto simp: clearQuotaCooldownState_def clear_changed_def Let_def
        split: prod.splits if_splits)
  then show ?thesis
    using clear_all_some [of now a] by (auto simp: quota_free_def list_all_iff list_ex_iff)
qed

lemma state_has_cooldown_cases:
  "state_has_cooldown s \<longleftrightarrow> has_quota (ms_Quota s)
   \<or> (ms_Status s \<noteq> StatusDisabled \<and> request_error_retry (ms_LastError s) (ms_Quota s) (ms_NextRetryAfter s))"
  by (simp add: state_has_cooldown_def)

lemma clear_request_retry_flag:
  "snd (clear_request_retry now s) \<longleftrightarrow>
   ms_Status s \<noteq> StatusDisabled \<and> request_error_retry (ms_LastError s) (ms_Quota s) (ms_NextRetryAfter s)"
  by (simp add: clear_request_retry_def)

lemma list_ex_live:
  "list_ex (\<lambda>(m, s). case s of None \<Rightarrow> False | Some st \<Rightarrow> P st) states \<longleftrightarrow> list_ex P (live_states states)"
proof (induction states)
  case (Cons ms states)
  then show ?case
    by (cases ms; cases "snd ms") auto
qed simp

lemma live_states_map:
  "live_states (map (\<lambda>(m, s). (m, map_option f s)) states) = map f (live_states states)"
proof (induction states)
  case (Cons ms states)
  then show ?case
    by (cases ms; cases "snd ms") auto
qed simp

lemma clear_request_retries_flag:
  "snd (clear_request_retries now a) \<longleftrightarrow>
   list_ex (\<lambda>s. ms_Status s \<noteq> StatusDisabled
     \<and> request_error_retry (ms_LastError s) (ms_Quota s) (ms_NextRetryAfter s)) (live_states (au_ModelStates a))"
  by (simp add: clear_request_retries_def list_ex_live clear_request_retry_flag)

lemma clear_detects:
  "snd (clearDisabledCooldownState a now) = hasDisabledCooldownState a"
proof (cases "clear_changed (snd (clear_quota a now))")
  case True
  then have "\<not> quota_free a"
    by (rule clear_quota_changed)
  then have "hasDisabledCooldownState a"
    unfolding hasDisabledCooldownState_def list_ex_live quota_free_def
    by (auto simp: list_all_iff list_ex_iff state_has_cooldown_cases)
  moreover have "snd (clearDisabledCooldownState a now)"
    using True by (simp add: clearDisabledCooldownState_def Let_def split_beta)
  ultimately show ?thesis
    by simp
next
  case False
  note same = clear_quota_unchanged [OF False]
  have states: "list_ex state_has_cooldown (live_states (au_ModelStates a)) = snd (clear_request_retries now a)"
    using same(2) unfolding clear_request_retries_flag quota_free_def
    by (auto simp: list_all_iff list_ex_iff state_has_cooldown_cases)
  have fields: "au_ModelStates (fst (clear_request_retries now a)) = [] \<longleftrightarrow> au_ModelStates a = []"
    "au_Quota (fst (clear_request_retries now a)) = au_Quota a"
    "au_NextRetryAfter (fst (clear_request_retries now a)) = au_NextRetryAfter a"
    by (simp_all add: clear_request_retries_def)
  have free: "\<not> has_quota (au_Quota a)"
    using same(2) by (simp add: quota_free_def)
  show ?thesis
    using free fields
    by (auto simp: clearDisabledCooldownState_def same(1) hasDisabledCooldownState_def list_ex_live
        states clear_changed_def Let_def split_beta)
qed

subsection \<open>What clearing leaves\<close>

lemma cloneError_fields: "keep_availability b a = a\<lparr>au_Status := au_Status b,
    au_StatusMessage := au_StatusMessage b, au_LastError := au_LastError b,
    au_Unavailable := au_Unavailable b, au_NextRetryAfter := au_NextRetryAfter b\<rparr>"
  by (simp add: keep_availability_def)

lemma reconcile_keeps [simp]:
  "au_ModelStates (reconcileAuthErrorAfterQuotaClear a) = au_ModelStates a"
  "au_Quota (reconcileAuthErrorAfterQuotaClear a) = au_Quota a"
  "au_Disabled (reconcileAuthErrorAfterQuotaClear a) = au_Disabled a"
  "au_NextRetryAfter (reconcileAuthErrorAfterQuotaClear a) = au_NextRetryAfter a"
  by (auto simp: reconcileAuthErrorAfterQuotaClear_def split: option.split)

lemma keep_keeps [simp]:
  "au_ModelStates (keep_availability b a) = au_ModelStates a"
  "au_Quota (keep_availability b a) = au_Quota a"
  by (simp_all add: keep_availability_def)

definition states_free :: "(string, model_state option) gomap \<Rightarrow> bool" where
  "states_free states \<longleftrightarrow> list_all (\<lambda>s. \<not> has_quota (ms_Quota s)) (live_states states)"

lemma settle_keeps_quota [simp]: "ms_Quota (settle now s) = ms_Quota s"
  by (simp add: settle_def)

lemma states_free_settle:
  "states_free (map (\<lambda>(m, s). (m, map_option (settle now) s)) states) = states_free states"
  by (simp add: states_free_def live_states_map list_all_iff)

lemma aggregate_free:
  assumes "states_free states"
  shows "aggregateModelQuota states = no_quota"
proof -
  have "filter (\<lambda>s. q_Exceeded (ms_Quota s)) (live_states states) = []"
    using assms by (auto simp: states_free_def list_all_iff has_quota_def filter_empty_conv)
  then show ?thesis
    by (simp add: aggregateModelQuota_def aggregate_quota_loop_eq)
qed

lemma update_states:
  "au_ModelStates (updateAggregatedAvailability a now)
    = map (\<lambda>(m, s). (m, map_option (settle now) s)) (au_ModelStates a)"
  by (simp add: updateAggregatedAvailability_eq settle_all_def Let_def)

lemma update_free:
  assumes "states_free (au_ModelStates a)"
  shows "au_Quota (updateAggregatedAvailability a now) = no_quota"
  using aggregate_free [of "map (\<lambda>(m, s). (m, map_option (settle now) s)) (au_ModelStates a)"] assms
  by (simp add: updateAggregatedAvailability_eq settle_all_def Let_def states_free_settle)

lemma clear_all_free: "states_free (au_ModelStates (fst (clear_all_models now a)))"
proof -
  have "\<not> has_quota (ms_Quota st)" if "st \<in> set (live_states (au_ModelStates (fst (clear_all_models now a))))" for st
    using that clearModelQuotaCooldown_clean by (force simp: live_states_mem clear_all_models_def)
  then show ?thesis
    by (simp add: states_free_def list_all_iff)
qed

lemma clear_quota_free: "quota_free (fst (clear_quota a now))"
proof (cases "clear_changed (snd (clear_quota a now))")
  case False
  then show ?thesis
    using clear_quota_unchanged [OF False] by simp
next
  case True
  define a2 where "a2 = (if has_quota (au_Quota a)
    then (fst (clear_all_models now a))\<lparr>au_Quota := no_quota\<rparr> else fst (clear_all_models now a))"
  have free: "states_free (au_ModelStates a2)"
    using clear_all_free by (simp add: a2_def)
  have states: "au_ModelStates (fst (clear_quota a now))
      = au_ModelStates (updateAggregatedAvailability a2 now)"
    and quota: "au_Quota (fst (clear_quota a now)) = au_Quota (updateAggregatedAvailability a2 now)"
    using True by (auto simp: clearQuotaCooldownState_def a2_def Let_def split_beta)
  show ?thesis
    using free states quota update_free [OF free, of now]
    by (simp add: quota_free_def update_states states_free_settle states_free_def [symmetric])
qed

definition no_request_retry :: "model_state \<Rightarrow> bool" where
  "no_request_retry s \<longleftrightarrow> ms_Status s = StatusDisabled
     \<or> \<not> request_error_retry (ms_LastError s) (ms_Quota s) (ms_NextRetryAfter s)"

lemma request_error_retry_zero [simp]: "\<not> request_error_retry err q 0"
  by (simp add: request_error_retry_def)

lemma settle_no_request_retry: "no_request_retry s \<Longrightarrow> no_request_retry (settle now s)"
  by (auto simp: no_request_retry_def settle_def)

lemma clear_request_retry_clean:
  "\<not> has_quota (ms_Quota s) \<Longrightarrow> no_request_retry (fst (clear_request_retry now s))
     \<and> ms_Quota (fst (clear_request_retry now s)) = ms_Quota s"
  by (auto simp: clear_request_retry_def no_request_retry_def has_quota_def)

definition clean_states :: "(string, model_state option) gomap \<Rightarrow> bool" where
  "clean_states states \<longleftrightarrow>
     list_all (\<lambda>s. \<not> has_quota (ms_Quota s) \<and> no_request_retry s) (live_states states)"

lemma clean_states_settle:
  "clean_states states \<Longrightarrow> clean_states (map (\<lambda>(m, s). (m, map_option (settle now) s)) states)"
  by (simp add: clean_states_def live_states_map list_all_iff settle_no_request_retry)

lemma clean_states_no_cooldown:
  "clean_states states \<Longrightarrow> \<not> list_ex state_has_cooldown (live_states states)"
  by (auto simp: clean_states_def list_all_iff list_ex_iff state_has_cooldown_cases no_request_retry_def)

lemma clear_request_retries_clean:
  assumes "quota_free a"
  shows "clean_states (au_ModelStates (fst (clear_request_retries now a)))"
proof -
  have "live_states (au_ModelStates (fst (clear_request_retries now a)))
      = map (\<lambda>s. fst (clear_request_retry now s)) (live_states (au_ModelStates a))"
    by (simp add: clear_request_retries_def live_states_map)
  then show ?thesis
    using assms clear_request_retry_clean by (simp add: clean_states_def quota_free_def list_all_iff)
qed

lemma clear_request_retries_keeps [simp]:
  "au_Status (fst (clear_request_retries now a)) = au_Status a"
  "au_Disabled (fst (clear_request_retries now a)) = au_Disabled a"
  "au_LastError (fst (clear_request_retries now a)) = au_LastError a"
  "au_Quota (fst (clear_request_retries now a)) = au_Quota a"
  "au_Unavailable (fst (clear_request_retries now a)) = au_Unavailable a"
  "au_NextRetryAfter (fst (clear_request_retries now a)) = au_NextRetryAfter a"
  "au_RuntimeRefreshBlocked (fst (clear_request_retries now a)) = au_RuntimeRefreshBlocked a"
  "au_ModelStates (fst (clear_request_retries now a)) = [] \<longleftrightarrow> au_ModelStates a = []"
  by (simp_all add: clear_request_retries_def)

lemma clear_disabled_states:
  assumes "quota_free (fst (clear_quota a now))"
  shows "clean_states (au_ModelStates (fst (clearDisabledCooldownState a now)))"
    "\<not> has_quota (au_Quota (fst (clearDisabledCooldownState a now)))"
proof -
  let ?a1 = "fst (clear_quota a now)"
  let ?a2 = "fst (clear_request_retries now ?a1)"
  have clean: "clean_states (au_ModelStates ?a2)"
    by (rule clear_request_retries_clean [OF assms])
  have free: "\<not> has_quota (au_Quota ?a1)"
    using assms by (simp add: quota_free_def)
  have "states_free (au_ModelStates ?a2)"
    using clean by (simp add: clean_states_def states_free_def list_all_iff)
  then have agg: "b = b \<Longrightarrow> au_ModelStates b = au_ModelStates ?a2 \<Longrightarrow>
      au_Quota (updateAggregatedAvailability b now) = no_quota" for b
    using update_free by simp
  have states: "au_ModelStates (fst (clearDisabledCooldownState a now)) = au_ModelStates ?a2
      \<or> au_ModelStates (fst (clearDisabledCooldownState a now))
        = map (\<lambda>(m, s). (m, map_option (settle now) s)) (au_ModelStates ?a2)"
    by (auto simp: clearDisabledCooldownState_def Let_def split_beta update_states)
  show "clean_states (au_ModelStates (fst (clearDisabledCooldownState a now)))"
    using states clean clean_states_settle [OF clean, of now] by (elim disjE; simp only:)
  show "\<not> has_quota (au_Quota (fst (clearDisabledCooldownState a now)))"
    using free agg by (auto simp: clearDisabledCooldownState_def Let_def split_beta)
qed

lemma clear_quota_no_states:
  assumes "au_ModelStates a = []"
  shows "au_ModelStates (fst (clear_quota a now)) = []"
    "au_LastError (fst (clear_quota a now)) = au_LastError a \<or> au_LastError (fst (clear_quota a now)) = None"
proof -
  have all: "clear_all_models now a = (a, [])"
    using assms by (simp add: clear_all_models_def)
  have rec: "au_ModelStates b = [] \<Longrightarrow> reconcileAuthErrorAfterQuotaClear b = b" for b
    by (simp add: reconcileAuthErrorAfterQuotaClear_def)
  have none: "b = b \<Longrightarrow> au_ModelStates b = [] \<Longrightarrow> au_ModelStates (updateAggregatedAvailability b now) = []" for b
    by (simp add: update_states)
  show "au_ModelStates (fst (clear_quota a now)) = []"
    using assms none by (simp add: clearQuotaCooldownState_def all Let_def)
  show "au_LastError (fst (clear_quota a now)) = au_LastError a \<or> au_LastError (fst (clear_quota a now)) = None"
    using assms by (simp add: clearQuotaCooldownState_def all Let_def rec none cloneError_fields)
qed

lemma not_preserved:
  assumes "request_error_retry err q t" "err = None \<or> statusCodeFromResult err \<noteq> 0"
  shows "err = None \<or> isRequestErrorCooldownStatus (statusCodeFromResult err)"
  using assms by (auto simp: request_error_retry_def Let_def statusCodeFromResult_def)

lemma refresh_block_fields:
  "au_Unavailable b = au_Unavailable a \<and> au_LastError b = au_LastError a
     \<and> au_RuntimeRefreshBlocked b = au_RuntimeRefreshBlocked a \<Longrightarrow>
   RefreshBlocksDispatch (Some b) = RefreshBlocksDispatch (Some a)"
  by (simp add: RefreshBlocksDispatch_def)

lemma clear_disabled_no_states:
  fixes now :: gotime
  assumes "au_ModelStates a = []" "au_LastError a = None \<or> statusCodeFromResult (au_LastError a) \<noteq> 0"
  defines "f \<equiv> fst (clearDisabledCooldownState a now)"
  shows "au_Disabled f \<or> au_Status f = StatusDisabled \<or> RefreshBlocksDispatch (Some f)
    \<or> \<not> request_error_retry (au_LastError f) (au_Quota f) (au_NextRetryAfter f)"
proof -
  let ?a1 = "fst (clear_quota a now)"
  let ?a2 = "fst (clear_request_retries now ?a1)"
  note n = clear_quota_no_states [OF assms(1), of now]
  have err: "au_LastError ?a1 = None \<or> statusCodeFromResult (au_LastError ?a1) \<noteq> 0"
    using n(2) assms(2) by auto
  have free: "\<not> q_Exceeded (au_Quota ?a1)"
    using clear_quota_free [of a now] by (simp add: quota_free_def has_quota_def)
  have s2: "au_ModelStates ?a2 = []"
    using n(1) by (simp add: clear_request_retries_def)
  consider "\<not> au_Disabled a \<and> au_Status a \<noteq> StatusDisabled \<and> RefreshBlocksDispatch (Some a)"
    | "\<not> (\<not> au_Disabled a \<and> au_Status a \<noteq> StatusDisabled \<and> RefreshBlocksDispatch (Some a))"
      "au_Disabled ?a1 \<or> au_Status ?a1 = StatusDisabled"
    | "\<not> (\<not> au_Disabled a \<and> au_Status a \<noteq> StatusDisabled \<and> RefreshBlocksDispatch (Some a))"
      "\<not> (au_Disabled ?a1 \<or> au_Status ?a1 = StatusDisabled)"
      "request_error_retry (au_LastError ?a1) (au_Quota ?a1) (au_NextRetryAfter ?a1)"
    | "\<not> (\<not> au_Disabled a \<and> au_Status a \<noteq> StatusDisabled \<and> RefreshBlocksDispatch (Some a))"
      "\<not> (au_Disabled ?a1 \<or> au_Status ?a1 = StatusDisabled)"
      "\<not> request_error_retry (au_LastError ?a1) (au_Quota ?a1) (au_NextRetryAfter ?a1)"
    by blast
  then show ?thesis
  proof cases
    case 1
    show ?thesis
    proof (cases "clear_changed (snd (clear_quota a now)) \<or> snd (clear_request_retries now ?a1)")
      case True
      then have "au_Unavailable f = au_Unavailable a \<and> au_LastError f = au_LastError a
          \<and> au_RuntimeRefreshBlocked f = au_RuntimeRefreshBlocked a"
        using 1 s2
        by (elim disjE) (simp_all add: f_def clearDisabledCooldownState_def Let_def split_beta cloneError_fields)
      then show ?thesis
        using 1 refresh_block_fields [of f a] by simp
    next
      case False
      then have a1: "?a1 = a"
        using clear_quota_unchanged(1) [of a now] by simp
      have "au_Unavailable f = au_Unavailable a \<and> au_LastError f = au_LastError a
          \<and> au_RuntimeRefreshBlocked f = au_RuntimeRefreshBlocked a"
        using 1 False s2 a1 by (simp add: f_def clearDisabledCooldownState_def Let_def split_beta)
      then show ?thesis
        using 1 refresh_block_fields [of f a] by simp
    qed
  next
    case 2
    then show ?thesis
      using s2 by (auto simp: f_def clearDisabledCooldownState_def Let_def split_beta cloneError_fields)
  next
    case 3
    have refresh: "au_Disabled a \<or> au_Status a = StatusDisabled \<or> \<not> RefreshBlocksDispatch (Some a)"
      using 3(1) by blast
    have "au_NextRetryAfter f = 0"
      using not_preserved [OF 3(3) err] refresh 3(2,3) s2 free
      by (elim disjE) (simp_all add: f_def clearDisabledCooldownState_def Let_def split_beta)
    then show ?thesis
      by simp
  next
    case 4
    then have "au_NextRetryAfter f = au_NextRetryAfter ?a1 \<and> au_LastError f = au_LastError ?a1
        \<and> au_Quota f = au_Quota ?a1"
      using s2 by (auto simp: f_def clearDisabledCooldownState_def Let_def split_beta)
    with 4 show ?thesis
      by simp
  qed
qed

lemma clear_quota_empty:
  "au_ModelStates (fst (clear_quota a now)) = [] \<Longrightarrow> au_ModelStates a = []"
  by (auto simp: clearQuotaCooldownState_def clear_all_models_def Let_def update_states split: if_splits)

lemma clear_disabled_empty:
  "au_ModelStates (fst (clearDisabledCooldownState a now)) = [] \<Longrightarrow> au_ModelStates a = []"
  using clear_quota_empty [of a now]
  by (auto simp: clearDisabledCooldownState_def Let_def split_beta update_states split: if_splits)

lemma clear_complete:
  assumes "au_ModelStates a \<noteq> [] \<or> au_LastError a = None \<or> statusCodeFromResult (au_LastError a) \<noteq> 0"
  shows "\<not> hasDisabledCooldownState (fst (clearDisabledCooldownState a now))"
proof -
  let ?f = "fst (clearDisabledCooldownState a now)"
  note c = clear_disabled_states [OF clear_quota_free, of a now]
  have "au_ModelStates ?f = [] \<Longrightarrow> au_Disabled ?f \<or> au_Status ?f = StatusDisabled
    \<or> RefreshBlocksDispatch (Some ?f)
    \<or> \<not> request_error_retry (au_LastError ?f) (au_Quota ?f) (au_NextRetryAfter ?f)"
    using clear_disabled_no_states [of a now] clear_disabled_empty [of a now] assms by auto
  then show ?thesis
    using clean_states_no_cooldown [OF c(1)] c(2)
    by (auto simp: hasDisabledCooldownState_def list_ex_live)
qed

text \<open>
  A credential that has no model states and cools down for an error without an HTTP status (a network
  failure), neither disabled nor held by a refresh.
\<close>

definition statusless_cooldown :: "auth \<Rightarrow> bool" where
  "statusless_cooldown a \<longleftrightarrow> au_ModelStates a = [] \<and> au_LastError a \<noteq> None
     \<and> statusCodeFromResult (au_LastError a) = 0 \<and> au_NextRetryAfter a \<noteq> 0
     \<and> \<not> au_Disabled a \<and> au_Status a \<noteq> StatusDisabled \<and> \<not> RefreshBlocksDispatch (Some a)"

lemma clear_quota_statusless:
  fixes now :: gotime
  assumes "au_ModelStates a = []" "au_LastError a = Some e" "statusCodeFromResult (Some e) = 0"
  defines "b \<equiv> fst (clear_quota a now)"
  shows "au_ModelStates b = []" "au_LastError b = Some e" "au_Unavailable b = au_Unavailable a"
    "au_NextRetryAfter b = au_NextRetryAfter a" "au_RuntimeRefreshBlocked b = au_RuntimeRefreshBlocked a"
    "(au_Disabled b \<or> au_Status b = StatusDisabled) \<longleftrightarrow> (au_Disabled a \<or> au_Status a = StatusDisabled)"
proof -
  have all: "clear_all_models now a = (a, [])"
    using assms(1) by (simp add: clear_all_models_def)
  have rec: "au_ModelStates b = [] \<Longrightarrow> reconcileAuthErrorAfterQuotaClear b = b" for b
    by (simp add: reconcileAuthErrorAfterQuotaClear_def)
  have upd: "au_ModelStates c = [] \<Longrightarrow> updateAggregatedAvailability c now = clearAggregatedAvailability c" for c
    by (simp add: updateAggregatedAvailability_def)
  have mirrored: "\<not> authErrorMirroredByModel a"
    using assms(1,2) by (simp add: authErrorMirroredByModel_def)
  note s = all rec upd mirrored assms(1-3) clearQuotaCooldownState_def cloneError_fields clearAggregatedAvailability_def
  show "au_ModelStates b = []" "au_LastError b = Some e" "au_Unavailable b = au_Unavailable a"
    "au_NextRetryAfter b = au_NextRetryAfter a" "au_RuntimeRefreshBlocked b = au_RuntimeRefreshBlocked a"
    "(au_Disabled b \<or> au_Status b = StatusDisabled) \<longleftrightarrow> (au_Disabled a \<or> au_Status a = StatusDisabled)"
    unfolding b_def by (auto simp: s Let_def)
qed

text \<open>Clearing keeps the cooldown of such an error, whatever else it clears.\<close>

lemma clear_disabled_statusless:
  fixes now :: gotime
  assumes "au_ModelStates a = []" "au_LastError a = Some e" "statusCodeFromResult (Some e) = 0"
  defines "f \<equiv> fst (clearDisabledCooldownState a now)"
  shows "au_ModelStates f = []" "au_LastError f = Some e" "au_Unavailable f = au_Unavailable a"
    "au_NextRetryAfter f = au_NextRetryAfter a" "au_RuntimeRefreshBlocked f = au_RuntimeRefreshBlocked a"
    "(au_Disabled f \<or> au_Status f = StatusDisabled) \<longleftrightarrow> (au_Disabled a \<or> au_Status a = StatusDisabled)"
proof -
  let ?b = "fst (clear_quota a now)"
  note b = clear_quota_statusless [OF assms(1-3), of now]
  have retries: "clear_request_retries now ?b = (?b, False)"
    using b(1) by (simp add: clear_request_retries_def)
  have mirrored: "\<not> authErrorMirroredByModel ?b"
    using b(1,2) by (simp add: authErrorMirroredByModel_def)
  have preserved: "\<not> isRequestErrorCooldownStatus (statusCodeFromResult (Some e))"
    using assms(3) by (simp add: isRequestErrorCooldownStatus_def)
  have ms: "au_ModelStates f = []"
    using b(1) by (simp add: f_def clearDisabledCooldownState_def Let_def split_beta retries)
  note s = f_def clearDisabledCooldownState_def Let_def split_beta retries mirrored preserved b(1-5) assms(1-2)
    cloneError_fields
  show "au_ModelStates f = []" by (rule ms)
  have "au_LastError f = Some e \<and> au_Unavailable f = au_Unavailable a
      \<and> au_NextRetryAfter f = au_NextRetryAfter a \<and> au_RuntimeRefreshBlocked f = au_RuntimeRefreshBlocked a"
  proof (cases "au_Disabled ?b \<or> au_Status ?b = StatusDisabled")
    case True
    then show ?thesis
      by (simp add: s)
  next
    case False
    then show ?thesis
      by (simp add: s)
  qed
  then show "au_LastError f = Some e" "au_Unavailable f = au_Unavailable a"
    "au_NextRetryAfter f = au_NextRetryAfter a" "au_RuntimeRefreshBlocked f = au_RuntimeRefreshBlocked a"
    by blast+
  show "(au_Disabled f \<or> au_Status f = StatusDisabled) \<longleftrightarrow> (au_Disabled a \<or> au_Status a = StatusDisabled)"
  proof (cases "au_Disabled a \<or> au_Status a = StatusDisabled")
    case True
    with b(6) have "au_Disabled ?b \<or> au_Status ?b = StatusDisabled"
      by simp
    then have "au_Disabled f \<or> au_Status f = StatusDisabled"
      by (simp add: s)
    with True show ?thesis
      by simp
  next
    case False
    with b(6) have "\<not> au_Disabled ?b" "au_Status ?b \<noteq> StatusDisabled"
      by simp_all
    with False have "\<not> au_Disabled f \<and> au_Status f \<noteq> StatusDisabled"
      by (simp add: s)
    with False show ?thesis
      by simp
  qed
qed

lemma statusless_kept: "statusless_cooldown (fst (clearDisabledCooldownState a now)) = statusless_cooldown a"
  if "au_ModelStates a = []" "au_LastError a = Some e" "statusCodeFromResult (Some e) = 0"
proof -
  note k = clear_disabled_statusless [OF that, of now]
  show ?thesis
    using k(6) refresh_block_fields [of "fst (clearDisabledCooldownState a now)" a]
    unfolding statusless_cooldown_def k(1-5) that(1,2) by (simp add: k(2,3,5) that(2)) blast
qed

lemma statusless_detected: "statusless_cooldown a \<Longrightarrow> hasDisabledCooldownState a"
  by (auto simp: hasDisabledCooldownState_def statusless_cooldown_def request_error_retry_def Let_def
      has_quota_def)

lemma clear_leaves_statusless:
  "hasDisabledCooldownState (fst (clearDisabledCooldownState a now)) \<longleftrightarrow> statusless_cooldown a"
proof (cases "au_ModelStates a = [] \<and> (\<exists>e. au_LastError a = Some e \<and> statusCodeFromResult (Some e) = 0)")
  case True
  then obtain e where e: "au_ModelStates a = []" "au_LastError a = Some e" "statusCodeFromResult (Some e) = 0"
    by blast
  let ?f = "fst (clearDisabledCooldownState a now)"
  note k = clear_disabled_statusless [OF e, of now]
  have free: "\<not> has_quota (au_Quota ?f)"
    by (rule clear_disabled_states(2) [OF clear_quota_free])
  then have "hasDisabledCooldownState ?f \<longleftrightarrow> statusless_cooldown ?f"
    by (auto simp: hasDisabledCooldownState_def statusless_cooldown_def k(1,2) request_error_retry_def e(3)
        Let_def has_quota_def)
  then show ?thesis
    by (simp only: statusless_kept [OF e])
next
  case False
  then have "au_ModelStates a \<noteq> [] \<or> au_LastError a = None \<or> statusCodeFromResult (au_LastError a) \<noteq> 0"
    by (cases "au_LastError a") auto
  moreover from this have "\<not> statusless_cooldown a"
    by (auto simp: statusless_cooldown_def)
  ultimately show ?thesis
    using clear_complete [of a now] by simp
qed

subsection \<open>Merging\<close>

lemma later_than_max: "later_than x y = max x y"
  by (simp add: later_than_def max_def)

text \<open>An exceeded quota of a sound state keeps the model off until the recovery time at least.\<close>

definition quota_holds_model :: "model_state \<Rightarrow> bool" where
  "quota_holds_model s \<longleftrightarrow> (q_Exceeded (ms_Quota s) \<longrightarrow>
     ms_Unavailable s \<and> q_NextRecoverAt (ms_Quota s) \<le> ms_NextRetryAfter s)"

lemma merge_quota_idem:
  "mergePersistedQuotaIntoLocalState (mergePersistedQuotaIntoLocalState p l) l
    = mergePersistedQuotaIntoLocalState p l"
  by (simp add: mergePersistedQuotaIntoLocalState_def Let_def later_than_max)

lemma merge_quota_self: "quota_holds_model l \<Longrightarrow> mergePersistedQuotaIntoLocalState l l = l"
  by (auto simp: mergePersistedQuotaIntoLocalState_def quota_holds_model_def Let_def later_than_max max_def)

lemma merge_quota_fields [simp]:
  "ms_Quota (mergePersistedQuotaIntoLocalState p l) = ms_Quota p"
  "ms_QuotaResetAt (mergePersistedQuotaIntoLocalState p l) = ms_QuotaResetAt p"
  "ms_UpdatedAt (mergePersistedQuotaIntoLocalState p l) = ms_UpdatedAt l"
  by (simp_all add: mergePersistedQuotaIntoLocalState_def Let_def)

lemma model_blocked:
  "fst (model_state_blocks s t) \<longleftrightarrow> ms_Status s = StatusDisabled
     \<or> (ms_Unavailable s \<and> ms_NextRetryAfter s \<noteq> 0 \<and> ms_NextRetryAfter s > t)"
  by (simp add: model_state_blocks_def Let_def)

lemma merge_quota_blocks:
  assumes "0 \<le> t" "q_Exceeded (ms_Quota p)" "ms_Status p \<noteq> StatusDisabled" "fst (model_state_blocks p t)"
  shows "fst (model_state_blocks (mergePersistedQuotaIntoLocalState p l) t)"
  using assms by (auto simp: model_blocked mergePersistedQuotaIntoLocalState_def Let_def later_than_max)

lemma merge_local_blocks:
  assumes "0 \<le> t" "fst (model_state_blocks l t)"
  shows "fst (model_state_blocks (mergePersistedQuotaIntoLocalState p l) t)"
  using assms by (auto simp: model_blocked mergePersistedQuotaIntoLocalState_def Let_def later_than_max)

lemma merge_shared_quota:
  assumes "0 \<le> t" "q_Exceeded (ms_Quota p)" "ms_Status p \<noteq> StatusDisabled" "fst (model_state_blocks p t)"
  shows "\<exists>r. MergePersistedModelState (Some p) l = Some r \<and> fst (model_state_blocks r t)
    \<and> ms_Quota r = ms_Quota p"
  using assms merge_quota_blocks [OF assms]
  by (auto simp: MergePersistedModelState_def split: option.split)

lemma merge_newer_local:
  assumes "0 \<le> t" "modelHasNonQuotaState l" "ms_UpdatedAt l > ms_UpdatedAt p" "fst (model_state_blocks l t)"
  shows "\<exists>r. MergePersistedModelState (Some p) (Some l) = Some r \<and> fst (model_state_blocks r t)"
  using assms merge_local_blocks [OF assms(1,4)]
  by (auto simp: MergePersistedModelState_def)

lemma gomap_get_Cons: "gomap_get z ((k, v) # m) k' = (if k' = k then v else gomap_get z m k')"
  by (simp add: gomap_get_def)

lemma gomap_get_absent: "k \<notin> fst ` set m \<Longrightarrow> gomap_get z m k = z"
  by (simp add: gomap_get_def map_of_eq_None_iff [THEN iffD2])

lemma merge_local_states_at:
  assumes "gomap_wf locals"
  shows "gomap_get None (merge_local_states locals merged) m
    = (case gomap_get None locals m of
         None \<Rightarrow> gomap_get None merged m
       | Some l \<Rightarrow> MergePersistedModelState (gomap_get None merged m) (Some l))"
  using assms
proof (induction locals merged rule: merge_local_states.induct)
  case (2 m' localState locals merged)
  then have "gomap_get None locals m' = None"
    by (simp add: gomap_get_absent)
  with 2 show ?case
    by (cases localState; cases "m = m'"; cases "gomap_get None locals m") (simp_all add: gomap_get_Cons)
qed simp

subsection \<open>Adopting\<close>

abbreviation stale_snapshot :: "auth \<Rightarrow> auth \<Rightarrow> bool" where
  "stale_snapshot local persisted \<equiv> au_StateVersion local > 0 \<and> au_StateVersion persisted > 0
     \<and> au_StateVersion local > au_StateVersion persisted"

lemma adopt_availability_keeps [simp]:
  "au_ModelStates (adopt_availability p a) = au_ModelStates a"
  "au_StateVersion (adopt_availability p a) = au_StateVersion a"
  by (simp_all add: adopt_availability_def)

lemma version_keeps [simp]:
  "au_StateVersion (updateAggregatedAvailability a now) = au_StateVersion a"
  "au_StateVersion (reconcileAuthErrorAfterQuotaClear a) = au_StateVersion a"
  by (auto simp: updateAggregatedAvailability_eq settle_all_def Let_def
      reconcileAuthErrorAfterQuotaClear_def split: option.split)

lemma adopt_credential_states [simp]:
  "au_ModelStates (adoptPersistedCredential local persisted) = au_ModelStates local"
  by (simp add: adoptPersistedCredential_def)

lemma adopted_cooldown_states:
  assumes "\<not> stale_snapshot local persisted"
  defines "merged \<equiv> mergePersistedCooldownModelStates (au_ModelStates persisted) (au_ModelStates local)"
  shows "au_ModelStates (fst (adoptPersistedCooldownState local persisted now)) = merged
    \<or> au_ModelStates (fst (adoptPersistedCooldownState local persisted now))
      = map (\<lambda>(m, s). (m, map_option (settle now) s)) merged"
  using assms(1) by (auto simp: adoptPersistedCooldownState_def Let_def update_states merged_def)

lemma adopted_blocks:
  assumes "\<not> stale_snapshot local persisted" "now \<le> t"
    and merged: "gomap_get None (mergePersistedCooldownModelStates (au_ModelStates persisted)
      (au_ModelStates local)) m = Some r" "fst (model_state_blocks r t)"
  shows "\<exists>s. model_state_at (fst (adoptPersistedCooldownState local persisted now)) m = Some s
    \<and> fst (model_state_blocks s t)"
  using adopted_cooldown_states [OF assms(1), of now] merged settle_blocks [OF assms(2), of r]
  by (auto simp: model_state_at_def gomap_get_def map_of_map_option split: option.splits)

lemma adopted_version:
  "au_StateVersion (fst (adoptPersistedCooldownState local persisted now))
    = (if stale_snapshot local persisted then au_StateVersion local else au_StateVersion persisted)"
  by (simp add: adoptPersistedCooldownState_def Let_def)

lemma adopted_result_version:
  "au_StateVersion (fst (adoptPersistedResultState sha r m local persisted now))
    = (if snd (adoptPersistedResultState sha r m local persisted now)
       then au_StateVersion persisted else au_StateVersion local)"
  by (simp add: adoptPersistedResultState_def adopt_model_error_def Let_def split: option.split)

lemma adopted_result_stale:
  "stale_snapshot local persisted \<Longrightarrow>
   adoptPersistedResultState sha r m local persisted now = (local, False)"
  by (simp add: adoptPersistedResultState_def)

lemma blocked_at_state:
  assumes "model \<noteq> []" "model_state_at a model = Some s" "fst (model_state_blocks s t)"
  shows "blocked_for a model t"
  using assms by (simp add: isAuthBlockedForModel_def state_for_model_def)

section \<open>Properties\<close>

text \<open>
  Clearing reports a change on exactly the credentials on which \<open>hasDisabledCooldownState\<close> sees
  something to clear, so the durable write that is skipped for the others loses nothing.
\<close>

theorem clearing_detects:
  "snd (clearDisabledCooldownState a now) \<longleftrightarrow> hasDisabledCooldownState a"
  by (rule arg_cong [OF clear_detects, of "\<lambda>b. b"])

text \<open>
  C27. What one clearing leaves, exactly: nothing that disabled cooling covers, except on a credential
  that is neither disabled nor held by a refresh, has no model states and still waits for the retry time
  of an error without an HTTP status.
\<close>

theorem clearing_complete:
  "hasDisabledCooldownState (fst (clearDisabledCooldownState a now)) \<longleftrightarrow>
     au_ModelStates a = [] \<and> au_LastError a \<noteq> None \<and> statusCodeFromResult (au_LastError a) = 0
       \<and> au_NextRetryAfter a \<noteq> 0 \<and> \<not> au_Disabled a \<and> au_Status a \<noteq> StatusDisabled
       \<and> \<not> RefreshBlocksDispatch (Some a)"
  using clear_leaves_statusless [of a now] by (simp only: statusless_cooldown_def)

text \<open>
  C28. On that exception clearing never gets anywhere, however often and whenever it is repeated: the
  branch that preserves the errors it does not cover puts the retry time back, so the credential keeps its
  cooldown and its error and is detected, and reported as changed, again every time.
\<close>

theorem clearing_stuck:
  fixes ts :: "gotime list"
  assumes "statusless_cooldown a"
  defines "b \<equiv> foldl (\<lambda>x now. fst (clearDisabledCooldownState x now)) a ts"
  shows "hasDisabledCooldownState b \<and> snd (clearDisabledCooldownState b now)
    \<and> au_NextRetryAfter b = au_NextRetryAfter a \<and> au_Unavailable b = au_Unavailable a
    \<and> au_LastError b = au_LastError a"
proof -
  have "statusless_cooldown b \<and> au_NextRetryAfter b = au_NextRetryAfter a
      \<and> au_Unavailable b = au_Unavailable a \<and> au_LastError b = au_LastError a"
    unfolding b_def using assms(1)
  proof (induction ts rule: rev_induct)
    case (snoc t ts)
    let ?c = "foldl (\<lambda>x now. fst (clearDisabledCooldownState x now)) a ts"
    from snoc have c: "statusless_cooldown ?c"
      by blast
    then obtain e where e: "au_ModelStates ?c = []" "au_LastError ?c = Some e" "statusCodeFromResult (Some e) = 0"
      by (auto simp: statusless_cooldown_def)
    show ?case
      using snoc c e(2) statusless_kept [OF e, of t] clear_disabled_statusless(2-4) [OF e, of t] by simp
  qed simp
  then show ?thesis
    using statusless_detected [of b] clear_detects [of b now] by simp
qed

definition cooling_auth :: "auth_error option \<Rightarrow> auth" where
  "cooling_auth err = (plain_auth ''a'')
     \<lparr>au_Status := StatusError, au_LastError := err, au_Unavailable := True, au_NextRetryAfter := 500\<rparr>"

definition status_error :: "int \<Rightarrow> auth_error" where
  "status_error status = quota_error\<lparr>err_HTTPStatus := status\<rparr>"

theorem clearing_stuck_witness:
  "let a = cooling_auth (Some (status_error 0));
       b = foldl (\<lambda>x now. fst (clearDisabledCooldownState x now)) a [100, 600, 700]
   in hasDisabledCooldownState b \<and> snd (clearDisabledCooldownState b 800) \<and> au_NextRetryAfter b = 500
      \<and> au_Unavailable b"
proof -
  have "statusless_cooldown (cooling_auth (Some (status_error 0)))"
    by code_simp
  from clearing_stuck [OF this, of "[100, 600, 700]" 800] show ?thesis
    by (simp add: cooling_auth_def Let_def del: foldl.simps foldl_Cons foldl_Nil)
qed

text \<open>
  Merging is idempotent: a node that merges the shared row of a model again with what it had
  before gets the same state.
\<close>

theorem merge_idempotent:
  assumes "quota_holds_model l"
  shows "MergePersistedModelState (MergePersistedModelState p (Some l)) (Some l)
    = MergePersistedModelState p (Some l)"
  using assms by (auto simp: MergePersistedModelState_def merge_quota_idem merge_quota_self split: option.split)

definition cooling_state :: "bool \<Rightarrow> gotime \<Rightarrow> gotime \<Rightarrow> model_state" where
  "cooling_state quota updated retry =
     \<lparr>ms_Status = StatusError, ms_StatusMessage = [], ms_Unavailable = True, ms_NextRetryAfter = retry,
      ms_LastError = Some (status_error (if quota then 429 else 503)),
      ms_Quota = (if quota then no_quota\<lparr>q_Exceeded := True, q_NextRecoverAt := retry\<rparr> else no_quota),
      ms_UpdatedAt = updated, ms_QuotaResetAt = 0\<rparr>"

theorem merge_idempotent_witness:
  "MergePersistedModelState (MergePersistedModelState (Some (cooling_state True 10 500)) (Some (cooling_state False 20 300)))
     (Some (cooling_state False 20 300))
   = MergePersistedModelState (Some (cooling_state True 10 500)) (Some (cooling_state False 20 300))"
  by (rule merge_idempotent) (simp add: quota_holds_model_def cooling_state_def no_quota_def)

text \<open>
  C29. A merge never reopens a model early: while the shared quota of the row blocks the model, and while
  a newer local error that is not a quota blocks it, the merged state blocks it too; and a shared quota
  is kept as it is.
\<close>

theorem merge_never_unblocks:
  assumes "0 \<le> t" "MergePersistedModelState (Some p) (Some l) = Some r"
  shows "(q_Exceeded (ms_Quota p) \<and> ms_Status p \<noteq> StatusDisabled \<and> fst (model_state_blocks p t) \<longrightarrow>
      fst (model_state_blocks r t) \<and> ms_Quota r = ms_Quota p)
    \<and> (modelHasNonQuotaState l \<and> ms_UpdatedAt l > ms_UpdatedAt p \<and> fst (model_state_blocks l t) \<longrightarrow>
      fst (model_state_blocks r t))"
  using merge_shared_quota [OF assms(1), of p "Some l"] merge_newer_local [OF assms(1), of l p] assms(2)
  by auto

theorem merge_never_unblocks_witness:
  "\<exists>r. MergePersistedModelState (Some (cooling_state True 10 500)) (Some (cooling_state False 20 300)) = Some r
     \<and> fst (model_state_blocks r 400)"
proof -
  have "\<exists>r. MergePersistedModelState (Some (cooling_state True 10 500)) (Some (cooling_state False 20 300)) = Some r"
    unfolding MergePersistedModelState_def by simp
  then obtain r where r: "MergePersistedModelState (Some (cooling_state True 10 500))
      (Some (cooling_state False 20 300)) = Some r" ..
  have "fst (model_state_blocks r 400)"
    using merge_never_unblocks [OF _ r, of 400]
    by (simp add: cooling_state_def model_blocked no_quota_def)
  with r show ?thesis
    by blast
qed

text \<open>
  A cooldown is shared: when a node adopts a snapshot that is not stale, every model that the
  snapshot holds back for quota is blocked for dispatch on that node until the same time, whatever the
  node had seen itself.
\<close>

theorem adoption_shares_cooldowns:
  assumes "\<not> stale_snapshot local persisted" "gomap_wf (au_ModelStates local)"
    and "model_state_at persisted m = Some p" "m \<noteq> []"
    and "q_Exceeded (ms_Quota p)" "ms_Status p \<noteq> StatusDisabled"
    and "fst (model_state_blocks p t)" "0 \<le> t" "now \<le> t"
  shows "blocked_for (fst (adoptPersistedCooldownState local persisted now)) m t"
proof -
  obtain r where r: "gomap_get None (mergePersistedCooldownModelStates (au_ModelStates persisted)
      (au_ModelStates local)) m = Some r" "fst (model_state_blocks r t)"
    using merge_shared_quota [OF assms(8,5,6,7)] assms(2,3,7)
    by (force simp: mergePersistedCooldownModelStates_def merge_local_states_at model_state_at_def
        split: option.splits)
  show ?thesis
    using adopted_blocks [OF assms(1,9) r] blocked_at_state [OF assms(4)] by blast
qed

definition shared_auth :: "int \<Rightarrow> model_state \<Rightarrow> auth" where
  "shared_auth version s = (plain_auth ''a'')\<lparr>au_StateVersion := version, au_ModelStates := [(''m'', Some s)]\<rparr>"

theorem adoption_shares_cooldowns_witness:
  "blocked_for (fst (adoptPersistedCooldownState (shared_auth 3 (cooling_state False 20 300))
     (shared_auth 4 (cooling_state True 10 500)) 100)) ''m'' 400"
  by (rule adoption_shares_cooldowns [where p = "cooling_state True 10 500"])
    (simp_all add: shared_auth_def model_state_at_def gomap_get_def cooling_state_def model_blocked no_quota_def)

text \<open>
  Snapshots are ordered by their version: adopting one never takes the credential back to an older
  version, and a stale one changes nothing, for results and for cooldowns.
\<close>

theorem adoption_monotone:
  assumes "au_StateVersion local > 0" "au_StateVersion persisted > 0"
  shows "au_StateVersion local \<le> au_StateVersion (fst (adoptPersistedCooldownState local persisted now))
    \<and> au_StateVersion local \<le> au_StateVersion (fst (adoptPersistedResultState sha r m local persisted now))
    \<and> (au_StateVersion local > au_StateVersion persisted \<longrightarrow>
         adoptPersistedCooldownState local persisted now = (local, False)
         \<and> adoptPersistedResultState sha r m local persisted now = (local, False))"
  using assms adopted_version [of local persisted now] adopted_result_version [of sha r m local persisted now]
    adopted_result_stale [of local persisted sha r m now]
  by (cases "stale_snapshot local persisted") (auto simp: adoptPersistedCooldownState_def)

theorem adoption_monotone_witness:
  "adoptPersistedCooldownState (shared_auth 4 (cooling_state True 10 500)) (shared_auth 3 (cooling_state False 20 300)) 100
     = (shared_auth 4 (cooling_state True 10 500), False)"
  using adoption_monotone [of "shared_auth 4 (cooling_state True 10 500)" "shared_auth 3 (cooling_state False 20 300)"
      100 id ok_result "''m''"]
  by (simp add: shared_auth_def)

end
