(* ===== verification/Model_Registry.thy ===== *)
theory Model_Registry
  imports Home_Prelude
begin

section \<open>The model registry\<close>

text \<open>
  \<^verbatim>\<open>internal/registry/model_registry.go\<close>: which clients (credentials) offer which models, with a
  reference count per model and per provider, and the clients that are out of quota or suspended.
  The registry is one record behind a mutex, so each exported method is one function on it; the
  clock is an argument.  A nil map is the empty one (no method distinguishes them), a pointer to a
  registration in \<open>rg_models\<close> is written back where the code writes through it, and a clone is the
  value itself.  Loops over a map touch one model each, so the order in which the list is visited
  does not matter to them.
\<close>

subsection \<open>Data\<close>

record native_capabilities =
  nc_WebSearch :: "bool option"
  nc_ToolSearch :: "bool option"

record thinking_support =
  ts_Min :: int
  ts_Max :: int
  ts_ZeroAllowed :: bool
  ts_DynamicAllowed :: bool
  ts_Levels :: "string list"

record model_info =
  mi_ID :: string
  mi_Object :: string
  mi_Created :: int
  mi_OwnedBy :: string
  mi_Type :: string
  mi_Providers :: "string list"
  mi_DisplayName :: string
  mi_Name :: string
  mi_Version :: string
  mi_Description :: string
  mi_InputTokenLimit :: int
  mi_OutputTokenLimit :: int
  mi_SupportedGenerationMethods :: "string list"
  mi_ContextLength :: int
  mi_MaxCompletionTokens :: int
  mi_SupportedParameters :: "string list"
  mi_SupportedInputModalities :: "string list"
  mi_SupportedOutputModalities :: "string list"
  mi_Thinking :: "thinking_support option"
  mi_NativeCapabilities :: "native_capabilities option"
  mi_SupportConfigurationUpdate :: bool
  mi_UserDefined :: bool
  mi_ConfigDisplayName :: string
  mi_ForceMapping :: bool

record model_registration =
  mr_Info :: "model_info option"
  mr_InfoByProvider :: "(string, model_info option) gomap"
  mr_Count :: int
  mr_LastUpdated :: gotime
  mr_QuotaExceededClients :: "(string, gotime option) gomap"
  mr_Providers :: "(string, int) gomap"
  mr_SuspendedClients :: "(string, string) gomap"

record model_registry =
  rg_models :: "(string, model_registration) gomap"
  rg_clientModels :: "(string, string list) gomap"
  rg_clientModelInfos :: "(string, (string, model_info option) gomap) gomap"
  rg_clientModelCandidates :: "(string, model_info list) gomap"
  rg_clientProviders :: "(string, string) gomap"

definition empty_registry :: model_registry where
  "empty_registry = \<lparr>rg_models = [], rg_clientModels = [], rg_clientModelInfos = [],
     rg_clientModelCandidates = [], rg_clientProviders = []\<rparr>"

definition modelQuotaExceededWindow :: gotime where
  "modelQuotaExceededWindow = 5 * 60 * 1000000000"

definition with_registration :: "string \<Rightarrow> model_registration \<Rightarrow> model_registry \<Rightarrow> model_registry" where
  "with_registration modelID reg r = r\<lparr>rg_models := AList.update modelID reg (rg_models r)\<rparr>"

subsection \<open>Counting registrations\<close>

definition addModelRegistration ::
    "string \<Rightarrow> string \<Rightarrow> model_info option \<Rightarrow> gotime \<Rightarrow> model_registry \<Rightarrow> model_registry" where
  "addModelRegistration modelID provider model now r =
     (if model = None \<or> modelID = [] then r
      else case map_of (rg_models r) modelID of
          Some existing \<Rightarrow>
            let reg = existing\<lparr>mr_Count := mr_Count existing + 1, mr_LastUpdated := now, mr_Info := model\<rparr>
            in with_registration modelID
                 (if provider \<noteq> []
                  then reg\<lparr>mr_Providers := AList.update provider (gomap_get 0 (mr_Providers reg) provider + 1)
                             (mr_Providers reg),
                           mr_InfoByProvider := AList.update provider model (mr_InfoByProvider reg)\<rparr>
                  else reg) r
        | None \<Rightarrow>
            with_registration modelID
              \<lparr>mr_Info = model, mr_InfoByProvider = (if provider \<noteq> [] then [(provider, model)] else []),
               mr_Count = 1, mr_LastUpdated = now, mr_QuotaExceededClients = [],
               mr_Providers = (if provider \<noteq> [] then [(provider, 1)] else []),
               mr_SuspendedClients = []\<rparr> r)"

text \<open>One client of \<open>provider\<close> less; the entry goes with its last client.\<close>

definition drop_provider :: "string \<Rightarrow> model_registration \<Rightarrow> model_registration" where
  "drop_provider provider reg =
     (case map_of (mr_Providers reg) provider of
        None \<Rightarrow> reg
      | Some n \<Rightarrow>
          if n \<le> 1
          then reg\<lparr>mr_Providers := AList.delete provider (mr_Providers reg),
                   mr_InfoByProvider := AList.delete provider (mr_InfoByProvider reg)\<rparr>
          else reg\<lparr>mr_Providers := AList.update provider (n - 1) (mr_Providers reg)\<rparr>)"

definition forget_client :: "string \<Rightarrow> model_registration \<Rightarrow> model_registration" where
  "forget_client clientID reg =
     reg\<lparr>mr_QuotaExceededClients := AList.delete clientID (mr_QuotaExceededClients reg),
         mr_SuspendedClients := AList.delete clientID (mr_SuspendedClients reg)\<rparr>"

definition removeModelRegistration ::
    "string \<Rightarrow> string \<Rightarrow> string \<Rightarrow> gotime \<Rightarrow> model_registry \<Rightarrow> model_registry" where
  "removeModelRegistration clientID modelID provider now r =
     (case map_of (rg_models r) modelID of
        None \<Rightarrow> r
      | Some registration \<Rightarrow>
          let reg1 = forget_client clientID
                (registration\<lparr>mr_Count := mr_Count registration - 1, mr_LastUpdated := now\<rparr>);
              reg2 = (if mr_Count reg1 < 0 then reg1\<lparr>mr_Count := 0\<rparr> else reg1);
              reg3 = (if provider \<noteq> [] then drop_provider provider reg2 else reg2)
          in if mr_Count reg3 \<le> 0 then r\<lparr>rg_models := AList.delete modelID (rg_models r)\<rparr>
             else with_registration modelID reg3 r)"

fun unregister_loop :: "string \<Rightarrow> string option \<Rightarrow> gotime \<Rightarrow> string list \<Rightarrow> model_registry \<Rightarrow> model_registry" where
  "unregister_loop clientID provider now [] r = r"
| "unregister_loop clientID provider now (modelID # models) r =
     unregister_loop clientID provider now models
       (case map_of (rg_models r) modelID of
          None \<Rightarrow> r
        | Some registration \<Rightarrow>
            let reg1 = forget_client clientID
                  (registration\<lparr>mr_Count := mr_Count registration - 1, mr_LastUpdated := now\<rparr>);
                reg2 = (case provider of Some p \<Rightarrow> drop_provider p reg1 | None \<Rightarrow> reg1)
            in if mr_Count reg2 \<le> 0 then r\<lparr>rg_models := AList.delete modelID (rg_models r)\<rparr>
               else with_registration modelID reg2 r)"

definition unregisterClientInternal :: "string \<Rightarrow> gotime \<Rightarrow> model_registry \<Rightarrow> model_registry" where
  "unregisterClientInternal clientID now r0 =
     (let r = r0\<lparr>rg_clientModelCandidates := AList.delete clientID (rg_clientModelCandidates r0)\<rparr>;
          provider = map_of (rg_clientProviders r) clientID
      in case map_of (rg_clientModels r) clientID of
          None \<Rightarrow> r\<lparr>rg_clientProviders := AList.delete clientID (rg_clientProviders r)\<rparr>
        | Some models \<Rightarrow>
            let r' = unregister_loop clientID provider now models r
            in r'\<lparr>rg_clientModels := AList.delete clientID (rg_clientModels r'),
                  rg_clientModelInfos := AList.delete clientID (rg_clientModelInfos r'),
                  rg_clientProviders := AList.delete clientID (rg_clientProviders r')\<rparr>)"

subsection \<open>Registering a client\<close>

fun count_ids :: "string list \<Rightarrow> (string, int) gomap \<Rightarrow> (string, int) gomap" where
  "count_ids [] counts = counts"
| "count_ids (modelID # models) counts =
     count_ids models (AList.update modelID (gomap_get 0 counts modelID + 1) counts)"

record client_intake =
  ci_uniqueModelIDs :: "string list"
  ci_rawModelIDs :: "string list"
  ci_newModels :: "(string, model_info option) gomap"
  ci_newCounts :: "(string, int) gomap"

fun intake_loop :: "model_info option list \<Rightarrow> client_intake \<Rightarrow> client_intake" where
  "intake_loop [] s = s"
| "intake_loop (model # models) s =
     (case model of
        None \<Rightarrow> intake_loop models s
      | Some m \<Rightarrow>
          if mi_ID m = [] then intake_loop models s
          else
            let s1 = s\<lparr>ci_rawModelIDs := ci_rawModelIDs s @ [mi_ID m],
                       ci_newCounts := AList.update (mi_ID m) (gomap_get 0 (ci_newCounts s) (mi_ID m) + 1)
                         (ci_newCounts s)\<rparr>
            in if map_of (ci_newModels s1) (mi_ID m) \<noteq> None then intake_loop models s1
               else intake_loop models
                 (s1\<lparr>ci_newModels := AList.update (mi_ID m) model (ci_newModels s1),
                     ci_uniqueModelIDs := ci_uniqueModelIDs s1 @ [mi_ID m]\<rparr>))"

definition client_intake :: "model_info option list \<Rightarrow> client_intake" where
  "client_intake models = intake_loop models
     \<lparr>ci_uniqueModelIDs = [], ci_rawModelIDs = [], ci_newModels = [], ci_newCounts = []\<rparr>"

text \<open>The loops over the counts.\<close>

fun repeat_step :: "nat \<Rightarrow> ('s \<Rightarrow> 's) \<Rightarrow> 's \<Rightarrow> 's" where
  "repeat_step 0 f s = s"
| "repeat_step (Suc n) f s = repeat_step n f (f s)"

definition drop_old_provider :: "string \<Rightarrow> int \<Rightarrow> string \<Rightarrow> model_registry \<Rightarrow> model_registry" where
  "drop_old_provider oldProvider toRemove modelID r =
     (case map_of (rg_models r) modelID of
        None \<Rightarrow> r
      | Some reg \<Rightarrow>
          (case map_of (mr_Providers reg) oldProvider of
             None \<Rightarrow> r
           | Some n \<Rightarrow>
               if n \<le> toRemove
               then with_registration modelID
                 (reg\<lparr>mr_Providers := AList.delete oldProvider (mr_Providers reg),
                      mr_InfoByProvider := AList.delete oldProvider (mr_InfoByProvider reg)\<rparr>) r
               else with_registration modelID
                 (reg\<lparr>mr_Providers := AList.update oldProvider (n - toRemove) (mr_Providers reg)\<rparr>) r))"

fun provider_change_loop :: "string \<Rightarrow> (string, int) gomap \<Rightarrow> (string, int) gomap \<Rightarrow> model_registry
    \<Rightarrow> model_registry" where
  "provider_change_loop oldProvider oldCounts [] r = r"
| "provider_change_loop oldProvider oldCounts ((modelID, newCount) # newCounts) r =
     (let oldCount = gomap_get 0 oldCounts modelID
      in provider_change_loop oldProvider oldCounts newCounts
           (if newCount = 0 \<or> oldCount = 0 then r
            else drop_old_provider oldProvider (if oldCount < newCount then oldCount else newCount)
                   modelID r))"

fun removed_loop :: "string \<Rightarrow> string \<Rightarrow> gotime \<Rightarrow> (string, int) gomap \<Rightarrow> string list \<Rightarrow> model_registry
    \<Rightarrow> model_registry" where
  "removed_loop clientID oldProvider now oldCounts [] r = r"
| "removed_loop clientID oldProvider now oldCounts (modelID # removed) r =
     removed_loop clientID oldProvider now oldCounts removed
       (repeat_step (nat (gomap_get 0 oldCounts modelID))
         (removeModelRegistration clientID modelID oldProvider now) r)"

fun overage_loop :: "string \<Rightarrow> string \<Rightarrow> gotime \<Rightarrow> (string, int) gomap \<Rightarrow> (string, int) gomap \<Rightarrow> model_registry
    \<Rightarrow> model_registry" where
  "overage_loop clientID oldProvider now newCounts [] r = r"
| "overage_loop clientID oldProvider now newCounts ((modelID, oldCount) # oldCounts) r =
     (let newCount = gomap_get 0 newCounts modelID
      in overage_loop clientID oldProvider now newCounts oldCounts
           (if newCount = 0 \<or> oldCount \<le> newCount then r
            else repeat_step (nat (oldCount - newCount))
                   (removeModelRegistration clientID modelID oldProvider now) r))"

fun addition_loop :: "string \<Rightarrow> gotime \<Rightarrow> (string, model_info option) gomap \<Rightarrow> (string, int) gomap
    \<Rightarrow> (string, int) gomap \<Rightarrow> model_registry \<Rightarrow> model_registry" where
  "addition_loop provider now newModels oldCounts [] r = r"
| "addition_loop provider now newModels oldCounts ((modelID, newCount) # newCounts) r =
     (let oldCount = gomap_get 0 oldCounts modelID
      in addition_loop provider now newModels oldCounts newCounts
           (if newCount \<le> oldCount then r
            else repeat_step (nat (newCount - oldCount))
                   (addModelRegistration modelID provider (gomap_get None newModels modelID) now) r))"

text \<open>What the last loop writes for a model that the client still has.\<close>

definition refresh_registration ::
    "string \<Rightarrow> string \<Rightarrow> bool \<Rightarrow> gotime \<Rightarrow> (string, int) gomap \<Rightarrow> (string, int) gomap \<Rightarrow> string list
     \<Rightarrow> string \<Rightarrow> model_info option \<Rightarrow> model_registration \<Rightarrow> model_registration" where
  "refresh_registration clientID provider providerChanged now oldCounts newCounts added modelID model reg =
     (let reg1 = reg\<lparr>mr_Info := model\<rparr>;
          reg2 = (if provider \<noteq> []
                  then reg1\<lparr>mr_InfoByProvider := AList.update provider model (mr_InfoByProvider reg1)\<rparr>
                  else reg1);
          reg3 = forget_client clientID (reg2\<lparr>mr_LastUpdated := now\<rparr>);
          newCount = gomap_get 0 newCounts modelID;
          oldCount = gomap_get 0 oldCounts modelID;
          overlapCount = (if oldCount < newCount then oldCount else newCount)
      in if providerChanged \<and> provider \<noteq> [] \<and> \<not> List.member added modelID \<and> \<not> overlapCount \<le> 0
         then reg3\<lparr>mr_Providers := AList.update provider
                (gomap_get 0 (mr_Providers reg3) provider + overlapCount) (mr_Providers reg3)\<rparr>
         else reg3)"

fun refresh_loop :: "(string \<Rightarrow> model_registration \<Rightarrow> model_registration) \<Rightarrow> string list \<Rightarrow> model_registry
    \<Rightarrow> model_registry" where
  "refresh_loop f [] r = r"
| "refresh_loop f (modelID # models) r =
     refresh_loop f models
       (case map_of (rg_models r) modelID of
          None \<Rightarrow> r
        | Some reg \<Rightarrow> with_registration modelID (f modelID reg) r)"

definition set_provider :: "string \<Rightarrow> string \<Rightarrow> model_registry \<Rightarrow> model_registry" where
  "set_provider clientID provider r =
     r\<lparr>rg_clientProviders := (if provider \<noteq> [] then AList.update clientID provider (rg_clientProviders r)
                              else AList.delete clientID (rg_clientProviders r))\<rparr>"

fun add_raw_loop :: "string \<Rightarrow> gotime \<Rightarrow> (string, model_info option) gomap \<Rightarrow> string list \<Rightarrow> model_registry
    \<Rightarrow> model_registry" where
  "add_raw_loop provider now newModels [] r = r"
| "add_raw_loop provider now newModels (modelID # models) r =
     add_raw_loop provider now newModels models
       (addModelRegistration modelID provider (gomap_get None newModels modelID) now r)"

definition reconcile_client ::
    "string \<Rightarrow> string \<Rightarrow> client_intake \<Rightarrow> string list \<Rightarrow> gotime \<Rightarrow> model_registry \<Rightarrow> model_registry" where
  "reconcile_client clientID provider new oldModels now r =
     (let oldProvider = gomap_get [] (rg_clientProviders r) clientID;
          providerChanged = (oldProvider \<noteq> provider);
          newCounts = ci_newCounts new;
          oldCounts = count_ids oldModels [];
          added = filter (\<lambda>m. gomap_get 0 oldCounts m = 0) (ci_uniqueModelIDs new);
          removed = filter (\<lambda>m. gomap_get 0 newCounts m = 0) (map fst oldCounts);
          r1 = (if providerChanged \<and> oldProvider \<noteq> []
                then provider_change_loop oldProvider oldCounts newCounts r else r);
          r2 = removed_loop clientID oldProvider now oldCounts removed r1;
          r3 = overage_loop clientID oldProvider now newCounts oldCounts r2;
          r4 = addition_loop provider now (ci_newModels new) oldCounts newCounts r3
      in refresh_loop (\<lambda>modelID. refresh_registration clientID provider providerChanged now oldCounts
           newCounts added modelID (gomap_get None (ci_newModels new) modelID)) (ci_uniqueModelIDs new) r4)"

fun candidate_loop :: "model_info option list \<Rightarrow> string list \<Rightarrow> model_info list \<Rightarrow> model_info list" where
  "candidate_loop [] seen copied = copied"
| "candidate_loop (model # models) seen copied =
     (case model of
        None \<Rightarrow> candidate_loop models seen copied
      | Some m \<Rightarrow>
          if trim_space (mi_ID m) = [] then candidate_loop models seen copied
          else let key = to_lower (mi_ID m)
               in if List.member seen key then candidate_loop models seen copied
                  else candidate_loop models (key # seen) (copied @ [m]))"

definition record_candidates :: "string \<Rightarrow> model_info option list option \<Rightarrow> model_registry \<Rightarrow> model_registry" where
  "record_candidates clientID candidates r =
     (case candidates of
        None \<Rightarrow> r\<lparr>rg_clientModelCandidates := AList.delete clientID (rg_clientModelCandidates r)\<rparr>
      | Some models \<Rightarrow>
          r\<lparr>rg_clientModelCandidates := AList.update clientID (candidate_loop models [] [])
              (rg_clientModelCandidates r)\<rparr>)"

definition registerClient :: "string \<Rightarrow> string \<Rightarrow> model_info option list \<Rightarrow> model_info option list option
    \<Rightarrow> gotime \<Rightarrow> model_registry \<Rightarrow> model_registry" where
  "registerClient clientID clientProvider models candidates now r =
     record_candidates clientID candidates
       (let provider = to_lower clientProvider;
            new = client_intake models
        in if ci_uniqueModelIDs new = []
           then let r' = unregisterClientInternal clientID now r
                in r'\<lparr>rg_clientModels := AList.delete clientID (rg_clientModels r'),
                      rg_clientModelInfos := AList.delete clientID (rg_clientModelInfos r'),
                      rg_clientProviders := AList.delete clientID (rg_clientProviders r')\<rparr>
           else
             let r' = (case map_of (rg_clientModels r) clientID of
                   None \<Rightarrow> add_raw_loop provider now (ci_newModels new) (ci_rawModelIDs new) r
                 | Some oldModels \<Rightarrow> reconcile_client clientID provider new oldModels now r)
             in set_provider clientID provider
                  (r'\<lparr>rg_clientModels := AList.update clientID (ci_rawModelIDs new) (rg_clientModels r'),
                      rg_clientModelInfos := AList.update clientID (ci_newModels new)
                        (rg_clientModelInfos r')\<rparr>))"

definition RegisterClient ::
    "string \<Rightarrow> string \<Rightarrow> model_info option list \<Rightarrow> gotime \<Rightarrow> model_registry \<Rightarrow> model_registry" where
  "RegisterClient clientID clientProvider models now r = registerClient clientID clientProvider models None now r"

definition RegisterClientWithCandidates ::
    "string \<Rightarrow> string \<Rightarrow> model_info option list \<Rightarrow> model_info option list option \<Rightarrow> gotime \<Rightarrow> model_registry
     \<Rightarrow> model_registry" where
  "RegisterClientWithCandidates clientID clientProvider models candidates now r =
     registerClient clientID clientProvider models candidates now r"

definition UnregisterClient :: "string \<Rightarrow> gotime \<Rightarrow> model_registry \<Rightarrow> model_registry" where
  "UnregisterClient clientID now r = unregisterClientInternal clientID now r"

subsection \<open>Quota and suspension\<close>

definition clientSupportsModelLocked :: "model_registry \<Rightarrow> string \<Rightarrow> string \<Rightarrow> bool" where
  "clientSupportsModelLocked r clientID modelID =
     list_ex (\<lambda>m. equal_fold (trim_space m) modelID) (gomap_get [] (rg_clientModels r) clientID)"

definition ClientSupportsModel :: "model_registry \<Rightarrow> string \<Rightarrow> string \<Rightarrow> bool" where
  "ClientSupportsModel r clientID0 modelID0 =
     (let clientID = trim_space clientID0; modelID = trim_space modelID0
      in if clientID = [] \<or> modelID = [] then False else clientSupportsModelLocked r clientID modelID)"

definition SetModelQuotaExceeded :: "string \<Rightarrow> string \<Rightarrow> gotime \<Rightarrow> model_registry \<Rightarrow> model_registry" where
  "SetModelQuotaExceeded clientID0 modelID0 now r =
     (let clientID = trim_space clientID0; modelID = trim_space modelID0
      in if clientID = [] \<or> modelID = [] then r
         else if \<not> clientSupportsModelLocked r clientID modelID then r
         else case map_of (rg_models r) modelID of
             None \<Rightarrow> r
           | Some reg \<Rightarrow>
               with_registration modelID
                 (reg\<lparr>mr_QuotaExceededClients := AList.update clientID (Some now)
                    (mr_QuotaExceededClients reg)\<rparr>) r)"

definition ClearModelQuotaExceeded :: "string \<Rightarrow> string \<Rightarrow> model_registry \<Rightarrow> model_registry" where
  "ClearModelQuotaExceeded clientID modelID r =
     (case map_of (rg_models r) modelID of
        None \<Rightarrow> r
      | Some reg \<Rightarrow>
          with_registration modelID
            (reg\<lparr>mr_QuotaExceededClients := AList.delete clientID (mr_QuotaExceededClients reg)\<rparr>) r)"

definition SuspendClientModel :: "string \<Rightarrow> string \<Rightarrow> string \<Rightarrow> gotime \<Rightarrow> model_registry \<Rightarrow> model_registry" where
  "SuspendClientModel clientID0 modelID0 reason now r =
     (let clientID = trim_space clientID0; modelID = trim_space modelID0
      in if clientID = [] \<or> modelID = [] then r
         else if \<not> clientSupportsModelLocked r clientID modelID then r
         else case map_of (rg_models r) modelID of
             None \<Rightarrow> r
           | Some reg \<Rightarrow>
               if map_of (mr_SuspendedClients reg) clientID \<noteq> None then r
               else with_registration modelID
                 (reg\<lparr>mr_SuspendedClients := AList.update clientID reason (mr_SuspendedClients reg),
                      mr_LastUpdated := now\<rparr>) r)"

definition ResumeClientModel :: "string \<Rightarrow> string \<Rightarrow> gotime \<Rightarrow> model_registry \<Rightarrow> model_registry" where
  "ResumeClientModel clientID modelID now r =
     (if clientID = [] \<or> modelID = [] then r
      else case map_of (rg_models r) modelID of
          None \<Rightarrow> r
        | Some reg \<Rightarrow>
            if map_of (mr_SuspendedClients reg) clientID = None then r
            else with_registration modelID
              (reg\<lparr>mr_SuspendedClients := AList.delete clientID (mr_SuspendedClients reg),
                   mr_LastUpdated := now\<rparr>) r)"

subsection \<open>Reading the registry\<close>

fun quota_count_loop :: "gotime \<Rightarrow> (string, gotime option) gomap \<Rightarrow> int \<Rightarrow> gotime \<Rightarrow> int \<times> gotime" where
  "quota_count_loop now [] expiredClients expiresAt = (expiredClients, expiresAt)"
| "quota_count_loop now ((client, quotaTime) # clients) expiredClients expiresAt =
     (case quotaTime of
        None \<Rightarrow> quota_count_loop now clients expiredClients expiresAt
      | Some t \<Rightarrow>
          let recoveryAt = t + modelQuotaExceededWindow
          in if now < recoveryAt
             then quota_count_loop now clients (expiredClients + 1)
                    (if expiresAt = 0 \<or> recoveryAt < expiresAt then recoveryAt else expiresAt)
             else quota_count_loop now clients expiredClients expiresAt)"

fun suspended_count_loop :: "(string, string) gomap \<Rightarrow> int \<Rightarrow> int \<Rightarrow> int \<times> int" where
  "suspended_count_loop [] cooldownSuspended otherSuspended = (cooldownSuspended, otherSuspended)"
| "suspended_count_loop ((client, reason) # clients) cooldownSuspended otherSuspended =
     (if equal_fold reason ''quota'' then suspended_count_loop clients (cooldownSuspended + 1) otherSuspended
      else suspended_count_loop clients cooldownSuspended (otherSuspended + 1))"

definition modelRegistrationAvailability :: "model_registration \<Rightarrow> gotime \<Rightarrow> bool \<times> gotime" where
  "modelRegistrationAvailability registration now =
     (let availableClients = mr_Count registration;
          (expiredClients, expiresAt) = quota_count_loop now (mr_QuotaExceededClients registration) 0 0;
          (cooldownSuspended, otherSuspended) =
            suspended_count_loop (mr_SuspendedClients registration) 0 0;
          effective0 = availableClients - expiredClients - otherSuspended;
          effectiveClients = (if effective0 < 0 then 0 else effective0)
      in (effectiveClients > 0
            \<or> (availableClients > 0 \<and> (expiredClients > 0 \<or> cooldownSuspended > 0) \<and> otherSuspended = 0),
          expiresAt))"

fun provider_set_loop :: "(string, int) gomap \<Rightarrow> string list \<Rightarrow> string list" where
  "provider_set_loop [] providerSet = providerSet"
| "provider_set_loop ((provider0, n) # providers) providerSet =
     (let provider = to_lower (trim_space provider0)
      in if provider = [] \<or> n \<le> 0 then provider_set_loop providers providerSet
         else provider_set_loop providers (List.insert provider providerSet))"

definition modelRegistrationProviders :: "model_registration \<Rightarrow> string list" where
  "modelRegistrationProviders registration = sort (provider_set_loop (mr_Providers registration) [])"

definition modelInfoSortKey :: "model_info \<Rightarrow> string" where
  "modelInfoSortKey model = to_lower (trim_space (mi_ID model))"

text \<open>
  \<^verbatim>\<open>sort.Slice\<close> leaves the order of equal keys open; here they keep the order of the visit, which is
  open too.
\<close>

definition sortModelInfosByID :: "model_info list \<Rightarrow> model_info list" where
  "sortModelInfosByID models = sort_key modelInfoSortKey models"

definition available_definition :: "gotime \<Rightarrow> model_registration \<Rightarrow> model_info option" where
  "available_definition now registration =
     (if \<not> fst (modelRegistrationAvailability registration now) then None
      else case mr_Info registration of
          None \<Rightarrow> None
        | Some m \<Rightarrow> Some (m\<lparr>mi_Providers := modelRegistrationProviders registration\<rparr>))"

definition GetAvailableModelDefinitions :: "model_registry \<Rightarrow> gotime \<Rightarrow> model_info list" where
  "GetAvailableModelDefinitions r now =
     sortModelInfosByID (List.map_filter (\<lambda>(modelID, reg). available_definition now reg) (rg_models r))"

definition GetModelInfo :: "model_registry \<Rightarrow> string \<Rightarrow> string \<Rightarrow> model_info option" where
  "GetModelInfo r modelID provider =
     (case map_of (rg_models r) modelID of
        None \<Rightarrow> None
      | Some reg \<Rightarrow>
          if provider \<noteq> [] \<and> gomap_get 0 (mr_Providers reg) provider > 0
             \<and> gomap_get None (mr_InfoByProvider reg) provider \<noteq> None
          then gomap_get None (mr_InfoByProvider reg) provider
          else mr_Info reg)"

fun client_models_loop :: "model_registry \<Rightarrow> (string, model_info option) gomap \<Rightarrow> string list \<Rightarrow> string list
    \<Rightarrow> model_info list \<Rightarrow> model_info list" where
  "client_models_loop r clientInfos [] seen result = result"
| "client_models_loop r clientInfos (modelID # models) seen result =
     (if List.member seen modelID then client_models_loop r clientInfos models seen result
      else client_models_loop r clientInfos models (modelID # seen)
        (case gomap_get None clientInfos modelID of
           Some info \<Rightarrow> result @ [info]
         | None \<Rightarrow>
             (case map_of (rg_models r) modelID of
                Some reg \<Rightarrow> (case mr_Info reg of Some info \<Rightarrow> result @ [info] | None \<Rightarrow> result)
              | None \<Rightarrow> result)))"

definition GetModelsForClient :: "model_registry \<Rightarrow> string \<Rightarrow> model_info list" where
  "GetModelsForClient r clientID =
     client_models_loop r (gomap_get [] (rg_clientModelInfos r) clientID)
       (gomap_get [] (rg_clientModels r) clientID) [] []"

definition GetModelCandidatesForClient :: "model_registry \<Rightarrow> string \<Rightarrow> model_info list option" where
  "GetModelCandidatesForClient r clientID = map_of (rg_clientModelCandidates r) clientID"

definition GetClientModelRoutes :: "model_registry \<Rightarrow> string \<Rightarrow> string \<times> string list" where
  "GetClientModelRoutes r clientID =
     (gomap_get [] (rg_clientProviders r) clientID, gomap_get [] (rg_clientModels r) clientID)"

fun fold_info :: "string \<Rightarrow> (string, model_info option) gomap \<Rightarrow> model_info option" where
  "fold_info modelID [] = None"
| "fold_info modelID ((m, info) # infos) =
     (if info \<noteq> None \<and> equal_fold m modelID then info else fold_info modelID infos)"

definition GetModelInfoForClient :: "model_registry \<Rightarrow> string \<Rightarrow> string \<Rightarrow> model_info option" where
  "GetModelInfoForClient r clientID0 modelID0 =
     (let clientID = trim_space clientID0; modelID = trim_space modelID0;
          clientInfos = gomap_get [] (rg_clientModelInfos r) clientID
      in if clientID = [] \<or> modelID = [] then None
         else case gomap_get None clientInfos modelID of
             Some info \<Rightarrow> Some info
           | None \<Rightarrow> fold_info modelID clientInfos)"

section \<open>Counts and holders\<close>

text \<open>
  The abstract view: \<open>holders r m\<close> are the providers of the clients that hold model \<open>m\<close>, one per
  registered occurrence (the empty text for a client without a provider).  A registration tracks
  such a multiset when its counters are the multiplicities in it.
\<close>

definition holders :: "model_registry \<Rightarrow> string \<Rightarrow> string multiset" where
  "holders r m = sum_list (map (\<lambda>(c, ms).
     replicate_mset (count_list ms m) (gomap_get [] (rg_clientProviders r) c)) (rg_clientModels r))"

definition reg_tracks :: "string multiset \<Rightarrow> model_registration \<Rightarrow> bool" where
  "reg_tracks P reg \<longleftrightarrow> P \<noteq> {#} \<and> mr_Count reg = int (size P)
     \<and> (\<forall>p. map_of (mr_Providers reg) p = (if p = [] \<or> p \<notin># P then None else Some (int (count P p))))"

definition tracks :: "model_registry \<Rightarrow> (string \<Rightarrow> string multiset) \<Rightarrow> bool" where
  "tracks r B \<longleftrightarrow> (\<forall>m. (map_of (rg_models r) m = None \<longrightarrow> B m = {#})
     \<and> (\<forall>reg. map_of (rg_models r) m = Some reg \<longrightarrow> reg_tracks (B m) reg))"

lemma forget_client_keeps [simp]:
  "mr_Count (forget_client c reg) = mr_Count reg" "mr_Providers (forget_client c reg) = mr_Providers reg"
  by (simp_all add: forget_client_def)

lemma drop_provider_keeps [simp]: "mr_Count (drop_provider p reg) = mr_Count reg"
  by (auto simp: drop_provider_def split: option.split)

lemma reg_tracks_cong:
  "mr_Count reg = mr_Count reg' \<Longrightarrow> mr_Providers reg = mr_Providers reg' \<Longrightarrow>
   reg_tracks P reg = reg_tracks P reg'"
  by (simp add: reg_tracks_def)

lemma tracks_with:
  assumes "tracks r B" "reg_tracks P reg"
  shows "tracks (with_registration m reg r) (B(m := P))"
  using assms by (simp add: tracks_def with_registration_def)

lemma tracks_without:
  assumes "tracks r B"
  shows "tracks (r\<lparr>rg_models := AList.delete m (rg_models r)\<rparr>) (B(m := {#}))"
  using assms by (simp add: tracks_def)

lemma tracks_Some: "tracks r B \<Longrightarrow> map_of (rg_models r) m = Some reg \<Longrightarrow> reg_tracks (B m) reg"
  by (simp add: tracks_def)

lemma tracks_None: "tracks r B \<Longrightarrow> map_of (rg_models r) m = None \<Longrightarrow> B m = {#}"
  by (simp add: tracks_def)

lemma tracks_held: "tracks r B \<Longrightarrow> p \<in># B m \<Longrightarrow> \<exists>reg. map_of (rg_models r) m = Some reg"
  by (cases "map_of (rg_models r) m") (auto dest: tracks_None)

lemma tracks_models: "rg_models r = rg_models r' \<Longrightarrow> tracks r B = tracks r' B"
  by (simp add: tracks_def)

text \<open>One registration, up and down.\<close>

lemma reg_tracks_add:
  assumes "reg_tracks P reg" "mr_Count reg' = mr_Count reg + 1"
    "mr_Providers reg' = (if p = [] then mr_Providers reg
      else AList.update p (gomap_get 0 (mr_Providers reg) p + 1) (mr_Providers reg))"
  shows "reg_tracks (add_mset p P) reg'"
  using assms by (auto simp: reg_tracks_def gomap_get_def not_in_iff)

lemma reg_tracks_drop:
  assumes "reg_tracks P reg" "p \<in># P" "P \<noteq> {#p#}" "mr_Count reg' = mr_Count reg - 1"
    "mr_Providers reg' = mr_Providers (drop_provider p reg)"
  shows "reg_tracks (P - {#p#}) reg'"
proof -
  from \<open>p \<in># P\<close> obtain Q where Q: "P = add_mset p Q"
    by (rule mset_add)
  then have "Q \<noteq> {#}"
    using assms(3) by auto
  then show ?thesis
    using assms(1,4,5) unfolding Q reg_tracks_def drop_provider_def
    by (auto simp: not_in_iff split: option.splits if_splits)
qed

lemma tracks_add:
  assumes "tracks r B" "model \<noteq> None" "m \<noteq> []"
  shows "tracks (addModelRegistration m p model now r) (B(m := add_mset p (B m)))"
proof (cases "map_of (rg_models r) m")
  case None
  with assms show ?thesis
    using tracks_None [OF assms(1) None]
    by (auto simp: addModelRegistration_def reg_tracks_def intro!: tracks_with)
next
  case (Some reg)
  with assms show ?thesis
    using tracks_Some [OF assms(1) Some]
    by (auto simp: addModelRegistration_def Let_def intro!: tracks_with reg_tracks_add)
qed

text \<open>Removing a held registration, whatever else changes in it.\<close>

lemma tracks_take:
  assumes "tracks r B" "map_of (rg_models r) m = Some reg" "p \<in># B m"
    and "mr_Count reg' = mr_Count reg - 1" "mr_Providers reg' = mr_Providers (drop_provider p reg)"
  shows "tracks (if mr_Count reg' \<le> 0 then r\<lparr>rg_models := AList.delete m (rg_models r)\<rparr>
      else with_registration m reg' r) (B(m := B m - {#p#}))"
proof -
  have reg: "reg_tracks (B m) reg"
    by (rule tracks_Some [OF assms(1,2)])
  show ?thesis
  proof (cases "B m = {#p#}")
    case True
    then have "mr_Count reg' = 0"
      using reg assms(4) by (simp add: reg_tracks_def)
    then show ?thesis
      using tracks_without [OF assms(1), of m] True by simp
  next
    case False
    then have "reg_tracks (B m - {#p#}) reg'"
      using reg_tracks_drop [OF reg assms(3)] assms(4,5) by simp
    moreover from this have "0 < mr_Count reg'"
      by (simp add: reg_tracks_def nonempty_has_size)
    ultimately show ?thesis
      using tracks_with [OF assms(1)] by auto
  qed
qed

lemma drop_no_provider: "reg_tracks P reg \<Longrightarrow> drop_provider [] reg = reg"
  by (simp add: reg_tracks_def drop_provider_def)

lemma drop_provider_cong:
  "mr_Providers reg = mr_Providers reg' \<Longrightarrow> mr_Providers (drop_provider p reg) = mr_Providers (drop_provider p reg')"
  by (simp add: drop_provider_def split: option.split)

lemma tracks_remove:
  assumes "tracks r B" "p \<in># B m"
  shows "tracks (removeModelRegistration c m p now r) (B(m := B m - {#p#}))"
proof -
  obtain reg where reg: "map_of (rg_models r) m = Some reg"
    using tracks_held [OF assms] by blast
  note t = tracks_Some [OF assms(1) reg]
  define reg1 where "reg1 = forget_client c (reg\<lparr>mr_Count := mr_Count reg - 1, mr_LastUpdated := now\<rparr>)"
  define reg3 where "reg3 = (if p \<noteq> [] then drop_provider p reg1 else reg1)"
  have pos: "1 \<le> mr_Count reg"
    using t by (cases "B m") (simp_all add: reg_tracks_def)
  have "mr_Count reg3 = mr_Count reg - 1" "mr_Providers reg3 = mr_Providers (drop_provider p reg)"
    using drop_no_provider [OF t] drop_provider_cong [of reg1 reg p]
    by (auto simp: reg3_def reg1_def)
  note taken = tracks_take [OF assms(1) reg assms(2) this]
  have "removeModelRegistration c m p now r
      = (if mr_Count reg3 \<le> 0 then r\<lparr>rg_models := AList.delete m (rg_models r)\<rparr> else with_registration m reg3 r)"
    using reg pos
    by (cases "p = []") (simp_all add: removeModelRegistration_def Let_def reg1_def reg3_def)
  then show ?thesis
    using taken by (simp only:)
qed

lemma tracks_unregister:
  assumes "tracks r B" "\<forall>m. replicate_mset (count_list ms m) (case p of Some q \<Rightarrow> q | None \<Rightarrow> []) \<subseteq># B m"
  shows "tracks (unregister_loop c p now ms r)
    (\<lambda>m. B m - replicate_mset (count_list ms m) (case p of Some q \<Rightarrow> q | None \<Rightarrow> []))"
  using assms
proof (induction ms arbitrary: r B)
  case (Cons m ms)
  let ?p = "case p of Some q \<Rightarrow> q | None \<Rightarrow> []"
  have held: "?p \<in># B m"
    using Cons.prems(2)[rule_format, of m] by (auto dest: mset_subset_eqD)
  obtain reg where reg: "map_of (rg_models r) m = Some reg"
    using tracks_held [OF Cons.prems(1) held] by blast
  note t = tracks_Some [OF Cons.prems(1) reg]
  define reg1 where "reg1 = forget_client c (reg\<lparr>mr_Count := mr_Count reg - 1, mr_LastUpdated := now\<rparr>)"
  define reg2 where "reg2 = (case p of Some q \<Rightarrow> drop_provider q reg1 | None \<Rightarrow> reg1)"
  have step: "mr_Count reg2 = mr_Count reg - 1" "mr_Providers reg2 = mr_Providers (drop_provider ?p reg)"
    using drop_no_provider [OF t] drop_provider_cong [of reg1 reg ?p]
    by (auto simp: reg2_def reg1_def split: option.splits)
  let ?B = "B(m := B m - {#?p#})"
  let ?r = "if mr_Count reg2 \<le> 0 then r\<lparr>rg_models := AList.delete m (rg_models r)\<rparr>
      else with_registration m reg2 r"
  have "replicate_mset (count_list ms k) ?p \<subseteq># ?B k" for k
    using Cons.prems(2)[rule_format, of k] by (auto simp: insert_subset_eq_iff)
  then have "tracks (unregister_loop c p now ms ?r) (\<lambda>k. ?B k - replicate_mset (count_list ms k) ?p)"
    using Cons.IH [of ?r ?B] tracks_take [OF Cons.prems(1) reg held step] by blast
  moreover have "(\<lambda>k. ?B k - replicate_mset (count_list ms k) ?p)
      = (\<lambda>k. B k - replicate_mset (count_list (m # ms) k) ?p)"
    by auto
  moreover have "unregister_loop c p now (m # ms) r = unregister_loop c p now ms ?r"
    using reg by (cases p) (simp_all add: Let_def reg1_def reg2_def)
  ultimately show ?case
    by simp
qed simp

subsection \<open>Loops that touch each model once\<close>

lemma tracks_fold:
  assumes step: "\<And>x r B. x \<in> set xs \<Longrightarrow> tracks r B \<Longrightarrow> P x (B (key x)) \<Longrightarrow>
      tracks (f x r) (B(key x := g x (B (key x))))"
    and "distinct (map key xs)" "tracks r B" "\<And>x. x \<in> set xs \<Longrightarrow> P x (B (key x))"
  shows "\<exists>B'. tracks (fold f xs r) B' \<and> (\<forall>x\<in>set xs. B' (key x) = g x (B (key x)))
    \<and> (\<forall>m. m \<notin> key ` set xs \<longrightarrow> B' m = B m)"
  using assms
proof (induction xs arbitrary: r B)
  case (Cons x xs)
  let ?B = "B(key x := g x (B (key x)))"
  have t: "tracks (f x r) ?B"
    by (rule Cons.prems(1)) (use Cons.prems(3,4) in auto)
  have other: "?B (key y) = B (key y)" if "y \<in> set xs" for y
    using that Cons.prems(2) by (metis distinct.simps(2) fun_upd_other image_eqI list.set_map list.simps(9))
  have "\<exists>B'. tracks (fold f xs (f x r)) B' \<and> (\<forall>y\<in>set xs. B' (key y) = g y (?B (key y)))
      \<and> (\<forall>m. m \<notin> key ` set xs \<longrightarrow> B' m = ?B m)"
    using Cons.prems t other by (intro Cons.IH) auto
  then obtain B' where B': "tracks (fold f xs (f x r)) B'"
    "\<forall>y\<in>set xs. B' (key y) = g y (B (key y))" "\<forall>m. m \<notin> key ` set xs \<longrightarrow> B' m = ?B m"
    using other by auto
  then show ?case
    using Cons.prems(2) by (intro exI [of _ B']) auto
qed auto

lemma tracks_repeat_remove:
  assumes "tracks r B" "replicate_mset n p \<subseteq># B m"
  shows "tracks (repeat_step n (removeModelRegistration c m p now) r) (B(m := B m - replicate_mset n p))"
  using assms
proof (induction n arbitrary: r B)
  case (Suc n)
  then have "p \<in># B m"
    by (auto dest: mset_subset_eqD)
  note first = tracks_remove [OF Suc.prems(1) this, of c now]
  have "replicate_mset n p \<subseteq># (B(m := B m - {#p#})) m"
    using Suc.prems(2) by (simp add: insert_subset_eq_iff)
  from Suc.IH [OF first this] show ?case
    by (simp only: repeat_step.simps fun_upd_same fun_upd_upd replicate_mset_Suc diff_diff_add_mset)
      simp
qed simp

lemma tracks_repeat_add:
  assumes "tracks r B" "model \<noteq> None" "m \<noteq> []"
  shows "tracks (repeat_step n (addModelRegistration m p model now) r) (B(m := B m + replicate_mset n p))"
  using assms(1)
proof (induction n arbitrary: r B)
  case (Suc n)
  from Suc.IH [OF tracks_add [OF Suc.prems assms(2,3), of p now]] show ?case
    by (simp only: repeat_step.simps fun_upd_same fun_upd_upd replicate_mset_Suc union_mset_add_mset_left
        union_mset_add_mset_right)
qed simp

text \<open>Moving occurrences from one provider to another leaves the count alone.\<close>

lemma tracks_drop_old:
  assumes "tracks r B" "replicate_mset k old \<subseteq># B m" "0 < k" "old \<noteq> []"
  shows "tracks (drop_old_provider old (int k) m r)
    (B(m := B m - replicate_mset k old + replicate_mset k []))"
proof -
  have le: "k \<le> count (B m) old"
    using assms(2) by (simp add: count_le_replicate_mset_subset_eq)
  then have "old \<in># B m"
    using assms(3) by (intro count_inI) simp
  then obtain reg where reg: "map_of (rg_models r) m = Some reg"
    using tracks_held [OF assms(1)] by blast
  note t = tracks_Some [OF assms(1) reg]
  have prov: "map_of (mr_Providers reg) old = Some (int (count (B m) old))"
    using t assms(4) \<open>old \<in># B m\<close> by (simp add: reg_tracks_def)
  let ?Q = "B m - replicate_mset k old + replicate_mset k []"
  have size: "size ?Q = size (B m)"
    using size_mset_mono [OF assms(2)]
    by (simp only: size_union size_Diff_submset [OF assms(2)] size_replicate_mset)
  have cnt: "p \<noteq> [] \<Longrightarrow> count ?Q p = (if p = old then count (B m) old - k else count (B m) p)" for p
    by simp
  have mem: "p \<noteq> [] \<Longrightarrow> p \<in># ?Q \<longleftrightarrow> (if p = old then k < count (B m) old else p \<in># B m)" for p
    by (auto simp: count_greater_zero_iff [symmetric] cnt simp del: count_greater_zero_iff)
  define reg' where "reg' = (if int (count (B m) old) \<le> int k
     then reg\<lparr>mr_Providers := AList.delete old (mr_Providers reg),
       mr_InfoByProvider := AList.delete old (mr_InfoByProvider reg)\<rparr>
     else reg\<lparr>mr_Providers := AList.update old (int (count (B m) old) - int k) (mr_Providers reg)\<rparr>)"
  have "map_of (mr_Providers reg') p = (if p = [] \<or> p \<notin># ?Q then None else Some (int (count ?Q p)))" for p
  proof (cases "p = []")
    case True
    then show ?thesis
      using t assms(4) by (auto simp: reg'_def reg_tracks_def)
  next
    case False
    then show ?thesis
      using t assms(4) le unfolding mem [OF False] cnt [OF False]
      by (auto simp: reg'_def reg_tracks_def of_nat_diff)
  qed
  moreover have "?Q \<noteq> {#}" "mr_Count reg' = int (size ?Q)"
    using t assms(3) unfolding size by (auto simp: reg'_def reg_tracks_def)
  ultimately have "reg_tracks ?Q reg'"
    by (simp add: reg_tracks_def)
  moreover have "drop_old_provider old (int k) m r = with_registration m reg' r"
    using reg prov by (simp add: drop_old_provider_def reg'_def)
  ultimately show ?thesis
    using tracks_with [OF assms(1)] by simp
qed

lemma tracks_refresh:
  assumes "tracks r B" "map_of (rg_models r) m = Some reg" "replicate_mset k [] \<subseteq># B m"
    and "mr_Count reg' = mr_Count reg"
    and "mr_Providers reg' = (if k = 0 then mr_Providers reg
      else AList.update p (gomap_get 0 (mr_Providers reg) p + int k) (mr_Providers reg))"
    and "k = 0 \<or> p \<noteq> []"
  shows "tracks (with_registration m reg' r) (B(m := B m - replicate_mset k [] + replicate_mset k p))"
proof (cases "k = 0")
  case True
  then show ?thesis
    using assms tracks_with [OF assms(1), of "B m" reg' m] tracks_Some [OF assms(1,2)]
    by (simp add: reg_tracks_def)
next
  case False
  note t = tracks_Some [OF assms(1,2)]
  let ?Q = "B m - replicate_mset k [] + replicate_mset k p"
  have size: "size ?Q = size (B m)"
    using size_mset_mono [OF assms(3)]
    by (simp only: size_union size_Diff_submset [OF assms(3)] size_replicate_mset)
  have cnt: "q \<noteq> [] \<Longrightarrow> count ?Q q = (if q = p then count (B m) p + k else count (B m) q)" for q
    by simp
  have mem: "q \<noteq> [] \<Longrightarrow> q \<in># ?Q \<longleftrightarrow> (if q = p then True else q \<in># B m)" for q
    using False by (auto simp: count_greater_zero_iff [symmetric] cnt simp del: count_greater_zero_iff)
  have "map_of (mr_Providers reg') q = (if q = [] \<or> q \<notin># ?Q then None else Some (int (count ?Q q)))" for q
  proof (cases "q = []")
    case True
    then show ?thesis
      using t assms(5,6) False by (auto simp: reg_tracks_def)
  next
    case q: False
    then show ?thesis
      using t assms(5,6) False unfolding mem [OF q] cnt [OF q]
      by (auto simp: reg_tracks_def gomap_get_def not_in_iff)
  qed
  moreover have "?Q \<noteq> {#}" "mr_Count reg' = int (size ?Q)"
    using t assms(4) False unfolding size by (auto simp: reg_tracks_def)
  ultimately have "reg_tracks ?Q reg'"
    by (simp add: reg_tracks_def)
  then show ?thesis
    by (rule tracks_with [OF assms(1)])
qed

subsection \<open>What the intake collects\<close>

lemma count_ids_get:
  "gomap_get 0 (count_ids ms c) m = gomap_get 0 c m + int (count_list ms m)"
  by (induction ms arbitrary: c) auto

lemma count_ids_wf: "gomap_wf c \<Longrightarrow> gomap_wf (count_ids ms c)"
  by (induction ms arbitrary: c) auto

lemma keys_update: "fst ` set (AList.update k v m) = insert k (fst ` set m)"
  by (simp add: dom_update)

lemma count_ids_keys: "fst ` set (count_ids ms c) = fst ` set c \<union> set ms"
  by (induction ms arbitrary: c) (auto simp: keys_update)

definition intake_ok :: "client_intake \<Rightarrow> bool" where
  "intake_ok s \<longleftrightarrow> distinct (ci_uniqueModelIDs s) \<and> gomap_wf (ci_newCounts s)
     \<and> set (ci_uniqueModelIDs s) = set (ci_rawModelIDs s)
     \<and> fst ` set (ci_newCounts s) = set (ci_rawModelIDs s)
     \<and> [] \<notin> set (ci_rawModelIDs s)
     \<and> (\<forall>m. gomap_get 0 (ci_newCounts s) m = int (count_list (ci_rawModelIDs s) m))
     \<and> (\<forall>m. map_of (ci_newModels s) m \<noteq> None \<longleftrightarrow> m \<in> set (ci_rawModelIDs s))
     \<and> (\<forall>m. m \<in> set (ci_rawModelIDs s) \<longrightarrow> gomap_get None (ci_newModels s) m \<noteq> None)"

lemma intake_loop_ok: "intake_ok s \<Longrightarrow> intake_ok (intake_loop models s)"
proof (induction models s rule: intake_loop.induct)
  case (2 model models s)
  show ?case
  proof (cases model)
    case None
    with 2 show ?thesis
      by simp
  next
    case (Some m)
    show ?thesis
    proof (cases "mi_ID m = []")
      case True
      with 2 Some show ?thesis
        by simp
    next
      case False
      define s1 where "s1 = s\<lparr>ci_rawModelIDs := ci_rawModelIDs s @ [mi_ID m],
        ci_newCounts := AList.update (mi_ID m) (gomap_get 0 (ci_newCounts s) (mi_ID m) + 1) (ci_newCounts s)\<rparr>"
      have raw: "ci_rawModelIDs s1 = ci_rawModelIDs s @ [mi_ID m]"
        "gomap_wf (ci_newCounts s) \<Longrightarrow> gomap_wf (ci_newCounts s1)"
        "fst ` set (ci_newCounts s1) = insert (mi_ID m) (fst ` set (ci_newCounts s))"
        "gomap_get 0 (ci_newCounts s1) k = gomap_get 0 (ci_newCounts s) k + (if k = mi_ID m then 1 else 0)"
        "ci_newModels s1 = ci_newModels s" "ci_uniqueModelIDs s1 = ci_uniqueModelIDs s" for k
        by (simp_all add: s1_def keys_update)
      have known: "map_of (ci_newModels s) (mi_ID m) \<noteq> None \<longleftrightarrow> mi_ID m \<in> set (ci_rawModelIDs s)"
        using "2.prems" by (simp add: intake_ok_def)
      have old: "mi_ID m \<in> set (ci_rawModelIDs s) \<Longrightarrow> intake_ok s1"
        using "2.prems" False by (simp add: intake_ok_def raw insert_absorb)
      have new: "mi_ID m \<notin> set (ci_rawModelIDs s) \<Longrightarrow>
          intake_ok (s1\<lparr>ci_newModels := AList.update (mi_ID m) model (ci_newModels s1),
            ci_uniqueModelIDs := ci_uniqueModelIDs s1 @ [mi_ID m]\<rparr>)"
        using "2.prems" False Some by (auto simp: intake_ok_def raw)
      show ?thesis
        using 2(3,4) [OF Some False s1_def] old new known Some False
        by (cases "map_of (ci_newModels s) (mi_ID m) = None") (simp_all add: s1_def Let_def)
    qed
  qed
qed simp

lemma client_intake_ok: "intake_ok (client_intake models)"
  unfolding client_intake_def by (rule intake_loop_ok) (simp add: intake_ok_def)

subsection \<open>The loops of a reconciliation\<close>

lemma gomap_get_mem: "gomap_wf c \<Longrightarrow> (m, k) \<in> set c \<Longrightarrow> gomap_get z c m = k"
  by (simp add: gomap_get_def)

lemma gomap_get_no_key: "m \<notin> fst ` set c \<Longrightarrow> gomap_get z c m = z"
  by (simp add: gomap_get_def map_of_eq_None_iff [THEN iffD2])

text \<open>A loop over the counts, given what it does for one model.\<close>

lemma tracks_count_fold:
  assumes step: "\<And>m r B. tracks r B \<Longrightarrow> P m (B m) \<Longrightarrow> tracks (f m (int (n m)) r) (B(m := g m (B m)))"
    and wf: "gomap_wf c" and get: "\<And>m. gomap_get 0 c m = int (n m)"
    and "tracks r B" "\<And>m. P m (B m)" "\<And>m. n m = 0 \<Longrightarrow> g m (B m) = B m"
  shows "tracks (fold (\<lambda>(m, k). f m k) c r) (\<lambda>m. g m (B m))"
proof -
  have "\<exists>B'. tracks (fold (\<lambda>(m, k). f m k) c r) B' \<and> (\<forall>x\<in>set c. B' (fst x) = g (fst x) (B (fst x)))
      \<and> (\<forall>m. m \<notin> fst ` set c \<longrightarrow> B' m = B m)"
  proof (rule tracks_fold [where P = "\<lambda>x. P (fst x)" and g = "\<lambda>x. g (fst x)"])
    fix x r B
    assume x: "x \<in> set c" "tracks r B" "P (fst x) (B (fst x))"
    then have "snd x = int (n (fst x))"
      using gomap_get_mem [OF wf, of "fst x" "snd x" 0] get by simp
    then show "tracks ((case x of (m, k) \<Rightarrow> f m k) r) (B(fst x := g (fst x) (B (fst x))))"
      using step [OF x(2,3)] by (simp add: split_beta)
  qed (use assms in auto)
  then obtain B' where B': "tracks (fold (\<lambda>(m, k). f m k) c r) B'"
    "\<forall>x\<in>set c. B' (fst x) = g (fst x) (B (fst x))" "\<forall>m. m \<notin> fst ` set c \<longrightarrow> B' m = B m"
    by blast
  have "B' m = g m (B m)" for m
  proof (cases "m \<in> fst ` set c")
    case True
    then show ?thesis
      using B'(2) by force
  next
    case False
    then have "n m = 0"
      using get [of m] by (simp add: gomap_get_no_key)
    with False show ?thesis
      using B'(3) assms(6) by simp
  qed
  then have "B' = (\<lambda>m. g m (B m))"
    by (rule ext)
  with B'(1) show ?thesis
    by simp
qed

lemma provider_change_fold:
  "provider_change_loop old oc nc r = fold (\<lambda>(m, k). if k = 0 \<or> gomap_get 0 oc m = 0 then id
     else drop_old_provider old (if gomap_get 0 oc m < k then gomap_get 0 oc m else k) m) nc r"
  by (induction nc arbitrary: r) (auto simp: Let_def)

lemma overage_fold:
  "overage_loop c old now nc oc r = fold (\<lambda>(m, k). if gomap_get 0 nc m = 0 \<or> k \<le> gomap_get 0 nc m then id
     else repeat_step (nat (k - gomap_get 0 nc m)) (removeModelRegistration c m old now)) oc r"
  by (induction oc arbitrary: r) (auto simp: Let_def)

lemma removed_fold:
  "removed_loop c old now oc (filter (\<lambda>m. gomap_get 0 nc m = 0) (map fst counts)) r
    = fold (\<lambda>(m, k). if gomap_get 0 nc m = 0
        then repeat_step (nat (gomap_get 0 oc m)) (removeModelRegistration c m old now) else id) counts r"
  by (induction counts arbitrary: r) auto

lemma addition_fold:
  "addition_loop p now models oc nc r = fold (\<lambda>(m, k). if k \<le> gomap_get 0 oc m then id
     else repeat_step (nat (k - gomap_get 0 oc m)) (addModelRegistration m p (gomap_get None models m) now)) nc r"
  by (induction nc arbitrary: r) (auto simp: Let_def)

lemma provider_change_tracks:
  assumes "tracks r B" "gomap_wf nc" "\<And>m. gomap_get 0 nc m = int (n m)" "\<And>m. gomap_get 0 oc m = int (ol m)"
    "\<And>m. replicate_mset (ol m) old \<subseteq># B m" "old \<noteq> []"
  shows "tracks (provider_change_loop old oc nc r)
    (\<lambda>m. B m - replicate_mset (min (ol m) (n m)) old + replicate_mset (min (ol m) (n m)) [])"
  unfolding provider_change_fold
proof (rule tracks_count_fold [where P = "\<lambda>m P. replicate_mset (ol m) old \<subseteq># P" and n = n
      and g = "\<lambda>m P. P - replicate_mset (min (ol m) (n m)) old + replicate_mset (min (ol m) (n m)) []"])
  fix m r B
  assume a: "tracks r B" "replicate_mset (ol m) old \<subseteq># B m"
  have le: "replicate_mset (min (ol m) (n m)) old \<subseteq># B m"
    using a(2) by (simp add: count_le_replicate_mset_subset_eq [symmetric])
  have k: "(if int (ol m) < int (n m) then int (ol m) else int (n m)) = int (min (ol m) (n m))"
    by simp
  show "tracks ((if int (n m) = 0 \<or> gomap_get 0 oc m = 0 then id
       else drop_old_provider old (if gomap_get 0 oc m < int (n m) then gomap_get 0 oc m else int (n m)) m) r)
     (B(m := B m - replicate_mset (min (ol m) (n m)) old + replicate_mset (min (ol m) (n m)) []))"
    using tracks_drop_old [OF a(1) le _ assms(6)] a(1) unfolding assms(4) k
    by (cases "n m = 0 \<or> ol m = 0") auto
qed (use assms in auto)

lemma removals_tracks:
  assumes "tracks r B" "gomap_wf oc" "\<And>m. gomap_get 0 oc m = int (ol m)" "\<And>m. gomap_get 0 nc m = int (n m)"
    "\<And>m. replicate_mset (ol m - n m) old \<subseteq># B m"
  shows "tracks (overage_loop c old now nc oc
      (removed_loop c old now oc (filter (\<lambda>m. gomap_get 0 nc m = 0) (map fst oc)) r))
    (\<lambda>m. B m - replicate_mset (ol m - n m) old)"
proof -
  define B1 where "B1 = (\<lambda>m. if n m = 0 then B m - replicate_mset (ol m) old else B m)"
  have first: "tracks (removed_loop c old now oc (filter (\<lambda>m. gomap_get 0 nc m = 0) (map fst oc)) r) B1"
    unfolding removed_fold B1_def
    by (rule tracks_count_fold [where P = "\<lambda>m P. replicate_mset (ol m - n m) old \<subseteq># P" and n = ol
        and g = "\<lambda>m P. if n m = 0 then P - replicate_mset (ol m) old else P"])
      (use assms in \<open>auto intro: tracks_repeat_remove\<close>)
  have step: "tracks ((if gomap_get 0 nc m = 0 \<or> int (ol m) \<le> gomap_get 0 nc m then id
        else repeat_step (nat (int (ol m) - gomap_get 0 nc m)) (removeModelRegistration c m old now)) s)
      (C(m := if n m = 0 then C m else C m - replicate_mset (ol m - n m) old))"
    if "tracks s C" "n m = 0 \<or> replicate_mset (ol m - n m) old \<subseteq># C m" for m s C
    using that tracks_repeat_remove [of s C "ol m - n m" old m c now]
    by (auto simp: assms(4) nat_minus_as_int)
  have "tracks (overage_loop c old now nc oc
      (removed_loop c old now oc (filter (\<lambda>m. gomap_get 0 nc m = 0) (map fst oc)) r))
    (\<lambda>m. if n m = 0 then B1 m else B1 m - replicate_mset (ol m - n m) old)"
    unfolding overage_fold
    by (rule tracks_count_fold [where P = "\<lambda>m P. n m = 0 \<or> replicate_mset (ol m - n m) old \<subseteq># P"
        and n = ol and g = "\<lambda>m P. if n m = 0 then P else P - replicate_mset (ol m - n m) old"],
        erule (1) step) (use assms(2,3,5) first in \<open>auto simp: B1_def\<close>)
  moreover have "(\<lambda>m. if n m = 0 then B1 m else B1 m - replicate_mset (ol m - n m) old)
    = (\<lambda>m. B m - replicate_mset (ol m - n m) old)"
    by (auto simp: B1_def)
  ultimately show ?thesis
    by (simp only:)
qed

lemma additions_tracks:
  assumes "tracks r B" "gomap_wf nc" "\<And>m. gomap_get 0 nc m = int (n m)" "\<And>m. gomap_get 0 oc m = int (ol m)"
    "\<And>m. 0 < n m \<Longrightarrow> m \<noteq> [] \<and> gomap_get None models m \<noteq> None"
  shows "tracks (addition_loop p now models oc nc r) (\<lambda>m. B m + replicate_mset (n m - ol m) p)"
proof -
  have step: "tracks ((if int (n m) \<le> gomap_get 0 oc m then id
        else repeat_step (nat (int (n m) - gomap_get 0 oc m))
          (addModelRegistration m p (gomap_get None models m) now)) s)
      (C(m := C m + replicate_mset (n m - ol m) p))" if "tracks s C" "True" for m s C
    using that(1) tracks_repeat_add [of s C "gomap_get None models m" m "n m - ol m" p now] assms(5) [of m]
    by (cases "n m \<le> ol m") (auto simp: assms(4) nat_minus_as_int)
  show ?thesis
    unfolding addition_fold
    by (rule tracks_count_fold [where P = "\<lambda>m P. True" and n = n
        and g = "\<lambda>m P. P + replicate_mset (n m - ol m) p"],
        erule (1) step) (use assms(1,2,3) in auto)
qed

lemma refresh_tracks:
  assumes "tracks r B" "distinct ms" "\<And>m. gomap_get 0 nc m = int (n m)" "\<And>m. gomap_get 0 oc m = int (ol m)"
    "\<And>m. m \<in> set ms \<longleftrightarrow> 0 < n m" "\<And>m. m \<in> set added \<longleftrightarrow> m \<in> set ms \<and> ol m = 0"
    "\<And>m. moved m = (if changed \<and> p \<noteq> [] then min (ol m) (n m) else 0)"
    "\<And>m. replicate_mset (moved m) [] \<subseteq># B m"
  shows "tracks (refresh_loop (\<lambda>m. refresh_registration c p changed now oc nc added m (models m)) ms r)
    (\<lambda>m. B m - replicate_mset (moved m) [] + replicate_mset (moved m) p)"
proof -
  let ?f = "\<lambda>m r. case map_of (rg_models r) m of None \<Rightarrow> r
    | Some reg \<Rightarrow> with_registration m (refresh_registration c p changed now oc nc added m (models m) reg) r"
  let ?g = "\<lambda>m P. P - replicate_mset (moved m) [] + replicate_mset (moved m) p"
  have fold: "refresh_loop (\<lambda>m. refresh_registration c p changed now oc nc added m (models m)) ms r
      = fold ?f ms r"
    by (induction ms arbitrary: r) auto
  have step: "tracks (?f m s) (C(m := ?g m (C m)))"
    if "m \<in> set ms" "tracks s C" "replicate_mset (moved m) [] \<subseteq># C m" for m s C
  proof (cases "map_of (rg_models s) m")
    case None
    then have "C m = {#}"
      by (rule tracks_None [OF that(2)])
    with that(3) have "moved m = 0"
      by (auto dest: size_mset_mono)
    with None that(2) show ?thesis
      by simp
  next
    case (Some reg)
    have "tracks (with_registration m (refresh_registration c p changed now oc nc added m (models m) reg) s)
        (C(m := ?g m (C m)))"
    proof (rule tracks_refresh [OF that(2) Some that(3)])
      show "mr_Count (refresh_registration c p changed now oc nc added m (models m) reg) = mr_Count reg"
        by (simp add: refresh_registration_def Let_def)
      show "mr_Providers (refresh_registration c p changed now oc nc added m (models m) reg)
          = (if moved m = 0 then mr_Providers reg
             else AList.update p (gomap_get 0 (mr_Providers reg) p + int (moved m)) (mr_Providers reg))"
        using that(1) assms(5) [of m]
        by (auto simp: refresh_registration_def Let_def assms(3,4,6,7) min_def)
      show "moved m = 0 \<or> p \<noteq> []"
        by (simp add: assms(7))
    qed
    with Some show ?thesis
      by simp
  qed
  have "\<exists>B'. tracks (fold ?f ms r) B' \<and> (\<forall>x\<in>set ms. B' (id x) = ?g x (B (id x)))
      \<and> (\<forall>m. m \<notin> id ` set ms \<longrightarrow> B' m = B m)"
    by (rule tracks_fold [where P = "\<lambda>m P. replicate_mset (moved m) [] \<subseteq># P"])
      (use step assms(1,2,8) in auto)
  then obtain B' where B': "tracks (fold ?f ms r) B'" "\<forall>m\<in>set ms. B' m = ?g m (B m)"
    "\<forall>m. m \<notin> set ms \<longrightarrow> B' m = B m"
    by auto
  have "B' m = ?g m (B m)" for m
  proof (cases "m \<in> set ms")
    case False
    then have "moved m = 0"
      using assms(5) [of m] by (simp add: assms(7))
    with False B'(3) show ?thesis
      by simp
  qed (use B'(2) in blast)
  then have "B' = (\<lambda>m. ?g m (B m))"
    by (rule ext)
  with B'(1) show ?thesis
    unfolding fold by simp
qed

lemma tracks_reconcile:
  assumes "tracks r B" "intake_ok new"
    and held: "\<And>m. replicate_mset (count_list oldModels m) (gomap_get [] (rg_clientProviders r) c) \<subseteq># B m"
  shows "tracks (reconcile_client c p new oldModels now r)
    (\<lambda>m. B m - replicate_mset (count_list oldModels m) (gomap_get [] (rg_clientProviders r) c)
      + replicate_mset (count_list (ci_rawModelIDs new) m) p)"
proof -
  define old where "old = gomap_get [] (rg_clientProviders r) c"
  define ol where "ol = count_list oldModels"
  define n where "n = count_list (ci_rawModelIDs new)"
  define both where "both m = min (ol m) (n m)" for m
  define nc where "nc = ci_newCounts new"
  define oc where "oc = count_ids oldModels []"
  define mid where "mid = (if old \<noteq> p then [] else old)"
  define rest where "rest m = B m - replicate_mset (ol m) old" for m
  have B: "B m = rest m + replicate_mset (ol m) old" for m
    using held [of m] by (simp add: rest_def old_def ol_def)
  have nc: "gomap_wf nc" "\<And>m. gomap_get 0 nc m = int (n m)"
    using assms(2) by (simp_all add: intake_ok_def nc_def n_def)
  have oc: "gomap_wf oc" "\<And>m. gomap_get 0 oc m = int (ol m)"
    by (simp_all add: oc_def ol_def count_ids_wf count_ids_get)
  have pos: "0 < n m \<longleftrightarrow> m \<in> set (ci_uniqueModelIDs new)" for m
    using assms(2) count_list_0_iff [of "ci_rawModelIDs new" m] by (auto simp: intake_ok_def n_def)
  have models: "0 < n m \<Longrightarrow> m \<noteq> [] \<and> gomap_get None (ci_newModels new) m \<noteq> None" for m
    using assms(2) pos [of m] by (auto simp: intake_ok_def)
  define r1 where "r1 = (if old \<noteq> p \<and> old \<noteq> [] then provider_change_loop old oc nc r else r)"
  have B1: "tracks r1 (\<lambda>m. rest m + replicate_mset (ol m - both m) old + replicate_mset (both m) mid)"
  proof -
    have split: "replicate_mset (ol m) q = replicate_mset (ol m - both m) q + replicate_mset (both m) q" for m q
      by (auto simp: both_def multiset_eq_iff)
    show ?thesis
    proof (cases "old \<noteq> p \<and> old \<noteq> []")
      case True
      have "tracks (provider_change_loop old oc nc r)
          (\<lambda>m. B m - replicate_mset (both m) old + replicate_mset (both m) [])"
        unfolding both_def
        by (rule provider_change_tracks [OF assms(1) nc oc(2)]) (use True B in auto)
      moreover have "B m - replicate_mset (both m) old = rest m + replicate_mset (ol m - both m) old" for m
        unfolding B by (auto simp: multiset_eq_iff both_def)
      ultimately show ?thesis
        using True by (simp add: r1_def mid_def)
    next
      case False
      then have "r1 = r" "mid = old"
        by (auto simp: r1_def mid_def)
      then show ?thesis
        using assms(1) unfolding B [abs_def] by (simp add: add.assoc split [symmetric])
    qed
  qed
  define r3 where "r3 = overage_loop c old now nc oc
    (removed_loop c old now oc (filter (\<lambda>m. gomap_get 0 nc m = 0) (map fst oc)) r1)"
  have over: "ol m - n m = ol m - both m" for m
    by (simp add: both_def)
  have B3: "tracks r3 (\<lambda>m. rest m + replicate_mset (both m) mid)"
    using removals_tracks [OF B1 oc nc(2), of old c now] unfolding over r3_def by simp
  have B4: "tracks (addition_loop p now (ci_newModels new) oc nc r3)
      (\<lambda>m. rest m + replicate_mset (both m) mid + replicate_mset (n m - ol m) p)"
    by (rule additions_tracks [OF B3 nc oc(2) models])
  let ?added = "filter (\<lambda>m. gomap_get 0 oc m = 0) (ci_uniqueModelIDs new)"
  define moved where "moved m = (if old \<noteq> p \<and> p \<noteq> [] then both m else 0)" for m
  have "tracks (refresh_loop (\<lambda>m. refresh_registration c p (old \<noteq> p) now oc nc ?added m
        (gomap_get None (ci_newModels new) m)) (ci_uniqueModelIDs new)
        (addition_loop p now (ci_newModels new) oc nc r3))
      (\<lambda>m. rest m + replicate_mset (both m) mid + replicate_mset (n m - ol m) p
        - replicate_mset (moved m) [] + replicate_mset (moved m) p)"
    by (rule refresh_tracks [OF B4 _ nc(2) oc(2)])
      (use assms(2) pos in \<open>auto simp: intake_ok_def oc(2) moved_def both_def mid_def\<close>)
  moreover have "rest m + replicate_mset (both m) mid + replicate_mset (n m - ol m) p
        - replicate_mset (moved m) [] + replicate_mset (moved m) p = rest m + replicate_mset (n m) p" for m
  proof -
    have "replicate_mset (both m) p + replicate_mset (n m - ol m) p = replicate_mset (n m) p"
      by (auto simp: both_def multiset_eq_iff)
    then show ?thesis
      by (auto simp: moved_def mid_def multiset_eq_iff split: if_splits)
  qed
  moreover have "reconcile_client c p new oldModels now r
      = refresh_loop (\<lambda>m. refresh_registration c p (old \<noteq> p) now oc nc ?added m
          (gomap_get None (ci_newModels new) m)) (ci_uniqueModelIDs new)
          (addition_loop p now (ci_newModels new) oc nc r3)"
    by (simp only: reconcile_client_def Let_def r3_def r1_def old_def nc_def oc_def)
  ultimately have "tracks (reconcile_client c p new oldModels now r) (\<lambda>m. rest m + replicate_mset (n m) p)"
    by (simp only:)
  then show ?thesis
    by (simp only: rest_def old_def ol_def n_def)
qed

subsection \<open>The registry as a whole\<close>

abbreviation provider_of :: "model_registry \<Rightarrow> string \<Rightarrow> string" where
  "provider_of r c \<equiv> gomap_get [] (rg_clientProviders r) c"

abbreviation models_of :: "model_registry \<Rightarrow> string \<Rightarrow> string list" where
  "models_of r c \<equiv> gomap_get [] (rg_clientModels r) c"

definition registry_ok :: "model_registry \<Rightarrow> bool" where
  "registry_ok r \<longleftrightarrow> tracks r (holders r) \<and> gomap_wf (rg_clientModels r)
     \<and> (\<forall>c. map_of (rg_clientProviders r) c \<noteq> Some [])"

definition other_holders :: "model_registry \<Rightarrow> string \<Rightarrow> string \<Rightarrow> string multiset" where
  "other_holders r c m = sum_list (map (\<lambda>(d, ms). replicate_mset (count_list ms m) (provider_of r d))
     (AList.delete c (rg_clientModels r)))"

lemma sum_split:
  fixes f :: "'k \<times> 'v \<Rightarrow> 'a :: comm_monoid_add"
  assumes "gomap_wf l"
  shows "sum_list (map f l) = (case map_of l c of None \<Rightarrow> 0 | Some v \<Rightarrow> f (c, v))
    + sum_list (map f (AList.delete c l))"
  using assms
proof (induction l)
  case (Cons kv l)
  show ?case
  proof (cases "fst kv = c")
    case True
    then have "AList.delete c l = l"
      using Cons.prems by (simp add: delete_id)
    with True show ?thesis
      by (cases kv) (simp add: AList.delete_eq)
  next
    case False
    then show ?thesis
      using Cons by (cases kv) (auto simp: AList.delete_eq ac_simps)
  qed
qed simp

lemma holders_split:
  assumes "gomap_wf (rg_clientModels r)"
  shows "holders r m = replicate_mset (count_list (models_of r c) m) (provider_of r c) + other_holders r c m"
  unfolding holders_def other_holders_def
  by (subst sum_split [OF assms, of _ c]) (simp add: gomap_get_def split: option.split)

lemma other_holders_cong:
  assumes "AList.delete c (rg_clientModels r') = AList.delete c (rg_clientModels r)"
    "\<And>d. d \<noteq> c \<Longrightarrow> provider_of r' d = provider_of r d"
  shows "other_holders r' c = other_holders r c"
proof
  fix m
  have "d \<noteq> c" if "(d, ms) \<in> set (AList.delete c (rg_clientModels r))" for d ms
    using that by (auto simp: AList.delete_eq)
  then show "other_holders r' c m = other_holders r c m"
    unfolding other_holders_def assms(1)
    by (intro arg_cong [of _ _ sum_list] map_cong) (auto simp: assms(2))
qed

lemma held_by:
  assumes "gomap_wf (rg_clientModels r)"
  shows "replicate_mset (count_list (models_of r c) m) (provider_of r c) \<subseteq># holders r m"
  by (simp add: holders_split [OF assms, of m c])

text \<open>Only the counted part matters to the invariant.\<close>

lemma registration_client_maps [simp]:
  "rg_clientModels (with_registration m reg r) = rg_clientModels r"
  "rg_clientProviders (with_registration m reg r) = rg_clientProviders r"
  by (simp_all add: with_registration_def)

lemma loop_client_maps [simp]:
  "rg_clientModels (addModelRegistration m p model now r) = rg_clientModels r"
  "rg_clientProviders (addModelRegistration m p model now r) = rg_clientProviders r"
  "rg_clientModels (removeModelRegistration c m p now r) = rg_clientModels r"
  "rg_clientProviders (removeModelRegistration c m p now r) = rg_clientProviders r"
  "rg_clientModels (drop_old_provider p k m r) = rg_clientModels r"
  "rg_clientProviders (drop_old_provider p k m r) = rg_clientProviders r"
  by (simp_all add: addModelRegistration_def removeModelRegistration_def drop_old_provider_def Let_def
      split: option.split)

lemma repeat_client_maps [simp]:
  "rg_clientModels (repeat_step n (addModelRegistration m p model now) r) = rg_clientModels r"
  "rg_clientProviders (repeat_step n (addModelRegistration m p model now) r) = rg_clientProviders r"
  "rg_clientModels (repeat_step n (removeModelRegistration c m p now) r) = rg_clientModels r"
  "rg_clientProviders (repeat_step n (removeModelRegistration c m p now) r) = rg_clientProviders r"
  by (induction n arbitrary: r) simp_all

lemma list_client_maps [simp]:
  "rg_clientModels (add_raw_loop p now models ms r) = rg_clientModels r"
  "rg_clientProviders (add_raw_loop p now models ms r) = rg_clientProviders r"
  "rg_clientModels (unregister_loop c q now ms r) = rg_clientModels r"
  "rg_clientProviders (unregister_loop c q now ms r) = rg_clientProviders r"
  "rg_clientModels (removed_loop c p now oc ms r) = rg_clientModels r"
  "rg_clientProviders (removed_loop c p now oc ms r) = rg_clientProviders r"
  "rg_clientModels (refresh_loop f ms r) = rg_clientModels r"
  "rg_clientProviders (refresh_loop f ms r) = rg_clientProviders r"
  by (induction ms arbitrary: r; simp add: Let_def split: option.split)+

lemma count_client_maps [simp]:
  "rg_clientModels (provider_change_loop p oc nc r) = rg_clientModels r"
  "rg_clientProviders (provider_change_loop p oc nc r) = rg_clientProviders r"
  "rg_clientModels (overage_loop c p now oc nc r) = rg_clientModels r"
  "rg_clientProviders (overage_loop c p now oc nc r) = rg_clientProviders r"
  "rg_clientModels (addition_loop p now models oc nc r) = rg_clientModels r"
  "rg_clientProviders (addition_loop p now models oc nc r) = rg_clientProviders r"
  by (induction nc arbitrary: r; auto simp: Let_def)+

lemma reconcile_client_maps [simp]:
  "rg_clientModels (reconcile_client c p new old now r) = rg_clientModels r"
  "rg_clientProviders (reconcile_client c p new old now r) = rg_clientProviders r"
  by (simp_all add: reconcile_client_def Let_def)

lemma tracks_add_raw:
  assumes "tracks r B" "\<And>m. m \<in> set ms \<Longrightarrow> m \<noteq> [] \<and> gomap_get None models m \<noteq> None"
  shows "tracks (add_raw_loop p now models ms r) (\<lambda>m. B m + replicate_mset (count_list ms m) p)"
  using assms
proof (induction ms arbitrary: r B)
  case (Cons m ms)
  have "tracks (add_raw_loop p now models ms (addModelRegistration m p (gomap_get None models m) now r))
      (\<lambda>k. (B(m := add_mset p (B m))) k + replicate_mset (count_list ms k) p)"
    by (rule Cons.IH [OF tracks_add [OF Cons.prems(1)]]) (use Cons.prems(2) in auto)
  moreover have "(\<lambda>k. (B(m := add_mset p (B m))) k + replicate_mset (count_list ms k) p)
      = (\<lambda>k. B k + replicate_mset (count_list (m # ms) k) p)"
    by auto
  ultimately show ?case
    by simp
qed simp

lemma unregister_ok:
  assumes "registry_ok r"
  shows "registry_ok (unregisterClientInternal c now r)"
    "holders (unregisterClientInternal c now r) = other_holders r c"
    "map_of (rg_clientModels (unregisterClientInternal c now r)) c = None"
proof -
  let ?u = "unregisterClientInternal c now r"
  have wf: "gomap_wf (rg_clientModels r)"
    using assms by (simp add: registry_ok_def)
  have maps: "rg_clientModels ?u = AList.delete c (rg_clientModels r)"
    "rg_clientProviders ?u = AList.delete c (rg_clientProviders r)"
    by (auto simp: unregisterClientInternal_def Let_def delete_id map_of_eq_None_iff split: option.split)
  have none: "models_of ?u c = []"
    unfolding maps by simp
  have others: "other_holders ?u c = other_holders r c"
    by (rule other_holders_cong) (simp_all add: maps delete_idem)
  have wf': "gomap_wf (rg_clientModels ?u)"
    unfolding maps using wf by simp
  show h: "holders ?u = other_holders r c"
    using holders_split [OF wf', of _ c] none others by auto
  have "tracks ?u (other_holders r c)"
  proof (cases "map_of (rg_clientModels r) c")
    case None
    then have "tracks r (other_holders r c) = tracks r (holders r)"
      using holders_split [OF wf, of _ c] by (metis (no_types, lifting) count_list.simps(1) ext gomap_get_def
          option.simps(4) add.left_neutral replicate_mset_0)
    then show ?thesis
      using None assms tracks_models [of ?u r]
      by (simp add: registry_ok_def unregisterClientInternal_def Let_def)
  next
    case (Some ms)
    define r0 where "r0 = r\<lparr>rg_clientModelCandidates := AList.delete c (rg_clientModelCandidates r)\<rparr>"
    define q where "q = map_of (rg_clientProviders r) c"
    have prov: "(case q of Some p \<Rightarrow> p | None \<Rightarrow> []) = provider_of r c"
      by (simp add: q_def gomap_get_def split: option.split)
    have ms: "models_of r c = ms"
      using Some by (simp add: gomap_get_def)
    have "tracks r0 (holders r)"
      using assms tracks_models [of r0 r] by (simp add: registry_ok_def r0_def)
    then have "tracks (unregister_loop c q now ms r0)
        (\<lambda>m. holders r m - replicate_mset (count_list ms m) (case q of Some p \<Rightarrow> p | None \<Rightarrow> []))"
      by (rule tracks_unregister) (use held_by [OF wf, of c] in \<open>simp add: prov ms\<close>)
    then have "tracks (unregister_loop c q now ms r0) (other_holders r c)"
      unfolding prov by (simp add: holders_split [OF wf, of _ c] ms)
    moreover have "rg_models ?u = rg_models (unregister_loop c q now ms r0)"
      using Some by (simp add: unregisterClientInternal_def Let_def r0_def q_def)
    ultimately show ?thesis
      using tracks_models [of ?u "unregister_loop c q now ms r0"] by simp
  qed
  then show "registry_ok ?u"
    using assms wf' unfolding registry_ok_def h maps by simp
  show "map_of (rg_clientModels ?u) c = None"
    unfolding maps by simp
qed

lemma registry_ok_cong:
  assumes "rg_models r' = rg_models r" "rg_clientModels r' = rg_clientModels r"
    "rg_clientProviders r' = rg_clientProviders r"
  shows "registry_ok r' = registry_ok r" "holders r' = holders r"
proof -
  show h: "holders r' = holders r"
    using assms(2,3) by (simp add: holders_def fun_eq_iff)
  show "registry_ok r' = registry_ok r"
    using assms(2,3) tracks_models [OF assms(1)] by (simp add: registry_ok_def h)
qed

lemma record_candidates_maps [simp]:
  "rg_models (record_candidates c cands r) = rg_models r"
  "rg_clientModels (record_candidates c cands r) = rg_clientModels r"
  "rg_clientProviders (record_candidates c cands r) = rg_clientProviders r"
  "rg_clientModelInfos (record_candidates c cands r) = rg_clientModelInfos r"
  by (simp_all add: record_candidates_def split: option.split)

definition joined :: "string \<Rightarrow> string \<Rightarrow> client_intake \<Rightarrow> gotime \<Rightarrow> model_registry \<Rightarrow> model_registry" where
  "joined c p new now r =
     (case map_of (rg_clientModels r) c of
        None \<Rightarrow> add_raw_loop p now (ci_newModels new) (ci_rawModelIDs new) r
      | Some oldModels \<Rightarrow> reconcile_client c p new oldModels now r)"

lemma joined_tracks:
  assumes "registry_ok r" "intake_ok new"
  shows "tracks (joined c p new now r)
    (\<lambda>m. other_holders r c m + replicate_mset (count_list (ci_rawModelIDs new) m) p)"
proof -
  have wf: "gomap_wf (rg_clientModels r)" and t: "tracks r (holders r)"
    using assms(1) by (simp_all add: registry_ok_def)
  have raw: "m \<in> set (ci_rawModelIDs new) \<Longrightarrow> m \<noteq> [] \<and> gomap_get None (ci_newModels new) m \<noteq> None" for m
    using assms(2) by (auto simp: intake_ok_def)
  show ?thesis
  proof (cases "map_of (rg_clientModels r) c")
    case None
    then have "models_of r c = []"
      by (simp add: gomap_get_def)
    then have h: "holders r m = other_holders r c m" for m
      using holders_split [OF wf, of m c] by simp
    show ?thesis
      using tracks_add_raw [OF t raw, of "ci_rawModelIDs new" p now] None by (simp add: joined_def h)
  next
    case (Some ms)
    then have ms: "models_of r c = ms"
      by (simp add: gomap_get_def)
    have h: "holders r m - replicate_mset (count_list ms m) (provider_of r c) = other_holders r c m" for m
      using holders_split [OF wf, of m c] by (simp add: ms)
    show ?thesis
      using tracks_reconcile [OF t assms(2), of ms c p now] held_by [OF wf, of c] Some
      by (simp add: joined_def h ms)
  qed
qed

lemma joined_maps [simp]:
  "rg_clientModels (joined c p new now r) = rg_clientModels r"
  "rg_clientProviders (joined c p new now r) = rg_clientProviders r"
  by (simp_all add: joined_def split: option.split)

lemma register_ok:
  assumes "registry_ok r"
  shows "registry_ok (registerClient c cp models cands now r)"
    "holders (registerClient c cp models cands now r) m
      = other_holders r c m + replicate_mset (count_list (ci_rawModelIDs (client_intake models)) m) (to_lower cp)"
proof -
  define p where "p = to_lower cp"
  define new where "new = client_intake models"
  have new: "intake_ok new"
    by (simp add: new_def client_intake_ok)
  let ?r = "registerClient c cp models cands now r"
  have "registry_ok ?r \<and> holders ?r m = other_holders r c m + replicate_mset (count_list (ci_rawModelIDs new) m) p"
  proof (cases "ci_uniqueModelIDs new = []")
    case True
    then have raw: "ci_rawModelIDs new = []"
      using new by (auto simp: intake_ok_def)
    let ?u = "unregisterClientInternal c now r"
    have gone: "c \<notin> fst ` set (rg_clientModels ?u)" "c \<notin> fst ` set (rg_clientProviders ?u)"
      using unregister_ok(3) [OF assms, of c now]
      by (auto simp: map_of_eq_None_iff unregisterClientInternal_def Let_def delete_conv
          AList.delete_eq split: option.split)
    have "rg_models ?r = rg_models ?u" "rg_clientModels ?r = rg_clientModels ?u"
      "rg_clientProviders ?r = rg_clientProviders ?u"
      using True gone by (simp_all add: registerClient_def Let_def new_def [symmetric] delete_id)
    from registry_ok_cong [OF this] show ?thesis
      using unregister_ok [OF assms, of c now] raw by simp
  next
    case False
    define j where "j = joined c p new now r"
    have eq: "rg_models ?r = rg_models j"
      "rg_clientModels ?r = AList.update c (ci_rawModelIDs new) (rg_clientModels r)"
      "rg_clientProviders ?r = (if p \<noteq> [] then AList.update c p (rg_clientProviders r)
        else AList.delete c (rg_clientProviders r))"
      using False by (simp_all add: registerClient_def Let_def new_def [symmetric] p_def [symmetric]
          joined_def [symmetric] set_provider_def j_def)
    have wf: "gomap_wf (rg_clientModels ?r)"
      using assms unfolding eq by (simp add: registry_ok_def)
    have others: "other_holders ?r c = other_holders r c"
      by (rule other_holders_cong) (auto simp: eq delete_update_same)
    have h: "holders ?r m = other_holders r c m + replicate_mset (count_list (ci_rawModelIDs new) m) p" for m
      using holders_split [OF wf, of m c] others by (auto simp: eq)
    have "tracks ?r (holders ?r)"
      using joined_tracks [OF assms new, of c p now] tracks_models [OF eq(1)]
      by (simp add: h [abs_def] j_def)
    then have "registry_ok ?r"
      using wf assms by (auto simp: registry_ok_def eq)
    with h show ?thesis
      by blast
  qed
  then show "registry_ok ?r"
    "holders ?r m = other_holders r c m + replicate_mset (count_list (ci_rawModelIDs (client_intake models)) m) (to_lower cp)"
    by (simp_all add: p_def new_def)
qed

text \<open>Quota marks and suspensions leave the counts alone.\<close>

lemma with_registration_ok:
  assumes "registry_ok r" "map_of (rg_models r) m = Some reg"
    "mr_Count reg' = mr_Count reg" "mr_Providers reg' = mr_Providers reg"
  shows "registry_ok (with_registration m reg' r)"
proof -
  have "tracks r (holders r)"
    using assms(1) by (simp add: registry_ok_def)
  from tracks_with [OF this, of "holders r m" reg' m] tracks_Some [OF this assms(2)]
  have "tracks (with_registration m reg' r) (holders r)"
    using reg_tracks_cong [OF assms(3,4)] by simp
  moreover have "holders (with_registration m reg' r) = holders r"
    by (simp add: holders_def fun_eq_iff)
  ultimately show ?thesis
    using assms(1) by (simp add: registry_ok_def)
qed

lemma marks_ok:
  assumes "registry_ok r"
  shows "registry_ok (SetModelQuotaExceeded c m now r)" "registry_ok (ClearModelQuotaExceeded c m r)"
    "registry_ok (SuspendClientModel c m reason now r)" "registry_ok (ResumeClientModel c m now r)"
  using assms
  by (auto simp: SetModelQuotaExceeded_def ClearModelQuotaExceeded_def SuspendClientModel_def
      ResumeClientModel_def Let_def intro: with_registration_ok split: option.split)

subsection \<open>Runs of the registry\<close>

datatype registry_op =
    OpRegister string string "model_info option list" "model_info option list option" gotime
  | OpUnregister string gotime
  | OpSetQuota string string gotime
  | OpClearQuota string string
  | OpSuspend string string string gotime
  | OpResume string string gotime

fun registry_step :: "model_registry \<Rightarrow> registry_op \<Rightarrow> model_registry" where
  "registry_step r (OpRegister c p models cands now) = registerClient c p models cands now r"
| "registry_step r (OpUnregister c now) = UnregisterClient c now r"
| "registry_step r (OpSetQuota c m now) = SetModelQuotaExceeded c m now r"
| "registry_step r (OpClearQuota c m) = ClearModelQuotaExceeded c m r"
| "registry_step r (OpSuspend c m reason now) = SuspendClientModel c m reason now r"
| "registry_step r (OpResume c m now) = ResumeClientModel c m now r"

definition registry_run :: "registry_op list \<Rightarrow> model_registry" where
  "registry_run ops = foldl registry_step empty_registry ops"

lemma registry_step_ok: "registry_ok r \<Longrightarrow> registry_ok (registry_step r op)"
  by (cases op) (simp_all add: register_ok marks_ok UnregisterClient_def unregister_ok)

lemma registry_run_ok: "registry_ok (registry_run ops)"
proof -
  have "registry_ok r \<Longrightarrow> registry_ok (foldl registry_step r ops)" for r
    by (induction ops arbitrary: r) (auto simp: registry_step_ok)
  moreover have "registry_ok empty_registry"
    by (simp add: registry_ok_def tracks_def empty_registry_def holders_def)
  ultimately show ?thesis
    by (simp add: registry_run_def)
qed

subsection \<open>Reading back a registration\<close>

definition valid_models :: "model_info option list \<Rightarrow> model_info list" where
  "valid_models models = filter (\<lambda>m. mi_ID m \<noteq> []) (List.map_filter id models)"

text \<open>The first model of each ID.\<close>

fun first_models :: "model_info list \<Rightarrow> string list \<Rightarrow> model_info list" where
  "first_models [] seen = []"
| "first_models (m # ms) seen =
     (if mi_ID m \<in> set seen then first_models ms seen else m # first_models ms (mi_ID m # seen))"

lemma valid_models_Cons:
  "valid_models (model # models) = (case model of None \<Rightarrow> valid_models models
     | Some m \<Rightarrow> if mi_ID m = [] then valid_models models else m # valid_models models)"
  by (simp add: valid_models_def List.map_filter_simps split: option.split)

lemma valid_models_Nil [simp]: "valid_models [] = []"
  by (simp add: valid_models_def List.map_filter_simps)

lemma intake_raw:
  "ci_rawModelIDs (intake_loop models s) = ci_rawModelIDs s @ map mi_ID (valid_models models)"
  by (induction models s rule: intake_loop.induct)
    (auto simp: valid_models_Cons Let_def split: option.split)

lemma intake_models:
  "map_of (ci_newModels (intake_loop models s)) k = (case map_of (ci_newModels s) k of
     Some v \<Rightarrow> Some v | None \<Rightarrow> map_option Some (find (\<lambda>m. mi_ID m = k) (valid_models models)))"
proof (induction models s rule: intake_loop.induct)
  case (2 model models s)
  then show ?case
    by (cases model) (auto simp: valid_models_Cons Let_def split: option.splits)
qed (auto split: option.split)

lemma first_models_unseen: "m \<in> set (first_models ms seen) \<Longrightarrow> mi_ID m \<notin> set seen"
  by (induction ms seen rule: first_models.induct) (auto split: if_splits)

lemma first_models_find:
  "m \<in> set (first_models ms seen) \<Longrightarrow> find (\<lambda>x. mi_ID x = mi_ID m) ms = Some m"
proof (induction ms seen rule: first_models.induct)
  case (2 x ms seen)
  then show ?case
    using first_models_unseen [of m ms seen] first_models_unseen [of m ms "mi_ID x # seen"]
    by (auto split: if_splits)
qed simp

lemma client_models_first:
  assumes "\<And>m. m \<in> set (first_models ms seen) \<Longrightarrow> gomap_get None infos (mi_ID m) = Some m"
  shows "client_models_loop r infos (map mi_ID ms) seen result = result @ first_models ms seen"
  using assms
proof (induction ms seen arbitrary: result rule: first_models.induct)
  case (2 m ms seen)
  show ?case
  proof (cases "mi_ID m \<in> set seen")
    case True
    with 2 show ?thesis
      by simp
  next
    case False
    with "2.prems" [of m] have "gomap_get None infos (mi_ID m) = Some m"
      by simp
    with False 2 show ?thesis
      by simp
  qed
qed simp

lemma registered_maps:
  fixes c cp now cands r
  assumes "valid_models models \<noteq> []"
  defines "r' \<equiv> registerClient c cp models cands now r"
  shows "models_of r' c = map mi_ID (valid_models models)" "provider_of r' c = to_lower cp"
    "gomap_get [] (rg_clientModelInfos r') c = ci_newModels (client_intake models)"
    "d \<noteq> c \<Longrightarrow> models_of r' d = models_of r d" "d \<noteq> c \<Longrightarrow> provider_of r' d = provider_of r d"
proof -
  have raw: "ci_rawModelIDs (client_intake models) = map mi_ID (valid_models models)"
    by (simp add: client_intake_def intake_raw)
  then have "ci_uniqueModelIDs (client_intake models) \<noteq> []"
    using client_intake_ok [of models] assms(1) by (auto simp: intake_ok_def)
  then show "models_of r' c = map mi_ID (valid_models models)" "provider_of r' c = to_lower cp"
    "gomap_get [] (rg_clientModelInfos r') c = ci_newModels (client_intake models)"
    "d \<noteq> c \<Longrightarrow> models_of r' d = models_of r d" "d \<noteq> c \<Longrightarrow> provider_of r' d = provider_of r d"
    by (auto simp: r'_def registerClient_def Let_def set_provider_def raw joined_def [symmetric])
qed

lemma refresh_loop_at:
  "distinct ms \<Longrightarrow> map_of (rg_models (refresh_loop f ms r)) m
    = (if m \<in> set ms then map_option (f m) (map_of (rg_models r) m) else map_of (rg_models r) m)"
proof (induction ms arbitrary: r)
  case (Cons k ms)
  show ?case
    using Cons.prems Cons.IH [of r] Cons.IH [of "with_registration k (f k (the (map_of (rg_models r) k))) r"]
    by (cases "map_of (rg_models r) k") (auto simp: with_registration_def)
qed simp

definition unmarked :: "string \<Rightarrow> model_registration \<Rightarrow> bool" where
  "unmarked c reg \<longleftrightarrow> map_of (mr_QuotaExceededClients reg) c = None
     \<and> map_of (mr_SuspendedClients reg) c = None"

lemma refresh_registration_unmarked:
  "unmarked c (refresh_registration c p changed now oc nc added m model reg)"
  by (simp add: unmarked_def refresh_registration_def forget_client_def Let_def)

subsection \<open>Marks\<close>

text \<open>The marks of a registration hold each client once.\<close>

definition reg_marks_wf :: "model_registration \<Rightarrow> bool" where
  "reg_marks_wf reg \<longleftrightarrow> gomap_wf (mr_QuotaExceededClients reg) \<and> gomap_wf (mr_SuspendedClients reg)"

definition marks_wf :: "model_registry \<Rightarrow> bool" where
  "marks_wf r \<longleftrightarrow> (\<forall>m reg. map_of (rg_models r) m = Some reg \<longrightarrow> reg_marks_wf reg)"

lemma marks_wfD: "marks_wf r \<Longrightarrow> map_of (rg_models r) m = Some reg \<Longrightarrow> reg_marks_wf reg"
  unfolding marks_wf_def by blast

lemma marks_wf_with: "marks_wf r \<Longrightarrow> reg_marks_wf reg \<Longrightarrow> marks_wf (with_registration m reg r)"
  by (simp add: marks_wf_def with_registration_def)

lemma marks_wf_delete: "marks_wf r \<Longrightarrow> marks_wf (r\<lparr>rg_models := AList.delete m (rg_models r)\<rparr>)"
  by (simp add: marks_wf_def)

lemma marks_wf_cong: "rg_models r' = rg_models r \<Longrightarrow> marks_wf r' = marks_wf r"
  by (simp add: marks_wf_def)

lemma reg_marks_wf_keeps [simp]:
  "reg_marks_wf reg \<Longrightarrow> reg_marks_wf (forget_client c reg)"
  "reg_marks_wf (drop_provider p reg) = reg_marks_wf reg"
  by (auto simp: reg_marks_wf_def forget_client_def drop_provider_def split: option.split)

lemma marks_wf_add: "marks_wf r \<Longrightarrow> marks_wf (addModelRegistration m p model now r)"
  by (auto simp: addModelRegistration_def Let_def reg_marks_wf_def dest: marks_wfD
      intro!: marks_wf_with split: option.split)

lemma marks_wf_remove: "marks_wf r \<Longrightarrow> marks_wf (removeModelRegistration c m p now r)"
  using marks_wfD [of r m]
  by (auto simp: removeModelRegistration_def Let_def reg_marks_wf_def forget_client_def drop_provider_def
      intro!: marks_wf_with marks_wf_delete split: option.splits)

lemma marks_wf_unregister_loop: "marks_wf r \<Longrightarrow> marks_wf (unregister_loop c p now ms r)"
proof (induction c p now ms r rule: unregister_loop.induct)
  case (2 c p now m ms r)
  have "marks_wf (case map_of (rg_models r) m of None \<Rightarrow> r
      | Some registration \<Rightarrow>
          let reg1 = forget_client c (registration\<lparr>mr_Count := mr_Count registration - 1, mr_LastUpdated := now\<rparr>);
              reg2 = (case p of Some q \<Rightarrow> drop_provider q reg1 | None \<Rightarrow> reg1)
          in if mr_Count reg2 \<le> 0 then r\<lparr>rg_models := AList.delete m (rg_models r)\<rparr>
             else with_registration m reg2 r)"
    using "2.prems" marks_wfD [of r m]
    by (auto simp: Let_def reg_marks_wf_def forget_client_def drop_provider_def
        intro!: marks_wf_with marks_wf_delete split: option.splits)
  then show ?case
    using "2.IH" by simp
qed simp

lemma marks_wf_unregister: "marks_wf r \<Longrightarrow> marks_wf (unregisterClientInternal c now r)"
proof -
  assume "marks_wf r"
  then have "marks_wf (unregister_loop c p now ms (r\<lparr>rg_clientModelCandidates := x\<rparr>))" for p ms x
    by (intro marks_wf_unregister_loop) (simp add: marks_wf_def)
  with \<open>marks_wf r\<close> show ?thesis
    by (auto simp: unregisterClientInternal_def Let_def marks_wf_def split: option.split)
qed

lemma marks_wf_repeat: "(\<And>s. marks_wf s \<Longrightarrow> marks_wf (f s)) \<Longrightarrow> marks_wf r \<Longrightarrow> marks_wf (repeat_step n f r)"
  by (induction n f r rule: repeat_step.induct) simp_all

lemma marks_wf_drop_old: "marks_wf r \<Longrightarrow> marks_wf (drop_old_provider p n m r)"
  using marks_wfD [of r m]
  by (auto simp: drop_old_provider_def reg_marks_wf_def intro!: marks_wf_with split: option.splits)

lemma marks_wf_change: "marks_wf r \<Longrightarrow> marks_wf (provider_change_loop p oc nc r)"
  by (induction p oc nc r rule: provider_change_loop.induct) (simp_all add: Let_def marks_wf_drop_old)

lemma marks_wf_removed: "marks_wf r \<Longrightarrow> marks_wf (removed_loop c p now oc ms r)"
  by (induction c p now oc ms r rule: removed_loop.induct) (simp_all add: marks_wf_repeat marks_wf_remove)

lemma marks_wf_overage: "marks_wf r \<Longrightarrow> marks_wf (overage_loop c p now nc oc r)"
  by (induction c p now nc oc r rule: overage_loop.induct) (simp_all add: Let_def marks_wf_repeat marks_wf_remove)

lemma marks_wf_addition: "marks_wf r \<Longrightarrow> marks_wf (addition_loop p now nm oc nc r)"
  by (induction p now nm oc nc r rule: addition_loop.induct) (simp_all add: Let_def marks_wf_repeat marks_wf_add)

lemma marks_wf_raw: "marks_wf r \<Longrightarrow> marks_wf (add_raw_loop p now nm ms r)"
  by (induction p now nm ms r rule: add_raw_loop.induct) (simp_all add: marks_wf_add)

lemma marks_wf_refresh_loop:
  "(\<And>m reg. reg_marks_wf reg \<Longrightarrow> reg_marks_wf (f m reg)) \<Longrightarrow> marks_wf r \<Longrightarrow> marks_wf (refresh_loop f ms r)"
proof (induction f ms r rule: refresh_loop.induct)
  case (2 f m ms r)
  have "marks_wf (case map_of (rg_models r) m of None \<Rightarrow> r | Some reg \<Rightarrow> with_registration m (f m reg) r)"
    using "2.prems" by (auto intro!: marks_wf_with dest: marks_wfD split: option.split)
  then show ?case
    using "2.IH" "2.prems"(1) by simp
qed simp

lemma reg_marks_wf_refresh:
  "reg_marks_wf reg \<Longrightarrow> reg_marks_wf (refresh_registration c p ch now oc nc added m model reg)"
  by (simp add: refresh_registration_def Let_def reg_marks_wf_def forget_client_def)

lemma marks_wf_reconcile: "marks_wf r \<Longrightarrow> marks_wf (reconcile_client c p new old now r)"
  by (simp add: reconcile_client_def Let_def marks_wf_refresh_loop reg_marks_wf_refresh marks_wf_addition
      marks_wf_overage marks_wf_removed marks_wf_change)

lemma marks_wf_register: "marks_wf r \<Longrightarrow> marks_wf (registerClient c p models cands now r)"
proof -
  assume r: "marks_wf r"
  have *: "marks_wf (record_candidates c cands x) = marks_wf x" "marks_wf (set_provider c p x) = marks_wf x"
    "marks_wf (x\<lparr>rg_clientModels := y, rg_clientModelInfos := z\<rparr>) = marks_wf x"
    "marks_wf (x\<lparr>rg_clientModels := y, rg_clientModelInfos := z, rg_clientProviders := w\<rparr>) = marks_wf x"
    for x p y z w
    by (auto simp: record_candidates_def set_provider_def marks_wf_def split: option.split)
  show ?thesis
    using r by (simp add: registerClient_def Let_def * marks_wf_unregister marks_wf_raw marks_wf_reconcile
        split: option.split)
qed

lemma marks_wf_marks:
  assumes "marks_wf r"
  shows "marks_wf (SetModelQuotaExceeded c m now r)" "marks_wf (ClearModelQuotaExceeded c m r)"
    "marks_wf (SuspendClientModel c m reason now r)" "marks_wf (ResumeClientModel c m now r)"
  using assms
  by (auto simp: SetModelQuotaExceeded_def ClearModelQuotaExceeded_def SuspendClientModel_def
      ResumeClientModel_def Let_def reg_marks_wf_def dest: marks_wfD intro!: marks_wf_with split: option.split)

lemma marks_wf_run: "marks_wf (registry_run ops)"
proof -
  have "marks_wf r \<Longrightarrow> marks_wf (registry_step r op)" for r op
    by (cases op) (simp_all add: marks_wf_register marks_wf_marks UnregisterClient_def marks_wf_unregister)
  then have "marks_wf r \<Longrightarrow> marks_wf (foldl registry_step r ops)" for r
    by (induction ops arbitrary: r) simp_all
  moreover have "marks_wf empty_registry"
    by (simp add: marks_wf_def empty_registry_def)
  ultimately show ?thesis
    by (simp add: registry_run_def)
qed

subsection \<open>Who can serve a model\<close>

text \<open>The clients of a model, those out of quota at a time, and those suspended for another reason.\<close>

definition holding_clients :: "model_registry \<Rightarrow> string \<Rightarrow> string set" where
  "holding_clients r m = {c. m \<in> set (models_of r c)}"

definition quota_clients :: "model_registration \<Rightarrow> gotime \<Rightarrow> string set" where
  "quota_clients reg now =
     {c. \<exists>t. map_of (mr_QuotaExceededClients reg) c = Some (Some t) \<and> now < t + modelQuotaExceededWindow}"

definition failing_clients :: "model_registration \<Rightarrow> string set" where
  "failing_clients reg =
     {c. \<exists>reason. map_of (mr_SuspendedClients reg) c = Some reason \<and> \<not> equal_fold reason ''quota''}"

lemma count_keys:
  assumes "gomap_wf l"
  shows "length (filter (\<lambda>(k, v). P v) l) = card {k. \<exists>v. map_of l k = Some v \<and> P v}"
proof -
  have "distinct (map fst (filter (\<lambda>(k, v). P v) l))"
    using assms by (rule distinct_map_filter)
  then have "length (filter (\<lambda>(k, v). P v) l) = card (set (map fst (filter (\<lambda>(k, v). P v) l)))"
    using distinct_card by force
  also have "set (map fst (filter (\<lambda>(k, v). P v) l)) = {k. \<exists>v. map_of l k = Some v \<and> P v}"
    using assms by force
  finally show ?thesis .
qed

lemma quota_counted:
  assumes "reg_marks_wf reg"
  shows "fst (quota_count_loop now (mr_QuotaExceededClients reg) 0 0) = int (card (quota_clients reg now))"
proof -
  let ?live = "\<lambda>q. case q of None \<Rightarrow> False | Some t \<Rightarrow> now < t + modelQuotaExceededWindow"
  have "fst (quota_count_loop now l e x) = e + int (length (filter (\<lambda>(c, q). ?live q) l))" for l e x
    by (induction now l e x rule: quota_count_loop.induct) (auto simp: Let_def split: option.split)
  moreover have "quota_clients reg now = {c. \<exists>q. map_of (mr_QuotaExceededClients reg) c = Some q \<and> ?live q}"
    by (auto simp: quota_clients_def split: option.splits)
  ultimately show ?thesis
    using assms count_keys [of "mr_QuotaExceededClients reg" ?live] by (simp add: reg_marks_wf_def)
qed

lemma failing_counted:
  assumes "reg_marks_wf reg"
  shows "snd (suspended_count_loop (mr_SuspendedClients reg) 0 0) = int (card (failing_clients reg))"
proof -
  have "snd (suspended_count_loop l a b) = b + int (length (filter (\<lambda>(c, s). \<not> equal_fold s ''quota'') l))" for l a b
    by (induction l a b rule: suspended_count_loop.induct) auto
  then show ?thesis
    using assms count_keys [of "mr_SuspendedClients reg" "\<lambda>s. \<not> equal_fold s ''quota''"]
    by (simp add: reg_marks_wf_def failing_clients_def)
qed

lemma finite_keys: "finite {k. \<exists>v. map_of l k = Some v \<and> P v}"
  by (rule finite_subset [OF _ finite_dom_map_of [of l]]) (auto simp: dom_def)

lemma holders_once:
  assumes "gomap_wf (rg_clientModels r)" "\<And>c. count_list (models_of r c) m \<le> 1"
  shows "size (holders r m) = card (holding_clients r m)"
proof -
  let ?l = "rg_clientModels r"
  have once: "count_list ms m = (if m \<in> set ms then 1 else 0)" if "(c, ms) \<in> set ?l" for c ms
  proof -
    have "models_of r c = ms"
      using that assms(1) by (simp add: gomap_get_def)
    with assms(2) [of c] have "count_list ms m \<le> 1"
      by simp
    then show ?thesis
      using count_list_0_iff [of ms m] by (cases "count_list ms m") auto
  qed
  have members: "sum_list (map (\<lambda>(c, ms). if m \<in> set ms then 1 else 0) l) = length (filter (\<lambda>(c, ms). m \<in> set ms) l)"
    for l :: "(string \<times> string list) list"
    by (induction l) auto
  have "size (sum_list (map (\<lambda>(c, ms). replicate_mset (count_list ms m) (g c)) l))
      = sum_list (map (\<lambda>(c, ms). count_list ms m) l)" for g :: "string \<Rightarrow> string" and l
    by (induction l) auto
  then have "size (holders r m) = sum_list (map (\<lambda>(c, ms). count_list ms m) ?l)"
    unfolding holders_def .
  also have "\<dots> = sum_list (map (\<lambda>(c, ms). if m \<in> set ms then 1 else 0) ?l)"
    using once by (intro arg_cong [where f = sum_list] map_cong) auto
  also have "\<dots> = length (filter (\<lambda>(c, ms). m \<in> set ms) ?l)"
    by (rule members)
  also have "\<dots> = card {c. \<exists>ms. map_of ?l c = Some ms \<and> m \<in> set ms}"
    using assms(1) by (rule count_keys)
  also have "{c. \<exists>ms. map_of ?l c = Some ms \<and> m \<in> set ms} = holding_clients r m"
    by (auto simp: holding_clients_def gomap_get_def dest: sym split: option.splits)
  finally show ?thesis .
qed

lemma visible_iff:
  assumes "reg_marks_wf reg" "0 < mr_Count reg"
  shows "fst (modelRegistrationAvailability reg now) \<longleftrightarrow> failing_clients reg = {}
    \<or> int (card (quota_clients reg now)) + int (card (failing_clients reg)) < mr_Count reg"
proof -
  have fin: "finite (failing_clients reg)" "finite (quota_clients reg now)"
    unfolding failing_clients_def by (rule finite_keys)
      (rule finite_subset [OF _ finite_dom_map_of [of "mr_QuotaExceededClients reg"]], auto simp: quota_clients_def)
  obtain x where q: "quota_count_loop now (mr_QuotaExceededClients reg) 0 0 = (int (card (quota_clients reg now)), x)"
    using quota_counted [OF assms(1), of now]
    by (cases "quota_count_loop now (mr_QuotaExceededClients reg) 0 0") simp
  obtain y where s: "suspended_count_loop (mr_SuspendedClients reg) 0 0 = (y, int (card (failing_clients reg)))"
    using failing_counted [OF assms(1)]
    by (cases "suspended_count_loop (mr_SuspendedClients reg) 0 0") simp
  show ?thesis
    using assms(2) fin by (auto simp: modelRegistrationAvailability_def q s Let_def card_gt_0_iff)
qed

section \<open>Properties\<close>

text \<open>
  C30. After any sequence of operations the registry counts correctly: a model is listed exactly if
  some client holds it, its count is the number of occurrences among all clients, and the count of
  each provider is the number of occurrences among the clients of that provider.
\<close>

theorem registry_counts:
  "let r = registry_run ops
   in (map_of (rg_models r) m = None \<longleftrightarrow> holders r m = {#})
      \<and> (case map_of (rg_models r) m of
           None \<Rightarrow> True
         | Some reg \<Rightarrow> mr_Count reg = int (size (holders r m))
             \<and> (\<forall>p. p \<noteq> [] \<longrightarrow> gomap_get 0 (mr_Providers reg) p = int (count (holders r m) p)))"
proof -
  have t: "tracks (registry_run ops) (holders (registry_run ops))"
    using registry_run_ok [of ops] by (simp add: registry_ok_def)
  show ?thesis
  proof (cases "map_of (rg_models (registry_run ops)) m")
    case None
    then show ?thesis
      using tracks_None [OF t] by (simp add: Let_def)
  next
    case (Some reg)
    then show ?thesis
      using tracks_Some [OF t Some] by (auto simp: Let_def reg_tracks_def gomap_get_def not_in_iff)
  qed
qed

definition a_model :: "string \<Rightarrow> model_info option" where
  "a_model modelID = Some \<lparr>mi_ID = modelID, mi_Object = [], mi_Created = 0, mi_OwnedBy = [], mi_Type = [],
     mi_Providers = [], mi_DisplayName = [], mi_Name = [], mi_Version = [], mi_Description = [],
     mi_InputTokenLimit = 0, mi_OutputTokenLimit = 0, mi_SupportedGenerationMethods = [],
     mi_ContextLength = 0, mi_MaxCompletionTokens = 0, mi_SupportedParameters = [],
     mi_SupportedInputModalities = [], mi_SupportedOutputModalities = [], mi_Thinking = None,
     mi_NativeCapabilities = None, mi_SupportConfigurationUpdate = False, mi_UserDefined = False,
     mi_ConfigDisplayName = [], mi_ForceMapping = False\<rparr>"

theorem registry_counts_witness:
  "(case map_of (rg_models (registry_run
      [OpRegister ''a'' ''P'' [a_model ''m'', a_model ''m''] None 1,
       OpRegister ''b'' ''Q'' [a_model ''m''] None 2, OpRegister ''a'' ''Q'' [a_model ''m''] None 3])) ''m'' of
      None \<Rightarrow> False | Some reg \<Rightarrow> mr_Count reg = 2 \<and> gomap_get 0 (mr_Providers reg) ''q'' = 2)"
proof -
  let ?ops = "[OpRegister ''a'' ''P'' [a_model ''m'', a_model ''m''] None 1,
       OpRegister ''b'' ''Q'' [a_model ''m''] None 2, OpRegister ''a'' ''Q'' [a_model ''m''] None 3]"
  have h: "holders (registry_run ?ops) ''m'' = {#''q'', ''q''#}"
    by code_simp
  show ?thesis
    using registry_counts [of ?ops "''m''"] unfolding Let_def h by (auto split: option.splits)
qed

text \<open>
  A registration is read back as it was given: the client's route is its provider in lower case
  with its model IDs in order, its models are the first definition of each ID, and no other client
  changes.
\<close>

theorem registry_roundtrip:
  fixes c cp now cands r
  assumes "valid_models models \<noteq> []"
  defines "r' \<equiv> registerClient c cp models cands now r"
  shows "GetClientModelRoutes r' c = (to_lower cp, map mi_ID (valid_models models))
    \<and> GetModelsForClient r' c = first_models (valid_models models) []
    \<and> (\<forall>d. d \<noteq> c \<longrightarrow> GetClientModelRoutes r' d = GetClientModelRoutes r d)"
proof -
  note maps = registered_maps [OF assms(1), where cp = cp and c = c and cands = cands and now = now and r = r, folded r'_def]
  have infos: "gomap_get None (ci_newModels (client_intake models)) (mi_ID m) = Some m"
    if "m \<in> set (first_models (valid_models models) [])" for m
    using first_models_find [OF that]
    by (simp add: client_intake_def gomap_get_def intake_models)
  have "GetModelsForClient r' c = first_models (valid_models models) []"
    unfolding GetModelsForClient_def maps(1,3) by (simp add: client_models_first [OF infos])
  then show ?thesis
    using maps by (simp add: GetClientModelRoutes_def)
qed

theorem registry_roundtrip_witness:
  "GetModelsForClient (registerClient ''a'' ''Gemini'' [a_model ''m'', None, a_model [], a_model ''n'', a_model ''m'']
     None 5 empty_registry) ''a'' = [the (a_model ''m''), the (a_model ''n'')]"
proof -
  have v: "valid_models [a_model ''m'', None, a_model [], a_model ''n'', a_model ''m'']
      = [the (a_model ''m''), the (a_model ''n''), the (a_model ''m'')]"
    by code_simp
  show ?thesis
    using registry_roundtrip [where models = "[a_model ''m'', None, a_model [], a_model ''n'', a_model ''m'']"
        and cp = "''Gemini''" and c = "''a''" and cands = None and now = 5 and r = empty_registry]
    unfolding v by (simp add: a_model_def)
qed

text \<open>
  Registering a client again starts afresh: none of the models it registers keeps a quota mark or
  a suspension of that client.
\<close>

theorem registry_reregister_fresh:
  assumes "map_of (rg_clientModels r) c \<noteq> None" "m \<in> mi_ID ` set (valid_models models)"
    and "map_of (rg_models (registerClient c cp models cands now r)) m = Some reg"
  shows "unmarked c reg"
proof -
  let ?new = "client_intake models"
  have raw: "ci_rawModelIDs ?new = map mi_ID (valid_models models)"
    by (simp add: client_intake_def intake_raw)
  have ok: "distinct (ci_uniqueModelIDs ?new)" "m \<in> set (ci_uniqueModelIDs ?new)"
    using client_intake_ok [of models] assms(2) by (auto simp: intake_ok_def raw)
  from assms(1) obtain old where "map_of (rg_clientModels r) c = Some old"
    by blast
  then have "map_of (rg_models (registerClient c cp models cands now r)) m
      = map_of (rg_models (reconcile_client c (to_lower cp) ?new old now r)) m"
    using ok(2) by (auto simp: registerClient_def Let_def set_provider_def)
  with assms(3) show ?thesis
    using ok refresh_registration_unmarked by (auto simp: reconcile_client_def Let_def refresh_loop_at)
qed

theorem registry_reregister_fresh_witness:
  "let r = registry_run [OpRegister ''a'' ''p'' [a_model ''m''] None 1, OpSetQuota ''a'' ''m'' 2,
       OpSuspend ''a'' ''m'' ''quota'' 2];
       r' = registerClient ''a'' ''p'' [a_model ''m''] None 3 r
   in \<not> unmarked ''a'' (the (map_of (rg_models r) ''m'')) \<and> unmarked ''a'' (the (map_of (rg_models r') ''m''))"
proof -
  let ?r = "registry_run [OpRegister ''a'' ''p'' [a_model ''m''] None 1, OpSetQuota ''a'' ''m'' 2,
       OpSuspend ''a'' ''m'' ''quota'' 2]"
  have "map_of (rg_clientModels ?r) ''a'' \<noteq> None \<and> ''m'' \<in> mi_ID ` set (valid_models [a_model ''m''])"
    by code_simp
  moreover have "map_of (rg_models (registerClient ''a'' ''p'' [a_model ''m''] None 3 ?r)) ''m'' \<noteq> None"
    by code_simp
  ultimately have "unmarked ''a'' (the (map_of (rg_models (registerClient ''a'' ''p'' [a_model ''m''] None 3 ?r)) ''m''))"
    using registry_reregister_fresh [of ?r "''a''" "''m''" "[a_model ''m'']" "''p''" None 3] by force
  moreover have "\<not> unmarked ''a'' (the (map_of (rg_models ?r) ''m''))"
    by code_simp
  ultimately show ?thesis
    by (simp add: Let_def)
qed

text \<open>
  C31. When a model is listed, exactly.  Let every client hold the model at most once and let the marks
  belong to clients that hold it.  Then, after any sequence of operations, the model is visible if and only
  if no client is suspended for a reason other than quota, or the clients that are free outnumber those
  that are out of quota and suspended at once.  Without clients of the last kind this is the intended rule,
  one free client is enough; each of them is subtracted twice and hides one free client.
\<close>

theorem registry_visibility:
  fixes now :: gotime
  assumes "map_of (rg_models (registry_run ops)) m = Some reg"
    and "\<And>c. count_list (models_of (registry_run ops) c) m \<le> 1"
  defines "H \<equiv> holding_clients (registry_run ops) m"
    and "Q \<equiv> quota_clients reg now" and "S \<equiv> failing_clients reg"
  assumes "Q \<union> S \<subseteq> H"
  shows "fst (modelRegistrationAvailability reg now) \<longleftrightarrow> S = {} \<or> card (Q \<inter> S) < card (H - (Q \<union> S))"
proof -
  have ok: "registry_ok (registry_run ops)"
    by (rule registry_run_ok)
  then have wf: "gomap_wf (rg_clientModels (registry_run ops))"
    and "reg_tracks (holders (registry_run ops) m) reg"
    using tracks_Some assms(1) by (auto simp: registry_ok_def)
  then have "mr_Count reg = int (card H)" "0 < size (holders (registry_run ops) m)"
    using holders_once [OF wf assms(2)] by (simp_all add: reg_tracks_def H_def nonempty_has_size)
  then have count: "mr_Count reg = int (card H)" "0 < mr_Count reg"
    using holders_once [OF wf assms(2)] by (simp_all add: H_def)
  have fin: "finite H"
    using count card.infinite by fastforce
  then have "card H = card (H - (Q \<union> S)) + card (Q \<union> S)" "card (Q \<union> S) + card (Q \<inter> S) = card Q + card S"
    using assms(6) card_Un_Int [of Q S] card_Diff_subset [of "Q \<union> S" H] card_mono [OF fin assms(6)]
      finite_subset [OF assms(6) fin] by auto
  then show ?thesis
    using visible_iff [OF marks_wfD [OF marks_wf_run assms(1)] count(2), of now] count(1)
    by (auto simp: Q_def S_def)
qed

theorem registry_visibility_witness:
  "let r = registry_run [OpRegister ''a'' ''p'' [a_model ''m''] None 1, OpRegister ''b'' ''p'' [a_model ''m''] None 1,
       OpSetQuota ''a'' ''m'' 2, OpSuspend ''a'' ''m'' ''payment_required'' 2]
   in unmarked ''b'' (the (map_of (rg_models r) ''m''))
      \<and> \<not> fst (modelRegistrationAvailability (the (map_of (rg_models r) ''m'')) 3)"
proof -
  let ?ops = "[OpRegister ''a'' ''p'' [a_model ''m''] None 1, OpRegister ''b'' ''p'' [a_model ''m''] None 1,
       OpSetQuota ''a'' ''m'' 2, OpSuspend ''a'' ''m'' ''payment_required'' 2]"
  let ?r = "registry_run ?ops"
  have "map_of (rg_models ?r) ''m'' \<noteq> None"
    by code_simp
  then obtain reg where reg: "map_of (rg_models ?r) ''m'' = Some reg"
    by blast
  have held: "rg_clientModels ?r = [(''a'', [''m'']), (''b'', [''m''])]"
    by code_simp
  have "mr_QuotaExceededClients (the (map_of (rg_models ?r) ''m'')) = [(''a'', Some 2)]"
    by code_simp
  moreover have "mr_SuspendedClients (the (map_of (rg_models ?r) ''m'')) = [(''a'', ''payment_required'')]"
    by code_simp
  moreover have "\<not> equal_fold ''payment_required'' ''quota''"
    by code_simp
  ultimately have sets: "quota_clients reg 3 = {''a''}" "failing_clients reg = {''a''}"
    "holding_clients ?r ''m'' = {''a'', ''b''}" "unmarked ''b'' reg"
    using reg by (auto simp: quota_clients_def failing_clients_def holding_clients_def unmarked_def
        modelQuotaExceededWindow_def gomap_get_def held split: if_splits)
  have free: "{''a'', ''b''} - ({''a''} \<union> {''a''}) = {''b''}"
    by auto
  have "count_list (models_of ?r c) ''m'' \<le> 1" for c
    by (simp add: gomap_get_def held)
  from registry_visibility [OF reg this, of 3, unfolded sets free] sets(4) show ?thesis
    by (simp add: reg Let_def)
qed

text \<open>
  A suspension under a spelling that the client does not hold is accepted, because the membership check
  ignores case; it marks the registration of the other clients and outlives the client that it names.
\<close>

lemma unregister_loop_other:
  "m \<notin> set ms \<Longrightarrow> map_of (rg_models (unregister_loop c p now ms r)) m = map_of (rg_models r) m"
proof (induction c p now ms r rule: unregister_loop.induct)
  case (2 c p now k ms r)
  then show ?case
    by (auto simp: Let_def with_registration_def split: option.split)
qed simp

theorem suspension_outlives_client:
  assumes "trim_space c = c" "c \<noteq> []" "trim_space m = m" "m \<noteq> []"
    and "clientSupportsModelLocked r c m" "m \<notin> set (models_of r c)"
    and "map_of (rg_models r) m = Some reg" "map_of (mr_SuspendedClients reg) c = None"
  shows "\<exists>reg'. map_of (rg_models (UnregisterClient c t (SuspendClientModel c m reason now r))) m = Some reg'
    \<and> map_of (mr_SuspendedClients reg') c = Some reason"
proof -
  let ?s = "SuspendClientModel c m reason now r"
  let ?reg = "reg\<lparr>mr_SuspendedClients := AList.update c reason (mr_SuspendedClients reg), mr_LastUpdated := now\<rparr>"
  have s: "?s = with_registration m ?reg r"
    using assms by (simp add: SuspendClientModel_def Let_def)
  have "map_of (rg_models (UnregisterClient c t ?s)) m = map_of (rg_models ?s) m"
    using assms(6) by (auto simp: UnregisterClient_def unregisterClientInternal_def Let_def gomap_get_def s
        unregister_loop_other split: option.split)
  then show ?thesis
    by (auto simp: s with_registration_def)
qed

theorem suspension_outlives_client_witness:
  "let r = registry_run [OpRegister ''a'' ''p'' [a_model ''m''] None 1, OpRegister ''b'' ''p'' [a_model ''M''] None 1]
   in \<exists>reg. map_of (rg_models (UnregisterClient ''b'' 3 (SuspendClientModel ''b'' ''m'' ''payment_required'' 2 r))) ''m''
        = Some reg \<and> map_of (mr_SuspendedClients reg) ''b'' = Some ''payment_required''"
proof -
  let ?r = "registry_run [OpRegister ''a'' ''p'' [a_model ''m''] None 1, OpRegister ''b'' ''p'' [a_model ''M''] None 1]"
  have "map_of (rg_models ?r) ''m'' \<noteq> None"
    by code_simp
  then obtain reg where reg: "map_of (rg_models ?r) ''m'' = Some reg"
    by blast
  have "mr_SuspendedClients (the (map_of (rg_models ?r) ''m'')) = []"
    by code_simp
  then have "map_of (mr_SuspendedClients reg) ''b'' = None"
    by (simp add: reg)
  moreover have "trim_space ''b'' = ''b'' \<and> trim_space ''m'' = ''m'' \<and> clientSupportsModelLocked ?r ''b'' ''m''
      \<and> ''m'' \<notin> set (models_of ?r ''b'')"
    by code_simp
  ultimately show ?thesis
    using suspension_outlives_client [of "''b''" "''m''" ?r reg 3 "''payment_required''" 2] reg by (simp add: Let_def)
qed

end
