(* ===== verification/Billing_Expr.thy ===== *)
theory Billing_Expr
  imports Home_Prelude
begin

section \<open>Pricing expressions\<close>

text \<open>
  The values, the syntax trees, the evaluation and the folding of token buckets of
  \<^verbatim>\<open>internal/billingexpr/billingexpr.go\<close>.  The arithmetic of \<^verbatim>\<open>float64\<close> is a record of operations on
  the type \<open>'f\<close> of numbers, so that what is proved holds whatever their rounding; the time zone
  database is a function from names to offsets.  A program's syntax tree carries the operator and
  function names as the code does; a type assertion that would panic on a tree the parser never
  builds is the error \<open>EPanic\<close>.
\<close>

subsection \<open>Numbers, values, names\<close>

record 'f float_ops =
  fadd :: "'f \<Rightarrow> 'f \<Rightarrow> 'f"
  fsub :: "'f \<Rightarrow> 'f \<Rightarrow> 'f"
  fmul :: "'f \<Rightarrow> 'f \<Rightarrow> 'f"
  fdiv :: "'f \<Rightarrow> 'f \<Rightarrow> 'f"
  fneg :: "'f \<Rightarrow> 'f"
  fless :: "'f \<Rightarrow> 'f \<Rightarrow> bool"
  fle :: "'f \<Rightarrow> 'f \<Rightarrow> bool"
  feq :: "'f \<Rightarrow> 'f \<Rightarrow> bool"
  fabs :: "'f \<Rightarrow> 'f"
  fceil :: "'f \<Rightarrow> 'f"
  ffloor :: "'f \<Rightarrow> 'f"
  fround :: "'f \<Rightarrow> 'f"
  fint :: "int \<Rightarrow> 'f"
  ffinite :: "'f \<Rightarrow> bool"
  fparse :: "string \<Rightarrow> 'f option"

datatype 'f expr_value = NumV 'f | StrV string | BoolV bool

datatype expr_type = NumT | StrT | BoolT

primrec typeName :: "'f expr_value \<Rightarrow> expr_type" where
  "typeName (NumV x) = NumT"
| "typeName (StrV s) = StrT"
| "typeName (BoolV b) = BoolT"

definition maxSourceLength :: nat where
  "maxSourceLength = 4096"

definition maxDepth :: nat where
  "maxDepth = 64"

definition tokensPerMillion :: int where
  "tokensPerMillion = 1000000"

definition varAliases :: "(string, string) gomap" where
  "varAliases = [(''image_count'', ''imgn''), (''img_o'', ''imgo''), (''ai_cr'', ''acr''), (''ci'', ''ce'')]"

definition canonicalVarName :: "string \<Rightarrow> string" where
  "canonicalVarName name = gomap_get name varAliases name"

definition numberVars :: "string list" where
  "numberVars = [''p'', ''c'', ''r'', ''cr'', ''cc'', ''cc30m'', ''cc1h'', ''cc12h'', ''img'', ''imgo'',
     ''ai'', ''ao'', ''vi'', ''vo'', ''fi'', ''img_cr'', ''acr'', ''ct'', ''apred'', ''rpred'', ''total'',
     ''len'', ''req'', ''ws'', ''wsq'', ''wf'', ''xs'', ''ce'', ''fs'', ''ds'', ''mcp'', ''maps'', ''src'', ''st'',
     ''pmedia'', ''cmedia'', ''paudio'', ''imgn'', ''asec'', ''upcost'']"

definition stringVars :: "string list" where
  "stringVars = [''tier'', ''upstream_tier'', ''speed'', ''geo'', ''cache_ttl'', ''img_size'', ''img_res'',
     ''img_quality'', ''img_ratio'', ''img_tier'', ''byok'', ''response_model'', ''effort'', ''model'',
     ''provider'', ''endpoint'']"

text \<open>The functions with the least and the greatest number of arguments.\<close>

definition expr_functions :: "(string, nat \<times> nat) gomap" where
  "expr_functions = [(''hour'', 0, 1), (''minute'', 0, 1), (''weekday'', 0, 1), (''month'', 0, 1), (''day'', 0, 1),
     (''min'', 1, 16), (''max'', 1, 16), (''abs'', 1, 1), (''ceil'', 1, 1), (''floor'', 1, 1), (''round'', 1, 1),
     (''usd'', 1, 1), (''fixed'', 1, 1), (''tier'', 2, 2), (''contains'', 2, 2), (''has'', 2, 2), (''u'', 1, 1),
     (''s'', 1, 1), (''param'', 1, 1)]"

definition clockFunctions :: "string list" where
  "clockFunctions = [''hour'', ''minute'', ''weekday'', ''month'', ''day'']"

subsection \<open>Syntax trees and environments\<close>

datatype 'f node =
    LiteralNode "'f expr_value"
  | VariableNode string bool
  | UnaryNode string "'f node"
  | BinaryNode string "'f node" "'f node"
  | TernaryNode "'f node" "'f node" "'f node"
  | CallNode string "'f node list"

record 'f expr_env =
  env_Numbers :: "(string, 'f) gomap"
  env_Strings :: "(string, string) gomap"
  env_LookupNumber :: "(string \<Rightarrow> 'f) option"
  env_LookupString :: "(string \<Rightarrow> string) option"
  env_Now :: gotime
  env_MatchedTier :: string

text \<open>
  The time zone database gives the offset from UTC, in nanoseconds, of an instant; the clock is read
  when the environment has no time.
\<close>

record expr_host =
  host_zone :: "string \<Rightarrow> (gotime \<Rightarrow> duration) option"
  host_now :: gotime

datatype expr_error =
    ENot expr_type
  | ENegate expr_type
  | ELogic string expr_type
  | ECompare string expr_type expr_type
  | EArith string expr_type expr_type
  | EDivisionByZero
  | EOperator string
  | ECondition expr_type
  | EArgument string expr_type
  | EStrings string
  | EZone string
  | EFunction string
  | ENotANumber expr_type
  | ENotFinite
  | ENegative
  | EPanic

subsection \<open>Civil time\<close>

text \<open>
  The zero time is the start of Monday, January 1 of the year 1.  Days are split into cycles of 400,
  100, 4 and 1 years as the Gregorian calendar has them.
\<close>

definition nanos_per_day :: int where
  "nanos_per_day = 24 * hour"

definition month_lengths :: "bool \<Rightarrow> int list" where
  "month_lengths leap = [31, if leap then 29 else 28, 31, 30, 31, 30, 31, 31, 30, 31, 30, 31]"

fun month_loop :: "int list \<Rightarrow> int \<Rightarrow> int \<Rightarrow> int \<times> int" where
  "month_loop [] month day = (month, day)"
| "month_loop (len # lens) month day =
     (if day < len then (month, day) else month_loop lens (month + 1) (day - len))"

definition month_day :: "int \<Rightarrow> int \<times> int" where
  "month_day days =
     (let d400 = days mod 146097;
          n100 = min (d400 div 36524) 3;
          d100 = d400 - n100 * 36524;
          n4 = d100 div 1461;
          d4 = d100 - n4 * 1461;
          n1 = min (d4 div 365) 3;
          d1 = d4 - n1 * 365;
          leap = (n1 = 3 \<and> (n4 \<noteq> 24 \<or> n100 = 3));
          (month, day) = month_loop (month_lengths leap) 1 d1
      in (month, day + 1))"

definition clock_reading :: "string \<Rightarrow> gotime \<Rightarrow> int" where
  "clock_reading name local =
     (let days = local div nanos_per_day
      in if name = ''hour'' then local mod nanos_per_day div hour
         else if name = ''minute'' then local mod hour div minute
         else if name = ''month'' then fst (month_day days)
         else if name = ''day'' then snd (month_day days)
         else (days + 1) mod 7)"

subsection \<open>Operators and calls on values\<close>

definition eval_unary :: "'f float_ops \<Rightarrow> string \<Rightarrow> 'f expr_value \<Rightarrow> expr_error + 'f expr_value" where
  "eval_unary fo operator v =
     (if operator = ''!''
      then (case v of BoolV flag \<Rightarrow> Inr (BoolV (\<not> flag)) | _ \<Rightarrow> Inl (ENot (typeName v)))
      else (case v of NumV x \<Rightarrow> Inr (NumV (fneg fo x)) | _ \<Rightarrow> Inl (ENegate (typeName v))))"

definition value_equal :: "'f float_ops \<Rightarrow> 'f expr_value \<Rightarrow> 'f expr_value \<Rightarrow> bool" where
  "value_equal fo left right =
     (case (left, right) of
        (NumV x, NumV y) \<Rightarrow> feq fo x y
      | (StrV s, StrV t) \<Rightarrow> equal_fold s t
      | (BoolV a, BoolV b) \<Rightarrow> a = b
      | _ \<Rightarrow> False)"

definition eval_binary ::
    "'f float_ops \<Rightarrow> string \<Rightarrow> 'f expr_value \<Rightarrow> 'f expr_value \<Rightarrow> expr_error + 'f expr_value" where
  "eval_binary fo operator left right =
     (if operator = ''=='' \<or> operator = ''!=''
      then (if typeName left \<noteq> typeName right then Inl (ECompare operator (typeName left) (typeName right))
            else Inr (BoolV (value_equal fo left right = (operator = ''==''))))
      else case (left, right) of
          (NumV x, NumV y) \<Rightarrow>
            if operator = ''+'' then Inr (NumV (fadd fo x y))
            else if operator = ''-'' then Inr (NumV (fsub fo x y))
            else if operator = ''*'' then Inr (NumV (fmul fo x y))
            else if operator = ''/''
            then (if feq fo y (fint fo 0) then Inl EDivisionByZero else Inr (NumV (fdiv fo x y)))
            else if operator = ''<'' then Inr (BoolV (fless fo x y))
            else if operator = ''<='' then Inr (BoolV (fle fo x y))
            else if operator = ''>'' then Inr (BoolV (fless fo y x))
            else if operator = ''>='' then Inr (BoolV (fle fo y x))
            else Inl (EOperator operator)
        | _ \<Rightarrow> Inl (EArith operator (typeName left) (typeName right)))"

fun min_max_loop :: "'f float_ops \<Rightarrow> string \<Rightarrow> 'f expr_value list \<Rightarrow> nat \<Rightarrow> 'f \<Rightarrow> expr_error + 'f expr_value" where
  "min_max_loop fo name [] i result = Inr (NumV result)"
| "min_max_loop fo name (v # vs) i result =
     (case v of
        NumV x \<Rightarrow> min_max_loop fo name vs (Suc i)
          (if i = 0 \<or> (name = ''min'' \<and> fless fo x result) \<or> (name = ''max'' \<and> fless fo result x)
           then x else result)
      | _ \<Rightarrow> Inl (EArgument name (typeName v)))"

definition eval_clock ::
    "'f float_ops \<Rightarrow> expr_host \<Rightarrow> 'f expr_env \<Rightarrow> string \<Rightarrow> 'f expr_value list \<Rightarrow> expr_error + 'f expr_value" where
  "eval_clock fo host env name vs =
     (let now = (if env_Now env = 0 then host_now host else env_Now env)
      in case vs of
          [v] \<Rightarrow>
            (case v of
               StrV zone \<Rightarrow>
                 (case host_zone host zone of
                    None \<Rightarrow> Inl (EZone zone)
                  | Some offset \<Rightarrow> Inr (NumV (fint fo (clock_reading name (now + offset now)))))
             | _ \<Rightarrow> Inl EPanic)
        | _ \<Rightarrow> Inr (NumV (fint fo (clock_reading name now))))"

text \<open>
  The call of a function on its values, with the tier name recorded so far.  The first cases are the
  element accesses that would be out of range.
\<close>

definition eval_call :: "'f float_ops \<Rightarrow> expr_host \<Rightarrow> 'f expr_env \<Rightarrow> string \<Rightarrow> 'f expr_value list \<Rightarrow> string
    \<Rightarrow> (expr_error + 'f expr_value) \<times> string" where
  "eval_call fo host env name vs tier =
     (if List.member clockFunctions name then (eval_clock fo host env name vs, tier)
      else if name = ''min'' \<or> name = ''max'' then (min_max_loop fo name vs 0 (fint fo 0), tier)
      else if name = ''tier''
      then (case vs of
          v # w # _ \<Rightarrow>
            (case v of
               StrV t \<Rightarrow> (case w of NumV x \<Rightarrow> (Inr (NumV x), t) | _ \<Rightarrow> (Inl (EArgument name (typeName w)), tier))
             | _ \<Rightarrow> (Inl (EArgument name (typeName v)), tier))
        | _ \<Rightarrow> (Inl EPanic, tier))
      else if name = ''contains'' \<or> name = ''has''
      then (case vs of
          v # w # _ \<Rightarrow>
            (case (v, w) of
               (StrV haystack, StrV needle) \<Rightarrow>
                 (Inr (BoolV (contains (to_lower haystack) (to_lower needle))), tier)
             | _ \<Rightarrow> (Inl (EStrings name), tier))
        | _ \<Rightarrow> (Inl EPanic, tier))
      else if name = ''u''
      then (case vs of
          v # _ \<Rightarrow>
            (case v of
               StrV path \<Rightarrow>
                 (Inr (NumV (case env_LookupNumber env of Some f \<Rightarrow> f path | None \<Rightarrow> fint fo 0)), tier)
             | _ \<Rightarrow> (Inl (EArgument name (typeName v)), tier))
        | _ \<Rightarrow> (Inl EPanic, tier))
      else if name = ''s'' \<or> name = ''param''
      then (case vs of
          v # _ \<Rightarrow>
            (case v of
               StrV path \<Rightarrow> (Inr (StrV (case env_LookupString env of Some f \<Rightarrow> f path | None \<Rightarrow> [])), tier)
             | _ \<Rightarrow> (Inl (EArgument name (typeName v)), tier))
        | _ \<Rightarrow> (Inl EPanic, tier))
      else if List.member [''abs'', ''ceil'', ''floor'', ''round'', ''usd'', ''fixed''] name
      then (case vs of
          v # _ \<Rightarrow>
            (case v of
               NumV x \<Rightarrow>
                 (Inr (NumV
                   (if name = ''abs'' then fabs fo x
                    else if name = ''ceil'' then fceil fo x
                    else if name = ''floor'' then ffloor fo x
                    else if name = ''round'' then fround fo x
                    else if name = ''usd'' then fmul fo x (fint fo tokensPerMillion)
                    else fmul fo (fmul fo x (gomap_get (fint fo 1) (env_Numbers env) ''req''))
                           (fint fo tokensPerMillion))), tier)
             | _ \<Rightarrow> (Inl (EArgument name (typeName v)), tier))
        | _ \<Rightarrow> (Inl EPanic, tier))
      else (Inl (EFunction name), tier))"

subsection \<open>Evaluation\<close>

text \<open>The tier name is the only part of the environment that an evaluation writes.\<close>

fun eval :: "'f float_ops \<Rightarrow> expr_host \<Rightarrow> 'f expr_env \<Rightarrow> 'f node \<Rightarrow> string
      \<Rightarrow> (expr_error + 'f expr_value) \<times> string"
and eval_args :: "'f float_ops \<Rightarrow> expr_host \<Rightarrow> 'f expr_env \<Rightarrow> 'f node list \<Rightarrow> string
      \<Rightarrow> (expr_error + 'f expr_value list) \<times> string" where
  "eval fo host env (LiteralNode v) tier = (Inr v, tier)"
| "eval fo host env (VariableNode name number) tier =
     (Inr (if number then NumV (gomap_get (fint fo 0) (env_Numbers env) name)
           else StrV (gomap_get [] (env_Strings env) name)), tier)"
| "eval fo host env (UnaryNode operator operand) tier =
     (case eval fo host env operand tier of
        (Inl e, tier') \<Rightarrow> (Inl e, tier')
      | (Inr v, tier') \<Rightarrow> (eval_unary fo operator v, tier'))"
| "eval fo host env (BinaryNode operator left right) tier =
     (case eval fo host env left tier of
        (Inl e, tier') \<Rightarrow> (Inl e, tier')
      | (Inr l, tier') \<Rightarrow>
          if operator = ''&&'' \<or> operator = ''||''
          then (case l of
              BoolV leftFlag \<Rightarrow>
                if (operator = ''&&'' \<and> \<not> leftFlag) \<or> (operator = ''||'' \<and> leftFlag) then (Inr (BoolV leftFlag), tier')
                else (case eval fo host env right tier' of
                    (Inl e, tier'') \<Rightarrow> (Inl e, tier'')
                  | (Inr (BoolV rightFlag), tier'') \<Rightarrow> (Inr (BoolV rightFlag), tier'')
                  | (Inr r, tier'') \<Rightarrow> (Inl (ELogic operator (typeName r)), tier''))
            | _ \<Rightarrow> (Inl (ELogic operator (typeName l)), tier'))
          else (case eval fo host env right tier' of
              (Inl e, tier'') \<Rightarrow> (Inl e, tier'')
            | (Inr r, tier'') \<Rightarrow> (eval_binary fo operator l r, tier'')))"
| "eval fo host env (TernaryNode cond whenTrue whenFalse) tier =
     (case eval fo host env cond tier of
        (Inl e, tier') \<Rightarrow> (Inl e, tier')
      | (Inr (BoolV flag), tier') \<Rightarrow>
          if flag then eval fo host env whenTrue tier' else eval fo host env whenFalse tier'
      | (Inr v, tier') \<Rightarrow> (Inl (ECondition (typeName v)), tier'))"
| "eval fo host env (CallNode name args) tier =
     (case eval_args fo host env args tier of
        (Inl e, tier') \<Rightarrow> (Inl e, tier')
      | (Inr vs, tier') \<Rightarrow> eval_call fo host env name vs tier')"
| "eval_args fo host env [] tier = (Inr [], tier)"
| "eval_args fo host env (arg # args) tier =
     (case eval fo host env arg tier of
        (Inl e, tier') \<Rightarrow> (Inl e, tier')
      | (Inr v, tier') \<Rightarrow>
          (case eval_args fo host env args tier' of
             (Inl e, tier'') \<Rightarrow> (Inl e, tier'')
           | (Inr vs, tier'') \<Rightarrow> (Inr (v # vs), tier'')))"

record 'f program =
  pr_source :: string
  pr_root :: "'f node"
  pr_uses :: "string list"

definition Uses :: "'f program option \<Rightarrow> string \<Rightarrow> bool" where
  "Uses p name = (case p of None \<Rightarrow> False | Some prog \<Rightarrow> List.member (pr_uses prog) name)"

definition EvalUSDWithTrace ::
    "'f float_ops \<Rightarrow> expr_host \<Rightarrow> 'f program \<Rightarrow> 'f expr_env \<Rightarrow> expr_error + 'f \<times> string" where
  "EvalUSDWithTrace fo host p env =
     (case eval fo host env (pr_root p) (env_MatchedTier env) of
        (Inl e, tier) \<Rightarrow> Inl e
      | (Inr v, tier) \<Rightarrow>
          (case v of
             NumV x \<Rightarrow>
               if \<not> ffinite fo x then Inl ENotFinite
               else if fless fo x (fint fo 0) then Inl ENegative
               else Inr (fdiv fo x (fint fo tokensPerMillion), tier)
           | _ \<Rightarrow> Inl (ENotANumber (typeName v))))"

definition EvalUSD :: "'f float_ops \<Rightarrow> expr_host \<Rightarrow> 'f program \<Rightarrow> 'f expr_env \<Rightarrow> expr_error + 'f" where
  "EvalUSD fo host p env =
     (case EvalUSDWithTrace fo host p env of Inl e \<Rightarrow> Inl e | Inr (amount, tier) \<Rightarrow> Inr amount)"

subsection \<open>Folding token buckets\<close>

text \<open>
  \<^verbatim>\<open>FoldTokens\<close> over the program's \<open>uses\<close>.  The buckets hold token counts, which are whole numbers far
  below the range where a \<^verbatim>\<open>float64\<close> is inexact, so their sums are exact: the counts are of a type with
  an associative and commutative addition.
\<close>

definition move :: "(string \<Rightarrow> bool) \<Rightarrow> string \<Rightarrow> string \<Rightarrow> (string, 'n :: comm_monoid_add) gomap
    \<Rightarrow> (string, 'n) gomap" where
  "move uses source target numbers =
     (if uses source then numbers
      else let numbers' = AList.update target (gomap_get 0 numbers target + gomap_get 0 numbers source) numbers
           in AList.update source 0 numbers')"

definition FoldTokens :: "(string \<Rightarrow> bool) \<Rightarrow> (string, 'n :: comm_monoid_add) gomap \<Rightarrow> (string, 'n) gomap" where
  "FoldTokens uses numbers =
     (let n1 = (if uses ''cc1h'' then move uses ''cc12h'' ''cc1h'' numbers
                else if uses ''cc30m'' then move uses ''cc12h'' ''cc30m'' numbers
                else move uses ''cc12h'' ''cc'' numbers);
          n2 = (if uses ''cc30m'' then move uses ''cc1h'' ''cc30m'' n1 else move uses ''cc1h'' ''cc'' n1)
      in fold (\<lambda>(source, target). move uses source target)
           [(''cc30m'', ''cc''), (''ct'', ''cr''), (''img_cr'', ''cr''), (''acr'', ''cr''), (''cc'', ''p''), (''cr'', ''p''),
            (''img'', ''p''), (''ai'', ''p''), (''vi'', ''p''), (''fi'', ''p''), (''imgo'', ''c''), (''ao'', ''c''), (''vo'', ''c''),
            (''r'', ''c'')] n2)"

section \<open>Types of expressions\<close>

text \<open>
  The checks happen during evaluation; a static discipline that rules all of them out.  Arithmetic,
  comparisons and calls get the types the evaluation insists on, both branches of a conditional agree,
  and the only error left to a typed tree is a division by zero.
\<close>

definition arith_operators :: "string list" where
  "arith_operators = [''+'', ''-'', ''*'', ''/'']"

definition order_operators :: "string list" where
  "order_operators = [''<'', ''<='', ''>'', ''>='']"

definition binary_type :: "string \<Rightarrow> expr_type \<Rightarrow> expr_type \<Rightarrow> expr_type option" where
  "binary_type operator l r =
     (if operator = ''&&'' \<or> operator = ''||'' then (if l = BoolT \<and> r = BoolT then Some BoolT else None)
      else if operator = ''=='' \<or> operator = ''!='' then (if l = r then Some BoolT else None)
      else if l = NumT \<and> r = NumT
      then (if List.member arith_operators operator then Some NumT
            else if List.member order_operators operator then Some BoolT else None)
      else None)"

definition call_type :: "string \<Rightarrow> expr_type list \<Rightarrow> expr_type option" where
  "call_type name ts =
     (if List.member [''min'', ''max''] name then (if list_all (\<lambda>t. t = NumT) ts then Some NumT else None)
      else if List.member [''abs'', ''ceil'', ''floor'', ''round'', ''usd'', ''fixed''] name
      then (if ts = [NumT] then Some NumT else None)
      else if name = ''tier'' then (if ts = [StrT, NumT] then Some NumT else None)
      else if name = ''contains'' \<or> name = ''has'' then (if ts = [StrT, StrT] then Some BoolT else None)
      else if name = ''u'' then (if ts = [StrT] then Some NumT else None)
      else if name = ''s'' \<or> name = ''param'' then (if ts = [StrT] then Some StrT else None)
      else if List.member clockFunctions name then (if ts = [] then Some NumT else None)
      else None)"

text \<open>A clock function with a zone is typed when its argument is a literal zone that the host knows.\<close>

definition zoned :: "expr_host \<Rightarrow> string \<Rightarrow> 'f node list \<Rightarrow> bool" where
  "zoned host name args =
     (List.member clockFunctions name \<and>
      (case args of
         [LiteralNode (StrV zone)] \<Rightarrow> host_zone host zone \<noteq> None
       | _ \<Rightarrow> False))"

fun expr_typed :: "expr_host \<Rightarrow> 'f node \<Rightarrow> expr_type option"
and args_typed :: "expr_host \<Rightarrow> 'f node list \<Rightarrow> expr_type list option" where
  "expr_typed host (LiteralNode v) = Some (typeName v)"
| "expr_typed host (VariableNode name number) = Some (if number then NumT else StrT)"
| "expr_typed host (UnaryNode operator operand) =
     (case expr_typed host operand of
        None \<Rightarrow> None
      | Some t \<Rightarrow> if operator = ''!'' then (if t = BoolT then Some BoolT else None)
                  else (if t = NumT then Some NumT else None))"
| "expr_typed host (BinaryNode operator left right) =
     (case (expr_typed host left, expr_typed host right) of
        (Some l, Some r) \<Rightarrow> binary_type operator l r
      | _ \<Rightarrow> None)"
| "expr_typed host (TernaryNode cond whenTrue whenFalse) =
     (case (expr_typed host cond, expr_typed host whenTrue, expr_typed host whenFalse) of
        (Some c, Some t, Some f) \<Rightarrow> if c = BoolT \<and> t = f then Some t else None
      | _ \<Rightarrow> None)"
| "expr_typed host (CallNode name args) =
     (if zoned host name args then Some NumT
      else case args_typed host args of
          None \<Rightarrow> None
        | Some ts \<Rightarrow> call_type name ts)"
| "args_typed host [] = Some []"
| "args_typed host (arg # args) =
     (case (expr_typed host arg, args_typed host args) of
        (Some t, Some ts) \<Rightarrow> Some (t # ts)
      | _ \<Rightarrow> None)"

definition good_result :: "expr_type \<Rightarrow> expr_error + 'f expr_value \<Rightarrow> bool" where
  "good_result t res = (case res of Inl e \<Rightarrow> e = EDivisionByZero | Inr v \<Rightarrow> typeName v = t)"

definition good_results :: "expr_type list \<Rightarrow> expr_error + 'f expr_value list \<Rightarrow> bool" where
  "good_results ts res = (case res of Inl e \<Rightarrow> e = EDivisionByZero | Inr vs \<Rightarrow> map typeName vs = ts)"

lemma typeName_iff:
  "typeName v = NumT \<longleftrightarrow> (\<exists>x. v = NumV x)" "typeName v = StrT \<longleftrightarrow> (\<exists>s. v = StrV s)"
  "typeName v = BoolT \<longleftrightarrow> (\<exists>b. v = BoolV b)"
  by (cases v; simp)+

lemma min_max_typed:
  "list_all (\<lambda>v. typeName v = NumT) vs \<Longrightarrow> \<exists>x. min_max_loop fo name vs i result = Inr (NumV x)"
  by (induction vs arbitrary: i result) (auto simp: typeName_iff)

lemma eval_binary_typed:
  assumes "binary_type operator (typeName l) (typeName r) = Some t" "operator \<noteq> ''&&''" "operator \<noteq> ''||''"
  shows "good_result t (eval_binary fo operator l r)"
  using assms
  by (cases l; cases r)
    (auto simp: binary_type_def eval_binary_def good_result_def arith_operators_def order_operators_def
      split: if_splits)

lemma eval_call_min_max:
  "name = ''min'' \<or> name = ''max'' \<Longrightarrow>
   eval_call fo host env name vs tier = (min_max_loop fo name vs 0 (fint fo 0), tier)"
  by (elim disjE) (simp_all add: eval_call_def clockFunctions_def)

lemma eval_call_number:
  "List.member [''abs'', ''ceil'', ''floor'', ''round'', ''usd'', ''fixed''] name \<Longrightarrow>
   \<exists>y. eval_call fo host env name [NumV x] tier = (Inr (NumV y), tier)"
  by (simp, elim disjE) (simp_all add: eval_call_def clockFunctions_def)

lemma eval_call_clock:
  "List.member clockFunctions name \<Longrightarrow> eval_call fo host env name vs tier = (eval_clock fo host env name vs, tier)"
  by (simp add: eval_call_def)

lemma eval_call_tier [simp]:
  "eval_call fo host env ''tier'' [StrV t, NumV x] tier = (Inr (NumV x), t)"
  by (simp add: eval_call_def clockFunctions_def)

lemma eval_call_contains:
  "name = ''contains'' \<or> name = ''has'' \<Longrightarrow> eval_call fo host env name [StrV s, StrV t] tier
    = (Inr (BoolV (contains (to_lower s) (to_lower t))), tier)"
  by (elim disjE) (simp_all add: eval_call_def clockFunctions_def)

lemma eval_call_lookup:
  "eval_call fo host env ''u'' [StrV s] tier
    = (Inr (NumV (case env_LookupNumber env of Some f \<Rightarrow> f s | None \<Rightarrow> fint fo 0)), tier)"
  "name = ''s'' \<or> name = ''param'' \<Longrightarrow> eval_call fo host env name [StrV s] tier
    = (Inr (StrV (case env_LookupString env of Some f \<Rightarrow> f s | None \<Rightarrow> [])), tier)"
  by (simp_all add: eval_call_def clockFunctions_def) (elim disjE; simp)

lemma map_type_1: "map typeName vs = [t] \<Longrightarrow> \<exists>v. vs = [v] \<and> typeName v = t"
  by (cases vs) auto

lemma map_type_2: "map typeName vs = [t, u] \<Longrightarrow> \<exists>v w. vs = [v, w] \<and> typeName v = t \<and> typeName w = u"
  by (cases vs) (auto dest: map_type_1)

lemma call_type_cases:
  assumes "call_type name ts = Some t"
  obtains
    (min_max) "name = ''min'' \<or> name = ''max''" "list_all (\<lambda>t. t = NumT) ts" "t = NumT"
  | (number) "List.member [''abs'', ''ceil'', ''floor'', ''round'', ''usd'', ''fixed''] name" "ts = [NumT]" "t = NumT"
  | (tier) "name = ''tier''" "ts = [StrT, NumT]" "t = NumT"
  | (search) "name = ''contains'' \<or> name = ''has''" "ts = [StrT, StrT]" "t = BoolT"
  | (lookup) "name = ''u''" "ts = [StrT]" "t = NumT"
  | (param) "name = ''s'' \<or> name = ''param''" "ts = [StrT]" "t = StrT"
  | (clock) "List.member clockFunctions name" "ts = []" "t = NumT"
  using assms unfolding call_type_def by (simp only: List.member_iff split: if_splits) auto

lemma eval_call_typed:
  assumes "call_type name (map typeName vs) = Some t"
  shows "good_result t (fst (eval_call fo host env name vs tier))"
  using assms
proof (cases rule: call_type_cases)
  case min_max
  then have "list_all (\<lambda>v. typeName v = NumT) vs"
    by (simp add: list_all_iff)
  with min_max show ?thesis
    using min_max_typed [of vs fo name 0 "fint fo 0"]
    by (auto simp: good_result_def eval_call_min_max [OF min_max(1)])
next
  case number
  then obtain x where "vs = [NumV x]"
    by (auto simp: typeName_iff dest!: map_type_1)
  with number show ?thesis
    using eval_call_number [OF number(1), of fo host env x tier] by (auto simp: good_result_def)
next
  case tier
  then show ?thesis
    by (auto simp: good_result_def typeName_iff dest!: map_type_2)
next
  case search
  then show ?thesis
    by (auto simp: good_result_def typeName_iff eval_call_contains dest!: map_type_2)
next
  case lookup
  then show ?thesis
    by (auto simp: good_result_def typeName_iff eval_call_lookup dest!: map_type_1)
next
  case param
  then show ?thesis
    by (auto simp: good_result_def typeName_iff eval_call_lookup dest!: map_type_1)
next
  case clock
  then show ?thesis
    by (simp add: good_result_def eval_call_clock eval_clock_def Let_def)
qed

lemma list_not_Cons: "(\<forall>x ys. xs \<noteq> x # ys) \<longleftrightarrow> xs = []"
  by (cases xs) auto

lemma eval_typed:
  "expr_typed host n = Some t \<Longrightarrow> good_result t (fst (eval fo host env n tier))"
  "args_typed host ns = Some ts \<Longrightarrow> good_results ts (fst (eval_args fo host env ns tier))"
proof (induction fo host env n tier and fo host env ns tier arbitrary: t and ts rule: eval_eval_args.induct)
  case (3 fo host env operator operand tier)
  then show ?case
    by (auto simp: good_result_def eval_unary_def typeName_iff split: option.splits prod.splits sum.splits if_splits)
next
  case (4 fo host env operator left right tier)
  from "4.prems" obtain l r where typed: "expr_typed host left = Some l" "expr_typed host right = Some r"
    "binary_type operator l r = Some t"
    by (auto split: option.splits)
  obtain res tier' where left: "eval fo host env left tier = (res, tier')"
    by force
  have good: "good_result l res"
    using "4.IH"(1) [OF typed(1)] left by simp
  show ?case
  proof (cases res)
    case (Inl e)
    with left good show ?thesis
      by (simp add: good_result_def)
  next
    case (Inr v)
    have v: "typeName v = l"
      using good Inr by (simp add: good_result_def)
    have right: "good_result r (fst (eval fo host env right tier'))"
      if "\<not> ((operator = ''&&'' \<or> operator = ''||'') \<and> \<not> (\<exists>b. v = BoolV b))"
        "\<not> (\<exists>b. v = BoolV b \<and> ((operator = ''&&'' \<and> \<not> b) \<or> (operator = ''||'' \<and> b)))"
      using that "4.IH"(2,3) [OF left [symmetric] Inr] typed(2)
      by (cases "operator = ''&&'' \<or> operator = ''||''") blast+
    show ?thesis
    proof (cases "operator = ''&&'' \<or> operator = ''||''")
      case True
      then have types: "l = BoolT" "r = BoolT" "t = BoolT"
        using typed(3) by (auto simp: binary_type_def split: if_splits)
      then obtain b where b: "v = BoolV b"
        using v by (auto simp: typeName_iff)
      show ?thesis
      proof (cases "(operator = ''&&'' \<and> \<not> b) \<or> (operator = ''||'' \<and> b)")
        case short: True
        then show ?thesis
          using True left Inr types b by (simp add: good_result_def)
      next
        case long: False
        obtain res2 tier2 where two: "eval fo host env right tier' = (res2, tier2)"
          by force
        have "good_result BoolT res2"
          using right b long types(2) two by simp
        then show ?thesis
          using True left Inr types b long two
          by (cases res2) (auto simp: good_result_def typeName_iff)
      qed
    next
      case False
      obtain res2 tier2 where two: "eval fo host env right tier' = (res2, tier2)"
        by force
      then have "good_result r res2"
        using right False by auto
      then show ?thesis
        using False left Inr two eval_binary_typed [of operator v _ t fo] typed(3) v
        by (cases res2) (auto simp: good_result_def)
    qed
  qed
next
  case (5 fo host env cond whenTrue whenFalse tier)
  then show ?case
    by (auto simp: good_result_def typeName_iff split: option.splits prod.splits sum.splits if_splits expr_value.splits)
next
  case (6 fo host env name args tier)
  show ?case
  proof (cases "zoned host name args")
    case True
    then obtain zone where "args = [LiteralNode (StrV zone)]" "host_zone host zone \<noteq> None"
      "List.member clockFunctions name"
      by (auto simp: zoned_def list_not_Cons split: list.splits node.splits expr_value.splits)
    with True "6.prems" show ?thesis
      by (auto simp: good_result_def eval_call_clock eval_clock_def Let_def)
  next
    case False
    with "6.prems" obtain ts where typed: "args_typed host args = Some ts" "call_type name ts = Some t"
      by (auto split: option.splits)
    obtain res tier' where args: "eval_args fo host env args tier = (res, tier')"
      by force
    then show ?thesis
      using "6.IH" [OF typed(1)] typed(2) eval_call_typed [of name _ t fo host env tier']
      by (cases res) (auto simp: good_results_def good_result_def)
  qed
next
  case (8 fo host env arg args tier)
  then show ?case
    by (auto simp: good_result_def good_results_def split: option.splits prod.splits sum.splits)
qed (auto simp: good_result_def good_results_def)

section \<open>Folding keeps every token\<close>

text \<open>The moves of one folding, in order.\<close>

definition fold_moves :: "(string \<Rightarrow> bool) \<Rightarrow> (string \<times> string) list" where
  "fold_moves uses =
     (''cc12h'', if uses ''cc1h'' then ''cc1h'' else if uses ''cc30m'' then ''cc30m'' else ''cc'')
     # (''cc1h'', if uses ''cc30m'' then ''cc30m'' else ''cc'')
     # [(''cc30m'', ''cc''), (''ct'', ''cr''), (''img_cr'', ''cr''), (''acr'', ''cr''), (''cc'', ''p''), (''cr'', ''p''),
        (''img'', ''p''), (''ai'', ''p''), (''vi'', ''p''), (''fi'', ''p''), (''imgo'', ''c''), (''ao'', ''c''), (''vo'', ''c''),
        (''r'', ''c'')]"

definition token_buckets :: "string list" where
  "token_buckets = [''cc12h'', ''cc1h'', ''cc30m'', ''ct'', ''img_cr'', ''acr'', ''cc'', ''cr'', ''img'', ''ai'', ''vi'',
     ''fi'', ''imgo'', ''ao'', ''vo'', ''r'', ''p'', ''c'']"

lemma FoldTokens_moves: "FoldTokens uses n = fold (\<lambda>(s, t). move uses s t) (fold_moves uses) n"
  by (simp add: FoldTokens_def fold_moves_def Let_def)

lemma move_get:
  "s \<noteq> t \<Longrightarrow> gomap_get 0 (move uses s t n) b = (if uses s then gomap_get 0 n b
     else if b = s then 0 else if b = t then gomap_get 0 n t + gomap_get 0 n s else gomap_get 0 n b)"
  by (simp add: move_def Let_def)

fun settled :: "(string \<times> string) list \<Rightarrow> bool" where
  "settled [] \<longleftrightarrow> True"
| "settled ((s, t) # ms) \<longleftrightarrow> s \<noteq> t \<and> s \<notin> snd ` set ms \<and> settled ms"

lemma fold_moves_settled: "settled (fold_moves uses)"
  by (simp add: fold_moves_def)

lemma fold_untouched:
  assumes "settled ms" "b \<notin> snd ` set ms" "gomap_get 0 n b = 0"
  shows "gomap_get 0 (fold (\<lambda>(s, t). move uses s t) ms n) b = 0"
  using assms by (induction ms arbitrary: n) (auto simp: move_get)

lemma fold_emptied:
  assumes "settled ms" "b \<in> fst ` set ms" "\<not> uses b"
  shows "gomap_get 0 (fold (\<lambda>(s, t). move uses s t) ms n) b = 0"
  using assms
proof (induction ms arbitrary: n)
  case (Cons st ms)
  obtain s t where st: "st = (s, t)"
    by (cases st)
  show ?case
  proof (cases "b \<in> fst ` set ms")
    case True
    with Cons st show ?thesis
      by simp
  next
    case False
    with Cons.prems st have "b = s" "b \<notin> snd ` set ms"
      by auto
    with Cons.prems st show ?thesis
      using fold_untouched [of ms b "move uses s t n" uses] by (simp add: move_get)
  qed
qed simp

lemma fold_grows:
  fixes n :: "(string, int) gomap"
  assumes "settled ms" "\<forall>b. 0 \<le> gomap_get 0 n b"
  shows "(uses b \<or> b \<notin> fst ` set ms \<longrightarrow>
      gomap_get 0 n b \<le> gomap_get 0 (fold (\<lambda>(s, t). move uses s t) ms n) b)
    \<and> 0 \<le> gomap_get 0 (fold (\<lambda>(s, t). move uses s t) ms n) b"
  using assms
proof (induction ms arbitrary: n)
  case (Cons st ms)
  obtain s t where st: "st = (s, t)"
    by (cases st)
  have nonneg: "\<forall>b. 0 \<le> gomap_get 0 (move uses s t n) b"
    using Cons.prems st by (simp add: move_get)
  have "uses b \<or> b \<noteq> s \<Longrightarrow> gomap_get 0 n b \<le> gomap_get 0 (move uses s t n) b"
    using Cons.prems st by (auto simp: move_get)
  with Cons.IH [OF _ nonneg] Cons.prems(1) st show ?case
    by fastforce
qed simp

lemma sum_list_move:
  fixes n :: "(string, 'n :: comm_monoid_add) gomap"
  assumes "s \<noteq> t" "s \<in> set bs" "t \<in> set bs" "distinct bs"
  shows "sum_list (map (gomap_get 0 (move uses s t n)) bs) = sum_list (map (gomap_get 0 n) bs)"
proof -
  let ?f = "gomap_get 0 (move uses s t n)" and ?g = "gomap_get 0 n"
  have "sum ?f (set bs) = sum ?f (set bs - {s, t}) + sum ?f {s, t}"
    using assms by (intro sum.subset_diff) auto
  also have "sum ?f (set bs - {s, t}) = sum ?g (set bs - {s, t})"
    using assms(1) by (intro sum.cong) (auto simp: move_get)
  also have "sum ?f {s, t} = sum ?g {s, t}"
    using assms(1) by (simp add: move_get add.commute)
  also have "sum ?g (set bs - {s, t}) + sum ?g {s, t} = sum ?g (set bs)"
    using assms by (intro sum.subset_diff [symmetric]) auto
  finally show ?thesis
    using assms(4) by (simp add: sum_list_distinct_conv_sum_set)
qed

lemma fold_total:
  assumes "settled ms" "fst ` set ms \<subseteq> set bs" "snd ` set ms \<subseteq> set bs" "distinct bs"
  shows "sum_list (map (gomap_get 0 (fold (\<lambda>(s, t). move uses s t) ms n)) bs) = sum_list (map (gomap_get 0 n) bs)"
  using assms
proof (induction ms arbitrary: n)
  case (Cons st ms)
  then show ?case
    using sum_list_move [of "fst st" "snd st" bs uses n] by (cases st) auto
qed simp

section \<open>Properties\<close>

text \<open>Exact rational arithmetic, with decimal integers as the only number texts.\<close>

definition exact_ops :: "rat float_ops" where
  "exact_ops =
     \<lparr>fadd = (+), fsub = (-), fmul = (*), fdiv = (/), fneg = uminus, fless = (<), fle = (\<le>), feq = (=),
      fabs = abs, fceil = \<lambda>x. of_int \<lceil>x\<rceil>, ffloor = \<lambda>x. of_int \<lfloor>x\<rfloor>,
      fround = \<lambda>x. if x < 0 then - of_int \<lfloor>1 / 2 - x\<rfloor> else of_int \<lfloor>x + 1 / 2\<rfloor>,
      fint = of_int, ffinite = \<lambda>_. True,
      fparse = \<lambda>s. if s = [] \<or> \<not> list_all is_digit s then None
        else Some (fold (\<lambda>c n. 10 * n + of_nat (of_char c - 48)) s 0)\<rparr>"

text \<open>
  C32. What the static types promise: the evaluation of a typed expression gives a value of its type,
  in every environment, or fails with a division by zero; none of the other type errors, unknown zones
  or panics can occur.
\<close>

theorem typed_eval_sound:
  fixes n :: "'f node"
  assumes "expr_typed host n = Some t"
  shows "case fst (eval fo host env n tier) of
      Inl e \<Rightarrow> e = EDivisionByZero
    | Inr v \<Rightarrow> typeName v = t"
  using eval_typed(1) [OF assms, of fo env tier] by (simp add: good_result_def)

definition sample_tree :: "rat node" where
  "sample_tree =
     TernaryNode (BinaryNode ''>'' (VariableNode ''len'' True) (LiteralNode (NumV 2)))
       (CallNode ''tier'' [LiteralNode (StrV ''long''), BinaryNode ''/'' (VariableNode ''p'' True) (LiteralNode (NumV 3))])
       (VariableNode ''p'' True)"

theorem typed_eval_sound_witness:
  "\<forall>host env tier. expr_typed host sample_tree = Some NumT \<and>
   (case fst (eval exact_ops host env sample_tree tier) of
      Inl e \<Rightarrow> e = EDivisionByZero | Inr v \<Rightarrow> typeName v = NumT)"
proof (intro allI)
  fix host env tier
  have "expr_typed host sample_tree = Some NumT"
    by (simp add: sample_tree_def binary_type_def call_type_def zoned_def clockFunctions_def arith_operators_def
        order_operators_def)
  from this typed_eval_sound [OF this, of exact_ops env tier]
  show "expr_typed host sample_tree = Some NumT \<and> (case fst (eval exact_ops host env sample_tree tier) of
      Inl e \<Rightarrow> e = EDivisionByZero | Inr v \<Rightarrow> typeName v = NumT)"
    by blast
qed

text \<open>
  Folding bills every token once: the counts over all token buckets keep their sum, a bucket the
  program does not read ends empty unless it is the input or the output bucket, and no bucket that is
  read, nor those two, loses a token.
\<close>

theorem fold_conserves:
  fixes numbers :: "(string, int) gomap"
  assumes "\<forall>b. 0 \<le> gomap_get 0 numbers b"
  shows "sum_list (map (gomap_get 0 (FoldTokens uses numbers)) token_buckets)
      = sum_list (map (gomap_get 0 numbers) token_buckets)
    \<and> (\<forall>b. b \<in> set token_buckets \<and> b \<noteq> ''p'' \<and> b \<noteq> ''c'' \<and> \<not> uses b \<longrightarrow> gomap_get 0 (FoldTokens uses numbers) b = 0)
    \<and> (\<forall>b. uses b \<or> b = ''p'' \<or> b = ''c'' \<longrightarrow> gomap_get 0 numbers b \<le> gomap_get 0 (FoldTokens uses numbers) b)"
proof (intro conjI allI impI)
  show "sum_list (map (gomap_get 0 (FoldTokens uses numbers)) token_buckets)
      = sum_list (map (gomap_get 0 numbers) token_buckets)"
    unfolding FoldTokens_moves
    by (rule fold_total [OF fold_moves_settled]) (auto simp: fold_moves_def token_buckets_def)
next
  fix b
  assume "b \<in> set token_buckets \<and> b \<noteq> ''p'' \<and> b \<noteq> ''c'' \<and> \<not> uses b"
  then show "gomap_get 0 (FoldTokens uses numbers) b = 0"
    unfolding FoldTokens_moves
    by (intro fold_emptied [OF fold_moves_settled]) (auto simp: fold_moves_def token_buckets_def)
next
  fix b
  assume "uses b \<or> b = ''p'' \<or> b = ''c''"
  then have "uses b \<or> b \<notin> fst ` set (fold_moves uses)"
    by (auto simp: fold_moves_def)
  then show "gomap_get 0 numbers b \<le> gomap_get 0 (FoldTokens uses numbers) b"
    using fold_grows [OF fold_moves_settled assms, of uses b] unfolding FoldTokens_moves by blast
qed

theorem fold_conserves_witness:
  "gomap_get 0 (FoldTokens (\<lambda>b. b = ''p'') [(''p'', 10), (''cr'', 4), (''ct'', 3 :: int)]) ''p'' = 17 \<and>
   sum_list (map (gomap_get 0 (FoldTokens (\<lambda>b. b = ''p'') [(''p'', 10), (''cr'', 4), (''ct'', 3 :: int)])) token_buckets)
     = sum_list (map (gomap_get 0 [(''p'', 10), (''cr'', 4), (''ct'', 3)]) token_buckets)"
proof -
  have "\<forall>b. 0 \<le> gomap_get 0 [(''p'', 10), (''cr'', 4), (''ct'', 3 :: int)] b"
    by (simp add: gomap_get_def)
  from fold_conserves [OF this, of "\<lambda>b. b = ''p''"] show ?thesis
    by (simp add: FoldTokens_moves fold_moves_def move_def Let_def gomap_get_def)
qed

end
