(* ===== verification/Billing_Parser.thy ===== *)
theory Billing_Parser
  imports Billing_Expr
begin

section \<open>Reading pricing expressions\<close>

text \<open>
  The lexer, the precedence climbing parser and \<open>Compile\<close> of \<^verbatim>\<open>billingexpr.go\<close>.  A token is what it
  says together with its position; the parser keeps the rest of the tokens in place of the whole list
  and an index, and the nesting depth, which the code restores when a call returns, is an argument.
  The recursion takes fuel; \<open>None\<close> is running out of it, which \<open>Compile\<close> never does.
\<close>

datatype 'f token_shape = TNumber string 'f | TString string | TIdent string | TOperator string | TEOF

type_synonym 'f token = "'f token_shape \<times> nat"

datatype compile_error =
    CEmpty
  | CTooLong
  | CNumber string nat
  | CUnterminated nat
  | CCharacter char nat
  | CExpected string nat
  | CDepth
  | CUnknownVariable string nat
  | CUnknownFunction string nat
  | CUnexpected string nat
  | CEnd
  | CArity string
  | CZoneLiteral string
  | CUnknownZone string string

subsection \<open>Lexer\<close>

definition is_letter :: "char \<Rightarrow> bool" where
  "is_letter c =
     (let n = (of_char c :: nat)
      in (65 \<le> n \<and> n \<le> 90) \<or> (97 \<le> n \<and> n \<le> 122) \<or> n = 170 \<or> n = 181 \<or> n = 186
         \<or> (192 \<le> n \<and> n \<noteq> 215 \<and> n \<noteq> 247))"

definition ident_char :: "char \<Rightarrow> bool" where
  "ident_char c \<longleftrightarrow> is_letter c \<or> is_digit c \<or> c = CHR ''_''"

definition number_char :: "char \<Rightarrow> bool" where
  "number_char c \<longleftrightarrow> is_digit c \<or> c = CHR ''.'' \<or> c = CHR ''_''"

definition number_start :: "string \<Rightarrow> bool" where
  "number_start s = (case s of
     [] \<Rightarrow> False
   | c # cs \<Rightarrow> is_digit c \<or> (c = CHR ''.'' \<and> cs \<noteq> [] \<and> is_digit (hd cs)))"

definition scan_number :: "string \<Rightarrow> string" where
  "scan_number s =
     (let mantissa = takeWhile number_char s;
          rest = dropWhile number_char s
      in if rest \<noteq> [] \<and> (hd rest = CHR ''e'' \<or> hd rest = CHR ''E'')
         then let rest1 = tl rest;
                  sign = (if rest1 \<noteq> [] \<and> (hd rest1 = CHR ''+'' \<or> hd rest1 = CHR ''-'') then [hd rest1] else [])
              in mantissa @ [hd rest] @ sign @ takeWhile is_digit (drop (length sign) rest1)
         else mantissa)"

definition two_char_operators :: "string list" where
  "two_char_operators = [''=='', ''!='', ''<='', ''>='', ''&&'', ''||'']"

definition operator_chars :: string where
  "operator_chars = ''+-*/()<>!?:,''"

definition prepend_token :: "'f token \<Rightarrow> compile_error + 'f token list \<Rightarrow> compile_error + 'f token list" where
  "prepend_token t res = (case res of Inl e \<Rightarrow> Inl e | Inr ts \<Rightarrow> Inr (t # ts))"

lemma scan_number_nonempty: "number_start s \<Longrightarrow> 0 < length (scan_number s)"
  by (cases s) (auto simp: number_start_def scan_number_def number_char_def Let_def)

function lex :: "'f float_ops \<Rightarrow> string \<Rightarrow> nat \<Rightarrow> compile_error + 'f token list" where
  "lex fo s index =
     (case s of
        [] \<Rightarrow> Inr [(TEOF, index)]
      | c # cs \<Rightarrow>
          if go_space c then lex fo cs (index + 1)
          else if number_start s
          then let n = length (scan_number s);
                   num_text = filter (\<lambda>d. d \<noteq> CHR ''_'') (scan_number s)
               in (case fparse fo num_text of
                     None \<Rightarrow> Inl (CNumber num_text index)
                   | Some v \<Rightarrow> prepend_token (TNumber num_text v, index) (lex fo (drop n s) (index + n)))
          else if c = CHR ''\"'' \<or> of_char c = (39 :: nat)
          then let body = takeWhile (\<lambda>d. d \<noteq> c) cs;
                   rest = dropWhile (\<lambda>d. d \<noteq> c) cs
               in if rest = [] then Inl (CUnterminated index)
                  else prepend_token (TString body, index) (lex fo (tl rest) (index + length body + 2))
          else if is_letter c \<or> c = CHR ''_''
          then let word = takeWhile ident_char s
               in prepend_token (TIdent word, index) (lex fo (dropWhile ident_char s) (index + length word))
          else if cs \<noteq> [] \<and> List.member two_char_operators [c, hd cs]
          then prepend_token (TOperator [c, hd cs], index) (lex fo (tl cs) (index + 2))
          else if \<not> List.member operator_chars c then Inl (CCharacter c index)
          else prepend_token (TOperator [c], index) (lex fo cs (index + 1)))"
  by pat_completeness auto

termination lex
proof (relation "measure (\<lambda>(fo, s, index). length s)", goal_cases)
  case (3 fo s index c cs n num_text v)
  then show ?case
    using scan_number_nonempty [of s] by simp
next
  case (4 fo s index c cs body rest)
  have "length rest \<le> length cs"
    unfolding 4 by (rule length_dropWhile_le)
  then have "length (tl rest) < length (c # cs)"
    by simp
  then show ?case
    using 4(1) by simp
next
  case (5 fo s index c cs word)
  then have "ident_char c"
    by (auto simp: ident_char_def)
  moreover have "length (dropWhile ident_char cs) \<le> length cs"
    by (rule length_dropWhile_le)
  ultimately show ?case
    using 5(1) by simp
qed auto

declare lex.simps [simp del]

subsection \<open>Parser\<close>

text \<open>The token list ends with \<open>TEOF\<close>; reading beyond it does not happen, and gives \<open>TEOF\<close> here.\<close>

definition peek :: "'f token list \<Rightarrow> 'f token" where
  "peek ts = (case ts of [] \<Rightarrow> (TEOF, 0) | t # _ \<Rightarrow> t)"

definition advance :: "'f token list \<Rightarrow> 'f token list" where
  "advance ts = (if fst (peek ts) = TEOF then ts else tl ts)"

definition acceptOperator :: "string \<Rightarrow> 'f token list \<Rightarrow> 'f token list option" where
  "acceptOperator operator ts = (if fst (peek ts) = TOperator operator then Some (tl ts) else None)"

type_synonym 'a parsing = "(compile_error + 'a) option"

definition pbind :: "'a parsing \<Rightarrow> ('a \<Rightarrow> 'b parsing) \<Rightarrow> 'b parsing" where
  "pbind x f = (case x of None \<Rightarrow> None | Some (Inl e) \<Rightarrow> Some (Inl e) | Some (Inr a) \<Rightarrow> f a)"

abbreviation preturn :: "'a \<Rightarrow> 'a parsing" where
  "preturn a \<equiv> Some (Inr a)"

abbreviation pfail :: "compile_error \<Rightarrow> 'a parsing" where
  "pfail e \<equiv> Some (Inl e)"

definition expectOperator :: "string \<Rightarrow> 'f token list \<Rightarrow> 'f token list parsing" where
  "expectOperator operator ts =
     (case acceptOperator operator ts of Some ts' \<Rightarrow> preturn ts' | None \<Rightarrow> pfail (CExpected operator (snd (peek ts))))"

definition binaryPrecedence :: "(string, nat) gomap" where
  "binaryPrecedence = [(''||'', 1), (''&&'', 2), (''=='', 3), (''!='', 3), (''<'', 4), (''<='', 4), (''>'', 4),
     (''>='', 4), (''+'', 5), (''-'', 5), (''*'', 6), (''/'', 6)]"

text \<open>The text of a token, for messages.\<close>

definition shape_text :: "'f token_shape \<Rightarrow> string" where
  "shape_text s = (case s of TNumber t _ \<Rightarrow> t | TString t \<Rightarrow> t | TIdent t \<Rightarrow> t | TOperator t \<Rightarrow> t | TEOF \<Rightarrow> [])"

definition variable_node :: "string \<Rightarrow> nat \<Rightarrow> 'f token list \<Rightarrow> string list
    \<Rightarrow> ('f node \<times> 'f token list \<times> string list) parsing" where
  "variable_node name pos ts uses =
     (let canonical = canonicalVarName name
      in if List.member numberVars canonical
         then preturn (VariableNode canonical True, ts, List.insert canonical uses)
         else if List.member stringVars canonical
         then preturn (VariableNode canonical False, ts, List.insert canonical uses)
         else pfail (CUnknownVariable name pos))"

text \<open>The checks at the end of a call.\<close>

definition check_call :: "expr_host \<Rightarrow> string \<Rightarrow> nat \<times> nat \<Rightarrow> 'f node list \<Rightarrow> compile_error option" where
  "check_call host name spec args =
     (if length args < fst spec \<or> length args > snd spec then Some (CArity name)
      else if List.member clockFunctions name \<and> length args = 1
      then (case hd args of
          LiteralNode v \<Rightarrow>
            (case v of
               StrV zone \<Rightarrow> if host_zone host zone = None then Some (CUnknownZone name zone) else None
             | _ \<Rightarrow> Some (CZoneLiteral name))
        | _ \<Rightarrow> Some (CZoneLiteral name))
      else None)"

type_synonym 'f parsed = "('f node \<times> 'f token list \<times> string list) parsing"

text \<open>
  The six functions call each other.  Each is written with the functions one level of fuel down as its
  argument \<open>P\<close>, and \<open>parsers\<close> ties them together.
\<close>

record 'f parser_fns =
  pf_Expression :: "nat \<Rightarrow> nat \<Rightarrow> 'f token list \<Rightarrow> string list \<Rightarrow> 'f parsed"
  pf_Loop :: "nat \<Rightarrow> nat \<Rightarrow> 'f node \<Rightarrow> 'f token list \<Rightarrow> string list \<Rightarrow> 'f parsed"
  pf_Unary :: "nat \<Rightarrow> 'f token list \<Rightarrow> string list \<Rightarrow> 'f parsed"
  pf_Primary :: "nat \<Rightarrow> 'f token list \<Rightarrow> string list \<Rightarrow> 'f parsed"
  pf_Call :: "nat \<Rightarrow> string \<Rightarrow> nat \<Rightarrow> 'f token list \<Rightarrow> string list \<Rightarrow> 'f parsed"
  pf_Args :: "nat \<Rightarrow> 'f token list \<Rightarrow> string list \<Rightarrow> ('f node list \<times> 'f token list \<times> string list) parsing"

definition parseExpression ::
    "'f parser_fns \<Rightarrow> nat \<Rightarrow> nat \<Rightarrow> 'f token list \<Rightarrow> string list \<Rightarrow> 'f parsed" where
  "parseExpression P depth minPrecedence ts uses =
     (if depth + 1 > maxDepth then pfail CDepth
      else pbind (pf_Unary P (depth + 1) ts uses) (\<lambda>(left, ts', uses').
             pf_Loop P (depth + 1) minPrecedence left ts' uses'))"

definition parseLoop ::
    "'f parser_fns \<Rightarrow> nat \<Rightarrow> nat \<Rightarrow> 'f node \<Rightarrow> 'f token list \<Rightarrow> string list \<Rightarrow> 'f parsed" where
  "parseLoop P depth minPrecedence left ts uses =
     (case fst (peek ts) of
        TOperator operator \<Rightarrow>
          if operator = ''?'' \<and> minPrecedence = 0
          then pbind (pf_Expression P depth 0 (advance ts) uses) (\<lambda>(whenTrue, ts1, uses1).
               pbind (expectOperator '':'' ts1) (\<lambda>ts2.
               pbind (pf_Expression P depth 0 ts2 uses1) (\<lambda>(whenFalse, ts3, uses3).
                 pf_Loop P depth minPrecedence (TernaryNode left whenTrue whenFalse) ts3 uses3)))
          else (case map_of binaryPrecedence operator of
              None \<Rightarrow> preturn (left, ts, uses)
            | Some precedence \<Rightarrow>
                if precedence \<le> minPrecedence then preturn (left, ts, uses)
                else pbind (pf_Expression P depth precedence (advance ts) uses) (\<lambda>(right, ts1, uses1).
                       pf_Loop P depth minPrecedence (BinaryNode operator left right) ts1 uses1))
      | _ \<Rightarrow> preturn (left, ts, uses))"

definition parseUnary :: "'f parser_fns \<Rightarrow> nat \<Rightarrow> 'f token list \<Rightarrow> string list \<Rightarrow> 'f parsed" where
  "parseUnary P depth ts uses =
     (case fst (peek ts) of
        TOperator operator \<Rightarrow>
          if operator = ''-'' \<or> operator = ''!''
          then (if depth + 1 > maxDepth then pfail CDepth
                else pbind (pf_Unary P (depth + 1) (advance ts) uses) (\<lambda>(operand, ts', uses').
                       preturn (UnaryNode operator operand, ts', uses')))
          else pf_Primary P depth ts uses
      | _ \<Rightarrow> pf_Primary P depth ts uses)"

definition parsePrimary :: "'f parser_fns \<Rightarrow> nat \<Rightarrow> 'f token list \<Rightarrow> string list \<Rightarrow> 'f parsed" where
  "parsePrimary P depth ts uses =
     (case fst (peek ts) of
        TNumber _ x \<Rightarrow> preturn (LiteralNode (NumV x), advance ts, uses)
      | TString s \<Rightarrow> preturn (LiteralNode (StrV s), advance ts, uses)
      | TIdent name \<Rightarrow>
          if name = ''true'' then preturn (LiteralNode (BoolV True), advance ts, uses)
          else if name = ''false'' then preturn (LiteralNode (BoolV False), advance ts, uses)
          else (case acceptOperator ''('' (advance ts) of
              Some ts' \<Rightarrow> pf_Call P depth name (snd (peek ts)) ts' uses
            | None \<Rightarrow> variable_node name (snd (peek ts)) (advance ts) uses)
      | TOperator operator \<Rightarrow>
          if operator = ''(''
          then pbind (pf_Expression P depth 0 (advance ts) uses) (\<lambda>(inner, ts1, uses1).
               pbind (expectOperator '')'' ts1) (\<lambda>ts2. preturn (inner, ts2, uses1)))
          else pfail (CUnexpected operator (snd (peek ts)))
      | TEOF \<Rightarrow> pfail CEnd)"

definition parseCall :: "expr_host \<Rightarrow> 'f parser_fns \<Rightarrow> nat \<Rightarrow> string \<Rightarrow> nat \<Rightarrow> 'f token list \<Rightarrow> string list
    \<Rightarrow> 'f parsed" where
  "parseCall host P depth name pos ts uses =
     (case map_of expr_functions name of
        None \<Rightarrow> pfail (CUnknownFunction name pos)
      | Some spec \<Rightarrow>
          pbind (case acceptOperator '')'' ts of
                   Some ts' \<Rightarrow> preturn ([], ts', uses)
                 | None \<Rightarrow> pf_Args P depth ts uses) (\<lambda>(args, ts1, uses1).
            case check_call host name spec args of
              Some e \<Rightarrow> pfail e
            | None \<Rightarrow> preturn (CallNode name args, ts1, uses1)))"

definition parseArgs :: "'f parser_fns \<Rightarrow> nat \<Rightarrow> 'f token list \<Rightarrow> string list
    \<Rightarrow> ('f node list \<times> 'f token list \<times> string list) parsing" where
  "parseArgs P depth ts uses =
     pbind (pf_Expression P depth 0 ts uses) (\<lambda>(arg, ts1, uses1).
       case acceptOperator '')'' ts1 of
         Some ts2 \<Rightarrow> preturn ([arg], ts2, uses1)
       | None \<Rightarrow>
           pbind (expectOperator '','' ts1) (\<lambda>ts2.
           pbind (pf_Args P depth ts2 uses1) (\<lambda>(args, ts3, uses3).
             preturn (arg # args, ts3, uses3))))"

primrec parsers :: "expr_host \<Rightarrow> nat \<Rightarrow> 'f parser_fns" where
  "parsers host 0 =
     \<lparr>pf_Expression = \<lambda>_ _ _ _. None, pf_Loop = \<lambda>_ _ _ _ _. None, pf_Unary = \<lambda>_ _ _. None,
      pf_Primary = \<lambda>_ _ _. None, pf_Call = \<lambda>_ _ _ _ _. None, pf_Args = \<lambda>_ _ _. None\<rparr>"
| "parsers host (Suc fuel) =
     (let P = parsers host fuel
      in \<lparr>pf_Expression = parseExpression P, pf_Loop = parseLoop P, pf_Unary = parseUnary P,
          pf_Primary = parsePrimary P, pf_Call = parseCall host P, pf_Args = parseArgs P\<rparr>)"

subsection \<open>Compile\<close>

definition trim_prefix :: "string \<Rightarrow> string \<Rightarrow> string" where
  "trim_prefix s p = (if has_prefix s p then drop (length p) s else s)"

definition parse_fuel :: "'f token list \<Rightarrow> nat" where
  "parse_fuel ts = 6 * length ts + 6"

definition compile_body :: "'f float_ops \<Rightarrow> expr_host \<Rightarrow> string \<Rightarrow> ('f program) parsing" where
  "compile_body fo host source =
     (let body = trim_space (trim_prefix source ''v1:'')
      in if body = [] then pfail CEmpty
         else if go_len source > maxSourceLength then pfail CTooLong
         else case lex fo body 0 of
             Inl e \<Rightarrow> pfail e
           | Inr tokens \<Rightarrow>
               pbind (pf_Expression (parsers host (parse_fuel tokens)) 0 0 tokens []) (\<lambda>(root, ts, uses).
                 if fst (peek ts) \<noteq> TEOF then pfail (CUnexpected (shape_text (fst (peek ts))) (snd (peek ts)))
                 else preturn \<lparr>pr_source = source, pr_root = root, pr_uses = uses\<rparr>))"

text \<open>Compiled programs are cached by their source.\<close>

definition Compile :: "'f float_ops \<Rightarrow> expr_host \<Rightarrow> (string, 'f program) gomap \<Rightarrow> string
    \<Rightarrow> (string, 'f program) gomap \<times> 'f program parsing" where
  "Compile fo host programCache source0 =
     (let source = trim_space source0
      in case map_of programCache source of
          Some cached \<Rightarrow> (programCache, preturn cached)
        | None \<Rightarrow>
            (case compile_body fo host source of
               Some (Inr program) \<Rightarrow> (AList.update source program programCache, preturn program)
             | res \<Rightarrow> (programCache, res)))"

text \<open>Validation: a compiled expression must give an amount for sample usage, at the current time.\<close>

definition defaultSampleSize :: int where
  "defaultSampleSize = 1000"

definition unitVars :: "string list" where
  "unitVars = [''req'', ''ws'', ''wsq'', ''wf'', ''xs'', ''ce'', ''fs'', ''ds'', ''mcp'', ''maps'', ''src'', ''st'',
     ''pmedia'', ''cmedia'', ''paudio'', ''imgn'', ''asec'', ''upcost'']"

definition sample_env :: "'f float_ops \<Rightarrow> expr_host \<Rightarrow> 'f expr_env" where
  "sample_env fo host =
     (let numbers = fold (\<lambda>name. AList.update name (fint fo defaultSampleSize)) numberVars []
      in \<lparr>env_Numbers = fold (\<lambda>name. AList.update name (fint fo 1)) unitVars numbers,
          env_Strings = fold (\<lambda>name. AList.update name []) stringVars [],
          env_LookupNumber = None, env_LookupString = None, env_Now = host_now host, env_MatchedTier = []\<rparr>)"

definition Validate :: "'f float_ops \<Rightarrow> expr_host \<Rightarrow> (string, 'f program) gomap \<Rightarrow> string
    \<Rightarrow> (compile_error + expr_error) option parsing" where
  "Validate fo host programCache source =
     (case snd (Compile fo host programCache source) of
        None \<Rightarrow> None
      | Some (Inl e) \<Rightarrow> preturn (Some (Inl e))
      | Some (Inr program) \<Rightarrow>
          (case EvalUSD fo host program (sample_env fo host) of
             Inl e \<Rightarrow> preturn (Some (Inr e))
           | Inr amount \<Rightarrow> preturn None))"

section \<open>Compiling always ends\<close>

lemma pbind_simps [simp]:
  "pbind None f = None" "pbind (pfail e) f = pfail e" "pbind (preturn a) f = f a"
  by (simp_all add: pbind_def)

lemma pbind_return: "pbind x f = preturn b \<longleftrightarrow> (\<exists>a. x = preturn a \<and> f a = preturn b)"
  by (auto simp: pbind_def split: option.split sum.split)

definition ended :: "'a parsing \<Rightarrow> bool" where
  "ended x \<longleftrightarrow> x \<noteq> None"

lemma ended_simps [simp]: "\<not> ended None" "ended (Some r)"
  by (simp_all add: ended_def)

lemma pbind_ended: "ended x \<Longrightarrow> (\<And>a. x = preturn a \<Longrightarrow> ended (f a)) \<Longrightarrow> ended (pbind x f)"
  by (auto simp: pbind_def ended_def split: option.splits sum.split)

lemma peek_simps [simp]: "peek (t # ts) = t" "peek [] = (TEOF, 0)"
  by (simp_all add: peek_def)

lemma acceptOperator_shorter: "acceptOperator operator ts = Some ts' \<Longrightarrow> length ts' < length ts"
  by (cases ts) (auto simp: acceptOperator_def split: if_splits)

lemma expectOperator_shorter: "expectOperator operator ts = preturn ts' \<Longrightarrow> length ts' < length ts"
  by (auto simp: expectOperator_def dest: acceptOperator_shorter split: option.splits)

lemma expectOperator_ended [simp]: "ended (expectOperator operator ts)"
  by (simp add: expectOperator_def split: option.split)

lemma advance_shorter: "fst (peek ts) \<noteq> TEOF \<Longrightarrow> length (advance ts) < length ts"
  by (cases ts) (auto simp: advance_def)

text \<open>A parse leaves fewer tokens.\<close>

definition shortens :: "'a token list \<Rightarrow> ('n \<times> 'a token list \<times> string list) parsing \<Rightarrow> bool" where
  "shortens ts res \<longleftrightarrow> (\<forall>r. res = preturn r \<longrightarrow> length (fst (snd r)) < length ts)"

definition fns_shorten :: "'f parser_fns \<Rightarrow> bool" where
  "fns_shorten P \<longleftrightarrow>
     (\<forall>d m ts ts' u. length ts \<le> length ts' \<longrightarrow> shortens ts' (pf_Expression P d m ts u))
     \<and> (\<forall>d m left ts ts' u. length ts < length ts' \<longrightarrow> shortens ts' (pf_Loop P d m left ts u))
     \<and> (\<forall>d ts ts' u. length ts \<le> length ts' \<longrightarrow> shortens ts' (pf_Unary P d ts u))
     \<and> (\<forall>d ts ts' u. length ts \<le> length ts' \<longrightarrow> shortens ts' (pf_Primary P d ts u))
     \<and> (\<forall>d name pos ts ts' u. length ts \<le> length ts' \<longrightarrow> shortens ts' (pf_Call P d name pos ts u))
     \<and> (\<forall>d ts ts' u. length ts \<le> length ts' \<longrightarrow> shortens ts' (pf_Args P d ts u))"

lemma advance_le: "length (advance ts) \<le> length ts"
  by (simp add: advance_def)

lemma shortens_simps [simp]:
  "shortens ts None" "shortens ts (pfail e)" "shortens ts (preturn (n, ts', u)) \<longleftrightarrow> length ts' < length ts"
  by (simp_all add: shortens_def)

lemma shortens_bind:
  assumes "shortens ts1 x" "\<And>a ts2 u. length ts2 < length ts1 \<Longrightarrow> shortens ts (f (a, ts2, u))"
  shows "shortens ts (pbind x f)"
proof (cases "\<exists>r. x = preturn r")
  case True
  then obtain a ts2 u where x: "x = preturn (a, ts2, u)"
    by auto
  with assms(1) have "length ts2 < length ts1"
    by simp
  from assms(2) [OF this] x show ?thesis
    by simp
next
  case False
  then show ?thesis
    by (auto simp: pbind_def split: option.split sum.split)
qed

lemma shortens_expect:
  "(\<And>ts2. length ts2 < length ts1 \<Longrightarrow> shortens ts (f ts2)) \<Longrightarrow> shortens ts (pbind (expectOperator operator ts1) f)"
  by (auto simp: expectOperator_def dest: acceptOperator_shorter split: option.split)

lemma shortens_mono: "shortens ts res \<Longrightarrow> length ts \<le> length ts' \<Longrightarrow> shortens ts' res"
  by (auto simp: shortens_def)

lemma fns_shortenD:
  assumes "fns_shorten P"
  shows "length ts \<le> length ts' \<Longrightarrow> shortens ts' (pf_Expression P d m ts u)"
    "length ts < length ts' \<Longrightarrow> shortens ts' (pf_Loop P d m left ts u)"
    "length ts \<le> length ts' \<Longrightarrow> shortens ts' (pf_Unary P d ts u)"
    "length ts \<le> length ts' \<Longrightarrow> shortens ts' (pf_Primary P d ts u)"
    "length ts \<le> length ts' \<Longrightarrow> shortens ts' (pf_Call P d name pos ts u)"
    "length ts \<le> length ts' \<Longrightarrow> shortens ts' (pf_Args P d ts u)"
  using assms by (auto simp: fns_shorten_def)

lemma shorten_Loop:
  assumes "fns_shorten P" "length ts < length ts'"
  shows "shortens ts' (parseLoop P d m left ts u)"
proof -
  have adv: "length (advance ts) < length ts" if "fst (peek ts) = TOperator operator" for operator
    using advance_shorter [of ts] that by simp
  show ?thesis
    unfolding parseLoop_def
    using assms(2)
    by (auto split: token_shape.split option.split dest!: adv intro!: shortens_bind
        [OF fns_shortenD(1) [OF assms(1) order_refl]] shortens_expect fns_shortenD(2) [OF assms(1)])
qed

lemma shorten_Expression:
  assumes "fns_shorten P"
  shows "shortens ts (parseExpression P d m ts u)"
  unfolding parseExpression_def
  by (auto intro!: shortens_bind [OF fns_shortenD(3) [OF assms order_refl]] fns_shortenD(2) [OF assms])

lemma shorten_Unary:
  assumes "fns_shorten P"
  shows "shortens ts (parseUnary P d ts u)"
  unfolding parseUnary_def
  by (auto split: token_shape.split intro!: shortens_bind [OF fns_shortenD(3) [OF assms order_refl]]
      fns_shortenD(4) [OF assms] intro: less_le_trans [OF _ advance_le])

lemma shorten_Primary:
  assumes "fns_shorten P"
  shows "shortens ts (parsePrimary P d ts u)"
proof -
  have adv: "fst (peek ts) = s \<Longrightarrow> s \<noteq> TEOF \<Longrightarrow> length (advance ts) < length ts" for s
    using advance_shorter [of ts] by simp
  have var: "length ts' < length ts \<Longrightarrow> shortens ts (variable_node name pos ts' u)" for name pos ts'
    by (simp add: variable_node_def Let_def)
  show ?thesis
    unfolding parsePrimary_def
    by (auto split: token_shape.split option.split dest!: adv dest: acceptOperator_shorter
        intro!: shortens_bind [OF fns_shortenD(1) [OF assms order_refl]] shortens_expect
          fns_shortenD(5) [OF assms] var)
qed

lemma shorten_Call:
  assumes "fns_shorten P"
  shows "shortens ts (parseCall host P d name pos ts u)"
proof -
  have args: "shortens ts (case acceptOperator '')'' ts of Some ts' \<Rightarrow> preturn ([], ts', u)
      | None \<Rightarrow> pf_Args P d ts u)"
    using fns_shortenD(6) [OF assms order_refl] by (auto dest: acceptOperator_shorter split: option.split)
  show ?thesis
    unfolding parseCall_def
    by (cases "map_of expr_functions name")
      (simp, simp only: option.simps, rule shortens_bind [OF args], simp split: option.split)
qed

lemma shorten_Args:
  assumes "fns_shorten P"
  shows "shortens ts (parseArgs P d ts u)"
  unfolding parseArgs_def
  by (auto split: option.split dest!: acceptOperator_shorter intro!: shortens_bind
      [OF fns_shortenD(1) [OF assms order_refl]] shortens_bind [OF fns_shortenD(6) [OF assms order_refl]]
      shortens_expect)

lemma parsers_shorten: "fns_shorten (parsers host fuel)"
proof (induction fuel)
  case 0
  then show ?case
    by (simp add: fns_shorten_def)
next
  case (Suc fuel)
  show ?case
    unfolding fns_shorten_def
    by (auto simp: Let_def shorten_Loop [OF Suc] intro: shortens_mono [OF shorten_Expression [OF Suc]]
        shortens_mono [OF shorten_Unary [OF Suc]] shortens_mono [OF shorten_Primary [OF Suc]]
        shortens_mono [OF shorten_Call [OF Suc]] shortens_mono [OF shorten_Args [OF Suc]])
qed

lemma ended_bind:
  assumes "ended x" "shortens ts1 x" "\<And>a ts2 u. length ts2 < length ts1 \<Longrightarrow> ended (f (a, ts2, u))"
  shows "ended (pbind x f)"
  using assms(1)
proof (rule pbind_ended)
  fix r
  assume "x = preturn r"
  with assms(2,3) show "ended (f r)"
    by (cases r) simp
qed

lemma ended_expect:
  "(\<And>ts2. length ts2 < length ts1 \<Longrightarrow> ended (f ts2)) \<Longrightarrow> ended (pbind (expectOperator operator ts1) f)"
  by (rule pbind_ended) (auto dest: expectOperator_shorter)

text \<open>The fuel each function needs for a rest of \<open>L\<close> tokens.\<close>

definition fns_end :: "nat \<Rightarrow> 'f parser_fns \<Rightarrow> bool" where
  "fns_end fuel P \<longleftrightarrow>
     (\<forall>d m ts u. 6 * length ts + 3 < fuel \<longrightarrow> ended (pf_Expression P d m ts u))
     \<and> (\<forall>d m left ts u. 6 * length ts + 1 < fuel \<longrightarrow> ended (pf_Loop P d m left ts u))
     \<and> (\<forall>d ts u. 6 * length ts + 2 < fuel \<longrightarrow> ended (pf_Unary P d ts u))
     \<and> (\<forall>d ts u. 6 * length ts + 1 < fuel \<longrightarrow> ended (pf_Primary P d ts u))
     \<and> (\<forall>d name pos ts u. 6 * length ts + 5 < fuel \<longrightarrow> ended (pf_Call P d name pos ts u))
     \<and> (\<forall>d ts u. 6 * length ts + 4 < fuel \<longrightarrow> ended (pf_Args P d ts u))"

lemma fns_endD:
  assumes "fns_end fuel P"
  shows "6 * length ts + 3 < fuel \<Longrightarrow> ended (pf_Expression P d m ts u)"
    "6 * length ts + 1 < fuel \<Longrightarrow> ended (pf_Loop P d m left ts u)"
    "6 * length ts + 2 < fuel \<Longrightarrow> ended (pf_Unary P d ts u)"
    "6 * length ts + 1 < fuel \<Longrightarrow> ended (pf_Primary P d ts u)"
    "6 * length ts + 5 < fuel \<Longrightarrow> ended (pf_Call P d name pos ts u)"
    "6 * length ts + 4 < fuel \<Longrightarrow> ended (pf_Args P d ts u)"
  using assms unfolding fns_end_def by simp_all

lemma advance_operator: "fst (peek ts) \<noteq> TEOF \<Longrightarrow> length ts = Suc (length (advance ts))"
  by (cases ts) (auto simp: advance_def)

lemma end_Expression:
  assumes "fns_end fuel P" "fns_shorten P" "6 * length ts + 3 < Suc fuel"
  shows "ended (parseExpression P d m ts u)"
proof -
  have "ended (pbind (pf_Unary P (d + 1) ts u) (\<lambda>(left, ts', u'). pf_Loop P (d + 1) m left ts' u'))"
    by (rule ended_bind [OF _ fns_shortenD(3) [OF assms(2) order_refl]])
      (use assms(3) fns_endD(2,3) [OF assms(1)] in auto)
  then show ?thesis
    by (simp add: parseExpression_def)
qed

lemma end_Loop:
  assumes "fns_end fuel P" "fns_shorten P" "6 * length ts + 1 < Suc fuel"
  shows "ended (parseLoop P d m left ts u)"
proof (cases "\<exists>operator. fst (peek ts) = TOperator operator")
  case False
  then show ?thesis
    by (simp add: parseLoop_def split: token_shape.split)
next
  case True
  then obtain operator where op: "fst (peek ts) = TOperator operator" ..
  have len: "length ts = Suc (length (advance ts))"
    by (rule advance_operator) (simp add: op)
  have expr: "length ts' \<le> length (advance ts) \<Longrightarrow> ended (pf_Expression P d k ts' v)" for k ts' v
    using assms(3) fns_endD(1) [OF assms(1), of ts'] len by simp
  have loop: "length ts' \<le> length (advance ts) \<Longrightarrow> ended (pf_Loop P d m n ts' v)" for n ts' v
    using assms(3) fns_endD(2) [OF assms(1), of ts'] len by simp
  note sh = fns_shortenD(1) [OF assms(2) order_refl]
  have "ended (pbind (pf_Expression P d 0 (advance ts) u) (\<lambda>(whenTrue, ts1, uses1).
       pbind (expectOperator '':'' ts1) (\<lambda>ts2.
       pbind (pf_Expression P d 0 ts2 uses1) (\<lambda>(whenFalse, ts3, uses3).
         pf_Loop P d m (TernaryNode left whenTrue whenFalse) ts3 uses3))))"
    by (auto intro!: ended_bind [OF _ sh] ended_expect expr loop)
  moreover have "ended (pbind (pf_Expression P d k (advance ts) u) (\<lambda>(right, ts1, uses1).
       pf_Loop P d m (BinaryNode operator left right) ts1 uses1))" for k
    by (auto intro!: ended_bind [OF _ sh] expr loop)
  ultimately show ?thesis
    by (auto simp: parseLoop_def op split: option.split)
qed

lemma end_Unary:
  assumes "fns_end fuel P" "fns_shorten P" "6 * length ts + 2 < Suc fuel"
  shows "ended (parseUnary P d ts u)"
proof -
  have "ended (pbind (pf_Unary P (d + 1) (advance ts) u) (\<lambda>(operand, ts', u').
      preturn (UnaryNode operator operand, ts', u')))" if "fst (peek ts) = TOperator operator" for operator
    using assms(3) fns_endD(3) [OF assms(1), of "advance ts"] advance_operator [of ts] that
    by (auto intro!: pbind_ended)
  moreover have "ended (pf_Primary P d ts u)"
    using assms(3) fns_endD(4) [OF assms(1)] by simp
  ultimately show ?thesis
    by (auto simp: parseUnary_def split: token_shape.split)
qed

lemma end_Primary:
  assumes "fns_end fuel P" "fns_shorten P" "6 * length ts + 1 < Suc fuel"
  shows "ended (parsePrimary P d ts u)"
proof -
  have var: "ended (variable_node name pos ts' u)" for name pos ts'
    by (simp add: variable_node_def Let_def)
  have "ended (pbind (pf_Expression P d 0 (advance ts) u) (\<lambda>(inner, ts1, uses1).
      pbind (expectOperator '')'' ts1) (\<lambda>ts2. preturn (inner, ts2, uses1))))"
    if "fst (peek ts) = TOperator operator" for operator
    using assms(3) fns_endD(1) [OF assms(1), of "advance ts"] advance_operator [of ts] that
    by (auto intro!: pbind_ended)
  moreover have "ended (pf_Call P d name pos ts' u)"
    if "fst (peek ts) = TIdent name" "acceptOperator ''('' (advance ts) = Some ts'" for name pos ts'
    using assms(3) fns_endD(5) [OF assms(1), of ts'] advance_operator [of ts] acceptOperator_shorter [OF that(2)]
      that(1) by simp
  ultimately show ?thesis
    using var by (auto simp: parsePrimary_def split: token_shape.split option.split)
qed

lemma end_Call:
  assumes "fns_end fuel P" "6 * length ts + 5 < Suc fuel"
  shows "ended (parseCall host P d name pos ts u)"
proof -
  have "ended (case acceptOperator '')'' ts of Some ts' \<Rightarrow> preturn ([], ts', u) | None \<Rightarrow> pf_Args P d ts u)"
    using assms(2) fns_endD(6) [OF assms(1)] by (simp split: option.split)
  then show ?thesis
    by (auto simp: parseCall_def intro!: pbind_ended split: option.split)
qed

lemma end_Args:
  assumes "fns_end fuel P" "fns_shorten P" "6 * length ts + 4 < Suc fuel"
  shows "ended (parseArgs P d ts u)"
proof -
  have rest: "length ts' < length ts \<Longrightarrow> ended (pbind (pf_Args P d ts' v) (\<lambda>(args, ts3, uses3).
      preturn (arg # args, ts3, uses3)))" for arg ts' v
    using assms(3) fns_endD(6) [OF assms(1), of ts'] by (auto intro!: pbind_ended)
  show ?thesis
    unfolding parseArgs_def
    by (rule ended_bind [OF _ fns_shortenD(1) [OF assms(2) order_refl]])
      (use assms(3) fns_endD(1) [OF assms(1)] rest in
        \<open>auto intro!: ended_expect split: option.split\<close>)
qed

lemma parsers_end: "fns_end fuel (parsers host fuel)"
proof (induction fuel)
  case 0
  show ?case
    by (simp add: fns_end_def)
next
  case (Suc fuel)
  note sh = parsers_shorten [of host fuel]
  show ?case
    unfolding fns_end_def
    using end_Expression [OF Suc sh] end_Loop [OF Suc sh] end_Unary [OF Suc sh] end_Primary [OF Suc sh]
      end_Call [OF Suc] end_Args [OF Suc sh]
    by (simp add: Let_def)
qed

lemma compile_body_ends: "ended (compile_body fo host source)"
proof -
  have "ended (pf_Expression (parsers host (parse_fuel tokens)) 0 0 tokens [])" for tokens :: "'a token list"
    by (rule fns_endD(1) [OF parsers_end]) (simp add: parse_fuel_def)
  then show ?thesis
    by (auto simp: compile_body_def Let_def intro!: pbind_ended split: sum.split)
qed

section \<open>What the parser builds\<close>

fun node_vars :: "'f node \<Rightarrow> string list" where
  "node_vars (LiteralNode v) = []"
| "node_vars (VariableNode name number) = [name]"
| "node_vars (UnaryNode operator operand) = node_vars operand"
| "node_vars (BinaryNode operator left right) = node_vars left @ node_vars right"
| "node_vars (TernaryNode cond whenTrue whenFalse) =
     node_vars cond @ node_vars whenTrue @ node_vars whenFalse"
| "node_vars (CallNode name args) = concat (map node_vars args)"

text \<open>A tree whose operators, variables and calls the evaluation knows.\<close>

fun compiled_node :: "expr_host \<Rightarrow> 'f node \<Rightarrow> bool" where
  "compiled_node host (LiteralNode v) \<longleftrightarrow> True"
| "compiled_node host (VariableNode name number) \<longleftrightarrow>
     List.member (if number then numberVars else stringVars) name"
| "compiled_node host (UnaryNode operator operand) \<longleftrightarrow>
     (operator = ''-'' \<or> operator = ''!'') \<and> compiled_node host operand"
| "compiled_node host (BinaryNode operator left right) \<longleftrightarrow>
     map_of binaryPrecedence operator \<noteq> None \<and> compiled_node host left \<and> compiled_node host right"
| "compiled_node host (TernaryNode cond whenTrue whenFalse) \<longleftrightarrow>
     compiled_node host cond \<and> compiled_node host whenTrue \<and> compiled_node host whenFalse"
| "compiled_node host (CallNode name args) \<longleftrightarrow>
     (\<exists>spec. map_of expr_functions name = Some spec \<and> check_call host name spec args = None)
     \<and> list_all (compiled_node host) args"

definition yields :: "('a \<Rightarrow> bool) \<Rightarrow> 'a parsing \<Rightarrow> bool" where
  "yields Q res \<longleftrightarrow> (\<forall>r. res = preturn r \<longrightarrow> Q r)"

lemma yields_simps [simp]: "yields Q None" "yields Q (pfail e)" "yields Q (preturn r) \<longleftrightarrow> Q r"
  by (simp_all add: yields_def)

lemma yields_bind:
  assumes "yields Q x" "\<And>r. Q r \<Longrightarrow> yields R (f r)"
  shows "yields R (pbind x f)"
  using assms by (cases "\<exists>r. x = preturn r") (auto simp: yields_def pbind_return)

lemma yields_expect: "(\<And>ts. yields R (f ts)) \<Longrightarrow> yields R (pbind (expectOperator operator ts1) f)"
  by (auto simp: yields_def pbind_return)

definition built :: "expr_host \<Rightarrow> string list \<Rightarrow> 'f node \<times> 'f token list \<times> string list \<Rightarrow> bool" where
  "built host u r \<longleftrightarrow> compiled_node host (fst r)
     \<and> set (snd (snd r)) = set u \<union> set (node_vars (fst r))"

definition grown :: "expr_host \<Rightarrow> string list \<Rightarrow> 'f node \<Rightarrow> 'f node \<times> 'f token list \<times> string list \<Rightarrow> bool" where
  "grown host u left r \<longleftrightarrow> built host u r \<and> set (node_vars left) \<subseteq> set (node_vars (fst r))"

definition built_args :: "expr_host \<Rightarrow> string list \<Rightarrow> 'f node list \<times> 'f token list \<times> string list \<Rightarrow> bool" where
  "built_args host u r \<longleftrightarrow> list_all (compiled_node host) (fst r)
     \<and> set (snd (snd r)) = set u \<union> set (concat (map node_vars (fst r)))"

definition fns_build :: "expr_host \<Rightarrow> 'f parser_fns \<Rightarrow> bool" where
  "fns_build host P \<longleftrightarrow>
     (\<forall>d m ts u. yields (built host u) (pf_Expression P d m ts u))
     \<and> (\<forall>d m left ts u. compiled_node host left \<longrightarrow> set (node_vars left) \<subseteq> set u \<longrightarrow>
          yields (grown host u left) (pf_Loop P d m left ts u))
     \<and> (\<forall>d ts u. yields (built host u) (pf_Unary P d ts u))
     \<and> (\<forall>d ts u. yields (built host u) (pf_Primary P d ts u))
     \<and> (\<forall>d name pos ts u. yields (built host u) (pf_Call P d name pos ts u))
     \<and> (\<forall>d ts u. yields (built_args host u) (pf_Args P d ts u))"

lemma fns_buildD:
  assumes "fns_build host P"
  shows "yields (built host u) (pf_Expression P d m ts u)"
    "compiled_node host left \<Longrightarrow> set (node_vars left) \<subseteq> set u \<Longrightarrow>
      yields (grown host u left) (pf_Loop P d m left ts u)"
    "yields (built host u) (pf_Unary P d ts u)" "yields (built host u) (pf_Primary P d ts u)"
    "yields (built host u) (pf_Call P d name pos ts u)" "yields (built_args host u) (pf_Args P d ts u)"
  using assms unfolding fns_build_def by simp_all

lemma yields_weaken: "yields Q res \<Longrightarrow> (\<And>r. Q r \<Longrightarrow> R r) \<Longrightarrow> yields R res"
  by (auto simp: yields_def)

lemma build_Expression:
  assumes "fns_build host P"
  shows "yields (built host u) (parseExpression P d m ts u)"
proof -
  have "yields (built host u) (pf_Loop P d' m left ts' u')" if "built host u (left, ts', u')" for d' left ts' u'
    by (rule yields_weaken [OF fns_buildD(2) [OF assms]]) (use that in \<open>auto simp: built_def grown_def\<close>)
  then show ?thesis
    unfolding parseExpression_def by (auto intro!: yields_bind [OF fns_buildD(3) [OF assms]])
qed

lemma build_Loop:
  assumes "fns_build host P" "compiled_node host left" "set (node_vars left) \<subseteq> set u"
  shows "yields (grown host u left) (parseLoop P d m left ts u)"
proof -
  note expr = fns_buildD(1) [OF assms(1)]
  have loop: "yields (grown host u left) (pf_Loop P d k n ts' u')"
    if "compiled_node host n" "set (node_vars n) \<subseteq> set u'" "set u' = set u \<union> set (node_vars n)"
      "set (node_vars left) \<subseteq> set (node_vars n)" for k n ts' u'
    by (rule yields_weaken [OF fns_buildD(2) [OF assms(1) that(1,2)]])
      (use that in \<open>auto simp: built_def grown_def\<close>)
  have stop: "grown host u left (left, ts, u)"
    using assms(2,3) by (auto simp: built_def grown_def)
  show ?thesis
    unfolding parseLoop_def
    using assms(2,3) stop
    by (auto split: token_shape.split option.split simp: built_def
        intro!: yields_bind [OF expr] yields_expect loop)
qed

lemma build_Unary:
  assumes "fns_build host P"
  shows "yields (built host u) (parseUnary P d ts u)"
  unfolding parseUnary_def
  by (auto split: token_shape.split simp: fns_buildD(4) [OF assms]
      intro!: yields_bind [OF fns_buildD(3) [OF assms]]) (auto simp: built_def)

lemma build_Primary:
  assumes "fns_build host P"
  shows "yields (built host u) (parsePrimary P d ts u)"
proof -
  have var: "yields (built host u) (variable_node name pos ts' u)" for name pos ts'
    by (simp add: variable_node_def Let_def built_def)
  have call: "yields (built host u) (pf_Call P d name pos ts' u)" for name pos ts'
    by (rule fns_buildD(5) [OF assms])
  show ?thesis
    unfolding parsePrimary_def
    by (auto split: token_shape.split option.split simp: var call
        intro!: yields_bind [OF fns_buildD(1) [OF assms]] yields_expect) (auto simp: built_def)
qed

lemma build_Call:
  assumes "fns_build host P"
  shows "yields (built host u) (parseCall host P d name pos ts u)"
proof (cases "map_of expr_functions name")
  case (Some spec)
  have args: "yields (built_args host u) (case acceptOperator '')'' ts of Some ts' \<Rightarrow> preturn ([], ts', u)
      | None \<Rightarrow> pf_Args P d ts u)"
    using fns_buildD(6) [OF assms] by (simp add: built_args_def split: option.split)
  show ?thesis
    unfolding parseCall_def Some option.simps
    by (rule yields_bind [OF args]) (auto simp: built_def built_args_def Some split: option.split)
qed (simp add: parseCall_def)

lemma build_Args:
  assumes "fns_build host P"
  shows "yields (built_args host u) (parseArgs P d ts u)"
  unfolding parseArgs_def
  by (auto split: option.split intro!: yields_bind [OF fns_buildD(1) [OF assms]] yields_expect
      yields_bind [OF fns_buildD(6) [OF assms]] simp: built_def built_args_def)

lemma parsers_build: "fns_build host (parsers host fuel)"
proof (induction fuel)
  case 0
  show ?case
    by (simp add: fns_build_def)
next
  case (Suc fuel)
  show ?case
    unfolding fns_build_def
    using build_Expression [OF Suc] build_Loop [OF Suc] build_Unary [OF Suc] build_Primary [OF Suc]
      build_Call [OF Suc] build_Args [OF Suc]
    by (simp add: Let_def)
qed

lemma compile_body_builds:
  assumes "compile_body fo host source = preturn prog"
  shows "compiled_node host (pr_root prog)" "set (pr_uses prog) = set (node_vars (pr_root prog))"
proof -
  from assms obtain tokens root ts uses where
    parsed: "pf_Expression (parsers host (parse_fuel tokens)) 0 0 tokens [] = preturn (root, ts, uses)"
    and prog: "prog = \<lparr>pr_source = source, pr_root = root, pr_uses = uses\<rparr>"
    by (auto simp: compile_body_def Let_def pbind_return split: sum.splits if_splits)
  have "built host [] (root, ts, uses)"
    using fns_buildD(1) [OF parsers_build, of host "[]"] parsed unfolding yields_def by blast
  then show "compiled_node host (pr_root prog)" "set (pr_uses prog) = set (node_vars (pr_root prog))"
    by (simp_all add: prog built_def)
qed

section \<open>Compiled programs do not panic\<close>

definition internal_error :: "expr_error \<Rightarrow> bool" where
  "internal_error e \<longleftrightarrow> e = EPanic \<or> (\<exists>f. e = EFunction f) \<or> (\<exists>operator. e = EOperator operator)
     \<or> (\<exists>zone. e = EZone zone)"

definition sane :: "expr_error + 'a \<Rightarrow> bool" where
  "sane res = (case res of Inl e \<Rightarrow> \<not> internal_error e | Inr v \<Rightarrow> True)"

lemma sane_simps [simp]: "sane (Inl e) \<longleftrightarrow> \<not> internal_error e" "sane (Inr v)"
  by (simp_all add: sane_def)

lemma internal_error_simps [simp]:
  "internal_error EPanic" "internal_error (EFunction f)" "internal_error (EOperator operator)"
  "internal_error (EZone zone)" "\<not> internal_error (ENot t)" "\<not> internal_error (ENegate t)"
  "\<not> internal_error (ELogic operator t)" "\<not> internal_error (ECompare operator t t')"
  "\<not> internal_error (EArith operator t t')" "\<not> internal_error EDivisionByZero"
  "\<not> internal_error (ECondition t)" "\<not> internal_error (EArgument f t)" "\<not> internal_error (EStrings f)"
  by (simp_all add: internal_error_def)

lemma eval_unary_sane [simp]: "sane (eval_unary fo operator v)"
  by (cases v) (simp_all add: eval_unary_def)

lemma eval_binary_sane:
  "map_of binaryPrecedence operator \<noteq> None \<Longrightarrow> operator \<noteq> ''&&'' \<Longrightarrow> operator \<noteq> ''||'' \<Longrightarrow>
   sane (eval_binary fo operator l r)"
  by (cases l; cases r) (auto simp: eval_binary_def binaryPrecedence_def split: if_splits)

lemma min_max_sane [simp]: "sane (min_max_loop fo name vs i result)"
  by (induction vs arbitrary: i result) (auto split: expr_value.split)

lemma eval_clock_sane:
  "vs = [] \<or> (\<exists>zone. vs = [StrV zone] \<and> host_zone host zone \<noteq> None) \<Longrightarrow> sane (eval_clock fo host env name vs)"
  by (auto simp: eval_clock_def Let_def)

lemma expr_function_cases:
  assumes "map_of expr_functions name = Some (lo, hi)"
  obtains
    (clock) "List.member clockFunctions name" "lo = 0" "hi = 1"
  | (min_max) "name = ''min'' \<or> name = ''max''"
  | (number) "List.member [''abs'', ''ceil'', ''floor'', ''round'', ''usd'', ''fixed''] name" "lo = 1"
  | (tier) "name = ''tier''" "lo = 2"
  | (search) "name = ''contains'' \<or> name = ''has''" "lo = 2"
  | (lookup) "name = ''u'' \<or> name = ''s'' \<or> name = ''param''" "lo = 1"
  using assms by (simp add: expr_functions_def clockFunctions_def split: if_splits)

lemma clock_arity: "map_of expr_functions name = Some (lo, hi) \<Longrightarrow> List.member clockFunctions name \<Longrightarrow> hi = 1"
  by (simp add: clockFunctions_def, elim disjE; simp add: expr_functions_def)

lemma length_1: "1 \<le> length vs \<Longrightarrow> \<exists>v ws. vs = v # ws"
  by (cases vs) auto

lemma length_2: "2 \<le> length vs \<Longrightarrow> \<exists>v w ws. vs = v # w # ws"
  by (cases vs; cases "tl vs") auto

lemma eval_call_sane:
  assumes "map_of expr_functions name = Some (lo, hi)" "lo \<le> length vs" "length vs \<le> hi"
    and "List.member clockFunctions name \<Longrightarrow> vs = [] \<or> (\<exists>zone. vs = [StrV zone] \<and> host_zone host zone \<noteq> None)"
  shows "sane (fst (eval_call fo host env name vs tier))"
  using assms(1)
proof (cases rule: expr_function_cases)
  case clock
  then show ?thesis
    using eval_clock_sane assms(4) by (simp add: eval_call_clock)
next
  case min_max
  then show ?thesis
    by (simp add: eval_call_min_max)
next
  case number
  with assms(2) obtain v ws where "vs = v # ws"
    using length_1 [of vs] by auto
  with number(1) show ?thesis
    by (simp, elim disjE; cases v; simp add: eval_call_def clockFunctions_def)
next
  case tier
  with assms(2) obtain v w ws where "vs = v # w # ws"
    using length_2 [of vs] by auto
  with tier show ?thesis
    by (cases v; cases w) (auto simp: eval_call_def clockFunctions_def)
next
  case search
  with assms(2) obtain v w ws where "vs = v # w # ws"
    using length_2 [of vs] by auto
  with search show ?thesis
    by (cases v; cases w) (auto simp: eval_call_def clockFunctions_def)
next
  case lookup
  with assms(2) obtain v ws where "vs = v # ws"
    using length_1 [of vs] by auto
  with lookup(1) show ?thesis
    by (elim disjE; cases v; simp add: eval_call_def clockFunctions_def)
qed

lemma eval_args_length: "fst (eval_args fo host env args tier) = Inr vs \<Longrightarrow> length vs = length args"
proof (induction args arbitrary: tier vs)
  case (Cons a args)
  obtain r t where 1: "eval fo host env a tier = (r, t)"
    by force
  obtain rs t' where 2: "eval_args fo host env args t = (rs, t')"
    by force
  show ?case
    using Cons.prems Cons.IH [of t] 1 2 by (cases r; cases rs) auto
qed simp

lemma check_call_zone:
  assumes "check_call host name (lo, hi) args = None" "List.member clockFunctions name" "length args = 1"
  obtains zone where "args = [LiteralNode (StrV zone)]" "host_zone host zone \<noteq> None"
  using assms by (cases args) (auto simp: check_call_def split: node.splits expr_value.splits if_splits)

lemma eval_sane:
  "compiled_node host n \<Longrightarrow> sane (fst (eval fo host env n tier))"
  "list_all (compiled_node host) ns \<Longrightarrow> sane (fst (eval_args fo host env ns tier))"
proof (induction fo host env n tier and fo host env ns tier rule: eval_eval_args.induct)
  case (3 fo host env operator operand tier)
  then show ?case
    by (auto split: prod.splits sum.splits)
next
  case (4 fo host env operator left right tier)
  obtain r t where left: "eval fo host env left tier = (r, t)"
    by force
  obtain r' t' where right: "eval fo host env right t = (r', t')"
    by force
  have first: "sane r"
    using 4 left by simp
  show ?case
  proof (cases r)
    case (Inr v)
    have second: "operator = ''&&'' \<or> operator = ''||'' \<Longrightarrow> v = BoolV b \<Longrightarrow>
        \<not> ((operator = ''&&'' \<and> \<not> b) \<or> (operator = ''||'' \<and> b)) \<Longrightarrow> sane r'"
      "\<not> (operator = ''&&'' \<or> operator = ''||'') \<Longrightarrow> sane r'" for b
      using "4.IH"(2,3) [OF left [symmetric] Inr] "4.prems" right by simp_all
    show ?thesis
    proof (cases "operator = ''&&'' \<or> operator = ''||''")
      case True
      show ?thesis
        using True left right Inr second(1)
        by (cases v; cases r'; cases "projr r'") (auto split: if_splits)
    next
      case False
      then show ?thesis
        using left right Inr second(2) eval_binary_sane [of operator fo] "4.prems" by (cases r') auto
    qed
  qed (use left first in simp)
next
  case (5 fo host env cond whenTrue whenFalse tier)
  then show ?case
    by (auto split: prod.splits sum.splits expr_value.splits)
next
  case (6 fo host env name args tier)
  obtain lo hi where spec: "map_of expr_functions name = Some (lo, hi)" "check_call host name (lo, hi) args = None"
    using "6.prems" by auto
  obtain res tier' where args: "eval_args fo host env args tier = (res, tier')"
    by force
  show ?case
  proof (cases res)
    case (Inl e)
    then show ?thesis
      using 6 args by simp
  next
    case (Inr vs)
    have len: "length vs = length args"
      using eval_args_length [of fo host env args tier vs] args Inr by simp
    have bounds: "lo \<le> length vs" "length vs \<le> hi"
      using spec(2) len by (auto simp: check_call_def split: if_splits)
    have "vs = [] \<or> (\<exists>zone. vs = [StrV zone] \<and> host_zone host zone \<noteq> None)"
      if clock: "List.member clockFunctions name"
    proof (cases "args = []")
      case False
      moreover have "hi = 1"
        by (rule clock_arity [OF spec(1) clock])
      ultimately have "length args = 1"
        using bounds len by (cases args) auto
      then obtain zone where "args = [LiteralNode (StrV zone)]" "host_zone host zone \<noteq> None"
        by (rule check_call_zone [OF spec(2) clock])
      with args Inr show ?thesis
        by auto
    qed (use len in simp)
    from eval_call_sane [OF spec(1) bounds this] show ?thesis
      using args Inr by simp
  qed
next
  case (8 fo host env arg args tier)
  then show ?case
    by (auto split: prod.splits sum.splits)
qed auto

section \<open>An amount depends on the referenced variables only\<close>

text \<open>
  Two environments that differ only in variables outside \<open>names\<close>.  The function \<open>fixed\<close> reads the
  request count without it being a reference.
\<close>

definition same_for :: "'f float_ops \<Rightarrow> (string \<Rightarrow> bool) \<Rightarrow> 'f expr_env \<Rightarrow> 'f expr_env \<Rightarrow> bool" where
  "same_for fo names env env' \<longleftrightarrow>
     (\<forall>name. names name \<longrightarrow>
        gomap_get (fint fo 0) (env_Numbers env) name = gomap_get (fint fo 0) (env_Numbers env') name
        \<and> gomap_get [] (env_Strings env) name = gomap_get [] (env_Strings env') name)
     \<and> gomap_get (fint fo 1) (env_Numbers env) ''req'' = gomap_get (fint fo 1) (env_Numbers env') ''req''
     \<and> env_LookupNumber env = env_LookupNumber env' \<and> env_LookupString env = env_LookupString env'
     \<and> env_Now env = env_Now env' \<and> env_MatchedTier env = env_MatchedTier env'"

lemma eval_trees_induct [case_names literal variable unary binary ternary call empty arg]:
  assumes "\<And>v. P (LiteralNode v)" "\<And>name number. P (VariableNode name number)"
    "\<And>operator operand. P operand \<Longrightarrow> P (UnaryNode operator operand)"
    "\<And>operator left right. P left \<Longrightarrow> P right \<Longrightarrow> P (BinaryNode operator left right)"
    "\<And>cond whenTrue whenFalse. P cond \<Longrightarrow> P whenTrue \<Longrightarrow> P whenFalse \<Longrightarrow> P (TernaryNode cond whenTrue whenFalse)"
    "\<And>name args. Q args \<Longrightarrow> P (CallNode name args)"
    "Q []" "\<And>arg args. P arg \<Longrightarrow> Q args \<Longrightarrow> Q (arg # args)"
  shows "P n" "Q ns"
proof -
  have list: "Q ns" if "\<forall>n \<in> set ns. P n" for ns
    using that by (induction ns) (auto intro: assms(7,8))
  show "P n" for n
    by (induction n) (auto intro: assms(1-6) list)
  then show "Q ns"
    by (intro list) simp
qed

lemma eval_call_same:
  assumes "same_for fo names env env'"
  shows "eval_call fo host env = eval_call fo host env'"
proof -
  from assms have same: "gomap_get (fint fo 1) (env_Numbers env) ''req'' = gomap_get (fint fo 1) (env_Numbers env') ''req''"
    "env_LookupNumber env = env_LookupNumber env'" "env_LookupString env = env_LookupString env'"
    "env_Now env = env_Now env'"
    by (simp_all add: same_for_def)
  show ?thesis
    by (intro ext) (unfold eval_call_def eval_clock_def same, rule refl)
qed

lemma eval_same:
  assumes same: "same_for fo names env env'"
  shows "\<forall>v \<in> set (node_vars n). names v \<Longrightarrow> eval fo host env n = eval fo host env' n"
    "\<forall>n \<in> set ns. \<forall>v \<in> set (node_vars n). names v \<Longrightarrow> eval_args fo host env ns = eval_args fo host env' ns"
proof (induction n and ns rule: eval_trees_induct)
  case (variable name number)
  then show ?case
    using same by (intro ext) (simp add: same_for_def)
next
  case (call name args)
  then have args: "eval_args fo host env args = eval_args fo host env' args"
    by simp
  show ?case
    by (intro ext) (simp only: eval.simps args eval_call_same [OF same])
next
  case (unary operator operand)
  then have "eval fo host env operand = eval fo host env' operand"
    by simp
  then show ?case
    by (intro ext) (simp only: eval.simps)
next
  case (binary operator left right)
  then have "eval fo host env left = eval fo host env' left" "eval fo host env right = eval fo host env' right"
    by simp_all
  then show ?case
    by (intro ext) (simp only: eval.simps)
next
  case (ternary cond whenTrue whenFalse)
  then have "eval fo host env cond = eval fo host env' cond"
    "eval fo host env whenTrue = eval fo host env' whenTrue" "eval fo host env whenFalse = eval fo host env' whenFalse"
    by simp_all
  then show ?case
    by (intro ext) (simp only: eval.simps)
next
  case (arg arg args)
  then have "eval fo host env arg = eval fo host env' arg" "eval_args fo host env args = eval_args fo host env' args"
    by simp_all
  then show ?case
    by (intro ext) (simp only: eval_args.simps)
qed (intro ext; simp)+

section \<open>The cache of programs\<close>

definition cache_sound :: "'f float_ops \<Rightarrow> expr_host \<Rightarrow> (string, 'f program) gomap \<Rightarrow> bool" where
  "cache_sound fo host programCache \<longleftrightarrow>
     (\<forall>source program. map_of programCache source = Some program \<longrightarrow> compile_body fo host source = preturn program)"

lemma Compile_sound:
  assumes "cache_sound fo host programCache"
  shows "snd (Compile fo host programCache source) = compile_body fo host (trim_space source)
    \<and> cache_sound fo host (fst (Compile fo host programCache source))"
proof (cases "map_of programCache (trim_space source)")
  case (Some program)
  with assms show ?thesis
    by (simp add: Compile_def Let_def cache_sound_def)
next
  case None
  show ?thesis
  proof (cases "\<exists>program. compile_body fo host (trim_space source) = preturn program")
    case True
    with assms None show ?thesis
      by (auto simp: Compile_def Let_def cache_sound_def update_conv split: if_split_asm)
  next
    case False
    with assms None show ?thesis
      by (auto simp: Compile_def Let_def split: option.split sum.split)
  qed
qed

section \<open>Properties\<close>

text \<open>
  C33. Compiling ends on every source text: the recursion of the parser never uses up its fuel, so
  every source gives a program or one of the errors, and so does a validation, whatever the cache.
\<close>

theorem compile_total:
  "snd (Compile fo host programCache source) \<noteq> None \<and> Validate fo host programCache source \<noteq> None"
proof -
  have "snd (Compile fo host programCache source) \<noteq> None"
    using compile_body_ends [of fo host "trim_space source"]
    by (auto simp: Compile_def Let_def ended_def split: option.split sum.split)
  then show ?thesis
    by (auto simp: Validate_def split: option.split sum.split)
qed

text \<open>
  The cache of programs is transparent: starting from the empty cache, or any cache that holds
  only what compiling gives, \<open>Compile\<close> answers as if there were no cache, and keeps the cache so.
\<close>

theorem compile_cache_transparent:
  assumes "cache_sound fo host programCache"
  shows "snd (Compile fo host programCache source) = compile_body fo host (trim_space source)
    \<and> cache_sound fo host (fst (Compile fo host programCache source)) \<and> cache_sound fo host []"
  using Compile_sound [OF assms] by (simp add: cache_sound_def)

definition sample_host :: expr_host where
  "sample_host = \<lparr>host_zone = \<lambda>zone. if zone = ''UTC'' then Some (\<lambda>_. 0) else None, host_now = 1\<rparr>"

theorem compile_cache_transparent_witness:
  "snd (Compile exact_ops sample_host [] '' p*3 '') = compile_body exact_ops sample_host (trim_space '' p*3 '')"
  using compile_cache_transparent [of exact_ops sample_host "[]" "'' p*3 ''"] by (simp add: cache_sound_def)

end
