(* ===== verification/Billing_Roundtrip.thy ===== *)
theory Billing_Roundtrip
  imports Billing_Parser
begin

section \<open>Reading what was written\<close>

text \<open>
  A tree written out with the fewest parentheses the precedences allow.  At level 0 anything may stand
  bare; at level \<open>q > 0\<close> a binary operator of precedence at least \<open>q\<close>; above the highest precedence only
  prefix operators and atoms.
\<close>

definition precedence_of :: "string \<Rightarrow> nat" where
  "precedence_of operator = gomap_get 0 binaryPrecedence operator"

definition write_wrapped :: "'f token_shape list \<Rightarrow> 'f token_shape list" where
  "write_wrapped ss = TOperator ''('' # ss @ [TOperator '')'']"

fun join_args :: "'f token_shape list list \<Rightarrow> 'f token_shape list" where
  "join_args [] = []"
| "join_args [ss] = ss"
| "join_args (ss # sss) = ss @ TOperator '','' # join_args sss"

definition write_value :: "('f \<Rightarrow> string) \<Rightarrow> 'f expr_value \<Rightarrow> 'f token_shape list" where
  "write_value num_text v =
     (case v of
        NumV x \<Rightarrow> [TNumber (num_text x) x]
      | StrV s \<Rightarrow> [TString s]
      | BoolV b \<Rightarrow> [TIdent (if b then ''true'' else ''false'')])"

fun write_node :: "('f \<Rightarrow> string) \<Rightarrow> nat \<Rightarrow> 'f node \<Rightarrow> 'f token_shape list" where
  "write_node nt lv (LiteralNode v) = write_value nt v"
| "write_node nt lv (VariableNode name number) = [TIdent name]"
| "write_node nt lv (UnaryNode operator operand) = TOperator operator # write_node nt 7 operand"
| "write_node nt lv (BinaryNode operator left right) =
     (let q = precedence_of operator;
          body = write_node nt q left @ TOperator operator # write_node nt (Suc q) right
      in if lv \<le> q then body else write_wrapped body)"
| "write_node nt lv (TernaryNode cond whenTrue whenFalse) =
     (let body = write_node nt 1 cond @ TOperator ''?'' # write_node nt 0 whenTrue
            @ TOperator '':'' # write_node nt 0 whenFalse
      in if lv = 0 then body else write_wrapped body)"
| "write_node nt lv (CallNode name args) =
     TIdent name # write_wrapped (join_args (map (write_node nt 0) args))"

fun node_height :: "'f node \<Rightarrow> nat" where
  "node_height (LiteralNode v) = 1"
| "node_height (VariableNode name number) = 1"
| "node_height (UnaryNode operator operand) = Suc (node_height operand)"
| "node_height (BinaryNode operator left right) = Suc (max (node_height left) (node_height right))"
| "node_height (TernaryNode cond whenTrue whenFalse) =
     Suc (max (node_height cond) (max (node_height whenTrue) (node_height whenFalse)))"
| "node_height (CallNode name args) = Suc (foldr max (map node_height args) 0)"

subsection \<open>More fuel gives the same result\<close>

definition below :: "'a parsing \<Rightarrow> 'a parsing \<Rightarrow> bool" where
  "below x y \<longleftrightarrow> x = None \<or> x = y"

lemma below_simps [simp]: "below None y" "below x x"
  by (simp_all add: below_def)

lemma below_bind: "below x y \<Longrightarrow> (\<And>a. below (f a) (g a)) \<Longrightarrow> below (pbind x f) (pbind y g)"
  by (auto simp: below_def pbind_def split: option.split sum.split)

definition extends :: "'f parser_fns \<Rightarrow> 'f parser_fns \<Rightarrow> bool" where
  "extends P Q \<longleftrightarrow>
     (\<forall>d m ts u. below (pf_Expression P d m ts u) (pf_Expression Q d m ts u))
     \<and> (\<forall>d m left ts u. below (pf_Loop P d m left ts u) (pf_Loop Q d m left ts u))
     \<and> (\<forall>d ts u. below (pf_Unary P d ts u) (pf_Unary Q d ts u))
     \<and> (\<forall>d ts u. below (pf_Primary P d ts u) (pf_Primary Q d ts u))
     \<and> (\<forall>d name pos ts u. below (pf_Call P d name pos ts u) (pf_Call Q d name pos ts u))
     \<and> (\<forall>d ts u. below (pf_Args P d ts u) (pf_Args Q d ts u))"

lemma extendsD:
  assumes "extends P Q"
  shows "below (pf_Expression P d m ts u) (pf_Expression Q d m ts u)"
    "below (pf_Loop P d m left ts u) (pf_Loop Q d m left ts u)"
    "below (pf_Unary P d ts u) (pf_Unary Q d ts u)" "below (pf_Primary P d ts u) (pf_Primary Q d ts u)"
    "below (pf_Call P d name pos ts u) (pf_Call Q d name pos ts u)"
    "below (pf_Args P d ts u) (pf_Args Q d ts u)"
  using assms by (simp_all add: extends_def)

lemma extends_step:
  assumes "extends P Q"
  shows "below (parseExpression P d m ts u) (parseExpression Q d m ts u)"
    "below (parseLoop P d m left ts u) (parseLoop Q d m left ts u)"
    "below (parseUnary P d ts u) (parseUnary Q d ts u)" "below (parsePrimary P d ts u) (parsePrimary Q d ts u)"
    "below (parseCall host P d name pos ts u) (parseCall host Q d name pos ts u)"
    "below (parseArgs P d ts u) (parseArgs Q d ts u)"
  unfolding parseExpression_def parseLoop_def parseUnary_def parsePrimary_def parseCall_def parseArgs_def
  by (auto split: token_shape.split option.split intro!: below_bind extendsD [OF assms])

lemma parsers_extend: "extends (parsers host fuel) (parsers host (Suc fuel))"
proof (induction fuel)
  case 0
  show ?case
    by (simp add: extends_def)
next
  case (Suc fuel)
  show ?case
    unfolding extends_def using extends_step [OF Suc] by (simp only: parsers.simps Let_def parser_fns.simps) simp
qed

lemma below_trans: "below x y \<Longrightarrow> below y z \<Longrightarrow> below x z"
  by (auto simp: below_def)

lemma extends_trans:
  assumes "extends P Q" "extends Q R"
  shows "extends P R"
  unfolding extends_def
  by (intro conjI allI; rule below_trans, rule extendsD [OF assms(1)], rule extendsD [OF assms(2)])

lemma parsers_mono: "fuel \<le> fuel' \<Longrightarrow> extends (parsers host fuel) (parsers host fuel')"
proof (induction fuel' rule: dec_induct)
  case base
  show ?case
    by (simp add: extends_def)
next
  case (step n)
  show ?case
    by (rule extends_trans [OF step.IH parsers_extend])
qed

subsection \<open>What the parser gives, for some fuel\<close>

definition gives_Expression :: "expr_host \<Rightarrow> nat \<Rightarrow> nat \<Rightarrow> 'f token list \<Rightarrow> string list
    \<Rightarrow> 'f node \<times> 'f token list \<times> string list \<Rightarrow> bool" where
  "gives_Expression host d m ts u r \<longleftrightarrow> (\<exists>fuel. pf_Expression (parsers host fuel) d m ts u = preturn r)"

definition gives_Loop :: "expr_host \<Rightarrow> nat \<Rightarrow> nat \<Rightarrow> 'f node \<Rightarrow> 'f token list \<Rightarrow> string list
    \<Rightarrow> 'f node \<times> 'f token list \<times> string list \<Rightarrow> bool" where
  "gives_Loop host d m left ts u r \<longleftrightarrow> (\<exists>fuel. pf_Loop (parsers host fuel) d m left ts u = preturn r)"

definition gives_Unary :: "expr_host \<Rightarrow> nat \<Rightarrow> 'f token list \<Rightarrow> string list
    \<Rightarrow> 'f node \<times> 'f token list \<times> string list \<Rightarrow> bool" where
  "gives_Unary host d ts u r \<longleftrightarrow> (\<exists>fuel. pf_Unary (parsers host fuel) d ts u = preturn r)"

definition gives_Primary :: "expr_host \<Rightarrow> nat \<Rightarrow> 'f token list \<Rightarrow> string list
    \<Rightarrow> 'f node \<times> 'f token list \<times> string list \<Rightarrow> bool" where
  "gives_Primary host d ts u r \<longleftrightarrow> (\<exists>fuel. pf_Primary (parsers host fuel) d ts u = preturn r)"

definition gives_Args :: "expr_host \<Rightarrow> nat \<Rightarrow> 'f token list \<Rightarrow> string list
    \<Rightarrow> 'f node list \<times> 'f token list \<times> string list \<Rightarrow> bool" where
  "gives_Args host d ts u r \<longleftrightarrow> (\<exists>fuel. pf_Args (parsers host fuel) d ts u = preturn r)"

text \<open>Two results hold with a common fuel.\<close>

lemma below_return: "below x y \<Longrightarrow> x = preturn r \<Longrightarrow> y = preturn r"
  by (auto simp: below_def)

lemma more_Expression:
  "fuel \<le> fuel' \<Longrightarrow> pf_Expression (parsers host fuel) d m ts u = preturn r \<Longrightarrow>
   pf_Expression (parsers host fuel') d m ts u = preturn r"
  by (rule below_return [OF extendsD(1) [OF parsers_mono]])

lemma more_Loop:
  "fuel \<le> fuel' \<Longrightarrow> pf_Loop (parsers host fuel) d m left ts u = preturn r \<Longrightarrow>
   pf_Loop (parsers host fuel') d m left ts u = preturn r"
  by (rule below_return [OF extendsD(2) [OF parsers_mono]])

lemma more_Unary:
  "fuel \<le> fuel' \<Longrightarrow> pf_Unary (parsers host fuel) d ts u = preturn r \<Longrightarrow>
   pf_Unary (parsers host fuel') d ts u = preturn r"
  by (rule below_return [OF extendsD(3) [OF parsers_mono]])

lemma more_Args:
  "fuel \<le> fuel' \<Longrightarrow> pf_Args (parsers host fuel) d ts u = preturn r \<Longrightarrow>
   pf_Args (parsers host fuel') d ts u = preturn r"
  by (rule below_return [OF extendsD(6) [OF parsers_mono]])

lemma parsers_Suc [simp]:
  "pf_Expression (parsers host (Suc fuel)) = parseExpression (parsers host fuel)"
  "pf_Loop (parsers host (Suc fuel)) = parseLoop (parsers host fuel)"
  "pf_Unary (parsers host (Suc fuel)) = parseUnary (parsers host fuel)"
  "pf_Primary (parsers host (Suc fuel)) = parsePrimary (parsers host fuel)"
  "pf_Call (parsers host (Suc fuel)) = parseCall host (parsers host fuel)"
  "pf_Args (parsers host (Suc fuel)) = parseArgs (parsers host fuel)"
  by (simp_all add: Let_def)

declare parsers.simps(2) [simp del]

text \<open>The rules by which the parser gives a result.\<close>

lemma give_Expression:
  assumes "d < maxDepth" "gives_Unary host (d + 1) ts u (left, ts', u')" "gives_Loop host (d + 1) m left ts' u' r"
  shows "gives_Expression host d m ts u r"
proof -
  from assms(2,3) obtain f g where 1: "pf_Unary (parsers host f) (d + 1) ts u = preturn (left, ts', u')"
    and 2: "pf_Loop (parsers host g) (d + 1) m left ts' u' = preturn r"
    by (auto simp: gives_Unary_def gives_Loop_def)
  have "pf_Expression (parsers host (Suc (max f g))) d m ts u = preturn r"
    using assms(1) more_Unary [OF max.cobounded1 1] more_Loop [OF max.cobounded2 2]
    by (simp add: parseExpression_def)
  then show ?thesis
    unfolding gives_Expression_def by blast
qed

lemma give_stop:
  assumes "\<And>operator. fst (peek ts) = TOperator operator \<Longrightarrow>
      precedence_of operator \<le> m \<and> (m = 0 \<longrightarrow> operator \<noteq> ''?'')"
  shows "gives_Loop host d m left ts u (left, ts, u)"
proof -
  have "pf_Loop (parsers host (Suc 0)) d m left ts u = preturn (left, ts, u)"
    using assms
    by (auto simp: parseLoop_def precedence_of_def gomap_get_def split: token_shape.splits option.splits)
  then show ?thesis
    unfolding gives_Loop_def by blast
qed

lemma give_binary:
  assumes "m < precedence_of operator"
    and "gives_Expression host d (precedence_of operator) ts u (right, ts1, u1)"
    and "gives_Loop host d m (BinaryNode operator left right) ts1 u1 r"
  shows "gives_Loop host d m left ((TOperator operator, pos) # ts) u r"
proof -
  from assms(2,3) obtain f g where
    1: "pf_Expression (parsers host f) d (precedence_of operator) ts u = preturn (right, ts1, u1)" and
    2: "pf_Loop (parsers host g) d m (BinaryNode operator left right) ts1 u1 = preturn r"
    by (auto simp: gives_Expression_def gives_Loop_def)
  have "map_of binaryPrecedence operator = Some (precedence_of operator)" "operator \<noteq> ''?''"
    using assms(1) by (auto simp: precedence_of_def gomap_get_def binaryPrecedence_def split: if_splits)
  then have "pf_Loop (parsers host (Suc (max f g))) d m left ((TOperator operator, pos) # ts) u = preturn r"
    using assms(1) more_Expression [OF max.cobounded1 1] more_Loop [OF max.cobounded2 2]
    by (simp add: parseLoop_def advance_def)
  then show ?thesis
    unfolding gives_Loop_def by blast
qed

lemma expect_this [simp]: "expectOperator operator ((TOperator operator, pos) # ts) = preturn ts"
  by (simp add: expectOperator_def acceptOperator_def)

lemma give_ternary:
  assumes "gives_Expression host d 0 ts u (whenTrue, (TOperator '':'', pos') # ts2, u1)"
    and "gives_Expression host d 0 ts2 u1 (whenFalse, ts3, u3)"
    and "gives_Loop host d 0 (TernaryNode left whenTrue whenFalse) ts3 u3 r"
  shows "gives_Loop host d 0 left ((TOperator ''?'', pos) # ts) u r"
proof -
  from assms obtain f g h where
    1: "pf_Expression (parsers host f) d 0 ts u = preturn (whenTrue, (TOperator '':'', pos') # ts2, u1)" and
    2: "pf_Expression (parsers host g) d 0 ts2 u1 = preturn (whenFalse, ts3, u3)" and
    3: "pf_Loop (parsers host h) d 0 (TernaryNode left whenTrue whenFalse) ts3 u3 = preturn r"
    by (auto simp: gives_Expression_def gives_Loop_def)
  let ?fuel = "f + g + h"
  have "pf_Expression (parsers host ?fuel) d 0 ts u = preturn (whenTrue, (TOperator '':'', pos') # ts2, u1)"
    "pf_Expression (parsers host ?fuel) d 0 ts2 u1 = preturn (whenFalse, ts3, u3)"
    "pf_Loop (parsers host ?fuel) d 0 (TernaryNode left whenTrue whenFalse) ts3 u3 = preturn r"
    by (rule more_Expression [OF _ 1] more_Expression [OF _ 2] more_Loop [OF _ 3], simp)+
  then have "pf_Loop (parsers host (Suc ?fuel)) d 0 left ((TOperator ''?'', pos) # ts) u = preturn r"
    by (simp add: parseLoop_def advance_def)
  then show ?thesis
    unfolding gives_Loop_def by blast
qed

lemma give_unary:
  assumes "operator = ''-'' \<or> operator = ''!''" "d < maxDepth" "gives_Unary host (d + 1) ts u (operand, ts', u')"
  shows "gives_Unary host d ((TOperator operator, pos) # ts) u (UnaryNode operator operand, ts', u')"
proof -
  from assms(3) obtain f where "pf_Unary (parsers host f) (d + 1) ts u = preturn (operand, ts', u')"
    by (auto simp: gives_Unary_def)
  with assms(1,2) have "pf_Unary (parsers host (Suc f)) d ((TOperator operator, pos) # ts) u
      = preturn (UnaryNode operator operand, ts', u')"
    by (auto simp: parseUnary_def advance_def)
  then show ?thesis
    unfolding gives_Unary_def by blast
qed

text \<open>A primary expression read in fuel \<open>f\<close>.\<close>

lemma give_primary:
  assumes "fst (peek ts) \<noteq> TOperator ''-''" "fst (peek ts) \<noteq> TOperator ''!''"
    and "parsePrimary (parsers host f) d ts u = preturn r"
  shows "gives_Unary host d ts u r"
proof -
  have "pf_Unary (parsers host (Suc (Suc f))) d ts u = preturn r"
    using assms by (auto simp: parseUnary_def split: token_shape.split)
  then show ?thesis
    unfolding gives_Unary_def by blast
qed

lemma give_literal:
  assumes "shape = TNumber s x \<and> v = NumV x \<or> shape = TString s \<and> v = StrV s
      \<or> shape = TIdent (if b then ''true'' else ''false'') \<and> v = BoolV b"
  shows "gives_Unary host d ((shape, pos) # ts) u (LiteralNode v, ts, u)"
  by (rule give_primary [where f = 0]) (use assms in \<open>auto simp: parsePrimary_def advance_def\<close>)

lemma give_paren:
  assumes "gives_Expression host d 0 ts u (inner, (TOperator '')'', pos') # ts', u')"
  shows "gives_Unary host d ((TOperator ''('', pos) # ts) u (inner, ts', u')"
proof -
  from assms obtain f where
    "pf_Expression (parsers host f) d 0 ts u = preturn (inner, (TOperator '')'', pos') # ts', u')"
    by (auto simp: gives_Expression_def)
  then show ?thesis
    by (intro give_primary [where f = f]) (simp_all add: parsePrimary_def advance_def)
qed

lemma give_variable:
  assumes "List.member (if number then numberVars else stringVars) name" "fst (peek ts) \<noteq> TOperator ''(''"
  shows "gives_Unary host d ((TIdent name, pos) # ts) u (VariableNode name number, ts, List.insert name u)"
proof -
  have "canonicalVarName name = name" "name \<noteq> ''true''" "name \<noteq> ''false''"
    "number = List.member numberVars name"
    using assms(1)
    by (auto simp: numberVars_def stringVars_def canonicalVarName_def varAliases_def gomap_get_def split: if_splits)
  with assms have "parsePrimary (parsers host 0) d ((TIdent name, pos) # ts) u
      = preturn (VariableNode name number, ts, List.insert name u)"
    by (cases number)
      (simp_all add: parsePrimary_def advance_def acceptOperator_def variable_node_def Let_def)
  then show ?thesis
    by (intro give_primary [where f = 0]) (simp_all only: peek_simps fst_conv token_shape.distinct simp_thms)
qed

lemma call_name: "map_of expr_functions name = Some spec \<Longrightarrow> name \<noteq> ''true'' \<and> name \<noteq> ''false''"
  by (auto simp: expr_functions_def)

lemma give_call_empty:
  fixes ts :: "'f token list"
  assumes "map_of expr_functions name = Some spec" "check_call host name spec ([] :: 'f node list) = None"
  shows "gives_Unary host d ((TIdent name, pos) # (TOperator ''('', pos') # (TOperator '')'', pos'') # ts) u
     (CallNode name [], ts, u)"
  by (rule give_primary [where f = 1])
    (use assms call_name [OF assms(1)] in \<open>simp_all add: parsePrimary_def parseCall_def advance_def acceptOperator_def\<close>)

lemma give_call:
  assumes "map_of expr_functions name = Some spec" "check_call host name spec args = None"
    and "fst (peek ts) \<noteq> TOperator '')''" "gives_Args host d ts u (args, ts', u')"
  shows "gives_Unary host d ((TIdent name, pos) # (TOperator ''('', pos') # ts) u (CallNode name args, ts', u')"
proof -
  from assms(4) obtain f where "pf_Args (parsers host f) d ts u = preturn (args, ts', u')"
    by (auto simp: gives_Args_def)
  with assms call_name [OF assms(1)] show ?thesis
    by (intro give_primary [where f = "Suc f"])
      (simp_all add: parsePrimary_def parseCall_def advance_def acceptOperator_def)
qed

lemma give_last_arg:
  assumes "gives_Expression host d 0 ts u (arg, (TOperator '')'', pos) # ts', u')"
  shows "gives_Args host d ts u ([arg], ts', u')"
proof -
  from assms obtain f where
    "pf_Expression (parsers host f) d 0 ts u = preturn (arg, (TOperator '')'', pos) # ts', u')"
    by (auto simp: gives_Expression_def)
  then have "pf_Args (parsers host (Suc f)) d ts u = preturn ([arg], ts', u')"
    by (simp add: parseArgs_def acceptOperator_def)
  then show ?thesis
    unfolding gives_Args_def by blast
qed

lemma give_more_args:
  assumes "gives_Expression host d 0 ts u (arg, (TOperator '','', pos) # ts1, u1)"
    and "gives_Args host d ts1 u1 (args, ts', u')"
  shows "gives_Args host d ts u (arg # args, ts', u')"
proof -
  from assms obtain f g where
    1: "pf_Expression (parsers host f) d 0 ts u = preturn (arg, (TOperator '','', pos) # ts1, u1)" and
    2: "pf_Args (parsers host g) d ts1 u1 = preturn (args, ts', u')"
    by (auto simp: gives_Expression_def gives_Args_def)
  have "pf_Args (parsers host (Suc (max f g))) d ts u = preturn (arg # args, ts', u')"
    using more_Expression [OF max.cobounded1 1] more_Args [OF max.cobounded2 2]
    by (simp add: parseArgs_def acceptOperator_def)
  then show ?thesis
    unfolding gives_Args_def by blast
qed

subsection \<open>A written tree is read back\<close>

text \<open>
  What may come after an expression written at a level: no opening parenthesis, and no operator that
  the parser would take into it.
\<close>

definition follow :: "nat \<Rightarrow> 'f token list \<Rightarrow> bool" where
  "follow lv rest \<longleftrightarrow>
     (\<forall>operator. fst (peek rest) = TOperator operator \<longrightarrow>
        operator \<noteq> ''('' \<and> precedence_of operator \<le> lv \<and> (lv = 0 \<longrightarrow> operator \<noteq> ''?''))"

definition admits :: "nat \<Rightarrow> nat \<Rightarrow> bool" where
  "admits m lv \<longleftrightarrow> (lv = 0 \<and> m = 0) \<or> m < lv"

definition uses_after :: "'f node \<Rightarrow> string list \<Rightarrow> string list" where
  "uses_after n u = fold List.insert (node_vars n) u"

definition bare_level :: "'f node \<Rightarrow> nat" where
  "bare_level n = (case n of BinaryNode operator left right \<Rightarrow> precedence_of operator
     | TernaryNode cond whenTrue whenFalse \<Rightarrow> 0 | _ \<Rightarrow> 7)"

definition reads_unary :: "('f \<Rightarrow> string) \<Rightarrow> expr_host \<Rightarrow> 'f node \<Rightarrow> bool" where
  "reads_unary nt host n \<longleftrightarrow>
     (\<forall>d ws rest u. map fst ws = write_node nt 7 n \<longrightarrow> fst (peek rest) \<noteq> TOperator ''('' \<longrightarrow>
        d + 2 * node_height n \<le> 65 \<longrightarrow>
        gives_Unary host d (ws @ rest) u (n, rest, uses_after n u))"

definition reads_bare :: "('f \<Rightarrow> string) \<Rightarrow> expr_host \<Rightarrow> 'f node \<Rightarrow> bool" where
  "reads_bare nt host n \<longleftrightarrow>
     (\<forall>lv d m ws rest u r. map fst ws = write_node nt 0 n \<longrightarrow> lv \<le> bare_level n \<longrightarrow> admits m lv \<longrightarrow>
        follow lv rest \<longrightarrow> d + 2 * node_height n \<le> 65 \<longrightarrow>
        gives_Loop host (d + 1) m n rest (uses_after n u) r \<longrightarrow>
        gives_Expression host d m (ws @ rest) u r)"

definition reads_expr :: "('f \<Rightarrow> string) \<Rightarrow> expr_host \<Rightarrow> 'f node \<Rightarrow> bool" where
  "reads_expr nt host n \<longleftrightarrow>
     (\<forall>lv d m ws rest u r. map fst ws = write_node nt lv n \<longrightarrow> lv \<le> 7 \<longrightarrow> admits m lv \<longrightarrow>
        follow lv rest \<longrightarrow> d + 2 * node_height n \<le> 64 \<longrightarrow>
        gives_Loop host (d + 1) m n rest (uses_after n u) r \<longrightarrow>
        gives_Expression host d m (ws @ rest) u r)"

lemma node_height_pos: "0 < node_height n"
  by (cases n) simp_all

lemma reads_unaryD:
  assumes "reads_unary nt host n" "map fst ws = write_node nt 7 n" "fst (peek rest) \<noteq> TOperator ''(''"
    "d + 2 * node_height n \<le> 65"
  shows "gives_Unary host d (ws @ rest) u (n, rest, uses_after n u)"
  using assms unfolding reads_unary_def by blast

lemma reads_bareD:
  assumes "reads_bare nt host n" "map fst ws = write_node nt 0 n" "lv \<le> bare_level n" "admits m lv"
    "follow lv rest" "d + 2 * node_height n \<le> 65" "gives_Loop host (d + 1) m n rest (uses_after n u) r"
  shows "gives_Expression host d m (ws @ rest) u r"
  using assms unfolding reads_bare_def by blast

lemma reads_exprD:
  assumes "reads_expr nt host n" "map fst ws = write_node nt lv n" "lv \<le> 7" "admits m lv"
    "follow lv rest" "d + 2 * node_height n \<le> 64" "gives_Loop host (d + 1) m n rest (uses_after n u) r"
  shows "gives_Expression host d m (ws @ rest) u r"
  using assms unfolding reads_expr_def by blast

lemma precedence_less [simp]: "precedence_of operator < 7"
  by (simp add: precedence_of_def gomap_get_def binaryPrecedence_def)

lemma precedence_pos: "map_of binaryPrecedence operator \<noteq> None \<Longrightarrow> 0 < precedence_of operator"
  by (auto simp: precedence_of_def gomap_get_def binaryPrecedence_def split: if_splits)

lemma precedence_others [simp]:
  "precedence_of ''?'' = 0" "precedence_of '':'' = 0" "precedence_of '')'' = 0" "precedence_of '','' = 0"
  "precedence_of ''('' = 0"
  by (simp_all add: precedence_of_def gomap_get_def binaryPrecedence_def)

lemma write_levels:
  "bare_level n < 7 \<Longrightarrow> write_node nt lv n
     = (if lv \<le> bare_level n then write_node nt 0 n else write_wrapped (write_node nt 0 n))"
  "\<not> bare_level n < 7 \<Longrightarrow> write_node nt lv n = write_node nt 7 n"
  by (cases n; simp add: bare_level_def Let_def)+

lemma follow_stop:
  "admits m lv \<Longrightarrow> follow lv rest \<Longrightarrow> gives_Loop host d lv n rest u (n, rest, u)"
  by (rule give_stop) (auto simp: follow_def)

lemma tokens_split:
  assumes "map fst ws = ss @ s # ss'"
  obtains left pos right where "ws = left @ (s, pos) # right" "map fst left = ss" "map fst right = ss'"
proof -
  from assms obtain left ws' where "ws = left @ ws'" "map fst left = ss" "map fst ws' = s # ss'"
    by (auto simp: map_eq_append_conv)
  moreover from this(3) obtain t right where "ws' = t # right" "fst t = s" "map fst right = ss'"
    by auto
  ultimately show thesis
    using that [of left "snd t" right] by (cases t) simp
qed

lemma expr_of_unary:
  assumes "reads_unary nt host n" "map fst ws = write_node nt 7 n" "follow lv rest" "d + 2 * node_height n \<le> 64"
    and "gives_Loop host (d + 1) m n rest (uses_after n u) r"
  shows "gives_Expression host d m (ws @ rest) u r"
proof (rule give_Expression)
  show "d < maxDepth"
    using assms(4) node_height_pos [of n] by (simp add: maxDepth_def)
  show "gives_Unary host (d + 1) (ws @ rest) u (n, rest, uses_after n u)"
    using assms(3,4) by (intro reads_unaryD [OF assms(1,2)]) (auto simp: follow_def)
qed (rule assms(5))

lemma unary_of_bare:
  assumes "bare_level n < 7" "reads_bare nt host n"
  shows "reads_unary nt host n"
  unfolding reads_unary_def
proof (intro allI impI)
  fix d and ws rest :: "'a token list" and u
  assume ws: "map fst ws = write_node nt 7 n" and d: "d + 2 * node_height n \<le> 65"
  have "write_node nt 7 n = write_wrapped (write_node nt 0 n)"
    using assms(1) write_levels(1) [of n nt 7] by simp
  with ws obtain pos body pos' where split: "ws = (TOperator ''('', pos) # body @ [(TOperator '')'', pos')]"
    "map fst body = write_node nt 0 n"
    by (auto simp: write_wrapped_def map_eq_Cons_conv elim!: tokens_split)
  have "gives_Expression host d 0 (body @ (TOperator '')'', pos') # rest) u
      (n, (TOperator '')'', pos') # rest, uses_after n u)"
    using split(2) d by (intro reads_bareD [OF assms(2), where lv = 0])
      (auto simp: admits_def follow_def intro!: give_stop)
  then show "gives_Unary host d (ws @ rest) u (n, rest, uses_after n u)"
    unfolding split(1) by (simp add: give_paren)
qed

lemma expr_of_bare:
  assumes "bare_level n < 7" "reads_bare nt host n"
  shows "reads_expr nt host n"
  unfolding reads_expr_def
proof (intro allI impI)
  fix lv d m and ws rest :: "'a token list" and u r
  assume *: "map fst ws = write_node nt lv n" "admits m lv" "follow lv rest"
    "d + 2 * node_height n \<le> 64" "gives_Loop host (d + 1) m n rest (uses_after n u) r"
  show "gives_Expression host d m (ws @ rest) u r"
  proof (cases "lv \<le> bare_level n")
    case True
    with *(1) have "map fst ws = write_node nt 0 n"
      using write_levels(1) [OF assms(1), of nt lv] by simp
    then show ?thesis
      by (rule reads_bareD [OF assms(2) _ True *(2,3) _ *(5)]) (use *(4) in simp)
  next
    case False
    with *(1) assms(1) have "map fst ws = write_node nt 7 n"
      using write_levels(1) [OF assms(1), of nt lv] write_levels(1) [OF assms(1), of nt 7]
      by (simp split: if_split_asm)
    then show ?thesis
      by (rule expr_of_unary [OF unary_of_bare [OF assms] _ *(3-5)])
  qed
qed

lemma expr_of_atom:
  assumes "\<not> bare_level n < 7" "reads_unary nt host n"
  shows "reads_expr nt host n"
  unfolding reads_expr_def
proof (intro allI impI)
  fix lv d m and ws rest :: "'a token list" and u r
  assume *: "map fst ws = write_node nt lv n" "follow lv rest"
    "d + 2 * node_height n \<le> 64" "gives_Loop host (d + 1) m n rest (uses_after n u) r"
  from *(1) have "map fst ws = write_node nt 7 n"
    using write_levels(2) [OF assms(1)] by simp
  then show "gives_Expression host d m (ws @ rest) u r"
    by (rule expr_of_unary [OF assms(2) _ *(2-4)])
qed

subsubsection \<open>The forms of a tree\<close>

lemma read_literal: "reads_unary nt host (LiteralNode v)"
proof -
  have "gives_Unary host d ((shape, pos) # rest) u (LiteralNode v, rest, u)"
    if "write_node nt 7 (LiteralNode v) = [shape]" for d u shape pos and rest :: "'a token list"
    using that by (cases v) (auto simp: write_value_def intro: give_literal)
  then show ?thesis
    by (cases v) (auto simp: reads_unary_def uses_after_def write_value_def map_eq_Cons_conv)
qed

lemma read_variable:
  "compiled_node host (VariableNode name number) \<Longrightarrow> reads_unary nt host (VariableNode name number)"
  unfolding reads_unary_def uses_after_def by (auto simp: map_eq_Cons_conv intro!: give_variable)

lemma read_unary:
  assumes "compiled_node host (UnaryNode operator operand)" "reads_unary nt host operand"
  shows "reads_unary nt host (UnaryNode operator operand)"
  unfolding reads_unary_def
proof (intro allI impI)
  fix d and ws rest :: "'a token list" and u
  assume ws: "map fst ws = write_node nt 7 (UnaryNode operator operand)"
    and rest: "fst (peek rest) \<noteq> TOperator ''(''" and d: "d + 2 * node_height (UnaryNode operator operand) \<le> 65"
  from ws obtain pos body where split: "ws = (TOperator operator, pos) # body"
    "map fst body = write_node nt 7 operand"
    by (auto simp: map_eq_Cons_conv)
  have "gives_Unary host (d + 1) (body @ rest) u (operand, rest, uses_after operand u)"
    using d by (intro reads_unaryD [OF assms(2) split(2) rest]) simp
  then show "gives_Unary host d (ws @ rest) u
      (UnaryNode operator operand, rest, uses_after (UnaryNode operator operand) u)"
    using assms(1) d by (simp add: split(1) give_unary uses_after_def maxDepth_def)
qed

lemma read_binary:
  assumes "compiled_node host (BinaryNode operator left right)" "reads_expr nt host left" "reads_expr nt host right"
  shows "reads_bare nt host (BinaryNode operator left right)" (is "reads_bare nt host ?n")
  unfolding reads_bare_def
proof (intro allI impI)
  let ?q = "precedence_of operator"
  fix lv d m and ws rest :: "'a token list" and u r
  assume ws: "map fst ws = write_node nt 0 ?n" and lv: "lv \<le> bare_level ?n"
    and m: "admits m lv" and rest: "follow lv rest" and d: "d + 2 * node_height ?n \<le> 65"
    and loop: "gives_Loop host (d + 1) m ?n rest (uses_after ?n u) r"
  from ws have "map fst ws = write_node nt ?q left @ TOperator operator # write_node nt (Suc ?q) right"
    by (simp add: Let_def)
  then obtain lhs pos rhs where split: "ws = lhs @ (TOperator operator, pos) # rhs"
    "map fst lhs = write_node nt ?q left" "map fst rhs = write_node nt (Suc ?q) right"
    by (rule tokens_split)
  have q: "0 < ?q" "lv \<le> ?q" "operator \<noteq> ''(''" and mq: "m < ?q"
    using assms(1) precedence_pos [of operator] lv m
    by (auto simp: bare_level_def admits_def binaryPrecedence_def)
  have stop: "gives_Loop host d' ?q right rest u' (right, rest, u')" for d' u'
    using rest q(1,2) by (intro give_stop) (auto simp: follow_def)
  have "gives_Expression host (d + 1) ?q (rhs @ rest) (uses_after left u) (right, rest, uses_after ?n u)"
    using rest q d stop
    by (intro reads_exprD [OF assms(3) split(3)]) (auto simp: follow_def admits_def uses_after_def Suc_le_eq)
  then have "gives_Loop host (d + 1) m left ((TOperator operator, pos) # rhs @ rest) (uses_after left u) r"
    by (rule give_binary [OF mq _ loop])
  then show "gives_Expression host d m (ws @ rest) u r"
    using q mq d unfolding split(1)
    by (auto simp: follow_def admits_def intro!: reads_exprD [OF assms(2) split(2)] less_imp_le)
qed

lemma read_ternary:
  assumes "reads_expr nt host cond" "reads_expr nt host whenTrue" "reads_expr nt host whenFalse"
  shows "reads_bare nt host (TernaryNode cond whenTrue whenFalse)" (is "reads_bare nt host ?n")
  unfolding reads_bare_def
proof (intro allI impI)
  fix lv d m and ws rest :: "'a token list" and u r
  assume ws: "map fst ws = write_node nt 0 ?n" and lv: "lv \<le> bare_level ?n"
    and m: "admits m lv" and rest: "follow lv rest" and d: "d + 2 * node_height ?n \<le> 65"
    and loop: "gives_Loop host (d + 1) m ?n rest (uses_after ?n u) r"
  from ws have "map fst ws = write_node nt 1 cond @ TOperator ''?'' # write_node nt 0 whenTrue
      @ TOperator '':'' # write_node nt 0 whenFalse"
    by (simp add: Let_def)
  then obtain c pos t pos' f where split: "ws = c @ (TOperator ''?'', pos) # t @ (TOperator '':'', pos') # f"
    "map fst c = write_node nt 1 cond" "map fst t = write_node nt 0 whenTrue" "map fst f = write_node nt 0 whenFalse"
    by (elim tokens_split) blast
  have 0: "lv = 0" "m = 0"
    using lv m by (simp_all add: bare_level_def admits_def)
  let ?u1 = "uses_after cond u"
  let ?u2 = "uses_after whenTrue ?u1"
  have "gives_Expression host (d + 1) 0 (t @ (TOperator '':'', pos') # f @ rest) ?u1
      (whenTrue, (TOperator '':'', pos') # f @ rest, ?u2)"
    using d by (intro reads_exprD [OF assms(2) split(3)] give_stop) (auto simp: follow_def admits_def)
  moreover have "gives_Expression host (d + 1) 0 (f @ rest) ?u2 (whenFalse, rest, uses_after ?n u)"
    using d rest 0
    by (intro reads_exprD [OF assms(3) split(4)]) (auto simp: follow_def admits_def uses_after_def intro!: give_stop)
  ultimately have "gives_Loop host (d + 1) 0 cond ((TOperator ''?'', pos) # t @ (TOperator '':'', pos') # f @ rest) ?u1 r"
    using loop 0 by (intro give_ternary) simp_all
  then show "gives_Expression host d m (ws @ rest) u r"
    using d 0 unfolding split(1)
    by (auto simp: follow_def admits_def intro!: reads_exprD [OF assms(1) split(2)])
qed

lemma uses_after_Call: "uses_after (CallNode name args) u = fold uses_after args u"
  by (induction args arbitrary: u) (simp_all add: uses_after_def)

lemma read_args:
  assumes "args \<noteq> []" "\<forall>arg \<in> set args. reads_expr nt host arg \<and> d + 2 * node_height arg \<le> 64"
    and "map fst ws = join_args (map (write_node nt 0) args)"
  shows "gives_Args host d (ws @ (TOperator '')'', pos) # rest) u (args, rest, fold uses_after args u)"
  using assms
proof (induction args arbitrary: ws u rule: list_nonempty_induct)
  case (single arg)
  then have "gives_Expression host d 0 (ws @ (TOperator '')'', pos) # rest) u
      (arg, (TOperator '')'', pos) # rest, uses_after arg u)"
    by (intro reads_exprD [where lv = 0]) (auto simp: follow_def admits_def intro!: give_stop)
  then show ?case
    by (simp add: give_last_arg)
next
  case (cons arg args)
  then obtain a as where args: "args = a # as"
    by (cases args) auto
  with cons.prems(2) have "map fst ws = write_node nt 0 arg @ TOperator '','' # join_args (map (write_node nt 0) args)"
    by simp
  then obtain first pos' ws' where split: "ws = first @ (TOperator '','', pos') # ws'"
    "map fst first = write_node nt 0 arg" "map fst ws' = join_args (map (write_node nt 0) args)"
    by (rule tokens_split)
  have "gives_Expression host d 0 (first @ (TOperator '','', pos') # ws' @ (TOperator '')'', pos) # rest) u
      (arg, (TOperator '','', pos') # ws' @ (TOperator '')'', pos) # rest, uses_after arg u)"
    using cons.prems(1) by (intro reads_exprD [OF _ split(2)]) (auto simp: follow_def admits_def intro!: give_stop)
  moreover have "gives_Args host d (ws' @ (TOperator '')'', pos) # rest) (uses_after arg u)
      (args, rest, fold uses_after args (uses_after arg u))"
    using cons.prems(1) split(3) by (intro cons.IH) simp_all
  ultimately show ?case
    by (simp add: split(1) give_more_args)
qed

text \<open>What is written does not look like the end of the arguments.\<close>

definition starts :: "'f token_shape list \<Rightarrow> bool" where
  "starts ss \<longleftrightarrow> (case ss of [] \<Rightarrow> False | s # _ \<Rightarrow> s \<noteq> TOperator '')'')"

lemma starts_append [simp]: "starts ss \<Longrightarrow> starts (ss @ ss')"
  by (auto simp: starts_def split: list.splits)

lemma starts_Cons [simp]: "starts (s # ss) \<longleftrightarrow> s \<noteq> TOperator '')''"
  by (simp add: starts_def)

lemma written_starts: "compiled_node host n \<Longrightarrow> starts (write_node nt lv n)"
proof (induction n arbitrary: lv)
  case (LiteralNode v)
  then show ?case
    by (cases v) (simp_all add: write_value_def)
qed (auto simp: Let_def write_wrapped_def)

lemma join_args_starts: "args \<noteq> [] \<Longrightarrow> \<forall>ss \<in> set args. starts ss \<Longrightarrow> starts (join_args args)"
  by (cases args rule: join_args.cases) auto

lemma height_arg: "arg \<in> set args \<Longrightarrow> node_height arg < node_height (CallNode name args)"
proof (induction args)
  case (Cons a args)
  then show ?case
    by (cases "arg = a") auto
qed simp

lemma read_call:
  assumes compiled: "compiled_node host (CallNode name args)" and "\<forall>arg \<in> set args. reads_expr nt host arg"
  shows "reads_unary nt host (CallNode name args)"
  unfolding reads_unary_def
proof (intro allI impI)
  fix d and ws rest :: "'a token list" and u
  assume ws: "map fst ws = write_node nt 7 (CallNode name args)"
    and d: "d + 2 * node_height (CallNode name args) \<le> 65"
  from compiled obtain spec where spec: "map_of expr_functions name = Some spec"
    "check_call host name spec args = None" "\<forall>arg \<in> set args. compiled_node host arg"
    by (auto simp: list_all_iff)
  from ws obtain pos pos' body pos'' where
    split: "ws = (TIdent name, pos) # (TOperator ''('', pos') # body @ [(TOperator '')'', pos'')]"
    "map fst body = join_args (map (write_node nt 0) args)"
    by (auto simp: write_wrapped_def map_eq_Cons_conv elim!: tokens_split)
  show "gives_Unary host d (ws @ rest) u (CallNode name args, rest, uses_after (CallNode name args) u)"
  proof (cases "args = []")
    case True
    with split spec show ?thesis
      by (simp add: give_call_empty uses_after_def)
  next
    case False
    have "\<forall>arg \<in> set args. reads_expr nt host arg \<and> d + 2 * node_height arg \<le> 64"
      using assms(2) d height_arg [of _ args name] by fastforce
    from read_args [OF False this split(2)]
    have "gives_Args host d (body @ (TOperator '')'', pos'') # rest) u (args, rest, fold uses_after args u)" .
    moreover have "starts (join_args (map (write_node nt 0) args))"
      using False spec(3) written_starts [of host] by (intro join_args_starts) auto
    then have "fst (peek (body @ (TOperator '')'', pos'') # rest)) \<noteq> TOperator '')''"
      unfolding split(2) [symmetric] by (cases body) (auto simp: starts_def)
    ultimately show ?thesis
      using give_call [OF spec(1,2)] by (simp add: split(1) uses_after_Call)
  qed
qed

lemma read_node: "compiled_node host n \<Longrightarrow> reads_unary nt host n \<and> reads_expr nt host n"
proof (induction n)
  case (LiteralNode v)
  then show ?case
    using expr_of_atom [OF _ read_literal] read_literal by (auto simp: bare_level_def)
next
  case (VariableNode name number)
  then show ?case
    using read_variable [of host name number] expr_of_atom [of "VariableNode name number"]
    by (auto simp: bare_level_def)
next
  case (UnaryNode operator operand)
  then show ?case
    using read_unary [of host operator operand] expr_of_atom [of "UnaryNode operator operand"]
    by (auto simp: bare_level_def)
next
  case (BinaryNode operator left right)
  then have "reads_bare nt host (BinaryNode operator left right)"
    by (intro read_binary) auto
  then show ?case
    by (simp add: unary_of_bare expr_of_bare bare_level_def)
next
  case (TernaryNode cond whenTrue whenFalse)
  then have "reads_bare nt host (TernaryNode cond whenTrue whenFalse)"
    by (intro read_ternary) auto
  then show ?case
    by (simp add: unary_of_bare expr_of_bare bare_level_def)
next
  case (CallNode name args)
  then have "reads_unary nt host (CallNode name args)"
    by (intro read_call) (auto simp: list_all_iff)
  then show ?case
    by (simp add: expr_of_atom bare_level_def)
qed

text \<open>With the fuel that \<open>Compile\<close> gives.\<close>

lemma parse_written:
  assumes "compiled_node host n" "node_height n \<le> 32" "map fst ts = write_node nt 0 n @ [TEOF]"
  shows "\<exists>pos. pf_Expression (parsers host (parse_fuel ts)) 0 0 ts [] = preturn (n, [(TEOF, pos)], uses_after n [])"
proof -
  from assms(3) obtain ws pos where ts: "ts = ws @ [(TEOF, pos)]" "map fst ws = write_node nt 0 n"
    by (auto elim: tokens_split)
  have "reads_expr nt host n"
    using read_node [OF assms(1)] by blast
  from this ts(2) have "gives_Expression host 0 0 ts [] (n, [(TEOF, pos)], uses_after n [])"
    unfolding ts(1) by (rule reads_exprD) (use assms(2) in \<open>auto simp: admits_def follow_def intro: give_stop\<close>)
  then obtain f where f: "pf_Expression (parsers host f) 0 0 ts [] = preturn (n, [(TEOF, pos)], uses_after n [])"
    by (auto simp: gives_Expression_def)
  have "ended (pf_Expression (parsers host (parse_fuel ts)) 0 0 ts [])"
    by (rule fns_endD(1) [OF parsers_end]) (simp add: parse_fuel_def)
  moreover have "below (pf_Expression (parsers host (parse_fuel ts)) 0 0 ts [])
      (pf_Expression (parsers host (max f (parse_fuel ts))) 0 0 ts [])"
    by (rule extendsD(1) [OF parsers_mono]) simp
  ultimately show ?thesis
    using more_Expression [OF max.cobounded1 f] by (auto simp: below_def)
qed

subsection \<open>Writing as text\<close>

text \<open>The tokens with a space between any two.\<close>

definition shape_source :: "'f token_shape \<Rightarrow> string" where
  "shape_source s = (case s of TString t \<Rightarrow> CHR ''\"'' # t @ ''\"'' | _ \<Rightarrow> shape_text s)"

fun render :: "'f token_shape list \<Rightarrow> string" where
  "render [] = []"
| "render [s] = shape_source s"
| "render (s # ss) = shape_source s @ CHR '' '' # render ss"

definition written :: "('f \<Rightarrow> string) \<Rightarrow> 'f node \<Rightarrow> string" where
  "written nt n = render (write_node nt 0 n)"

text \<open>What the lexer takes for one token when a space or the end follows.\<close>

definition ident_ok :: "string \<Rightarrow> bool" where
  "ident_ok t \<longleftrightarrow> t \<noteq> [] \<and> is_letter (hd t) \<and> list_all ident_char t"

definition operator_ok :: "string \<Rightarrow> bool" where
  "operator_ok t \<longleftrightarrow> List.member two_char_operators t \<or> (\<exists>c. t = [c] \<and> List.member operator_chars c)"

definition number_ok :: "'f float_ops \<Rightarrow> string \<Rightarrow> 'f \<Rightarrow> bool" where
  "number_ok fo t x \<longleftrightarrow> number_start t \<and> scan_number t = t \<and> \<not> List.member t (CHR ''_'') \<and> fparse fo t = Some x"

definition lexable :: "'f float_ops \<Rightarrow> 'f token_shape \<Rightarrow> bool" where
  "lexable fo s =
     (case s of
        TNumber t x \<Rightarrow> number_ok fo t x
      | TString t \<Rightarrow> \<not> List.member t (CHR ''\"'')
      | TIdent t \<Rightarrow> ident_ok t
      | TOperator t \<Rightarrow> operator_ok t
      | TEOF \<Rightarrow> False)"

definition at_break :: "string \<Rightarrow> bool" where
  "at_break rest \<longleftrightarrow> rest = [] \<or> hd rest = CHR '' ''"

lemma takeWhile_break:
  "at_break rest \<Longrightarrow> \<not> P (CHR '' '') \<Longrightarrow> takeWhile P (t @ rest) = takeWhile P t"
  "at_break rest \<Longrightarrow> \<not> P (CHR '' '') \<Longrightarrow> dropWhile P (t @ rest) = dropWhile P t @ rest"
  by (induction t) (cases rest; auto simp: at_break_def)+

lemma break_chars [simp]:
  "\<not> number_char (CHR '' '')" "\<not> is_digit (CHR '' '')" "\<not> ident_char (CHR '' '')"
  by (simp_all add: number_char_def ident_char_def is_letter_def is_digit_def)

lemma scan_number_break:
  assumes "at_break rest"
  shows "scan_number (t @ rest) = scan_number t"
proof (cases "dropWhile number_char t")
  case Nil
  then have "takeWhile number_char t = t"
    by (simp add: takeWhile_eq_all_conv)
  with Nil assms show ?thesis
    by (cases rest) (simp_all add: scan_number_def takeWhile_break Let_def at_break_def del: takeWhile_eq_all_conv)
next
  case (Cons e rest1)
  with assms show ?thesis
    by (cases rest; cases rest1) (auto simp: scan_number_def takeWhile_break Let_def at_break_def)
qed

lemma lex_space: "lex fo (CHR '' '' # s) i = lex fo s (i + 1)"
  by (simp add: lex.simps [of fo "_ # s"] go_space_def)

lemma digit_not_space: "is_digit c \<Longrightarrow> \<not> go_space c"
  by (auto simp: is_digit_def go_space_def)

lemma letter_not_space: "is_letter c \<Longrightarrow> \<not> go_space c \<and> \<not> is_digit c \<and> c \<noteq> CHR ''.'' \<and> c \<noteq> CHR ''\"''"
  by (auto simp: is_letter_def go_space_def is_digit_def Let_def)

lemma lex_number:
  assumes "number_ok fo t x" "at_break rest"
  shows "lex fo (t @ rest) i = prepend_token (TNumber t x, i) (lex fo rest (i + length t))"
proof -
  have ok: "number_start t" "scan_number t = t" "filter (\<lambda>d. d \<noteq> CHR ''_'') t = t" "fparse fo t = Some x"
    using assms(1) by (auto simp: number_ok_def filter_id_conv)
  then obtain c cs where t: "t = c # cs"
    by (cases t) (simp_all add: number_start_def)
  have "number_start (t @ rest)" "\<not> go_space c"
    using ok(1) digit_not_space unfolding t by (auto simp: number_start_def go_space_def)
  moreover have "scan_number (t @ rest) = t"
    by (simp add: scan_number_break [OF assms(2)] ok(2))
  ultimately show ?thesis
    using ok(3,4) unfolding t by (simp add: lex.simps [of fo "_ # _"] Let_def)
qed

lemma takeWhile_quote:
  "c \<notin> set t \<Longrightarrow> takeWhile (\<lambda>d. d \<noteq> c) (t @ c # rest) = t"
  "c \<notin> set t \<Longrightarrow> dropWhile (\<lambda>d. d \<noteq> c) (t @ c # rest) = c # rest"
  by (induction t) auto

lemma lex_string:
  assumes "CHR ''\"'' \<notin> set t"
  shows "lex fo (CHR ''\"'' # t @ CHR ''\"'' # rest) i
    = prepend_token (TString t, i) (lex fo rest (i + length t + 2))"
  by (simp add: lex.simps [of fo "_ # _"] Let_def go_space_def number_start_def is_digit_def
      takeWhile_quote [OF assms])

lemma lex_ident:
  assumes "ident_ok t" "at_break rest"
  shows "lex fo (t @ rest) i = prepend_token (TIdent t, i) (lex fo rest (i + length t))"
proof -
  obtain c cs where t: "t = c # cs" "is_letter c" "list_all ident_char (c # cs)"
    using assms(1) by (cases t) (auto simp: ident_ok_def)
  have "takeWhile ident_char (t @ rest) = t" "dropWhile ident_char (t @ rest) = rest"
    using t(3) assms(2) unfolding t(1)
    by (cases rest; auto simp: list_all_iff at_break_def)+
  moreover have "\<not> number_start (t @ rest)"
    using letter_not_space [OF t(2)] by (auto simp: t(1) number_start_def)
  moreover have "of_char c \<noteq> (39 :: nat)"
    using t(2) by (auto simp: is_letter_def Let_def)
  ultimately show ?thesis
    using letter_not_space [OF t(2)] t(2) unfolding t(1) by (simp add: lex.simps [of fo "_ # _"] Let_def)
qed

lemma lex_operator:
  assumes "operator_ok t" "at_break rest"
  shows "lex fo (t @ rest) i = prepend_token (TOperator t, i) (lex fo rest (i + length t))"
proof (cases "List.member two_char_operators t")
  case True
  then have "t \<in> {''=='', ''!='', ''<='', ''>='', ''&&'', ''||''}"
    by (auto simp: two_char_operators_def)
  then show ?thesis
    by (elim insertE emptyE) (simp_all add: lex.simps [of fo "_ # _"] Let_def go_space_def number_start_def
      is_digit_def is_letter_def two_char_operators_def)
next
  case False
  with assms(1) obtain c where t: "t = [c]" "List.member operator_chars c"
    by (auto simp: operator_ok_def)
  then have "c \<in> set ''+-*/()<>!?:,''"
    by (simp add: operator_chars_def)
  moreover have "\<not> (rest \<noteq> [] \<and> List.member two_char_operators [c, hd rest])"
    using assms(2) by (auto simp: at_break_def two_char_operators_def)
  ultimately show ?thesis
    unfolding t(1)
    by (simp only: list.set) (elim insertE emptyE; auto simp: lex.simps [of fo "_ # _"] Let_def go_space_def
      number_start_def is_digit_def is_letter_def operator_chars_def)
qed

lemma lex_shape:
  "lexable fo s \<Longrightarrow> at_break rest \<Longrightarrow>
   lex fo (shape_source s @ rest) i = prepend_token (s, i) (lex fo rest (i + length (shape_source s)))"
  by (cases s) (simp_all add: lexable_def shape_source_def shape_text_def lex_number lex_string lex_ident lex_operator)

lemma lex_render:
  "\<forall>s \<in> set ss. lexable fo s \<Longrightarrow> \<exists>ts. lex fo (render ss) i = Inr ts \<and> map fst ts = ss @ [TEOF]"
proof (induction ss arbitrary: i rule: render.induct)
  case 1
  show ?case
    by (simp add: lex.simps)
next
  case (2 s)
  then show ?case
    using lex_shape [of fo s "[]" i] by (simp add: at_break_def lex.simps prepend_token_def)
next
  case (3 s s' ss)
  let ?i = "i + length (shape_source s) + 1"
  from 3 obtain ts where ts: "lex fo (render (s' # ss)) ?i = Inr ts" "map fst ts = (s' # ss) @ [TEOF]"
    by fastforce
  have "lex fo (render (s # s' # ss)) i = prepend_token (s, i) (lex fo (render (s' # ss)) ?i)"
    using 3(2) by (simp add: lex_shape at_break_def lex_space)
  with ts show ?case
    by (simp add: prepend_token_def)
qed

subsection \<open>A tree is compiled back from its text\<close>

definition writable_value :: "'f float_ops \<Rightarrow> ('f \<Rightarrow> string) \<Rightarrow> 'f expr_value \<Rightarrow> bool" where
  "writable_value fo nt v =
     (case v of
        NumV x \<Rightarrow> number_ok fo (nt x) x
      | StrV s \<Rightarrow> \<not> List.member s (CHR ''\"'')
      | BoolV b \<Rightarrow> True)"

fun literals_ok :: "'f float_ops \<Rightarrow> ('f \<Rightarrow> string) \<Rightarrow> 'f node \<Rightarrow> bool" where
  "literals_ok fo nt (LiteralNode v) \<longleftrightarrow> writable_value fo nt v"
| "literals_ok fo nt (VariableNode name number) \<longleftrightarrow> True"
| "literals_ok fo nt (UnaryNode operator operand) \<longleftrightarrow> literals_ok fo nt operand"
| "literals_ok fo nt (BinaryNode operator left right) \<longleftrightarrow> literals_ok fo nt left \<and> literals_ok fo nt right"
| "literals_ok fo nt (TernaryNode cond whenTrue whenFalse) \<longleftrightarrow>
     literals_ok fo nt cond \<and> literals_ok fo nt whenTrue \<and> literals_ok fo nt whenFalse"
| "literals_ok fo nt (CallNode name args) \<longleftrightarrow> list_all (literals_ok fo nt) args"

lemma names_ok:
  "list_all ident_ok (numberVars @ stringVars)" "list_all ident_ok (map fst expr_functions)"
  "ident_ok ''true''" "ident_ok ''false''"
  by code_simp+

lemma operators_ok: "list_all operator_ok (map fst binaryPrecedence)"
  unfolding operator_ok_def binaryPrecedence_def two_char_operators_def operator_chars_def by simp

lemma lexable_operators [simp]:
  "lexable fo (TOperator ''('')" "lexable fo (TOperator '')'')" "lexable fo (TOperator '','')"
  "lexable fo (TOperator ''?'')" "lexable fo (TOperator '':'')" "lexable fo (TOperator ''-'')"
  "lexable fo (TOperator ''!'')"
  by (simp_all add: lexable_def operator_ok_def operator_chars_def)

lemma set_join_args: "set (join_args sss) \<subseteq> \<Union> (set ` set sss) \<union> {TOperator '',''}"
  by (induction sss rule: join_args.induct) auto

lemma written_lexable:
  "compiled_node host n \<Longrightarrow> literals_ok fo nt n \<Longrightarrow> s \<in> set (write_node nt lv n) \<Longrightarrow> lexable fo s"
proof (induction n arbitrary: lv)
  case (LiteralNode v)
  then show ?case
    using names_ok(3,4) by (cases v) (auto simp: write_value_def writable_value_def lexable_def)
next
  case (VariableNode name number)
  then show ?case
    using names_ok(1) by (auto simp: lexable_def list_all_iff split: if_splits)
next
  case (BinaryNode operator left right)
  then have "operator_ok operator"
    using operators_ok by (auto simp: list_all_iff dest!: map_of_SomeD)
  then have "lexable fo (TOperator operator)"
    by (simp add: lexable_def)
  with BinaryNode show ?case
    by (auto simp: Let_def write_wrapped_def split: if_splits)
next
  case (CallNode name args)
  then have "ident_ok name"
    using names_ok(2) by (auto simp: list_all_iff dest!: map_of_SomeD)
  with CallNode show ?case
    using set_join_args [of "map (write_node nt 0) args"]
    by (auto simp: write_wrapped_def list_all_iff) (auto simp: lexable_def)
qed (auto simp: Let_def write_wrapped_def split: if_splits)

lemma dropWhile_hd: "s \<noteq> [] \<Longrightarrow> \<not> P (hd s) \<Longrightarrow> dropWhile P s = s"
  by (cases s) simp_all

lemma trim_space_id: "s \<noteq> [] \<Longrightarrow> \<not> go_space (hd s) \<Longrightarrow> \<not> go_space (last s) \<Longrightarrow> trim_space s = s"
  by (simp add: trim_space_def dropWhile_hd hd_rev)

lemma scan_number_chars: "c \<in> set (scan_number t) \<Longrightarrow> \<not> go_space c"
proof -
  assume "c \<in> set (scan_number t)"
  then have "number_char c \<or> is_digit c \<or> List.member ''eE+-'' c"
    by (auto simp: scan_number_def Let_def dest: set_takeWhileD split: if_splits)
  then show ?thesis
    using digit_not_space by (auto simp: number_char_def go_space_def)
qed

lemma ident_not_space: "ident_char c \<Longrightarrow> \<not> go_space c"
  using letter_not_space digit_not_space by (auto simp: ident_char_def go_space_def)

lemma shape_source_ends:
  assumes "lexable fo s"
  shows "shape_source s \<noteq> [] \<and> \<not> go_space (hd (shape_source s)) \<and> \<not> go_space (last (shape_source s))"
proof (cases s)
  case (TNumber t x)
  then have "t \<noteq> []" "\<forall>c \<in> set t. \<not> go_space c"
    using assms scan_number_chars [of _ t] by (auto simp: lexable_def number_ok_def number_start_def)
  then show ?thesis
    by (simp add: TNumber shape_source_def shape_text_def)
next
  case (TString t)
  then show ?thesis
    by (simp add: shape_source_def go_space_def)
next
  case (TIdent t)
  then have "t \<noteq> []" "\<forall>c \<in> set t. \<not> go_space c"
    using assms ident_not_space by (auto simp: lexable_def ident_ok_def list_all_iff)
  then show ?thesis
    by (simp add: TIdent shape_source_def shape_text_def)
next
  case (TOperator t)
  with assms have "operator_ok t"
    by (simp add: lexable_def)
  then show ?thesis
    unfolding TOperator
    by (auto simp: shape_source_def shape_text_def operator_ok_def two_char_operators_def operator_chars_def go_space_def)
next
  case TEOF
  with assms show ?thesis
    by (simp add: lexable_def)
qed

lemma render_ends:
  "ss \<noteq> [] \<Longrightarrow> \<forall>s \<in> set ss. lexable fo s \<Longrightarrow>
   render ss \<noteq> [] \<and> \<not> go_space (hd (render ss)) \<and> \<not> go_space (last (render ss))"
proof (induction ss rule: render.induct)
  case (2 s)
  then show ?case
    using shape_source_ends [of fo s] by simp
next
  case (3 s s' ss)
  then show ?case
    using shape_source_ends [of fo s] by (cases "shape_source s") auto
qed simp

lemma compile_written:
  assumes "compiled_node host n" "literals_ok fo nt n" "node_height n \<le> 32" "go_len (written nt n) \<le> 4093"
  shows "compile_body fo host (''v1:'' @ written nt n)
    = preturn \<lparr>pr_source = ''v1:'' @ written nt n, pr_root = n, pr_uses = uses_after n []\<rparr>"
proof -
  have lexable: "\<forall>s \<in> set (write_node nt 0 n). lexable fo s"
    using written_lexable [OF assms(1,2)] by blast
  have nonempty: "write_node nt 0 n \<noteq> []"
    using written_starts [OF assms(1), of nt 0] by (auto simp: starts_def)
  note ends = render_ends [OF nonempty lexable]
  have body: "trim_space (trim_prefix (''v1:'' @ written nt n) ''v1:'') = written nt n" "written nt n \<noteq> []"
    using ends trim_space_id [of "written nt n"] by (simp_all add: written_def trim_prefix_def has_prefix_def)
  obtain ts where ts: "lex fo (written nt n) 0 = Inr ts" "map fst ts = write_node nt 0 n @ [TEOF]"
    using lex_render [OF lexable] unfolding written_def by blast
  obtain pos where "pf_Expression (parsers host (parse_fuel ts)) 0 0 ts [] = preturn (n, [(TEOF, pos)], uses_after n [])"
    using parse_written [OF assms(1,3) ts(2)] by blast
  moreover have "\<not> go_len (''v1:'' @ written nt n) > maxSourceLength"
    using assms(4) unfolding go_len_append by (simp add: maxSourceLength_def go_len_def)
  ultimately show ?thesis
    using ts(1) unfolding compile_body_def body(1) Let_def by (simp add: body(2))
qed

lemma written_trimmed:
  assumes "compiled_node host n" "literals_ok fo nt n"
  shows "trim_space (''v1:'' @ written nt n) = ''v1:'' @ written nt n"
proof -
  have "write_node nt 0 n \<noteq> []"
    using written_starts [OF assms(1), of nt 0] by (auto simp: starts_def)
  from render_ends [OF this] have "written nt n \<noteq> [] \<and> \<not> go_space (last (written nt n))"
    using written_lexable [OF assms] unfolding written_def by blast
  then show ?thesis
    by (intro trim_space_id) (simp_all add: go_space_def)
qed

section \<open>Properties\<close>

lemma sample_compiled:
  "compile_body exact_ops sample_host ''v1:p * 3''
     = preturn \<lparr>pr_source = ''v1:p * 3'', pr_root = BinaryNode ''*'' (VariableNode ''p'' True) (LiteralNode (NumV 3)),
         pr_uses = [''p'']\<rparr>"
proof -
  let ?n = "BinaryNode ''*'' (VariableNode ''p'' True) (LiteralNode (NumV (3 :: rat)))"
  have "written (\<lambda>_. ''3'') ?n = ''p * 3''"
    by (simp add: written_def shape_source_def shape_text_def write_value_def precedence_of_def gomap_get_def
        binaryPrecedence_def)
  moreover have "literals_ok exact_ops (\<lambda>_. ''3'') ?n"
    by (simp add: writable_value_def number_ok_def number_start_def is_digit_def scan_number_def number_char_def
        exact_ops_def)
  ultimately show ?thesis
    using compile_written [of sample_host ?n exact_ops "\<lambda>_. ''3''"]
    by (simp add: binaryPrecedence_def numberVars_def uses_after_def go_len_def)
qed

text \<open>
  C34. Compiling reads back what is written: the text of a tree, with a space between the tokens and
  only the parentheses that the precedences ask for, compiles to exactly that tree, for every tree of
  height up to 32 that the evaluation knows, whose literals have texts that the lexer takes as numbers
  and strings, and whose text fits the length limit.  So the precedences, the left associativity of the
  binary operators and the right associativity of the conditional are what the parser reads, and no
  such tree meets its depth limit.
\<close>

theorem compile_reads_written:
  assumes "compiled_node host n" "literals_ok fo nt n" "node_height n \<le> 32" "go_len (written nt n) \<le> 4093"
  shows "snd (Compile fo host [] (''v1:'' @ written nt n))
    = preturn \<lparr>pr_source = ''v1:'' @ written nt n, pr_root = n, pr_uses = uses_after n []\<rparr>"
  using compile_written [OF assms] written_trimmed [OF assms(1,2)] Compile_sound [of fo host "[]" "''v1:'' @ written nt n"]
  by (simp add: cache_sound_def)

theorem compile_reads_written_witness:
  "written (\<lambda>_. ''3'') (BinaryNode ''-'' (VariableNode ''p'' True)
       (BinaryNode ''-'' (UnaryNode ''-'' (VariableNode ''c'' True)) (LiteralNode (NumV (3 :: rat)))))
     = ''p - ( - c - 3 )'' \<and>
   snd (Compile exact_ops sample_host [] ''v1:p - ( - c - 3 )'') = preturn
     \<lparr>pr_source = ''v1:p - ( - c - 3 )'', pr_root = BinaryNode ''-'' (VariableNode ''p'' True)
       (BinaryNode ''-'' (UnaryNode ''-'' (VariableNode ''c'' True)) (LiteralNode (NumV 3))),
      pr_uses = [''c'', ''p'']\<rparr>"
proof -
  let ?n = "BinaryNode ''-'' (VariableNode ''p'' True)
      (BinaryNode ''-'' (UnaryNode ''-'' (VariableNode ''c'' True)) (LiteralNode (NumV (3 :: rat))))"
  have written: "written (\<lambda>_. ''3'') ?n = ''p - ( - c - 3 )''"
    by (simp add: written_def shape_source_def shape_text_def write_value_def precedence_of_def gomap_get_def
        binaryPrecedence_def write_wrapped_def)
  moreover have "literals_ok exact_ops (\<lambda>_. ''3'') ?n"
    by (simp add: writable_value_def number_ok_def number_start_def is_digit_def scan_number_def number_char_def
        exact_ops_def)
  ultimately show ?thesis
    using compile_reads_written [of sample_host ?n exact_ops "\<lambda>_. ''3''"]
    by (simp add: binaryPrecedence_def numberVars_def uses_after_def go_len_def)
qed

text \<open>
  C35. A compiled program never fails for a reason that compiling is there to exclude: evaluating it
  does not panic, meets no unknown operator or function, and no zone that cannot be loaded, in any
  environment; and it reports exactly the variables that its tree reads.
\<close>

theorem compiled_never_panics:
  assumes "compile_body fo host source = preturn program"
  shows "(\<forall>e. EvalUSDWithTrace fo host program env = Inl e \<longrightarrow>
        e \<noteq> EPanic \<and> (\<forall>f. e \<noteq> EFunction f) \<and> (\<forall>operator. e \<noteq> EOperator operator) \<and> (\<forall>zone. e \<noteq> EZone zone))
    \<and> (\<forall>name. Uses (Some program) name \<longleftrightarrow> name \<in> set (node_vars (pr_root program)))"
proof -
  have "sane (fst (eval fo host env (pr_root program) (env_MatchedTier env)))"
    by (rule eval_sane(1) [OF compile_body_builds(1) [OF assms]])
  then show ?thesis
    using compile_body_builds(2) [OF assms]
    by (auto simp: EvalUSDWithTrace_def Uses_def split: prod.splits sum.splits expr_value.splits if_splits)
qed

theorem compiled_never_panics_witness:
  "compile_body exact_ops sample_host ''v1:p * 3'' \<noteq> pfail CEmpty \<and>
   (\<forall>env. EvalUSDWithTrace exact_ops sample_host
       \<lparr>pr_source = ''v1:p * 3'', pr_root = BinaryNode ''*'' (VariableNode ''p'' True) (LiteralNode (NumV 3)),
        pr_uses = [''p'']\<rparr> env \<noteq> Inl EPanic)"
  using sample_compiled compiled_never_panics [OF sample_compiled] by auto

text \<open>
  The amount of a compiled program depends only on the variables it reports as used, apart from
  the request count that \<open>fixed\<close> reads: changing any other number or string changes nothing.
\<close>

theorem amount_uses_only:
  assumes "compile_body fo host source = preturn program" "same_for fo (Uses (Some program)) env env'"
  shows "EvalUSDWithTrace fo host program env = EvalUSDWithTrace fo host program env'"
proof -
  have "\<forall>v \<in> set (node_vars (pr_root program)). Uses (Some program) v"
    using compile_body_builds(2) [OF assms(1)] by (simp add: Uses_def)
  from eval_same(1) [OF assms(2) this] show ?thesis
    using assms(2) by (simp add: EvalUSDWithTrace_def same_for_def)
qed

theorem amount_uses_only_witness:
  "EvalUSDWithTrace exact_ops sample_host
     \<lparr>pr_source = ''v1:p * 3'', pr_root = BinaryNode ''*'' (VariableNode ''p'' True) (LiteralNode (NumV 3)),
      pr_uses = [''p'']\<rparr>
     \<lparr>env_Numbers = [(''p'', 1000000), (''c'', 5)], env_Strings = [], env_LookupNumber = None,
      env_LookupString = None, env_Now = 0, env_MatchedTier = []\<rparr>
   = EvalUSDWithTrace exact_ops sample_host
     \<lparr>pr_source = ''v1:p * 3'', pr_root = BinaryNode ''*'' (VariableNode ''p'' True) (LiteralNode (NumV 3)),
      pr_uses = [''p'']\<rparr>
     \<lparr>env_Numbers = [(''p'', 1000000)], env_Strings = [], env_LookupNumber = None,
      env_LookupString = None, env_Now = 0, env_MatchedTier = []\<rparr>"
  by (rule amount_uses_only [OF sample_compiled]) (simp add: same_for_def Uses_def gomap_get_def)

end
