(* ===== verification/KV_Store.thy ===== *)
theory KV_Store
  imports Home_Prelude
begin

section \<open>The key-value store of the cluster\<close>

text \<open>
  \<^verbatim>\<open>internal/cluster/kv_store.go\<close>: a table of rows with a version and an optional expiry behind
  Redis-like operations.  The table is a map from keys to rows; a transaction is one step on it, which
  the row lock makes atomic.  An operation takes the clock readings that the code takes: \<open>t0\<close> where it
  computes an expiry before its transaction, and \<open>now\<close> inside.  An error of the database itself, which
  rolls the transaction back, is not modelled.
\<close>

subsection \<open>Integers as text\<close>

fun nat_digits :: "nat \<Rightarrow> string" where
  "nat_digits n = (if n < 10 then [char_of (48 + n)] else nat_digits (n div 10) @ [char_of (48 + n mod 10)])"

declare nat_digits.simps [simp del]

definition format_int64 :: "int \<Rightarrow> string" where
  "format_int64 v = (if v < 0 then CHR ''-'' # nat_digits (nat (- v)) else nat_digits (nat v))"

lemma is_digit_char [simp]: "k < 10 \<Longrightarrow> is_digit (char_of (48 + k :: nat))"
  by (simp add: is_digit_def)

lemma nat_digits_digits: "list_all is_digit (nat_digits n)"
proof (induction n rule: nat_digits.induct)
  case (1 n)
  then show ?case
    by (cases "n < 10") (simp_all add: nat_digits.simps [of n])
qed

lemma nat_digits_val: "digits_val (nat_digits n) = int n"
proof (induction n rule: nat_digits.induct)
  case (1 n)
  show ?case
  proof (cases "n < 10")
    case True
    then show ?thesis
      by (simp add: nat_digits.simps [of n] digits_val_def)
  next
    case False
    then have "digits_val (nat_digits n) = 10 * digits_val (nat_digits (n div 10)) + int (n mod 10)"
      by (simp add: nat_digits.simps [of n] digits_val_def)
    also have "\<dots> = int (10 * (n div 10) + n mod 10)"
      using 1 [OF False] by (simp only: of_nat_add of_nat_mult of_nat_numeral)
    finally show ?thesis
      by (simp only: mult_div_mod_eq)
  qed
qed

lemma nat_digits_nonempty [simp]: "nat_digits n \<noteq> []"
  by (simp add: nat_digits.simps)

lemma nat_digits_hd: "is_digit (hd (nat_digits n))"
  using nat_digits_digits [of n] by (cases "nat_digits n") simp_all

lemma parse_format_int64: "is_i64 v \<Longrightarrow> parse_int64 (format_int64 v) = Some v"
proof -
  assume v: "is_i64 v"
  have sign: "c \<noteq> CHR ''-'' \<and> c \<noteq> CHR ''+''" if "is_digit c" for c
    using that by (auto simp: is_digit_def)
  show ?thesis
    using v nat_digits_digits nat_digits_val sign [OF nat_digits_hd]
    by (simp add: parse_int64_def format_int64_def Let_def)
qed

subsection \<open>Rows\<close>

record kv_record =
  kv_Value :: string
  kv_Version :: int
  kv_ExpiresAt :: "gotime option"

type_synonym kv_table = "(string, kv_record) gomap"

datatype kv_error =
    KeyRequired
  | UnsupportedMode string
  | NotAnInteger string

datatype kv_mode = KVSetModeAlways | KVSetModeNX | KVSetModeXX | KVSetModeOther string

definition normalizeKVKey :: "string \<Rightarrow> kv_error + string" where
  "normalizeKVKey key = (let k = trim_space key in if k = [] then Inl KeyRequired else Inr k)"

fun normalize_loop :: "string list \<Rightarrow> string list \<Rightarrow> kv_error + string list" where
  "normalize_loop [] out = Inr out"
| "normalize_loop (key # keys) out =
     (case normalizeKVKey key of
        Inl e \<Rightarrow> Inl e
      | Inr k \<Rightarrow> normalize_loop keys (if List.member out k then out else out @ [k]))"

definition normalizeKVKeys :: "string list \<Rightarrow> kv_error + string list" where
  "normalizeKVKeys keys = (case normalize_loop keys [] of Inl e \<Rightarrow> Inl e | Inr out \<Rightarrow> Inr (sort out))"

definition validateKVSetMode :: "kv_mode \<Rightarrow> kv_error option" where
  "validateKVSetMode mode = (case mode of KVSetModeOther s \<Rightarrow> Some (UnsupportedMode s) | _ \<Rightarrow> None)"

definition kvExpiresAt :: "gotime \<Rightarrow> duration \<Rightarrow> gotime option" where
  "kvExpiresAt t0 ttl = (if ttl \<le> 0 then None else Some (t0 + ttl))"

definition kvRecordExpired :: "kv_record \<Rightarrow> gotime \<Rightarrow> bool" where
  "kvRecordExpired record now = (case kv_ExpiresAt record of None \<Rightarrow> False | Some e \<Rightarrow> \<not> e > now)"

text \<open>The row goes only while its expiry is not later than the one that was seen.\<close>

definition deleteExpiredKVTx :: "string \<Rightarrow> gotime option \<Rightarrow> kv_table \<Rightarrow> kv_table" where
  "deleteExpiredKVTx key expiresAt t =
     (case expiresAt of
        None \<Rightarrow> t
      | Some e \<Rightarrow>
          (case map_of t key of
             None \<Rightarrow> t
           | Some r \<Rightarrow>
               (case kv_ExpiresAt r of
                  None \<Rightarrow> t
                | Some e' \<Rightarrow> if e' \<le> e then AList.delete key t else t)))"

definition lazyDeleteExpiredKV :: "string \<Rightarrow> gotime option \<Rightarrow> kv_table \<Rightarrow> kv_table" where
  "lazyDeleteExpiredKV key expiresAt t = deleteExpiredKVTx key expiresAt t"

definition next_version :: "kv_record \<Rightarrow> int" where
  "next_version r = (let v = wrap64 (kv_Version r + 1) in if v \<le> 1 then 1 else v)"

definition bump :: "kv_record \<Rightarrow> kv_record" where
  "bump r = r\<lparr>kv_Version := wrap64 (kv_Version r + 1)\<rparr>"

subsection \<open>Operations\<close>

text \<open>
  \<open>KVGet\<close> reads outside a transaction; \<open>later\<close> is what other operations do to the table while it runs,
  before an expired row is deleted.
\<close>

definition KVGet :: "string \<Rightarrow> gotime \<Rightarrow> (kv_table \<Rightarrow> kv_table) \<Rightarrow> kv_table
    \<Rightarrow> (kv_error + string option) \<times> kv_table" where
  "KVGet key0 now later t =
     (case normalizeKVKey key0 of
        Inl e \<Rightarrow> (Inl e, later t)
      | Inr key \<Rightarrow>
          (case map_of t key of
             None \<Rightarrow> (Inr None, later t)
           | Some record \<Rightarrow>
               if kvRecordExpired record now
               then (Inr None, lazyDeleteExpiredKV key (kv_ExpiresAt record) (later t))
               else (Inr (Some (kv_Value record)), later t)))"

definition KVSet :: "string \<Rightarrow> string \<Rightarrow> duration \<Rightarrow> kv_mode \<Rightarrow> gotime \<Rightarrow> gotime \<Rightarrow> kv_table
    \<Rightarrow> (kv_error + bool) \<times> kv_table" where
  "KVSet key0 value ttl mode t0 now t =
     (case normalizeKVKey key0 of
        Inl e \<Rightarrow> (Inl e, t)
      | Inr key \<Rightarrow>
          (case validateKVSetMode mode of
             Some e \<Rightarrow> (Inl e, t)
           | None \<Rightarrow>
               (let expiresAt = kvExpiresAt t0 ttl
                in case map_of t key of
                    None \<Rightarrow>
                      if mode = KVSetModeXX then (Inr False, t)
                      else (Inr True, AList.update key
                              \<lparr>kv_Value = value, kv_Version = 1, kv_ExpiresAt = expiresAt\<rparr> t)
                  | Some record \<Rightarrow>
                      if kvRecordExpired record now
                      then let t' = deleteExpiredKVTx key (kv_ExpiresAt record) t
                           in if mode = KVSetModeXX then (Inr False, t')
                              else (Inr True, AList.update key
                                \<lparr>kv_Value = value, kv_Version = next_version record, kv_ExpiresAt = expiresAt\<rparr> t')
                      else if mode = KVSetModeNX then (Inr False, t)
                      else (Inr True, AList.update key
                              (bump (record\<lparr>kv_Value := value, kv_ExpiresAt := expiresAt\<rparr>)) t))))"

definition KVCompareAndSwap :: "string \<Rightarrow> string \<Rightarrow> bool \<Rightarrow> string \<Rightarrow> duration \<Rightarrow> gotime \<Rightarrow> gotime \<Rightarrow> kv_table
    \<Rightarrow> (kv_error + bool) \<times> kv_table" where
  "KVCompareAndSwap key0 expected expectedExists value ttl t0 now t =
     (case normalizeKVKey key0 of
        Inl e \<Rightarrow> (Inl e, t)
      | Inr key \<Rightarrow>
          (let expiresAt = kvExpiresAt t0 ttl
           in case map_of t key of
               None \<Rightarrow>
                 if expectedExists then (Inr False, t)
                 else (Inr True, AList.update key
                         \<lparr>kv_Value = value, kv_Version = 1, kv_ExpiresAt = expiresAt\<rparr> t)
             | Some record \<Rightarrow>
                 if kvRecordExpired record now
                 then let t' = deleteExpiredKVTx key (kv_ExpiresAt record) t
                      in if expectedExists then (Inr False, t')
                         else (Inr True, AList.update key
                           \<lparr>kv_Value = value, kv_Version = next_version record, kv_ExpiresAt = expiresAt\<rparr> t')
                 else if \<not> expectedExists \<or> kv_Value record \<noteq> expected then (Inr False, t)
                 else (Inr True, AList.update key
                         (bump (record\<lparr>kv_Value := value, kv_ExpiresAt := expiresAt\<rparr>)) t)))"

fun del_loop :: "gotime \<Rightarrow> string list \<Rightarrow> int \<Rightarrow> kv_table \<Rightarrow> int \<times> kv_table" where
  "del_loop now [] deleted t = (deleted, t)"
| "del_loop now (key # keys) deleted t =
     (case map_of t key of
        None \<Rightarrow> del_loop now keys deleted t
      | Some record \<Rightarrow>
          if kvRecordExpired record now
          then del_loop now keys deleted (deleteExpiredKVTx key (kv_ExpiresAt record) t)
          else del_loop now keys (deleted + 1) (AList.delete key t))"

definition KVDel :: "string list \<Rightarrow> gotime \<Rightarrow> kv_table \<Rightarrow> (kv_error + int) \<times> kv_table" where
  "KVDel keys now t =
     (case normalizeKVKeys keys of
        Inl e \<Rightarrow> (Inl e, t)
      | Inr normalizedKeys \<Rightarrow>
          if normalizedKeys = [] then (Inr 0, t)
          else case del_loop now normalizedKeys 0 t of (deleted, t') \<Rightarrow> (Inr deleted, t'))"

definition KVExpire :: "string \<Rightarrow> duration \<Rightarrow> gotime \<Rightarrow> gotime \<Rightarrow> kv_table \<Rightarrow> (kv_error + bool) \<times> kv_table" where
  "KVExpire key0 ttl t0 now t =
     (case normalizeKVKey key0 of
        Inl e \<Rightarrow> (Inl e, t)
      | Inr key \<Rightarrow>
          (case map_of t key of
             None \<Rightarrow> (Inr False, t)
           | Some record \<Rightarrow>
               if kvRecordExpired record now
               then (Inr False, deleteExpiredKVTx key (kv_ExpiresAt record) t)
               else (Inr True, AList.update key (bump (record\<lparr>kv_ExpiresAt := Some (t0 + ttl)\<rparr>)) t)))"

definition KVTTL :: "string \<Rightarrow> gotime \<Rightarrow> (kv_table \<Rightarrow> kv_table) \<Rightarrow> kv_table \<Rightarrow> (kv_error + int) \<times> kv_table" where
  "KVTTL key0 now later t =
     (case normalizeKVKey key0 of
        Inl e \<Rightarrow> (Inl e, later t)
      | Inr key \<Rightarrow>
          (case map_of t key of
             None \<Rightarrow> (Inr (- 2), later t)
           | Some record \<Rightarrow>
               if kvRecordExpired record now
               then (Inr (- 2), lazyDeleteExpiredKV key (kv_ExpiresAt record) (later t))
               else (case kv_ExpiresAt record of
                   None \<Rightarrow> (Inr (- 1), later t)
                 | Some e \<Rightarrow>
                     (let d = time_sub e now;
                          remaining = (if 0 \<le> d then d div second else - ((- d) div second))
                      in (Inr (if remaining < 0 then - 2 else remaining), later t)))))"

definition KVIncrBy :: "string \<Rightarrow> int \<Rightarrow> gotime \<Rightarrow> kv_table \<Rightarrow> (kv_error + int) \<times> kv_table" where
  "KVIncrBy key0 delta now t =
     (case normalizeKVKey key0 of
        Inl e \<Rightarrow> (Inl e, t)
      | Inr key \<Rightarrow>
          (case map_of t key of
             None \<Rightarrow> (Inr delta, AList.update key
                       \<lparr>kv_Value = format_int64 delta, kv_Version = 1, kv_ExpiresAt = None\<rparr> t)
           | Some record \<Rightarrow>
               if kvRecordExpired record now
               then (Inr delta, AList.update key
                       \<lparr>kv_Value = format_int64 delta, kv_Version = next_version record, kv_ExpiresAt = None\<rparr>
                       (deleteExpiredKVTx key (kv_ExpiresAt record) t))
               else (case parse_int64 (kv_Value record) of
                   None \<Rightarrow> (Inl (NotAnInteger (kv_Value record)), t)
                 | Some current \<Rightarrow>
                     (let out = wrap64 (current + delta)
                      in (Inr out, AList.update key (bump (record\<lparr>kv_Value := format_int64 out\<rparr>)) t)))))"

fun KVMGet :: "(string \<times> gotime) list \<Rightarrow> (kv_table \<Rightarrow> kv_table) \<Rightarrow> kv_table
    \<Rightarrow> (kv_error + string option list) \<times> kv_table" where
  "KVMGet [] later t = (Inr [], t)"
| "KVMGet ((key, now) # keys) later t =
     (case KVGet key now later t of
        (Inl e, t') \<Rightarrow> (Inl e, t')
      | (Inr v, t') \<Rightarrow>
          (case KVMGet keys later t' of
             (Inl e, t'') \<Rightarrow> (Inl e, t'')
           | (Inr vs, t'') \<Rightarrow> (Inr (v # vs), t'')))"

text \<open>The pairs of a multiple set, in the order in which the map is visited.\<close>

fun mset_keys :: "(string \<times> string) list \<Rightarrow> string list \<Rightarrow> (string, string) gomap
    \<Rightarrow> kv_error + string list \<times> (string, string) gomap" where
  "mset_keys [] keys values = Inr (keys, values)"
| "mset_keys ((key, value) # pairs) keys values =
     (case normalizeKVKey key of
        Inl e \<Rightarrow> Inl e
      | Inr k \<Rightarrow> mset_keys pairs (keys @ [k]) (AList.update k value values))"

fun mset_loop :: "(string, string) gomap \<Rightarrow> string list \<Rightarrow> kv_table \<Rightarrow> kv_table" where
  "mset_loop values [] t = t"
| "mset_loop values (key # keys) t =
     mset_loop values keys
       (case map_of t key of
          None \<Rightarrow> AList.update key
            \<lparr>kv_Value = gomap_get [] values key, kv_Version = 1, kv_ExpiresAt = None\<rparr> t
        | Some record \<Rightarrow>
            AList.update key (bump (record\<lparr>kv_Value := gomap_get [] values key, kv_ExpiresAt := None\<rparr>)) t)"

definition KVMSet :: "(string, string) gomap \<Rightarrow> kv_table \<Rightarrow> kv_error option \<times> kv_table" where
  "KVMSet pairs t =
     (case mset_keys pairs [] [] of
        Inl e \<Rightarrow> (Some e, t)
      | Inr (keys, values) \<Rightarrow> (None, mset_loop values (sort keys) t))"

definition KVPurgeExpired :: "gotime \<Rightarrow> gotime \<Rightarrow> int \<Rightarrow> (kv_table \<Rightarrow> kv_table) \<Rightarrow> kv_table \<Rightarrow> int \<times> kv_table" where
  "KVPurgeExpired now0 clock limit later t =
     (if limit \<le> 0 then (0, later t)
      else let now = (if now0 = 0 then clock else now0);
               keys = take (nat limit) (sort (map fst (filter (\<lambda>(k, r). kvRecordExpired r now) t)));
               gone = (\<lambda>(k, r). List.member keys k \<and> kvRecordExpired r now)
           in if keys = [] then (0, later t)
              else (int (length (filter gone (later t))), filter (\<lambda>row. \<not> gone row) (later t)))"

section \<open>What the store promises\<close>

text \<open>
  An abstract store: a map from keys to a value and an expiry, from which a key disappears when its
  expiry is reached.  Versions and rows that wait to be deleted are not visible in it.
\<close>

type_synonym kv_live = "string \<Rightarrow> (string \<times> gotime option) option"

definition alive :: "gotime \<Rightarrow> gotime option \<Rightarrow> bool" where
  "alive now e = (case e of None \<Rightarrow> True | Some t \<Rightarrow> now < t)"

definition aged :: "gotime \<Rightarrow> kv_live \<Rightarrow> kv_live" where
  "aged now m = (\<lambda>k. case m k of None \<Rightarrow> None | Some (v, e) \<Rightarrow> if alive now e then Some (v, e) else None)"

definition put :: "gotime \<Rightarrow> string \<Rightarrow> string \<Rightarrow> gotime option \<Rightarrow> kv_live \<Rightarrow> kv_live" where
  "put now k v e m = m(k := if alive now e then Some (v, e) else None)"

definition kv_view :: "gotime \<Rightarrow> kv_table \<Rightarrow> kv_live" where
  "kv_view now t = aged now (\<lambda>k. map_option (\<lambda>r. (kv_Value r, kv_ExpiresAt r)) (map_of t k))"

datatype kv_op =
    OGet string
  | OSet string string duration kv_mode
  | OCAS string string bool string duration
  | ODel "string list"
  | OExpire string duration
  | OTTL string
  | OIncrBy string int
  | OMGet "string list"
  | OMSet "(string, string) gomap"

datatype kv_reply =
    RFail kv_error
  | RValue "string option"
  | RFlag bool
  | RInt int
  | RValues "string option list"
  | RDone

definition reply_of :: "('a \<Rightarrow> kv_reply) \<Rightarrow> kv_error + 'a \<Rightarrow> kv_reply" where
  "reply_of f r = (case r of Inl e \<Rightarrow> RFail e | Inr a \<Rightarrow> f a)"

text \<open>One operation alone on the table.\<close>

definition kv_step :: "gotime \<Rightarrow> gotime \<Rightarrow> kv_op \<Rightarrow> kv_table \<Rightarrow> kv_reply \<times> kv_table" where
  "kv_step t0 now operation t =
     (case operation of
        OGet key \<Rightarrow> apfst (reply_of RValue) (KVGet key now (\<lambda>x. x) t)
      | OSet key value ttl mode \<Rightarrow> apfst (reply_of RFlag) (KVSet key value ttl mode t0 now t)
      | OCAS key expected expectedExists value ttl \<Rightarrow>
          apfst (reply_of RFlag) (KVCompareAndSwap key expected expectedExists value ttl t0 now t)
      | ODel keys \<Rightarrow> apfst (reply_of RInt) (KVDel keys now t)
      | OExpire key ttl \<Rightarrow> apfst (reply_of RFlag) (KVExpire key ttl t0 now t)
      | OTTL key \<Rightarrow> apfst (reply_of RInt) (KVTTL key now (\<lambda>x. x) t)
      | OIncrBy key delta \<Rightarrow> apfst (reply_of RInt) (KVIncrBy key delta now t)
      | OMGet keys \<Rightarrow> apfst (reply_of RValues) (KVMGet (map (\<lambda>k. (k, now)) keys) (\<lambda>x. x) t)
      | OMSet pairs \<Rightarrow> apfst (\<lambda>e. case e of Some e \<Rightarrow> RFail e | None \<Rightarrow> RDone) (KVMSet pairs t))"

text \<open>What it does to the abstract store.\<close>

definition on_key :: "string \<Rightarrow> kv_live \<Rightarrow> (string \<Rightarrow> kv_reply \<times> kv_live) \<Rightarrow> kv_reply \<times> kv_live" where
  "on_key key m f = (case normalizeKVKey key of Inl e \<Rightarrow> (RFail e, m) | Inr k \<Rightarrow> f k)"

definition spec_set :: "gotime \<Rightarrow> string \<Rightarrow> string \<Rightarrow> gotime option \<Rightarrow> kv_mode \<Rightarrow> kv_live \<Rightarrow> kv_reply \<times> kv_live" where
  "spec_set now k v e mode m =
     (if (mode = KVSetModeNX \<and> m k \<noteq> None) \<or> (mode = KVSetModeXX \<and> m k = None) then (RFlag False, m)
      else (RFlag True, put now k v e m))"

definition spec_cas :: "gotime \<Rightarrow> string \<Rightarrow> string option \<Rightarrow> string \<Rightarrow> gotime option \<Rightarrow> kv_live \<Rightarrow> kv_reply \<times> kv_live" where
  "spec_cas now k expected v e m =
     (if map_option fst (m k) = expected then (RFlag True, put now k v e m) else (RFlag False, m))"

definition spec_incr :: "gotime \<Rightarrow> string \<Rightarrow> int \<Rightarrow> kv_live \<Rightarrow> kv_reply \<times> kv_live" where
  "spec_incr now k delta m =
     (case m k of
        None \<Rightarrow> (RInt delta, put now k (format_int64 delta) None m)
      | Some (v, e) \<Rightarrow>
          (case parse_int64 v of
             None \<Rightarrow> (RFail (NotAnInteger v), m)
           | Some current \<Rightarrow>
               (RInt (wrap64 (current + delta)), put now k (format_int64 (wrap64 (current + delta))) e m)))"

definition spec_ttl :: "gotime \<Rightarrow> string \<Rightarrow> kv_live \<Rightarrow> kv_reply" where
  "spec_ttl now k m =
     (case m k of
        None \<Rightarrow> RInt (- 2)
      | Some (v, None) \<Rightarrow> RInt (- 1)
      | Some (v, Some e) \<Rightarrow> RInt (time_sub e now div second))"

fun keys_of :: "string list \<Rightarrow> kv_error + string list" where
  "keys_of [] = Inr []"
| "keys_of (key # keys) =
     (case normalizeKVKey key of
        Inl e \<Rightarrow> Inl e
      | Inr k \<Rightarrow> (case keys_of keys of Inl e \<Rightarrow> Inl e | Inr ks \<Rightarrow> Inr (k # ks)))"

definition spec_step :: "gotime \<Rightarrow> gotime \<Rightarrow> kv_op \<Rightarrow> kv_live \<Rightarrow> kv_reply \<times> kv_live" where
  "spec_step t0 now operation m =
     (case operation of
        OGet key \<Rightarrow> on_key key m (\<lambda>k. (RValue (map_option fst (m k)), m))
      | OSet key value ttl mode \<Rightarrow>
          on_key key m (\<lambda>k. case mode of
              KVSetModeOther s \<Rightarrow> (RFail (UnsupportedMode s), m)
            | _ \<Rightarrow> spec_set now k value (kvExpiresAt t0 ttl) mode m)
      | OCAS key expected expectedExists value ttl \<Rightarrow>
          on_key key m (\<lambda>k. spec_cas now k (if expectedExists then Some expected else None) value (kvExpiresAt t0 ttl) m)
      | ODel keys \<Rightarrow>
          (case keys_of keys of
             Inl e \<Rightarrow> (RFail e, m)
           | Inr ks \<Rightarrow> (RInt (int (card (set ks \<inter> dom m))), m |` (- set ks)))
      | OExpire key ttl \<Rightarrow>
          on_key key m (\<lambda>k. case m k of
              None \<Rightarrow> (RFlag False, m)
            | Some (v, e) \<Rightarrow> (RFlag True, put now k v (Some (t0 + ttl)) m))
      | OTTL key \<Rightarrow> on_key key m (\<lambda>k. (spec_ttl now k m, m))
      | OIncrBy key delta \<Rightarrow> on_key key m (\<lambda>k. spec_incr now k delta m)
      | OMGet keys \<Rightarrow>
          (case keys_of keys of
             Inl e \<Rightarrow> (RFail e, m)
           | Inr ks \<Rightarrow> (RValues (map (\<lambda>k. map_option fst (m k)) ks), m))
      | OMSet pairs \<Rightarrow>
          (case keys_of (map fst pairs) of
             Inl e \<Rightarrow> (RFail e, m)
           | Inr ks \<Rightarrow> (RDone, fold (\<lambda>(k, v) m. m(k \<mapsto> (v, None))) (zip ks (map snd pairs)) m)))"

text \<open>A history of operations with the clock readings of each.\<close>

fun run_with :: "(gotime \<Rightarrow> gotime \<Rightarrow> 'o \<Rightarrow> 's \<Rightarrow> 'r \<times> 's) \<Rightarrow> (gotime \<times> gotime \<times> 'o) list \<Rightarrow> 's \<Rightarrow> 'r list \<times> 's" where
  "run_with step [] s = ([], s)"
| "run_with step ((t0, now, operation) # ops) s =
     (let (r, s') = step t0 now operation s; (rs, s'') = run_with step ops s' in (r # rs, s''))"

definition spec_aged :: "gotime \<Rightarrow> gotime \<Rightarrow> kv_op \<Rightarrow> kv_live \<Rightarrow> kv_reply \<times> kv_live" where
  "spec_aged t0 now operation m = spec_step t0 now operation (aged now m)"

definition readings :: "(gotime \<times> gotime \<times> 'o) list \<Rightarrow> gotime list" where
  "readings ops = map (\<lambda>(t0, now, operation). now) ops"

lemma readings_simps [simp]: "readings [] = []" "readings ((t0, now, operation) # ops) = now # readings ops"
  "readings (ops @ ops') = readings ops @ readings ops'"
  by (simp_all add: readings_def)

section \<open>The operations refine the abstract store\<close>

lemma alive_expired: "alive now (kv_ExpiresAt r) \<longleftrightarrow> \<not> kvRecordExpired r now"
  by (simp add: alive_def kvRecordExpired_def split: option.split)

lemma view_at:
  "kv_view now t k = (case map_of t k of None \<Rightarrow> None
     | Some r \<Rightarrow> if kvRecordExpired r now then None else Some (kv_Value r, kv_ExpiresAt r))"
  by (simp add: kv_view_def aged_def alive_expired split: option.split)

lemma view_None: "map_of t k = None \<Longrightarrow> kv_view now t k = None"
  by (simp add: view_at)

lemma view_Some:
  "map_of t k = Some r \<Longrightarrow>
   kv_view now t k = (if kvRecordExpired r now then None else Some (kv_Value r, kv_ExpiresAt r))"
  by (simp add: view_at)

lemma view_update [simp]:
  "kv_view now (AList.update k r t) = put now k (kv_Value r) (kv_ExpiresAt r) (kv_view now t)"
  by (rule ext) (simp add: view_at put_def alive_expired)

lemma view_delete [simp]: "kv_view now (AList.delete k t) = (kv_view now t)(k := None)"
  by (rule ext) (simp add: view_at)

lemma view_deleteExpired:
  "map_of t k = Some r \<Longrightarrow> kvRecordExpired r now \<Longrightarrow>
   kv_view now (deleteExpiredKVTx k (kv_ExpiresAt r) t) = kv_view now t"
  by (cases "kv_ExpiresAt r")
    (auto simp: deleteExpiredKVTx_def kvRecordExpired_def fun_eq_iff view_at)

lemma bump_fields [simp]: "kv_Value (bump r) = kv_Value r" "kv_ExpiresAt (bump r) = kv_ExpiresAt r"
  by (simp_all add: bump_def)

text \<open>A step of the table simulates a step of its view.\<close>

definition simulates :: "gotime \<Rightarrow> kv_reply \<times> kv_table \<Rightarrow> kv_reply \<times> kv_live \<Rightarrow> bool" where
  "simulates now x y \<longleftrightarrow> fst x = fst y \<and> kv_view now (snd x) = snd y"

lemma simulates_pair [simp]: "simulates now (r, t) (r', m) \<longleftrightarrow> r = r' \<and> kv_view now t = m"
  by (simp add: simulates_def)

lemma simulates_key:
  assumes "\<And>k. normalizeKVKey key = Inr k \<Longrightarrow> simulates now (f k) (g k)"
  shows "simulates now (case normalizeKVKey key of Inl e \<Rightarrow> (RFail e, t) | Inr k \<Rightarrow> f k)
    (on_key key (kv_view now t) g)"
  using assms by (simp add: on_key_def split: sum.split)

lemma reply_of_simps [simp]: "reply_of f (Inl e) = RFail e" "reply_of f (Inr a) = f a"
  by (simp_all add: reply_of_def)

lemma apfst_case: "apfst f (case x of Inl e \<Rightarrow> (Inl e, t) | Inr k \<Rightarrow> g k)
    = (case x of Inl e \<Rightarrow> (f (Inl e), t) | Inr k \<Rightarrow> apfst f (g k))"
  by (cases x) simp_all

lemma get_simulates:
  "simulates now (apfst (reply_of RValue) (KVGet key now (\<lambda>x. x) t)) (spec_step t0 now (OGet key) (kv_view now t))"
  unfolding KVGet_def spec_step_def kv_op.case apfst_case reply_of_simps
  by (rule simulates_key)
    (auto simp: view_None view_Some view_deleteExpired lazyDeleteExpiredKV_def split: option.split)

lemma set_simulates:
  "simulates now (apfst (reply_of RFlag) (KVSet key value ttl mode t0 now t))
     (spec_step t0 now (OSet key value ttl mode) (kv_view now t))"
  unfolding KVSet_def spec_step_def kv_op.case apfst_case reply_of_simps
proof (rule simulates_key)
  fix k
  show "simulates now (apfst (reply_of RFlag)
      (case validateKVSetMode mode of Some e \<Rightarrow> (Inl e, t)
       | None \<Rightarrow> (let expiresAt = kvExpiresAt t0 ttl
          in case map_of t k of
              None \<Rightarrow> if mode = KVSetModeXX then (Inr False, t)
                else (Inr True, AList.update k \<lparr>kv_Value = value, kv_Version = 1, kv_ExpiresAt = expiresAt\<rparr> t)
            | Some record \<Rightarrow>
                if kvRecordExpired record now
                then let t' = deleteExpiredKVTx k (kv_ExpiresAt record) t
                     in if mode = KVSetModeXX then (Inr False, t')
                        else (Inr True, AList.update k
                          \<lparr>kv_Value = value, kv_Version = next_version record, kv_ExpiresAt = expiresAt\<rparr> t')
                else if mode = KVSetModeNX then (Inr False, t)
                else (Inr True, AList.update k
                        (bump (record\<lparr>kv_Value := value, kv_ExpiresAt := expiresAt\<rparr>)) t))))
    (case mode of KVSetModeOther s \<Rightarrow> (RFail (UnsupportedMode s), kv_view now t)
     | _ \<Rightarrow> spec_set now k value (kvExpiresAt t0 ttl) mode (kv_view now t))"
    by (cases mode; cases "map_of t k")
      (simp_all add: validateKVSetMode_def Let_def spec_set_def view_None view_Some view_deleteExpired)
qed

lemma cas_simulates:
  "simulates now (apfst (reply_of RFlag) (KVCompareAndSwap key expected expectedExists value ttl t0 now t))
     (spec_step t0 now (OCAS key expected expectedExists value ttl) (kv_view now t))"
  unfolding KVCompareAndSwap_def spec_step_def kv_op.case apfst_case reply_of_simps
  by (rule simulates_key)
    (auto simp: Let_def spec_cas_def view_None view_Some view_deleteExpired split: option.split)

lemma expire_simulates:
  "simulates now (apfst (reply_of RFlag) (KVExpire key ttl t0 now t))
     (spec_step t0 now (OExpire key ttl) (kv_view now t))"
  unfolding KVExpire_def spec_step_def kv_op.case apfst_case reply_of_simps
  by (rule simulates_key) (auto simp: view_None view_Some view_deleteExpired split: option.split)

lemma ttl_simulates:
  "simulates now (apfst (reply_of RInt) (KVTTL key now (\<lambda>x. x) t)) (spec_step t0 now (OTTL key) (kv_view now t))"
  unfolding KVTTL_def spec_step_def kv_op.case apfst_case reply_of_simps
proof (rule simulates_key)
  fix k
  have "0 \<le> time_sub e now" if "now < e" for e
    using that by (intro time_sub_nonneg) simp
  then have nonneg: "0 \<le> time_sub e now" "\<not> time_sub e now div 1000000000 < 0" if "now < e" for e
    using that by (simp_all add: not_less pos_imp_zdiv_nonneg_iff)
  show "simulates now (apfst (reply_of RInt)
      (case map_of t k of None \<Rightarrow> (Inr (- 2), t)
       | Some record \<Rightarrow>
           if kvRecordExpired record now then (Inr (- 2), lazyDeleteExpiredKV k (kv_ExpiresAt record) t)
           else (case kv_ExpiresAt record of None \<Rightarrow> (Inr (- 1), t)
             | Some e \<Rightarrow>
                 (let d = time_sub e now; remaining = (if 0 \<le> d then d div second else - ((- d) div second))
                  in (Inr (if remaining < 0 then - 2 else remaining), t)))))
    (spec_ttl now k (kv_view now t), kv_view now t)"
    using nonneg
    by (auto simp: spec_ttl_def view_None view_Some view_deleteExpired lazyDeleteExpiredKV_def Let_def
        kvRecordExpired_def second_def split: option.split)
qed

lemma incr_simulates:
  "simulates now (apfst (reply_of RInt) (KVIncrBy key delta now t)) (spec_step t0 now (OIncrBy key delta) (kv_view now t))"
  unfolding KVIncrBy_def spec_step_def kv_op.case apfst_case reply_of_simps
  by (rule simulates_key)
    (auto simp: Let_def spec_incr_def view_None view_Some view_deleteExpired split: option.split)

subsection \<open>Several keys\<close>

lemma normalize_loop_keys:
  "normalize_loop keys out = (case keys_of keys of Inl e \<Rightarrow> Inl e | Inr ks \<Rightarrow> Inr (out @ remdups' out ks))"
  if "\<And>out. remdups' out [] = []" "\<And>out k ks. remdups' out (k # ks) =
      (if List.member out k then remdups' out ks else k # remdups' (out @ [k]) ks)" for remdups'
  by (induction keys arbitrary: out) (simp_all add: that split: sum.split)

fun fresh_keys :: "string list \<Rightarrow> string list \<Rightarrow> string list" where
  "fresh_keys out [] = []"
| "fresh_keys out (k # ks) = (if List.member out k then fresh_keys out ks else k # fresh_keys (out @ [k]) ks)"

lemma fresh_keys_set: "set (fresh_keys out ks) = set ks - set out"
  by (induction ks arbitrary: out) auto

lemma fresh_keys_distinct: "distinct (fresh_keys out ks)"
  by (induction ks arbitrary: out) (auto simp: fresh_keys_set)

lemma normalizeKVKeys_eq:
  "normalizeKVKeys keys = (case keys_of keys of Inl e \<Rightarrow> Inl e | Inr ks \<Rightarrow> Inr (sort (fresh_keys [] ks)))"
  using normalize_loop_keys [of fresh_keys keys "[]"] by (simp add: normalizeKVKeys_def split: sum.split)

lemma restrict_UNIV [simp]: "m |` UNIV = m"
  by (simp add: restrict_map_def)

lemma del_loop_view:
  "distinct keys \<Longrightarrow> del_loop now keys n t = (n', t') \<Longrightarrow>
   n' = n + int (card (set keys \<inter> dom (kv_view now t))) \<and> kv_view now t' = kv_view now t |` (- set keys)"
proof (induction keys arbitrary: n t)
  case (Cons key keys)
  have absent: "set (key # keys) \<inter> dom (kv_view now t) = set keys \<inter> dom (kv_view now t)
      \<and> kv_view now t |` (- set (key # keys)) = kv_view now t |` (- set keys)" if "kv_view now t key = None"
    using that by (auto simp: restrict_map_def fun_eq_iff domIff)
  show ?case
  proof (cases "map_of t key")
    case None
    with Cons absent [OF view_None [OF None]] show ?thesis
      by simp
  next
    case (Some r)
    show ?thesis
    proof (cases "kvRecordExpired r now")
      case True
      have "kv_view now t key = None"
        using Some True by (simp add: view_Some)
      note absent = absent [OF this]
      have "n' = n + int (card (set keys \<inter> dom (kv_view now t))) \<and> kv_view now t' = kv_view now t |` (- set keys)"
        using Cons.IH [of n "deleteExpiredKVTx key (kv_ExpiresAt r) t"] Cons.prems Some True
        unfolding view_deleteExpired [OF Some True] by simp
      with absent show ?thesis
        by simp
    next
      case False
      let ?t = "AList.delete key t"
      have "n' = n + 1 + int (card (set keys \<inter> dom (kv_view now ?t)))
          \<and> kv_view now t' = kv_view now ?t |` (- set keys)"
        using Cons.IH [of "n + 1" ?t] Cons.prems Some False by (simp del: view_delete)
      moreover have "set (key # keys) \<inter> dom (kv_view now t) = insert key (set keys \<inter> dom (kv_view now ?t))"
        using Some False by (auto simp: domIff view_Some split: if_splits)
      then have "card (set (key # keys) \<inter> dom (kv_view now t)) = Suc (card (set keys \<inter> dom (kv_view now ?t)))"
        using Cons.prems(1) by (simp del: view_delete)
      moreover have "kv_view now ?t |` (- set keys) = kv_view now t |` (- set (key # keys))"
        by (auto simp: restrict_map_def fun_eq_iff)
      ultimately show ?thesis
        by (simp del: view_delete)
    qed
  qed
qed simp

lemma del_simulates:
  "simulates now (apfst (reply_of RInt) (KVDel keys now t)) (spec_step t0 now (ODel keys) (kv_view now t))"
proof (cases "keys_of keys")
  case (Inl e)
  then show ?thesis
    by (simp add: KVDel_def normalizeKVKeys_eq spec_step_def)
next
  case (Inr ks)
  let ?ks = "sort (fresh_keys [] ks)"
  obtain n t' where del: "del_loop now ?ks 0 t = (n, t')"
    by force
  have "n = int (card (set ks \<inter> dom (kv_view now t))) \<and> kv_view now t' = kv_view now t |` (- set ks)"
    using del_loop_view [OF _ del] by (simp add: fresh_keys_distinct fresh_keys_set)
  moreover have "fresh_keys [] ks = [] \<longleftrightarrow> ks = []"
    by (cases ks) simp_all
  ultimately show ?thesis
    using Inr del by (cases "ks = []") (simp_all add: KVDel_def normalizeKVKeys_eq spec_step_def)
qed

lemma mget_simulates:
  "simulates now (apfst (reply_of RValues) (KVMGet (map (\<lambda>k. (k, now)) keys) (\<lambda>x. x) t))
     (spec_step t0 now (OMGet keys) (kv_view now t))"
proof (induction keys arbitrary: t)
  case (Cons key keys)
  obtain r t' where get: "KVGet key now (\<lambda>x. x) t = (r, t')"
    by force
  have sim: "simulates now (reply_of RValue r, t') (spec_step t0 now (OGet key) (kv_view now t))"
    using get_simulates [of now key t t0] get by simp
  show ?case
  proof (cases "normalizeKVKey key")
    case (Inl e)
    then show ?thesis
      by (simp add: KVGet_def spec_step_def)
  next
    case (Inr k)
    with sim have view: "kv_view now t' = kv_view now t" "reply_of RValue r = RValue (map_option fst (kv_view now t k))"
      by (simp_all add: spec_step_def on_key_def)
    then obtain v where r: "r = Inr v" "v = map_option fst (kv_view now t k)"
      by (cases r) auto
    obtain rs t'' where rest: "KVMGet (map (\<lambda>k. (k, now)) keys) (\<lambda>x. x) t' = (rs, t'')"
      by force
    show ?thesis
      using Cons [of t'] Inr view(1) r rest get
      by (cases rs; cases "keys_of keys") (auto simp: spec_step_def)
  qed
qed (simp add: spec_step_def)

lemma put_None [simp]: "put now k v None m = m(k \<mapsto> (v, None))"
  by (simp add: put_def alive_def)

lemma mset_loop_view:
  "kv_view now (mset_loop vals keys t)
     = (\<lambda>k. if k \<in> set keys then Some (gomap_get [] vals k, None) else kv_view now t k)"
proof (induction keys arbitrary: t)
  case (Cons key keys)
  then show ?case
    by (auto simp: fun_eq_iff split: option.split)
qed (simp add: fun_eq_iff)

lemma mset_keys_eq:
  "mset_keys pairs keys vals =
     (case keys_of (map fst pairs) of
        Inl e \<Rightarrow> Inl e
      | Inr ks \<Rightarrow> Inr (keys @ ks, fold (\<lambda>(k, v). AList.update k v) (zip ks (map snd pairs)) vals))"
  by (induction pairs arbitrary: keys vals) (auto split: sum.split)

lemma fold_sets:
  "fold (\<lambda>(k, v) m. m(k \<mapsto> (v, None))) kvs m k
     = (if k \<in> fst ` set kvs then Some (gomap_get [] (fold (\<lambda>(k, v). AList.update k v) kvs vals) k, None) else m k)"
proof (induction kvs rule: rev_induct)
  case (snoc kv kvs)
  then show ?case
    by (cases kv; cases "k = fst kv"; cases "k \<in> fst ` set kvs") simp_all
qed simp

lemma keys_of_length: "keys_of keys = Inr ks \<Longrightarrow> length ks = length keys"
  by (induction keys arbitrary: ks) (auto split: sum.splits)

lemma mset_simulates:
  "simulates now (apfst (\<lambda>e. case e of Some e \<Rightarrow> RFail e | None \<Rightarrow> RDone) (KVMSet pairs t))
     (spec_step t0 now (OMSet pairs) (kv_view now t))"
proof (cases "keys_of (map fst pairs)")
  case (Inl e)
  then show ?thesis
    by (simp add: KVMSet_def mset_keys_eq spec_step_def)
next
  case (Inr ks)
  have "fst ` set (zip ks (map snd pairs)) = set ks"
    using keys_of_length [OF Inr] by (metis length_map map_fst_zip set_map)
  then show ?thesis
    using Inr fold_sets [of "zip ks (map snd pairs)" "kv_view now t" _ "[]"]
    by (simp add: KVMSet_def mset_keys_eq spec_step_def mset_loop_view fun_eq_iff)
qed

lemma kv_step_simulates: "simulates now (kv_step t0 now operation t) (spec_step t0 now operation (kv_view now t))"
  by (cases operation)
    (simp_all only: kv_step_def kv_op.case get_simulates set_simulates cas_simulates del_simulates
      expire_simulates ttl_simulates incr_simulates mget_simulates mset_simulates)

lemma aged_view: "now \<le> now' \<Longrightarrow> aged now' (kv_view now t) = kv_view now' t"
  by (auto simp: fun_eq_iff view_at aged_def alive_expired kvRecordExpired_def split: option.split)

section \<open>The service its clients see\<close>

text \<open>
  The contract of the store for whoever calls it: a state with a view that ages with the clock, and
  steps that answer and act as the abstract store does.  What clients rely on is proved from the
  contract alone.
\<close>

text \<open>Operations that leave a key to its holder: reads, conditional creations, and anything on other keys.\<close>

definition other_key :: "string \<Rightarrow> string \<Rightarrow> bool" where
  "other_key k key \<longleftrightarrow> normalizeKVKey key \<noteq> Inr k"

definition yields_to :: "string \<Rightarrow> kv_op \<Rightarrow> bool" where
  "yields_to k operation =
     (case operation of
        OGet key \<Rightarrow> True
      | OTTL key \<Rightarrow> True
      | OMGet keys \<Rightarrow> True
      | OSet key value ttl mode \<Rightarrow> (mode = KVSetModeNX \<or> other_key k key)
      | OCAS key expected expectedExists value ttl \<Rightarrow> (\<not> expectedExists \<or> other_key k key)
      | ODel keys \<Rightarrow> list_all (other_key k) keys
      | OExpire key ttl \<Rightarrow> other_key k key
      | OIncrBy key delta \<Rightarrow> other_key k key
      | OMSet pairs \<Rightarrow> list_all (\<lambda>(key, v). other_key k key) pairs)"

lemma keys_of_others: "list_all (other_key k) keys \<Longrightarrow> keys_of keys = Inr ks \<Longrightarrow> k \<notin> set ks"
  by (induction keys arbitrary: ks) (auto simp: other_key_def split: sum.splits)

lemma spec_step_yields:
  assumes "yields_to k operation" "m k = Some ve"
  shows "snd (spec_step t0 now operation m) k = Some ve"
proof (cases operation)
  case (ODel keys)
  with assms show ?thesis
    using keys_of_others [of k keys] by (auto simp: spec_step_def yields_to_def restrict_map_def split: sum.split)
next
  case (OMSet pairs)
  have "k \<notin> fst ` set (zip ks (map snd pairs))" if "keys_of (map fst pairs) = Inr ks" for ks
    using keys_of_others [OF _ that] assms OMSet
    by (auto simp: yields_to_def list.pred_map comp_def case_prod_unfold dest: set_zip_leftD)
  with OMSet assms show ?thesis
    by (auto simp: spec_step_def fold_sets [where vals = "[]"] split: sum.split)
next
  case (OSet key v ttl mode)
  with assms show ?thesis
    by (cases mode; cases ve) (auto simp: spec_step_def yields_to_def other_key_def on_key_def spec_set_def put_def split: sum.split)
next
  case (OIncrBy key delta)
  with assms show ?thesis
    by (auto simp: spec_step_def yields_to_def other_key_def on_key_def spec_incr_def put_def split: sum.split option.split)
next
  case (OExpire key ttl)
  with assms show ?thesis
    by (auto simp: spec_step_def yields_to_def other_key_def on_key_def put_def split: sum.split option.split)
qed (use assms in \<open>auto simp: spec_step_def yields_to_def other_key_def on_key_def spec_cas_def put_def split: sum.split\<close>)

locale kv_service =
  fixes view :: "gotime \<Rightarrow> 's \<Rightarrow> kv_live"
    and step :: "gotime \<Rightarrow> gotime \<Rightarrow> kv_op \<Rightarrow> 's \<Rightarrow> kv_reply \<times> 's"
  assumes view_ages: "now \<le> now' \<Longrightarrow> view now' s = aged now' (view now s)"
    and step_replies: "fst (step t0 now operation s) = fst (spec_step t0 now operation (view now s))"
    and step_view: "view now (snd (step t0 now operation s)) = snd (spec_step t0 now operation (view now s))"
begin

lemma run_refines:
  assumes "sorted (start # readings ops)"
  shows "fst (run_with step ops s) = fst (run_with spec_aged ops (view start s))"
  using assms
proof (induction ops arbitrary: start s)
  case (Cons o1 ops)
  obtain t0 now operation where o1: "o1 = (t0, now, operation)"
    by (cases o1)
  let ?s = "snd (step t0 now operation s)"
  have "spec_aged t0 now operation (view start s) = (fst (step t0 now operation s), view now ?s)"
    using Cons.prems view_ages [of start now s]
    by (simp add: o1 spec_aged_def step_replies step_view)
  moreover have "fst (run_with step ops ?s) = fst (run_with spec_aged ops (view now ?s))"
    using Cons.prems by (intro Cons.IH) (simp add: o1)
  ultimately show ?case
    by (simp add: o1 case_prod_unfold Let_def)
qed simp

lemma holder_keeps:
  assumes "sorted (now # readings ops @ [now'])" "\<forall>(t0, now, operation) \<in> set ops. yields_to k operation"
    and "view now s k = Some (v, e)" "alive now' e"
  shows "view now' (snd (run_with step ops s)) k = Some (v, e)"
  using assms(1-3)
proof (induction ops arbitrary: now s)
  case Nil
  then show ?case
    using assms(4) view_ages [of now now' s] by (simp add: aged_def)
next
  case (Cons o1 ops)
  obtain t0 now1 operation where o1: "o1 = (t0, now1, operation)"
    by (cases o1)
  have "alive now1 e"
    using Cons.prems(1) assms(4) by (auto simp: o1 alive_def split: option.splits)
  then have "view now1 s k = Some (v, e)"
    using Cons.prems view_ages [of now now1 s] by (simp add: o1 aged_def)
  then have "view now1 (snd (step t0 now1 operation s)) k = Some (v, e)"
    using Cons.prems(2) by (auto simp: o1 step_view spec_step_yields)
  from Cons.IH [OF _ _ this] show ?case
    using Cons.prems by (simp add: o1 case_prod_unfold Let_def)
qed

lemma lock_exclusive:
  assumes "sorted (now # readings ops @ [now'])" "normalizeKVKey key = Inr k"
    and "\<forall>(t0, now, operation) \<in> set ops. yields_to k operation"
    and "0 < ttl" "now' < t0 + ttl"
    and "fst (step t0 now (OSet key v ttl KVSetModeNX) s) = RFlag True"
  shows "fst (step t0' now' (OSet key v' ttl' KVSetModeNX)
      (snd (run_with step ops (snd (step t0 now (OSet key v ttl KVSetModeNX) s))))) = RFlag False"
proof -
  let ?s = "snd (step t0 now (OSet key v ttl KVSetModeNX) s)"
  have alive: "alive now' (Some (t0 + ttl))" "alive now (Some (t0 + ttl))"
    using assms(1,5) by (auto simp: alive_def)
  have "view now ?s k = Some (v, Some (t0 + ttl))"
    using assms(2,4,6) alive
    by (auto simp: step_replies step_view spec_step_def on_key_def spec_set_def kvExpiresAt_def put_def split: if_splits)
  from holder_keeps [OF assms(1,3) this alive(1)]
  show ?thesis
    using assms(2) by (simp add: step_replies spec_step_def on_key_def spec_set_def)
qed

lemma counter_adds:
  assumes "normalizeKVKey key = Inr k" "sorted (start # nows)" "length nows = length deltas"
    and "view start s k = Some (format_int64 n, None)" "is_i64 n"
  shows "fst (run_with step (map2 (\<lambda>now d. (now, now, OIncrBy key d)) nows deltas) s)
    = map (\<lambda>i. RInt (wrap64 (n + sum_list (take (Suc i) deltas)))) [0..<length deltas]"
  using assms(2-5)
proof (induction nows deltas arbitrary: start s n rule: list_induct2')
  case (4 now nows d deltas)
  let ?n = "wrap64 (n + d)"
  let ?s = "snd (step now now (OIncrBy key d) s)"
  have here: "view now s k = Some (format_int64 n, None)"
    using "4.prems"(1,3) view_ages [of start now s] by (simp add: aged_def alive_def)
  then have step: "fst (step now now (OIncrBy key d) s) = RInt ?n" "view now ?s k = Some (format_int64 ?n, None)"
    using assms(1) parse_format_int64 [OF "4.prems"(4)]
    by (simp_all add: step_replies step_view spec_step_def on_key_def spec_incr_def)
  have wrap: "wrap64 (?n + x) = wrap64 (n + d + x)" for x
    by (simp add: wrap64_def mod_simps algebra_simps)
  have "fst (run_with step (map2 (\<lambda>now d. (now, now, OIncrBy key d)) nows deltas) ?s)
      = map (\<lambda>i. RInt (wrap64 (?n + sum_list (take (Suc i) deltas)))) [0..<length deltas]"
    using "4.prems"(1,2) step(2) by (intro "4.IH" [where start = now]) simp_all
  then show ?case
    using step(1) by (simp add: case_prod_unfold Let_def wrap map_upt_Suc add.assoc del: upt_Suc)
qed simp_all

end

interpretation table: kv_service kv_view kv_step
proof
  fix now now' t0 operation and t :: kv_table
  show "now \<le> now' \<Longrightarrow> kv_view now' t = aged now' (kv_view now t)"
    by (simp add: aged_view)
  show "fst (kv_step t0 now operation t) = fst (spec_step t0 now operation (kv_view now t))"
    "kv_view now (snd (kv_step t0 now operation t)) = snd (spec_step t0 now operation (kv_view now t))"
    using kv_step_simulates [of now t0 operation t] by (simp_all add: simulates_def)
qed

section \<open>Properties\<close>

text \<open>
  C36. The store is an expiring map: whatever the operations of a history and their clock readings,
  as long as the clock does not run backwards, every reply is the one of the abstract store, in which a
  key disappears at its expiry.  Expired rows that wait to be deleted, versions and the way deletions
  are put off are not observable.
\<close>

theorem kv_refines_expiring_map:
  assumes "sorted (start # readings ops)"
  shows "fst (run_with kv_step ops t) = fst (run_with spec_aged ops (kv_view start t))"
  by (rule table.run_refines [OF assms])

theorem kv_refines_expiring_map_witness:
  "fst (run_with kv_step [(0, 1, OSet ''k'' ''v'' 10 KVSetModeNX), (2, 3, OSet ''k'' ''w'' 10 KVSetModeNX),
      (11, 12, OGet ''k''), (12, 13, OSet ''k'' ''w'' 0 KVSetModeNX), (14, 14, OGet '' k'')] [])
    = [RFlag True, RFlag False, RValue None, RFlag True, RValue (Some ''w'')]"
proof -
  have "sorted (0 # readings [(0, 1, OSet ''k'' ''v'' 10 KVSetModeNX), (2, 3, OSet ''k'' ''w'' 10 KVSetModeNX),
      (11, 12, OGet ''k''), (12, 13, OSet ''k'' ''w'' 0 KVSetModeNX), (14, 14, OGet '' k'')])"
    by simp
  from kv_refines_expiring_map [OF this, of "[]"] show ?thesis
    by (simp add: spec_aged_def spec_step_def on_key_def spec_set_def normalizeKVKey_def trim_space_def go_space_def
        kv_view_def aged_def alive_def put_def kvExpiresAt_def)
qed

lemma deletions_keep:
  assumes "map_of (later t) k = Some r" "\<not> kvRecordExpired r now"
  shows "map_of (snd (KVGet key now later t)) k = Some r"
    "map_of (snd (KVTTL key now later t)) k = Some r"
    "map_of (snd (KVPurgeExpired now now limit later t)) k = Some r"
proof -
  have lazy: "map_of (lazyDeleteExpiredKV key' (kv_ExpiresAt r') (later t)) k = Some r"
    if "kvRecordExpired r' now" for key' r'
    using assms that
    by (auto simp: lazyDeleteExpiredKV_def deleteExpiredKVTx_def kvRecordExpired_def split: option.splits)
  show "map_of (snd (KVGet key now later t)) k = Some r" "map_of (snd (KVTTL key now later t)) k = Some r"
    using lazy assms(1) by (auto simp: KVGet_def KVTTL_def Let_def split: option.split sum.split)
  have "map_of (filter Q m) k = Some r" if "map_of m k = Some r" "Q (k, r)" for Q m
    using that by (induction m) (auto split: if_splits)
  then show "map_of (snd (KVPurgeExpired now now limit later t)) k = Some r"
    using assms by (simp add: KVPurgeExpired_def Let_def)
qed

text \<open>
  C37. Putting deletions off is safe: between reading an expired row and deleting it, others may write
  the key again.  Neither a read, nor a TTL query, nor the purge then deletes a row that is alive at the
  time it read, for every interference in between.
\<close>

theorem kv_lazy_deletion_safe:
  assumes "map_of (later t) k = Some r" "\<not> kvRecordExpired r now"
  shows "map_of (snd (KVGet key now later t)) k = Some r
    \<and> map_of (snd (KVTTL key now later t)) k = Some r
    \<and> map_of (snd (KVPurgeExpired now now limit later t)) k = Some r"
  using deletions_keep [of later t k r now, OF assms] by simp

theorem kv_lazy_deletion_safe_witness:
  "map_of (snd (KVGet ''k'' 20 (\<lambda>t. AList.update ''k'' \<lparr>kv_Value = ''w'', kv_Version = 2, kv_ExpiresAt = Some 90\<rparr> t)
      [(''k'', \<lparr>kv_Value = ''v'', kv_Version = 1, kv_ExpiresAt = Some 10\<rparr>)])) ''k''
    = Some \<lparr>kv_Value = ''w'', kv_Version = 2, kv_ExpiresAt = Some 90\<rparr>"
  by (rule kv_lazy_deletion_safe [THEN conjunct1]) (simp_all add: kvRecordExpired_def)

text \<open>
  A conditional creation is a lock: once \<open>SET key value NX\<close> with a positive TTL has succeeded,
  no later such attempt succeeds before the expiry, whatever is done meanwhile to other keys and
  whatever reads, conditional creations and swaps from absence are tried on this one.
\<close>

theorem kv_lock_exclusive:
  assumes "sorted (now # readings ops @ [now'])" "normalizeKVKey key = Inr k"
    and "\<forall>(t0, now, operation) \<in> set ops. yields_to k operation"
    and "0 < ttl" "now' < t0 + ttl"
    and "fst (kv_step t0 now (OSet key v ttl KVSetModeNX) t) = RFlag True"
  shows "fst (kv_step t0' now' (OSet key v' ttl' KVSetModeNX)
      (snd (run_with kv_step ops (snd (kv_step t0 now (OSet key v ttl KVSetModeNX) t))))) = RFlag False"
  by (rule table.lock_exclusive [OF assms])

theorem kv_lock_exclusive_witness:
  "fst (kv_step 5 6 (OSet ''k'' ''b'' 10 KVSetModeNX)
      (snd (run_with kv_step [(2, 3, ODel [''j'']), (3, 4, OCAS ''k'' [] False ''c'' 0)]
        (snd (kv_step 0 1 (OSet ''k'' ''a'' 10 KVSetModeNX) []))))) = RFlag False"
  by (rule kv_lock_exclusive [where k = "''k''"])
    (simp_all add: yields_to_def other_key_def normalizeKVKey_def trim_space_def go_space_def kv_step_def KVSet_def
      validateKVSetMode_def Let_def)

text \<open>
  C38. A counter adds up: increments answer with the running sums, reading back every number that was
  written, and wrap around at the bounds of \<^verbatim>\<open>int64\<close> instead of failing.
\<close>

theorem kv_counter_adds:
  assumes "normalizeKVKey key = Inr k" "sorted (start # nows)" "length nows = length deltas"
    and "kv_view start t k = Some (format_int64 n, None)" "is_i64 n"
  shows "fst (run_with kv_step (map2 (\<lambda>now d. (now, now, OIncrBy key d)) nows deltas) t)
    = map (\<lambda>i. RInt (wrap64 (n + sum_list (take (Suc i) deltas)))) [0..<length deltas]"
  by (rule table.counter_adds [OF assms])

theorem kv_counter_adds_witness:
  "fst (run_with kv_step (map2 (\<lambda>now d. (now, now, OIncrBy ''n'' d)) [5, 6] [max_i64, 1])
      [(''n'', \<lparr>kv_Value = format_int64 0, kv_Version = 1, kv_ExpiresAt = None\<rparr>)])
    = [RInt max_i64, RInt min_i64]"
proof -
  have "fst (run_with kv_step (map2 (\<lambda>now d. (now, now, OIncrBy ''n'' d)) [5, 6] [max_i64, 1])
      [(''n'', \<lparr>kv_Value = format_int64 0, kv_Version = 1, kv_ExpiresAt = None\<rparr>)])
    = map (\<lambda>i. RInt (wrap64 (0 + sum_list (take (Suc i) [max_i64, 1])))) [0..<length [max_i64, 1]]"
    by (rule kv_counter_adds [where k = "''n''" and start = 0])
      (simp_all add: normalizeKVKey_def trim_space_def go_space_def view_at kvRecordExpired_def)
  then show ?thesis
    by (simp add: wrap64_def i64_simps upt_rec)
qed

end
