(* ===== verification/Dispatch_Registry.thy ===== *)
theory Dispatch_Registry
  imports Home_Prelude
begin

section \<open>The command registry of the RESP server\<close>

text \<open>
  \<^verbatim>\<open>internal/respserver/dispatch/registry.go\<close>: replies, the tables of handlers and the dispatch of a
  command.  A handler is a function of the connection, the arguments and the state \<open>'s\<close> of the server;
  what it does is the business of the packages that register it.  The type field of a JSON argument,
  which \<^verbatim>\<open>gjson\<close> extracts, is the function \<open>json_type\<close>, \<open>None\<close> for a text that is not valid JSON.
\<close>

datatype reply =
    SimpleString string
  | BulkString "string option"
  | RedisErr string
  | Integer int
  | Array "reply list"

definition RedisError :: "string \<Rightarrow> reply" where
  "RedisError message0 = (let message = trim_space message0 in RedisErr (if message = [] then ''ERR error'' else message))"

definition Err :: "string \<Rightarrow> reply" where
  "Err message0 = (let message = trim_space message0 in RedisError (''ERR '' @ (if message = [] then ''error'' else message)))"

text \<open>
  Of the environment: whether the connection's lifetime is controlled, whether there is a runtime, whether
  the cluster store is enabled, and the clock readings of the command.
\<close>

record dispatch_env =
  de_Controlled :: bool
  de_Runtime :: bool
  de_Enabled :: bool
  de_t0 :: gotime
  de_now :: gotime

type_synonym 's handler = "dispatch_env \<Rightarrow> string list \<Rightarrow> 's \<Rightarrow> reply \<times> 's"

record 's dynamic_handlers =
  dh_byType :: "(string, 's handler) gomap"
  dh_defaultHandler :: "'s handler option"

record 's registry =
  rg_directHandlers :: "(string, (string, 's handler) gomap) gomap"
  rg_directDefaultHandlers :: "(string, 's handler) gomap"
  rg_dynamicHandlers :: "(string, 's dynamic_handlers) gomap"

definition NewRegistry :: "'s registry" where
  "NewRegistry = \<lparr>rg_directHandlers = [], rg_directDefaultHandlers = [], rg_dynamicHandlers = []\<rparr>"

text \<open>Upper case; the two letters below U+0100 whose upper case lies beyond it stay as they are.\<close>

definition upper_char :: "char \<Rightarrow> char" where
  "upper_char c =
     (let n = (of_char c :: nat)
      in if (97 \<le> n \<and> n \<le> 122) \<or> (224 \<le> n \<and> n \<le> 254 \<and> n \<noteq> 247) then char_of (n - 32) else c)"

definition to_upper :: "string \<Rightarrow> string" where
  "to_upper s = map upper_char s"

definition normalizeCommand :: "string \<Rightarrow> string" where
  "normalizeCommand v = to_upper (trim_space v)"

definition normalizeKey :: "string \<Rightarrow> string" where
  "normalizeKey v = to_lower (trim_space v)"

definition normalizeType :: "string \<Rightarrow> string" where
  "normalizeType v = to_lower (trim_space v)"

subsection \<open>Registration\<close>

datatype registry_error = CommandEmpty | KeyEmpty | TypeEmpty | HandlerNil

definition RegisterDirect :: "string \<Rightarrow> string \<Rightarrow> 's handler option \<Rightarrow> 's registry \<Rightarrow> registry_error option \<times> 's registry" where
  "RegisterDirect command0 key0 handler r =
     (let command = normalizeCommand command0
      in if command = [] then (Some CommandEmpty, r)
         else let key = normalizeKey key0
         in if key = [] then (Some KeyEmpty, r)
         else case handler of
             None \<Rightarrow> (Some HandlerNil, r)
           | Some h \<Rightarrow> (None, r\<lparr>rg_directHandlers :=
               AList.update command (AList.update key h (gomap_get [] (rg_directHandlers r) command))
                 (rg_directHandlers r)\<rparr>))"

definition SetDirectDefault :: "string \<Rightarrow> 's handler option \<Rightarrow> 's registry \<Rightarrow> registry_error option \<times> 's registry" where
  "SetDirectDefault command0 handler r =
     (let command = normalizeCommand command0
      in if command = [] then (Some CommandEmpty, r)
         else case handler of
             None \<Rightarrow> (Some HandlerNil, r)
           | Some h \<Rightarrow> (None, r\<lparr>rg_directDefaultHandlers := AList.update command h (rg_directDefaultHandlers r)\<rparr>))"

definition empty_dynamic :: "'s dynamic_handlers" where
  "empty_dynamic = \<lparr>dh_byType = [], dh_defaultHandler = None\<rparr>"

definition RegisterDynamic :: "string \<Rightarrow> string \<Rightarrow> 's handler option \<Rightarrow> 's registry \<Rightarrow> registry_error option \<times> 's registry" where
  "RegisterDynamic command0 typeValue0 handler r =
     (let command = normalizeCommand command0
      in if command = [] then (Some CommandEmpty, r)
         else let typeValue = normalizeType typeValue0
         in if typeValue = [] then (Some TypeEmpty, r)
         else case handler of
             None \<Rightarrow> (Some HandlerNil, r)
           | Some h \<Rightarrow>
               (let dyn = gomap_get empty_dynamic (rg_dynamicHandlers r) command
                in (None, r\<lparr>rg_dynamicHandlers :=
                     AList.update command (dyn\<lparr>dh_byType := AList.update typeValue h (dh_byType dyn)\<rparr>)
                       (rg_dynamicHandlers r)\<rparr>)))"

definition SetDynamicDefault :: "string \<Rightarrow> 's handler option \<Rightarrow> 's registry \<Rightarrow> registry_error option \<times> 's registry" where
  "SetDynamicDefault command0 handler r =
     (let command = normalizeCommand command0
      in if command = [] then (Some CommandEmpty, r)
         else case handler of
             None \<Rightarrow> (Some HandlerNil, r)
           | Some h \<Rightarrow>
               (let dyn = gomap_get empty_dynamic (rg_dynamicHandlers r) command
                in (None, r\<lparr>rg_dynamicHandlers :=
                     AList.update command (dyn\<lparr>dh_defaultHandler := Some h\<rparr>) (rg_dynamicHandlers r)\<rparr>)))"

subsection \<open>Dispatch\<close>

definition controlled_commands :: "string list" where
  "controlled_commands = [''RPOP'', ''LPUSH'', ''RPUSH'', ''SET'', ''CAS'', ''DEL'', ''MSET'', ''INCRBY'', ''EXPIRE'']"

definition commandRequiresControlledLifetime :: "string list \<Rightarrow> bool" where
  "commandRequiresControlledLifetime args =
     (case args of [] \<Rightarrow> False | arg # _ \<Rightarrow> List.member controlled_commands (to_upper (trim_space arg)))"

definition ExtractJSONArgument :: "string list \<Rightarrow> nat \<Rightarrow> string option" where
  "ExtractJSONArgument args jsonIndex =
     (if length args = 2 \<and> jsonIndex = 1 then Some (args ! 1)
      else if length args = 3 \<and> jsonIndex = 1 then Some (args ! 2)
      else None)"

definition extractTypeFromJSON :: "(string \<Rightarrow> string option) \<Rightarrow> string \<Rightarrow> string" where
  "extractTypeFromJSON json_type jsonArg0 =
     (let jsonArg = trim_space jsonArg0
      in if jsonArg = [] then []
         else case json_type jsonArg of None \<Rightarrow> [] | Some t \<Rightarrow> t)"

definition wrong_arguments :: "string \<Rightarrow> reply" where
  "wrong_arguments command = Err (''wrong number of arguments for '' @ [char_of (39 :: nat)] @ to_lower command
     @ [char_of (39 :: nat)] @ '' command'')"

definition unknown_command :: "string \<Rightarrow> reply" where
  "unknown_command command = RedisError (''ERR unknown command '' @ [char_of (39 :: nat)] @ to_lower command
     @ [char_of (39 :: nat)])"

text \<open>Run a handler, or the default one, or fail.\<close>

definition run_or :: "'s handler option \<Rightarrow> reply \<Rightarrow> 's handler" where
  "run_or handler failure env args s = (case handler of Some h \<Rightarrow> h env args s | None \<Rightarrow> (failure, s))"

definition execute_direct :: "'s registry \<Rightarrow> (string, 's handler) gomap \<Rightarrow> string \<Rightarrow> 's handler" where
  "execute_direct r direct command env args s =
     (if length args < 2
      then run_or (map_of (rg_directDefaultHandlers r) command) (wrong_arguments command) env args s
      else case map_of direct (normalizeKey (args ! 1)) of
          None \<Rightarrow> run_or (map_of (rg_directDefaultHandlers r) command) (Err ''unsupported key'') env args s
        | Some h \<Rightarrow> h env args s)"

definition execute_dynamic :: "(string \<Rightarrow> string option) \<Rightarrow> 's dynamic_handlers \<Rightarrow> string \<Rightarrow> 's handler" where
  "execute_dynamic json_type dyn command env args s =
     (case ExtractJSONArgument args 1 of
        None \<Rightarrow> run_or (dh_defaultHandler dyn) (wrong_arguments command) env args s
      | Some jsonArg \<Rightarrow>
          (let typeValue = normalizeType (extractTypeFromJSON json_type jsonArg)
           in if typeValue = [] then (Err ''unsupported type'', s)
              else run_or (map_of (dh_byType dyn) typeValue) (Err ''unsupported type'') env args s))"

definition Execute :: "(string \<Rightarrow> string option) \<Rightarrow> 's registry option \<Rightarrow> 's handler" where
  "Execute json_type registry env args s =
     (case registry of
        None \<Rightarrow> (Err ''registry not ready'', s)
      | Some r \<Rightarrow>
          (case args of
             [] \<Rightarrow> (Err ''empty command'', s)
           | arg # _ \<Rightarrow>
               (let command = normalizeCommand arg
                in if command = [] then (Err ''empty command'', s)
                   else if commandRequiresControlledLifetime args \<and> \<not> de_Controlled env
                   then (Err ''controlled connection required'', s)
                   else case map_of (rg_directHandlers r) command of
                       Some direct \<Rightarrow> execute_direct r direct command env args s
                     | None \<Rightarrow>
                         (case map_of (rg_dynamicHandlers r) command of
                            Some dyn \<Rightarrow> execute_dynamic json_type dyn command env args s
                          | None \<Rightarrow>
                              run_or (map_of (rg_directDefaultHandlers r) command) (unknown_command command)
                                env args s))))"

section \<open>Lookup after registration\<close>

lemma execute_uncontrolled:
  assumes "commandRequiresControlledLifetime args" "\<not> de_Controlled env"
  shows "snd (Execute json_type registry env args s) = s"
  using assms by (auto simp: Execute_def Let_def split: option.split list.split)

lemma command_nonempty: "normalizeCommand arg \<noteq> [] \<longleftrightarrow> trim_space arg \<noteq> []"
  by (simp add: normalizeCommand_def to_upper_def)

text \<open>A command that is allowed on the connection.\<close>

definition allowed :: "dispatch_env \<Rightarrow> string list \<Rightarrow> bool" where
  "allowed env args \<longleftrightarrow> de_Controlled env \<or> \<not> commandRequiresControlledLifetime args"

lemma execute_allowed:
  assumes "normalizeCommand arg = command" "command \<noteq> []" "allowed env (arg # args)"
  shows "Execute json_type (Some r) env (arg # args) s =
    (case map_of (rg_directHandlers r) command of
       Some direct \<Rightarrow> execute_direct r direct command env (arg # args) s
     | None \<Rightarrow>
         (case map_of (rg_dynamicHandlers r) command of
            Some dyn \<Rightarrow> execute_dynamic json_type dyn command env (arg # args) s
          | None \<Rightarrow> run_or (map_of (rg_directDefaultHandlers r) command) (unknown_command command) env (arg # args) s))"
  using assms by (auto simp: Execute_def Let_def allowed_def)

lemma registered_direct:
  assumes "RegisterDirect command key (Some h) r = (None, r')"
    and "normalizeCommand arg = normalizeCommand command" "normalizeKey arg1 = normalizeKey key"
    and "allowed env (arg # arg1 # args)"
  shows "Execute json_type (Some r') env (arg # arg1 # args) s = h env (arg # arg1 # args) s"
proof -
  have "normalizeCommand command \<noteq> []" and
    r': "map_of (rg_directHandlers r') (normalizeCommand command)
      = Some (AList.update (normalizeKey key) h (gomap_get [] (rg_directHandlers r) (normalizeCommand command)))"
    using assms(1) by (auto simp: RegisterDirect_def Let_def split: if_splits)
  with execute_allowed [OF assms(2) _ assms(4), of json_type r' s] assms(3) show ?thesis
    by (simp add: execute_direct_def)
qed

lemma registered_default:
  assumes "SetDirectDefault command (Some h) r = (None, r')" "normalizeCommand arg = normalizeCommand command"
    and "map_of (rg_directHandlers r) (normalizeCommand command) = None"
      "map_of (rg_dynamicHandlers r) (normalizeCommand command) = None"
    and "allowed env (arg # args)"
  shows "Execute json_type (Some r') env (arg # args) s = h env (arg # args) s"
proof -
  have "normalizeCommand command \<noteq> []" and
    r': "map_of (rg_directDefaultHandlers r') (normalizeCommand command) = Some h"
      "rg_directHandlers r' = rg_directHandlers r" "rg_dynamicHandlers r' = rg_dynamicHandlers r"
    using assms(1) by (auto simp: SetDirectDefault_def Let_def split: if_splits)
  with execute_allowed [OF assms(2) _ assms(5), of json_type r' s] assms(3,4) show ?thesis
    by (simp add: run_or_def)
qed

end
