(* ===== verification/KV_Handlers.thy ===== *)
theory KV_Handlers
  imports KV_Store Dispatch_Registry
begin

section \<open>The key-value commands\<close>

text \<open>
  \<^verbatim>\<open>internal/respserver/kv/handlers.go\<close>, the key-value part of \<^verbatim>\<open>get/default.go\<close>, the error messages of
  \<^verbatim>\<open>internal/errors\<close> and the forwarding methods of \<^verbatim>\<open>internal/home/runtime.go\<close> and
  \<^verbatim>\<open>internal/cluster/runtime.go\<close> between them and the store: the arguments of a command become an
  operation on the table, its result becomes a reply.
\<close>

subsection \<open>Texts\<close>

text \<open>\<^verbatim>\<open>strconv.Quote\<close>, the verb \<open>%q\<close>.\<close>

definition hex_char :: "nat \<Rightarrow> char" where
  "hex_char n = (if n < 10 then char_of (48 + n) else char_of (87 + n))"

definition quote_char :: "char \<Rightarrow> string" where
  "quote_char c =
     (let n = (of_char c :: nat)
      in if n = 34 \<or> n = 92 then [CHR 0x5C, c]
         else if 32 \<le> n \<and> n < 127 then [c]
         else if 7 \<le> n \<and> n \<le> 13 then [CHR 0x5C, ''abtnvfr'' ! (n - 7)]
         else if n < 128 then [CHR 0x5C, CHR ''x'', hex_char (n div 16), hex_char (n mod 16)]
         else if n \<le> 160 \<or> n = 173 then [CHR 0x5C, CHR ''u'', CHR ''0'', CHR ''0'', hex_char (n div 16), hex_char (n mod 16)]
         else [c])"

definition go_quote :: "string \<Rightarrow> string" where
  "go_quote s = [CHR 0x22] @ concat (map quote_char s) @ [CHR 0x22]"

text \<open>\<^verbatim>\<open>strconv.ParseInt\<close> says why: a number that is out of range, or no number at all.\<close>

definition parse_int_reason :: "string \<Rightarrow> string" where
  "parse_int_reason s =
     (let body = (if s \<noteq> [] \<and> (hd s = CHR ''-'' \<or> hd s = CHR ''+'') then tl s else s)
      in if body \<noteq> [] \<and> list_all is_digit body then ''value out of range'' else ''invalid syntax'')"

definition kv_error_text :: "kv_error \<Rightarrow> string" where
  "kv_error_text e =
     (case e of
        KeyRequired \<Rightarrow> ''kv key is required''
      | UnsupportedMode s \<Rightarrow> ''unsupported kv set mode '' @ go_quote s
      | NotAnInteger v \<Rightarrow>
          ''kv value is not an integer: strconv.ParseInt: parsing '' @ go_quote v @ '': '' @ parse_int_reason v)"

text \<open>An error message with a machine-readable prefix is split into its type and its text.\<close>

definition isStructuredRedisErrorType :: "string \<Rightarrow> bool" where
  "isStructuredRedisErrorType v \<longleftrightarrow>
     list_all (\<lambda>c. (CHR ''a'' \<le> c \<and> c \<le> CHR ''z'') \<or> (CHR ''0'' \<le> c \<and> c \<le> CHR ''9'') \<or> c = CHR ''_'') v
     \<and> List.member v (CHR ''_'')"

fun index_of :: "string \<Rightarrow> string \<Rightarrow> nat option" where
  "index_of [] p = (if p = [] then Some 0 else None)"
| "index_of (c # s) p = (if has_prefix (c # s) p then Some 0 else map_option Suc (index_of s p))"

definition SplitRedisErrorMessage :: "string \<Rightarrow> string \<times> string" where
  "SplitRedisErrorMessage message0 =
     (let message = trim_space message0
      in if message = [] then (''error'', ''error'')
         else case index_of message '': '' of
             None \<Rightarrow> (''error'', message)
           | Some splitIndex \<Rightarrow>
               if splitIndex = 0 then (''error'', message)
               else let typePrefix = trim_space (take splitIndex message);
                        remainder = trim_space (drop (splitIndex + 2) message)
               in if typePrefix = [] \<or> remainder = [] then (''error'', message)
                  else if \<not> isStructuredRedisErrorType typePrefix then (''error'', message)
                  else (typePrefix, remainder))"

subsection \<open>The runtime between handlers and store\<close>

text \<open>
  The runtime passes every operation on when the cluster store is enabled; the adapter normalises the
  mode of a conditional set.
\<close>

definition kv_mode_of :: "string \<Rightarrow> kv_mode" where
  "kv_mode_of mode0 =
     (let mode = to_lower (trim_space mode0)
      in if mode = [] then KVSetModeAlways
         else if mode = ''nx'' then KVSetModeNX
         else if mode = ''xx'' then KVSetModeXX
         else KVSetModeOther mode)"

definition kvStore :: "dispatch_env \<Rightarrow> (kv_table \<Rightarrow> (kv_error + 'a) \<times> kv_table) \<Rightarrow> kv_table \<Rightarrow> (string + 'a) \<times> kv_table" where
  "kvStore env call t =
     (if \<not> de_Enabled env then (Inl ''kv store unavailable'', t)
      else case call t of
          (Inl e, t') \<Rightarrow> (Inl (kv_error_text e), t')
        | (Inr a, t') \<Rightarrow> (Inr a, t'))"

definition reply_with :: "('a \<Rightarrow> reply) \<Rightarrow> (string + 'a) \<times> kv_table \<Rightarrow> reply \<times> kv_table" where
  "reply_with f r = (case r of (Inl message, t) \<Rightarrow> (Err message, t) | (Inr a, t) \<Rightarrow> (f a, t))"

definition wrongArgs :: "string \<Rightarrow> reply" where
  "wrongArgs command = wrong_arguments command"

definition flag_reply :: "bool \<Rightarrow> reply" where
  "flag_reply b = Integer (if b then 1 else 0)"

subsection \<open>Options\<close>

definition parsePositiveInt :: "string \<Rightarrow> string \<Rightarrow> string + int" where
  "parsePositiveInt v label =
     (case parse_int64 (trim_space v) of
        None \<Rightarrow> Inl (label @ '' is not an integer'')
      | Some parsed \<Rightarrow> if parsed \<le> 0 then Inl (label @ '' must be positive'') else Inr parsed)"

definition millisecond :: duration where
  "millisecond = 1000000"

text \<open>The product of a count and a unit is an \<^verbatim>\<open>int64\<close> product.\<close>

definition duration_of :: "int \<Rightarrow> duration \<Rightarrow> duration" where
  "duration_of n per = wrap64 (n * per)"

fun set_options_loop :: "string list \<Rightarrow> duration \<Rightarrow> bool \<Rightarrow> string \<Rightarrow> string + duration \<times> string" where
  "set_options_loop [] ttl ttlSet mode = Inr (ttl, mode)"
| "set_options_loop (arg # args) ttl ttlSet mode =
     (let option = to_upper (trim_space arg)
      in if option = ''EX'' \<or> option = ''PX''
         then (if ttlSet then Inl ''conflicting ttl options''
               else case args of
                   [] \<Rightarrow> Inl (''missing '' @ option @ '' value'')
                 | v # rest \<Rightarrow>
                     (case parsePositiveInt v (to_lower option @ '' value'') of
                        Inl e \<Rightarrow> Inl e
                      | Inr n \<Rightarrow>
                          set_options_loop rest (duration_of n (if option = ''EX'' then second else millisecond)) True mode))
         else if option = ''NX'' \<or> option = ''XX''
         then (let normalizedMode = to_lower option
               in if mode \<noteq> [] \<and> mode \<noteq> normalizedMode then Inl ''conflicting set modes''
                  else if mode = normalizedMode then Inl ''duplicate set mode''
                  else set_options_loop args ttl ttlSet normalizedMode)
         else Inl (''unsupported set option '' @ go_quote arg))"

definition parseSetOptions :: "string list \<Rightarrow> string + duration \<times> string" where
  "parseSetOptions args = set_options_loop args 0 False []"

definition parseCASExpectedExists :: "string \<Rightarrow> string + bool" where
  "parseCASExpectedExists v =
     (let flag = trim_space v
      in if flag = ''0'' then Inr False
         else if flag = ''1'' then Inr True
         else Inl ''cas expected-exists flag must be 0 or 1'')"

definition cas_ttl :: "string list \<Rightarrow> string + duration" where
  "cas_ttl args =
     (if length args \<noteq> 7 then Inr 0
      else if \<not> equal_fold (trim_space (args ! 5)) ''PX'' then Inl (''unsupported cas option '' @ go_quote (args ! 5))
      else case parsePositiveInt (args ! 6) ''px value'' of
          Inl e \<Rightarrow> Inl e
        | Inr n \<Rightarrow> Inr (duration_of n millisecond))"

subsection \<open>Handlers\<close>

definition handleSet :: "kv_table handler" where
  "handleSet env args t =
     (if \<not> de_Runtime env then (Err ''runtime not ready'', t)
      else if length args < 3 then (wrongArgs ''set'', t)
      else case parseSetOptions (drop 3 args) of
          Inl e \<Rightarrow> (Err e, t)
        | Inr (ttl, mode) \<Rightarrow>
            reply_with (\<lambda>written. if written then SimpleString ''OK'' else BulkString None)
              (kvStore env (KVSet (args ! 1) (args ! 2) ttl (kv_mode_of mode) (de_t0 env) (de_now env)) t))"

definition handleSetNX :: "kv_table handler" where
  "handleSetNX env args t =
     (if \<not> de_Runtime env then (Err ''runtime not ready'', t)
      else if length args \<noteq> 3 then (wrongArgs ''setnx'', t)
      else reply_with flag_reply
        (kvStore env (KVSet (args ! 1) (args ! 2) 0 (kv_mode_of ''nx'') (de_t0 env) (de_now env)) t))"

definition handleCAS :: "kv_table handler" where
  "handleCAS env args t =
     (if \<not> de_Runtime env then (Err ''runtime not ready'', t)
      else if length args \<noteq> 5 \<and> length args \<noteq> 7 then (wrongArgs ''cas'', t)
      else case parseCASExpectedExists (args ! 2) of
          Inl e \<Rightarrow> (Err e, t)
        | Inr expectedExists \<Rightarrow>
            (case cas_ttl args of
               Inl e \<Rightarrow> (Err e, t)
             | Inr ttl \<Rightarrow>
                 reply_with flag_reply
                   (kvStore env (KVCompareAndSwap (args ! 1) (args ! 3) expectedExists (args ! 4) ttl
                     (de_t0 env) (de_now env)) t)))"

definition handleDel :: "kv_table handler" where
  "handleDel env args t =
     (if \<not> de_Runtime env then (Err ''runtime not ready'', t)
      else if length args < 2 then (wrongArgs ''del'', t)
      else reply_with Integer (kvStore env (KVDel (drop 1 args) (de_now env)) t))"

definition handleExpire :: "kv_table handler" where
  "handleExpire env args t =
     (if \<not> de_Runtime env then (Err ''runtime not ready'', t)
      else if length args \<noteq> 3 then (wrongArgs ''expire'', t)
      else case parsePositiveInt (args ! 2) ''expire seconds'' of
          Inl e \<Rightarrow> (Err e, t)
        | Inr seconds \<Rightarrow>
            reply_with flag_reply
              (kvStore env (KVExpire (args ! 1) (duration_of seconds second) (de_t0 env) (de_now env)) t))"

definition handleTTL :: "kv_table handler" where
  "handleTTL env args t =
     (if \<not> de_Runtime env then (Err ''runtime not ready'', t)
      else if length args \<noteq> 2 then (wrongArgs ''ttl'', t)
      else reply_with Integer (kvStore env (KVTTL (args ! 1) (de_now env) (\<lambda>x. x)) t))"

definition handleIncrBy :: "kv_table handler" where
  "handleIncrBy env args t =
     (if \<not> de_Runtime env then (Err ''runtime not ready'', t)
      else if length args \<noteq> 3 then (wrongArgs ''incrby'', t)
      else case parse_int64 (trim_space (args ! 2)) of
          None \<Rightarrow> (Err ''delta is not an integer'', t)
        | Some delta \<Rightarrow> reply_with Integer (kvStore env (KVIncrBy (args ! 1) delta (de_now env)) t))"

definition handleMGet :: "kv_table handler" where
  "handleMGet env args t =
     (if \<not> de_Runtime env then (Err ''runtime not ready'', t)
      else if length args < 2 then (wrongArgs ''mget'', t)
      else reply_with (\<lambda>results. Array (map BulkString results))
        (kvStore env (KVMGet (map (\<lambda>k. (k, de_now env)) (drop 1 args)) (\<lambda>x. x)) t))"

fun arg_pairs :: "string list \<Rightarrow> (string, string) gomap" where
  "arg_pairs (key # v # args) = (key, v) # arg_pairs args"
| "arg_pairs _ = []"

text \<open>The map that the pairs build is visited in some order, which \<open>visit\<close> chooses.\<close>

definition pairs_map :: "(string, string) gomap \<Rightarrow> (string, string) gomap" where
  "pairs_map kvs = fold (\<lambda>(k, v). AList.update k v) kvs []"

definition handleMSet :: "((string, string) gomap \<Rightarrow> (string, string) gomap) \<Rightarrow> kv_table handler" where
  "handleMSet visit env args t =
     (if \<not> de_Runtime env then (Err ''runtime not ready'', t)
      else if length args < 3 \<or> (length args - 1) mod 2 \<noteq> 0 then (wrongArgs ''mset'', t)
      else reply_with (\<lambda>_. SimpleString ''OK'')
        (kvStore env (\<lambda>t. case KVMSet (visit (pairs_map (arg_pairs (drop 1 args)))) t of
            (Some e, t') \<Rightarrow> (Inl e, t')
          | (None, t') \<Rightarrow> (Inr (), t')) t))"

subsection \<open>GET\<close>

definition looksLikeJSONObject :: "string \<Rightarrow> bool" where
  "looksLikeJSONObject v0 =
     (let v = trim_space v0 in 2 \<le> length v \<and> hd v = CHR ''{'' \<and> last v = CHR ''}'')"

text \<open>
  \<open>error_json\<close> renders the error object, which \<^verbatim>\<open>sjson\<close> does; \<open>json_request\<close> answers an argument that
  looks like a JSON object.
\<close>

definition buildErrorJSON :: "(string \<Rightarrow> string \<Rightarrow> string) \<Rightarrow> string \<Rightarrow> string" where
  "buildErrorJSON error_json message =
     (case SplitRedisErrorMessage message of (errorType, errorMessage) \<Rightarrow> error_json errorType errorMessage)"

definition handleDefault :: "(string \<Rightarrow> string \<Rightarrow> string) \<Rightarrow> (string \<Rightarrow> reply) \<Rightarrow> kv_table handler" where
  "handleDefault error_json json_request env args t =
     (if \<not> de_Runtime env then (BulkString (Some (buildErrorJSON error_json ''runtime not ready'')), t)
      else if length args \<noteq> 2
      then (BulkString (Some (buildErrorJSON error_json
              (''wrong number of arguments for '' @ [char_of (39 :: nat)] @ ''get'' @ [char_of (39 :: nat)] @ '' command''))), t)
      else if looksLikeJSONObject (trim_space (args ! 1)) then (json_request (trim_space (args ! 1)), t)
      else reply_with BulkString (kvStore env (KVGet (args ! 1) (de_now env) (\<lambda>x. x)) t))"

subsection \<open>The registered commands\<close>

definition set_default :: "string \<Rightarrow> 's handler \<Rightarrow> 's registry \<Rightarrow> 's registry" where
  "set_default command h r = snd (SetDirectDefault command (Some h) r)"

definition Register_kv :: "((string, string) gomap \<Rightarrow> (string, string) gomap) \<Rightarrow> kv_table registry \<Rightarrow> kv_table registry" where
  "Register_kv visit r =
     set_default ''MSET'' (handleMSet visit) (set_default ''MGET'' handleMGet (set_default ''INCRBY'' handleIncrBy
       (set_default ''TTL'' handleTTL (set_default ''EXPIRE'' handleExpire (set_default ''DEL'' handleDel
         (set_default ''CAS'' handleCAS (set_default ''SETNX'' handleSetNX (set_default ''SET'' handleSet r))))))))"

definition Register_get :: "kv_table handler \<Rightarrow> kv_table handler \<Rightarrow> kv_table handler
    \<Rightarrow> kv_table handler \<Rightarrow> kv_table registry \<Rightarrow> kv_table registry" where
  "Register_get config plugin_tasks plugin_sync fallback r =
     set_default ''GET'' fallback
       (snd (RegisterDirect ''GET'' ''plugin-sync'' (Some plugin_sync)
         (snd (RegisterDirect ''GET'' ''plugin-tasks'' (Some plugin_tasks)
           (snd (RegisterDirect ''GET'' ''config'' (Some config) r))))))"

section \<open>What the commands do\<close>

lemma reply_with_simps [simp]:
  "reply_with f (Inl message, t) = (Err message, t)" "reply_with f (Inr a, t) = (f a, t)"
  by (simp_all add: reply_with_def)

lemma kvStore_enabled:
  "de_Enabled env \<Longrightarrow> kvStore env call t = (case call t of (Inl e, t') \<Rightarrow> (Inl (kv_error_text e), t') | (Inr a, t') \<Rightarrow> (Inr a, t'))"
  by (simp add: kvStore_def)

text \<open>Reads leave the visible store alone; they may only remove rows that have expired.\<close>

definition unseen :: "gotime \<Rightarrow> kv_table \<Rightarrow> kv_table \<Rightarrow> bool" where
  "unseen now t t' \<longleftrightarrow> kv_view now t' = kv_view now t"

lemma unseen_refl [simp]: "unseen now t t"
  by (simp add: unseen_def)

lemma step_unseen:
  "fst (spec_step now now operation (kv_view now t)) = r \<Longrightarrow> snd (spec_step now now operation (kv_view now t)) = kv_view now t \<Longrightarrow>
   unseen now t (snd (kv_step now now operation t))"
  using kv_step_simulates [of now now operation t] by (simp add: simulates_def unseen_def)

lemma on_key_same: "(\<And>k. snd (f k) = m) \<Longrightarrow> snd (on_key key m f) = m"
  by (simp add: on_key_def split: sum.split)

lemma get_unseen: "unseen now t (snd (KVGet key now (\<lambda>x. x) t))"
  using step_unseen [OF refl, of now "OGet key" t] by (simp add: spec_step_def kv_step_def on_key_same)

lemma ttl_unseen: "unseen now t (snd (KVTTL key now (\<lambda>x. x) t))"
  using step_unseen [OF refl, of now "OTTL key" t] by (simp add: spec_step_def kv_step_def on_key_same)

lemma mget_unseen: "unseen now t (snd (KVMGet (map (\<lambda>k. (k, now)) keys) (\<lambda>x. x) t))"
  using step_unseen [OF refl, of now "OMGet keys" t] by (simp add: spec_step_def kv_step_def split: sum.splits)

lemma snd_reply_with: "snd (reply_with f r) = snd r"
  by (cases r; cases "fst r") (auto simp: reply_with_def)

lemma snd_kvStore: "snd (kvStore env call t) = (if de_Enabled env then snd (call t) else t)"
  by (simp add: kvStore_def case_prod_unfold split: sum.split)

lemma read_handlers_unseen:
  "unseen (de_now env) t (snd (handleTTL env args t))"
  "unseen (de_now env) t (snd (handleMGet env args t))"
  "unseen (de_now env) t (snd (handleDefault error_json json_request env args t))"
  by (simp_all add: handleTTL_def handleMGet_def handleDefault_def snd_reply_with snd_kvStore get_unseen ttl_unseen
      mget_unseen)

lemma command_names:
  "normalizeCommand ''SET'' = ''SET''" "normalizeCommand ''SETNX'' = ''SETNX''" "normalizeCommand ''CAS'' = ''CAS''"
  "normalizeCommand ''DEL'' = ''DEL''" "normalizeCommand ''EXPIRE'' = ''EXPIRE''" "normalizeCommand ''TTL'' = ''TTL''"
  "normalizeCommand ''INCRBY'' = ''INCRBY''" "normalizeCommand ''MGET'' = ''MGET''" "normalizeCommand ''MSET'' = ''MSET''"
  "normalizeCommand ''GET'' = ''GET''"
  by (simp_all add: normalizeCommand_def to_upper_def upper_char_def trim_space_def go_space_def)

lemma key_names:
  "normalizeKey ''config'' = ''config''" "normalizeKey ''plugin-tasks'' = ''plugin-tasks''"
  "normalizeKey ''plugin-sync'' = ''plugin-sync''"
  by (simp_all add: normalizeKey_def to_lower_def lower_char_def trim_space_def go_space_def)

lemma set_default_fields:
  assumes "normalizeCommand command = command" "command \<noteq> []"
  shows "rg_directDefaultHandlers (set_default command h r) = AList.update command h (rg_directDefaultHandlers r)"
    "rg_directHandlers (set_default command h r) = rg_directHandlers r"
    "rg_dynamicHandlers (set_default command h r) = rg_dynamicHandlers r"
  using assms by (simp_all add: set_default_def SetDirectDefault_def)

text \<open>The registry of the server's reads and writes.\<close>

definition kv_registry :: "((string, string) gomap \<Rightarrow> (string, string) gomap) \<Rightarrow> kv_table handler \<Rightarrow> kv_table handler
    \<Rightarrow> kv_table handler \<Rightarrow> kv_table handler \<Rightarrow> kv_table registry" where
  "kv_registry visit config plugin_tasks plugin_sync fallback =
     Register_kv visit (Register_get config plugin_tasks plugin_sync fallback NewRegistry)"

lemma kv_registry_fields:
  "rg_dynamicHandlers (kv_registry visit config plugin_tasks plugin_sync fallback) = []"
  "rg_directHandlers (kv_registry visit config plugin_tasks plugin_sync fallback) =
     [(''GET'', [(''config'', config), (''plugin-tasks'', plugin_tasks), (''plugin-sync'', plugin_sync)])]"
  "rg_directDefaultHandlers (kv_registry visit config plugin_tasks plugin_sync fallback) =
     [(''GET'', fallback), (''SET'', handleSet), (''SETNX'', handleSetNX), (''CAS'', handleCAS), (''DEL'', handleDel),
      (''EXPIRE'', handleExpire), (''TTL'', handleTTL), (''INCRBY'', handleIncrBy), (''MGET'', handleMGet),
      (''MSET'', handleMSet visit)]"
  by (simp_all add: kv_registry_def Register_kv_def Register_get_def set_default_fields command_names key_names
      RegisterDirect_def NewRegistry_def Let_def gomap_get_def)

lemma normalizeKVKey_trim: "normalizeKVKey key = Inr k \<Longrightarrow> normalizeKVKey (trim_space key) = Inr k"
  by (simp add: normalizeKVKey_def Let_def)

text \<open>A set that answered \<open>OK\<close> left the row behind.\<close>

lemma set_row:
  assumes "normalizeKVKey key = Inr k" "KVSet key v ttl mode t0 now t = (Inr True, t')"
  shows "\<exists>r. map_of t' k = Some r \<and> kv_Value r = v \<and> kv_ExpiresAt r = kvExpiresAt t0 ttl"
  using assms by (auto simp: KVSet_def Let_def split: option.splits if_splits)

lemma handleSet_ok:
  assumes "handleSet env (c # key # v # opts) t = (SimpleString ''OK'', t')"
  obtains ttl mode where "parseSetOptions opts = Inr (ttl, mode)" "de_Enabled env"
    "KVSet key v ttl (kv_mode_of mode) (de_t0 env) (de_now env) t = (Inr True, t')"
  using assms
  by (auto simp: handleSet_def kvStore_def reply_with_def Err_def RedisError_def wrongArgs_def wrong_arguments_def Let_def
      split: sum.splits prod.splits if_splits)

lemma get_reads:
  assumes "de_Runtime env" "de_Enabled env" "\<not> looksLikeJSONObject (trim_space key)" "normalizeKVKey key = Inr k"
    and "map_of t k = Some r" "\<not> kvRecordExpired r (de_now env)"
  shows "handleDefault error_json json_request env [c, key] t = (BulkString (Some (kv_Value r)), t)"
  using assms by (simp add: handleDefault_def kvStore_def KVGet_def)

lemma wrap_overflow:
  assumes "max_i64 < x" "x < 18446744073709551616"
  shows "wrap64 x = x - 18446744073709551616"
proof -
  have "(x + 9223372036854775808) mod 18446744073709551616
      = (x - 9223372036854775808 + 18446744073709551616) mod 18446744073709551616"
    by (simp add: add.commute)
  also have "\<dots> = (x - 9223372036854775808) mod 18446744073709551616"
    by (rule mod_add_self2)
  also have "\<dots> = x - 9223372036854775808"
    using assms by (intro mod_pos_pos_trivial) (simp_all add: i64_simps)
  finally show ?thesis
    by (simp add: wrap64_def)
qed

lemma wrap_not_positive:
  assumes "max_i64 < x" "x \<le> 18446744073709551616"
  shows "wrap64 x \<le> 0"
proof (cases "x = 18446744073709551616")
  case True
  then show ?thesis
    by (simp add: wrap64_def)
next
  case False
  then show ?thesis
    using assms wrap_overflow [of x] by simp
qed

section \<open>Properties\<close>

text \<open>
  What was set is read: after \<^verbatim>\<open>SET\<close> answered \<^verbatim>\<open>OK\<close>, with whatever options, \<^verbatim>\<open>GET\<close> gives the value
  back, with any spacing around the key that trims to the same one, until the TTL that the options
  gave, or for ever without one.
\<close>

theorem set_get_roundtrip:
  assumes "handleSet env (c # key # v # opts) t = (SimpleString ''OK'', t')" "normalizeKVKey key = Inr k"
    and "parseSetOptions opts = Inr (ttl, mode)" "ttl \<le> 0 \<or> de_now env' < de_t0 env + ttl"
    and "de_Runtime env'" "de_Enabled env'" "normalizeKVKey key' = Inr k" "\<not> looksLikeJSONObject key'"
  shows "handleDefault error_json json_request env' [c', key'] t' = (BulkString (Some v), t')"
proof -
  have "KVSet key v ttl (kv_mode_of mode) (de_t0 env) (de_now env) t = (Inr True, t')"
    using assms(1,3) by (auto elim: handleSet_ok)
  from set_row [OF assms(2) this] obtain r where
    r: "map_of t' k = Some r" "kv_Value r = v" "kv_ExpiresAt r = kvExpiresAt (de_t0 env) ttl"
    by blast
  have "\<not> kvRecordExpired r (de_now env')"
    using assms(4) by (auto simp: kvRecordExpired_def r(3) kvExpiresAt_def)
  moreover have "\<not> looksLikeJSONObject (trim_space key')"
    using assms(8) by (simp add: looksLikeJSONObject_def)
  ultimately show ?thesis
    using get_reads [OF assms(5,6) _ assms(7) r(1)] r(2) by simp
qed

definition sample_env :: "gotime \<Rightarrow> bool \<Rightarrow> dispatch_env" where
  "sample_env now controlled = \<lparr>de_Controlled = controlled, de_Runtime = True, de_Enabled = True, de_t0 = now, de_now = now\<rparr>"

theorem set_get_roundtrip_witness:
  "handleDefault (\<lambda>_ m. m) (\<lambda>_. RedisErr []) (sample_env 1000 False) [''GET'', ''a''] 
     (snd (handleSet (sample_env 0 True) [''SET'', '' a '', ''1''] []))
   = (BulkString (Some ''1''), snd (handleSet (sample_env 0 True) [''SET'', '' a '', ''1''] []))"
proof -
  have ok: "handleSet (sample_env 0 True) (''SET'' # '' a '' # ''1'' # []) []
      = (SimpleString ''OK'', snd (handleSet (sample_env 0 True) [''SET'', '' a '', ''1''] []))"
    by (simp add: handleSet_def sample_env_def parseSetOptions_def kv_mode_of_def to_lower_def kvStore_def KVSet_def
        normalizeKVKey_def trim_space_def go_space_def validateKVSetMode_def)
  show ?thesis
    by (rule set_get_roundtrip [OF ok, where k = "''a''" and ttl = 0 and mode = "[]"])
      (simp_all add: normalizeKVKey_def trim_space_def go_space_def parseSetOptions_def sample_env_def looksLikeJSONObject_def)
qed

text \<open>
  C39. Every positive lifetime is taken, and what counts is its product with the unit wrapped to
  \<^verbatim>\<open>int64\<close>.  \<^verbatim>\<open>SET\<close> with \<^verbatim>\<open>EX\<close> or \<^verbatim>\<open>PX\<close> answers \<^verbatim>\<open>OK\<close> and stores the value until \<open>t0 + d\<close> for a
  positive wrapped product \<open>d\<close>, and without any expiry otherwise; \<^verbatim>\<open>EXPIRE\<close> answers 1 on a key that is
  there and moves its expiry to \<open>t0 + d\<close>, so that the key is gone at once when \<open>d\<close> is not positive.  The
  wrapped product of a lifetime that leaves \<^verbatim>\<open>int64\<close> is always shorter than what was asked, and not positive
  as long as the true product is at most two to the power of 64.
\<close>

theorem ttl_overflow:
  assumes "de_Runtime env" "de_Enabled env" "normalizeKVKey key = Inr k"
    and "parse_int64 (trim_space s) = Some n" "0 < n" "option \<in> {''EX'', ''PX''}"
  defines "unit \<equiv> (if option = ''EX'' then second else millisecond)"
  shows "fst (handleSet env [c, key, v, option, s] t) = SimpleString ''OK''
    \<and> kv_view now (snd (handleSet env [c, key, v, option, s] t)) k
      = (if wrap64 (n * unit) \<le> 0 then Some (v, None)
         else if now < de_t0 env + wrap64 (n * unit) then Some (v, Some (de_t0 env + wrap64 (n * unit))) else None)
    \<and> (\<forall>r. map_of t k = Some r \<and> \<not> kvRecordExpired r (de_now env) \<longrightarrow>
        fst (handleExpire env [c, key, s] t) = Integer 1
        \<and> kv_view now (snd (handleExpire env [c, key, s] t)) k
          = (if now < de_t0 env + wrap64 (n * second)
             then Some (kv_Value r, Some (de_t0 env + wrap64 (n * second))) else None))
    \<and> (max_i64 < n * unit \<longrightarrow> wrap64 (n * unit) < n * unit
        \<and> (n * unit \<le> 18446744073709551616 \<longrightarrow> wrap64 (n * unit) \<le> 0))"
proof -
  let ?d = "wrap64 (n * unit)"
  have options: "to_upper (trim_space ''EX'') = ''EX''" "to_lower ''EX'' = ''ex''"
    "to_upper (trim_space ''PX'') = ''PX''" "to_lower ''PX'' = ''px''"
    by code_simp+
  have parsed: "parseSetOptions [option, s] = Inr (?d, [])"
    using assms(4-6) options
    by (auto simp: parseSetOptions_def parsePositiveInt_def duration_of_def unit_def Let_def)
  have mode: "kv_mode_of [] = KVSetModeAlways"
    by (simp add: kv_mode_of_def to_lower_def)
  have "fst (KVSet key v ?d KVSetModeAlways (de_t0 env) (de_now env) t) = Inr True"
    using assms(3) by (simp add: KVSet_def validateKVSetMode_def Let_def split: option.split)
  then obtain t' where set: "KVSet key v ?d KVSetModeAlways (de_t0 env) (de_now env) t = (Inr True, t')"
    by (cases "KVSet key v ?d KVSetModeAlways (de_t0 env) (de_now env) t") simp
  then have "handleSet env [c, key, v, option, s] t = (SimpleString ''OK'', t')"
    using assms(1,2) parsed by (simp add: handleSet_def kvStore_def mode)
  moreover have "kv_view now t' k = (if ?d \<le> 0 then Some (v, None)
      else if now < de_t0 env + ?d then Some (v, Some (de_t0 env + ?d)) else None)"
    using set_row [OF assms(3) set] by (auto simp: view_at kvExpiresAt_def kvRecordExpired_def)
  moreover have "fst (handleExpire env [c, key, s] t) = Integer 1
      \<and> kv_view now (snd (handleExpire env [c, key, s] t)) k
        = (if now < de_t0 env + wrap64 (n * second)
           then Some (kv_Value r, Some (de_t0 env + wrap64 (n * second))) else None)"
    if "map_of t k = Some r" "\<not> kvRecordExpired r (de_now env)" for r
    using that assms(1-5) by (simp add: handleExpire_def parsePositiveInt_def kvStore_def KVExpire_def flag_reply_def
        duration_of_def put_def alive_def)
  moreover have "max_i64 < n * unit \<Longrightarrow> ?d < n * unit"
    using is_i64_wrap64 [of "n * unit"] by (simp add: i64_simps)
  moreover have "max_i64 < n * unit \<Longrightarrow> n * unit \<le> 18446744073709551616 \<Longrightarrow> ?d \<le> 0"
    by (rule wrap_not_positive)
  ultimately show ?thesis
    by simp
qed

theorem ttl_overflow_witness:
  "kv_view 2 (snd (handleSet (sample_env 1 True) [''SET'', ''a'', ''1'', ''EX'', ''9223372037''] [])) ''a''
     = Some (''1'', None)
   \<and> kv_view 2 (snd (handleSet (sample_env 1 True) [''SET'', ''a'', ''1'', ''EX'', ''18446744074''] [])) ''a''
     = Some (''1'', Some 290448385)"
  using ttl_overflow [of "sample_env 1 True" "''a''" "''a''" "''9223372037''" 9223372037 "''EX''" "''SET''" "''1''" "[]" 2]
    ttl_overflow [of "sample_env 1 True" "''a''" "''a''" "''18446744074''" 18446744074 "''EX''" "''SET''" "''1''" "[]" 2]
  by (simp add: sample_env_def normalizeKVKey_def trim_space_def go_space_def parse_int64_def is_digit_def digits_val_def
      i64_simps Let_def second_def wrap64_def)

text \<open>
  A connection without a controlled lifetime can only read, with one exception: no command but
  \<^verbatim>\<open>SETNX\<close> changes what the store shows, whatever its arguments.
\<close>

theorem uncontrolled_reads_only:
  assumes "\<not> de_Controlled env" "normalizeCommand command \<noteq> ''SETNX''"
    and "\<forall>env args t. snd (config env args t) = t \<and> snd (plugin_tasks env args t) = t \<and> snd (plugin_sync env args t) = t"
  shows "kv_view (de_now env) (snd (Execute json_type
      (Some (kv_registry visit config plugin_tasks plugin_sync (handleDefault error_json json_request)))
      env (command # args) t)) = kv_view (de_now env) t"
proof (cases "commandRequiresControlledLifetime (command # args)")
  case True
  with assms(1) show ?thesis
    by (simp add: execute_uncontrolled)
next
  case False
  let ?r = "kv_registry visit config plugin_tasks plugin_sync (handleDefault error_json json_request)"
  let ?c = "normalizeCommand command"
  have notin: "?c \<notin> {''SET'', ''CAS'', ''DEL'', ''EXPIRE'', ''INCRBY'', ''MSET''}"
    using False by (auto simp: commandRequiresControlledLifetime_def controlled_commands_def normalizeCommand_def)
  note unseen = read_handlers_unseen [unfolded unseen_def]
  show ?thesis
  proof (cases "?c = []")
    case True
    then show ?thesis
      by (simp add: Execute_def Let_def)
  next
    case nonempty: False
    have run: "Execute json_type (Some ?r) env (command # args) t =
      (case map_of (rg_directHandlers ?r) ?c of
         Some direct \<Rightarrow> execute_direct ?r direct ?c env (command # args) t
       | None \<Rightarrow> run_or (map_of (rg_directDefaultHandlers ?r) ?c) (unknown_command ?c) env (command # args) t)"
      using execute_allowed [OF refl nonempty, of env args json_type ?r t] False
      by (simp add: allowed_def kv_registry_fields)
    show ?thesis
    proof (cases "?c = ''GET''")
      case True
      then show ?thesis
        using assms(3) unseen(3) by (simp add: run kv_registry_fields execute_direct_def run_or_def)
    next
      case False
      then show ?thesis
        using notin assms(2) unseen(1,2) by (simp add: run kv_registry_fields run_or_def)
    qed
  qed
qed

theorem uncontrolled_reads_only_witness:
  "kv_view 5 (snd (Execute (\<lambda>_. None)
      (Some (kv_registry (\<lambda>x. x) (\<lambda>_ _ t. (SimpleString [], t)) (\<lambda>_ _ t. (SimpleString [], t))
        (\<lambda>_ _ t. (SimpleString [], t)) (handleDefault (\<lambda>_ m. m) (\<lambda>_. RedisErr []))))
      (sample_env 5 False) [''DEL'', ''a''] [])) = kv_view 5 []"
  using uncontrolled_reads_only [of "sample_env 5 False" "''DEL''" "\<lambda>_ _ t. (SimpleString [], t)"
    "\<lambda>_ _ t. (SimpleString [], t)" "\<lambda>_ _ t. (SimpleString [], t)" "\<lambda>_. None" "\<lambda>x. x" "\<lambda>_ m. m"
    "\<lambda>_. RedisErr []" "[''a'']" "[]"]
  by (simp add: sample_env_def command_names)

text \<open>
  C40. The exception: \<^verbatim>\<open>SETNX\<close> is not among the commands that require a controlled lifetime, so any
  connection that may talk to the server creates keys with it, while the same write through
  \<^verbatim>\<open>SET ... NX\<close> is refused.
\<close>

theorem uncontrolled_setnx_writes:
  assumes "\<not> de_Controlled env" "de_Runtime env" "de_Enabled env" "normalizeKVKey key = Inr k"
    and "map_of t k = None"
  shows "fst (Execute json_type (Some (kv_registry visit config plugin_tasks plugin_sync fallback)) env
        [''SETNX'', key, v] t) = Integer 1
    \<and> kv_view now (snd (Execute json_type (Some (kv_registry visit config plugin_tasks plugin_sync fallback)) env
        [''SETNX'', key, v] t)) k = Some (v, None)
    \<and> fst (Execute json_type (Some (kv_registry visit config plugin_tasks plugin_sync fallback)) env
        [''SET'', key, v, ''NX''] t) = Err ''controlled connection required''"
proof -
  have free: "\<not> commandRequiresControlledLifetime [''SETNX'', key, v]"
    "commandRequiresControlledLifetime [''SET'', key, v, ''NX'']"
    using command_names by (simp_all add: commandRequiresControlledLifetime_def controlled_commands_def normalizeCommand_def)
  have mode: "kv_mode_of ''nx'' = KVSetModeNX"
    by (simp add: kv_mode_of_def to_lower_def lower_char_def trim_space_def go_space_def)
  have "Execute json_type (Some (kv_registry visit config plugin_tasks plugin_sync fallback)) env [''SETNX'', key, v] t
      = handleSetNX env [''SETNX'', key, v] t"
    using free(1) by (simp add: Execute_def command_names kv_registry_fields run_or_def Let_def)
  also have "\<dots> = (Integer 1, AList.update k \<lparr>kv_Value = v, kv_Version = 1, kv_ExpiresAt = None\<rparr> t)"
    using assms by (simp add: handleSetNX_def kvStore_def KVSet_def mode validateKVSetMode_def flag_reply_def kvExpiresAt_def)
  finally show ?thesis
    using free(2) assms(1) by (simp add: Execute_def command_names)
qed

theorem uncontrolled_setnx_writes_witness:
  "fst (Execute (\<lambda>_. None) (Some (kv_registry (\<lambda>x. x) (\<lambda>_ _ t. (SimpleString [], t)) (\<lambda>_ _ t. (SimpleString [], t))
        (\<lambda>_ _ t. (SimpleString [], t)) (\<lambda>_ _ t. (SimpleString [], t))))
      (sample_env 5 False) [''SETNX'', ''a'', ''b''] []) = Integer 1"
  by (rule uncontrolled_setnx_writes [where k = "''a''", THEN conjunct1])
    (simp_all add: sample_env_def normalizeKVKey_def trim_space_def go_space_def)

end
