(* ===== verification/Session_Store.thy ===== *)
theory Session_Store
  imports Session_Affinity
begin

section \<open>Session bindings in the database\<close>

text \<open>
  \<^verbatim>\<open>cluster/session_affinity.go\<close>: the binding store that every Home of a cluster shares.  A table is the
  map from the primary key to the row; a statement is one step, and errors of the database itself are
  not modelled.  The conditional statement of \<^verbatim>\<open>compareAndSwapSessionBindingTx\<close> keeps the contract of
  \<open>session_store\<close> on the commits a selector makes, so what the selector guarantees over its local cache
  it guarantees over the shared table.
\<close>

record session_row =
  sr_CredentialID :: string
  sr_Revision :: string
  sr_ExpiresAt :: gotime

type_synonym session_table = "(string, session_row) gomap"

definition row_binding :: "session_row \<Rightarrow> session_binding" where
  "row_binding row = \<lparr>sb_AuthID = sr_CredentialID row, sb_Revision = sr_Revision row,
     sb_ExpiresAt = sr_ExpiresAt row\<rparr>"

definition db_LoadSessionBinding :: "session_table \<Rightarrow> string \<Rightarrow> session_binding" where
  "db_LoadSessionBinding t key =
     (case map_of t key of None \<Rightarrow> no_binding | Some row \<Rightarrow> row_binding row)"

text \<open>\<open>None\<close> is the error for a malformed commit; otherwise whether one row was changed.\<close>

definition compareAndSwapSessionBindingTx ::
    "session_table \<Rightarrow> session_commit \<Rightarrow> gotime \<Rightarrow> string \<Rightarrow> session_table \<times> bool option" where
  "compareAndSwapSessionBindingTx t commit now uuid =
     (if go_len (sc_Key commit) \<noteq> 64 \<or> sc_AuthID commit = [] \<or> sc_TTL commit \<le> 0 then (t, None)
      else
        let expires = now + sc_TTL commit
        in if sc_ExpectedRevision commit = []
           then (case map_of t (sc_Key commit) of
               None \<Rightarrow> (AList.update (sc_Key commit)
                  \<lparr>sr_CredentialID = sc_AuthID commit, sr_Revision = uuid, sr_ExpiresAt = expires\<rparr> t,
                  Some True)
             | Some row \<Rightarrow> (t, Some False))
           else (case map_of t (sc_Key commit) of
               None \<Rightarrow> (t, Some False)
             | Some row \<Rightarrow>
                 if sr_Revision row = sc_ExpectedRevision commit
                   \<and> (sc_ExpiredAt commit = 0 \<or> sr_ExpiresAt row = sc_ExpiredAt commit)
                 then (AList.update (sc_Key commit)
                    \<lparr>sr_CredentialID = sc_AuthID commit,
                     sr_Revision = (if sr_CredentialID row = sc_AuthID commit \<and> sr_ExpiresAt row > now
                                    then sr_Revision row else uuid),
                     sr_ExpiresAt = expires\<rparr> t, Some True)
                 else (t, Some False)))"

text \<open>
  The keys of the expired rows in the order of their expiry, at most \<open>limit\<close> of them, and the deletion
  of those that are still expired then.
\<close>

definition purge_candidates :: "session_table \<Rightarrow> gotime \<Rightarrow> nat \<Rightarrow> string list" where
  "purge_candidates t now limit =
     map fst (take limit (sort_key (\<lambda>(key, row). sr_ExpiresAt row)
       (filter (\<lambda>(key, row). sr_ExpiresAt row \<le> now) t)))"

definition PurgeExpiredSessionBindings :: "session_table \<Rightarrow> gotime \<Rightarrow> int \<Rightarrow> session_table \<times> int" where
  "PurgeExpiredSessionBindings t now limit =
     (if limit \<le> 0 then (t, 0)
      else let keys = purge_candidates t now (nat limit);
               kept = filter (\<lambda>(key, row). \<not> (List.member keys key \<and> sr_ExpiresAt row \<le> now)) t
           in (kept, int (length t) - int (length kept)))"

subsection \<open>The contract\<close>

text \<open>The operations as the selector calls them: a cancelled context is an error, as a rejected commit is.\<close>

definition db_load :: "session_table \<Rightarrow> bool \<Rightarrow> string \<Rightarrow> unit + session_binding" where
  "db_load t cancelled key = (if cancelled then Inl () else Inr (db_LoadSessionBinding t key))"

definition db_cas :: "session_table \<Rightarrow> bool \<Rightarrow> session_commit \<Rightarrow> gotime \<Rightarrow> gotime \<Rightarrow> string
    \<Rightarrow> session_table \<times> (unit + bool)" where
  "db_cas t cancelled commit now prune_now uuid =
     (if cancelled then (t, Inl ())
      else case compareAndSwapSessionBindingTx t commit now uuid of
        (t', None) \<Rightarrow> (t', Inl ())
      | (t', Some swapped) \<Rightarrow> (t', Inr swapped))"

text \<open>Every stored revision is a UUID that some swap drew, so none is empty.\<close>

definition session_table_wf :: "session_table \<Rightarrow> bool" where
  "session_table_wf t \<longleftrightarrow> gomap_wf t \<and> (\<forall>key row. map_of t key = Some row \<longrightarrow> sr_Revision row \<noteq> [])"

definition commit_wellformed :: "session_commit \<Rightarrow> bool" where
  "commit_wellformed c \<longleftrightarrow> go_len (sc_Key c) = 64 \<and> sc_AuthID c \<noteq> [] \<and> 0 < sc_TTL c"

lemma load_row [simp]:
  "map_of t key = Some row \<Longrightarrow> db_LoadSessionBinding t key = row_binding row"
  "map_of t key = None \<Longrightarrow> db_LoadSessionBinding t key = no_binding"
  by (simp_all add: db_LoadSessionBinding_def)

lemma session_table_wf_update:
  assumes "session_table_wf t" "sr_Revision row \<noteq> []"
  shows "session_table_wf (AList.update key row t)"
  using assms unfolding session_table_wf_def
  by (metis gomap_wf_update map_of_update option.inject)

lemma session_table_wf_row: "session_table_wf t \<Longrightarrow> map_of t key = Some row \<Longrightarrow> sr_Revision row \<noteq> []"
  by (simp add: session_table_wf_def del: map_of_eq_Some_iff)

lemma tx_wf:
  "session_table_wf t \<Longrightarrow> uuid \<noteq> [] \<Longrightarrow>
   session_table_wf (fst (compareAndSwapSessionBindingTx t commit now uuid))"
  by (auto simp: compareAndSwapSessionBindingTx_def Let_def intro!: session_table_wf_update
      dest: session_table_wf_row split: option.splits)

lemma tx_binds:
  "compareAndSwapSessionBindingTx t commit now uuid = (t', Some True) \<Longrightarrow>
   sb_AuthID (db_LoadSessionBinding t' (sc_Key commit)) = sc_AuthID commit
   \<and> sb_ExpiresAt (db_LoadSessionBinding t' (sc_Key commit)) = now + sc_TTL commit"
  by (auto simp: compareAndSwapSessionBindingTx_def db_LoadSessionBinding_def row_binding_def Let_def
      split: option.splits if_splits)

lemma tx_refused:
  "compareAndSwapSessionBindingTx t commit now uuid = (t', r) \<Longrightarrow> r \<noteq> Some True \<Longrightarrow> t' = t"
  by (auto simp: compareAndSwapSessionBindingTx_def Let_def split: option.splits if_splits)

lemma tx_current:
  assumes "session_table_wf t" "commit_current commit (db_LoadSessionBinding t (sc_Key commit))"
  shows "snd (compareAndSwapSessionBindingTx t commit now uuid)
    = (if commit_wellformed commit then Some True else None)"
proof (cases "map_of t (sc_Key commit)")
  case None
  with assms show ?thesis
    by (auto simp: compareAndSwapSessionBindingTx_def commit_wellformed_def commit_current_def
        no_binding_def Let_def)
next
  case (Some row)
  with assms(1) have "sr_Revision row \<noteq> []"
    by (rule session_table_wf_row)
  with Some assms(2) show ?thesis
    by (auto simp: compareAndSwapSessionBindingTx_def commit_wellformed_def commit_current_def
        row_binding_def Let_def)
qed

lemma tx_stale:
  assumes "sb_Revision (db_LoadSessionBinding t (sc_Key commit)) \<noteq> sc_ExpectedRevision commit"
  shows "snd (compareAndSwapSessionBindingTx t commit now uuid) \<noteq> Some True"
  using assms
  by (auto simp: compareAndSwapSessionBindingTx_def db_LoadSessionBinding_def no_binding_def
      row_binding_def Let_def split: option.splits if_splits)

interpretation shared: session_store db_load db_cas session_table_wf commit_wellformed
proof
  fix s s' :: session_table and c :: session_commit and key uuid now pnow cancelled r b
  show "\<exists>b. db_load s False key = Inr b"
    by (simp add: db_load_def)
  show "session_table_wf s \<Longrightarrow> uuid \<noteq> [] \<Longrightarrow> session_table_wf (fst (db_cas s cancelled c now pnow uuid))"
    using tx_wf [of s uuid c now] by (auto simp: db_cas_def split: prod.splits option.splits)
  show "db_cas s cancelled c now pnow uuid = (s', Inr True) \<Longrightarrow>
      \<exists>b. db_load s' False (sc_Key c) = Inr b \<and> sb_AuthID b = sc_AuthID c
        \<and> sb_ExpiresAt b = now + sc_TTL c"
    using tx_binds [of s c now uuid s']
    by (auto simp: db_cas_def db_load_def split: prod.splits option.splits if_splits)
  show "db_cas s cancelled c now pnow uuid = (s', r) \<Longrightarrow> r \<noteq> Inr True \<Longrightarrow> s' = s"
    using tx_refused [of s c now uuid s']
    by (auto simp: db_cas_def split: prod.splits option.splits if_splits)
  show "session_table_wf s \<Longrightarrow> db_load s False (sc_Key c) = Inr b \<Longrightarrow> commit_current c b \<Longrightarrow>
      snd (db_cas s False c now pnow uuid) \<noteq> Inr False"
    using tx_current [of s c now uuid]
    by (auto simp: db_cas_def db_load_def split: prod.splits option.splits if_splits)
  show "session_table_wf s \<Longrightarrow> db_load s False (sc_Key c) = Inr b \<Longrightarrow> commit_current c b \<Longrightarrow>
      commit_wellformed c \<Longrightarrow> snd (db_cas s False c now pnow uuid) = Inr True"
    using tx_current [of s c now uuid]
    by (auto simp: db_cas_def db_load_def split: prod.splits option.splits if_splits)
  show "db_load s False (sc_Key c) = Inr b \<Longrightarrow> sb_Revision b \<noteq> sc_ExpectedRevision c \<Longrightarrow>
      snd (db_cas s cancelled c now pnow uuid) \<noteq> Inr True"
    using tx_stale [of s c now uuid]
    by (auto simp: db_cas_def db_load_def split: prod.splits option.splits if_splits)
qed

interpretation shared_rr: affinity_client RoundRobin_Pick db_load db_cas session_table_wf commit_wellformed
  by unfold_locales

interpretation shared_weighted: affinity_client Weighted_Pick db_load db_cas session_table_wf
    commit_wellformed
  by unfold_locales

subsection \<open>Properties\<close>

text \<open>
  Over the shared table the affinity loop ends as it does over the local cache, as long as what the
  other Homes do between its steps keeps the table well formed.
\<close>

lemma shared_affinity_returns:
  assumes "session_table_wf t" "\<forall>turn\<in>set attempts. steady session_table_wf turn"
    "\<exists>turn\<in>set attempts. undisturbed db_load (ar_key req) turn"
  shows "snd (snd (affinity_loop RoundRobin_Pick db_load db_cas req attempts f t)) \<noteq> Unfinished"
proof (rule shared_rr.loop_progress [OF assms(1) _ _ assms(3)])
  show "\<forall>turn\<in>set attempts. \<forall>st. session_table_wf st \<longrightarrow>
      session_table_wf (at_before_commit turn (at_before_parent turn (at_before turn st)))"
    using assms(2) by (simp add: steady_def)
  show "\<forall>turn\<in>set attempts. \<forall>f st. session_table_wf st \<longrightarrow>
      session_table_wf (fst (snd (affinity_attempt RoundRobin_Pick db_load db_cas req turn f st)))"
    using shared_rr.attempt_steady assms(2) by blast
qed

lemma purge_keeps:
  assumes "map_of t key = Some row" "now < sr_ExpiresAt row"
  shows "map_of (fst (PurgeExpiredSessionBindings t now limit)) key = Some row"
proof -
  have "map_of (filter P t) key = Some row" if "P (key, row)" for P
    using assms(1) that by (induction t) (auto split: if_splits)
  then show ?thesis
    using assms by (simp add: PurgeExpiredSessionBindings_def Let_def)
qed

text \<open>The first commit that changes a binding makes every later commit for the old revision fail.\<close>

definition commits_fresh :: "session_table \<Rightarrow> session_commit \<Rightarrow> gotime \<Rightarrow> bool" where
  "commits_fresh t c now \<longleftrightarrow> (case map_of t (sc_Key c) of
     None \<Rightarrow> True
   | Some row \<Rightarrow> sr_CredentialID row \<noteq> sc_AuthID c \<or> sr_ExpiresAt row \<le> now)"

lemma tx_fresh_revision:
  assumes "compareAndSwapSessionBindingTx t c now uuid = (t', Some True)" "commits_fresh t c now"
  shows "sb_Revision (db_LoadSessionBinding t' (sc_Key c)) = uuid"
  using assms
  by (auto simp: compareAndSwapSessionBindingTx_def commits_fresh_def row_binding_def
      db_LoadSessionBinding_def Let_def split: option.splits if_splits)

end
