(* ===== verification/Cluster_Tables.thy ===== *)
theory Cluster_Tables
  imports Session_Store "HOL-Library.Product_Lexorder"
begin

section \<open>The shared tables of a cluster\<close>

text \<open>
  The rows of \<^verbatim>\<open>cluster/models.go\<close> and \<^verbatim>\<open>cluster/concurrency_models.go\<close> that the lifecycle of Homes and
  nodes and the concurrency limiter work on, and the lifecycle configuration of
  \<^verbatim>\<open>cluster/lifecycle_config.go\<close>.

  A table is the map from the primary key to the other columns.  The code runs every operation in one
  transaction that locks the rows it decides on, so an operation is one step: it gives \<open>Inl\<close> an error,
  which rolls everything back, or \<open>Inr\<close> its result and the tables after the commit.  The times it reads
  from the database are arguments.  Columns that nothing reads (\<^verbatim>\<open>created_at\<close>, \<^verbatim>\<open>updated_at\<close>) are left
  out, and so are errors of the database itself.  A JSON payload is the value it encodes.
\<close>

subsection \<open>Rows\<close>

record home_id =
  hi_IP :: string
  hi_Port :: int
  hi_StartedAt :: gotime

datatype home_state = HomeActive | HomeExpired | HomeRetired | HomeFenced

record home_row =
  hr_LastSeenAt :: gotime
  hr_State :: home_state
  hr_FencedAt :: "gotime option"
  hr_FenceReason :: string
  hr_Capabilities :: "string list"

datatype membership_state = MemberActive | MemberCanceling | MemberClosed

record membership_row =
  mb_NodeID :: string
  mb_Home :: home_id
  mb_ProtocolVersion :: int
  mb_State :: membership_state
  mb_CancelRevision :: int
  mb_CancelStartedAt :: "gotime option"
  mb_ExpectedQuiescenceCount :: int
  mb_ConnectedAt :: gotime
  mb_LifecycleConfigRevision :: int
  mb_CPAHeartbeatTimeout :: duration
  mb_CPACancelBound :: duration
  mb_ReclaimGrace :: duration
  mb_LastSeenAt :: gotime

datatype quiescence_status = QPending | QAcknowledged | QFenced

text \<open>A lifetime of a membership: the fingerprint of its certificate and when it was accepted.\<close>

type_synonym lifetime_key = "string \<times> gotime"

type_synonym quiescence_key = "string \<times> gotime \<times> int \<times> home_id"

record concurrency_config =
  cc_LifecycleConfigRevision :: int
  cc_ObservationBarrierRevision :: int
  cc_CPAHeartbeatTimeout :: duration
  cc_CPACancelBound :: duration
  cc_ReclaimGrace :: duration
  cc_CleanupInterval :: duration
  cc_ReleaseFlushInterval :: string
  cc_ReleaseMaxBackoff :: string
  cc_BusyRetryMin :: string
  cc_BusyRetryMax :: string
  cc_MaxLimit :: int

record lifecycle_row =
  lr_Revision :: int
  lr_NodeHeartbeatTimeout :: duration
  lr_Payload :: concurrency_config

record policy_row =
  cp_MaxInFlight :: "int option"
  cp_Version :: int
  cp_EffectiveAt :: gotime
  cp_ObservationBarrierRevision :: int

record counter_row =
  ct_ActiveCount :: int
  ct_LastReleaseSeq :: int

datatype event_op = EventText string | EventTime gotime

record cluster_event =
  ev_Scope :: string
  ev_Op :: event_op
  ev_EntityUUID :: string
  ev_Version :: int

record auth_row =
  ar_Version :: int
  ar_Deleted :: bool

record cluster_db =
  db_sqlite :: bool
  db_sessions :: session_table
  db_auths :: "(string, auth_row) gomap"
  db_lifecycle :: "lifecycle_row option"
  db_gate :: "int option"
  db_barrier :: "int option"
  db_homes :: "(home_id, home_row) gomap"
  db_members :: "(string, membership_row) gomap"
  db_participations :: "(lifetime_key \<times> home_id) list"
  db_quiescence :: "(quiescence_key, quiescence_status) gomap"
  db_policies :: "(string, policy_row) gomap"
  db_models :: "(string \<times> string, int) gomap"
  db_counters :: "(string \<times> string \<times> string, counter_row) gomap"
  db_events :: "cluster_event list"

datatype cluster_error =
    InvalidArgument
  | RecordNotFound
  | DuplicateKey
  | HeartbeatTimeoutMismatch
  | LifecycleInvalid
  | LifecycleInUse
  | LifecycleRevisionMismatch
  | HomeCapabilityRequired
  | HomeCapabilityMissing
  | SQLiteMultiHome
  | HomeNotFound
  | HomeIsFenced
  | HomeInactive
  | ProtocolRequired
  | UnsupportedProtocol
  | DuplicateCertificate
  | TakeoverUnavailable
  | MembershipNotActive
  | QuiescenceRevisionMismatch
  | QuiescenceSetIncomplete
  | NotQuiescent
  | CredentialNotFound
  | DuplicateModel
  | InvalidLimit
  | InvalidModel
  | MaximumLimitInvalid
  | LegacyMembershipActive
  | PolicyVersionConflict
  | GateNegative
  | CounterInvalid
  | SumOverflow
  | NodeUnavailable
  | InvalidRelease
  | ReleaseExceedsActive
  | AffinityMismatch
  | AffinityInvalid
  | AffinityConflict

type_synonym 'a tx = "cluster_db \<Rightarrow> cluster_error + 'a \<times> cluster_db"

text \<open>What a caller sees of a transaction: its result, and the tables it left.\<close>

definition run_tx :: "'a tx \<Rightarrow> cluster_db \<Rightarrow> cluster_db \<times> (cluster_error + 'a)" where
  "run_tx f db = (case f db of Inl e \<Rightarrow> (db, Inl e) | Inr (x, db') \<Rightarrow> (db', Inr x))"

definition appendEvent :: "string \<Rightarrow> event_op \<Rightarrow> string \<Rightarrow> int \<Rightarrow> cluster_db \<Rightarrow> cluster_db" where
  "appendEvent scope op entity version db =
     db\<lparr>db_events := db_events db @
       [\<lparr>ev_Scope = scope, ev_Op = op, ev_EntityUUID = entity, ev_Version = version\<rparr>]\<rparr>"

text \<open>The step by which a timestamp is advanced past an earlier one: the precision of the database.\<close>

definition databaseTimestampStep :: "cluster_db \<Rightarrow> duration" where
  "databaseTimestampStep db = (if db_sqlite db then second else 1000)"

lemma timestamp_step_pos: "0 < databaseTimestampStep db"
  by (simp add: databaseTimestampStep_def duration_defs)

subsection \<open>The lifecycle configuration\<close>

definition defaultHeartbeatTimeout :: duration where
  "defaultHeartbeatTimeout = 20 * second"

definition MaxConfiguredLimit :: int where
  "MaxConfiguredLimit = 1000000"

definition DefaultCredentialConcurrencyConfig :: concurrency_config where
  "DefaultCredentialConcurrencyConfig =
     \<lparr>cc_LifecycleConfigRevision = 0, cc_ObservationBarrierRevision = 0,
      cc_CPAHeartbeatTimeout = 3 * second, cc_CPACancelBound = 5 * second, cc_ReclaimGrace = 5 * second,
      cc_CleanupInterval = 5 * second, cc_ReleaseFlushInterval = ''250ms'', cc_ReleaseMaxBackoff = ''2s'',
      cc_BusyRetryMin = ''250ms'', cc_BusyRetryMax = ''1s'', cc_MaxLimit = MaxConfiguredLimit\<rparr>"

text \<open>
  \<open>parse\<close> is \<^verbatim>\<open>time.ParseDuration\<close>; the result is whether the configuration is accepted.
\<close>

definition ValidateCredentialConcurrencyConfig ::
    "(string \<Rightarrow> duration option) \<Rightarrow> concurrency_config \<Rightarrow> bool" where
  "ValidateCredentialConcurrencyConfig parse cfg =
     (case parse (cc_ReleaseFlushInterval cfg) of None \<Rightarrow> False | Some flush \<Rightarrow>
        if flush \<le> 0 then False
        else case parse (cc_ReleaseMaxBackoff cfg) of None \<Rightarrow> False | Some backoff \<Rightarrow>
          if backoff \<le> 0 then False
          else if backoff < flush then False
          else case parse (cc_BusyRetryMin cfg) of None \<Rightarrow> False | Some retryMin \<Rightarrow>
            if retryMin \<le> 0 \<or> retryMin mod 1000000 \<noteq> 0 then False
            else case parse (cc_BusyRetryMax cfg) of None \<Rightarrow> False | Some retryMax \<Rightarrow>
              if retryMax \<le> 0 \<or> retryMax mod 1000000 \<noteq> 0 then False
              else if retryMax < retryMin then False
              else \<not> (cc_MaxLimit cfg < 1 \<or> cc_MaxLimit cfg > MaxConfiguredLimit))"

definition addPositiveDuration :: "duration \<Rightarrow> duration \<Rightarrow> duration option" where
  "addPositiveDuration left right =
     (if left > max_i64 - right then None else Some (wrap64 (left + right)))"

definition ValidateCredentialConcurrencyLifecycle :: "duration \<Rightarrow> concurrency_config \<Rightarrow> bool" where
  "ValidateCredentialConcurrencyLifecycle nodeHeartbeatTimeout cfg =
     (if nodeHeartbeatTimeout \<le> 0 \<or> cc_CPAHeartbeatTimeout cfg \<le> 0 \<or> cc_CPACancelBound cfg \<le> 0
        \<or> cc_ReclaimGrace cfg \<le> 0 \<or> cc_CleanupInterval cfg \<le> 0
      then False
      else case addPositiveDuration nodeHeartbeatTimeout (cc_ReclaimGrace cfg) of
        None \<Rightarrow> False
      | Some left \<Rightarrow>
          (case addPositiveDuration (cc_CPAHeartbeatTimeout cfg) (cc_CPACancelBound cfg) of
             None \<Rightarrow> False
           | Some right \<Rightarrow> \<not> left \<le> right))"

definition lifecycleConfigPayload :: "concurrency_config \<Rightarrow> int \<Rightarrow> concurrency_config" where
  "lifecycleConfigPayload cfg revision =
     cfg\<lparr>cc_LifecycleConfigRevision := revision, cc_ObservationBarrierRevision := 0\<rparr>"

definition lifecycleConfigFromRecord :: "lifecycle_row \<Rightarrow> concurrency_config" where
  "lifecycleConfigFromRecord row =
     (lr_Payload row)\<lparr>cc_LifecycleConfigRevision := lr_Revision row, cc_ObservationBarrierRevision := 0\<rparr>"

definition ensureLifecycleConfigTx :: "duration \<Rightarrow> lifecycle_row tx" where
  "ensureLifecycleConfigTx nodeHeartbeatTimeout db =
     (if nodeHeartbeatTimeout \<le> 0 then Inl InvalidArgument
      else
        let candidate = \<lparr>lr_Revision = 1, lr_NodeHeartbeatTimeout = nodeHeartbeatTimeout,
              lr_Payload = lifecycleConfigPayload DefaultCredentialConcurrencyConfig 1\<rparr>;
            row = (case db_lifecycle db of None \<Rightarrow> candidate | Some existing \<Rightarrow> existing)
        in if lr_NodeHeartbeatTimeout row \<noteq> nodeHeartbeatTimeout then Inl HeartbeatTimeoutMismatch
           else if \<not> ValidateCredentialConcurrencyLifecycle nodeHeartbeatTimeout
                      (lifecycleConfigFromRecord row)
           then Inl LifecycleInvalid
           else Inr (row, db\<lparr>db_lifecycle := Some row\<rparr>))"

definition lifecycleConfigSafetyChanged :: "concurrency_config \<Rightarrow> concurrency_config \<Rightarrow> bool" where
  "lifecycleConfigSafetyChanged l r \<longleftrightarrow>
     cc_CPAHeartbeatTimeout l \<noteq> cc_CPAHeartbeatTimeout r \<or> cc_CPACancelBound l \<noteq> cc_CPACancelBound r
     \<or> cc_ReclaimGrace l \<noteq> cc_ReclaimGrace r \<or> cc_CleanupInterval l \<noteq> cc_CleanupInterval r"

definition lifecycleConfigEqual :: "concurrency_config \<Rightarrow> concurrency_config \<Rightarrow> bool" where
  "lifecycleConfigEqual l r \<longleftrightarrow>
     cc_CPAHeartbeatTimeout l = cc_CPAHeartbeatTimeout r \<and> cc_CPACancelBound l = cc_CPACancelBound r
     \<and> cc_ReclaimGrace l = cc_ReclaimGrace r \<and> cc_CleanupInterval l = cc_CleanupInterval r
     \<and> cc_ReleaseFlushInterval l = cc_ReleaseFlushInterval r
     \<and> cc_ReleaseMaxBackoff l = cc_ReleaseMaxBackoff r
     \<and> cc_BusyRetryMin l = cc_BusyRetryMin r \<and> cc_BusyRetryMax l = cc_BusyRetryMax r
     \<and> cc_MaxLimit l = cc_MaxLimit r"

definition members_in_use :: "cluster_db \<Rightarrow> bool" where
  "members_in_use db =
     list_ex (\<lambda>(fp, m). mb_State m = MemberActive \<or> mb_State m = MemberCanceling) (db_members db)"

definition updateLifecycleConfigTx ::
    "(string \<Rightarrow> duration option) \<Rightarrow> duration \<Rightarrow> concurrency_config \<Rightarrow> (int \<times> bool) tx" where
  "updateLifecycleConfigTx parse nodeHeartbeatTimeout new_cfg db0 =
     (case ensureLifecycleConfigTx nodeHeartbeatTimeout db0 of
        Inl e \<Rightarrow> Inl e
      | Inr (row, db) \<Rightarrow>
          if \<not> ValidateCredentialConcurrencyLifecycle nodeHeartbeatTimeout new_cfg then Inl LifecycleInvalid
          else if \<not> ValidateCredentialConcurrencyConfig parse new_cfg then Inl LifecycleInvalid
          else
            let nxt = new_cfg\<lparr>cc_ObservationBarrierRevision := 0\<rparr>;
                current = lifecycleConfigFromRecord row
            in if lifecycleConfigEqual current nxt then Inr ((lr_Revision row, False), db)
               else
                 let safetyChanged = lifecycleConfigSafetyChanged current nxt
                 in if safetyChanged \<and> members_in_use db then Inl LifecycleInUse
                    else
                      let revision = (if safetyChanged then wrap64 (lr_Revision row + 1)
                                      else lr_Revision row);
                          row' = row\<lparr>lr_Revision := revision,
                                     lr_Payload := lifecycleConfigPayload nxt revision\<rparr>
                      in Inr ((revision, True), db\<lparr>db_lifecycle := Some row'\<rparr>))"

subsection \<open>The lifecycle timing\<close>

text \<open>The configuration every transaction accepts keeps the order of the timeouts, without overflow.\<close>

definition lifecycle_safe :: "lifecycle_row \<Rightarrow> bool" where
  "lifecycle_safe row \<longleftrightarrow>
     ValidateCredentialConcurrencyLifecycle (lr_NodeHeartbeatTimeout row) (lr_Payload row)"

lemma validate_lifecycle_payload [simp]:
  "ValidateCredentialConcurrencyLifecycle h (lifecycleConfigPayload cfg r)
   = ValidateCredentialConcurrencyLifecycle h cfg"
  "ValidateCredentialConcurrencyLifecycle h (lifecycleConfigFromRecord row)
   = ValidateCredentialConcurrencyLifecycle h (lr_Payload row)"
  "ValidateCredentialConcurrencyLifecycle h (cfg\<lparr>cc_ObservationBarrierRevision := n\<rparr>)
   = ValidateCredentialConcurrencyLifecycle h cfg"
  by (simp_all add: ValidateCredentialConcurrencyLifecycle_def lifecycleConfigPayload_def
      lifecycleConfigFromRecord_def cong: option.case_cong)

lemma validate_lifecycle_order:
  assumes "ValidateCredentialConcurrencyLifecycle h cfg" "h \<le> max_i64" "cc_CPAHeartbeatTimeout cfg \<le> max_i64"
  shows "0 < h \<and> 0 < cc_ReclaimGrace cfg
    \<and> cc_CPAHeartbeatTimeout cfg + cc_CPACancelBound cfg < h + cc_ReclaimGrace cfg
    \<and> h + cc_ReclaimGrace cfg \<le> max_i64"
  using assms
  by (auto simp: ValidateCredentialConcurrencyLifecycle_def addPositiveDuration_def i64_simps
      split: if_splits option.splits)

lemma ensureLifecycleConfigTx_safe:
  "ensureLifecycleConfigTx h db = Inr (row, db') \<Longrightarrow>
   lifecycle_safe row \<and> lr_NodeHeartbeatTimeout row = h \<and> db' = db\<lparr>db_lifecycle := Some row\<rparr>"
  by (auto simp: ensureLifecycleConfigTx_def lifecycle_safe_def Let_def split: if_splits)

lemma ensureLifecycleConfigTx_existing:
  "ensureLifecycleConfigTx h db = Inr (row, db') \<Longrightarrow> db_lifecycle db = Some old \<Longrightarrow> row = old"
  by (auto simp: ensureLifecycleConfigTx_def Let_def split: if_splits)

lemma updateLifecycleConfigTx_safe:
  assumes "updateLifecycleConfigTx parse h cfg db = Inr (r, db')"
  shows "\<exists>row. db' = db\<lparr>db_lifecycle := Some row\<rparr> \<and> lifecycle_safe row"
proof -
  from assms obtain row db1 where row: "ensureLifecycleConfigTx h db = Inr (row, db1)"
    by (auto simp: updateLifecycleConfigTx_def split: sum.splits)
  note ensureLifecycleConfigTx_safe [OF row]
  with assms row show ?thesis
    by (auto simp: updateLifecycleConfigTx_def lifecycle_safe_def Let_def split: if_splits)
qed

text \<open>A change of the timing is refused while a membership relies on the old one.\<close>

lemma updateLifecycleConfigTx_timing:
  assumes "updateLifecycleConfigTx parse h cfg db = Inr (r, db')" "db_lifecycle db = Some old"
    "members_in_use db" "db_lifecycle db' = Some new"
  shows "lr_Revision new = lr_Revision old
    \<and> \<not> lifecycleConfigSafetyChanged (lr_Payload old) (lr_Payload new)
    \<and> lr_NodeHeartbeatTimeout new = lr_NodeHeartbeatTimeout old"
proof -
  from assms obtain row db1 where row: "ensureLifecycleConfigTx h db = Inr (row, db1)"
    by (auto simp: updateLifecycleConfigTx_def split: sum.splits)
  note ensureLifecycleConfigTx_safe [OF row] ensureLifecycleConfigTx_existing [OF row assms(2)]
  moreover have "members_in_use (db\<lparr>db_lifecycle := l\<rparr>) = members_in_use db" for l
    by (simp add: members_in_use_def)
  ultimately show ?thesis
    using assms row
    by (auto simp: updateLifecycleConfigTx_def lifecycleConfigSafetyChanged_def lifecycleConfigPayload_def
        lifecycleConfigFromRecord_def Let_def split: if_splits)
qed

end
