(* ===== verification/Home_Lifecycle.thy ===== *)
theory Home_Lifecycle
  imports Cluster_Tables
begin

section \<open>Homes and memberships\<close>

text \<open>
  \<^verbatim>\<open>cluster/home_incarnation.go\<close> and \<^verbatim>\<open>cluster/membership.go\<close>: the incarnations of the Home processes, and
  the memberships of the nodes (CPA) that subscribe to them under their certificate.  An incarnation is
  created active and only ever leaves that state; a membership lifetime is named by its fingerprint and
  the instant it was accepted, which grows with every acceptance.
\<close>

subsection \<open>Home incarnations\<close>

definition credentialConcurrencyLimitsCapability :: string where
  "credentialConcurrencyLimitsCapability = ''credential_concurrency_limits_v2''"

definition lockConcurrencyActivationGate :: "cluster_db \<Rightarrow> int \<times> cluster_db" where
  "lockConcurrencyActivationGate db =
     (let count = (case db_gate db of None \<Rightarrow> 0 | Some n \<Rightarrow> n) in (count, db\<lparr>db_gate := Some count\<rparr>))"

definition homeIncarnationLifecycleConfig :: "lifecycle_row tx" where
  "homeIncarnationLifecycleConfig db =
     (case db_lifecycle db of
        None \<Rightarrow> ensureLifecycleConfigTx defaultHeartbeatTimeout db
      | Some row \<Rightarrow> Inr (row, db))"

text \<open>A conditional update of the homes: \<open>transition\<close> of the rows that satisfy the predicate.\<close>

definition homeIncarnationTransition ::
    "(home_id \<Rightarrow> home_row \<Rightarrow> bool) \<Rightarrow> (home_row \<Rightarrow> home_row) \<Rightarrow> cluster_db \<Rightarrow> cluster_db" where
  "homeIncarnationTransition pred transition db =
     db\<lparr>db_homes := map (\<lambda>(h, row). (h, if pred h row then transition row else row)) (db_homes db)\<rparr>"

definition expireStaleHomeIncarnations :: "duration \<Rightarrow> gotime \<Rightarrow> unit tx" where
  "expireStaleHomeIncarnations nodeHeartbeatTimeout now db =
     (if nodeHeartbeatTimeout \<le> 0 then Inl InvalidArgument
      else let cutoff = now - nodeHeartbeatTimeout
           in Inr ((), homeIncarnationTransition
                (\<lambda>h row. hr_State row = HomeActive \<and> hr_LastSeenAt row < cutoff)
                (hr_State_update (\<lambda>_. HomeExpired)) db))"

definition live_homes :: "cluster_db \<Rightarrow> (home_id \<times> home_row) list" where
  "live_homes db = filter (\<lambda>(h, row). hr_State row = HomeActive) (db_homes db)"

text \<open>When the newest incarnation at an address was started, if there was one.\<close>

definition latest_start :: "cluster_db \<Rightarrow> string \<Rightarrow> int \<Rightarrow> gotime option" where
  "latest_start db ip port =
     (let starts = map (\<lambda>(h, row). hi_StartedAt h)
            (filter (\<lambda>(h, row). hi_IP h = ip \<and> hi_Port h = port) (db_homes db))
      in if starts = [] then None else Some (foldr max starts (hd starts)))"

definition RegisterHomeIncarnation ::
    "string \<Rightarrow> int \<Rightarrow> string list \<Rightarrow> gotime \<Rightarrow> gotime \<Rightarrow> home_id tx" where
  "RegisterHomeIncarnation ip0 port capabilities db_now expire_now db0 =
     (let ip = trim_space ip0
      in if ip = [] then Inl InvalidArgument
         else if port \<le> 0 then Inl InvalidArgument
         else
           let (gate, db1) = lockConcurrencyActivationGate db0
           in case homeIncarnationLifecycleConfig db1 of
                Inl e \<Rightarrow> Inl e
              | Inr (lifecycle, db2) \<Rightarrow>
                  (case expireStaleHomeIncarnations (lr_NodeHeartbeatTimeout lifecycle) expire_now db2 of
                     Inl e \<Rightarrow> Inl e
                   | Inr (_, db) \<Rightarrow>
                       if gate > 0 \<and> \<not> List.member capabilities credentialConcurrencyLimitsCapability
                       then Inl HomeCapabilityRequired
                       else if gate > 0 \<and> db_sqlite db \<and> live_homes db \<noteq> [] then Inl SQLiteMultiHome
                       else
                         let now = (case latest_start db ip port of
                               None \<Rightarrow> db_now
                             | Some started \<Rightarrow>
                                 if \<not> db_now > started then started + databaseTimestampStep db else db_now);
                             h = \<lparr>hi_IP = ip, hi_Port = port, hi_StartedAt = now\<rparr>;
                             row = \<lparr>hr_LastSeenAt = now, hr_State = HomeActive, hr_FencedAt = None,
                                    hr_FenceReason = [],
                                    hr_Capabilities = remdups_adj (sort capabilities)\<rparr>
                         in if map_of (db_homes db) h \<noteq> None then Inl DuplicateKey
                            else Inr (h, db\<lparr>db_homes := db_homes db @ [(h, row)]\<rparr>)))"

definition trimmed_home :: "home_id \<Rightarrow> home_id" where
  "trimmed_home h = h\<lparr>hi_IP := trim_space (hi_IP h)\<rparr>"

definition HeartbeatHomeIncarnation :: "home_id \<Rightarrow> gotime \<Rightarrow> unit tx" where
  "HeartbeatHomeIncarnation h now db =
     (case map_of (db_homes db) (trimmed_home h) of
        None \<Rightarrow> Inl HomeNotFound
      | Some row \<Rightarrow>
          if hr_State row = HomeFenced then Inl HomeIsFenced
          else if hr_State row \<noteq> HomeActive then Inl HomeInactive
          else Inr ((), db\<lparr>db_homes := AList.update (trimmed_home h) (row\<lparr>hr_LastSeenAt := now\<rparr>)
                            (db_homes db)\<rparr>))"

definition updateHomeIncarnation ::
    "home_id \<Rightarrow> (cluster_db \<Rightarrow> home_row \<Rightarrow> gotime \<Rightarrow> cluster_error + unit \<times> cluster_db) \<Rightarrow> gotime \<Rightarrow> unit tx" where
  "updateHomeIncarnation h update now db =
     (case map_of (db_homes db) (trimmed_home h) of
        None \<Rightarrow> Inl HomeNotFound
      | Some row \<Rightarrow> update db row now)"

text \<open>The update statement names the untrimmed address of the argument.\<close>

definition update_active_home :: "home_id \<Rightarrow> (home_row \<Rightarrow> home_row) \<Rightarrow> cluster_db \<Rightarrow> cluster_db" where
  "update_active_home h f = homeIncarnationTransition (\<lambda>h' row. h' = h \<and> hr_State row = HomeActive) f"

definition RetireHomeIncarnation :: "home_id \<Rightarrow> gotime \<Rightarrow> unit tx" where
  "RetireHomeIncarnation h =
     updateHomeIncarnation h (\<lambda>db row now.
       if hr_State row = HomeFenced then Inl HomeIsFenced
       else if hr_State row \<noteq> HomeActive then Inl HomeInactive
       else Inr ((), update_active_home h (hr_State_update (\<lambda>_. HomeRetired)) db))"

definition FenceHomeIncarnation :: "home_id \<Rightarrow> string \<Rightarrow> gotime \<Rightarrow> unit tx" where
  "FenceHomeIncarnation h reason =
     updateHomeIncarnation h (\<lambda>db row now.
       if hr_State row = HomeFenced then Inr ((), db)
       else if hr_State row \<noteq> HomeActive then Inl HomeInactive
       else Inr ((), update_active_home h
              (\<lambda>r. r\<lparr>hr_State := HomeFenced, hr_FencedAt := Some now,
                     hr_FenceReason := trim_space reason\<rparr>) db))"

definition verifyActiveHomeIncarnation :: "cluster_db \<Rightarrow> home_id \<Rightarrow> cluster_error option" where
  "verifyActiveHomeIncarnation db h =
     (case map_of (db_homes db) (trimmed_home h) of
        None \<Rightarrow> Some HomeNotFound
      | Some row \<Rightarrow>
          if hr_State row = HomeFenced then Some HomeIsFenced
          else if hr_State row \<noteq> HomeActive then Some HomeInactive else None)"

subsection \<open>Memberships\<close>

record connection_lifetime =
  cl_Fingerprint :: string
  cl_ConnectedAt :: gotime
  cl_Home :: home_id
  cl_Controlled :: bool

record subscribe_request =
  sq_Fingerprint :: string
  sq_NodeID :: string
  sq_Home :: home_id
  sq_ProtocolVersion :: int
  sq_LifecycleConfigRevision :: int
  sq_Takeover :: bool

definition membershipOwnedByHome :: "membership_row \<Rightarrow> home_id \<Rightarrow> bool" where
  "membershipOwnedByHome m h \<longleftrightarrow>
     trim_space (hi_IP (mb_Home m)) = trim_space (hi_IP h) \<and> hi_Port (mb_Home m) = hi_Port h
     \<and> hi_StartedAt (mb_Home m) = hi_StartedAt h"

definition RecordParticipation :: "connection_lifetime \<Rightarrow> unit tx" where
  "RecordParticipation lifetime db =
     (let fp = trim_space (cl_Fingerprint lifetime); h = trimmed_home (cl_Home lifetime)
      in if fp = [] \<or> cl_ConnectedAt lifetime = 0 \<or> hi_IP h = [] \<or> hi_Port h \<le> 0 \<or> hi_StartedAt h = 0
         then Inl InvalidArgument
         else case map_of (db_members db) fp of
           None \<Rightarrow> Inl MembershipNotActive
         | Some m \<Rightarrow>
             if mb_State m \<noteq> MemberActive \<or> mb_ConnectedAt m \<noteq> cl_ConnectedAt lifetime
             then Inl MembershipNotActive
             else (case map_of (db_homes db) h of
                 None \<Rightarrow> Inl HomeNotFound
               | Some row \<Rightarrow>
                   if hr_State row = HomeFenced then Inl HomeIsFenced
                   else if hr_State row \<noteq> HomeActive then Inl HomeInactive
                   else Inr ((), db\<lparr>db_participations :=
                     List.insert ((fp, cl_ConnectedAt lifetime), h) (db_participations db)\<rparr>)))"

text \<open>\<open>ClassifyConnection\<close> reads outside a transaction and records the participation in one.\<close>

definition ClassifyConnection :: "string \<Rightarrow> home_id \<Rightarrow> connection_lifetime tx" where
  "ClassifyConnection fingerprint home db =
     (let fp = trim_space fingerprint;
          lifetime = \<lparr>cl_Fingerprint = fp, cl_ConnectedAt = 0, cl_Home = home, cl_Controlled = False\<rparr>
      in if fp = [] then Inr (lifetime, db)
         else case map_of (db_members db) fp of
           None \<Rightarrow> Inr (lifetime, db)
         | Some m \<Rightarrow>
             if mb_State m \<noteq> MemberActive \<or> \<not> membershipOwnedByHome m home then Inr (lifetime, db)
             else let controlled = lifetime\<lparr>cl_ConnectedAt := mb_ConnectedAt m, cl_Controlled := True\<rparr>
                  in (case RecordParticipation controlled db of
                      Inl e \<Rightarrow> Inl e
                    | Inr (_, db') \<Rightarrow> Inr (controlled, db')))"

text \<open>What a takeover forgets of the lifetime it replaces.\<close>

definition delete_lifetime :: "lifetime_key \<Rightarrow> cluster_db \<Rightarrow> cluster_db" where
  "delete_lifetime old db =
     db\<lparr>db_participations := filter (\<lambda>(lt, h). lt \<noteq> old) (db_participations db),
        db_quiescence := filter (\<lambda>((fp, connectedAt, rev, h), st). (fp, connectedAt) \<noteq> old)
          (db_quiescence db)\<rparr>"

definition accepted_member ::
    "subscribe_request \<Rightarrow> home_id \<Rightarrow> lifecycle_row \<Rightarrow> gotime \<Rightarrow> gotime \<Rightarrow> membership_row" where
  "accepted_member request home lifecycle connectedAt now =
     \<lparr>mb_NodeID = trim_space (sq_NodeID request), mb_Home = home,
      mb_ProtocolVersion = sq_ProtocolVersion request, mb_State = MemberActive, mb_CancelRevision = 0,
      mb_CancelStartedAt = None, mb_ExpectedQuiescenceCount = 0, mb_ConnectedAt = connectedAt,
      mb_LifecycleConfigRevision = lr_Revision lifecycle,
      mb_CPAHeartbeatTimeout = cc_CPAHeartbeatTimeout (lr_Payload lifecycle),
      mb_CPACancelBound = cc_CPACancelBound (lr_Payload lifecycle),
      mb_ReclaimGrace = cc_ReclaimGrace (lr_Payload lifecycle), mb_LastSeenAt = now\<rparr>"

text \<open>The checks of a request against the membership it finds, in the order of the code.\<close>

definition takeover_refused :: "subscribe_request \<Rightarrow> membership_row option \<Rightarrow> cluster_error option" where
  "takeover_refused request previous =
     (if sq_Takeover request \<and> (case previous of None \<Rightarrow> True | Some m \<Rightarrow> mb_State m = MemberClosed)
      then Some TakeoverUnavailable
      else case previous of
        None \<Rightarrow> None
      | Some m \<Rightarrow>
          if mb_State m = MemberClosed then None
          else if \<not> sq_Takeover request \<or> mb_NodeID m \<noteq> trim_space (sq_NodeID request)
          then Some DuplicateCertificate
          else if mb_LifecycleConfigRevision m \<noteq> sq_LifecycleConfigRevision request
          then Some TakeoverUnavailable else None)"

definition subscribe_invalid :: "subscribe_request \<Rightarrow> cluster_error option" where
  "subscribe_invalid request =
     (if trim_space (sq_Fingerprint request) = [] then Some InvalidArgument
      else if trim_space (sq_NodeID request) = [] then Some InvalidArgument
      else if trim_space (hi_IP (sq_Home request)) = [] \<or> hi_Port (sq_Home request) \<le> 0
        \<or> hi_StartedAt (sq_Home request) = 0 then Some InvalidArgument
      else if sq_ProtocolVersion request \<noteq> 0 \<and> sq_ProtocolVersion request \<noteq> 1 then Some UnsupportedProtocol
      else None)"

definition SubscribeMembership :: "subscribe_request \<Rightarrow> gotime \<Rightarrow> membership_row tx" where
  "SubscribeMembership request dbNow db0 =
     (case subscribe_invalid request of
        Some e \<Rightarrow> Inl e
      | None \<Rightarrow>
          let fp = trim_space (sq_Fingerprint request); home = trimmed_home (sq_Home request);
              (gate, db) = lockConcurrencyActivationGate db0
          in case db_lifecycle db of
               None \<Rightarrow> Inl RecordNotFound
             | Some lifecycle \<Rightarrow>
                 if sq_ProtocolVersion request = 0 \<and> gate \<noteq> 0 then Inl ProtocolRequired
                 else if sq_ProtocolVersion request = 1
                   \<and> sq_LifecycleConfigRevision request \<noteq> lr_Revision lifecycle
                 then Inl LifecycleRevisionMismatch
                 else
                   let previous = map_of (db_members db) fp
                   in case takeover_refused request previous of
                        Some e \<Rightarrow> Inl e
                      | None \<Rightarrow>
                          (case verifyActiveHomeIncarnation db home of
                             Some e \<Rightarrow> Inl e
                           | None \<Rightarrow>
                               let db1 = (case previous of
                                     Some m \<Rightarrow> if mb_State m \<noteq> MemberClosed
                                               then delete_lifetime (fp, mb_ConnectedAt m) db else db
                                   | None \<Rightarrow> db);
                                   connectedAt = (case previous of
                                     Some m \<Rightarrow> if mb_ConnectedAt m \<noteq> 0 \<and> \<not> dbNow > mb_ConnectedAt m
                                               then mb_ConnectedAt m + databaseTimestampStep db else dbNow
                                   | None \<Rightarrow> dbNow);
                                   m = accepted_member request home lifecycle connectedAt dbNow
                               in Inr (m, db1\<lparr>db_members := AList.update fp m (db_members db1)\<rparr>)))"

definition RefreshCPALiveness :: "connection_lifetime \<Rightarrow> gotime \<Rightarrow> unit tx" where
  "RefreshCPALiveness lifetime now db =
     (let fp = trim_space (cl_Fingerprint lifetime)
      in if fp = [] \<or> cl_ConnectedAt lifetime = 0 then Inl MembershipNotActive
         else case map_of (db_members db) fp of
           None \<Rightarrow> Inl MembershipNotActive
         | Some m \<Rightarrow>
             if mb_State m \<noteq> MemberActive \<or> mb_ConnectedAt m \<noteq> cl_ConnectedAt lifetime
               \<or> \<not> membershipOwnedByHome m (cl_Home lifetime)
             then Inl MembershipNotActive
             else (case verifyActiveHomeIncarnation db (cl_Home lifetime) of
                 Some e \<Rightarrow> Inl e
               | None \<Rightarrow> Inr ((), db\<lparr>db_members :=
                   AList.update fp (m\<lparr>mb_LastSeenAt := now\<rparr>) (db_members db)\<rparr>)))"

end
