(* ===== verification/Quiescence.thy ===== *)
theory Quiescence
  imports Home_Lifecycle
begin

section \<open>Cancelling a membership\<close>

text \<open>
  \<^verbatim>\<open>cluster/quiescence.go\<close>.  A membership is cancelled in two phases: the first stops it and asks every
  Home that served its lifetime to acknowledge that it has stopped, the second closes it once each of
  them has acknowledged or has been fenced because it was silent for longer than the lifecycle
  configuration allows.  Closing drops the limiter's counters of the fingerprint.  The snapshots of
  requests in flight that a closed lifetime leaves are cleaned up elsewhere and not modelled.
\<close>

subsection \<open>Beginning a cancellation\<close>

definition home_order :: "home_id \<Rightarrow> string \<times> int \<times> gotime" where
  "home_order h = (hi_IP h, hi_Port h, hi_StartedAt h)"

text \<open>The Homes that served the lifetime: its owner and all that recorded a connection, sorted.\<close>

definition quiescenceHomeCandidates :: "cluster_db \<Rightarrow> string \<Rightarrow> membership_row \<Rightarrow> home_id list" where
  "quiescenceHomeCandidates db fp m =
     sort_key home_order (remdups (trimmed_home (mb_Home m) #
       map (\<lambda>(lt, h). trimmed_home h)
         (filter (\<lambda>(lt, h). lt = (fp, mb_ConnectedAt m)) (db_participations db))))"

fun create_rows :: "string \<Rightarrow> gotime \<Rightarrow> int \<Rightarrow> home_id list
    \<Rightarrow> (quiescence_key, quiescence_status) gomap \<Rightarrow> (quiescence_key, quiescence_status) gomap option" where
  "create_rows fp connectedAt revn [] table = Some table"
| "create_rows fp connectedAt revn (h # homes) table =
     (if map_of table (fp, connectedAt, revn, h) \<noteq> None then None
      else create_rows fp connectedAt revn homes (table @ [((fp, connectedAt, revn, h), QPending)]))"

definition quiescence_rows :: "cluster_db \<Rightarrow> string \<Rightarrow> gotime \<Rightarrow> int \<Rightarrow> (home_id \<times> quiescence_status) list" where
  "quiescence_rows db fp connectedAt revn =
     sort_key (\<lambda>(h, st). home_order h)
       (map (\<lambda>((fp', c, r, h), st). (h, st))
          (filter (\<lambda>((fp', c, r, h), st). fp' = fp \<and> c = connectedAt \<and> r = revn) (db_quiescence db)))"

definition createAndLockQuiescenceRowsTx ::
    "string \<Rightarrow> gotime \<Rightarrow> int \<Rightarrow> home_id list \<Rightarrow> (home_id \<times> quiescence_status) list tx" where
  "createAndLockQuiescenceRowsTx fp connectedAt revn homes db =
     (case create_rows fp connectedAt revn homes (db_quiescence db) of
        None \<Rightarrow> Inl DuplicateKey
      | Some table \<Rightarrow>
          let db' = db\<lparr>db_quiescence := table\<rparr>; rows = quiescence_rows db' fp connectedAt revn
          in if length rows \<noteq> length homes then Inl QuiescenceSetIncomplete else Inr (rows, db'))"

text \<open>
  Deciding about one Home: it is expired when its heartbeat is overdue, fenced when it has been silent
  beyond the grace period, and its row with it.
\<close>

definition grace_cutoff :: "lifecycle_row \<Rightarrow> gotime \<Rightarrow> gotime" where
  "grace_cutoff lifecycle now =
     now + wrap64 (- wrap64 (lr_NodeHeartbeatTimeout lifecycle
             + cc_ReclaimGrace (lifecycleConfigFromRecord lifecycle)))"

definition fence_row :: "quiescence_key \<Rightarrow> cluster_db \<Rightarrow> cluster_db" where
  "fence_row key db =
     db\<lparr>db_quiescence := map (\<lambda>(k, st). (k, if k = key \<and> st = QPending then QFenced else st))
          (db_quiescence db)\<rparr>"

definition resolveQuiescenceHomeRowTx ::
    "string \<Rightarrow> gotime \<Rightarrow> int \<Rightarrow> lifecycle_row \<Rightarrow> gotime \<Rightarrow> string \<Rightarrow> home_id \<Rightarrow> unit tx" where
  "resolveQuiescenceHomeRowTx fp connectedAt revn lifecycle now reason h db =
     (case map_of (db_homes db) h of
        None \<Rightarrow> Inl HomeNotFound
      | Some home \<Rightarrow>
          let cutoff = now + wrap64 (- lr_NodeHeartbeatTimeout lifecycle);
              db1 = (if hr_State home = HomeActive
                     then homeIncarnationTransition
                       (\<lambda>h' row. h' = h \<and> hr_State row = HomeActive \<and> hr_LastSeenAt row < cutoff)
                       (hr_State_update (\<lambda>_. HomeExpired)) db
                     else db);
              graceCutoff = grace_cutoff lifecycle now;
              db2 = homeIncarnationTransition
                (\<lambda>h' row. h' = h \<and> (hr_State row = HomeExpired \<or> hr_State row = HomeRetired)
                   \<and> hr_LastSeenAt row < graceCutoff)
                (\<lambda>row. row\<lparr>hr_State := HomeFenced, hr_FencedAt := Some now, hr_FenceReason := reason\<rparr>) db1;
              eligible = (case map_of (db_homes db2) h of
                  None \<Rightarrow> False
                | Some row \<Rightarrow> (hr_State row = HomeExpired \<or> hr_State row = HomeRetired
                    \<or> hr_State row = HomeFenced) \<and> hr_LastSeenAt row < graceCutoff)
          in Inr ((), if eligible then fence_row (fp, connectedAt, revn, h) db2 else db2))"

fun resolveQuiescenceHomeEligibilityTx ::
    "string \<Rightarrow> gotime \<Rightarrow> int \<Rightarrow> lifecycle_row \<Rightarrow> gotime \<Rightarrow> string \<Rightarrow> home_id list \<Rightarrow> unit tx" where
  "resolveQuiescenceHomeEligibilityTx fp connectedAt revn lifecycle now reason [] db = Inr ((), db)"
| "resolveQuiescenceHomeEligibilityTx fp connectedAt revn lifecycle now reason (h # homes) db =
     (case resolveQuiescenceHomeRowTx fp connectedAt revn lifecycle now reason h db of
        Inl e \<Rightarrow> Inl e
      | Inr (_, db') \<Rightarrow>
          resolveQuiescenceHomeEligibilityTx fp connectedAt revn lifecycle now reason homes db')"

definition beginFingerprintCancellationForMembershipTx :: "string \<Rightarrow> membership_row \<Rightarrow> gotime \<Rightarrow> int tx" where
  "beginFingerprintCancellationForMembershipTx fp m now db =
     (if mb_State m \<noteq> MemberActive then Inl MembershipNotActive
      else
        let candidates = quiescenceHomeCandidates db fp m
        in if candidates = [] then Inl QuiescenceSetIncomplete
           else
             let revision = wrap64 (mb_CancelRevision m + 1);
                 m' = m\<lparr>mb_State := MemberCanceling, mb_CancelRevision := revision,
                        mb_CancelStartedAt := Some now,
                        mb_ExpectedQuiescenceCount := int (length candidates)\<rparr>;
                 db1 = db\<lparr>db_members := AList.update fp m' (db_members db)\<rparr>
             in case createAndLockQuiescenceRowsTx fp (mb_ConnectedAt m) revision candidates db1 of
                  Inl e \<Rightarrow> Inl e
                | Inr (rows, db2) \<Rightarrow>
                    (case db_lifecycle db2 of
                       None \<Rightarrow> Inl RecordNotFound
                     | Some lifecycle \<Rightarrow>
                         (case resolveQuiescenceHomeEligibilityTx fp (mb_ConnectedAt m) revision lifecycle
                                 now ''CPA fingerprint cancellation'' (map fst rows) db2 of
                            Inl e \<Rightarrow> Inl e
                          | Inr (_, db3) \<Rightarrow>
                              Inr (revision, appendEvent ''cpa-fence'' (EventTime (mb_ConnectedAt m)) fp
                                     revision db3))))"

definition BeginFingerprintCancellation :: "string \<Rightarrow> gotime \<Rightarrow> int tx" where
  "BeginFingerprintCancellation fingerprint now db =
     (let fp = trim_space fingerprint
      in if fp = [] then Inl InvalidArgument
         else case map_of (db_members db) fp of
           None \<Rightarrow> Inl RecordNotFound
         | Some m \<Rightarrow> beginFingerprintCancellationForMembershipTx fp m now db)"

definition BeginFingerprintCancellationForLifetime :: "connection_lifetime \<Rightarrow> gotime \<Rightarrow> int tx" where
  "BeginFingerprintCancellationForLifetime lifetime now db =
     (let fp = trim_space (cl_Fingerprint lifetime); h = trimmed_home (cl_Home lifetime)
      in if \<not> cl_Controlled lifetime \<or> fp = [] \<or> cl_ConnectedAt lifetime = 0 \<or> hi_IP h = []
           \<or> hi_Port h \<le> 0 \<or> hi_StartedAt h = 0
         then Inl MembershipNotActive
         else case map_of (db_members db) fp of
           None \<Rightarrow> Inl MembershipNotActive
         | Some m \<Rightarrow>
             if mb_State m \<noteq> MemberActive \<or> mb_ConnectedAt m \<noteq> cl_ConnectedAt lifetime
               \<or> \<not> membershipOwnedByHome m h
             then Inl MembershipNotActive
             else beginFingerprintCancellationForMembershipTx fp m now db)"

subsection \<open>Stale memberships\<close>

definition cleanupStaleMembership :: "string \<Rightarrow> duration \<Rightarrow> gotime \<Rightarrow> unit tx" where
  "cleanupStaleMembership fp heartbeatTimeout now db =
     (case map_of (db_members db) fp of
        None \<Rightarrow> Inr ((), db)
      | Some m \<Rightarrow>
          if mb_State m \<noteq> MemberActive \<or> \<not> mb_LastSeenAt m < now + wrap64 (- heartbeatTimeout)
          then Inr ((), db)
          else if \<not> mb_LastSeenAt m < now + wrap64 (- mb_CPAHeartbeatTimeout m) then Inr ((), db)
          else (case beginFingerprintCancellationForMembershipTx fp m now db of
              Inl e \<Rightarrow> Inl e | Inr (_, db') \<Rightarrow> Inr ((), db')))"

text \<open>
  The loop runs one transaction per stale membership of its snapshot.  \<open>env fp\<close> is what others commit
  before the transaction of \<open>fp\<close>, \<open>clock fp\<close> the database time in it.
\<close>

fun cleanup_loop :: "(string \<Rightarrow> cluster_db \<Rightarrow> cluster_db) \<Rightarrow> (string \<Rightarrow> gotime) \<Rightarrow> gotime
    \<Rightarrow> (string \<times> membership_row) list \<Rightarrow> cluster_db \<Rightarrow> cluster_db \<times> cluster_error option" where
  "cleanup_loop env clock now [] db = (db, None)"
| "cleanup_loop env clock now ((fp, m) # active) db =
     (if mb_CPAHeartbeatTimeout m \<le> 0
        \<or> \<not> mb_LastSeenAt m < now + wrap64 (- mb_CPAHeartbeatTimeout m)
      then cleanup_loop env clock now active db
      else case cleanupStaleMembership fp (mb_CPAHeartbeatTimeout m) (clock fp) (env fp db) of
        Inl e \<Rightarrow> (env fp db, Some e)
      | Inr (_, db') \<Rightarrow> cleanup_loop env clock now active db')"

definition members_in_state :: "membership_state \<Rightarrow> cluster_db \<Rightarrow> (string \<times> membership_row) list" where
  "members_in_state st db = sort_key fst (filter (\<lambda>(fp, m). mb_State m = st) (db_members db))"

definition CleanupStaleMemberships :: "(string \<Rightarrow> cluster_db \<Rightarrow> cluster_db) \<Rightarrow> (string \<Rightarrow> gotime) \<Rightarrow> gotime
    \<Rightarrow> cluster_db \<Rightarrow> cluster_db \<times> cluster_error option" where
  "CleanupStaleMemberships env clock now db =
     cleanup_loop env clock now (members_in_state MemberActive db) db"

subsection \<open>Acknowledging and completing\<close>

definition AcknowledgeQuiescence :: "string \<Rightarrow> gotime \<Rightarrow> int \<Rightarrow> home_id \<Rightarrow> unit tx" where
  "AcknowledgeQuiescence fingerprint connectedAt revision home db =
     (let fp = trim_space fingerprint; h = trimmed_home home
      in if fp = [] \<or> connectedAt = 0 \<or> revision \<le> 0 \<or> hi_IP h = [] \<or> hi_Port h \<le> 0
           \<or> hi_StartedAt h = 0
         then Inl QuiescenceRevisionMismatch
         else case map_of (db_members db) fp of
           None \<Rightarrow> Inl QuiescenceRevisionMismatch
         | Some m \<Rightarrow>
             if mb_State m \<noteq> MemberCanceling \<or> mb_CancelRevision m \<noteq> revision
               \<or> mb_ConnectedAt m \<noteq> connectedAt
             then Inl QuiescenceRevisionMismatch
             else (case map_of (db_quiescence db) (fp, connectedAt, revision, h) of
                 None \<Rightarrow> Inl QuiescenceRevisionMismatch
               | Some st \<Rightarrow>
                   (case verifyActiveHomeIncarnation db home of
                      Some e \<Rightarrow> Inl e
                    | None \<Rightarrow> Inr ((), db\<lparr>db_quiescence :=
                        AList.update (fp, connectedAt, revision, h) QAcknowledged (db_quiescence db)\<rparr>))))"

definition DeleteFingerprintConcurrencyCountersTx :: "string \<Rightarrow> unit tx" where
  "DeleteFingerprintConcurrencyCountersTx fingerprint db =
     (let fp = trim_space fingerprint
      in if fp = [] then Inl InvalidRelease
         else Inr ((), db\<lparr>db_counters := filter (\<lambda>((cred, model, fp'), c). fp' \<noteq> fp) (db_counters db)\<rparr>))"

definition completeFingerprintCancellationTx :: "string \<Rightarrow> int \<Rightarrow> gotime \<Rightarrow> unit tx" where
  "completeFingerprintCancellationTx fp revision connectedAt db =
     (case map_of (db_members db) fp of
        None \<Rightarrow> Inl QuiescenceRevisionMismatch
      | Some m \<Rightarrow>
          if connectedAt = 0 \<or> mb_State m \<noteq> MemberCanceling \<or> mb_CancelRevision m \<noteq> revision
            \<or> mb_ConnectedAt m \<noteq> connectedAt
          then Inl QuiescenceRevisionMismatch
          else
            let rows = quiescence_rows db fp connectedAt revision
            in if mb_ExpectedQuiescenceCount m \<le> 0
                 \<or> int (length rows) \<noteq> mb_ExpectedQuiescenceCount m
               then Inl QuiescenceSetIncomplete
               else if list_ex (\<lambda>(h, st). st \<noteq> QAcknowledged \<and> st \<noteq> QFenced) rows then Inl NotQuiescent
               else
                 let db1 = db\<lparr>db_participations :=
                       filter (\<lambda>(lt, h). lt \<noteq> (fp, connectedAt)) (db_participations db)\<rparr>
                 in case DeleteFingerprintConcurrencyCountersTx fp db1 of
                      Inl e \<Rightarrow> Inl e
                    | Inr (_, db2) \<Rightarrow>
                        Inr ((), db2\<lparr>db_members := AList.update fp (m\<lparr>mb_State := MemberClosed\<rparr>)
                                   (db_members db2)\<rparr>))"

definition CompleteFingerprintCancellation :: "string \<Rightarrow> gotime \<Rightarrow> int \<Rightarrow> unit tx" where
  "CompleteFingerprintCancellation fingerprint connectedAt revision db =
     (let fp = trim_space fingerprint
      in if fp = [] \<or> connectedAt = 0 \<or> revision \<le> 0 then Inl QuiescenceRevisionMismatch
         else completeFingerprintCancellationTx fp revision connectedAt db)"

text \<open>The result tells whether the cancellation was completed.\<close>

definition recoverStaleMembershipQuiescence :: "string \<Rightarrow> gotime \<Rightarrow> int \<Rightarrow> gotime \<Rightarrow> bool tx" where
  "recoverStaleMembershipQuiescence fp connectedAt revision now db =
     (case db_lifecycle db of
        None \<Rightarrow> Inl RecordNotFound
      | Some lifecycle \<Rightarrow>
          (case map_of (db_members db) fp of
             None \<Rightarrow> Inr (False, db)
           | Some m \<Rightarrow>
               if mb_ConnectedAt m \<noteq> connectedAt \<or> mb_CancelRevision m \<noteq> revision
                 \<or> mb_State m \<noteq> MemberCanceling
               then Inr (False, db)
               else
                 let pending = filter (\<lambda>(h, st). st = QPending) (quiescence_rows db fp connectedAt revision)
                 in case resolveQuiescenceHomeEligibilityTx fp connectedAt revision lifecycle now
                        ''CPA fingerprint cancellation recovery'' (map fst pending) db of
                      Inl e \<Rightarrow> Inl e
                    | Inr (_, db1) \<Rightarrow>
                        (case completeFingerprintCancellationTx fp revision connectedAt db1 of
                           Inl e \<Rightarrow> if e \<noteq> NotQuiescent \<and> e \<noteq> QuiescenceSetIncomplete then Inl e
                                    else Inr (False, db1)
                         | Inr (_, db2) \<Rightarrow> Inr (True, db2))))"

fun recover_loop :: "(string \<Rightarrow> cluster_db \<Rightarrow> cluster_db) \<Rightarrow> (string \<Rightarrow> gotime)
    \<Rightarrow> (string \<times> membership_row) list \<Rightarrow> cluster_db \<Rightarrow> cluster_db \<times> cluster_error option" where
  "recover_loop env clock [] db = (db, None)"
| "recover_loop env clock ((fp, m) # canceling) db =
     (case recoverStaleMembershipQuiescence fp (mb_ConnectedAt m) (mb_CancelRevision m) (clock fp)
             (env fp db) of
        Inl e \<Rightarrow> (env fp db, Some e)
      | Inr (_, db') \<Rightarrow> recover_loop env clock canceling db')"

definition RecoverStaleQuiescence :: "(string \<Rightarrow> cluster_db \<Rightarrow> cluster_db) \<Rightarrow> (string \<Rightarrow> gotime)
    \<Rightarrow> cluster_db \<Rightarrow> cluster_db \<times> cluster_error option" where
  "RecoverStaleQuiescence env clock db =
     recover_loop env clock (members_in_state MemberCanceling db) db"

definition ListPendingQuiescence :: "home_id \<Rightarrow> cluster_db \<Rightarrow> cluster_error + quiescence_key list" where
  "ListPendingQuiescence home db =
     (let h = trimmed_home home
      in if hi_IP h = [] \<or> hi_Port h \<le> 0 \<or> hi_StartedAt h = 0 then Inl InvalidArgument
         else Inr (map fst (filter (\<lambda>((fp, c, r, h'), st). h' = h \<and> st = QPending) (db_quiescence db))))"

end
