(* ===== verification/Concurrency_Policy.thy ===== *)
theory Concurrency_Policy
  imports Home_Lifecycle
begin

section \<open>Concurrency policies\<close>

text \<open>
  \<^verbatim>\<open>cluster/concurrency_policy.go\<close> and the exchange of policies in \<^verbatim>\<open>cluster/concurrency_exchange.go\<close>: the
  limits an administrator sets on a credential and its models, under a version that is checked on
  change, and the activation gate that counts the credentials with a limit.  While that count is not
  zero every active node must speak the protocol of the limiter and every active Home must be able to
  enforce it.

  JSON and YAML are decoded before: a patch tells for both limits whether they were given and whether
  they were null.  The activation count is a number of rows, so its increment is not wrapped.
\<close>

subsection \<open>Patches\<close>

record optional_limit =
  ol_Set :: bool
  ol_Null :: bool
  ol_Value :: int

record optional_model_limits =
  om_Set :: bool
  om_Null :: bool
  om_Value :: "(string, int option) gomap"

record policy_patch =
  pp_MaxInFlight :: optional_limit
  pp_MaxInFlightByModel :: optional_model_limits

record credential_policy =
  cr_CredentialID :: string
  cr_MaxInFlight :: "int option"
  cr_MaxInFlightByModel :: "(string, int) gomap"
  cr_Version :: int
  cr_EffectiveAt :: gotime
  cr_ObservationBarrierRevision :: int

record normalized_patch =
  np_maxInFlightSet :: bool
  np_maxInFlight :: "int option"
  np_maxInFlightByModelSet :: bool
  np_maxInFlightByModel :: "(string, int) gomap"

definition validateConcurrencyPolicyLimit :: "int \<Rightarrow> int \<Rightarrow> cluster_error option" where
  "validateConcurrencyPolicyLimit limit maxLimit =
     (if maxLimit < 1 \<or> maxLimit > MaxConfiguredLimit then Some MaximumLimitInvalid
      else if limit < 0 \<or> limit > maxLimit then Some InvalidLimit else None)"

fun normalize_models :: "int \<Rightarrow> (string \<times> int option) list \<Rightarrow> (string, int) gomap
    \<Rightarrow> cluster_error + (string, int) gomap" where
  "normalize_models maxLimit [] acc = Inr acc"
| "normalize_models maxLimit ((rawModel, limit) # models) acc =
     (let (model, valid) = ValidCanonicalConcurrencyModelKey rawModel
      in if \<not> valid then Inl InvalidModel
         else if map_of acc model \<noteq> None then Inl DuplicateModel
         else if limit = None \<or> limit = Some 0 then normalize_models maxLimit models (acc @ [(model, 0)])
         else case validateConcurrencyPolicyLimit (the limit) maxLimit of
           Some e \<Rightarrow> Inl e
         | None \<Rightarrow> normalize_models maxLimit models (acc @ [(model, the limit)]))"

definition normalizeConcurrencyPolicyPatch :: "policy_patch \<Rightarrow> int \<Rightarrow> cluster_error + normalized_patch" where
  "normalizeConcurrencyPolicyPatch patch maxLimit =
     (let total = pp_MaxInFlight patch; byModel = pp_MaxInFlightByModel patch;
          given = ol_Set total \<and> \<not> ol_Null total
      in case (if given then validateConcurrencyPolicyLimit (ol_Value total) maxLimit else None) of
           Some e \<Rightarrow> Inl e
         | None \<Rightarrow>
             let normalized = \<lparr>np_maxInFlightSet = ol_Set total,
                   np_maxInFlight = (if given \<and> ol_Value total > 0 then Some (ol_Value total) else None),
                   np_maxInFlightByModelSet = om_Set byModel, np_maxInFlightByModel = []\<rparr>
             in if \<not> om_Set byModel \<or> om_Null byModel then Inr normalized
                else (case normalize_models maxLimit (om_Value byModel) [] of
                    Inl e \<Rightarrow> Inl e
                  | Inr models \<Rightarrow> Inr (normalized\<lparr>np_maxInFlightByModel :=
                      filter (\<lambda>(model, limit). limit \<noteq> 0) models\<rparr>)))"

fun check_model_keys :: "string list \<Rightarrow> string list \<Rightarrow> cluster_error option" where
  "check_model_keys [] seen = None"
| "check_model_keys (rawModel # models) seen =
     (let (model, valid) = ValidCanonicalConcurrencyModelKey rawModel
      in if \<not> valid then Some InvalidModel
         else if List.member seen model then Some DuplicateModel
         else check_model_keys models (model # seen))"

definition validateConcurrencyPolicyPatchModelKeys :: "policy_patch \<Rightarrow> cluster_error option" where
  "validateConcurrencyPolicyPatchModelKeys patch =
     (let byModel = pp_MaxInFlightByModel patch
      in if \<not> om_Set byModel \<or> om_Null byModel then None
         else check_model_keys (map fst (om_Value byModel)) [])"

definition concurrencyPolicyPatchCanActivate :: "normalized_patch \<Rightarrow> bool" where
  "concurrencyPolicyPatchCanActivate p \<longleftrightarrow> np_maxInFlight p \<noteq> None \<or> np_maxInFlightByModel p \<noteq> []"

definition concurrencyPolicyPatchIsClearOnly :: "normalized_patch \<Rightarrow> bool" where
  "concurrencyPolicyPatchIsClearOnly p \<longleftrightarrow> np_maxInFlightSet p \<and> np_maxInFlight p = None
     \<and> np_maxInFlightByModelSet p \<and> np_maxInFlightByModel p = []"

subsection \<open>Reading policies\<close>

definition loadCredentialConcurrencyModels :: "cluster_db \<Rightarrow> string \<Rightarrow> (string, int) gomap" where
  "loadCredentialConcurrencyModels db cred =
     map (\<lambda>((c, model), limit). (model, limit)) (filter (\<lambda>((c, model), limit). c = cred) (db_models db))"

definition credentialConcurrencyPolicyFromRecords ::
    "string \<Rightarrow> policy_row option \<Rightarrow> (string, int) gomap \<Rightarrow> credential_policy" where
  "credentialConcurrencyPolicyFromRecords cred row models =
     (case row of
        None \<Rightarrow> \<lparr>cr_CredentialID = cred, cr_MaxInFlight = None, cr_MaxInFlightByModel = models,
                 cr_Version = 0, cr_EffectiveAt = 0, cr_ObservationBarrierRevision = 0\<rparr>
      | Some r \<Rightarrow> \<lparr>cr_CredentialID = cred, cr_MaxInFlight = cp_MaxInFlight r,
                 cr_MaxInFlightByModel = models, cr_Version = cp_Version r,
                 cr_EffectiveAt = cp_EffectiveAt r,
                 cr_ObservationBarrierRevision = cp_ObservationBarrierRevision r\<rparr>)"

definition credential_active :: "cluster_db \<Rightarrow> string \<Rightarrow> bool" where
  "credential_active db cred = (case map_of (db_auths db) cred of None \<Rightarrow> False | Some a \<Rightarrow> \<not> ar_Deleted a)"

definition getCredentialConcurrencyPolicy :: "string \<Rightarrow> cluster_db \<Rightarrow> cluster_error + credential_policy" where
  "getCredentialConcurrencyPolicy credentialID db =
     (let cred = trim_space credentialID
      in if cred = [] then Inl CredentialNotFound
         else if \<not> credential_active db cred then Inl CredentialNotFound
         else case map_of (db_policies db) cred of
           None \<Rightarrow> Inr (credentialConcurrencyPolicyFromRecords cred None [])
         | Some row \<Rightarrow> Inr (credentialConcurrencyPolicyFromRecords cred (Some row)
             (loadCredentialConcurrencyModels db cred)))"

definition listCredentialConcurrencyPoliciesTx :: "cluster_db \<Rightarrow> credential_policy list" where
  "listCredentialConcurrencyPoliciesTx db =
     map (\<lambda>(cred, row). credentialConcurrencyPolicyFromRecords cred (Some row)
            (loadCredentialConcurrencyModels db cred))
       (sort_key fst (db_policies db))"

definition HasCredentialReferences :: "cluster_db \<Rightarrow> string \<Rightarrow> bool" where
  "HasCredentialReferences db cred \<longleftrightarrow>
     (if map_of (db_policies db) cred \<noteq> None then True
      else list_ex (\<lambda>((c, model, fp), row). c = cred) (db_counters db))"

subsection \<open>Changing a policy\<close>

definition homeHasConcurrencyLimiterCapability :: "home_row \<Rightarrow> bool" where
  "homeHasConcurrencyLimiterCapability row =
     List.member (hr_Capabilities row) credentialConcurrencyLimitsCapability"

definition verifyConcurrencyPolicyActivation :: "duration \<Rightarrow> gotime \<Rightarrow> unit tx" where
  "verifyConcurrencyPolicyActivation nodeHeartbeatTimeout now db0 =
     (case expireStaleHomeIncarnations nodeHeartbeatTimeout now db0 of
        Inl e \<Rightarrow> Inl e
      | Inr (_, db) \<Rightarrow>
          if list_ex (\<lambda>(fp, m). mb_State m = MemberActive \<and> mb_ProtocolVersion m \<noteq> 1) (db_members db)
          then Inl LegacyMembershipActive
          else if list_ex (\<lambda>(h, row). \<not> homeHasConcurrencyLimiterCapability row) (live_homes db)
          then Inl HomeCapabilityMissing
          else if db_sqlite db \<and> length (live_homes db) > 1 then Inl SQLiteMultiHome
          else Inr ((), db))"

definition policy_active :: "int option \<Rightarrow> (string, int) gomap \<Rightarrow> bool" where
  "policy_active maxInFlight models \<longleftrightarrow> maxInFlight \<noteq> None \<or> models \<noteq> []"

definition replace_models :: "string \<Rightarrow> (string, int) gomap \<Rightarrow> cluster_db \<Rightarrow> cluster_db" where
  "replace_models cred models db =
     db\<lparr>db_models := filter (\<lambda>((c, model), limit). c \<noteq> cred) (db_models db)
          @ map (\<lambda>(model, limit). ((cred, model), limit)) models\<rparr>"

definition move_gate :: "bool \<Rightarrow> bool \<Rightarrow> cluster_db \<Rightarrow> cluster_error + cluster_db" where
  "move_gate currentActive nextActive db =
     (if currentActive = nextActive then Inr db
      else let count = (case db_gate db of None \<Rightarrow> 0 | Some n \<Rightarrow> n) + (if nextActive then 1 else -1)
           in if count < 0 then Inl GateNegative else Inr (db\<lparr>db_gate := Some count\<rparr>))"

text \<open>The writes of a patch, once all checks have passed.\<close>

definition apply_policy_patch ::
    "string \<Rightarrow> normalized_patch \<Rightarrow> int \<Rightarrow> policy_row option \<Rightarrow> (string, int) gomap \<Rightarrow> gotime
     \<Rightarrow> credential_policy tx" where
  "apply_policy_patch cred p barrier row models now db =
     (let current = (case row of None \<Rightarrow> None | Some r \<Rightarrow> cp_MaxInFlight r);
          nextMax = (if np_maxInFlightSet p then np_maxInFlight p else current);
          nextModels = (if np_maxInFlightByModelSet p then np_maxInFlightByModel p else models);
          nextActive = policy_active nextMax nextModels;
          currentActive = (row \<noteq> None \<and> policy_active current models);
          revision = wrap64 (barrier + 1);
          row' = \<lparr>cp_MaxInFlight = nextMax,
                  cp_Version = (case row of None \<Rightarrow> 1 | Some r \<Rightarrow> wrap64 (cp_Version r + 1)),
                  cp_EffectiveAt = now, cp_ObservationBarrierRevision = revision\<rparr>;
          db1 = db\<lparr>db_barrier := Some revision, db_policies := AList.update cred row' (db_policies db)\<rparr>;
          db2 = (if np_maxInFlightByModelSet p then replace_models cred nextModels db1 else db1)
      in case move_gate currentActive nextActive db2 of
           Inl e \<Rightarrow> Inl e
         | Inr db3 \<Rightarrow>
             Inr (credentialConcurrencyPolicyFromRecords cred (Some row') nextModels,
               appendEvent ''config'' (EventText ''concurrency-policy'') cred revision db3))"

definition version_conflict :: "int option \<Rightarrow> policy_row option \<Rightarrow> bool" where
  "version_conflict expected row =
     (case expected of None \<Rightarrow> False
      | Some v \<Rightarrow> v \<noteq> (case row of None \<Rightarrow> 0 | Some r \<Rightarrow> cp_Version r))"

definition patchCredentialConcurrencyPolicyWithAuthScopeTx ::
    "string \<Rightarrow> policy_patch \<Rightarrow> int option \<Rightarrow> bool \<Rightarrow> gotime \<Rightarrow> gotime \<Rightarrow> credential_policy tx" where
  "patchCredentialConcurrencyPolicyWithAuthScopeTx credentialID patch expected includeRetired expire_now now db0 =
     (let cred = trim_space credentialID
      in if cred = [] then Inl CredentialNotFound
         else case validateConcurrencyPolicyPatchModelKeys patch of
           Some e \<Rightarrow> Inl e
         | None \<Rightarrow>
         case homeIncarnationLifecycleConfig db0 of
           Inl e \<Rightarrow> Inl e
         | Inr (lifecycle, db1) \<Rightarrow>
         case normalizeConcurrencyPolicyPatch patch (cc_MaxLimit (lifecycleConfigFromRecord lifecycle)) of
           Inl e \<Rightarrow> Inl e
         | Inr p \<Rightarrow>
         case map_of (db_auths db1) cred of
           None \<Rightarrow> Inl CredentialNotFound
         | Some a \<Rightarrow>
             if \<not> includeRetired \<and> ar_Deleted a then Inl CredentialNotFound
             else if includeRetired \<and> (\<not> ar_Deleted a \<or> \<not> concurrencyPolicyPatchIsClearOnly p)
             then Inl CredentialNotFound
             else case (if concurrencyPolicyPatchCanActivate p
                        then verifyConcurrencyPolicyActivation (lr_NodeHeartbeatTimeout lifecycle)
                               expire_now db1
                        else Inr ((), db1)) of
               Inl e \<Rightarrow> Inl e
             | Inr (_, db2) \<Rightarrow>
                 let barrier = (case db_barrier db2 of None \<Rightarrow> 0 | Some n \<Rightarrow> n);
                     db3 = db2\<lparr>db_barrier := Some barrier\<rparr>;
                     row = map_of (db_policies db3) cred;
                     models = loadCredentialConcurrencyModels db3 cred
                 in if version_conflict expected row then Inl PolicyVersionConflict
                    else if \<not> np_maxInFlightSet p \<and> \<not> np_maxInFlightByModelSet p
                    then Inr (credentialConcurrencyPolicyFromRecords cred row models, db3)
                    else apply_policy_patch cred p barrier row models now db3)"

definition PatchCredentialConcurrencyPolicy ::
    "string \<Rightarrow> policy_patch \<Rightarrow> int option \<Rightarrow> gotime \<Rightarrow> gotime \<Rightarrow> credential_policy tx" where
  "PatchCredentialConcurrencyPolicy credentialID patch expected expire_now now db =
     (let cred = trim_space credentialID
      in if cred = [] then Inl CredentialNotFound
         else case validateConcurrencyPolicyPatchModelKeys patch of
           Some e \<Rightarrow> Inl e
         | None \<Rightarrow>
             let (gate, db1) = lockConcurrencyActivationGate db
             in patchCredentialConcurrencyPolicyWithAuthScopeTx cred patch expected False expire_now now db1)"

definition concurrencyObservationBarrierRevision :: "cluster_db \<Rightarrow> int" where
  "concurrencyObservationBarrierRevision db = (case db_barrier db of None \<Rightarrow> 0 | Some n \<Rightarrow> n)"

subsection \<open>Exchange\<close>

record exchange_policy =
  xp_MaxInFlight :: "int option"
  xp_MaxInFlightByModel :: "(string, int) gomap"

definition clear_patch :: policy_patch where
  "clear_patch = \<lparr>pp_MaxInFlight = \<lparr>ol_Set = True, ol_Null = True, ol_Value = 0\<rparr>,
     pp_MaxInFlightByModel = \<lparr>om_Set = True, om_Null = False, om_Value = []\<rparr>\<rparr>"

definition concurrencyExchangePolicyPatch :: "exchange_policy option \<Rightarrow> policy_patch" where
  "concurrencyExchangePolicyPatch policy =
     (case policy of
        None \<Rightarrow> clear_patch
      | Some x \<Rightarrow>
          \<lparr>pp_MaxInFlight = (case xp_MaxInFlight x of
              None \<Rightarrow> pp_MaxInFlight clear_patch
            | Some v \<Rightarrow> \<lparr>ol_Set = True, ol_Null = False, ol_Value = v\<rparr>),
           pp_MaxInFlightByModel = \<lparr>om_Set = True, om_Null = False,
             om_Value = map (\<lambda>(model, limit). (model, Some limit)) (xp_MaxInFlightByModel x)\<rparr>\<rparr>)"

fun normalize_exchange :: "(string \<times> exchange_policy) list \<Rightarrow> (string, exchange_policy) gomap
    \<Rightarrow> cluster_error + (string, exchange_policy) gomap" where
  "normalize_exchange [] acc = Inr acc"
| "normalize_exchange ((credentialID, policy) # policies) acc =
     (let cred = trim_space credentialID
      in if cred = [] then Inl InvalidArgument
         else if map_of acc cred \<noteq> None then Inl InvalidArgument
         else normalize_exchange policies (acc @ [(cred, policy)]))"

definition ExportCredentialConcurrencyPolicies :: "cluster_db \<Rightarrow> (string, exchange_policy) gomap" where
  "ExportCredentialConcurrencyPolicies db =
     map (\<lambda>p. (cr_CredentialID p,
           \<lparr>xp_MaxInFlight = (case cr_MaxInFlight p of None \<Rightarrow> None
              | Some v \<Rightarrow> if v > 0 then Some v else None),
            xp_MaxInFlightByModel = cr_MaxInFlightByModel p\<rparr>))
       (filter (\<lambda>p. credential_active db (cr_CredentialID p)
            \<and> \<not> (cr_MaxInFlight p = None \<and> cr_MaxInFlightByModel p = []))
          (listCredentialConcurrencyPoliciesTx db))"

text \<open>\<open>clock\<close> gives the two database clock of the patch of each credential.\<close>

fun import_loop :: "(string, exchange_policy) gomap \<Rightarrow> (string \<Rightarrow> gotime \<times> gotime) \<Rightarrow> string list \<Rightarrow> unit tx" where
  "import_loop policies clock [] db = Inr ((), db)"
| "import_loop policies clock (cred # creds) db =
     (let exchange = map_of policies cred;
          patch = concurrencyExchangePolicyPatch exchange;
          scoped = (\<lambda>p retired. patchCredentialConcurrencyPolicyWithAuthScopeTx cred p None retired
                      (fst (clock cred)) (snd (clock cred)) db);
          first = scoped patch False;
          outcome = (if exchange = None \<and> first = Inl CredentialNotFound then scoped clear_patch True
                     else first)
      in case outcome of
           Inl e \<Rightarrow> Inl e
         | Inr (_, db') \<Rightarrow> import_loop policies clock creds db')"

definition ImportCredentialConcurrencyPolicies ::
    "(string \<times> exchange_policy) list option \<Rightarrow> (string \<Rightarrow> gotime \<times> gotime) \<Rightarrow> unit tx" where
  "ImportCredentialConcurrencyPolicies section clock db0 =
     (let (gate, db) = lockConcurrencyActivationGate db0
      in case section of
           None \<Rightarrow> Inr ((), db)
         | Some raw \<Rightarrow>
             (case normalize_exchange raw [] of
                Inl e \<Rightarrow> Inl e
              | Inr policies \<Rightarrow>
                  if list_ex (\<lambda>(cred, x). \<not> credential_active db cred) policies then Inl CredentialNotFound
                  else
                    let existing = map cr_CredentialID (listCredentialConcurrencyPoliciesTx db);
                        added = filter (\<lambda>cred. \<not> List.member existing cred) (map fst policies)
                    in import_loop policies clock (sort (existing @ added)) db))"

end
