(* ===== verification/Concurrency_Limiter.thy ===== *)
theory Concurrency_Limiter
  imports Concurrency_Policy
begin

section \<open>Admission and release\<close>

text \<open>
  \<^verbatim>\<open>cluster/concurrency_admission.go\<close> and \<^verbatim>\<open>cluster/concurrency_release.go\<close>.  A request on a limited
  credential is admitted by a transaction that pins the lifetime of its node, commits the session
  binding of the request, compares the admitted requests of all nodes with the limits and counts the
  new one under the fingerprint of its node.  A node gives requests back by a cumulative release
  sequence, so repeated and reordered releases are harmless.
\<close>

datatype admission_error = AdmissionError string "cluster_error option" | PlainError cluster_error

record admission_request =
  ad_CredentialID :: string
  ad_Model :: string
  ad_Lifetime :: connection_lifetime
  ad_ProtocolVersion :: int
  ad_SessionAffinity :: "session_commit option"

record admission_result =
  as_Accounted :: bool
  as_CredentialID :: string
  as_Model :: string

definition IsConcurrencySaturated :: "admission_error \<Rightarrow> bool" where
  "IsConcurrencySaturated e =
     (case e of
        AdmissionError ty cause \<Rightarrow> ty = ''credential_concurrency_exceeded''
          \<or> ty = ''credential_model_concurrency_exceeded''
      | PlainError _ \<Rightarrow> False)"

text \<open>The lifetime must be the active one of its fingerprint, on an active Home.\<close>

definition LockActiveConcurrencyLifetimeTx :: "connection_lifetime \<Rightarrow> cluster_db \<Rightarrow> cluster_error option" where
  "LockActiveConcurrencyLifetimeTx lifetime db =
     (let fp = trim_space (cl_Fingerprint lifetime); h = trimmed_home (cl_Home lifetime)
      in if \<not> cl_Controlled lifetime \<or> fp = [] \<or> cl_ConnectedAt lifetime = 0 then Some NodeUnavailable
         else if hi_IP h = [] \<or> hi_Port h \<le> 0 \<or> hi_StartedAt h = 0 then Some NodeUnavailable
         else case map_of (db_members db) fp of
           None \<Rightarrow> Some NodeUnavailable
         | Some m \<Rightarrow>
             if mb_ConnectedAt m \<noteq> cl_ConnectedAt lifetime \<or> mb_State m \<noteq> MemberActive \<or> mb_Home m \<noteq> h
             then Some NodeUnavailable
             else (case map_of (db_homes db) h of
                 None \<Rightarrow> Some NodeUnavailable
               | Some row \<Rightarrow> if hr_State row \<noteq> HomeActive then Some NodeUnavailable else None))"

definition lockConcurrencyPolicyTx :: "string \<Rightarrow> cluster_db \<Rightarrow> cluster_error + policy_row option" where
  "lockConcurrencyPolicyTx credentialID db =
     (let cred = trim_space credentialID
      in if cred = [] then Inl CredentialNotFound else Inr (map_of (db_policies db) cred))"

definition positiveLimit :: "int option \<Rightarrow> int" where
  "positiveLimit value = (case value of None \<Rightarrow> 0 | Some v \<Rightarrow> if v \<le> 0 then 0 else v)"

definition positiveLimitValue :: "int \<Rightarrow> int" where
  "positiveLimitValue value = (if value \<le> 0 then 0 else value)"

definition credential_counters :: "cluster_db \<Rightarrow> string \<Rightarrow> (string \<times> int) list" where
  "credential_counters db cred =
     map (\<lambda>((c, model, fp), row). (model, ct_ActiveCount row))
       (filter (\<lambda>((c, model, fp), row). c = cred) (db_counters db))"

text \<open>The sums are computed by the database; one that does not fit 64 bits is an error there.\<close>

definition sumConcurrencyCountsTx :: "string \<Rightarrow> string \<Rightarrow> cluster_db \<Rightarrow> cluster_error + int \<times> int" where
  "sumConcurrencyCountsTx cred model db =
     (let rows = credential_counters db cred;
          credentialActive = sum_list (map snd rows);
          modelActive = sum_list (map (\<lambda>(m, n). if m = model then n else 0) rows)
      in if \<not> is_i64 credentialActive \<or> \<not> is_i64 modelActive then Inl SumOverflow
         else if list_ex (\<lambda>(m, n). n < 0) rows \<or> credentialActive < 0 \<or> modelActive < 0
         then Inl CounterInvalid
         else Inr (credentialActive, modelActive))"

definition incrementConcurrencyCounterTx :: "string \<Rightarrow> string \<Rightarrow> string \<Rightarrow> unit tx" where
  "incrementConcurrencyCounterTx cred model fp db =
     (if cred = [] \<or> model = [] \<or> fp = [] then Inl CounterInvalid
      else case map_of (db_counters db) (cred, model, fp) of
        None \<Rightarrow> Inr ((), db\<lparr>db_counters := AList.update (cred, model, fp)
          \<lparr>ct_ActiveCount = 1, ct_LastReleaseSeq = 0\<rparr> (db_counters db)\<rparr>)
      | Some row \<Rightarrow>
          if ct_ActiveCount row \<ge> 0 \<and> ct_ActiveCount row < max_i64
          then Inr ((), db\<lparr>db_counters := AList.update (cred, model, fp)
            (row\<lparr>ct_ActiveCount := ct_ActiveCount row + 1\<rparr>) (db_counters db)\<rparr>)
          else Inl CounterInvalid)"

text \<open>The session binding of the request commits with the admission or not at all.\<close>

definition admit_session ::
    "session_commit option \<Rightarrow> string \<Rightarrow> gotime \<Rightarrow> string \<Rightarrow> cluster_db \<Rightarrow> admission_error + cluster_db" where
  "admit_session affinity cred now uuid db =
     (case affinity of
        None \<Rightarrow> Inr db
      | Some commit \<Rightarrow>
          if sc_AuthID commit \<noteq> cred then Inl (PlainError AffinityMismatch)
          else (case compareAndSwapSessionBindingTx (db_sessions db) commit now uuid of
              (t, None) \<Rightarrow> Inl (PlainError AffinityInvalid)
            | (t, Some swapped) \<Rightarrow>
                if \<not> swapped then Inl (PlainError AffinityConflict) else Inr (db\<lparr>db_sessions := t\<rparr>)))"

text \<open>The check against the limits and the count, on a locked policy.\<close>

definition admit_counted ::
    "string \<Rightarrow> string \<Rightarrow> int \<Rightarrow> int \<Rightarrow> int \<Rightarrow> string \<Rightarrow> cluster_db \<Rightarrow> admission_error + bool \<times> cluster_db" where
  "admit_counted cred model credentialLimit modelLimit protocol fp db =
     (if credentialLimit = 0 \<and> modelLimit = 0 then Inr (False, db)
      else if protocol \<noteq> 1
      then Inl (AdmissionError ''concurrency_protocol_required'' (Some ProtocolRequired))
      else case sumConcurrencyCountsTx cred model db of
        Inl e \<Rightarrow> Inl (AdmissionError ''concurrency_tracker_unavailable'' (Some e))
      | Inr (credentialActive, modelActive) \<Rightarrow>
          if credentialLimit > 0 \<and> credentialActive \<ge> credentialLimit
          then Inl (AdmissionError ''credential_concurrency_exceeded'' None)
          else if modelLimit > 0 \<and> modelActive \<ge> modelLimit
          then Inl (AdmissionError ''credential_model_concurrency_exceeded'' None)
          else (case incrementConcurrencyCounterTx cred model fp db of
              Inl e \<Rightarrow> Inl (AdmissionError ''concurrency_tracker_unavailable'' (Some e))
            | Inr (_, db') \<Rightarrow> Inr (True, db')))"

definition AdmitCredentialConcurrency :: "admission_request \<Rightarrow> gotime \<Rightarrow> string \<Rightarrow> cluster_db
    \<Rightarrow> cluster_db \<times> admission_result \<times> admission_error option" where
  "AdmitCredentialConcurrency req now uuid db =
     (let cred = trim_space (ad_CredentialID req);
          (model, validModel) = ValidCanonicalConcurrencyModelKey (ad_Model req);
          result = \<lparr>as_Accounted = False, as_CredentialID = cred, as_Model = model\<rparr>
      in if \<not> validModel
         then (db, result, Some (AdmissionError ''concurrency_invalid_model'' (Some InvalidModel)))
         else case LockActiveConcurrencyLifetimeTx (ad_Lifetime req) db of
           Some e \<Rightarrow> (db, result, Some (AdmissionError ''concurrency_node_unavailable'' (Some e)))
         | None \<Rightarrow>
         case lockConcurrencyPolicyTx cred db of
           Inl e \<Rightarrow> (db, result, Some (AdmissionError ''concurrency_tracker_unavailable'' (Some e)))
         | Inr policy \<Rightarrow>
         let models = (if policy = None then [] else loadCredentialConcurrencyModels db cred)
         in case admit_session (ad_SessionAffinity req) cred now uuid db of
           Inl e \<Rightarrow> (db, result, Some e)
         | Inr db1 \<Rightarrow>
         let credentialLimit = positiveLimit (case policy of None \<Rightarrow> None | Some p \<Rightarrow> cp_MaxInFlight p);
             modelLimit = positiveLimitValue (gomap_get 0 models model)
         in case admit_counted cred model credentialLimit modelLimit (ad_ProtocolVersion req)
                (trim_space (cl_Fingerprint (ad_Lifetime req))) db1 of
           Inl e \<Rightarrow> (db, result, Some e)
         | Inr (accounted, db2) \<Rightarrow> (db2, result\<lparr>as_Accounted := accounted\<rparr>, None))"

subsection \<open>Release\<close>

record release_request =
  rl_CredentialID :: string
  rl_Model :: string
  rl_ReleaseSeq :: int
  rl_Lifetime :: connection_lifetime

definition lockConcurrencyCounterTx :: "string \<Rightarrow> string \<Rightarrow> string \<Rightarrow> cluster_db \<Rightarrow> cluster_error + counter_row" where
  "lockConcurrencyCounterTx cred model fp db =
     (case map_of (db_counters db) (cred, model, fp) of
        None \<Rightarrow> Inl ReleaseExceedsActive | Some row \<Rightarrow> Inr row)"

definition applyConcurrencyReleaseTx :: "release_request \<Rightarrow> unit tx" where
  "applyConcurrencyReleaseTx req db =
     (if rl_ReleaseSeq req \<le> 0 then Inl InvalidRelease
      else
        let cred = trim_space (rl_CredentialID req);
            (model, validModel) = ValidCanonicalConcurrencyModelKey (rl_Model req);
            fp = trim_space (cl_Fingerprint (rl_Lifetime req))
        in if cred = [] \<or> \<not> validModel then Inl InvalidRelease
           else if LockActiveConcurrencyLifetimeTx (rl_Lifetime req) db \<noteq> None then Inl NodeUnavailable
           else case lockConcurrencyPolicyTx cred db of
             Inl e \<Rightarrow> Inl e
           | Inr policy \<Rightarrow>
           case lockConcurrencyCounterTx cred model fp db of
             Inl e \<Rightarrow> Inl e
           | Inr counter \<Rightarrow>
               if ct_ActiveCount counter < 0 \<or> ct_LastReleaseSeq counter < 0 then Inl CounterInvalid
               else
                 let delta = wrap64 (rl_ReleaseSeq req - ct_LastReleaseSeq counter)
                 in if delta \<le> 0 then Inr ((), db)
                    else if delta > ct_ActiveCount counter then Inl ReleaseExceedsActive
                    else Inr ((), db\<lparr>db_counters := AList.update (cred, model, fp)
                       \<lparr>ct_ActiveCount = ct_ActiveCount counter - delta,
                        ct_LastReleaseSeq = rl_ReleaseSeq req\<rparr> (db_counters db)\<rparr>))"

definition ApplyConcurrencyRelease :: "release_request \<Rightarrow> unit tx" where
  "ApplyConcurrencyRelease req db =
     (let cred = trim_space (rl_CredentialID req);
          (model, validModel) = ValidCanonicalConcurrencyModelKey (rl_Model req)
      in if cred = [] \<or> \<not> validModel then Inl InvalidRelease
         else applyConcurrencyReleaseTx (req\<lparr>rl_CredentialID := cred, rl_Model := model\<rparr>) db)"

subsection \<open>Reading the state\<close>

record model_state_view =
  mv_Model :: string
  mv_MaxInFlight :: int
  mv_AdmittedInFlight :: int

record concurrency_state =
  cs_CredentialID :: string
  cs_MaxInFlight :: "int option"
  cs_AdmittedInFlight :: int
  cs_PolicyVersion :: int
  cs_EffectiveAt :: gotime
  cs_ObservationBarrier :: int
  cs_Models :: "model_state_view list"

definition counted_models :: "cluster_db \<Rightarrow> string \<Rightarrow> string list" where
  "counted_models db cred = remdups (map fst (credential_counters db cred))"

definition model_count :: "cluster_db \<Rightarrow> string \<Rightarrow> string \<Rightarrow> int" where
  "model_count db cred model =
     sum_list (map (\<lambda>(m, n). if m = model then n else 0) (credential_counters db cred))"

text \<open>The total of a credential adds the groups; one that is invalid or leaves 64 bits is an error.\<close>

fun total_loop :: "cluster_db \<Rightarrow> string \<Rightarrow> string list \<Rightarrow> int \<Rightarrow> int option" where
  "total_loop db cred [] acc = Some acc"
| "total_loop db cred (model # models) acc =
     (let count = model_count db cred model
      in if list_ex (\<lambda>(m, n). m = model \<and> n < 0) (credential_counters db cred) \<or> count < 0
           \<or> acc > max_i64 - count
         then None else total_loop db cred models (acc + count))"

definition credential_state :: "cluster_db \<Rightarrow> string \<times> policy_row \<Rightarrow> concurrency_state option" where
  "credential_state db entry =
     (let (cred, policy) = entry
      in case total_loop db cred (counted_models db cred) 0 of
           None \<Rightarrow> None
         | Some acc \<Rightarrow> Some
             \<lparr>cs_CredentialID = cred, cs_MaxInFlight = cp_MaxInFlight policy, cs_AdmittedInFlight = acc,
              cs_PolicyVersion = cp_Version policy, cs_EffectiveAt = cp_EffectiveAt policy,
              cs_ObservationBarrier = cp_ObservationBarrierRevision policy,
              cs_Models = sort_key mv_Model (map (\<lambda>(model, limit).
                \<lparr>mv_Model = model, mv_MaxInFlight = limit,
                 mv_AdmittedInFlight = model_count db cred model\<rparr>)
                (loadCredentialConcurrencyModels db cred))\<rparr>)"

definition ReadConcurrencyState :: "cluster_db \<Rightarrow> cluster_error + concurrency_state list" where
  "ReadConcurrencyState db =
     (let states = map (credential_state db) (sort_key fst (db_policies db))
      in if None \<in> set states then Inl CounterInvalid else Inr (map the states))"

end
