(* ===== verification/Cluster_Protocol.thy ===== *)
theory Cluster_Protocol
  imports Quiescence Concurrency_Limiter
begin

section \<open>The protocol of Homes, nodes and limits\<close>

text \<open>
  The operations on the shared tables as a state machine.  \<open>cluster_step\<close> is one committed transaction
  of any node at any time; \<open>protocol_step\<close> is the abstract protocol: the elementary changes a
  transaction is made of, each with the condition under which the protocol allows it.  Every operation
  is shown to be a sequence of protocol steps, and the invariants are proved once for the protocol.
\<close>

subsection \<open>Transactions\<close>

inductive cluster_step :: "cluster_db \<Rightarrow> cluster_db \<Rightarrow> bool" where
  register: "RegisterHomeIncarnation ip port caps t t' db = Inr (h, db') \<Longrightarrow> cluster_step db db'"
| heartbeat: "HeartbeatHomeIncarnation h t db = Inr (x, db') \<Longrightarrow> cluster_step db db'"
| retire: "RetireHomeIncarnation h t db = Inr (x, db') \<Longrightarrow> cluster_step db db'"
| fence: "FenceHomeIncarnation h reason t db = Inr (x, db') \<Longrightarrow> cluster_step db db'"
| configure: "updateLifecycleConfigTx parse timeout cfg db = Inr (r, db') \<Longrightarrow> cluster_step db db'"
| subscribe: "SubscribeMembership request t db = Inr (m, db') \<Longrightarrow> cluster_step db db'"
| connect: "ClassifyConnection fp home db = Inr (lifetime, db') \<Longrightarrow> cluster_step db db'"
| pong: "RefreshCPALiveness lifetime t db = Inr (x, db') \<Longrightarrow> cluster_step db db'"
| cancel: "BeginFingerprintCancellation fp t db = Inr (r, db') \<Longrightarrow> cluster_step db db'"
| cancel_lifetime:
    "BeginFingerprintCancellationForLifetime lifetime t db = Inr (r, db') \<Longrightarrow> cluster_step db db'"
| cleanup: "cleanupStaleMembership fp timeout t db = Inr (x, db') \<Longrightarrow> cluster_step db db'"
| acknowledge: "AcknowledgeQuiescence fp c r home db = Inr (x, db') \<Longrightarrow> cluster_step db db'"
| complete: "CompleteFingerprintCancellation fp c r db = Inr (x, db') \<Longrightarrow> cluster_step db db'"
| recover: "recoverStaleMembershipQuiescence fp c r t db = Inr (done, db') \<Longrightarrow> cluster_step db db'"
| patch: "PatchCredentialConcurrencyPolicy cred patch expected t t' db = Inr (p, db') \<Longrightarrow> cluster_step db db'"
| exchange: "ImportCredentialConcurrencyPolicies document clock db = Inr (x, db') \<Longrightarrow> cluster_step db db'"
| admit: "AdmitCredentialConcurrency req t uuid db = (db', result, err) \<Longrightarrow> cluster_step db db'"
| release: "ApplyConcurrencyRelease rel db = Inr (x, db') \<Longrightarrow> is_i64 (rl_ReleaseSeq rel) \<Longrightarrow>
    cluster_step db db'"
| bind: "compareAndSwapSessionBindingTx (db_sessions db) commit t uuid = (table, r) \<Longrightarrow>
    cluster_step db (db\<lparr>db_sessions := table\<rparr>)"
| purge: "cluster_step db (db\<lparr>db_sessions := fst (PurgeExpiredSessionBindings (db_sessions db) t limit)\<rparr>)"
| credentials: "cluster_step db (db\<lparr>db_auths := auths\<rparr>)" \<comment> \<open>whatever the credential store does\<close>

definition empty_cluster :: "bool \<Rightarrow> cluster_db" where
  "empty_cluster sqlite =
     \<lparr>db_sqlite = sqlite, db_sessions = [], db_auths = [], db_lifecycle = None, db_gate = None,
      db_barrier = None, db_homes = [], db_members = [], db_participations = [], db_quiescence = [],
      db_policies = [], db_models = [], db_counters = [], db_events = []\<rparr>"

definition reachable :: "cluster_db \<Rightarrow> bool" where
  "reachable db \<longleftrightarrow> (\<exists>sqlite. cluster_step\<^sup>*\<^sup>* (empty_cluster sqlite) db)"

subsection \<open>The abstract protocol\<close>

definition gate_count :: "cluster_db \<Rightarrow> int" where
  "gate_count db = (case db_gate db of None \<Rightarrow> 0 | Some n \<Rightarrow> n)"

text \<open>Nothing the protocol speaks about differs.\<close>

definition same_view :: "cluster_db \<Rightarrow> cluster_db \<Rightarrow> bool" where
  "same_view db db' \<longleftrightarrow> db_sqlite db' = db_sqlite db \<and> db_homes db' = db_homes db
     \<and> db_members db' = db_members db \<and> db_participations db' = db_participations db
     \<and> db_quiescence db' = db_quiescence db \<and> db_policies db' = db_policies db
     \<and> db_models db' = db_models db \<and> db_counters db' = db_counters db
     \<and> gate_count db' = gate_count db"

text \<open>A Home never comes back: its state may only move away from active, and fenced is final.\<close>

definition home_moves :: "home_row \<Rightarrow> home_row \<Rightarrow> bool" where
  "home_moves r r' \<longleftrightarrow> hr_Capabilities r' = hr_Capabilities r
     \<and> (hr_State r' = hr_State r \<or> hr_State r' = HomeFenced
        \<or> hr_State r = HomeActive \<and> hr_State r' \<noteq> HomeActive)"

definition home_fenced :: "cluster_db \<Rightarrow> home_id \<Rightarrow> bool" where
  "home_fenced db h \<longleftrightarrow> (\<exists>row. map_of (db_homes db) h = Some row \<and> hr_State row = HomeFenced)"

definition active_credentials :: "cluster_db \<Rightarrow> (string \<times> policy_row) list" where
  "active_credentials db =
     filter (\<lambda>(cred, row). policy_active (cp_MaxInFlight row) (loadCredentialConcurrencyModels db cred))
       (db_policies db)"

text \<open>The cluster enforces limits: what activation of a policy requires.\<close>

definition enforcing :: "cluster_db \<Rightarrow> bool" where
  "enforcing db \<longleftrightarrow>
     (\<forall>(fp, m)\<in>set (db_members db). mb_State m = MemberActive \<longrightarrow> mb_ProtocolVersion m = 1)
     \<and> (\<forall>(h, row)\<in>set (live_homes db). homeHasConcurrencyLimiterCapability row)
     \<and> (db_sqlite db \<longrightarrow> length (live_homes db) \<le> 1)"

text \<open>What is counted for a credential, and its limits.\<close>

definition in_flight :: "cluster_db \<Rightarrow> string \<Rightarrow> int" where
  "in_flight db cred = sum_list (map snd (credential_counters db cred))"

definition credential_limit :: "cluster_db \<Rightarrow> string \<Rightarrow> int" where
  "credential_limit db cred =
     positiveLimit (case map_of (db_policies db) cred of None \<Rightarrow> None | Some p \<Rightarrow> cp_MaxInFlight p)"

definition model_limit :: "cluster_db \<Rightarrow> string \<Rightarrow> string \<Rightarrow> int" where
  "model_limit db cred model =
     (if map_of (db_policies db) cred = None then 0
      else positiveLimitValue (gomap_get 0 (loadCredentialConcurrencyModels db cred) model))"

definition lifetime_active :: "cluster_db \<Rightarrow> string \<Rightarrow> gotime \<Rightarrow> bool" where
  "lifetime_active db fp c \<longleftrightarrow>
     (\<exists>m. map_of (db_members db) fp = Some m \<and> mb_ConnectedAt m = c \<and> mb_State m = MemberActive)"

declare map_of_eq_Some_iff [simp del]

definition home_known :: "cluster_db \<Rightarrow> home_id \<Rightarrow> bool" where
  "home_known db h \<longleftrightarrow> map_of (db_homes db) h \<noteq> None"

definition policy_known :: "cluster_db \<Rightarrow> string \<Rightarrow> bool" where
  "policy_known db cred \<longleftrightarrow> map_of (db_policies db) cred \<noteq> None"

inductive protocol_step :: "cluster_db \<Rightarrow> cluster_db \<Rightarrow> bool" where
  frame: "same_view db db' \<Longrightarrow> protocol_step db db'"
| homes: "(\<And>h row. pred h row \<Longrightarrow> home_moves row (f row)) \<Longrightarrow>
    protocol_step db (homeIncarnationTransition pred f db)"
| home_touched: "map_of (db_homes db) h = Some row \<Longrightarrow> home_moves row row' \<Longrightarrow>
    protocol_step db (db\<lparr>db_homes := AList.update h row' (db_homes db)\<rparr>)"
| registered: "map_of (db_homes db) h = None \<Longrightarrow> trimmed_home h = h \<Longrightarrow> hr_State row = HomeActive \<Longrightarrow>
    (gate_count db > 0 \<Longrightarrow> homeHasConcurrencyLimiterCapability row) \<Longrightarrow>
    (gate_count db > 0 \<Longrightarrow> db_sqlite db \<Longrightarrow> live_homes db = []) \<Longrightarrow>
    protocol_step db (db\<lparr>db_homes := db_homes db @ [(h, row)]\<rparr>)"
| accepted: "fp \<noteq> [] \<Longrightarrow> trim_space fp = fp \<Longrightarrow>
    (\<And>m. map_of (db_members db) fp = Some m \<Longrightarrow> mb_ConnectedAt m \<noteq> 0 \<Longrightarrow>
       mb_ConnectedAt m < mb_ConnectedAt m') \<Longrightarrow>
    mb_State m' = MemberActive \<Longrightarrow> (gate_count db > 0 \<Longrightarrow> mb_ProtocolVersion m' = 1) \<Longrightarrow>
    trimmed_home (mb_Home m') = mb_Home m' \<Longrightarrow> home_known db (mb_Home m') \<Longrightarrow>
    db1 = db \<or> (\<exists>c. db1 = delete_lifetime (fp, c) db) \<Longrightarrow>
    protocol_step db (db1\<lparr>db_members := AList.update fp m' (db_members db1)\<rparr>)"
| member_touched: "map_of (db_members db) fp = Some m \<Longrightarrow>
    protocol_step db (db\<lparr>db_members := AList.update fp (m\<lparr>mb_LastSeenAt := t\<rparr>) (db_members db)\<rparr>)"
| participated: "lifetime_active db fp c \<Longrightarrow> trimmed_home h = h \<Longrightarrow> home_known db h \<Longrightarrow>
    protocol_step db (db\<lparr>db_participations := List.insert ((fp, c), h) (db_participations db)\<rparr>)"
| cancelled: "map_of (db_members db) fp = Some m \<Longrightarrow> mb_State m = MemberActive \<Longrightarrow>
    mb_State m' = MemberCanceling \<Longrightarrow> mb_ConnectedAt m' = mb_ConnectedAt m \<Longrightarrow> mb_Home m' = mb_Home m \<Longrightarrow>
    mb_ExpectedQuiescenceCount m' = int (length (quiescenceHomeCandidates db fp m)) \<Longrightarrow>
    create_rows fp (mb_ConnectedAt m) (mb_CancelRevision m') (quiescenceHomeCandidates db fp m)
      (db_quiescence db) = Some table \<Longrightarrow>
    length (quiescence_rows (db\<lparr>db_quiescence := table\<rparr>) fp (mb_ConnectedAt m) (mb_CancelRevision m'))
      = length (quiescenceHomeCandidates db fp m) \<Longrightarrow>
    protocol_step db (db\<lparr>db_members := AList.update fp m' (db_members db), db_quiescence := table\<rparr>)"
| acknowledged: "map_of (db_quiescence db) key = Some st \<Longrightarrow>
    protocol_step db (db\<lparr>db_quiescence := AList.update key QAcknowledged (db_quiescence db)\<rparr>)"
| row_fenced: "home_fenced db h \<Longrightarrow> protocol_step db (fence_row (fp, c, r, h) db)"
| closed: "map_of (db_members db) fp = Some m \<Longrightarrow> mb_State m = MemberCanceling \<Longrightarrow>
    (\<And>h st. map_of (db_quiescence db) (fp, mb_ConnectedAt m, mb_CancelRevision m, h) = Some st \<Longrightarrow>
       st = QAcknowledged \<or> st = QFenced) \<Longrightarrow>
    protocol_step db
      (db\<lparr>db_participations := filter (\<lambda>(lt, h). lt \<noteq> (fp, mb_ConnectedAt m)) (db_participations db),
          db_counters := filter (\<lambda>((cred, model, fp'), c). fp' \<noteq> fp) (db_counters db),
          db_members := AList.update fp (m\<lparr>mb_State := MemberClosed\<rparr>) (db_members db)\<rparr>)"
| policy_changed:
    "models' = db_models db \<or> (\<exists>ms. models' = db_models (replace_models cred ms db)) \<Longrightarrow>
    db' = db\<lparr>db_policies := AList.update cred row' (db_policies db), db_models := models',
             db_gate := Some n\<rparr> \<Longrightarrow>
    n = gate_count db
      + (if policy_active (cp_MaxInFlight row') (loadCredentialConcurrencyModels db' cred) then 1 else 0)
      - (case map_of (db_policies db) cred of None \<Rightarrow> 0
         | Some r \<Rightarrow> if policy_active (cp_MaxInFlight r) (loadCredentialConcurrencyModels db cred)
                   then 1 else 0) \<Longrightarrow>
    (n > gate_count db \<Longrightarrow> enforcing db) \<Longrightarrow>
    protocol_step db db'"
| admitted: "lifetime_active db fp c \<Longrightarrow>
    (credential_limit db cred > 0 \<Longrightarrow> in_flight db cred < credential_limit db cred) \<Longrightarrow>
    (model_limit db cred model > 0 \<Longrightarrow> model_count db cred model < model_limit db cred model) \<Longrightarrow>
    row = (case map_of (db_counters db) (cred, model, fp) of
       None \<Rightarrow> \<lparr>ct_ActiveCount = 0, ct_LastReleaseSeq = 0\<rparr> | Some r \<Rightarrow> r) \<Longrightarrow>
    0 \<le> ct_ActiveCount row \<Longrightarrow> ct_ActiveCount row < max_i64 \<Longrightarrow>
    protocol_step db (db\<lparr>db_counters := AList.update (cred, model, fp)
      (row\<lparr>ct_ActiveCount := ct_ActiveCount row + 1\<rparr>) (db_counters db)\<rparr>)"
| released: "lifetime_active db fp c \<Longrightarrow>
    map_of (db_counters db) (cred, model, fp) = Some row \<Longrightarrow>
    ct_LastReleaseSeq row < s \<Longrightarrow> s \<le> max_i64 \<Longrightarrow> s - ct_LastReleaseSeq row \<le> ct_ActiveCount row \<Longrightarrow>
    protocol_step db (db\<lparr>db_counters := AList.update (cred, model, fp)
      \<lparr>ct_ActiveCount = ct_ActiveCount row - (s - ct_LastReleaseSeq row), ct_LastReleaseSeq = s\<rparr>
      (db_counters db)\<rparr>)"

abbreviation protocol_steps :: "cluster_db \<Rightarrow> cluster_db \<Rightarrow> bool" where
  "protocol_steps \<equiv> protocol_step\<^sup>*\<^sup>*"


subsection \<open>What every table keeps\<close>

definition counter_wf :: "counter_row \<Rightarrow> bool" where
  "counter_wf row \<longleftrightarrow> 0 \<le> ct_ActiveCount row \<and> ct_ActiveCount row \<le> max_i64
     \<and> 0 \<le> ct_LastReleaseSeq row \<and> ct_LastReleaseSeq row \<le> max_i64"

definition keys_wf :: "cluster_db \<Rightarrow> bool" where
  "keys_wf db \<longleftrightarrow> gomap_wf (db_homes db) \<and> gomap_wf (db_members db) \<and> gomap_wf (db_quiescence db)
     \<and> gomap_wf (db_policies db) \<and> gomap_wf (db_counters db)"

definition member_wf :: "cluster_db \<Rightarrow> string \<Rightarrow> membership_row \<Rightarrow> bool" where
  "member_wf db fp m \<longleftrightarrow> fp \<noteq> [] \<and> trim_space fp = fp \<and> trimmed_home (mb_Home m) = mb_Home m
     \<and> home_known db (mb_Home m)"

definition row_wf :: "cluster_db \<Rightarrow> home_id \<Rightarrow> quiescence_status \<Rightarrow> bool" where
  "row_wf db h st \<longleftrightarrow> home_known db h \<and> (st = QFenced \<longrightarrow> home_fenced db h)"

definition tables_wf :: "cluster_db \<Rightarrow> bool" where
  "tables_wf db \<longleftrightarrow> keys_wf db
     \<and> (\<forall>fp m. (fp, m) \<in> set (db_members db) \<longrightarrow> member_wf db fp m)
     \<and> (\<forall>lt h. (lt, h) \<in> set (db_participations db) \<longrightarrow> trimmed_home h = h \<and> home_known db h)
     \<and> (\<forall>fp c r h st. ((fp, c, r, h), st) \<in> set (db_quiescence db) \<longrightarrow> row_wf db h st)
     \<and> (\<forall>cred model limit. ((cred, model), limit) \<in> set (db_models db) \<longrightarrow> policy_known db cred)
     \<and> (\<forall>key row. (key, row) \<in> set (db_counters db) \<longrightarrow> counter_wf row)"

subsection \<open>The operations refine the protocol\<close>

lemma same_view_refl [simp]: "same_view db db"
  by (simp add: same_view_def)

lemma frame_steps [intro]: "same_view db db' \<Longrightarrow> protocol_steps db db'"
  by (rule r_into_rtranclp) (rule protocol_step.frame)

lemma trimmed_home_idem [simp]: "trimmed_home (trimmed_home h) = trimmed_home h"
  by (simp add: trimmed_home_def)

lemma lock_gate_view:
  "lockConcurrencyActivationGate db = (gate, db') \<Longrightarrow>
   same_view db db' \<and> gate = gate_count db \<and> gate_count db' = gate_count db
   \<and> db_auths db' = db_auths db \<and> db_lifecycle db' = db_lifecycle db"
  by (auto simp: lockConcurrencyActivationGate_def same_view_def gate_count_def Let_def split: option.splits)

lemma lifecycle_view:
  "homeIncarnationLifecycleConfig db = Inr (lc, db') \<Longrightarrow>
   same_view db db' \<and> db_auths db' = db_auths db \<and> gate_count db' = gate_count db"
  by (auto simp: homeIncarnationLifecycleConfig_def ensureLifecycleConfigTx_def same_view_def gate_count_def
      Let_def split: option.splits if_splits)

lemma expire_moves: "hr_State row = HomeActive \<Longrightarrow> home_moves row (hr_State_update (\<lambda>_. HomeExpired) row)"
  by (simp add: home_moves_def)

lemma expireStale_steps:
  "expireStaleHomeIncarnations h now db = Inr (x, db') \<Longrightarrow> protocol_steps db db'"
  by (auto simp: expireStaleHomeIncarnations_def Let_def home_moves_def split: if_splits
      intro!: r_into_rtranclp protocol_step.homes)

lemma transition_fields [simp]:
  "gate_count (homeIncarnationTransition pred f db) = gate_count db"
  "db_members (homeIncarnationTransition pred f db) = db_members db"
  "db_sqlite (homeIncarnationTransition pred f db) = db_sqlite db"
  "db_auths (homeIncarnationTransition pred f db) = db_auths db"
  "db_policies (homeIncarnationTransition pred f db) = db_policies db"
  "db_models (homeIncarnationTransition pred f db) = db_models db"
  "db_quiescence (homeIncarnationTransition pred f db) = db_quiescence db"
  "db_participations (homeIncarnationTransition pred f db) = db_participations db"
  "db_counters (homeIncarnationTransition pred f db) = db_counters db"
  "db_barrier (homeIncarnationTransition pred f db) = db_barrier db"
  by (simp_all add: homeIncarnationTransition_def gate_count_def)

lemma transition_lookup [simp]:
  "map_of (db_homes (homeIncarnationTransition pred f db)) h
   = map_option (\<lambda>row. if pred h row then f row else row) (map_of (db_homes db) h)"
proof -
  have "map_of (map (\<lambda>(h, row). (h, if pred h row then f row else row)) t) h
      = map_option (\<lambda>row. if pred h row then f row else row) (map_of t h)" for t
    by (induction t) auto
  then show ?thesis
    by (simp add: homeIncarnationTransition_def)
qed

lemma expireStale_fields:
  assumes "expireStaleHomeIncarnations h now db = Inr (x, db')"
  shows "gate_count db' = gate_count db" "db_members db' = db_members db" "db_sqlite db' = db_sqlite db"
    "db_auths db' = db_auths db" "db_policies db' = db_policies db" "db_models db' = db_models db"
    "db_barrier db' = db_barrier db"
  using assms by (auto simp: expireStaleHomeIncarnations_def Let_def split: if_splits)

lemma register_steps:
  assumes "RegisterHomeIncarnation ip port caps t t' db = Inr (h, db')"
  shows "protocol_steps db db'"
proof -
  let ?ip = "trim_space ip"
  obtain gate db1 where g: "lockConcurrencyActivationGate db = (gate, db1)"
    by (cases "lockConcurrencyActivationGate db") auto
  from assms g obtain lc db2 where l: "homeIncarnationLifecycleConfig db1 = Inr (lc, db2)"
    by (auto simp: RegisterHomeIncarnation_def Let_def split: if_splits sum.splits)
  from assms g l obtain x db3 where
    e: "expireStaleHomeIncarnations (lr_NodeHeartbeatTimeout lc) t' db2 = Inr (x, db3)"
    by (auto simp: RegisterHomeIncarnation_def Let_def split: if_splits sum.splits)
  from lock_gate_view [OF g] lifecycle_view [OF l] expireStale_fields [OF e]
  have views: "same_view db db1" "same_view db1 db2" and gate: "gate = gate_count db3"
    by simp_all
  from assms g l e obtain row started where new:
    "h = \<lparr>hi_IP = ?ip, hi_Port = port, hi_StartedAt = started\<rparr>" "map_of (db_homes db3) h = None"
    "db' = db3\<lparr>db_homes := db_homes db3 @ [(h, row)]\<rparr>" "hr_State row = HomeActive"
    "gate > 0 \<longrightarrow> homeHasConcurrencyLimiterCapability row"
    "gate > 0 \<longrightarrow> db_sqlite db3 \<longrightarrow> live_homes db3 = []"
    by (auto simp: RegisterHomeIncarnation_def Let_def homeHasConcurrencyLimiterCapability_def
        split: if_splits)
  from new have "protocol_step db3 db'"
    unfolding new(3) by (intro protocol_step.registered) (auto simp: gate trimmed_home_def)
  with frame_steps [OF views(1)] frame_steps [OF views(2)] expireStale_steps [OF e]
  show ?thesis
    by (meson rtranclp.rtrancl_into_rtrancl rtranclp_trans)
qed

lemma heartbeat_steps:
  "HeartbeatHomeIncarnation h t db = Inr (x, db') \<Longrightarrow> protocol_steps db db'"
  by (auto simp: HeartbeatHomeIncarnation_def home_moves_def split: option.splits if_splits
      intro!: r_into_rtranclp protocol_step.home_touched)

lemma retire_steps: "RetireHomeIncarnation h t db = Inr (x, db') \<Longrightarrow> protocol_steps db db'"
  by (auto simp: RetireHomeIncarnation_def updateHomeIncarnation_def update_active_home_def home_moves_def
      split: option.splits if_splits intro!: r_into_rtranclp protocol_step.homes)

lemma fence_steps: "FenceHomeIncarnation h reason t db = Inr (x, db') \<Longrightarrow> protocol_steps db db'"
  by (auto simp: FenceHomeIncarnation_def updateHomeIncarnation_def update_active_home_def home_moves_def
      split: option.splits if_splits intro!: r_into_rtranclp protocol_step.homes)

lemma configure_steps: "updateLifecycleConfigTx parse h cfg db = Inr (r, db') \<Longrightarrow> protocol_steps db db'"
  using updateLifecycleConfigTx_safe [of parse h cfg db r db']
  by (auto simp: same_view_def gate_count_def)

lemma verify_active_home:
  "verifyActiveHomeIncarnation db h = None \<Longrightarrow>
   \<exists>row. map_of (db_homes db) (trimmed_home h) = Some row \<and> hr_State row = HomeActive"
  by (auto simp: verifyActiveHomeIncarnation_def split: option.splits if_splits)

lemma subscribe_steps:
  assumes "SubscribeMembership request t db = Inr (m', db')"
  shows "protocol_steps db db'"
proof -
  let ?fp = "trim_space (sq_Fingerprint request)" and ?home = "trimmed_home (sq_Home request)"
  obtain gate db1 where g: "lockConcurrencyActivationGate db = (gate, db1)"
    by (cases "lockConcurrencyActivationGate db") auto
  let ?prev = "map_of (db_members db1) ?fp"
  from assms g have inv: "subscribe_invalid request = None"
    by (auto simp: SubscribeMembership_def split: option.splits)
  with assms g obtain lc where lc: "db_lifecycle db1 = Some lc"
    by (auto simp: SubscribeMembership_def Let_def split: option.splits)
  let ?db2 = "case ?prev of Some m \<Rightarrow> if mb_State m \<noteq> MemberClosed
      then delete_lifetime (?fp, mb_ConnectedAt m) db1 else db1 | None \<Rightarrow> db1"
  let ?c = "case ?prev of Some m \<Rightarrow> if mb_ConnectedAt m \<noteq> 0 \<and> \<not> t > mb_ConnectedAt m
      then mb_ConnectedAt m + databaseTimestampStep db1 else t | None \<Rightarrow> t"
  from assms g inv lc have
    proto: "\<not> (sq_ProtocolVersion request = 0 \<and> gate \<noteq> 0)"
    and home: "verifyActiveHomeIncarnation db1 ?home = None"
    and m': "m' = accepted_member request ?home lc ?c t"
    and db': "db' = ?db2\<lparr>db_members := AList.update ?fp m' (db_members ?db2)\<rparr>"
    by (auto simp: SubscribeMembership_def Let_def split: option.splits if_splits)
  have fp: "?fp \<noteq> []" "sq_ProtocolVersion request = 0 \<or> sq_ProtocolVersion request = 1"
    using inv by (auto simp: subscribe_invalid_def split: if_splits)
  have "protocol_step db1 (?db2\<lparr>db_members := AList.update ?fp m' (db_members ?db2)\<rparr>)"
  proof (rule protocol_step.accepted)
    show "\<And>m. ?prev = Some m \<Longrightarrow> mb_ConnectedAt m \<noteq> 0 \<Longrightarrow> mb_ConnectedAt m < mb_ConnectedAt m'"
      by (auto simp: m' accepted_member_def timestamp_step_pos)
    show "gate_count db1 > 0 \<Longrightarrow> mb_ProtocolVersion m' = 1"
      using proto fp(2) lock_gate_view [OF g] by (auto simp: m' accepted_member_def)
    show "home_known db1 (mb_Home m')"
      using verify_active_home [OF home] by (auto simp: m' accepted_member_def home_known_def)
    show "?db2 = db1 \<or> (\<exists>c. ?db2 = delete_lifetime (?fp, c) db1)"
      by (auto split: option.splits)
  qed (use fp in \<open>auto simp: m' accepted_member_def\<close>)
  with frame_steps [of db db1] lock_gate_view [OF g] show ?thesis
    unfolding db' by (meson rtranclp.rtrancl_into_rtrancl)
qed

lemma participation_steps:
  assumes "RecordParticipation lifetime db = Inr (x, db')"
  shows "protocol_steps db db'"
proof -
  let ?fp = "trim_space (cl_Fingerprint lifetime)" and ?h = "trimmed_home (cl_Home lifetime)"
  from assms have "lifetime_active db ?fp (cl_ConnectedAt lifetime)" "home_known db ?h"
    and db': "db' = db\<lparr>db_participations :=
      List.insert ((?fp, cl_ConnectedAt lifetime), ?h) (db_participations db)\<rparr>"
    by (auto simp: RecordParticipation_def lifetime_active_def home_known_def Let_def
        split: option.splits if_splits)
  then have "protocol_step db db'"
    unfolding db' by (intro protocol_step.participated) auto
  then show ?thesis
    by (rule r_into_rtranclp)
qed

lemma connect_steps: "ClassifyConnection fp home db = Inr (lifetime, db') \<Longrightarrow> protocol_steps db db'"
  by (auto simp: ClassifyConnection_def Let_def dest: participation_steps
      split: option.splits if_splits sum.splits)

lemma pong_steps: "RefreshCPALiveness lifetime t db = Inr (x, db') \<Longrightarrow> protocol_steps db db'"
  by (auto simp: RefreshCPALiveness_def Let_def split: option.splits if_splits
      intro!: r_into_rtranclp protocol_step.member_touched)

lemma resolve_row_steps:
  assumes "resolveQuiescenceHomeRowTx fp c r lc now reason h db = Inr (x, db')"
  shows "protocol_steps db db'"
proof -
  let ?cutoff = "now + wrap64 (- lr_NodeHeartbeatTimeout lc)" and ?grace = "grace_cutoff lc now"
  from assms obtain home where home: "map_of (db_homes db) h = Some home"
    by (auto simp: resolveQuiescenceHomeRowTx_def split: option.splits)
  define db1 where "db1 = (if hr_State home = HomeActive then homeIncarnationTransition
      (\<lambda>h' row. h' = h \<and> hr_State row = HomeActive \<and> hr_LastSeenAt row < ?cutoff)
      (hr_State_update (\<lambda>_. HomeExpired)) db else db)"
  define db2 where "db2 = homeIncarnationTransition
      (\<lambda>h' row. h' = h \<and> (hr_State row = HomeExpired \<or> hr_State row = HomeRetired)
         \<and> hr_LastSeenAt row < ?grace)
      (\<lambda>row. row\<lparr>hr_State := HomeFenced, hr_FencedAt := Some now, hr_FenceReason := reason\<rparr>) db1"
  define eligible where "eligible \<longleftrightarrow> (case map_of (db_homes db2) h of None \<Rightarrow> False
      | Some row \<Rightarrow> (hr_State row = HomeExpired \<or> hr_State row = HomeRetired \<or> hr_State row = HomeFenced)
          \<and> hr_LastSeenAt row < ?grace)"
  have db': "db' = (if eligible then fence_row (fp, c, r, h) db2 else db2)"
    using assms unfolding resolveQuiescenceHomeRowTx_def home option.case Let_def
      db1_def [symmetric] db2_def [symmetric] eligible_def [symmetric] by simp
  have "protocol_steps db db1"
    unfolding db1_def by (auto intro!: r_into_rtranclp protocol_step.homes simp: home_moves_def)
  moreover have "protocol_steps db1 db2"
    unfolding db2_def by (auto intro!: r_into_rtranclp protocol_step.homes simp: home_moves_def)
  moreover have "eligible \<Longrightarrow> home_fenced db2 h"
    unfolding home_fenced_def eligible_def db2_def transition_lookup
    by (cases "map_of (db_homes db1) h") (auto split: if_splits)
  then have "protocol_steps db2 db'"
    unfolding db' by (auto intro: r_into_rtranclp protocol_step.row_fenced)
  ultimately show ?thesis
    by (meson rtranclp_trans)
qed

lemma resolve_steps:
  "resolveQuiescenceHomeEligibilityTx fp c r lc now reason hs db = Inr (x, db') \<Longrightarrow> protocol_steps db db'"
proof (induction hs arbitrary: db)
  case (Cons h hs)
  then obtain db1 where "resolveQuiescenceHomeRowTx fp c r lc now reason h db = Inr ((), db1)"
    "resolveQuiescenceHomeEligibilityTx fp c r lc now reason hs db1 = Inr (x, db')"
    by (auto split: sum.splits)
  with Cons.IH resolve_row_steps show ?case
    by (meson rtranclp_trans)
qed simp

lemma begin_steps:
  assumes "beginFingerprintCancellationForMembershipTx fp m now db = Inr (revision, db')"
    "map_of (db_members db) fp = Some m"
  shows "protocol_steps db db'"
proof -
  let ?hs = "quiescenceHomeCandidates db fp m"
  define m' where "m' = m\<lparr>mb_State := MemberCanceling, mb_CancelRevision := wrap64 (mb_CancelRevision m + 1),
      mb_CancelStartedAt := Some now, mb_ExpectedQuiescenceCount := int (length ?hs)\<rparr>"
  let ?db1 = "db\<lparr>db_members := AList.update fp m' (db_members db)\<rparr>"
  from assms(1) obtain rows db2 where
    rows: "createAndLockQuiescenceRowsTx fp (mb_ConnectedAt m) (mb_CancelRevision m') ?hs ?db1 = Inr (rows, db2)"
    and active: "mb_State m = MemberActive"
    by (auto simp: beginFingerprintCancellationForMembershipTx_def Let_def m'_def split: if_splits sum.splits)
  from assms(1) rows active obtain lc db3 where
    res: "resolveQuiescenceHomeEligibilityTx fp (mb_ConnectedAt m) (mb_CancelRevision m') lc now
      ''CPA fingerprint cancellation'' (map fst rows) db2 = Inr ((), db3)"
    and db': "db' = appendEvent ''cpa-fence'' (EventTime (mb_ConnectedAt m)) fp revision db3"
    by (auto simp: beginFingerprintCancellationForMembershipTx_def Let_def m'_def
        split: if_splits sum.splits option.splits)
  from rows obtain table where table: "create_rows fp (mb_ConnectedAt m) (mb_CancelRevision m') ?hs
      (db_quiescence db) = Some table"
    "length (quiescence_rows (?db1\<lparr>db_quiescence := table\<rparr>) fp (mb_ConnectedAt m) (mb_CancelRevision m'))
      = length ?hs"
    "db2 = ?db1\<lparr>db_quiescence := table\<rparr>"
    by (auto simp: createAndLockQuiescenceRowsTx_def Let_def split: option.splits if_splits)
  have "protocol_step db db2"
    unfolding table(3) update_convs
    by (rule protocol_step.cancelled [OF assms(2) active])
      (use table(1,2) in \<open>auto simp: m'_def quiescence_rows_def\<close>)
  moreover have "same_view db3 db'"
    by (simp add: db' appendEvent_def same_view_def gate_count_def)
  ultimately show ?thesis
    using resolve_steps [OF res] frame_steps by (meson converse_rtranclp_into_rtranclp rtranclp_trans)
qed

lemma cancel_steps:
  "BeginFingerprintCancellation fp now db = Inr (r, db') \<Longrightarrow> protocol_steps db db'"
  "BeginFingerprintCancellationForLifetime lifetime now db = Inr (r, db') \<Longrightarrow> protocol_steps db db'"
  "cleanupStaleMembership fp timeout now db = Inr (x, db') \<Longrightarrow> protocol_steps db db'"
  by (auto simp: BeginFingerprintCancellation_def BeginFingerprintCancellationForLifetime_def
      cleanupStaleMembership_def Let_def intro: begin_steps split: option.splits if_splits sum.splits)

lemma acknowledge_steps:
  "AcknowledgeQuiescence fp c r home db = Inr (x, db') \<Longrightarrow> protocol_steps db db'"
  by (auto simp: AcknowledgeQuiescence_def Let_def split: option.splits if_splits
      intro!: r_into_rtranclp protocol_step.acknowledged)

lemma quiescence_rows_mem:
  "(h, st) \<in> set (quiescence_rows db fp c r) \<longleftrightarrow> ((fp, c, r, h), st) \<in> set (db_quiescence db)"
  by (force simp: quiescence_rows_def)

lemma complete_steps:
  assumes "completeFingerprintCancellationTx fp r c db = Inr (x, db')" "trim_space fp = fp"
  shows "protocol_steps db db'"
proof -
  from assms obtain m where m: "map_of (db_members db) fp = Some m" "mb_State m = MemberCanceling"
    "mb_CancelRevision m = r" "mb_ConnectedAt m = c"
    and rows: "\<not> list_ex (\<lambda>(h, st). st \<noteq> QAcknowledged \<and> st \<noteq> QFenced) (quiescence_rows db fp c r)"
    and db': "db' = db\<lparr>db_participations := filter (\<lambda>(lt, h). lt \<noteq> (fp, c)) (db_participations db),
          db_counters := filter (\<lambda>((cred, model, fp'), c). fp' \<noteq> fp) (db_counters db),
          db_members := AList.update fp (m\<lparr>mb_State := MemberClosed\<rparr>) (db_members db)\<rparr>"
    by (auto simp: completeFingerprintCancellationTx_def DeleteFingerprintConcurrencyCountersTx_def Let_def
        split: option.splits if_splits)
  have "st = QAcknowledged \<or> st = QFenced" if "map_of (db_quiescence db) (fp, c, r, h) = Some st" for h st
    using rows map_of_SomeD [OF that] quiescence_rows_mem [of h st db fp c r]
    by (auto simp: list_ex_iff)
  then have "protocol_step db db'"
    using protocol_step.closed [OF m(1,2)] m(3,4) unfolding db' by blast
  then show ?thesis
    by (rule r_into_rtranclp)
qed

lemma trim_trim: "fp = trim_space x \<Longrightarrow> trim_space fp = fp"
  by simp

lemma complete_cancellation_steps:
  "CompleteFingerprintCancellation fp c r db = Inr (x, db') \<Longrightarrow> protocol_steps db db'"
  by (auto simp: CompleteFingerprintCancellation_def Let_def intro: complete_steps split: if_splits)

lemma recover_steps:
  assumes "recoverStaleMembershipQuiescence fp c r now db = Inr (finished, db')" "tables_wf db"
  shows "protocol_steps db db'"
proof (cases "\<exists>m. map_of (db_members db) fp = Some m")
  case True
  then have fp: "trim_space fp = fp"
      using assms(2) by (auto simp: tables_wf_def member_wf_def dest!: map_of_SomeD)
  show ?thesis
  proof (cases "db' = db")
    case False
    with assms(1) obtain lc pending db1 where
      res: "resolveQuiescenceHomeEligibilityTx fp c r lc now
        ''CPA fingerprint cancellation recovery'' pending db = Inr ((), db1)"
      and fin: "db' = db1 \<or> completeFingerprintCancellationTx fp r c db1 = Inr ((), db')"
      by (auto simp: recoverStaleMembershipQuiescence_def Let_def
          split: option.splits sum.splits if_splits)
    from fin show ?thesis
      using resolve_steps [OF res] complete_steps [OF _ fp, of r c db1 "()" db'] by (auto intro: rtranclp_trans)
  qed simp
next
  case False
  with assms(1) show ?thesis
    by (auto simp: recoverStaleMembershipQuiescence_def split: option.splits)
qed

lemma verify_enforcing:
  assumes "verifyConcurrencyPolicyActivation h now db = Inr (x, db')"
  shows "enforcing db' \<and> protocol_steps db db' \<and> gate_count db' = gate_count db
    \<and> db_policies db' = db_policies db \<and> db_models db' = db_models db \<and> db_auths db' = db_auths db"
proof -
  from assms obtain y where e: "expireStaleHomeIncarnations h now db = Inr (y, db')"
    and ok: "\<not> list_ex (\<lambda>(fp, m). mb_State m = MemberActive \<and> mb_ProtocolVersion m \<noteq> 1) (db_members db')"
      "\<not> list_ex (\<lambda>(h, row). \<not> homeHasConcurrencyLimiterCapability row) (live_homes db')"
      "\<not> (db_sqlite db' \<and> length (live_homes db') > 1)"
    by (auto simp: verifyConcurrencyPolicyActivation_def split: sum.splits if_splits)
  from ok have "enforcing db'"
    by (auto simp: enforcing_def list_ex_iff)
  with expireStale_steps [OF e] expireStale_fields [OF e] show ?thesis
    by simp
qed

lemma enforcing_barrier [simp]: "enforcing (db\<lparr>db_barrier := b\<rparr>) = enforcing db"
  by (simp add: enforcing_def live_homes_def)

lemma load_replaced:
  "loadCredentialConcurrencyModels (replace_models cred ms db) c
   = (if c = cred then ms else loadCredentialConcurrencyModels db c)"
proof -
  have "map (\<lambda>((c, model), limit). (model, limit))
      (filter (\<lambda>((c', model), limit). c' = c) (map (\<lambda>(model, limit). ((cred, model), limit)) ms))
      = (if c = cred then ms else [])"
    by (induction ms) auto
  moreover have "filter (\<lambda>((c', model), limit). c' = c) (filter (\<lambda>((c', model), limit). c' \<noteq> cred) t)
      = (if c = cred then [] else filter (\<lambda>((c', model), limit). c' = c) t)" for t :: "((string \<times> string) \<times> int) list"
    by (induction t) auto
  ultimately show ?thesis
    by (simp add: loadCredentialConcurrencyModels_def replace_models_def)
qed

lemma load_models_only:
  "db_models db' = db_models db \<Longrightarrow>
   loadCredentialConcurrencyModels db' cred = loadCredentialConcurrencyModels db cred"
  by (simp add: loadCredentialConcurrencyModels_def)

lemma no_models_without_policy:
  assumes "tables_wf db" "map_of (db_policies db) cred = None"
  shows "loadCredentialConcurrencyModels db cred = []"
proof -
  have "\<not> policy_known db cred"
    using assms(2) by (simp add: policy_known_def)
  then have "((cred, model), limit) \<notin> set (db_models db)" for model limit
    using assms(1) unfolding tables_wf_def by blast
  then show ?thesis
    by (auto simp: loadCredentialConcurrencyModels_def filter_empty_conv)
qed

lemma apply_patch_steps:
  assumes "apply_policy_patch cred p barrier (map_of (db_policies db) cred)
      (loadCredentialConcurrencyModels db cred) now db = Inr (x, db')"
    "db_gate db \<noteq> None" "map_of (db_policies db) cred = None \<longrightarrow> loadCredentialConcurrencyModels db cred = []"
    "concurrencyPolicyPatchCanActivate p \<longrightarrow> enforcing db"
  shows "protocol_steps db db'"
proof -
  let ?row = "map_of (db_policies db) cred" and ?models = "loadCredentialConcurrencyModels db cred"
  define current where "current = (case ?row of None \<Rightarrow> None | Some r \<Rightarrow> cp_MaxInFlight r)"
  define nextMax where "nextMax = (if np_maxInFlightSet p then np_maxInFlight p else current)"
  define nextModels where
    "nextModels = (if np_maxInFlightByModelSet p then np_maxInFlightByModel p else ?models)"
  define revision where "revision = wrap64 (barrier + 1)"
  define row' where "row' = \<lparr>cp_MaxInFlight = nextMax,
      cp_Version = (case ?row of None \<Rightarrow> 1 | Some r \<Rightarrow> wrap64 (cp_Version r + 1)),
      cp_EffectiveAt = now, cp_ObservationBarrierRevision = revision\<rparr>"
  define db1 where "db1 = db\<lparr>db_barrier := Some revision,
      db_policies := AList.update cred row' (db_policies db)\<rparr>"
  define db2 where "db2 = (if np_maxInFlightByModelSet p then replace_models cred nextModels db1 else db1)"
  let ?nextActive = "policy_active nextMax nextModels"
  let ?currentActive = "?row \<noteq> None \<and> policy_active current ?models"
  obtain db3 where move: "move_gate ?currentActive ?nextActive db2 = Inr db3"
    and db': "db' = appendEvent ''config'' (EventText ''concurrency-policy'') cred revision db3"
    using assms(1) unfolding apply_policy_patch_def Let_def current_def [symmetric] nextMax_def [symmetric]
      nextModels_def [symmetric] revision_def [symmetric] row'_def [symmetric] db1_def [symmetric]
      db2_def [symmetric] by (auto split: sum.splits)
  have gate2: "db_gate db2 = db_gate db"
    by (simp add: db2_def db1_def replace_models_def)
  have gate3: "db3 = db2\<lparr>db_gate := Some (gate_count db + (if ?nextActive then 1 else 0)
      - (if ?currentActive then 1 else 0))\<rparr>"
    using move assms(2) gate2
    by (cases db2) (auto simp: move_gate_def gate_count_def Let_def split: if_splits option.splits)
  let ?mid = "db\<lparr>db_policies := AList.update cred row' (db_policies db), db_models := db_models db2,
    db_gate := db_gate db3\<rparr>"
  have load: "loadCredentialConcurrencyModels ?mid cred = nextModels"
  proof -
    have "loadCredentialConcurrencyModels ?mid cred = loadCredentialConcurrencyModels db2 cred"
      by (rule load_models_only) simp
    also have "\<dots> = nextModels"
      using load_models_only [of db1 db cred] unfolding db2_def nextModels_def
      by (simp add: load_replaced) (simp add: db1_def)
    finally show ?thesis .
  qed
  have fresh: "enforcing db" if "?nextActive" "\<not> ?currentActive"
    using that assms(3,4)
    by (auto simp: concurrencyPolicyPatchCanActivate_def policy_active_def nextMax_def nextModels_def
        current_def split: if_splits option.splits)
  have "protocol_step db ?mid"
  proof (rule protocol_step.policy_changed [where cred = cred and row' = row'
        and n = "gate_count db + (if ?nextActive then 1 else 0) - (if ?currentActive then 1 else 0)"])
    show "db_models db2 = db_models db \<or> (\<exists>ms. db_models db2 = db_models (replace_models cred ms db))"
      by (auto simp: db2_def db1_def replace_models_def)
    show "?mid = db\<lparr>db_policies := AList.update cred row' (db_policies db), db_models := db_models db2,
        db_gate := Some (gate_count db + (if ?nextActive then 1 else 0) - (if ?currentActive then 1 else 0))\<rparr>"
      by (simp add: gate3)
    show "gate_count db + (if ?nextActive then 1 else 0) - (if ?currentActive then 1 else 0)
      = gate_count db
      + (if policy_active (cp_MaxInFlight row') (loadCredentialConcurrencyModels ?mid cred) then 1 else 0)
      - (case map_of (db_policies db) cred of None \<Rightarrow> 0
         | Some r \<Rightarrow> if policy_active (cp_MaxInFlight r) (loadCredentialConcurrencyModels db cred)
                   then 1 else 0)"
      unfolding load by (simp add: row'_def current_def split: option.splits)
    show "gate_count db < gate_count db + (if ?nextActive then 1 else 0) - (if ?currentActive then 1 else 0)
        \<Longrightarrow> enforcing db"
      using fresh by (auto split: if_splits)
  qed
  moreover have "same_view ?mid db'"
    by (auto simp: db' appendEvent_def gate3 same_view_def gate_count_def db2_def db1_def replace_models_def)
  ultimately show ?thesis
    using frame_steps by (meson converse_rtranclp_into_rtranclp)
qed

end
