(* ===== verification/Cluster_Invariants.thy ===== *)
theory Cluster_Invariants
  imports Cluster_Protocol
begin

section \<open>Invariants of the protocol\<close>

text \<open>
  What every protocol step keeps, and with the refinement of the operations what holds in every
  reachable state of the tables.
\<close>

subsection \<open>The tables stay well formed\<close>

lemma set_update: "x \<in> set (AList.update k v t) \<Longrightarrow> x = (k, v) \<or> x \<in> set t"
  by (induction t) (auto split: if_splits)

lemma gomap_wf_transition: "gomap_wf (db_homes (homeIncarnationTransition pred f db)) = gomap_wf (db_homes db)"
  by (simp add: homeIncarnationTransition_def comp_def split_def)

text \<open>Homes are never forgotten and fences never lifted.\<close>

definition homes_le :: "cluster_db \<Rightarrow> cluster_db \<Rightarrow> bool" where
  "homes_le db db' \<longleftrightarrow> (\<forall>h. home_known db h \<longrightarrow> home_known db' h)
     \<and> (\<forall>h. home_fenced db h \<longrightarrow> home_fenced db' h)"

lemma homes_le_same: "db_homes db' = db_homes db \<Longrightarrow> homes_le db db'"
  by (simp add: homes_le_def home_fenced_def home_known_def)

lemma delete_lifetime_fields [simp]:
  "db_homes (delete_lifetime lt db) = db_homes db" "db_members (delete_lifetime lt db) = db_members db"
  "db_policies (delete_lifetime lt db) = db_policies db" "db_models (delete_lifetime lt db) = db_models db"
  "db_counters (delete_lifetime lt db) = db_counters db" "db_sqlite (delete_lifetime lt db) = db_sqlite db"
  "gate_count (delete_lifetime lt db) = gate_count db"
  by (simp_all add: delete_lifetime_def gate_count_def)

lemma step_homes_le: "protocol_step db db' \<Longrightarrow> homes_le db db'"
proof (induction rule: protocol_step.induct)
  case (frame db db')
  then show ?case
    by (simp add: same_view_def homes_le_same)
next
  case (homes pred f db)
  have "hr_State (if pred h row then f row else row) = HomeFenced" if "hr_State row = HomeFenced" for h row
    using homes.hyps [of h row] that by (auto simp: home_moves_def)
  then have "home_fenced (homeIncarnationTransition pred f db) h" if "home_fenced db h" for h
    using that unfolding home_fenced_def by fastforce
  then show ?case
    by (auto simp: homes_le_def home_known_def)
next
  case (home_touched db h row row')
  then show ?case
    by (auto simp: homes_le_def home_fenced_def home_moves_def home_known_def)
next
  case (registered db h row)
  then show ?case
    by (auto simp: homes_le_def home_fenced_def home_known_def map_add_def split: option.splits)
next
  case (policy_changed models' db cred db' row' n)
  show ?case
    by (rule homes_le_same) (simp add: policy_changed.hyps(2))
qed (auto simp: homes_le_same fence_row_def)

text \<open>The parts of \<open>tables_wf\<close>, each over the tables it depends on.\<close>

lemma tables_wf_homes:
  assumes "tables_wf db" "homes_le db (db\<lparr>db_homes := t\<rparr>)" "gomap_wf t"
  shows "tables_wf (db\<lparr>db_homes := t\<rparr>)"
  using assms by (auto simp: tables_wf_def keys_wf_def member_wf_def row_wf_def homes_le_def policy_known_def)

lemma member_wf_same: "db_homes db' = db_homes db \<Longrightarrow> member_wf db' = member_wf db"
  by (simp add: member_wf_def home_known_def fun_eq_iff)

lemma row_wf_same: "db_homes db' = db_homes db \<Longrightarrow> row_wf db' = row_wf db"
  by (simp add: row_wf_def home_known_def home_fenced_def fun_eq_iff)

lemma home_known_same: "db_homes db' = db_homes db \<Longrightarrow> home_known db' = home_known db"
  by (simp add: home_known_def fun_eq_iff)

lemma policy_known_same: "db_policies db' = db_policies db \<Longrightarrow> policy_known db' = policy_known db"
  by (simp add: policy_known_def fun_eq_iff)

lemma home_fenced_same: "db_homes db' = db_homes db \<Longrightarrow> home_fenced db' = home_fenced db"
  by (simp add: home_fenced_def fun_eq_iff)

lemmas known_same = member_wf_same row_wf_same home_known_same policy_known_same home_fenced_same

lemma known_update [simp]:
  "home_known (db\<lparr>db_members := t_members\<rparr>) = home_known db"
  "home_fenced (db\<lparr>db_members := t_members\<rparr>) = home_fenced db"
  "member_wf (db\<lparr>db_members := t_members\<rparr>) = member_wf db"
  "row_wf (db\<lparr>db_members := t_members\<rparr>) = row_wf db"
  "home_known (db\<lparr>db_participations := t_participations\<rparr>) = home_known db"
  "home_fenced (db\<lparr>db_participations := t_participations\<rparr>) = home_fenced db"
  "member_wf (db\<lparr>db_participations := t_participations\<rparr>) = member_wf db"
  "row_wf (db\<lparr>db_participations := t_participations\<rparr>) = row_wf db"
  "home_known (db\<lparr>db_quiescence := t_quiescence\<rparr>) = home_known db"
  "home_fenced (db\<lparr>db_quiescence := t_quiescence\<rparr>) = home_fenced db"
  "member_wf (db\<lparr>db_quiescence := t_quiescence\<rparr>) = member_wf db"
  "row_wf (db\<lparr>db_quiescence := t_quiescence\<rparr>) = row_wf db"
  "home_known (db\<lparr>db_counters := t_counters\<rparr>) = home_known db"
  "home_fenced (db\<lparr>db_counters := t_counters\<rparr>) = home_fenced db"
  "member_wf (db\<lparr>db_counters := t_counters\<rparr>) = member_wf db"
  "row_wf (db\<lparr>db_counters := t_counters\<rparr>) = row_wf db"
  "home_known (db\<lparr>db_models := t_models\<rparr>) = home_known db"
  "home_fenced (db\<lparr>db_models := t_models\<rparr>) = home_fenced db"
  "member_wf (db\<lparr>db_models := t_models\<rparr>) = member_wf db"
  "row_wf (db\<lparr>db_models := t_models\<rparr>) = row_wf db"
  "home_known (db\<lparr>db_gate := t_gate\<rparr>) = home_known db"
  "home_fenced (db\<lparr>db_gate := t_gate\<rparr>) = home_fenced db"
  "member_wf (db\<lparr>db_gate := t_gate\<rparr>) = member_wf db"
  "row_wf (db\<lparr>db_gate := t_gate\<rparr>) = row_wf db"
  "home_known (db\<lparr>db_policies := t_policies\<rparr>) = home_known db"
  "home_fenced (db\<lparr>db_policies := t_policies\<rparr>) = home_fenced db"
  "member_wf (db\<lparr>db_policies := t_policies\<rparr>) = member_wf db"
  "row_wf (db\<lparr>db_policies := t_policies\<rparr>) = row_wf db"
  "policy_known (db\<lparr>db_members := t_members\<rparr>) = policy_known db"
  "policy_known (db\<lparr>db_participations := t_participations\<rparr>) = policy_known db"
  "policy_known (db\<lparr>db_quiescence := t_quiescence\<rparr>) = policy_known db"
  "policy_known (db\<lparr>db_counters := t_counters\<rparr>) = policy_known db"
  "policy_known (db\<lparr>db_models := t_models\<rparr>) = policy_known db"
  "policy_known (db\<lparr>db_gate := t_gate\<rparr>) = policy_known db"
  "policy_known (db\<lparr>db_homes := t_homes\<rparr>) = policy_known db"
  by (simp_all add: member_wf_def row_wf_def home_known_def home_fenced_def policy_known_def fun_eq_iff)

lemma tables_wfD:
  assumes "tables_wf db"
  shows "keys_wf db" "(fp, m) \<in> set (db_members db) \<Longrightarrow> member_wf db fp m"
    "(lt, h) \<in> set (db_participations db) \<Longrightarrow> trimmed_home h = h \<and> home_known db h"
    "((fp, c, r, h), st) \<in> set (db_quiescence db) \<Longrightarrow> row_wf db h st"
    "((cred, model), limit) \<in> set (db_models db) \<Longrightarrow> policy_known db cred"
    "(key, row) \<in> set (db_counters db) \<Longrightarrow> counter_wf row"
  using assms unfolding tables_wf_def by blast+

lemma member_ok: "tables_wf db \<Longrightarrow> map_of (db_members db) fp = Some m \<Longrightarrow> member_wf db fp m"
  by (blast dest: tables_wfD map_of_SomeD)

lemma tables_wf_members:
  assumes "tables_wf db" "member_wf db fp m"
  shows "tables_wf (db\<lparr>db_members := AList.update fp m (db_members db)\<rparr>)"
  using assms by (auto simp: tables_wf_def keys_wf_def dest!: set_update)

lemma tables_wf_delete_lifetime: "tables_wf db \<Longrightarrow> tables_wf (delete_lifetime lt db)"
  unfolding delete_lifetime_def
  by (auto simp: tables_wf_def keys_wf_def distinct_map_filter)

lemma tables_wf_quiescence:
  assumes "tables_wf db" "gomap_wf table" "\<forall>fp c r h st. ((fp, c, r, h), st) \<in> set table \<longrightarrow> row_wf db h st"
  shows "tables_wf (db\<lparr>db_quiescence := table\<rparr>)"
  using assms by (auto simp: tables_wf_def keys_wf_def)

lemma tables_wf_counters:
  assumes "tables_wf db" "gomap_wf table" "\<forall>key row. (key, row) \<in> set table \<longrightarrow> counter_wf row"
  shows "tables_wf (db\<lparr>db_counters := table\<rparr>)"
  using assms by (auto simp: tables_wf_def keys_wf_def)

lemma counter_ok: "tables_wf db \<Longrightarrow> map_of (db_counters db) key = Some row \<Longrightarrow> counter_wf row"
  by (blast dest: tables_wfD map_of_SomeD)

lemma tables_wf_counter_update:
  assumes "tables_wf db" "counter_wf row"
  shows "tables_wf (db\<lparr>db_counters := AList.update key row (db_counters db)\<rparr>)"
  by (rule tables_wf_counters) (use assms tables_wfD(1,6) [OF assms(1)] in \<open>auto simp: keys_wf_def dest!: set_update\<close>)

lemma create_rows_set:
  "create_rows fp c r hs table = Some table' \<Longrightarrow> gomap_wf table \<Longrightarrow>
   gomap_wf table' \<and> set table' = set table \<union> (\<lambda>h. ((fp, c, r, h), QPending)) ` set hs"
proof (induction hs arbitrary: table)
  case (Cons h hs)
  from Cons.prems have "map_of table (fp, c, r, h) = None"
    and rest: "create_rows fp c r hs (table @ [((fp, c, r, h), QPending)]) = Some table'"
    by (auto split: if_splits)
  with Cons.prems(2) have "gomap_wf (table @ [((fp, c, r, h), QPending)])"
    by (auto simp: map_of_eq_None_iff)
  from Cons.IH [OF rest this] show ?case
    by auto
qed simp

lemma candidates_set:
  "h \<in> set (quiescenceHomeCandidates db fp m) \<longleftrightarrow> h = trimmed_home (mb_Home m)
   \<or> (\<exists>h'. ((fp, mb_ConnectedAt m), h') \<in> set (db_participations db) \<and> h = trimmed_home h')"
  unfolding quiescenceHomeCandidates_def set_sort set_remdups by force

lemma candidates_known:
  assumes "tables_wf db" "map_of (db_members db) fp = Some m" "h \<in> set (quiescenceHomeCandidates db fp m)"
  shows "home_known db h"
  using assms(3) member_ok [OF assms(1,2)]
  by (auto simp: member_wf_def candidates_set dest: tables_wfD(3) [OF assms(1)])

lemma set_models_after:
  assumes "models' = db_models db \<or> (\<exists>ms. models' = db_models (replace_models cred ms db))"
    "((c, model), limit) \<in> set models'"
  shows "c = cred \<or> ((c, model), limit) \<in> set (db_models db)"
  using assms by (auto simp: replace_models_def)

lemma fenced_rows_wf: "gomap_wf (db_quiescence (fence_row key db)) = gomap_wf (db_quiescence db)"
  by (simp add: fence_row_def comp_def split_def)

lemma fenced_rows_set:
  "(k, st) \<in> set (db_quiescence (fence_row key db)) \<Longrightarrow>
   (k, st) \<in> set (db_quiescence db) \<or> k = key \<and> st = QFenced \<and> (k, QPending) \<in> set (db_quiescence db)"
  by (auto simp: fence_row_def split: if_splits)

lemma fence_row_eq: "fence_row key db = db\<lparr>db_quiescence := db_quiescence (fence_row key db)\<rparr>"
  by (simp add: fence_row_def)

lemma step_tables_wf: "protocol_step db db' \<Longrightarrow> tables_wf db \<Longrightarrow> tables_wf db'"
proof (induction rule: protocol_step.induct)
  case (frame db db')
  then show ?case
    using known_same [of db' db] by (simp add: same_view_def tables_wf_def keys_wf_def)
next
  case (homes pred f db)
  have "homes_le db (homeIncarnationTransition pred f db)"
    by (rule step_homes_le) (rule protocol_step.homes [OF homes.hyps])
  moreover have "gomap_wf (db_homes (homeIncarnationTransition pred f db))"
    using homes.prems by (simp add: gomap_wf_transition tables_wf_def keys_wf_def)
  ultimately show ?case
    using homes.prems unfolding homeIncarnationTransition_def by (intro tables_wf_homes) simp_all
next
  case (home_touched db h row row')
  have "homes_le db (db\<lparr>db_homes := AList.update h row' (db_homes db)\<rparr>)"
    by (rule step_homes_le) (rule protocol_step.home_touched [OF home_touched.hyps])
  with home_touched.prems show ?case
    by (intro tables_wf_homes) (auto simp: tables_wf_def keys_wf_def)
next
  case (registered db h row)
  have "homes_le db (db\<lparr>db_homes := db_homes db @ [(h, row)]\<rparr>)"
    by (rule step_homes_le) (rule protocol_step.registered [OF registered.hyps])
  with registered show ?case
    by (intro tables_wf_homes) (auto simp: tables_wf_def keys_wf_def map_of_eq_None_iff)
next
  case (accepted fp db m' db1)
  then have "tables_wf db1" "member_wf db1 = member_wf db"
    using member_wf_same [of db1 db] by (auto simp: tables_wf_delete_lifetime)
  with accepted show ?case
    by (intro tables_wf_members) (auto simp: member_wf_def [of db])
next
  case (member_touched db fp m t)
  from member_ok [OF member_touched.prems member_touched.hyps] member_touched.prems show ?case
    by (intro tables_wf_members) (auto simp: member_wf_def)
next
  case (participated db fp c h)
  then show ?case
    by (auto simp: tables_wf_def keys_wf_def)
next
  case (cancelled db fp m m' table)
  from create_rows_set [OF cancelled.hyps(7)] cancelled.prems
  have table: "gomap_wf table" "set table = set (db_quiescence db)
      \<union> (\<lambda>h. ((fp, mb_ConnectedAt m, mb_CancelRevision m', h), QPending))
          ` set (quiescenceHomeCandidates db fp m)"
    by (auto simp: tables_wf_def keys_wf_def)
  have "tables_wf (db\<lparr>db_quiescence := table\<rparr>)"
    using cancelled.prems table candidates_known [OF cancelled.prems cancelled.hyps(1)]
    by (intro tables_wf_quiescence) (auto simp: tables_wf_def row_wf_def)
  from tables_wf_members [OF this, of fp m'] member_ok [OF cancelled.prems cancelled.hyps(1)]
    cancelled.hyps(5) have "tables_wf (db\<lparr>db_quiescence := table,
      db_members := AList.update fp m' (db_members db)\<rparr>)"
    by (simp add: member_wf_def)
  then show ?case
    by (cases db) simp
next
  case (acknowledged db key st)
  then have "row_wf db h QAcknowledged" if "key = (fp, c, r, h)" for fp c r h
    using that by (auto simp: tables_wf_def row_wf_def dest!: map_of_SomeD)
  with acknowledged.prems show ?case
    by (intro tables_wf_quiescence) (auto simp: tables_wf_def keys_wf_def dest!: set_update)
next
  case (row_fenced db h fp c r)
  have "row_wf db h' st" if "((fp', c', r', h'), st) \<in> set (db_quiescence (fence_row (fp, c, r, h) db))"
    for fp' c' r' h' st
    using fenced_rows_set [OF that] row_fenced by (auto simp: tables_wf_def row_wf_def)
  with row_fenced show ?case
    by (subst fence_row_eq, intro tables_wf_quiescence) (auto simp: fenced_rows_wf tables_wf_def keys_wf_def)
next
  case (closed db fp m)
  have "tables_wf (db\<lparr>db_participations := filter (\<lambda>(lt, h). lt \<noteq> (fp, mb_ConnectedAt m)) (db_participations db)\<rparr>)"
    using closed.prems by (auto simp: tables_wf_def keys_wf_def)
  then have "tables_wf (db\<lparr>db_participations := filter (\<lambda>(lt, h). lt \<noteq> (fp, mb_ConnectedAt m)) (db_participations db),
      db_counters := filter (\<lambda>((cred, model, fp'), c). fp' \<noteq> fp) (db_counters db)\<rparr>)"
    using closed.prems by (intro tables_wf_counters) (auto simp: tables_wf_def keys_wf_def distinct_map_filter)
  from tables_wf_members [OF this, of fp "m\<lparr>mb_State := MemberClosed\<rparr>"]
    member_ok [OF closed.prems closed.hyps(1)] show ?case
    by (simp add: member_wf_def)
next
  case (policy_changed models' db cred db' row' n)
  have "policy_known db' c" if "((c, model), limit) \<in> set models'" for c model limit
    using set_models_after [OF policy_changed.hyps(1) that] tables_wfD(5) [OF policy_changed.prems, of c model limit]
    unfolding policy_changed.hyps(2) by (auto simp: policy_known_def)
  with policy_changed.prems show ?case
    unfolding policy_changed.hyps(2) by (auto simp: tables_wf_def keys_wf_def)
next
  case (admitted db fp c cred model row)
  then have "counter_wf row"
    using counter_ok [of db "(cred, model, fp)"] by (auto simp: counter_wf_def i64_simps split: option.splits)
  with admitted show ?case
    by (intro tables_wf_counter_update) (auto simp: counter_wf_def)
next
  case (released db fp c cred model row s)
  with counter_ok [of db "(cred, model, fp)" row] show ?case
    by (intro tables_wf_counter_update) (auto simp: counter_wf_def)
qed

lemma steps_tables_wf: "protocol_steps db db' \<Longrightarrow> tables_wf db \<Longrightarrow> tables_wf db'"
  by (induction rule: rtranclp_induct) (auto intro: step_tables_wf)

subsection \<open>Every operation refines the protocol\<close>

lemma scoped_patch_steps:
  assumes "patchCredentialConcurrencyPolicyWithAuthScopeTx cred patch expected retired t t' db = Inr (x, db')"
    "tables_wf db" "db_gate db \<noteq> None"
  shows "protocol_steps db db' \<and> db_gate db' \<noteq> None"
proof -
  let ?cred = "trim_space cred"
  from assms(1) obtain lc db1 where l: "homeIncarnationLifecycleConfig db = Inr (lc, db1)"
    by (auto simp: patchCredentialConcurrencyPolicyWithAuthScopeTx_def Let_def
        split: if_splits option.splits sum.splits)
  from assms(1) l obtain p where
    p: "normalizeConcurrencyPolicyPatch patch (cc_MaxLimit (lifecycleConfigFromRecord lc)) = Inr p"
    by (auto simp: patchCredentialConcurrencyPolicyWithAuthScopeTx_def Let_def
        split: if_splits option.splits sum.splits)
  from assms(1) l p obtain y db2 where v: "(if concurrencyPolicyPatchCanActivate p
      then verifyConcurrencyPolicyActivation (lr_NodeHeartbeatTimeout lc) t db1 else Inr ((), db1)) = Inr (y, db2)"
    by (auto simp: patchCredentialConcurrencyPolicyWithAuthScopeTx_def Let_def
        split: if_splits option.splits sum.splits)
  define barrier where "barrier = (case db_barrier db2 of None \<Rightarrow> 0 | Some n \<Rightarrow> n)"
  define db3 where "db3 = db2\<lparr>db_barrier := Some barrier\<rparr>"
  from assms(1) l p v have res: "db' = db3
      \<or> apply_policy_patch ?cred p barrier (map_of (db_policies db3) ?cred)
          (loadCredentialConcurrencyModels db3 ?cred) t' db3 = Inr (x, db')"
    unfolding patchCredentialConcurrencyPolicyWithAuthScopeTx_def Let_def db3_def barrier_def
    by (auto split: if_splits option.splits)
  have one: "protocol_steps db db1" and l': "db_policies db1 = db_policies db" "db_models db1 = db_models db"
    "db_gate db1 = db_gate db"
    using lifecycle_view [OF l] l by (auto simp: same_view_def homeIncarnationLifecycleConfig_def
        ensureLifecycleConfigTx_def Let_def split: option.splits if_splits)
  have two: "protocol_steps db1 db2" "db_policies db2 = db_policies db1" "db_models db2 = db_models db1"
    "concurrencyPolicyPatchCanActivate p \<longrightarrow> enforcing db2" "db_gate db2 = db_gate db1"
    using v verify_enforcing [of "lr_NodeHeartbeatTimeout lc" t db1 y db2]
    by (auto simp: verifyConcurrencyPolicyActivation_def expireStaleHomeIncarnations_def Let_def
        homeIncarnationTransition_def split: if_splits sum.splits)
  have "protocol_steps db2 db3"
    by (rule frame_steps) (simp add: db3_def same_view_def gate_count_def)
  with one two have three: "protocol_steps db db3"
    by (meson rtranclp_trans)
  have none: "map_of (db_policies db3) ?cred = None \<longrightarrow> loadCredentialConcurrencyModels db3 ?cred = []"
    using no_models_without_policy [OF assms(2), of ?cred] load_models_only [of db3 db ?cred] l' two
    by (simp add: db3_def)
  have enf: "concurrencyPolicyPatchCanActivate p \<longrightarrow> enforcing db3" and g3: "db_gate db3 \<noteq> None"
    using two assms(3) l' by (auto simp: db3_def)
  from res show ?thesis
  proof
    assume "db' = db3"
    with three g3 show ?thesis
      by simp
  next
    assume a: "apply_policy_patch ?cred p barrier (map_of (db_policies db3) ?cred)
        (loadCredentialConcurrencyModels db3 ?cred) t' db3 = Inr (x, db')"
    from apply_patch_steps [OF a g3 none enf] three have "protocol_steps db db'"
      by (meson rtranclp_trans)
    moreover have "db_gate db' \<noteq> None"
      using a g3 by (auto simp: apply_policy_patch_def Let_def move_gate_def appendEvent_def replace_models_def
          split: if_splits sum.splits option.splits)
    ultimately show ?thesis
      by simp
  qed
qed

lemma same_view_wf: "same_view db db' \<Longrightarrow> tables_wf db \<Longrightarrow> tables_wf db'"
  by (rule step_tables_wf) (rule protocol_step.frame)

lemma lock_gate_some: "lockConcurrencyActivationGate db = (gate, db') \<Longrightarrow> db_gate db' \<noteq> None"
  by (auto simp: lockConcurrencyActivationGate_def Let_def)

lemma patch_steps:
  assumes "PatchCredentialConcurrencyPolicy cred patch expected t t' db = Inr (p, db')" "tables_wf db"
  shows "protocol_steps db db'"
proof -
  obtain gate db1 where g: "lockConcurrencyActivationGate db = (gate, db1)"
    by (cases "lockConcurrencyActivationGate db") auto
  with assms(1) have "patchCredentialConcurrencyPolicyWithAuthScopeTx (trim_space cred) patch expected False t t' db1
      = Inr (p, db')"
    by (auto simp: PatchCredentialConcurrencyPolicy_def Let_def split: if_splits option.splits)
  moreover note view = lock_gate_view [OF g]
  ultimately have "protocol_steps db1 db'"
    using scoped_patch_steps [of "trim_space cred" patch expected False t t' db1 p db'] same_view_wf [of db db1]
      lock_gate_some [OF g] assms(2) by blast
  with frame_steps [of db db1] view show ?thesis
    by (meson rtranclp_trans)
qed

lemma import_loop_steps:
  "import_loop policies clock creds db = Inr (x, db') \<Longrightarrow> tables_wf db \<Longrightarrow> db_gate db \<noteq> None \<Longrightarrow>
   protocol_steps db db'"
proof (induction creds arbitrary: db)
  case (Cons cred creds)
  let ?scoped = "\<lambda>p retired. patchCredentialConcurrencyPolicyWithAuthScopeTx cred p None retired
      (fst (clock cred)) (snd (clock cred)) db"
  from Cons.prems(1) obtain y db1 patch retired where
    first: "?scoped patch retired = Inr (y, db1)" and rest: "import_loop policies clock creds db1 = Inr (x, db')"
    by (auto simp: Let_def split: sum.splits if_splits)
  note here = scoped_patch_steps [OF first Cons.prems(2,3)]
  then have "tables_wf db1"
    using steps_tables_wf Cons.prems(2) by blast
  with Cons.IH [OF rest] here show ?case
    by (meson rtranclp_trans)
qed simp

lemma import_steps:
  assumes "ImportCredentialConcurrencyPolicies document clock db = Inr (x, db')" "tables_wf db"
  shows "protocol_steps db db'"
proof -
  obtain gate db1 where g: "lockConcurrencyActivationGate db = (gate, db1)"
    by (cases "lockConcurrencyActivationGate db") auto
  have "db' = db1 \<or> (\<exists>policies creds. import_loop policies clock creds db1 = Inr ((), db'))"
    using assms(1) g
    by (auto simp: ImportCredentialConcurrencyPolicies_def Let_def split: if_splits option.splits sum.splits)
  then have "protocol_steps db1 db'"
    using import_loop_steps same_view_wf lock_gate_view [OF g] lock_gate_some [OF g] assms(2) by blast
  with frame_steps [of db db1] lock_gate_view [OF g] show ?thesis
    by (meson rtranclp_trans)
qed

lemma lock_lifetime:
  "LockActiveConcurrencyLifetimeTx lt db = None \<Longrightarrow>
   lifetime_active db (trim_space (cl_Fingerprint lt)) (cl_ConnectedAt lt)"
  by (auto simp: LockActiveConcurrencyLifetimeTx_def lifetime_active_def Let_def split: if_splits option.splits)

lemma admit_session_view:
  "admit_session affinity cred now uuid db = Inr db' \<Longrightarrow> same_view db db'"
  by (auto simp: admit_session_def same_view_def gate_count_def split: option.splits if_splits prod.splits)

text \<open>
  An admission that changes anything commits the session binding, and where a limit applies it counts
  the request in a state that has room for it.
\<close>

lemma admit_cases:
  assumes "AdmitCredentialConcurrency req now uuid db = (db', result, err)"
    "ValidCanonicalConcurrencyModelKey (ad_Model req) = (model, valid)"
  shows "(err \<noteq> None \<and> db' = db \<and> \<not> as_Accounted result)
    \<or> (err = None \<and> (\<exists>db1. same_view db db1
        \<and> admit_session (ad_SessionAffinity req) (trim_space (ad_CredentialID req)) now uuid db = Inr db1
        \<and> lifetime_active db1 (trim_space (cl_Fingerprint (ad_Lifetime req))) (cl_ConnectedAt (ad_Lifetime req))
        \<and> admit_counted (trim_space (ad_CredentialID req)) model
             (credential_limit db1 (trim_space (ad_CredentialID req)))
             (model_limit db1 (trim_space (ad_CredentialID req)) model) (ad_ProtocolVersion req)
             (trim_space (cl_Fingerprint (ad_Lifetime req))) db1 = Inr (as_Accounted result, db')))"
proof (cases "err = None")
  case True
  let ?cred = "trim_space (ad_CredentialID req)" and ?fp = "trim_space (cl_Fingerprint (ad_Lifetime req))"
  from assms True have lock: "LockActiveConcurrencyLifetimeTx (ad_Lifetime req) db = None"
    by (auto simp: AdmitCredentialConcurrency_def Let_def split: if_splits option.splits)
  from assms True lock obtain db1 where
    session: "admit_session (ad_SessionAffinity req) ?cred now uuid db = Inr db1"
    by (auto simp: AdmitCredentialConcurrency_def Let_def split: if_splits option.splits sum.splits)
  note view = admit_session_view [OF session]
  have cl: "positiveLimit (case map_of (db_policies db) ?cred of None \<Rightarrow> None | Some p \<Rightarrow> cp_MaxInFlight p)
      = credential_limit db1 ?cred"
    using view by (simp add: credential_limit_def same_view_def)
  have ml: "positiveLimitValue (gomap_get 0 (if map_of (db_policies db) ?cred = None then []
      else loadCredentialConcurrencyModels db ?cred) model) = model_limit db1 ?cred model"
    using view load_models_only [of db1 db ?cred] by (simp add: model_limit_def same_view_def positiveLimitValue_def)
  have cred: "lockConcurrencyPolicyTx ?cred db = Inr (map_of (db_policies db) ?cred)"
    using assms True lock
    by (auto simp: AdmitCredentialConcurrency_def lockConcurrencyPolicyTx_def Let_def split: if_splits option.splits)
  have counted: "admit_counted ?cred model (credential_limit db1 ?cred) (model_limit db1 ?cred model)
       (ad_ProtocolVersion req) ?fp db1 = Inr (as_Accounted result, db')"
    using assms(1) True
    unfolding AdmitCredentialConcurrency_def Let_def assms(2) prod.case lock option.case cred sum.case session cl ml
    by (auto split: if_splits sum.splits)
  have active: "lifetime_active db1 ?fp (cl_ConnectedAt (ad_Lifetime req))"
    using lock_lifetime [OF lock] view by (simp add: lifetime_active_def same_view_def)
  with True session counted view show ?thesis
    by blast
next
  case False
  with assms show ?thesis
    by (auto simp: AdmitCredentialConcurrency_def Let_def split: if_splits option.splits sum.splits prod.splits)
qed

lemma admit_counted_cases:
  assumes "admit_counted cred model (credential_limit db cred) (model_limit db cred model) protocol fp db
    = Inr (accounted, db')"
  shows "(\<not> accounted \<and> db' = db \<and> credential_limit db cred = 0 \<and> model_limit db cred model = 0)
    \<or> (accounted
       \<and> (credential_limit db cred > 0 \<longrightarrow> in_flight db cred < credential_limit db cred)
       \<and> (model_limit db cred model > 0 \<longrightarrow> model_count db cred model < model_limit db cred model)
       \<and> (\<exists>row. row = (case map_of (db_counters db) (cred, model, fp) of
              None \<Rightarrow> \<lparr>ct_ActiveCount = 0, ct_LastReleaseSeq = 0\<rparr> | Some r \<Rightarrow> r)
            \<and> 0 \<le> ct_ActiveCount row \<and> ct_ActiveCount row < max_i64
            \<and> db' = db\<lparr>db_counters := AList.update (cred, model, fp)
                 (row\<lparr>ct_ActiveCount := ct_ActiveCount row + 1\<rparr>) (db_counters db)\<rparr>))"
proof (cases accounted)
  case True
  from assms True obtain ca ma where sums: "sumConcurrencyCountsTx cred model db = Inr (ca, ma)"
    and below: "\<not> (credential_limit db cred > 0 \<and> ca \<ge> credential_limit db cred)"
      "\<not> (model_limit db cred model > 0 \<and> ma \<ge> model_limit db cred model)"
    and inc: "incrementConcurrencyCounterTx cred model fp db = Inr ((), db')"
    by (auto simp: admit_counted_def split: if_splits sum.splits)
  have "ca = in_flight db cred" "ma = model_count db cred model"
    using sums by (auto simp: sumConcurrencyCountsTx_def in_flight_def model_count_def Let_def split: if_splits)
  with below True inc show ?thesis
    by (auto simp: incrementConcurrencyCounterTx_def i64_simps split: if_splits option.splits)
next
  case False
  with assms show ?thesis
    by (auto simp: admit_counted_def split: if_splits sum.splits)
qed

lemma admit_steps:
  assumes "AdmitCredentialConcurrency req now uuid db = (db', result, err)"
  shows "protocol_steps db db'"
proof -
  obtain model valid where model: "ValidCanonicalConcurrencyModelKey (ad_Model req) = (model, valid)"
    by (cases "ValidCanonicalConcurrencyModelKey (ad_Model req)") auto
  from admit_cases [OF assms model] show ?thesis
  proof (elim disjE conjE exE)
    fix db1
    assume view: "same_view db db1"
      and active: "lifetime_active db1 (trim_space (cl_Fingerprint (ad_Lifetime req)))
          (cl_ConnectedAt (ad_Lifetime req))"
      and counted: "admit_counted (trim_space (ad_CredentialID req)) model
             (credential_limit db1 (trim_space (ad_CredentialID req)))
             (model_limit db1 (trim_space (ad_CredentialID req)) model) (ad_ProtocolVersion req)
             (trim_space (cl_Fingerprint (ad_Lifetime req))) db1 = Inr (as_Accounted result, db')"
    have "protocol_steps db1 db'"
      using admit_counted_cases [OF counted] protocol_step.admitted [OF active] by auto
    with frame_steps [OF view] show ?thesis
      by (meson rtranclp_trans)
  qed simp
qed

lemma release_steps:
  assumes "ApplyConcurrencyRelease rel db = Inr (x, db')" "is_i64 (rl_ReleaseSeq rel)" "tables_wf db"
  shows "protocol_steps db db'"
proof (cases "db' = db")
  case False
  let ?s = "rl_ReleaseSeq rel" and ?fp = "trim_space (cl_Fingerprint (rl_Lifetime rel))"
  from assms(1) False obtain cred model row where
    row: "map_of (db_counters db) (cred, model, ?fp) = Some row"
    and lock: "LockActiveConcurrencyLifetimeTx (rl_Lifetime rel) db = None"
    and delta: "\<not> wrap64 (?s - ct_LastReleaseSeq row) \<le> 0"
      "\<not> wrap64 (?s - ct_LastReleaseSeq row) > ct_ActiveCount row" "0 < ?s"
    and db': "db' = db\<lparr>db_counters := AList.update (cred, model, ?fp)
        \<lparr>ct_ActiveCount = ct_ActiveCount row - wrap64 (?s - ct_LastReleaseSeq row), ct_LastReleaseSeq = ?s\<rparr>
        (db_counters db)\<rparr>"
    by (auto simp: ApplyConcurrencyRelease_def applyConcurrencyReleaseTx_def lockConcurrencyCounterTx_def Let_def
        split: if_splits option.splits sum.splits prod.splits)
  have w: "wrap64 (?s - ct_LastReleaseSeq row) = ?s - ct_LastReleaseSeq row"
    using counter_ok [OF assms(3) row] assms(2) delta(3) by (intro wrap64_id) (auto simp: counter_wf_def i64_simps)
  have "protocol_step db db'"
    unfolding db' w
    by (rule protocol_step.released [OF lock_lifetime [OF lock] row]) (use delta w assms(2) in \<open>auto simp: i64_simps\<close>)
  then show ?thesis
    by (rule r_into_rtranclp)
qed simp

theorem cluster_step_refines: "cluster_step db db' \<Longrightarrow> tables_wf db \<Longrightarrow> protocol_steps db db'"
proof (induction rule: cluster_step.induct)
  case (bind db commit t uuid table r)
  show ?case
    by (rule frame_steps) (simp add: same_view_def gate_count_def)
next
  case (purge db t limit)
  show ?case
    by (rule frame_steps) (simp add: same_view_def gate_count_def)
next
  case (credentials db auths)
  show ?case
    by (rule frame_steps) (simp add: same_view_def gate_count_def)
qed (blast intro: register_steps heartbeat_steps retire_steps fence_steps configure_steps subscribe_steps
    connect_steps pong_steps cancel_steps acknowledge_steps complete_cancellation_steps recover_steps
    patch_steps import_steps admit_steps release_steps)+

lemma cluster_steps_refine:
  "cluster_step\<^sup>*\<^sup>* db db' \<Longrightarrow> tables_wf db \<Longrightarrow> protocol_steps db db' \<and> tables_wf db'"
proof (induction rule: rtranclp_induct)
  case (step db1 db2)
  then have "protocol_steps db1 db2" "tables_wf db1"
    by (auto intro: cluster_step_refines)
  with step show ?case
    by (meson rtranclp_trans steps_tables_wf)
qed simp

lemma empty_cluster_wf: "tables_wf (empty_cluster sqlite)"
  by (simp add: tables_wf_def keys_wf_def empty_cluster_def)

text \<open>A reachable state is reached by protocol steps from the empty tables.\<close>

lemma reachable_protocol:
  "reachable db \<Longrightarrow> \<exists>sqlite. protocol_steps (empty_cluster sqlite) db \<and> tables_wf db"
  unfolding reachable_def using cluster_steps_refine [OF _ empty_cluster_wf] by blast

end
