(* ===== verification/Cluster_Safety.thy ===== *)
theory Cluster_Safety
  imports Cluster_Invariants
begin

section \<open>What the cluster guarantees\<close>

text \<open>
  The properties of Homes, nodes and limits: the activation gate is exact and enforced, a membership is
  closed only when every Home that served it is done with it, an ended lifetime is refused for ever, and
  the limits bound what is admitted.
\<close>

subsection \<open>The activation gate\<close>

definition gate_exact :: "cluster_db \<Rightarrow> bool" where
  "gate_exact db \<longleftrightarrow> gate_count db = int (length (active_credentials db))"

definition gate_enforced :: "cluster_db \<Rightarrow> bool" where
  "gate_enforced db \<longleftrightarrow> (gate_count db > 0 \<longrightarrow> enforcing db)"

lemma count_update:
  assumes "gomap_wf t" "\<And>k' v'. (k', v') \<in> set t \<Longrightarrow> k' \<noteq> k \<Longrightarrow> Q k' v' = P k' v'"
  shows "int (length (filter (\<lambda>(k, v). Q k v) (AList.update k v t)))
    = int (length (filter (\<lambda>(k, v). P k v) t)) + of_bool (Q k v)
      - (case map_of t k of None \<Rightarrow> 0 | Some w \<Rightarrow> of_bool (P k w))"
  using assms
proof (induction t)
  case (Cons e t)
  obtain k' v' where e: "e = (k', v')"
    by (cases e)
  have same: "filter (\<lambda>(k, v). Q k v) t = filter (\<lambda>(k, v). P k v) t" if "k \<notin> fst ` set t"
    using that Cons.prems(2) by (force intro!: filter_cong)
  show ?case
  proof (cases "k' = k")
    case True
    then have "k \<notin> fst ` set t"
      using Cons.prems(1) e by auto
    with True same e show ?thesis
      by (auto split: if_splits)
  next
    case False
    with Cons e show ?thesis
      by auto
  qed
qed simp

lemma policy_models_frame:
  assumes "models' = db_models db \<or> (\<exists>ms. models' = db_models (replace_models cred ms db))"
    "db_models db' = models'" "c \<noteq> cred"
  shows "loadCredentialConcurrencyModels db' c = loadCredentialConcurrencyModels db c"
  using assms load_replaced [of cred _ db c] load_models_only [of db' _ c] by metis

lemma gate_exact_same:
  assumes "db_policies db' = db_policies db" "db_models db' = db_models db" "gate_count db' = gate_count db"
  shows "gate_exact db' = gate_exact db"
  using assms by (simp add: gate_exact_def active_credentials_def loadCredentialConcurrencyModels_def)

lemma gate_count_update [simp]:
  "gate_count (db\<lparr>db_homes := t_homes\<rparr>) = gate_count db"
  "gate_count (db\<lparr>db_members := t_members\<rparr>) = gate_count db"
  "gate_count (db\<lparr>db_participations := t_participations\<rparr>) = gate_count db"
  "gate_count (db\<lparr>db_quiescence := t_quiescence\<rparr>) = gate_count db"
  "gate_count (db\<lparr>db_counters := t_counters\<rparr>) = gate_count db"
  "gate_count (fence_row key db) = gate_count db"
  by (simp_all add: gate_count_def fence_row_def)

lemma gate_exact_update [simp]:
  "gate_exact (db\<lparr>db_homes := t_homes\<rparr>) = gate_exact db"
  "gate_exact (db\<lparr>db_members := t_members\<rparr>) = gate_exact db"
  "gate_exact (db\<lparr>db_participations := t_participations\<rparr>) = gate_exact db"
  "gate_exact (db\<lparr>db_quiescence := t_quiescence\<rparr>) = gate_exact db"
  "gate_exact (db\<lparr>db_counters := t_counters\<rparr>) = gate_exact db"
  "gate_exact (fence_row key db) = gate_exact db"
  "gate_exact (homeIncarnationTransition pred f db) = gate_exact db"
  by (rule gate_exact_same; simp add: fence_row_def)+

lemma step_gate_exact:
  "protocol_step db db' \<Longrightarrow> tables_wf db \<Longrightarrow> gate_exact db \<Longrightarrow> gate_exact db'"
proof (induction rule: protocol_step.induct)
  case (frame db db')
  then show ?case
    using gate_exact_same [of db' db] by (simp add: same_view_def)
next
  case (accepted fp db m' db1)
  then show ?case
    using gate_exact_same [of "db1\<lparr>db_members := AList.update fp m' (db_members db1)\<rparr>" db] by auto
next
  case (policy_changed models' db cred db' n row')
  let ?P = "\<lambda>c row. policy_active (cp_MaxInFlight row) (loadCredentialConcurrencyModels db c)"
  let ?Q = "\<lambda>c row. policy_active (cp_MaxInFlight row) (loadCredentialConcurrencyModels db' c)"
  have p: "db_policies db' = AList.update cred row' (db_policies db)" "db_models db' = models'"
    "gate_count db' = n"
    by (simp_all add: policy_changed.hyps(2) gate_count_def)
  have "?Q c row = ?P c row" if "c \<noteq> cred" for c row
    using policy_models_frame [OF policy_changed.hyps(1) p(2) that] by simp
  then have "int (length (filter (\<lambda>(c, row). ?Q c row) (AList.update cred row' (db_policies db))))
    = int (length (filter (\<lambda>(c, row). ?P c row) (db_policies db))) + of_bool (?Q cred row')
      - (case map_of (db_policies db) cred of None \<Rightarrow> 0 | Some w \<Rightarrow> of_bool (?P cred w))"
    using policy_changed.prems(1) by (intro count_update) (auto simp: tables_wf_def keys_wf_def)
  with policy_changed.prems(2) policy_changed.hyps(3) show ?case
    unfolding gate_exact_def active_credentials_def p by (auto split: option.splits)
qed simp_all

lemma length_filter_map:
  "\<forall>x\<in>set t. P (g x) \<longrightarrow> P x \<Longrightarrow> length (filter P (map g t)) \<le> length (filter P t)"
  by (induction t) auto

lemma live_homes_moves:
  assumes "\<And>h row. pred h row \<Longrightarrow> home_moves row (f row)"
  shows "length (live_homes (homeIncarnationTransition pred f db)) \<le> length (live_homes db)"
    "(h, row) \<in> set (live_homes (homeIncarnationTransition pred f db)) \<Longrightarrow>
     \<exists>row0. (h, row0) \<in> set (live_homes db) \<and> hr_Capabilities row = hr_Capabilities row0"
proof -
  define g where "g h row = (if pred h row then f row else row)" for h row
  let ?P = "\<lambda>(h :: home_id, row). hr_State row = HomeActive"
  have moves: "hr_State (g h row) = HomeActive \<Longrightarrow>
      hr_State row = HomeActive \<and> hr_Capabilities (g h row) = hr_Capabilities row" for h row
    using assms [of h row] by (auto simp: g_def home_moves_def split: if_splits)
  have eq: "live_homes (homeIncarnationTransition pred f db)
      = filter ?P (map (\<lambda>(h, row). (h, g h row)) (db_homes db))"
    by (simp add: live_homes_def homeIncarnationTransition_def g_def)
  have "length (filter ?P (map (\<lambda>(h, row). (h, g h row)) t)) \<le> length (filter ?P t)" for t
    by (rule length_filter_map) (auto dest: moves)
  then show "length (live_homes (homeIncarnationTransition pred f db)) \<le> length (live_homes db)"
    unfolding eq by (simp add: live_homes_def)
  show "(h, row) \<in> set (live_homes (homeIncarnationTransition pred f db)) \<Longrightarrow>
     \<exists>row0. (h, row0) \<in> set (live_homes db) \<and> hr_Capabilities row = hr_Capabilities row0"
    unfolding eq by (auto simp: live_homes_def dest: moves)
qed

lemma enforcing_homes:
  assumes "enforcing db" "db_members db' = db_members db" "db_sqlite db' = db_sqlite db"
    "length (live_homes db') \<le> length (live_homes db)"
    "\<And>h row. (h, row) \<in> set (live_homes db') \<Longrightarrow>
       \<exists>row0. (h, row0) \<in> set (live_homes db) \<and> hr_Capabilities row = hr_Capabilities row0"
  shows "enforcing db'"
proof -
  have "homeHasConcurrencyLimiterCapability row" if "(h, row) \<in> set (live_homes db')" for h row
  proof -
    from assms(5) [OF that] obtain row0 where "(h, row0) \<in> set (live_homes db)"
      "hr_Capabilities row = hr_Capabilities row0"
      by blast
    with assms(1) show ?thesis
      unfolding enforcing_def by (auto simp: homeHasConcurrencyLimiterCapability_def)
  qed
  with assms(1-4) show ?thesis
    unfolding enforcing_def by auto
qed

lemma enforcing_members:
  assumes "enforcing db" "\<And>fp m. (fp, m) \<in> set (db_members db') \<Longrightarrow> mb_State m = MemberActive \<Longrightarrow>
      mb_ProtocolVersion m = 1" "db_homes db' = db_homes db" "db_sqlite db' = db_sqlite db"
  shows "enforcing db'"
proof -
  have "live_homes db' = live_homes db"
    using assms(3) by (simp add: live_homes_def)
  with assms show ?thesis
    unfolding enforcing_def by auto
qed

lemma enforcing_same:
  "enforcing db \<Longrightarrow> db_members db' = db_members db \<Longrightarrow> db_homes db' = db_homes db \<Longrightarrow>
   db_sqlite db' = db_sqlite db \<Longrightarrow> enforcing db'"
  by (rule enforcing_members) (auto simp: enforcing_def)

lemma enforcing_protocol:
  "enforcing db \<Longrightarrow> (fp, m) \<in> set (db_members db) \<Longrightarrow> mb_State m = MemberActive \<Longrightarrow> mb_ProtocolVersion m = 1"
  by (auto simp: enforcing_def)

lemma enforcing_update [simp]:
  "enforcing (db\<lparr>db_participations := t_participations\<rparr>) = enforcing db"
  "enforcing (db\<lparr>db_quiescence := t_quiescence\<rparr>) = enforcing db"
  "enforcing (db\<lparr>db_counters := t_counters\<rparr>) = enforcing db"
  "enforcing (fence_row key db) = enforcing db"
  "enforcing (delete_lifetime lt db) = enforcing db"
  by (simp_all add: enforcing_def live_homes_def fence_row_def delete_lifetime_def)

lemma enforcing_member_update:
  assumes "enforcing db" "mb_State m = MemberActive \<Longrightarrow> mb_ProtocolVersion m = 1"
  shows "enforcing (db\<lparr>db_members := AList.update fp m (db_members db)\<rparr>)"
proof (rule enforcing_members [OF assms(1)])
  fix fp' m'
  assume "(fp', m') \<in> set (db_members (db\<lparr>db_members := AList.update fp m (db_members db)\<rparr>))"
    "mb_State m' = MemberActive"
  then show "mb_ProtocolVersion m' = 1"
    using set_update [of "(fp', m')" fp m "db_members db"] assms(2) enforcing_protocol [OF assms(1), of fp' m'] by auto
qed simp_all

lemma step_gate_enforced:
  "protocol_step db db' \<Longrightarrow> tables_wf db \<Longrightarrow> gate_enforced db \<Longrightarrow> gate_enforced db'"
proof (induction rule: protocol_step.induct)
  case (frame db db')
  then show ?case
    by (auto simp: same_view_def gate_enforced_def intro: enforcing_same)
next
  case (homes pred f db)
  show ?case
    unfolding gate_enforced_def transition_fields
  proof
    assume "gate_count db > 0"
    with homes.prems have "enforcing db"
      by (simp add: gate_enforced_def)
    then show "enforcing (homeIncarnationTransition pred f db)"
    proof (rule enforcing_homes)
      show "length (live_homes (homeIncarnationTransition pred f db)) \<le> length (live_homes db)"
        by (rule live_homes_moves) (rule homes.hyps)
      show "\<And>h row. (h, row) \<in> set (live_homes (homeIncarnationTransition pred f db)) \<Longrightarrow>
          \<exists>row0. (h, row0) \<in> set (live_homes db) \<and> hr_Capabilities row = hr_Capabilities row0"
        by (rule live_homes_moves) (rule homes.hyps)
    qed simp_all
  qed
next
  case (home_touched db h row row')
  let ?db = "db\<lparr>db_homes := AList.update h row' (db_homes db)\<rparr>"
  have "int (length (live_homes ?db)) \<le> int (length (live_homes db))"
    using home_touched count_update [of "db_homes db" h "\<lambda>h row. hr_State row = HomeActive"
        "\<lambda>h row. hr_State row = HomeActive" row']
    by (auto simp: live_homes_def tables_wf_def keys_wf_def home_moves_def)
  moreover have "\<exists>row0. (h', row0) \<in> set (live_homes db) \<and> hr_Capabilities r = hr_Capabilities row0"
    if "(h', r) \<in> set (live_homes ?db)" for h' r
    using that home_touched.hyps
    by (fastforce simp: live_homes_def home_moves_def dest!: set_update dest: map_of_SomeD)
  ultimately show ?case
    using home_touched.prems by (auto simp: gate_enforced_def gate_count_def intro!: enforcing_homes [of db ?db])
next
  case (registered db h row)
  then show ?case
    by (auto simp: gate_enforced_def enforcing_def live_homes_def gate_count_def)
next
  case (accepted fp db m' db1)
  then have "gate_count db1 = gate_count db" "gate_count db > 0 \<longrightarrow> enforcing db1"
    by (auto simp: gate_enforced_def)
  with accepted.hyps(5) show ?case
    by (auto simp: gate_enforced_def intro!: enforcing_member_update)
next
  case (policy_changed models' db cred db' n row')
  have "gate_count db' = n"
    by (simp add: policy_changed.hyps(2) gate_count_def)
  moreover have "enforcing db" if "n > 0"
    using that policy_changed.hyps(4) policy_changed.prems(2) by (cases "n > gate_count db") (auto simp: gate_enforced_def)
  ultimately show ?case
    unfolding gate_enforced_def by (auto intro: enforcing_same simp: policy_changed.hyps(2))
next
  case (member_touched db fp m t)
  then show ?case
    using enforcing_protocol [of db fp m]
    by (auto simp: gate_enforced_def dest: map_of_SomeD intro!: enforcing_member_update)
next
  case (cancelled db fp m m' table)
  have "enforcing db \<Longrightarrow> enforcing ((db\<lparr>db_quiescence := table\<rparr>)\<lparr>db_members := AList.update fp m' (db_members db)\<rparr>)"
    using enforcing_member_update [of "db\<lparr>db_quiescence := table\<rparr>" m' fp] cancelled.hyps(3) by simp
  with cancelled.prems show ?case
    by (cases db) (auto simp: gate_enforced_def gate_count_def)
next
  case (closed db fp m)
  then show ?case
    using enforcing_member_update [of "db\<lparr>db_participations := ps, db_counters := cs\<rparr>" "m\<lparr>mb_State := MemberClosed\<rparr>" fp
      for ps cs] by (auto simp: gate_enforced_def)
qed (simp_all add: gate_enforced_def)


subsection \<open>Cancellations\<close>

text \<open>
  A membership being cancelled has one row for every Home that served its lifetime, and expects as many.
\<close>

definition row_keys :: "cluster_db \<Rightarrow> quiescence_key set" where
  "row_keys db = set (map fst (db_quiescence db))"

definition row_count :: "cluster_db \<Rightarrow> string \<Rightarrow> gotime \<Rightarrow> int \<Rightarrow> nat" where
  "row_count db fp c r = length (filter (\<lambda>(fp', c', r', h). fp' = fp \<and> c' = c \<and> r' = r)
     (map fst (db_quiescence db)))"

lemma length_quiescence_rows: "length (quiescence_rows db fp c r) = row_count db fp c r"
  by (simp add: quiescence_rows_def row_count_def filter_map comp_def split_def)

definition cancelling_wf :: "cluster_db \<Rightarrow> string \<Rightarrow> membership_row \<Rightarrow> bool" where
  "cancelling_wf db fp m \<longleftrightarrow>
     mb_ExpectedQuiescenceCount m = int (row_count db fp (mb_ConnectedAt m) (mb_CancelRevision m))
     \<and> 0 < mb_ExpectedQuiescenceCount m
     \<and> (\<forall>h\<in>set (quiescenceHomeCandidates db fp m).
          (fp, mb_ConnectedAt m, mb_CancelRevision m, h) \<in> row_keys db)"

definition cancellations_wf :: "cluster_db \<Rightarrow> bool" where
  "cancellations_wf db \<longleftrightarrow> (\<forall>fp m. map_of (db_members db) fp = Some m \<longrightarrow> mb_State m = MemberCanceling \<longrightarrow>
     cancelling_wf db fp m)"

lemma cancelling_wf_frame:
  assumes "map fst (db_quiescence db') = map fst (db_quiescence db)"
    "db_participations db' = db_participations db"
  shows "cancelling_wf db' = cancelling_wf db"
  using assms
  by (simp add: cancelling_wf_def row_count_def row_keys_def quiescenceHomeCandidates_def fun_eq_iff)

lemma cancellations_wf_frame:
  assumes "cancellations_wf db" "map fst (db_quiescence db') = map fst (db_quiescence db)"
    "db_participations db' = db_participations db" "db_members db' = db_members db"
  shows "cancellations_wf db'"
  using assms cancelling_wf_frame [OF assms(2,3)] by (simp add: cancellations_wf_def)

text \<open>Only the participations and rows of its own fingerprint matter for a membership.\<close>

lemma cancelling_wf_other:
  assumes "cancelling_wf db fp m"
    "\<And>c h. ((fp, c), h) \<in> set (db_participations db') \<Longrightarrow> ((fp, c), h) \<in> set (db_participations db)"
    "\<And>c r. row_count db' fp c r = row_count db fp c r"
    "\<And>c r h. (fp, c, r, h) \<in> row_keys db \<Longrightarrow> (fp, c, r, h) \<in> row_keys db'"
  shows "cancelling_wf db' fp m"
proof -
  have "h \<in> set (quiescenceHomeCandidates db fp m)" if "h \<in> set (quiescenceHomeCandidates db' fp m)" for h
    using that by (auto simp: candidates_set dest: assms(2))
  with assms(1,3,4) show ?thesis
    unfolding cancelling_wf_def by auto
qed

lemma quiescence_keys_update: "map_of t k \<noteq> None \<Longrightarrow> map fst (AList.update k v t) = map fst t"
  by (induction t) (auto split: if_splits)

lemma create_rows_append:
  "create_rows fp c r hs table = Some table' \<Longrightarrow> table' = table @ map (\<lambda>h. ((fp, c, r, h), QPending)) hs"
proof (induction hs arbitrary: table)
  case (Cons h hs)
  then have "create_rows fp c r hs (table @ [((fp, c, r, h), QPending)]) = Some table'"
    by (auto split: if_splits)
  from Cons.IH [OF this] show ?case
    by simp
qed simp

lemma row_count_append:
  assumes "db_quiescence db' = db_quiescence db @ map (\<lambda>h. ((fp, c, r, h), QPending)) hs" "fp' \<noteq> fp"
  shows "row_count db' fp' c' r' = row_count db fp' c' r'"
  using assms by (simp add: row_count_def filter_empty_conv)

lemma delete_lifetime_rows:
  assumes "fp' \<noteq> fp"
  shows "row_count (delete_lifetime (fp, c) db) fp' c' r' = row_count db fp' c' r'"
    "(fp', c', r', h) \<in> row_keys db \<Longrightarrow> (fp', c', r', h) \<in> row_keys (delete_lifetime (fp, c) db)"
proof -
  have "filter (\<lambda>((f, c, r, h), st). f = fp' \<and> c = c' \<and> r = r')
      (filter (\<lambda>((fp'', connectedAt, rv, h), st). (fp'', connectedAt) \<noteq> (fp, c)) t)
      = filter (\<lambda>((f, c, r, h), st). f = fp' \<and> c = c' \<and> r = r') t" for t :: "(quiescence_key \<times> quiescence_status) list"
    using assms by (induction t) auto
  then show "row_count (delete_lifetime (fp, c) db) fp' c' r' = row_count db fp' c' r'"
    by (simp add: row_count_def delete_lifetime_def filter_map comp_def split_def)
  show "(fp', c', r', h) \<in> row_keys db \<Longrightarrow> (fp', c', r', h) \<in> row_keys (delete_lifetime (fp, c) db)"
    using assms by (force simp: row_keys_def delete_lifetime_def)
qed

lemma cancellations_wfD:
  "cancellations_wf db \<Longrightarrow> map_of (db_members db) fp = Some m \<Longrightarrow> mb_State m = MemberCanceling \<Longrightarrow>
   cancelling_wf db fp m"
  by (simp add: cancellations_wf_def)

lemma step_cancellations_wf: "protocol_step db db' \<Longrightarrow> cancellations_wf db \<Longrightarrow> cancellations_wf db'"
proof (induction rule: protocol_step.induct)
  case (frame db db')
  then show ?case
    by (auto simp: same_view_def intro: cancellations_wf_frame)
next
  case (accepted fp db m' db1)
  let ?db = "db1\<lparr>db_members := AList.update fp m' (db_members db1)\<rparr>"
  show ?case
    unfolding cancellations_wf_def
  proof (intro allI impI)
    fix fp2 m
    assume m: "map_of (db_members ?db) fp2 = Some m" "mb_State m = MemberCanceling"
    have "fp2 \<noteq> fp"
      using m accepted.hyps(4) by auto
    moreover have "db_members db1 = db_members db"
      using accepted.hyps(8) by auto
    ultimately have "cancelling_wf db fp2 m"
      using m accepted.prems by (auto intro: cancellations_wfD)
    then show "cancelling_wf ?db fp2 m"
    proof (rule cancelling_wf_other)
      show "((fp2, c), h) \<in> set (db_participations ?db) \<Longrightarrow> ((fp2, c), h) \<in> set (db_participations db)" for c h
        using accepted.hyps(8) by (auto simp: delete_lifetime_def)
      show "row_count ?db fp2 c r = row_count db fp2 c r" for c r
      proof -
        have "row_count ?db fp2 c r = row_count db1 fp2 c r"
          by (simp add: row_count_def)
        then show ?thesis
          using accepted.hyps(8) delete_lifetime_rows(1) [OF \<open>fp2 \<noteq> fp\<close>] by auto
      qed
      show "(fp2, c, r, h) \<in> row_keys db \<Longrightarrow> (fp2, c, r, h) \<in> row_keys ?db" for c r h
      proof -
        assume "(fp2, c, r, h) \<in> row_keys db"
        moreover have "row_keys ?db = row_keys db1"
          by (simp add: row_keys_def)
        ultimately show ?thesis
          using accepted.hyps(8) delete_lifetime_rows(2) [OF \<open>fp2 \<noteq> fp\<close>] by auto
      qed
    qed
  qed
next
  case (member_touched db fp m t)
  let ?db = "db\<lparr>db_members := AList.update fp (m\<lparr>mb_LastSeenAt := t\<rparr>) (db_members db)\<rparr>"
  have "cancelling_wf ?db = cancelling_wf db"
    by (rule cancelling_wf_frame) simp_all
  moreover have "cancelling_wf db fp (m\<lparr>mb_LastSeenAt := t\<rparr>) = cancelling_wf db fp m"
    by (simp add: cancelling_wf_def quiescenceHomeCandidates_def)
  ultimately show ?case
    using member_touched by (auto simp: cancellations_wf_def)
next
  case (participated db fp c h)
  let ?db = "db\<lparr>db_participations := List.insert ((fp, c), h) (db_participations db)\<rparr>"
  show ?case
    unfolding cancellations_wf_def
  proof (intro allI impI)
    fix fp2 m2
    assume m2: "map_of (db_members ?db) fp2 = Some m2" "mb_State m2 = MemberCanceling"
    with participated.hyps(1) have "fp2 \<noteq> fp"
      by (auto simp: lifetime_active_def)
    from m2 participated.prems have "cancelling_wf db fp2 m2"
      by (auto intro: cancellations_wfD)
    then show "cancelling_wf ?db fp2 m2"
      by (rule cancelling_wf_other) (use \<open>fp2 \<noteq> fp\<close> in \<open>auto simp: row_count_def row_keys_def\<close>)
  qed
next
  case (cancelled db fp m m' table)
  let ?db = "db\<lparr>db_members := AList.update fp m' (db_members db), db_quiescence := table\<rparr>"
  note rows = create_rows_append [OF cancelled.hyps(7)]
  show ?case
    unfolding cancellations_wf_def
  proof (intro allI impI)
    fix fp2 m2
    assume m2: "map_of (db_members ?db) fp2 = Some m2" "mb_State m2 = MemberCanceling"
    show "cancelling_wf ?db fp2 m2"
    proof (cases "fp2 = fp")
      case True
      with m2 have [simp]: "m2 = m'" "fp2 = fp"
        by auto
      have cand: "quiescenceHomeCandidates ?db fp m' = quiescenceHomeCandidates db fp m"
        using cancelled.hyps by (simp add: quiescenceHomeCandidates_def)
      have count: "row_count ?db fp (mb_ConnectedAt m) (mb_CancelRevision m')
          = length (quiescenceHomeCandidates db fp m)"
        using cancelled.hyps(8) by (simp add: length_quiescence_rows row_count_def)
      have "trimmed_home (mb_Home m) \<in> set (quiescenceHomeCandidates db fp m)"
        by (simp add: candidates_set)
      then have "0 < length (quiescenceHomeCandidates db fp m)"
        by (cases "quiescenceHomeCandidates db fp m") auto
      moreover have "\<forall>h\<in>set (quiescenceHomeCandidates db fp m).
          (fp, mb_ConnectedAt m, mb_CancelRevision m', h) \<in> row_keys ?db"
        by (auto simp: row_keys_def rows)
      ultimately show ?thesis
        using count cancelled.hyps(4,6) unfolding cancelling_wf_def by (simp add: cand)
    next
      case False
      with m2 cancelled.prems have "cancelling_wf db fp2 m2"
        by (auto intro: cancellations_wfD)
      then show ?thesis
      proof (rule cancelling_wf_other)
        show "row_count ?db fp2 c r = row_count db fp2 c r" for c r
          by (rule row_count_append [OF _ False]) (simp add: rows)
      qed (auto simp: rows row_keys_def)
    qed
  qed
next
  case (acknowledged db key st)
  then show ?case
    by (intro cancellations_wf_frame [OF acknowledged.prems]) (simp_all add: quiescence_keys_update)
next
  case (row_fenced db h fp c r)
  then show ?case
    by (intro cancellations_wf_frame [OF row_fenced.prems]) (simp_all add: fence_row_def comp_def split_def)
next
  case (closed db fp m)
  show ?case
    unfolding cancellations_wf_def
  proof (intro allI impI)
    fix fp2 m2
    let ?db = "db\<lparr>db_participations := filter (\<lambda>(lt, h). lt \<noteq> (fp, mb_ConnectedAt m)) (db_participations db),
          db_counters := filter (\<lambda>((cred, model, fp'), c). fp' \<noteq> fp) (db_counters db),
          db_members := AList.update fp (m\<lparr>mb_State := MemberClosed\<rparr>) (db_members db)\<rparr>"
    assume m2: "map_of (db_members ?db) fp2 = Some m2" "mb_State m2 = MemberCanceling"
    then have "fp2 \<noteq> fp"
      by auto
    with m2 closed.prems have "cancelling_wf db fp2 m2"
      by (auto intro: cancellations_wfD)
    then show "cancelling_wf ?db fp2 m2"
      by (rule cancelling_wf_other) (simp_all add: row_count_def row_keys_def)
  qed
next
  case (policy_changed models' db cred db' n row')
  show ?case
    by (rule cancellations_wf_frame [OF policy_changed.prems]) (simp_all add: policy_changed.hyps(2))
qed (auto intro: cancellations_wf_frame simp: homeIncarnationTransition_def)


subsection \<open>Reachable states\<close>

lemma steps_keep:
  assumes "protocol_steps db db'" "tables_wf db"
  shows "gate_exact db \<Longrightarrow> gate_exact db'" "gate_enforced db \<Longrightarrow> gate_enforced db'"
    "cancellations_wf db \<Longrightarrow> cancellations_wf db'"
proof -
  have "(gate_exact db \<longrightarrow> gate_exact db') \<and> (gate_enforced db \<longrightarrow> gate_enforced db')
      \<and> (cancellations_wf db \<longrightarrow> cancellations_wf db')"
    using assms
  proof (induction rule: rtranclp_induct)
    case (step db1 db2)
    then have "tables_wf db1"
      using steps_tables_wf by blast
    with step show ?case
      using step_gate_exact step_gate_enforced step_cancellations_wf by blast
  qed simp
  then show "gate_exact db \<Longrightarrow> gate_exact db'" "gate_enforced db \<Longrightarrow> gate_enforced db'"
    "cancellations_wf db \<Longrightarrow> cancellations_wf db'"
    by blast+
qed

lemma empty_cluster_ok:
  "gate_exact (empty_cluster sqlite)" "gate_enforced (empty_cluster sqlite)"
  "cancellations_wf (empty_cluster sqlite)"
  by (simp_all add: gate_exact_def gate_enforced_def cancellations_wf_def empty_cluster_def gate_count_def
      active_credentials_def)

lemma reachable_ok:
  assumes "reachable db"
  shows "tables_wf db" "gate_exact db" "gate_enforced db" "cancellations_wf db"
  using reachable_protocol [OF assms] steps_keep [OF _ empty_cluster_wf] empty_cluster_ok by blast+

lemma reachable_steps: "reachable db \<Longrightarrow> cluster_step\<^sup>*\<^sup>* db db' \<Longrightarrow> reachable db'"
  unfolding reachable_def by (meson rtranclp_trans)

subsection \<open>Ended lifetimes\<close>

definition lifetime_ended :: "cluster_db \<Rightarrow> string \<Rightarrow> gotime \<Rightarrow> bool" where
  "lifetime_ended db fp c \<longleftrightarrow> (\<exists>m. map_of (db_members db) fp = Some m
     \<and> (c < mb_ConnectedAt m \<or> c = mb_ConnectedAt m \<and> mb_State m \<noteq> MemberActive))"

lemma lifetime_ended_same: "db_members db' = db_members db \<Longrightarrow> lifetime_ended db' = lifetime_ended db"
  by (simp add: lifetime_ended_def fun_eq_iff)

lemma ended_update:
  assumes "lifetime_ended db fp c" "map_of (db_members db) fp' = Some m" "mb_ConnectedAt m' = mb_ConnectedAt m"
    "mb_State m \<noteq> MemberActive \<Longrightarrow> mb_State m' \<noteq> MemberActive"
    "db_members db' = AList.update fp' m' (db_members db)"
  shows "lifetime_ended db' fp c"
  using assms by (auto simp: lifetime_ended_def)

lemma step_ended: "protocol_step db db' \<Longrightarrow> 0 < c \<Longrightarrow> lifetime_ended db fp c \<Longrightarrow> lifetime_ended db' fp c"
proof (induction rule: protocol_step.induct)
  case (accepted fp' db m' db1)
  then have "db_members db1 = db_members db"
    by auto
  with accepted.hyps(3) accepted.prems show ?case
    by (force simp: lifetime_ended_def)
next
  case (member_touched db fp' m t)
  show ?case
    by (rule ended_update [OF member_touched.prems(2) member_touched.hyps]) simp_all
next
  case (cancelled db fp' m m' table)
  show ?case
    by (rule ended_update [OF cancelled.prems(2) cancelled.hyps(1,4)]) (simp_all add: cancelled.hyps(3))
next
  case (closed db fp' m)
  show ?case
    by (rule ended_update [OF closed.prems(2) closed.hyps(1)]) simp_all
next
  case (policy_changed models' db cred db' n row')
  have "db_members db' = db_members db"
    by (simp add: policy_changed.hyps(2))
  with policy_changed.prems(2) show ?case
    by (simp add: lifetime_ended_def)
next
  case (frame db db')
  then show ?case
    using lifetime_ended_same [of db' db] by (simp add: same_view_def)
qed (simp_all add: lifetime_ended_def fence_row_def)

lemma ended_for_ever:
  assumes "cluster_step\<^sup>*\<^sup>* db db'" "tables_wf db" "0 < c" "lifetime_ended db fp c"
  shows "lifetime_ended db' fp c"
proof -
  have "protocol_steps db db'"
    using cluster_steps_refine assms(1,2) by blast
  then show ?thesis
    using assms(3,4) by (induction rule: rtranclp_induct) (auto intro: step_ended)
qed

lemma ended_refused:
  assumes "lifetime_ended db (trim_space (cl_Fingerprint lt)) (cl_ConnectedAt lt)"
  shows "LockActiveConcurrencyLifetimeTx lt db = Some NodeUnavailable"
  using assms by (auto simp: lifetime_ended_def LockActiveConcurrencyLifetimeTx_def Let_def)

lemma refused_admission:
  assumes "LockActiveConcurrencyLifetimeTx (ad_Lifetime req) db = Some e"
  shows "\<exists>result ty cause. AdmitCredentialConcurrency req now uuid db
    = (db, result, Some (AdmissionError ty cause))"
  using assms by (auto simp: AdmitCredentialConcurrency_def Let_def split: prod.splits)

lemma refused_release:
  assumes "LockActiveConcurrencyLifetimeTx (rl_Lifetime rel) db = Some e"
  shows "\<exists>e. ApplyConcurrencyRelease rel db = Inl e"
  using assms by (auto simp: ApplyConcurrencyRelease_def applyConcurrencyReleaseTx_def Let_def
      split: prod.splits)

subsection \<open>Closing a membership\<close>

lemma complete_result:
  assumes "completeFingerprintCancellationTx fp r c db = Inr (x, db')" "trim_space fp = fp"
  shows "\<exists>m. map_of (db_members db) fp = Some m \<and> mb_State m = MemberCanceling \<and> mb_CancelRevision m = r
    \<and> mb_ConnectedAt m = c \<and> (\<forall>h st. ((fp, c, r, h), st) \<in> set (db_quiescence db) \<longrightarrow> st = QAcknowledged \<or> st = QFenced)
    \<and> db' = db\<lparr>db_participations := filter (\<lambda>(lt, h). lt \<noteq> (fp, c)) (db_participations db),
          db_counters := filter (\<lambda>((cred, model, fp'), n). fp' \<noteq> fp) (db_counters db),
          db_members := AList.update fp (m\<lparr>mb_State := MemberClosed\<rparr>) (db_members db)\<rparr>"
  using assms
  by (fastforce simp: completeFingerprintCancellationTx_def DeleteFingerprintConcurrencyCountersTx_def Let_def
      list_ex_iff quiescence_rows_mem split: option.splits if_splits)

lemma closed_result:
  assumes "completeFingerprintCancellationTx fp r c db = Inr (x, db')" "tables_wf db" "cancellations_wf db"
    "trim_space fp = fp" "map_of (db_members db) fp = Some m" "h \<in> set (quiescenceHomeCandidates db fp m)"
  shows "map_of (db_quiescence db') (fp, c, r, h) = Some QAcknowledged
    \<or> map_of (db_quiescence db') (fp, c, r, h) = Some QFenced \<and> home_fenced db' h"
proof -
  from complete_result [OF assms(1,4)] assms(5)
  have m: "mb_State m = MemberCanceling" "mb_CancelRevision m = r" "mb_ConnectedAt m = c"
    and rows: "\<forall>h st. ((fp, c, r, h), st) \<in> set (db_quiescence db) \<longrightarrow> st = QAcknowledged \<or> st = QFenced"
    and same: "db_quiescence db' = db_quiescence db" "db_homes db' = db_homes db"
    by auto
  have "(fp, c, r, h) \<in> row_keys db"
    using cancellations_wfD [OF assms(3,5) m(1)] assms(6) m by (auto simp: cancelling_wf_def)
  then obtain st where st: "map_of (db_quiescence db) (fp, c, r, h) = Some st"
    by (metis row_keys_def list.set_map map_of_eq_None_iff option.exhaust)
  with rows tables_wfD(4) [OF assms(2) map_of_SomeD [OF st]] have "st = QAcknowledged \<or> st = QFenced \<and> home_fenced db h"
    by (auto simp: row_wf_def dest: map_of_SomeD)
  with st same show ?thesis
    by (auto simp: home_fenced_def)
qed

lemma resolve_row_keeps:
  "resolveQuiescenceHomeRowTx fp c r lc now reason h db = Inr (x, db') \<Longrightarrow>
   db_members db' = db_members db \<and> db_participations db' = db_participations db
   \<and> db_counters db' = db_counters db \<and> db_lifecycle db' = db_lifecycle db"
  by (auto simp: resolveQuiescenceHomeRowTx_def Let_def fence_row_def homeIncarnationTransition_def
      split: option.splits if_splits)

lemma resolve_keeps:
  "resolveQuiescenceHomeEligibilityTx fp c r lc now reason hs db = Inr (x, db') \<Longrightarrow>
   db_members db' = db_members db \<and> db_participations db' = db_participations db
   \<and> db_counters db' = db_counters db \<and> db_lifecycle db' = db_lifecycle db"
proof (induction hs arbitrary: db)
  case (Cons h hs)
  then obtain db1 where one: "resolveQuiescenceHomeRowTx fp c r lc now reason h db = Inr ((), db1)"
    and rest: "resolveQuiescenceHomeEligibilityTx fp c r lc now reason hs db1 = Inr (x, db')"
    by (auto split: sum.splits)
  from Cons.IH [OF rest] resolve_row_keeps [OF one] show ?case
    by simp
qed simp

lemma recover_result:
  assumes "recoverStaleMembershipQuiescence fp c r now db = Inr (True, db')"
  shows "\<exists>lc hs reason db1. resolveQuiescenceHomeEligibilityTx fp c r lc now reason hs db = Inr ((), db1)
    \<and> completeFingerprintCancellationTx fp r c db1 = Inr ((), db')"
  using assms unfolding recoverStaleMembershipQuiescence_def Let_def
  by (auto split: option.splits if_splits sum.splits) blast

lemma recover_closed_result:
  assumes "recoverStaleMembershipQuiescence fp c r now db = Inr (True, db')" "tables_wf db" "cancellations_wf db"
  shows "\<exists>m. map_of (db_members db) fp = Some m \<and> mb_State m = MemberCanceling \<and> mb_ConnectedAt m = c
    \<and> (\<forall>h\<in>set (quiescenceHomeCandidates db fp m).
         map_of (db_quiescence db') (fp, c, r, h) = Some QAcknowledged
         \<or> map_of (db_quiescence db') (fp, c, r, h) = Some QFenced \<and> home_fenced db' h)"
proof -
  from recover_result [OF assms(1)] obtain lc hs reason db1 where
    res: "resolveQuiescenceHomeEligibilityTx fp c r lc now reason hs db = Inr ((), db1)"
    and fin: "completeFingerprintCancellationTx fp r c db1 = Inr ((), db')"
    by blast
  have steps: "protocol_steps db db1"
    by (rule resolve_steps [OF res])
  have wf: "tables_wf db1" "cancellations_wf db1"
    using steps_tables_wf [OF steps assms(2)] steps_keep(3) [OF steps assms(2,3)] by simp_all
  from fin obtain m where m: "map_of (db_members db1) fp = Some m"
    by (auto simp: completeFingerprintCancellationTx_def split: option.splits)
  then have fp: "trim_space fp = fp"
    using member_ok [OF wf(1)] by (auto simp: member_wf_def)
  have same: "quiescenceHomeCandidates db1 fp m = quiescenceHomeCandidates db fp m"
    using resolve_keeps [OF res] by (simp add: quiescenceHomeCandidates_def)
  from complete_result [OF fin fp] closed_result [OF fin wf fp m] m same resolve_keeps [OF res] show ?thesis
    by auto
qed

end
