(* ===== verification/Cluster_Limits.thy ===== *)
theory Cluster_Limits
  imports Cluster_Safety
begin

section \<open>What the limits guarantee\<close>

text \<open>
  The properties of the protocol over all sequences of transactions: a count only rises by an admission
  that has room for it, what an admission and a release change, what ending a lifetime leaves, and that
  a cancellation whose Homes have gone silent is completed by the recovery.
\<close>

subsection \<open>Counts\<close>

lemma sum_update:
  fixes f :: "'k \<times> 'v \<Rightarrow> int"
  assumes "gomap_wf t"
  shows "sum_list (map f (AList.update k v t)) = sum_list (map f t) + f (k, v)
    - (case map_of t k of None \<Rightarrow> 0 | Some old \<Rightarrow> f (k, old))"
  using assms
proof (induction t)
  case (Cons e t)
  show ?case
  proof (cases "fst e = k")
    case True
    then have "map_of t k = None"
      using Cons.prems by (simp add: map_of_eq_None_iff)
    with True show ?thesis
      by (cases e) simp
  next
    case False
    with Cons show ?thesis
      by (cases e) simp
  qed
qed simp

lemma sum_filter_le:
  fixes f :: "'a \<Rightarrow> int"
  assumes "\<And>x. x \<in> set t \<Longrightarrow> 0 \<le> f x"
  shows "sum_list (map f (filter P t)) \<le> sum_list (map f t)"
  using assms by (induction t) (auto simp: add_increasing)

definition credential_share :: "string \<Rightarrow> (string \<times> string \<times> string) \<times> counter_row \<Rightarrow> int" where
  "credential_share cred = (\<lambda>((c, model, fp), row). if c = cred then ct_ActiveCount row else 0)"

definition model_share :: "string \<Rightarrow> string \<Rightarrow> (string \<times> string \<times> string) \<times> counter_row \<Rightarrow> int" where
  "model_share cred model =
     (\<lambda>((c, m, fp), row). if c = cred \<and> m = model then ct_ActiveCount row else 0)"

lemma in_flight_sum: "in_flight db cred = sum_list (map (credential_share cred) (db_counters db))"
proof -
  have "sum_list (map snd (map (\<lambda>((c, model, fp), row). (model, ct_ActiveCount row))
        (filter (\<lambda>((c, model, fp), row). c = cred) t))) = sum_list (map (credential_share cred) t)" for t
    by (induction t) (auto simp: credential_share_def)
  then show ?thesis
    by (simp add: in_flight_def credential_counters_def)
qed

lemma model_count_sum: "model_count db cred model = sum_list (map (model_share cred model) (db_counters db))"
proof -
  have "sum_list (map (\<lambda>(m, n). if m = model then n else 0)
        (map (\<lambda>((c, model, fp), row). (model, ct_ActiveCount row))
        (filter (\<lambda>((c, model, fp), row). c = cred) t))) = sum_list (map (model_share cred model) t)" for t
    by (induction t) (auto simp: model_share_def)
  then show ?thesis
    by (simp add: model_count_def credential_counters_def)
qed

lemmas counts = in_flight_sum model_count_sum

lemma counts_same:
  "db_counters db' = db_counters db \<Longrightarrow> in_flight db' cred = in_flight db cred"
  "db_counters db' = db_counters db \<Longrightarrow> model_count db' cred model = model_count db cred model"
  by (simp_all add: counts)

lemma counts_update:
  assumes "tables_wf db" "db_counters db' = AList.update (c, m, fp) row' (db_counters db)"
    "row = (case map_of (db_counters db) (c, m, fp) of
       None \<Rightarrow> \<lparr>ct_ActiveCount = 0, ct_LastReleaseSeq = 0\<rparr> | Some r \<Rightarrow> r)"
  shows "in_flight db' cred = in_flight db cred
      + (if c = cred then ct_ActiveCount row' - ct_ActiveCount row else 0)"
    "model_count db' cred model = model_count db cred model
      + (if c = cred \<and> m = model then ct_ActiveCount row' - ct_ActiveCount row else 0)"
proof -
  have "gomap_wf (db_counters db)"
    using assms(1) by (simp add: tables_wf_def keys_wf_def)
  note sum = sum_update [OF this, of _ "(c, m, fp)" row']
  show "in_flight db' cred = in_flight db cred
      + (if c = cred then ct_ActiveCount row' - ct_ActiveCount row else 0)"
    unfolding in_flight_sum assms(2,3) sum by (auto simp: credential_share_def split: option.splits)
  show "model_count db' cred model = model_count db cred model
      + (if c = cred \<and> m = model then ct_ActiveCount row' - ct_ActiveCount row else 0)"
    unfolding model_count_sum assms(2,3) sum by (auto simp: model_share_def split: option.splits)
qed

text \<open>The operations that do not admit leave the counts or lower them.\<close>

definition counts_le :: "cluster_db \<Rightarrow> cluster_db \<Rightarrow> bool" where
  "counts_le db db' \<longleftrightarrow> (\<forall>cred. in_flight db' cred \<le> in_flight db cred)
     \<and> (\<forall>cred model. model_count db' cred model \<le> model_count db cred model)"

lemma counts_le_same: "db_counters db' = db_counters db \<Longrightarrow> counts_le db db'"
  by (simp add: counts_le_def counts)

lemma counts_le_trans: "counts_le db db1 \<Longrightarrow> counts_le db1 db' \<Longrightarrow> counts_le db db'"
  unfolding counts_le_def by (meson order_trans)

lemma counts_le_filter:
  assumes "tables_wf db" "db_counters db' = filter P (db_counters db)"
  shows "counts_le db db'"
proof -
  have "0 \<le> credential_share cred e" "0 \<le> model_share cred model e" if "e \<in> set (db_counters db)" for e cred model
    using assms(1) that
    by (auto simp: tables_wf_def counter_wf_def credential_share_def model_share_def split: prod.splits)
  then show ?thesis
    unfolding counts_le_def counts assms(2) by (auto intro: sum_filter_le)
qed

subsection \<open>Operations that do not admit\<close>

lemma counters_gate: "lockConcurrencyActivationGate db = (gate, db') \<Longrightarrow> db_counters db' = db_counters db"
  by (auto simp: lockConcurrencyActivationGate_def Let_def)

lemma counters_lifecycle: "homeIncarnationLifecycleConfig db = Inr (lc, db') \<Longrightarrow> db_counters db' = db_counters db"
  by (auto simp: homeIncarnationLifecycleConfig_def ensureLifecycleConfigTx_def Let_def
      split: option.splits if_splits)

lemma counters_expire: "expireStaleHomeIncarnations h now db = Inr (x, db') \<Longrightarrow> db_counters db' = db_counters db"
  by (auto simp: expireStaleHomeIncarnations_def Let_def split: if_splits)

lemma counters_register:
  "RegisterHomeIncarnation ip port caps t t' db = Inr (h, db') \<Longrightarrow> db_counters db' = db_counters db"
  by (auto simp: RegisterHomeIncarnation_def Let_def dest!: counters_gate counters_lifecycle counters_expire
      split: if_splits prod.splits sum.splits)

lemma counters_home:
  "HeartbeatHomeIncarnation h t db = Inr (x, db') \<Longrightarrow> db_counters db' = db_counters db"
  "RetireHomeIncarnation h t db = Inr (x, db') \<Longrightarrow> db_counters db' = db_counters db"
  "FenceHomeIncarnation h reason t db = Inr (x, db') \<Longrightarrow> db_counters db' = db_counters db"
  by (auto simp: HeartbeatHomeIncarnation_def RetireHomeIncarnation_def FenceHomeIncarnation_def
      updateHomeIncarnation_def update_active_home_def split: option.splits if_splits)

lemma counters_configure:
  "updateLifecycleConfigTx parse h cfg db = Inr (r, db') \<Longrightarrow> db_counters db' = db_counters db"
  using updateLifecycleConfigTx_safe [of parse h cfg db r db'] by auto

lemma counters_subscribe:
  "SubscribeMembership request t db = Inr (m', db') \<Longrightarrow> db_counters db' = db_counters db"
  by (auto simp: SubscribeMembership_def Let_def dest!: counters_gate
      split: if_splits prod.splits sum.splits option.splits)

lemma counters_connect:
  "ClassifyConnection fp home db = Inr (lifetime, db') \<Longrightarrow> db_counters db' = db_counters db"
  "RefreshCPALiveness lt t db = Inr (x, db') \<Longrightarrow> db_counters db' = db_counters db"
  by (auto simp: ClassifyConnection_def RecordParticipation_def RefreshCPALiveness_def Let_def
      split: if_splits prod.splits sum.splits option.splits)

lemma counters_begin:
  "beginFingerprintCancellationForMembershipTx fp m now db = Inr (r, db') \<Longrightarrow> db_counters db' = db_counters db"
  by (auto simp: beginFingerprintCancellationForMembershipTx_def createAndLockQuiescenceRowsTx_def
      appendEvent_def Let_def dest!: resolve_keeps split: if_splits prod.splits sum.splits option.splits)

lemma counters_cancel:
  "BeginFingerprintCancellation fp now db = Inr (r, db') \<Longrightarrow> db_counters db' = db_counters db"
  "BeginFingerprintCancellationForLifetime lifetime now db = Inr (r, db') \<Longrightarrow> db_counters db' = db_counters db"
  "cleanupStaleMembership fp timeout now db = Inr (x, db') \<Longrightarrow> db_counters db' = db_counters db"
  by (auto simp: BeginFingerprintCancellation_def BeginFingerprintCancellationForLifetime_def
      cleanupStaleMembership_def Let_def dest: counters_begin split: option.splits if_splits sum.splits)

lemma counters_acknowledge:
  "AcknowledgeQuiescence fp c r home db = Inr (x, db') \<Longrightarrow> db_counters db' = db_counters db"
  by (auto simp: AcknowledgeQuiescence_def Let_def split: option.splits if_splits)

lemma counters_complete:
  "completeFingerprintCancellationTx fp r c db = Inr (x, db') \<Longrightarrow>
   \<exists>P. db_counters db' = filter P (db_counters db)"
  by (auto simp: completeFingerprintCancellationTx_def DeleteFingerprintConcurrencyCountersTx_def Let_def
      split: option.splits if_splits)

lemma counters_complete_cancellation:
  "CompleteFingerprintCancellation fp c r db = Inr (x, db') \<Longrightarrow> \<exists>P. db_counters db' = filter P (db_counters db)"
  by (auto simp: CompleteFingerprintCancellation_def Let_def dest: counters_complete split: if_splits)

lemma counters_recover:
  assumes "recoverStaleMembershipQuiescence fp c r now db = Inr (x, db')"
  shows "\<exists>P. db_counters db' = filter P (db_counters db)"
proof (cases "db' = db")
  case True
  then show ?thesis
    by (intro exI [of _ "\<lambda>_. True"]) simp
next
  case False
  with assms obtain lc pending db1 where
    res: "resolveQuiescenceHomeEligibilityTx fp c r lc now
      ''CPA fingerprint cancellation recovery'' pending db = Inr ((), db1)"
    and fin: "db' = db1 \<or> completeFingerprintCancellationTx fp r c db1 = Inr ((), db')"
    by (auto simp: recoverStaleMembershipQuiescence_def Let_def split: option.splits sum.splits if_splits)
  have "db_counters db1 = db_counters db"
    using resolve_keeps [OF res] by simp
  moreover have "\<exists>P. db_counters db1 = filter P (db_counters db1)"
    by (intro exI [of _ "\<lambda>_. True"]) simp
  ultimately show ?thesis
    using fin counters_complete [of fp r c db1 "()" db'] by auto
qed

lemma counters_move_gate: "move_gate a b db = Inr db' \<Longrightarrow> db_counters db' = db_counters db"
  by (auto simp: move_gate_def Let_def split: if_splits)

lemma counters_apply:
  "apply_policy_patch cred p barrier row models now db = Inr (x, db') \<Longrightarrow> db_counters db' = db_counters db"
  by (auto simp: apply_policy_patch_def appendEvent_def replace_models_def Let_def dest!: counters_move_gate
      split: sum.splits if_splits)

lemma counters_verify:
  "verifyConcurrencyPolicyActivation h now db = Inr (x, db') \<Longrightarrow> db_counters db' = db_counters db"
  by (auto simp: verifyConcurrencyPolicyActivation_def dest!: counters_expire split: sum.splits if_splits)

lemma counters_scoped_patch:
  assumes "patchCredentialConcurrencyPolicyWithAuthScopeTx cred patch expected retired t t' db = Inr (x, db')"
  shows "db_counters db' = db_counters db"
proof -
  from assms obtain lc db1 where l: "homeIncarnationLifecycleConfig db = Inr (lc, db1)"
    by (auto simp: patchCredentialConcurrencyPolicyWithAuthScopeTx_def Let_def
        split: if_splits option.splits sum.splits)
  with assms obtain p where p: "normalizeConcurrencyPolicyPatch patch (cc_MaxLimit (lifecycleConfigFromRecord lc)) = Inr p"
    by (auto simp: patchCredentialConcurrencyPolicyWithAuthScopeTx_def Let_def
        split: if_splits option.splits sum.splits)
  with assms l obtain y db2 where v: "(if concurrencyPolicyPatchCanActivate p
      then verifyConcurrencyPolicyActivation (lr_NodeHeartbeatTimeout lc) t db1 else Inr ((), db1)) = Inr (y, db2)"
    by (auto simp: patchCredentialConcurrencyPolicyWithAuthScopeTx_def Let_def
        split: if_splits option.splits sum.splits)
  have "db_counters db2 = db_counters db"
    using v counters_verify counters_lifecycle [OF l] by (fastforce split: if_splits)
  with assms l p v show ?thesis
    unfolding patchCredentialConcurrencyPolicyWithAuthScopeTx_def Let_def
    by (auto dest!: counters_apply split: if_splits option.splits)
qed

lemma counters_patch:
  "PatchCredentialConcurrencyPolicy cred patch expected t t' db = Inr (p, db') \<Longrightarrow> db_counters db' = db_counters db"
  by (auto simp: PatchCredentialConcurrencyPolicy_def Let_def dest!: counters_scoped_patch counters_gate
      split: if_splits option.splits prod.splits)

lemma counters_import_loop: "import_loop policies clock creds db = Inr (x, db') \<Longrightarrow> db_counters db' = db_counters db"
proof (induction creds arbitrary: db)
  case (Cons cred creds)
  then obtain y db1 p retired where
    "patchCredentialConcurrencyPolicyWithAuthScopeTx cred p None retired (fst (clock cred)) (snd (clock cred)) db
      = Inr (y, db1)" "import_loop policies clock creds db1 = Inr (x, db')"
    by (auto simp: Let_def split: if_splits sum.splits prod.splits)
  with Cons.IH [of db1] counters_scoped_patch show ?case
    by simp
qed simp

lemma counters_import:
  "ImportCredentialConcurrencyPolicies document clock db = Inr (x, db') \<Longrightarrow> db_counters db' = db_counters db"
  by (auto simp: ImportCredentialConcurrencyPolicies_def Let_def dest!: counters_import_loop counters_gate
      split: if_splits option.splits prod.splits sum.splits)


subsection \<open>Admissions\<close>

lemma same_limits:
  assumes "same_view db db'"
  shows "credential_limit db' = credential_limit db" "model_limit db' = model_limit db"
    "in_flight db' = in_flight db" "model_count db' = model_count db" "lifetime_active db' = lifetime_active db"
  using assms
  by (auto simp: same_view_def credential_limit_def model_limit_def loadCredentialConcurrencyModels_def
      counts lifetime_active_def fun_eq_iff)

lemma admission_result:
  assumes "AdmitCredentialConcurrency req now uuid db = (db', result, None)" "tables_wf db"
  shows "\<exists>db1. admit_session (ad_SessionAffinity req) (trim_space (ad_CredentialID req)) now uuid db = Inr db1
    \<and> db_sessions db' = db_sessions db1
    \<and> as_CredentialID result = trim_space (ad_CredentialID req)
    \<and> as_Model result = fst (ValidCanonicalConcurrencyModelKey (ad_Model req))
    \<and> in_flight db' c = in_flight db c + of_bool (as_Accounted result \<and> c = as_CredentialID result)
    \<and> model_count db' c m = model_count db c m
        + of_bool (as_Accounted result \<and> c = as_CredentialID result \<and> m = as_Model result)
    \<and> (\<not> as_Accounted result \<longrightarrow> credential_limit db (as_CredentialID result) = 0
        \<and> model_limit db (as_CredentialID result) (as_Model result) = 0)
    \<and> (as_Accounted result \<longrightarrow>
        (credential_limit db (as_CredentialID result) > 0 \<longrightarrow>
           in_flight db (as_CredentialID result) < credential_limit db (as_CredentialID result))
        \<and> (model_limit db (as_CredentialID result) (as_Model result) > 0 \<longrightarrow>
           model_count db (as_CredentialID result) (as_Model result)
             < model_limit db (as_CredentialID result) (as_Model result)))"
proof -
  obtain model valid where model: "ValidCanonicalConcurrencyModelKey (ad_Model req) = (model, valid)"
    by (cases "ValidCanonicalConcurrencyModelKey (ad_Model req)") auto
  let ?cred = "trim_space (ad_CredentialID req)" and ?fp = "trim_space (cl_Fingerprint (ad_Lifetime req))"
  have res: "as_CredentialID result = ?cred" "as_Model result = model"
    using assms(1) model
    by (auto simp: AdmitCredentialConcurrency_def Let_def split: if_splits option.splits sum.splits)
  from admit_cases [OF assms(1) model] obtain db1 where
    view: "same_view db db1" and session: "admit_session (ad_SessionAffinity req) ?cred now uuid db = Inr db1"
    and counted: "admit_counted ?cred model (credential_limit db1 ?cred) (model_limit db1 ?cred model)
      (ad_ProtocolVersion req) ?fp db1 = Inr (as_Accounted result, db')"
    by auto
  note same = same_limits [OF view]
  have wf: "tables_wf db1"
    by (rule same_view_wf [OF view assms(2)])
  show ?thesis
  proof (cases "as_Accounted result")
    case False
    with admit_counted_cases [OF counted] have "db' = db1" "credential_limit db1 ?cred = 0" "model_limit db1 ?cred model = 0"
      by auto
    with False session model show ?thesis
      by (auto simp: same res)
  next
    case True
    with admit_counted_cases [OF counted] obtain row where
      room: "credential_limit db1 ?cred > 0 \<longrightarrow> in_flight db1 ?cred < credential_limit db1 ?cred"
      "model_limit db1 ?cred model > 0 \<longrightarrow> model_count db1 ?cred model < model_limit db1 ?cred model"
      and row: "row = (case map_of (db_counters db1) (?cred, model, ?fp) of
              None \<Rightarrow> \<lparr>ct_ActiveCount = 0, ct_LastReleaseSeq = 0\<rparr> | Some r \<Rightarrow> r)"
      and db': "db' = db1\<lparr>db_counters := AList.update (?cred, model, ?fp)
                 (row\<lparr>ct_ActiveCount := ct_ActiveCount row + 1\<rparr>) (db_counters db1)\<rparr>"
      by auto
    have "db_counters db' = AList.update (?cred, model, ?fp)
        (row\<lparr>ct_ActiveCount := ct_ActiveCount row + 1\<rparr>) (db_counters db1)"
      by (simp add: db')
    note counts_update [OF wf this row]
    moreover have "db_sessions db' = db_sessions db1"
      by (simp add: db')
    ultimately show ?thesis
      using True room session model by (auto simp: same res)
  qed
qed

lemma admission_refused:
  "AdmitCredentialConcurrency req now uuid db = (db', result, Some e) \<Longrightarrow>
   db' = db \<and> \<not> as_Accounted result"
  using admit_cases [of req now uuid db db' result "Some e"]
  by (cases "ValidCanonicalConcurrencyModelKey (ad_Model req)") auto

lemma release_counts:
  assumes "ApplyConcurrencyRelease rel db = Inr (x, db')" "is_i64 (rl_ReleaseSeq rel)" "tables_wf db"
  shows "counts_le db db'"
proof (cases "db' = db")
  case False
  let ?fp = "trim_space (cl_Fingerprint (rl_Lifetime rel))"
  from assms(1) False obtain cred model row where
    row: "map_of (db_counters db) (cred, model, ?fp) = Some row"
    and delta: "\<not> wrap64 (rl_ReleaseSeq rel - ct_LastReleaseSeq row) \<le> 0"
    and db': "db_counters db' = AList.update (cred, model, ?fp)
        \<lparr>ct_ActiveCount = ct_ActiveCount row - wrap64 (rl_ReleaseSeq rel - ct_LastReleaseSeq row),
         ct_LastReleaseSeq = rl_ReleaseSeq rel\<rparr> (db_counters db)"
    by (auto simp: ApplyConcurrencyRelease_def applyConcurrencyReleaseTx_def lockConcurrencyCounterTx_def Let_def
        split: if_splits option.splits sum.splits prod.splits)
  have "row = (case map_of (db_counters db) (cred, model, ?fp) of
       None \<Rightarrow> \<lparr>ct_ActiveCount = 0, ct_LastReleaseSeq = 0\<rparr> | Some r \<Rightarrow> r)"
    by (simp add: row)
  with counts_update [OF assms(3) db'] delta show ?thesis
    by (auto simp: counts_le_def)
qed (simp add: counts_le_same)

text \<open>Every transaction leaves the counts, lowers them, or is an accounted admission.\<close>

lemma step_counts:
  assumes "cluster_step db db'" "tables_wf db"
  shows "counts_le db db' \<or> (\<exists>req now uuid result.
    AdmitCredentialConcurrency req now uuid db = (db', result, None) \<and> as_Accounted result)"
  using assms
proof (cases rule: cluster_step.cases)
  case (complete fp c r x)
  then obtain P where "db_counters db' = filter P (db_counters db)"
    using counters_complete_cancellation by blast
  with counts_le_filter [OF assms(2)] show ?thesis
    by blast
next
  case (recover fp c r t finished)
  then obtain P where "db_counters db' = filter P (db_counters db)"
    using counters_recover by blast
  with counts_le_filter [OF assms(2)] show ?thesis
    by blast
next
  case (admit req t uuid result err)
  show ?thesis
  proof (cases err)
    case None
    with admit have admitted: "AdmitCredentialConcurrency req t uuid db = (db', result, None)"
      by simp
    show ?thesis
    proof (cases "as_Accounted result")
      case True
      with admitted show ?thesis
        by blast
    next
      case False
      then have "in_flight db' c = in_flight db c \<and> model_count db' c m = model_count db c m" for c m
        using admission_result [OF admitted assms(2), of c m] by auto
      then show ?thesis
        by (simp add: counts_le_def)
    qed
  next
    case (Some e)
    with admit admission_refused have "db' = db"
      by blast
    then show ?thesis
      by (simp add: counts_le_same)
  qed
next
  case (release rel x)
  with release_counts assms(2) show ?thesis
    by blast
qed (simp_all add: counts_le_same counters_register counters_home counters_configure counters_subscribe
    counters_connect counters_cancel counters_acknowledge counters_patch counters_import)

subsection \<open>Releases\<close>

fun apply_releases :: "release_request list \<Rightarrow> cluster_db \<Rightarrow> cluster_db" where
  "apply_releases [] db = db"
| "apply_releases (rel # rels) db = apply_releases rels (fst (run_tx (ApplyConcurrencyRelease rel) db))"

definition release_of :: "string \<Rightarrow> string \<Rightarrow> connection_lifetime \<Rightarrow> int \<Rightarrow> release_request" where
  "release_of cred model lt s =
     \<lparr>rl_CredentialID = cred, rl_Model = model, rl_ReleaseSeq = s, rl_Lifetime = lt\<rparr>"

lemma release_effect:
  assumes "LockActiveConcurrencyLifetimeTx lt db = None" "trim_space cred = cred" "cred \<noteq> []"
    "ValidCanonicalConcurrencyModelKey model = (model, True)" "is_i64 s"
    "map_of (db_counters db) (cred, model, trim_space (cl_Fingerprint lt)) = Some row" "counter_wf row"
  shows "fst (run_tx (ApplyConcurrencyRelease (release_of cred model lt s)) db) =
    (if ct_LastReleaseSeq row < s \<and> s \<le> ct_LastReleaseSeq row + ct_ActiveCount row
     then db\<lparr>db_counters := AList.update (cred, model, trim_space (cl_Fingerprint lt))
       \<lparr>ct_ActiveCount = ct_LastReleaseSeq row + ct_ActiveCount row - s, ct_LastReleaseSeq = s\<rparr> (db_counters db)\<rparr>
     else db)"
proof (cases "0 < s")
  case True
  let ?key = "(cred, model, trim_space (cl_Fingerprint lt))"
  have w: "wrap64 (s - ct_LastReleaseSeq row) = s - ct_LastReleaseSeq row"
    using assms(5,7) True by (intro wrap64_id) (auto simp: counter_wf_def i64_simps)
  have valid: "\<not> (ct_ActiveCount row < 0 \<or> ct_LastReleaseSeq row < 0)" "\<not> s \<le> 0"
    using assms(7) True by (auto simp: counter_wf_def)
  have lock: "lockConcurrencyPolicyTx cred db = Inr (map_of (db_policies db) cred)"
    "lockConcurrencyCounterTx cred model (trim_space (cl_Fingerprint lt)) db = Inr row"
    using assms(2,3,6) by (simp_all add: lockConcurrencyPolicyTx_def lockConcurrencyCounterTx_def)
  have fields: "rl_CredentialID (release_of cred model lt s) = cred" "rl_Model (release_of cred model lt s) = model"
    "rl_ReleaseSeq (release_of cred model lt s) = s" "rl_Lifetime (release_of cred model lt s) = lt"
    "(release_of cred model lt s)\<lparr>rl_CredentialID := cred, rl_Model := model\<rparr> = release_of cred model lt s"
    by (simp_all add: release_of_def)
  have "ApplyConcurrencyRelease (release_of cred model lt s) db
    = applyConcurrencyReleaseTx (release_of cred model lt s) db"
    using assms(3) by (simp add: ApplyConcurrencyRelease_def Let_def fields assms(2,4))
  also have "\<dots> =
    (if s - ct_LastReleaseSeq row \<le> 0 then Inr ((), db)
     else if s - ct_LastReleaseSeq row > ct_ActiveCount row then Inl ReleaseExceedsActive
     else Inr ((), db\<lparr>db_counters := AList.update ?key
       \<lparr>ct_ActiveCount = ct_ActiveCount row - (s - ct_LastReleaseSeq row), ct_LastReleaseSeq = s\<rparr>
       (db_counters db)\<rparr>))"
    using valid assms(3)
    unfolding applyConcurrencyReleaseTx_def Let_def fields assms(1,2,4) lock prod.case sum.case w
    by (simp only: if_False simp_thms)
  also have "ct_ActiveCount row - (s - ct_LastReleaseSeq row) = ct_LastReleaseSeq row + ct_ActiveCount row - s"
    by simp
  finally show ?thesis
    unfolding run_tx_def by (simp split: if_split)
next
  case False
  with assms show ?thesis
    by (auto simp: run_tx_def ApplyConcurrencyRelease_def applyConcurrencyReleaseTx_def release_of_def
        counter_wf_def Let_def)
qed

text \<open>The newest release sequence a counter accepts out of a collection of them.\<close>

definition newest_release :: "int \<Rightarrow> int \<Rightarrow> int list \<Rightarrow> int" where
  "newest_release seq0 issued ss = Max (insert seq0 {s \<in> set ss. s \<le> issued})"

lemma Max_insert_insert:
  fixes x :: "'a::linorder"
  shows "finite A \<Longrightarrow> Max (insert x (insert y A)) = Max (insert (max x y) A)"
  by (cases "A = {}") (simp_all add: max.assoc)

lemma finite_filter_set: "finite {x \<in> set xs. P x}"
  by simp

lemma newest_release_Cons:
  "newest_release l issued (s # ss) = newest_release (if l < s \<and> s \<le> issued then s else l) issued ss"
proof (cases "s \<le> issued")
  case True
  then have "{x \<in> set (s # ss). x \<le> issued} = insert s {x \<in> set ss. x \<le> issued}"
    by auto
  with True show ?thesis
    unfolding newest_release_def by (simp only: Max_insert_insert finite_filter_set) (simp add: max_def)
next
  case False
  then have "{x \<in> set (s # ss). x \<le> issued} = {x \<in> set ss. x \<le> issued}"
    by auto
  with False show ?thesis
    unfolding newest_release_def by simp
qed

lemma lock_lifetime_counters [simp]:
  "LockActiveConcurrencyLifetimeTx lt (db\<lparr>db_counters := t\<rparr>) = LockActiveConcurrencyLifetimeTx lt db"
  by (auto simp: LockActiveConcurrencyLifetimeTx_def Let_def split: option.splits)

lemma releases_effect:
  assumes "LockActiveConcurrencyLifetimeTx lt db = None" "trim_space cred = cred" "cred \<noteq> []"
    "ValidCanonicalConcurrencyModelKey model = (model, True)" "\<forall>s\<in>set ss. is_i64 s"
    "map_of (db_counters db) (cred, model, trim_space (cl_Fingerprint lt)) = Some row" "counter_wf row"
  shows "\<exists>row'. map_of (db_counters (apply_releases (map (release_of cred model lt) ss) db))
      (cred, model, trim_space (cl_Fingerprint lt)) = Some row'
    \<and> ct_LastReleaseSeq row' = newest_release (ct_LastReleaseSeq row) (ct_LastReleaseSeq row + ct_ActiveCount row) ss
    \<and> ct_LastReleaseSeq row' + ct_ActiveCount row' = ct_LastReleaseSeq row + ct_ActiveCount row"
  using assms
proof (induction ss arbitrary: db row)
  case Nil
  then show ?case
    by (simp add: newest_release_def)
next
  case (Cons s ss)
  let ?key = "(cred, model, trim_space (cl_Fingerprint lt))" and ?issued = "ct_LastReleaseSeq row + ct_ActiveCount row"
  let ?hit = "ct_LastReleaseSeq row < s \<and> s \<le> ?issued"
  define row1 where "row1 = (if ?hit then \<lparr>ct_ActiveCount = ?issued - s, ct_LastReleaseSeq = s\<rparr> else row)"
  define db1 where "db1 = fst (run_tx (ApplyConcurrencyRelease (release_of cred model lt s)) db)"
  have db1: "db1 = (if ?hit then db\<lparr>db_counters := AList.update ?key row1 (db_counters db)\<rparr> else db)"
    unfolding db1_def row1_def using release_effect [OF Cons.prems(1-4) _ Cons.prems(6,7), of s] Cons.prems(5)
    by simp
  have sums: "ct_LastReleaseSeq row1 + ct_ActiveCount row1 = ?issued"
    "ct_LastReleaseSeq row1 = (if ?hit then s else ct_LastReleaseSeq row)"
    by (auto simp: row1_def)
  have "LockActiveConcurrencyLifetimeTx lt db1 = None" "map_of (db_counters db1) ?key = Some row1" "counter_wf row1"
    using Cons.prems by (auto simp: db1 row1_def counter_wf_def i64_simps)
  note ih = Cons.IH [OF this(1) Cons.prems(2-4) _ this(2,3), unfolded sums(1)]
  have "newest_release (ct_LastReleaseSeq row) ?issued (s # ss) = newest_release (ct_LastReleaseSeq row1) ?issued ss"
    by (simp only: newest_release_Cons sums(2))
  moreover have "apply_releases (map (release_of cred model lt) (s # ss)) db
      = apply_releases (map (release_of cred model lt) ss) db1"
    by (simp add: db1_def)
  ultimately show ?case
    using ih Cons.prems(5) by simp
qed


subsection \<open>Recovery\<close>

definition fence_rows :: "quiescence_key set \<Rightarrow> (quiescence_key, quiescence_status) gomap
    \<Rightarrow> (quiescence_key, quiescence_status) gomap" where
  "fence_rows ks = map (\<lambda>(k, st). (k, if k \<in> ks \<and> st = QPending then QFenced else st))"

lemma fence_rows_compose: "fence_rows ks (fence_rows js t) = fence_rows (js \<union> ks) t"
  by (auto simp: fence_rows_def)

lemma fence_row_rows: "db_quiescence (fence_row key db) = fence_rows {key} (db_quiescence db)"
  by (simp add: fence_row_def fence_rows_def)

lemma fence_rows_none: "fence_rows {} t = t"
  by (induction t) (auto simp: fence_rows_def)

text \<open>When each Home was last seen; deciding about rows does not touch it.\<close>

definition last_seen :: "cluster_db \<Rightarrow> home_id \<Rightarrow> gotime option" where
  "last_seen db h = map_option hr_LastSeenAt (map_of (db_homes db) h)"

definition silent_since :: "gotime \<Rightarrow> cluster_db \<Rightarrow> home_id \<Rightarrow> bool" where
  "silent_since t db h \<longleftrightarrow> (\<exists>seen. last_seen db h = Some seen \<and> seen < t)"

lemma transition_last_seen:
  assumes "\<And>row. hr_LastSeenAt (f row) = hr_LastSeenAt row"
  shows "last_seen (homeIncarnationTransition pred f db) = last_seen db"
  using assms by (auto simp: last_seen_def fun_eq_iff option.map_comp comp_def if_distrib cong: if_cong)

lemma fence_row_last_seen [simp]: "last_seen (fence_row key db) = last_seen db"
  by (simp add: last_seen_def fence_row_def fun_eq_iff)

lemma resolve_row_fences:
  assumes "silent_since (grace_cutoff lc now) db h"
    "grace_cutoff lc now \<le> now + wrap64 (- lr_NodeHeartbeatTimeout lc)"
  shows "\<exists>db'. resolveQuiescenceHomeRowTx fp c r lc now reason h db = Inr ((), db')
    \<and> db_quiescence db' = fence_rows {(fp, c, r, h)} (db_quiescence db) \<and> last_seen db' = last_seen db"
proof -
  let ?cutoff = "now + wrap64 (- lr_NodeHeartbeatTimeout lc)" and ?grace = "grace_cutoff lc now"
  from assms(1) obtain home where home: "map_of (db_homes db) h = Some home" "hr_LastSeenAt home < ?grace"
    by (auto simp: silent_since_def last_seen_def)
  define db1 where "db1 = (if hr_State home = HomeActive then homeIncarnationTransition
      (\<lambda>h' row. h' = h \<and> hr_State row = HomeActive \<and> hr_LastSeenAt row < ?cutoff)
      (hr_State_update (\<lambda>_. HomeExpired)) db else db)"
  define db2 where "db2 = homeIncarnationTransition
      (\<lambda>h' row. h' = h \<and> (hr_State row = HomeExpired \<or> hr_State row = HomeRetired)
         \<and> hr_LastSeenAt row < ?grace)
      (\<lambda>row. row\<lparr>hr_State := HomeFenced, hr_FencedAt := Some now, hr_FenceReason := reason\<rparr>) db1"
  define eligible where "eligible \<longleftrightarrow> (case map_of (db_homes db2) h of None \<Rightarrow> False
      | Some row \<Rightarrow> (hr_State row = HomeExpired \<or> hr_State row = HomeRetired \<or> hr_State row = HomeFenced)
          \<and> hr_LastSeenAt row < ?grace)"
  have eq: "resolveQuiescenceHomeRowTx fp c r lc now reason h db
      = Inr ((), if eligible then fence_row (fp, c, r, h) db2 else db2)"
    unfolding resolveQuiescenceHomeRowTx_def home(1) option.case Let_def
      db1_def [symmetric] db2_def [symmetric] eligible_def [symmetric] ..
  have "hr_LastSeenAt home < ?cutoff"
    using home(2) assms(2) by simp
  then obtain row1 where row1: "map_of (db_homes db1) h = Some row1" "hr_LastSeenAt row1 = hr_LastSeenAt home"
      "hr_State row1 \<noteq> HomeActive"
    using home(1) by (cases "hr_State home = HomeActive") (simp_all add: db1_def)
  then have eligible
    using home(2) by (cases "hr_State row1") (simp_all add: eligible_def db2_def)
  moreover have "last_seen db2 = last_seen db"
    by (simp add: db2_def db1_def transition_last_seen)
  moreover have "db_quiescence db2 = db_quiescence db"
    by (simp add: db2_def db1_def)
  ultimately show ?thesis
    using eq by (auto simp: fence_row_rows)
qed

lemma resolve_fences:
  assumes "\<forall>h\<in>set hs. silent_since (grace_cutoff lc now) db h"
    "grace_cutoff lc now \<le> now + wrap64 (- lr_NodeHeartbeatTimeout lc)"
  shows "\<exists>db'. resolveQuiescenceHomeEligibilityTx fp c r lc now reason hs db = Inr ((), db')
    \<and> db_quiescence db' = fence_rows ((\<lambda>h. (fp, c, r, h)) ` set hs) (db_quiescence db)"
  using assms(1)
proof (induction hs arbitrary: db)
  case Nil
  then show ?case
    by (simp add: fence_rows_none)
next
  case (Cons h hs)
  from resolve_row_fences [OF _ assms(2)] Cons.prems obtain db1 where
    one: "resolveQuiescenceHomeRowTx fp c r lc now reason h db = Inr ((), db1)"
      "db_quiescence db1 = fence_rows {(fp, c, r, h)} (db_quiescence db)" "last_seen db1 = last_seen db"
    by (metis list.set_intros(1))
  with Cons.prems have "\<forall>h\<in>set hs. silent_since (grace_cutoff lc now) db1 h"
    by (simp add: silent_since_def)
  from Cons.IH [OF this] one show ?case
    by (auto simp: fence_rows_compose insert_is_Un [symmetric])
qed

lemma complete_succeeds:
  assumes "map_of (db_members db) fp = Some m" "mb_State m = MemberCanceling" "mb_ConnectedAt m \<noteq> 0"
    "tables_wf db" "cancellations_wf db"
    "\<forall>h st. ((fp, mb_ConnectedAt m, mb_CancelRevision m, h), st) \<in> set (db_quiescence db) \<longrightarrow> st \<noteq> QPending"
  shows "\<exists>db'. completeFingerprintCancellationTx fp (mb_CancelRevision m) (mb_ConnectedAt m) db = Inr ((), db')
    \<and> map_of (db_members db') fp = Some (m\<lparr>mb_State := MemberClosed\<rparr>)"
proof -
  have fp: "trim_space fp = fp" "fp \<noteq> []"
    using member_ok [OF assms(4,1)] by (auto simp: member_wf_def)
  have rows: "\<not> list_ex (\<lambda>(h, st). st \<noteq> QAcknowledged \<and> st \<noteq> QFenced)
      (quiescence_rows db fp (mb_ConnectedAt m) (mb_CancelRevision m))"
    using assms(6) by (auto simp: list_ex_iff quiescence_rows_mem) (metis quiescence_status.exhaust)
  have "mb_ExpectedQuiescenceCount m = int (length (quiescence_rows db fp (mb_ConnectedAt m) (mb_CancelRevision m)))"
    "0 < mb_ExpectedQuiescenceCount m"
    using cancellations_wfD [OF assms(5,1,2)] by (auto simp: cancelling_wf_def length_quiescence_rows)
  with rows show ?thesis
    using assms(1-3) fp
    by (simp add: completeFingerprintCancellationTx_def DeleteFingerprintConcurrencyCountersTx_def Let_def)
qed

lemma grace_after_expiry:
  assumes "lifecycle_safe lc" "lr_NodeHeartbeatTimeout lc \<le> max_i64" "cc_CPAHeartbeatTimeout (lr_Payload lc) \<le> max_i64"
  shows "grace_cutoff lc now = now - lr_NodeHeartbeatTimeout lc - cc_ReclaimGrace (lr_Payload lc)"
    "grace_cutoff lc now \<le> now + wrap64 (- lr_NodeHeartbeatTimeout lc)"
proof -
  note order = validate_lifecycle_order [OF assms(1) [unfolded lifecycle_safe_def] assms(2,3)]
  have pay: "cc_ReclaimGrace (lifecycleConfigFromRecord lc) = cc_ReclaimGrace (lr_Payload lc)"
    by (simp add: lifecycleConfigFromRecord_def)
  have "wrap64 (lr_NodeHeartbeatTimeout lc + cc_ReclaimGrace (lr_Payload lc))
      = lr_NodeHeartbeatTimeout lc + cc_ReclaimGrace (lr_Payload lc)"
    "wrap64 (- (lr_NodeHeartbeatTimeout lc + cc_ReclaimGrace (lr_Payload lc)))
      = - (lr_NodeHeartbeatTimeout lc + cc_ReclaimGrace (lr_Payload lc))"
    "wrap64 (- lr_NodeHeartbeatTimeout lc) = - lr_NodeHeartbeatTimeout lc"
    using order by (auto intro!: wrap64_id simp: i64_simps)
  with order show "grace_cutoff lc now = now - lr_NodeHeartbeatTimeout lc - cc_ReclaimGrace (lr_Payload lc)"
    "grace_cutoff lc now \<le> now + wrap64 (- lr_NodeHeartbeatTimeout lc)"
    by (simp_all add: grace_cutoff_def pay)
qed

lemma recover_succeeds:
  assumes "tables_wf db" "cancellations_wf db" "db_lifecycle db = Some lc"
    "lifecycle_safe lc" "lr_NodeHeartbeatTimeout lc \<le> max_i64" "cc_CPAHeartbeatTimeout (lr_Payload lc) \<le> max_i64"
    "map_of (db_members db) fp = Some m" "mb_State m = MemberCanceling" "mb_ConnectedAt m \<noteq> 0"
    "\<And>h. map_of (db_quiescence db) (fp, mb_ConnectedAt m, mb_CancelRevision m, h) = Some QPending \<Longrightarrow>
       silent_since (now - lr_NodeHeartbeatTimeout lc - cc_ReclaimGrace (lr_Payload lc)) db h"
  shows "\<exists>db'. recoverStaleMembershipQuiescence fp (mb_ConnectedAt m) (mb_CancelRevision m) now db = Inr (True, db')
    \<and> map_of (db_members db') fp = Some (m\<lparr>mb_State := MemberClosed\<rparr>)"
proof -
  let ?c = "mb_ConnectedAt m" and ?r = "mb_CancelRevision m"
  let ?reason = "''CPA fingerprint cancellation recovery''"
  define pending where "pending = map fst (filter (\<lambda>(h, st). st = QPending) (quiescence_rows db fp ?c ?r))"
  note grace = grace_after_expiry [OF assms(4-6), of now]
  have wfq: "gomap_wf (db_quiescence db)"
    using assms(1) by (simp add: tables_wf_def keys_wf_def)
  have mem: "h \<in> set pending \<longleftrightarrow> ((fp, ?c, ?r, h), QPending) \<in> set (db_quiescence db)" for h
    by (force simp: pending_def quiescence_rows_mem)
  have "\<forall>h\<in>set pending. silent_since (grace_cutoff lc now) db h"
    using assms(10) wfq by (auto simp: mem grace(1))
  from resolve_fences [OF this grace(2)] obtain db1 where
    res: "resolveQuiescenceHomeEligibilityTx fp ?c ?r lc now ?reason pending db = Inr ((), db1)"
    and rows: "db_quiescence db1 = fence_rows ((\<lambda>h. (fp, ?c, ?r, h)) ` set pending) (db_quiescence db)"
    by blast
  note steps = resolve_steps [OF res]
  have wf: "tables_wf db1" "cancellations_wf db1"
    using steps_tables_wf [OF steps assms(1)] steps_keep(3) [OF steps assms(1,2)] by simp_all
  have m: "map_of (db_members db1) fp = Some m"
    using resolve_keeps [OF res] assms(7) by simp
  have "\<forall>h st. ((fp, ?c, ?r, h), st) \<in> set (db_quiescence db1) \<longrightarrow> st \<noteq> QPending"
    by (auto simp: rows fence_rows_def mem split: if_splits)
  from complete_succeeds [OF m assms(8,9) wf this] obtain db' where
    "completeFingerprintCancellationTx fp ?r ?c db1 = Inr ((), db')"
    "map_of (db_members db') fp = Some (m\<lparr>mb_State := MemberClosed\<rparr>)"
    by blast
  then show ?thesis
    using assms(3,7,8) res
    by (simp add: recoverStaleMembershipQuiescence_def Let_def pending_def)
qed

end
