(* ===== verification/Cluster_Guarantees.thy ===== *)
theory Cluster_Guarantees
  imports Cluster_Limits
begin

section \<open>Guarantees of the cluster\<close>

text \<open>
  The properties of the shared tables, over every sequence of transactions of any nodes, and a small
  cluster to apply them to: one Home, one node, one credential with a limit of one request.
\<close>

subsection \<open>A small cluster\<close>

lemma reachable_empty: "reachable (empty_cluster sqlite)"
  unfolding reachable_def by blast

lemma reachable_step: "reachable db \<Longrightarrow> cluster_step db db' \<Longrightarrow> reachable db'"
  by (rule reachable_steps) auto

lemma reachable_run:
  assumes "reachable db" "\<And>x db'. f db = Inr (x, db') \<Longrightarrow> cluster_step db db'"
  shows "reachable (fst (run_tx f db))"
  using assms reachable_step by (auto simp: run_tx_def split: sum.splits)

definition demo_home :: home_id where
  "demo_home = \<lparr>hi_IP = ''h'', hi_Port = 1, hi_StartedAt = 10\<rparr>"

definition demo_request :: subscribe_request where
  "demo_request = \<lparr>sq_Fingerprint = ''f'', sq_NodeID = ''n'', sq_Home = demo_home, sq_ProtocolVersion = 1,
     sq_LifecycleConfigRevision = 1, sq_Takeover = False\<rparr>"

definition demo_lifetime :: connection_lifetime where
  "demo_lifetime = \<lparr>cl_Fingerprint = ''f'', cl_ConnectedAt = 20, cl_Home = demo_home, cl_Controlled = True\<rparr>"

definition demo_patch :: policy_patch where
  "demo_patch = \<lparr>pp_MaxInFlight = \<lparr>ol_Set = True, ol_Null = False, ol_Value = 1\<rparr>,
     pp_MaxInFlightByModel = \<lparr>om_Set = False, om_Null = False, om_Value = []\<rparr>\<rparr>"

definition demo_admission :: admission_request where
  "demo_admission = \<lparr>ad_CredentialID = ''c'', ad_Model = ''m'', ad_Lifetime = demo_lifetime,
     ad_ProtocolVersion = 1, ad_SessionAffinity = None\<rparr>"

definition demo_joined :: cluster_db where
  "demo_joined = fst (run_tx (SubscribeMembership demo_request 20)
     (fst (run_tx (RegisterHomeIncarnation ''h'' 1 [credentialConcurrencyLimitsCapability] 10 10)
       (empty_cluster False))))"

definition demo_limited :: cluster_db where
  "demo_limited = fst (run_tx (PatchCredentialConcurrencyPolicy ''c'' demo_patch None 20 20)
     (demo_joined\<lparr>db_auths := [(''c'', \<lparr>ar_Version = 1, ar_Deleted = False\<rparr>)]\<rparr>))"

definition demo_busy :: cluster_db where
  "demo_busy = fst (AdmitCredentialConcurrency demo_admission 25 ''u'' demo_limited)"

definition demo_cancelled :: cluster_db where
  "demo_cancelled = fst (run_tx (BeginFingerprintCancellation ''f'' 30) demo_busy)"

lemma demo_reachable:
  "reachable demo_joined" "reachable demo_limited" "reachable demo_busy" "reachable demo_cancelled"
proof -
  show joined: "reachable demo_joined"
    unfolding demo_joined_def
    by (intro reachable_run reachable_empty) (blast intro: cluster_step.register cluster_step.subscribe)+
  show limited: "reachable demo_limited"
    unfolding demo_limited_def
    by (intro reachable_run reachable_step [OF joined cluster_step.credentials]) (blast intro: cluster_step.patch)
  show busy: "reachable demo_busy"
  proof -
    obtain result err where "AdmitCredentialConcurrency demo_admission 25 ''u'' demo_limited = (demo_busy, result, err)"
      by (cases "AdmitCredentialConcurrency demo_admission 25 ''u'' demo_limited") (simp add: demo_busy_def)
    then show ?thesis
      by (rule reachable_step [OF limited cluster_step.admit])
  qed
  show "reachable demo_cancelled"
    unfolding demo_cancelled_def by (intro reachable_run busy) (blast intro: cluster_step.cancel)
qed

lemma demo_values:
  "gate_count demo_limited = 1" "in_flight demo_limited ''c'' = 0" "in_flight demo_busy ''c'' = 1"
  "credential_limit demo_limited ''c'' = 1"
  "LockActiveConcurrencyLifetimeTx demo_lifetime demo_busy = None"
  "map_of (db_counters demo_busy) (''c'', ''m'', ''f'') = Some \<lparr>ct_ActiveCount = 1, ct_LastReleaseSeq = 0\<rparr>"
  by code_simp+


definition demo_release :: release_request where
  "demo_release = release_of ''c'' ''m'' demo_lifetime 1"

subsection \<open>The activation gate\<close>

text \<open>
  C19. Whatever transactions have run, the activation gate counts exactly the credentials that have a
  limit, and while it is not zero every active node speaks the limiter's protocol, every active Home has
  the limiter's capability, and a SQLite cluster has at most one active Home: no limit can be bypassed
  by a participant that does not enforce it.
\<close>

theorem gate_exact_enforced:
  assumes "reachable db"
  shows "gate_count db = int (length (filter (\<lambda>(cred, row).
        policy_active (cp_MaxInFlight row) (loadCredentialConcurrencyModels db cred)) (db_policies db)))
    \<and> (gate_count db > 0 \<longrightarrow>
        (\<forall>(fp, m)\<in>set (db_members db). mb_State m = MemberActive \<longrightarrow> mb_ProtocolVersion m = 1)
        \<and> (\<forall>(h, row)\<in>set (live_homes db). homeHasConcurrencyLimiterCapability row)
        \<and> (db_sqlite db \<longrightarrow> length (live_homes db) \<le> 1))"
  using reachable_ok [OF assms]
  by (simp add: gate_exact_def active_credentials_def gate_enforced_def enforcing_def)

theorem gate_exact_enforced_witness:
  "gate_count demo_limited = 1 \<and> list_all (\<lambda>(h, row). homeHasConcurrencyLimiterCapability row) (live_homes demo_limited)"
  using gate_exact_enforced [OF demo_reachable(2)] demo_values(1) by (auto simp: list_all_iff)

subsection \<open>Admission\<close>

text \<open>
  C18. No transaction of any node ever takes a credential or one of its models past its limit: a count
  only rises by one, by an admission, and then it is within the limit that is set, or there is none.
  Lowering a limit below the count stops admissions until enough requests have been released.
\<close>

theorem limits_respected:
  assumes "reachable db" "cluster_step db db'"
  shows "(in_flight db' cred \<le> in_flight db cred
      \<or> in_flight db' cred = in_flight db cred + 1
        \<and> (credential_limit db cred = 0 \<or> in_flight db' cred \<le> credential_limit db cred))
    \<and> (model_count db' cred model \<le> model_count db cred model
      \<or> model_count db' cred model = model_count db cred model + 1
        \<and> (model_limit db cred model = 0 \<or> model_count db' cred model \<le> model_limit db cred model))"
proof -
  have wf: "tables_wf db"
    by (rule reachable_ok [OF assms(1)])
  have pos: "0 \<le> credential_limit db c" "0 \<le> model_limit db c m" for c m
    by (simp_all add: credential_limit_def model_limit_def positiveLimit_def positiveLimitValue_def split: option.splits)
  from step_counts [OF assms(2) wf] show ?thesis
  proof (elim disjE exE conjE)
    fix req now uuid result
    assume "AdmitCredentialConcurrency req now uuid db = (db', result, None)" "as_Accounted result"
    from admission_result [OF this(1) wf, of cred model] this(2) pos(1) [of cred] pos(2) [of cred model] show ?thesis
      by (cases "cred = as_CredentialID result"; cases "model = as_Model result") auto
  qed (simp add: counts_le_def)
qed

lemma demo_admitted: "cluster_step demo_limited demo_busy"
proof -
  obtain result err where "AdmitCredentialConcurrency demo_admission 25 ''u'' demo_limited = (demo_busy, result, err)"
    by (cases "AdmitCredentialConcurrency demo_admission 25 ''u'' demo_limited") (simp add: demo_busy_def)
  then show ?thesis
    by (rule cluster_step.admit)
qed

theorem limits_respected_witness:
  "in_flight demo_limited ''c'' = 0 \<and> in_flight demo_busy ''c'' = 1 \<and> in_flight demo_busy ''c'' \<le> 1"
  using limits_respected [OF demo_reachable(2) demo_admitted, of "''c''"] demo_values by simp

text \<open>
  C23. An admission is all or nothing. If it fails, every table is as before. If it succeeds, the count
  of the credential and of the model it reports have risen by one and no other count has changed, or
  neither the credential nor the model has a limit and nothing is counted; and the session binding that
  came with the request names the credential, with its expiry renewed.
\<close>

theorem admission_atomic:
  assumes "reachable db" "AdmitCredentialConcurrency req now uuid db = (db', result, err)"
  shows "(err \<noteq> None \<longrightarrow> db' = db \<and> \<not> as_Accounted result)
    \<and> (err = None \<longrightarrow>
      in_flight db' c = in_flight db c + of_bool (as_Accounted result \<and> c = as_CredentialID result)
      \<and> model_count db' c m = model_count db c m
          + of_bool (as_Accounted result \<and> c = as_CredentialID result \<and> m = as_Model result)
      \<and> (as_Accounted result \<or> credential_limit db (as_CredentialID result) = 0
          \<and> model_limit db (as_CredentialID result) (as_Model result) = 0)
      \<and> (\<forall>commit. ad_SessionAffinity req = Some commit \<longrightarrow>
          (\<exists>row. map_of (db_sessions db') (sc_Key commit) = Some row
             \<and> sr_CredentialID row = as_CredentialID result \<and> sr_ExpiresAt row = now + sc_TTL commit)))"
proof (cases err)
  case None
  with assms have admitted: "AdmitCredentialConcurrency req now uuid db = (db', result, None)" and wf: "tables_wf db"
    using reachable_ok(1) by simp_all
  note effect = admission_result [OF admitted wf, of c m]
  have "\<exists>row. map_of (db_sessions db') (sc_Key commit) = Some row
      \<and> sr_CredentialID row = as_CredentialID result \<and> sr_ExpiresAt row = now + sc_TTL commit"
    if "ad_SessionAffinity req = Some commit" for commit
    using effect that
    by (auto simp: admit_session_def compareAndSwapSessionBindingTx_def Let_def
        split: if_splits option.splits prod.splits)
  with effect None show ?thesis
    by blast
qed (use assms(2) admission_refused in blast)

theorem admission_atomic_witness:
  "in_flight demo_busy ''c'' = in_flight demo_limited ''c'' + 1
   \<and> fst (AdmitCredentialConcurrency demo_admission 26 ''v'' demo_busy) = demo_busy"
proof -
  have "AdmitCredentialConcurrency demo_admission 25 ''u'' demo_limited
      = (demo_busy, \<lparr>as_Accounted = True, as_CredentialID = ''c'', as_Model = ''m''\<rparr>, None)"
    unfolding demo_busy_def prod_eq_iff by (simp, code_simp)
  from admission_atomic [OF demo_reachable(2) this, of "''c''" "''m''"]
  have "in_flight demo_busy ''c'' = in_flight demo_limited ''c'' + 1"
    by simp
  moreover have "snd (snd (AdmitCredentialConcurrency demo_admission 26 ''v'' demo_busy))
      = Some (AdmissionError ''credential_concurrency_exceeded'' None)"
    by code_simp
  then obtain db2 result where again: "AdmitCredentialConcurrency demo_admission 26 ''v'' demo_busy
      = (db2, result, Some (AdmissionError ''credential_concurrency_exceeded'' None))"
    by (metis prod.collapse)
  then have "fst (AdmitCredentialConcurrency demo_admission 26 ''v'' demo_busy) = demo_busy"
    using admission_atomic [OF demo_reachable(3) again] by simp
  ultimately show ?thesis ..
qed

subsection \<open>Release\<close>

text \<open>
  C24. Releases are cumulative: however the release frames of a node's counter are repeated, reordered
  or mixed with sequences that were never issued, the counter ends at the newest sequence that was
  issued, and has given back exactly the requests up to it.
\<close>

theorem release_cumulative:
  assumes "reachable db" "LockActiveConcurrencyLifetimeTx lt db = None" "trim_space cred = cred" "cred \<noteq> []"
    "ValidCanonicalConcurrencyModelKey model = (model, True)" "\<forall>s\<in>set ss. is_i64 s"
    "map_of (db_counters db) (cred, model, trim_space (cl_Fingerprint lt)) = Some row"
    "newest = Max (insert (ct_LastReleaseSeq row)
       {s \<in> set ss. s \<le> ct_LastReleaseSeq row + ct_ActiveCount row})"
  shows "map_of (db_counters (apply_releases (map (release_of cred model lt) ss) db))
      (cred, model, trim_space (cl_Fingerprint lt))
    = Some \<lparr>ct_ActiveCount = ct_ActiveCount row - (newest - ct_LastReleaseSeq row), ct_LastReleaseSeq = newest\<rparr>"
proof -
  have "counter_wf row"
    by (rule counter_ok [OF reachable_ok(1) [OF assms(1)] assms(7)])
  from releases_effect [OF assms(2-7) this] assms(8) show ?thesis
    by (auto simp: newest_release_def intro!: counter_row.equality)
qed

theorem release_cumulative_witness:
  "map_of (db_counters (apply_releases (map (release_of ''c'' ''m'' demo_lifetime) [7, 1, 0, 1]) demo_busy))
     (''c'', ''m'', ''f'') = Some \<lparr>ct_ActiveCount = 0, ct_LastReleaseSeq = 1\<rparr>"
proof -
  have fp: "trim_space (cl_Fingerprint demo_lifetime) = ''f''"
    by code_simp
  have "{s \<in> set [7, 1, 0, 1 :: int]. s \<le> 0 + 1} = {0, 1}"
    by auto
  then have newest: "1 = Max (insert 0 {s \<in> set [7, 1, 0, 1 :: int]. s \<le> 0 + 1})"
    by simp
  have "trim_space ''c'' = ''c''" "ValidCanonicalConcurrencyModelKey ''m'' = (''m'', True)"
    by code_simp+
  from release_cumulative [OF demo_reachable(3) demo_values(5) this(1) _ this(2), of "[7, 1, 0, 1]"
      "\<lparr>ct_ActiveCount = 1, ct_LastReleaseSeq = 0\<rparr>" 1] demo_values(6) newest fp
  show ?thesis
    by (simp add: i64_simps)
qed

subsection \<open>Lifetimes\<close>

text \<open>
  C21. A node that has lost its lifetime stays out: once the membership it names is cancelled, closed or
  taken over, then after any further transactions of anyone every admission and every release in the
  name of that lifetime is refused and changes nothing.
\<close>

theorem ended_lifetime_refused:
  assumes "reachable db" "cluster_step\<^sup>*\<^sup>* db db'" "0 < cl_ConnectedAt lt"
    "map_of (db_members db) (trim_space (cl_Fingerprint lt)) = Some m"
    "cl_ConnectedAt lt \<le> mb_ConnectedAt m" "cl_ConnectedAt lt = mb_ConnectedAt m \<longrightarrow> mb_State m \<noteq> MemberActive"
    "ad_Lifetime req = lt" "rl_Lifetime rel = lt"
  shows "(\<exists>result ty cause. AdmitCredentialConcurrency req now uuid db'
      = (db', result, Some (AdmissionError ty cause)))
    \<and> (\<exists>e. run_tx (ApplyConcurrencyRelease rel) db' = (db', Inl e))"
proof -
  have "lifetime_ended db (trim_space (cl_Fingerprint lt)) (cl_ConnectedAt lt)"
    using assms(4-6) by (auto simp: lifetime_ended_def)
  with assms(1-3) have "lifetime_ended db' (trim_space (cl_Fingerprint lt)) (cl_ConnectedAt lt)"
    using ended_for_ever reachable_ok(1) by blast
  note refused = ended_refused [OF this]
  obtain e where "ApplyConcurrencyRelease rel db' = Inl e"
    using refused_release refused assms(8) by blast
  moreover have "\<exists>result ty cause. AdmitCredentialConcurrency req now uuid db'
      = (db', result, Some (AdmissionError ty cause))"
    using refused_admission refused assms(7) by blast
  ultimately show ?thesis
    by (simp add: run_tx_def)
qed

theorem ended_lifetime_refused_witness:
  "fst (AdmitCredentialConcurrency demo_admission 40 ''w'' demo_cancelled) = demo_cancelled
   \<and> fst (run_tx (ApplyConcurrencyRelease demo_release) demo_cancelled) = demo_cancelled"
proof -
  have found: "map_option (\<lambda>m. (mb_ConnectedAt m, mb_State m))
      (map_of (db_members demo_cancelled) (trim_space (cl_Fingerprint demo_lifetime))) = Some (20, MemberCanceling)"
    by code_simp
  then obtain m where m: "map_of (db_members demo_cancelled) (trim_space (cl_Fingerprint demo_lifetime)) = Some m"
      "mb_ConnectedAt m = 20" "mb_State m = MemberCanceling"
    by auto
  have "cl_ConnectedAt demo_lifetime = 20" "ad_Lifetime demo_admission = demo_lifetime"
      "rl_Lifetime demo_release = demo_lifetime"
    by (simp_all add: demo_lifetime_def demo_admission_def demo_release_def release_of_def)
  with ended_lifetime_refused [OF demo_reachable(4) rtranclp.rtrancl_refl _ m(1), of demo_admission demo_release
      40 "''w''"] m(2,3)
  show ?thesis
    by auto
qed

subsection \<open>Closing a membership\<close>

text \<open>
  C20. A membership is only closed safely: when a cancellation is completed, by a call or by the
  recovery, every Home that served the lifetime has acknowledged that it stopped or is fenced for good,
  and nothing is counted for the node any more.
\<close>

theorem membership_closed_safely:
  assumes "reachable db" "map_of (db_members db) fp = Some m" "h \<in> set (quiescenceHomeCandidates db fp m)"
    "CompleteFingerprintCancellation fp c r db = Inr ((), db')
     \<or> recoverStaleMembershipQuiescence fp c r now db = Inr (True, db')"
  shows "mb_State m = MemberCanceling
    \<and> (map_of (db_quiescence db') (fp, c, r, h) = Some QAcknowledged
       \<or> map_of (db_quiescence db') (fp, c, r, h) = Some QFenced \<and> home_fenced db' h)
    \<and> (\<forall>cred model. map_of (db_counters db') (cred, model, fp) = None)
    \<and> map_option mb_State (map_of (db_members db') fp) = Some MemberClosed"
proof -
  note ok = reachable_ok [OF assms(1)]
  have fp: "trim_space fp = fp"
    using member_ok [OF ok(1) assms(2)] by (simp add: member_wf_def)
  have gone: "map_of (filter (\<lambda>((cred, model, fp'), n). fp' \<noteq> fp) t) (cred, model, fp) = None"
    for cred model and t :: "((string \<times> string \<times> string) \<times> counter_row) list"
    by (auto simp: map_of_eq_None_iff)
  from assms(4) show ?thesis
  proof
    assume "CompleteFingerprintCancellation fp c r db = Inr ((), db')"
    with fp have fin: "completeFingerprintCancellationTx fp r c db = Inr ((), db')"
      by (auto simp: CompleteFingerprintCancellation_def Let_def split: if_splits)
    from complete_result [OF fin fp] closed_result [OF fin ok(1,4) fp assms(2,3)] assms(2) gone show ?thesis
      by auto
  next
    assume rec: "recoverStaleMembershipQuiescence fp c r now db = Inr (True, db')"
    from recover_result [OF rec] obtain db1 where
      fin: "completeFingerprintCancellationTx fp r c db1 = Inr ((), db')"
      by blast
    from recover_closed_result [OF rec ok(1,4)] complete_result [OF fin fp] assms(2,3) gone show ?thesis
      by auto
  qed
qed

theorem membership_closed_safely_witness:
  "\<exists>db'. recoverStaleMembershipQuiescence ''f'' 20 1 (10 ^ 12) demo_cancelled = Inr (True, db')
     \<and> home_fenced db' demo_home \<and> map_of (db_counters db') (''c'', ''m'', ''f'') = None"
proof -
  have "map_option (\<lambda>m. quiescenceHomeCandidates demo_cancelled ''f'' m) (map_of (db_members demo_cancelled) ''f'')
      = Some [demo_home]"
    by code_simp
  then obtain m where m: "map_of (db_members demo_cancelled) ''f'' = Some m"
      "demo_home \<in> set (quiescenceHomeCandidates demo_cancelled ''f'' m)"
    by auto
  have "(case recoverStaleMembershipQuiescence ''f'' 20 1 (10 ^ 12) demo_cancelled of
      Inr (True, db') \<Rightarrow> map_of (db_quiescence db') (''f'', 20, 1, demo_home) = Some QFenced | _ \<Rightarrow> False)"
    by code_simp
  then obtain db' where db': "recoverStaleMembershipQuiescence ''f'' 20 1 (10 ^ 12) demo_cancelled = Inr (True, db')"
      "map_of (db_quiescence db') (''f'', 20, 1, demo_home) = Some QFenced"
    by (auto split: sum.splits prod.splits bool.splits)
  with membership_closed_safely [OF demo_reachable(4) m, of 20 1 db' "10 ^ 12"] show ?thesis
    by auto
qed

text \<open>
  C22. A cancellation cannot hang on Homes that are gone: once every Home that has not acknowledged has
  been silent for longer than the heartbeat timeout and the reclaim grace together, the next run of the
  recovery fences them and closes the membership.
\<close>

theorem recovery_completes:
  assumes "reachable db" "db_lifecycle db = Some lc" "lifecycle_safe lc"
    "lr_NodeHeartbeatTimeout lc \<le> max_i64" "cc_CPAHeartbeatTimeout (lr_Payload lc) \<le> max_i64"
    "map_of (db_members db) fp = Some m" "mb_State m = MemberCanceling" "mb_ConnectedAt m \<noteq> 0"
    "\<And>h. map_of (db_quiescence db) (fp, mb_ConnectedAt m, mb_CancelRevision m, h) = Some QPending \<Longrightarrow>
       \<exists>home. map_of (db_homes db) h = Some home
         \<and> hr_LastSeenAt home + lr_NodeHeartbeatTimeout lc + cc_ReclaimGrace (lr_Payload lc) < now"
  shows "\<exists>db'. recoverStaleMembershipQuiescence fp (mb_ConnectedAt m) (mb_CancelRevision m) now db = Inr (True, db')
    \<and> map_of (db_members db') fp = Some (m\<lparr>mb_State := MemberClosed\<rparr>)"
proof (rule recover_succeeds [OF _ _ assms(2-8)])
  fix h
  assume "map_of (db_quiescence db) (fp, mb_ConnectedAt m, mb_CancelRevision m, h) = Some QPending"
  from assms(9) [OF this] show "silent_since (now - lr_NodeHeartbeatTimeout lc - cc_ReclaimGrace (lr_Payload lc)) db h"
    by (force simp: silent_since_def last_seen_def)
qed (use reachable_ok [OF assms(1)] in simp_all)

theorem recovery_completes_witness:
  "\<exists>db'. recoverStaleMembershipQuiescence ''f'' 20 1 (10 ^ 12) demo_cancelled = Inr (True, db')
     \<and> map_option mb_State (map_of (db_members db') ''f'') = Some MemberClosed"
proof -
  have "map_option (\<lambda>m. (mb_ConnectedAt m, mb_CancelRevision m, mb_State m)) (map_of (db_members demo_cancelled) ''f'')
      = Some (20, 1, MemberCanceling)"
    by code_simp
  then obtain m where m: "map_of (db_members demo_cancelled) ''f'' = Some m" "mb_State m = MemberCanceling"
      "mb_ConnectedAt m \<noteq> 0" "mb_ConnectedAt m = 20" "mb_CancelRevision m = 1"
    by auto
  have "map_option (\<lambda>lc. (lifecycle_safe lc, lr_NodeHeartbeatTimeout lc, cc_CPAHeartbeatTimeout (lr_Payload lc),
      cc_ReclaimGrace (lr_Payload lc))) (db_lifecycle demo_cancelled)
      = Some (True, 20000000000, 3000000000, 5000000000)"
    by code_simp
  then obtain lc where lc: "db_lifecycle demo_cancelled = Some lc" "lifecycle_safe lc"
      "lr_NodeHeartbeatTimeout lc = 20000000000" "cc_CPAHeartbeatTimeout (lr_Payload lc) = 3000000000"
      "cc_ReclaimGrace (lr_Payload lc) = 5000000000"
    by auto
  have homes: "map_option hr_LastSeenAt (map_of (db_homes demo_cancelled) demo_home) = Some 10"
    and rows: "db_quiescence demo_cancelled = [((''f'', 20, 1, demo_home), QPending)]"
    by code_simp+
  from recovery_completes [OF demo_reachable(4) lc(1,2) _ _ m(1,2,3), of "10 ^ 12"] homes rows lc m(4,5)
  show ?thesis
    by (force simp: i64_simps split: if_splits)
qed

subsection \<open>Refinement\<close>

text \<open>
  C25. Every committed transaction on tables that transactions have built is a sequence of steps of the
  abstract protocol: the detailed operations, with their lookups, guards, errors and side tables,
  implement the elementary moves of Homes, memberships, policies and counters.
\<close>

theorem transactions_refine_protocol:
  assumes "reachable db" "cluster_step db db'"
  shows "protocol_step\<^sup>*\<^sup>* db db' \<and> tables_wf db'"
  using cluster_steps_refine [OF r_into_rtranclp reachable_ok(1)] assms by blast

theorem transactions_refine_protocol_witness:
  "protocol_step\<^sup>*\<^sup>* demo_limited demo_busy"
  using transactions_refine_protocol [OF demo_reachable(2) demo_admitted] by simp

subsection \<open>The key of a release\<close>

text \<open>
  A canonical model key may itself end in a suffix that is removed again, and a release canonicalises
  twice where an admission canonicalises once.  So the request below is counted under a key that its
  release does not find: the release fails and the slot stays taken.
\<close>

definition demo_suffixed :: admission_request where
  "demo_suffixed = demo_admission\<lparr>ad_Model := ''m(high)(low)''\<rparr>"

lemma release_misses_its_admission:
  "fst (snd (AdmitCredentialConcurrency demo_suffixed 25 ''u'' demo_limited))
     = \<lparr>as_Accounted = True, as_CredentialID = ''c'', as_Model = ''m(high)''\<rparr>"
  "ApplyConcurrencyRelease (release_of ''c'' ''m(high)(low)'' demo_lifetime 1)
     (fst (AdmitCredentialConcurrency demo_suffixed 25 ''u'' demo_limited)) = Inl ReleaseExceedsActive"
  "ApplyConcurrencyRelease (release_of ''c'' ''m(high)'' demo_lifetime 1)
     (fst (AdmitCredentialConcurrency demo_suffixed 25 ''u'' demo_limited)) = Inl ReleaseExceedsActive"
  by code_simp+

text \<open>
  Retiring or fencing a Home looks it up under the trimmed address but updates it under the address as
  given, so with a padded address the call reports success and the Home stays active.
\<close>

lemma padded_address_not_fenced:
  "map_option hr_State (map_of (db_homes (fst (run_tx
      (FenceHomeIncarnation \<lparr>hi_IP = '' h'', hi_Port = 1, hi_StartedAt = 10\<rparr> ''r'' 30) demo_joined))) demo_home)
     = Some HomeActive"
  "snd (run_tx (FenceHomeIncarnation \<lparr>hi_IP = '' h'', hi_Port = 1, hi_StartedAt = 10\<rparr> ''r'' 30) demo_joined) = Inr ()"
  by code_simp+

end
