(* ===== verification/Dispatch_Availability.thy ===== *)
theory Dispatch_Availability
  imports Selectors
begin

section \<open>Availability for dispatch\<close>

text \<open>
  The part of \<^verbatim>\<open>manager.go\<close> that decides whether a credential can be dispatched for a model: the check
  of the resolved upstream model and then of the route model, and which blocks a retry round waits for.
  Both the scheduler of \<^verbatim>\<open>scheduler.go\<close> and the dispatch loop of the manager use it.
\<close>

definition retry_round_status :: "int \<Rightarrow> bool" where
  "retry_round_status code \<longleftrightarrow> List.member [403, 408, 429, 500, 502, 503, 504] code"

definition isDispatchRetryRoundCooldown :: "auth option \<Rightarrow> string \<Rightarrow> gotime \<Rightarrow> bool" where
  "isDispatchRetryRoundCooldown auth model now =
     (case auth of
        None \<Rightarrow> False
      | Some a \<Rightarrow>
          if trim_space model = [] \<or> au_ModelStates a = [] then False
          else
            let state0 = model_state_at a model;
                state = (if state0 = None then model_state_at a (canonicalModelKey model) else state0)
            in case state of
                 None \<Rightarrow> False
               | Some st \<Rightarrow>
                   if \<not> ms_Unavailable st \<or> ms_NextRetryAfter st = 0 \<or> \<not> ms_NextRetryAfter st > now then False
                   else (case ms_LastError st of
                       None \<Rightarrow> q_Exceeded (ms_Quota st)
                     | Some e \<Rightarrow> retry_round_status (statusCodeFromResult (Some e))))"

definition classifyDispatchAvailability ::
    "auth option \<Rightarrow> string \<Rightarrow> bool \<Rightarrow> block_reason \<Rightarrow> gotime \<Rightarrow> gotime \<Rightarrow> bool \<times> block_reason \<times> gotime" where
  "classifyDispatchAvailability auth blockedModel blocked reason0 next now =
     (if \<not> blocked then (True, BlockReasonNone, 0)
      else
        let retryRoundCooldown = isDispatchRetryRoundCooldown auth blockedModel now;
            reason = (if reason0 = BlockReasonCooldown \<and> \<not> retryRoundCooldown then BlockReasonOther
                      else if reason0 = BlockReasonOther \<and> retryRoundCooldown then BlockReasonCooldown
                      else reason0)
        in (False, reason, next))"

definition dispatchModelBlockStatus ::
    "auth option \<Rightarrow> string \<Rightarrow> string \<Rightarrow> gotime \<Rightarrow> string \<times> bool \<times> block_reason \<times> gotime" where
  "dispatchModelBlockStatus auth resolvedModel routeModel now =
     (let first = isAuthBlockedForModel auth resolvedModel now
      in if \<not> fst first \<and> resolvedModel \<noteq> canonicalModelKey routeModel
         then (routeModel, isAuthBlockedForModel auth routeModel now)
         else (resolvedModel, first))"

definition dispatchAvailabilityForModel ::
    "auth option \<Rightarrow> string \<Rightarrow> string \<Rightarrow> gotime \<Rightarrow> bool \<times> block_reason \<times> gotime" where
  "dispatchAvailabilityForModel auth resolvedModel routeModel now =
     (let (blockedModel, blocked, reason, next) = dispatchModelBlockStatus auth resolvedModel routeModel now
      in classifyDispatchAvailability auth blockedModel blocked reason next now)"

definition dispatchUnavailableError ::
    "string \<Rightarrow> string \<Rightarrow> int \<Rightarrow> int \<Rightarrow> gotime \<Rightarrow> gotime \<Rightarrow> dispatch_error" where
  "dispatchUnavailableError routeModel provider candidates cooldownCount earliest now =
     (if candidates = 0 then PlainError ''auth_not_found'' ''no auth available''
      else if cooldownCount = candidates \<and> earliest \<noteq> 0
      then let providerForError = (if provider = ''mixed'' then [] else provider);
               resetIn0 = time_sub earliest now;
               resetIn = (if resetIn0 < 0 then 0 else resetIn0)
           in ModelCooldown (newModelCooldownError routeModel providerForError resetIn)
      else PlainError ''auth_unavailable'' ''no auth available'')"

record dispatch_summary =
  su_now :: gotime
  su_total :: int
  su_cooldownCount :: int
  su_earliest :: gotime
  su_requestRetry :: int
  su_hasRequestRetry :: bool

fun normalize_providers :: "string list \<Rightarrow> string list \<Rightarrow> string list" where
  "normalize_providers [] out = out"
| "normalize_providers (provider # providers) out =
     (let providerKey = to_lower (trim_space provider)
      in if providerKey = [] \<or> List.member out providerKey then normalize_providers providers out
         else normalize_providers providers (out @ [providerKey]))"

definition normalizeProviderKeys :: "string list \<Rightarrow> string list" where
  "normalizeProviderKeys providers = normalize_providers providers []"

definition containsProvider :: "string list \<Rightarrow> string \<Rightarrow> bool" where
  "containsProvider providers provider = list_ex (\<lambda>candidate. candidate = provider) providers"

definition authWebsocketsEnabled :: "auth option \<Rightarrow> bool" where
  "authWebsocketsEnabled auth =
     (case auth of
        None \<Rightarrow> False
      | Some a \<Rightarrow>
          let raw = trim_space (gomap_get [] (au_Attributes a) ''websockets'')
          in case (if raw = [] then None else parse_bool raw) of
               Some parsed \<Rightarrow> parsed
             | None \<Rightarrow>
                 (case map_of (au_Metadata a) ''websockets'' of
                    Some (VBool b) \<Rightarrow> b
                  | Some (VString s) \<Rightarrow> (case parse_bool (trim_space s) of Some b \<Rightarrow> b | None \<Rightarrow> False)
                  | _ \<Rightarrow> False))"

subsection \<open>Lemmas\<close>

lemma normalize_providers_distinct:
  "distinct out \<Longrightarrow> distinct (normalize_providers providers out)"
  by (induction providers arbitrary: out) (auto simp: Let_def)

lemma normalizeProviderKeys_distinct: "distinct (normalizeProviderKeys providers)"
  by (simp add: normalizeProviderKeys_def normalize_providers_distinct)

text \<open>A block only ends with time: a credential that is not blocked stays so until its state changes.\<close>

lemma model_state_blocks_mono:
  "\<not> fst (model_state_blocks state t) \<Longrightarrow> t \<le> t' \<Longrightarrow> \<not> fst (model_state_blocks state t')"
  by (auto simp: model_state_blocks_def Let_def split: if_splits)

lemma unblocked_stays:
  "\<not> fst (isAuthBlockedForModel auth model t) \<Longrightarrow> t \<le> t' \<Longrightarrow> \<not> fst (isAuthBlockedForModel auth model t')"
  by (auto simp: isAuthBlockedForModel_def split: if_splits option.splits dest: model_state_blocks_mono)

definition dispatch_blocked :: "auth option \<Rightarrow> string \<Rightarrow> string \<Rightarrow> gotime \<Rightarrow> bool" where
  "dispatch_blocked auth resolved route now = fst (snd (dispatchModelBlockStatus auth resolved route now))"

lemma dispatch_blocked_iff:
  "dispatch_blocked auth resolved route now \<longleftrightarrow> fst (isAuthBlockedForModel auth resolved now)
     \<or> resolved \<noteq> canonicalModelKey route \<and> fst (isAuthBlockedForModel auth route now)"
  by (auto simp: dispatch_blocked_def dispatchModelBlockStatus_def Let_def)

lemma dispatch_unblocked_stays:
  "\<not> dispatch_blocked auth resolved route t \<Longrightarrow> t \<le> t' \<Longrightarrow> \<not> dispatch_blocked auth resolved route t'"
  unfolding dispatch_blocked_iff using unblocked_stays by blast

lemma classify_available:
  "fst (classifyDispatchAvailability auth bm blocked reason next now) \<longleftrightarrow> \<not> blocked"
  by (simp add: classifyDispatchAvailability_def Let_def)

end
