(* ===== verification/Auth_Scheduler.thy ===== *)
theory Auth_Scheduler
  imports Dispatch_Availability "HOL-Library.Product_Lexorder"
begin

section \<open>The incremental scheduler\<close>

text \<open>
  \<^verbatim>\<open>scheduler.go\<close>: the index the manager keeps of its credentials so that a request does not scan them.
  For every provider and every requested model a shard holds an entry per credential with its state as
  of the last refresh, the ready entries by priority with a round-robin cursor, the blocked entries
  ordered by the time they recover, and the sums that summarize retry rounds.

  Go keeps pointers to entries in the views; here a view holds the IDs of the entries and \<open>sh_entries\<close>
  their content, so an entry that is refreshed in place is refreshed in every view.  An operation runs
  under the scheduler's mutex and is one step; the clock readings it makes are arguments.  The manager's
  closures are the fields of \<open>scheduler_env\<close>: the model a credential resolves a route to, its view under
  the current cooling policy, and the models the registry lists for a client.  The manager never passes
  nil closures or credentials, and the websocket preference, which no caller sets, is kept in the views.
\<close>

subsection \<open>State\<close>

datatype scheduler_strategy = StrategyCustom | StrategyRoundRobin | StrategyFillFirst | StrategyCurrent

datatype selector_kind = FillFirstKind | RoundRobinKind | NoSelectorKind | OtherSelectorKind

datatype scheduled_state = SchedReady | SchedCooldown | SchedBlocked | SchedDisabled

record scheduler_env =
  ev_modelResolver :: "auth \<Rightarrow> string \<Rightarrow> string"
  ev_availability :: "auth \<Rightarrow> gotime \<Rightarrow> auth"
  ev_models :: "string \<Rightarrow> string list"
  ev_conv :: "gofloat \<Rightarrow> int"

record scheduled_meta =
  sm_auth :: auth
  sm_providerKey :: string
  sm_priority :: int
  sm_websocketEnabled :: bool
  sm_supported :: "string list"
  sm_registered :: "string list"

record scheduled_auth =
  se_meta :: scheduled_meta
  se_auth :: auth
  se_schedulerEligible :: bool
  se_state :: scheduled_state
  se_nextRetryAt :: gotime
  se_retryRoundEligible :: bool
  se_retryRoundCooldown :: bool
  se_retryRoundNext :: gotime
  se_requestRetryOverride :: "int option"
  se_alphaSearchAllowed :: bool

record availability_aggregate =
  ag_total :: int
  ag_cooldownCount :: int
  ag_earliest :: gotime
  ag_inheritedRequestRetryCount :: int
  ag_maxRequestRetryOverride :: int
  ag_hasRequestRetryOverride :: bool

record ready_view =
  vw_flat :: "string list"
  vw_cursor :: int

record ready_bucket =
  bk_all :: ready_view
  bk_ws :: ready_view

record model_shard =
  sh_modelKey :: string
  sh_entries :: "(string, scheduled_auth) gomap"
  sh_priorityOrder :: "int list"
  sh_readyByPriority :: "(int, ready_bucket) gomap"
  sh_blocked :: "string list"
  sh_retryRoundAll :: availability_aggregate
  sh_retryRoundAlphaSearch :: availability_aggregate

record provider_scheduler =
  pv_auths :: "(string, scheduled_meta) gomap"
  pv_modelShards :: "(string, model_shard) gomap"

record auth_scheduler =
  sd_strategy :: scheduler_strategy
  sd_providers :: "(string, provider_scheduler) gomap"
  sd_authProviders :: "(string, string) gomap"
  sd_mixedCursors :: "(string, int) gomap"

subsection \<open>Sums over entries\<close>

definition no_aggregate :: availability_aggregate where
  "no_aggregate = \<lparr>ag_total = 0, ag_cooldownCount = 0, ag_earliest = 0, ag_inheritedRequestRetryCount = 0,
     ag_maxRequestRetryOverride = 0, ag_hasRequestRetryOverride = False\<rparr>"

definition aggregate_add :: "availability_aggregate \<Rightarrow> scheduled_auth \<Rightarrow> availability_aggregate" where
  "aggregate_add a e =
     (if \<not> se_retryRoundEligible e then a
      else
        let a1 = a\<lparr>ag_total := ag_total a + 1\<rparr>;
            a2 = (case se_requestRetryOverride e of
                Some override \<Rightarrow>
                  a1\<lparr>ag_maxRequestRetryOverride :=
                       (if \<not> ag_hasRequestRetryOverride a1 \<or> override > ag_maxRequestRetryOverride a1
                        then override else ag_maxRequestRetryOverride a1),
                     ag_hasRequestRetryOverride := True\<rparr>
              | None \<Rightarrow> a1\<lparr>ag_inheritedRequestRetryCount := ag_inheritedRequestRetryCount a1 + 1\<rparr>)
        in if \<not> se_retryRoundCooldown e then a2
           else a2\<lparr>ag_cooldownCount := ag_cooldownCount a2 + 1,
                   ag_earliest := earlier (ag_earliest a2) (se_retryRoundNext e)\<rparr>)"

definition aggregate_merge :: "availability_aggregate \<Rightarrow> availability_aggregate \<Rightarrow> availability_aggregate" where
  "aggregate_merge a other =
     (if ag_total other = 0 then a
      else
        \<lparr>ag_total = ag_total a + ag_total other,
         ag_cooldownCount = ag_cooldownCount a + ag_cooldownCount other,
         ag_earliest = earlier (ag_earliest a) (ag_earliest other),
         ag_inheritedRequestRetryCount = ag_inheritedRequestRetryCount a + ag_inheritedRequestRetryCount other,
         ag_maxRequestRetryOverride =
           (if ag_hasRequestRetryOverride other
               \<and> (\<not> ag_hasRequestRetryOverride a
                  \<or> ag_maxRequestRetryOverride other > ag_maxRequestRetryOverride a)
            then ag_maxRequestRetryOverride other else ag_maxRequestRetryOverride a),
         ag_hasRequestRetryOverride = ag_hasRequestRetryOverride a \<or> ag_hasRequestRetryOverride other\<rparr>)"

definition aggregate_summary :: "availability_aggregate \<Rightarrow> gotime \<Rightarrow> int \<Rightarrow> dispatch_summary" where
  "aggregate_summary a now defaultRequestRetry0 =
     (let base = \<lparr>su_now = now, su_total = ag_total a, su_cooldownCount = ag_cooldownCount a,
                  su_earliest = ag_earliest a, su_requestRetry = 0, su_hasRequestRetry = False\<rparr>
      in if ag_total a = 0 then base
         else
           let defaultRequestRetry = (if defaultRequestRetry0 < 0 then 0 else defaultRequestRetry0);
               inherited = (if ag_inheritedRequestRetryCount a > 0 then defaultRequestRetry else 0);
               requestRetry = (if ag_hasRequestRetryOverride a \<and> ag_maxRequestRetryOverride a > inherited
                               then ag_maxRequestRetryOverride a else inherited)
           in base\<lparr>su_requestRetry := requestRetry, su_hasRequestRetry := True\<rparr>)"

subsection \<open>Entries\<close>

definition meta_supportsModel :: "scheduled_meta \<Rightarrow> string \<Rightarrow> bool" where
  "meta_supportsModel m modelKey0 =
     (let modelKey = canonicalModelKey modelKey0
      in modelKey = [] \<or> List.member (sm_supported m) modelKey)"

definition hasRegisteredModel :: "scheduled_meta \<Rightarrow> string \<Rightarrow> bool" where
  "hasRegisteredModel m modelKey0 =
     (let modelKey = to_lower (trim_space modelKey0)
      in modelKey = [] \<or> List.member (sm_registered m) modelKey)"

definition supportedModelSetsForAuth :: "scheduler_env \<Rightarrow> string \<Rightarrow> string list \<times> string list" where
  "supportedModelSetsForAuth env authID0 =
     (let authID = trim_space authID0
      in if authID = [] then ([], [])
         else let models = ev_models env authID
              in (remdups (filter (\<lambda>k. k \<noteq> []) (map canonicalModelKey models)),
                  remdups (filter (\<lambda>k. k \<noteq> []) (map (\<lambda>m. to_lower (trim_space m)) models))))"

definition buildScheduledAuthMeta :: "scheduler_env \<Rightarrow> auth \<Rightarrow> scheduled_meta" where
  "buildScheduledAuthMeta env a =
     (let (supported, registered) = supportedModelSetsForAuth env (au_ID a)
      in \<lparr>sm_auth = a, sm_providerKey = to_lower (trim_space (au_Provider a)),
          sm_priority = authPriority (Some a), sm_websocketEnabled = authWebsocketsEnabled (Some a),
          sm_supported = supported, sm_registered = registered\<rparr>)"

definition runtimeModelKeyForAuth :: "scheduler_env \<Rightarrow> string \<Rightarrow> auth \<Rightarrow> string" where
  "runtimeModelKeyForAuth env modelKey a =
     (let key = canonicalModelKey (trim_space (ev_modelResolver env a modelKey))
      in if key \<noteq> [] then key else canonicalModelKey modelKey)"

definition block_state :: "bool \<times> block_reason \<times> gotime \<Rightarrow> scheduled_state \<times> gotime" where
  "block_state blk =
     (let (blocked, reason, next) = blk
      in if \<not> blocked then (SchedReady, 0)
         else if reason = BlockReasonCooldown then (SchedCooldown, next)
         else if reason = BlockReasonDisabled then (SchedDisabled, 0)
         else (SchedBlocked, next))"

definition refreshEntryState :: "scheduler_env \<Rightarrow> string \<Rightarrow> gotime \<Rightarrow> scheduled_auth \<Rightarrow> scheduled_auth" where
  "refreshEntryState env modelKey now e =
     (let a = se_auth e;
          (blockedModel, blk) = dispatchModelBlockStatus (Some a) (runtimeModelKeyForAuth env modelKey a)
             modelKey now;
          (st, nextRetryAt) = block_state blk;
          base = \<lparr>se_meta = se_meta e, se_auth = a,
            se_schedulerEligible = meta_supportsModel (se_meta e) modelKey,
            se_state = st, se_nextRetryAt = nextRetryAt,
            se_retryRoundEligible = False, se_retryRoundCooldown = False, se_retryRoundNext = 0,
            se_requestRetryOverride = RequestRetryOverride (ev_conv env) a,
            se_alphaSearchAllowed = credentialPolicyAllows CredentialPolicyCodexAlphaSearchV1 (Some a)\<rparr>
      in if \<not> hasRegisteredModel (se_meta e) (canonicalModelKey modelKey) then base
         else
           let (blocked, reason, next) = blk;
               (available, retryReason, retryNext) =
                  classifyDispatchAvailability (Some a) blockedModel blocked reason next now
           in if \<not> available \<and> retryReason \<noteq> BlockReasonCooldown then base
              else if available then base\<lparr>se_retryRoundEligible := True\<rparr>
              else base\<lparr>se_retryRoundEligible := True, se_retryRoundCooldown := True,
                        se_retryRoundNext := retryNext\<rparr>)"

definition new_entry :: "scheduler_env \<Rightarrow> string \<Rightarrow> gotime \<Rightarrow> scheduled_meta \<Rightarrow> scheduled_auth" where
  "new_entry env modelKey now m =
     refreshEntryState env modelKey now
       \<lparr>se_meta = m, se_auth = ev_availability env (sm_auth m) now, se_schedulerEligible = False,
        se_state = SchedReady, se_nextRetryAt = 0, se_retryRoundEligible = False,
        se_retryRoundCooldown = False, se_retryRoundNext = 0, se_requestRetryOverride = None,
        se_alphaSearchAllowed = False\<rparr>"

text \<open>What the indexes of a shard depend on.\<close>

definition index_fields :: "scheduled_auth \<Rightarrow>
    (scheduled_state \<times> gotime \<times> bool) \<times> (bool \<times> bool \<times> gotime) \<times> int option \<times> bool \<times> int \<times> bool" where
  "index_fields e =
     ((se_state e, se_nextRetryAt e, se_schedulerEligible e),
      (se_retryRoundEligible e, se_retryRoundCooldown e, se_retryRoundNext e),
      se_requestRetryOverride e, se_alphaSearchAllowed e, sm_priority (se_meta e), sm_websocketEnabled (se_meta e))"

subsection \<open>Indexes\<close>

definition normalizeCursor :: "int \<Rightarrow> int \<Rightarrow> int" where
  "normalizeCursor cursor n = (if n \<le> 0 \<or> cursor \<le> 0 then 0 else cursor mod n)"

definition ready_entries :: "model_shard \<Rightarrow> (string \<times> scheduled_auth) list" where
  "ready_entries sh =
     filter (\<lambda>(k, e). se_schedulerEligible e \<and> se_state e = SchedReady) (sh_entries sh)"

definition buildReadyView :: "(string \<times> scheduled_auth) list \<Rightarrow> ready_view" where
  "buildReadyView entries = \<lparr>vw_flat = map fst entries, vw_cursor = 0\<rparr>"

definition buildReadyBucket :: "(string \<times> scheduled_auth) list \<Rightarrow> ready_bucket" where
  "buildReadyBucket entries =
     \<lparr>bk_all = buildReadyView entries,
      bk_ws = buildReadyView (filter (\<lambda>(k, e). sm_websocketEnabled (se_meta e)) entries)\<rparr>"

definition restoreReadyViewCursors :: "ready_view \<Rightarrow> int \<Rightarrow> ready_view" where
  "restoreReadyViewCursors view cursor =
     (if vw_flat view \<noteq> [] then view\<lparr>vw_cursor := normalizeCursor cursor (int (length (vw_flat view)))\<rparr>
      else view)"

definition rebuilt_bucket :: "(int, ready_bucket) gomap \<Rightarrow> (string \<times> scheduled_auth) list \<Rightarrow> int \<Rightarrow> ready_bucket" where
  "rebuilt_bucket old ready priority =
     (let bucket = buildReadyBucket (sort_key (\<lambda>(k, e). au_ID (se_auth e))
            (filter (\<lambda>(k, e). sm_priority (se_meta e) = priority) ready))
      in case map_of old priority of
           None \<Rightarrow> bucket
         | Some b \<Rightarrow>
             \<lparr>bk_all = restoreReadyViewCursors (bk_all bucket) (vw_cursor (bk_all b)),
              bk_ws = restoreReadyViewCursors (bk_ws bucket) (vw_cursor (bk_ws b))\<rparr>)"

text \<open>The order of the blocked entries: by retry time, with no retry time last, then by ID.\<close>

definition blocked_order :: "scheduled_auth \<Rightarrow> bool \<times> gotime \<times> string" where
  "blocked_order e = (se_nextRetryAt e = 0, se_nextRetryAt e, au_ID (se_auth e))"

definition blocked_entries :: "model_shard \<Rightarrow> (string \<times> scheduled_auth) list" where
  "blocked_entries sh =
     filter (\<lambda>(k, e). se_state e = SchedCooldown \<or> se_state e = SchedBlocked) (sh_entries sh)"

definition rebuildIndexes :: "model_shard \<Rightarrow> model_shard" where
  "rebuildIndexes sh =
     (let ready = ready_entries sh;
          priorities = remdups (map (\<lambda>(k, e). sm_priority (se_meta e)) ready)
      in sh\<lparr>sh_priorityOrder := rev (sort priorities),
            sh_readyByPriority := map (\<lambda>p. (p, rebuilt_bucket (sh_readyByPriority sh) ready p)) priorities,
            sh_blocked := map fst (sort_key (\<lambda>(k, e). blocked_order e) (blocked_entries sh)),
            sh_retryRoundAll := foldl aggregate_add no_aggregate (map snd (sh_entries sh)),
            sh_retryRoundAlphaSearch := foldl aggregate_add no_aggregate
              (filter se_alphaSearchAllowed (map snd (sh_entries sh)))\<rparr>)"

definition upsertEntry :: "scheduler_env \<Rightarrow> scheduled_meta \<Rightarrow> gotime \<Rightarrow> model_shard \<Rightarrow> model_shard" where
  "upsertEntry env m now sh =
     (let key = au_ID (sm_auth m);
          entry = new_entry env (sh_modelKey sh) now m;
          sh' = sh\<lparr>sh_entries := AList.update key entry (sh_entries sh)\<rparr>
      in case map_of (sh_entries sh) key of
           Some previous \<Rightarrow> if index_fields previous = index_fields entry then sh' else rebuildIndexes sh'
         | None \<Rightarrow> rebuildIndexes sh')"

definition removeEntry :: "string \<Rightarrow> model_shard \<Rightarrow> model_shard" where
  "removeEntry authID sh =
     (if authID = [] \<or> map_of (sh_entries sh) authID = None then sh
      else rebuildIndexes (sh\<lparr>sh_entries := AList.delete authID (sh_entries sh)\<rparr>))"

text \<open>The blocked entries are walked in order, up to the first whose time has not come.\<close>

fun promote_loop :: "scheduler_env \<Rightarrow> string \<Rightarrow> gotime \<Rightarrow> string list \<Rightarrow> (string, scheduled_auth) gomap \<Rightarrow> bool
    \<Rightarrow> (string, scheduled_auth) gomap \<times> bool" where
  "promote_loop env modelKey now [] entries changed = (entries, changed)"
| "promote_loop env modelKey now (key # blocked) entries changed =
     (case map_of entries key of
        None \<Rightarrow> promote_loop env modelKey now blocked entries changed
      | Some entry \<Rightarrow>
          if se_nextRetryAt entry = 0 \<or> se_nextRetryAt entry > now then (entries, changed)
          else promote_loop env modelKey now blocked
            (AList.update key (refreshEntryState env modelKey now entry) entries) True)"

definition promoteExpired :: "scheduler_env \<Rightarrow> gotime \<Rightarrow> model_shard \<Rightarrow> model_shard" where
  "promoteExpired env now sh =
     (let (entries, changed) = promote_loop env (sh_modelKey sh) now (sh_blocked sh) (sh_entries sh) False
      in if changed then rebuildIndexes (sh\<lparr>sh_entries := entries\<rparr>) else sh)"

subsection \<open>Picking from a shard\<close>

definition entry_ok :: "(scheduled_auth \<Rightarrow> bool) \<Rightarrow> model_shard \<Rightarrow> string \<Rightarrow> bool" where
  "entry_ok pred sh key = (case map_of (sh_entries sh) key of None \<Rightarrow> False | Some e \<Rightarrow> pred e)"

definition pickFirst :: "(scheduled_auth \<Rightarrow> bool) \<Rightarrow> model_shard \<Rightarrow> ready_view \<Rightarrow> string option" where
  "pickFirst pred sh view = List.find (entry_ok pred sh) (vw_flat view)"

fun round_robin_loop :: "(string \<Rightarrow> bool) \<Rightarrow> string list \<Rightarrow> nat \<Rightarrow> nat list \<Rightarrow> (nat \<times> string) option" where
  "round_robin_loop ok flat start [] = None"
| "round_robin_loop ok flat start (offset # offsets) =
     (let index = (start + offset) mod length flat
      in if ok (flat ! index) then Some (index, flat ! index)
         else round_robin_loop ok flat start offsets)"

definition pickRoundRobin :: "(scheduled_auth \<Rightarrow> bool) \<Rightarrow> model_shard \<Rightarrow> ready_view \<Rightarrow> string option \<times> ready_view" where
  "pickRoundRobin pred sh view =
     (if vw_flat view = [] then (None, view)
      else
        let start = nat (vw_cursor view mod int (length (vw_flat view)))
        in case round_robin_loop (entry_ok pred sh) (vw_flat view) start [0..<length (vw_flat view)] of
             None \<Rightarrow> (None, view)
           | Some (index, key) \<Rightarrow> (Some key, view\<lparr>vw_cursor := int index + 1\<rparr>))"

definition highestReadyPriority :: "bool \<Rightarrow> (scheduled_auth \<Rightarrow> bool) \<Rightarrow> model_shard \<Rightarrow> int option" where
  "highestReadyPriority preferWebsocket pred sh =
     (let has = (\<lambda>sel priority. case map_of (sh_readyByPriority sh) priority of
            None \<Rightarrow> False | Some bucket \<Rightarrow> pickFirst pred sh (sel bucket) \<noteq> None);
          ws = (if preferWebsocket then List.find (has bk_ws) (sh_priorityOrder sh) else None)
      in if ws \<noteq> None then ws else List.find (has bk_all) (sh_priorityOrder sh))"

definition pickReadyAtPriority :: "bool \<Rightarrow> int \<Rightarrow> scheduler_strategy \<Rightarrow> (scheduled_auth \<Rightarrow> bool)
    \<Rightarrow> model_shard \<Rightarrow> auth option \<times> model_shard" where
  "pickReadyAtPriority preferWebsocket priority strategy pred sh =
     (case map_of (sh_readyByPriority sh) priority of
        None \<Rightarrow> (None, sh)
      | Some bucket \<Rightarrow>
          let ws = preferWebsocket \<and> pickFirst pred sh (bk_ws bucket) \<noteq> None;
              view = (if ws then bk_ws bucket else bk_all bucket);
              (picked, view') = (if strategy = StrategyFillFirst then (pickFirst pred sh view, view)
                                 else pickRoundRobin pred sh view);
              bucket' = (if ws then bucket\<lparr>bk_ws := view'\<rparr> else bucket\<lparr>bk_all := view'\<rparr>)
          in (Option.bind picked (\<lambda>key. map_option se_auth (map_of (sh_entries sh) key)),
              sh\<lparr>sh_readyByPriority := AList.update priority bucket' (sh_readyByPriority sh)\<rparr>))"

definition readyCountAtPriority :: "bool \<Rightarrow> int \<Rightarrow> model_shard \<Rightarrow> int" where
  "readyCountAtPriority preferWebsocket priority sh =
     (case map_of (sh_readyByPriority sh) priority of
        None \<Rightarrow> 0
      | Some bucket \<Rightarrow>
          if preferWebsocket \<and> vw_flat (bk_ws bucket) \<noteq> [] then int (length (vw_flat (bk_ws bucket)))
          else int (length (vw_flat (bk_all bucket))))"

definition pickReady :: "scheduler_env \<Rightarrow> gotime \<Rightarrow> bool \<Rightarrow> scheduler_strategy \<Rightarrow> (scheduled_auth \<Rightarrow> bool)
    \<Rightarrow> model_shard \<Rightarrow> auth option \<times> model_shard" where
  "pickReady env now preferWebsocket strategy pred sh0 =
     (let sh = promoteExpired env now sh0
      in case highestReadyPriority preferWebsocket pred sh of
           None \<Rightarrow> (None, sh)
         | Some priority \<Rightarrow> pickReadyAtPriority preferWebsocket priority strategy pred sh)"

definition availability_counts :: "(scheduled_auth \<Rightarrow> bool) \<Rightarrow> model_shard \<Rightarrow> int \<times> int \<times> gotime" where
  "availability_counts pred sh =
     (let candidates = filter (\<lambda>e. pred e \<and> se_schedulerEligible e) (map snd (sh_entries sh));
          cooling = filter (\<lambda>e. se_state e = SchedCooldown) candidates
      in (int (length candidates), int (length cooling), foldl earlier 0 (map se_nextRetryAt cooling)))"

definition unavailableError :: "string \<Rightarrow> string \<Rightarrow> (scheduled_auth \<Rightarrow> bool) \<Rightarrow> gotime \<Rightarrow> model_shard \<Rightarrow> dispatch_error" where
  "unavailableError provider model pred now sh =
     (let (candidates, cooldownCount, earliest) = availability_counts pred sh
      in dispatchUnavailableError model provider candidates cooldownCount earliest now)"

subsection \<open>Providers\<close>

definition empty_shard :: "string \<Rightarrow> model_shard" where
  "empty_shard modelKey = \<lparr>sh_modelKey = modelKey, sh_entries = [], sh_priorityOrder = [],
     sh_readyByPriority = [], sh_blocked = [], sh_retryRoundAll = no_aggregate,
     sh_retryRoundAlphaSearch = no_aggregate\<rparr>"

definition meta_serves :: "string \<Rightarrow> scheduled_meta \<Rightarrow> bool" where
  "meta_serves modelKey m \<longleftrightarrow> meta_supportsModel m modelKey \<or> hasRegisteredModel m modelKey"

definition provider_upsertAuth :: "scheduler_env \<Rightarrow> scheduled_meta \<Rightarrow> gotime \<Rightarrow> provider_scheduler \<Rightarrow> provider_scheduler" where
  "provider_upsertAuth env m now p =
     p\<lparr>pv_auths := AList.update (au_ID (sm_auth m)) m (pv_auths p),
       pv_modelShards := map (\<lambda>(modelKey, sh).
         (modelKey, if meta_serves modelKey m then upsertEntry env m now sh
                    else removeEntry (au_ID (sm_auth m)) sh)) (pv_modelShards p)\<rparr>"

definition provider_removeAuth :: "string \<Rightarrow> provider_scheduler \<Rightarrow> provider_scheduler" where
  "provider_removeAuth authID p =
     (if authID = [] then p
      else p\<lparr>pv_auths := AList.delete authID (pv_auths p),
             pv_modelShards := map (\<lambda>(modelKey, sh). (modelKey, removeEntry authID sh)) (pv_modelShards p)\<rparr>)"

definition build_shard :: "scheduler_env \<Rightarrow> string \<Rightarrow> gotime \<Rightarrow> (string, scheduled_meta) gomap \<Rightarrow> model_shard" where
  "build_shard env modelKey now metas =
     rebuildIndexes ((empty_shard modelKey)\<lparr>sh_entries :=
       map (\<lambda>(k, m). (au_ID (sm_auth m), new_entry env modelKey now m))
         (filter (\<lambda>(k, m). meta_serves modelKey m) metas)\<rparr>)"

definition ensureModel :: "scheduler_env \<Rightarrow> gotime \<Rightarrow> string \<Rightarrow> provider_scheduler \<Rightarrow> model_shard \<times> provider_scheduler" where
  "ensureModel env now modelKey0 p =
     (let modelKey = canonicalModelKey modelKey0;
          sh = (case map_of (pv_modelShards p) modelKey of
              Some sh \<Rightarrow> promoteExpired env now sh
            | None \<Rightarrow> build_shard env modelKey now (pv_auths p))
      in (sh, p\<lparr>pv_modelShards := AList.update modelKey sh (pv_modelShards p)\<rparr>))"

subsection \<open>The scheduler\<close>

definition selectorStrategy :: "selector_kind \<Rightarrow> scheduler_strategy" where
  "selectorStrategy selector =
     (case selector of
        FillFirstKind \<Rightarrow> StrategyFillFirst
      | RoundRobinKind \<Rightarrow> StrategyRoundRobin
      | NoSelectorKind \<Rightarrow> StrategyRoundRobin
      | OtherSelectorKind \<Rightarrow> StrategyCustom)"

definition newAuthScheduler :: "selector_kind \<Rightarrow> auth_scheduler" where
  "newAuthScheduler selector = \<lparr>sd_strategy = selectorStrategy selector, sd_providers = [],
     sd_authProviders = [], sd_mixedCursors = []\<rparr>"

definition setSelector :: "selector_kind \<Rightarrow> auth_scheduler \<Rightarrow> auth_scheduler" where
  "setSelector selector s = s\<lparr>sd_strategy := selectorStrategy selector, sd_mixedCursors := []\<rparr>"

definition resetModelShards :: "auth_scheduler \<Rightarrow> auth_scheduler" where
  "resetModelShards s =
     s\<lparr>sd_providers := map (\<lambda>(k, p). (k, p\<lparr>pv_modelShards := []\<rparr>)) (sd_providers s), sd_mixedCursors := []\<rparr>"

definition change_provider :: "string \<Rightarrow> (provider_scheduler \<Rightarrow> provider_scheduler) \<Rightarrow> auth_scheduler \<Rightarrow> auth_scheduler" where
  "change_provider key f s =
     (case map_of (sd_providers s) key of
        None \<Rightarrow> s
      | Some p \<Rightarrow> s\<lparr>sd_providers := AList.update key (f p) (sd_providers s)\<rparr>)"

definition removeAuthLocked :: "string \<Rightarrow> auth_scheduler \<Rightarrow> auth_scheduler" where
  "removeAuthLocked authID s =
     (let providerKey = gomap_get [] (sd_authProviders s) authID
      in if authID = [] \<or> providerKey = [] then s
         else (change_provider providerKey (provider_removeAuth authID) s)
                \<lparr>sd_authProviders := AList.delete authID (sd_authProviders s)\<rparr>)"

definition ensureProvider :: "string \<Rightarrow> auth_scheduler \<Rightarrow> auth_scheduler" where
  "ensureProvider key s =
     (if map_of (sd_providers s) key = None
      then s\<lparr>sd_providers := AList.update key \<lparr>pv_auths = [], pv_modelShards = []\<rparr> (sd_providers s)\<rparr> else s)"

definition upsertAuth :: "scheduler_env \<Rightarrow> gotime \<Rightarrow> auth \<Rightarrow> auth_scheduler \<Rightarrow> auth_scheduler" where
  "upsertAuth env now a s =
     (let authID = trim_space (au_ID a); providerKey = to_lower (trim_space (au_Provider a))
      in if authID = [] \<or> providerKey = [] \<or> au_Disabled a then removeAuthLocked authID s
         else
           let previous = gomap_get [] (sd_authProviders s) authID;
               s1 = (if previous \<noteq> [] \<and> previous \<noteq> providerKey
                     then change_provider previous (provider_removeAuth authID) s else s);
               m = buildScheduledAuthMeta env a;
               s2 = s1\<lparr>sd_authProviders := AList.update authID providerKey (sd_authProviders s1)\<rparr>
           in change_provider providerKey (provider_upsertAuth env m now) (ensureProvider providerKey s2))"

definition removeAuth :: "string \<Rightarrow> auth_scheduler \<Rightarrow> auth_scheduler" where
  "removeAuth authID0 s =
     (let authID = trim_space authID0 in if authID = [] then s else removeAuthLocked authID s)"

subsection \<open>Picking\<close>

definition schedulerPredicate :: "string list \<Rightarrow> string list option \<Rightarrow> string \<Rightarrow> int \<Rightarrow> int \<Rightarrow> scheduled_auth \<Rightarrow> bool" where
  "schedulerPredicate tried allowed credentialPolicy retryRound defaultRequestRetry e \<longleftrightarrow>
     (if retryRound > 0
         \<and> (case se_requestRetryOverride e of Some v \<Rightarrow> v | None \<Rightarrow> defaultRequestRetry) < retryRound
      then False
      else if List.member tried (au_ID (se_auth e)) then False
      else authAllowedByID (au_ID (se_auth e)) allowed \<and> credentialPolicyAllows credentialPolicy (Some (se_auth e)))"

definition options_predicate :: "options \<Rightarrow> string list \<Rightarrow> scheduled_auth \<Rightarrow> bool" where
  "options_predicate opts tried = schedulerPredicate tried (allowedAuthIDsFromOptions opts)
     (credentialPolicyFromOptions opts) (requestRetryRoundFromOptions opts) (requestRetryDefaultFromOptions opts)"

definition no_auth :: dispatch_error where
  "no_auth = PlainError ''auth_not_found'' ''no auth available''"

definition ensure_shard :: "scheduler_env \<Rightarrow> gotime \<Rightarrow> string \<Rightarrow> string \<Rightarrow> auth_scheduler
    \<Rightarrow> model_shard option \<times> auth_scheduler" where
  "ensure_shard env now providerKey modelKey s =
     (case map_of (sd_providers s) providerKey of
        None \<Rightarrow> (None, s)
      | Some p \<Rightarrow>
          let (sh, p') = ensureModel env now modelKey p
          in (Some sh, s\<lparr>sd_providers := AList.update providerKey p' (sd_providers s)\<rparr>))"

text \<open>The shard a pick has changed, back in its place.\<close>

definition put_shard :: "string \<Rightarrow> string \<Rightarrow> model_shard \<Rightarrow> auth_scheduler \<Rightarrow> auth_scheduler" where
  "put_shard providerKey modelKey sh =
     change_provider providerKey (\<lambda>p. p\<lparr>pv_modelShards :=
       AList.update (canonicalModelKey modelKey) sh (pv_modelShards p)\<rparr>)"

definition current_strategy :: "scheduler_strategy \<Rightarrow> auth_scheduler \<Rightarrow> scheduler_strategy" where
  "current_strategy strategy s = (if strategy = StrategyCurrent then sd_strategy s else strategy)"

definition pickSingleWithStrategy :: "scheduler_env \<Rightarrow> gotime \<times> gotime \<times> gotime \<Rightarrow> string \<Rightarrow> string \<Rightarrow> options
    \<Rightarrow> string list \<Rightarrow> scheduler_strategy \<Rightarrow> auth_scheduler \<Rightarrow> auth_scheduler \<times> (dispatch_error + auth)" where
  "pickSingleWithStrategy env times3 provider model opts tried strategy s =
     (let (t1, t2, t3) = times3;
          providerKey = to_lower (trim_space provider); modelKey = canonicalModelKey model;
          pred = options_predicate opts tried
      in case ensure_shard env t1 providerKey modelKey s of
           (None, s1) \<Rightarrow> (s1, Inl no_auth)
         | (Some sh, s1) \<Rightarrow>
             let (picked, sh') = pickReady env t2 False (current_strategy strategy s) pred sh;
                 s2 = put_shard providerKey modelKey sh' s1
             in case picked of
                  Some a \<Rightarrow> (s2, Inr a)
                | None \<Rightarrow> (s2, Inl (unavailableError provider model pred t3 sh')))"

definition pickSingle :: "scheduler_env \<Rightarrow> gotime \<times> gotime \<times> gotime \<Rightarrow> string \<Rightarrow> string \<Rightarrow> options
    \<Rightarrow> string list \<Rightarrow> auth_scheduler \<Rightarrow> auth_scheduler \<times> (dispatch_error + auth)" where
  "pickSingle env times3 provider model opts tried =
     pickSingleWithStrategy env times3 provider model opts tried StrategyCurrent"

fun ensure_shards :: "scheduler_env \<Rightarrow> gotime \<Rightarrow> string \<Rightarrow> string list \<Rightarrow> auth_scheduler
    \<Rightarrow> (string \<times> model_shard option) list \<times> auth_scheduler" where
  "ensure_shards env now modelKey [] s = ([], s)"
| "ensure_shards env now modelKey (provider # providers) s =
     (let (sh, s1) = ensure_shard env now provider modelKey s;
          (shards, s2) = ensure_shards env now modelKey providers s1
      in ((provider, sh) # shards, s2))"

fun sum_counts :: "(scheduled_auth \<Rightarrow> bool) \<Rightarrow> (string \<times> model_shard option) list
    \<Rightarrow> int \<times> int \<times> gotime \<Rightarrow> int \<times> int \<times> gotime" where
  "sum_counts pred [] acc = acc"
| "sum_counts pred ((provider, None) # shards) acc = sum_counts pred shards acc"
| "sum_counts pred ((provider, Some sh) # shards) (candidates, cooldownCount, earliest) =
     (let (localTotal, localCooldownCount, localEarliest) = availability_counts pred sh
      in sum_counts pred shards
           (candidates + localTotal, cooldownCount + localCooldownCount, earlier earliest localEarliest))"

definition mixedUnavailableError :: "scheduler_env \<Rightarrow> gotime \<Rightarrow> string list \<Rightarrow> string \<Rightarrow> (scheduled_auth \<Rightarrow> bool)
    \<Rightarrow> auth_scheduler \<Rightarrow> auth_scheduler \<times> (dispatch_error + 'a)" where
  "mixedUnavailableError env now providers model pred s =
     (let (shards, s') = ensure_shards env now (canonicalModelKey model) providers s;
          (candidates, cooldownCount, earliest) = sum_counts pred shards (0, 0, 0)
      in (s', Inl (dispatchUnavailableError model [] candidates cooldownCount earliest now)))"

fun best_ready_priority :: "(scheduled_auth \<Rightarrow> bool) \<Rightarrow> (string \<times> model_shard option) list \<Rightarrow> int option \<Rightarrow> int option" where
  "best_ready_priority pred [] best = best"
| "best_ready_priority pred ((provider, None) # shards) best = best_ready_priority pred shards best"
| "best_ready_priority pred ((provider, Some sh) # shards) best =
     best_ready_priority pred shards
       (case highestReadyPriority False pred sh of
          None \<Rightarrow> best
        | Some p \<Rightarrow> (case best of None \<Rightarrow> Some p | Some b \<Rightarrow> if p > b then Some p else best))"

fun fill_first_loop :: "(scheduled_auth \<Rightarrow> bool) \<Rightarrow> int \<Rightarrow> (string \<times> model_shard option) list \<Rightarrow> (auth \<times> string) option" where
  "fill_first_loop pred priority [] = None"
| "fill_first_loop pred priority ((provider, None) # shards) = fill_first_loop pred priority shards"
| "fill_first_loop pred priority ((provider, Some sh) # shards) =
     (case fst (pickReadyAtPriority False priority StrategyFillFirst pred sh) of
        Some a \<Rightarrow> Some (a, provider)
      | None \<Rightarrow> fill_first_loop pred priority shards)"

definition shard_weight :: "int \<Rightarrow> string \<times> model_shard option \<Rightarrow> int" where
  "shard_weight priority entry =
     (case snd entry of None \<Rightarrow> 0 | Some sh \<Rightarrow> readyCountAtPriority False priority sh)"

definition segment_start :: "int list \<Rightarrow> nat \<Rightarrow> int" where
  "segment_start weights i = sum_list (take i weights)"

text \<open>The walk over the providers from the one that owns the start slot.\<close>

fun mixed_loop :: "(scheduled_auth \<Rightarrow> bool) \<Rightarrow> int \<Rightarrow> (string \<times> model_shard option) list \<Rightarrow> int list \<Rightarrow> nat \<Rightarrow> int
    \<Rightarrow> nat list \<Rightarrow> (auth \<times> string \<times> model_shard \<times> int) option" where
  "mixed_loop pred priority shards weights start startSlot [] = None"
| "mixed_loop pred priority shards weights start startSlot (offset # offsets) =
     (let i = (start + offset) mod length shards
      in if weights ! i = 0 then mixed_loop pred priority shards weights start startSlot offsets
         else
           let slot = (if i \<noteq> start then segment_start weights i else startSlot)
           in case snd (shards ! i) of
                None \<Rightarrow> mixed_loop pred priority shards weights start startSlot offsets
              | Some sh \<Rightarrow>
                  (case pickReadyAtPriority False priority StrategyRoundRobin pred sh of
                     (None, _) \<Rightarrow> mixed_loop pred priority shards weights start startSlot offsets
                   | (Some a, sh') \<Rightarrow> Some (a, fst (shards ! i), sh', slot)))"

fun join_comma :: "string list \<Rightarrow> string" where
  "join_comma [] = []"
| "join_comma [x] = x"
| "join_comma (x # y # xs) = x @ '','' @ join_comma (y # xs)"

definition pickMixedWithStrategy :: "scheduler_env \<Rightarrow> gotime \<times> gotime \<times> gotime \<Rightarrow> string list \<Rightarrow> string \<Rightarrow> options
    \<Rightarrow> string list \<Rightarrow> scheduler_strategy \<Rightarrow> auth_scheduler \<Rightarrow> auth_scheduler \<times> (dispatch_error + auth \<times> string)" where
  "pickMixedWithStrategy env times3 providers model opts tried strategy0 s =
     (let normalized = normalizeProviderKeys providers; (t1, t2, t3) = times3
      in case normalized of
           [] \<Rightarrow> (s, Inl (PlainError ''provider_not_found'' ''no provider supplied''))
         | [providerKey] \<Rightarrow>
             (case pickSingleWithStrategy env times3 providerKey model opts tried strategy0 s of
                (s', Inl e) \<Rightarrow> (s', Inl e)
              | (s', Inr a) \<Rightarrow> (s', Inr (a, providerKey)))
         | _ \<Rightarrow>
             let modelKey = canonicalModelKey model;
                 strategy = current_strategy strategy0 s;
                 pred = options_predicate opts tried;
                 (shards, s1) = ensure_shards env t1 modelKey normalized s;
                 failed = mixedUnavailableError env t2 normalized model pred s1
             in case best_ready_priority pred shards None of
                  None \<Rightarrow> failed
                | Some priority \<Rightarrow>
                    if strategy = StrategyFillFirst
                    then (case fill_first_loop pred priority shards of
                            Some (a, providerKey) \<Rightarrow> (s1, Inr (a, providerKey))
                          | None \<Rightarrow> failed)
                    else
                      let cursorKey = join_comma normalized @ '':'' @ modelKey;
                          weights = map (shard_weight priority) shards;
                          totalWeight = sum_list weights
                      in if totalWeight = 0 then failed
                         else
                           let startSlot = gomap_get 0 (sd_mixedCursors s1) cursorKey mod totalWeight
                           in case List.find (\<lambda>i. weights ! i \<noteq> 0 \<and> startSlot < segment_start weights (Suc i))
                                     [0..<length normalized] of
                                None \<Rightarrow> failed
                              | Some start \<Rightarrow>
                                  (case mixed_loop pred priority shards weights start startSlot [0..<length normalized] of
                                     None \<Rightarrow> failed
                                   | Some (a, providerKey, sh', slot) \<Rightarrow>
                                       ((put_shard providerKey modelKey sh' s1)
                                          \<lparr>sd_mixedCursors := AList.update cursorKey (slot + 1) (sd_mixedCursors s1)\<rparr>,
                                        Inr (a, providerKey))))"

definition pickMixed :: "scheduler_env \<Rightarrow> gotime \<times> gotime \<times> gotime \<Rightarrow> string list \<Rightarrow> string \<Rightarrow> options
    \<Rightarrow> string list \<Rightarrow> auth_scheduler \<Rightarrow> auth_scheduler \<times> (dispatch_error + auth \<times> string)" where
  "pickMixed env times3 providers model opts tried =
     pickMixedWithStrategy env times3 providers model opts tried StrategyCurrent"

subsection \<open>The summary of a retry round\<close>

definition summary_admits :: "scheduler_env \<Rightarrow> string list \<Rightarrow> string \<Rightarrow> int \<Rightarrow> int \<Rightarrow> string \<times> scheduled_auth \<Rightarrow> bool" where
  "summary_admits env excluded credentialPolicy retryRound defaultRequestRetry entry \<longleftrightarrow>
     \<not> List.member excluded (fst entry) \<and> credentialPolicyAllows credentialPolicy (Some (se_auth (snd entry)))
     \<and> requestRetryRoundAllowed (ev_conv env) (se_auth (snd entry)) retryRound defaultRequestRetry"

definition allowed_entries :: "auth_scheduler \<Rightarrow> (string \<times> model_shard option) list \<Rightarrow> string list
    \<Rightarrow> (string \<times> scheduled_auth) list" where
  "allowed_entries s shards allowed =
     List.map_filter (\<lambda>authID.
       case map_of shards (gomap_get [] (sd_authProviders s) authID) of
         Some (Some sh) \<Rightarrow> map_option (\<lambda>e. (authID, e)) (map_of (sh_entries sh) authID)
       | _ \<Rightarrow> None) allowed"

definition all_entries :: "(string \<times> model_shard option) list \<Rightarrow> (string \<times> scheduled_auth) list" where
  "all_entries shards = concat (map (\<lambda>(provider, sh). case sh of None \<Rightarrow> [] | Some sh \<Rightarrow> sh_entries sh) shards)"

definition merged_aggregate :: "string \<Rightarrow> (string \<times> model_shard option) list \<Rightarrow> availability_aggregate" where
  "merged_aggregate credentialPolicy shards =
     foldl (\<lambda>acc (provider, sh). case sh of
         None \<Rightarrow> acc
       | Some sh \<Rightarrow>
           if credentialPolicy = [] then aggregate_merge acc (sh_retryRoundAll sh)
           else if credentialPolicy = CredentialPolicyCodexAlphaSearchV1
           then aggregate_merge acc (sh_retryRoundAlphaSearch sh)
           else foldl aggregate_add acc (filter (\<lambda>e. credentialPolicyAllows credentialPolicy (Some (se_auth e)))
                  (map snd (sh_entries sh))))
       no_aggregate shards"

definition summarizeDispatchAvailability :: "scheduler_env \<Rightarrow> gotime \<Rightarrow> string list \<Rightarrow> string \<Rightarrow> options \<Rightarrow> string list
    \<Rightarrow> int \<Rightarrow> auth_scheduler \<Rightarrow> auth_scheduler \<times> dispatch_summary" where
  "summarizeDispatchAvailability env now providers model opts excluded defaultRequestRetry s =
     (let normalized = normalizeProviderKeys providers;
          modelKey = canonicalModelKey model;
          none = aggregate_summary no_aggregate now defaultRequestRetry
      in if normalized = [] then (s, none)
         else if \<not> modelAllowedByID modelKey (allowedModelIDsFromOptions opts) then (s, none)
         else
           let credentialPolicy = credentialPolicyFromOptions opts;
               retryRound = requestRetryRoundFromOptions opts;
               (shards, s') = ensure_shards env now modelKey normalized s;
               admits = summary_admits env excluded credentialPolicy retryRound defaultRequestRetry;
               total_of = (\<lambda>entries. foldl aggregate_add no_aggregate (map snd (filter admits entries)));
               aggregate = (case allowedAuthIDsFromOptions opts of
                   Some allowed \<Rightarrow> total_of (allowed_entries s' shards allowed)
                 | None \<Rightarrow>
                     if excluded = [] \<and> retryRound = 0 then merged_aggregate credentialPolicy shards
                     else total_of (all_entries shards))
           in (s', aggregate_summary aggregate now defaultRequestRetry))"

end
