(* ===== verification/Scheduler_Index.thy ===== *)
theory Scheduler_Index
  imports Auth_Scheduler
begin

section \<open>The indexes of a shard\<close>

text \<open>
  The views, the order of the blocked entries and the sums of a shard are always those its entries ask
  for: rebuilding computes them, and an update that skips the rebuild changes no field they depend on.
\<close>

subsection \<open>Sorting\<close>

lemma insort_key_map: "(\<And>x. x \<in> set (y # xs) \<Longrightarrow> f (g x) = f x) \<Longrightarrow> insort_key f (g y) (map g xs) = map g (insort_key f y xs)"
  by (induction xs) auto

lemma sort_key_map: "(\<And>x. x \<in> set xs \<Longrightarrow> f (g x) = f x) \<Longrightarrow> sort_key f (map g xs) = map g (sort_key f xs)"
proof (induction xs)
  case (Cons y xs)
  then show ?case
    using insort_key_map [of y "sort_key f xs" f g] by simp
qed simp

lemma find_sorted:
  assumes "sorted (map f xs)" "List.find P xs = Some x" "y \<in> set xs" "P y"
  shows "f x \<le> f y"
  using assms by (induction xs) (auto split: if_splits)

lemma find_rev_sorted:
  fixes xs :: "'a::linorder list"
  assumes "sorted_wrt (\<ge>) xs" "List.find P xs = Some x" "y \<in> set xs" "P y"
  shows "y \<le> x"
  using assms by (induction xs) (auto split: if_splits)

lemma sorted_rev_sort: "sorted_wrt (\<ge>) (rev (sort xs))"
  by (simp add: sorted_wrt_rev)

lemma find_Some_iff_ex: "(\<exists>x. List.find P xs = Some x) \<longleftrightarrow> (\<exists>x\<in>set xs. P x)"
  by (induction xs) auto

lemma find_SomeD: "List.find P xs = Some x \<Longrightarrow> x \<in> set xs \<and> P x"
  by (induction xs) (auto split: if_splits)

subsection \<open>What the indexes are\<close>

type_synonym shard_view = "int list \<times> (int \<times> string list \<times> string list) list \<times> string list
  \<times> availability_aggregate \<times> availability_aggregate"

definition index_view :: "model_shard \<Rightarrow> shard_view" where
  "index_view sh =
     (sh_priorityOrder sh,
      map (\<lambda>(p, b). (p, vw_flat (bk_all b), vw_flat (bk_ws b))) (sh_readyByPriority sh),
      sh_blocked sh, sh_retryRoundAll sh, sh_retryRoundAlphaSearch sh)"

definition ready_of :: "(string \<times> scheduled_auth) list \<Rightarrow> (string \<times> scheduled_auth) list" where
  "ready_of es = filter (\<lambda>(k, e). se_schedulerEligible e \<and> se_state e = SchedReady) es"

definition ready_at :: "(string \<times> scheduled_auth) list \<Rightarrow> int \<Rightarrow> (string \<times> scheduled_auth) list" where
  "ready_at es p = sort_key (\<lambda>(k, e). au_ID (se_auth e)) (filter (\<lambda>(k, e). sm_priority (se_meta e) = p) (ready_of es))"

definition priorities_of :: "(string \<times> scheduled_auth) list \<Rightarrow> int list" where
  "priorities_of es = remdups (map (\<lambda>(k, e). sm_priority (se_meta e)) (ready_of es))"

definition wanted_view :: "(string \<times> scheduled_auth) list \<Rightarrow> shard_view" where
  "wanted_view es =
     (rev (sort (priorities_of es)),
      map (\<lambda>p. (p, map fst (ready_at es p),
                map fst (filter (\<lambda>(k, e). sm_websocketEnabled (se_meta e)) (ready_at es p)))) (priorities_of es),
      map fst (sort_key (\<lambda>(k, e). blocked_order e)
        (filter (\<lambda>(k, e). se_state e = SchedCooldown \<or> se_state e = SchedBlocked) es)),
      foldl aggregate_add no_aggregate (map snd es),
      foldl aggregate_add no_aggregate (filter se_alphaSearchAllowed (map snd es)))"

definition indexed :: "model_shard \<Rightarrow> bool" where
  "indexed sh \<longleftrightarrow> index_view sh = wanted_view (sh_entries sh)"

lemma restore_flat [simp]: "vw_flat (restoreReadyViewCursors v c) = vw_flat v"
  by (simp add: restoreReadyViewCursors_def)

lemma rebuild_entries [simp]: "sh_entries (rebuildIndexes sh) = sh_entries sh"
  "sh_modelKey (rebuildIndexes sh) = sh_modelKey sh"
  by (simp_all add: rebuildIndexes_def Let_def)

lemma rebuild_indexed: "indexed (rebuildIndexes sh)"
  by (auto simp: indexed_def index_view_def wanted_view_def rebuildIndexes_def Let_def ready_entries_def
      ready_of_def ready_at_def priorities_of_def blocked_entries_def rebuilt_bucket_def buildReadyBucket_def
      buildReadyView_def split: option.splits)

text \<open>Entries that agree in ID and indexed fields have the same indexes.\<close>

definition same_index :: "scheduled_auth \<Rightarrow> scheduled_auth \<Rightarrow> bool" where
  "same_index e e' \<longleftrightarrow> index_fields e = index_fields e' \<and> au_ID (se_auth e) = au_ID (se_auth e')"

lemma same_indexD:
  assumes "same_index e e'"
  shows "se_state e' = se_state e" "se_nextRetryAt e' = se_nextRetryAt e"
    "se_schedulerEligible e' = se_schedulerEligible e" "se_alphaSearchAllowed e' = se_alphaSearchAllowed e"
    "sm_priority (se_meta e') = sm_priority (se_meta e)"
    "sm_websocketEnabled (se_meta e') = sm_websocketEnabled (se_meta e)"
    "au_ID (se_auth e') = au_ID (se_auth e)" "aggregate_add a e' = aggregate_add a e"
    "blocked_order e' = blocked_order e"
  using assms by (auto simp: same_index_def index_fields_def aggregate_add_def blocked_order_def)

lemma foldl_map_same:
  "(\<And>a x. x \<in> set xs \<Longrightarrow> f a (g x) = f a x) \<Longrightarrow> foldl f a (map g xs) = foldl f a xs"
  by (induction xs arbitrary: a) auto

lemma filter_map_same:
  "(\<And>x. x \<in> set xs \<Longrightarrow> P (g x) = P x) \<Longrightarrow> filter P (map g xs) = map g (filter P xs)"
  by (induction xs) auto

lemma wanted_view_same:
  assumes "\<And>k e. (k, e) \<in> set es \<Longrightarrow> same_index e (h k e)"
  shows "wanted_view (map (\<lambda>(k, e). (k, h k e)) es) = wanted_view es"
proof -
  let ?g = "\<lambda>(k, e). (k, h k e)"
  note same = same_indexD [OF assms]
  have ready: "ready_of (map ?g es) = map ?g (ready_of es)"
    unfolding ready_of_def by (rule filter_map_same) (auto simp: same)
  have sub: "x \<in> set (ready_of es) \<Longrightarrow> x \<in> set es" for x
    by (simp add: ready_of_def)
  have prios: "priorities_of (map ?g es) = priorities_of es"
    unfolding priorities_of_def ready map_map
    by (intro arg_cong [where f = remdups] map_cong) (auto simp: same dest!: sub)
  have at: "ready_at (map ?g es) p = map ?g (ready_at es p)" for p
  proof -
    have "filter (\<lambda>(k, e). sm_priority (se_meta e) = p) (map ?g (ready_of es))
        = map ?g (filter (\<lambda>(k, e). sm_priority (se_meta e) = p) (ready_of es))"
      by (rule filter_map_same) (auto simp: same dest!: sub)
    then show ?thesis
      unfolding ready_at_def ready by (simp only:, intro sort_key_map) (auto simp: same dest!: sub)
  qed
  have sub2: "x \<in> set (ready_at es p) \<Longrightarrow> x \<in> set es" for x p
    by (auto simp: ready_at_def dest: sub)
  have fst: "map fst (map ?g xs) = map fst xs" for xs
    by (auto simp: comp_def split_def)
  have ws: "filter (\<lambda>(k, e). sm_websocketEnabled (se_meta e)) (map ?g (ready_at es p))
      = map ?g (filter (\<lambda>(k, e). sm_websocketEnabled (se_meta e)) (ready_at es p))" for p
    by (rule filter_map_same) (auto simp: same dest!: sub2)
  have "filter (\<lambda>(k, e). se_state e = SchedCooldown \<or> se_state e = SchedBlocked) (map ?g es)
      = map ?g (filter (\<lambda>(k, e). se_state e = SchedCooldown \<or> se_state e = SchedBlocked) es)"
    by (rule filter_map_same) (auto simp: same)
  then have blocked: "sort_key (\<lambda>(k, e). blocked_order e)
        (filter (\<lambda>(k, e). se_state e = SchedCooldown \<or> se_state e = SchedBlocked) (map ?g es))
      = map ?g (sort_key (\<lambda>(k, e). blocked_order e)
        (filter (\<lambda>(k, e). se_state e = SchedCooldown \<or> se_state e = SchedBlocked) es))"
    by (simp only:, intro sort_key_map) (auto simp: same)
  have snd: "map snd (map ?g es) = map (\<lambda>(k, e). h k e) es"
    by (auto simp: comp_def split_def)
  have all: "foldl aggregate_add no_aggregate (map (\<lambda>(k, e). h k e) es) = foldl aggregate_add no_aggregate (map snd es)"
    unfolding foldl_map by (rule foldl_cong) (auto simp: same)
  have alpha_list: "filter se_alphaSearchAllowed (map (\<lambda>(k, e). h k e) es)
      = map (\<lambda>(k, e). h k e) (filter (\<lambda>(k, e). se_alphaSearchAllowed e) es)"
    unfolding filter_map by (intro map_cong filter_cong) (auto simp: same)
  have alpha_old: "filter se_alphaSearchAllowed (map snd es) = map snd (filter (\<lambda>(k, e). se_alphaSearchAllowed e) es)"
    unfolding filter_map by (intro map_cong filter_cong) auto
  have alpha: "foldl aggregate_add no_aggregate (filter se_alphaSearchAllowed (map (\<lambda>(k, e). h k e) es))
      = foldl aggregate_add no_aggregate (filter se_alphaSearchAllowed (map snd es))"
    unfolding alpha_list alpha_old foldl_map by (rule foldl_cong) (auto simp: same)
  show ?thesis
    unfolding wanted_view_def prios at fst ws blocked snd all alpha ..
qed

lemma img_fst: "(a, b) \<in> set xs \<Longrightarrow> a \<in> fst ` set xs"
  by force

lemma update_map:
  assumes "distinct (map fst es)" "map_of es k = Some e0"
  shows "AList.update k e es = map (\<lambda>(k', e'). (k', if k' = k then e else e')) es"
  using assms
proof (induction es)
  case (Cons x es)
  show ?case
  proof (cases "fst x = k")
    case True
    then have "map (\<lambda>(k', e'). (k', if k' = k then e else e')) es = es"
      using Cons.prems(1) by (intro map_idI) (auto dest: img_fst)
    then show ?thesis
      using True by (cases x) simp
  next
    case False
    then show ?thesis
      using Cons by (cases x) auto
  qed
qed simp

lemma wanted_view_update:
  assumes "distinct (map fst es)" "map_of es k = Some e0" "same_index e0 e"
  shows "wanted_view (AList.update k e es) = wanted_view es"
proof -
  have "wanted_view (map (\<lambda>(k', e'). (k', if k' = k then e else e')) es) = wanted_view es"
  proof (rule wanted_view_same)
    fix k' e'
    assume "(k', e') \<in> set es"
    then have "map_of es k' = Some e'"
      using assms(1) by (simp add: map_of_is_SomeI)
    then show "same_index e' (if k' = k then e else e')"
      using assms(2,3) by (auto simp: same_index_def)
  qed
  then show ?thesis
    using update_map [OF assms(1,2)] by simp
qed

end
