(* ===== verification/Scheduler_Shard.thy ===== *)
theory Scheduler_Shard
  imports Scheduler_Index
begin

section \<open>Promotion and picking in a shard\<close>

text \<open>
  An entry remembers the state its credential had when it was last refreshed.  This theory shows that a
  promotion refreshes exactly the entries whose time has come, that nothing else could have changed in
  the meantime, and that a pick takes a ready entry of the highest priority that the request accepts.
\<close>

subsection \<open>Refreshing\<close>

lemma refresh_fixed [simp]:
  "se_meta (refreshEntryState env mk t e) = se_meta e" "se_auth (refreshEntryState env mk t e) = se_auth e"
  "se_schedulerEligible (refreshEntryState env mk t e) = meta_supportsModel (se_meta e) mk"
  by (auto simp: refreshEntryState_def Let_def split: prod.split)

lemma refresh_again [simp]: "refreshEntryState env mk t (refreshEntryState env mk t' e) = refreshEntryState env mk t e"
  unfolding refreshEntryState_def [of env mk t] refresh_fixed ..

abbreviation route_block :: "scheduler_env \<Rightarrow> string \<Rightarrow> auth \<Rightarrow> gotime \<Rightarrow> string \<times> bool \<times> block_reason \<times> gotime" where
  "route_block env mk a t \<equiv> dispatchModelBlockStatus (Some a) (runtimeModelKeyForAuth env mk a) mk t"

abbreviation not_dispatchable :: "scheduler_env \<Rightarrow> string \<Rightarrow> auth \<Rightarrow> gotime \<Rightarrow> bool" where
  "not_dispatchable env mk a t \<equiv> dispatch_blocked (Some a) (runtimeModelKeyForAuth env mk a) mk t"

lemma refresh_state:
  "(se_state (refreshEntryState env mk t e), se_nextRetryAt (refreshEntryState env mk t e))
     = block_state (snd (route_block env mk (se_auth e) t))"
  by (auto simp: refreshEntryState_def Let_def split: prod.split)

lemma refresh_ready: "se_state (refreshEntryState env mk t e) = SchedReady \<longleftrightarrow> \<not> not_dispatchable env mk (se_auth e) t"
  using refresh_state [of env mk t e]
  by (auto simp: block_state_def dispatch_blocked_def split: prod.splits if_splits)

text \<open>The retry round of an entry depends on the block and on the cooldown of the blocked model.\<close>

lemma refresh_cong:
  assumes "route_block env mk (se_auth e) t = route_block env mk (se_auth e) t'"
    and "isDispatchRetryRoundCooldown (Some (se_auth e)) (fst (route_block env mk (se_auth e) t)) t
       = isDispatchRetryRoundCooldown (Some (se_auth e)) (fst (route_block env mk (se_auth e) t)) t'
     \<or> \<not> not_dispatchable env mk (se_auth e) t
     \<or> fst (snd (snd (route_block env mk (se_auth e) t))) = BlockReasonDisabled"
  shows "refreshEntryState env mk t e = refreshEntryState env mk t' e"
proof -
  obtain bm b r n where rb: "route_block env mk (se_auth e) t = (bm, b, r, n)"
    by (cases "route_block env mk (se_auth e) t")
  then have "isDispatchRetryRoundCooldown (Some (se_auth e)) bm t = isDispatchRetryRoundCooldown (Some (se_auth e)) bm t'
      \<or> \<not> b \<or> r = BlockReasonDisabled"
    using assms(2) by (simp add: dispatch_blocked_def)
  then have "classifyDispatchAvailability (Some (se_auth e)) bm b r n t
      = classifyDispatchAvailability (Some (se_auth e)) bm b r n t'"
    by (elim disjE) (simp_all add: classifyDispatchAvailability_def)
  moreover obtain st nx where "block_state (b, r, n) = (st, nx)"
    by (cases "block_state (b, r, n)")
  ultimately show ?thesis
    using rb assms(1) by (simp add: refreshEntryState_def Let_def)
qed

subsection \<open>What time changes\<close>

text \<open>
  A model state whose quota recovers after its retry time is announced with the later time, although the
  selectors open it at the earlier one: a failure without quota that is answered after a 429 leaves such a
  state (\<^verbatim>\<open>result.go\<close> shortens the retry time and keeps the quota).  At time \<open>t\<close> a credential is \<open>prompt\<close>
  when each recovery time of its model states has come or is not after the retry time.
\<close>

definition prompt :: "gotime \<Rightarrow> auth \<Rightarrow> bool" where
  "prompt t a \<longleftrightarrow> list_all (\<lambda>(m, s). case s of None \<Rightarrow> True
     | Some st \<Rightarrow> q_NextRecoverAt (ms_Quota st) \<le> max t (ms_NextRetryAfter st)) (au_ModelStates a)"

lemma prompt_mono: "prompt t a \<Longrightarrow> t \<le> t' \<Longrightarrow> prompt t' a"
  by (auto simp: prompt_def list_all_iff split: option.splits)

lemma model_state_atD: "model_state_at a m = Some st \<Longrightarrow> (m, Some st) \<in> set (au_ModelStates a)"
  by (auto simp: model_state_at_def gomap_get_def dest: map_of_SomeD split: option.splits)

lemma prompt_state: "prompt t a \<Longrightarrow> state_for_model a m = Some st \<Longrightarrow> q_NextRecoverAt (ms_Quota st) \<le> max t (ms_NextRetryAfter st)"
  by (auto simp: prompt_def state_for_model_def list_all_iff Let_def dest!: model_state_atD
      split: option.splits if_splits)

lemma model_block_stays:
  assumes "q_NextRecoverAt (ms_Quota st) \<le> max t (ms_NextRetryAfter st)" "t0 \<le> t" "model_state_blocks st t0 = (True, r, n)"
    and "r \<noteq> BlockReasonDisabled \<Longrightarrow> n = 0 \<or> t < n"
  shows "model_state_blocks st t = (True, r, n) \<and> (r = BlockReasonDisabled \<or> ms_NextRetryAfter st > t)"
  using assms by (auto simp: model_state_blocks_def Let_def split: if_splits)

lemma block_stays:
  assumes "prompt t a" "t0 \<le> t" "isAuthBlockedForModel (Some a) m t0 = (True, r, n)"
    and "r \<noteq> BlockReasonDisabled \<Longrightarrow> n = 0 \<or> t < n"
  shows "isAuthBlockedForModel (Some a) m t = (True, r, n)"
  using assms model_block_stays [OF prompt_state]
  by (auto simp: isAuthBlockedForModel_def split: if_splits option.splits)

lemma unblocked_value: "\<not> fst (isAuthBlockedForModel auth m t) \<Longrightarrow> isAuthBlockedForModel auth m t = (False, BlockReasonNone, 0)"
  by (auto simp: isAuthBlockedForModel_def model_state_blocks_def Let_def split: option.splits if_splits)

lemma unblocked_later:
  "\<not> fst (isAuthBlockedForModel auth m t0) \<Longrightarrow> t0 \<le> t \<Longrightarrow>
     isAuthBlockedForModel auth m t = isAuthBlockedForModel auth m t0"
  using unblocked_value unblocked_stays by metis

lemma route_block_stays:
  assumes "prompt t a" "t0 \<le> t" "route_block env mk a t0 = (bm, b, r, n)"
    and "b \<Longrightarrow> r \<noteq> BlockReasonDisabled \<Longrightarrow> n = 0 \<or> t < n"
  shows "route_block env mk a t = (bm, b, r, n)"
proof -
  let ?R = "runtimeModelKeyForAuth env mk a"
  have stays: "isAuthBlockedForModel (Some a) m t = (b, r, n)" if "isAuthBlockedForModel (Some a) m t0 = (b, r, n)" for m
  proof (cases b)
    case True
    then show ?thesis
      using block_stays [OF assms(1,2), of m r n] that assms(4) by simp
  next
    case False
    then show ?thesis
      using unblocked_later [of "Some a" m t0 t] that assms(2) by simp
  qed
  show ?thesis
  proof (cases "\<not> fst (isAuthBlockedForModel (Some a) ?R t0) \<and> ?R \<noteq> canonicalModelKey mk")
    case True
    then have "bm = mk" "isAuthBlockedForModel (Some a) mk t0 = (b, r, n)"
      using assms(3) unfolding dispatchModelBlockStatus_def Let_def if_P [OF True] by auto
    then show ?thesis
      using True stays unblocked_later [of "Some a" ?R t0 t] assms(2) by (simp add: dispatchModelBlockStatus_def)
  next
    case False
    then have R: "bm = ?R" "isAuthBlockedForModel (Some a) ?R t0 = (b, r, n)"
      using assms(3) unfolding dispatchModelBlockStatus_def Let_def if_not_P [OF False] by auto
    then show ?thesis
      using False stays [OF R(2)] by (auto simp: dispatchModelBlockStatus_def)
  qed
qed

lemma route_ready_stays:
  assumes "t0 \<le> t" "\<not> not_dispatchable env mk a t0"
  shows "route_block env mk a t = route_block env mk a t0"
  using assms(2) unblocked_later [OF _ assms(1), of "Some a"]
  by (auto simp: dispatch_blocked_def dispatchModelBlockStatus_def Let_def split: if_splits)

text \<open>The cooldown of the blocked model lasts as long as the block, unless a refresh holds the credential.\<close>

lemma retry_round_stays:
  assumes "prompt t a" "\<not> RefreshBlocksDispatch (Some a)" "t0 \<le> t" "isAuthBlockedForModel (Some a) m t0 = (True, r, n)"
    and "r \<noteq> BlockReasonDisabled" "n = 0 \<or> t < n"
  shows "isDispatchRetryRoundCooldown (Some a) m t = isDispatchRetryRoundCooldown (Some a) m t0"
proof -
  obtain st where st: "state_for_model a m = Some st" "model_state_blocks st t0 = (True, r, n)"
    using assms(2,4,5) by (auto simp: isAuthBlockedForModel_def split: if_splits option.splits)
  have "ms_NextRetryAfter st > t" "ms_NextRetryAfter st > t0"
    using model_block_stays [OF prompt_state [OF assms(1) st(1)] assms(3) st(2)] assms(3,5,6) by auto
  moreover have "(if model_state_at a m = None then model_state_at a (canonicalModelKey m) else model_state_at a m) = Some st"
    using st(1) by (auto simp: state_for_model_def Let_def split: option.splits if_splits)
  ultimately show ?thesis
    by (simp add: isDispatchRetryRoundCooldown_def Let_def)
qed

subsection \<open>Entries\<close>

definition expired :: "gotime \<Rightarrow> scheduled_auth \<Rightarrow> bool" where
  "expired t e \<longleftrightarrow> (se_state e = SchedCooldown \<or> se_state e = SchedBlocked) \<and> se_nextRetryAt e \<noteq> 0 \<and> se_nextRetryAt e \<le> t"

definition fresh :: "scheduler_env \<Rightarrow> string \<Rightarrow> gotime \<Rightarrow> scheduled_auth \<Rightarrow> bool" where
  "fresh env mk t e \<longleftrightarrow> (\<exists>t0\<le>t. refreshEntryState env mk t0 e = e)"

lemma fresh_refresh: "t0 \<le> t \<Longrightarrow> fresh env mk t (refreshEntryState env mk t0 e)"
  by (auto simp: fresh_def)

lemma fresh_mono: "fresh env mk t e \<Longrightarrow> t \<le> t' \<Longrightarrow> fresh env mk t' e"
  by (meson fresh_def order_trans)

lemma fresh_ready_ok:
  assumes "fresh env mk t e" "se_state e = SchedReady"
  shows "\<not> not_dispatchable env mk (se_auth e) t" "refreshEntryState env mk t e = e"
proof -
  obtain t0 where t0: "t0 \<le> t" "refreshEntryState env mk t0 e = e"
    using assms(1) by (auto simp: fresh_def)
  then have ok: "\<not> not_dispatchable env mk (se_auth e) t0"
    using assms(2) refresh_ready by metis
  then show "\<not> not_dispatchable env mk (se_auth e) t"
    using dispatch_unblocked_stays t0(1) by blast
  have "refreshEntryState env mk t e = refreshEntryState env mk t0 e"
    by (rule refresh_cong) (use route_ready_stays [OF t0(1) ok] ok in \<open>auto simp: dispatch_blocked_def\<close>)
  then show "refreshEntryState env mk t e = e"
    using t0(2) by simp
qed

lemma unexpired_fresh:
  assumes "fresh env mk t e" "\<not> expired t e" "prompt t (se_auth e)"
  shows "(se_state (refreshEntryState env mk t e), se_nextRetryAt (refreshEntryState env mk t e))
      = (se_state e, se_nextRetryAt e)"
    and "\<not> RefreshBlocksDispatch (Some (se_auth e)) \<Longrightarrow> refreshEntryState env mk t e = e"
proof -
  obtain t0 where t0: "t0 \<le> t" "refreshEntryState env mk t0 e = e"
    using assms(1) by (auto simp: fresh_def)
  obtain bm b r n where rb: "route_block env mk (se_auth e) t0 = (bm, b, r, n)"
    by (cases "route_block env mk (se_auth e) t0")
  have st: "(se_state e, se_nextRetryAt e) = block_state (b, r, n)"
    using refresh_state [of env mk t0 e] t0(2) rb by simp
  have time: "n = 0 \<or> t < n" if "b" "r \<noteq> BlockReasonDisabled"
    using st that assms(2) by (auto simp: block_state_def expired_def split: if_splits)
  have rb': "route_block env mk (se_auth e) t = (bm, b, r, n)"
    using route_block_stays [OF assms(3) t0(1) rb] time by blast
  then show "(se_state (refreshEntryState env mk t e), se_nextRetryAt (refreshEntryState env mk t e))
      = (se_state e, se_nextRetryAt e)"
    using refresh_state [of env mk t e] st by simp
  assume plain: "\<not> RefreshBlocksDispatch (Some (se_auth e))"
  have "refreshEntryState env mk t e = refreshEntryState env mk t0 e"
  proof (rule refresh_cong)
    show "route_block env mk (se_auth e) t = route_block env mk (se_auth e) t0"
      using rb rb' by simp
    have "isAuthBlockedForModel (Some (se_auth e)) bm t0 = (b, r, n)"
      using rb by (auto simp: dispatchModelBlockStatus_def Let_def split: if_splits)
    then show "isDispatchRetryRoundCooldown (Some (se_auth e)) (fst (route_block env mk (se_auth e) t)) t
       = isDispatchRetryRoundCooldown (Some (se_auth e)) (fst (route_block env mk (se_auth e) t)) t0
     \<or> \<not> not_dispatchable env mk (se_auth e) t
     \<or> fst (snd (snd (route_block env mk (se_auth e) t))) = BlockReasonDisabled"
      using retry_round_stays [OF assms(3) plain t0(1), of bm r n] time rb'
      by (cases b) (auto simp: dispatch_blocked_def)
  qed
  then show "refreshEntryState env mk t e = e"
    using t0(2) by simp
qed

subsection \<open>Promotion\<close>

definition promoted :: "scheduler_env \<Rightarrow> string \<Rightarrow> gotime \<Rightarrow> (string \<times> scheduled_auth) list \<Rightarrow> (string \<times> scheduled_auth) list" where
  "promoted env mk t es = map (\<lambda>(k, e). (k, if expired t e then refreshEntryState env mk t e else e)) es"

lemma promoted_keys [simp]: "map fst (promoted env mk t es) = map fst es"
  by (auto simp: promoted_def)

lemma map_of_map_entries: "map_of (map (\<lambda>(k, e). (k, f k e)) es) k = map_option (f k) (map_of es k)"
  by (induction es) auto

lemma blocked_order_expired:
  assumes "blocked_order e \<le> blocked_order e'" "se_nextRetryAt e = 0 \<or> se_nextRetryAt e > t"
  shows "\<not> expired t e'"
  using assms by (auto simp: blocked_order_def expired_def)

lemma promote_loop_map:
  assumes "distinct (map fst es)" "distinct ks" "\<And>k. k \<in> set ks \<Longrightarrow> map_of es k = Some (f k)"
    and "sorted (map (\<lambda>k. blocked_order (f k)) ks)"
    and "\<And>k. k \<in> set ks \<Longrightarrow> se_state (f k) = SchedCooldown \<or> se_state (f k) = SchedBlocked"
  shows "promote_loop env mk t ks es c
    = (map (\<lambda>(k, e). (k, if k \<in> set ks \<and> expired t e then refreshEntryState env mk t e else e)) es,
       c \<or> (\<exists>k\<in>set ks. expired t (f k)))"
  using assms
proof (induction ks arbitrary: es c)
  case Nil
  show ?case
    by (simp add: map_idI split_beta)
next
  case (Cons k ks)
  have k: "map_of es k = Some (f k)"
    using Cons.prems(3) by simp
  have lookup: "e = f k'" if "(k', e) \<in> set es" "k' \<in> set (k # ks)" for k' e
    using Cons.prems(1,3) that by (metis map_of_is_SomeI option.inject)
  show ?case
  proof (cases "se_nextRetryAt (f k) = 0 \<or> se_nextRetryAt (f k) > t")
    case True
    have "\<not> expired t (f k')" if "k' \<in> set (k # ks)" for k'
      using that True Cons.prems(4) blocked_order_expired [of "f k" "f k'" t]
      by (auto simp: expired_def)
    then have "\<not> expired t e" if "(k', e) \<in> set es" "k' \<in> set (k # ks)" for k' e
      using that lookup by blast
    with \<open>\<And>k'. k' \<in> set (k # ks) \<Longrightarrow> \<not> expired t (f k')\<close> have none: "map (\<lambda>(k', e). (k', if k' \<in> set (k # ks) \<and> expired t e then refreshEntryState env mk t e else e)) es = es"
        "\<not> (\<exists>k'\<in>set (k # ks). expired t (f k'))"
      by (auto intro!: map_idI)
    show ?thesis
      unfolding none(1) using True k none(2) by auto
  next
    case False
    let ?es = "AList.update k (refreshEntryState env mk t (f k)) es"
    have exp: "expired t (f k)"
      using False Cons.prems(5) [of k] by (simp add: expired_def)
    have es: "?es = map (\<lambda>(k', e). (k', if k' = k then refreshEntryState env mk t (f k) else e)) es"
      by (rule update_map) (use Cons.prems(1) k in auto)
    have "promote_loop env mk t ks ?es True
        = (map (\<lambda>(k, e). (k, if k \<in> set ks \<and> expired t e then refreshEntryState env mk t e else e)) ?es, True)"
      by (subst Cons.IH) (use Cons.prems in \<open>auto simp: distinct_update update_Some_unfold update_conv'\<close>)
    moreover have "map (\<lambda>(k, e). (k, if k \<in> set ks \<and> expired t e then refreshEntryState env mk t e else e)) ?es
        = map (\<lambda>(k', e). (k', if k' \<in> set (k # ks) \<and> expired t e then refreshEntryState env mk t e else e)) es"
      unfolding es map_map using lookup exp Cons.prems(2) by (intro map_cong) auto
    ultimately show ?thesis
      using False k exp by simp
  qed
qed

definition shard_fine :: "model_shard \<Rightarrow> bool" where
  "shard_fine sh \<longleftrightarrow> distinct (map fst (sh_entries sh)) \<and> indexed sh"

lemma rebuild_fine [simp]: "distinct (map fst (sh_entries sh)) \<Longrightarrow> shard_fine (rebuildIndexes sh)"
  by (simp add: shard_fine_def rebuild_indexed)

lemma distinct_fst_sort: "distinct (map fst xs) \<Longrightarrow> distinct (map fst (sort_key f xs))"
  by (metis distinct_map distinct_sort set_sort)

lemma promoteExpired_fine:
  assumes "shard_fine sh"
  shows "sh_entries (promoteExpired env t sh) = promoted env (sh_modelKey sh) t (sh_entries sh)"
    and "sh_modelKey (promoteExpired env t sh) = sh_modelKey sh" "shard_fine (promoteExpired env t sh)"
proof -
  let ?es = "sh_entries sh" and ?ks = "sh_blocked sh"
  let ?f = "\<lambda>k. the (map_of ?es k)"
  let ?B = "filter (\<lambda>(k, e). se_state e = SchedCooldown \<or> se_state e = SchedBlocked) ?es"
  have d: "distinct (map fst ?es)" and ks: "?ks = map fst (sort_key (\<lambda>(k, e). blocked_order e) ?B)"
    using assms by (auto simp: shard_fine_def indexed_def index_view_def wanted_view_def)
  have f: "?f k = e" if "(k, e) \<in> set ?es" for k e
    using d that by (simp add: map_of_is_SomeI)
  have "map (\<lambda>k. blocked_order (?f k)) ?ks = map (\<lambda>(k, e). blocked_order e) (sort_key (\<lambda>(k, e). blocked_order e) ?B)"
    unfolding ks map_map by (rule map_cong) (auto simp: f)
  then have sorted: "sorted (map (\<lambda>k. blocked_order (?f k)) ?ks)"
    by simp
  have dks: "distinct ?ks"
    unfolding ks by (intro distinct_fst_sort) (use d in \<open>simp add: distinct_map_filter\<close>)
  have member: "k \<in> set ?ks \<longleftrightarrow> (\<exists>e. (k, e) \<in> set ?es \<and> (se_state e = SchedCooldown \<or> se_state e = SchedBlocked))" for k
    unfolding ks by force
  have loop: "promote_loop env (sh_modelKey sh) t ?ks ?es False
      = (promoted env (sh_modelKey sh) t ?es, \<exists>k\<in>set ?ks. expired t (?f k))"
  proof -
    have "promote_loop env (sh_modelKey sh) t ?ks ?es False
      = (map (\<lambda>(k, e). (k, if k \<in> set ?ks \<and> expired t e then refreshEntryState env (sh_modelKey sh) t e else e)) ?es,
         False \<or> (\<exists>k\<in>set ?ks. expired t (?f k)))"
      by (rule promote_loop_map) (use d dks sorted f in \<open>auto simp: member\<close>)
    then show ?thesis
      by (auto simp: promoted_def member expired_def)
  qed
  have idle: "promoted env (sh_modelKey sh) t ?es = ?es" if "\<not> (\<exists>k\<in>set ?ks. expired t (?f k))"
    unfolding promoted_def
  proof (rule map_idI)
    fix x
    assume x: "x \<in> set ?es"
    then have "\<not> expired t (snd x)"
      using that f [of "fst x" "snd x"] member [of "fst x"] by (fastforce simp: expired_def)
    then show "(case x of (k, e) \<Rightarrow> (k, if expired t e then refreshEntryState env (sh_modelKey sh) t e else e)) = x"
      by (cases x) simp
  qed
  show "sh_entries (promoteExpired env t sh) = promoted env (sh_modelKey sh) t (sh_entries sh)"
      "sh_modelKey (promoteExpired env t sh) = sh_modelKey sh" "shard_fine (promoteExpired env t sh)"
    using idle assms d by (auto simp: promoteExpired_def loop)
qed

end
