(* ===== verification/Scheduler_Pick.thy ===== *)
theory Scheduler_Pick
  imports Scheduler_Shard
begin

section \<open>Picking from a shard\<close>

text \<open>
  A pick reads the indexes only: on a shard whose indexes are those of its entries it finds a ready entry
  of the highest priority that the request accepts, and misses none.
\<close>

definition ready_candidate :: "(scheduled_auth \<Rightarrow> bool) \<Rightarrow> scheduled_auth \<Rightarrow> bool" where
  "ready_candidate pred e \<longleftrightarrow> se_schedulerEligible e \<and> se_state e = SchedReady \<and> pred e"

definition candidates :: "(scheduled_auth \<Rightarrow> bool) \<Rightarrow> model_shard \<Rightarrow> scheduled_auth set" where
  "candidates pred sh = {e. \<exists>k. (k, e) \<in> set (sh_entries sh) \<and> ready_candidate pred e}"

abbreviation prio :: "scheduled_auth \<Rightarrow> int" where
  "prio e \<equiv> sm_priority (se_meta e)"

lemma ready_at_set: "(k, e) \<in> set (ready_at es p) \<longleftrightarrow> (k, e) \<in> set es \<and> se_schedulerEligible e \<and> se_state e = SchedReady \<and> prio e = p"
  by (auto simp: ready_at_def ready_of_def)

lemma priorities_set: "p \<in> set (priorities_of es) \<longleftrightarrow> (\<exists>k e. (k, e) \<in> set (ready_at es p))"
  by (force simp: priorities_of_def ready_at_def)

lemma fine_entry: "shard_fine sh \<Longrightarrow> (k, e) \<in> set (sh_entries sh) \<Longrightarrow> map_of (sh_entries sh) k = Some e"
  by (simp add: shard_fine_def)

lemma fine_order: "shard_fine sh \<Longrightarrow> sh_priorityOrder sh = rev (sort (priorities_of (sh_entries sh)))"
  by (simp add: shard_fine_def indexed_def index_view_def wanted_view_def)

lemma fine_buckets:
  assumes "shard_fine sh"
  shows "map_option (\<lambda>b. vw_flat (bk_all b)) (map_of (sh_readyByPriority sh) p)
    = (if p \<in> set (priorities_of (sh_entries sh)) then Some (map fst (ready_at (sh_entries sh) p)) else None)"
proof -
  have "map (\<lambda>(p, b). (p, vw_flat (bk_all b), vw_flat (bk_ws b))) (sh_readyByPriority sh)
      = map (\<lambda>p. (p, map fst (ready_at (sh_entries sh) p),
                map fst (filter (\<lambda>(k, e). sm_websocketEnabled (se_meta e)) (ready_at (sh_entries sh) p))))
          (priorities_of (sh_entries sh))"
    using assms by (simp add: shard_fine_def indexed_def index_view_def wanted_view_def)
  then have "map_option fst (map_of (map (\<lambda>(p, b). (p, vw_flat (bk_all b), vw_flat (bk_ws b))) (sh_readyByPriority sh)) p)
      = map_option fst (map_of (map (\<lambda>p. (p, map fst (ready_at (sh_entries sh) p),
                map fst (filter (\<lambda>(k, e). sm_websocketEnabled (se_meta e)) (ready_at (sh_entries sh) p))))
          (priorities_of (sh_entries sh))) p)"
    by (rule arg_cong)
  moreover have "map_option fst (map_of (map (\<lambda>(p, b). (p, vw_flat (bk_all b), vw_flat (bk_ws b))) xs) p)
      = map_option (\<lambda>b. vw_flat (bk_all b)) (map_of xs p)" for xs :: "(int, ready_bucket) gomap"
    by (induction xs) auto
  moreover have "map_option fst (map_of (map (\<lambda>p. (p, f p, g p)) ps) p) = (if p \<in> set ps then Some (f p) else None)"
    for f :: "int \<Rightarrow> string list" and g :: "int \<Rightarrow> string list" and ps
    by (induction ps) auto
  ultimately show ?thesis
    by (simp only:)
qed

lemma fine_bucket:
  "shard_fine sh \<Longrightarrow> map_of (sh_readyByPriority sh) p = Some b \<Longrightarrow> vw_flat (bk_all b) = map fst (ready_at (sh_entries sh) p)"
  using fine_buckets [of sh p] by (auto split: if_splits)

lemma fine_no_bucket:
  "shard_fine sh \<Longrightarrow> map_of (sh_readyByPriority sh) p = None \<Longrightarrow> ready_at (sh_entries sh) p = []"
  using fine_buckets [of sh p] priorities_set [of p "sh_entries sh"] by (cases "ready_at (sh_entries sh) p") (auto split: if_splits)

lemma flat_ok:
  assumes "shard_fine sh" "k \<in> set (map fst (ready_at (sh_entries sh) p))" "entry_ok pred sh k"
  obtains e where "(k, e) \<in> set (ready_at (sh_entries sh) p)" "map_of (sh_entries sh) k = Some e" "pred e"
  using assms by (auto simp: entry_ok_def ready_at_set dest: fine_entry split: option.splits)

lemma candidate_flat:
  assumes "shard_fine sh" "e \<in> candidates pred sh"
  obtains k where "(k, e) \<in> set (ready_at (sh_entries sh) (prio e))" "entry_ok pred sh k"
  using assms by (auto simp: candidates_def ready_candidate_def ready_at_set entry_ok_def dest!: fine_entry)

lemma flat_candidate:
  assumes "shard_fine sh" "k \<in> set (map fst (ready_at (sh_entries sh) p))" "entry_ok pred sh k"
  obtains e where "e \<in> candidates pred sh" "prio e = p" "map_of (sh_entries sh) k = Some e"
proof -
  obtain e where e: "(k, e) \<in> set (ready_at (sh_entries sh) p)" "map_of (sh_entries sh) k = Some e" "pred e"
    using flat_ok [OF assms] .
  then show thesis
    by (intro that [of e]) (auto simp: candidates_def ready_candidate_def ready_at_set)
qed

lemma has_candidate:
  assumes "shard_fine sh"
  shows "(case map_of (sh_readyByPriority sh) p of None \<Rightarrow> False | Some b \<Rightarrow> pickFirst pred sh (bk_all b) \<noteq> None)
    \<longleftrightarrow> (\<exists>e\<in>candidates pred sh. prio e = p)" (is "?L = _")
proof
  assume ?L
  then obtain b k where "map_of (sh_readyByPriority sh) p = Some b" "pickFirst pred sh (bk_all b) = Some k"
    by (auto split: option.splits)
  then have "k \<in> set (map fst (ready_at (sh_entries sh) p))" "entry_ok pred sh k"
    by (simp_all only: pickFirst_def fine_bucket [OF assms] find_SomeD)
  then show "\<exists>e\<in>candidates pred sh. prio e = p"
    using flat_candidate [OF assms] by metis
next
  assume "\<exists>e\<in>candidates pred sh. prio e = p"
  then obtain k e where k: "(k, e) \<in> set (ready_at (sh_entries sh) p)" "entry_ok pred sh k"
    using candidate_flat [OF assms] by metis
  then obtain b where b: "map_of (sh_readyByPriority sh) p = Some b"
    using fine_no_bucket [OF assms, of p] by fastforce
  have "\<exists>k. pickFirst pred sh (bk_all b) = Some k"
    unfolding pickFirst_def find_Some_iff_ex fine_bucket [OF assms b] using k img_fst by fastforce
  then show ?L
    using b by auto
qed

lemma candidate_order:
  assumes "shard_fine sh" "e \<in> candidates pred sh"
  shows "prio e \<in> set (sh_priorityOrder sh)"
proof -
  obtain k where "(k, e) \<in> set (ready_at (sh_entries sh) (prio e))"
    using candidate_flat [OF assms] .
  then show ?thesis
    by (auto simp: fine_order [OF assms(1)] priorities_set)
qed

lemma highest_None:
  assumes "shard_fine sh"
  shows "highestReadyPriority False pred sh = None \<longleftrightarrow> candidates pred sh = {}"
proof -
  have "highestReadyPriority False pred sh = None \<longleftrightarrow>
      \<not> (\<exists>p\<in>set (sh_priorityOrder sh). \<exists>e\<in>candidates pred sh. prio e = p)"
    unfolding highestReadyPriority_def Let_def has_candidate [OF assms] by (auto simp: find_None_iff)
  moreover have "prio e \<in> set (sh_priorityOrder sh)" if "e \<in> candidates pred sh" for e
    by (rule candidate_order [OF assms that])
  ultimately show ?thesis
    by blast
qed

lemma highest_Some:
  assumes "shard_fine sh" "highestReadyPriority False pred sh = Some p"
  shows "\<exists>e\<in>candidates pred sh. prio e = p" "\<And>e. e \<in> candidates pred sh \<Longrightarrow> prio e \<le> p"
proof -
  have find: "List.find (\<lambda>p. \<exists>e\<in>candidates pred sh. prio e = p) (sh_priorityOrder sh) = Some p"
    using assms(2) unfolding highestReadyPriority_def Let_def has_candidate [OF assms(1)] by simp
  then show "\<exists>e\<in>candidates pred sh. prio e = p"
    by (auto dest: find_SomeD)
  show "prio e \<le> p" if "e \<in> candidates pred sh" for e
  proof (rule find_rev_sorted [OF _ find])
    show "sorted_wrt (\<ge>) (sh_priorityOrder sh)"
      unfolding fine_order [OF assms(1)] by (rule sorted_rev_sort)
    show "prio e \<in> set (sh_priorityOrder sh)"
      by (rule candidate_order [OF assms(1) that])
  qed (use that in blast)
qed

subsection \<open>The walk of a view\<close>

lemma round_robin_Some:
  assumes "round_robin_loop ok flat start offs = Some (i, k)" "flat \<noteq> []"
  shows "i < length flat" "k = flat ! i" "ok k"
  using assms by (induction ok flat start offs rule: round_robin_loop.induct) (auto simp: Let_def split: if_splits)

lemma round_robin_None:
  assumes "round_robin_loop ok flat start offs = None" "j \<in> set offs"
  shows "\<not> ok (flat ! ((start + j) mod length flat))"
  using assms by (induction ok flat start offs rule: round_robin_loop.induct) (auto simp: Let_def split: if_splits)

lemma offset_exists:
  assumes "i < n"
  shows "\<exists>j<n. ((s::nat) + j) mod n = i"
proof -
  let ?j = "(i + n - s mod n) mod n"
  have n: "0 < n" and s: "s mod n < n"
    using assms by auto
  have "(s + ?j) mod n = (s mod n + (i + n - s mod n)) mod n"
    by (simp add: mod_simps)
  also have "\<dots> = (i + n) mod n"
    using s by (intro arg_cong [where f = "\<lambda>x. x mod n"]) simp
  also have "\<dots> = i"
    using assms by simp
  finally show ?thesis
    using n by (intro exI [of _ ?j]) simp
qed

lemma round_robin_all:
  assumes "round_robin_loop ok flat start [0..<length flat] = None" "k \<in> set flat"
  shows "\<not> ok k"
proof -
  obtain i where i: "i < length flat" "k = flat ! i"
    using assms(2) by (auto simp: in_set_conv_nth)
  obtain j where "j < length flat" "(start + j) mod length flat = i"
    using offset_exists [OF i(1)] by blast
  then show ?thesis
    using round_robin_None [OF assms(1), of j] i(2) by simp
qed

lemma pickRoundRobin_flat:
  assumes "pickRoundRobin pred sh view = (r, view')"
  shows "vw_flat view' = vw_flat view"
    and "r = Some k \<Longrightarrow> k \<in> set (vw_flat view) \<and> entry_ok pred sh k"
    and "r = None \<Longrightarrow> k \<in> set (vw_flat view) \<Longrightarrow> \<not> entry_ok pred sh k"
proof -
  let ?loop = "round_robin_loop (entry_ok pred sh) (vw_flat view) (nat (vw_cursor view mod int (length (vw_flat view))))
    [0..<length (vw_flat view)]"
  have cases: "vw_flat view = [] \<and> r = None \<and> view' = view \<or> ?loop = None \<and> r = None \<and> view' = view
      \<or> (\<exists>i k. vw_flat view \<noteq> [] \<and> ?loop = Some (i, k) \<and> r = Some k \<and> view' = view\<lparr>vw_cursor := int i + 1\<rparr>)"
    using assms by (auto simp: pickRoundRobin_def Let_def split: if_splits option.splits)
  then show "vw_flat view' = vw_flat view"
    by auto
  show "k \<in> set (vw_flat view) \<and> entry_ok pred sh k" if "r = Some k"
    using cases that round_robin_Some [of "entry_ok pred sh" "vw_flat view"] by (metis nth_mem option.distinct(1) option.inject)
  show "\<not> entry_ok pred sh k" if "r = None" "k \<in> set (vw_flat view)"
    using cases that round_robin_all [of "entry_ok pred sh" "vw_flat view"] by auto
qed

subsection \<open>Picks\<close>

lemma pickFirst_flat:
  "pickFirst pred sh view = Some k \<Longrightarrow> k \<in> set (vw_flat view) \<and> entry_ok pred sh k"
  "pickFirst pred sh view = None \<Longrightarrow> k \<in> set (vw_flat view) \<Longrightarrow> \<not> entry_ok pred sh k"
  by (auto simp: pickFirst_def find_None_iff dest: find_SomeD)

text \<open>What the pick from a view finds.\<close>

definition view_pick :: "scheduler_strategy \<Rightarrow> (scheduled_auth \<Rightarrow> bool) \<Rightarrow> model_shard \<Rightarrow> ready_view \<Rightarrow> string option \<times> ready_view" where
  "view_pick strategy pred sh view =
     (if strategy = StrategyFillFirst then (pickFirst pred sh view, view) else pickRoundRobin pred sh view)"

lemma view_pick_flat:
  assumes "view_pick strategy pred sh view = (r, view')"
  shows "vw_flat view' = vw_flat view"
    and "r = Some k \<Longrightarrow> k \<in> set (vw_flat view) \<and> entry_ok pred sh k"
    and "r = None \<Longrightarrow> k \<in> set (vw_flat view) \<Longrightarrow> \<not> entry_ok pred sh k"
  using assms pickRoundRobin_flat [of pred sh view r view'] pickFirst_flat [of pred sh view]
  by (auto simp: view_pick_def split: if_splits)

lemma bucket_pick:
  assumes fine: "shard_fine sh" and b: "map_of (sh_readyByPriority sh) p = Some b"
    and pick: "view_pick strategy pred sh (bk_all b) = (r, view')"
  shows "r = Some k \<Longrightarrow> \<exists>e\<in>candidates pred sh. prio e = p \<and> map_of (sh_entries sh) k = Some e"
    and "r = None \<Longrightarrow> e \<in> candidates pred sh \<Longrightarrow> prio e \<noteq> p"
proof -
  assume "r = Some k"
  then have "k \<in> set (map fst (ready_at (sh_entries sh) p))" "entry_ok pred sh k"
    using view_pick_flat(2) [OF pick] by (simp_all add: fine_bucket [OF fine b])
  then show "\<exists>e\<in>candidates pred sh. prio e = p \<and> map_of (sh_entries sh) k = Some e"
    using flat_candidate [OF fine] by metis
next
  assume r: "r = None" and e: "e \<in> candidates pred sh"
  obtain k where "(k, e) \<in> set (ready_at (sh_entries sh) (prio e))" "entry_ok pred sh k"
    using candidate_flat [OF fine e] .
  then show "prio e \<noteq> p"
    using view_pick_flat(3) [OF pick r, of k] img_fst [of k e] by (auto simp: fine_bucket [OF fine b])
qed

text \<open>Picking at a priority moves a cursor and nothing else.\<close>

lemma pickReadyAtPriority_view:
  "pickReadyAtPriority False p strategy pred sh =
     (case map_of (sh_readyByPriority sh) p of
        None \<Rightarrow> (None, sh)
      | Some b \<Rightarrow>
          let (k, v) = view_pick strategy pred sh (bk_all b)
          in (Option.bind k (\<lambda>key. map_option se_auth (map_of (sh_entries sh) key)),
              sh\<lparr>sh_readyByPriority := AList.update p (b\<lparr>bk_all := v\<rparr>) (sh_readyByPriority sh)\<rparr>))"
  unfolding pickReadyAtPriority_def view_pick_def Let_def if_False simp_thms by (rule TrueI)

lemma bucket_cursor_view:
  assumes "map_of bs p = Some b" "vw_flat (bk_all b') = vw_flat (bk_all b)" "vw_flat (bk_ws b') = vw_flat (bk_ws b)"
  shows "map (\<lambda>(p, b). (p, vw_flat (bk_all b), vw_flat (bk_ws b))) (AList.update p b' bs)
      = map (\<lambda>(p, b). (p, vw_flat (bk_all b), vw_flat (bk_ws b))) bs"
  using assms by (induction bs) auto

lemma pickReadyAtPriority_spec:
  assumes fine: "shard_fine sh" and pick: "pickReadyAtPriority False p strategy pred sh = (r, sh')"
  shows "shard_fine sh'" "sh_entries sh' = sh_entries sh" "sh_modelKey sh' = sh_modelKey sh"
    and "r = Some a \<Longrightarrow> \<exists>e\<in>candidates pred sh. prio e = p \<and> a = se_auth e"
    and "r = None \<longleftrightarrow> \<not> (\<exists>e\<in>candidates pred sh. prio e = p)"
proof -
  have "(shard_fine sh' \<and> sh_entries sh' = sh_entries sh \<and> sh_modelKey sh' = sh_modelKey sh)
      \<and> (case r of Some a \<Rightarrow> \<exists>e\<in>candidates pred sh. prio e = p \<and> a = se_auth e
         | None \<Rightarrow> \<not> (\<exists>e\<in>candidates pred sh. prio e = p))"
  proof (cases "map_of (sh_readyByPriority sh) p")
    case None
    have "prio e \<noteq> p" if e: "e \<in> candidates pred sh" for e
    proof -
      obtain k where "(k, e) \<in> set (ready_at (sh_entries sh) (prio e))"
        using candidate_flat [OF fine e] .
      then show ?thesis
        using fine_no_bucket [OF fine None] by auto
    qed
    then show ?thesis
      using None pick fine by (auto simp: pickReadyAtPriority_view)
  next
    case (Some b)
    obtain k v where kv: "view_pick strategy pred sh (bk_all b) = (k, v)"
      by (cases "view_pick strategy pred sh (bk_all b)")
    have r: "r = Option.bind k (\<lambda>key. map_option se_auth (map_of (sh_entries sh) key))"
      and sh': "sh' = sh\<lparr>sh_readyByPriority := AList.update p (b\<lparr>bk_all := v\<rparr>) (sh_readyByPriority sh)\<rparr>"
      using pick Some kv by (auto simp: pickReadyAtPriority_view)
    have "shard_fine sh'"
      using fine view_pick_flat(1) [OF kv] unfolding sh' shard_fine_def indexed_def index_view_def
      by (simp add: bucket_cursor_view [OF Some])
    moreover have "case r of Some a \<Rightarrow> \<exists>e\<in>candidates pred sh. prio e = p \<and> a = se_auth e
         | None \<Rightarrow> \<not> (\<exists>e\<in>candidates pred sh. prio e = p)"
      using bucket_pick [OF fine Some kv] r by (cases k) fastforce+
    ultimately show ?thesis
      using sh' by simp
  qed
  then show "shard_fine sh'" "sh_entries sh' = sh_entries sh" "sh_modelKey sh' = sh_modelKey sh"
    and "r = Some a \<Longrightarrow> \<exists>e\<in>candidates pred sh. prio e = p \<and> a = se_auth e"
    and "r = None \<longleftrightarrow> \<not> (\<exists>e\<in>candidates pred sh. prio e = p)"
    by (auto split: option.splits)
qed

lemma candidates_same: "sh_entries sh' = sh_entries sh \<Longrightarrow> candidates pred sh' = candidates pred sh"
  by (simp add: candidates_def)

text \<open>Fill-first takes the candidate with the least ID.\<close>

lemma find_map_fst: "List.find P (map fst xs) = map_option fst (List.find (\<lambda>x. P (fst x)) xs)"
  by (induction xs) auto

lemma fill_first_least:
  assumes fine: "shard_fine sh" and pick: "pickReadyAtPriority False p StrategyFillFirst pred sh = (Some a, sh')"
    and e: "e \<in> candidates pred sh" "prio e = p"
  shows "au_ID a \<le> au_ID (se_auth e)"
proof -
  obtain b where b: "map_of (sh_readyByPriority sh) p = Some b"
    using pick by (auto simp: pickReadyAtPriority_view split: option.splits)
  obtain k where k: "(k, e) \<in> set (ready_at (sh_entries sh) p)" "entry_ok pred sh k"
    using candidate_flat [OF fine e(1)] e(2) by metis
  obtain x where x: "pickFirst pred sh (bk_all b) = Some x" "map_option se_auth (map_of (sh_entries sh) x) = Some a"
    using pick b by (auto simp: pickReadyAtPriority_view view_pick_def bind_eq_Some_conv)
  then obtain y where y: "List.find (\<lambda>x. entry_ok pred sh (fst x)) (ready_at (sh_entries sh) p) = Some y" "x = fst y"
    by (auto simp: pickFirst_def fine_bucket [OF fine b] find_map_fst)
  have "sorted (map (\<lambda>(k, e). au_ID (se_auth e)) (ready_at (sh_entries sh) p))"
    by (simp add: ready_at_def)
  then have "(\<lambda>(k, e). au_ID (se_auth e)) y \<le> (\<lambda>(k, e). au_ID (se_auth e)) (k, e)"
    by (rule find_sorted [OF _ y(1)]) (use k in auto)
  moreover have "map_of (sh_entries sh) x = Some (snd y)"
    using find_SomeD [OF y(1)] y(2) fine_entry [OF fine] by (cases y) (simp add: ready_at_set)
  ultimately show ?thesis
    using x(2) by (simp add: split_beta)
qed

text \<open>The pick of a single provider: promotion, then the best priority.\<close>

lemma pickReady_spec:
  assumes fine: "shard_fine sh" and pick: "pickReady env t False strategy pred sh = (r, sh')"
  shows "shard_fine sh'" "sh_entries sh' = promoted env (sh_modelKey sh) t (sh_entries sh)" "sh_modelKey sh' = sh_modelKey sh"
    and "r = Some a \<Longrightarrow> \<exists>e\<in>candidates pred sh'. a = se_auth e \<and> (\<forall>e'\<in>candidates pred sh'. prio e' \<le> prio e)"
    and "r = None \<longleftrightarrow> candidates pred sh' = {}"
proof -
  let ?sh = "promoteExpired env t sh"
  note p = promoteExpired_fine [OF fine, of env t]
  have "(shard_fine sh' \<and> sh_entries sh' = sh_entries ?sh \<and> sh_modelKey sh' = sh_modelKey ?sh)
      \<and> (case r of Some a \<Rightarrow> \<exists>e\<in>candidates pred ?sh. a = se_auth e \<and> (\<forall>e'\<in>candidates pred ?sh. prio e' \<le> prio e)
         | None \<Rightarrow> candidates pred ?sh = {})"
  proof (cases "highestReadyPriority False pred ?sh")
    case None
    then have "r = None" "sh' = ?sh"
      using pick by (simp_all add: pickReady_def Let_def)
    then show ?thesis
      using highest_None [OF p(3), of pred] None p(3) by simp
  next
    case (Some q)
    then have at: "pickReadyAtPriority False q strategy pred ?sh = (r, sh')"
      using pick by (simp add: pickReady_def)
    show ?thesis
      using pickReadyAtPriority_spec [OF p(3) at] highest_Some [OF p(3) Some] by (cases r) fastforce+
  qed
  then show "shard_fine sh'" "sh_entries sh' = promoted env (sh_modelKey sh) t (sh_entries sh)" "sh_modelKey sh' = sh_modelKey sh"
    and "r = Some a \<Longrightarrow> \<exists>e\<in>candidates pred sh'. a = se_auth e \<and> (\<forall>e'\<in>candidates pred sh'. prio e' \<le> prio e)"
    and "r = None \<longleftrightarrow> candidates pred sh' = {}"
    using p candidates_same [of sh' ?sh pred] by (auto split: option.splits)
qed

end
