(* ===== verification/Scheduler_State.thy ===== *)
theory Scheduler_State
  imports Scheduler_Pick
begin

section \<open>The invariant of the scheduler\<close>

text \<open>
  What every operation of the scheduler keeps: each shard has an entry for exactly the credentials of its
  provider that serve the model, each entry is the state of its credential as of some earlier refresh,
  and the indexes are those of the entries.  The view of a credential under the cooling policy is the
  manager's; the scheduler relies only on its keeping the ID.
\<close>

declare map_of_eq_Some_iff [simp del]

type_synonym metas = "string \<Rightarrow> scheduled_meta option"

definition entry_valid :: "scheduler_env \<Rightarrow> gotime \<Rightarrow> string \<Rightarrow> metas \<Rightarrow> string \<Rightarrow> scheduled_auth \<Rightarrow> bool" where
  "entry_valid env T mk metas k e \<longleftrightarrow>
     au_ID (se_auth e) = k \<and> metas k = Some (se_meta e) \<and> meta_serves mk (se_meta e) \<and> fresh env mk T e
     \<and> (\<exists>t\<le>T. se_auth e = ev_availability env (sm_auth (se_meta e)) t)"

definition shard_ok :: "scheduler_env \<Rightarrow> gotime \<Rightarrow> string \<Rightarrow> metas \<Rightarrow> model_shard \<Rightarrow> bool" where
  "shard_ok env T mk metas sh \<longleftrightarrow>
     shard_fine sh \<and> sh_modelKey sh = mk
     \<and> (\<forall>k e. map_of (sh_entries sh) k = Some e \<longrightarrow> entry_valid env T mk metas k e)
     \<and> (\<forall>k m. metas k = Some m \<longrightarrow> meta_serves mk m \<longrightarrow> map_of (sh_entries sh) k \<noteq> None)"

definition meta_ok :: "string \<Rightarrow> string \<Rightarrow> scheduled_meta \<Rightarrow> bool" where
  "meta_ok pk k m \<longleftrightarrow> au_ID (sm_auth m) = k \<and> k \<noteq> [] \<and> pk = to_lower (trim_space (au_Provider (sm_auth m)))
     \<and> sm_priority m = authPriority (Some (sm_auth m)) \<and> \<not> au_Disabled (sm_auth m)"

definition provider_ok :: "scheduler_env \<Rightarrow> gotime \<Rightarrow> string \<Rightarrow> provider_scheduler \<Rightarrow> bool" where
  "provider_ok env T pk p \<longleftrightarrow>
     distinct (map fst (pv_auths p)) \<and> distinct (map fst (pv_modelShards p))
     \<and> (\<forall>k m. map_of (pv_auths p) k = Some m \<longrightarrow> meta_ok pk k m)
     \<and> (\<forall>mk sh. map_of (pv_modelShards p) mk = Some sh \<longrightarrow> shard_ok env T mk (map_of (pv_auths p)) sh)"

definition providers_ok :: "scheduler_env \<Rightarrow> gotime \<Rightarrow> auth_scheduler \<Rightarrow> bool" where
  "providers_ok env T s \<longleftrightarrow> distinct (map fst (sd_providers s))
     \<and> (\<forall>pk p. map_of (sd_providers s) pk = Some p \<longrightarrow> provider_ok env T pk p)"

lemma entry_valid_mono: "entry_valid env T mk metas k e \<Longrightarrow> T \<le> t \<Longrightarrow> entry_valid env t mk metas k e"
  unfolding entry_valid_def using fresh_mono by (meson order_trans)

lemma shard_ok_mono: "shard_ok env T mk metas sh \<Longrightarrow> T \<le> t \<Longrightarrow> shard_ok env t mk metas sh"
  unfolding shard_ok_def using entry_valid_mono by blast

lemma provider_ok_mono: "provider_ok env T pk p \<Longrightarrow> T \<le> t \<Longrightarrow> provider_ok env t pk p"
  unfolding provider_ok_def using shard_ok_mono by blast

lemma providers_ok_mono: "providers_ok env T s \<Longrightarrow> T \<le> t \<Longrightarrow> providers_ok env t s"
  unfolding providers_ok_def using provider_ok_mono by blast

lemma shard_okI:
  assumes "shard_fine sh" "sh_modelKey sh = mk"
    and "\<And>k e. map_of (sh_entries sh) k = Some e \<Longrightarrow> entry_valid env T mk metas k e"
    and "\<And>k m. metas k = Some m \<Longrightarrow> meta_serves mk m \<Longrightarrow> map_of (sh_entries sh) k \<noteq> None"
  shows "shard_ok env T mk metas sh"
  using assms unfolding shard_ok_def by blast

lemma shard_okD:
  assumes "shard_ok env T mk metas sh"
  shows "shard_fine sh" "sh_modelKey sh = mk"
    and "\<And>k e. map_of (sh_entries sh) k = Some e \<Longrightarrow> entry_valid env T mk metas k e"
    and "\<And>k m. metas k = Some m \<Longrightarrow> meta_serves mk m \<Longrightarrow> map_of (sh_entries sh) k \<noteq> None"
  using assms unfolding shard_ok_def by blast+

lemma provider_okI:
  assumes "distinct (map fst (pv_auths p))" "distinct (map fst (pv_modelShards p))"
    and "\<And>k m. map_of (pv_auths p) k = Some m \<Longrightarrow> meta_ok pk k m"
    and "\<And>mk sh. map_of (pv_modelShards p) mk = Some sh \<Longrightarrow> shard_ok env T mk (map_of (pv_auths p)) sh"
  shows "provider_ok env T pk p"
  using assms unfolding provider_ok_def by blast

lemma provider_okD:
  assumes "provider_ok env T pk p"
  shows "distinct (map fst (pv_auths p))" "distinct (map fst (pv_modelShards p))"
    and "\<And>k m. map_of (pv_auths p) k = Some m \<Longrightarrow> meta_ok pk k m"
    and "\<And>mk sh. map_of (pv_modelShards p) mk = Some sh \<Longrightarrow> shard_ok env T mk (map_of (pv_auths p)) sh"
  using assms unfolding provider_ok_def by blast+

lemma shard_ok_cong:
  assumes "shard_ok env T mk metas sh" "shard_fine sh'" "sh_modelKey sh' = sh_modelKey sh" "sh_entries sh' = sh_entries sh"
  shows "shard_ok env T mk metas sh'"
  using assms unfolding shard_ok_def by simp

subsection \<open>Shards\<close>

lemma shard_distinct: "shard_fine sh \<Longrightarrow> distinct (map fst (sh_entries sh))"
  by (simp add: shard_fine_def)

lemma promoteExpired_ok:
  assumes ok: "shard_ok env T mk metas sh" and t: "T \<le> t"
  shows "shard_ok env t mk metas (promoteExpired env t sh)"
proof (rule shard_okI)
  note fine = shard_okD(1) [OF ok] and mk = shard_okD(2) [OF ok]
  note p = promoteExpired_fine [OF fine, of env t]
  show "shard_fine (promoteExpired env t sh)" "sh_modelKey (promoteExpired env t sh) = mk"
    using p mk by simp_all
  have look: "map_of (sh_entries (promoteExpired env t sh)) k
      = map_option (\<lambda>e. if expired t e then refreshEntryState env mk t e else e) (map_of (sh_entries sh) k)" for k
    unfolding p(1) promoted_def mk by (rule map_of_map_entries)
  show "entry_valid env t mk metas k e" if e: "map_of (sh_entries (promoteExpired env t sh)) k = Some e" for k e
  proof -
    obtain e0 where e0: "map_of (sh_entries sh) k = Some e0" "e = (if expired t e0 then refreshEntryState env mk t e0 else e0)"
      using e look by auto
    then show ?thesis
      using entry_valid_mono [OF shard_okD(3) [OF ok e0(1)] t] fresh_refresh [of t t env mk e0]
      by (auto simp: entry_valid_def)
  qed
  show "map_of (sh_entries (promoteExpired env t sh)) k \<noteq> None" if "metas k = Some m" "meta_serves mk m" for k m
    using shard_okD(4) [OF ok that] look by simp
qed

lemma removeEntry_ok:
  assumes ok: "shard_ok env T mk metas sh" and k: "k \<noteq> []"
    and metas': "metas' k = None \<or> (\<exists>m. metas' k = Some m \<and> \<not> meta_serves mk m)" "\<And>k'. k' \<noteq> k \<Longrightarrow> metas' k' = metas k'"
  shows "shard_ok env T mk metas' (removeEntry k sh)"
proof -
  have look: "map_of (sh_entries (removeEntry k sh)) = (map_of (sh_entries sh))(k := None)"
    using k by (auto simp: removeEntry_def delete_conv' fun_upd_idem)
  have "shard_fine (removeEntry k sh)" "sh_modelKey (removeEntry k sh) = mk"
    using shard_okD(1,2) [OF ok] by (auto simp: removeEntry_def shard_distinct distinct_delete)
  then show ?thesis
  proof (rule shard_okI)
    show "entry_valid env T mk metas' k' e" if "map_of (sh_entries (removeEntry k sh)) k' = Some e" for k' e
      using that shard_okD(3) [OF ok, of k' e] metas'(2) [of k'] by (auto simp: look entry_valid_def split: if_splits)
    show "map_of (sh_entries (removeEntry k sh)) k' \<noteq> None" if "metas' k' = Some m" "meta_serves mk m" for k' m
      using that shard_okD(4) [OF ok, of k' m] metas' by (cases "k' = k") (auto simp: look)
  qed
qed

text \<open>What the scheduler asks of the view the manager gives it.\<close>

locale credential_view =
  fixes view :: "auth \<Rightarrow> gotime \<Rightarrow> auth"
  assumes view_ID: "au_ID (view a t) = au_ID a"

context credential_view
begin

lemma new_entry_valid:
  assumes "ev_availability env = view" "meta_serves mk m" "metas (au_ID (sm_auth m)) = Some m" "t0 \<le> t"
  shows "entry_valid env t mk metas (au_ID (sm_auth m)) (new_entry env mk t0 m)"
  using assms fresh_refresh [of t0 t env mk] view_ID by (auto simp: entry_valid_def new_entry_def)

lemma upsertEntry_ok:
  assumes env: "ev_availability env = view" and ok: "shard_ok env T mk metas sh" and t: "T \<le> t"
    and m: "meta_serves mk m" "metas' = metas(au_ID (sm_auth m) \<mapsto> m)"
  shows "shard_ok env t mk metas' (upsertEntry env m t sh)"
proof -
  let ?k = "au_ID (sm_auth m)" and ?e = "new_entry env mk t m"
  let ?sh = "sh\<lparr>sh_entries := AList.update ?k ?e (sh_entries sh)\<rparr>"
  note fine = shard_okD(1) [OF ok] and mk = shard_okD(2) [OF ok]
  note d = shard_distinct [OF fine]
  have sh': "upsertEntry env m t sh = ?sh \<and> (\<exists>e. map_of (sh_entries sh) ?k = Some e \<and> index_fields e = index_fields ?e)
      \<or> upsertEntry env m t sh = rebuildIndexes ?sh"
    using mk by (auto simp: upsertEntry_def Let_def split: option.split)
  have "shard_fine (upsertEntry env m t sh)"
    using sh'
  proof (elim disjE conjE exE)
    fix e
    assume e: "upsertEntry env m t sh = ?sh" "map_of (sh_entries sh) ?k = Some e" "index_fields e = index_fields ?e"
    have "same_index e ?e"
      using e(3) shard_okD(3) [OF ok e(2)] new_entry_valid [OF env m(1), of metas' t t] m(2)
      by (simp add: same_index_def entry_valid_def)
    then have "wanted_view (AList.update ?k ?e (sh_entries sh)) = wanted_view (sh_entries sh)"
      by (rule wanted_view_update [OF d e(2)])
    then show ?thesis
      using fine by (simp add: e(1) shard_fine_def indexed_def index_view_def distinct_update)
  qed (simp add: d distinct_update)
  moreover have "sh_modelKey (upsertEntry env m t sh) = mk" and look: "sh_entries (upsertEntry env m t sh) = sh_entries ?sh"
    using sh' mk by auto
  ultimately show ?thesis
  proof (intro shard_okI)
    show "entry_valid env t mk metas' k e" if e: "map_of (sh_entries (upsertEntry env m t sh)) k = Some e" for k e
    proof (cases "k = ?k")
      case True
      then show ?thesis
        using e new_entry_valid [OF env m(1), of metas' t t] m(2) by (simp add: look update_conv')
    next
      case False
      then show ?thesis
        using e entry_valid_mono [OF shard_okD(3) [OF ok] t, of k e] m(2) by (simp add: look update_conv' entry_valid_def)
    qed
    show "map_of (sh_entries (upsertEntry env m t sh)) k \<noteq> None" if "metas' k = Some m'" "meta_serves mk m'" for k m'
      using that shard_okD(4) [OF ok, of k m'] m(2) by (auto simp: look update_conv' split: if_splits)
  qed
qed

lemma build_shard_ok:
  assumes env: "ev_availability env = view" and d: "distinct (map fst auths)"
    and ids: "\<And>k m. map_of auths k = Some m \<Longrightarrow> au_ID (sm_auth m) = k"
  shows "shard_ok env t mk (map_of auths) (build_shard env mk t auths)"
proof -
  let ?serving = "filter (\<lambda>(k, m). meta_serves mk m) auths"
  let ?es = "map (\<lambda>(k, m). (au_ID (sm_auth m), new_entry env mk t m)) ?serving"
  have key: "au_ID (sm_auth m) = k" if "(k, m) \<in> set auths" for k m
    using ids that d by simp
  have es: "?es = map (\<lambda>(k, m). (k, new_entry env mk t m)) ?serving"
    by (rule map_cong) (auto simp: key)
  have keys: "map fst ?es = map fst ?serving"
    unfolding es by (auto simp: comp_def split_beta)
  have de: "distinct (map fst ?es)"
    unfolding keys using d by (simp add: distinct_map_filter)
  have entries: "sh_entries (build_shard env mk t auths) = ?es"
    by (simp add: build_shard_def)
  have look: "map_of ?es k = map_option (new_entry env mk t) (map_of ?serving k)" for k
    unfolding es by (rule map_of_map_entries)
  have serving: "map_of ?serving k = Some m \<longleftrightarrow> map_of auths k = Some m \<and> meta_serves mk m" for k m
    using d distinct_map_filter [OF d, of "\<lambda>(k, m). meta_serves mk m"] by (simp add: map_of_eq_Some_iff)
  show ?thesis
  proof (rule shard_okI)
    show "shard_fine (build_shard env mk t auths)" "sh_modelKey (build_shard env mk t auths) = mk"
      using de by (simp_all add: build_shard_def empty_shard_def)
    show "entry_valid env t mk (map_of auths) k e" if e: "map_of (sh_entries (build_shard env mk t auths)) k = Some e" for k e
    proof -
      obtain m where m: "map_of ?serving k = Some m" "e = new_entry env mk t m"
        using e by (auto simp: entries look)
      then show ?thesis
        using new_entry_valid [OF env, of mk m "map_of auths" t t] serving [of k m] ids [of k m] by simp
    qed
    show "map_of (sh_entries (build_shard env mk t auths)) k \<noteq> None" if "map_of auths k = Some m" "meta_serves mk m" for k m
      using that serving [of k m] unfolding entries look by simp
  qed
qed

text \<open>Providers.\<close>

lemma provider_upsertAuth_ok:
  assumes env: "ev_availability env = view" and ok: "provider_ok env T pk p" and m: "meta_ok pk (au_ID (sm_auth m)) m" and t: "T \<le> t"
  shows "provider_ok env t pk (provider_upsertAuth env m t p)"
proof -
  let ?k = "au_ID (sm_auth m)"
  let ?f = "\<lambda>mk sh. if meta_serves mk m then upsertEntry env m t sh else removeEntry ?k sh"
  have auths: "map_of (pv_auths (provider_upsertAuth env m t p)) = (map_of (pv_auths p))(?k \<mapsto> m)"
    by (simp add: provider_upsertAuth_def update_conv')
  have shards: "map_of (pv_modelShards (provider_upsertAuth env m t p)) mk = map_option (?f mk) (map_of (pv_modelShards p) mk)" for mk
    by (simp add: provider_upsertAuth_def map_of_map_entries)
  have "shard_ok env t mk ((map_of (pv_auths p))(?k \<mapsto> m)) (?f mk sh)" if sh: "map_of (pv_modelShards p) mk = Some sh" for mk sh
  proof (cases "meta_serves mk m")
    case True
    then show ?thesis
      using upsertEntry_ok [OF env _ t] ok sh by (simp add: provider_ok_def)
  next
    case False
    have "shard_ok env T mk (map_of (pv_auths p)) sh"
      using ok sh by (simp add: provider_ok_def)
    then show ?thesis
      using False m shard_ok_mono [OF _ t] removeEntry_ok [of env t mk "map_of (pv_auths p)" sh ?k]
      by (simp add: meta_ok_def)
  qed
  note shard = this
  have names: "map fst (pv_modelShards (provider_upsertAuth env m t p)) = map fst (pv_modelShards p)"
    by (auto simp: provider_upsertAuth_def)
  show ?thesis
  proof (rule provider_okI)
    show "distinct (map fst (pv_auths (provider_upsertAuth env m t p)))"
      using provider_okD(1) [OF ok] by (simp add: provider_upsertAuth_def distinct_update)
    show "distinct (map fst (pv_modelShards (provider_upsertAuth env m t p)))"
      unfolding names by (rule provider_okD(2) [OF ok])
    show "meta_ok pk k m'" if "map_of (pv_auths (provider_upsertAuth env m t p)) k = Some m'" for k m'
      using that provider_okD(3) [OF ok] m unfolding auths by (auto split: if_splits)
    show "shard_ok env t mk (map_of (pv_auths (provider_upsertAuth env m t p))) sh"
      if "map_of (pv_modelShards (provider_upsertAuth env m t p)) mk = Some sh" for mk sh
      using that shard unfolding auths shards by blast
  qed
qed

lemma ensureModel_ok:
  assumes env: "ev_availability env = view" and ok: "provider_ok env T pk p" and t: "T \<le> t"
    and model: "ensureModel env t mk0 p = (sh, p')"
  shows "shard_ok env t (canonicalModelKey mk0) (map_of (pv_auths p)) sh" "provider_ok env t pk p'"
    "pv_auths p' = pv_auths p" "map_of (pv_modelShards p') (canonicalModelKey mk0) = Some sh"
    "\<And>mk. mk \<noteq> canonicalModelKey mk0 \<Longrightarrow> map_of (pv_modelShards p') mk = map_of (pv_modelShards p) mk"
proof -
  let ?mk = "canonicalModelKey mk0"
  have sh: "sh = (case map_of (pv_modelShards p) ?mk of Some sh \<Rightarrow> promoteExpired env t sh | None \<Rightarrow> build_shard env ?mk t (pv_auths p))"
    and p': "p' = p\<lparr>pv_modelShards := AList.update ?mk sh (pv_modelShards p)\<rparr>"
    using model by (auto simp: ensureModel_def Let_def)
  show shard: "shard_ok env t ?mk (map_of (pv_auths p)) sh"
  proof (cases "map_of (pv_modelShards p) ?mk")
    case None
    then show ?thesis
      using build_shard_ok [OF env] ok by (simp add: sh provider_ok_def meta_ok_def)
  next
    case (Some sh0)
    then show ?thesis
      using promoteExpired_ok [OF _ t] ok by (simp add: sh provider_ok_def)
  qed
  show "provider_ok env t pk p'"
    using provider_okD [OF provider_ok_mono [OF ok t]] shard
    by (intro provider_okI) (auto simp: p' update_conv' distinct_update split: if_splits)
  show "pv_auths p' = pv_auths p" "map_of (pv_modelShards p') (canonicalModelKey mk0) = Some sh"
    "\<And>mk. mk \<noteq> canonicalModelKey mk0 \<Longrightarrow> map_of (pv_modelShards p') mk = map_of (pv_modelShards p) mk"
    by (simp_all add: p' update_conv')
qed

end

lemma provider_removeAuth_ok:
  assumes ok: "provider_ok env T pk p"
  shows "provider_ok env T pk (provider_removeAuth k p)"
proof (cases "k = []")
  case True
  then show ?thesis
    using ok by (simp add: provider_removeAuth_def)
next
  case k: False
  have auths: "map_of (pv_auths (provider_removeAuth k p)) = (map_of (pv_auths p))(k := None)"
    using k by (simp add: provider_removeAuth_def delete_conv')
  have shards: "map_of (pv_modelShards (provider_removeAuth k p)) mk = map_option (removeEntry k) (map_of (pv_modelShards p) mk)" for mk
    using k map_of_map_entries [of "\<lambda>mk. removeEntry k"] by (simp add: provider_removeAuth_def)
  have "shard_ok env T mk ((map_of (pv_auths p))(k := None)) (removeEntry k sh)" if sh: "map_of (pv_modelShards p) mk = Some sh" for mk sh
    by (rule removeEntry_ok [where metas = "map_of (pv_auths p)"]) (use ok sh k in \<open>auto simp: provider_ok_def\<close>)
  note shard = this
  have names: "map fst (pv_modelShards (provider_removeAuth k p)) = map fst (pv_modelShards p)"
    by (auto simp: provider_removeAuth_def)
  show ?thesis
  proof (rule provider_okI)
    show "distinct (map fst (pv_auths (provider_removeAuth k p)))"
      using provider_okD(1) [OF ok] by (simp add: provider_removeAuth_def distinct_delete)
    show "distinct (map fst (pv_modelShards (provider_removeAuth k p)))"
      unfolding names by (rule provider_okD(2) [OF ok])
    show "meta_ok pk k' m" if "map_of (pv_auths (provider_removeAuth k p)) k' = Some m" for k' m
      using that provider_okD(3) [OF ok] unfolding auths by (auto split: if_splits)
    show "shard_ok env T mk (map_of (pv_auths (provider_removeAuth k p))) sh"
      if "map_of (pv_modelShards (provider_removeAuth k p)) mk = Some sh" for mk sh
      using that shard unfolding auths shards by blast
  qed
qed

lemma new_provider_ok: "provider_ok env T pk \<lparr>pv_auths = [], pv_modelShards = []\<rparr>"
  by (simp add: provider_ok_def)

subsection \<open>The scheduler\<close>

definition creds :: "auth_scheduler \<Rightarrow> string \<Rightarrow> string \<Rightarrow> scheduled_meta option" where
  "creds s pk k = Option.bind (map_of (sd_providers s) pk) (\<lambda>p. map_of (pv_auths p) k)"

definition sched_ok :: "scheduler_env \<Rightarrow> gotime \<Rightarrow> auth_scheduler \<Rightarrow> bool" where
  "sched_ok env T s \<longleftrightarrow> providers_ok env T s
     \<and> (\<forall>pk k. creds s pk k \<noteq> None \<longleftrightarrow> map_of (sd_authProviders s) k = Some pk)
     \<and> (\<forall>k pk. map_of (sd_authProviders s) k = Some pk \<longrightarrow> k \<noteq> [] \<and> pk \<noteq> [])"

text \<open>The abstraction: the credentials the scheduler was last given, by ID.\<close>

definition registered :: "auth_scheduler \<Rightarrow> string \<Rightarrow> auth option" where
  "registered s k = Option.bind (map_of (sd_authProviders s) k) (\<lambda>pk. map_option sm_auth (creds s pk k))"

lemma change_provider_auths [simp]: "sd_authProviders (change_provider key f s) = sd_authProviders s"
  "sd_strategy (change_provider key f s) = sd_strategy s" "sd_mixedCursors (change_provider key f s) = sd_mixedCursors s"
  by (auto simp: change_provider_def split: option.splits)

lemma change_provider_lookup:
  "map_of (sd_providers (change_provider key f s)) pk
     = (if pk = key then map_option f (map_of (sd_providers s) pk) else map_of (sd_providers s) pk)"
  by (auto simp: change_provider_def update_conv' split: option.splits)

lemma change_provider_ok:
  assumes "providers_ok env T s" "T \<le> t"
    and "\<And>p. map_of (sd_providers s) key = Some p \<Longrightarrow> provider_ok env T key p \<Longrightarrow> provider_ok env t key (f p)"
  shows "providers_ok env t (change_provider key f s)"
proof -
  have "distinct (map fst (sd_providers (change_provider key f s)))"
    using assms(1) by (auto simp: providers_ok_def change_provider_def distinct_update split: option.splits)
  then show ?thesis
    using assms providers_ok_mono [OF assms(1,2)] unfolding providers_ok_def change_provider_lookup by auto
qed

lemma creds_change:
  "creds (change_provider key f s) pk k
     = (if pk = key then Option.bind (map_of (sd_providers s) pk) (\<lambda>p. map_of (pv_auths (f p)) k) else creds s pk k)"
  by (cases "map_of (sd_providers s) pk") (auto simp: creds_def change_provider_lookup)

lemma creds_remove:
  "k \<noteq> [] \<Longrightarrow> creds (change_provider key (provider_removeAuth k) s) pk k'
     = (if pk = key \<and> k' = k then None else creds s pk k')"
  unfolding creds_change by (cases "map_of (sd_providers s) pk") (auto simp: creds_def provider_removeAuth_def delete_conv')

lemma creds_lookup: "map_of (sd_providers s) pk = Some p \<Longrightarrow> creds s pk = map_of (pv_auths p)"
  by (simp add: creds_def fun_eq_iff)

lemma providers_ok_cong: "providers_ok env T s \<Longrightarrow> sd_providers s' = sd_providers s \<Longrightarrow> providers_ok env T s'"
  by (simp add: providers_ok_def)

lemma creds_cong: "sd_providers s' = sd_providers s \<Longrightarrow> creds s' = creds s"
  by (simp add: creds_def fun_eq_iff)

lemma sched_okI:
  assumes "providers_ok env T s" "\<And>pk k. creds s pk k \<noteq> None \<longleftrightarrow> map_of (sd_authProviders s) k = Some pk"
    and "\<And>k pk. map_of (sd_authProviders s) k = Some pk \<Longrightarrow> k \<noteq> [] \<and> pk \<noteq> []"
  shows "sched_ok env T s"
  using assms by (auto simp: sched_ok_def)

lemma sched_okD:
  assumes "sched_ok env T s"
  shows "providers_ok env T s" "\<And>pk k. creds s pk k \<noteq> None \<longleftrightarrow> map_of (sd_authProviders s) k = Some pk"
    and "\<And>k pk. map_of (sd_authProviders s) k = Some pk \<Longrightarrow> k \<noteq> []" "\<And>k pk. map_of (sd_authProviders s) k = Some pk \<Longrightarrow> pk \<noteq> []"
  using assms unfolding sched_ok_def by blast+

lemma removeAuthLocked_ok:
  assumes ok: "sched_ok env T s"
  shows "sched_ok env T (removeAuthLocked k s)" "registered (removeAuthLocked k s) = (registered s)(k := None)"
proof -
  note D = sched_okD [OF ok]
  have "sched_ok env T (removeAuthLocked k s) \<and> registered (removeAuthLocked k s) = (registered s)(k := None)"
  proof (cases "map_of (sd_authProviders s) k")
    case None
    then show ?thesis
      using ok by (auto simp: removeAuthLocked_def gomap_get_def registered_def fun_eq_iff)
  next
    case (Some pk)
    let ?s = "(change_provider pk (provider_removeAuth k) s)\<lparr>sd_authProviders := AList.delete k (sd_authProviders s)\<rparr>"
    have k: "k \<noteq> []" "pk \<noteq> []"
      using D(3,4) Some by blast+
    then have s': "removeAuthLocked k s = ?s"
      using Some by (simp add: removeAuthLocked_def gomap_get_def)
    have creds: "creds ?s pk' k' = (if pk' = pk \<and> k' = k then None else creds s pk' k')" for pk' k'
      using creds_remove [OF k(1), of pk s] creds_cong [of ?s "change_provider pk (provider_removeAuth k) s"] by simp
    have provs: "map_of (sd_authProviders ?s) = (map_of (sd_authProviders s))(k := None)"
      by (simp add: delete_conv')
    have "sched_ok env T ?s"
    proof (rule sched_okI)
      show "providers_ok env T ?s"
        using change_provider_ok [OF D(1) order_refl, of pk "provider_removeAuth k"] provider_removeAuth_ok providers_ok_cong by fastforce
      show "creds ?s pk' k' \<noteq> None \<longleftrightarrow> map_of (sd_authProviders ?s) k' = Some pk'" for pk' k'
        unfolding creds provs using D(2) [of pk' k'] Some by auto
      show "k' \<noteq> [] \<and> pk' \<noteq> []" if "map_of (sd_authProviders ?s) k' = Some pk'" for k' pk'
        using that D(3,4) unfolding provs by (auto split: if_splits)
    qed
    moreover have "registered ?s k' = ((registered s)(k := None)) k'" for k'
      unfolding registered_def creds provs by (cases "map_of (sd_authProviders s) k'") auto
    ultimately show ?thesis
      unfolding s' by auto
  qed
  then show "sched_ok env T (removeAuthLocked k s)" "registered (removeAuthLocked k s) = (registered s)(k := None)"
    by blast+
qed

lemma ensureProvider_ok:
  assumes "providers_ok env T s"
  shows "providers_ok env T (ensureProvider key s)" "creds (ensureProvider key s) = creds s"
    "map_of (sd_providers (ensureProvider key s)) key \<noteq> None" "sd_authProviders (ensureProvider key s) = sd_authProviders s"
proof -
  show "providers_ok env T (ensureProvider key s)"
    using assms new_provider_ok [of env T] by (auto simp: ensureProvider_def providers_ok_def update_conv' distinct_update)
  show "creds (ensureProvider key s) = creds s"
    by (auto simp: ensureProvider_def creds_def update_conv' fun_eq_iff)
  show "map_of (sd_providers (ensureProvider key s)) key \<noteq> None" "sd_authProviders (ensureProvider key s) = sd_authProviders s"
    by (auto simp: ensureProvider_def update_conv')
qed

lemma buildScheduledAuthMeta_ok:
  assumes "au_ID a \<noteq> []" "\<not> au_Disabled a"
  shows "meta_ok (to_lower (trim_space (au_Provider a))) (au_ID a) (buildScheduledAuthMeta env a)"
    "sm_auth (buildScheduledAuthMeta env a) = a"
  using assms by (auto simp: meta_ok_def buildScheduledAuthMeta_def split: prod.split)

lemma setSelector_ok:
  "sched_ok env T s \<Longrightarrow> sched_ok env T (setSelector sel s)" "registered (setSelector sel s) = registered s"
  by (auto simp: setSelector_def sched_ok_def providers_ok_def creds_def registered_def fun_eq_iff)

lemma resetModelShards_ok:
  assumes "sched_ok env T s"
  shows "sched_ok env' T' (resetModelShards s)" "registered (resetModelShards s) = registered s"
proof -
  note D = sched_okD [OF assms]
  have look: "map_of (sd_providers (resetModelShards s)) pk = map_option (\<lambda>p. p\<lparr>pv_modelShards := []\<rparr>) (map_of (sd_providers s) pk)" for pk
    by (simp add: resetModelShards_def map_of_map_entries [of "\<lambda>k p. p\<lparr>pv_modelShards := []\<rparr>"])
  have creds: "creds (resetModelShards s) = creds s"
    by (rule ext, rule ext) (simp add: creds_def look bind_map_option comp_def)
  have same: "sd_authProviders (resetModelShards s) = sd_authProviders s"
    by (simp add: resetModelShards_def)
  have "provider_ok env' T' pk (p\<lparr>pv_modelShards := []\<rparr>)" if "provider_ok env T pk p" for pk p
    using provider_okD(1,3) [OF that] by (intro provider_okI) auto
  moreover have "map fst (sd_providers (resetModelShards s)) = map fst (sd_providers s)"
    by (auto simp: resetModelShards_def)
  ultimately have "providers_ok env' T' (resetModelShards s)"
    using D(1) by (auto simp: providers_ok_def look)
  then show "sched_ok env' T' (resetModelShards s)"
    by (rule sched_okI) (simp only: creds same D(2), use D(3,4) in \<open>simp add: same\<close>)
  show "registered (resetModelShards s) = registered s"
    by (simp add: registered_def fun_eq_iff creds same)
qed

lemma newAuthScheduler_ok: "sched_ok env T (newAuthScheduler sel)" "registered (newAuthScheduler sel) = Map.empty"
  by (auto simp: newAuthScheduler_def sched_ok_def providers_ok_def creds_def registered_def)

lemma sched_ok_mono: "sched_ok env T s \<Longrightarrow> T \<le> t \<Longrightarrow> sched_ok env t s"
  using providers_ok_mono [of env T s t] by (simp add: sched_ok_def)

text \<open>What a pick or a summary changes: shards, and no credential.\<close>

definition same_creds :: "auth_scheduler \<Rightarrow> auth_scheduler \<Rightarrow> bool" where
  "same_creds s s' \<longleftrightarrow> creds s' = creds s \<and> sd_authProviders s' = sd_authProviders s
     \<and> (\<forall>pk. map_of (sd_providers s') pk = None \<longleftrightarrow> map_of (sd_providers s) pk = None)"

lemma same_creds_ok:
  assumes "sched_ok env T s" "same_creds s s'" "providers_ok env t s'"
  shows "sched_ok env t s'" "registered s' = registered s"
  using assms by (auto simp: sched_ok_def same_creds_def registered_def fun_eq_iff)

lemma same_creds_trans: "same_creds s s' \<Longrightarrow> same_creds s' s'' \<Longrightarrow> same_creds s s''"
  by (auto simp: same_creds_def)

lemma same_creds_refl [simp]: "same_creds s s"
  by (simp add: same_creds_def)

text \<open>A shard where a scheduler keeps it.\<close>

definition shard_of :: "auth_scheduler \<Rightarrow> string \<Rightarrow> string \<Rightarrow> model_shard option" where
  "shard_of s pk mk = Option.bind (map_of (sd_providers s) pk) (\<lambda>p. map_of (pv_modelShards p) mk)"

lemma shard_of_ok:
  assumes "providers_ok env T s" "shard_of s pk mk = Some sh"
  shows "shard_ok env T mk (creds s pk) sh"
  using assms by (auto simp: shard_of_def providers_ok_def provider_ok_def creds_lookup bind_eq_Some_conv)

lemma put_shard_ok:
  assumes ok: "providers_ok env T s" and "shard_of s pk (canonicalModelKey mk) = Some sh0"
    and sh: "shard_ok env t (canonicalModelKey mk) (creds s pk) sh" and t: "T \<le> t"
  shows "providers_ok env t (put_shard pk mk sh s)" "same_creds s (put_shard pk mk sh s)"
proof -
  let ?f = "\<lambda>p. p\<lparr>pv_modelShards := AList.update (canonicalModelKey mk) sh (pv_modelShards p)\<rparr>"
  show "providers_ok env t (put_shard pk mk sh s)"
    unfolding put_shard_def
  proof (rule change_provider_ok [OF ok t])
    fix p
    assume p: "map_of (sd_providers s) pk = Some p" "provider_ok env T pk p"
    show "provider_ok env t pk (?f p)"
      using provider_okD [OF provider_ok_mono [OF p(2) t]] sh creds_lookup [OF p(1)]
      by (intro provider_okI) (auto simp: update_conv' distinct_update split: if_splits)
  qed
  show "same_creds s (put_shard pk mk sh s)"
    by (auto simp: same_creds_def put_shard_def creds_change change_provider_lookup fun_eq_iff bind_map_option comp_def creds_def)
qed

context credential_view
begin

lemma upsertAuth_ok:
  assumes env: "ev_availability env = view" and ok: "sched_ok env T s" and t: "T \<le> t" and trimmed: "trim_space (au_ID a) = au_ID a"
  shows "sched_ok env t (upsertAuth env t a s)"
    and "registered (upsertAuth env t a s) = (registered s)(au_ID a :=
      (if au_ID a = [] \<or> to_lower (trim_space (au_Provider a)) = [] \<or> au_Disabled a then None else Some a))"
proof -
  let ?k = "au_ID a" and ?pk = "to_lower (trim_space (au_Provider a))"
  let ?m = "buildScheduledAuthMeta env a"
  note D = sched_okD [OF ok]
  have "sched_ok env t (upsertAuth env t a s) \<and> registered (upsertAuth env t a s) = (registered s)(?k :=
      (if ?k = [] \<or> ?pk = [] \<or> au_Disabled a then None else Some a))"
  proof (cases "?k = [] \<or> ?pk = [] \<or> au_Disabled a")
    case True
    then show ?thesis
      using removeAuthLocked_ok [OF ok, of ?k] sched_ok_mono [OF _ t] by (auto simp: upsertAuth_def Let_def trimmed)
  next
    case False
    define s1 where "s1 = (let previous = gomap_get [] (sd_authProviders s) ?k
      in if previous \<noteq> [] \<and> previous \<noteq> ?pk then change_provider previous (provider_removeAuth ?k) s else s)"
    define s2 where "s2 = s1\<lparr>sd_authProviders := AList.update ?k ?pk (sd_authProviders s1)\<rparr>"
    let ?s = "change_provider ?pk (provider_upsertAuth env ?m t) (ensureProvider ?pk s2)"
    have s': "upsertAuth env t a s = ?s"
      using False by (simp add: upsertAuth_def Let_def trimmed s1_def s2_def)
    have ok1: "providers_ok env T s1" and auths1: "sd_authProviders s1 = sd_authProviders s"
      using D(1) change_provider_ok [OF D(1) order_refl] provider_removeAuth_ok by (auto simp: s1_def Let_def)
    have creds1: "creds s1 pk k = (if k = ?k \<and> pk \<noteq> ?pk then None else creds s pk k)" for pk k
    proof (cases "map_of (sd_authProviders s) ?k")
      case None
      then have "creds s pk ?k = None"
        using D(2) [of pk ?k] by simp
      then show ?thesis
        using None by (auto simp: s1_def gomap_get_def)
    next
      case (Some previous)
      then have "creds s pk ?k = None" if "pk \<noteq> previous"
        using D(2) [of pk ?k] that by simp
      then show ?thesis
        using Some D(4) [OF Some] False by (auto simp: s1_def gomap_get_def creds_remove)
    qed
    have ok2: "providers_ok env T s2" and creds2: "creds s2 = creds s1"
      using ok1 creds_cong [of s2 s1] by (auto simp: s2_def intro: providers_ok_cong)
    note e = ensureProvider_ok [OF ok2, of ?pk]
    note m = buildScheduledAuthMeta_ok [of a env]
    obtain p where p: "map_of (sd_providers (ensureProvider ?pk s2)) ?pk = Some p"
      using e(3) by blast
    have creds': "creds ?s pk k = (if k = ?k then if pk = ?pk then Some ?m else None else creds s pk k)" for pk k
    proof (cases "pk = ?pk")
      case True
      have "creds (ensureProvider ?pk s2) ?pk k = map_of (pv_auths p) k"
        using p by (simp add: creds_def)
      then show ?thesis
        using True p m(2) False unfolding creds_change e(2) creds2 creds1
        by (auto simp: provider_upsertAuth_def update_conv' split: if_splits)
    next
      case False
      then show ?thesis
        unfolding creds_change e(2) creds2 creds1 by simp
    qed
    have auths': "map_of (sd_authProviders ?s) = (map_of (sd_authProviders s))(?k \<mapsto> ?pk)"
      unfolding change_provider_auths e(4) by (simp add: s2_def auths1 update_conv')
    have provs: "providers_ok env t ?s"
      using False m by (intro change_provider_ok [OF e(1) t] provider_upsertAuth_ok [OF env _ _ t]) auto
    have "sched_ok env t ?s"
    proof (rule sched_okI [OF provs])
      show "creds ?s pk k \<noteq> None \<longleftrightarrow> map_of (sd_authProviders ?s) k = Some pk" for pk k
        unfolding creds' auths' using D(2) [of pk k] by auto
      show "k \<noteq> [] \<and> pk \<noteq> []" if "map_of (sd_authProviders ?s) k = Some pk" for k pk
        using that D(3,4) [of k pk] False unfolding auths' by (auto split: if_splits)
    qed
    moreover have "registered ?s k = ((registered s)(?k \<mapsto> a)) k" for k
      unfolding registered_def creds' auths' using False m(2) by (cases "map_of (sd_authProviders s) k") auto
    ultimately show ?thesis
      unfolding s' using False by auto
  qed
  then show "sched_ok env t (upsertAuth env t a s)"
    and "registered (upsertAuth env t a s) = (registered s)(au_ID a :=
      (if au_ID a = [] \<or> to_lower (trim_space (au_Provider a)) = [] \<or> au_Disabled a then None else Some a))"
    by blast+
qed

text \<open>A request finds a shard for each provider that has credentials, up to date.\<close>

lemma ensure_shard_ok:
  assumes env: "ev_availability env = view" and ok: "providers_ok env T s" and t: "T \<le> t"
    and shard: "ensure_shard env t pk mk s = (r, s')"
  shows "providers_ok env t s'" "same_creds s s'" "r = None \<longleftrightarrow> map_of (sd_providers s) pk = None"
    and "r = Some sh \<Longrightarrow> shard_of s' pk (canonicalModelKey mk) = Some sh"
    and "pk' \<noteq> pk \<Longrightarrow> shard_of s' pk' = shard_of s pk'"
proof -
  have "providers_ok env t s' \<and> same_creds s s' \<and> (r = None \<longleftrightarrow> map_of (sd_providers s) pk = None)
      \<and> (r = Some sh \<longrightarrow> shard_of s' pk (canonicalModelKey mk) = Some sh) \<and> (pk' \<noteq> pk \<longrightarrow> shard_of s' pk' = shard_of s pk')"
  proof (cases "map_of (sd_providers s) pk")
    case None
    then show ?thesis
      using shard providers_ok_mono [OF ok t] by (auto simp: ensure_shard_def)
  next
    case (Some p)
    obtain sh0 p' where model: "ensureModel env t mk p = (sh0, p')"
      by (cases "ensureModel env t mk p")
    have s': "s' = s\<lparr>sd_providers := AList.update pk p' (sd_providers s)\<rparr>" "r = Some sh0"
      using shard Some model by (auto simp: ensure_shard_def)
    have p: "provider_ok env T pk p"
      using ok Some by (simp add: providers_ok_def)
    note M = ensureModel_ok [OF env p t model]
    have "providers_ok env t s'"
      using providers_ok_mono [OF ok t] M(2) by (auto simp: s' providers_ok_def update_conv' distinct_update)
    moreover have "same_creds s s'"
      using Some by (auto simp: same_creds_def s' creds_def update_conv' M(3) fun_eq_iff)
    ultimately show ?thesis
      using Some M(4) by (auto simp: s' shard_of_def update_conv' fun_eq_iff)
  qed
  then show "providers_ok env t s'" "same_creds s s'" "r = None \<longleftrightarrow> map_of (sd_providers s) pk = None"
    and "r = Some sh \<Longrightarrow> shard_of s' pk (canonicalModelKey mk) = Some sh"
    and "pk' \<noteq> pk \<Longrightarrow> shard_of s' pk' = shard_of s pk'"
    by blast+
qed

end

end
