(* ===== verification/Scheduler_Mixed.thy ===== *)
theory Scheduler_Mixed
  imports Scheduler_State
begin

section \<open>Requests over several providers\<close>

text \<open>
  A request brings the shards of its providers up to date and picks from the best priority among them;
  the walk over the providers that starts at the shared cursor finds a candidate whenever one exists.
\<close>

subsection \<open>Up-to-date shards\<close>

definition current :: "scheduler_env \<Rightarrow> string \<Rightarrow> gotime \<Rightarrow> scheduled_auth \<Rightarrow> bool" where
  "current env mk t e \<longleftrightarrow> fresh env mk t e \<and> (\<not> expired t e \<or> refreshEntryState env mk t e = e)"

definition shard_current :: "scheduler_env \<Rightarrow> string \<Rightarrow> gotime \<Rightarrow> model_shard \<Rightarrow> bool" where
  "shard_current env mk t sh \<longleftrightarrow> (\<forall>k e. map_of (sh_entries sh) k = Some e \<longrightarrow> current env mk t e)"

lemma current_refresh: "current env mk t (refreshEntryState env mk t e)"
  by (simp add: current_def fresh_refresh)

lemma current_state:
  assumes "current env mk t e" "prompt t (se_auth e)"
  shows "(se_state (refreshEntryState env mk t e), se_nextRetryAt (refreshEntryState env mk t e)) = (se_state e, se_nextRetryAt e)"
    and "\<not> RefreshBlocksDispatch (Some (se_auth e)) \<Longrightarrow> refreshEntryState env mk t e = e"
  using assms unexpired_fresh [of env mk t e] by (auto simp: current_def)

lemma promoted_lookup:
  assumes "shard_fine sh"
  shows "map_of (sh_entries (promoteExpired env t sh)) k
    = map_option (\<lambda>e. if expired t e then refreshEntryState env (sh_modelKey sh) t e else e) (map_of (sh_entries sh) k)"
  unfolding promoteExpired_fine(1) [OF assms] promoted_def by (rule map_of_map_entries)

lemma promoted_current:
  assumes "shard_ok env T mk metas sh" "T \<le> t"
  shows "shard_current env mk t (promoteExpired env t sh)"
  unfolding shard_current_def
proof (intro allI impI)
  fix k e
  assume "map_of (sh_entries (promoteExpired env t sh)) k = Some e"
  then obtain e0 where e0: "map_of (sh_entries sh) k = Some e0" "e = (if expired t e0 then refreshEntryState env mk t e0 else e0)"
    using shard_okD(1,2) [OF assms(1)] by (auto simp: promoted_lookup)
  show "current env mk t e"
  proof (cases "expired t e0")
    case True
    then show ?thesis
      using e0(2) current_refresh by simp
  next
    case False
    then show ?thesis
      using e0 shard_okD(3) [OF shard_ok_mono [OF assms] e0(1)] by (simp add: current_def entry_valid_def)
  qed
qed

lemma build_current: "shard_current env mk t (build_shard env mk t auths)"
proof -
  have "current env mk t e" if "(k, e) \<in> set (sh_entries (build_shard env mk t auths))" for k e
    using that by (auto simp: build_shard_def new_entry_def current_refresh)
  then show ?thesis
    by (auto simp: shard_current_def dest: map_of_SomeD)
qed

lemma ensure_current:
  assumes ok: "providers_ok env T s" and t: "T \<le> t" and shard: "ensure_shard env t pk mk s = (Some sh, s')"
  shows "shard_current env (canonicalModelKey mk) t sh"
proof -
  obtain p where p: "map_of (sd_providers s) pk = Some p" "fst (ensureModel env t mk p) = sh"
    using shard by (auto simp: ensure_shard_def split: option.splits prod.splits)
  have "provider_ok env T pk p"
    using ok p(1) by (simp add: providers_ok_def)
  then show ?thesis
    using p(2) promoted_current [OF _ t] build_current
    by (auto simp: ensureModel_def Let_def dest: provider_okD(4) split: option.splits)
qed

subsection \<open>The shards of a request\<close>

definition request_shards :: "scheduler_env \<Rightarrow> gotime \<Rightarrow> string \<Rightarrow> auth_scheduler \<Rightarrow> (string \<times> model_shard option) list \<Rightarrow> bool" where
  "request_shards env t mk s shards \<longleftrightarrow>
     (\<forall>pk r. (pk, r) \<in> set shards \<longrightarrow> (r = None \<longleftrightarrow> map_of (sd_providers s) pk = None)
        \<and> (\<forall>sh. r = Some sh \<longrightarrow> shard_of s pk mk = Some sh \<and> shard_ok env t mk (creds s pk) sh \<and> shard_current env mk t sh))"

context credential_view
begin

lemma ensure_shards_ok:
  assumes env: "ev_availability env = view" and ok: "providers_ok env T s" and t: "T \<le> t" and d: "distinct pks"
    and shards: "ensure_shards env t mk pks s = (shards, s')"
  shows "providers_ok env t s'" "same_creds s s'" "map fst shards = pks"
    "request_shards env t (canonicalModelKey mk) s' shards" "\<And>pk. pk \<notin> set pks \<Longrightarrow> shard_of s' pk = shard_of s pk"
proof -
  have "providers_ok env t s' \<and> same_creds s s' \<and> map fst shards = pks
      \<and> request_shards env t (canonicalModelKey mk) s' shards \<and> (\<forall>pk. pk \<notin> set pks \<longrightarrow> shard_of s' pk = shard_of s pk)"
    using ok t d shards
  proof (induction pks arbitrary: s T shards s')
    case Nil
    then show ?case
      using providers_ok_mono by (auto simp: request_shards_def)
  next
    case (Cons pk pks)
    obtain r s1 where s1: "ensure_shard env t pk mk s = (r, s1)"
      by (cases "ensure_shard env t pk mk s")
    obtain rest where rest: "ensure_shards env t mk pks s1 = (rest, s')" "shards = (pk, r) # rest"
      using Cons.prems(4) s1 by (auto split: prod.splits)
    note one = ensure_shard_ok [OF env Cons.prems(1,2) s1]
    have IH: "providers_ok env t s' \<and> same_creds s1 s' \<and> map fst rest = pks
      \<and> request_shards env t (canonicalModelKey mk) s' rest \<and> (\<forall>pk. pk \<notin> set pks \<longrightarrow> shard_of s' pk = shard_of s1 pk)"
      by (rule Cons.IH [OF one(1) order_refl]) (use Cons.prems rest in auto)
    have "shard_of s' pk (canonicalModelKey mk) = Some sh \<and> shard_ok env t (canonicalModelKey mk) (creds s' pk) sh
        \<and> shard_current env (canonicalModelKey mk) t sh" if r: "r = Some sh" for sh
    proof -
      have "shard_of s' pk (canonicalModelKey mk) = Some sh"
        using IH one(4) [OF r] Cons.prems(3) by simp
      then show ?thesis
        using shard_of_ok IH ensure_current [OF Cons.prems(1,2)] s1 r by blast
    qed
    moreover have "r = None \<longleftrightarrow> map_of (sd_providers s') pk = None"
      using IH one(2,3) by (auto simp: same_creds_def)
    ultimately have "request_shards env t (canonicalModelKey mk) s' shards"
      using IH by (auto simp: request_shards_def rest(2))
    moreover have "shard_of s' pk' = shard_of s pk'" if "pk' \<notin> set (pk # pks)" for pk'
      using that IH one(5) [of pk'] by simp
    ultimately show ?case
      using IH one(2) same_creds_trans rest(2) by auto
  qed
  then show "providers_ok env t s'" "same_creds s s'" "map fst shards = pks"
    "request_shards env t (canonicalModelKey mk) s' shards" "\<And>pk. pk \<notin> set pks \<Longrightarrow> shard_of s' pk = shard_of s pk"
    by blast+
qed

end

subsection \<open>Picking among shards\<close>

definition shards_fine :: "(string \<times> model_shard option) list \<Rightarrow> bool" where
  "shards_fine shards \<longleftrightarrow> (\<forall>pk sh. (pk, Some sh) \<in> set shards \<longrightarrow> shard_fine sh)"

definition offered :: "(scheduled_auth \<Rightarrow> bool) \<Rightarrow> (string \<times> model_shard option) list \<Rightarrow> (string \<times> scheduled_auth) set" where
  "offered pred shards = {(pk, e). \<exists>sh. (pk, Some sh) \<in> set shards \<and> e \<in> candidates pred sh}"

lemma request_shards_fine: "request_shards env t mk s shards \<Longrightarrow> shards_fine shards"
  by (force simp: request_shards_def shards_fine_def dest: shard_okD(1))

lemma offered_Cons: "offered pred ((pk, r) # shards) = (case r of None \<Rightarrow> {} | Some sh \<Rightarrow> Pair pk ` candidates pred sh) \<union> offered pred shards"
  by (auto simp: offered_def split: option.splits)

lemma offered_None: "offered pred ((pk, None) # shards) = offered pred shards"
  by (simp add: offered_Cons)

lemma shards_fine_Cons: "shards_fine ((pk, r) # shards) \<longleftrightarrow> (\<forall>sh. r = Some sh \<longrightarrow> shard_fine sh) \<and> shards_fine shards"
  by (auto simp: shards_fine_def)

lemma best_ready_priority_spec:
  assumes "shards_fine shards"
  shows "case best_ready_priority pred shards b of
      None \<Rightarrow> b = None \<and> offered pred shards = {}
    | Some p \<Rightarrow> (b = Some p \<or> (\<exists>x\<in>offered pred shards. prio (snd x) = p))
        \<and> (\<forall>x\<in>offered pred shards. prio (snd x) \<le> p) \<and> (\<forall>q. b = Some q \<longrightarrow> q \<le> p)"
  using assms
proof (induction pred shards b rule: best_ready_priority.induct)
  case (1 pred best)
  then show ?case
    by (auto simp: offered_def split: option.split)
next
  case (2 pred pk shards best)
  then show ?case
    unfolding offered_None by (simp add: shards_fine_Cons)
next
  case (3 pred pk sh shards best)
  have fine: "shard_fine sh" "shards_fine shards"
    using 3(2) by (auto simp: shards_fine_Cons)
  show ?case
  proof (cases "highestReadyPriority False pred sh")
    case None
    then have same: "offered pred ((pk, Some sh) # shards) = offered pred shards"
      using highest_None [OF fine(1), of pred] by (simp add: offered_Cons)
    show ?thesis
      using 3(1) [unfolded None option.case, OF fine(2)] unfolding same best_ready_priority.simps None option.case .
  next
    case (Some q)
    let ?b = "case best of None \<Rightarrow> Some q | Some b \<Rightarrow> if q > b then Some q else best"
    have b: "?b = Some (case best of None \<Rightarrow> q | Some b \<Rightarrow> max q b)"
      by (auto simp: max_def split: option.split)
    obtain p where p: "best_ready_priority pred shards ?b = Some p"
      using 3(1) fine(2) Some b by (cases "best_ready_priority pred shards ?b") auto
    have IH: "?b = Some p \<or> (\<exists>x\<in>offered pred shards. prio (snd x) = p)"
        "\<forall>x\<in>offered pred shards. prio (snd x) \<le> p" "\<forall>q. ?b = Some q \<longrightarrow> q \<le> p"
      using 3(1) [unfolded Some option.case, OF fine(2)] p by simp_all
    have up: "q \<le> p" "\<And>b'. best = Some b' \<Longrightarrow> b' \<le> p"
      using IH(3) unfolding b by (auto split: option.splits)
    have "best = Some p \<or> (\<exists>x\<in>offered pred ((pk, Some sh) # shards). prio (snd x) = p)"
    proof -
      have "best = Some p \<or> q = p \<or> (\<exists>x\<in>offered pred shards. prio (snd x) = p)"
        using IH(1) by (auto split: option.splits if_splits)
      then show ?thesis
        using highest_Some(1) [OF fine(1) Some] unfolding offered_Cons option.case bex_Un bex_simps(7) by auto
    qed
    moreover have "prio (snd x) \<le> p" if "x \<in> offered pred ((pk, Some sh) # shards)" for x
      using that IH(2) up(1) highest_Some(2) [OF fine(1) Some] by (force simp: offered_Cons)
    ultimately show ?thesis
      using p Some up(2) by simp
  qed
qed

lemma fill_first_loop_spec:
  assumes "shards_fine shards"
  shows "case fill_first_loop pred p shards of
      None \<Rightarrow> \<not> (\<exists>x\<in>offered pred shards. prio (snd x) = p)
    | Some (a, pk) \<Rightarrow> \<exists>e. (pk, e) \<in> offered pred shards \<and> prio e = p \<and> a = se_auth e"
  using assms
proof (induction pred p shards rule: fill_first_loop.induct)
  case (2 pred p pk shards)
  then show ?case
    unfolding offered_None by (simp add: shards_fine_Cons)
next
  case (3 pred p pk sh shards)
  have fine: "shard_fine sh" "shards_fine shards"
    using 3(2) by (auto simp: shards_fine_Cons)
  obtain r sh' where pick: "pickReadyAtPriority False p StrategyFillFirst pred sh = (r, sh')"
    by (cases "pickReadyAtPriority False p StrategyFillFirst pred sh")
  note spec = pickReadyAtPriority_spec [OF fine(1) pick]
  show ?case
  proof (cases r)
    case None
    then show ?thesis
      using 3(1) pick fine(2) spec(5) by (auto simp: offered_Cons split: option.splits)
  next
    case (Some a)
    then show ?thesis
      using pick spec(4) [of a] by (auto simp: offered_Cons)
  qed
qed (simp add: offered_def)

subsection \<open>The walk from the shared cursor\<close>

lemma ready_count:
  assumes "shard_fine sh"
  shows "readyCountAtPriority False p sh = int (length (ready_at (sh_entries sh) p))"
  using fine_bucket [OF assms, of p] fine_no_bucket [OF assms, of p]
  by (auto simp: readyCountAtPriority_def split: option.split)

lemma weightless:
  assumes "shard_fine sh" "shard_weight p (pk, Some sh) = 0" "e \<in> candidates pred sh"
  shows "prio e \<noteq> p"
proof -
  have "ready_at (sh_entries sh) p = []"
    using assms(2) by (simp add: shard_weight_def ready_count [OF assms(1)])
  then show ?thesis
    using candidate_flat [OF assms(1,3)] by fastforce
qed

lemma shard_weight_nonneg: "shard_weight p x \<ge> 0"
  by (auto simp: shard_weight_def readyCountAtPriority_def split: option.split)

text \<open>A slot below the total weight lies in the segment of some provider.\<close>

lemma start_exists:
  assumes "\<And>w. w \<in> set weights \<Longrightarrow> (0::int) \<le> w" "0 \<le> slot" "slot < sum_list weights"
  shows "\<exists>i<length weights. weights ! i \<noteq> 0 \<and> slot < segment_start weights (Suc i)"
proof -
  let ?P = "\<lambda>i. slot < segment_start weights i"
  have total: "?P (length weights)"
    using assms(3) by (simp add: segment_start_def)
  define i where "i = (LEAST i. ?P i)"
  have i: "?P i" and least: "\<And>j. j < i \<Longrightarrow> \<not> ?P j" and bound: "i \<le> length weights"
    unfolding i_def using total by (auto intro: LeastI Least_le dest: not_less_Least)
  have "i \<noteq> 0"
    using i assms(2) by (intro notI) (simp add: segment_start_def)
  then obtain j where j: "i = Suc j"
    using not0_implies_Suc by blast
  then have "segment_start weights i = segment_start weights j + weights ! j"
    using bound by (simp add: segment_start_def take_Suc_conv_app_nth)
  then have "weights ! j \<noteq> 0"
    using i least [of j] j by auto
  then show ?thesis
    using i j bound by (intro exI [of _ j]) simp
qed

lemma mixed_loop_Some:
  assumes "mixed_loop pred p shards weights start slot offs = Some (a, pk, sh', slot')" "shards \<noteq> []"
  shows "\<exists>sh. (pk, Some sh) \<in> set shards \<and> pickReadyAtPriority False p StrategyRoundRobin pred sh = (Some a, sh')"
  using assms(1)
proof (induction offs)
  case (Cons off offs)
  let ?i = "(start + off) mod length shards"
  have "shards ! ?i \<in> set shards"
    using assms(2) by simp
  then have i: "(fst (shards ! ?i), snd (shards ! ?i)) \<in> set shards"
    by simp
  then show ?case
    using Cons by (auto simp: Let_def simp del: prod.collapse split: if_splits option.splits prod.splits)
qed simp

lemma mixed_loop_None:
  assumes "mixed_loop pred p shards (map (shard_weight p) shards) start slot offs = None" "shards \<noteq> []" "shards_fine shards"
    and "off \<in> set offs" "shards ! ((start + off) mod length shards) = (pk, Some sh)"
  shows "\<not> (\<exists>e\<in>candidates pred sh. prio e = p)"
  using assms(1,4)
proof (induction offs arbitrary: slot)
  case (Cons o' offs)
  let ?i = "(start + o') mod length shards"
  have i: "?i < length shards"
    using assms(2) by simp
  have rest: "mixed_loop pred p shards (map (shard_weight p) shards) start slot offs = None"
    using Cons.prems(1) by (auto simp: Let_def split: if_splits option.splits prod.splits)
  show ?case
  proof (cases "off = o'")
    case True
    then have at: "shards ! ?i = (pk, Some sh)"
      using assms(5) by simp
    then have fine: "shard_fine sh"
      using assms(3) i by (auto simp: shards_fine_def dest: nth_mem)
    show ?thesis
    proof (cases "shard_weight p (shards ! ?i) = 0")
      case True
      then show ?thesis
        using weightless [OF fine, of p pk] at by auto
    next
      case False
      then obtain sh' where "pickReadyAtPriority False p StrategyRoundRobin pred sh = (None, sh')"
        using Cons.prems(1) at i by (auto simp: Let_def split: if_splits option.splits prod.splits)
      then show ?thesis
        using pickReadyAtPriority_spec(5) [OF fine] by blast
    qed
  next
    case False
    then show ?thesis
      using Cons.IH [OF rest] Cons.prems(2) by simp
  qed
qed simp

lemma mixed_loop_finds:
  assumes "shards \<noteq> []" "shards_fine shards" "x \<in> offered pred shards" "prio (snd x) = p"
  shows "mixed_loop pred p shards (map (shard_weight p) shards) start slot [0..<length shards] \<noteq> None"
proof
  assume none: "mixed_loop pred p shards (map (shard_weight p) shards) start slot [0..<length shards] = None"
  obtain pk e sh where x: "x = (pk, e)" "(pk, Some sh) \<in> set shards" "e \<in> candidates pred sh"
    using assms(3) by (auto simp: offered_def)
  obtain i where i: "i < length shards" "shards ! i = (pk, Some sh)"
    using x(2) by (auto simp: in_set_conv_nth)
  obtain j where j: "j < length shards" "(start + j) mod length shards = i"
    using offset_exists [OF i(1)] by blast
  then show False
    using mixed_loop_None [OF none assms(1,2), of j pk sh] i(2) x assms(4) by auto
qed

subsection \<open>The pick of a request\<close>

definition best_of :: "(string \<times> scheduled_auth) set \<Rightarrow> string \<Rightarrow> auth \<Rightarrow> bool" where
  "best_of C pk a \<longleftrightarrow> (\<exists>e. (pk, e) \<in> C \<and> a = se_auth e \<and> (\<forall>x\<in>C. prio (snd x) \<le> prio e))"

definition right_pick :: "(string \<times> scheduled_auth) set \<Rightarrow> (dispatch_error + auth \<times> string) \<Rightarrow> bool" where
  "right_pick C r \<longleftrightarrow> (case r of Inl err \<Rightarrow> C = {} | Inr (a, pk) \<Rightarrow> best_of C pk a)"

lemma best_ready_None:
  "shards_fine shards \<Longrightarrow> best_ready_priority pred shards None = None \<Longrightarrow> offered pred shards = {}"
  using best_ready_priority_spec [of shards None pred] by simp

lemma best_ready_Some:
  assumes "shards_fine shards" "best_ready_priority pred shards None = Some p"
  shows "\<exists>x\<in>offered pred shards. prio (snd x) = p" "\<And>x. x \<in> offered pred shards \<Longrightarrow> prio (snd x) \<le> p"
  using best_ready_priority_spec [OF assms(1), of None pred] assms(2) by auto

text \<open>The round-robin branch never fails once a priority is known.\<close>

lemma mixed_walk:
  assumes fine: "shards_fine shards" and p: "best_ready_priority pred shards None = Some p"
    and n: "n = length shards"
  defines "weights \<equiv> map (shard_weight p) shards"
  shows "sum_list weights > 0"
    and "0 \<le> slot \<Longrightarrow> slot < sum_list weights \<Longrightarrow>
      \<exists>start. List.find (\<lambda>i. weights ! i \<noteq> 0 \<and> slot < segment_start weights (Suc i)) [0..<n] = Some start"
    and "\<exists>a pk sh' slot'. mixed_loop pred p shards weights start slot [0..<n] = Some (a, pk, sh', slot')"
proof -
  obtain x where x: "x \<in> offered pred shards" "prio (snd x) = p"
    using best_ready_Some(1) [OF fine p] by blast
  then obtain pk e sh where sh: "x = (pk, e)" "(pk, Some sh) \<in> set shards" "e \<in> candidates pred sh"
    by (auto simp: offered_def)
  have ne: "shards \<noteq> []"
    using sh(2) by auto
  have nonneg: "\<And>w. w \<in> set weights \<Longrightarrow> 0 \<le> w"
    using shard_weight_nonneg by (auto simp: weights_def)
  have "shard_fine sh"
    using fine sh(2) by (auto simp: shards_fine_def)
  then have "shard_weight p (pk, Some sh) \<noteq> 0"
    using weightless [of sh p pk e pred] sh x(2) by auto
  then have w: "shard_weight p (pk, Some sh) > 0"
    using shard_weight_nonneg [of p "(pk, Some sh)"] by linarith
  have "shard_weight p (pk, Some sh) \<le> sum_list weights"
    using nonneg sh(2) by (intro member_le_sum_list) (auto simp: weights_def)
  then show "sum_list weights > 0"
    using w by linarith
  show "\<exists>start. List.find (\<lambda>i. weights ! i \<noteq> 0 \<and> slot < segment_start weights (Suc i)) [0..<n] = Some start"
    if "0 \<le> slot" "slot < sum_list weights"
    using start_exists [OF nonneg that] by (auto simp: find_Some_iff_ex n weights_def)
  show "\<exists>a pk sh' slot'. mixed_loop pred p shards weights start slot [0..<n] = Some (a, pk, sh', slot')"
    using mixed_loop_finds [OF ne fine x, of start slot] unfolding n weights_def by auto
qed

context credential_view
begin

lemma mixedUnavailableError_ok:
  assumes env: "ev_availability env = view" and ok: "providers_ok env T s" and t: "T \<le> t" and d: "distinct pks"
    and failed: "mixedUnavailableError env t pks model pred s = (s', r)"
  shows "providers_ok env t s'" "same_creds s s'" "\<exists>err. r = Inl err"
proof -
  obtain shards s1 where shards: "ensure_shards env t (canonicalModelKey model) pks s = (shards, s1)"
    by (cases "ensure_shards env t (canonicalModelKey model) pks s")
  then have "s' = s1" "\<exists>err. r = Inl err"
    using failed by (auto simp: mixedUnavailableError_def split: prod.splits)
  then show "providers_ok env t s'" "same_creds s s'" "\<exists>err. r = Inl err"
    using ensure_shards_ok [OF env ok t d shards] by auto
qed

lemma put_request_shard:
  assumes ok: "providers_ok env t s" and req: "request_shards env t (canonicalModelKey mk) s shards"
    and sh: "(pk, Some sh) \<in> set shards" and same: "shard_fine sh'" "sh_modelKey sh' = sh_modelKey sh" "sh_entries sh' = sh_entries sh"
  shows "providers_ok env t (put_shard pk mk sh' s)" "same_creds s (put_shard pk mk sh' s)"
proof -
  have at: "shard_of s pk (canonicalModelKey mk) = Some sh" "shard_ok env t (canonicalModelKey mk) (creds s pk) sh"
    using req sh by (auto simp: request_shards_def)
  show "providers_ok env t (put_shard pk mk sh' s)" "same_creds s (put_shard pk mk sh' s)"
    using put_shard_ok [OF ok at(1) shard_ok_cong [OF at(2) same] order_refl] by blast+
qed

lemma pickMixed_several:
  assumes env: "ev_availability env = view" and ok: "providers_ok env T s" and t: "T \<le> t1" "t1 \<le> t2"
    and normalized: "normalizeProviderKeys providers = x # y # zs"
    and shards: "ensure_shards env t1 (canonicalModelKey model) (x # y # zs) s = (shards, s1)"
    and pick: "pickMixedWithStrategy env (t1, t2, t3) providers model opts tried strategy s = (s', r)"
  shows "providers_ok env t2 s' \<and> same_creds s s' \<and> right_pick (offered (options_predicate opts tried) shards) r"
proof -
  let ?pred = "options_predicate opts tried" and ?mk = "canonicalModelKey model"
  have d: "distinct (x # y # zs)"
    using normalizeProviderKeys_distinct [of providers] by (simp add: normalized)
  note E = ensure_shards_ok [OF env ok t(1) d shards]
  note fine = request_shards_fine [OF E(4)]
  have n: "length (x # y # zs) = length shards"
    using arg_cong [OF E(3), of length] by simp
  have good: ?thesis if "providers_ok env t2 s'" "same_creds s1 s'" "right_pick (offered ?pred shards) r"
    using that same_creds_trans [OF E(2)] by blast
  obtain s2 and r2 :: "dispatch_error + auth \<times> string" where failed: "mixedUnavailableError env t2 (x # y # zs) model ?pred s1 = (s2, r2)"
    by (cases "mixedUnavailableError env t2 (x # y # zs) model ?pred s1 :: auth_scheduler \<times> (dispatch_error + auth \<times> string)")
  note F = mixedUnavailableError_ok [OF env E(1) t(2) d failed]
  note pick' = pick [unfolded pickMixedWithStrategy_def Let_def normalized list.case prod.case shards failed]
  show ?thesis
  proof (cases "best_ready_priority ?pred shards None")
    case None
    then have "s' = s2" "r = r2"
      using pick' by simp_all
    then show ?thesis
      using good F best_ready_None [OF fine None] by (auto simp: right_pick_def)
  next
    case (Some p)
    note best = best_ready_Some [OF fine Some]
    show ?thesis
    proof (cases "current_strategy strategy s = StrategyFillFirst")
      case True
      obtain a pk where ap: "fill_first_loop ?pred p shards = Some (a, pk)"
        using fill_first_loop_spec [OF fine, of ?pred p] best(1) by (cases "fill_first_loop ?pred p shards") auto
      then have "s' = s1" "r = Inr (a, pk)"
        using pick' Some True ap by simp_all
      then show ?thesis
        using E(2) providers_ok_mono [OF E(1) t(2)] fill_first_loop_spec [OF fine, of ?pred p] ap best(2)
        by (auto simp: right_pick_def best_of_def)
    next
      case False
      define weights where "weights = map (shard_weight p) shards"
      note walk = mixed_walk [OF fine Some n, folded weights_def]
      define slot where "slot = gomap_get 0 (sd_mixedCursors s1) (join_comma (x # y # zs) @ '':'' @ ?mk) mod sum_list weights"
      have slot: "0 \<le> slot" "slot < sum_list weights"
        using walk(1) by (auto simp: slot_def)
      obtain start where start: "List.find (\<lambda>i. weights ! i \<noteq> 0 \<and> slot < segment_start weights (Suc i)) [0..<length (x # y # zs)] = Some start"
        using walk(2) [OF slot] by blast
      obtain a pk sh' slot' where loop: "mixed_loop ?pred p shards weights start slot [0..<length (x # y # zs)] = Some (a, pk, sh', slot')"
        using walk(3) by blast
      have res: "s' = (put_shard pk ?mk sh' s1)\<lparr>sd_mixedCursors :=
            AList.update (join_comma (x # y # zs) @ '':'' @ ?mk) (slot' + 1) (sd_mixedCursors s1)\<rparr>" "r = Inr (a, pk)"
        using pick' walk(1) unfolding Some option.case if_not_P [OF False] weights_def [symmetric] slot_def [symmetric] start loop prod.case
        by simp_all
      obtain sh where sh: "(pk, Some sh) \<in> set shards" "pickReadyAtPriority False p StrategyRoundRobin ?pred sh = (Some a, sh')"
        using mixed_loop_Some [OF loop] n by force
      have sf: "shard_fine sh"
        using fine sh(1) by (auto simp: shards_fine_def)
      note spec = pickReadyAtPriority_spec [OF sf sh(2)]
      note put = put_request_shard [OF E(1) E(4) sh(1) spec(1,3,2)]
      have "providers_ok env t2 s'" "same_creds s1 s'"
        using put providers_ok_mono [OF put(1) t(2)] unfolding res(1)
        by (auto simp: providers_ok_def same_creds_def creds_def fun_eq_iff)
      moreover have "best_of (offered ?pred shards) pk a"
        using spec(4) [OF refl] sh(1) best(2) unfolding best_of_def offered_def by blast
      ultimately show ?thesis
        using good by (simp add: res(2) right_pick_def)
    qed
  qed
qed

text \<open>A pick with one provider promotes once more, with a later clock.\<close>

lemma pickSingle_one:
  assumes env: "ev_availability env = view" and ok: "providers_ok env T s" and t: "T \<le> t1" "t1 \<le> t2"
    and pick: "pickSingleWithStrategy env (t1, t2, t3) provider model opts tried strategy s = (s', r)"
  defines "pk \<equiv> to_lower (trim_space provider)" and "mk \<equiv> canonicalModelKey (canonicalModelKey model)"
  shows "providers_ok env t2 s' \<and> same_creds s s' \<and> (\<exists>sh. (sh = None \<longleftrightarrow> map_of (sd_providers s) pk = None)
      \<and> (\<forall>x. sh = Some x \<longrightarrow> shard_ok env t2 mk (creds s pk) x \<and> shard_current env mk t2 x)
      \<and> right_pick (offered (options_predicate opts tried) [(pk, sh)]) (case r of Inl err \<Rightarrow> Inl err | Inr a \<Rightarrow> Inr (a, pk)))"
proof -
  let ?pred = "options_predicate opts tried"
  note pick' = pick [unfolded pickSingleWithStrategy_def Let_def prod.case, folded pk_def]
  obtain r1 s1 where one: "ensure_shard env t1 pk (canonicalModelKey model) s = (r1, s1)"
    by (cases "ensure_shard env t1 pk (canonicalModelKey model) s")
  note E = ensure_shard_ok [OF env ok t(1) one, folded mk_def]
  show ?thesis
  proof (cases r1)
    case None
    then have "s' = s1" "r = Inl no_auth"
      using pick' one by simp_all
    then show ?thesis
      using None E(1-3) providers_ok_mono [OF _ t(2)] by (intro conjI exI [of _ None]) (auto simp: right_pick_def offered_def)
  next
    case (Some sh)
    obtain r2 sh' where ready: "pickReady env t2 False (current_strategy strategy s) ?pred sh = (r2, sh')"
      by (cases "pickReady env t2 False (current_strategy strategy s) ?pred sh")
    have shard: "shard_of s1 pk mk = Some sh" "shard_ok env t1 mk (creds s1 pk) sh"
      using E(4) Some shard_of_ok [OF E(1)] by blast+
    note spec = pickReady_spec [OF shard_okD(1) [OF shard(2)] ready]
    note p = promoteExpired_ok [OF shard(2) t(2)] promoted_current [OF shard(2) t(2)]
    have entries: "sh_entries sh' = sh_entries (promoteExpired env t2 sh)"
      using spec(2) promoteExpired_fine(1) [OF shard_okD(1) [OF shard(2)]] by simp
    have sh': "shard_ok env t2 mk (creds s1 pk) sh'" "shard_current env mk t2 sh'"
      using shard_ok_cong [OF p(1) spec(1) _ entries] spec(3) shard_okD(2) [OF p(1)] shard_okD(2) [OF shard(2)] p(2)
      by (auto simp: shard_current_def entries)
    have put: "providers_ok env t2 (put_shard pk (canonicalModelKey model) sh' s1)" "same_creds s1 (put_shard pk (canonicalModelKey model) sh' s1)"
      using put_shard_ok [OF E(1) shard(1) [unfolded mk_def] sh'(1) [unfolded mk_def] t(2)] by blast+
    have res: "s' = put_shard pk (canonicalModelKey model) sh' s1"
        "r = (case r2 of Some a \<Rightarrow> Inr a | None \<Rightarrow> Inl (unavailableError provider model ?pred t3 sh'))"
      using pick' one Some ready by (auto split: option.splits)
    have "right_pick (offered ?pred [(pk, Some sh')]) (case r of Inl err \<Rightarrow> Inl err | Inr a \<Rightarrow> Inr (a, pk))"
    proof (cases r2)
      case None
      then show ?thesis
        using spec(5) res(2) by (simp add: right_pick_def offered_def)
    next
      case (Some a)
      then show ?thesis
        using spec(4) [OF Some] res(2) by (auto simp: right_pick_def best_of_def offered_def)
    qed
    moreover have "creds s1 = creds s" "map_of (sd_providers s) pk \<noteq> None"
      using E(2,3) Some by (auto simp: same_creds_def)
    ultimately show ?thesis
      using put sh' same_creds_trans [OF E(2)] res(1) by (intro conjI exI [of _ "Some sh'"]) auto
  qed
qed

end

text \<open>A normalized provider name is normal.\<close>

lemma code_lower:
  "(of_char (lower_char c) :: nat) = (let n = of_char c
     in if (65 \<le> n \<and> n \<le> 90) \<or> (192 \<le> n \<and> n \<le> 222 \<and> n \<noteq> 215) then n + 32 else n)"
  by (simp add: lower_char_def Let_def of_char_of)

lemma lower_char_space: "go_space (lower_char c) = go_space c"
  unfolding go_space_def code_lower Let_def by auto

lemma lower_char_idem: "lower_char (lower_char c) = lower_char c"
proof -
  have "(of_char (lower_char (lower_char c)) :: nat) = of_char (lower_char c)"
    unfolding code_lower Let_def by auto
  then show ?thesis
    by (metis char_of_char)
qed

lemma trim_to_lower: "trim_space (to_lower s) = to_lower (trim_space s)"
proof -
  have "(\<lambda>c. go_space (lower_char c)) = go_space"
    by (rule ext) (rule lower_char_space)
  then show ?thesis
    by (simp add: trim_space_def to_lower_def dropWhile_map rev_map comp_def)
qed

lemma to_lower_idem [simp]: "to_lower (to_lower s) = to_lower s"
  by (simp add: to_lower_def lower_char_idem)

lemma normalize_providers_normal:
  "\<forall>p\<in>set out. to_lower (trim_space p) = p \<Longrightarrow> pk \<in> set (normalize_providers providers out) \<Longrightarrow> to_lower (trim_space pk) = pk"
  by (induction providers out rule: normalize_providers.induct) (auto simp: Let_def trim_to_lower split: if_splits)

lemma normalizeProviderKeys_normal: "pk \<in> set (normalizeProviderKeys providers) \<Longrightarrow> to_lower (trim_space pk) = pk"
  using normalize_providers_normal [of "[]"] by (simp add: normalizeProviderKeys_def)

text \<open>Both kinds of request answer from shards that are up to date for the registered credentials.\<close>

definition answered :: "scheduler_env \<Rightarrow> gotime \<Rightarrow> string \<Rightarrow> auth_scheduler \<Rightarrow> string list \<Rightarrow> (scheduled_auth \<Rightarrow> bool)
    \<Rightarrow> (dispatch_error + auth \<times> string) \<Rightarrow> bool" where
  "answered env t mk s pks pred r \<longleftrightarrow>
     (\<exists>shards. map fst shards = pks \<and> right_pick (offered pred shards) r
        \<and> (\<forall>pk x. (pk, x) \<in> set shards \<longrightarrow> (x = None \<longleftrightarrow> map_of (sd_providers s) pk = None)
            \<and> (\<forall>sh. x = Some sh \<longrightarrow> shard_ok env t mk (creds s pk) sh \<and> shard_current env mk t sh)))"

context credential_view
begin

lemma pickMixed_answered:
  assumes env: "ev_availability env = view" and ok: "providers_ok env T s" and t: "T \<le> t1" "t1 \<le> t2"
    and pick: "pickMixedWithStrategy env (t1, t2, t3) providers model opts tried strategy s = (s', r)"
  shows "providers_ok env t2 s' \<and> same_creds s s' \<and> (\<exists>t\<in>{t1, t2}. answered env t (canonicalModelKey (canonicalModelKey model)) s
      (normalizeProviderKeys providers) (options_predicate opts tried) r)"
proof (cases "normalizeProviderKeys providers")
  case Nil
  then have "s' = s" "\<exists>err. r = Inl err"
    using pick by (auto simp: pickMixedWithStrategy_def)
  then show ?thesis
    using Nil providers_ok_mono [OF ok] t by (auto simp: answered_def right_pick_def offered_def)
next
  case (Cons pk pks)
  show ?thesis
  proof (cases pks)
    case Nil
    obtain r1 where single: "pickSingleWithStrategy env (t1, t2, t3) pk model opts tried strategy s = (s', r1)"
        "r = (case r1 of Inl err \<Rightarrow> Inl err | Inr a \<Rightarrow> Inr (a, pk))"
      using pick Cons Nil by (auto simp: pickMixedWithStrategy_def split: prod.splits sum.splits)
    have eq: "to_lower (trim_space pk) = pk"
      using normalizeProviderKeys_normal [of pk providers] Cons by simp
    obtain sh where sh: "(sh = None \<longleftrightarrow> map_of (sd_providers s) pk = None)"
        "\<forall>x. sh = Some x \<longrightarrow> shard_ok env t2 (canonicalModelKey (canonicalModelKey model)) (creds s pk) x
           \<and> shard_current env (canonicalModelKey (canonicalModelKey model)) t2 x"
        "right_pick (offered (options_predicate opts tried) [(pk, sh)]) r" "providers_ok env t2 s'" "same_creds s s'"
      using pickSingle_one [OF env ok t single(1), unfolded eq, folded single(2)] by (elim conjE exE) (rule that)
    then have "answered env t2 (canonicalModelKey (canonicalModelKey model)) s [pk] (options_predicate opts tried) r"
      unfolding answered_def by (intro exI [of _ "[(pk, sh)]"]) simp
    then show ?thesis
      using sh Cons Nil by simp
  next
    case pks: (Cons pk' pks')
    note normalized = Cons [unfolded pks]
    obtain shards s1 where shards: "ensure_shards env t1 (canonicalModelKey model) (pk # pk' # pks') s = (shards, s1)"
      by (cases "ensure_shards env t1 (canonicalModelKey model) (pk # pk' # pks') s")
    note E = ensure_shards_ok [OF env ok t(1) _ shards]
    have d: "distinct (pk # pk' # pks')"
      using normalizeProviderKeys_distinct [of providers] by (simp add: normalized)
    have res: "providers_ok env t2 s' \<and> same_creds s s' \<and> right_pick (offered (options_predicate opts tried) shards) r"
      by (rule pickMixed_several [OF env ok t normalized shards pick])
    have "(x = None \<longleftrightarrow> map_of (sd_providers s) p = None) \<and> (\<forall>sh. x = Some sh \<longrightarrow>
        shard_ok env t1 (canonicalModelKey (canonicalModelKey model)) (creds s p) sh \<and>
        shard_current env (canonicalModelKey (canonicalModelKey model)) t1 sh)" if "(p, x) \<in> set shards" for p x
      using E(2,4) [OF d] that by (simp add: request_shards_def same_creds_def)
    then have "answered env t1 (canonicalModelKey (canonicalModelKey model)) s (pk # pk' # pks') (options_predicate opts tried) r"
      unfolding answered_def using res E(3) [OF d] by (intro exI [of _ shards]) simp
    then show ?thesis
      using res normalized by auto
  qed
qed

end

end
