(* ===== verification/Scheduler_Guarantees.thy ===== *)
theory Scheduler_Guarantees
  imports Scheduler_Mixed Cooldown_State
begin

section \<open>What the scheduler guarantees\<close>

text \<open>
  The scheduler as the manager runs it: its view of a credential is \<open>effectiveAvailabilityAuth\<close>, and its
  states are those any sequence of registrations, removals, configuration changes, picks and summaries
  can produce.  It refines the plain map of the credentials that were last registered, a pick is a
  dispatchable credential of the best priority, and no dispatchable credential is missed.
\<close>

declare map_of_eq_Some_iff [simp del]

subsection \<open>The view of the manager\<close>

definition quotaCooldownDisabledForAuth :: "bool \<Rightarrow> auth option \<Rightarrow> bool" where
  "quotaCooldownDisabledForAuth disableCooling auth =
     (case Option.bind auth (\<lambda>a. DisableCoolingOverride (Some a)) of
        Some disabled \<Rightarrow> disabled
      | None \<Rightarrow> disableCooling)"

definition effectiveAvailabilityAuth :: "bool \<Rightarrow> auth \<Rightarrow> gotime \<Rightarrow> auth" where
  "effectiveAvailabilityAuth disableCooling a now =
     (if \<not> quotaCooldownDisabledForAuth disableCooling (Some a) \<or> \<not> hasDisabledCooldownState a then a
      else fst (clearDisabledCooldownState a now))"

lemma clear_steps_ID [simp]:
  "au_ID (fst (clear_all_models now a)) = au_ID a" "au_ID (keep_availability b a) = au_ID a"
  "au_ID (reconcileAuthErrorAfterQuotaClear a) = au_ID a" "au_ID (fst (clear_request_retries now a)) = au_ID a"
  by (auto simp: clear_all_models_def keep_availability_def reconcileAuthErrorAfterQuotaClear_def
      clear_request_retries_def split: option.split)

lemma clearQuotaCooldownState_ID: "au_ID (fst (clearQuotaCooldownState a [] now b)) = au_ID a"
  by (simp add: clearQuotaCooldownState_def Let_def split_beta if_distrib [of au_ID] if_distrib [of fst] split del: if_split cong: if_cong)

lemma clearDisabledCooldownState_ID: "au_ID (fst (clearDisabledCooldownState a now)) = au_ID a"
  by (simp add: clearDisabledCooldownState_def Let_def split_beta clearQuotaCooldownState_ID
      if_distrib [of au_ID] if_distrib [of fst] split del: if_split cong: if_cong)

interpretation manager: credential_view "effectiveAvailabilityAuth disableCooling" for disableCooling
  by unfold_locales (simp add: effectiveAvailabilityAuth_def clearDisabledCooldownState_ID)

subsection \<open>What an answer says of the registered credentials\<close>

text \<open>The request's conditions on a credential, as \<open>schedulerPredicate\<close> puts them on an entry.\<close>

definition request_admits :: "scheduler_env \<Rightarrow> options \<Rightarrow> string list \<Rightarrow> auth \<Rightarrow> bool" where
  "request_admits env opts tried a \<longleftrightarrow>
     au_ID a \<notin> set tried \<and> authAllowedByID (au_ID a) (allowedAuthIDsFromOptions opts)
     \<and> credentialPolicyAllows (credentialPolicyFromOptions opts) (Some a)
     \<and> (requestRetryRoundFromOptions opts \<le> 0 \<or> requestRetryRoundFromOptions opts
          \<le> (case RequestRetryOverride (ev_conv env) a of Some v \<Rightarrow> v | None \<Rightarrow> requestRetryDefaultFromOptions opts))"

lemma refresh_override:
  "se_requestRetryOverride (refreshEntryState env mk t e) = RequestRetryOverride (ev_conv env) (se_auth e)"
  "se_alphaSearchAllowed (refreshEntryState env mk t e) = credentialPolicyAllows CredentialPolicyCodexAlphaSearchV1 (Some (se_auth e))"
  by (auto simp: refreshEntryState_def Let_def split: prod.split)

lemma fresh_fields:
  assumes "fresh env mk t e"
  shows "se_requestRetryOverride e = RequestRetryOverride (ev_conv env) (se_auth e)"
    "se_alphaSearchAllowed e = credentialPolicyAllows CredentialPolicyCodexAlphaSearchV1 (Some (se_auth e))"
    "se_schedulerEligible e = meta_supportsModel (se_meta e) mk"
proof -
  obtain t0 where t0: "refreshEntryState env mk t0 e = e"
    using assms by (auto simp: fresh_def)
  show "se_requestRetryOverride e = RequestRetryOverride (ev_conv env) (se_auth e)"
    "se_alphaSearchAllowed e = credentialPolicyAllows CredentialPolicyCodexAlphaSearchV1 (Some (se_auth e))"
    using refresh_override [of env mk t0 e] t0 by simp_all
  show "se_schedulerEligible e = meta_supportsModel (se_meta e) mk"
    using refresh_fixed(3) [of env mk t0 e] t0 by simp
qed

lemma options_predicate_admits:
  assumes "fresh env mk t e"
  shows "options_predicate opts tried e \<longleftrightarrow> request_admits env opts tried (se_auth e)"
  using fresh_fields(1) [OF assms]
  by (auto simp: options_predicate_def schedulerPredicate_def request_admits_def List.member_iff split: option.split)

lemma answered_sound:
  assumes "answered env t mk s pks (options_predicate opts tried) (Inr (a, pk))"
  shows "\<exists>m t0. pk \<in> set pks \<and> creds s pk (au_ID a) = Some m \<and> t0 \<le> t \<and> a = ev_availability env (sm_auth m) t0
    \<and> meta_supportsModel m mk \<and> \<not> not_dispatchable env mk a t \<and> request_admits env opts tried a"
proof -
  obtain shards e where shards: "map fst shards = pks" "(pk, e) \<in> offered (options_predicate opts tried) shards" "a = se_auth e"
    and ok: "\<And>pk x sh. (pk, Some sh) \<in> set shards \<Longrightarrow> shard_ok env t mk (creds s pk) sh \<and> shard_current env mk t sh"
    using assms by (auto simp: answered_def right_pick_def best_of_def)
  obtain sh k where e: "(pk, Some sh) \<in> set shards" "(k, e) \<in> set (sh_entries sh)" "ready_candidate (options_predicate opts tried) e"
    using shards(2) by (auto simp: offered_def candidates_def)
  note sh = conjunct1 [OF ok [OF e(1)]]
  have v: "entry_valid env t mk (creds s pk) k e"
    using shard_okD(3) [OF sh] fine_entry [OF shard_okD(1) [OF sh] e(2)] by blast
  then have fr: "fresh env mk t e"
    by (simp add: entry_valid_def)
  have "\<not> not_dispatchable env mk a t"
    using fresh_ready_ok(1) [OF fr] e(3) shards(3) by (simp add: ready_candidate_def)
  moreover have "meta_supportsModel (se_meta e) mk" "request_admits env opts tried a"
    using e(3) fresh_fields(3) [OF fr] options_predicate_admits [OF fr] shards(3) by (auto simp: ready_candidate_def)
  moreover have "pk \<in> set pks"
    using e(1) shards(1) img_fst by force
  ultimately show ?thesis
    using v shards(3) by (auto simp: entry_valid_def)
qed

lemma answered_offers:
  assumes ok: "shard_ok env t mk (creds s pk) sh" "shard_current env mk t sh"
    and m: "creds s pk k = Some m" "meta_supportsModel m mk"
    and good: "\<And>t0. t0 \<le> t \<Longrightarrow> prompt t (ev_availability env (sm_auth m) t0)
      \<and> \<not> not_dispatchable env mk (ev_availability env (sm_auth m) t0) t
      \<and> request_admits env opts tried (ev_availability env (sm_auth m) t0)"
  shows "\<exists>e\<in>candidates (options_predicate opts tried) sh. se_meta e = m"
proof -
  obtain e where e: "map_of (sh_entries sh) k = Some e"
    using shard_okD(4) [OF ok(1) m(1)] m(2) by (auto simp: meta_serves_def)
  then have v: "entry_valid env t mk (creds s pk) k e" and cur: "current env mk t e"
    using shard_okD(3) [OF ok(1)] ok(2) by (auto simp: shard_current_def)
  then have em: "se_meta e = m" and fr: "fresh env mk t e"
    and g: "prompt t (se_auth e)" "\<not> not_dispatchable env mk (se_auth e) t" "request_admits env opts tried (se_auth e)"
    using m(1) good by (auto simp: entry_valid_def)
  have "se_state e = SchedReady"
    using current_state(1) [OF cur g(1)] refresh_ready [of env mk t e] g(2) by simp
  then have "e \<in> candidates (options_predicate opts tried) sh"
    using e fresh_fields(3) [OF fr] em m(2) options_predicate_admits [OF fr] g(3)
    by (auto simp: candidates_def ready_candidate_def dest: map_of_SomeD)
  then show ?thesis
    using em by blast
qed

lemma answered_complete:
  assumes ans: "answered env t mk s pks (options_predicate opts tried) r"
    and m: "pk \<in> set pks" "creds s pk k = Some m" "meta_supportsModel m mk"
    and good: "\<And>t0. t0 \<le> t \<Longrightarrow> prompt t (ev_availability env (sm_auth m) t0)
      \<and> \<not> not_dispatchable env mk (ev_availability env (sm_auth m) t0) t
      \<and> request_admits env opts tried (ev_availability env (sm_auth m) t0)"
  shows "\<exists>a pk' m'. r = Inr (a, pk') \<and> creds s pk' (au_ID a) = Some m' \<and> sm_priority m \<le> sm_priority m'"
proof -
  obtain shards where shards: "map fst shards = pks" "right_pick (offered (options_predicate opts tried) shards) r"
    and ok: "\<And>pk x. (pk, x) \<in> set shards \<Longrightarrow> (x = None \<longleftrightarrow> map_of (sd_providers s) pk = None)
            \<and> (\<forall>sh. x = Some sh \<longrightarrow> shard_ok env t mk (creds s pk) sh \<and> shard_current env mk t sh)"
    using ans by (auto simp: answered_def)
  obtain x where x: "(pk, x) \<in> set shards"
    using m(1) shards(1) by auto
  have "map_of (sd_providers s) pk \<noteq> None"
    using m(2) by (auto simp: creds_def bind_eq_Some_conv)
  then obtain sh where sh: "x = Some sh"
    using ok [OF x] by auto
  then obtain e where e: "e \<in> candidates (options_predicate opts tried) sh" "se_meta e = m"
    using answered_offers [OF _ _ m(2,3) good] ok [OF x] by blast
  then have off: "(pk, e) \<in> offered (options_predicate opts tried) shards"
    using x sh by (auto simp: offered_def)
  then obtain a pk' e' where r: "r = Inr (a, pk')" "(pk', e') \<in> offered (options_predicate opts tried) shards" "a = se_auth e'"
      "\<forall>x\<in>offered (options_predicate opts tried) shards. prio (snd x) \<le> prio e'"
    using shards(2) by (cases r) (auto simp: right_pick_def best_of_def split: prod.splits)
  obtain sh' k' where e': "(pk', Some sh') \<in> set shards" "(k', e') \<in> set (sh_entries sh')"
    using r(2) by (auto simp: offered_def candidates_def)
  then have ok': "shard_ok env t mk (creds s pk') sh'"
    using ok by blast
  have "entry_valid env t mk (creds s pk') k' e'"
    using shard_okD(3) [OF ok'] fine_entry [OF shard_okD(1) [OF ok'] e'(2)] by blast
  then show ?thesis
    using r off e(2) by (force simp: entry_valid_def)
qed

subsection \<open>Runs of the scheduler\<close>

text \<open>
  The registry may change at any time; a change of the configuration replaces the closures and resets
  the shards, which the manager does right after storing it.  The clock does not go back between steps.
  The last argument follows the plain map: a registration of an enabled credential with a provider puts
  it there, any other registration and a removal take the ID out, and nothing else touches the map.
  Credential IDs carry no outer white space.
\<close>

definition manager_env :: "scheduler_env \<Rightarrow> bool" where
  "manager_env env \<longleftrightarrow> (\<exists>disableCooling. ev_availability env = effectiveAvailabilityAuth disableCooling)"

definition registration :: "auth \<Rightarrow> auth option" where
  "registration a = (if au_ID a = [] \<or> to_lower (trim_space (au_Provider a)) = [] \<or> au_Disabled a then None else Some a)"

inductive sched_reach :: "scheduler_env \<Rightarrow> gotime \<Rightarrow> auth_scheduler \<Rightarrow> (string \<Rightarrow> auth option) \<Rightarrow> bool" where
  reach_new: "manager_env env \<Longrightarrow> sched_reach env T (newAuthScheduler sel) Map.empty"
| reach_upsert: "sched_reach env T s A \<Longrightarrow> T \<le> t \<Longrightarrow> trim_space (au_ID a) = au_ID a \<Longrightarrow>
    sched_reach env t (upsertAuth env t a s) (A(au_ID a := registration a))"
| reach_remove: "sched_reach env T s A \<Longrightarrow> sched_reach env T (removeAuth k s) (A(trim_space k := None))"
| reach_registry: "sched_reach env T s A \<Longrightarrow> sched_reach (env\<lparr>ev_models := models\<rparr>) T s A"
| reach_config: "sched_reach env T s A \<Longrightarrow> manager_env env' \<Longrightarrow> sched_reach env' T (resetModelShards s) A"
| reach_selector: "sched_reach env T s A \<Longrightarrow> sched_reach env T (setSelector sel s) A"
| reach_single: "sched_reach env T s A \<Longrightarrow> T \<le> t1 \<Longrightarrow> t1 \<le> t2 \<Longrightarrow>
    pickSingleWithStrategy env (t1, t2, t3) provider model opts tried strategy s = (s', r) \<Longrightarrow> sched_reach env t2 s' A"
| reach_mixed: "sched_reach env T s A \<Longrightarrow> T \<le> t1 \<Longrightarrow> t1 \<le> t2 \<Longrightarrow>
    pickMixedWithStrategy env (t1, t2, t3) providers model opts tried strategy s = (s', r') \<Longrightarrow> sched_reach env t2 s' A"
| reach_summary: "sched_reach env T s A \<Longrightarrow> T \<le> t \<Longrightarrow>
    summarizeDispatchAvailability env t providers model opts excluded retry s = (s', su) \<Longrightarrow> sched_reach env t s' A"

lemma providers_ok_registry:
  "providers_ok (env\<lparr>ev_models := models\<rparr>) T s \<longleftrightarrow> providers_ok env T s"
proof -
  have "refreshEntryState (env\<lparr>ev_models := models\<rparr>) mk t e = refreshEntryState env mk t e" for mk t e
    by (simp add: refreshEntryState_def runtimeModelKeyForAuth_def)
  then show ?thesis
    by (simp add: providers_ok_def provider_ok_def shard_ok_def entry_valid_def fresh_def)
qed

lemma removeAuth_ok:
  assumes "sched_ok env T s"
  shows "sched_ok env T (removeAuth k s)" "registered (removeAuth k s) = (registered s)(trim_space k := None)"
proof -
  have "registered s [] = None"
    using sched_okD(3) [OF assms, of "[]"] by (cases "map_of (sd_authProviders s) []") (auto simp: registered_def)
  then show "sched_ok env T (removeAuth k s)" "registered (removeAuth k s) = (registered s)(trim_space k := None)"
    using removeAuthLocked_ok [OF assms, of "trim_space k"] assms by (auto simp: removeAuth_def Let_def fun_eq_iff)
qed

lemma summarize_ok:
  assumes "manager_env env" and ok: "providers_ok env T s" and t: "T \<le> t"
    and su: "summarizeDispatchAvailability env t providers model opts excluded retry s = (s', su)"
  shows "providers_ok env t s' \<and> same_creds s s'"
proof -
  obtain d where env: "ev_availability env = effectiveAvailabilityAuth d"
    using assms(1) by (auto simp: manager_env_def)
  obtain shards s1 where shards: "ensure_shards env t (canonicalModelKey model) (normalizeProviderKeys providers) s = (shards, s1)"
    by (cases "ensure_shards env t (canonicalModelKey model) (normalizeProviderKeys providers) s")
  have "s' = s \<or> s' = s1"
    using su unfolding summarizeDispatchAvailability_def Let_def shards prod.case by (auto split: if_splits)
  then show ?thesis
    using manager.ensure_shards_ok(1,2) [OF env ok t normalizeProviderKeys_distinct shards] providers_ok_mono [OF ok t] by auto
qed

lemma reach_invariant:
  assumes "sched_reach env T s A"
  shows "manager_env env \<and> sched_ok env T s \<and> registered s = A"
  using assms
proof (induction rule: sched_reach.induct)
  case (reach_new env T sel)
  then show ?case
    using newAuthScheduler_ok by simp
next
  case (reach_upsert env T s A t a)
  then obtain d where "ev_availability env = effectiveAvailabilityAuth d"
    by (auto simp: manager_env_def)
  then show ?case
    using manager.upsertAuth_ok [of env d T s t a] reach_upsert by (simp add: registration_def)
next
  case (reach_remove env T s A k)
  then show ?case
    using removeAuth_ok [of env T s k] by auto
next
  case (reach_registry env T s A models)
  then show ?case
    by (simp add: manager_env_def sched_ok_def providers_ok_registry)
next
  case (reach_config env T s A env')
  then show ?case
    using resetModelShards_ok by blast
next
  case (reach_selector env T s A sel)
  then show ?case
    using setSelector_ok by simp
next
  case (reach_single env T s A t1 t2 t3 provider model opts tried strategy s' r)
  then obtain d where env: "ev_availability env = effectiveAvailabilityAuth d" and ok: "sched_ok env T s"
    by (auto simp: manager_env_def)
  then show ?case
    using manager.pickSingle_one [OF env sched_okD(1) [OF ok] reach_single.hyps(2-4)] same_creds_ok [OF ok] reach_single.IH by blast
next
  case (reach_mixed env T s A t1 t2 t3 providers model opts tried strategy s' r')
  then obtain d where env: "ev_availability env = effectiveAvailabilityAuth d" and ok: "sched_ok env T s"
    by (auto simp: manager_env_def)
  then show ?case
    using manager.pickMixed_answered [OF env sched_okD(1) [OF ok] reach_mixed.hyps(2-4)] same_creds_ok [OF ok] reach_mixed.IH by blast
next
  case (reach_summary env T s A t providers model opts excluded retry s' su)
  then have ok: "sched_ok env T s" and env: "manager_env env"
    by auto
  then show ?case
    using summarize_ok [OF env sched_okD(1) [OF ok] reach_summary.hyps(2,3)] same_creds_ok [OF ok] reach_summary.IH by blast
qed

lemma reach_cases:
  assumes "sched_reach env T s A"
  obtains d where "ev_availability env = effectiveAvailabilityAuth d" "sched_ok env T s" "registered s = A"
  using reach_invariant [OF assms] by (auto simp: manager_env_def)

lemma creds_registered:
  assumes "sched_reach env T s A" "creds s pk k = Some m"
  shows "A k = Some (sm_auth m)" "pk = to_lower (trim_space (au_Provider (sm_auth m)))"
    "sm_priority m = authPriority (Some (sm_auth m))" "au_ID (sm_auth m) = k"
proof -
  obtain d where ok: "sched_ok env T s" "registered s = A"
    using reach_cases [OF assms(1)] by metis
  have "map_of (sd_authProviders s) k = Some pk"
    using sched_okD(2) [OF ok(1), of pk k] assms(2) by simp
  then show "A k = Some (sm_auth m)"
    using ok(2) assms(2) by (auto simp: registered_def)
  obtain p where p: "map_of (sd_providers s) pk = Some p" "map_of (pv_auths p) k = Some m"
    using assms(2) by (auto simp: creds_def bind_eq_Some_conv)
  have "provider_ok env T pk p"
    using sched_okD(1) [OF ok(1)] p(1) by (simp add: providers_ok_def)
  then have "meta_ok pk k m"
    using provider_okD(3) p(2) by blast
  then show "pk = to_lower (trim_space (au_Provider (sm_auth m)))"
    "sm_priority m = authPriority (Some (sm_auth m))" "au_ID (sm_auth m) = k"
    by (auto simp: meta_ok_def)
qed

subsection \<open>Sums of entries\<close>

definition sums_from :: "availability_aggregate \<Rightarrow> bool" where
  "sums_from b \<longleftrightarrow> ag_total b \<ge> 0 \<and> (ag_total b = 0 \<longrightarrow> b = no_aggregate)
     \<and> (\<not> ag_hasRequestRetryOverride b \<longrightarrow> ag_maxRequestRetryOverride b = 0)"

lemma earlier_assoc: "earlier (earlier x y) z = earlier x (earlier y z)"
  by (auto simp: earlier_def)

lemma sums_from_add: "sums_from b \<Longrightarrow> sums_from (aggregate_add b e)"
  by (auto simp: sums_from_def aggregate_add_def Let_def split: option.split)

lemma merge_add:
  assumes "sums_from b"
  shows "aggregate_merge a (aggregate_add b e) = aggregate_add (aggregate_merge a b) e"
proof (cases "se_retryRoundEligible e")
  case False
  then show ?thesis
    by (simp add: aggregate_add_def)
next
  case True
  have pos: "ag_total (aggregate_add b e) \<noteq> 0"
    using assms True by (auto simp: aggregate_add_def sums_from_def Let_def split: option.split)
  show ?thesis
  proof (cases "ag_total b = 0")
    case zero: True
    then have "b = no_aggregate"
      using assms by (simp add: sums_from_def)
    then show ?thesis
      using pos True
      by (cases "se_requestRetryOverride e") (auto simp: aggregate_merge_def aggregate_add_def no_aggregate_def Let_def)
  next
    case False
    then show ?thesis
      using pos True assms
      by (cases "se_requestRetryOverride e")
        (auto simp: aggregate_merge_def aggregate_add_def earlier_assoc Let_def)
  qed
qed

lemma merge_sum: "aggregate_merge a (foldl aggregate_add no_aggregate es) = foldl aggregate_add a es \<and> sums_from (foldl aggregate_add no_aggregate es)"
proof (induction es rule: rev_induct)
  case Nil
  then show ?case
    by (simp add: aggregate_merge_def no_aggregate_def sums_from_def)
next
  case (snoc e es)
  then show ?case
    using merge_add [of "foldl aggregate_add no_aggregate es" a e] sums_from_add by simp
qed

lemma fine_sums:
  assumes "shard_fine sh"
  shows "sh_retryRoundAll sh = foldl aggregate_add no_aggregate (map snd (sh_entries sh))"
    "sh_retryRoundAlphaSearch sh = foldl aggregate_add no_aggregate (filter se_alphaSearchAllowed (map snd (sh_entries sh)))"
  using assms by (auto simp: shard_fine_def indexed_def index_view_def wanted_view_def)

text \<open>The sums a shard keeps are those of its entries that the policy allows.\<close>

definition policy_entries :: "string \<Rightarrow> (string \<times> scheduled_auth) list \<Rightarrow> scheduled_auth list" where
  "policy_entries policy es = filter (\<lambda>e. credentialPolicyAllows policy (Some (se_auth e))) (map snd es)"

lemma policy_none: "credentialPolicyAllows [] (Some a)"
  by (simp add: credentialPolicyAllows_def)

lemma merged_aggregate_scan:
  assumes "\<And>pk sh. (pk, Some sh) \<in> set shards \<Longrightarrow> shard_fine sh \<and> (\<forall>(k, e)\<in>set (sh_entries sh). \<exists>t. fresh env mk t e)"
  shows "merged_aggregate policy shards = foldl aggregate_add no_aggregate (policy_entries policy (all_entries shards))"
proof -
  let ?step = "\<lambda>acc (provider :: string, sh). case sh of
         None \<Rightarrow> acc
       | Some sh \<Rightarrow>
           if policy = [] then aggregate_merge acc (sh_retryRoundAll sh)
           else if policy = CredentialPolicyCodexAlphaSearchV1
           then aggregate_merge acc (sh_retryRoundAlphaSearch sh)
           else foldl aggregate_add acc (filter (\<lambda>e. credentialPolicyAllows policy (Some (se_auth e)))
                  (map snd (sh_entries sh)))"
  have step: "?step acc (pk, Some sh) = foldl aggregate_add acc (policy_entries policy (sh_entries sh))"
    if sh: "shard_fine sh" "\<forall>(k, e)\<in>set (sh_entries sh). \<exists>t. fresh env mk t e" for acc pk sh
  proof -
    have "filter se_alphaSearchAllowed (map snd (sh_entries sh)) = policy_entries CredentialPolicyCodexAlphaSearchV1 (sh_entries sh)"
      unfolding policy_entries_def using sh(2) fresh_fields(2) by (intro filter_cong [OF refl]) fastforce
    moreover have "policy_entries [] (sh_entries sh) = map snd (sh_entries sh)"
      by (simp add: policy_entries_def policy_none)
    ultimately show ?thesis
      using merge_sum by (simp add: fine_sums [OF sh(1)] policy_entries_def)
  qed
  have "foldl ?step acc shards = foldl aggregate_add acc (policy_entries policy (all_entries shards))" for acc
    using assms
  proof (induction shards arbitrary: acc)
    case Nil
    then show ?case
      by (simp add: all_entries_def policy_entries_def)
  next
    case (Cons x shards)
    have IH: "foldl ?step acc' shards = foldl aggregate_add acc' (policy_entries policy (all_entries shards))" for acc'
      by (rule Cons.IH, rule Cons.prems, erule list.set_intros(2))
    obtain pk r where x: "x = (pk, r)"
      by (cases x)
    have split: "policy_entries policy (all_entries (x # shards))
        = (case r of None \<Rightarrow> [] | Some sh \<Rightarrow> policy_entries policy (sh_entries sh)) @ policy_entries policy (all_entries shards)"
      by (auto simp: x all_entries_def policy_entries_def split: option.split)
    have "?step acc x = foldl aggregate_add acc (case r of None \<Rightarrow> [] | Some sh \<Rightarrow> policy_entries policy (sh_entries sh))"
    proof (cases r)
      case (Some sh)
      then show ?thesis
        using step [of sh acc pk] Cons.prems [of pk sh] x by simp
    qed (simp add: x)
    then show ?case
      unfolding split foldl_append by (simp only: foldl_Cons IH)
  qed
  then show ?thesis
    by (simp add: merged_aggregate_def)
qed

subsection \<open>An example\<close>

text \<open>
  The example of the witnesses: two credentials of one provider, of which the one with the higher priority
  cools down until time 50.
\<close>

definition demo_env :: scheduler_env where
  "demo_env = \<lparr>ev_modelResolver = (\<lambda>a m. m), ev_availability = effectiveAvailabilityAuth False,
     ev_models = (\<lambda>k. [''m'']), ev_conv = (\<lambda>f. 0)\<rparr>"

definition demo_cooling :: auth where
  "demo_cooling = (plain_auth ''a'')\<lparr>au_Attributes := [(''priority'', ''5'')],
     au_ModelStates := [(''m'', Some \<lparr>ms_Status = StatusError, ms_StatusMessage = [], ms_Unavailable = True,
       ms_NextRetryAfter = 50, ms_LastError = None, ms_Quota = no_quota\<lparr>q_Exceeded := True, q_NextRecoverAt := 50\<rparr>,
       ms_UpdatedAt = 0, ms_QuotaResetAt = 0\<rparr>)]\<rparr>"

definition demo_sched :: auth_scheduler where
  "demo_sched = upsertAuth demo_env 2 (plain_auth ''b'') (upsertAuth demo_env 1 demo_cooling (newAuthScheduler RoundRobinKind))"

definition demo_map :: "string \<Rightarrow> auth option" where
  "demo_map = [''a'' \<mapsto> demo_cooling, ''b'' \<mapsto> plain_auth ''b'']"

abbreviation demo_pick :: "gotime \<Rightarrow> auth_scheduler \<times> (dispatch_error + auth \<times> string)" where
  "demo_pick t \<equiv> pickMixedWithStrategy demo_env (t, t, t) [''codex'', ''x''] ''m'' no_options [] StrategyCurrent demo_sched"

lemma demo_registered: "registration demo_cooling = Some demo_cooling" "registration (plain_auth ''b'') = Some (plain_auth ''b'')"
  "trim_space (au_ID demo_cooling) = au_ID demo_cooling" "trim_space (au_ID (plain_auth ''b'')) = au_ID (plain_auth ''b'')"
  "au_ID demo_cooling = ''a''" "au_ID (plain_auth ''b'') = ''b''"
  by code_simp+

lemma demo_reach: "sched_reach demo_env 2 demo_sched demo_map"
proof -
  have env: "manager_env demo_env"
    by (auto simp: manager_env_def demo_env_def)
  have "sched_reach demo_env 1 (upsertAuth demo_env 1 demo_cooling (newAuthScheduler RoundRobinKind)) [''a'' \<mapsto> demo_cooling]"
    using reach_upsert [OF reach_new [OF env, of 0 RoundRobinKind] _ demo_registered(3), of 1] by (simp add: demo_registered)
  then show ?thesis
    using reach_upsert [OF _ _ demo_registered(4), of demo_env 1 _ _ 2] by (simp add: demo_registered demo_sched_def demo_map_def)
qed

lemma demo_reach_pick: "sched_reach demo_env 10 (fst (demo_pick 10)) demo_map"
  by (rule reach_mixed [OF demo_reach _ _ prod.collapse [symmetric]]) auto

lemma demo_view: "ev_availability demo_env demo_cooling t = demo_cooling"
proof -
  have "\<not> quotaCooldownDisabledForAuth False (Some demo_cooling)"
    by code_simp
  then show ?thesis
    by (simp add: demo_env_def effectiveAvailabilityAuth_def)
qed

subsection \<open>Properties\<close>

text \<open>
  C8. After any run of the scheduler - registrations, removals, registry and configuration changes,
  picks and summaries - it holds exactly the credentials last registered and neither removed nor disabled
  since, each under its own provider and under no other.
\<close>

theorem scheduler_refines_map:
  assumes "sched_reach env T s A"
  shows "registered s = A \<and> (\<forall>pk k. creds s pk k \<noteq> None \<longleftrightarrow>
    A k \<noteq> None \<and> pk = to_lower (trim_space (au_Provider (the (A k)))))"
proof -
  obtain d where ok: "sched_ok env T s" "registered s = A"
    using reach_cases [OF assms] by metis
  have "creds s pk k \<noteq> None" if a: "A k = Some a" "pk = to_lower (trim_space (au_Provider a))" for pk k a
  proof -
    obtain pk' m where "map_of (sd_authProviders s) k = Some pk'" "creds s pk' k = Some m" "a = sm_auth m"
      using a(1) ok(2) by (auto simp: registered_def bind_eq_Some_conv)
    then show ?thesis
      using creds_registered(2) [OF assms] a(2) by auto
  qed
  moreover have "A k \<noteq> None \<and> pk = to_lower (trim_space (au_Provider (the (A k))))" if "creds s pk k = Some m" for pk k m
    using creds_registered(1,2) [OF assms that] by simp
  ultimately show ?thesis
    using ok(2) by (metis option.collapse)
qed

theorem scheduler_refines_map_witness:
  "registered demo_sched ''a'' = Some demo_cooling \<and> registered demo_sched ''c'' = None"
  using scheduler_refines_map [OF demo_reach] by (simp add: demo_map_def)

text \<open>
  C4. A pick, over one provider or several, is a credential that was last registered and is still enabled,
  seen through the cooling policy, of one of the requested providers; it is not blocked for the model at
  the time of the pick, was not tried before, and satisfies the allowed IDs, the credential policy and
  the retry round of the request.
\<close>

theorem scheduler_pick_sound:
  assumes "sched_reach env T s A" "T \<le> t1" "t1 \<le> t2"
    and "pickMixedWithStrategy env (t1, t2, t3) providers model opts tried strategy s = (s', Inr (a, pk))"
  shows "\<exists>b t0. A (au_ID a) = Some b \<and> t0 \<le> t2 \<and> a = ev_availability env b t0
    \<and> pk = to_lower (trim_space (au_Provider b)) \<and> pk \<in> set (normalizeProviderKeys providers)
    \<and> \<not> not_dispatchable env (canonicalModelKey (canonicalModelKey model)) a t2 \<and> request_admits env opts tried a"
proof -
  obtain d where env: "ev_availability env = effectiveAvailabilityAuth d" and ok: "sched_ok env T s"
    using reach_cases [OF assms(1)] by metis
  obtain t where t: "t \<in> {t1, t2}" "answered env t (canonicalModelKey (canonicalModelKey model)) s
      (normalizeProviderKeys providers) (options_predicate opts tried) (Inr (a, pk))"
    using manager.pickMixed_answered [OF env sched_okD(1) [OF ok] assms(2-4)] by blast
  then have le: "t \<le> t2"
    using assms(3) by auto
  obtain m t0 where m: "pk \<in> set (normalizeProviderKeys providers)" "creds s pk (au_ID a) = Some m" "t0 \<le> t"
      "a = ev_availability env (sm_auth m) t0" "request_admits env opts tried a"
      "\<not> not_dispatchable env (canonicalModelKey (canonicalModelKey model)) a t"
    using answered_sound [OF t(2)] by blast
  then show ?thesis
    using creds_registered(1,2) [OF assms(1) m(2)] dispatch_unblocked_stays [OF m(6) le] le
    by (intro exI [of _ "sm_auth m"] exI [of _ t0]) simp
qed

theorem scheduler_pick_sound_witness:
  "snd (demo_pick 60) = Inr (demo_cooling, ''codex'') \<and> \<not> not_dispatchable demo_env ''m'' demo_cooling 60
     \<and> not_dispatchable demo_env ''m'' demo_cooling 10"
proof -
  have res: "snd (demo_pick 60) = Inr (demo_cooling, ''codex'')"
    by code_simp
  have mk: "canonicalModelKey (canonicalModelKey ''m'') = ''m''"
    by code_simp
  have "not_dispatchable demo_env ''m'' demo_cooling 10"
    by code_simp
  moreover have eq: "demo_pick 60 = (fst (demo_pick 60), Inr (demo_cooling, ''codex''))"
    using res by (metis prod.collapse)
  ultimately show ?thesis
    using scheduler_pick_sound [OF demo_reach _ _ eq, unfolded mk] res by auto
qed

text \<open>
  C5. When some registered credential of a requested provider supports the model, satisfies the request,
  is not blocked when the request starts and is \<open>prompt\<close> then, the pick succeeds, and what it picks has at
  least that credential's priority.  \<open>prompt\<close> excludes one case, in which the code does overlook a credential
  (\<open>scheduler_waits_for_quota\<close>): the recovery time of one of its quotas lies ahead although the retry time of
  that model has passed.
\<close>

theorem scheduler_pick_complete:
  assumes "sched_reach env T s A" "T \<le> t1" "t1 \<le> t2"
    and "pickMixedWithStrategy env (t1, t2, t3) providers model opts tried strategy s = (s', r)"
    and "pk \<in> set (normalizeProviderKeys providers)" "creds s pk k = Some m"
    and "meta_supportsModel m (canonicalModelKey (canonicalModelKey model))"
    and "\<And>t0. t0 \<le> t2 \<Longrightarrow> prompt t1 (ev_availability env (sm_auth m) t0)
      \<and> \<not> not_dispatchable env (canonicalModelKey (canonicalModelKey model)) (ev_availability env (sm_auth m) t0) t1
      \<and> request_admits env opts tried (ev_availability env (sm_auth m) t0)"
  shows "\<exists>a pk' b. r = Inr (a, pk') \<and> A (au_ID a) = Some b \<and> authPriority (Some (sm_auth m)) \<le> authPriority (Some b)"
proof -
  obtain d where env: "ev_availability env = effectiveAvailabilityAuth d" and ok: "sched_ok env T s"
    using reach_cases [OF assms(1)] by metis
  obtain t where t: "t \<in> {t1, t2}" "answered env t (canonicalModelKey (canonicalModelKey model)) s
      (normalizeProviderKeys providers) (options_predicate opts tried) r"
    using manager.pickMixed_answered [OF env sched_okD(1) [OF ok] assms(2-4)] by blast
  have le: "t1 \<le> t" "t \<le> t2"
    using t(1) assms(3) by auto
  have "\<exists>a pk' m'. r = Inr (a, pk') \<and> creds s pk' (au_ID a) = Some m' \<and> sm_priority m \<le> sm_priority m'"
    by (rule answered_complete [OF t(2) assms(5-7)])
      (use assms(8) dispatch_unblocked_stays [OF _ le(1)] prompt_mono [OF _ le(1)] le(2) in \<open>meson order_trans\<close>)
  then show ?thesis
    using creds_registered [OF assms(1)] assms(6) by metis
qed

theorem scheduler_pick_complete_witness:
  "\<exists>a pk b. snd (demo_pick 60) = Inr (a, pk) \<and> demo_map (au_ID a) = Some b \<and> 5 \<le> authPriority (Some b)"
proof -
  let ?m = "buildScheduledAuthMeta demo_env demo_cooling"
  have pk: "''codex'' \<in> set (normalizeProviderKeys [''codex'', ''x''])"
    by code_simp
  have m: "creds demo_sched ''codex'' ''a'' = Some ?m"
    by code_simp
  have serves: "meta_supportsModel ?m (canonicalModelKey (canonicalModelKey ''m''))"
    by code_simp
  have a: "sm_auth ?m = demo_cooling" "authPriority (Some demo_cooling) = 5"
    by code_simp+
  have good: "prompt 60 demo_cooling
      \<and> \<not> not_dispatchable demo_env (canonicalModelKey (canonicalModelKey ''m'')) demo_cooling 60
      \<and> request_admits demo_env no_options [] demo_cooling"
    by code_simp
  show ?thesis
    using scheduler_pick_complete [OF demo_reach, of 60 60 60 "[''codex'', ''x'']" "''m''" no_options "[]" StrategyCurrent
        "fst (demo_pick 60)" "snd (demo_pick 60)", OF _ _ _ pk m serves] good
    by (simp add: a demo_view)
qed

text \<open>
  The excluded case.  A cooling model whose quota recovers after its retry time is entered with the recovery
  time, so between the two times the entry is not expired although the credential is not blocked.
\<close>

lemma scheduler_waits_for_quota:
  assumes "\<not> au_Disabled a" "au_Status a \<noteq> StatusDisabled" "\<not> RefreshBlocksDispatch (Some a)"
    and "runtimeModelKeyForAuth env mk a = canonicalModelKey mk"
    and "canonicalModelKey mk \<noteq> []" "state_for_model a (canonicalModelKey mk) = Some st"
    and "ms_Status st \<noteq> StatusDisabled" "ms_Unavailable st" "ms_NextRetryAfter st \<noteq> 0" "q_NextRecoverAt (ms_Quota st) \<noteq> 0"
    and "t0 < ms_NextRetryAfter st" "ms_NextRetryAfter st \<le> t" "t < q_NextRecoverAt (ms_Quota st)" "se_auth e = a"
  defines "e' \<equiv> refreshEntryState env mk t0 e"
  shows "\<not> not_dispatchable env mk a t"
    and "se_state e' \<noteq> SchedReady" "se_nextRetryAt e' = q_NextRecoverAt (ms_Quota st)" "\<not> expired t e'"
proof -
  have free: "\<not> fst (isAuthBlockedForModel (Some a) (canonicalModelKey mk) t)"
    using assms(1-3,5-9,12) by (simp add: isAuthBlockedForModel_def model_state_blocks_def)
  then show "\<not> not_dispatchable env mk a t"
    by (auto simp: dispatch_blocked_def dispatchModelBlockStatus_def assms(4) Let_def split: prod.splits)
  have block: "snd (route_block env mk a t0) = (True, (if q_Exceeded (ms_Quota st) then BlockReasonCooldown else BlockReasonOther),
      q_NextRecoverAt (ms_Quota st))"
    using assms(1-13) by (simp add: dispatchModelBlockStatus_def isAuthBlockedForModel_def model_state_blocks_def Let_def)
  then have "(se_state e', se_nextRetryAt e') = block_state (snd (route_block env mk a t0))"
    unfolding e'_def using refresh_state [of env mk t0 e] assms(14) by simp
  then show "se_state e' \<noteq> SchedReady" "se_nextRetryAt e' = q_NextRecoverAt (ms_Quota st)" "\<not> expired t e'"
    using assms(13) by (auto simp: block block_state_def expired_def split: if_splits)
qed

text \<open>Such a state comes from a 429 with a hint of an hour and a 500 that was in flight meanwhile.\<close>

definition quota_then_failure :: auth where
  "quota_then_failure =
     (let a = fst (the (applyResultTransition id (plain_auth ''a'')
                (quota_result\<lparr>re_RetryAfter := Some hour\<rparr>) ''m'' 100 False))
      in fst (the (applyResultTransition id a (quota_result\<lparr>re_Error := Some (status_error 500)\<rparr>) ''m'' 200 False)))"

lemma quota_outlives_retry:
  "map_option (\<lambda>s. (ms_NextRetryAfter s, q_NextRecoverAt (ms_Quota s))) (model_state_at quota_then_failure ''m'')
     = Some (200 + minute, 100 + hour)"
  by code_simp

text \<open>
  A scheduler that saw a request while that credential was cooling finds nothing after the retry time, while
  one that builds its shard then does.
\<close>

lemma free_credential_overlooked:
  "let t = 200 + 2 * minute; s = upsertAuth demo_env 200 quota_then_failure (newAuthScheduler RoundRobinKind);
       s' = fst (pickMixedWithStrategy demo_env (300, 300, 300) [''codex''] ''m'' no_options [] StrategyCurrent s)
   in \<not> not_dispatchable demo_env ''m'' quota_then_failure t
      \<and> \<not> isl (snd (pickMixedWithStrategy demo_env (t, t, t) [''codex''] ''m'' no_options [] StrategyCurrent s))
      \<and> isl (snd (pickMixedWithStrategy demo_env (t, t, t) [''codex''] ''m'' no_options [] StrategyCurrent s'))"
  by code_simp

text \<open>
  C6. Promoting a shard at any later time gives the indexes that a rebuild from scratch gives when every
  entry whose announced time has come is refreshed and the others are kept; and an entry that is kept could
  not have changed, a refresh would give it back, unless a refresh holds the credential or the recovery time
  of a quota lies ahead of its retry time.
\<close>

theorem scheduler_promotion_is_rebuild:
  assumes "sched_reach env T s A" "T \<le> t" "shard_of s pk mk = Some sh"
  shows "index_view (promoteExpired env t sh)
      = index_view (rebuildIndexes (sh\<lparr>sh_entries := map (\<lambda>(k, e).
          (k, if expired t e then refreshEntryState env mk t e else e)) (sh_entries sh)\<rparr>))
    \<and> (\<forall>k e. map_of (sh_entries sh) k = Some e \<and> \<not> expired t e \<and> prompt t (se_auth e)
          \<and> \<not> RefreshBlocksDispatch (Some (se_auth e)) \<longrightarrow> refreshEntryState env mk t e = e)"
proof -
  obtain d where ok: "sched_ok env T s"
    using reach_cases [OF assms(1)] by metis
  note shard = shard_of_ok [OF sched_okD(1) [OF ok] assms(3)]
  note fine = shard_okD(1) [OF shard] and mk = shard_okD(2) [OF shard]
  have "refreshEntryState env mk t e = e"
    if "map_of (sh_entries sh) k = Some e" "\<not> expired t e" "prompt t (se_auth e)"
      "\<not> RefreshBlocksDispatch (Some (se_auth e))" for k e
  proof -
    have "fresh env mk t e"
      using shard_okD(3) [OF shard that(1)] fresh_mono [OF _ assms(2)] by (simp add: entry_valid_def)
    then show ?thesis
      using unexpired_fresh(2) that(2-4) by blast
  qed
  moreover have "sh_entries (promoteExpired env t sh)
      = map (\<lambda>(k, e). (k, if expired t e then refreshEntryState env mk t e else e)) (sh_entries sh)"
    unfolding promoteExpired_fine(1) [OF fine] promoted_def mk ..
  ultimately show ?thesis
    by (intro conjI allI impI) (use promoteExpired_fine(3) [OF fine, of env t]
      rebuild_indexed [of "sh\<lparr>sh_entries := map (\<lambda>(k, e). (k, if expired t e then refreshEntryState env mk t e else e)) (sh_entries sh)\<rparr>"]
      in \<open>auto simp: shard_fine_def indexed_def\<close>)
qed

theorem scheduler_promotion_is_rebuild_witness:
  "(let sh = the (shard_of (fst (demo_pick 10)) ''codex'' ''m'')
    in index_view (promoteExpired demo_env 60 sh)
      = index_view (rebuildIndexes (sh\<lparr>sh_entries := map (\<lambda>(k, e).
          (k, if expired 60 e then refreshEntryState demo_env ''m'' 60 e else e)) (sh_entries sh)\<rparr>))
     \<and> sh_blocked sh = [''a''] \<and> sh_blocked (promoteExpired demo_env 60 sh) = [])"
proof -
  let ?sh = "the (shard_of (fst (demo_pick 10)) ''codex'' ''m'')"
  have sh: "shard_of (fst (demo_pick 10)) ''codex'' ''m'' = Some ?sh"
    by code_simp
  have ends: "sh_blocked ?sh = [''a'']" "sh_blocked (promoteExpired demo_env 60 ?sh) = []"
    by code_simp+
  show ?thesis
    unfolding Let_def using scheduler_promotion_is_rebuild [OF demo_reach_pick, of 60, OF _ sh] ends by simp
qed

text \<open>
  C7. For a request without a list of allowed IDs, the retry-round summary is the sum over every entry of
  the requested providers that is not excluded and passes the policy and the retry round: the sums the
  shards keep, which answer the first round, are those of a scan.
\<close>

theorem scheduler_summary_is_scan:
  assumes "sched_reach env T s A" "T \<le> now"
    and "normalizeProviderKeys providers \<noteq> []" "modelAllowedByID (canonicalModelKey model) (allowedModelIDsFromOptions opts)"
    and "allowedAuthIDsFromOptions opts = None"
    and "ensure_shards env now (canonicalModelKey model) (normalizeProviderKeys providers) s = (shards, s')"
  shows "summarizeDispatchAvailability env now providers model opts excluded retry s
    = (s', aggregate_summary (foldl aggregate_add no_aggregate (map snd (filter (summary_admits env excluded
        (credentialPolicyFromOptions opts) (requestRetryRoundFromOptions opts) retry) (all_entries shards)))) now retry)"
proof -
  let ?admits = "summary_admits env excluded (credentialPolicyFromOptions opts) (requestRetryRoundFromOptions opts) retry"
  obtain d where env: "ev_availability env = effectiveAvailabilityAuth d" and ok: "sched_ok env T s"
    using reach_cases [OF assms(1)] by metis
  note E = manager.ensure_shards_ok [OF env sched_okD(1) [OF ok] assms(2) normalizeProviderKeys_distinct assms(6)]
  have "merged_aggregate (credentialPolicyFromOptions opts) shards
      = foldl aggregate_add no_aggregate (map snd (filter ?admits (all_entries shards)))"
    if first: "excluded = []" "requestRetryRoundFromOptions opts = 0"
  proof -
    have "shard_fine sh \<and> (\<forall>(k, e)\<in>set (sh_entries sh). \<exists>t. fresh env (canonicalModelKey (canonicalModelKey model)) t e)"
      if sh: "(pk, Some sh) \<in> set shards" for pk sh
    proof -
      have shard: "shard_ok env now (canonicalModelKey (canonicalModelKey model)) (creds s' pk) sh"
        using E(4) sh by (simp add: request_shards_def)
      then show ?thesis
        using shard_okD(1,3) [OF shard] fine_entry [OF shard_okD(1) [OF shard]] by (fastforce simp: entry_valid_def)
    qed
    then have "merged_aggregate (credentialPolicyFromOptions opts) shards
        = foldl aggregate_add no_aggregate (policy_entries (credentialPolicyFromOptions opts) (all_entries shards))"
      by (rule merged_aggregate_scan) auto
    moreover have "map snd (filter ?admits es) = policy_entries (credentialPolicyFromOptions opts) es" for es
      using first by (induction es) (auto simp: policy_entries_def summary_admits_def requestRetryRoundAllowed_def)
    ultimately show ?thesis
      by simp
  qed
  then show ?thesis
    using assms(3-6) by (simp add: summarizeDispatchAvailability_def Let_def)
qed

theorem scheduler_summary_is_scan_witness:
  "su_total (snd (summarizeDispatchAvailability demo_env 10 [''codex'', ''x''] ''m'' no_options [] 2 demo_sched)) = 2
   \<and> su_cooldownCount (snd (summarizeDispatchAvailability demo_env 10 [''codex'', ''x''] ''m'' no_options [] 2 demo_sched)) = 1"
proof -
  let ?shards = "fst (ensure_shards demo_env 10 (canonicalModelKey ''m'') (normalizeProviderKeys [''codex'', ''x'']) demo_sched)"
  have pre: "normalizeProviderKeys [''codex'', ''x''] \<noteq> []"
      "modelAllowedByID (canonicalModelKey ''m'') (allowedModelIDsFromOptions no_options)" "allowedAuthIDsFromOptions no_options = None"
    by code_simp+
  have scan: "su_total (aggregate_summary (foldl aggregate_add no_aggregate (map snd (filter (summary_admits demo_env []
        (credentialPolicyFromOptions no_options) (requestRetryRoundFromOptions no_options) 2) (all_entries ?shards)))) 10 2) = 2"
    "su_cooldownCount (aggregate_summary (foldl aggregate_add no_aggregate (map snd (filter (summary_admits demo_env []
        (credentialPolicyFromOptions no_options) (requestRetryRoundFromOptions no_options) 2) (all_entries ?shards)))) 10 2) = 1"
    by code_simp+
  show ?thesis
    using scan by (simp add: scheduler_summary_is_scan [OF demo_reach _ pre prod.collapse [symmetric]])
qed

end
