(* ===== verification/Token_Times.thy ===== *)
theory Token_Times
  imports Cooldown_State
begin

declare map_of_eq_Some_iff [simp del]

section \<open>Expiry times, refresh intervals and leads of a credential\<close>

text \<open>
  How a credential says when it must be refreshed: the readers of \<^verbatim>\<open>types.go\<close> (\<^verbatim>\<open>expirationFromMap\<close>,
  \<^verbatim>\<open>parseTimeValue\<close>, \<^verbatim>\<open>normaliseUnix\<close>, \<^verbatim>\<open>ProviderRefreshLead\<close>, \<^verbatim>\<open>AccountInfo\<close>), of \<^verbatim>\<open>manager.go\<close>
  (\<^verbatim>\<open>authPreferredInterval\<close>, \<^verbatim>\<open>authLastRefreshTimestamp\<close> and their helpers), the refresh tokens of
  \<^verbatim>\<open>refresh.go\<close> and the registered leads of \<^verbatim>\<open>refresh_registry.go\<close>.

  The metadata is what a provider or an operator wrote, so every reader is total.  The texts are read
  by \<^verbatim>\<open>time.Parse\<close>, \<^verbatim>\<open>time.ParseDuration\<close> and \<^verbatim>\<open>strconv.ParseFloat\<close>, and floats are multiplied in
  \<^verbatim>\<open>float64\<close>: the record \<open>time_readers\<close> holds these library functions, and the theorems hold for all of
  them.  \<^verbatim>\<open>Auth.Runtime\<close> has no implementation in the repository; of it the code asks two optional
  methods, which are the record \<open>auth_runtime\<close>.
\<close>

record time_readers =
  tr_Parse :: "string \<Rightarrow> string \<Rightarrow> gotime option" \<comment> \<open>\<^verbatim>\<open>time.Parse(layout, s)\<close>\<close>
  tr_ParseDuration :: "string \<Rightarrow> duration option"
  tr_ParseFloat :: "string \<Rightarrow> gofloat option"
  tr_Int64 :: "gofloat \<Rightarrow> int" \<comment> \<open>\<^verbatim>\<open>int64(f)\<close> of a float outside the range\<close>
  tr_Seconds :: "gofloat \<Rightarrow> duration" \<comment> \<open>\<^verbatim>\<open>time.Duration(f * float64(time.Second))\<close>\<close>

record auth_runtime =
  ar_ShouldRefresh :: "(gotime \<Rightarrow> auth \<Rightarrow> bool) option"
  ar_RefreshLead :: "duration option"

subsection \<open>Times\<close>

definition time_of_unix :: "int \<Rightarrow> gotime" where
  "time_of_unix sec = unix_epoch + sec * second"

definition time_of_unix_milli :: "int \<Rightarrow> gotime" where
  "time_of_unix_milli ms = unix_epoch + ms * 1000000"

definition normaliseUnix :: "int \<Rightarrow> gotime" where
  "normaliseUnix raw =
     (if raw \<le> 0 then 0
      else if raw > 1000000000000 then time_of_unix_milli raw
      else time_of_unix raw)"

definition float_int64 :: "time_readers \<Rightarrow> gofloat \<Rightarrow> int" where
  "float_int64 tr f =
     (case f of
        FFin r \<Rightarrow> if is_i64 (trunc_rat r) then trunc_rat r else tr_Int64 tr f
      | _ \<Rightarrow> tr_Int64 tr f)"

definition time_layouts :: "string list" where
  "time_layouts =
     [''2006-01-02T15:04:05Z07:00'', ''2006-01-02T15:04:05.999999999Z07:00'', ''2006-01-02 15:04:05'',
      ''2006-01-02 15:04'', ''2006-01-02T15:04:05Z07:00'']"

fun first_layout :: "time_readers \<Rightarrow> string \<Rightarrow> string list \<Rightarrow> gotime option" where
  "first_layout tr s [] = None"
| "first_layout tr s (layout # layouts) =
     (case tr_Parse tr layout s of
        Some ts \<Rightarrow> Some ts
      | None \<Rightarrow> first_layout tr s layouts)"

fun parseTimeValue :: "time_readers \<Rightarrow> goval \<Rightarrow> gotime option" where
  "parseTimeValue tr (VString v) =
     (let s = trim_space v
      in if s = [] then None
         else case first_layout tr s time_layouts of
             Some ts \<Rightarrow> Some ts
           | None \<Rightarrow> map_option normaliseUnix (parse_int64 s))"
| "parseTimeValue tr (VFloat64 f) = Some (normaliseUnix (float_int64 tr f))"
| "parseTimeValue tr (VInt KInt n) = Some (normaliseUnix n)"
| "parseTimeValue tr (VInt KInt32 n) = Some (normaliseUnix n)"
| "parseTimeValue tr (VInt KInt64 n) = Some (normaliseUnix n)"
| "parseTimeValue tr (VNumber s) =
     (case parse_int64 s of
        Some i \<Rightarrow> Some (normaliseUnix i)
      | None \<Rightarrow> map_option (\<lambda>f. normaliseUnix (float_int64 tr f)) (tr_ParseFloat tr s))"
| "parseTimeValue tr _ = None"

text \<open>The first of the keys whose value \<open>f\<close> accepts.\<close>

fun first_of_keys :: "('v \<Rightarrow> 'r option) \<Rightarrow> (string, 'v) gomap \<Rightarrow> string list \<Rightarrow> 'r option" where
  "first_of_keys f m [] = None"
| "first_of_keys f m (key # keys) =
     (case Option.bind (map_of m key) f of
        Some r \<Rightarrow> Some r
      | None \<Rightarrow> first_of_keys f m keys)"

definition keep_if :: "('r \<Rightarrow> bool) \<Rightarrow> 'r option \<Rightarrow> 'r option" where
  "keep_if P r = (case r of Some x \<Rightarrow> if P x then Some x else None | None \<Rightarrow> None)"

lemma first_of_keys_SomeD:
  "first_of_keys f m keys = Some r \<Longrightarrow> \<exists>key\<in>set keys. \<exists>v. map_of m key = Some v \<and> f v = Some r"
  by (induction keys) (auto split: option.splits bind_splits)

lemma keep_if_Some_iff [simp]: "keep_if P r = Some x \<longleftrightarrow> r = Some x \<and> P x"
  by (auto simp: keep_if_def split: option.splits)

subsection \<open>Expiry\<close>

definition expireKeys :: "string list" where
  "expireKeys = [''expired'', ''expire'', ''expires_at'', ''expiresAt'', ''expiry'', ''expires'']"

definition parseRelativeExpirySeconds :: "time_readers \<Rightarrow> (string, goval) gomap \<Rightarrow> int option" where
  "parseRelativeExpirySeconds tr meta =
     first_of_keys (\<lambda>v. keep_if (\<lambda>seconds. seconds > 0) (parseIntAny (tr_Int64 tr) v)) meta
       [''expires_in'', ''expiresIn'']"

definition parseRelativeExpiryTimestamp :: "time_readers \<Rightarrow> (string, goval) gomap \<Rightarrow> gotime option" where
  "parseRelativeExpiryTimestamp tr meta =
     first_of_keys (\<lambda>v. keep_if (\<lambda>timestamp. timestamp \<noteq> 0) (parseTimeValue tr v)) meta
       [''timestamp'', ''issued_at'', ''issuedAt'']"

text \<open>The two sources of an expiry in one map: an absolute time, or a lifetime and its start.\<close>

definition own_expiration :: "time_readers \<Rightarrow> (string, goval) gomap \<Rightarrow> gotime option" where
  "own_expiration tr meta =
     (case first_of_keys (parseTimeValue tr) meta expireKeys of
        Some ts \<Rightarrow> Some ts
      | None \<Rightarrow>
          (case parseRelativeExpirySeconds tr meta of
             None \<Rightarrow> None
           | Some expiresIn \<Rightarrow>
               (case parseRelativeExpiryTimestamp tr meta of
                  None \<Rightarrow> None
                | Some timestamp \<Rightarrow> Some (timestamp + wrap64 (expiresIn * second)))))"

text \<open>A \<^verbatim>\<open>map[string]string\<close> is read as a map of dynamic values; its entries nest no further.\<close>

fun nested_map :: "goval option \<Rightarrow> (string, goval) gomap option" where
  "nested_map (Some (VMap val)) = Some val"
| "nested_map (Some (VStringMap val)) = Some (map (\<lambda>(k, v). (k, VString v)) val)"
| "nested_map _ = None"

text \<open>How deep the maps of a value nest, the measure of the recursion.\<close>

fun map_depth :: "goval \<Rightarrow> nat" where
  "map_depth (VMap m) = Suc (foldr max (map (\<lambda>kv. map_depth (snd kv)) m) 0)"
| "map_depth (VStringMap m) = 1"
| "map_depth _ = 0"

lemma depth_member: "n \<in> set ns \<Longrightarrow> n \<le> foldr max ns (0::nat)"
  by (induction ns) auto

lemma depth_strings: "foldr max (map (\<lambda>kv. map_depth (snd kv)) (map (\<lambda>(k, v). (k, VString v)) m)) 0 = 0"
  by (induction m) auto

lemma nested_map_depth:
  assumes "nested_map (map_of meta key) = Some val"
  shows "map_depth (VMap val) < map_depth (VMap meta)"
proof -
  obtain v where v: "map_of meta key = Some v"
    using assms by (cases "map_of meta key") auto
  then have "map_depth v \<in> set (map (\<lambda>kv. map_depth (snd kv)) meta)"
    by (force dest: map_of_SomeD)
  then have "map_depth v \<le> foldr max (map (\<lambda>kv. map_depth (snd kv)) meta) 0"
    by (rule depth_member)
  moreover have "map_depth (VMap val) \<le> map_depth v"
    using assms v by (cases v) (auto simp: depth_strings simp del: map_map)
  ultimately show ?thesis
    by simp
qed

function expirationFromMap :: "time_readers \<Rightarrow> (string, goval) gomap \<Rightarrow> gotime option" where
  "expirationFromMap tr meta =
     (case own_expiration tr meta of
        Some ts \<Rightarrow> Some ts
      | None \<Rightarrow>
          (case (case nested_map (map_of meta ''token'') of
                   None \<Rightarrow> None
                 | Some val \<Rightarrow> expirationFromMap tr val) of
             Some ts \<Rightarrow> Some ts
           | None \<Rightarrow>
               (case nested_map (map_of meta ''Token'') of
                  None \<Rightarrow> None
                | Some val \<Rightarrow> expirationFromMap tr val)))"
  by pat_completeness auto

termination
  by (relation "measure (\<lambda>(tr, meta). map_depth (VMap meta))")
    (simp_all add: nested_map_depth del: map_depth.simps)

declare expirationFromMap.simps [simp del]

definition ExpirationTime :: "time_readers \<Rightarrow> auth \<Rightarrow> gotime option" where
  "ExpirationTime tr a = expirationFromMap tr (au_Metadata a)"

subsection \<open>The last refresh\<close>

definition last_refresh_keys :: "string list" where
  "last_refresh_keys = [''last_refresh'', ''lastRefresh'', ''last_refreshed_at'', ''lastRefreshedAt'']"

definition lookupMetadataTime :: "time_readers \<Rightarrow> (string, goval) gomap \<Rightarrow> string list \<Rightarrow> gotime option" where
  "lookupMetadataTime tr meta keys = first_of_keys (parseTimeValue tr) meta keys"

definition authLastRefreshTimestamp :: "time_readers \<Rightarrow> auth \<Rightarrow> gotime option" where
  "authLastRefreshTimestamp tr a =
     (case lookupMetadataTime tr (au_Metadata a) last_refresh_keys of
        Some ts \<Rightarrow> Some ts
      | None \<Rightarrow>
          first_of_keys
            (\<lambda>val0. let val = trim_space val0
                    in if val = [] then None else parseTimeValue tr (VString val))
            (au_Attributes a) last_refresh_keys)"

subsection \<open>The preferred interval\<close>

definition parseDurationString :: "time_readers \<Rightarrow> string \<Rightarrow> duration" where
  "parseDurationString tr raw =
     (let s = trim_space raw
      in if s = [] then 0
         else case keep_if (\<lambda>dur. dur > 0) (tr_ParseDuration tr s) of
             Some dur \<Rightarrow> dur
           | None \<Rightarrow>
               (case tr_ParseFloat tr s of
                  Some secs \<Rightarrow>
                    (case secs of
                       FFin r \<Rightarrow> if r > 0 then tr_Seconds tr secs else 0
                     | FInf neg \<Rightarrow> if neg then 0 else tr_Seconds tr secs
                     | FNaN \<Rightarrow> 0)
                | None \<Rightarrow> 0))"

text \<open>
  \<^verbatim>\<open>v <= 0\<close> is false of a NaN, so a NaN of a float case reaches the conversion; the \<^verbatim>\<open>f > 0\<close> of the last
  two readers excludes it.
\<close>

definition float_seconds :: "time_readers \<Rightarrow> gofloat \<Rightarrow> duration" where
  "float_seconds tr f =
     (case f of
        FFin r \<Rightarrow> if r \<le> 0 then 0 else tr_Seconds tr f
      | FInf neg \<Rightarrow> if neg then 0 else tr_Seconds tr f
      | FNaN \<Rightarrow> tr_Seconds tr f)"

definition int_seconds :: "int \<Rightarrow> duration" where
  "int_seconds v = (if v \<le> 0 then 0 else wrap64 (v * second))"

text \<open>A \<^verbatim>\<open>time.Duration\<close> inside metadata is a \<open>VOther\<close>: no reader of the program stores one.\<close>

fun parseDurationValue :: "time_readers \<Rightarrow> goval \<Rightarrow> duration" where
  "parseDurationValue tr (VInt k v) =
     (if List.member [KInt, KInt32, KInt64, KUint, KUint32, KUint64] k then int_seconds v else 0)"
| "parseDurationValue tr (VFloat32 f) = float_seconds tr f"
| "parseDurationValue tr (VFloat64 f) = float_seconds tr f"
| "parseDurationValue tr (VNumber s) =
     (case parse_int64 s of
        Some i \<Rightarrow> int_seconds i
      | None \<Rightarrow>
          (case tr_ParseFloat tr s of
             Some (FFin r) \<Rightarrow> if r > 0 then tr_Seconds tr (FFin r) else 0
           | Some (FInf neg) \<Rightarrow> if neg then 0 else tr_Seconds tr (FInf neg)
           | _ \<Rightarrow> 0))"
| "parseDurationValue tr (VString v) = parseDurationString tr v"
| "parseDurationValue tr _ = 0"

definition positive_duration :: "duration \<Rightarrow> duration option" where
  "positive_duration dur = (if dur > 0 then Some dur else None)"

definition durationFromMetadata :: "time_readers \<Rightarrow> (string, goval) gomap \<Rightarrow> string list \<Rightarrow> duration" where
  "durationFromMetadata tr meta keys =
     (case first_of_keys (\<lambda>val. positive_duration (parseDurationValue tr val)) meta keys of
        Some dur \<Rightarrow> dur
      | None \<Rightarrow> 0)"

definition durationFromAttributes :: "time_readers \<Rightarrow> (string, string) gomap \<Rightarrow> string list \<Rightarrow> duration" where
  "durationFromAttributes tr attrs keys =
     (case first_of_keys (\<lambda>val. positive_duration (parseDurationString tr val)) attrs keys of
        Some dur \<Rightarrow> dur
      | None \<Rightarrow> 0)"

definition refresh_interval_keys :: "string list" where
  "refresh_interval_keys =
     [''refresh_interval_seconds'', ''refreshIntervalSeconds'', ''refresh_interval'', ''refreshInterval'']"

definition authPreferredInterval :: "time_readers \<Rightarrow> auth \<Rightarrow> duration" where
  "authPreferredInterval tr a =
     (let d = durationFromMetadata tr (au_Metadata a) refresh_interval_keys
      in if d > 0 then d
         else let d = durationFromAttributes tr (au_Attributes a) refresh_interval_keys
              in if d > 0 then d else 0)"

lemma authPreferredInterval_nonneg: "0 \<le> authPreferredInterval tr a"
  by (simp add: authPreferredInterval_def Let_def)

subsection \<open>Leads\<close>

text \<open>A registered factory is the lead it returns: the factories of the program are constant.\<close>

definition RegisterRefreshLeadProvider ::
    "string \<Rightarrow> duration option \<Rightarrow> (string, duration option) gomap \<Rightarrow> (string, duration option) gomap" where
  "RegisterRefreshLeadProvider provider0 factory factories =
     (let provider = to_lower (trim_space provider0)
      in if provider = [] then factories else AList.update provider factory factories)"

definition registerRefreshLead ::
    "string \<Rightarrow> duration option \<Rightarrow> (string, duration option) gomap \<Rightarrow> (string, duration option) gomap" where
  "registerRefreshLead provider lead factories =
     RegisterRefreshLeadProvider provider
       (case lead of None \<Rightarrow> None | Some d \<Rightarrow> if d \<le> 0 then None else Some d) factories"

definition initial_leads :: "(string \<times> duration option) list" where
  "initial_leads =
     [(''codex'', Some (5 * 24 * hour)), (''claude'', Some (4 * hour)), (''gemini'', None),
      (''antigravity'', Some (30 * minute)), (''kimi'', Some (5 * minute)),
      (''kimi-ai'', Some (5 * minute)), (''xai'', Some (5 * minute)), (''meta'', None)]"

definition refreshLeadFactories :: "(string, duration option) gomap" where
  "refreshLeadFactories = foldl (\<lambda>m (provider, lead). registerRefreshLead provider lead m) [] initial_leads"

definition ProviderRefreshLead :: "string \<Rightarrow> auth_runtime option \<Rightarrow> duration option" where
  "ProviderRefreshLead provider0 runtime =
     (let provider = to_lower (trim_space provider0)
      in case keep_if (\<lambda>lead. lead > 0) (Option.bind runtime ar_RefreshLead) of
           Some lead \<Rightarrow> Some lead
         | None \<Rightarrow> keep_if (\<lambda>lead. lead > 0) (gomap_get None refreshLeadFactories provider))"

lemma ProviderRefreshLead_pos: "ProviderRefreshLead provider runtime = Some lead \<Longrightarrow> 0 < lead"
  by (auto simp: ProviderRefreshLead_def Let_def split: option.splits)

subsection \<open>Refresh tokens and the kind of account\<close>

definition metaStringValue :: "(string, goval) gomap \<Rightarrow> string \<Rightarrow> string" where
  "metaStringValue meta key = (case map_of meta key of Some (VString v) \<Rightarrow> trim_space v | _ \<Rightarrow> [])"

definition extractMetaDCAToken :: "auth \<Rightarrow> string" where
  "extractMetaDCAToken a =
     (let dca = trim_space (gomap_get [] (au_Attributes a) ''dca_token'');
          access = trim_space (gomap_get [] (au_Attributes a) ''access_token'');
          metaDca = metaStringValue (au_Metadata a) ''dca_token'';
          metaAccess = metaStringValue (au_Metadata a) ''access_token''
      in if dca \<noteq> [] then dca
         else if has_prefix access ''dca:'' then access
         else if metaDca \<noteq> [] then metaDca
         else if has_prefix metaAccess ''dca:'' then metaAccess
         else [])"

definition authSupportsBuiltInRefresh :: "auth \<Rightarrow> bool" where
  "authSupportsBuiltInRefresh a =
     (let provider = to_lower (trim_space (au_Provider a))
      in if List.member [''codex'', ''claude'', ''kimi'', ''kimi-ai'', ''antigravity'', ''xai''] provider
         then metaStringValue (au_Metadata a) ''refresh_token'' \<noteq> []
         else if provider = ''meta'' then extractMetaDCAToken a \<noteq> []
         else False)"

definition AccountInfo :: "auth option \<Rightarrow> string \<times> string" where
  "AccountInfo auth =
     (case auth of
        None \<Rightarrow> ([], [])
      | Some a \<Rightarrow>
          if AuthKind a = ''oauth''
          then (''oauth'', case map_of (au_Metadata a) ''email'' of Some (VString v) \<Rightarrow> trim_space v | _ \<Rightarrow> [])
          else if AuthKind a = ''apikey'' then (''api_key'', authAttributeValue a ''api_key'')
          else ([], []))"

lemma AccountInfo_api_key: "fst (AccountInfo (Some a)) = ''api_key'' \<longleftrightarrow> AuthKind a = ''apikey''"
  by (simp add: AccountInfo_def)

lemma refreshLeadFactories_eval:
  "refreshLeadFactories =
     [(''codex'', Some (5 * 24 * hour)), (''claude'', Some (4 * hour)), (''gemini'', None),
      (''antigravity'', Some (30 * minute)), (''kimi'', Some (5 * minute)),
      (''kimi-ai'', Some (5 * minute)), (''xai'', Some (5 * minute)), (''meta'', None)]"
  unfolding refreshLeadFactories_def initial_leads_def registerRefreshLead_def
    RegisterRefreshLeadProvider_def
  by code_simp

lemma builtin_lead_bounded:
  assumes "ProviderRefreshLead provider None = Some lead"
  shows "lead \<le> 5 * 24 * hour"
  using assms unfolding ProviderRefreshLead_def refreshLeadFactories_eval Let_def gomap_get_def
  by (auto simp: duration_defs split: option.splits if_splits)

end
