(* ===== verification/Refresh_Due.thy ===== *)
theory Refresh_Due
  imports Token_Times
begin

declare map_of_eq_Some_iff [simp del]

section \<open>When a credential is due for a refresh\<close>

text \<open>
  The two decisions of the automatic refresh: \<^verbatim>\<open>shouldRefresh\<close> of \<^verbatim>\<open>manager.go\<close>, asked at the moment a
  credential is handled, and \<^verbatim>\<open>nextRefreshCheckAt\<close> of \<^verbatim>\<open>auto_refresh_loop.go\<close>, which tells the loop
  when to ask again.  They repeat each other's case analysis, and the loop is correct only as long
  as they agree: \<open>check_exact\<close> states that they do, so that sleeping until the next check misses
  nothing and a check that is due now finds a refresh that is due.
\<close>

definition refreshCheckInterval :: duration where
  "refreshCheckInterval = 5 * second"

definition refreshPendingBackoff :: duration where
  "refreshPendingBackoff = minute"

definition refreshFailureBackoff :: duration where
  "refreshFailureBackoff = 5 * minute"

definition refreshIneffectiveBackoff :: duration where
  "refreshIneffectiveBackoff = 30 * second"

definition refreshMaxConcurrency :: int where
  "refreshMaxConcurrency = 16"

lemmas refresh_backoffs = refreshCheckInterval_def refreshPendingBackoff_def
  refreshFailureBackoff_def refreshIneffectiveBackoff_def

definition authRefreshDisabled :: "auth option \<Rightarrow> bool" where
  "authRefreshDisabled auth =
     (case auth of None \<Rightarrow> True | Some a \<Rightarrow> au_Disabled a \<or> au_Status a = StatusDisabled)"

text \<open>\<^verbatim>\<open>Auth.Runtime\<close> by credential: a lookup beside the credential, as the record does not hold it.\<close>

definition evaluator_of :: "auth_runtime option \<Rightarrow> (gotime \<Rightarrow> auth \<Rightarrow> bool) option" where
  "evaluator_of runtime = Option.bind runtime ar_ShouldRefresh"

definition last_refresh_of :: "time_readers \<Rightarrow> auth \<Rightarrow> gotime" where
  "last_refresh_of tr a =
     (if au_LastRefreshedAt a = 0
      then case authLastRefreshTimestamp tr a of Some ts \<Rightarrow> ts | None \<Rightarrow> au_LastRefreshedAt a
      else au_LastRefreshedAt a)"

text \<open>\<^verbatim>\<open>hasExpiry && !expiry.IsZero()\<close>: the expiry where there is one.\<close>

definition known_expiry :: "time_readers \<Rightarrow> auth \<Rightarrow> gotime option" where
  "known_expiry tr a = keep_if (\<lambda>expiry. expiry \<noteq> 0) (ExpirationTime tr a)"

subsection \<open>The decision\<close>

definition due_by_interval :: "time_readers \<Rightarrow> duration \<Rightarrow> auth \<Rightarrow> gotime \<Rightarrow> bool" where
  "due_by_interval tr interval a now =
     (let lastRefresh = last_refresh_of tr a;
          rest = (if lastRefresh = 0 then True else time_sub now lastRefresh \<ge> interval)
      in case known_expiry tr a of
           Some expiry \<Rightarrow>
             if \<not> expiry > now then True
             else if time_sub expiry now \<le> interval then True
             else rest
         | None \<Rightarrow> rest)"

definition due_by_lead :: "time_readers \<Rightarrow> auth_runtime option \<Rightarrow> bool \<Rightarrow> auth \<Rightarrow> gotime \<Rightarrow> bool" where
  "due_by_lead tr runtime builtInRefresh a now =
     (case ProviderRefreshLead (to_lower (au_Provider a)) runtime of
        None \<Rightarrow> False
      | Some lead \<Rightarrow>
          if lead \<le> 0
          then (case known_expiry tr a of Some expiry \<Rightarrow> now > expiry | None \<Rightarrow> False)
          else (case known_expiry tr a of
              Some expiry \<Rightarrow> time_sub expiry now \<le> lead
            | None \<Rightarrow>
                if builtInRefresh then False
                else if last_refresh_of tr a \<noteq> 0 then time_sub now (last_refresh_of tr a) \<ge> lead
                else True))"

definition shouldRefresh :: "time_readers \<Rightarrow> auth_runtime option \<Rightarrow> auth option \<Rightarrow> gotime \<Rightarrow> bool" where
  "shouldRefresh tr runtime auth now =
     (case auth of
        None \<Rightarrow> False
      | Some a \<Rightarrow>
          if authRefreshDisabled (Some a) then False
          else if au_NextRefreshAfter a \<noteq> 0 \<and> now < au_NextRefreshAfter a then False
          else (case evaluator_of runtime of
              Some evaluate \<Rightarrow> evaluate now a
            | None \<Rightarrow>
                let builtInRefresh = authSupportsBuiltInRefresh a
                in if builtInRefresh \<and> accessTokenForFingerprint (Some a) = [] then True
                   else let interval = authPreferredInterval tr a
                        in if interval > 0 then due_by_interval tr interval a now
                           else due_by_lead tr runtime builtInRefresh a now))"

definition ApplyRefreshPendingState :: "auth \<Rightarrow> gotime \<Rightarrow> auth" where
  "ApplyRefreshPendingState a now =
     a\<lparr>au_NextRefreshAfter := now + refreshPendingBackoff, au_UpdatedAt := now\<rparr>"

subsection \<open>The next check\<close>

text \<open>The branch of a preferred interval: the earlier of the two candidates, or now.\<close>

definition check_by_interval :: "time_readers \<Rightarrow> duration \<Rightarrow> auth \<Rightarrow> gotime \<Rightarrow> gotime" where
  "check_by_interval tr pref a now =
     (let lastRefresh = last_refresh_of tr a;
          pick = (\<lambda>candidates.
            if lastRefresh = 0 then now
            else let next = foldl min (hd (candidates @ [lastRefresh + pref]))
                              (tl (candidates @ [lastRefresh + pref]))
                 in if \<not> next > now then now else next)
      in case known_expiry tr a of
           Some expiry \<Rightarrow>
             if \<not> expiry > now \<or> time_sub expiry now \<le> pref then now
             else pick [expiry + - pref]
         | None \<Rightarrow> pick [])"

definition check_interval :: "duration \<Rightarrow> duration" where
  "check_interval interval = (if interval \<le> 0 then refreshCheckInterval else interval)"

definition check_by_lead ::
    "time_readers \<Rightarrow> auth_runtime option \<Rightarrow> bool \<Rightarrow> auth \<Rightarrow> gotime \<Rightarrow> duration \<Rightarrow> gotime option" where
  "check_by_lead tr runtime builtInRefresh a now interval =
     (case ProviderRefreshLead (to_lower (au_Provider a)) runtime of
        None \<Rightarrow> None
      | Some lead \<Rightarrow>
          (case known_expiry tr a of
             Some expiry \<Rightarrow>
               let dueAt = expiry + - lead in if \<not> dueAt > now then Some now else Some dueAt
           | None \<Rightarrow>
               if builtInRefresh then Some (now + check_interval interval)
               else if last_refresh_of tr a \<noteq> 0
               then let dueAt = last_refresh_of tr a + lead
                    in if \<not> dueAt > now then Some now else Some dueAt
               else Some now))"

definition nextRefreshCheckAt ::
    "time_readers \<Rightarrow> auth_runtime option \<Rightarrow> gotime \<Rightarrow> auth option \<Rightarrow> duration \<Rightarrow> gotime option" where
  "nextRefreshCheckAt tr runtime now auth interval =
     (case auth of
        None \<Rightarrow> None
      | Some a \<Rightarrow>
          if authRefreshDisabled (Some a) then None
          else if fst (AccountInfo (Some a)) = ''api_key'' then None
          else if au_NextRefreshAfter a \<noteq> 0 \<and> now < au_NextRefreshAfter a
          then Some (au_NextRefreshAfter a)
          else (case evaluator_of runtime of
              Some evaluate \<Rightarrow> Some (now + check_interval interval)
            | None \<Rightarrow>
                let builtInRefresh = authSupportsBuiltInRefresh a
                in if builtInRefresh \<and> accessTokenForFingerprint (Some a) = [] then Some now
                   else let pref = authPreferredInterval tr a
                        in if pref > 0 then Some (check_by_interval tr pref a now)
                           else check_by_lead tr runtime builtInRefresh a now interval))"

subsection \<open>The two agree\<close>

lemma time_sub_le: "time_sub t u \<le> d \<Longrightarrow> d < max_i64 \<Longrightarrow> t - u \<le> d"
  by (auto simp: time_sub_def i64_simps split: if_splits)

lemma time_sub_leI: "t - u \<le> d \<Longrightarrow> min_i64 \<le> d \<Longrightarrow> time_sub t u \<le> d"
  by (auto simp: time_sub_def)

lemma time_sub_ge: "d \<le> time_sub t u \<Longrightarrow> min_i64 < d \<Longrightarrow> d \<le> t - u"
  by (auto simp: time_sub_def split: if_splits)

lemma time_sub_geI: "d \<le> t - u \<Longrightarrow> d \<le> max_i64 \<Longrightarrow> d \<le> time_sub t u"
  by (auto simp: time_sub_def)

lemma time_sub_gt: "\<not> time_sub t u \<le> d \<Longrightarrow> min_i64 \<le> d \<Longrightarrow> d < t - u"
  by (meson not_le time_sub_leI)

lemma time_sub_later: "\<not> time_sub t u \<le> d \<Longrightarrow> d < t - v \<Longrightarrow> d \<le> max_i64 \<Longrightarrow> \<not> time_sub t v \<le> d"
  by (auto simp: time_sub_def i64_simps split: if_splits)

lemma time_sub_ge_iff: "0 < d \<Longrightarrow> d \<le> max_i64 \<Longrightarrow> d \<le> time_sub t u \<longleftrightarrow> d \<le> t - u"
  by (auto simp: time_sub_def i64_simps)

lemma positive_min: "0 < d \<Longrightarrow> min_i64 \<le> d" "0 < d \<Longrightarrow> min_i64 < d"
  by (simp_all add: i64_simps)

text \<open>The preferred interval: the check is now exactly when a refresh is due, and none is due before.\<close>

lemma interval_now_iff:
  assumes "0 < pref" "pref \<le> max_i64"
  shows "check_by_interval tr pref a now = now \<longleftrightarrow> due_by_interval tr pref a now"
proof -
  have gt: "\<not> time_sub e now \<le> pref \<Longrightarrow> pref < e - now" for e
    using assms by (simp add: time_sub_gt positive_min)
  show ?thesis
    using assms by (auto simp: check_by_interval_def due_by_interval_def Let_def time_sub_ge_iff min_def
        dest: gt split: option.splits if_splits)
qed

lemma interval_not_before:
  assumes "0 < pref" "pref \<le> max_i64" "now \<le> t" "t < check_by_interval tr pref a now"
  shows "\<not> due_by_interval tr pref a t"
proof -
  let ?l = "last_refresh_of tr a"
  have l: "?l \<noteq> 0" "t - ?l < pref"
    using assms by (auto simp: check_by_interval_def Let_def split: option.splits if_splits)
  then have rest: "\<not> time_sub t ?l \<ge> pref"
    using time_sub_ge [of pref t ?l] assms(1) by (auto simp: positive_min)
  show ?thesis
  proof (cases "known_expiry tr a")
    case None
    with l rest show ?thesis
      by (simp add: due_by_interval_def Let_def)
  next
    case (Some e)
    then have e: "\<not> time_sub e now \<le> pref" "pref < e - t"
      using assms by (auto simp: check_by_interval_def Let_def split: if_splits)
    have "\<not> time_sub e t \<le> pref"
      by (rule time_sub_later [OF e assms(2)])
    with l rest e Some assms(1) show ?thesis
      by (simp add: due_by_interval_def Let_def)
  qed
qed

lemma interval_not_past: "now \<le> check_by_interval tr pref a now"
  by (auto simp: check_by_interval_def Let_def split: option.splits)

text \<open>A lead: as above, for leads below the largest duration, which \<^verbatim>\<open>Time.Sub\<close> returns for every longer span.\<close>

definition bounded_lead :: "auth_runtime option \<Rightarrow> auth \<Rightarrow> bool" where
  "bounded_lead runtime a =
     (case ProviderRefreshLead (to_lower (au_Provider a)) runtime of
        None \<Rightarrow> True
      | Some lead \<Rightarrow> lead < max_i64)"

lemma bounded_lead_None [simp]: "bounded_lead None a"
proof (cases "ProviderRefreshLead (to_lower (au_Provider a)) None")
  case (Some lead)
  then show ?thesis
    using builtin_lead_bounded [OF Some] by (simp add: bounded_lead_def duration_defs i64_simps)
qed (simp add: bounded_lead_def)

lemma check_interval_pos: "0 < check_interval interval"
  by (simp add: check_interval_def refresh_backoffs second_def)

lemma lead_now_iff:
  assumes "bounded_lead runtime a"
  shows "check_by_lead tr runtime b a now interval = Some now \<longleftrightarrow> due_by_lead tr runtime b a now"
proof (cases "ProviderRefreshLead (to_lower (au_Provider a)) runtime")
  case None
  then show ?thesis
    by (simp add: check_by_lead_def due_by_lead_def)
next
  case (Some lead)
  then have "0 < lead" "lead < max_i64"
    using assms ProviderRefreshLead_pos [of _ runtime lead] by (auto simp: bounded_lead_def)
  with Some show ?thesis
    using time_sub_le [of _ now lead] time_sub_leI [of _ now lead] time_sub_ge [of lead now]
      time_sub_geI [of lead now] check_interval_pos [of interval]
    by (force simp: check_by_lead_def due_by_lead_def Let_def positive_min split: option.splits if_splits)
qed

lemma lead_not_before:
  assumes "bounded_lead runtime a" "now \<le> t"
    "\<forall>next. check_by_lead tr runtime b a now interval = Some next \<longrightarrow> t < next"
  shows "\<not> due_by_lead tr runtime b a t"
proof (cases "ProviderRefreshLead (to_lower (au_Provider a)) runtime")
  case None
  then show ?thesis
    by (simp add: due_by_lead_def)
next
  case (Some lead)
  then have "0 < lead" "lead < max_i64"
    using assms ProviderRefreshLead_pos [of _ runtime lead] by (auto simp: bounded_lead_def)
  with Some assms(2,3) show ?thesis
    using time_sub_le [of _ t lead] time_sub_ge [of lead t] check_interval_pos [of interval]
    by (force simp: check_by_lead_def due_by_lead_def Let_def positive_min split: option.splits if_splits)
qed

lemma lead_not_past: "check_by_lead tr runtime b a now interval = Some next \<Longrightarrow> now \<le> next"
  using check_interval_pos [of interval]
  by (auto simp: check_by_lead_def Let_def split: option.splits if_splits)

subsection \<open>The whole decision\<close>

text \<open>What the library promises of its readers: a duration is a signed 64-bit number.\<close>

definition readers_ok :: "time_readers \<Rightarrow> bool" where
  "readers_ok tr \<longleftrightarrow> (\<forall>s d. tr_ParseDuration tr s = Some d \<longrightarrow> is_i64 d) \<and> (\<forall>f. is_i64 (tr_Seconds tr f))"

lemma is_i64_le [simp]: "is_i64 d \<Longrightarrow> d \<le> max_i64"
  by (simp add: is_i64_def)

lemma max_i64_nonneg [simp]: "0 \<le> max_i64"
  by (simp add: max_i64_def)

lemma parseDurationString_bounded: "readers_ok tr \<Longrightarrow> parseDurationString tr s \<le> max_i64"
  by (auto simp: parseDurationString_def Let_def readers_ok_def max_i64_def [THEN eq_refl]
      split: option.splits gofloat.splits)

lemma parseDurationValue_bounded: "readers_ok tr \<Longrightarrow> parseDurationValue tr v \<le> max_i64"
proof (cases v)
  case (VInt k n)
  then show ?thesis
    by (auto simp: int_seconds_def)
qed (auto simp: parseDurationString_bounded float_seconds_def int_seconds_def readers_ok_def
    split: option.splits gofloat.splits)

lemma authPreferredInterval_bounded: "readers_ok tr \<Longrightarrow> authPreferredInterval tr a \<le> max_i64"
  using parseDurationString_bounded parseDurationValue_bounded
  by (fastforce simp: authPreferredInterval_def durationFromMetadata_def durationFromAttributes_def Let_def
      positive_duration_def max_i64_def dest!: first_of_keys_SomeD split: option.splits if_splits)

lemmas refresh_decisions = shouldRefresh_def nextRefreshCheckAt_def AccountInfo_api_key

lemma check_not_past:
  "nextRefreshCheckAt tr runtime now auth interval = Some next \<Longrightarrow> now \<le> next"
  using check_interval_pos [of interval] interval_not_past [of now tr] lead_not_past
  by (fastforce simp: nextRefreshCheckAt_def Let_def split: option.splits if_splits)

lemma check_now_iff:
  assumes "readers_ok tr" "evaluator_of runtime = None" "bounded_lead runtime a" "AuthKind a \<noteq> ''apikey''"
  shows "nextRefreshCheckAt tr runtime now (Some a) interval = Some now
     \<longleftrightarrow> shouldRefresh tr runtime (Some a) now"
  using assms authPreferredInterval_bounded [OF assms(1), of a]
  by (auto simp: refresh_decisions Let_def interval_now_iff lead_now_iff)

lemma check_not_before:
  assumes "readers_ok tr" "evaluator_of runtime = None" "bounded_lead runtime a" "AuthKind a \<noteq> ''apikey''"
    "now \<le> t" "\<forall>next. nextRefreshCheckAt tr runtime now (Some a) interval = Some next \<longrightarrow> t < next"
  shows "\<not> shouldRefresh tr runtime (Some a) t"
proof
  assume due: "shouldRefresh tr runtime (Some a) t"
  let ?pref = "authPreferredInterval tr a" and ?b = "authSupportsBuiltInRefresh a"
  have waits: "\<not> (authSupportsBuiltInRefresh a \<and> accessTokenForFingerprint (Some a) = [])"
    "au_NextRefreshAfter a = 0 \<or> au_NextRefreshAfter a \<le> now"
    using due assms by (auto simp: refresh_decisions Let_def split: if_splits)
  show False
  proof (cases "?pref > 0")
    case True
    then have "due_by_interval tr ?pref a t" "t < check_by_interval tr ?pref a now"
      using due waits assms by (auto simp: refresh_decisions Let_def split: if_splits)
    then show ?thesis
      using interval_not_before [OF True authPreferredInterval_bounded [OF assms(1)] assms(5)] by blast
  next
    case False
    then have "due_by_lead tr runtime ?b a t"
      "\<forall>next. check_by_lead tr runtime ?b a now interval = Some next \<longrightarrow> t < next"
      using due waits assms by (auto simp: refresh_decisions Let_def split: if_splits)
    then show ?thesis
      using lead_not_before [OF assms(3,5)] by blast
  qed
qed

text \<open>
  A check that is due now finds a refresh that is due, for every runtime: an evaluator is asked
  again only after the interval, and leads are 64-bit durations.
\<close>

definition runtime_ok :: "auth_runtime option \<Rightarrow> bool" where
  "runtime_ok runtime \<longleftrightarrow> (\<forall>lead. Option.bind runtime ar_RefreshLead = Some lead \<longrightarrow> is_i64 lead)"

lemma ProviderRefreshLead_i64:
  assumes "runtime_ok runtime" "ProviderRefreshLead provider runtime = Some lead"
  shows "lead \<le> max_i64"
proof (cases "keep_if (\<lambda>lead. lead > 0) (Option.bind runtime ar_RefreshLead)")
  case None
  then have "ProviderRefreshLead provider None = Some lead"
    using assms(2) by (simp add: ProviderRefreshLead_def Let_def keep_if_def)
  then show ?thesis
    using builtin_lead_bounded by (force simp: duration_defs max_i64_def)
next
  case (Some d)
  then show ?thesis
    using assms by (auto simp: ProviderRefreshLead_def Let_def runtime_ok_def keep_if_def split: if_splits option.splits)
qed

lemma lead_now_due:
  assumes "runtime_ok runtime" "check_by_lead tr runtime b a now interval = Some now"
  shows "due_by_lead tr runtime b a now"
proof (cases "ProviderRefreshLead (to_lower (au_Provider a)) runtime")
  case None
  then show ?thesis
    using assms(2) by (simp add: check_by_lead_def)
next
  case (Some lead)
  then have "0 < lead" "lead \<le> max_i64"
    using assms(1) ProviderRefreshLead_pos ProviderRefreshLead_i64 by blast+
  with Some assms(2) show ?thesis
    using check_interval_pos [of interval]
    by (auto simp: check_by_lead_def due_by_lead_def Let_def time_sub_ge_iff positive_min intro!: time_sub_leI
        split: option.splits if_splits)
qed

lemma check_now_due:
  assumes "readers_ok tr" "runtime_ok runtime" "nextRefreshCheckAt tr runtime now (Some a) interval = Some now"
  shows "shouldRefresh tr runtime (Some a) now"
  using assms authPreferredInterval_bounded [OF assms(1), of a] lead_now_due [OF assms(2)]
    check_interval_pos [of interval]
  by (auto simp: refresh_decisions Let_def interval_now_iff split: option.splits if_splits)

text \<open>A pending refresh is checked again when its backoff ends.\<close>

lemma check_pending:
  "nextRefreshCheckAt tr runtime now (Some (ApplyRefreshPendingState a now)) interval = Some next \<Longrightarrow>
   0 \<le> now \<Longrightarrow> next = now + refreshPendingBackoff"
  by (auto simp: nextRefreshCheckAt_def ApplyRefreshPendingState_def refresh_backoffs duration_defs
      split: if_splits)

end
