(* ===== verification/Refresh_Heap.thy ===== *)
theory Refresh_Heap
  imports Home_Prelude
begin

section \<open>The heap of the refresh loop\<close>

text \<open>
  \<^verbatim>\<open>refreshMinHeap\<close> of \<^verbatim>\<open>auto_refresh_loop.go\<close> under the algorithms of the Go package
  \<^verbatim>\<open>container/heap\<close>.  The items are shared: the heap holds pointers, the index of the loop holds the
  same pointers, and every swap writes the new positions into the items.  So the items live in a store
  addressed by position in allocation order, and the heap is a list of addresses.

  The lemmas: every operation keeps the written positions right and the stored items, and the
  heap order holds after each; the sifting loops are proved with the order weakened at one position.
\<close>

record refresh_item =
  it_id :: string
  it_next :: gotime
  it_index :: int
  it_stateVersion :: int

record refresh_heap =
  hp_store :: "refresh_item list"
  hp_queue :: "nat list"

abbreviation heap_len :: "refresh_heap \<Rightarrow> nat" where
  "heap_len h \<equiv> length (hp_queue h)"

definition item_at :: "refresh_heap \<Rightarrow> nat \<Rightarrow> refresh_item" where
  "item_at h i = hp_store h ! (hp_queue h ! i)"

definition heap_Less :: "refresh_heap \<Rightarrow> nat \<Rightarrow> nat \<Rightarrow> bool" where
  "heap_Less h i j \<longleftrightarrow> it_next (item_at h i) < it_next (item_at h j)"

definition set_position :: "nat \<Rightarrow> int \<Rightarrow> refresh_item list \<Rightarrow> refresh_item list" where
  "set_position a i store = store[a := (store ! a)\<lparr>it_index := i\<rparr>]"

definition swap_at :: "nat \<Rightarrow> nat \<Rightarrow> 'a list \<Rightarrow> 'a list" where
  "swap_at i j xs = xs[i := xs ! j, j := xs ! i]"

definition heap_Swap :: "refresh_heap \<Rightarrow> nat \<Rightarrow> nat \<Rightarrow> refresh_heap" where
  "heap_Swap h i j =
     (let queue = swap_at i j (hp_queue h)
      in \<lparr>hp_store = set_position (queue ! j) (int j) (set_position (queue ! i) (int i) (hp_store h)),
          hp_queue = queue\<rparr>)"

definition minheap_Push :: "refresh_heap \<Rightarrow> nat \<Rightarrow> refresh_heap" where
  "minheap_Push h a =
     \<lparr>hp_store = set_position a (int (heap_len h)) (hp_store h), hp_queue = hp_queue h @ [a]\<rparr>"

definition minheap_Pop :: "refresh_heap \<Rightarrow> refresh_heap \<times> nat" where
  "minheap_Pop h =
     (let item = List.last (hp_queue h)
      in (\<lparr>hp_store = set_position item (- 1) (hp_store h), hp_queue = butlast (hp_queue h)\<rparr>, item))"

subsection \<open>The algorithms of container/heap\<close>

text \<open>In Go \<^verbatim>\<open>(0-1)/2\<close> is 0, as it is on naturals; \<^verbatim>\<open>2*i+1\<close> overflows for no slice that fits in memory.\<close>

definition parent_pos :: "nat \<Rightarrow> nat" where
  "parent_pos k = (k - 1) div 2"

lemma parent_pos_less [simp]: "0 < k \<Longrightarrow> parent_pos k < k"
  unfolding parent_pos_def by linarith

lemma parent_pos_bound [simp]: "j < n \<Longrightarrow> parent_pos j < n"
  unfolding parent_pos_def by linarith

lemma parent_pos_eq_iff [simp]: "parent_pos k = k \<longleftrightarrow> k = 0"
  unfolding parent_pos_def by (cases k) auto

lemma parent_pos_cases: "0 < k \<Longrightarrow> parent_pos k = i \<Longrightarrow> k = 2 * i + 1 \<or> k = 2 * i + 2"
  unfolding parent_pos_def by linarith

lemma parent_pos_child [simp]: "parent_pos (2 * i + 1) = i" "parent_pos (Suc (2 * i)) = i"
    "parent_pos (Suc (Suc (2 * i))) = i"
  by (simp_all add: parent_pos_def)

function heap_up :: "refresh_heap \<Rightarrow> nat \<Rightarrow> refresh_heap" where
  "heap_up h j =
     (let i = parent_pos j
      in if i = j \<or> \<not> heap_Less h j i then h else heap_up (heap_Swap h i j) i)"
  by pat_completeness auto

termination
  by (relation "measure snd") auto

text \<open>The smaller child of \<open>i\<close>, when there is a first one.\<close>

definition smaller_child :: "refresh_heap \<Rightarrow> nat \<Rightarrow> nat \<Rightarrow> nat" where
  "smaller_child h i n =
     (let j1 = 2 * i + 1; j2 = j1 + 1
      in if j2 < n \<and> heap_Less h j2 j1 then j2 else j1)"

lemma smaller_child_bounds:
  "2 * i + 1 < n \<Longrightarrow> smaller_child h i n < n \<and> i < smaller_child h i n
     \<and> parent_pos (smaller_child h i n) = i"
  by (simp add: smaller_child_def Let_def)

function heap_down :: "refresh_heap \<Rightarrow> nat \<Rightarrow> nat \<Rightarrow> refresh_heap \<times> nat" where
  "heap_down h i n =
     (if 2 * i + 1 \<ge> n then (h, i)
      else let j = smaller_child h i n
           in if \<not> heap_Less h j i then (h, i) else heap_down (heap_Swap h i j) j n)"
  by pat_completeness auto

termination
  by (relation "measure (\<lambda>(h, i, n). n - i)")
    (use smaller_child_bounds in \<open>auto simp: not_le diff_less_mono2\<close>)

declare heap_up.simps [simp del] heap_down.simps [simp del]

definition heap_Push :: "refresh_heap \<Rightarrow> nat \<Rightarrow> refresh_heap" where
  "heap_Push h a = (let h1 = minheap_Push h a in heap_up h1 (heap_len h1 - 1))"

text \<open>\<^verbatim>\<open>down\<close> returns whether the item moved: \<^verbatim>\<open>i > i0\<close>.\<close>

definition sift :: "refresh_heap \<Rightarrow> nat \<Rightarrow> nat \<Rightarrow> refresh_heap" where
  "sift h i n = (let (h1, i1) = heap_down h i n in if i1 > i then h1 else heap_up h1 i)"

definition heap_Fix :: "refresh_heap \<Rightarrow> nat \<Rightarrow> refresh_heap" where
  "heap_Fix h i = sift h i (heap_len h)"

definition heap_Pop :: "refresh_heap \<Rightarrow> refresh_heap \<times> nat" where
  "heap_Pop h =
     (let n = heap_len h - 1 in minheap_Pop (fst (heap_down (heap_Swap h 0 n) 0 n)))"

definition heap_Remove :: "refresh_heap \<Rightarrow> nat \<Rightarrow> refresh_heap \<times> nat" where
  "heap_Remove h i =
     (let n = heap_len h - 1
      in minheap_Pop (if n \<noteq> i then sift (heap_Swap h i n) i n else h))"

subsection \<open>Memory: positions and items\<close>

text \<open>Every address once, allocated, and holding its own position.\<close>

definition heap_mem :: "refresh_heap \<Rightarrow> bool" where
  "heap_mem h \<longleftrightarrow> distinct (hp_queue h) \<and> set (hp_queue h) \<subseteq> {..<length (hp_store h)}
     \<and> (\<forall>i<heap_len h. it_index (item_at h i) = int i)"

definition payload :: "refresh_item \<Rightarrow> string \<times> gotime \<times> int" where
  "payload it = (it_id it, it_next it, it_stateVersion it)"

text \<open>The same items in another order: what the sifting loops may change are positions only.\<close>

definition same_items :: "refresh_heap \<Rightarrow> refresh_heap \<Rightarrow> bool" where
  "same_items h h' \<longleftrightarrow> mset (hp_queue h') = mset (hp_queue h)
     \<and> map payload (hp_store h') = map payload (hp_store h)"

lemma same_items_refl [simp]: "same_items h h"
  by (simp add: same_items_def)

lemma same_items_trans: "same_items h h1 \<Longrightarrow> same_items h1 h2 \<Longrightarrow> same_items h h2"
  by (simp add: same_items_def)

lemma same_items_queue:
  assumes "same_items h h'"
  shows "set (hp_queue h') = set (hp_queue h)" "heap_len h' = heap_len h"
    "length (hp_store h') = length (hp_store h)"
  using assms by (auto simp: same_items_def dest: mset_eq_setD mset_eq_length map_eq_imp_length_eq)

lemma payload_set_position [simp]: "map payload (set_position a i store) = map payload store"
  by (cases "a < length store")
    (auto simp: set_position_def nth_list_update payload_def list_update_beyond intro!: nth_equalityI)

lemma payload_eq:
  assumes "map payload xs = map payload ys" "a < length xs"
  shows "payload (xs ! a) = payload (ys ! a)"
  using arg_cong [OF assms(1), of "\<lambda>l. l ! a"] assms(2) map_eq_imp_length_eq [OF assms(1)] by simp

lemma length_set_position [simp]: "length (set_position a i store) = length store"
  by (simp add: set_position_def)

lemma swap_at_length [simp]: "length (swap_at i j xs) = length xs"
  by (simp add: swap_at_def)

lemma swap_at_nth:
  "i < length xs \<Longrightarrow> j < length xs \<Longrightarrow> k < length xs \<Longrightarrow>
   swap_at i j xs ! k = (if k = i then xs ! j else if k = j then xs ! i else xs ! k)"
  by (auto simp: swap_at_def nth_list_update)

lemma swap_at_mset: "i < length xs \<Longrightarrow> j < length xs \<Longrightarrow> mset (swap_at i j xs) = mset xs"
  unfolding swap_at_def by (rule mset_swap)

lemma swap_at_distinct [simp]:
  "i < length xs \<Longrightarrow> j < length xs \<Longrightarrow> distinct (swap_at i j xs) = distinct xs"
  by (simp add: swap_at_def distinct_swap)

lemma swap_same_items: "i < heap_len h \<Longrightarrow> j < heap_len h \<Longrightarrow> same_items h (heap_Swap h i j)"
  by (simp add: same_items_def heap_Swap_def Let_def swap_at_mset)

lemma swap_len [simp]: "heap_len (heap_Swap h i j) = heap_len h"
  by (simp add: heap_Swap_def Let_def)

lemma set_position_nth:
  "b < length store \<Longrightarrow> it_index (set_position a i store ! b) = (if b = a then i else it_index (store ! b))"
  by (auto simp: set_position_def nth_list_update)

lemma swap_mem:
  assumes "heap_mem h" "i < heap_len h" "j < heap_len h"
  shows "heap_mem (heap_Swap h i j)"
proof -
  let ?q = "swap_at i j (hp_queue h)"
  have d: "distinct ?q" and s: "set ?q \<subseteq> {..<length (hp_store h)}"
    using assms swap_at_mset [of i "hp_queue h" j] by (auto simp: heap_mem_def dest: mset_eq_setD)
  have "it_index (item_at (heap_Swap h i j) k) = int k" if k: "k < heap_len h" for k
  proof -
    have "?q ! k < length (hp_store h)"
      using subsetD [OF s nth_mem [of k ?q]] k by simp
    then have "it_index (item_at (heap_Swap h i j) k)
        = (if ?q ! k = ?q ! j then int j else if ?q ! k = ?q ! i then int i
           else it_index (hp_store h ! (?q ! k)))"
      by (simp add: item_at_def heap_Swap_def Let_def set_position_nth)
    then show ?thesis
      using assms k d by (auto simp: nth_eq_iff_index_eq swap_at_nth heap_mem_def item_at_def)
  qed
  then show ?thesis
    using d s by (simp add: heap_mem_def heap_Swap_def Let_def)
qed

subsection \<open>Keys\<close>

definition heap_keys :: "refresh_heap \<Rightarrow> gotime list" where
  "heap_keys h = map (\<lambda>a. it_next (hp_store h ! a)) (hp_queue h)"

lemma heap_keys_len [simp]: "length (heap_keys h) = heap_len h"
  by (simp add: heap_keys_def)

lemma heap_Less_keys:
  "i < heap_len h \<Longrightarrow> j < heap_len h \<Longrightarrow> heap_Less h i j \<longleftrightarrow> heap_keys h ! i < heap_keys h ! j"
  by (simp add: heap_Less_def heap_keys_def item_at_def)

lemma same_items_payload:
  assumes "same_items h h'" "a \<in> set (hp_queue h)" "heap_mem h"
  shows "payload (hp_store h' ! a) = payload (hp_store h ! a)"
proof -
  have "a < length (hp_store h')"
    using assms same_items_queue [OF assms(1)] by (auto simp: heap_mem_def)
  then show ?thesis
    using assms(1) by (intro payload_eq) (simp_all add: same_items_def)
qed

lemma same_items_next:
  "same_items h h' \<Longrightarrow> a \<in> set (hp_queue h) \<Longrightarrow> heap_mem h \<Longrightarrow>
   it_next (hp_store h' ! a) = it_next (hp_store h ! a)"
  using same_items_payload [of h h' a] by (simp add: payload_def)

lemma swap_keys:
  assumes "heap_mem h" "i < heap_len h" "j < heap_len h"
  shows "heap_keys (heap_Swap h i j) = swap_at i j (heap_keys h)"
proof -
  have "it_next (hp_store (heap_Swap h i j) ! a) = it_next (hp_store h ! a)" if "a \<in> set (hp_queue h)" for a
    using same_items_next [OF swap_same_items [OF assms(2,3)] that assms(1)] .
  moreover have "set (swap_at i j (hp_queue h)) = set (hp_queue h)"
    using swap_at_mset [OF assms(2,3)] by (rule mset_eq_setD)
  ultimately have "heap_keys (heap_Swap h i j)
      = map (\<lambda>a. it_next (hp_store h ! a)) (swap_at i j (hp_queue h))"
    by (auto simp: heap_keys_def heap_Swap_def Let_def)
  also have "\<dots> = swap_at i j (heap_keys h)"
    using assms(2,3) by (simp add: heap_keys_def swap_at_def map_update)
  finally show ?thesis .
qed

text \<open>A loop that only swaps keeps memory and items.\<close>

lemma heap_up_items:
  "heap_mem h \<Longrightarrow> j < heap_len h \<Longrightarrow> heap_mem (heap_up h j) \<and> same_items h (heap_up h j)"
proof (induction h j rule: heap_up.induct)
  case (1 h j)
  let ?i = "parent_pos j"
  show ?case
  proof (cases "?i = j \<or> \<not> heap_Less h j ?i")
    case True
    then show ?thesis
      using 1 by (subst (1 2) heap_up.simps) (auto simp: Let_def)
  next
    case False
    then have "heap_mem (heap_up (heap_Swap h ?i j) ?i)
        \<and> same_items (heap_Swap h ?i j) (heap_up (heap_Swap h ?i j) ?i)"
      using 1 by (auto simp: swap_mem)
    with False show ?thesis
      using 1 same_items_trans [OF swap_same_items [of ?i h j]]
      by (subst (1 2) heap_up.simps) (auto simp: Let_def)
  qed
qed

lemma heap_down_items:
  "heap_mem h \<Longrightarrow> i < heap_len h \<Longrightarrow> n \<le> heap_len h \<Longrightarrow>
   heap_mem (fst (heap_down h i n)) \<and> same_items h (fst (heap_down h i n)) \<and> i \<le> snd (heap_down h i n)"
proof (induction h i n rule: heap_down.induct)
  case (1 h i n)
  let ?j = "smaller_child h i n"
  show ?case
  proof (cases "2 * i + 1 \<ge> n \<or> \<not> heap_Less h ?j i")
    case True
    then show ?thesis
      using 1 by (auto simp: heap_down.simps [of h i n] Let_def)
  next
    case False
    then have j: "?j < heap_len h" "i < ?j"
      using 1 smaller_child_bounds [of i n h] by auto
    then have "heap_mem (fst (heap_down (heap_Swap h i ?j) ?j n))
        \<and> same_items (heap_Swap h i ?j) (fst (heap_down (heap_Swap h i ?j) ?j n))
        \<and> ?j \<le> snd (heap_down (heap_Swap h i ?j) ?j n)"
      using False 1 by (intro "1.IH") (auto simp: swap_mem)
    with False j show ?thesis
      using 1 same_items_trans [OF swap_same_items [of i h ?j]]
      by (auto simp: heap_down.simps [of h i n] Let_def)
  qed
qed

subsection \<open>Heap order\<close>

text \<open>No key among the first \<open>n\<close> is below the key of its parent.\<close>

definition heap_order :: "int list \<Rightarrow> nat \<Rightarrow> bool" where
  "heap_order ks n \<longleftrightarrow> (\<forall>k. 0 < k \<and> k < n \<longrightarrow> ks ! parent_pos k \<le> ks ! k)"

text \<open>The order with the exception of \<open>j\<close> against its parent, of \<open>i\<close> against its children, and of both.\<close>

definition skips :: "int list \<Rightarrow> nat \<Rightarrow> nat \<Rightarrow> bool" where
  "skips ks n j \<longleftrightarrow> (\<forall>k. 0 < k \<and> k < n \<and> parent_pos k = j \<and> 0 < j \<longrightarrow> ks ! parent_pos j \<le> ks ! k)"

definition order_but_up :: "int list \<Rightarrow> nat \<Rightarrow> nat \<Rightarrow> bool" where
  "order_but_up ks n j \<longleftrightarrow>
     (\<forall>k. 0 < k \<and> k < n \<and> k \<noteq> j \<longrightarrow> ks ! parent_pos k \<le> ks ! k) \<and> skips ks n j"

definition order_but_at :: "int list \<Rightarrow> nat \<Rightarrow> nat \<Rightarrow> bool" where
  "order_but_at ks n i \<longleftrightarrow>
     (\<forall>k. 0 < k \<and> k < n \<and> k \<noteq> i \<and> parent_pos k \<noteq> i \<longrightarrow> ks ! parent_pos k \<le> ks ! k) \<and> skips ks n i"

lemma swap_up_order:
  assumes o: "order_but_up ks n j" and n: "n \<le> length ks" "j < n" and j: "0 < j"
    and less: "ks ! j < ks ! parent_pos j"
  shows "order_but_up (swap_at (parent_pos j) j ks) n (parent_pos j)"
proof -
  let ?i = "parent_pos j"
  have i: "?i < j" "?i < length ks" "j < length ks"
    using n j by simp_all
  have rel: "ks ! parent_pos k \<le> ks ! k" if "0 < k" "k < n" "k \<noteq> j" for k
    using o that by (simp add: order_but_up_def)
  have grand: "ks ! ?i \<le> ks ! k" if "0 < k" "k < n" "parent_pos k = j" for k
    using o that j by (simp add: order_but_up_def skips_def)
  have nth: "swap_at ?i j ks ! k = (if k = ?i then ks ! j else if k = j then ks ! ?i else ks ! k)" if "k < n" for k
    using swap_at_nth [of ?i ks j k] i n that by simp
  have 1: "swap_at ?i j ks ! parent_pos k \<le> swap_at ?i j ks ! k" if k: "0 < k" "k < n" "k \<noteq> ?i" for k
  proof -
    have "parent_pos k < n"
      using k parent_pos_less [of k] by linarith
    then show ?thesis
      using k less rel [of k] grand [of k] by (auto simp: nth)
  qed
  have 2: "swap_at ?i j ks ! parent_pos ?i \<le> swap_at ?i j ks ! k"
    if k: "0 < k" "k < n" "parent_pos k = ?i" "0 < ?i" for k
  proof -
    have "parent_pos ?i < ?i" "parent_pos ?i \<noteq> j" "parent_pos ?i < n"
      using i k n parent_pos_less [of ?i] by linarith+
    then have "swap_at ?i j ks ! parent_pos ?i = ks ! parent_pos ?i" "ks ! parent_pos ?i \<le> ks ! ?i"
      using rel [of ?i] i k n by (simp_all add: nth)
    then show ?thesis
      using rel [of k] k less by (auto simp: nth)
  qed
  show ?thesis
    using 1 2 by (simp add: order_but_up_def skips_def)
qed

lemma order_up_done: "order_but_up ks n j \<Longrightarrow> j = 0 \<or> ks ! parent_pos j \<le> ks ! j \<Longrightarrow> heap_order ks n"
  by (auto simp: order_but_up_def heap_order_def)

lemma heap_up_order:
  "heap_mem h \<Longrightarrow> n \<le> heap_len h \<Longrightarrow> j < n \<Longrightarrow> order_but_up (heap_keys h) n j \<Longrightarrow>
   heap_order (heap_keys (heap_up h j)) n"
proof (induction h j rule: heap_up.induct)
  case (1 h j)
  let ?i = "parent_pos j"
  have "j < heap_len h"
    using "1.prems"(2,3) by linarith
  then have j: "j < heap_len h" "?i < heap_len h"
    by simp_all
  show ?case
  proof (cases "?i = j \<or> \<not> heap_Less h j ?i")
    case True
    then have "j = 0 \<or> heap_keys h ! ?i \<le> heap_keys h ! j"
      using j by (auto simp: heap_Less_keys)
    with True show ?thesis
      using order_up_done [OF "1.prems"(4)] by (subst heap_up.simps) (simp add: Let_def)
  next
    case False
    then have j0: "0 < j" and less: "heap_keys h ! j < heap_keys h ! ?i"
      using j by (auto simp: heap_Less_keys intro: gr0I)
    have "order_but_up (heap_keys (heap_Swap h ?i j)) n ?i"
      unfolding swap_keys [OF "1.prems"(1) j(2,1)]
      using "1.prems" by (intro swap_up_order j0 less) simp_all
    then have "heap_order (heap_keys (heap_up (heap_Swap h ?i j) ?i)) n"
      using False 1 j by (intro "1.IH") (auto intro: swap_mem)
    with False show ?thesis
      by (subst heap_up.simps) (simp add: Let_def)
  qed
qed

lemma swap_down_order:
  assumes o: "order_but_at ks n i" and n: "n \<le> length ks" "i < n" "j < n"
    and j: "0 < j" "parent_pos j = i" and less: "ks ! j < ks ! i"
    and least: "\<forall>k. 0 < k \<and> k < n \<and> parent_pos k = i \<longrightarrow> ks ! j \<le> ks ! k"
  shows "order_but_at (swap_at i j ks) n j" "swap_at i j ks ! i \<le> swap_at i j ks ! j"
proof -
  have i: "i < j"
    using j parent_pos_less by blast
  have rel: "ks ! parent_pos k \<le> ks ! k" if "0 < k" "k < n" "k \<noteq> i" "parent_pos k \<noteq> i" for k
    using o that by (simp add: order_but_at_def)
  have grand: "ks ! parent_pos i \<le> ks ! k" if "0 < k" "k < n" "parent_pos k = i" "0 < i" for k
    using o that by (simp add: order_but_at_def skips_def)
  have nth: "swap_at i j ks ! k = (if k = i then ks ! j else if k = j then ks ! i else ks ! k)" if "k < n" for k
    using swap_at_nth [of i ks j k] n that by simp
  show "swap_at i j ks ! i \<le> swap_at i j ks ! j"
    using less n by (simp add: nth)
  have "swap_at i j ks ! parent_pos k \<le> swap_at i j ks ! k"
    if k: "0 < k" "k < n" "k \<noteq> j" "parent_pos k \<noteq> j" for k
  proof -
    have p: "parent_pos k < n" "parent_pos k < k"
      using k parent_pos_less [of k] by linarith+
    consider "k = i" | "parent_pos k = i" | "k \<noteq> i" "parent_pos k \<noteq> i"
      by blast
    then show ?thesis
    proof cases
      case 1
      then show ?thesis
        using k p grand [of j] j n by (simp add: nth)
    next
      case 2
      then show ?thesis
        using k p least i by (auto simp: nth)
    next
      case 3
      then show ?thesis
        using k p rel [of k] by (simp add: nth)
    qed
  qed
  moreover have "skips (swap_at i j ks) n j"
    unfolding skips_def
  proof (intro allI impI)
    fix k
    assume k: "0 < k \<and> k < n \<and> parent_pos k = j \<and> 0 < j"
    then have "k \<noteq> i" "k \<noteq> j" "parent_pos k \<noteq> i"
      using i parent_pos_less [of k] by auto
    then show "swap_at i j ks ! parent_pos j \<le> swap_at i j ks ! k"
      using k n j rel [of k] by (simp add: nth)
  qed
  ultimately show "order_but_at (swap_at i j ks) n j"
    by (simp add: order_but_at_def)
qed

text \<open>
  \<^verbatim>\<open>down\<close> either leaves the heap as it is, with \<open>i\<close> in order against its children, or has moved the item
  and ordered the heap; it orders the heap too when \<open>i\<close> was in order against its parent.
\<close>

lemma heap_down_order:
  "heap_mem h \<Longrightarrow> n \<le> heap_len h \<Longrightarrow> i < n \<Longrightarrow> order_but_at (heap_keys h) n i \<Longrightarrow>
   (snd (heap_down h i n) = i \<longrightarrow> fst (heap_down h i n) = h \<and> order_but_up (heap_keys h) n i) \<and>
   (i < snd (heap_down h i n) \<or> i = 0 \<or> heap_keys h ! parent_pos i \<le> heap_keys h ! i \<longrightarrow>
      heap_order (heap_keys (fst (heap_down h i n))) n)"
proof (induction h i n rule: heap_down.induct)
  case (1 h i n)
  let ?j = "smaller_child h i n"
  have least: "\<forall>k. 0 < k \<and> k < n \<and> parent_pos k = i \<longrightarrow> heap_keys h ! ?j \<le> heap_keys h ! k"
  proof (intro allI impI)
    fix k
    assume k: "0 < k \<and> k < n \<and> parent_pos k = i"
    then have "k = 2 * i + 1 \<or> k = 2 * i + 2"
      using parent_pos_cases by blast
    then show "heap_keys h ! ?j \<le> heap_keys h ! k"
      using k "1.prems"(2) by (auto simp: smaller_child_def heap_Less_keys)
  qed
  show ?case
  proof (cases "2 * i + 1 \<ge> n \<or> \<not> heap_Less h ?j i")
    case True
    have "heap_keys h ! i \<le> heap_keys h ! k" if k: "0 < k" "k < n" "parent_pos k = i" for k
    proof -
      have "2 * i + 1 < n"
        using k parent_pos_cases [of k i] by auto
      then have "heap_keys h ! i \<le> heap_keys h ! ?j"
        using True "1.prems"(2,3) smaller_child_bounds [of i n h] by (auto simp: heap_Less_keys)
      then show ?thesis
        using least k by force
    qed
    then have "order_but_up (heap_keys h) n i"
      using "1.prems"(4) by (auto simp: order_but_up_def order_but_at_def)
    then show ?thesis
      using True order_up_done by (auto simp: heap_down.simps [of h i n] Let_def)
  next
    case False
    then have j: "0 < ?j" "?j < n" "parent_pos ?j = i" "i < ?j"
      using smaller_child_bounds [of i n h] by auto
    have less: "heap_keys h ! ?j < heap_keys h ! i"
      using False j "1.prems"(2,3) by (simp add: heap_Less_keys)
    have keys: "heap_keys (heap_Swap h i ?j) = swap_at i ?j (heap_keys h)"
      using "1.prems" j by (intro swap_keys) simp_all
    have mem: "heap_mem (heap_Swap h i ?j)"
      using "1.prems" j by (intro swap_mem) simp_all
    note down = swap_down_order [OF "1.prems"(4) _ "1.prems"(3) j(2,1,3) less least]
    have "heap_order (heap_keys (fst (heap_down (heap_Swap h i ?j) ?j n))) n"
      using "1.IH" [OF _ refl _ mem _ j(2)] down False "1.prems"(2) j(3) by (simp add: keys)
    with False show ?thesis
      using j heap_down_items [OF mem, of ?j n] "1.prems"
      by (auto simp: heap_down.simps [of h i n] Let_def)
  qed
qed

subsection \<open>The operations\<close>

definition heap_inv :: "refresh_heap \<Rightarrow> bool" where
  "heap_inv h \<longleftrightarrow> heap_mem h \<and> heap_order (heap_keys h) (heap_len h)"

text \<open>The loops stay inside their bounds.\<close>

lemma heap_up_above: "j < k \<Longrightarrow> k < heap_len h \<Longrightarrow> hp_queue (heap_up h j) ! k = hp_queue h ! k"
proof (induction h j rule: heap_up.induct)
  case (1 h j)
  then show ?case
    by (subst heap_up.simps)
      (auto simp: Let_def heap_Swap_def swap_at_nth dest: parent_pos_bound)
qed

lemma heap_down_above:
  "n \<le> k \<Longrightarrow> k < heap_len h \<Longrightarrow> i < n \<Longrightarrow> hp_queue (fst (heap_down h i n)) ! k = hp_queue h ! k"
proof (induction h i n rule: heap_down.induct)
  case (1 h i n)
  then show ?case
    using smaller_child_bounds [of i n h]
    by (subst heap_down.simps) (auto simp: Let_def heap_Swap_def swap_at_nth)
qed

lemma sift_eq: "sift h i n = (if i < snd (heap_down h i n) then fst (heap_down h i n)
    else heap_up (fst (heap_down h i n)) i)"
  by (simp add: sift_def Let_def split_def)

lemma sift_items:
  assumes "heap_mem h" "i < n" "n \<le> heap_len h"
  shows "heap_mem (sift h i n)" "same_items h (sift h i n)"
    "n \<le> k \<Longrightarrow> k < heap_len h \<Longrightarrow> hp_queue (sift h i n) ! k = hp_queue h ! k"
proof -
  have down: "heap_mem (fst (heap_down h i n))" "same_items h (fst (heap_down h i n))"
    using heap_down_items [of h i n] assms by auto
  have len: "heap_len (fst (heap_down h i n)) = heap_len h"
    using same_items_queue [OF down(2)] by simp
  then have up: "heap_mem (heap_up (fst (heap_down h i n)) i)"
    "same_items (fst (heap_down h i n)) (heap_up (fst (heap_down h i n)) i)"
    using heap_up_items [OF down(1), of i] assms by auto
  show "heap_mem (sift h i n)" "same_items h (sift h i n)"
    using down up same_items_trans by (auto simp: sift_eq)
  show "hp_queue (sift h i n) ! k = hp_queue h ! k" if "n \<le> k" "k < heap_len h"
    using that heap_down_above [OF that assms(2)] heap_up_above [of i k "fst (heap_down h i n)"] assms len
    by (auto simp: sift_eq)
qed

lemma sift_order:
  assumes "heap_mem h" "i < n" "n \<le> heap_len h" "order_but_at (heap_keys h) n i"
  shows "heap_order (heap_keys (sift h i n)) n"
proof -
  note down = heap_down_order [OF assms(1,3,2,4)]
  have "i \<le> snd (heap_down h i n)"
    using heap_down_items [of h i n] assms by auto
  then consider "i < snd (heap_down h i n)" | "snd (heap_down h i n) = i"
    by linarith
  then show ?thesis
  proof cases
    case 1
    then show ?thesis
      using down by (simp add: sift_eq)
  next
    case 2
    then show ?thesis
      using down heap_up_order [OF assms(1,3,2)] by (simp add: sift_eq)
  qed
qed

lemma order_change_key:
  assumes "heap_order ks n" "n \<le> length ks" "i < n"
  shows "order_but_at (ks[i := x]) n i"
  unfolding order_but_at_def skips_def
proof (intro conjI allI impI)
  fix k
  assume "0 < k \<and> k < n \<and> k \<noteq> i \<and> parent_pos k \<noteq> i"
  then show "ks[i := x] ! parent_pos k \<le> ks[i := x] ! k"
    using assms by (simp add: heap_order_def)
next
  fix k
  assume k: "0 < k \<and> k < n \<and> parent_pos k = i \<and> 0 < i"
  then have "parent_pos i < i" "i < k"
    using parent_pos_less [of k] by auto
  moreover have "ks ! parent_pos i \<le> ks ! i" "ks ! i \<le> ks ! k"
    using assms k by (auto simp: heap_order_def)
  ultimately show "ks[i := x] ! parent_pos i \<le> ks[i := x] ! k"
    by simp
qed

lemma heap_Fix_ok:
  assumes "heap_mem h" "i < heap_len h" "order_but_at (heap_keys h) (heap_len h) i"
  shows "heap_inv (heap_Fix h i) \<and> same_items h (heap_Fix h i)"
  using sift_items [of h i "heap_len h"] sift_order [of h i "heap_len h"] assms
    same_items_queue [of h "heap_Fix h i"]
  by (simp add: heap_Fix_def heap_inv_def)

lemma minheap_Push_mem:
  assumes "heap_mem h" "a < length (hp_store h)" "a \<notin> set (hp_queue h)"
  shows "heap_mem (minheap_Push h a)"
proof -
  have "it_index (item_at (minheap_Push h a) k) = int k" if k: "k \<le> heap_len h" for k
  proof (cases "k = heap_len h")
    case True
    then show ?thesis
      using assms by (simp add: minheap_Push_def item_at_def set_position_nth)
  next
    case False
    then have "hp_queue h ! k \<noteq> a" "hp_queue h ! k < length (hp_store h)" "k < heap_len h"
      using assms k subsetD [of "set (hp_queue h)" "{..<length (hp_store h)}" "hp_queue h ! k"]
        nth_mem [of k "hp_queue h"] by (auto simp: heap_mem_def)
    then show ?thesis
      using assms by (simp add: minheap_Push_def item_at_def nth_append set_position_nth heap_mem_def)
  qed
  then show ?thesis
    using assms by (simp add: heap_mem_def minheap_Push_def less_Suc_eq_le)
qed

lemma next_set_position: "it_next (set_position b i store ! a) = it_next (store ! a)"
  by (cases "b < length store"; cases "a = b") (simp_all add: set_position_def list_update_beyond)

lemma heap_Push_ok:
  assumes "heap_inv h" "a < length (hp_store h)" "a \<notin> set (hp_queue h)"
  shows "heap_inv (heap_Push h a)" "mset (hp_queue (heap_Push h a)) = add_mset a (mset (hp_queue h))"
    "map payload (hp_store (heap_Push h a)) = map payload (hp_store h)"
proof -
  let ?p = "minheap_Push h a"
  have p: "heap_mem ?p"
    using assms by (intro minheap_Push_mem) (simp_all add: heap_inv_def)
  have len: "heap_len ?p = Suc (heap_len h)"
    by (simp add: minheap_Push_def)
  have keys: "heap_keys ?p = heap_keys h @ [it_next (hp_store h ! a)]"
    by (simp add: heap_keys_def minheap_Push_def next_set_position)
  have "skips (heap_keys ?p) (Suc (heap_len h)) (heap_len h)"
  proof -
    have "parent_pos k \<noteq> heap_len h" if "0 < k" "k < Suc (heap_len h)" for k
      using that parent_pos_less [of k] by linarith
    then show ?thesis
      by (auto simp: skips_def)
  qed
  moreover have "heap_keys ?p ! parent_pos k \<le> heap_keys ?p ! k" if "0 < k" "k < heap_len h" for k
    using that assms by (simp add: keys nth_append heap_inv_def heap_order_def)
  ultimately have "order_but_up (heap_keys ?p) (Suc (heap_len h)) (heap_len h)"
    by (auto simp: order_but_up_def less_Suc_eq)
  then have o: "heap_order (heap_keys (heap_up ?p (heap_len h))) (Suc (heap_len h))"
    by (intro heap_up_order [OF p]) (simp_all add: len)
  have i: "heap_mem (heap_up ?p (heap_len h))" "same_items ?p (heap_up ?p (heap_len h))"
    using heap_up_items [OF p, of "heap_len h"] by (auto simp: len)
  have push: "heap_Push h a = heap_up ?p (heap_len h)"
    by (simp add: heap_Push_def Let_def len)
  show "heap_inv (heap_Push h a)"
    using o i same_items_queue [OF i(2)] by (simp add: heap_inv_def push len)
  show "mset (hp_queue (heap_Push h a)) = add_mset a (mset (hp_queue h))"
    "map payload (hp_store (heap_Push h a)) = map payload (hp_store h)"
    using i(2) by (auto simp: push same_items_def minheap_Push_def)
qed

text \<open>\<^verbatim>\<open>Pop\<close> and \<^verbatim>\<open>Remove\<close> end by dropping the last pointer.\<close>

lemma minheap_Pop_ok:
  assumes "heap_mem h" "0 < heap_len h" "heap_order (heap_keys h) (heap_len h - 1)"
    "minheap_Pop h = (h', a)"
  shows "heap_inv h'" "a = hp_queue h ! (heap_len h - 1)"
    "mset (hp_queue h) = add_mset a (mset (hp_queue h'))"
    "map payload (hp_store h') = map payload (hp_store h)"
proof -
  obtain q b where q: "hp_queue h = q @ [b]"
    using assms(2) by (cases "hp_queue h" rule: rev_cases) auto
  then have h': "a = b" "h' = \<lparr>hp_store = set_position a (- 1) (hp_store h), hp_queue = q\<rparr>"
    using assms(4) by (auto simp: minheap_Pop_def Let_def)
  then show "a = hp_queue h ! (heap_len h - 1)" "mset (hp_queue h) = add_mset a (mset (hp_queue h'))"
    "map payload (hp_store h') = map payload (hp_store h)"
    by (simp_all add: q)
  have "it_index (item_at h' k) = int k" if k: "k < length q" for k
  proof -
    have "it_index (item_at h k) = int k" "q ! k \<noteq> a" "q ! k < length (hp_store h)"
      using assms(1) k nth_mem [OF k] subsetD [of "set q" "{..<length (hp_store h)}" "q ! k"]
      by (auto simp: heap_mem_def q h' simp del: nth_mem)
    then show ?thesis
      using k by (simp add: item_at_def h' q set_position_nth nth_append)
  qed
  moreover have "heap_keys h' = butlast (heap_keys h)"
    by (simp add: heap_keys_def h' q next_set_position)
  moreover have "heap_order (butlast (heap_keys h)) (heap_len h - 1)"
    using assms(3) by (auto simp: heap_order_def nth_butlast)
  ultimately show "heap_inv h'"
    using assms(1) by (simp add: heap_inv_def heap_mem_def h' q)
qed

lemma order_but_at_cong:
  assumes "\<And>k. k < n \<Longrightarrow> ks' ! k = ks ! k" "i < n" "order_but_at ks n i"
  shows "order_but_at ks' n i"
  using assms by (simp add: order_but_at_def skips_def)

lemma heap_Remove_ok:
  assumes "heap_inv h" "i < heap_len h" "heap_Remove h i = (h', a)"
  shows "heap_inv h'" "a = hp_queue h ! i" "mset (hp_queue h) = add_mset a (mset (hp_queue h'))"
    "map payload (hp_store h') = map payload (hp_store h)"
proof -
  let ?n = "heap_len h - 1"
  define g where "g = (if ?n \<noteq> i then sift (heap_Swap h i ?n) i ?n else h)"
  have mem: "heap_mem h" and ord: "heap_order (heap_keys h) (heap_len h)"
    using assms(1) by (auto simp: heap_inv_def)
  have n: "?n < heap_len h"
    using assms(2) by simp
  have "heap_mem g \<and> same_items h g \<and> hp_queue g ! ?n = hp_queue h ! i \<and> heap_order (heap_keys g) ?n"
  proof (cases "?n = i")
    case True
    then show ?thesis
      using mem ord by (auto simp: g_def heap_order_def)
  next
    case False
    then have i: "i < ?n"
      using assms(2) by simp
    let ?s = "heap_Swap h i ?n"
    have s: "heap_mem ?s" "same_items h ?s" "heap_keys ?s = swap_at i ?n (heap_keys h)"
      using mem n assms(2) by (auto intro: swap_mem swap_same_items swap_keys)
    have "order_but_at ((heap_keys h)[i := heap_keys h ! ?n]) ?n i"
      using ord i by (intro order_change_key) (auto simp: heap_order_def)
    then have "order_but_at (heap_keys ?s) ?n i"
      unfolding s(3) swap_at_def by (rule order_but_at_cong [rotated 2]) (use i in auto)
    then have "heap_order (heap_keys (sift ?s i ?n)) ?n"
      using i s by (intro sift_order) simp_all
    moreover have "hp_queue (sift ?s i ?n) ! ?n = hp_queue ?s ! ?n"
      using sift_items(3) [of ?s i ?n ?n] s i by simp
    moreover have "hp_queue ?s ! ?n = hp_queue h ! i"
      using n assms(2) False by (simp add: heap_Swap_def Let_def swap_at_nth)
    ultimately show ?thesis
      using sift_items(1,2) [of ?s i ?n] s i False same_items_trans [OF s(2)] by (simp add: g_def)
  qed
  then have g: "heap_mem g" "same_items h g" "hp_queue g ! ?n = hp_queue h ! i" "heap_order (heap_keys g) ?n"
    by auto
  note len = same_items_queue(2) [OF g(2)]
  have pop: "minheap_Pop g = (h', a)" "0 < heap_len g" "heap_order (heap_keys g) (heap_len g - 1)"
    using assms(2,3) g len by (auto simp: heap_Remove_def g_def Let_def)
  note p = minheap_Pop_ok [OF g(1) pop(2,3,1)]
  show "heap_inv h'" "a = hp_queue h ! i" "mset (hp_queue h) = add_mset a (mset (hp_queue h'))"
    "map payload (hp_store h') = map payload (hp_store h)"
    using p g len by (auto simp: same_items_def)
qed

text \<open>\<^verbatim>\<open>Pop\<close> is the removal of position 0, where nothing has to move up.\<close>

lemma heap_Pop_Remove:
  assumes "heap_mem h" "0 < heap_len h"
  shows "heap_Pop h = heap_Remove h 0"
proof (cases "heap_len h = 1")
  case True
  then obtain a where q: "hp_queue h = [a]"
    by (cases "hp_queue h") auto
  then have "it_index (hp_store h ! a) = 0" "a < length (hp_store h)"
    using assms(1) by (auto simp: heap_mem_def item_at_def)
  then have "heap_Swap h 0 0 = h"
    by (simp add: heap_Swap_def swap_at_def set_position_def q list_update_same_conv)
  then show ?thesis
    by (simp add: heap_Pop_def heap_Remove_def q heap_down.simps [of _ 0 0])
next
  case False
  have up: "heap_up g 0 = g" for g
    by (simp add: heap_up.simps [of g 0] parent_pos_def)
  show ?thesis
    using False assms(2) up less_Suc_eq [of 0] by (cases "1 < heap_len h")
      (auto simp: heap_Pop_def heap_Remove_def sift_eq Let_def)
qed

lemma heap_order_least: "heap_order ks n \<Longrightarrow> k < n \<Longrightarrow> ks ! 0 \<le> ks ! k"
proof (induction k rule: less_induct)
  case (less k)
  show ?case
  proof (cases "k = 0")
    case False
    then have "ks ! 0 \<le> ks ! parent_pos k" "ks ! parent_pos k \<le> ks ! k"
      using less by (auto simp: heap_order_def)
    then show ?thesis
      by linarith
  qed simp
qed

end
