(* ===== verification/Refresh_Loop.thy ===== *)
theory Refresh_Loop
  imports Refresh_Due Refresh_Heap
begin

declare map_of_eq_Some_iff [simp del]

section \<open>The automatic refresh loop\<close>

text \<open>
  \<^verbatim>\<open>authAutoRefreshLoop\<close> of \<^verbatim>\<open>auto_refresh_loop.go\<close>: the heap of next checks with its index by
  credential, the set of credentials to look at again, the wake signal and the job channel, and every
  operation on them.  The manager's credentials are the map the loop reads under the manager's lock.

  The locale \<open>timer_queue\<close> is what the loop needs of its queue: a map from credentials to a time and
  a revision, of which an operation takes out everything due.  The heap with its index is the
  interpretation, proved over the shared items of \<open>Refresh_Heap\<close>.
\<close>

record refresh_env =
  rv_readers :: time_readers
  rv_runtime :: "string \<Rightarrow> auth_runtime option" \<comment> \<open>\<^verbatim>\<open>Auth.Runtime\<close> of the credential under an ID\<close>

record auto_refresh_loop =
  rl_interval :: duration
  rl_concurrency :: int
  rl_heap :: refresh_heap
  rl_index :: "(string, nat) gomap"
  rl_dirty :: "string list"
  rl_wake :: bool \<comment> \<open>\<^verbatim>\<open>wakeCh\<close>, a channel of capacity one\<close>
  rl_jobs :: "string list"
  rl_jobBuffer :: int

type_synonym auth_table = "(string, auth option) gomap"

definition newAuthAutoRefreshLoop :: "duration \<Rightarrow> int \<Rightarrow> auto_refresh_loop" where
  "newAuthAutoRefreshLoop interval0 concurrency0 =
     (let interval = (if interval0 \<le> 0 then refreshCheckInterval else interval0);
          concurrency = (if concurrency0 \<le> 0 then refreshMaxConcurrency else concurrency0);
          jobBuffer = wrap64 (concurrency * 4)
      in \<lparr>rl_interval = interval, rl_concurrency = concurrency,
          rl_heap = \<lparr>hp_store = [], hp_queue = []\<rparr>, rl_index = [], rl_dirty = [], rl_wake = False,
          rl_jobs = [], rl_jobBuffer = (if jobBuffer < 64 then 64 else jobBuffer)\<rparr>)"

text \<open>A send on \<^verbatim>\<open>wakeCh\<close> with a default branch: the signal is there afterwards.\<close>

definition queueReschedule :: "string \<Rightarrow> auto_refresh_loop \<Rightarrow> auto_refresh_loop" where
  "queueReschedule authID l =
     (if authID = [] then l
      else l\<lparr>rl_dirty := (if List.member (rl_dirty l) authID then rl_dirty l else rl_dirty l @ [authID]),
             rl_wake := True\<rparr>)"

subsection \<open>The queue and its index\<close>

text \<open>A new item is allocated behind the others; its address is its place in the store.\<close>

definition new_item :: "string \<Rightarrow> gotime \<Rightarrow> int \<Rightarrow> auto_refresh_loop \<Rightarrow> auto_refresh_loop" where
  "new_item authID next stateVersion l =
     (let h = rl_heap l;
          a = length (hp_store h);
          h1 = h\<lparr>hp_store := hp_store h @ [\<lparr>it_id = authID, it_next = next, it_index = 0,
                  it_stateVersion = stateVersion\<rparr>]\<rparr>
      in l\<lparr>rl_heap := heap_Push h1 a, rl_index := AList.update authID a (rl_index l)\<rparr>)"

definition upsertLocked :: "string \<Rightarrow> gotime \<Rightarrow> int \<Rightarrow> auto_refresh_loop \<Rightarrow> auto_refresh_loop" where
  "upsertLocked authID next stateVersion l =
     (case map_of (rl_index l) authID of
        Some a \<Rightarrow>
          let h = rl_heap l;
              item = (hp_store h ! a)\<lparr>it_next := next, it_stateVersion := stateVersion\<rparr>
          in l\<lparr>rl_heap := heap_Fix (h\<lparr>hp_store := (hp_store h)[a := item]\<rparr>) (nat (it_index item))\<rparr>
      | None \<Rightarrow> new_item authID next stateVersion l)"

definition loop_upsert :: "string \<Rightarrow> gotime \<Rightarrow> auto_refresh_loop \<Rightarrow> auto_refresh_loop" where
  "loop_upsert authID next l =
     (if authID = [] \<or> next = 0 then l else upsertLocked authID next 0 l)"

definition upsertAfterRefresh :: "string \<Rightarrow> gotime \<Rightarrow> int \<Rightarrow> auto_refresh_loop \<Rightarrow> auto_refresh_loop" where
  "upsertAfterRefresh authID next stateVersion l =
     (if authID = [] \<or> next = 0 then l else upsertLocked authID next stateVersion l)"

definition upsertDirty :: "string \<Rightarrow> gotime \<Rightarrow> int \<Rightarrow> auto_refresh_loop \<Rightarrow> auto_refresh_loop" where
  "upsertDirty authID next stateVersion l =
     (if authID = [] \<or> next = 0 then l
      else if stateVersion > 0
           \<and> (case map_of (rl_index l) authID of
                None \<Rightarrow> False
              | Some a \<Rightarrow> it_stateVersion (hp_store (rl_heap l) ! a) \<ge> stateVersion)
      then l
      else upsertLocked authID next 0 l)"

definition loop_remove :: "string \<Rightarrow> auto_refresh_loop \<Rightarrow> auto_refresh_loop" where
  "loop_remove authID l =
     (if authID = [] then l
      else case map_of (rl_index l) authID of
          None \<Rightarrow> l
        | Some a \<Rightarrow>
            l\<lparr>rl_heap := fst (heap_Remove (rl_heap l) (nat (it_index (hp_store (rl_heap l) ! a)))),
              rl_index := AList.delete authID (rl_index l)\<rparr>)"

definition loop_peek :: "auto_refresh_loop \<Rightarrow> gotime option" where
  "loop_peek l =
     (if hp_queue (rl_heap l) = [] then None else Some (it_next (item_at (rl_heap l) 0)))"

lemma heap_up_len [simp]: "heap_len (heap_up h j) = heap_len h"
  by (induction h j rule: heap_up.induct) (subst heap_up.simps, simp add: Let_def)

lemma heap_down_len [simp]: "heap_len (fst (heap_down h i n)) = heap_len h"
  by (induction h i n rule: heap_down.induct) (subst heap_down.simps, simp add: Let_def)

lemma heap_Pop_len [simp]: "heap_len (fst (heap_Pop h)) = heap_len h - 1"
  by (simp add: heap_Pop_def minheap_Pop_def Let_def)

text \<open>The loop of \<^verbatim>\<open>popDue\<close>: the queue is shorter after every pop.\<close>

function popDue :: "gotime \<Rightarrow> auto_refresh_loop \<Rightarrow> auto_refresh_loop \<times> string list" where
  "popDue now l =
     (if hp_queue (rl_heap l) = [] then (l, [])
      else if it_next (item_at (rl_heap l) 0) > now then (l, [])
      else let (h, popped) = heap_Pop (rl_heap l);
               ident = it_id (hp_store h ! popped);
               (l', due) = popDue now (l\<lparr>rl_heap := h, rl_index := AList.delete ident (rl_index l)\<rparr>)
           in (l', ident # due))"
  by pat_completeness auto

termination
  by (relation "measure (\<lambda>(now, l). heap_len (rl_heap l))")
    (auto, metis diff_less fst_conv heap_Pop_len length_greater_0_conv zero_less_one)

declare popDue.simps [simp del]

subsection \<open>Scheduling\<close>

definition check_at :: "refresh_env \<Rightarrow> string \<Rightarrow> gotime \<Rightarrow> auth option \<Rightarrow> duration \<Rightarrow> gotime option" where
  "check_at env authID now auth interval =
     nextRefreshCheckAt (rv_readers env) (rv_runtime env authID) now auth interval"

definition refresh_due :: "refresh_env \<Rightarrow> string \<Rightarrow> auth option \<Rightarrow> gotime \<Rightarrow> bool" where
  "refresh_due env authID auth now = shouldRefresh (rv_readers env) (rv_runtime env authID) auth now"

definition rebuild_entries :: "refresh_env \<Rightarrow> gotime \<Rightarrow> auth_table \<Rightarrow> duration \<Rightarrow> (string \<times> gotime) list" where
  "rebuild_entries env now auths interval =
     concat (map (\<lambda>(authID, auth).
        case check_at env authID now auth interval of None \<Rightarrow> [] | Some next \<Rightarrow> [(authID, next)]) auths)"

definition loop_rebuild :: "refresh_env \<Rightarrow> gotime \<Rightarrow> auth_table \<Rightarrow> auto_refresh_loop \<Rightarrow> auto_refresh_loop" where
  "loop_rebuild env now auths l =
     foldl (\<lambda>l (authID, next). new_item authID next 0 l)
       (l\<lparr>rl_heap := (rl_heap l)\<lparr>hp_queue := []\<rparr>, rl_index := []\<rparr>)
       (rebuild_entries env now auths (rl_interval l))"

text \<open>\<^verbatim>\<open>markRefreshPending\<close> of the manager.\<close>

definition markRefreshPending :: "refresh_env \<Rightarrow> string \<Rightarrow> gotime \<Rightarrow> auth_table \<Rightarrow> auth_table \<times> bool" where
  "markRefreshPending env authID now auths =
     (case gomap_get None auths authID of
        None \<Rightarrow> (auths, False)
      | Some a \<Rightarrow>
          if \<not> refresh_due env authID (Some a) now then (auths, False)
          else (AList.update authID (Some (ApplyRefreshPendingState a now)) auths, True))"

text \<open>The manager's lock is free between the reads; the handler is taken in one step.\<close>

definition schedule_or_remove :: "string \<Rightarrow> gotime option \<Rightarrow> auto_refresh_loop \<Rightarrow> auto_refresh_loop" where
  "schedule_or_remove authID check l =
     (case check of Some next \<Rightarrow> loop_upsert authID next l | None \<Rightarrow> loop_remove authID l)"

definition handleDueAuth ::
    "refresh_env \<Rightarrow> gotime \<Rightarrow> auth_table \<times> auto_refresh_loop \<Rightarrow> string \<Rightarrow> auth_table \<times> auto_refresh_loop" where
  "handleDueAuth env now s authID =
     (let (auths, l) = s;
          check = (\<lambda>table. check_at env authID now (gomap_get None table authID) (rl_interval l))
      in if authID = [] then s
         else case gomap_get None auths authID of
             None \<Rightarrow> s
           | Some a \<Rightarrow>
               (case check auths of
                  None \<Rightarrow> (auths, loop_remove authID l)
                | Some next \<Rightarrow>
                    if \<not> refresh_due env authID (Some a) now then (auths, loop_upsert authID next l)
                    else let (auths', marked) = markRefreshPending env authID now auths
                         in if \<not> marked then (auths', schedule_or_remove authID (check auths') l)
                            else (auths', (schedule_or_remove authID (check auths') l)
                                \<lparr>rl_jobs := rl_jobs l @ [authID]\<rparr>)))"

definition handleDue :: "refresh_env \<Rightarrow> gotime \<Rightarrow> auth_table \<times> auto_refresh_loop \<Rightarrow> auth_table \<times> auto_refresh_loop" where
  "handleDue env now s =
     (let (auths, l) = s;
          (l', due) = popDue now l
      in foldl (handleDueAuth env now) (auths, l') due)"

definition rescheduleAfterRefresh ::
    "refresh_env \<Rightarrow> gotime \<Rightarrow> string \<Rightarrow> auth option \<Rightarrow> auth_table \<Rightarrow> auto_refresh_loop \<Rightarrow> auto_refresh_loop" where
  "rescheduleAfterRefresh env now authID resolved auths l =
     (if authID = [] then l
      else
        let current = gomap_get None auths authID;
            scheduled = (case current of
                Some c \<Rightarrow>
                  (case resolved of
                     Some r \<Rightarrow> if au_StateVersion c = au_StateVersion r then resolved else current
                   | None \<Rightarrow> current)
              | None \<Rightarrow> current);
            stateVersion = (case current of Some c \<Rightarrow> au_StateVersion c | None \<Rightarrow> 0);
            l' = (case check_at env authID now scheduled (rl_interval l) of
                Some next \<Rightarrow> upsertAfterRefresh authID next stateVersion l
              | None \<Rightarrow> loop_remove authID l)
        in l'\<lparr>rl_wake := True\<rparr>)"

definition drainDirty :: "auto_refresh_loop \<Rightarrow> auto_refresh_loop \<times> string list" where
  "drainDirty l = (l\<lparr>rl_dirty := []\<rparr>, rl_dirty l)"

definition apply_dirty_auth ::
    "refresh_env \<Rightarrow> gotime \<Rightarrow> auth_table \<Rightarrow> auto_refresh_loop \<Rightarrow> string \<Rightarrow> auto_refresh_loop" where
  "apply_dirty_auth env now auths l authID =
     (let auth = gomap_get None auths authID;
          stateVersion = (case auth of Some a \<Rightarrow> au_StateVersion a | None \<Rightarrow> 0)
      in case check_at env authID now auth (rl_interval l) of
           None \<Rightarrow> loop_remove authID l
         | Some next \<Rightarrow> upsertDirty authID next stateVersion l)"

definition applyDirty :: "refresh_env \<Rightarrow> gotime \<Rightarrow> auth_table \<Rightarrow> auto_refresh_loop \<Rightarrow> auto_refresh_loop" where
  "applyDirty env now auths l =
     (let (l', dirty) = drainDirty l in foldl (apply_dirty_auth env now auths) l' dirty)"

text \<open>\<^verbatim>\<open>resetTimer\<close>: the instant at which the timer fires, or none for a stopped timer.\<close>

definition resetTimer :: "gotime \<Rightarrow> auto_refresh_loop \<Rightarrow> gotime option" where
  "resetTimer now l =
     (case loop_peek l of
        None \<Rightarrow> None
      | Some next \<Rightarrow> Some (now + max 0 (time_sub next now)))"

end
