(* ===== verification/Refresh_Queue.thy ===== *)
theory Refresh_Queue
  imports Refresh_Loop
begin

declare map_of_eq_Some_iff [simp del]

section \<open>The heap and its index are a queue of timers\<close>

text \<open>
  The refinement: the heap of shared items with the index by credential implements a map from
  credentials to a time and a revision.  The invariant says that the index finds exactly the items in
  the heap, each under its own ID; the laws of the locale are proved for the operations of the loop,
  and what the loop needs of them is proved inside the locale.
\<close>

type_synonym timer_view = "string \<Rightarrow> (gotime \<times> int) option"

definition later_timers :: "gotime \<Rightarrow> timer_view \<Rightarrow> timer_view" where
  "later_timers now v k = (case v k of Some (t, r) \<Rightarrow> if t > now then Some (t, r) else None | None \<Rightarrow> None)"

definition due_timers :: "gotime \<Rightarrow> timer_view \<Rightarrow> string set" where
  "due_timers now v = {k. \<exists>t r. v k = Some (t, r) \<and> t \<le> now}"

locale timer_queue =
  fixes inv :: "'q \<Rightarrow> bool"
    and view :: "'q \<Rightarrow> timer_view"
    and put :: "string \<Rightarrow> gotime \<Rightarrow> int \<Rightarrow> 'q \<Rightarrow> 'q"
    and del :: "string \<Rightarrow> 'q \<Rightarrow> 'q"
    and pop :: "gotime \<Rightarrow> 'q \<Rightarrow> 'q \<times> string list"
    and peek :: "'q \<Rightarrow> gotime option"
  assumes put_inv: "inv q \<Longrightarrow> k \<noteq> [] \<Longrightarrow> inv (put k t r q)"
    and put_view: "inv q \<Longrightarrow> k \<noteq> [] \<Longrightarrow> view (put k t r q) = (view q)(k \<mapsto> (t, r))"
    and del_inv: "inv q \<Longrightarrow> inv (del k q)"
    and del_view: "inv q \<Longrightarrow> view (del k q) = (view q)(k := None)"
    and pop_inv: "inv q \<Longrightarrow> inv (fst (pop now q))"
    and pop_view: "inv q \<Longrightarrow> view (fst (pop now q)) = later_timers now (view q)"
    and pop_due: "inv q \<Longrightarrow> set (snd (pop now q)) = due_timers now (view q)"
    and peek_None: "inv q \<Longrightarrow> peek q = None \<Longrightarrow> view q k = None"
    and peek_least: "inv q \<Longrightarrow> peek q = Some t \<Longrightarrow> view q k = Some (s, r) \<Longrightarrow> t \<le> s"
    and peek_here: "inv q \<Longrightarrow> peek q = Some t \<Longrightarrow> \<exists>k r. view q k = Some (t, r)"
begin

text \<open>Nothing in the queue is due.\<close>

definition quiet :: "gotime \<Rightarrow> 'q \<Rightarrow> bool" where
  "quiet now q \<longleftrightarrow> (\<forall>k t r. view q k = Some (t, r) \<longrightarrow> now < t)"

lemma pop_quiet: "inv q \<Longrightarrow> quiet now (fst (pop now q))"
  by (auto simp: quiet_def pop_view later_timers_def split: option.splits if_splits)

lemma put_quiet: "inv q \<Longrightarrow> k \<noteq> [] \<Longrightarrow> quiet now q \<Longrightarrow> now < t \<Longrightarrow> quiet now (put k t r q)"
  by (simp add: quiet_def put_view)

lemma del_quiet: "inv q \<Longrightarrow> quiet now q \<Longrightarrow> quiet now (del k q)"
  by (simp add: quiet_def del_view)

lemma quiet_peek: "inv q \<Longrightarrow> quiet now q \<Longrightarrow> peek q = Some t \<Longrightarrow> now < t"
  using peek_here by (fastforce simp: quiet_def)

lemma pop_keeps:
  "inv q \<Longrightarrow> k \<notin> set (snd (pop now q)) \<Longrightarrow> view (fst (pop now q)) k = view q k"
  by (auto simp: pop_view pop_due later_timers_def due_timers_def not_less split: option.splits)

lemma pop_forgets: "inv q \<Longrightarrow> k \<in> set (snd (pop now q)) \<Longrightarrow> view (fst (pop now q)) k = None"
  by (auto simp: pop_view pop_due later_timers_def due_timers_def)

end

subsection \<open>The index finds the items of the heap\<close>

definition index_ok :: "refresh_heap \<Rightarrow> (string, nat) gomap \<Rightarrow> bool" where
  "index_ok h index \<longleftrightarrow>
     (\<forall>k a. map_of index k = Some a \<longleftrightarrow> a \<in> set (hp_queue h) \<and> it_id (hp_store h ! a) = k)"

definition loop_inv :: "auto_refresh_loop \<Rightarrow> bool" where
  "loop_inv l \<longleftrightarrow> heap_inv (rl_heap l) \<and> gomap_wf (rl_index l) \<and> map_of (rl_index l) [] = None
     \<and> index_ok (rl_heap l) (rl_index l)"

definition loop_view :: "auto_refresh_loop \<Rightarrow> timer_view" where
  "loop_view l k =
     map_option (\<lambda>a. (it_next (hp_store (rl_heap l) ! a), it_stateVersion (hp_store (rl_heap l) ! a)))
       (map_of (rl_index l) k)"

lemma index_okD: "index_ok h index \<Longrightarrow> map_of index k = Some a \<Longrightarrow> a \<in> set (hp_queue h) \<and> it_id (hp_store h ! a) = k"
  by (simp add: index_ok_def)

lemma index_okI: "index_ok h index \<Longrightarrow> a \<in> set (hp_queue h) \<Longrightarrow> map_of index (it_id (hp_store h ! a)) = Some a"
  by (simp add: index_ok_def)

lemma heap_address: "heap_inv h \<Longrightarrow> a \<in> set (hp_queue h) \<Longrightarrow> a < length (hp_store h)"
  by (auto simp: heap_inv_def heap_mem_def)

text \<open>An item knows its place.\<close>

lemma item_position:
  assumes "heap_inv h" "a \<in> set (hp_queue h)"
  shows "nat (it_index (hp_store h ! a)) < heap_len h" "hp_queue h ! nat (it_index (hp_store h ! a)) = a"
proof -
  obtain i where "i < heap_len h" "hp_queue h ! i = a"
    using assms(2) by (auto simp: in_set_conv_nth)
  moreover then have "it_index (hp_store h ! a) = int i"
    using assms(1) by (auto simp: heap_inv_def heap_mem_def item_at_def)
  ultimately show "nat (it_index (hp_store h ! a)) < heap_len h"
    "hp_queue h ! nat (it_index (hp_store h ! a)) = a"
    by simp_all
qed

lemma payload_nth:
  "map payload xs = map payload ys \<Longrightarrow> a < length ys \<Longrightarrow> payload (xs ! a) = payload (ys ! a)"
  using payload_eq [of xs ys a] map_eq_imp_length_eq by force

lemma payload_fields:
  "payload x = payload y \<Longrightarrow> it_id x = it_id y \<and> it_next x = it_next y \<and> it_stateVersion x = it_stateVersion y"
  by (simp add: payload_def)

subsection \<open>Allocation\<close>

lemma heap_inv_store:
  assumes "heap_inv h"
  shows "heap_inv (h\<lparr>hp_store := hp_store h @ xs\<rparr>)"
proof -
  have nth: "(hp_store h @ xs) ! a = hp_store h ! a" if "a \<in> set (hp_queue h)" for a
    using heap_address [OF assms that] by (simp add: nth_append)
  have "heap_keys (h\<lparr>hp_store := hp_store h @ xs\<rparr>) = heap_keys h"
    by (simp add: heap_keys_def nth)
  moreover have "item_at (h\<lparr>hp_store := hp_store h @ xs\<rparr>) i = item_at h i" if "i < heap_len h" for i
    using that by (simp add: item_at_def nth)
  ultimately show ?thesis
    using assms by (auto simp: heap_inv_def heap_mem_def)
qed

lemma new_item_ok:
  assumes "loop_inv l" "k \<noteq> []" "map_of (rl_index l) k = None"
  shows "loop_inv (new_item k t r l)" "loop_view (new_item k t r l) = (loop_view l)(k \<mapsto> (t, r))"
proof -
  let ?h = "rl_heap l" and ?i = "rl_index l"
  let ?a = "length (hp_store ?h)"
  let ?x = "\<lparr>it_id = k, it_next = t, it_index = 0, it_stateVersion = r\<rparr>"
  let ?h1 = "?h\<lparr>hp_store := hp_store ?h @ [?x]\<rparr>"
  let ?g = "heap_Push ?h1 ?a"
  have inv: "heap_inv ?h" "index_ok ?h ?i" "gomap_wf ?i" "map_of ?i [] = None"
    using assms(1) by (auto simp: loop_inv_def)
  have old: "b < ?a" if "b \<in> set (hp_queue ?h)" for b
    using heap_address [OF inv(1) that] .
  then have "?a \<notin> set (hp_queue ?h1)"
    by auto
  then have g: "heap_inv ?g" "mset (hp_queue ?g) = add_mset ?a (mset (hp_queue ?h))"
    "map payload (hp_store ?g) = map payload (hp_store ?h @ [?x])"
    using heap_Push_ok [OF heap_inv_store [OF inv(1)], of ?a "[?x]"] by auto
  have set: "set (hp_queue ?g) = insert ?a (set (hp_queue ?h))"
    using g(2) by (metis set_mset_add_mset_insert set_mset_mset)
  have p: "payload (hp_store ?g ! b) = payload ((hp_store ?h @ [?x]) ! b)" if "b \<le> ?a" for b
    using payload_nth [OF g(3), of b] that by simp
  have pa: "it_id (hp_store ?g ! ?a) = k" "it_next (hp_store ?g ! ?a) = t" "it_stateVersion (hp_store ?g ! ?a) = r"
    using p [of ?a] by (auto simp: payload_def)
  have po: "it_id (hp_store ?g ! b) = it_id (hp_store ?h ! b)" "it_next (hp_store ?g ! b) = it_next (hp_store ?h ! b)"
    "it_stateVersion (hp_store ?g ! b) = it_stateVersion (hp_store ?h ! b)" if "b \<in> set (hp_queue ?h)" for b
    using p [of b] old [OF that] by (auto simp: payload_def nth_append)
  have "it_id (hp_store ?h ! b) \<noteq> k" if "b \<in> set (hp_queue ?h)" for b
    using index_okI [OF inv(2) that] assms(3) by auto
  then have "index_ok ?g (AList.update k ?a ?i)"
    using inv(2) pa po set old by (auto simp: index_ok_def)
  moreover have new: "new_item k t r l = l\<lparr>rl_heap := ?g, rl_index := AList.update k ?a ?i\<rparr>"
    by (simp add: new_item_def Let_def)
  ultimately show "loop_inv (new_item k t r l)"
    using g(1) inv assms(2) by (simp add: loop_inv_def)
  have "loop_view (new_item k t r l) k' = ((loop_view l)(k \<mapsto> (t, r))) k'" for k'
    using pa po index_okD [OF inv(2), of k'] by (cases "map_of ?i k'") (auto simp: new loop_view_def)
  then show "loop_view (new_item k t r l) = (loop_view l)(k \<mapsto> (t, r))"
    by blast
qed

subsection \<open>Moving and removing\<close>

lemma heap_change_key:
  fixes t :: gotime and r :: int
  assumes "heap_inv h" "a \<in> set (hp_queue h)"
  defines "h1 \<equiv> h\<lparr>hp_store := (hp_store h)[a := (hp_store h ! a)\<lparr>it_next := t, it_stateVersion := r\<rparr>]\<rparr>"
  defines "i \<equiv> nat (it_index (hp_store h ! a))"
  shows "heap_mem h1" "i < heap_len h1" "order_but_at (heap_keys h1) (heap_len h1) i"
proof -
  have a: "a < length (hp_store h)" and mem: "heap_mem h" and ord: "heap_order (heap_keys h) (heap_len h)"
    using assms(1,2) heap_address by (auto simp: heap_inv_def)
  note i = item_position [OF assms(1,2), folded i_def]
  show "i < heap_len h1"
    using i by (simp add: h1_def)
  show "heap_mem h1"
    using mem a by (auto simp: heap_mem_def h1_def item_at_def nth_list_update)
  have "heap_keys h1 = (heap_keys h)[i := t]"
  proof (rule nth_equalityI)
    fix j
    assume "j < length (heap_keys h1)"
    then have j: "j < heap_len h"
      by (simp add: h1_def)
    then have "hp_queue h ! j = a \<longleftrightarrow> j = i"
      using i mem by (auto simp: heap_mem_def nth_eq_iff_index_eq)
    then show "heap_keys h1 ! j = (heap_keys h)[i := t] ! j"
      using j a i by (auto simp: heap_keys_def h1_def nth_list_update)
  qed (simp add: h1_def)
  then show "order_but_at (heap_keys h1) (heap_len h1) i"
    using order_change_key [OF ord _ i(1)] by (simp add: h1_def)
qed

lemma upsert_existing_ok:
  assumes "loop_inv l" "map_of (rl_index l) k = Some a"
  shows "loop_inv (upsertLocked k t r l)" "loop_view (upsertLocked k t r l) = (loop_view l)(k \<mapsto> (t, r))"
proof -
  let ?h = "rl_heap l" and ?i = "rl_index l"
  let ?x = "(hp_store ?h ! a)\<lparr>it_next := t, it_stateVersion := r\<rparr>"
  let ?h1 = "?h\<lparr>hp_store := (hp_store ?h)[a := ?x]\<rparr>"
  let ?g = "heap_Fix ?h1 (nat (it_index (hp_store ?h ! a)))"
  have inv: "heap_inv ?h" "index_ok ?h ?i" "gomap_wf ?i" "map_of ?i [] = None"
    using assms(1) by (auto simp: loop_inv_def)
  have a: "a \<in> set (hp_queue ?h)" "it_id (hp_store ?h ! a) = k"
    using index_okD [OF inv(2) assms(2)] by auto
  note al = heap_address [OF inv(1) a(1)]
  have g: "heap_inv ?g" "same_items ?h1 ?g"
    using heap_Fix_ok [OF heap_change_key [OF inv(1) a(1)]] by auto
  have set: "set (hp_queue ?g) = set (hp_queue ?h)"
    using same_items_queue(1) [OF g(2)] by simp
  have p: "payload (hp_store ?g ! b) = payload (if b = a then ?x else hp_store ?h ! b)"
    if "b \<in> set (hp_queue ?h)" for b
    using payload_nth [of "hp_store ?g" "hp_store ?h1" b] g(2) heap_address [OF inv(1) that]
    by (auto simp: same_items_def nth_list_update)
  have ids: "it_id (hp_store ?g ! b) = it_id (hp_store ?h ! b)" if "b \<in> set (hp_queue ?h)" for b
    using p [OF that] by (auto simp: payload_def split: if_splits)
  have "index_ok ?g ?i"
    using inv(2) ids set by (auto simp: index_ok_def)
  moreover have up: "upsertLocked k t r l = l\<lparr>rl_heap := ?g\<rparr>"
    using assms(2) by (simp add: upsertLocked_def Let_def)
  ultimately show "loop_inv (upsertLocked k t r l)"
    using g(1) inv by (simp add: loop_inv_def)
  have "loop_view (upsertLocked k t r l) k' = ((loop_view l)(k \<mapsto> (t, r))) k'" for k'
  proof (cases "map_of ?i k'")
    case (Some b)
    then have "b \<in> set (hp_queue ?h)" "b = a \<longleftrightarrow> k' = k"
      using index_okD [OF inv(2)] a(2) assms(2) by auto
    then show ?thesis
      using Some p [of b] by (auto simp: up loop_view_def payload_def split: if_splits)
  qed (use assms(2) in \<open>auto simp: up loop_view_def\<close>)
  then show "loop_view (upsertLocked k t r l) = (loop_view l)(k \<mapsto> (t, r))"
    by blast
qed

lemma upsertLocked_ok:
  assumes "loop_inv l" "k \<noteq> []"
  shows "loop_inv (upsertLocked k t r l)" "loop_view (upsertLocked k t r l) = (loop_view l)(k \<mapsto> (t, r))"
  using new_item_ok [OF assms] upsert_existing_ok [OF assms(1)]
  by (cases "map_of (rl_index l) k"; simp add: upsertLocked_def)+

text \<open>Taking the item at position \<open>i\<close> out of the heap and its entry out of the index.\<close>

lemma drop_item_ok:
  assumes "loop_inv l" "i < heap_len (rl_heap l)" "heap_Remove (rl_heap l) i = (h, a)"
  defines "k \<equiv> it_id (hp_store (rl_heap l) ! a)"
  defines "l' \<equiv> l\<lparr>rl_heap := h, rl_index := AList.delete k (rl_index l)\<rparr>"
  shows "loop_inv l'" "loop_view l' = (loop_view l)(k := None)"
    "map_of (rl_index l) k = Some a" "a = hp_queue (rl_heap l) ! i" "it_id (hp_store h ! a) = k"
proof -
  let ?h = "rl_heap l" and ?i = "rl_index l"
  have inv: "heap_inv ?h" "index_ok ?h ?i" "gomap_wf ?i" "map_of ?i [] = None"
    using assms(1) by (auto simp: loop_inv_def)
  note r = heap_Remove_ok [OF inv(1) assms(2,3)]
  show "a = hp_queue ?h ! i"
    by (rule r(2))
  have a: "a \<in> set (hp_queue ?h)"
    using r(2) assms(2) by simp
  then show ia: "map_of ?i k = Some a"
    using inv(2) by (simp add: index_ok_def k_def)
  have "distinct (hp_queue ?h)"
    using inv(1) by (simp add: heap_inv_def heap_mem_def)
  then have "distinct (a # hp_queue h)"
    using r(3) mset_eq_imp_distinct_iff [of "hp_queue ?h" "a # hp_queue h"] by simp
  then have "a \<notin> set (hp_queue h)" "insert a (set (hp_queue h)) = set (hp_queue ?h)"
    using r(3) by (auto dest: arg_cong [of _ _ set_mset])
  then have set: "set (hp_queue h) = set (hp_queue ?h) - {a}"
    by auto
  have p: "payload (hp_store h ! b) = payload (hp_store ?h ! b)" if "b \<in> set (hp_queue ?h)" for b
    using payload_nth [OF r(4)] heap_address [OF inv(1) that] by simp
  then show "it_id (hp_store h ! a) = k"
    using a payload_fields [of "hp_store h ! a"] by (simp add: k_def)
  have "b = a" if "b \<in> set (hp_queue ?h)" "it_id (hp_store ?h ! b) = k" for b
    using index_okI [OF inv(2) that(1)] that(2) ia by simp
  then have "index_ok h (AList.delete k ?i)"
    using inv(2) ia set payload_fields [OF p] by (auto simp: index_ok_def k_def)
  then show "loop_inv l'"
    using r(1) inv by (simp add: loop_inv_def l'_def)
  have "loop_view l' k' = ((loop_view l)(k := None)) k'" for k'
    using payload_fields [OF p] index_okD [OF inv(2), of k']
    by (cases "map_of ?i k'") (auto simp: loop_view_def l'_def)
  then show "loop_view l' = (loop_view l)(k := None)"
    by blast
qed

lemma loop_remove_ok:
  assumes "loop_inv l"
  shows "loop_inv (loop_remove k l)" "loop_view (loop_remove k l) = (loop_view l)(k := None)"
proof -
  have *: "loop_inv (loop_remove k l) \<and> loop_view (loop_remove k l) = (loop_view l)(k := None)"
  proof (cases "map_of (rl_index l) k")
    case None
    then have "loop_view l k = None"
      by (simp add: loop_view_def)
    then show ?thesis
      using None assms by (auto simp: loop_remove_def)
  next
    case (Some a)
    then have k: "k \<noteq> []" and a: "a \<in> set (hp_queue (rl_heap l))" "it_id (hp_store (rl_heap l) ! a) = k"
      using assms index_okD [of "rl_heap l" "rl_index l" k a] by (auto simp: loop_inv_def)
    let ?i = "nat (it_index (hp_store (rl_heap l) ! a))"
    have i: "?i < heap_len (rl_heap l)" "hp_queue (rl_heap l) ! ?i = a"
      using item_position a assms by (auto simp: loop_inv_def)
    obtain h b where r: "heap_Remove (rl_heap l) ?i = (h, b)"
      by force
    note d = drop_item_ok [OF assms i(1) r]
    then have "b = a"
      using i by simp
    then show ?thesis
      using d(1,2) r a Some k by (simp add: loop_remove_def)
  qed
  then show "loop_inv (loop_remove k l)" "loop_view (loop_remove k l) = (loop_view l)(k := None)"
    by simp_all
qed

subsection \<open>Taking out what is due\<close>

lemma head_least:
  assumes "loop_inv l" "map_of (rl_index l) k = Some a"
  shows "it_next (item_at (rl_heap l) 0) \<le> it_next (hp_store (rl_heap l) ! a)"
proof -
  have inv: "heap_inv (rl_heap l)" "a \<in> set (hp_queue (rl_heap l))"
    using assms index_okD by (auto simp: loop_inv_def)
  then obtain i where i: "i < heap_len (rl_heap l)" "hp_queue (rl_heap l) ! i = a"
    by (auto simp: in_set_conv_nth)
  then have "heap_keys (rl_heap l) ! 0 \<le> heap_keys (rl_heap l) ! i"
    using inv by (intro heap_order_least) (auto simp: heap_inv_def)
  moreover have "0 < heap_len (rl_heap l)"
    using i by linarith
  ultimately show ?thesis
    using i by (simp add: heap_keys_def item_at_def)
qed

lemma view_empty:
  assumes "loop_inv l" "hp_queue (rl_heap l) = []"
  shows "loop_view l k = None"
  using assms index_okD [of "rl_heap l" "rl_index l" k]
  by (cases "map_of (rl_index l) k") (auto simp: loop_view_def loop_inv_def)

lemma popDue_ok:
  "loop_inv l \<Longrightarrow> loop_inv (fst (popDue now l)) \<and> loop_view (fst (popDue now l)) = later_timers now (loop_view l)
     \<and> set (snd (popDue now l)) = due_timers now (loop_view l)"
proof (induction now l rule: popDue.induct)
  case (1 now l)
  let ?h = "rl_heap l"
  consider "hp_queue ?h = []" | "hp_queue ?h \<noteq> []" "it_next (item_at ?h 0) > now"
    | "hp_queue ?h \<noteq> []" "\<not> it_next (item_at ?h 0) > now"
    by blast
  then show ?case
  proof cases
    case 1
    then have "loop_view l = (\<lambda>k. None)"
      using view_empty "1.prems" by blast
    then show ?thesis
      using "1.prems" \<open>hp_queue ?h = []\<close>
      by (auto simp: popDue.simps [of now l] later_timers_def due_timers_def)
  next
    case 2
    have "now < t" if v: "loop_view l k = Some (t, r)" for k t r
    proof -
      obtain a where "map_of (rl_index l) k = Some a" "t = it_next (hp_store ?h ! a)"
        using v by (auto simp: loop_view_def)
      then show ?thesis
        using head_least [OF "1.prems"] 2(2) by fastforce
    qed
    then have "later_timers now (loop_view l) = loop_view l" "due_timers now (loop_view l) = {}"
      by (auto simp: later_timers_def due_timers_def fun_eq_iff not_le split: option.splits)
    then show ?thesis
      using 2 "1.prems" by (simp add: popDue.simps [of now l])
  next
    case 3
    obtain h a where pop: "heap_Pop ?h = (h, a)"
      by force
    have "heap_mem ?h"
      using "1.prems" by (simp add: loop_inv_def heap_inv_def)
    then have r: "heap_Remove ?h 0 = (h, a)"
      using pop heap_Pop_Remove [of ?h] 3 by simp
    let ?k = "it_id (hp_store ?h ! a)"
    let ?l = "l\<lparr>rl_heap := h, rl_index := AList.delete ?k (rl_index l)\<rparr>"
    have "0 < heap_len ?h"
      using 3 by simp
    note d = drop_item_ok [OF "1.prems" this r]
    obtain l' due where rest: "popDue now ?l = (l', due)"
      by force
    have step: "popDue now l = (l', ?k # due)"
      using 3 pop rest d(5) by (simp add: popDue.simps [of now l])
    have IH: "loop_inv l'" "loop_view l' = later_timers now (loop_view ?l)"
      "set due = due_timers now (loop_view ?l)"
      using "1.IH" [OF 3(1,2) pop [symmetric] refl refl, unfolded d(5)] d(1) rest by auto
    have head: "loop_view l ?k = Some (it_next (item_at ?h 0), it_stateVersion (item_at ?h 0))"
      using d(3,4) by (simp add: loop_view_def item_at_def)
    have "later_timers now (loop_view ?l) = later_timers now (loop_view l)"
      "insert ?k (due_timers now (loop_view ?l)) = due_timers now (loop_view l)"
      using head 3(2) by (auto simp: d(2) later_timers_def due_timers_def fun_eq_iff)
    then show ?thesis
      using IH step by simp
  qed
qed

lemma peek_cases:
  assumes "loop_inv l"
  shows "loop_peek l = None \<Longrightarrow> loop_view l k = None"
    "loop_peek l = Some t \<Longrightarrow> loop_view l k = Some (s, r) \<Longrightarrow> t \<le> s"
    "loop_peek l = Some t \<Longrightarrow> \<exists>k r. loop_view l k = Some (t, r)"
proof -
  show "loop_peek l = None \<Longrightarrow> loop_view l k = None"
    using view_empty [OF assms] by (simp add: loop_peek_def split: if_splits)
  show "loop_peek l = Some t \<Longrightarrow> loop_view l k = Some (s, r) \<Longrightarrow> t \<le> s"
    using head_least [OF assms] by (auto simp: loop_peek_def loop_view_def split: if_splits)
  assume p: "loop_peek l = Some t"
  then have "hp_queue (rl_heap l) ! 0 \<in> set (hp_queue (rl_heap l))"
    by (auto simp: loop_peek_def split: if_splits)
  then have "loop_view l (it_id (item_at (rl_heap l) 0)) = Some (t, it_stateVersion (item_at (rl_heap l) 0))"
    using p assms index_okI [of "rl_heap l" "rl_index l" "hp_queue (rl_heap l) ! 0"]
    by (auto simp: loop_peek_def loop_view_def loop_inv_def item_at_def split: if_splits)
  then show "\<exists>k r. loop_view l k = Some (t, r)"
    by blast
qed

interpretation timers: timer_queue loop_inv loop_view upsertLocked loop_remove popDue loop_peek
  by unfold_locales (simp_all add: upsertLocked_ok loop_remove_ok popDue_ok peek_cases(1), erule (2) peek_cases,
    erule (1) peek_cases(3))

end
