(* ===== verification/Refresh_World.thy ===== *)
theory Refresh_World
  imports Refresh_Queue
begin

declare map_of_eq_Some_iff [simp del]

section \<open>The loop among the writers of the manager\<close>

text \<open>
  The refresh loop as it runs: the clock advances, credentials are registered, replaced and deleted
  (each with the call the manager makes on the loop), the loop answers its wake signal and its timer,
  and workers finish refreshes in any order.  The step relation composes the operations of
  \<open>Refresh_Loop\<close>; its invariant says of every credential that either it waits in the dirty set or its
  entry in the queue is no later than the first moment it is due.
\<close>

subsection \<open>What an entry promises\<close>

text \<open>The credentials the loop plans for itself: an evaluator is only polled, an API key is never refreshed.\<close>

definition planned :: "refresh_env \<Rightarrow> string \<Rightarrow> auth \<Rightarrow> bool" where
  "planned env ident a \<longleftrightarrow> AuthKind a \<noteq> ''apikey'' \<and> evaluator_of (rv_runtime env ident) = None
     \<and> bounded_lead (rv_runtime env ident) a"

definition wakes_for :: "refresh_env \<Rightarrow> string \<Rightarrow> auth \<Rightarrow> gotime \<Rightarrow> (gotime \<times> int) option \<Rightarrow> bool" where
  "wakes_for env ident a now v \<longleftrightarrow>
     (planned env ident a \<longrightarrow>
        (\<forall>t\<ge>now. refresh_due env ident (Some a) t \<longrightarrow> (\<exists>n r. v = Some (n, r) \<and> n \<le> t)))"

text \<open>
  The entry of one credential: outside the dirty set \<open>D\<close> it wakes the loop in time; an entry with a
  positive revision was committed for a revision not newer than the current one, and for this one it
  wakes in time.
\<close>

definition timer_entry_ok ::
    "refresh_env \<Rightarrow> gotime \<Rightarrow> bool \<Rightarrow> string \<Rightarrow> auth option \<Rightarrow> (gotime \<times> int) option \<Rightarrow> bool" where
  "timer_entry_ok env now dirty ident cur v =
     (case cur of
        None \<Rightarrow> v = None
      | Some a \<Rightarrow>
          (\<not> dirty \<longrightarrow> wakes_for env ident a now v)
          \<and> (\<forall>n r. v = Some (n, r) \<and> 0 < r \<longrightarrow>
              r \<le> au_StateVersion a \<and> (r = au_StateVersion a \<longrightarrow> wakes_for env ident a now v)))"

definition env_ok :: "refresh_env \<Rightarrow> bool" where
  "env_ok env \<longleftrightarrow> readers_ok (rv_readers env) \<and> (\<forall>ident. runtime_ok (rv_runtime env ident))"

definition loop_ok :: "refresh_env \<Rightarrow> gotime \<Rightarrow> auth_table \<Rightarrow> auto_refresh_loop \<Rightarrow> string set \<Rightarrow> bool" where
  "loop_ok env now auths l D \<longleftrightarrow> 0 < now \<and> map_of auths [] = None \<and> loop_inv l
     \<and> (\<forall>ident. timer_entry_ok env now (ident \<in> D) ident (gomap_get None auths ident) (loop_view l ident))"

lemma wakes_for_later: "wakes_for env ident a now v \<Longrightarrow> now \<le> now' \<Longrightarrow> wakes_for env ident a now' v"
  by (force simp: wakes_for_def)

lemma entry_ok_later: "timer_entry_ok env now d ident cur v \<Longrightarrow> now \<le> now' \<Longrightarrow> timer_entry_ok env now' d ident cur v"
  by (auto simp: timer_entry_ok_def wakes_for_later split: option.splits)

lemma entry_ok_dirty: "timer_entry_ok env now d ident cur v \<Longrightarrow> (d \<Longrightarrow> d') \<Longrightarrow> timer_entry_ok env now d' ident cur v"
  by (auto simp: timer_entry_ok_def split: option.splits)

text \<open>An entry at the next check wakes in time, as does no entry where there is no next check.\<close>

lemma check_wakes:
  assumes "env_ok env"
  shows "wakes_for env ident a now (map_option (\<lambda>n. (n, r)) (check_at env ident now (Some a) interval))"
  unfolding wakes_for_def
proof (intro impI allI)
  fix t
  assume p: "planned env ident a" and t: "now \<le> t" "refresh_due env ident (Some a) t"
  have "\<not> (\<forall>next. check_at env ident now (Some a) interval = Some next \<longrightarrow> t < next)"
    using check_not_before [of "rv_readers env" "rv_runtime env ident" a now t interval] assms p t
    by (auto simp: planned_def env_ok_def check_at_def refresh_due_def)
  then show "\<exists>n r'. map_option (\<lambda>n. (n, r)) (check_at env ident now (Some a) interval) = Some (n, r') \<and> n \<le> t"
    by (auto simp: not_less)
qed

lemma check_entry:
  assumes "env_ok env" "r = 0 \<or> r = au_StateVersion a"
  shows "timer_entry_ok env now d ident (Some a)
     (map_option (\<lambda>n. (n, r)) (check_at env ident now (Some a) interval))"
  using check_wakes [OF assms(1), of ident a now r interval] assms(2) by (auto simp: timer_entry_ok_def)

lemma check_at_None [simp]: "check_at env ident now None interval = None"
  by (simp add: check_at_def nextRefreshCheckAt_def)

lemma check_at_past: "check_at env ident now auth interval = Some n \<Longrightarrow> now \<le> n"
  unfolding check_at_def by (rule check_not_past)

lemma loop_ok_one:
  assumes "loop_ok env now auths l D" "loop_inv l'" "map_of auths' [] = None"
    "\<And>j. j \<noteq> ident \<Longrightarrow> gomap_get None auths' j = gomap_get None auths j \<and> loop_view l' j = loop_view l j"
    "timer_entry_ok env now (ident \<in> D') ident (gomap_get None auths' ident) (loop_view l' ident)"
    "\<And>j. j \<in> D \<Longrightarrow> j \<noteq> ident \<Longrightarrow> j \<in> D'"
  shows "loop_ok env now auths' l' D'"
  using assms unfolding loop_ok_def by (metis entry_ok_dirty)

subsection \<open>The operations of the loop, one credential at a time\<close>

lemma upsert_view:
  assumes "loop_inv l" "ident \<noteq> []" "next \<noteq> 0"
  shows "loop_inv (loop_upsert ident next l)" "loop_view (loop_upsert ident next l) = (loop_view l)(ident \<mapsto> (next, 0))"
    "loop_inv (upsertAfterRefresh ident next r l)"
    "loop_view (upsertAfterRefresh ident next r l) = (loop_view l)(ident \<mapsto> (next, r))"
  using assms timers.put_inv timers.put_view by (simp_all add: loop_upsert_def upsertAfterRefresh_def)

lemma schedule_view:
  assumes "loop_inv l" "ident \<noteq> []" "0 < now" "c = check_at env ident now auth interval"
  shows "loop_inv (schedule_or_remove ident c l)"
    "loop_view (schedule_or_remove ident c l) = (loop_view l)(ident := map_option (\<lambda>n. (n, 0)) c)"
  using assms upsert_view [OF assms(1,2)] check_at_past [of env ident now auth interval] timers.del_inv [OF assms(1)]
    timers.del_view [OF assms(1)]
  by (force simp: schedule_or_remove_def split: option.splits)+

text \<open>The fields of the loop that the queue operations leave alone.\<close>

lemma upsertLocked_fields [simp]:
  "rl_interval (upsertLocked k t r l) = rl_interval l" "rl_dirty (upsertLocked k t r l) = rl_dirty l"
  "rl_wake (upsertLocked k t r l) = rl_wake l" "rl_jobs (upsertLocked k t r l) = rl_jobs l"
  by (simp_all add: upsertLocked_def new_item_def Let_def split: option.splits)

lemma queue_fields [simp]:
  "rl_interval (loop_upsert k t l) = rl_interval l" "rl_dirty (loop_upsert k t l) = rl_dirty l"
  "rl_wake (loop_upsert k t l) = rl_wake l"
  "rl_interval (loop_remove k l) = rl_interval l" "rl_dirty (loop_remove k l) = rl_dirty l"
  "rl_wake (loop_remove k l) = rl_wake l"
  "rl_interval (upsertDirty k t r l) = rl_interval l" "rl_dirty (upsertDirty k t r l) = rl_dirty l"
  "rl_wake (upsertDirty k t r l) = rl_wake l"
  by (simp_all add: loop_upsert_def loop_remove_def upsertDirty_def split: option.splits)

lemma schedule_fields [simp]:
  "rl_interval (schedule_or_remove k c l) = rl_interval l" "rl_dirty (schedule_or_remove k c l) = rl_dirty l"
  "rl_wake (schedule_or_remove k c l) = rl_wake l"
  by (simp_all add: schedule_or_remove_def split: option.splits)

lemma popDue_fields [simp]:
  "rl_interval (fst (popDue now l)) = rl_interval l \<and> rl_dirty (fst (popDue now l)) = rl_dirty l
   \<and> rl_wake (fst (popDue now l)) = rl_wake l \<and> rl_jobs (fst (popDue now l)) = rl_jobs l"
  by (induction now l rule: popDue.induct) (subst (1 2 3 4) popDue.simps, auto simp: Let_def split: prod.splits)

lemma loop_inv_other [simp]:
  "loop_inv (l\<lparr>rl_wake := w\<rparr>) = loop_inv l" "loop_inv (l\<lparr>rl_dirty := d\<rparr>) = loop_inv l"
  "loop_inv (l\<lparr>rl_jobs := j\<rparr>) = loop_inv l"
  "loop_view (l\<lparr>rl_wake := w\<rparr>) = loop_view l" "loop_view (l\<lparr>rl_dirty := d\<rparr>) = loop_view l"
  "loop_view (l\<lparr>rl_jobs := j\<rparr>) = loop_view l"
  "loop_peek (l\<lparr>rl_wake := w\<rparr>) = loop_peek l" "loop_peek (l\<lparr>rl_dirty := d\<rparr>) = loop_peek l"
  "loop_peek (l\<lparr>rl_jobs := j\<rparr>) = loop_peek l"
  by (simp_all add: loop_inv_def loop_view_def loop_peek_def fun_eq_iff)

text \<open>The dirty pass: an entry that is skipped was committed for this revision or a newer one.\<close>

lemma apply_dirty_auth_ok:
  assumes "env_ok env" "loop_ok env now auths l D"
  shows "loop_ok env now auths (apply_dirty_auth env now auths l ident) (D - {ident})"
proof (cases "check_at env ident now (gomap_get None auths ident) (rl_interval l)")
  case None
  have "timer_entry_ok env now d ident (gomap_get None auths ident) None" for d
  proof (cases "gomap_get None auths ident")
    case (Some a)
    then show ?thesis
      using check_entry [OF assms(1), of 0 a now d ident "rl_interval l"] None by simp
  qed (simp add: timer_entry_ok_def)
  then show ?thesis
    using assms(2) None timers.del_inv timers.del_view
    by (intro loop_ok_one [OF assms(2)]) (auto simp: apply_dirty_auth_def loop_ok_def)
next
  case (Some nx)
  then obtain a where a: "gomap_get None auths ident = Some a"
    by (cases "gomap_get None auths ident") auto
  have nz: "nx \<noteq> 0" "loop_inv l" "ident \<noteq> []"
    using check_at_past [OF Some] assms(2) a by (auto simp: loop_ok_def gomap_get_def)
  have old: "timer_entry_ok env now (ident \<in> D) ident (Some a) (loop_view l ident)"
    using assms(2) a by (metis loop_ok_def)
  let ?skip = "0 < au_StateVersion a \<and> (\<exists>n r. loop_view l ident = Some (n, r) \<and> au_StateVersion a \<le> r)"
  have l': "apply_dirty_auth env now auths l ident = (if ?skip then l else upsertLocked ident nx 0 l)"
    using Some a nz by (auto simp: apply_dirty_auth_def upsertDirty_def loop_view_def split: option.splits)
  show ?thesis
  proof (cases ?skip)
    case True
    then obtain n r where v: "loop_view l ident = Some (n, r)" "0 < r" "au_StateVersion a \<le> r"
      by fastforce
    then have "timer_entry_ok env now False ident (Some a) (loop_view l ident)"
      using old by (fastforce simp: timer_entry_ok_def)
    then show ?thesis
      using True assms(2) a nz by (intro loop_ok_one [OF assms(2)]) (auto simp: l' loop_ok_def)
  next
    case False
    have "timer_entry_ok env now False ident (Some a) (Some (nx, 0))"
      using check_entry [OF assms(1), of 0 a now False ident "rl_interval l"] Some a by simp
    then show ?thesis
      using False assms(2) a nz timers.put_inv [OF nz(2,3)] timers.put_view [OF nz(2,3)]
      by (intro loop_ok_one [OF assms(2)]) (auto simp: l' loop_ok_def)
  qed
qed

lemma apply_dirty_auth_fields [simp]:
  "rl_interval (apply_dirty_auth env now auths l ident) = rl_interval l"
  "rl_dirty (apply_dirty_auth env now auths l ident) = rl_dirty l"
  "rl_wake (apply_dirty_auth env now auths l ident) = rl_wake l"
  by (simp_all add: apply_dirty_auth_def Let_def split: option.splits)

lemma apply_dirty_fold:
  "env_ok env \<Longrightarrow> loop_ok env now auths l D \<Longrightarrow>
   loop_ok env now auths (foldl (apply_dirty_auth env now auths) l ids) (D - set ids)
   \<and> rl_dirty (foldl (apply_dirty_auth env now auths) l ids) = rl_dirty l
   \<and> rl_wake (foldl (apply_dirty_auth env now auths) l ids) = rl_wake l"
proof (induction ids arbitrary: l D)
  case (Cons ident ids)
  have "D - set (ident # ids) = D - {ident} - set ids"
    by auto
  then show ?case
    using Cons.IH [OF Cons.prems(1) apply_dirty_auth_ok [OF Cons.prems]] by simp
qed simp

lemma applyDirty_ok:
  assumes "env_ok env" "loop_ok env now auths l (set (rl_dirty l))"
  shows "loop_ok env now auths (applyDirty env now auths l) {}" "rl_dirty (applyDirty env now auths l) = []"
    "rl_wake (applyDirty env now auths l) = rl_wake l"
proof -
  have "loop_ok env now auths (l\<lparr>rl_dirty := []\<rparr>) (set (rl_dirty l))"
    using assms(2) by (simp add: loop_ok_def)
  then show "loop_ok env now auths (applyDirty env now auths l) {}" "rl_dirty (applyDirty env now auths l) = []"
    "rl_wake (applyDirty env now auths l) = rl_wake l"
    using apply_dirty_fold [OF assms(1), of now auths _ "set (rl_dirty l)" "rl_dirty l"]
    by (auto simp: applyDirty_def drainDirty_def)
qed

subsection \<open>Handling what is due\<close>

lemma popDue_loop_ok:
  assumes "loop_ok env now auths l D"
  shows "loop_ok env now auths (fst (popDue now l)) (D \<union> set (snd (popDue now l)))"
proof -
  have inv: "loop_inv l"
    using assms by (simp add: loop_ok_def)
  have "timer_entry_ok env now (j \<in> D \<union> set (snd (popDue now l))) j (gomap_get None auths j) (loop_view (fst (popDue now l)) j)" for j
  proof (cases "j \<in> set (snd (popDue now l))")
    case True
    then show ?thesis
      using timers.pop_forgets [OF inv] by (simp add: timer_entry_ok_def split: option.split)
  next
    case False
    then show ?thesis
      using timers.pop_keeps [OF inv] assms by (simp add: loop_ok_def)
  qed
  then show ?thesis
    using assms timers.pop_inv by (simp add: loop_ok_def)
qed

lemma check_entry_schedule:
  assumes "env_ok env" "loop_inv l" "ident \<noteq> []" "0 < now"
  shows "timer_entry_ok env now d ident (Some a)
     (loop_view (schedule_or_remove ident (check_at env ident now (Some a) interval) l) ident)"
  using check_entry [OF assms(1), of 0 a now d ident interval] schedule_view [OF assms(2-4) refl]
  by simp

text \<open>The three outcomes of the handler for a credential the manager holds.\<close>

lemma handleDueAuth_cases:
  assumes "ident \<noteq> []" "gomap_get None auths ident = Some a"
  shows "handleDueAuth env now (auths, l) ident =
     (let c = check_at env ident now (Some a) (rl_interval l); a' = ApplyRefreshPendingState a now
      in if c \<noteq> None \<and> refresh_due env ident (Some a) now
         then (AList.update ident (Some a') auths,
               (schedule_or_remove ident (check_at env ident now (Some a') (rl_interval l)) l)
                 \<lparr>rl_jobs := rl_jobs l @ [ident]\<rparr>)
         else (auths, schedule_or_remove ident c l))"
  using assms by (auto simp: handleDueAuth_def markRefreshPending_def schedule_or_remove_def Let_def split: option.splits)

lemma handleDueAuth_None:
  "gomap_get None auths ident = None \<Longrightarrow> handleDueAuth env now (auths, l) ident = (auths, l)"
  by (simp add: handleDueAuth_def)

lemma check_later:
  assumes "env_ok env" "check_at env ident now (Some a) interval = Some n" "\<not> refresh_due env ident (Some a) now"
  shows "now < n"
  using check_at_past [OF assms(2)] check_now_due [of "rv_readers env" "rv_runtime env ident" now a interval] assms
  by (force simp: check_at_def refresh_due_def env_ok_def)

lemma schedule_quiet:
  assumes "loop_inv l" "ident \<noteq> []" "0 < now" "timers.quiet now l"
    "\<And>n. check_at env ident now auth interval = Some n \<Longrightarrow> now < n"
  shows "timers.quiet now (schedule_or_remove ident (check_at env ident now auth interval) l)"
  using schedule_view [OF assms(1-3) refl, of env auth interval] assms(4,5)
  by (auto simp: timers.quiet_def)

lemma pending_later:
  "check_at env ident now (Some (ApplyRefreshPendingState a now)) interval = Some n \<Longrightarrow> 0 < now \<Longrightarrow> now < n"
  using check_pending [of "rv_readers env" "rv_runtime env ident" now a interval n]
  by (simp add: check_at_def refresh_backoffs duration_defs)

lemma handleDueAuth_ok:
  assumes "env_ok env" "loop_ok env now auths l D" "handleDueAuth env now (auths, l) ident = (auths', l')"
  shows "loop_ok env now auths' l' (D - {ident})"
    "rl_dirty l' = rl_dirty l" "rl_wake l' = rl_wake l"
    "timers.quiet now l \<Longrightarrow> timers.quiet now l'"
    "j \<noteq> ident \<Longrightarrow> gomap_get None auths' j = gomap_get None auths j"
    "set (rl_jobs l) \<subseteq> set (rl_jobs l')"
    "gomap_get None auths ident = Some a \<Longrightarrow> check_at env ident now (Some a) (rl_interval l) \<noteq> None \<Longrightarrow>
     refresh_due env ident (Some a) now \<Longrightarrow> ident \<in> set (rl_jobs l')"
    "rl_interval l' = rl_interval l"
proof -
  have l: "loop_inv l" "0 < now" "map_of auths [] = None"
    using assms(2) by (auto simp: loop_ok_def)
  have *: "loop_ok env now auths' l' (D - {ident}) \<and> rl_dirty l' = rl_dirty l \<and> rl_wake l' = rl_wake l
      \<and> (timers.quiet now l \<longrightarrow> timers.quiet now l') \<and> (j \<noteq> ident \<longrightarrow> gomap_get None auths' j = gomap_get None auths j)
      \<and> set (rl_jobs l) \<subseteq> set (rl_jobs l') \<and> rl_interval l' = rl_interval l
      \<and> (gomap_get None auths ident = Some a \<longrightarrow> check_at env ident now (Some a) (rl_interval l) \<noteq> None \<longrightarrow>
         refresh_due env ident (Some a) now \<longrightarrow> ident \<in> set (rl_jobs l'))" for j a
  proof (cases "gomap_get None auths ident")
    case None
    have "loop_ok env now auths l (D - {ident})"
    proof (rule loop_ok_one [OF assms(2)])
      have "timer_entry_ok env now (ident \<in> D) ident None (loop_view l ident)"
        using assms(2) None by (metis loop_ok_def)
      then show "timer_entry_ok env now (ident \<in> D - {ident}) ident (gomap_get None auths ident) (loop_view l ident)"
        by (simp add: None timer_entry_ok_def)
    qed (use l in auto)
    then show ?thesis
      using None assms(3) by (simp add: handleDueAuth_None)
  next
    case (Some a0)
    then have ne: "ident \<noteq> []"
      using l(3) by (auto simp: gomap_get_def)
    let ?c = "check_at env ident now (Some a0) (rl_interval l)" and ?p = "ApplyRefreshPendingState a0 now"
    note sv = schedule_view [OF l(1) ne l(2) refl, of env _ "rl_interval l"]
    show ?thesis
    proof (cases "?c \<noteq> None \<and> refresh_due env ident (Some a0) now")
      case True
      let ?s = "schedule_or_remove ident (check_at env ident now (Some ?p) (rl_interval l)) l"
      have r: "auths' = AList.update ident (Some ?p) auths" "l' = ?s\<lparr>rl_jobs := rl_jobs l @ [ident]\<rparr>"
        using assms(3) unfolding handleDueAuth_cases [OF ne Some] Let_def if_P [OF True] by simp_all
      have "loop_ok env now auths' l' (D - {ident})"
        using sv [of "Some ?p"] l ne check_entry_schedule [OF assms(1) l(1) ne l(2), of False ?p "rl_interval l"]
        by (intro loop_ok_one [OF assms(2)]) (auto simp: r)
      moreover have "timers.quiet now l \<longrightarrow> timers.quiet now l'"
        using schedule_quiet [OF l(1) ne l(2), of env "Some ?p" "rl_interval l"] pending_later [OF _ l(2)]
        by (auto simp: r timers.quiet_def)
      ultimately show ?thesis
        by (auto simp: r)
    next
      case False
      let ?s = "schedule_or_remove ident ?c l"
      have r: "auths' = auths" "l' = ?s"
        using assms(3) unfolding handleDueAuth_cases [OF ne Some] Let_def if_not_P [OF False] by simp_all
      have "loop_ok env now auths' l' (D - {ident})"
        using sv [of "Some a0"] l ne Some check_entry_schedule [OF assms(1) l(1) ne l(2), of False a0 "rl_interval l"]
        by (intro loop_ok_one [OF assms(2)]) (auto simp: r)
      moreover have "timers.quiet now l \<longrightarrow> timers.quiet now l'"
        using schedule_quiet [OF l(1) ne l(2)] check_later [OF assms(1)] False unfolding r by blast
      moreover have "rl_jobs ?s = rl_jobs l"
        by (auto simp: schedule_or_remove_def loop_upsert_def loop_remove_def split: option.split)
      ultimately show ?thesis
        using False Some by (auto simp: r)
    qed
  qed
  show "loop_ok env now auths' l' (D - {ident})" "rl_dirty l' = rl_dirty l" "rl_wake l' = rl_wake l"
    "timers.quiet now l \<Longrightarrow> timers.quiet now l'"
    "j \<noteq> ident \<Longrightarrow> gomap_get None auths' j = gomap_get None auths j"
    "set (rl_jobs l) \<subseteq> set (rl_jobs l')"
    "gomap_get None auths ident = Some a \<Longrightarrow> check_at env ident now (Some a) (rl_interval l) \<noteq> None \<Longrightarrow>
     refresh_due env ident (Some a) now \<Longrightarrow> ident \<in> set (rl_jobs l')"
    "rl_interval l' = rl_interval l"
    using * [of j a] by blast+
qed

lemma handle_fold:
  "env_ok env \<Longrightarrow> loop_ok env now auths l D \<Longrightarrow>
   foldl (handleDueAuth env now) (auths, l) due = (auths', l') \<Longrightarrow>
   loop_ok env now auths' l' (D - set due) \<and> rl_dirty l' = rl_dirty l \<and> rl_wake l' = rl_wake l
   \<and> (timers.quiet now l \<longrightarrow> timers.quiet now l') \<and> set (rl_jobs l) \<subseteq> set (rl_jobs l')
   \<and> (\<forall>j\<in>set due. \<forall>a. gomap_get None auths j = Some a \<longrightarrow> check_at env j now (Some a) (rl_interval l) \<noteq> None \<longrightarrow>
       refresh_due env j (Some a) now \<longrightarrow> j \<in> set (rl_jobs l'))"
proof (induction due arbitrary: auths l D)
  case (Cons ident due)
  obtain auths1 l1 where one: "handleDueAuth env now (auths, l) ident = (auths1, l1)"
    by force
  note h = handleDueAuth_ok [OF Cons.prems(1,2) one]
  have "foldl (handleDueAuth env now) (auths1, l1) due = (auths', l')"
    using Cons.prems(3) one by simp
  note IH = Cons.IH [OF Cons.prems(1) h(1) this]
  have "D - {ident} - set due = D - set (ident # due)"
    by auto
  moreover have "j \<in> set (rl_jobs l')"
    if j: "j \<in> set (ident # due)" "gomap_get None auths j = Some a"
      "check_at env j now (Some a) (rl_interval l) \<noteq> None" "refresh_due env j (Some a) now" for j a
  proof (cases "j = ident")
    case True
    then show ?thesis
      using h(7) [of a] j IH by blast
  next
    case False
    then show ?thesis
      using j IH h(5) [OF False] h(8) by auto
  qed
  ultimately show ?case
    using IH h by auto
qed simp

lemma handleDue_ok:
  assumes "env_ok env" "loop_ok env now auths l D" "handleDue env now (auths, l) = (auths', l')"
  shows "loop_ok env now auths' l' D" "rl_dirty l' = rl_dirty l" "rl_wake l' = rl_wake l" "timers.quiet now l'"
    "set (rl_jobs l) \<subseteq> set (rl_jobs l')"
    "gomap_get None auths j = Some a \<Longrightarrow> planned env j a \<Longrightarrow> j \<notin> D \<Longrightarrow> refresh_due env j (Some a) now \<Longrightarrow>
     j \<in> set (rl_jobs l')"
proof -
  obtain l1 due where pop: "popDue now l = (l1, due)"
    by force
  have l: "loop_inv l" "0 < now"
    using assms(2) by (auto simp: loop_ok_def)
  have "loop_ok env now auths l1 (D \<union> set due)"
    using popDue_loop_ok [OF assms(2)] pop by simp
  moreover have "foldl (handleDueAuth env now) (auths, l1) due = (auths', l')"
    using assms(3) pop by (simp add: handleDue_def)
  ultimately have f: "loop_ok env now auths' l' (D \<union> set due - set due)" "rl_dirty l' = rl_dirty l1" "rl_wake l' = rl_wake l1"
    "timers.quiet now l1 \<longrightarrow> timers.quiet now l'" "set (rl_jobs l1) \<subseteq> set (rl_jobs l')"
    "\<forall>j\<in>set due. \<forall>a. gomap_get None auths j = Some a \<longrightarrow> check_at env j now (Some a) (rl_interval l1) \<noteq> None \<longrightarrow>
       refresh_due env j (Some a) now \<longrightarrow> j \<in> set (rl_jobs l')"
    using handle_fold [OF assms(1)] by blast+
  show "loop_ok env now auths' l' D"
    using f(1) unfolding loop_ok_def by (metis Diff_iff UnE entry_ok_dirty)
  show "rl_dirty l' = rl_dirty l" "rl_wake l' = rl_wake l" "timers.quiet now l'" "set (rl_jobs l) \<subseteq> set (rl_jobs l')"
    using f(2-5) popDue_fields [of now l] timers.pop_quiet [OF l(1), of now] pop by auto
  assume a: "gomap_get None auths j = Some a" "planned env j a" "j \<notin> D" "refresh_due env j (Some a) now"
  then have "timer_entry_ok env now False j (Some a) (loop_view l j)"
    using assms(2) unfolding loop_ok_def by metis
  then obtain n r where v: "loop_view l j = Some (n, r)" "n \<le> now"
    using a by (auto simp: timer_entry_ok_def wakes_for_def)
  then have "j \<in> set due"
    using timers.pop_due [OF l(1), of now] pop by (auto simp: due_timers_def)
  moreover have "check_at env j now (Some a) (rl_interval l1) \<noteq> None"
    using check_wakes [OF assms(1), of j a now 0 "rl_interval l1"] a by (auto simp: wakes_for_def)
  ultimately show "j \<in> set (rl_jobs l')"
    using f(6) a by blast
qed

subsection \<open>Building the queue\<close>

lemma new_item_fold:
  "loop_inv l \<Longrightarrow> distinct (map fst es) \<Longrightarrow> [] \<notin> fst ` set es \<Longrightarrow> \<forall>k\<in>fst ` set es. loop_view l k = None \<Longrightarrow>
   loop_inv (foldl (\<lambda>l (k, t). new_item k t 0 l) l es)
   \<and> loop_view (foldl (\<lambda>l (k, t). new_item k t 0 l) l es)
     = (\<lambda>k. case map_of es k of Some t \<Rightarrow> Some (t, 0) | None \<Rightarrow> loop_view l k)"
proof (induction es arbitrary: l)
  case (Cons e es)
  obtain k t where e: "e = (k, t)"
    by force
  have "map_of (rl_index l) k = None"
    using Cons.prems(4) by (simp add: e loop_view_def)
  then have n: "loop_inv (new_item k t 0 l)" "loop_view (new_item k t 0 l) = (loop_view l)(k \<mapsto> (t, 0))"
    using Cons.prems by (auto simp: e intro!: new_item_ok)
  have k: "k \<notin> fst ` set es"
    using Cons.prems(2) by (simp add: e)
  then have "map_of es k = None"
    by (simp add: map_of_eq_None_iff)
  moreover have "\<forall>j\<in>fst ` set es. loop_view (new_item k t 0 l) j = None"
    using Cons.prems(4) k by (auto simp: e n(2))
  ultimately show ?case
    using Cons.IH [OF n(1)] Cons.prems(2,3) n(2) by (auto simp: e fun_eq_iff split: option.split)
qed simp

lemma rebuild_entries_map:
  "distinct (map fst auths) \<Longrightarrow>
   distinct (map fst (rebuild_entries env now auths interval))
   \<and> map_of (rebuild_entries env now auths interval)
     = (\<lambda>k. check_at env k now (gomap_get None auths k) interval)
   \<and> fst ` set (rebuild_entries env now auths interval) \<subseteq> fst ` set auths"
proof (induction auths)
  case (Cons e auths)
  obtain k a where e: "e = (k, a)"
    by force
  have n: "map_of auths k = None"
    using Cons.prems by (simp add: e map_of_eq_None_iff)
  then have k: "gomap_get None auths k = None" "k \<notin> fst ` set (rebuild_entries env now auths interval)"
    using Cons by (auto simp: e gomap_get_def)
  have head: "rebuild_entries env now ((k, a) # auths) interval
      = (case check_at env k now a interval of None \<Rightarrow> [] | Some n \<Rightarrow> [(k, n)]) @ rebuild_entries env now auths interval"
    by (simp add: rebuild_entries_def)
  have "map_of (rebuild_entries env now auths interval) k = None"
    using k(2) by (simp add: map_of_eq_None_iff)
  with n k show ?case
    using Cons by (auto simp: head fun_eq_iff gomap_get_def e split: option.split)
qed (simp add: rebuild_entries_def)

lemma rebuild_ok:
  assumes "env_ok env" "gomap_wf auths" "map_of auths [] = None" "0 < now"
  shows "loop_ok env now auths (loop_rebuild env now auths l) {}"
proof -
  let ?l = "l\<lparr>rl_heap := (rl_heap l)\<lparr>hp_queue := []\<rparr>, rl_index := []\<rparr>"
  let ?es = "rebuild_entries env now auths (rl_interval l)"
  note es = rebuild_entries_map [OF assms(2), of env now "rl_interval l"]
  have empty: "loop_inv ?l" "loop_view ?l k = None" for k
    by (simp_all add: loop_inv_def heap_inv_def heap_mem_def heap_order_def index_ok_def loop_view_def)
  have "[] \<notin> fst ` set ?es"
    using es assms(3) by (metis map_of_eq_None_iff subsetD)
  then have r: "loop_inv (loop_rebuild env now auths l)" "loop_view (loop_rebuild env now auths l)
      = (\<lambda>k. map_option (\<lambda>t. (t, 0)) (check_at env k now (gomap_get None auths k) (rl_interval l)))"
    using new_item_fold [OF empty(1), of ?es] es empty(2)
    by (auto simp: loop_rebuild_def fun_eq_iff split: option.split)
  have "timer_entry_ok env now False k (gomap_get None auths k) (loop_view (loop_rebuild env now auths l) k)" for k
    using check_entry [OF assms(1), of 0 _ now False k "rl_interval l"]
    by (cases "gomap_get None auths k") (auto simp: r(2) timer_entry_ok_def [of _ _ _ _ None])
  then show ?thesis
    using assms r(1) by (simp add: loop_ok_def)
qed

end
