(* ===== verification/Refresh_Guarantees.thy ===== *)
theory Refresh_Guarantees
  imports Refresh_World
begin

declare map_of_eq_Some_iff [simp del]

section \<open>No credential sleeps past its refresh\<close>

text \<open>
  The runs of the refresh loop and its guarantees.  A world is the clock, the manager's credentials,
  the loop and the instant its timer is set to.  The steps: time passes; a credential is written (a
  registration, an update, an adopted copy: each ends in \<^verbatim>\<open>queueRefreshReschedule\<close>) or deleted (which
  calls \<^verbatim>\<open>remove\<close>); the loop answers the wake signal or the timer; a worker takes a job; a worker
  finishes one, whichever, at any time.  A write either raises the stored revision of the credential
  or leaves it unversioned, as the stores do, and the worker's resolved copy is the manager's own.
\<close>

record refresh_world =
  rw_now :: gotime
  rw_auths :: auth_table
  rw_loop :: auto_refresh_loop
  rw_timer :: "gotime option"

definition raises_revision :: "auth option \<Rightarrow> auth \<Rightarrow> bool" where
  "raises_revision old a \<longleftrightarrow>
     (case old of
        None \<Rightarrow> True
      | Some b \<Rightarrow> au_StateVersion b < au_StateVersion a \<or> (au_StateVersion a \<le> 0 \<and> au_StateVersion b \<le> 0))"

text \<open>The two branches of \<^verbatim>\<open>loop\<close>: the wake signal, and the timer.\<close>

definition loop_woken :: "refresh_env \<Rightarrow> refresh_world \<Rightarrow> refresh_world" where
  "loop_woken env w =
     (let l = applyDirty env (rw_now w) (rw_auths w) ((rw_loop w)\<lparr>rl_wake := False\<rparr>)
      in w\<lparr>rw_loop := l, rw_timer := resetTimer (rw_now w) l\<rparr>)"

definition loop_timer :: "refresh_env \<Rightarrow> refresh_world \<Rightarrow> refresh_world" where
  "loop_timer env w =
     (let (auths, l) = handleDue env (rw_now w) (rw_auths w, rw_loop w);
          l' = applyDirty env (rw_now w) auths l
      in w\<lparr>rw_auths := auths, rw_loop := l', rw_timer := resetTimer (rw_now w) l'\<rparr>)"

text \<open>\<^verbatim>\<open>StartAutoRefresh\<close>: a new loop, built from the credentials, with its first timer.\<close>

definition StartAutoRefresh :: "refresh_env \<Rightarrow> gotime \<Rightarrow> duration \<Rightarrow> auth_table \<Rightarrow> refresh_world" where
  "StartAutoRefresh env now interval0 auths =
     (let interval = (if interval0 \<le> 0 then refreshCheckInterval else interval0);
          l = loop_rebuild env now auths (newAuthAutoRefreshLoop interval refreshMaxConcurrency)
      in \<lparr>rw_now = now, rw_auths = auths, rw_loop = l, rw_timer = resetTimer now l\<rparr>)"

inductive refresh_step :: "refresh_env \<Rightarrow> refresh_world \<Rightarrow> refresh_world \<Rightarrow> bool" for env where
  refresh_clock: "rw_now w \<le> t \<Longrightarrow> refresh_step env w (w\<lparr>rw_now := t\<rparr>)"
| refresh_write: "authID \<noteq> [] \<Longrightarrow> raises_revision (gomap_get None (rw_auths w) authID) a \<Longrightarrow>
    refresh_step env w (w\<lparr>rw_auths := AList.update authID (Some a) (rw_auths w),
      rw_loop := queueReschedule authID (rw_loop w)\<rparr>)"
| refresh_delete: "refresh_step env w (w\<lparr>rw_auths := AList.delete authID (rw_auths w),
      rw_loop := loop_remove authID (rw_loop w)\<rparr>)"
| refresh_woken: "rl_wake (rw_loop w) \<Longrightarrow> refresh_step env w (loop_woken env w)"
| refresh_timer: "rw_timer w = Some t \<Longrightarrow> t \<le> rw_now w \<Longrightarrow> refresh_step env w (loop_timer env w)"
| refresh_take: "rl_jobs (rw_loop w) = authID # jobs \<Longrightarrow>
    refresh_step env w (w\<lparr>rw_loop := (rw_loop w)\<lparr>rl_jobs := jobs\<rparr>\<rparr>)"
| refresh_finish: "resolved = None \<or> resolved = gomap_get None (rw_auths w) authID \<Longrightarrow>
    refresh_step env w (w\<lparr>rw_loop := rescheduleAfterRefresh env (rw_now w) authID resolved (rw_auths w) (rw_loop w)\<rparr>)"

inductive refresh_run :: "refresh_env \<Rightarrow> refresh_world \<Rightarrow> bool" for env where
  run_start: "gomap_wf auths \<Longrightarrow> map_of auths [] = None \<Longrightarrow> 0 < now \<Longrightarrow>
    refresh_run env (StartAutoRefresh env now interval auths)"
| run_step: "refresh_run env w \<Longrightarrow> refresh_step env w w' \<Longrightarrow> refresh_run env w'"

inductive_cases refresh_stepE: "refresh_step env w w'"

subsection \<open>The invariant\<close>

text \<open>Without a wake signal the timer is set no later than the first entry of the queue.\<close>

definition timer_ok :: "refresh_world \<Rightarrow> bool" where
  "timer_ok w \<longleftrightarrow> rl_wake (rw_loop w) \<or>
     (\<forall>k n r. loop_view (rw_loop w) k = Some (n, r) \<longrightarrow> (\<exists>t. rw_timer w = Some t \<and> t \<le> max n (rw_now w)))"

definition world_ok :: "refresh_env \<Rightarrow> refresh_world \<Rightarrow> bool" where
  "world_ok env w \<longleftrightarrow> loop_ok env (rw_now w) (rw_auths w) (rw_loop w) (set (rl_dirty (rw_loop w)))
     \<and> (rl_dirty (rw_loop w) \<noteq> [] \<longrightarrow> rl_wake (rw_loop w)) \<and> timer_ok w"

lemma resetTimer_early:
  assumes "loop_inv l" "loop_view l k = Some (n, r)"
  shows "\<exists>t. resetTimer now l = Some t \<and> t \<le> max n now"
proof (cases "loop_peek l")
  case None
  then show ?thesis
    using timers.peek_None [OF assms(1), of k] assms(2) by simp
next
  case (Some p)
  have "p \<le> n"
    by (rule timers.peek_least [OF assms(1) Some assms(2)])
  moreover have "time_sub p now \<le> p - now \<or> time_sub p now < 0"
    by (auto simp: time_sub_def i64_simps)
  ultimately show ?thesis
    using Some by (auto simp: resetTimer_def)
qed

lemma dirty_step:
  assumes "env_ok env" "loop_ok env now auths l (set (rl_dirty l))"
  shows "world_ok env \<lparr>rw_now = now, rw_auths = auths, rw_loop = applyDirty env now auths l,
     rw_timer = resetTimer now (applyDirty env now auths l)\<rparr>"
proof -
  note d = applyDirty_ok [OF assms]
  then show ?thesis
    using resetTimer_early [of "applyDirty env now auths l"]
    by (simp add: world_ok_def timer_ok_def loop_ok_def)
qed

lemma queueReschedule_facts [simp]:
  "loop_inv (queueReschedule k l) = loop_inv l" "loop_view (queueReschedule k l) = loop_view l"
  "k \<noteq> [] \<Longrightarrow> set (rl_dirty (queueReschedule k l)) = insert k (set (rl_dirty l))"
  "k \<noteq> [] \<Longrightarrow> rl_wake (queueReschedule k l)"
  by (auto simp: queueReschedule_def)

lemma write_ok:
  assumes "loop_ok env now auths l D" "k \<noteq> []" "raises_revision (gomap_get None auths k) a"
  shows "loop_ok env now (AList.update k (Some a) auths) (queueReschedule k l) (insert k D)"
proof (rule loop_ok_one [OF assms(1)])
  have old: "timer_entry_ok env now (k \<in> D) k (gomap_get None auths k) (loop_view l k)"
    using assms(1) by (simp add: loop_ok_def)
  have "r < au_StateVersion a" if "loop_view l k = Some (n, r)" "0 < r" for n r
    using old that assms(3) by (auto simp: timer_entry_ok_def raises_revision_def split: option.splits)
  then show "timer_entry_ok env now (k \<in> insert k D) k (gomap_get None (AList.update k (Some a) auths) k)
      (loop_view (queueReschedule k l) k)"
    by (fastforce simp: timer_entry_ok_def)
qed (use assms in \<open>auto simp: loop_ok_def\<close>)

lemma delete_ok:
  assumes "loop_ok env now auths l D"
  shows "loop_ok env now (AList.delete k auths) (loop_remove k l) D"
  using assms timers.del_inv timers.del_view
  by (intro loop_ok_one [OF assms, where ident = k]) (auto simp: loop_ok_def timer_entry_ok_def)

lemma finish_ok:
  assumes "env_ok env" "loop_ok env now auths l D" "resolved = None \<or> resolved = gomap_get None auths k"
  shows "loop_ok env now auths (rescheduleAfterRefresh env now k resolved auths l) D"
    "rl_dirty (rescheduleAfterRefresh env now k resolved auths l) = rl_dirty l"
    "k \<noteq> [] \<Longrightarrow> rl_wake (rescheduleAfterRefresh env now k resolved auths l)"
proof -
  have l: "loop_inv l" "0 < now" "map_of auths [] = None"
    using assms(2) by (auto simp: loop_ok_def)
  show "loop_ok env now auths (rescheduleAfterRefresh env now k resolved auths l) D"
  proof (cases "gomap_get None auths k")
    case None
    then have "timer_entry_ok env now d k None (loop_view (rescheduleAfterRefresh env now k resolved auths l) k)" for d
      using assms(2) timers.del_view [OF l(1), of k]
      by (auto simp: rescheduleAfterRefresh_def loop_ok_def timer_entry_ok_def dest: spec [of _ k])
    then show ?thesis
      using None l timers.del_inv [OF l(1)] timers.del_view [OF l(1)]
      by (intro loop_ok_one [OF assms(2), where ident = k]) (auto simp: rescheduleAfterRefresh_def)
  next
    case (Some a)
    then have k: "k \<noteq> []"
      using l(3) by (auto simp: gomap_get_def)
    let ?c = "check_at env k now (Some a) (rl_interval l)"
    have r: "rescheduleAfterRefresh env now k resolved auths l
        = (case ?c of Some n \<Rightarrow> upsertAfterRefresh k n (au_StateVersion a) l | None \<Rightarrow> loop_remove k l)\<lparr>rl_wake := True\<rparr>"
      using assms(3) Some k by (auto simp: rescheduleAfterRefresh_def Let_def split: option.split)
    have v: "loop_inv (rescheduleAfterRefresh env now k resolved auths l)"
      "loop_view (rescheduleAfterRefresh env now k resolved auths l)
        = (loop_view l)(k := map_option (\<lambda>n. (n, au_StateVersion a)) ?c)"
      using check_at_past [of env k now "Some a" "rl_interval l"] l(2) upsert_view(3,4) [OF l(1) k]
        timers.del_inv [OF l(1)] timers.del_view [OF l(1)]
      by (force simp: r split: option.split)+
    show ?thesis
      using check_entry [OF assms(1), of "au_StateVersion a" a now "k \<in> D" k "rl_interval l"] Some v l
      by (intro loop_ok_one [OF assms(2), where ident = k]) auto
  qed
  show "rl_dirty (rescheduleAfterRefresh env now k resolved auths l) = rl_dirty l"
    by (auto simp: rescheduleAfterRefresh_def upsertAfterRefresh_def Let_def split: option.split)
  show "k \<noteq> [] \<Longrightarrow> rl_wake (rescheduleAfterRefresh env now k resolved auths l)"
    by (simp add: rescheduleAfterRefresh_def Let_def)
qed

lemma step_ok:
  assumes "env_ok env" "refresh_step env w w'" "world_ok env w"
  shows "world_ok env w'"
  using assms(2)
proof (cases rule: refresh_step.cases)
  case (refresh_clock t)
  then show ?thesis
    using assms(3) entry_ok_later by (fastforce simp: world_ok_def loop_ok_def timer_ok_def)
next
  case (refresh_write authID a)
  then show ?thesis
    using assms(3) write_ok [of env "rw_now w" "rw_auths w" "rw_loop w" _ authID a]
    by (simp add: world_ok_def timer_ok_def)
next
  case (refresh_delete authID)
  have "loop_inv (rw_loop w)"
    using assms(3) by (simp add: world_ok_def loop_ok_def)
  then show ?thesis
    using refresh_delete assms(3) delete_ok [of env "rw_now w" "rw_auths w" "rw_loop w" _ authID]
    by (auto simp: world_ok_def timer_ok_def timers.del_view)
next
  case (refresh_woken)
  have "loop_ok env (rw_now w) (rw_auths w) ((rw_loop w)\<lparr>rl_wake := False\<rparr>)
      (set (rl_dirty ((rw_loop w)\<lparr>rl_wake := False\<rparr>)))"
    using assms(3) by (simp add: world_ok_def loop_ok_def)
  then show ?thesis
    using dirty_step [OF assms(1)] refresh_woken by (simp add: loop_woken_def Let_def world_ok_def timer_ok_def)
next
  case (refresh_timer t)
  obtain auths l where h: "handleDue env (rw_now w) (rw_auths w, rw_loop w) = (auths, l)"
    by force
  have D: "loop_ok env (rw_now w) (rw_auths w) (rw_loop w) (set (rl_dirty (rw_loop w)))"
    using assms(3) by (simp add: world_ok_def)
  have "loop_ok env (rw_now w) auths l (set (rl_dirty l))"
    using handleDue_ok(1,2) [OF assms(1) D h] by simp
  then show ?thesis
    using dirty_step [OF assms(1)] refresh_timer h by (simp add: loop_timer_def Let_def world_ok_def timer_ok_def)
next
  case (refresh_take authID jobs)
  then show ?thesis
    using assms(3) by (simp add: world_ok_def loop_ok_def timer_ok_def)
next
  case (refresh_finish resolved authID)
  show ?thesis
  proof (cases "authID = []")
    case True
    then show ?thesis
      using refresh_finish assms(3) by (simp add: rescheduleAfterRefresh_def)
  next
    case False
    have "loop_ok env (rw_now w) (rw_auths w) (rw_loop w) (set (rl_dirty (rw_loop w)))"
      using assms(3) by (simp add: world_ok_def)
    then show ?thesis
      using refresh_finish(1) False finish_ok [OF assms(1) _ refresh_finish(2)]
      by (simp add: world_ok_def timer_ok_def)
  qed
qed

lemma start_ok:
  assumes "env_ok env" "gomap_wf auths" "map_of auths [] = None" "0 < now"
  shows "world_ok env (StartAutoRefresh env now interval auths)"
proof -
  let ?l = "newAuthAutoRefreshLoop (if interval \<le> 0 then refreshCheckInterval else interval) refreshMaxConcurrency"
  have d: "rl_dirty (loop_rebuild env now auths l) = rl_dirty l" for l
  proof -
    have "rl_dirty (foldl (\<lambda>l (k, t). new_item k t 0 l) l0 es) = rl_dirty l0" for l0 :: auto_refresh_loop and es
      by (induction es arbitrary: l0) (auto simp: new_item_def Let_def)
    then show ?thesis
      by (simp add: loop_rebuild_def)
  qed
  have "rl_dirty ?l = []"
    by (simp add: newAuthAutoRefreshLoop_def Let_def)
  then show ?thesis
    using rebuild_ok [OF assms, of ?l] resetTimer_early [of "loop_rebuild env now auths ?l"]
    by (simp add: StartAutoRefresh_def Let_def world_ok_def timer_ok_def d loop_ok_def)
qed

lemma run_ok: "refresh_run env w \<Longrightarrow> env_ok env \<Longrightarrow> world_ok env w"
  by (induction rule: refresh_run.induct) (auto intro: start_ok step_ok)

lemma due_awake:
  assumes "world_ok env w" "gomap_get None (rw_auths w) k = Some a" "planned env k a"
    "refresh_due env k (Some a) (rw_now w)"
  shows "rl_wake (rw_loop w) \<or> (\<exists>t. rw_timer w = Some t \<and> t \<le> rw_now w)"
proof (cases "k \<in> set (rl_dirty (rw_loop w))")
  case True
  then show ?thesis
    using assms(1) by (cases "rl_dirty (rw_loop w)") (auto simp: world_ok_def)
next
  case False
  then have "timer_entry_ok env (rw_now w) False k (Some a) (loop_view (rw_loop w) k)"
    using assms(1,2) by (metis world_ok_def loop_ok_def)
  then obtain n r where "loop_view (rw_loop w) k = Some (n, r)" "n \<le> rw_now w"
    using assms(3,4) by (auto simp: timer_entry_ok_def wakes_for_def)
  then show ?thesis
    using assms(1) by (fastforce simp: world_ok_def timer_ok_def)
qed

subsection \<open>The properties\<close>

text \<open>
  A concrete setting: no text is a time, and no credential has a runtime.  The credential is an OAuth
  one of Claude, last refreshed at second 1000; its lead is four hours.
\<close>

definition plain_readers :: time_readers where
  "plain_readers = \<lparr>tr_Parse = (\<lambda>layout s. None), tr_ParseDuration = (\<lambda>s. None), tr_ParseFloat = (\<lambda>s. None),
     tr_Int64 = (\<lambda>f. 0), tr_Seconds = (\<lambda>f. 0)\<rparr>"

definition plain_env :: refresh_env where
  "plain_env = \<lparr>rv_readers = plain_readers, rv_runtime = (\<lambda>ident. None)\<rparr>"

definition claude_auth :: auth where
  "claude_auth = (plain_auth ''c'')\<lparr>au_Provider := ''claude'', au_Attributes := [(''auth_kind'', ''oauth'')],
     au_LastRefreshedAt := 1000 * second\<rparr>"

definition claude_due :: gotime where
  "claude_due = 1000 * second + 4 * hour"

lemma plain_env_ok: "env_ok plain_env"
  by (simp add: env_ok_def plain_env_def plain_readers_def readers_ok_def runtime_ok_def)

lemma claude_planned: "planned plain_env ''c'' claude_auth"
proof -
  have "AuthKind claude_auth \<noteq> ''apikey''"
    by code_simp
  then show ?thesis
    by (simp add: planned_def plain_env_def evaluator_of_def)
qed

lemma claude_refresh_due:
  "refresh_due plain_env ''c'' (Some claude_auth) claude_due"
  "\<not> refresh_due plain_env ''c'' (Some claude_auth) (claude_due - 1)"
  by code_simp+

text \<open>
  C9. The two decisions of the refresh agree.  For a credential the loop plans, the next check is
  now exactly when a refresh is due now, it is never in the past, and at no moment before it is a refresh
  due; a credential without a next check is never due.
\<close>

theorem refresh_check_exact:
  assumes "env_ok env" "planned env ident a"
  shows "(check_at env ident now (Some a) interval = Some now \<longleftrightarrow> refresh_due env ident (Some a) now)
    \<and> (\<forall>n. check_at env ident now (Some a) interval = Some n \<longrightarrow> now \<le> n
         \<and> (\<forall>t. now \<le> t \<and> t < n \<longrightarrow> \<not> refresh_due env ident (Some a) t))
    \<and> (check_at env ident now (Some a) interval = None \<longrightarrow>
         (\<forall>t\<ge>now. \<not> refresh_due env ident (Some a) t))"
proof -
  have h: "readers_ok (rv_readers env)" "evaluator_of (rv_runtime env ident) = None"
    "bounded_lead (rv_runtime env ident) a" "AuthKind a \<noteq> ''apikey''"
    using assms by (auto simp: env_ok_def planned_def)
  have before: "\<not> refresh_due env ident (Some a) t"
    if "now \<le> t" "\<forall>n. check_at env ident now (Some a) interval = Some n \<longrightarrow> t < n" for t
    using check_not_before [OF h that(1)] that(2) by (simp add: check_at_def refresh_due_def)
  show ?thesis
  proof (intro conjI allI impI)
    show "check_at env ident now (Some a) interval = Some now \<longleftrightarrow> refresh_due env ident (Some a) now"
      using check_now_iff [OF h] by (simp add: check_at_def refresh_due_def)
  qed (use before check_at_past in auto)
qed

theorem refresh_check_exact_witness:
  "check_at plain_env ''c'' (1000 * second) (Some claude_auth) 0 = Some claude_due
   \<and> \<not> refresh_due plain_env ''c'' (Some claude_auth) (claude_due - 1)"
proof -
  have "check_at plain_env ''c'' (1000 * second) (Some claude_auth) 0 = Some claude_due"
    by code_simp
  moreover have "1000 * second \<le> claude_due - 1" "claude_due - 1 < claude_due"
    by (simp_all add: claude_due_def duration_defs)
  ultimately show ?thesis
    using refresh_check_exact [OF plain_env_ok claude_planned, of "1000 * second" 0] by blast
qed

text \<open>
  C10. No credential sleeps past its refresh.  In every run of the loop (writes and deletions of
  credentials, wake signals, timers and workers in any order), whenever a planned credential of the manager is due
  for a refresh, the loop has a reason to run: its wake signal is set or its timer has fired.
\<close>

theorem refresh_never_sleeps:
  assumes "env_ok env" "refresh_run env w" "map_of (rw_auths w) ident = Some (Some a)" "planned env ident a"
    "refresh_due env ident (Some a) (rw_now w)"
  shows "rl_wake (rw_loop w) \<or> (\<exists>t. rw_timer w = Some t \<and> t \<le> rw_now w)"
  using due_awake [OF run_ok [OF assms(2,1)] _ assms(4,5)] assms(3) by (simp add: gomap_get_def)

definition claude_world :: refresh_world where
  "claude_world = StartAutoRefresh plain_env (1000 * second) 0 [(''c'', Some claude_auth)]"

lemma claude_run: "t \<ge> 1000 * second \<Longrightarrow> refresh_run plain_env (claude_world\<lparr>rw_now := t\<rparr>)"
  unfolding claude_world_def
  by (intro run_step [OF run_start refresh_clock]) (simp_all add: second_def StartAutoRefresh_def Let_def)

theorem refresh_never_sleeps_witness:
  "rw_timer (claude_world\<lparr>rw_now := claude_due\<rparr>) = Some claude_due
   \<and> (rl_wake (rw_loop claude_world) \<or> (\<exists>t. rw_timer claude_world = Some t \<and> t \<le> claude_due))"
proof -
  have "rw_timer claude_world = Some claude_due" "rw_auths claude_world = [(''c'', Some claude_auth)]"
    by code_simp+
  moreover have "refresh_run plain_env (claude_world\<lparr>rw_now := claude_due\<rparr>)"
    by (rule claude_run) (simp add: claude_due_def duration_defs)
  ultimately show ?thesis
    using refresh_never_sleeps [OF plain_env_ok, of "claude_world\<lparr>rw_now := claude_due\<rparr>" "''c''" claude_auth]
      claude_planned claude_refresh_due(1) by simp
qed

text \<open>
  C11. The timer does its work.  When the timer of a reachable loop has fired, its branch hands every
  planned credential that is due, and not waiting in the dirty set, to the workers; and unless there
  was something dirty the new timer lies in the future, so the loop does not spin.
\<close>

theorem refresh_timer_works:
  assumes "env_ok env" "refresh_run env w"
  shows "(\<forall>ident a. map_of (rw_auths w) ident = Some (Some a) \<and> planned env ident a
         \<and> ident \<notin> set (rl_dirty (rw_loop w)) \<and> refresh_due env ident (Some a) (rw_now w) \<longrightarrow>
       ident \<in> set (rl_jobs (rw_loop (loop_timer env w))))
    \<and> (rl_dirty (rw_loop w) = [] \<longrightarrow>
       (\<forall>t. rw_timer (loop_timer env w) = Some t \<longrightarrow> rw_now w < t))"
proof -
  note w = run_ok [OF assms(2,1)]
  then have ok: "loop_ok env (rw_now w) (rw_auths w) (rw_loop w) (set (rl_dirty (rw_loop w)))"
    by (simp add: world_ok_def)
  obtain auths l where h: "handleDue env (rw_now w) (rw_auths w, rw_loop w) = (auths, l)"
    by force
  note d = handleDue_ok [OF assms(1) ok h]
  have jobs: "rl_jobs (foldl (apply_dirty_auth env now auths) l ids) = rl_jobs l" for now ids l
    by (induction ids arbitrary: l)
      (auto simp: apply_dirty_auth_def upsertDirty_def loop_remove_def Let_def split: option.split)
  have "rw_now w < t" if s: "resetTimer (rw_now w) l = Some t" for t
  proof -
    obtain p where "loop_peek l = Some p"
      using s by (auto simp: resetTimer_def split: option.splits)
    moreover from this have "rw_now w < p"
      using timers.quiet_peek d(1,4) by (auto simp: loop_ok_def)
    ultimately show ?thesis
      using s by (auto simp: resetTimer_def time_sub_def i64_simps split: if_splits)
  qed
  moreover have "rw_timer (loop_timer env w) = resetTimer (rw_now w) (applyDirty env (rw_now w) auths l)"
    "rl_jobs (rw_loop (loop_timer env w)) = rl_jobs l"
    using h by (simp_all add: loop_timer_def Let_def applyDirty_def drainDirty_def jobs)
  moreover have "resetTimer (rw_now w) (applyDirty env (rw_now w) auths l) = resetTimer (rw_now w) l"
    if "rl_dirty (rw_loop w) = []"
    using that d(2) by (simp add: applyDirty_def drainDirty_def resetTimer_def)
  ultimately show ?thesis
    using d(6) by (simp add: gomap_get_def)
qed

theorem refresh_timer_works_witness:
  "''c'' \<in> set (rl_jobs (rw_loop (loop_timer plain_env (claude_world\<lparr>rw_now := claude_due\<rparr>))))"
proof -
  have "rw_auths claude_world = [(''c'', Some claude_auth)]" "rl_dirty (rw_loop claude_world) = []"
    by code_simp+
  moreover have "refresh_run plain_env (claude_world\<lparr>rw_now := claude_due\<rparr>)"
    by (rule claude_run) (simp add: claude_due_def duration_defs)
  ultimately show ?thesis
    using refresh_timer_works [OF plain_env_ok, of "claude_world\<lparr>rw_now := claude_due\<rparr>"]
      claude_planned claude_refresh_due(1) by simp
qed

text \<open>
  C12. The heap with its index refines a map from credentials to times.  On a loop in its invariant
  an upsert sets one entry and a removal drops one, \<^verbatim>\<open>popDue\<close> returns exactly the credentials whose time
  has come and keeps the others, and \<^verbatim>\<open>peek\<close> returns the earliest time; the invariant is kept.
\<close>

theorem refresh_queue_refines_map:
  assumes "loop_inv l" "k \<noteq> []"
  shows "loop_inv (upsertLocked k t r l) \<and> loop_view (upsertLocked k t r l) = (loop_view l)(k \<mapsto> (t, r))
    \<and> loop_inv (loop_remove k l) \<and> loop_view (loop_remove k l) = (loop_view l)(k := None)
    \<and> loop_inv (fst (popDue now l)) \<and> loop_view (fst (popDue now l)) = later_timers now (loop_view l)
    \<and> set (snd (popDue now l)) = due_timers now (loop_view l)
    \<and> (loop_peek l = None \<longleftrightarrow> loop_view l = Map.empty)
    \<and> (\<forall>n. loop_peek l = Some n \<longrightarrow> (\<exists>j s. loop_view l j = Some (n, s)) \<and> (\<forall>j m s. loop_view l j = Some (m, s) \<longrightarrow> n \<le> m))"
proof -
  have "loop_peek l = None \<longleftrightarrow> loop_view l = Map.empty"
    using timers.peek_None [OF assms(1)] timers.peek_here [OF assms(1)] by (cases "loop_peek l") fastforce+
  then show ?thesis
    using assms timers.put_inv timers.put_view timers.del_inv timers.del_view timers.pop_inv timers.pop_view
      timers.pop_due timers.peek_least timers.peek_here by auto
qed

theorem refresh_queue_refines_map_witness:
  "loop_view (upsertLocked ''d'' 7 0 (rw_loop claude_world)) = (loop_view (rw_loop claude_world))(''d'' \<mapsto> (7, 0))
   \<and> set (snd (popDue 7 (upsertLocked ''d'' 7 0 (rw_loop claude_world)))) = {''d''}"
proof -
  have "world_ok plain_env claude_world"
    unfolding claude_world_def by (rule start_ok [OF plain_env_ok]) (simp_all add: second_def)
  then have i: "loop_inv (rw_loop claude_world)"
    by (simp add: world_ok_def loop_ok_def)
  have "snd (popDue 7 (upsertLocked ''d'' 7 0 (rw_loop claude_world))) = [''d'']"
    by code_simp
  then show ?thesis
    using refresh_queue_refines_map [OF i, of "''d''" 7 0 7] by simp
qed

end
