(* ===== verification/Codex_Outcome.thy ===== *)
theory Codex_Outcome
  imports Auth_Model KV_Store
begin

declare map_of_eq_Some_iff [simp del]

section \<open>Errors of a token refresh and the fences of Codex grants\<close>

text \<open>
  \<^verbatim>\<open>internal/auth/oautherror\<close> and \<^verbatim>\<open>internal/auth/codex/refresh_outcome.go\<close>, with the classification of
  refresh responses of \<^verbatim>\<open>openai_auth.go\<close>.  A refresh grant of Codex rotates: once a request with it may
  have reached the provider it must never be sent again.  An exchange whose result is unknown leaves
  a fence in the metadata of the credential, tied to the fingerprint of the grant.

  A Go error is a node and the errors it wraps; \<^verbatim>\<open>errors.As\<close> and \<^verbatim>\<open>errors.Is\<close> walk the tree in
  pre-order.  The decoder of JSON and the hash are library functions and parameters: \<open>json\<close> gives the
  document of a text, \<open>sha\<close> the hexadecimal digest.
\<close>

subsection \<open>JSON documents and OAuth responses\<close>

datatype json = JNull | JBool bool | JNumber string | JString string | JArray "json list"
  | JObject "(string \<times> json) list"

text \<open>
  The value a struct field gets: keys match up to case and a later key overwrites an earlier one.  A
  document that is neither an object nor null does not decode into a struct.
\<close>

definition json_field :: "string \<Rightarrow> (string \<times> json) list \<Rightarrow> json option" where
  "json_field name entries = map_of (rev (map (\<lambda>(k, v). (to_lower k, v)) entries)) name"

definition json_struct :: "json \<Rightarrow> (string \<times> json) list option" where
  "json_struct doc = (case doc of JObject entries \<Rightarrow> Some entries | JNull \<Rightarrow> Some [] | _ \<Rightarrow> None)"

fun diagnosticString :: "json option \<Rightarrow> string" where
  "diagnosticString (Some (JString s)) = s"
| "diagnosticString (Some (JNumber n)) = n"
| "diagnosticString _ = []"

fun firstDiagnosticString :: "json option list \<Rightarrow> string" where
  "firstDiagnosticString [] = []"
| "firstDiagnosticString (value # values) =
     (if diagnosticString value \<noteq> [] then diagnosticString value else firstDiagnosticString values)"

record oauth_response =
  rs_statusCode :: int
  rs_body :: string
  rs_oauthError :: string
  rs_code :: string
  rs_errorDescription :: string
  rs_message :: string
  rs_detail :: string
  rs_requestID :: string

definition keep_text :: "string \<Rightarrow> string \<Rightarrow> string" where
  "keep_text s t = (if s = [] then t else s)"

definition NewResponseError :: "(string \<Rightarrow> json option) \<Rightarrow> int \<Rightarrow> string \<Rightarrow> oauth_response" where
  "NewResponseError json statusCode body =
     (let empty = \<lparr>rs_statusCode = statusCode, rs_body = body, rs_oauthError = [], rs_code = [],
            rs_errorDescription = [], rs_message = [], rs_detail = [], rs_requestID = []\<rparr>
      in case Option.bind (json body) json_struct of
           None \<Rightarrow> empty
         | Some payload \<Rightarrow>
             let field = (\<lambda>name. diagnosticString (json_field name payload));
                 result = empty\<lparr>rs_oauthError := field ''error'', rs_code := field ''code'',
                   rs_errorDescription := field ''error_description'', rs_message := field ''message'',
                   rs_detail := field ''detail'', rs_requestID := field ''request_id''\<rparr>
             in if rs_oauthError result \<noteq> [] then result
                else case Option.bind (json_field ''error'' payload) json_struct of
                    None \<Rightarrow> result
                  | Some nested \<Rightarrow>
                      let field = (\<lambda>name. diagnosticString (json_field name nested))
                      in result\<lparr>rs_oauthError := firstDiagnosticString [json_field ''error'' nested, json_field ''type'' nested],
                           rs_code := keep_text (rs_code result) (field ''code''),
                           rs_errorDescription := keep_text (rs_errorDescription result) (field ''error_description''),
                           rs_message := keep_text (rs_message result) (field ''message''),
                           rs_detail := keep_text (rs_detail result) (field ''detail''),
                           rs_requestID := keep_text (rs_requestID result) (field ''request_id'')\<rparr>)"

subsection \<open>Go errors\<close>

datatype err_node =
    NAuth auth_error \<comment> \<open>\<^verbatim>\<open>*auth.Error\<close>\<close>
  | NProvider string \<comment> \<open>\<^verbatim>\<open>*providerRefreshError\<close> with its diagnostic\<close>
  | NOutcome string string \<comment> \<open>\<^verbatim>\<open>*RefreshOutcomeUnknownError\<close>: grant and stage\<close>
  | NCodexResponse int string \<comment> \<open>\<^verbatim>\<open>*codexRefreshResponseError\<close>: status and terminal code\<close>
  | NResponse oauth_response \<comment> \<open>\<^verbatim>\<open>*oautherror.ResponseError\<close>\<close>
  | NOpError string string \<comment> \<open>\<^verbatim>\<open>*net.OpError\<close>: operation and text\<close>
  | NDNSError string
  | NCanceled | NDeadlineExceeded
  | NText string \<comment> \<open>any other error, with its text\<close>

datatype goerr = GoErr err_node "goerr list"

fun errors_As :: "(err_node \<Rightarrow> 'a option) \<Rightarrow> goerr \<Rightarrow> 'a option"
  and errors_As_list :: "(err_node \<Rightarrow> 'a option) \<Rightarrow> goerr list \<Rightarrow> 'a option" where
  "errors_As P (GoErr node causes) =
     (case P node of Some x \<Rightarrow> Some x | None \<Rightarrow> errors_As_list P causes)"
| "errors_As_list P [] = None"
| "errors_As_list P (e # es) = (case errors_As P e of Some x \<Rightarrow> Some x | None \<Rightarrow> errors_As_list P es)"

definition errors_Is :: "err_node \<Rightarrow> goerr \<Rightarrow> bool" where
  "errors_Is target err = (errors_As (\<lambda>node. if node = target then Some () else None) err \<noteq> None)"

fun as_response :: "err_node \<Rightarrow> oauth_response option" where
  "as_response (NResponse r) = Some r"
| "as_response _ = None"

fun as_auth :: "err_node \<Rightarrow> auth_error option" where
  "as_auth (NAuth e) = Some e"
| "as_auth _ = None"

fun as_outcome :: "err_node \<Rightarrow> (string \<times> string) option" where
  "as_outcome (NOutcome g s) = Some (g, s)"
| "as_outcome _ = None"

fun as_codex_response :: "err_node \<Rightarrow> (int \<times> string) option" where
  "as_codex_response (NCodexResponse status code) = Some (status, code)"
| "as_codex_response _ = None"

fun as_provider :: "err_node \<Rightarrow> string option" where
  "as_provider (NProvider d) = Some d"
| "as_provider _ = None"

text \<open>\<^verbatim>\<open>Error()\<close> of each type.\<close>

fun err_text :: "goerr \<Rightarrow> string" where
  "err_text (GoErr node causes) =
     (case node of
        NAuth e \<Rightarrow> error_text (Some e)
      | NProvider d \<Rightarrow>
          (case errors_As_list as_response causes of Some r \<Rightarrow> rs_body r | None \<Rightarrow> d)
      | NOutcome g s \<Rightarrow>
          ''codex token refresh outcome unknown at '' @ s @ ''; replace the refresh credentials before retrying''
      | NCodexResponse status code \<Rightarrow>
          (case errors_As_list as_response causes of
             Some r \<Rightarrow> rs_body r
           | None \<Rightarrow> ''token refresh failed with status '' @ format_int64 status)
      | NResponse r \<Rightarrow> rs_body r
      | NOpError ope text \<Rightarrow> text
      | NDNSError text \<Rightarrow> text
      | NCanceled \<Rightarrow> ''context canceled''
      | NDeadlineExceeded \<Rightarrow> ''context deadline exceeded''
      | NText text \<Rightarrow> text)"

subsection \<open>Classification of refresh failures\<close>

fun go_fields :: "string \<Rightarrow> string \<Rightarrow> string list" where
  "go_fields [] word = (if word = [] then [] else [word])"
| "go_fields (c # s) word =
     (if go_space c then (if word = [] then go_fields s [] else word # go_fields s [])
      else go_fields s (word @ [c]))"

fun join_words :: "string list \<Rightarrow> string" where
  "join_words [] = []"
| "join_words [w] = w"
| "join_words (w # ws) = w @ '' '' @ join_words ws"

definition normalized_words :: "string \<Rightarrow> string" where
  "normalized_words description =
     join_words (go_fields
       (map (\<lambda>c. if c = CHR ''_'' \<or> c = CHR ''-'' then CHR '' '' else c) (to_lower (trim_space description))) [])"

definition terminal_codes :: "string list" where
  "terminal_codes = [''invalid_grant'', ''refresh_token_expired'', ''refresh_token_revoked'', ''refresh_token_reused'']"

definition codexTerminalRefreshCode :: "string \<Rightarrow> string \<Rightarrow> string" where
  "codexTerminalRefreshCode code description =
     (if List.member terminal_codes (to_lower (trim_space code)) then to_lower (trim_space code)
      else
        let normalized = normalized_words description
        in if \<not> contains normalized ''refresh token''
              \<and> \<not> contains normalized ''token has been expired or revoked'' then []
           else if contains normalized ''reused'' then ''refresh_token_reused''
           else if contains normalized ''revoked'' then ''refresh_token_revoked''
           else if contains normalized ''expired'' then ''refresh_token_expired''
           else [])"

definition response_description :: "oauth_response \<Rightarrow> string" where
  "response_description r = join_words [rs_errorDescription r, rs_message r, rs_detail r]"

definition newCodexRefreshResponseError :: "(string \<Rightarrow> json option) \<Rightarrow> int \<Rightarrow> string \<Rightarrow> goerr" where
  "newCodexRefreshResponseError json statusCode body =
     (let upstream = NewResponseError json statusCode body;
          code0 = to_lower (trim_space (rs_oauthError upstream));
          code = (if code0 = [] then to_lower (trim_space (rs_code upstream)) else code0)
      in GoErr (NCodexResponse statusCode (codexTerminalRefreshCode code (response_description upstream)))
           [GoErr (NResponse upstream) []])"

definition IsRefreshOutcomeUnknown :: "goerr \<Rightarrow> bool" where
  "IsRefreshOutcomeUnknown err \<longleftrightarrow> errors_As as_outcome err \<noteq> None"

definition isNonRetryableRefreshErr :: "goerr option \<Rightarrow> bool" where
  "isNonRetryableRefreshErr err =
     (case err of
        None \<Rightarrow> False
      | Some e \<Rightarrow>
          if IsRefreshOutcomeUnknown e then True
          else case errors_As as_codex_response e of
              Some (status, terminalCode) \<Rightarrow> terminalCode \<noteq> []
            | None \<Rightarrow> list_ex (contains (to_lower (err_text e))) terminal_codes)"

text \<open>An error before anything was sent: a dial that failed, or a name that did not resolve.\<close>

fun not_sent_node :: "err_node \<Rightarrow> unit option" where
  "not_sent_node (NDNSError t) = Some ()"
| "not_sent_node _ = None"

fun as_op_error :: "err_node \<Rightarrow> string option" where
  "as_op_error (NOpError ope t) = Some ope"
| "as_op_error _ = None"

definition refreshRequestNotSent :: "goerr \<Rightarrow> bool" where
  "refreshRequestNotSent err \<longleftrightarrow>
     errors_As as_op_error err = Some ''dial'' \<or> errors_As not_sent_node err \<noteq> None"

subsection \<open>Outcomes and fences\<close>

definition codexClientID :: string where
  "codexClientID = ''app_EMoamEEZ73f0CkXaXp7hrann''"

definition outcome_stages :: "string list" where
  "outcome_stages = [''transport'', ''response_read'', ''response_status'', ''response_decode'', ''response_validate'',
     ''pending'', ''claim'', ''claim_release'', ''receipt_read'', ''receipt_write'', ''receipt_encode'',
     ''receipt_decode'', ''receipt_expired'', ''receipt_cycle'', ''receipt_chain_limit'']"

definition refreshGrantFingerprint :: "(string \<Rightarrow> string) \<Rightarrow> string \<Rightarrow> string \<Rightarrow> string" where
  "refreshGrantFingerprint sha clientID refreshToken =
     sha (trim_space clientID @ [char_of (0 :: nat)] @ trim_space refreshToken)"

definition known_stage :: "string \<Rightarrow> string" where
  "known_stage stage = (if List.member outcome_stages stage then stage else ''transport'')"

definition NewRefreshOutcomeUnknownError ::
    "(string \<Rightarrow> string) \<Rightarrow> string \<Rightarrow> string \<Rightarrow> string \<Rightarrow> goerr option \<Rightarrow> goerr" where
  "NewRefreshOutcomeUnknownError sha clientID refreshToken stage cause =
     GoErr (NOutcome (refreshGrantFingerprint sha clientID refreshToken) (known_stage stage))
       (case cause of None \<Rightarrow> [] | Some e \<Rightarrow> [e])"

definition isJournalObservationStage :: "string \<Rightarrow> bool" where
  "isJournalObservationStage stage = List.member [''claim'', ''claim_release'', ''pending'', ''receipt_read''] stage"

text \<open>The cache of unresolved grants: the stage of each.\<close>

type_synonym outcome_cache = "(string, string) gomap"

definition unresolvedRefreshOutcome :: "(string \<Rightarrow> string) \<Rightarrow> outcome_cache \<Rightarrow> string \<Rightarrow> string \<Rightarrow> goerr option" where
  "unresolvedRefreshOutcome sha cache clientID refreshToken =
     (let grant = refreshGrantFingerprint sha clientID refreshToken
      in map_option (\<lambda>stage. GoErr (NOutcome grant stage) []) (map_of cache grant))"

definition rememberRefreshOutcome :: "goerr option \<Rightarrow> outcome_cache \<Rightarrow> outcome_cache" where
  "rememberRefreshOutcome err cache =
     (case Option.bind err (errors_As as_outcome) of
        None \<Rightarrow> cache
      | Some (grant, stage) \<Rightarrow> AList.update grant stage cache)"

type_synonym metadata = "(string, goval) gomap"

definition RefreshOutcomeMetadataKey :: string where
  "RefreshOutcomeMetadataKey = ''codex_refresh_outcomes''"

text \<open>The type assertions of Go: the zero value where the value has another type.\<close>

definition as_map :: "goval option \<Rightarrow> metadata" where
  "as_map v = (case v of Some (VMap m) \<Rightarrow> m | _ \<Rightarrow> [])"

definition as_text :: "goval option \<Rightarrow> string" where
  "as_text v = (case v of Some (VString s) \<Rightarrow> s | _ \<Rightarrow> [])"

definition refreshPartition :: "metadata \<Rightarrow> bool \<Rightarrow> string \<times> string \<times> string" where
  "refreshPartition metadata0 siwc =
     (let partition = (if siwc then ''siwc'' else ''outer'');
          metadata = (if siwc then as_map (map_of metadata0 ''siwc'') else metadata0);
          clientID = (if siwc then as_text (map_of metadata ''client_id'') else codexClientID);
          token = as_text (map_of metadata ''refresh_token'')
      in if trim_space token = [] \<or> trim_space clientID = [] then (partition, [], [])
         else (partition, clientID, token))"

text \<open>The outcome returned, beside the cache it is remembered in.\<close>

definition RefreshOutcomeUnknown ::
    "(string \<Rightarrow> string) \<Rightarrow> metadata \<Rightarrow> bool \<Rightarrow> outcome_cache \<Rightarrow> goerr option \<times> outcome_cache" where
  "RefreshOutcomeUnknown sha metadata siwc cache =
     (let (partition, clientID, token) = refreshPartition metadata siwc
      in if token = [] then (None, cache)
         else
           let outcomes = as_map (map_of metadata RefreshOutcomeMetadataKey);
               state = as_map (map_of outcomes partition);
               grant = as_text (map_of state ''grant_sha256'');
               stage = as_text (map_of state ''stage'')
           in if grant \<noteq> refreshGrantFingerprint sha clientID token then (None, cache)
              else let outcome = NewRefreshOutcomeUnknownError sha clientID token stage None
                   in (Some outcome, rememberRefreshOutcome (Some outcome) cache))"

definition outcomeForGrant :: "goerr option \<Rightarrow> string \<Rightarrow> (string \<times> string) option" where
  "outcomeForGrant err grant =
     Option.bind err (errors_As (\<lambda>node. case as_outcome node of
        Some (g, s) \<Rightarrow> if g = grant then Some (g, s) else None
      | None \<Rightarrow> None))"

definition outcome_state :: "string \<Rightarrow> string \<Rightarrow> goval" where
  "outcome_state grant stage = VMap [(''grant_sha256'', VString grant), (''stage'', VString stage)]"

text \<open>One partition of the loop in \<open>RecordRefreshOutcomeUnknown\<close>: the outcomes and whether one matched.\<close>

definition record_partition ::
    "(string \<Rightarrow> string) \<Rightarrow> metadata \<Rightarrow> goerr \<Rightarrow> metadata \<Rightarrow> metadata \<times> bool \<Rightarrow> bool \<Rightarrow> metadata \<times> bool" where
  "record_partition sha metadata err previous acc siwc =
     (let (outcomes, matched) = acc;
          (partition, clientID, token) = refreshPartition metadata siwc
      in if token = [] then acc
         else case outcomeForGrant (Some err) (refreshGrantFingerprint sha clientID token) of
             None \<Rightarrow> acc
           | Some (grant, stage) \<Rightarrow>
               let previousState = as_map (map_of previous partition);
                   previousGrant = as_text (map_of previousState ''grant_sha256'');
                   previousStage = as_text (map_of previousState ''stage'')
               in (if previousGrant \<noteq> grant \<or> \<not> isJournalObservationStage stage
                      \<or> isJournalObservationStage previousStage
                   then AList.update partition (outcome_state grant stage) outcomes else outcomes, True))"

definition RecordRefreshOutcomeUnknown ::
    "(string \<Rightarrow> string) \<Rightarrow> metadata \<Rightarrow> goerr option \<Rightarrow> metadata \<times> bool" where
  "RecordRefreshOutcomeUnknown sha metadata err =
     (case err of
        None \<Rightarrow> (metadata, False)
      | Some e \<Rightarrow>
          let previous = as_map (map_of metadata RefreshOutcomeMetadataKey);
              (outcomes, matched) = foldl (record_partition sha metadata e previous) (previous, False) [False, True]
          in if matched then (AList.update RefreshOutcomeMetadataKey (VMap outcomes) metadata, True)
             else (metadata, False))"

definition MergeRefreshOutcomes ::
    "(string \<Rightarrow> string) \<Rightarrow> metadata \<Rightarrow> metadata \<Rightarrow> outcome_cache \<Rightarrow> metadata \<times> outcome_cache" where
  "MergeRefreshOutcomes sha metadata source cache =
     foldl (\<lambda>(metadata, cache) siwc.
        let (outcome, cache') = RefreshOutcomeUnknown sha source siwc cache
        in (fst (RecordRefreshOutcomeUnknown sha metadata outcome), cache'))
       (metadata, cache) [False, True]"

end
