(* ===== verification/Codex_Journal.thy ===== *)
theory Codex_Journal
  imports Codex_Outcome Token_Times
begin

declare map_of_eq_Some_iff [simp del]

section \<open>The refresh journal of Codex grants\<close>

text \<open>
  \<^verbatim>\<open>internal/auth/codex/refresh_journal.go\<close> over the table of \<^verbatim>\<open>internal/cluster/codex_refresh_journal.go\<close>,
  and the exchange of \<^verbatim>\<open>openai_auth.go\<close>.  A caller claims the fingerprint of a grant before it sends
  the grant, and leaves a receipt: the new tokens, the rejection, or the stage at which the result
  became unknown.  Only a claim whose request was certainly not sent is released; every other claim
  stays, and later callers read its receipt instead of sending the grant again.

  A database call may fail before or after its transaction took effect, and the reply of the
  provider is a parameter.  Encoding a receipt never fails, as it holds only strings and numbers;
  what a row holds is a receipt or an undecodable text.
\<close>

record codex_env =
  cx_sha :: "string \<Rightarrow> string"
  cx_json :: "string \<Rightarrow> json option"
  cx_claims :: "string \<Rightarrow> (string \<times> string) option" \<comment> \<open>\<^verbatim>\<open>ParseJWTToken\<close>: account and email\<close>
  cx_ParseTime :: "string \<Rightarrow> gotime option" \<comment> \<open>\<^verbatim>\<open>time.Parse(time.RFC3339, s)\<close>\<close>
  cx_FormatTime :: "gotime \<Rightarrow> string" \<comment> \<open>\<^verbatim>\<open>t.Format(time.RFC3339)\<close>\<close>

record token_data =
  td_IDToken :: string
  td_AccessToken :: string
  td_RefreshToken :: string
  td_AccountID :: string
  td_Email :: string
  td_Expire :: string

type_synonym token_result = "goerr + token_data"

abbreviation codex_grant :: "codex_env \<Rightarrow> string \<Rightarrow> string" where
  "codex_grant env token \<equiv> refreshGrantFingerprint (cx_sha env) codexClientID token"

definition journalOutcome :: "codex_env \<Rightarrow> string \<Rightarrow> string \<Rightarrow> goerr option \<Rightarrow> goerr" where
  "journalOutcome env token stage cause =
     NewRefreshOutcomeUnknownError (cx_sha env) codexClientID token stage cause"

subsection \<open>The exchange\<close>

datatype exchange =
    SendError goerr
  | ReadError goerr
  | Response int string

definition json_values :: "string \<Rightarrow> (string \<times> json) list \<Rightarrow> json list" where
  "json_values name entries = map snd (filter (\<lambda>(k, v). to_lower k = name) entries)"

text \<open>Decoding into a string or an integer field: null leaves it, another type is an error.\<close>

definition string_field :: "string \<Rightarrow> (string \<times> json) list \<Rightarrow> string option" where
  "string_field name entries =
     foldl (\<lambda>acc v. case acc of None \<Rightarrow> None
         | Some s \<Rightarrow> (case v of JString t \<Rightarrow> Some t | JNull \<Rightarrow> Some s | _ \<Rightarrow> None))
       (Some []) (json_values name entries)"

definition int_field :: "string \<Rightarrow> (string \<times> json) list \<Rightarrow> int option" where
  "int_field name entries =
     foldl (\<lambda>acc v. case acc of None \<Rightarrow> None
         | Some n \<Rightarrow> (case v of JNumber t \<Rightarrow> parse_int64 t | JNull \<Rightarrow> Some n | _ \<Rightarrow> None))
       (Some 0) (json_values name entries)"

text \<open>Access token, refresh token, ID token and lifetime of a token response.\<close>

definition decode_token_response :: "codex_env \<Rightarrow> string \<Rightarrow> (string \<times> string \<times> string \<times> int) option" where
  "decode_token_response env body =
     (case Option.bind (cx_json env body) json_struct of
        None \<Rightarrow> None
      | Some entries \<Rightarrow>
          (case (string_field ''access_token'' entries, string_field ''refresh_token'' entries,
                 string_field ''id_token'' entries, string_field ''token_type'' entries, int_field ''expires_in'' entries) of
             (Some access, Some refresh, Some ident, Some ty, Some expires) \<Rightarrow> Some (access, refresh, ident, expires)
           | _ \<Rightarrow> None))"

definition new_tokens :: "codex_env \<Rightarrow> gotime \<Rightarrow> string \<times> string \<times> string \<times> int \<Rightarrow> token_data" where
  "new_tokens env now reply =
     (let (access, refresh, ident, expires) = reply;
          (account, email) = (case cx_claims env ident of Some c \<Rightarrow> c | None \<Rightarrow> ([], []))
      in \<lparr>td_IDToken = ident, td_AccessToken = access, td_RefreshToken = refresh, td_AccountID = account,
          td_Email = email, td_Expire = cx_FormatTime env (now + wrap64 (expires * second))\<rparr>)"

definition refreshTokens ::
    "codex_env \<Rightarrow> gotime \<Rightarrow> goerr option \<Rightarrow> exchange \<Rightarrow> string \<Rightarrow> token_result" where
  "refreshTokens env now ctxErr exch token =
     (case ctxErr of
        Some e \<Rightarrow> Inl e
      | None \<Rightarrow>
          (case exch of
             SendError e \<Rightarrow>
               if refreshRequestNotSent e
               then Inl (GoErr (NText (''token refresh request failed before submission: '' @ err_text e)) [e])
               else Inl (journalOutcome env token ''transport'' (Some e))
           | ReadError e \<Rightarrow> Inl (journalOutcome env token ''response_read'' (Some e))
           | Response status body \<Rightarrow>
               if status \<noteq> 200
               then let errResponse = newCodexRefreshResponseError (cx_json env) status body
                    in if isNonRetryableRefreshErr (Some errResponse) then Inl errResponse
                       else Inl (journalOutcome env token ''response_status''
                         (Some (GoErr (NText (''token refresh response status '' @ format_int64 status)) [])))
               else (case decode_token_response env body of
                   None \<Rightarrow> Inl (journalOutcome env token ''response_decode'' (Some (GoErr (NText ''json'') [])))
                 | Some reply \<Rightarrow>
                     if trim_space (fst reply) = [] \<or> snd (snd (snd reply)) \<le> 0
                     then Inl (journalOutcome env token ''response_validate'' None)
                     else Inr (new_tokens env now reply))))"

text \<open>Whether the grant may have reached the provider: anything but a context that had ended and a failed dial.\<close>

definition exchange_submits :: "goerr option \<Rightarrow> exchange \<Rightarrow> bool" where
  "exchange_submits ctxErr exch \<longleftrightarrow>
     ctxErr = None \<and> (case exch of SendError e \<Rightarrow> \<not> refreshRequestNotSent e | _ \<Rightarrow> True)"

subsection \<open>The table\<close>

record refresh_receipt =
  rc_Stage :: string
  rc_Rejected :: string
  rc_Status :: int
  rc_Tokens :: "token_data option"

datatype stored_receipt = StoredReceipt refresh_receipt | Undecodable string

record journal_row =
  jr_owner :: string
  jr_receipt :: stored_receipt

type_synonym journal = "(string, journal_row) gomap"

datatype db_fault = NoFault | FailsBefore goerr | FailsAfter goerr

definition no_receipt :: refresh_receipt where
  "no_receipt = \<lparr>rc_Stage = [], rc_Rejected = [], rc_Status = 0, rc_Tokens = None\<rparr>"

definition pending_row :: "string \<Rightarrow> journal_row" where
  "pending_row owner = \<lparr>jr_owner = owner, jr_receipt = StoredReceipt (no_receipt\<lparr>rc_Stage := ''pending''\<rparr>)\<rparr>"

definition wrapped :: "string \<Rightarrow> goerr \<Rightarrow> goerr" where
  "wrapped prefix e = GoErr (NText (prefix @ err_text e)) [e]"

definition plain_error :: "string \<Rightarrow> goerr" where
  "plain_error text = GoErr (NText text) []"

text \<open>An insert that does nothing on a conflict; \<open>fresh\<close> is the new UUID.\<close>

definition RefreshClaim :: "db_fault \<Rightarrow> string \<Rightarrow> string \<Rightarrow> journal \<Rightarrow> journal \<times> (goerr + string)" where
  "RefreshClaim fault fresh key j =
     (let (j', owner) = (if map_of j key = None then (AList.update key (pending_row fresh) j, fresh) else (j, []))
      in case fault of
           NoFault \<Rightarrow> (j', Inr owner)
         | FailsBefore e \<Rightarrow> (j, Inl (wrapped ''claim Codex refresh: '' e))
         | FailsAfter e \<Rightarrow> (j', Inl (wrapped ''claim Codex refresh: '' e)))"

definition RefreshRead :: "goerr option \<Rightarrow> string \<Rightarrow> journal \<Rightarrow> goerr + stored_receipt option" where
  "RefreshRead fault key j =
     (case fault of
        Some e \<Rightarrow> Inl (wrapped ''read Codex refresh receipt: '' e)
      | None \<Rightarrow> Inr (map_option jr_receipt (map_of j key)))"

definition owned_row :: "journal \<Rightarrow> string \<Rightarrow> string \<Rightarrow> bool" where
  "owned_row j key owner \<longleftrightarrow> (case map_of j key of Some row \<Rightarrow> jr_owner row = owner | None \<Rightarrow> False)"

definition not_owned :: goerr where
  "not_owned = plain_error ''Codex refresh claim is no longer owned''"

definition RefreshComplete ::
    "db_fault \<Rightarrow> string \<Rightarrow> string \<Rightarrow> refresh_receipt \<Rightarrow> journal \<Rightarrow> journal \<times> goerr option" where
  "RefreshComplete fault key owner receipt j =
     (if owner = [] then (j, Some (plain_error ''Codex refresh claim owner is required''))
      else
        let j' = (if owned_row j key owner
                  then AList.update key \<lparr>jr_owner = [], jr_receipt = StoredReceipt receipt\<rparr> j else j)
        in case fault of
             NoFault \<Rightarrow> (j', if owned_row j key owner then None else Some not_owned)
           | FailsBefore e \<Rightarrow> (j, Some (wrapped ''save Codex refresh receipt: '' e))
           | FailsAfter e \<Rightarrow> (j', Some (wrapped ''save Codex refresh receipt: '' e)))"

definition RefreshRelease :: "db_fault \<Rightarrow> string \<Rightarrow> string \<Rightarrow> journal \<Rightarrow> journal \<times> goerr option" where
  "RefreshRelease fault key owner j =
     (if owner = [] then (j, Some (plain_error ''Codex refresh claim owner is required''))
      else
        let j' = (if owned_row j key owner then AList.delete key j else j)
        in case fault of
             NoFault \<Rightarrow> (j', if owned_row j key owner then None else Some not_owned)
           | FailsBefore e \<Rightarrow> (j, Some (wrapped ''release unsubmitted Codex refresh: '' e))
           | FailsAfter e \<Rightarrow> (j', Some (wrapped ''release unsubmitted Codex refresh: '' e)))"

subsection \<open>Reading receipts\<close>

definition usableRefreshReceipt :: "codex_env \<Rightarrow> gotime \<Rightarrow> string \<Rightarrow> token_data \<Rightarrow> token_result" where
  "usableRefreshReceipt env now token tokens =
     (case cx_ParseTime env (td_Expire tokens) of
        None \<Rightarrow> Inl (journalOutcome env token ''receipt_expired'' (Some (plain_error ''time'')))
      | Some expiry \<Rightarrow>
          if \<not> expiry > now then Inl (journalOutcome env token ''receipt_expired'' None) else Inr tokens)"

definition rejected_error :: "codex_env \<Rightarrow> refresh_receipt \<Rightarrow> goerr" where
  "rejected_error env receipt =
     (let status = (if rc_Status receipt = 0 then 401 else rc_Status receipt);
          body = ''{\"error\":\"'' @ rc_Rejected receipt @ ''\"}''
      in newCodexRefreshResponseError (cx_json env) status body)"

text \<open>
  The loop follows the rotations: the receipt of a grant names the next grant.  It ends at the first
  grant without a row, at a receipt that keeps its grant, or after 1024 different grants.
\<close>

function readLoop ::
    "codex_env \<Rightarrow> gotime \<Rightarrow> (nat \<Rightarrow> goerr option) \<Rightarrow> journal \<Rightarrow> string \<Rightarrow> string list \<Rightarrow> string \<Rightarrow> string
     \<Rightarrow> token_data option \<Rightarrow> token_result" where
  "readLoop env now reads j token seen key grant tokens =
     (if \<not> length seen < 1024 then Inl (journalOutcome env token ''receipt_chain_limit'' None)
      else if List.member seen key then Inl (journalOutcome env token ''receipt_cycle'' None)
      else case RefreshRead (reads (length seen)) key j of
          Inl e \<Rightarrow> Inl (journalOutcome env token ''receipt_read'' (Some e))
        | Inr stored \<Rightarrow>
            if stored = None \<and> tokens \<noteq> None then usableRefreshReceipt env now token (the tokens)
            else case stored of
                Some (StoredReceipt receipt) \<Rightarrow>
                  if rc_Stage receipt \<noteq> [] then Inl (journalOutcome env token (rc_Stage receipt) None)
                  else if rc_Rejected receipt \<noteq> [] then Inl (rejected_error env receipt)
                  else (case rc_Tokens receipt of
                      None \<Rightarrow> Inl (journalOutcome env token ''receipt_decode'' (Some (plain_error ''invalid refresh receipt'')))
                    | Some v \<Rightarrow>
                        if trim_space (td_AccessToken v) = []
                        then Inl (journalOutcome env token ''receipt_decode'' (Some (plain_error ''invalid refresh receipt'')))
                        else
                          let v = (if td_RefreshToken v = [] then v\<lparr>td_RefreshToken := grant\<rparr> else v);
                              nextKey = codex_grant env (td_RefreshToken v)
                          in if trim_space (td_RefreshToken v) = [] \<or> nextKey = key
                             then usableRefreshReceipt env now token v
                             else readLoop env now reads j token (key # seen) nextKey (td_RefreshToken v) (Some v))
              | _ \<Rightarrow> Inl (journalOutcome env token ''receipt_decode'' (Some (plain_error ''json''))))"
  by pat_completeness auto

termination
  by (relation "measure (\<lambda>(env, now, reads, j, token, seen, key, grant, tokens). 1024 - length seen)") auto

declare readLoop.simps [simp del]

definition readRefreshReceipt ::
    "codex_env \<Rightarrow> gotime \<Rightarrow> (nat \<Rightarrow> goerr option) \<Rightarrow> journal \<Rightarrow> string \<Rightarrow> string \<Rightarrow> token_result" where
  "readRefreshReceipt env now reads j key token = readLoop env now reads j token [] key token None"

subsection \<open>A journaled refresh\<close>

text \<open>The failures after which the claim may be released: the request was not sent.\<close>

definition releases :: "goerr \<Rightarrow> bool" where
  "releases errRun \<longleftrightarrow> \<not> IsRefreshOutcomeUnknown errRun
     \<and> (refreshRequestNotSent errRun \<or> errors_Is NCanceled errRun \<or> errors_Is NDeadlineExceeded errRun)"

definition receipt_of :: "string \<Rightarrow> token_result \<Rightarrow> refresh_receipt" where
  "receipt_of token result =
     (case result of
        Inr v \<Rightarrow> no_receipt\<lparr>rc_Tokens := Some (if td_RefreshToken v = [] then v\<lparr>td_RefreshToken := token\<rparr> else v)\<rparr>
      | Inl e \<Rightarrow>
          (case errors_As as_outcome e of
             Some (grant, stage) \<Rightarrow> no_receipt\<lparr>rc_Stage := stage\<rparr>
           | None \<Rightarrow>
               (case errors_As as_codex_response e of
                  Some (status, code) \<Rightarrow>
                    if code \<noteq> [] then no_receipt\<lparr>rc_Rejected := code, rc_Status := status\<rparr>
                    else no_receipt\<lparr>rc_Stage := ''response_validate''\<rparr>
                | None \<Rightarrow> no_receipt\<lparr>rc_Stage := ''response_validate''\<rparr>)))"

text \<open>The part of \<^verbatim>\<open>journalRefresh\<close> after the exchange: the release of the claim, or its receipt.\<close>

definition journal_finish ::
    "codex_env \<Rightarrow> db_fault \<Rightarrow> string \<Rightarrow> string \<Rightarrow> token_result \<Rightarrow> journal \<Rightarrow> journal \<times> token_result" where
  "journal_finish env fault token owner result j =
     (let key = codex_grant env token
      in if (case result of Inl e \<Rightarrow> releases e | Inr v \<Rightarrow> False)
         then (case RefreshRelease fault key owner j of
             (j', Some e) \<Rightarrow> (j', Inl (journalOutcome env token ''claim_release'' (Some e)))
           | (j', None) \<Rightarrow> (j', result))
         else (case RefreshComplete fault key owner (receipt_of token result) j of
             (j', Some e) \<Rightarrow> (j', Inl (journalOutcome env token ''receipt_write'' (Some e)))
           | (j', None) \<Rightarrow> (j', result)))"

text \<open>One attempt: the clock, the context, the reply, the database faults and the UUID of a claim.\<close>

record refresh_attempt =
  at_now :: gotime
  at_ctxErr :: "goerr option" \<comment> \<open>\<^verbatim>\<open>ctx.Err()\<close> on entry\<close>
  at_runErr :: "goerr option" \<comment> \<open>and before the request\<close>
  at_exchange :: exchange
  at_claim :: db_fault
  at_owner :: string
  at_reads :: "nat \<Rightarrow> goerr option"
  at_finish :: db_fault

text \<open>
  The request changes the world outside the journal: \<open>sent\<close> holds the fingerprint of every grant that may
  have reached the provider, once for each time.
\<close>

definition submitGrant ::
    "codex_env \<Rightarrow> gotime \<Rightarrow> goerr option \<Rightarrow> exchange \<Rightarrow> string \<Rightarrow> string list \<Rightarrow> string list \<times> token_result" where
  "submitGrant env now ctxErr exch token sent =
     (if exchange_submits ctxErr exch then codex_grant env token # sent else sent,
      refreshTokens env now ctxErr exch token)"

definition journalRefresh ::
    "codex_env \<Rightarrow> refresh_attempt \<Rightarrow> string \<Rightarrow> (string list \<Rightarrow> string list \<times> token_result) \<Rightarrow> journal \<times> string list
     \<Rightarrow> (journal \<times> string list) \<times> token_result" where
  "journalRefresh env att token run s =
     (let (j, sent) = s; key = codex_grant env token
      in case RefreshClaim (at_claim att) (at_owner att) key j of
           (j', Inl e) \<Rightarrow> ((j', sent), Inl (journalOutcome env token ''claim'' (Some e)))
         | (j', Inr owner) \<Rightarrow>
             if owner = [] then ((j', sent), readRefreshReceipt env (at_now att) (at_reads att) j' key token)
             else let (sent', result) = run sent;
                      (j'', answer) = journal_finish env (at_finish att) token owner result j'
                  in ((j'', sent'), answer))"

text \<open>A fence of the metadata becomes a receipt of the journal; an observation of the journal is left to it.\<close>

definition PreserveRefreshOutcome ::
    "codex_env \<Rightarrow> refresh_attempt \<Rightarrow> string \<Rightarrow> goerr \<Rightarrow> journal option \<Rightarrow> journal option \<times> goerr option" where
  "PreserveRefreshOutcome env att token outcome journal =
     (case journal of
        None \<Rightarrow> (None, Some outcome)
      | Some j \<Rightarrow>
          let unknown = errors_As as_outcome outcome;
              key = codex_grant env token
          in if (case unknown of Some (g, stage) \<Rightarrow> isJournalObservationStage stage | None \<Rightarrow> False)
             then (Some j, None)
             else case RefreshClaim (at_claim att) (at_owner att) key j of
                 (j', Inl e) \<Rightarrow> (Some j', Some (journalOutcome env token ''claim'' (Some e)))
               | (j', Inr owner) \<Rightarrow>
                   if owner = [] then (Some j', None)
                   else
                     let stage = (case unknown of Some (g, stage) \<Rightarrow> stage | None \<Rightarrow> ''pending'')
                     in case RefreshComplete (at_finish att) key owner (no_receipt\<lparr>rc_Stage := stage\<rparr>) j' of
                          (j'', Some e) \<Rightarrow> (Some j'', Some (journalOutcome env token ''receipt_write'' (Some e)))
                        | (j'', None) \<Rightarrow> (Some j'', None))"

text \<open>
  \<^verbatim>\<open>RefreshTokens\<close> outside a shared flight: with a journal the claim is the barrier, without one the
  cache of unresolved outcomes is.
\<close>

definition RefreshTokens ::
    "codex_env \<Rightarrow> refresh_attempt \<Rightarrow> string \<Rightarrow> journal option \<times> outcome_cache \<times> string list
     \<Rightarrow> (journal option \<times> outcome_cache \<times> string list) \<times> token_result" where
  "RefreshTokens env att token s =
     (if token = [] then (s, Inl (plain_error ''refresh token is required''))
      else case at_ctxErr att of
          Some e \<Rightarrow> (s, Inl e)
        | None \<Rightarrow>
            let (journal, cache, sent) = s;
                run = submitGrant env (at_now att) (at_runErr att) (at_exchange att) token
            in case journal of
                 Some j \<Rightarrow> (let ((j', sent'), result) = journalRefresh env att token run (j, sent)
                            in ((Some j', cache, sent'), result))
               | None \<Rightarrow>
                   (case unresolvedRefreshOutcome (cx_sha env) cache codexClientID token of
                      Some e \<Rightarrow> (s, Inl e)
                    | None \<Rightarrow>
                        let (sent', result) = run sent
                        in ((None, rememberRefreshOutcome (case result of Inl e \<Rightarrow> Some e | Inr v \<Rightarrow> None) cache, sent'),
                            result)))"

text \<open>The retry loop over the attempts there is time for; each further attempt first waits on the context.\<close>

fun retry_loop ::
    "codex_env \<Rightarrow> nat \<Rightarrow> (goerr option \<times> refresh_attempt) list \<Rightarrow> string \<Rightarrow> goerr option
     \<Rightarrow> journal option \<times> outcome_cache \<times> string list \<Rightarrow> (journal option \<times> outcome_cache \<times> string list) \<times> token_result" where
  "retry_loop env maxRetries [] token lastErr s =
     (s, Inl (case lastErr of
        None \<Rightarrow> plain_error ''token refresh failed''
      | Some e \<Rightarrow> wrapped (''token refresh failed after '' @ format_int64 (int maxRetries) @ '' attempts: '') e))"
| "retry_loop env maxRetries ((wait, att) # atts) token lastErr s =
     (case wait of
        Some e \<Rightarrow> (s, Inl e)
      | None \<Rightarrow>
          (case RefreshTokens env att token s of
             (s', Inr v) \<Rightarrow> (s', Inr v)
           | (s', Inl e) \<Rightarrow>
               if isNonRetryableRefreshErr (Some e) \<or> \<not> refreshRequestNotSent e then (s', Inl e)
               else retry_loop env maxRetries atts token (Some e) s'))"

text \<open>The first attempt does not wait; \<open>world i\<close> is what attempt \<open>i\<close> meets.\<close>

definition RefreshTokensWithRetry ::
    "codex_env \<Rightarrow> (nat \<Rightarrow> goerr option \<times> refresh_attempt) \<Rightarrow> int \<Rightarrow> string
     \<Rightarrow> journal option \<times> outcome_cache \<times> string list \<Rightarrow> (journal option \<times> outcome_cache \<times> string list) \<times> token_result" where
  "RefreshTokensWithRetry env world maxRetries0 token s =
     (let maxRetries = (if maxRetries0 \<le> 0 then 1 else nat maxRetries0)
      in retry_loop env maxRetries
           (map (\<lambda>i. (if i = 0 then None else fst (world i), snd (world i))) [0..<maxRetries]) token None s)"

text \<open>A refresh that succeeded under its own claim left its tokens as the receipt of its grant.\<close>

lemma RefreshComplete_done:
  assumes "RefreshComplete fault key owner receipt j = (j', None)"
  shows "j' = AList.update key \<lparr>jr_owner = [], jr_receipt = StoredReceipt receipt\<rparr> j"
  using assms by (auto simp: RefreshComplete_def Let_def split: db_fault.splits if_splits)

lemma journal_finish_done:
  assumes "journal_finish env fault token owner run j = (j', Inr v)"
  shows "run = Inr v"
    "j' = AList.update (codex_grant env token)
       \<lparr>jr_owner = [], jr_receipt = StoredReceipt (receipt_of token (Inr v))\<rparr> j"
  using assms RefreshComplete_done
  by (auto simp: journal_finish_def Let_def split: if_splits prod.splits option.splits sum.splits)

end
