(* ===== verification/Codex_Guarantees.thy ===== *)
theory Codex_Guarantees
  imports Codex_Journal
begin

declare map_of_eq_Some_iff [simp del]

section \<open>A Codex grant is sent at most once\<close>

text \<open>
  The protocol of the journal under any interleaving of callers in any number of processes.  A caller
  claims, sends, and releases or completes, each in a step of its own; a caller that preserves a
  fence claims and completes; a caller may be gone after any step; database calls fail before or after
  their effect.  The steps are the functions of \<open>Codex_Journal\<close>, and the ghost list \<open>cw_posts\<close> holds the
  fingerprint of every grant that may have reached the provider, once for each time.
\<close>

datatype caller =
    Claimed string string
  | Ran string string token_result
  | Fencing string string string

record codex_world =
  cw_journal :: journal
  cw_callers :: "(nat, caller) gomap"
  cw_owners :: "string list" \<comment> \<open>the UUIDs drawn so far\<close>
  cw_posts :: "string list"

fun caller_token :: "caller \<Rightarrow> string" where
  "caller_token (Claimed token owner) = token"
| "caller_token (Ran token owner result) = token"
| "caller_token (Fencing token owner stage) = token"

fun caller_owner :: "caller \<Rightarrow> string" where
  "caller_owner (Claimed token owner) = owner"
| "caller_owner (Ran token owner result) = owner"
| "caller_owner (Fencing token owner stage) = owner"

text \<open>The answer of a claim: the caller goes on as \<open>c\<close> when it owns the claim.\<close>

definition after_claim ::
    "nat \<Rightarrow> (string \<Rightarrow> caller) \<Rightarrow> string \<Rightarrow> journal \<times> (goerr + string) \<Rightarrow> codex_world \<Rightarrow> codex_world" where
  "after_claim p c fresh r w =
     w\<lparr>cw_journal := fst r, cw_owners := fresh # cw_owners w,
       cw_callers := (case snd r of
           Inr owner \<Rightarrow> if owner = [] then cw_callers w else AList.update p (c owner) (cw_callers w)
         | Inl e \<Rightarrow> cw_callers w)\<rparr>"

inductive codex_step :: "codex_env \<Rightarrow> codex_world \<Rightarrow> codex_world \<Rightarrow> bool" for env where
  codex_claim: "map_of (cw_callers w) p = None \<Longrightarrow> fresh \<noteq> [] \<Longrightarrow> fresh \<notin> set (cw_owners w) \<Longrightarrow>
    codex_step env w (after_claim p (Claimed token) fresh
      (RefreshClaim fault fresh (codex_grant env token) (cw_journal w)) w)"
| codex_fence: "map_of (cw_callers w) p = None \<Longrightarrow> fresh \<noteq> [] \<Longrightarrow> fresh \<notin> set (cw_owners w) \<Longrightarrow>
    codex_step env w (after_claim p (\<lambda>owner. Fencing token owner stage) fresh
      (RefreshClaim fault fresh (codex_grant env token) (cw_journal w)) w)"
| codex_send: "map_of (cw_callers w) p = Some (Claimed token owner) \<Longrightarrow>
    codex_step env w (w\<lparr>cw_callers := AList.update p (Ran token owner (refreshTokens env now ctxErr exch token)) (cw_callers w),
      cw_posts := (if exchange_submits ctxErr exch then [codex_grant env token] else []) @ cw_posts w\<rparr>)"
| codex_finish: "map_of (cw_callers w) p = Some (Ran token owner result) \<Longrightarrow>
    codex_step env w (w\<lparr>cw_callers := AList.delete p (cw_callers w),
      cw_journal := fst (journal_finish env fault token owner result (cw_journal w))\<rparr>)"
| codex_preserve: "map_of (cw_callers w) p = Some (Fencing token owner stage) \<Longrightarrow>
    codex_step env w (w\<lparr>cw_callers := AList.delete p (cw_callers w),
      cw_journal := fst (RefreshComplete fault (codex_grant env token) owner (no_receipt\<lparr>rc_Stage := stage\<rparr>) (cw_journal w))\<rparr>)"
| codex_gone: "codex_step env w (w\<lparr>cw_callers := AList.delete p (cw_callers w)\<rparr>)"

definition codex_start :: codex_world where
  "codex_start = \<lparr>cw_journal = [], cw_callers = [], cw_owners = [], cw_posts = []\<rparr>"

inductive codex_run :: "codex_env \<Rightarrow> codex_world \<Rightarrow> bool" for env where
  codex_init: "codex_run env codex_start"
| codex_more: "codex_run env w \<Longrightarrow> codex_step env w w' \<Longrightarrow> codex_run env w'"

subsection \<open>A released claim was not sent\<close>

lemma codex_response_sent: "\<not> releases (newCodexRefreshResponseError json status body)"
  by (simp add: newCodexRefreshResponseError_def Let_def releases_def refreshRequestNotSent_def errors_Is_def)

lemma outcome_not_released: "\<not> releases (journalOutcome env token stage cause)"
  by (simp add: releases_def journalOutcome_def NewRefreshOutcomeUnknownError_def IsRefreshOutcomeUnknown_def)

lemma released_not_sent:
  "refreshTokens env now ctxErr exch token = Inl e \<Longrightarrow> releases e \<Longrightarrow> \<not> exchange_submits ctxErr exch"
  using outcome_not_released codex_response_sent
  by (auto simp: refreshTokens_def exchange_submits_def Let_def split: option.splits exchange.splits if_splits)

subsection \<open>The invariant\<close>

text \<open>A caller that may still send its grant, or release its claim, has not sent it.\<close>

fun unsent :: "caller \<Rightarrow> bool" where
  "unsent (Claimed token owner) = True"
| "unsent (Fencing token owner stage) = True"
| "unsent (Ran token owner result) = (case result of Inl e \<Rightarrow> releases e | Inr v \<Rightarrow> False)"

text \<open>
  The invariant over the lookups: every caller owns the row of its grant, no two callers have the same
  owner, a grant that was sent has a row, owners were drawn, and no grant was sent twice.
\<close>

definition owns :: "(string \<Rightarrow> journal_row option) \<Rightarrow> string \<Rightarrow> string \<Rightarrow> bool" where
  "owns J key owner \<longleftrightarrow> (\<exists>row. J key = Some row \<and> jr_owner row = owner)"

definition caller_ok ::
    "codex_env \<Rightarrow> (string \<Rightarrow> journal_row option) \<Rightarrow> string set \<Rightarrow> string list \<Rightarrow> caller \<Rightarrow> bool" where
  "caller_ok env J owners posts c \<longleftrightarrow> caller_owner c \<noteq> [] \<and> caller_owner c \<in> owners
     \<and> owns J (codex_grant env (caller_token c)) (caller_owner c)
     \<and> (unsent c \<longrightarrow> codex_grant env (caller_token c) \<notin> set posts)"

definition codex_inv ::
    "codex_env \<Rightarrow> (string \<Rightarrow> journal_row option) \<Rightarrow> (nat \<Rightarrow> caller option) \<Rightarrow> string set \<Rightarrow> string list \<Rightarrow> bool" where
  "codex_inv env J C owners posts \<longleftrightarrow>
     (\<forall>p c. C p = Some c \<longrightarrow> caller_ok env J owners posts c)
     \<and> (\<forall>p q c d. C p = Some c \<longrightarrow> C q = Some d \<longrightarrow> caller_owner c = caller_owner d \<longrightarrow> p = q)
     \<and> (\<forall>key\<in>set posts. J key \<noteq> None)
     \<and> (\<forall>key row. J key = Some row \<longrightarrow> jr_owner row \<noteq> [] \<longrightarrow> jr_owner row \<in> owners)
     \<and> distinct posts"

definition codex_ok :: "codex_env \<Rightarrow> codex_world \<Rightarrow> bool" where
  "codex_ok env w \<longleftrightarrow>
     codex_inv env (map_of (cw_journal w)) (map_of (cw_callers w)) (set (cw_owners w)) (cw_posts w)"

lemma codex_invD:
  assumes "codex_inv env J C owners posts"
  shows "C p = Some c \<Longrightarrow> caller_ok env J owners posts c"
    "C p = Some c \<Longrightarrow> C q = Some d \<Longrightarrow> caller_owner c = caller_owner d \<Longrightarrow> p = q"
    "key \<in> set posts \<Longrightarrow> J key \<noteq> None"
    "J key = Some row \<Longrightarrow> jr_owner row \<noteq> [] \<Longrightarrow> jr_owner row \<in> owners"
    "distinct posts"
  using assms unfolding codex_inv_def by blast+

lemma codex_invI:
  assumes "\<And>p c. C p = Some c \<Longrightarrow> caller_ok env J owners posts c"
    "\<And>p q c d. C p = Some c \<Longrightarrow> C q = Some d \<Longrightarrow> caller_owner c = caller_owner d \<Longrightarrow> p = q"
    "\<And>key. key \<in> set posts \<Longrightarrow> J key \<noteq> None"
    "\<And>key row. J key = Some row \<Longrightarrow> jr_owner row \<noteq> [] \<Longrightarrow> jr_owner row \<in> owners"
    "distinct posts"
  shows "codex_inv env J C owners posts"
  using assms unfolding codex_inv_def by blast

lemma owned_row_owns: "owned_row j key owner \<longleftrightarrow> owns (map_of j) key owner"
  by (auto simp: owned_row_def owns_def split: option.splits)

lemma same_grant_same_caller:
  assumes "codex_inv env J C owners posts" "C p = Some c" "C q = Some d"
    "codex_grant env (caller_token c) = codex_grant env (caller_token d)"
  shows "p = q"
proof (rule codex_invD(2) [OF assms(1,2,3)])
  show "caller_owner c = caller_owner d"
    using codex_invD(1) [OF assms(1,2)] codex_invD(1) [OF assms(1,3)] assms(4)
    by (auto simp: caller_ok_def owns_def)
qed

text \<open>A claim that inserts a row under a fresh owner, with or without a caller that learns of it.\<close>

lemma inv_claim:
  assumes inv: "codex_inv env J C owners posts" and "J key = None" "fresh \<noteq> []" "fresh \<notin> owners"
  shows "codex_inv env (J(key \<mapsto> pending_row fresh)) C (insert fresh owners) posts"
    "C p = None \<Longrightarrow> caller_owner c = fresh \<Longrightarrow> codex_grant env (caller_token c) = key \<Longrightarrow>
     codex_inv env (J(key \<mapsto> pending_row fresh)) (C(p \<mapsto> c)) (insert fresh owners) posts"
proof -
  note D = codex_invD [OF inv]
  have sent: "key \<notin> set posts"
    using D(3) [of key] assms(2) by auto
  have ok: "caller_ok env (J(key \<mapsto> pending_row fresh)) (insert fresh owners) posts d" "caller_owner d \<noteq> fresh"
    if "C q = Some d" for q d
    using D(1) [OF that] assms(2,4) by (auto simp: caller_ok_def owns_def)
  show "codex_inv env (J(key \<mapsto> pending_row fresh)) C (insert fresh owners) posts"
    using ok D by (intro codex_invI) (auto simp: pending_row_def split: if_splits)
  assume c: "C p = None" "caller_owner c = fresh" "codex_grant env (caller_token c) = key"
  have "caller_ok env (J(key \<mapsto> pending_row fresh)) (insert fresh owners) posts c"
    using c assms(3) sent by (simp add: caller_ok_def owns_def pending_row_def)
  then show "codex_inv env (J(key \<mapsto> pending_row fresh)) (C(p \<mapsto> c)) (insert fresh owners) posts"
    using ok D c by (intro codex_invI) (auto simp: pending_row_def split: if_splits)
qed

lemma inv_owners:
  "codex_inv env J C owners posts \<Longrightarrow> codex_inv env J C (insert fresh owners) posts"
  by (auto simp: codex_inv_def caller_ok_def)

lemma inv_gone: "codex_inv env J C owners posts \<Longrightarrow> codex_inv env J (C(p := None)) owners posts"
  by (intro codex_invI) (auto dest: codex_invD split: if_splits)

lemma inv_send:
  assumes inv: "codex_inv env J C owners posts" and c: "C p = Some (Claimed token owner)"
    and result: "sent \<Longrightarrow> \<not> unsent (Ran token owner result)"
  shows "codex_inv env J (C(p \<mapsto> Ran token owner result)) owners
    ((if sent then [codex_grant env token] else []) @ posts)"
proof -
  note D = codex_invD [OF inv]
  have mine: "caller_ok env J owners posts (Claimed token owner)"
    by (rule D(1) [OF c])
  have "codex_grant env (caller_token d) \<noteq> codex_grant env token" if "C q = Some d" "q \<noteq> p" for q d
    using same_grant_same_caller [OF inv c that(1)] that(2) by auto
  then have "caller_ok env J owners ((if sent then [codex_grant env token] else []) @ posts) d"
    if "C q = Some d" "q \<noteq> p" for q d
    using D(1) [OF that(1)] that by (auto simp: caller_ok_def)
  moreover have "caller_ok env J owners ((if sent then [codex_grant env token] else []) @ posts) (Ran token owner result)"
    using mine result by (auto simp: caller_ok_def)
  moreover have "q1 = q2" if "(C(p \<mapsto> Ran token owner result)) q1 = Some d1"
    "(C(p \<mapsto> Ran token owner result)) q2 = Some d2" "caller_owner d1 = caller_owner d2" for q1 q2 d1 d2
    using that D(2) [OF c, of q1 d1] D(2) [OF c, of q2 d2] D(2) [of q1 d1 q2 d2] by (auto split: if_splits)
  moreover have "J key \<noteq> None" if "key \<in> set ((if sent then [codex_grant env token] else []) @ posts)" for key
    using that D(3) [of key] mine by (auto simp: caller_ok_def owns_def split: if_splits)
  moreover have "distinct ((if sent then [codex_grant env token] else []) @ posts)"
    using D(5) mine by (simp add: caller_ok_def)
  ultimately show ?thesis
    using D(4) by (intro codex_invI) (metis fun_upd_apply option.inject)+
qed

text \<open>
  A claim that ends: only the row of the caller's grant changes, it is deleted only when the grant was
  not sent, and no other caller has the grant.
\<close>

lemma inv_finish:
  assumes inv: "codex_inv env J C owners posts" and c: "C p = Some c"
    and rest: "\<And>k. k \<noteq> codex_grant env (caller_token c) \<Longrightarrow> J' k = J k"
    and gone: "J' (codex_grant env (caller_token c)) = None \<Longrightarrow> unsent c"
    and row: "\<And>row. J' (codex_grant env (caller_token c)) = Some row \<Longrightarrow> jr_owner row \<in> {[], caller_owner c}"
  shows "codex_inv env J' (C(p := None)) owners posts"
proof -
  let ?key = "codex_grant env (caller_token c)"
  note D = codex_invD [OF inv]
  have mine: "caller_ok env J owners posts c"
    by (rule D(1) [OF c])
  have ok: "caller_ok env J' owners posts d" if d: "C q = Some d" "q \<noteq> p" for q d
  proof -
    have "codex_grant env (caller_token d) \<noteq> ?key"
      using same_grant_same_caller [OF inv c d(1)] d(2) by auto
    then show ?thesis
      using D(1) [OF d(1)] rest by (simp add: caller_ok_def owns_def)
  qed
  have sent: "J' k \<noteq> None" if "k \<in> set posts" for k
    using D(3) [OF that] rest [of k] gone mine that by (cases "k = ?key") (auto simp: caller_ok_def)
  have owner: "jr_owner r \<in> owners" if "J' k = Some r" "jr_owner r \<noteq> []" for k r
    using D(4) [of k r] rest [of k] row [of r] mine that by (cases "k = ?key") (auto simp: caller_ok_def)
  show ?thesis
    using ok sent owner D(2,5) by (intro codex_invI) (auto split: if_splits)
qed

subsection \<open>Every step keeps it\<close>

lemma map_of_update_upd: "map_of (AList.update k v m) = (map_of m)(k \<mapsto> v)"
  by (simp add: fun_eq_iff)

lemma map_of_delete_upd: "map_of (AList.delete k m) = (map_of m)(k := None)"
  by (simp add: fun_eq_iff)

text \<open>A claim adds a row under a fresh owner, or changes nothing; an owner comes back only with the row.\<close>

lemma RefreshClaim_cases:
  assumes "RefreshClaim fault fresh key j = (j', r)"
  obtains "j' = j" "\<And>owner. r = Inr owner \<Longrightarrow> owner = []"
  | "map_of j key = None" "j' = AList.update key (pending_row fresh) j" "\<And>owner. r = Inr owner \<Longrightarrow> owner = fresh"
  using assms by (auto simp: RefreshClaim_def Let_def split: if_splits db_fault.splits)

lemma after_claim_ok:
  assumes ok: "codex_ok env w" and p: "map_of (cw_callers w) p = None" and fresh: "fresh \<noteq> []" "fresh \<notin> set (cw_owners w)"
    and c: "caller_owner (c fresh) = fresh" "caller_token (c fresh) = token"
    and r: "RefreshClaim fault fresh (codex_grant env token) (cw_journal w) = (j', r)"
  shows "codex_ok env (after_claim p c fresh (j', r) w)"
  using r
proof (cases rule: RefreshClaim_cases)
  case 1
  then have "after_claim p c fresh (j', r) w = w\<lparr>cw_owners := fresh # cw_owners w\<rparr>"
    by (cases r) (simp_all add: after_claim_def)
  then show ?thesis
    using ok inv_owners by (simp add: codex_ok_def)
next
  case 2
  note claim = inv_claim [OF ok [unfolded codex_ok_def] 2(1) fresh]
  show ?thesis
  proof (cases r)
    case (Inl e)
    then show ?thesis
      using claim(1) 2 by (simp add: after_claim_def codex_ok_def map_of_update_upd)
  next
    case (Inr owner)
    then show ?thesis
      using claim(2) [OF p c(1)] 2 c fresh(1) by (simp add: after_claim_def codex_ok_def map_of_update_upd)
  qed
qed

lemma RefreshComplete_rows:
  assumes "owned_row j key owner"
  shows "k \<noteq> key \<Longrightarrow> map_of (fst (RefreshComplete fault key owner receipt j)) k = map_of j k"
    "\<exists>row. map_of (fst (RefreshComplete fault key owner receipt j)) key = Some row \<and> jr_owner row \<in> {[], owner}"
  using assms by (auto simp: RefreshComplete_def Let_def owned_row_owns owns_def split: db_fault.splits)

lemma RefreshRelease_rows:
  assumes "owned_row j key owner"
  shows "k \<noteq> key \<Longrightarrow> map_of (fst (RefreshRelease fault key owner j)) k = map_of j k"
    "map_of (fst (RefreshRelease fault key owner j)) key = Some row \<Longrightarrow> jr_owner row \<in> {[], owner}"
  using assms by (auto simp: RefreshRelease_def Let_def owned_row_owns owns_def split: db_fault.splits if_splits)

lemma journal_finish_journal:
  "fst (journal_finish env fault token owner result j) =
     (if (case result of Inl e \<Rightarrow> releases e | Inr v \<Rightarrow> False)
      then fst (RefreshRelease fault (codex_grant env token) owner j)
      else fst (RefreshComplete fault (codex_grant env token) owner (receipt_of token result) j))"
  by (auto simp: journal_finish_def Let_def split: prod.splits option.splits)

lemma caller_owned:
  "codex_ok env w \<Longrightarrow> map_of (cw_callers w) p = Some c \<Longrightarrow>
   owned_row (cw_journal w) (codex_grant env (caller_token c)) (caller_owner c)"
  using codex_invD(1) by (fastforce simp: codex_ok_def caller_ok_def owned_row_owns)

lemma codex_finish_ok:
  assumes ok: "codex_ok env w" and c: "map_of (cw_callers w) p = Some (Ran token owner result)"
  shows "codex_ok env (w\<lparr>cw_callers := AList.delete p (cw_callers w),
    cw_journal := fst (journal_finish env fault token owner result (cw_journal w))\<rparr>)"
proof -
  have o: "owned_row (cw_journal w) (codex_grant env token) owner"
    using caller_owned [OF ok c] by simp
  let ?J = "map_of (fst (journal_finish env fault token owner result (cw_journal w)))"
  have "?J k = map_of (cw_journal w) k" if "k \<noteq> codex_grant env token" for k
    using RefreshRelease_rows(1) [OF o that] RefreshComplete_rows(1) [OF o that] by (simp add: journal_finish_journal)
  moreover have "?J (codex_grant env token) = None \<Longrightarrow> unsent (Ran token owner result)"
    using RefreshComplete_rows(2) [OF o, of fault "receipt_of token result"] by (auto simp: journal_finish_journal split: if_splits)
  moreover have "jr_owner row \<in> {[], owner}" if "?J (codex_grant env token) = Some row" for row
    using that RefreshRelease_rows(2) [OF o] RefreshComplete_rows(2) [OF o, of fault "receipt_of token result"]
    by (fastforce simp: journal_finish_journal split: if_splits)
  ultimately show ?thesis
    using inv_finish [OF ok [unfolded codex_ok_def] c, of ?J] by (simp add: codex_ok_def map_of_delete_upd)
qed

lemma codex_preserve_ok:
  assumes ok: "codex_ok env w" and c: "map_of (cw_callers w) p = Some (Fencing token owner stage)"
  shows "codex_ok env (w\<lparr>cw_callers := AList.delete p (cw_callers w),
    cw_journal := fst (RefreshComplete fault (codex_grant env token) owner receipt (cw_journal w))\<rparr>)"
proof -
  have o: "owned_row (cw_journal w) (codex_grant env token) owner"
    using caller_owned [OF ok c] by simp
  let ?J = "map_of (fst (RefreshComplete fault (codex_grant env token) owner receipt (cw_journal w)))"
  have "jr_owner row \<in> {[], owner}" if "?J (codex_grant env token) = Some row" for row
    using that RefreshComplete_rows(2) [OF o, of fault receipt] by auto
  then show ?thesis
    using inv_finish [OF ok [unfolded codex_ok_def] c, of ?J] RefreshComplete_rows(1) [OF o]
    by (simp add: codex_ok_def map_of_delete_upd)
qed

lemma codex_step_ok: "codex_step env w w' \<Longrightarrow> codex_ok env w \<Longrightarrow> codex_ok env w'"
proof (induction rule: codex_step.induct)
  case (codex_claim w p fresh token fault)
  then show ?case
    by (cases "RefreshClaim fault fresh (codex_grant env token) (cw_journal w)")
      (simp add: after_claim_ok [of _ _ _ _ "Claimed token" token])
next
  case (codex_fence w p fresh token stage fault)
  then show ?case
    by (cases "RefreshClaim fault fresh (codex_grant env token) (cw_journal w)")
      (simp add: after_claim_ok [of _ _ _ _ "\<lambda>owner. Fencing token owner stage" token])
next
  case (codex_send w p token owner ctxErr exch now)
  have "exchange_submits ctxErr exch \<Longrightarrow> \<not> unsent (Ran token owner (refreshTokens env now ctxErr exch token))"
    using released_not_sent by (auto split: sum.splits)
  then show ?case
    using inv_send [OF codex_send(2) [unfolded codex_ok_def] codex_send(1), of "exchange_submits ctxErr exch"]
    by (simp add: codex_ok_def map_of_update_upd)
next
  case (codex_finish w p token owner result fault)
  then show ?case
    by (simp add: codex_finish_ok)
next
  case (codex_preserve w p token owner stage fault)
  then show ?case
    by (simp add: codex_preserve_ok)
next
  case (codex_gone w p)
  then show ?case
    using inv_gone by (simp add: codex_ok_def map_of_delete_upd)
qed

lemma codex_run_ok: "codex_run env w \<Longrightarrow> codex_ok env w"
proof (induction rule: codex_run.induct)
  case codex_init
  then show ?case
    by (simp add: codex_ok_def codex_inv_def codex_start_def)
next
  case (codex_more w w')
  then show ?case
    using codex_step_ok by blast
qed

lemma after_claim_simps [simp]:
  "cw_journal (after_claim p c fresh r w) = fst r"
  "cw_owners (after_claim p c fresh r w) = fresh # cw_owners w"
  "cw_posts (after_claim p c fresh r w) = cw_posts w"
  by (simp_all add: after_claim_def)

text \<open>A run for the witnesses: a caller claims the grant \<open>r\<close>, sends it and loses the reply.\<close>

definition codex_plain_env :: codex_env where
  "codex_plain_env = \<lparr>cx_sha = (\<lambda>s. s), cx_json = (\<lambda>s. None), cx_claims = (\<lambda>s. None), cx_ParseTime = (\<lambda>s. Some 0),
    cx_FormatTime = (\<lambda>t. [])\<rparr>"

definition lost_claimed :: codex_world where
  "lost_claimed = after_claim 0 (Claimed ''r'') ''o'' (RefreshClaim NoFault ''o'' (codex_grant codex_plain_env ''r'') []) codex_start"

definition lost_sent :: codex_world where
  "lost_sent = lost_claimed\<lparr>
     cw_callers := AList.update 0 (Ran ''r'' ''o'' (refreshTokens codex_plain_env 0 None (ReadError (plain_error ''eof'')) ''r''))
       (cw_callers lost_claimed),
     cw_posts := [codex_grant codex_plain_env ''r'']\<rparr>"

definition lost_finished :: codex_world where
  "lost_finished = lost_sent\<lparr>cw_callers := AList.delete 0 (cw_callers lost_sent),
     cw_journal := fst (journal_finish codex_plain_env NoFault ''r'' ''o''
       (refreshTokens codex_plain_env 0 None (ReadError (plain_error ''eof'')) ''r'') (cw_journal lost_sent))\<rparr>"

lemma lost_reply_run: "codex_run codex_plain_env lost_claimed" "codex_run codex_plain_env lost_sent" "codex_run codex_plain_env lost_finished"
proof -
  show claimed: "codex_run codex_plain_env lost_claimed"
    using codex_more [OF codex_init codex_claim [of codex_start 0 "''o''" codex_plain_env "''r''" NoFault]]
    by (simp add: codex_start_def lost_claimed_def)
  have "map_of (cw_callers lost_claimed) 0 = Some (Claimed ''r'' ''o'')" "cw_posts lost_claimed = []"
    by (simp_all add: lost_claimed_def RefreshClaim_def after_claim_def codex_start_def)
  then show sent: "codex_run codex_plain_env lost_sent"
    using codex_more [OF claimed codex_send [where w = lost_claimed and p = 0 and env = codex_plain_env and now = 0 and ctxErr = None
        and exch = "ReadError (plain_error ''eof'')"]]
    by (simp add: lost_sent_def exchange_submits_def)
  have "map_of (cw_callers lost_sent) 0 = Some (Ran ''r'' ''o'' (refreshTokens codex_plain_env 0 None (ReadError (plain_error ''eof'')) ''r''))"
    by (simp add: lost_sent_def)
  then show "codex_run codex_plain_env lost_finished"
    using codex_more [OF sent codex_finish [where w = lost_sent and p = 0 and env = codex_plain_env and fault = NoFault]]
    by (simp add: lost_finished_def)
qed

lemma lost_reply_receipt:
  "map_of (cw_journal lost_finished) (codex_grant codex_plain_env ''r'') =
     Some \<lparr>jr_owner = [], jr_receipt = StoredReceipt (no_receipt\<lparr>rc_Stage := ''response_read''\<rparr>)\<rparr>"
  "count_list (cw_posts lost_finished) (codex_grant codex_plain_env ''r'') = 1"
proof -
  have run: "refreshTokens codex_plain_env 0 None (ReadError (plain_error ''eof'')) ''r'' =
      Inl (GoErr (NOutcome (codex_grant codex_plain_env ''r'') ''response_read'') [plain_error ''eof''])"
    by (simp add: refreshTokens_def journalOutcome_def NewRefreshOutcomeUnknownError_def known_stage_def outcome_stages_def)
  show "map_of (cw_journal lost_finished) (codex_grant codex_plain_env ''r'') =
      Some \<lparr>jr_owner = [], jr_receipt = StoredReceipt (no_receipt\<lparr>rc_Stage := ''response_read''\<rparr>)\<rparr>"
    unfolding lost_finished_def run
    by (simp add: lost_sent_def lost_claimed_def RefreshClaim_def after_claim_def codex_start_def
        journal_finish_journal releases_def IsRefreshOutcomeUnknown_def RefreshComplete_def owned_row_def
        pending_row_def receipt_of_def Let_def)
  show "count_list (cw_posts lost_finished) (codex_grant codex_plain_env ''r'') = 1"
    by (simp add: lost_finished_def lost_sent_def)
qed

lemma count_distinct_le: "distinct xs \<Longrightarrow> count_list xs x \<le> 1"
  by (induction xs) auto

text \<open>
  C13. Safety: however callers in any number of processes claim, refresh, preserve fences, fail and
  are gone, and wherever the database fails, the refresh grant of a token is sent to the provider at
  most once.
\<close>

theorem codex_submits_once:
  assumes "codex_run env w"
  shows "count_list (cw_posts w) key \<le> 1"
  using count_distinct_le [OF codex_invD(5) [OF codex_run_ok [OF assms, unfolded codex_ok_def]]] .

lemma codex_submits_once_witness:
  "codex_run codex_plain_env lost_finished \<and> count_list (cw_posts lost_finished) (codex_grant codex_plain_env ''r'') = 1
   \<and> count_list (cw_posts lost_finished) (codex_grant codex_plain_env ''r'') \<le> 1"
  using codex_submits_once [OF lost_reply_run(3)] lost_reply_run(3) lost_reply_receipt(2) by blast

subsection \<open>A receipt is final\<close>

lemma receipt_not_owned:
  assumes "codex_ok env w" "map_of (cw_callers w) p = Some c" "map_of (cw_journal w) key = Some row" "jr_owner row = []"
  shows "codex_grant env (caller_token c) \<noteq> key"
  using assms codex_invD(1) by (fastforce simp: codex_ok_def caller_ok_def owns_def)

lemma claim_keeps_row:
  assumes "map_of j key = Some row"
  shows "map_of (fst (RefreshClaim fault fresh k j)) key = Some row"
proof -
  obtain j' r where "RefreshClaim fault fresh k j = (j', r)"
    by fastforce
  then show ?thesis
    by (rule RefreshClaim_cases) (use assms \<open>RefreshClaim fault fresh k j = (j', r)\<close> in auto)
qed

lemma step_keeps_receipt:
  assumes "codex_step env w w'" "codex_ok env w" "map_of (cw_journal w) key = Some row" "jr_owner row = []"
  shows "map_of (cw_journal w') key = Some row \<and> count_list (cw_posts w') key = count_list (cw_posts w) key"
  using assms
proof (induction rule: codex_step.induct)
  case (codex_claim w p fresh token fault)
  then show ?case
    by (simp add: claim_keeps_row)
next
  case (codex_fence w p fresh token stage fault)
  then show ?case
    by (simp add: claim_keeps_row)
next
  case (codex_send w p token owner ctxErr exch now)
  then show ?case
    using receipt_not_owned [OF codex_send(2,1,3,4)] by simp
next
  case (codex_finish w p token owner result fault)
  then have "key \<noteq> codex_grant env token"
    using receipt_not_owned [OF codex_finish(2,1,3,4)] by auto
  then show ?case
    using codex_finish caller_owned [OF codex_finish(2,1)]
    by (simp add: journal_finish_journal RefreshRelease_rows(1) RefreshComplete_rows(1))
next
  case (codex_preserve w p token owner stage fault)
  then have "key \<noteq> codex_grant env token"
    using receipt_not_owned [OF codex_preserve(2,1,3,4)] by auto
  then show ?case
    using codex_preserve caller_owned [OF codex_preserve(2,1)] by (simp add: RefreshComplete_rows(1))
next
  case (codex_gone w p)
  then show ?case
    by simp
qed

text \<open>
  C14. Safety: once a grant has its receipt, no later step of any caller changes or deletes the
  receipt, and the grant is not sent to the provider any more.
\<close>

theorem codex_receipts_final:
  assumes "codex_run env w" "(codex_step env)\<^sup>*\<^sup>* w w'"
    and "map_of (cw_journal w) key = Some row" "jr_owner row = []"
  shows "map_of (cw_journal w') key = Some row \<and> count_list (cw_posts w') key = count_list (cw_posts w) key"
  using assms(2)
proof (induction rule: rtranclp_induct)
  case base
  then show ?case
    using assms by simp
next
  case (step y z)
  have "codex_ok env y"
    using step(1) codex_run_ok [OF assms(1)] by (induction rule: rtranclp_induct) (auto intro: codex_step_ok)
  then show ?case
    using step_keeps_receipt [OF step(2)] step(3) assms(4) by simp
qed

text \<open>A second caller that tries to claim the grant leaves the receipt.\<close>

definition lost_again :: codex_world where
  "lost_again = after_claim 1 (Claimed ''r'') ''p''
     (RefreshClaim NoFault ''p'' (codex_grant codex_plain_env ''r'') (cw_journal lost_finished)) lost_finished"

lemma codex_receipts_final_witness:
  "codex_step codex_plain_env lost_finished lost_again
   \<and> map_of (cw_journal lost_again) (codex_grant codex_plain_env ''r'') =
       Some \<lparr>jr_owner = [], jr_receipt = StoredReceipt (no_receipt\<lparr>rc_Stage := ''response_read''\<rparr>)\<rparr>"
proof -
  have "map_of (cw_callers lost_finished) 1 = None" "''p'' \<notin> set (cw_owners lost_finished)"
    by (simp_all add: lost_finished_def lost_sent_def lost_claimed_def RefreshClaim_def after_claim_def codex_start_def)
  then have step: "codex_step codex_plain_env lost_finished lost_again"
    unfolding lost_again_def by (intro codex_claim) simp_all
  show ?thesis
    using codex_receipts_final [OF lost_reply_run(3) r_into_rtranclp [of "codex_step codex_plain_env", OF step] lost_reply_receipt(1)]
      step by simp
qed

subsection \<open>The calls of the code are runs\<close>

lemma after_claim_callers:
  "cw_callers (after_claim p c fresh (j, Inl e) w) = cw_callers w"
  "cw_callers (after_claim p c fresh (j, Inr []) w) = cw_callers w"
  "owner \<noteq> [] \<Longrightarrow> cw_callers (after_claim p c fresh (j, Inr owner) w) = AList.update p (c owner) (cw_callers w)"
  by (simp_all add: after_claim_def)

definition fresh_owner :: "refresh_attempt \<Rightarrow> codex_world \<Rightarrow> bool" where
  "fresh_owner att w \<longleftrightarrow> at_owner att \<noteq> [] \<and> at_owner att \<notin> set (cw_owners w)"

text \<open>
  What a call answers: tokens are either its own, and then they are the receipt of a grant that was sent,
  or what the receipts say that it leaves behind.
\<close>

definition justified ::
    "codex_env \<Rightarrow> refresh_attempt set \<Rightarrow> string \<Rightarrow> journal \<Rightarrow> string list \<Rightarrow> token_result \<Rightarrow> bool" where
  "justified env atts token j sent r \<longleftrightarrow> (\<forall>v. r = Inr v \<longrightarrow>
     codex_grant env token \<in> set sent
       \<and> map_of j (codex_grant env token) = Some \<lparr>jr_owner = [], jr_receipt = StoredReceipt (receipt_of token (Inr v))\<rparr>
     \<or> (\<exists>att\<in>atts. readRefreshReceipt env (at_now att) (at_reads att) j (codex_grant env token) token = Inr v))"

lemma justified_error [simp]: "justified env atts token j sent (Inl e)"
  by (simp add: justified_def)

lemma justified_mono: "justified env atts token j sent r \<Longrightarrow> atts \<subseteq> atts' \<Longrightarrow> justified env atts' token j sent r"
  by (auto simp: justified_def)

lemma refreshTokens_sent: "refreshTokens env now ctxErr exch token = Inr v \<Longrightarrow> exchange_submits ctxErr exch"
  by (auto simp: refreshTokens_def exchange_submits_def Let_def split: option.splits exchange.splits if_splits)

text \<open>One step of the argument: a call that took \<open>w\<close> to \<open>w'\<close> with the owners of \<open>atts\<close>.\<close>

definition call_run ::
    "codex_env \<Rightarrow> nat \<Rightarrow> refresh_attempt set \<Rightarrow> string \<Rightarrow> codex_world \<Rightarrow> token_result \<Rightarrow> codex_world \<Rightarrow> bool" where
  "call_run env p atts token w r w' \<longleftrightarrow> (codex_step env)\<^sup>*\<^sup>* w w' \<and> map_of (cw_callers w') p = None
     \<and> set (cw_owners w') \<subseteq> at_owner ` atts \<union> set (cw_owners w)
     \<and> (\<exists>ps. cw_posts w' = ps @ cw_posts w \<and> set ps \<subseteq> {codex_grant env token})
     \<and> (map_of (cw_journal w) (codex_grant env token) \<noteq> None \<longrightarrow>
          cw_journal w' = cw_journal w \<and> cw_posts w' = cw_posts w)
     \<and> justified env atts token (cw_journal w') (cw_posts w') r"

lemma call_run_refl:
  "map_of (cw_callers w) p = None \<Longrightarrow> call_run env p atts token w (Inl e) w"
  by (auto simp: call_run_def)

lemma call_run_trans:
  assumes "call_run env p atts token w r1 w1" "call_run env p atts' token w1 r w'" "atts \<union> atts' \<subseteq> all"
  shows "call_run env p all token w r w'"
proof -
  obtain ps1 ps2 where ps: "cw_posts w1 = ps1 @ cw_posts w" "set ps1 \<subseteq> {codex_grant env token}"
    "cw_posts w' = ps2 @ cw_posts w1" "set ps2 \<subseteq> {codex_grant env token}"
    using assms(1,2) by (auto simp: call_run_def)
  have "\<exists>ps. cw_posts w' = ps @ cw_posts w \<and> set ps \<subseteq> {codex_grant env token}"
    by (rule exI [of _ "ps2 @ ps1"]) (use ps in auto)
  moreover have "justified env all token (cw_journal w') (cw_posts w') r"
    by (rule justified_mono [of env atts']) (use assms in \<open>auto simp: call_run_def\<close>)
  moreover have "(codex_step env)\<^sup>*\<^sup>* w w'"
    using assms(1,2) by (meson call_run_def rtranclp_trans)
  moreover have "set (cw_owners w') \<subseteq> at_owner ` all \<union> set (cw_owners w)"
  proof -
    have "set (cw_owners w') \<subseteq> at_owner ` atts' \<union> set (cw_owners w1)"
      "set (cw_owners w1) \<subseteq> at_owner ` atts \<union> set (cw_owners w)"
      using assms(1,2) by (simp_all add: call_run_def)
    moreover have "at_owner ` atts \<subseteq> at_owner ` all" "at_owner ` atts' \<subseteq> at_owner ` all"
      using assms(3) by auto
    ultimately show ?thesis
      by blast
  qed
  moreover have "map_of (cw_callers w') p = None"
    using assms(2) by (simp add: call_run_def)
  moreover have "map_of (cw_journal w) (codex_grant env token) \<noteq> None \<longrightarrow>
      cw_journal w' = cw_journal w \<and> cw_posts w' = cw_posts w"
    using assms(1,2) by (simp add: call_run_def)
  ultimately show ?thesis
    by (simp add: call_run_def)
qed

lemma journalRefresh_runs:
  assumes free: "map_of (cw_callers w) p = None" and fresh: "fresh_owner att w"
    and call: "journalRefresh env att token (submitGrant env (at_now att) (at_runErr att) (at_exchange att) token)
      (cw_journal w, cw_posts w) = ((j', sent'), answer)"
  obtains w' where "call_run env p {att} token w answer w'" "j' = cw_journal w'" "sent' = cw_posts w'"
proof -
  let ?key = "codex_grant env token"
  let ?run = "refreshTokens env (at_now att) (at_runErr att) (at_exchange att) token"
  obtain j r where claim: "RefreshClaim (at_claim att) (at_owner att) ?key (cw_journal w) = (j, r)"
    by fastforce
  let ?w1 = "after_claim p (Claimed token) (at_owner att) (j, r) w"
  have first: "codex_step env w ?w1"
    using codex_claim [OF free, of "at_owner att" env token "at_claim att"] fresh claim by (simp add: fresh_owner_def)
  have same: "map_of (cw_journal w) ?key \<noteq> None \<Longrightarrow> j = cw_journal w"
    using claim by (auto elim: RefreshClaim_cases)
  have posts: "cw_posts ?w1 = cw_posts w" "cw_journal ?w1 = j" "cw_owners ?w1 = at_owner att # cw_owners w"
    by (simp_all add: after_claim_def)
  show thesis
  proof (cases "r = Inr (at_owner att)")
    case False
    then have lost: "r = Inr [] \<or> (\<exists>e. r = Inl e)"
      using claim by (cases r) (auto elim: RefreshClaim_cases)
    then have "map_of (cw_callers ?w1) p = None"
      using free by (auto simp: after_claim_callers)
    moreover have "justified env {att} token j (cw_posts w) answer" "j' = j" "sent' = cw_posts w"
      using lost call claim by (auto simp: journalRefresh_def justified_def)
    ultimately have "call_run env p {att} token w answer ?w1"
      using first same by (auto simp: call_run_def posts)
    then show thesis
      using \<open>j' = j\<close> \<open>sent' = cw_posts w\<close> by (intro that [of ?w1]) (simp_all add: posts)
  next
    case True
    have owner: "at_owner att \<noteq> []"
      using fresh by (simp add: fresh_owner_def)
    have new: "map_of (cw_journal w) ?key = None"
      using claim True owner by (auto elim: RefreshClaim_cases)
    have at1: "map_of (cw_callers ?w1) p = Some (Claimed token (at_owner att))"
      using True owner by (simp add: after_claim_callers)
    let ?w2 = "?w1\<lparr>cw_callers := AList.update p (Ran token (at_owner att) ?run) (cw_callers ?w1),
      cw_posts := (if exchange_submits (at_runErr att) (at_exchange att) then [?key] else []) @ cw_posts ?w1\<rparr>"
    let ?w3 = "?w2\<lparr>cw_callers := AList.delete p (cw_callers ?w2),
      cw_journal := fst (journal_finish env (at_finish att) token (at_owner att) ?run (cw_journal ?w2))\<rparr>"
    have "codex_step env ?w1 ?w2"
      by (rule codex_send [OF at1])
    moreover have "codex_step env ?w2 ?w3"
      by (rule codex_finish) simp
    ultimately have steps: "(codex_step env)\<^sup>*\<^sup>* w ?w3"
      using first by (meson converse_rtranclp_into_rtranclp rtranclp.rtrancl_refl)
    have ends: "j' = cw_journal ?w3" "sent' = cw_posts ?w3"
      and finish: "journal_finish env (at_finish att) token (at_owner att) ?run j = (j', answer)"
      using call claim True owner by (auto simp: journalRefresh_def submitGrant_def posts split: prod.splits)
    have "justified env {att} token j' sent' answer"
    proof (cases answer)
      case (Inr v)
      then have own: "?run = Inr v" "j' = AList.update ?key
          \<lparr>jr_owner = [], jr_receipt = StoredReceipt (receipt_of token (Inr v))\<rparr> j"
        using journal_finish_done finish by blast+
      then have "?key \<in> set sent'"
        using refreshTokens_sent [OF own(1)] ends(2) by simp
      then show ?thesis
        using own(2) Inr by (simp add: justified_def)
    qed simp
    then have "call_run env p {att} token w answer ?w3"
      using steps new ends by (auto simp: call_run_def posts)
    then show thesis
      using ends by (intro that [of ?w3]) simp_all
  qed
qed

lemma RefreshTokens_runs:
  assumes free: "map_of (cw_callers w) p = None" and fresh: "fresh_owner att w"
    and call: "RefreshTokens env att token (Some (cw_journal w), cache, cw_posts w) = (s, r)"
  obtains w' cache' where "call_run env p {att} token w r w'" "s = (Some (cw_journal w'), cache', cw_posts w')"
proof (cases "token = [] \<or> at_ctxErr att \<noteq> None")
  case True
  then show thesis
    using call call_run_refl [OF free] by (intro that [of w cache]) (auto simp: RefreshTokens_def split: option.splits if_splits)
next
  case False
  obtain j' sent' where run: "journalRefresh env att token (submitGrant env (at_now att) (at_runErr att) (at_exchange att) token)
      (cw_journal w, cw_posts w) = ((j', sent'), r)" "s = (Some j', cache, sent')"
    using False call by (auto simp: RefreshTokens_def Let_def split: prod.splits)
  obtain w' where "call_run env p {att} token w r w'" "j' = cw_journal w'" "sent' = cw_posts w'"
    by (rule journalRefresh_runs [OF free fresh run(1)])
  then show thesis
    using run(2) by (intro that [of w' cache]) simp_all
qed

lemma retry_loop_runs:
  assumes "map_of (cw_callers w) p = None" "\<forall>att\<in>snd ` set atts. fresh_owner att w" "distinct (map (at_owner \<circ> snd) atts)"
    and "retry_loop env n atts token lastErr (Some (cw_journal w), cache, cw_posts w) = (s, r)"
  shows "\<exists>w' cache'. call_run env p (snd ` set atts) token w r w' \<and> s = (Some (cw_journal w'), cache', cw_posts w')"
  using assms
proof (induction atts arbitrary: w cache lastErr)
  case Nil
  then show ?case
    using call_run_refl [OF Nil.prems(1), of env "snd ` set []" token "case lastErr of
        None \<Rightarrow> plain_error ''token refresh failed''
      | Some e \<Rightarrow> wrapped (''token refresh failed after '' @ format_int64 (int n) @ '' attempts: '') e"]
    by (intro exI [of _ w] exI [of _ cache]) simp
next
  case (Cons a atts)
  obtain wait att where a: "a = (wait, att)"
    by (cases a)
  show ?case
  proof (cases wait)
    case None
    obtain s1 r1 where call: "RefreshTokens env att token (Some (cw_journal w), cache, cw_posts w) = (s1, r1)"
      by fastforce
    have "fresh_owner att w"
      using Cons.prems(2) a by simp
    then obtain w1 cache1 where w1: "call_run env p {att} token w r1 w1" "s1 = (Some (cw_journal w1), cache1, cw_posts w1)"
      using RefreshTokens_runs [OF Cons.prems(1) _ call] by blast
    then have w1': "map_of (cw_callers w1) p = None" "set (cw_owners w1) \<subseteq> insert (at_owner att) (set (cw_owners w))"
      by (auto simp: call_run_def)
    have fresh1: "\<forall>b\<in>snd ` set atts. fresh_owner b w1"
      using Cons.prems(2,3) a w1'(2) by (force simp: fresh_owner_def)
    show ?thesis
    proof (cases "(s, r) = (s1, r1)")
      case True
      have "call_run env p (snd ` set (a # atts)) token w r1 w1"
        using w1(1) justified_mono [of env "{att}" token "cw_journal w1" "cw_posts w1" r1 "snd ` set (a # atts)"]
        by (auto simp: call_run_def a)
      then show ?thesis
        using True w1(2) by auto
    next
      case False
      then obtain e where "retry_loop env n atts token (Some e) (Some (cw_journal w1), cache1, cw_posts w1) = (s, r)"
        using Cons.prems(4) a None call w1(2) by (auto split: sum.splits if_splits)
      moreover have "distinct (map (at_owner \<circ> snd) atts)"
        using Cons.prems(3) by (simp add: comp_def)
      ultimately obtain w2 cache2 where "call_run env p (snd ` set atts) token w1 r w2"
        "s = (Some (cw_journal w2), cache2, cw_posts w2)"
        using Cons.IH [OF w1'(1) fresh1] by blast
      moreover from this(1) have "call_run env p (snd ` set (a # atts)) token w r w2"
        by (rule call_run_trans [OF w1(1)]) (auto simp: a)
      ultimately show ?thesis
        by blast
    qed
  next
    case (Some e)
    then show ?thesis
      using Cons.prems(4) a call_run_refl [OF Cons.prems(1), of env "snd ` set (a # atts)" token e]
      by (intro exI [of _ w] exI [of _ cache]) simp
  qed
qed

lemma codex_run_steps: "(codex_step env)\<^sup>*\<^sup>* w w' \<Longrightarrow> codex_run env w \<Longrightarrow> codex_run env w'"
  by (induction rule: rtranclp_induct) (auto intro: codex_more)

text \<open>
  C15. Refinement: a whole call of \<open>RefreshTokensWithRetry\<close> against the journal, with all its attempts
  and faults, is a sequence of the steps of the protocol, from the journal and the requests it meets to
  those it leaves, so what holds of every run holds of every sequence of such calls.  It sends no other grant
  than its own, and sends and writes nothing at all when the grant has a row already.  The tokens it returns
  are the receipt, now in the journal, of the grant that was sent, or what the receipts in the journal say.
\<close>

theorem codex_calls_are_runs:
  assumes "codex_run env w" "map_of (cw_callers w) p = None"
    and "\<forall>i. fresh_owner (snd (world i)) w" "inj (\<lambda>i. at_owner (snd (world i)))"
    and "RefreshTokensWithRetry env world maxRetries token (Some (cw_journal w), cache, cw_posts w) = ((j', cache', sent'), r)"
  defines "grant \<equiv> codex_grant env token"
  shows "\<exists>w'. codex_run env w' \<and> (codex_step env)\<^sup>*\<^sup>* w w' \<and> j' = Some (cw_journal w') \<and> sent' = cw_posts w'
    \<and> (\<exists>ps. sent' = ps @ cw_posts w \<and> set ps \<subseteq> {grant})
    \<and> (map_of (cw_journal w) grant \<noteq> None \<longrightarrow> cw_journal w' = cw_journal w \<and> sent' = cw_posts w)
    \<and> (\<forall>v. r = Inr v \<longrightarrow>
         grant \<in> set sent'
           \<and> map_of (cw_journal w') grant = Some \<lparr>jr_owner = [], jr_receipt = StoredReceipt (receipt_of token (Inr v))\<rparr>
         \<or> (\<exists>i. readRefreshReceipt env (at_now (snd (world i))) (at_reads (snd (world i))) (cw_journal w') grant token
              = Inr v))"
proof -
  let ?n = "if maxRetries \<le> 0 then 1 else nat maxRetries"
  let ?atts = "map (\<lambda>i. (if i = 0 then None else fst (world i), snd (world i))) [0..<?n]"
  have "retry_loop env ?n ?atts token None (Some (cw_journal w), cache, cw_posts w) = ((j', cache', sent'), r)"
    using assms(5) by (simp only: RefreshTokensWithRetry_def Let_def)
  moreover have "\<forall>att\<in>snd ` set ?atts. fresh_owner att w"
    using assms(3) by auto
  moreover have "distinct (map (at_owner \<circ> snd) ?atts)"
    using assms(4) by (simp add: distinct_map comp_def inj_on_subset)
  ultimately obtain w' where runs: "call_run env p (snd ` set ?atts) token w r w'" "j' = Some (cw_journal w')" "sent' = cw_posts w'"
    using retry_loop_runs [OF assms(2), of ?atts env ?n token None cache "(j', cache', sent')" r] by blast
  have "codex_run env w'"
    using codex_run_steps [OF _ assms(1)] runs(1) by (simp add: call_run_def)
  moreover have "justified env (range (\<lambda>i. snd (world i))) token (cw_journal w') sent' r"
  proof (rule justified_mono)
    show "justified env (snd ` set ?atts) token (cw_journal w') sent' r"
      using runs(1,3) by (simp add: call_run_def)
  qed auto
  ultimately show ?thesis
    by (intro exI [of _ w']) (use runs in \<open>simp add: call_run_def justified_def grant_def\<close>)
qed

definition lost_world :: "nat \<Rightarrow> goerr option \<times> refresh_attempt" where
  "lost_world i = (None, \<lparr>at_now = 0, at_ctxErr = None, at_runErr = None, at_exchange = ReadError (plain_error ''eof''),
     at_claim = NoFault, at_owner = replicate (Suc i) (CHR ''o''), at_reads = (\<lambda>n. None), at_finish = NoFault\<rparr>)"

lemma codex_calls_are_runs_witness:
  "\<exists>w'. codex_run codex_plain_env w' \<and> (codex_step codex_plain_env)\<^sup>*\<^sup>* codex_start w'
     \<and> fst (fst (RefreshTokensWithRetry codex_plain_env lost_world 3 ''r'' (Some [], [], []))) = Some (cw_journal w')
     \<and> snd (snd (fst (RefreshTokensWithRetry codex_plain_env lost_world 3 ''r'' (Some [], [], [])))) = cw_posts w'"
proof -
  obtain j' cache' sent' r where call: "RefreshTokensWithRetry codex_plain_env lost_world 3 ''r'' (Some [], [], [])
      = ((j', cache', sent'), r)"
    by (metis prod.collapse)
  have "inj (\<lambda>i. at_owner (snd (lost_world i)))"
    by (auto simp: inj_def lost_world_def)
  moreover have "\<forall>i. fresh_owner (snd (lost_world i)) codex_start" "map_of (cw_callers codex_start) 0 = None"
    by (simp_all add: fresh_owner_def lost_world_def codex_start_def)
  ultimately have "\<exists>w'. codex_run codex_plain_env w' \<and> (codex_step codex_plain_env)\<^sup>*\<^sup>* codex_start w'
      \<and> j' = Some (cw_journal w') \<and> sent' = cw_posts w'"
    using codex_calls_are_runs [OF codex_init, of 0 lost_world codex_plain_env 3 "''r''" "[]" j' cache' sent' r] call
    by (auto simp: codex_start_def)
  then show ?thesis
    using call by simp
qed

end
