(* ===== verification/Codex_Receipts.thy ===== *)
theory Codex_Receipts
  imports Codex_Journal
begin

declare map_of_eq_Some_iff [simp del]

section \<open>What a receipt and a fence tell later callers\<close>

text \<open>
  A receipt hands the tokens of a finished refresh to every later caller with the same grant, and a
  fence in the metadata of a credential keeps its current grant from being sent while a replaced grant
  is free.
\<close>

subsection \<open>The tokens of a finished refresh\<close>

lemma refreshTokens_success:
  assumes "refreshTokens env now ctxErr exch token = Inr v"
  shows "trim_space (td_AccessToken v) \<noteq> []"
  using assms
  by (auto simp: refreshTokens_def new_tokens_def Let_def split: option.splits exchange.splits if_splits prod.splits)

definition receipt_tokens :: "string \<Rightarrow> token_data \<Rightarrow> token_data" where
  "receipt_tokens token v = (if td_RefreshToken v = [] then v\<lparr>td_RefreshToken := token\<rparr> else v)"

lemma receipt_tokens_simps [simp]:
  "td_AccessToken (receipt_tokens token v) = td_AccessToken v"
  "td_Expire (receipt_tokens token v) = td_Expire v"
  "receipt_tokens token (receipt_tokens token v) = receipt_tokens token v"
  by (simp_all add: receipt_tokens_def)

lemma receipt_of_success: "receipt_of token (Inr v) = no_receipt\<lparr>rc_Tokens := Some (receipt_tokens token v)\<rparr>"
  by (simp add: receipt_of_def receipt_tokens_def)

lemma journalRefresh_done:
  assumes "journalRefresh env att token run (j, sent) = ((j', sent'), Inr v)"
    and "map_of j (codex_grant env token) = None" "at_owner att \<noteq> []"
  shows "snd (run sent) = Inr v"
    "map_of j' (codex_grant env token) = Some \<lparr>jr_owner = [], jr_receipt = StoredReceipt (receipt_of token (Inr v))\<rparr>"
proof -
  have "journal_finish env (at_finish att) token (at_owner att) (snd (run sent))
      (AList.update (codex_grant env token) (pending_row (at_owner att)) j) = (j', Inr v)"
    using assms by (auto simp: journalRefresh_def RefreshClaim_def Let_def split: db_fault.splits prod.splits)
  from journal_finish_done [OF this] show "snd (run sent) = Inr v"
    "map_of j' (codex_grant env token) = Some \<lparr>jr_owner = [], jr_receipt = StoredReceipt (receipt_of token (Inr v))\<rparr>"
    by simp_all
qed

text \<open>Reading a receipt with tokens whose grant was not refreshed in turn.\<close>

lemma readRefreshReceipt_tokens:
  assumes "map_of j key = Some \<lparr>jr_owner = owner, jr_receipt = StoredReceipt (no_receipt\<lparr>rc_Tokens := Some v\<rparr>)\<rparr>"
    and "trim_space (td_AccessToken v) \<noteq> []" "td_RefreshToken v \<noteq> []"
    and "codex_grant env (td_RefreshToken v) \<noteq> key \<Longrightarrow> map_of j (codex_grant env (td_RefreshToken v)) = None"
    and "\<And>n. reads n = None"
  shows "readRefreshReceipt env now reads j key token = usableRefreshReceipt env now token v"
proof (cases "trim_space (td_RefreshToken v) = [] \<or> codex_grant env (td_RefreshToken v) = key")
  case True
  then show ?thesis
    using assms(1,2,3,5) unfolding readRefreshReceipt_def
    by (subst readLoop.simps) (simp add: RefreshRead_def no_receipt_def Let_def)
next
  case False
  let ?next = "codex_grant env (td_RefreshToken v)"
  have "readLoop env now reads j token [key] ?next (td_RefreshToken v) (Some v) = usableRefreshReceipt env now token v"
    using assms(4,5) False by (subst readLoop.simps) (simp add: RefreshRead_def)
  then show ?thesis
    using assms(1,2,3,5) False unfolding readRefreshReceipt_def
    by (subst readLoop.simps) (simp add: RefreshRead_def no_receipt_def Let_def)
qed

text \<open>
  C16. Round trip: the tokens of a refresh that succeeded are what every later caller with the same
  grant gets, as long as they have not expired and their own grant has not been refreshed, and that
  caller sends nothing, whatever its request would do.
\<close>

theorem codex_second_caller:
  assumes first: "journalRefresh env att token (submitGrant env now ctxErr exch token) (j, sent) = ((j', sent'), Inr v)"
    and claimed: "map_of j (codex_grant env token) = None" "at_owner att \<noteq> []"
    and unrotated: "codex_grant env (td_RefreshToken v') \<noteq> codex_grant env token
      \<Longrightarrow> map_of j' (codex_grant env (td_RefreshToken v')) = None"
    and fresh: "cx_ParseTime env (td_Expire v) = Some expiry" "expiry > at_now later"
    and calm: "at_claim later = NoFault" "\<And>n. at_reads later n = None" and token: "token \<noteq> []"
    and v': "v' = receipt_tokens token v"
  shows "journalRefresh env later token run (j', sent2) = ((j', sent2), Inr v')"
proof -
  have run: "refreshTokens env now ctxErr exch token = Inr v"
    and row: "map_of j' (codex_grant env token) =
      Some \<lparr>jr_owner = [], jr_receipt = StoredReceipt (no_receipt\<lparr>rc_Tokens := Some v'\<rparr>)\<rparr>"
    using journalRefresh_done [OF first claimed] v' by (simp_all add: receipt_of_success submitGrant_def)
  have "readRefreshReceipt env (at_now later) (at_reads later) j' (codex_grant env token) token
      = usableRefreshReceipt env (at_now later) token v'"
  proof (rule readRefreshReceipt_tokens [OF row])
    show "trim_space (td_AccessToken v') \<noteq> []"
      using refreshTokens_success [OF run] v' by simp
    show "td_RefreshToken v' \<noteq> []"
      using token v' by (simp add: receipt_tokens_def)
  qed (use unrotated calm in auto)
  also have "\<dots> = Inr v'"
    using fresh v' by (simp add: usableRefreshReceipt_def)
  finally show ?thesis
    using row calm by (simp add: journalRefresh_def RefreshClaim_def Let_def)
qed

definition token_env :: codex_env where
  "token_env = \<lparr>cx_sha = (\<lambda>s. s),
     cx_json = (\<lambda>s. Some (JObject [(''access_token'', JString ''a''), (''refresh_token'', JString ''r2''), (''expires_in'', JNumber ''60'')])),
     cx_claims = (\<lambda>s. None), cx_ParseTime = (\<lambda>s. Some 60000000000), cx_FormatTime = (\<lambda>t. ''t'')\<rparr>"

definition token_attempt :: "string \<Rightarrow> refresh_attempt" where
  "token_attempt owner = \<lparr>at_now = 0, at_ctxErr = None, at_runErr = None, at_exchange = Response 200 [], at_claim = NoFault,
     at_owner = owner, at_reads = (\<lambda>n. None), at_finish = NoFault\<rparr>"

definition new_pair :: token_data where
  "new_pair = \<lparr>td_IDToken = [], td_AccessToken = ''a'', td_RefreshToken = ''r2'', td_AccountID = [], td_Email = [], td_Expire = ''t''\<rparr>"

lemma token_env_exchange: "refreshTokens token_env 0 None (Response 200 []) ''r1'' = Inr new_pair"
  by code_simp

lemma codex_second_caller_witness:
  "\<exists>j'. journalRefresh token_env (token_attempt ''o'') ''r1'' (submitGrant token_env 0 None (Response 200 []) ''r1'') ([], [])
       = ((j', [codex_grant token_env ''r1'']), Inr new_pair)
     \<and> journalRefresh token_env (token_attempt ''p'') ''r1'' (\<lambda>sent. (''again'' # sent, Inl (plain_error ''unused''))) (j', [])
       = ((j', []), Inr new_pair)"
proof -
  let ?key = "codex_grant token_env ''r1''"
  let ?row = "\<lparr>jr_owner = [], jr_receipt = StoredReceipt (receipt_of ''r1'' (Inr new_pair))\<rparr>"
  have keys: "codex_grant token_env ''r2'' \<noteq> ?key"
    by code_simp
  have first: "journalRefresh token_env (token_attempt ''o'') ''r1'' (submitGrant token_env 0 None (Response 200 []) ''r1'') ([], [])
      = (([(?key, ?row)], [?key]), Inr new_pair)"
    unfolding submitGrant_def token_env_exchange
    by (simp add: journalRefresh_def journal_finish_def RefreshClaim_def RefreshComplete_def owned_row_def
        pending_row_def token_attempt_def exchange_submits_def Let_def)
  have same: "receipt_tokens ''r1'' new_pair = new_pair"
    by (simp add: receipt_tokens_def new_pair_def)
  have "journalRefresh token_env (token_attempt ''p'') ''r1'' (\<lambda>sent. (''again'' # sent, Inl (plain_error ''unused'')))
      ([(?key, ?row)], []) = (([(?key, ?row)], []), Inr new_pair)"
  proof (rule codex_second_caller [OF first])
    show "map_of [(?key, ?row)] (codex_grant token_env (td_RefreshToken new_pair)) = None"
      using keys by (simp add: new_pair_def)
    show "cx_ParseTime token_env (td_Expire new_pair) = Some 60000000000"
      by (simp add: token_env_def)
  qed (simp_all add: token_attempt_def same)
  then show ?thesis
    using first by blast
qed

subsection \<open>Fences in the metadata\<close>

text \<open>The stage with which the current grant of a partition is fenced.\<close>

definition fenced_stage :: "(string \<Rightarrow> string) \<Rightarrow> metadata \<Rightarrow> bool \<Rightarrow> string option" where
  "fenced_stage sha m siwc =
     map_option snd (Option.bind (fst (RefreshOutcomeUnknown sha m siwc [])) (errors_As as_outcome))"

lemma fenced_stage_read:
  assumes "refreshPartition m siwc = (part, client, tok)" "tok \<noteq> []"
  shows "fenced_stage sha m siwc =
    (let state = as_map (map_of (as_map (map_of m RefreshOutcomeMetadataKey)) part)
     in if as_text (map_of state ''grant_sha256'') = refreshGrantFingerprint sha client tok
        then Some (known_stage (as_text (map_of state ''stage''))) else None)"
  using assms by (simp add: fenced_stage_def RefreshOutcomeUnknown_def NewRefreshOutcomeUnknownError_def Let_def)

lemma refreshPartition_name:
  "fst (refreshPartition m siwc) = (if siwc then ''siwc'' else ''outer'')"
  by (simp add: refreshPartition_def Let_def)

lemma refreshPartition_recorded:
  "refreshPartition (AList.update RefreshOutcomeMetadataKey v m) siwc = refreshPartition m siwc"
  by (cases siwc) (simp_all add: refreshPartition_def Let_def RefreshOutcomeMetadataKey_def)

lemma observation_known: "isJournalObservationStage (known_stage s) = isJournalObservationStage s"
  by (auto simp: isJournalObservationStage_def known_stage_def outcome_stages_def)

text \<open>A partition writes its own entry only, and decides by the outcomes before the loop.\<close>

lemma record_partition_other:
  assumes "part \<noteq> (if siwc then ''siwc'' else ''outer'')"
  shows "map_of (fst (record_partition sha m e previous acc siwc)) part = map_of (fst acc) part"
  using assms refreshPartition_name [of m siwc]
  by (auto simp: record_partition_def Let_def split: prod.splits option.splits)

lemma record_partition_matched: "snd acc \<Longrightarrow> snd (record_partition sha m e previous acc siwc)"
  by (auto simp: record_partition_def Let_def split: prod.splits option.splits)

definition keeps_stage :: "metadata \<Rightarrow> string \<Rightarrow> string \<Rightarrow> bool" where
  "keeps_stage state g stage \<longleftrightarrow> as_text (map_of state ''grant_sha256'') = g
     \<and> isJournalObservationStage stage \<and> \<not> isJournalObservationStage (as_text (map_of state ''stage''))"

lemma record_partition_self:
  assumes "refreshPartition m siwc = (part, client, tok)" "tok \<noteq> []"
    and "outcomeForGrant (Some e) (refreshGrantFingerprint sha client tok) = Some (g, stage)"
  shows "snd (record_partition sha m e previous acc siwc)"
    "map_of (fst (record_partition sha m e previous acc siwc)) part =
       (if keeps_stage (as_map (map_of previous part)) g stage then map_of (fst acc) part else Some (outcome_state g stage))"
  using assms by (cases acc; auto simp: record_partition_def keeps_stage_def Let_def)+

lemma recorded_outcomes:
  assumes "refreshPartition m siwc = (part, client, tok)" "tok \<noteq> []"
    and "outcomeForGrant (Some e) (refreshGrantFingerprint sha client tok) = Some (g, stage)"
  obtains outcomes where
    "fst (RecordRefreshOutcomeUnknown sha m (Some e)) = AList.update RefreshOutcomeMetadataKey (VMap outcomes) m"
    "map_of outcomes part =
       (let before = as_map (map_of m RefreshOutcomeMetadataKey)
        in if keeps_stage (as_map (map_of before part)) g stage then map_of before part else Some (outcome_state g stage))"
proof -
  let ?prev = "as_map (map_of m RefreshOutcomeMetadataKey)"
  let ?one = "record_partition sha m e ?prev (?prev, False) False"
  let ?two = "record_partition sha m e ?prev ?one True"
  note self = record_partition_self [OF assms]
  have part: "part = (if siwc then ''siwc'' else ''outer'')"
    using refreshPartition_name [of m siwc] assms(1) by simp
  have "snd ?two"
    using self(1) record_partition_matched by (cases siwc) auto
  moreover have "map_of (fst ?two) part =
      (if keeps_stage (as_map (map_of ?prev part)) g stage then map_of ?prev part else Some (outcome_state g stage))"
  proof (cases siwc)
    case True
    then show ?thesis
      using self(2) [of ?prev ?one] part by (simp add: record_partition_other)
  next
    case False
    then show ?thesis
      using self(2) [of ?prev "(?prev, False)"] part by (simp add: record_partition_other)
  qed
  ultimately show thesis
    by (intro that [of "fst ?two"]) (simp_all add: RecordRefreshOutcomeUnknown_def Let_def split_beta)
qed

lemma errors_As_node:
  "errors_As P e = Some x \<Longrightarrow> \<exists>node. P node = Some x"
  "errors_As_list P es = Some x \<Longrightarrow> \<exists>node. P node = Some x"
  by (induction P e and P es rule: errors_As_errors_As_list.induct) (auto split: option.splits)

lemma outcomeForGrant_grant: "outcomeForGrant err g = Some (g', stage) \<Longrightarrow> g' = g"
  by (auto simp: outcomeForGrant_def bind_eq_Some_conv split: option.splits if_splits dest!: errors_As_node(1))

text \<open>
  C17. Round trip: an unknown outcome of the current grant, once recorded, fences that grant with its
  stage, except that a failure to observe the journal never replaces the stage of an earlier exchange
  of the same grant; and as soon as the partition holds another grant the fence no longer applies.
\<close>

theorem codex_fence_recorded:
  assumes "refreshPartition m siwc = (part, client, tok)" "tok \<noteq> []"
    and "outcomeForGrant (Some e) (refreshGrantFingerprint sha client tok) = Some (g, stage)"
    and "m' = fst (RecordRefreshOutcomeUnknown sha m (Some e))"
    and "refreshPartition m2 siwc = (part, client2, tok2)" "tok2 \<noteq> []"
    and "map_of m2 RefreshOutcomeMetadataKey = map_of m' RefreshOutcomeMetadataKey"
  shows "fenced_stage sha m' siwc =
      Some (case fenced_stage sha m siwc of
          Some prior \<Rightarrow>
            if isJournalObservationStage stage \<and> \<not> isJournalObservationStage prior then prior else known_stage stage
        | None \<Rightarrow> known_stage stage)
    \<and> (fenced_stage sha m2 siwc = None \<longleftrightarrow>
        refreshGrantFingerprint sha client2 tok2 \<noteq> refreshGrantFingerprint sha client tok)"
proof -
  have g: "g = refreshGrantFingerprint sha client tok"
    by (rule outcomeForGrant_grant [OF assms(3)])
  let ?before = "as_map (map_of m RefreshOutcomeMetadataKey)"
  obtain outcomes where m': "m' = AList.update RefreshOutcomeMetadataKey (VMap outcomes) m"
    and entry: "map_of outcomes part =
       (if keeps_stage (as_map (map_of ?before part)) g stage then map_of ?before part else Some (outcome_state g stage))"
    by (rule recorded_outcomes [OF assms(1-3), unfolded Let_def]) (simp add: assms(4))
  define state where "state = as_map (map_of outcomes part)"
  have there: "as_map (map_of m' RefreshOutcomeMetadataKey) = outcomes"
    by (simp add: m' as_map_def)
  have part': "refreshPartition m' siwc = (part, client, tok)"
    using assms(1) by (simp add: m' refreshPartition_recorded)
  have grant: "as_text (map_of state ''grant_sha256'') = g"
    and stage: "as_text (map_of state ''stage'') = (if keeps_stage (as_map (map_of ?before part)) g stage
      then as_text (map_of (as_map (map_of ?before part)) ''stage'') else stage)"
    using entry by (simp_all add: state_def keeps_stage_def outcome_state_def as_map_def as_text_def)
  have "fenced_stage sha m' siwc = Some (known_stage (as_text (map_of state ''stage'')))"
    using grant by (simp add: fenced_stage_read [OF part' assms(2)] there g flip: state_def)
  moreover have "fenced_stage sha m siwc =
      (if as_text (map_of (as_map (map_of ?before part)) ''grant_sha256'') = g
       then Some (known_stage (as_text (map_of (as_map (map_of ?before part)) ''stage''))) else None)"
    by (simp add: fenced_stage_read [OF assms(1,2)] g Let_def)
  moreover have "fenced_stage sha m2 siwc = None \<longleftrightarrow> refreshGrantFingerprint sha client2 tok2 \<noteq> g"
    using grant by (auto simp: fenced_stage_read [OF assms(5,6)] assms(7) there Let_def simp flip: state_def)
  ultimately show ?thesis
    using g by (simp add: stage keeps_stage_def observation_known)
qed

text \<open>A submitted grant whose reply was lost; then the journal could not be read; then the token was replaced.\<close>

definition lost_metadata :: metadata where
  "lost_metadata = fst (RecordRefreshOutcomeUnknown (\<lambda>s. s) [(''refresh_token'', VString ''r1'')]
     (Some (GoErr (NOutcome (refreshGrantFingerprint (\<lambda>s. s) codexClientID ''r1'') ''response_read'') [])))"

lemma codex_fence_recorded_witness:
  "fenced_stage (\<lambda>s. s) (fst (RecordRefreshOutcomeUnknown (\<lambda>s. s) lost_metadata
      (Some (GoErr (NOutcome (refreshGrantFingerprint (\<lambda>s. s) codexClientID ''r1'') ''receipt_read'') [])))) False
     = Some ''response_read''
   \<and> fenced_stage (\<lambda>s. s) ((''refresh_token'', VString ''r2'') # fst (RecordRefreshOutcomeUnknown (\<lambda>s. s) lost_metadata
      (Some (GoErr (NOutcome (refreshGrantFingerprint (\<lambda>s. s) codexClientID ''r1'') ''receipt_read'') [])))) False = None"
proof -
  let ?g = "refreshGrantFingerprint (\<lambda>s. s) codexClientID ''r1''"
  let ?e = "GoErr (NOutcome ?g ''receipt_read'') []"
  let ?m = "fst (RecordRefreshOutcomeUnknown (\<lambda>s. s) lost_metadata (Some ?e))"
  have "refreshPartition lost_metadata False = (''outer'', codexClientID, ''r1'')"
    "refreshPartition ((''refresh_token'', VString ''r2'') # ?m) False = (''outer'', codexClientID, ''r2'')"
    "fenced_stage (\<lambda>s. s) lost_metadata False = Some ''response_read''"
    "isJournalObservationStage ''receipt_read''" "\<not> isJournalObservationStage ''response_read''"
    "refreshGrantFingerprint (\<lambda>s. s) codexClientID ''r2'' \<noteq> refreshGrantFingerprint (\<lambda>s. s) codexClientID ''r1''"
    by code_simp+
  then show ?thesis
    using codex_fence_recorded [of lost_metadata False "''outer''" codexClientID "''r1''" ?e "\<lambda>s. s" ?g "''receipt_read''" ?m
        "(''refresh_token'', VString ''r2'') # ?m" codexClientID "''r2''"]
    by (simp add: outcomeForGrant_def RefreshOutcomeMetadataKey_def)
qed

end
