(* ===== verification/Refresh_State.thy ===== *)
theory Refresh_State
  imports Codex_Outcome Refresh_Due
begin

declare map_of_eq_Some_iff [simp del]

section \<open>What a refresh does to a credential\<close>

text \<open>
  The functions of \<^verbatim>\<open>manager.go\<close> that a refresh ends with: \<^verbatim>\<open>ApplyRefreshFailureState\<close>,
  \<^verbatim>\<open>ApplyUnsupportedRefreshBackoff\<close> and \<^verbatim>\<open>applyRefreshSuccessState\<close>, with the classification of its failures.  A
  failure that no retry can heal disables the credential; any other failure takes it out of dispatch
  until the next attempt, unless its access token is known to be good for a while; a success lifts what
  the refresh and rejected tokens had blocked and leaves quotas and other errors alone.

  The redaction of diagnostics for the log is a parameter.
\<close>

record refresh_io =
  io_Safe :: "string \<Rightarrow> string" \<comment> \<open>\<^verbatim>\<open>logging.SafeDiagnosticForLog\<close>\<close>
  io_SafeError :: "goerr \<Rightarrow> string" \<comment> \<open>\<^verbatim>\<open>logging.SafeErrorDiagnostic\<close>\<close>
  io_Nano :: "gotime \<Rightarrow> string" \<comment> \<open>\<^verbatim>\<open>t.UTC().Format(time.RFC3339Nano)\<close>\<close>

subsection \<open>Errors\<close>

definition refreshAuthErrorCode :: string where
  "refreshAuthErrorCode = ''authentication_error''"

definition refreshAuthErrorMsg :: string where
  "refreshAuthErrorMsg = ''credential unauthorized''"

definition refreshUnsupportedCode :: string where
  "refreshUnsupportedCode = ''refresh_unsupported''"

definition ErrorCodeRefreshOutcomeUnknown :: string where
  "ErrorCodeRefreshOutcomeUnknown = ''refresh_outcome_unknown''"

definition ErrRefreshUnsupported :: auth_error where
  "ErrRefreshUnsupported = \<lparr>err_Code = refreshUnsupportedCode,
     err_Message = ''credential does not support refresh'', err_Diagnostic = [], err_Retryable = False,
     err_HTTPStatus = 503, err_Upstream = None\<rparr>"

definition newTransientRefreshError :: auth_error where
  "newTransientRefreshError = \<lparr>err_Code = refreshTransientErrorCode,
     err_Message = ''credential refresh temporarily unavailable'', err_Diagnostic = [], err_Retryable = True,
     err_HTTPStatus = 503, err_Upstream = None\<rparr>"

definition newUnauthorizedRefreshError :: auth_error where
  "newUnauthorizedRefreshError = \<lparr>err_Code = refreshAuthErrorCode, err_Message = refreshAuthErrorMsg,
     err_Diagnostic = [], err_Retryable = False, err_HTTPStatus = 401, err_Upstream = None\<rparr>"

definition refreshErrorDiagnostic :: "refresh_io \<Rightarrow> goerr \<Rightarrow> string" where
  "refreshErrorDiagnostic io errRefresh =
     (let rest = (case errors_As as_provider errRefresh of
            Some d \<Rightarrow> io_Safe io d
          | None \<Rightarrow> io_SafeError io errRefresh)
      in case errors_As as_auth errRefresh of
           None \<Rightarrow> rest
         | Some e \<Rightarrow>
             let diagnostic = io_Safe io (err_Diagnostic e)
             in if diagnostic \<noteq> [] then diagnostic
                else case err_Upstream e of
                    Some u \<Rightarrow> ''credential refresh upstream response: status='' @ format_int64 (ur_Status u)
                  | None \<Rightarrow> rest)"

definition copyUpstreamResponse :: "auth_error \<Rightarrow> goerr \<Rightarrow> auth_error" where
  "copyUpstreamResponse target errRefresh =
     (case errors_As as_response errRefresh of
        None \<Rightarrow> target
      | Some r \<Rightarrow> target\<lparr>err_Upstream := Some \<lparr>ur_Status = rs_statusCode r, ur_Body = rs_body r\<rparr>\<rparr>)"

text \<open>The common part of the two constructors: the diagnostic and the response of the provider.\<close>

definition refresh_error_from :: "refresh_io \<Rightarrow> auth_error \<Rightarrow> goerr \<Rightarrow> auth_error" where
  "refresh_error_from io base errRefresh =
     (let result = base\<lparr>err_Diagnostic := refreshErrorDiagnostic io errRefresh\<rparr>
      in case Option.bind (errors_As as_auth errRefresh) err_Upstream of
           Some u \<Rightarrow> result\<lparr>err_Upstream := Some \<lparr>ur_Status = ur_Status u, ur_Body = ur_Body u\<rparr>\<rparr>
         | None \<Rightarrow> copyUpstreamResponse result errRefresh)"

definition newTransientRefreshErrorFrom :: "refresh_io \<Rightarrow> goerr \<Rightarrow> auth_error" where
  "newTransientRefreshErrorFrom io errRefresh = refresh_error_from io newTransientRefreshError errRefresh"

definition newUnauthorizedRefreshErrorFrom :: "refresh_io \<Rightarrow> goerr \<Rightarrow> auth_error" where
  "newUnauthorizedRefreshErrorFrom io errRefresh = refresh_error_from io newUnauthorizedRefreshError errRefresh"

definition terminal_signals :: "string list" where
  "terminal_signals =
     [''token has been expired or revoked'', ''refresh token has expired'', ''refresh token is expired'',
      ''refresh token expired'', ''refresh token has been revoked'', ''refresh token is revoked'',
      ''refresh token revoked'', ''refresh token has been reused'', ''refresh token is reused'',
      ''refresh token reused'']"

definition isTerminalOAuthRefreshDescription :: "string \<Rightarrow> bool" where
  "isTerminalOAuthRefreshDescription description =
     (let normalized = normalized_words description
      in if normalized = [] then False else list_ex (contains normalized) terminal_signals)"

definition terminal_oauth :: "oauth_response \<Rightarrow> bool" where
  "terminal_oauth upstream =
     (let code0 = to_lower (trim_space (rs_oauthError upstream));
          code = (if code0 = [] then to_lower (trim_space (rs_code upstream)) else code0)
      in if List.member terminal_codes code then True
         else isTerminalOAuthRefreshDescription (response_description upstream))"

definition isTerminalRefreshAuthError :: "goerr option \<Rightarrow> bool" where
  "isTerminalRefreshAuthError errRefresh =
     (case errRefresh of
        None \<Rightarrow> False
      | Some err \<Rightarrow>
          if errors_Is NCanceled err \<or> errors_Is NDeadlineExceeded err \<or> IsRefreshOutcomeUnknown err then False
          else
            let code = (case errors_As as_auth err of Some e \<Rightarrow> to_lower (trim_space (err_Code e)) | None \<Rightarrow> []);
                raw = to_lower (err_text err)
            in if code = refreshAuthErrorCode
               then (case errors_As as_auth err of
                   Some e \<Rightarrow> equal_fold (trim_space (err_Message e)) refreshAuthErrorMsg | None \<Rightarrow> False)
               else if List.member terminal_codes code then True
               else case errors_As as_response err of
                   Some upstream \<Rightarrow> terminal_oauth upstream
                 | None \<Rightarrow> list_ex (contains raw) terminal_codes \<or> isTerminalOAuthRefreshDescription raw)"

subsection \<open>States\<close>

definition isRefreshAcquisitionError :: "auth_error option \<Rightarrow> bool" where
  "isRefreshAcquisitionError authErr =
     (case authErr of
        None \<Rightarrow> False
      | Some e \<Rightarrow>
          List.member [refreshTransientErrorCode, refreshUnsupportedCode, ErrorCodeRefreshOutcomeUnknown]
            (to_lower (trim_space (err_Code e))))"

definition isRefreshAcquisitionState :: "auth \<Rightarrow> bool" where
  "isRefreshAcquisitionState a \<longleftrightarrow> au_RuntimeRefreshBlocked a \<or> isRefreshAcquisitionError (au_LastError a)"

definition unauthorized_error :: "string \<Rightarrow> auth_error option \<Rightarrow> bool" where
  "unauthorized_error message err =
     (if equal_fold (trim_space message) ''unauthorized'' then True
      else case err of
          None \<Rightarrow> False
        | Some e \<Rightarrow> StatusCode (Some e) = 401 \<or> equal_fold (trim_space (err_Code e)) ''unauthorized'')"

definition isUnauthorizedAuthState :: "auth \<Rightarrow> bool" where
  "isUnauthorizedAuthState a = unauthorized_error (au_StatusMessage a) (au_LastError a)"

definition isUnauthorizedModelState :: "model_state option \<Rightarrow> bool" where
  "isUnauthorizedModelState state =
     (case state of None \<Rightarrow> False | Some s \<Rightarrow> unauthorized_error (ms_StatusMessage s) (ms_LastError s))"

definition latestModelErrorState :: "auth \<Rightarrow> gotime \<Rightarrow> model_state option" where
  "latestModelErrorState a now = latest_loop (\<lambda>s. state_has_error now (Some s)) (au_ModelStates a) None"

definition hasHigherPriorityExecutionError :: "auth \<Rightarrow> gotime \<Rightarrow> bool" where
  "hasHigherPriorityExecutionError a now =
     (if au_Unavailable a \<or> hasModelError a now then True
      else au_LastError a \<noteq> None \<and> \<not> isRefreshAcquisitionState a)"

definition RefreshRetryBackoffOpen :: "auth option \<Rightarrow> gotime \<Rightarrow> bool" where
  "RefreshRetryBackoffOpen auth now = (case auth of None \<Rightarrow> False | Some a \<Rightarrow> au_NextRefreshAfter a > now)"

definition antigravityTokenSafeForDispatch :: "time_readers \<Rightarrow> auth option \<Rightarrow> gotime \<Rightarrow> bool" where
  "antigravityTokenSafeForDispatch tr auth now =
     (case auth of
        None \<Rightarrow> False
      | Some a \<Rightarrow>
          if \<not> equal_fold (trim_space (au_Provider a)) ''antigravity'' \<or> accessTokenForFingerprint (Some a) = []
          then False
          else if isUnauthorizedAuthState a then False
          else if list_ex (\<lambda>(m, s). isUnauthorizedModelState s) (au_ModelStates a) then False
          else (case ExpirationTime tr a of
              None \<Rightarrow> False
            | Some expiresAt \<Rightarrow> expiresAt > now + refreshFailureBackoff))"

subsection \<open>Lifting the block of a refresh\<close>

definition quota_message :: "quota_state \<Rightarrow> string" where
  "quota_message q = (if trim_space (q_Reason q) = [] then ''quota exceeded'' else trim_space (q_Reason q))"

definition quota_only_error :: "string \<Rightarrow> auth_error" where
  "quota_only_error message = \<lparr>err_Code = [], err_Message = message, err_Diagnostic = [], err_Retryable = True,
     err_HTTPStatus = 429, err_Upstream = None\<rparr>"

text \<open>The flags computed first: a quota of the whole credential still runs, its error has expired, another error stays.\<close>

definition preserves_quota :: "auth \<Rightarrow> gotime \<Rightarrow> bool" where
  "preserves_quota a now \<longleftrightarrow> hasLegacyCredentialQuota a \<and> q_NextRecoverAt (au_Quota a) > now"

definition expired_quota_error :: "auth \<Rightarrow> gotime \<Rightarrow> bool" where
  "expired_quota_error a now \<longleftrightarrow> hasLegacyCredentialQuota a \<and> \<not> preserves_quota a now \<and> au_LastError a \<noteq> None
     \<and> statusCodeFromResult (au_LastError a) = 429 \<and> \<not> authErrorMirroredByModel a"

definition preserves_error :: "auth \<Rightarrow> gotime \<Rightarrow> bool" where
  "preserves_error a now \<longleftrightarrow> au_LastError a \<noteq> None \<and> \<not> isRefreshAcquisitionError (au_LastError a)
     \<and> \<not> expired_quota_error a now \<and> \<not> authErrorMirroredByModel a"

text \<open>The credential before its status is decided: the flag and the error of the refresh are gone, the aggregate is new.\<close>

definition block_lifted :: "auth \<Rightarrow> gotime \<Rightarrow> auth" where
  "block_lifted a now =
     (let a1 = a\<lparr>au_RuntimeRefreshBlocked := False\<rparr>;
          a2 = (if isRefreshAcquisitionError (au_LastError a1) \<or> expired_quota_error a now
                then a1\<lparr>au_LastError := None, au_StatusMessage := []\<rparr> else a1);
          a3 = updateAggregatedAvailability a2 now
      in if preserves_quota a now then a3\<lparr>au_Quota := au_Quota a\<rparr> else a3)"

definition clearRefreshDispatchBlock :: "auth \<Rightarrow> gotime \<Rightarrow> auth" where
  "clearRefreshDispatchBlock a now =
     (let b = block_lifted a now
      in if au_Disabled b \<or> au_Status b = StatusDisabled
         then b\<lparr>au_Status := StatusDisabled, au_Unavailable := True\<rparr>
         else if preserves_quota a now
         then (let b1 = b\<lparr>au_Status := StatusError\<rparr>;
                   b2 = (if preserves_error a now
                         then b1\<lparr>au_StatusMessage := (if au_StatusMessage a = []
                                then (case au_LastError a of Some e \<Rightarrow> err_Message e | None \<Rightarrow> [])
                                else au_StatusMessage a),
                              au_LastError := cloneError (au_LastError a)\<rparr>
                         else b1\<lparr>au_StatusMessage := quota_message (au_Quota a),
                              au_LastError := Some (quota_only_error (quota_message (au_Quota a)))\<rparr>)
               in b2\<lparr>au_Unavailable := True, au_NextRetryAfter := q_NextRecoverAt (au_Quota a)\<rparr>)
         else if preserves_error a now
         then b\<lparr>au_Status := au_Status a, au_StatusMessage := au_StatusMessage a,
                au_LastError := cloneError (au_LastError a), au_Unavailable := au_Unavailable a,
                au_NextRetryAfter := au_NextRetryAfter a\<rparr>
         else case latestModelErrorState b now of
             Some modelError \<Rightarrow>
               b\<lparr>au_Status := StatusError,
                 au_LastError := cloneError (ms_LastError modelError),
                 au_StatusMessage := (if ms_StatusMessage modelError = []
                   then (case ms_LastError modelError of Some e \<Rightarrow> err_Message e | None \<Rightarrow> [])
                   else ms_StatusMessage modelError)\<rparr>
           | None \<Rightarrow> b\<lparr>au_Status := StatusActive, au_StatusMessage := []\<rparr>)"

subsection \<open>A failed refresh\<close>

definition is_codex :: "auth \<Rightarrow> bool" where
  "is_codex a = equal_fold (trim_space (au_Provider a)) ''codex''"

definition unknown_outcome :: "auth \<Rightarrow> goerr \<Rightarrow> bool" where
  "unknown_outcome a errRefresh \<longleftrightarrow> is_codex a \<and>
     (IsRefreshOutcomeUnknown errRefresh
      \<or> (case errors_As as_auth errRefresh of
           Some e \<Rightarrow> err_Code e = ErrorCodeRefreshOutcomeUnknown | None \<Rightarrow> False))"

text \<open>When the next attempt may start: a token that is still good leaves time before it expires.\<close>

definition refresh_retry_at :: "time_readers \<Rightarrow> auth \<Rightarrow> gotime \<Rightarrow> gotime" where
  "refresh_retry_at tr a now =
     (let retryAt = now + refreshFailureBackoff
      in if antigravityTokenSafeForDispatch tr (Some a) now
         then (let expiresAt = (case ExpirationTime tr a of Some t \<Rightarrow> t | None \<Rightarrow> 0);
                   safetyDeadline = expiresAt + - refreshFailureBackoff
               in if safetyDeadline < retryAt then safetyDeadline else retryAt)
         else retryAt)"

definition refresh_failure :: "refresh_io \<Rightarrow> bool \<Rightarrow> gotime \<Rightarrow> goerr \<Rightarrow> auth_error" where
  "refresh_failure io unknownOutcome retryAt errRefresh =
     (let f = newTransientRefreshErrorFrom io errRefresh;
          f = (if unknownOutcome
               then f\<lparr>err_Code := ErrorCodeRefreshOutcomeUnknown,
                      err_Message := ''credential refresh outcome unknown; replace the refresh credentials before retrying'',
                      err_Retryable := False, err_Upstream := None\<rparr>
               else f)
      in if err_Diagnostic f \<noteq> [] \<and> \<not> contains (err_Diagnostic f) ''retry_at=''
         then f\<lparr>err_Diagnostic := io_Safe io (err_Diagnostic f @ '' retry_at='' @ io_Nano io retryAt)\<rparr> else f)"

text \<open>The credential the failure is applied to: its metadata hold the fence of a Codex grant.\<close>

definition fenced :: "(string \<Rightarrow> string) \<Rightarrow> goerr \<Rightarrow> auth \<Rightarrow> auth" where
  "fenced sha e a = (if is_codex a then a\<lparr>au_Metadata := fst (RecordRefreshOutcomeUnknown sha (au_Metadata a) (Some e))\<rparr> else a)"

text \<open>The branch of a token that is still good: only a block of an earlier refresh is lifted.\<close>

definition kept_dispatchable :: "auth \<Rightarrow> gotime \<Rightarrow> gotime \<Rightarrow> auth_error \<Rightarrow> auth" where
  "kept_dispatchable a retryAt now refreshFailure =
     (let wasRefreshBlocked = (RefreshBlocksDispatch (Some a) \<and> isRefreshAcquisitionState a);
          a1 = a\<lparr>au_LastRefreshError := cloneError (Some refreshFailure), au_NextRefreshAfter := retryAt\<rparr>;
          a2 = (if wasRefreshBlocked then clearRefreshDispatchBlock a1 now else a1);
          a3 = (if \<not> hasHigherPriorityExecutionError a2 now
                then a2\<lparr>au_LastError := cloneError (Some refreshFailure), au_StatusMessage := [],
                       au_Status := (if \<not> au_Disabled a2 \<and> au_Status a2 \<noteq> StatusDisabled
                                     then StatusActive else au_Status a2)\<rparr>
                else a2)
      in a3\<lparr>au_UpdatedAt := now\<rparr>)"

text \<open>The branch that takes the credential out of dispatch.\<close>

definition refresh_blocked :: "auth \<Rightarrow> gotime \<Rightarrow> gotime \<Rightarrow> auth_error \<Rightarrow> auth" where
  "refresh_blocked a retryAt now refreshFailure =
     a\<lparr>au_LastRefreshError := cloneError (Some refreshFailure), au_NextRefreshAfter := retryAt,
       au_LastError := cloneError (Some refreshFailure), au_NextRetryAfter := retryAt,
       au_Unavailable := True, au_RuntimeRefreshBlocked := True, au_Status := StatusError,
       au_StatusMessage := err_Message refreshFailure, au_UpdatedAt := now\<rparr>"

definition ApplyRefreshFailureState ::
    "(string \<Rightarrow> string) \<Rightarrow> time_readers \<Rightarrow> refresh_io \<Rightarrow> auth \<Rightarrow> goerr option \<Rightarrow> gotime
     \<Rightarrow> auth \<times> auth_error option" where
  "ApplyRefreshFailureState sha tr io a0 err now =
     (case err of
        None \<Rightarrow> (a0, None)
      | Some errRefresh \<Rightarrow>
          let a = fenced sha errRefresh a0;
              unknownOutcome = unknown_outcome a errRefresh
          in if \<not> unknownOutcome \<and> isTerminalRefreshAuthError err
             then let refreshFailure = newUnauthorizedRefreshErrorFrom io errRefresh
                  in (fst (disableAuthAfterUnauthorized a None (Some refreshFailure) now), Some refreshFailure)
             else
               let retryAt = refresh_retry_at tr a now;
                   refreshFailure = refresh_failure io unknownOutcome retryAt errRefresh
               in (if antigravityTokenSafeForDispatch tr (Some a) now
                   then kept_dispatchable a retryAt now refreshFailure
                   else refresh_blocked a retryAt now refreshFailure, Some refreshFailure))"

definition unsupportedRefreshDiagnostic :: "refresh_io \<Rightarrow> auth \<Rightarrow> string" where
  "unsupportedRefreshDiagnostic io a =
     (let value = to_lower (trim_space (au_Provider a));
          provider = (if value \<noteq> [] then value else ''unknown'');
          reason = (if List.member [''codex'', ''claude'', ''kimi'', ''kimi-ai'', ''antigravity'', ''xai''] provider
                       \<and> trim_space (metaStringValue (au_Metadata a) ''refresh_token'') = []
                    then ''missing_refresh_token'' else ''no_refresh_handler'')
      in io_Safe io (''credential refresh unsupported: provider='' @ provider @ '' reason='' @ reason))"

definition ApplyUnsupportedRefreshBackoff :: "refresh_io \<Rightarrow> auth \<Rightarrow> gotime \<Rightarrow> auth" where
  "ApplyUnsupportedRefreshBackoff io a now =
     (let refreshFailure = ErrRefreshUnsupported\<lparr>err_Diagnostic := unsupportedRefreshDiagnostic io a\<rparr>;
          a1 = a\<lparr>au_NextRefreshAfter := now + refreshFailureBackoff, au_LastRefreshError := cloneError (Some refreshFailure)\<rparr>;
          a2 = clearRefreshDispatchBlock a1 now;
          a3 = (if \<not> hasHigherPriorityExecutionError a2 now
                then a2\<lparr>au_LastError := cloneError (Some refreshFailure), au_StatusMessage := []\<rparr> else a2)
      in a3\<lparr>au_UpdatedAt := now\<rparr>)"

definition CanUseObservedTokenAfterRefreshFailure ::
    "(string \<Rightarrow> string) \<Rightarrow> time_readers \<Rightarrow> auth option \<Rightarrow> string \<Rightarrow> goerr option \<Rightarrow> gotime \<Rightarrow> bool" where
  "CanUseObservedTokenAfterRefreshFailure sha tr auth observed err now =
     (case (auth, err) of
        (Some a, Some e) \<Rightarrow>
          if authRefreshDisabled auth \<or> errors_Is NCanceled e \<or> errors_Is NDeadlineExceeded e
             \<or> isTerminalRefreshAuthError err
             \<or> (case au_LastError a of Some le \<Rightarrow> isTerminalRefreshAuthError (Some (GoErr (NAuth le) [])) | None \<Rightarrow> False)
             \<or> \<not> antigravityTokenSafeForDispatch tr auth now
          then False
          else (let (observedHash, okObserved) = normalizeSHA256Hex observed;
                    (currentHash, okCurrent) = normalizeSHA256Hex (AccessTokenSHA256 sha auth)
                in okObserved \<and> okCurrent \<and> observedHash = currentHash)
      | _ \<Rightarrow> False)"

subsection \<open>A successful refresh\<close>

text \<open>A rejected model is active again, unless its quota is still exhausted; the flag says which.\<close>

definition resetUnauthorizedModelStateAfterRefresh :: "model_state \<Rightarrow> gotime \<Rightarrow> model_state \<times> bool" where
  "resetUnauthorizedModelStateAfterRefresh state now =
     (let quota = ms_Quota state;
          s = resetModelState state now
      in if q_Exceeded quota \<and> q_NextRecoverAt quota > now
         then (s\<lparr>ms_Status := StatusError, ms_StatusMessage := trim_space (q_Reason quota), ms_Unavailable := True,
                 ms_NextRetryAfter := q_NextRecoverAt quota, ms_Quota := quota\<rparr>, False)
         else (s, True))"

definition reset_if_unauthorized :: "gotime \<Rightarrow> model_state option \<Rightarrow> model_state option" where
  "reset_if_unauthorized now state =
     (case state of
        Some s \<Rightarrow> if isUnauthorizedModelState state then Some (fst (resetUnauthorizedModelStateAfterRefresh s now)) else state
      | None \<Rightarrow> None)"

definition resumed_models :: "gotime \<Rightarrow> (string, model_state option) gomap \<Rightarrow> string list" where
  "resumed_models now states =
     map fst (filter (\<lambda>(m, state). case state of
         Some s \<Rightarrow> isUnauthorizedModelState state \<and> snd (resetUnauthorizedModelStateAfterRefresh s now)
       | None \<Rightarrow> False) states)"

text \<open>The writes before the block of the refresh is lifted.\<close>

definition refreshed_base :: "auth \<Rightarrow> gotime \<Rightarrow> auth" where
  "refreshed_base a now =
     (let a1 = a\<lparr>au_LastRefreshedAt := now, au_NextRefreshAfter := 0, au_LastRefreshError := None, au_UpdatedAt := now\<rparr>;
          a2 = (if isUnauthorizedAuthState a
                then a1\<lparr>au_NextRetryAfter := 0, au_Unavailable := False, au_LastError := None, au_StatusMessage := []\<rparr>
                else a1)
      in a2\<lparr>au_ModelStates := map (\<lambda>(m, s). (m, reset_if_unauthorized now s)) (au_ModelStates a)\<rparr>)"

definition applyRefreshSuccessState :: "auth \<Rightarrow> gotime \<Rightarrow> auth \<times> string list" where
  "applyRefreshSuccessState a now =
     (let wasDisabled = (au_Disabled a \<or> au_Status a = StatusDisabled);
          clearUnauthorizedAuth = isUnauthorizedAuthState a;
          clearRefreshAcquisition = isRefreshAcquisitionState a;
          clearExpiredCredentialQuota = (hasLegacyCredentialQuota a \<and> \<not> q_NextRecoverAt (au_Quota a) > now);
          resumed = resumed_models now (au_ModelStates a);
          b = (if clearRefreshAcquisition \<or> clearUnauthorizedAuth \<or> clearExpiredCredentialQuota \<or> resumed \<noteq> []
               then clearRefreshDispatchBlock (refreshed_base a now) now else refreshed_base a now)
      in (if wasDisabled then b\<lparr>au_Status := StatusDisabled, au_Unavailable := True\<rparr> else b, resumed))"

definition refreshedUnauthorizedModels :: "auth \<Rightarrow> auth \<Rightarrow> string list" where
  "refreshedUnauthorizedModels before after =
     map fst (filter (\<lambda>(m, s). isUnauthorizedModelState s \<and>
       (case model_state_at after m of None \<Rightarrow> True | Some next \<Rightarrow> \<not> isUnauthorizedModelState (Some next)))
       (au_ModelStates before))"

subsection \<open>What the block leaves behind\<close>

text \<open>No model carries an error of a refresh: only results of requests write the errors of models.\<close>

definition model_errors_plain :: "auth \<Rightarrow> bool" where
  "model_errors_plain a \<longleftrightarrow>
     (\<forall>s\<in>set (live_states (au_ModelStates a)). \<not> isRefreshAcquisitionError (ms_LastError s))"

lemma transient_is_acquisition:
  assumes "\<not> isRefreshAcquisitionError (au_LastError a)" "\<not> au_RuntimeRefreshBlocked a"
  shows "\<not> RefreshBlocksDispatch (Some a)"
proof -
  have "to_lower refreshTransientErrorCode = refreshTransientErrorCode"
    by code_simp
  then show ?thesis
    using assms by (auto simp: isRefreshAcquisitionError_def RefreshBlocksDispatch_def equal_fold_def split: option.splits)
qed

lemma settle_last_error [simp]: "ms_LastError (settle now s) = ms_LastError s"
  by (simp add: settle_def)

lemma live_states_settle:
  "live_states (map (\<lambda>(m, s). (m, map_option (settle now) s)) states) = map (settle now) (live_states states)"
proof (induction states)
  case (Cons ms states)
  then show ?case
    by (cases ms; cases "snd ms") auto
qed simp

lemma latest_loop_mem: "latest_loop P states acc = Some s \<Longrightarrow> acc = Some s \<or> s \<in> set (live_states states)"
proof (induction states arbitrary: acc)
  case (Cons ms states)
  obtain m st where ms: "ms = (m, st)"
    by (cases ms)
  show ?case
    using Cons.prems by (cases st) (auto simp: ms dest!: Cons.IH split: if_splits option.splits)
qed simp

lemma block_lifted_states:
  "au_ModelStates (block_lifted a now) = map (\<lambda>(m, s). (m, map_option (settle now) s)) (au_ModelStates a)"
  by (simp add: block_lifted_def updateAggregatedAvailability_eq settle_all_def Let_def)

lemma block_lifted_fields [simp]:
  "au_RuntimeRefreshBlocked (block_lifted a now) = False"
  "au_Disabled (block_lifted a now) = au_Disabled a"
  "au_Status (block_lifted a now) = au_Status a"
  "\<not> isRefreshAcquisitionError (au_LastError (block_lifted a now))"
  by (auto simp: block_lifted_def Let_def isRefreshAcquisitionError_def)

lemma latest_plain:
  assumes "model_errors_plain a" "latestModelErrorState (block_lifted a now) now = Some s"
  shows "\<not> isRefreshAcquisitionError (ms_LastError s)"
proof -
  have "s \<in> settle now ` set (live_states (au_ModelStates a))"
    using assms(2) latest_loop_mem
    by (fastforce simp: latestModelErrorState_def block_lifted_states live_states_settle)
  then show ?thesis
    using assms(1) by (auto simp: model_errors_plain_def)
qed

lemma quota_error_plain: "\<not> isRefreshAcquisitionError (Some (quota_only_error message))"
  by (simp add: isRefreshAcquisitionError_def quota_only_error_def refreshTransientErrorCode_def
      refreshUnsupportedCode_def ErrorCodeRefreshOutcomeUnknown_def trim_space_Nil to_lower_def)

lemma clear_not_acquisition:
  assumes "model_errors_plain a"
  shows "\<not> isRefreshAcquisitionError (au_LastError (clearRefreshDispatchBlock a now))"
    "\<not> au_RuntimeRefreshBlocked (clearRefreshDispatchBlock a now)"
  using latest_plain [OF assms, of now] quota_error_plain
  by (simp_all add: clearRefreshDispatchBlock_def preserves_error_def Let_def split: option.split)

lemma clear_fields:
  "au_ModelStates (clearRefreshDispatchBlock a now) = map (\<lambda>(m, s). (m, map_option (settle now) s)) (au_ModelStates a)"
  "au_Disabled (clearRefreshDispatchBlock a now) = au_Disabled a"
  "au_Status (clearRefreshDispatchBlock a now) = StatusDisabled \<longleftrightarrow> au_Disabled a \<or> au_Status a = StatusDisabled"
  by (simp_all add: clearRefreshDispatchBlock_def block_lifted_states Let_def split: option.split)

lemma clear_not_blocked:
  "model_errors_plain a \<Longrightarrow> \<not> RefreshBlocksDispatch (Some (clearRefreshDispatchBlock a now))"
  by (intro transient_is_acquisition clear_not_acquisition)

subsection \<open>A success restores dispatch\<close>

lemma model_state_at_mapped:
  "au_ModelStates b = map (\<lambda>(k, s). (k, f s)) (au_ModelStates a) \<Longrightarrow> f None = None \<Longrightarrow>
   model_state_at b m = f (model_state_at a m)"
  by (simp add: model_state_at_def gomap_get_def map_of_map_option split: option.splits)

lemma refreshed_base_fields:
  "au_ModelStates (refreshed_base a now) = map (\<lambda>(m, s). (m, reset_if_unauthorized now s)) (au_ModelStates a)"
  "au_Disabled (refreshed_base a now) = au_Disabled a"
  "au_Status (refreshed_base a now) = au_Status a"
  "au_RuntimeRefreshBlocked (refreshed_base a now) = au_RuntimeRefreshBlocked a"
  "\<not> isUnauthorizedAuthState a \<Longrightarrow> au_LastError (refreshed_base a now) = au_LastError a"
  by (simp_all add: refreshed_base_def Let_def)

lemma reset_error:
  "reset_if_unauthorized now st = Some s \<Longrightarrow> ms_LastError s = None \<or> st = Some s"
  by (auto simp: reset_if_unauthorized_def resetUnauthorizedModelStateAfterRefresh_def resetModelState_def Let_def
      split: option.splits if_splits)

lemma refreshed_base_plain:
  assumes "model_errors_plain a"
  shows "model_errors_plain (refreshed_base a now)"
proof -
  have "\<not> isRefreshAcquisitionError (ms_LastError s)" if "(m, st) \<in> set (au_ModelStates a)" "reset_if_unauthorized now st = Some s" for m st s
    using reset_error [OF that(2)]
  proof
    assume "st = Some s"
    then show ?thesis
      using that(1) assms by (auto simp: model_errors_plain_def live_states_mem)
  qed (simp add: isRefreshAcquisitionError_def)
  then show ?thesis
    by (auto simp: model_errors_plain_def live_states_mem refreshed_base_fields)
qed

lemma reset_blocks:
  assumes "0 \<le> now" "now \<le> t"
  shows "model_state_blocks (fst (resetUnauthorizedModelStateAfterRefresh s now)) t =
    (if q_Exceeded (ms_Quota s) \<and> q_NextRecoverAt (ms_Quota s) > t
     then (True, BlockReasonCooldown, q_NextRecoverAt (ms_Quota s)) else (False, BlockReasonNone, 0))"
  using assms by (simp add: resetUnauthorizedModelStateAfterRefresh_def resetModelState_def model_state_blocks_def Let_def)

text \<open>What success leaves: the credential lifted from its block, every model reset or as it was, up to expired retries.\<close>

lemma refreshed_state:
  assumes "\<not> au_Disabled a" "au_Status a \<noteq> StatusDisabled" "model_errors_plain a"
    and b: "applyRefreshSuccessState a now = (b, resumed)"
  shows "\<not> au_Disabled b" "au_Status b \<noteq> StatusDisabled" "\<not> RefreshBlocksDispatch (Some b)"
    "model_state_at b m = reset_if_unauthorized now (model_state_at a m)
     \<or> model_state_at b m = map_option (settle now) (reset_if_unauthorized now (model_state_at a m))"
proof -
  let ?c = "refreshed_base a now"
  have b_cases: "b = clearRefreshDispatchBlock ?c now
      \<or> b = ?c \<and> \<not> isRefreshAcquisitionState a \<and> \<not> isUnauthorizedAuthState a"
    using b assms(1,2) by (auto simp: applyRefreshSuccessState_def Let_def)
  have at: "model_state_at ?c m = reset_if_unauthorized now (model_state_at a m)"
    by (rule model_state_at_mapped [OF refreshed_base_fields(1)]) (simp add: reset_if_unauthorized_def)
  have quiet: "\<not> RefreshBlocksDispatch (Some ?c)" if "\<not> isRefreshAcquisitionState a" "\<not> isUnauthorizedAuthState a"
    using that by (intro transient_is_acquisition) (simp_all add: refreshed_base_fields isRefreshAcquisitionState_def)
  show "\<not> au_Disabled b" "au_Status b \<noteq> StatusDisabled"
    using b_cases assms(1,2) by (auto simp: clear_fields refreshed_base_fields)
  show "\<not> RefreshBlocksDispatch (Some b)"
    using b_cases clear_not_blocked [OF refreshed_base_plain [OF assms(3)]] quiet by auto
  have "model_state_at (clearRefreshDispatchBlock ?c now) m = map_option (settle now) (model_state_at ?c m)"
    by (rule model_state_at_mapped [OF clear_fields(1)]) simp
  then show "model_state_at b m = reset_if_unauthorized now (model_state_at a m)
     \<or> model_state_at b m = map_option (settle now) (reset_if_unauthorized now (model_state_at a m))"
    using b_cases at by auto
qed

text \<open>
  A successful refresh restores dispatch exactly.  It lifts every block a refresh had put on the
  credential; a model whose token had been rejected is open again, unless its quota is exhausted, and
  then until the recovery of the quota; every other model is blocked as it was before.
\<close>

theorem refresh_success_restores:
  assumes "\<not> au_Disabled a" "au_Status a \<noteq> StatusDisabled" "model_errors_plain a"
    and "m \<noteq> []" "model_state_at a m = Some s" "0 \<le> now" "now \<le> t"
    and "applyRefreshSuccessState a now = (b, resumed)"
  shows "isAuthBlockedForModel (Some b) m t =
    (if isUnauthorizedModelState (Some s)
     then if q_Exceeded (ms_Quota s) \<and> q_NextRecoverAt (ms_Quota s) > t
          then (True, BlockReasonCooldown, q_NextRecoverAt (ms_Quota s)) else (False, BlockReasonNone, 0)
     else model_state_blocks s t)"
proof -
  note r = refreshed_state [OF assms(1-3,8)]
  obtain s' where s': "reset_if_unauthorized now (Some s) = Some s'"
    by (cases "isUnauthorizedModelState (Some s)") (auto simp: reset_if_unauthorized_def)
  have "isAuthBlockedForModel (Some b) m t = model_state_blocks s' t"
    using r(4) [of m] blocked_by_state [OF r(1-3) assms(4)] settle_blocks [OF assms(7)] assms(5) s' by auto
  moreover have "s' = (if isUnauthorizedModelState (Some s) then fst (resetUnauthorizedModelStateAfterRefresh s now) else s)"
    using s' by (simp add: reset_if_unauthorized_def split: if_splits)
  ultimately show ?thesis
    using reset_blocks [OF assms(6,7)] by simp
qed

subsection \<open>A failure is classified\<close>

lemma codex_not_antigravity: "is_codex a \<Longrightarrow> \<not> antigravityTokenSafeForDispatch tr (Some (a\<lparr>au_Metadata := md\<rparr>)) now"
proof -
  have "to_lower ''codex'' \<noteq> to_lower ''antigravity''"
    by code_simp
  then show "is_codex a \<Longrightarrow> ?thesis"
    by (auto simp: is_codex_def antigravityTokenSafeForDispatch_def equal_fold_def)
qed

lemma fenced_fields [simp]:
  "au_Disabled (fenced sha e a) = au_Disabled a"
  "au_Status (fenced sha e a) = au_Status a"
  "model_errors_plain (fenced sha e a) = model_errors_plain a"
  "unknown_outcome (fenced sha e a) e = unknown_outcome a e"
  "antigravityTokenSafeForDispatch tr (Some (fenced sha e a)) now = antigravityTokenSafeForDispatch tr (Some a) now"
  using codex_not_antigravity [of a tr _ now] codex_not_antigravity [of a tr "au_Metadata a" now]
  by (auto simp: fenced_def model_errors_plain_def unknown_outcome_def is_codex_def)

lemma fenced_expiry:
  "antigravityTokenSafeForDispatch tr (Some a) now \<Longrightarrow> ExpirationTime tr (fenced sha e a) = ExpirationTime tr a"
  using codex_not_antigravity [of a tr "au_Metadata a" now] by (auto simp: fenced_def)

lemma refresh_retry_at_bounds:
  "now < refresh_retry_at tr a now"
  "antigravityTokenSafeForDispatch tr (Some a) now \<Longrightarrow> ExpirationTime tr a = Some x \<Longrightarrow>
   refresh_retry_at tr a now \<le> x - refreshFailureBackoff"
  by (auto simp: refresh_retry_at_def antigravityTokenSafeForDispatch_def Let_def refreshFailureBackoff_def duration_defs
      split: option.splits if_splits)

lemma failure_cases:
  assumes "ApplyRefreshFailureState sha tr io a (Some e) now = (b, f)"
  shows "if isTerminalRefreshAuthError (Some e) \<and> \<not> unknown_outcome a e
    then \<exists>f. b = fst (disableAuthAfterUnauthorized (fenced sha e a) None (Some f) now)
    else \<exists>f. b = (if antigravityTokenSafeForDispatch tr (Some a) now
      then kept_dispatchable (fenced sha e a) (refresh_retry_at tr (fenced sha e a) now) now f
      else refresh_blocked (fenced sha e a) (refresh_retry_at tr (fenced sha e a) now) now f)"
  using assms by (auto simp: ApplyRefreshFailureState_def Let_def split: if_splits)

lemma clear_next_refresh: "au_NextRefreshAfter (clearRefreshDispatchBlock a now) = au_NextRefreshAfter a"
  by (simp add: clearRefreshDispatchBlock_def block_lifted_def updateAggregatedAvailability_eq settle_all_def Let_def
      split: option.split)

lemma blocks_is_acquisition: "RefreshBlocksDispatch (Some a) \<Longrightarrow> isRefreshAcquisitionState a"
  using transient_is_acquisition [of a] by (auto simp: isRefreshAcquisitionState_def)

lemma kept_dispatchable_facts:
  assumes "model_errors_plain a" "\<not> au_Disabled a" "au_Status a \<noteq> StatusDisabled"
  shows "\<not> RefreshBlocksDispatch (Some (kept_dispatchable a retryAt now f))"
    "\<not> au_Disabled (kept_dispatchable a retryAt now f)" "au_Status (kept_dispatchable a retryAt now f) \<noteq> StatusDisabled"
    "au_NextRefreshAfter (kept_dispatchable a retryAt now f) = retryAt"
proof -
  let ?a1 = "a\<lparr>au_LastRefreshError := Some f, au_NextRefreshAfter := retryAt\<rparr>"
  define a2 where "a2 = (if RefreshBlocksDispatch (Some a) \<and> isRefreshAcquisitionState a then clearRefreshDispatchBlock ?a1 now else ?a1)"
  have kept: "kept_dispatchable a retryAt now f =
      (if \<not> hasHigherPriorityExecutionError a2 now
       then a2\<lparr>au_LastError := Some f, au_StatusMessage := [],
              au_Status := (if \<not> au_Disabled a2 \<and> au_Status a2 \<noteq> StatusDisabled then StatusActive else au_Status a2)\<rparr>
       else a2)\<lparr>au_UpdatedAt := now\<rparr>"
    unfolding kept_dispatchable_def a2_def Let_def by simp
  have "RefreshBlocksDispatch (Some ?a1) = RefreshBlocksDispatch (Some a)"
    by (simp add: RefreshBlocksDispatch_def)
  then have a2: "\<not> RefreshBlocksDispatch (Some a2)" "\<not> au_Disabled a2" "au_Status a2 \<noteq> StatusDisabled" "au_NextRefreshAfter a2 = retryAt"
    using assms clear_not_blocked [of ?a1 now] blocks_is_acquisition [of a]
    by (auto simp: a2_def clear_fields clear_next_refresh model_errors_plain_def)
  have "\<not> au_Unavailable a2" if "\<not> hasHigherPriorityExecutionError a2 now"
    using that by (auto simp: hasHigherPriorityExecutionError_def split: if_splits)
  then show "\<not> RefreshBlocksDispatch (Some (kept_dispatchable a retryAt now f))"
    "\<not> au_Disabled (kept_dispatchable a retryAt now f)" "au_Status (kept_dispatchable a retryAt now f) \<noteq> StatusDisabled"
    "au_NextRefreshAfter (kept_dispatchable a retryAt now f) = retryAt"
    using a2 by (auto simp: kept RefreshBlocksDispatch_def)
qed

text \<open>
  A failed refresh is classified.  A failure no retry can heal disables the credential for every
  model.  Any other failure, and every unknown outcome of a Codex grant, leaves it enabled: it is
  blocked from dispatch unless it holds an Antigravity token that is still good, it is not due again before
  the next attempt, which lies in the future, and with such a token the attempt leaves five minutes before
  the token expires.
\<close>

theorem refresh_failure_classified:
  assumes "ApplyRefreshFailureState sha tr io a (Some e) now = (b, f)"
    and "\<not> au_Disabled a" "au_Status a \<noteq> StatusDisabled" "model_errors_plain a" "0 \<le> now"
  shows "if isTerminalRefreshAuthError (Some e) \<and> \<not> unknown_outcome a e
    then au_Disabled b \<and> (\<forall>m t. isAuthBlockedForModel (Some b) m t = (True, BlockReasonDisabled, 0))
    else \<not> au_Disabled b \<and> au_Status b \<noteq> StatusDisabled
      \<and> (RefreshBlocksDispatch (Some b) \<longleftrightarrow> \<not> antigravityTokenSafeForDispatch tr (Some a) now)
      \<and> now < au_NextRefreshAfter b
      \<and> (\<forall>t<au_NextRefreshAfter b. \<not> shouldRefresh tr runtime (Some b) t)
      \<and> (\<forall>x. antigravityTokenSafeForDispatch tr (Some a) now \<and> ExpirationTime tr a = Some x \<longrightarrow>
          au_NextRefreshAfter b \<le> x - refreshFailureBackoff)"
proof (cases "isTerminalRefreshAuthError (Some e) \<and> \<not> unknown_outcome a e")
  case True
  then show ?thesis
    using failure_cases [OF assms(1)] by (auto simp: disableAuthAfterUnauthorized_def isAuthBlockedForModel_def Let_def)
next
  case False
  let ?a = "fenced sha e a"
  let ?at = "refresh_retry_at tr ?a now"
  obtain f where b: "b = (if antigravityTokenSafeForDispatch tr (Some a) now then kept_dispatchable ?a ?at now f
      else refresh_blocked ?a ?at now f)"
    using failure_cases [OF assms(1)] False by (meson)
  have kept: "\<not> RefreshBlocksDispatch (Some (kept_dispatchable ?a ?at now f))" "\<not> au_Disabled (kept_dispatchable ?a ?at now f)"
    "au_Status (kept_dispatchable ?a ?at now f) \<noteq> StatusDisabled" "au_NextRefreshAfter (kept_dispatchable ?a ?at now f) = ?at"
    using kept_dispatchable_facts [of ?a ?at now f] assms(2-4) by simp_all
  have "RefreshBlocksDispatch (Some (refresh_blocked ?a ?at now f))"
    by (simp add: refresh_blocked_def RefreshBlocksDispatch_def)
  then have next_at: "au_NextRefreshAfter b = ?at" and blocked: "RefreshBlocksDispatch (Some b) \<longleftrightarrow> \<not> antigravityTokenSafeForDispatch tr (Some a) now"
    and enabled: "\<not> au_Disabled b" "au_Status b \<noteq> StatusDisabled"
    using b kept assms(2) by (simp_all add: refresh_blocked_def)
  have "now < ?at"
    by (rule refresh_retry_at_bounds)
  moreover have "\<not> shouldRefresh tr runtime (Some b) t" if "t < ?at" for t
    using that next_at \<open>now < ?at\<close> assms(5) by (simp add: shouldRefresh_def)
  moreover have "?at \<le> x - refreshFailureBackoff"
    if "antigravityTokenSafeForDispatch tr (Some a) now" "ExpirationTime tr a = Some x" for x
    using refresh_retry_at_bounds(2) [of tr ?a now x] that fenced_expiry by simp
  ultimately show ?thesis
    using False next_at blocked enabled by auto
qed

subsection \<open>Examples\<close>

definition silent_readers :: time_readers where
  "silent_readers = \<lparr>tr_Parse = (\<lambda>l s. None), tr_ParseDuration = (\<lambda>s. None), tr_ParseFloat = (\<lambda>s. None),
     tr_Int64 = (\<lambda>f. 0), tr_Seconds = (\<lambda>f. 0)\<rparr>"

definition silent_io :: refresh_io where
  "silent_io = \<lparr>io_Safe = (\<lambda>s. s), io_SafeError = (\<lambda>e. []), io_Nano = (\<lambda>t. [])\<rparr>"

abbreviation failed_with :: "string \<Rightarrow> auth" where
  "failed_with text \<equiv> fst (ApplyRefreshFailureState (\<lambda>s. s) silent_readers silent_io (plain_auth ''a'')
     (Some (GoErr (NText text) [])) 1)"

lemma failed_with_eq:
  "ApplyRefreshFailureState (\<lambda>s. s) silent_readers silent_io (plain_auth ''a'') (Some (GoErr (NText text) [])) 1
   = (failed_with text, snd (ApplyRefreshFailureState (\<lambda>s. s) silent_readers silent_io (plain_auth ''a'')
       (Some (GoErr (NText text) [])) 1))"
  by simp

theorem refresh_failure_classified_witness:
  "au_Disabled (failed_with ''error: invalid_grant'')
   \<and> RefreshBlocksDispatch (Some (failed_with ''timeout'')) \<and> \<not> au_Disabled (failed_with ''timeout'')
   \<and> \<not> shouldRefresh silent_readers None (Some (failed_with ''timeout'')) 2"
proof -
  have a: "\<not> au_Disabled (plain_auth ''a'')" "au_Status (plain_auth ''a'') \<noteq> StatusDisabled" "model_errors_plain (plain_auth ''a'')"
    by (simp_all add: plain_auth_def model_errors_plain_def)
  have e: "isTerminalRefreshAuthError (Some (GoErr (NText ''error: invalid_grant'') []))"
    "\<not> isTerminalRefreshAuthError (Some (GoErr (NText ''timeout'') []))"
    "\<not> unknown_outcome (plain_auth ''a'') (GoErr (NText ''error: invalid_grant'') [])"
    "\<not> antigravityTokenSafeForDispatch silent_readers (Some (plain_auth ''a'')) 1"
    "2 < au_NextRefreshAfter (failed_with ''timeout'')"
    by code_simp+
  note classified = refresh_failure_classified [OF failed_with_eq a, where runtime = None]
  show ?thesis
    using classified [of "''error: invalid_grant''"] classified [of "''timeout''"] e by simp
qed

definition rejected_auth :: auth where
  "rejected_auth = (plain_auth ''a'')\<lparr>au_Unavailable := True, au_RuntimeRefreshBlocked := True,
     au_LastError := Some newTransientRefreshError,
     au_ModelStates := [(''m'', Some (active_state\<lparr>ms_Status := StatusDisabled, ms_StatusMessage := ''unauthorized''\<rparr>))]\<rparr>"

theorem refresh_success_restores_witness:
  "isAuthBlockedForModel (Some rejected_auth) ''m'' 5 = (True, BlockReasonOther, 0)
   \<and> isAuthBlockedForModel (Some (fst (applyRefreshSuccessState rejected_auth 3))) ''m'' 5 = (False, BlockReasonNone, 0)"
proof -
  let ?s = "active_state\<lparr>ms_Status := StatusDisabled, ms_StatusMessage := ''unauthorized''\<rparr>"
  have a: "\<not> au_Disabled rejected_auth" "au_Status rejected_auth \<noteq> StatusDisabled" "model_errors_plain rejected_auth"
    "model_state_at rejected_auth ''m'' = Some ?s"
    by (simp_all add: rejected_auth_def plain_auth_def model_errors_plain_def active_state_def model_state_at_def
        isRefreshAcquisitionError_def gomap_get_def)
  have "isUnauthorizedModelState (Some ?s)" "\<not> q_Exceeded (ms_Quota ?s)"
    "isAuthBlockedForModel (Some rejected_auth) ''m'' 5 = (True, BlockReasonOther, 0)"
    by code_simp+
  then show ?thesis
    using refresh_success_restores [OF a(1-3) _ a(4) _ _ prod.collapse [symmetric], of 3 5] by simp
qed

end
