(* ===== verification/Spec2Isabelle.thy ===== *)
theory Spec2Isabelle
  imports Session_Affinity Cooldown_State Model_Registry Billing_Roundtrip KV_Handlers Cluster_Guarantees Scheduler_Guarantees Refresh_Guarantees Codex_Guarantees Codex_Receipts Refresh_State
begin

text \<open>
  CLIProxyAPIHome is the home node of a proxy for model providers: it keeps the pool of upstream
  credentials of a cluster, chooses one for every request, learns from the results which credentials to
  leave alone and for how long, prices the usage, and serves its nodes over a Redis-like protocol.  This
  library models the core logic of these parts, as functions translated from the Go code, and proves
  what makes them correct.

  \<^bold>\<open>Parts and theories.\<close>

  \<^item> \<open>Home_Prelude\<close>: how Go values are represented (strings, maps, times, \<^verbatim>\<open>int64\<close>, dynamic values), with
    the lemmas all theories share.
  \<^item> \<open>Credential_Weight\<close> (\<^verbatim>\<open>internal/credentialweight\<close>): reading and clamping a credential's weight.
  \<^item> \<open>Auth_Model\<close> (\<^verbatim>\<open>internal/cliproxy/auth/types.go\<close>, \<^verbatim>\<open>errors.go\<close>, \<^verbatim>\<open>status.go\<close>, \<^verbatim>\<open>model_suffix.go\<close>): the
    credential with its per-model states, quota, ring of recent requests, and the question whether a model
    is blocked on it (\<open>isAuthBlockedForModel\<close>).
  \<^item> \<open>Dispatch_Options\<close> (\<^verbatim>\<open>options.go\<close>, \<^verbatim>\<open>dispatch_filter.go\<close>, \<^verbatim>\<open>credential_policy.go\<close>): what a request says
    about the credentials that may serve it.
  \<^item> \<open>Selectors\<close> (\<^verbatim>\<open>selector.go\<close>): the pool of usable credentials of the highest priority, round robin
    and fill first; the locales \<open>dispatch_selector\<close> and \<open>complete_selector\<close> are what a selector promises.
  \<^item> \<open>Smooth_Weighted\<close> (\<^verbatim>\<open>selector_weighted.go\<close>): smooth weighted round robin on saturating 64-bit
    credits, refining an abstract scheduler over unbounded integers.
  \<^item> \<open>Session_IDs\<close>, \<open>Session_Affinity\<close> (\<^verbatim>\<open>selector.go\<close>, \<^verbatim>\<open>session_cache.go\<close>, \<^verbatim>\<open>session_affinity_store.go\<close>):
    the identifier of a conversation and the selector that keeps a conversation on its credential
    through a compare-and-swap store (locale \<open>session_store\<close>).
  \<^item> \<open>Result_Machine\<close> (\<^verbatim>\<open>result.go\<close>): the transition of a credential on a result, quota windows with
    exponential backoff, and the aggregation of model states.
  \<^item> \<open>Cooldown_State\<close> (\<^verbatim>\<open>cooldown.go\<close>, \<^verbatim>\<open>result.go\<close>): clearing cooldowns, and merging and adopting the
    state that other nodes persisted.
  \<^item> \<open>Dispatch_Availability\<close> (\<^verbatim>\<open>manager.go\<close>): whether a credential can be dispatched for a model, and what
    a retry round waits for; \<open>Auth_Scheduler\<close> (\<^verbatim>\<open>scheduler.go\<close>): the incremental index of the manager, with a
    shard per provider and model, its promotions, picks over one or several providers, and summaries.
  \<^item> \<open>Scheduler_Index\<close>, \<open>Scheduler_Shard\<close>, \<open>Scheduler_Pick\<close>, \<open>Scheduler_State\<close>, \<open>Scheduler_Mixed\<close>: that
    the indexes are those of the entries, what time changes in an entry, what a pick finds, the invariant
    of the scheduler over any view of the credentials that keeps their IDs (locale \<open>credential_view\<close>),
    and the walk over several providers; \<open>Scheduler_Guarantees\<close>: the scheduler under the manager's cooling
    policy, its runs (\<open>sched_reach\<close>) and its properties.
  \<^item> \<open>Token_Times\<close> (\<^verbatim>\<open>types.go\<close>, \<^verbatim>\<open>manager.go\<close>, \<^verbatim>\<open>refresh_registry.go\<close>): expiry, interval and lead of a
    credential; \<open>Refresh_Due\<close>: whether it is due (\<^verbatim>\<open>shouldRefresh\<close>) and when to look again
    (\<^verbatim>\<open>nextRefreshCheckAt\<close>); \<open>Refresh_Heap\<close>, \<open>Refresh_Loop\<close> (\<^verbatim>\<open>auto_refresh_loop.go\<close>): the heap of next checks
    and the loop over it; \<open>Refresh_Queue\<close>: heap and index as a map with deadlines (locale \<open>timer_queue\<close>);
    \<open>Refresh_World\<close>, \<open>Refresh_Guarantees\<close>: the loop, its workers and the credentials as a transition system;
    \<open>Refresh_State\<close> (\<^verbatim>\<open>manager.go\<close>): the state a failed, unsupported or successful refresh leaves.
  \<^item> \<open>Codex_Outcome\<close> (\<^verbatim>\<open>internal/auth/oautherror\<close>, \<^verbatim>\<open>internal/auth/codex/refresh_outcome.go\<close>): failures of a
    token refresh and the fences of grants whose refresh has an unknown outcome; \<open>Codex_Journal\<close>
    (\<^verbatim>\<open>refresh_journal.go\<close>, \<^verbatim>\<open>openai_auth.go\<close>, \<^verbatim>\<open>cluster/codex_refresh_journal.go\<close>): the exchange of a grant under a
    claim in the shared table; \<open>Codex_Guarantees\<close>: callers in any number of processes as a transition
    system; \<open>Codex_Receipts\<close>: what later callers learn from receipts and fences.
  \<^item> \<open>Model_Registry\<close> (\<^verbatim>\<open>internal/registry/model_registry.go\<close>): which models exist, counted by client.
  \<^item> \<open>Billing_Expr\<close>, \<open>Billing_Parser\<close>, \<open>Billing_Roundtrip\<close> (\<^verbatim>\<open>internal/billingexpr\<close>): the language of
    pricing expressions, its evaluation and types, its lexer and parser, and the proof that a tree written
    as text is read back.
  \<^item> \<open>KV_Store\<close> (\<^verbatim>\<open>internal/cluster/kv_store.go\<close>): the key-value table with versions, expiry and delayed
    deletions, refining an abstract expiring map (locale \<open>kv_service\<close>).
  \<^item> \<open>Dispatch_Registry\<close>, \<open>KV_Handlers\<close> (\<^verbatim>\<open>internal/respserver\<close>): the dispatch of a command to its
    handler and the commands on the key-value store, down to their error texts.
  \<^item> \<open>Session_Store\<close> (\<^verbatim>\<open>cluster/session_affinity.go\<close>): the session bindings in the shared database; its
    conditional statement satisfies the contract \<open>session_store\<close>, so the selector's theorems hold over it.
  \<^item> \<open>Cluster_Tables\<close> (\<^verbatim>\<open>cluster/models.go\<close>, \<^verbatim>\<open>concurrency_models.go\<close>, \<^verbatim>\<open>lifecycle_config.go\<close>): the shared tables
    and the lifecycle configuration; \<open>Home_Lifecycle\<close> (\<^verbatim>\<open>home_incarnation.go\<close>, \<^verbatim>\<open>membership.go\<close>) the Homes and the
    memberships of the nodes; \<open>Quiescence\<close> (\<^verbatim>\<open>quiescence.go\<close>) the two-phase cancellation of a membership;
    \<open>Concurrency_Policy\<close> (\<^verbatim>\<open>concurrency_policy.go\<close>, \<^verbatim>\<open>concurrency_exchange.go\<close>) the limits and the activation
    gate; \<open>Concurrency_Limiter\<close> (\<^verbatim>\<open>concurrency_admission.go\<close>, \<^verbatim>\<open>concurrency_release.go\<close>) admission and release.
  \<^item> \<open>Cluster_Protocol\<close>: these operations as one transition system \<open>cluster_step\<close>, the abstract protocol
    \<open>protocol_step\<close>, and the refinement of each operation; \<open>Cluster_Invariants\<close>, \<open>Cluster_Safety\<close> and
    \<open>Cluster_Limits\<close>: the invariants by rule induction on the protocol and the effects of the operations;
    \<open>Cluster_Guarantees\<close>: the properties over all reachable tables.

  \<^bold>\<open>How state and operations correspond.\<close>  A struct is a record with the fields the modelled operations
  use, an enumeration a datatype, a map an association list whose order is one possible visiting order,
  a mutex-protected operation or a database transaction one step.  Clock readings, random identifiers and
  the answers of other operations in between are arguments, in the order in which the code asks for them.
  Errors are the left side of a sum.  Code outside the repository is a parameter: JSON access,
  \<^verbatim>\<open>float64\<close> arithmetic, the time zone database, digests.

  \<^bold>\<open>What the lemmas show.\<close>  Each theory closes with its properties, numbered as claims.  They cover
  exact fairness and bounds of the selectors; stickiness, eligibility and termination of session affinity
  under interference; when a failure blocks a model and for how long; that clearing, merging and adoption
  of cooldowns neither lose nor reopen a block; that the scheduler picks only dispatchable credentials and
  misses none unless a quota recovers later than its model is retried, and that its index and sums are
  those of a full scan; that the refresh loop never sleeps past a credential that is due, and that a grant
  of Codex is sent at most once; the reference counts of the model registry; types, totality and the round
  trip of pricing expressions, and that folding token buckets bills each token once; the
  refinement of the key-value store, its locks, counters and lazy deletion; the cluster protocol: limits
  that no interleaving exceeds, the gate that lets only enforcing participants in, safe and live
  cancellation, lifetimes that stay ended; and the errors found.

  \<^bold>\<open>Bounds and fuel.\<close>  The compare-and-swap loop of session affinity runs over the list of its attempts,
  and returns on the first undisturbed one.  The weighted selector is exact for pools of up to 1,000,000
  credentials with weights of up to 1,000,000 each.  The binding cache holds 65,536 entries.  The expression parser has fuel
  \<open>6 * length tokens + 6\<close>, which no token list exhausts (\<open>compile_body_ends\<close>).  A chain of receipts is
  followed for 1024 grants, as in the code.

  \<^bold>\<open>Not modelled.\<close>  Input and output: HTTP servers and clients, OAuth flows, the RESP wire format, SQL and
  schema migrations, files, logging, e-mail, proxies.  Management and user interfaces, which read and
  write rows.  Of the modelled components: log lines, JSON rendering of errors, and errors of the database
  itself, except in the journal of Codex grants.  The dispatch loop of the manager and the orchestration of a refresh (\<^verbatim>\<open>manager.go\<close>), the
  requests of the refreshers (\<^verbatim>\<open>refresh.go\<close>), the sharing of one flight within a process and the migration of
  old fences, token accounting and price matching (\<^verbatim>\<open>internal/cluster\<close>), quota snapshots, the snapshots of
  requests in flight, and rebalancing are not modelled either: they wrap the modelled decisions in
  goroutines, executors and SQL aggregation.
\<close>

end
